(* ===== verification/Prelude.thy ===== *)
theory Prelude
  imports Main "HOL-Library.Word"
begin

text \<open>
  Shared vocabulary of the development: the machine integer types of the sources,
  alignment arithmetic, bit-fields, the little-endian byte encoding behind every
  \<open>read_mem<T>\<close> and \<open>write_mem<T>\<close>, and the error values that stand for the C++
  exceptions. The collections below carry the component proofs:
  \<open>word_nat\<close> moves word comparisons and sums to \<open>unat\<close>; \<open>bf_simps\<close> reads fields
  back out of built entries.
\<close>

unbundle bit_operations_syntax

named_theorems word_nat
named_theorems bf_simps

type_synonym u8 = "8 word"
type_synonym u16 = "16 word"
type_synonym u32 = "32 word"
type_synonym u64 = "64 word"
type_synonym addr = u64

section \<open>Thrown exceptions\<close>

text \<open>
  The messages of the \<open>std::runtime_error\<close>s the modelled code throws. \<open>Does_not_return\<close> is no
  exception: it is the value of a loop that used up the steps its model allows it.
  \<open>Out_of_bounds\<close> is an access outside an array of the host or through a null pointer, which C++
  leaves undefined.
\<close>

datatype emu_error =
    Out_of_guest_physical_memory
  | Unmapped_virtual_address
  | Invalid_address_space_type
  | Null_address_space
  | Does_not_return
  | Out_of_bounds

abbreviation throw :: "emu_error \<Rightarrow> emu_error + 'a" where
  "throw e \<equiv> Inl e"

abbreviation bind_result :: "emu_error + 'a \<Rightarrow> ('a \<Rightarrow> emu_error + 'b) \<Rightarrow> emu_error + 'b" where
  "bind_result r f \<equiv> (case r of Inl e \<Rightarrow> Inl e | Inr x \<Rightarrow> f x)"

section \<open>Alignment\<close>

definition align_down :: "u64 \<Rightarrow> u64 \<Rightarrow> u64" where
  "align_down to a = a AND NOT (to - 1)"

definition align_up :: "u64 \<Rightarrow> u64 \<Rightarrow> u64" where
  "align_up to s = (s + to - 1) AND NOT (to - 1)"

lemma align_up_alt: "align_up to s = align_down to (s + (to - 1))"
  by (simp add: align_up_def align_down_def algebra_simps)

lemma unat_take_bit_word: "unat (take_bit n (a :: u64)) = unat a mod 2 ^ n"
  by (simp only: unsigned_take_bit_eq) (simp add: take_bit_eq_mod)

lemma take_bit_64 [simp]: "take_bit 64 (a :: u64) = a"
  using take_bit_length_eq [of a] by simp

lemma take_bit_le_word: "take_bit n (a :: u64) \<le> a"
  by (simp add: word_le_nat_alt unat_take_bit_word)

lemma align_down_shift: "align_down (2 ^ n) a = push_bit n (drop_bit n a)"
  unfolding align_down_def mask_eq_exp_minus_1 [symmetric]
  by (rule bit_eqI) (auto simp: bit_simps)

lemma align_down_pow: "align_down (2 ^ n) a = a - take_bit n a"
  using bits_ident [of n a] by (simp add: align_down_shift algebra_simps)

lemma unat_align_down: "unat (align_down (2 ^ n) a) = unat a div 2 ^ n * 2 ^ n"
  by (simp add: align_down_pow unat_sub [OF take_bit_le_word] unat_take_bit_word
      minus_mod_eq_div_mult)

lemma unat_lt64: "unat (a :: u64) < 2 ^ 64"
  using unsigned_less [of a] by simp

lemma unat_add_no_overflow [word_nat]:
  "unat (a :: u64) + unat b < 2 ^ 64 \<Longrightarrow> unat (a + b) = unat a + unat b"
  using unat_add_lem [of a b] by simp

lemma unat_sub_le [word_nat]: "unat b \<le> unat (a :: u64) \<Longrightarrow> unat (a - b) = unat a - unat b"
  by (simp add: unat_sub word_le_nat_alt)

lemma unat_of_nat64 [word_nat]: "n < 2 ^ 64 \<Longrightarrow> unat (of_nat n :: u64) = n"
  by (simp add: unat_of_nat take_bit_eq_mod)

lemma unat_pow2: "unat ((2 :: u64) ^ n) = 2 ^ n" if "n < 64"
proof -
  have "unat (push_bit n (1 :: u64)) = take_bit 64 (push_bit n (unat (1 :: u64)))"
    by (simp only: unsigned_push_bit_eq) simp
  moreover have "(2 :: nat) ^ n < 2 ^ 64"
    using that by (rule power_strict_increasing) simp
  ultimately show ?thesis
    by (simp add: push_bit_eq_mult take_bit_eq_mod)
qed

lemma unat_pow2_minus1: "n < 64 \<Longrightarrow> unat ((2 :: u64) ^ n - 1) = 2 ^ n - 1"
  by (simp add: unat_minus_one unat_pow2)

lemma unat_align_up:
  assumes "n < 64" and "unat s + 2 ^ n - 1 < 2 ^ 64"
  shows "unat (align_up (2 ^ n) s) = (unat s + 2 ^ n - 1) div 2 ^ n * 2 ^ n"
proof -
  have "unat (s + (2 ^ n - 1)) = unat s + (2 ^ n - 1)"
    using assms by (subst unat_add_no_overflow) (auto simp: unat_pow2_minus1)
  then show ?thesis
    by (simp add: align_up_alt unat_align_down)
qed

lemma align_down_idem: "align_down (2 ^ n) (align_down (2 ^ n) a) = align_down (2 ^ n) a"
  by (rule bit_eqI) (auto simp: align_down_shift bit_simps)

lemma align_down_le: "align_down (2 ^ n) a \<le> a"
  by (simp add: word_le_nat_alt unat_align_down)

lemma align_down_gap: "unat a < unat (align_down (2 ^ n) a) + 2 ^ n"
proof -
  have "unat a mod 2 ^ n < 2 ^ n" by simp
  then show ?thesis
    unfolding unat_align_down using div_mult_mod_eq [of "unat a" "2 ^ n"] by linarith
qed

section \<open>Bit-fields\<close>

text \<open>
  A C++ bit-field is a run of bits of its storage word: the offset of its lowest bit
  and its width. A store keeps the low bits of the value and every other field.
\<close>

type_synonym bitfield = "nat \<times> nat"

definition bf_get :: "bitfield \<Rightarrow> u64 \<Rightarrow> u64" where
  "bf_get f w = take_bit (snd f) (drop_bit (fst f) w)"

definition bf_set :: "bitfield \<Rightarrow> u64 \<Rightarrow> u64 \<Rightarrow> u64" where
  "bf_set f v w =
     (w AND NOT (push_bit (fst f) (mask (snd f)))) OR push_bit (fst f) (take_bit (snd f) v)"

definition bf_within :: "bitfield \<Rightarrow> bool" where
  "bf_within f \<longleftrightarrow> fst f + snd f \<le> 64"

definition bf_disjoint :: "bitfield \<Rightarrow> bitfield \<Rightarrow> bool" where
  "bf_disjoint f g \<longleftrightarrow> fst f + snd f \<le> fst g \<or> fst g + snd g \<le> fst f"

lemma bf_disjoint_sym: "bf_disjoint f g \<Longrightarrow> bf_disjoint g f"
  by (auto simp: bf_disjoint_def)

lemma bf_get_set_same [bf_simps]:
  "bf_within f \<Longrightarrow> bf_get f (bf_set f v w) = take_bit (snd f) v"
  by (rule bit_eqI) (auto simp: bf_get_def bf_set_def bf_within_def bit_simps dest: bit_imp_le_length)

lemma bf_get_set_other [bf_simps]:
  "bf_disjoint f g \<Longrightarrow> bf_get f (bf_set g v w) = bf_get f w"
  by (rule bit_eqI) (auto simp: bf_get_def bf_set_def bf_disjoint_def bit_simps dest: bit_imp_le_length)

lemma bf_get_zero [bf_simps]: "bf_get f 0 = 0"
  by (simp add: bf_get_def)

section \<open>Low and high bits\<close>

lemma and_not_mask: "(a :: 'a::len word) AND NOT (mask n) = push_bit n (drop_bit n a)"
  by (rule bit_word_eqI) (auto simp: bit_simps)

lemma or_split: "a < 2 ^ k \<Longrightarrow> push_bit k (of_nat b) OR of_nat a = (of_nat (b * 2 ^ k + a) :: 'a::len word)"
proof -
  assume a: "a < 2 ^ k"
  let ?x = "b * 2 ^ k + a"
  have x: "drop_bit k ?x = b" "take_bit k ?x = a" using a by (simp_all add: drop_bit_eq_div take_bit_eq_mod)
  have "push_bit k (drop_bit k ?x) OR take_bit k ?x = ?x"
    by (rule bit_eqI) (auto simp: bit_simps)
  then have "push_bit k b OR a = ?x" by (simp only: x)
  then show ?thesis by (simp only: of_nat_or_eq push_bit_of_nat flip: \<open>push_bit k b OR a = ?x\<close>)
qed

section \<open>Little-endian values\<close>

text \<open>
  \<open>read_mem<T>\<close> and \<open>write_mem<T>\<close> copy the object representation of a scalar, which on
  both targets is little-endian.
\<close>

fun le_enc :: "nat \<Rightarrow> 'a::len word \<Rightarrow> u8 list" where
  "le_enc 0 w = []"
| "le_enc (Suc n) w = ucast w # le_enc n (drop_bit 8 w)"

fun le_dec :: "u8 list \<Rightarrow> 'a::len word" where
  "le_dec [] = 0"
| "le_dec (b # bs) = ucast b OR push_bit 8 (le_dec bs)"

lemma length_le_enc [simp]: "length (le_enc n w) = n"
  by (induction n w rule: le_enc.induct) auto

lemma le_dec_enc: "le_dec (le_enc n w) = take_bit (8 * n) (w :: 'a::len word)"
proof (induction n arbitrary: w)
  case 0
  then show ?case by simp
next
  case (Suc n)
  show ?case
    unfolding le_enc.simps le_dec.simps Suc.IH
    by (rule bit_eqI) (auto simp: bit_simps)
qed

lemma bit_le_dec: "bit (le_dec bs :: 'a::len word) n \<Longrightarrow> n < 8 * length bs"
proof (induction bs arbitrary: n)
  case Nil
  then show ?case by simp
next
  case (Cons b bs)
  from Cons.prems consider "bit b n" | "8 \<le> n" "bit (le_dec bs :: 'a word) (n - 8)"
    by (auto simp: bit_simps)
  then show ?case
  proof cases
    case 1
    then show ?thesis by (auto dest: bit_imp_le_length)
  next
    case 2
    with Cons.IH [of "n - 8"] show ?thesis by auto
  qed
qed

lemma le_enc_dec:
  "8 * length bs \<le> LENGTH('a) \<Longrightarrow> le_enc (length bs) (le_dec bs :: 'a::len word) = bs"
proof (induction bs)
  case Nil
  then show ?case by simp
next
  case (Cons b bs)
  have "ucast (ucast b OR push_bit 8 (le_dec bs) :: 'a word) = b"
    using Cons.prems by (intro bit_eqI) (auto simp: bit_simps)
  moreover have "drop_bit 8 (ucast b OR push_bit 8 (le_dec bs) :: 'a word)
      = le_dec bs"
    using Cons.prems
    by (intro bit_eqI) (auto simp: bit_simps dest: bit_imp_le_length bit_le_dec)
  ultimately show ?case
    using Cons by simp
qed

end
