(* ===== verification/Std_Map.thy ===== *)
theory Std_Map
  imports Prelude "HOL-Library.AList"
begin

text \<open>
  \<open>std::map\<close> as the sources use it: an association list in ascending key order, with
  \<open>find\<close>, \<open>operator[]\<close>, \<open>emplace\<close>, \<open>erase\<close>, the bounds and iteration. An iterator is the
  suffix it starts. The locale \<open>finite_map\<close> is the contract the clients of a map rely on.
  The second half is about maps from addresses to regions: \<open>tiled\<close> says the regions are
  disjoint and lie in a window, and \<open>region_at\<close> is the lookup by \<open>upper_bound\<close> and \<open>prev\<close>
  every region map of the sources performs.
\<close>

section \<open>Operations\<close>

definition smap_find :: "'k \<Rightarrow> ('k \<times> 'v) list \<Rightarrow> 'v option" where
  "smap_find k m = map_of m k"

fun smap_set :: "'k::linorder \<Rightarrow> 'v \<Rightarrow> ('k \<times> 'v) list \<Rightarrow> ('k \<times> 'v) list" where
  "smap_set k v [] = [(k, v)]"
| "smap_set k v ((j, w) # m) =
     (if k < j then (k, v) # (j, w) # m
      else if k = j then (k, v) # m
      else (j, w) # smap_set k v m)"

definition smap_emplace :: "'k::linorder \<Rightarrow> 'v \<Rightarrow> ('k \<times> 'v) list \<Rightarrow> ('k \<times> 'v) list" where
  "smap_emplace k v m = (if k \<in> fst ` set m then m else smap_set k v m)"

definition smap_erase :: "'k \<Rightarrow> ('k \<times> 'v) list \<Rightarrow> ('k \<times> 'v) list" where
  "smap_erase k m = filter (\<lambda>e. fst e \<noteq> k) m"

definition lower_bound :: "'k::linorder \<Rightarrow> ('k \<times> 'v) list \<Rightarrow> ('k \<times> 'v) list" where
  "lower_bound k m = dropWhile (\<lambda>e. fst e < k) m"

definition upper_bound :: "'k::linorder \<Rightarrow> ('k \<times> 'v) list \<Rightarrow> ('k \<times> 'v) list" where
  "upper_bound k m = dropWhile (\<lambda>e. fst e \<le> k) m"

text \<open>\<open>std::prev(upper_bound(k))\<close>, absent when that is the beginning.\<close>

definition floor_entry :: "'k::linorder \<Rightarrow> ('k \<times> 'v) list \<Rightarrow> ('k \<times> 'v) option" where
  "floor_entry k m =
     (let before = takeWhile (\<lambda>e. fst e \<le> k) m in if before = [] then None else Some (last before))"

definition sorted_keys :: "('k::linorder \<times> 'v) list \<Rightarrow> bool" where
  "sorted_keys m \<longleftrightarrow> sorted_wrt (<) (map fst m)"

section \<open>The contract of a finite map\<close>

lemma option_ext: "(\<And>r. x = Some r \<longleftrightarrow> y = Some r) \<Longrightarrow> x = y"
  by (cases x; cases y) auto

lemma smap_set_keys: "fst ` set (smap_set k v m) = insert k (fst ` set m)"
  by (induction k v m rule: smap_set.induct) auto

lemma sorted_keys_Cons:
  "sorted_keys ((k, v) # m) \<longleftrightarrow> (\<forall>e \<in> set m. k < fst e) \<and> sorted_keys m"
  by (auto simp: sorted_keys_def)

lemma sorted_keys_Nil [simp]: "sorted_keys []"
  by (simp add: sorted_keys_def)

lemma sorted_set: "sorted_keys m \<Longrightarrow> sorted_keys (smap_set k v m)"
proof (induction k v m rule: smap_set.induct)
  case (2 k v j w m)
  have keys: "(\<forall>e \<in> set (smap_set k v m). j < fst e) \<longleftrightarrow> j < k \<and> (\<forall>e \<in> set m. j < fst e)"
    using smap_set_keys [of k v m] by (metis (no_types, lifting) imageE image_eqI insert_iff)
  from 2 show ?case by (auto simp: sorted_keys_Cons keys)
qed (simp add: sorted_keys_Cons)

lemma sorted_erase: "sorted_keys m \<Longrightarrow> sorted_keys (smap_erase k m)"
  by (induction m) (auto simp: smap_erase_def sorted_keys_Cons)

lemma find_set: "smap_find j (smap_set k v m) = (if j = k then Some v else smap_find j m)"
  by (induction k v m rule: smap_set.induct) (auto simp: smap_find_def)

lemma find_erase: "smap_find j (smap_erase k m) = (if j = k then None else smap_find j m)"
  by (induction m) (auto simp: smap_find_def smap_erase_def)

lemma find_emplace:
  "smap_find j (smap_emplace k v m) =
     (if j = k \<and> smap_find k m = None then Some v else smap_find j m)"
  using find_set [of j k v m] by (auto simp: smap_emplace_def smap_find_def map_of_eq_None_iff)

locale finite_map =
  fixes find :: "'k \<Rightarrow> 'm \<Rightarrow> 'v option" and update :: "'k \<Rightarrow> 'v \<Rightarrow> 'm \<Rightarrow> 'm"
    and erase :: "'k \<Rightarrow> 'm \<Rightarrow> 'm" and inv :: "'m \<Rightarrow> bool"
  assumes find_update: "find j (update k v m) = (if j = k then Some v else find j m)"
    and find_erased: "find j (erase k m) = (if j = k then None else find j m)"
    and inv_update: "inv m \<Longrightarrow> inv (update k v m)" and inv_erase: "inv m \<Longrightarrow> inv (erase k m)"
begin

definition content :: "'m \<Rightarrow> 'k \<Rightarrow> 'v option" where
  "content m k = find k m"

lemma content_update: "content (update k v m) = (content m)(k \<mapsto> v)"
  by (rule ext) (simp add: content_def find_update)

lemma content_erase: "content (erase k m) = (content m)(k := None)"
  by (rule ext) (simp add: content_def find_erased)

lemma erase_update: "content (erase k (update k v m)) = (content m)(k := None)"
  by (simp add: content_erase content_update)

lemma update_commute:
  "j \<noteq> k \<Longrightarrow> content (update j v (update k w m)) = content (update k w (update j v m))"
  by (simp add: content_update fun_upd_twist)

end

interpretation smap: finite_map smap_find smap_set smap_erase sorted_keys
  by unfold_locales (simp_all add: find_set find_erase sorted_set sorted_erase)

section \<open>Unordered maps\<close>

text \<open>
  \<open>std::unordered_map\<close>: an association list in the order an iteration happens to meet it.
\<close>

definition umap_set :: "'k \<Rightarrow> 'v \<Rightarrow> ('k \<times> 'v) list \<Rightarrow> ('k \<times> 'v) list" where
  "umap_set k v m = AList.update k v m"

definition umap_erase :: "'k \<Rightarrow> ('k \<times> 'v) list \<Rightarrow> ('k \<times> 'v) list" where
  "umap_erase k m = AList.delete k m"

definition umap_find :: "'k \<Rightarrow> ('k \<times> 'v) list \<Rightarrow> 'v option" where
  "umap_find k m = map_of m k"

definition umap_ok :: "('k \<times> 'v) list \<Rightarrow> bool" where
  "umap_ok m \<longleftrightarrow> distinct (map fst m)"


lemma umap_find_set: "umap_find j (umap_set k v m) = (if j = k then Some v else umap_find j m)"
  by (simp add: umap_find_def umap_set_def update_conv)

lemma umap_find_erase: "umap_find j (umap_erase k m) = (if j = k then None else umap_find j m)"
  by (simp add: umap_find_def umap_erase_def delete_conv)

lemma umap_ok_set: "umap_ok m \<Longrightarrow> umap_ok (umap_set k v m)"
  by (simp add: umap_ok_def umap_set_def distinct_update)

lemma umap_ok_erase: "umap_ok m \<Longrightarrow> umap_ok (umap_erase k m)"
  by (simp add: umap_ok_def umap_erase_def distinct_delete)

interpretation umap: finite_map umap_find umap_set umap_erase umap_ok
  by unfold_locales (simp_all add: umap_find_set umap_find_erase umap_ok_set umap_ok_erase)

lemmas umap_simps [simp] = umap_find_set umap_find_erase umap_ok_set umap_ok_erase

lemma umap_find_Nil [simp]: "umap_find k [] = None"
  by (simp add: umap_find_def)

lemma umap_set_range: "snd ` set (umap_set k v m) \<subseteq> insert v (snd ` set m)"
  unfolding umap_set_def by (induction m) auto

lemma umap_keys: "(\<exists>v. umap_find k m = Some v) \<longleftrightarrow> k \<in> fst ` set m"
  by (metis map_of_eq_None_iff not_None_eq umap_find_def)

section \<open>Maps of regions\<close>

text \<open>
  \<open>tiled sz lo hi m\<close>: the regions of \<open>m\<close>, each of a positive size, follow one another without
  overlap inside the window from \<open>lo\<close> to \<open>hi\<close>.
\<close>

fun tiled :: "('v \<Rightarrow> u64) \<Rightarrow> nat \<Rightarrow> nat \<Rightarrow> (addr \<times> 'v) list \<Rightarrow> bool" where
  "tiled sz lo hi [] \<longleftrightarrow> lo \<le> hi"
| "tiled sz lo hi ((k, v) # m) \<longleftrightarrow>
     lo \<le> unat k \<and> 0 < unat (sz v) \<and> tiled sz (unat k + unat (sz v)) hi m"

definition region_at :: "('v \<Rightarrow> u64) \<Rightarrow> (addr \<times> 'v) list \<Rightarrow> addr \<Rightarrow> (addr \<times> 'v) option" where
  "region_at sz m a =
     (case floor_entry a m of
        None \<Rightarrow> None
      | Some (k, v) \<Rightarrow> if a < k + sz v then Some (k, v) else None)"

lemma tiled_window: "tiled sz lo hi m \<Longrightarrow> lo \<le> hi"
proof (induction m arbitrary: lo)
  case (Cons e m)
  obtain j w where e: "e = (j, w)" by (cases e)
  with Cons.prems have h: "lo \<le> unat j" "tiled sz (unat j + unat (sz w)) hi m" by auto
  from h(1) Cons.IH [OF h(2)] show ?case by linarith
qed simp

lemma tiled_mono: "tiled sz lo hi m \<Longrightarrow> lo' \<le> lo \<Longrightarrow> hi \<le> hi' \<Longrightarrow> tiled sz lo' hi' m"
proof (induction m arbitrary: lo lo')
  case (Cons e m)
  then show ?case by (cases e) (auto simp del: tiled.simps(1))
qed simp

lemma tiled_append:
  "tiled sz lo hi (xs @ ys) \<longleftrightarrow> (\<exists>mid. tiled sz lo mid xs \<and> tiled sz mid hi ys)"
proof (induction xs arbitrary: lo)
  case Nil
  show ?case using tiled_mono [of sz _ hi ys lo hi] by auto
next
  case (Cons e xs)
  then show ?case by (cases e) auto
qed

lemma tiled_bounds:
  "tiled sz lo hi m \<Longrightarrow> (k, v) \<in> set m \<Longrightarrow>
     lo \<le> unat k \<and> 0 < unat (sz v) \<and> unat k + unat (sz v) \<le> hi"
proof (induction m arbitrary: lo)
  case (Cons e m)
  obtain j w where e: "e = (j, w)" by (cases e)
  with Cons.prems have h: "lo \<le> unat j" "0 < unat (sz w)" "tiled sz (unat j + unat (sz w)) hi m" by auto
  show ?case
  proof (cases "(k, v) = (j, w)")
    case True
    with h tiled_window [OF h(3)] show ?thesis by simp
  next
    case False
    with Cons.prems(2) have "(k, v) \<in> set m" by (auto simp: e)
    from Cons.IH [OF h(3) this] h show ?thesis by linarith
  qed
qed simp

lemma tiled_sorted: "tiled sz lo hi m \<Longrightarrow> sorted_keys m"
proof (induction m arbitrary: lo)
  case (Cons e m)
  obtain k v where e: "e = (k, v)" by (cases e)
  have "k < fst x" if "x \<in> set m" for x
    using tiled_bounds [of sz "unat k + unat (sz v)" hi m "fst x" "snd x"] Cons.prems that
    by (auto simp: e word_less_nat_alt)
  with Cons show ?case by (auto simp: e sorted_keys_Cons)
qed simp

lemma floor_entry_Cons:
  "floor_entry a ((k, v) # m) =
     (if k \<le> a then (case floor_entry a m of None \<Rightarrow> Some (k, v) | Some e \<Rightarrow> Some e) else None)"
  by (auto simp: floor_entry_def Let_def)

text \<open>The lookup finds the one region that holds the address.\<close>

lemma region_at_iff:
  assumes "tiled sz lo hi m" and "hi < 2 ^ 64"
  shows "region_at sz m a = Some (k, v) \<longleftrightarrow>
    (k, v) \<in> set m \<and> unat k \<le> unat a \<and> unat a < unat k + unat (sz v)"
  using assms
proof (induction m arbitrary: lo k v)
  case Nil
  then show ?case by (simp add: region_at_def floor_entry_def)
next
  case (Cons e m)
  obtain j w where e: "e = (j, w)" by (cases e)
  note region_at_mem = Cons.IH
  have t: "tiled sz (unat j + unat (sz w)) hi m" using Cons.prems by (simp add: e)
  have room: "unat j + unat (sz w) \<le> hi" by (rule tiled_window [OF t])
  have sum: "unat (j + sz w) = unat j + unat (sz w)"
    using room Cons.prems(2) by (intro unat_add_no_overflow) simp
  have later: "unat j + unat (sz w) \<le> unat k" if "(k, v) \<in> set m" for k v
    using tiled_bounds [OF t that] by simp
  have floor_mem: "e \<in> set m \<and> fst e \<le> a" if "floor_entry a m = Some e" for e
  proof -
    have "takeWhile (\<lambda>e. fst e \<le> a) m \<noteq> []" "e = last (takeWhile (\<lambda>e. fst e \<le> a) m)"
      using that by (auto simp: floor_entry_def Let_def split: if_splits)
    then have "e \<in> set (takeWhile (\<lambda>e. fst e \<le> a) m)" by simp
    then show ?thesis by (blast dest: set_takeWhileD)
  qed
  show ?case
  proof (cases "floor_entry a m")
    case None
    then have "region_at sz m a = None" by (simp add: region_at_def)
    then have "\<not> (unat k \<le> unat a \<and> unat a < unat k + unat (sz v))" if "(k, v) \<in> set m" for k v
      using region_at_mem [OF t Cons.prems(2)] that by simp
    then show ?thesis
      using None sum Cons.prems(1)
      by (auto simp: e region_at_def floor_entry_Cons word_le_nat_alt word_less_nat_alt)
  next
    case (Some f)
    obtain k' v' where f: "f = (k', v')" by (cases f)
    have "unat j + unat (sz w) \<le> unat a" and "j \<le> a"
      using floor_mem [OF Some] later [of k' v'] by (auto simp: f word_le_nat_alt)
    then show ?thesis
      using Cons.IH [OF t Cons.prems(2)] Some sum
      by (auto simp: e region_at_def floor_entry_Cons word_le_nat_alt word_less_nat_alt)
  qed
qed

section \<open>Editing in place\<close>

lemma sorted_keys_append:
  "sorted_keys (xs @ ys) \<longleftrightarrow> sorted_keys xs \<and> sorted_keys ys \<and> (\<forall>x \<in> set xs. \<forall>y \<in> set ys. fst x < fst y)"
  by (auto simp: sorted_keys_def sorted_wrt_append)

lemma smap_set_here:
  "sorted_keys (xs @ (k, b) # ys) \<Longrightarrow> smap_set k v (xs @ (k, b) # ys) = xs @ (k, v) # ys"
  by (induction xs) (auto simp: sorted_keys_Cons)

lemma smap_set_between:
  "sorted_keys (xs @ ys) \<Longrightarrow> (\<forall>x \<in> set xs. fst x < a) \<Longrightarrow> (\<forall>y \<in> set ys. a < fst y) \<Longrightarrow>
     smap_set a v (xs @ ys) = xs @ (a, v) # ys"
proof (induction xs)
  case Nil
  then show ?case by (cases ys) auto
next
  case (Cons x xs)
  then show ?case by (cases x) (auto simp: sorted_keys_Cons)
qed

lemma smap_emplace_between:
  assumes "sorted_keys (xs @ ys)" and "\<forall>x \<in> set xs. fst x < a" and "\<forall>y \<in> set ys. a < fst y"
  shows "smap_emplace a v (xs @ ys) = xs @ (a, v) # ys"
proof -
  have "a \<notin> fst ` set (xs @ ys)" using assms(2,3) by force
  then show ?thesis using smap_set_between [OF assms] by (simp add: smap_emplace_def)
qed

lemma sorted_keys_away: "sorted_keys (xs @ (k, b) # ys) \<Longrightarrow> e \<in> set xs \<union> set ys \<Longrightarrow> fst e \<noteq> k"
  by (fastforce simp: sorted_keys_append sorted_keys_Cons)

lemma smap_erase_here:
  assumes "sorted_keys (xs @ (k, b) # ys)"
  shows "smap_erase k (xs @ (k, b) # ys) = xs @ ys"
proof -
  have "fst e \<noteq> k" if "e \<in> set xs \<union> set ys" for e
    using sorted_keys_away [OF assms] that by blast
  then have "filter (\<lambda>e. fst e \<noteq> k) xs = xs" "filter (\<lambda>e. fst e \<noteq> k) ys = ys"
    by (simp_all add: filter_id_conv)
  then show ?thesis by (simp add: smap_erase_def)
qed

lemma smap_find_here:
  "sorted_keys (xs @ (k, b) # ys) \<Longrightarrow> smap_find k (xs @ (k, b) # ys) = Some b"
  by (induction xs) (auto simp: smap_find_def sorted_keys_Cons)

lemma smap_find_in: "sorted_keys m \<Longrightarrow> smap_find k m = Some v \<longleftrightarrow> (k, v) \<in> set m"
proof (induction m)
  case (Cons e m)
  then show ?case by (cases e) (auto simp: smap_find_def sorted_keys_Cons)
qed (simp add: smap_find_def)

lemma tiled_keys_after:
  "tiled sz lo hi (xs @ (k, b) # ys) \<Longrightarrow> y \<in> set ys \<Longrightarrow> unat k + unat (sz b) \<le> unat (fst y)"
  using tiled_bounds [of sz "unat k + unat (sz b)" hi ys "fst y" "snd y"] by (auto simp: tiled_append)

lemma tiled_keys_before:
  "tiled sz lo hi (xs @ (k, b) # ys) \<Longrightarrow> x \<in> set xs \<Longrightarrow> unat (fst x) + unat (sz (snd x)) \<le> unat k"
  using tiled_bounds [of sz lo _ xs "fst x" "snd x"] by (fastforce simp: tiled_append)

lemma tiled_end:
  "tiled sz lo hi (xs @ (k, b) # ys) \<Longrightarrow> unat k + unat (sz b) \<le> hi \<and> 0 < unat (sz b) \<and> lo \<le> unat k"
  using tiled_bounds [of sz lo hi "xs @ (k, b) # ys" k b] by simp

lemma tiled_split:
  "tiled sz lo hi (xs @ (k, b) # ys) \<longleftrightarrow>
     tiled sz lo (unat k) xs \<and> lo \<le> unat k \<and> 0 < unat (sz b) \<and> tiled sz (unat k + unat (sz b)) hi ys"
  (is "?l \<longleftrightarrow> ?r")
proof
  assume ?l
  then obtain mid where "tiled sz lo mid xs" "tiled sz mid hi ((k, b) # ys)" by (auto simp: tiled_append)
  then show ?r using tiled_window [of sz lo mid xs] tiled_mono [of sz lo mid xs lo "unat k"] by auto
qed (auto simp: tiled_append)

lemma lower_bound_le: "sorted_keys m \<Longrightarrow> e \<in> set (dropWhile (\<lambda>e. fst e < k) m) \<Longrightarrow> k \<le> fst e"
proof (induction m)
  case (Cons c m)
  then show ?case by (cases c) (auto simp: sorted_keys_Cons split: if_splits)
qed simp

lemma tiled_shrink:
  "tiled sz lo hi m \<Longrightarrow> lo \<le> h \<Longrightarrow> (\<forall>e \<in> set m. unat (fst e) + unat (sz (snd e)) \<le> h) \<Longrightarrow> tiled sz lo h m"
proof (induction m arbitrary: lo)
  case (Cons c m)
  obtain k v where c: "c = (k, v)" by (cases c)
  have "tiled sz (unat k + unat (sz v)) hi m" "unat k + unat (sz v) \<le> h"
    "\<forall>e \<in> set m. unat (fst e) + unat (sz (snd e)) \<le> h" using Cons.prems by (simp_all add: c)
  from Cons.IH [OF this] have "tiled sz (unat k + unat (sz v)) h m" .
  then show ?case using Cons.prems(1) by (simp add: c)
qed simp

lemma tiled_frame:
  assumes "tiled sz lo hi m" and "l \<le> h" and "\<And>e. e \<in> set m \<Longrightarrow> l \<le> unat (fst e)"
    and "\<And>e. e \<in> set m \<Longrightarrow> unat (fst e) + unat (sz (snd e)) \<le> h"
  shows "tiled sz l h m"
proof (cases m)
  case (Cons c m')
  obtain k v where c: "c = (k, v)" by (cases c)
  have "tiled sz (unat k + unat (sz v)) hi m'" using assms(1) by (simp add: Cons c)
  moreover have "unat k + unat (sz v) \<le> h" "l \<le> unat k" using assms(3,4) [of c] by (simp_all add: Cons c)
  moreover have "\<forall>e \<in> set m'. unat (fst e) + unat (sz (snd e)) \<le> h" using assms(4) by (simp add: Cons)
  ultimately show ?thesis using assms(1) tiled_shrink by (simp add: Cons c)
qed (simp add: assms(2))

end
