(* ===== verification/Phys_Mem.thy ===== *)
theory Phys_Mem
  imports Prelude
begin

text \<open>
  Guest physical memory: the block store of the Unicorn backend
  (\<open>unicorn_emu_base\<close> in src/emu/unicorn_base.hpp) and the frame allocator every
  architecture's memory unit inherits (\<open>class mmu\<close> in src/emu/mmu.hpp and
  src/emu/mmu.cpp). A block is a base address and a byte vector; a pointer into one is a
  block index and an offset. The lemmas give the read-after-write and framing laws of the
  store, and what an allocated frame is: backed, zero filled and below the cursor.
\<close>

section \<open>Protection bits\<close>

type_synonym mem_prot = u8

definition prot_none :: mem_prot where "prot_none = 0"
definition prot_read :: mem_prot where "prot_read = 1"
definition prot_write :: mem_prot where "prot_write = 2"
definition prot_exec :: mem_prot where "prot_exec = 4"
definition prot_supervisor :: mem_prot where "prot_supervisor = 8"
definition prot_rw :: mem_prot where "prot_rw = prot_read OR prot_write"
definition prot_rx :: mem_prot where "prot_rx = prot_read OR prot_exec"
definition prot_rwx :: mem_prot where "prot_rwx = prot_read OR prot_write OR prot_exec"

abbreviation has_prot :: "mem_prot \<Rightarrow> mem_prot \<Rightarrow> bool" where
  "has_prot p b \<equiv> p AND b \<noteq> 0"

section \<open>The backend's block store\<close>

type_synonym phys_mem = "(addr \<times> u8 list) list"

fun in_block :: "addr \<Rightarrow> addr \<times> u8 list \<Rightarrow> bool" where
  "in_block a (base, buf) \<longleftrightarrow> base \<le> a \<and> a < base + of_nat (length buf)"

text \<open>The pointer found (block index and offset) and how many bytes follow it there.\<close>

fun find_backing :: "phys_mem \<Rightarrow> addr \<Rightarrow> (nat \<times> nat \<times> nat) option" where
  "find_backing [] a = None"
| "find_backing ((base, buf) # m) a =
     (if in_block a (base, buf)
      then Some (0, unat (a - base), length buf - unat (a - base))
      else map_option (\<lambda>(i, off, avail). (Suc i, off, avail)) (find_backing m a))"

definition resize :: "nat \<Rightarrow> u8 list \<Rightarrow> u8 list" where
  "resize n bs = take n bs @ replicate (n - length bs) 0"

definition map_phys_mem :: "phys_mem \<Rightarrow> addr \<Rightarrow> u64 \<Rightarrow> phys_mem" where
  "map_phys_mem m a sz =
     (if a \<in> fst ` set m
      then map (\<lambda>(b, buf). (b, if b = a then resize (unat sz) buf else buf)) m
      else m @ [(a, resize (unat sz) [])])"

definition unmap_phys_mem :: "phys_mem \<Rightarrow> addr \<Rightarrow> phys_mem" where
  "unmap_phys_mem m a = filter (\<lambda>(b, _). b \<noteq> a) m"

text \<open>
  A read copies into the caller's buffer what the block still holds from there on, and
  leaves the buffer alone where nothing backs the address.
\<close>

definition read_phys_mem :: "phys_mem \<Rightarrow> addr \<Rightarrow> u8 list \<Rightarrow> u8 list" where
  "read_phys_mem m a buf =
     (case find_backing m a of
        None \<Rightarrow> buf
      | Some (i, off, avail) \<Rightarrow>
          let n = min (length buf) avail
          in take n (drop off (snd (m ! i))) @ drop n buf)"

definition write_phys_mem :: "phys_mem \<Rightarrow> addr \<Rightarrow> u8 list \<Rightarrow> phys_mem" where
  "write_phys_mem m a bytes =
     (case find_backing m a of
        None \<Rightarrow> m
      | Some (i, off, avail) \<Rightarrow>
          let n = min (length bytes) avail; (base, buf) = m ! i
          in m[i := (base, take off buf @ take n bytes @ drop (off + n) buf)])"

text \<open>\<open>read_phys<T>\<close> and \<open>write_phys<T>\<close> at the eight byte types of the page tables.\<close>

definition read_phys64 :: "phys_mem \<Rightarrow> addr \<Rightarrow> u64" where
  "read_phys64 m a = le_dec (read_phys_mem m a (replicate 8 0))"

definition write_phys64 :: "phys_mem \<Rightarrow> addr \<Rightarrow> u64 \<Rightarrow> phys_mem" where
  "write_phys64 m a v = write_phys_mem m a (le_enc 8 v)"

section \<open>The frame allocator\<close>

definition page_size :: u64 where "page_size = 0x1000"
definition phys_base :: addr where "phys_base = 0x100000000"
definition phys_size :: u64 where "phys_size = 0x100000000"
definition phys_end :: addr where "phys_end = phys_base + phys_size"

definition page_align :: "addr \<Rightarrow> addr" where
  "page_align a = a AND NOT (page_size - 1)"

definition size_align :: "u64 \<Rightarrow> u64" where
  "size_align s = (s + page_size - 1) AND NOT (page_size - 1)"

record mmu_base =
  phys :: phys_mem
  phys_next :: addr

definition alloc_phys_locked ::
  "'a mmu_base_scheme \<Rightarrow> u64 \<Rightarrow> emu_error + ('a mmu_base_scheme \<times> addr)" where
  "alloc_phys_locked s sz =
     (let aligned = size_align sz; a = phys_next s
      in if aligned > phys_end - a then throw Out_of_guest_physical_memory
         else Inr (s\<lparr>phys_next := a + aligned, phys := map_phys_mem (phys s) a aligned\<rparr>, a))"

definition alloc_phys ::
  "'a mmu_base_scheme \<Rightarrow> u64 \<Rightarrow> emu_error + ('a mmu_base_scheme \<times> addr)" where
  "alloc_phys s sz = alloc_phys_locked s sz"

definition back_phys :: "'a mmu_base_scheme \<Rightarrow> addr \<Rightarrow> u64 \<Rightarrow> 'a mmu_base_scheme" where
  "back_phys s pa sz =
     (let start = page_align pa
      in s\<lparr>phys := map_phys_mem (phys s) start (size_align (sz + (pa - start)))\<rparr>)"

section \<open>Laws of the block store\<close>

declare in_block.simps [simp del]

lemma in_block_nat:
  "in_block a (base, buf) \<Longrightarrow>
     unat base \<le> unat a \<and> unat (a - base) = unat a - unat base \<and>
     unat a < unat base + length buf"
proof -
  assume h: "in_block a (base, buf)"
  have le: "unat base \<le> unat a" using h by (simp add: in_block.simps word_le_nat_alt)
  have "unat (base + of_nat (length buf)) \<le> unat base + length buf"
  proof -
    have "unat (base + of_nat (length buf)) \<le> unat base + unat (of_nat (length buf) :: u64)"
      by (simp add: unat_word_ariths(1))
    also have "unat (of_nat (length buf) :: u64) \<le> length buf"
      by (simp add: unat_of_nat take_bit_eq_mod)
    finally show ?thesis by simp
  qed
  moreover have "unat a < unat (base + of_nat (length buf))"
    using h by (simp add: in_block.simps word_less_nat_alt)
  ultimately show ?thesis using le by (simp add: unat_sub_le)
qed

lemma find_backing_Some_iff:
  "find_backing m a = Some (i, off, avail) \<longleftrightarrow>
     i < length m \<and> in_block a (m ! i) \<and> (\<forall>j < i. \<not> in_block a (m ! j)) \<and>
     off = unat (a - fst (m ! i)) \<and> avail = length (snd (m ! i)) - off"
proof (induction m arbitrary: i)
  case Nil
  then show ?case by simp
next
  case (Cons bl m)
  obtain base buf where bl: "bl = (base, buf)" by (cases bl)
  show ?case
  proof (cases i)
    case 0
    then show ?thesis by (auto simp: bl)
  next
    case (Suc k)
    then show ?thesis
      by (auto simp: bl Cons.IH less_Suc_eq_0_disj nth_Cons')
  qed
qed

lemma find_backing_offset:
  assumes "find_backing m a = Some (i, off, avail)"
  shows "i < length m" and "off + avail = length (snd (m ! i))" and "0 < avail"
    and "unat a = unat (fst (m ! i)) + off"
proof -
  obtain base buf where bl: "m ! i = (base, buf)" by (cases "m ! i")
  from assms have h: "i < length m" "in_block a (base, buf)" "off = unat (a - base)"
    "avail = length buf - off"
    by (auto simp: find_backing_Some_iff bl)
  with in_block_nat [OF h(2)] bl
  show "i < length m" "off + avail = length (snd (m ! i))" "0 < avail"
    "unat a = unat (fst (m ! i)) + off"
    by auto
qed

text \<open>Two stores with the same block shapes find the same backing.\<close>

definition same_shape :: "phys_mem \<Rightarrow> phys_mem \<Rightarrow> bool" where
  "same_shape m m' \<longleftrightarrow>
     map (\<lambda>(b, buf). (b, length buf)) m = map (\<lambda>(b, buf). (b, length buf)) m'"

lemma same_shape_backing: "same_shape m m' \<Longrightarrow> find_backing m' a = find_backing m a"
proof (induction m arbitrary: m')
  case Nil
  then show ?case by (simp add: same_shape_def)
next
  case (Cons bl m)
  then obtain bl' n where m': "m' = bl' # n" and n: "same_shape m n"
    by (auto simp: same_shape_def Cons_eq_map_conv)
  obtain base buf base' buf' where bl: "bl = (base, buf)" "bl' = (base', buf')"
    by (cases bl, cases bl')
  with Cons.prems m' have "base' = base" "length buf' = length buf"
    by (auto simp: same_shape_def)
  then show ?case
    using Cons.IH [OF n] by (simp add: m' bl in_block.simps)
qed

lemma same_shape_write: "same_shape m (write_phys_mem m a bytes)"
proof (cases "find_backing m a")
  case None
  then show ?thesis by (simp add: write_phys_mem_def same_shape_def)
next
  case (Some r)
  then obtain i off avail where r: "find_backing m a = Some (i, off, avail)"
    by (cases r) auto
  note b = find_backing_offset [OF r]
  obtain base buf where bl: "m ! i = (base, buf)" by (cases "m ! i")
  show ?thesis
    unfolding same_shape_def
  proof (rule nth_equalityI)
    fix j assume "j < length (map (\<lambda>(b, buf). (b, length buf)) m)"
    with b bl show "map (\<lambda>(b, buf). (b, length buf)) m ! j =
        map (\<lambda>(b, buf). (b, length buf)) (write_phys_mem m a bytes) ! j"
      by (cases "j = i") (auto simp: write_phys_mem_def r Let_def)
  qed (simp add: write_phys_mem_def r bl Let_def)
qed

lemma find_backing_write [simp]:
  "find_backing (write_phys_mem m a bytes) b = find_backing m b"
  using same_shape_write same_shape_backing by blast

definition backed :: "phys_mem \<Rightarrow> addr \<Rightarrow> nat \<Rightarrow> bool" where
  "backed m a n \<longleftrightarrow> (case find_backing m a of None \<Rightarrow> False | Some (i, off, avail) \<Rightarrow> n \<le> avail)"

lemma backed_write [simp]: "backed (write_phys_mem m a bytes) b n = backed m b n"
  by (simp add: backed_def)

lemma backedE:
  assumes "backed m a n"
  obtains i off avail where "find_backing m a = Some (i, off, avail)" and "n \<le> avail"
  using assms by (auto simp: backed_def split: option.splits)

lemma write_phys_mem_block:
  assumes "find_backing m a = Some (i, off, avail)" and "length bytes \<le> avail"
  shows "write_phys_mem m a bytes =
     m[i := (fst (m ! i), take off (snd (m ! i)) @ bytes @ drop (off + length bytes) (snd (m ! i)))]"
  using assms by (simp add: write_phys_mem_def Let_def min_def split: prod.split)

lemma read_phys_mem_block:
  assumes "find_backing m a = Some (i, off, avail)" and "length buf \<le> avail"
  shows "read_phys_mem m a buf = take (length buf) (drop off (snd (m ! i)))"
  using assms by (simp add: read_phys_mem_def Let_def min_def)

lemma read_phys_mem_length [simp]: "length (read_phys_mem m a buf) = length buf"
proof (cases "find_backing m a")
  case None
  then show ?thesis by (simp add: read_phys_mem_def)
next
  case (Some r)
  then obtain i off avail where r: "find_backing m a = Some (i, off, avail)"
    by (cases r) auto
  with find_backing_offset(2) [OF r] show ?thesis
    by (auto simp: read_phys_mem_def Let_def)
qed

lemma read_write_phys_same:
  assumes "backed m a (length bytes)" and "length buf = length bytes"
  shows "read_phys_mem (write_phys_mem m a bytes) a buf = bytes"
proof -
  obtain i off avail where r: "find_backing m a = Some (i, off, avail)"
    and n: "length bytes \<le> avail"
    using assms(1) by (rule backedE)
  have r': "find_backing (write_phys_mem m a bytes) a = Some (i, off, avail)"
    by (simp add: r)
  have "read_phys_mem (write_phys_mem m a bytes) a buf =
      take (length buf) (drop off (snd (write_phys_mem m a bytes ! i)))"
    using r' by (rule read_phys_mem_block) (simp add: assms(2) n)
  then show ?thesis
    using find_backing_offset [OF r] n assms(2) by (simp add: write_phys_mem_block [OF r n])
qed

definition ranges_apart :: "addr \<Rightarrow> nat \<Rightarrow> addr \<Rightarrow> nat \<Rightarrow> bool" where
  "ranges_apart a n b k \<longleftrightarrow> unat a + n \<le> unat b \<or> unat b + k \<le> unat a"

lemma ranges_apart_sym: "ranges_apart a n b k \<longleftrightarrow> ranges_apart b k a n"
  by (auto simp: ranges_apart_def)

lemma read_write_phys_other:
  assumes a: "backed m a (length buf)" and b: "backed m b (length bytes)"
    and apart: "ranges_apart a (length buf) b (length bytes)"
  shows "read_phys_mem (write_phys_mem m b bytes) a buf = read_phys_mem m a buf"
proof -
  obtain i off avail where r: "find_backing m a = Some (i, off, avail)"
    and n: "length buf \<le> avail"
    using a by (rule backedE)
  obtain j boff bavail where w: "find_backing m b = Some (j, boff, bavail)"
    and k: "length bytes \<le> bavail"
    using b by (rule backedE)
  have r': "find_backing (write_phys_mem m b bytes) a = Some (i, off, avail)"
    by (simp add: r)
  note rd = read_phys_mem_block [OF r' n] read_phys_mem_block [OF r n]
  note wr = write_phys_mem_block [OF w k]
  show ?thesis
    unfolding rd
  proof (cases "i = j")
    case False
    then show "take (length buf) (drop off (snd (write_phys_mem m b bytes ! i))) =
        take (length buf) (drop off (snd (m ! i)))"
      by (simp add: wr)
  next
    case True
    note ro = find_backing_offset [OF r] and wo = find_backing_offset [OF w]
    from apart True ro wo have "off + length buf \<le> boff \<or> boff + length bytes \<le> off"
      by (auto simp: ranges_apart_def)
    then show "take (length buf) (drop off (snd (write_phys_mem m b bytes ! i))) =
        take (length buf) (drop off (snd (m ! i)))"
    proof
      assume "off + length buf \<le> boff"
      with True ro wo n k show ?thesis
        by (simp add: wr drop_take)
    next
      assume "boff + length bytes \<le> off"
      with True ro wo n k show ?thesis
        by (simp add: wr)
    qed
  qed
qed

lemma read_write_phys64_same: "backed m a 8 \<Longrightarrow> read_phys64 (write_phys64 m a v) a = v"
  by (simp add: read_phys64_def write_phys64_def read_write_phys_same le_dec_enc)

lemma read_write_phys64_other:
  "backed m a 8 \<Longrightarrow> backed m b 8 \<Longrightarrow> ranges_apart a 8 b 8 \<Longrightarrow>
     read_phys64 (write_phys64 m b v) a = read_phys64 m a"
  by (simp add: read_phys64_def write_phys64_def read_write_phys_other)

lemma backed_write64 [simp]: "backed (write_phys64 m a v) b n = backed m b n"
  by (simp add: write_phys64_def)

section \<open>Laws of the frame allocator\<close>

lemma in_block_iff:
  "unat base + length buf < 2 ^ 64 \<Longrightarrow>
     in_block x (base, buf) \<longleftrightarrow> unat base \<le> unat x \<and> unat x < unat base + length buf"
  by (simp add: in_block.simps word_le_nat_alt word_less_nat_alt unat_add_no_overflow unat_of_nat64)

lemma find_backing_append:
  "find_backing (m @ [bl]) x =
     (case find_backing m x of
        Some r \<Rightarrow> Some r
      | None \<Rightarrow> if in_block x bl
          then Some (length m, unat (x - fst bl), length (snd bl) - unat (x - fst bl)) else None)"
proof (induction m)
  case Nil
  then show ?case by (cases bl) simp
next
  case (Cons c m)
  then show ?case by (cases c) (auto split: option.splits)
qed

lemma in_block_outside:
  "\<not> in_block x (b, buf)"
  if "unat b + length buf \<le> unat a \<or> unat a + n < unat b" and "unat a \<le> unat x" and "unat x < unat a + n"
  using that in_block_nat [of x b buf] by auto

definition room_at :: "phys_mem \<Rightarrow> addr \<Rightarrow> nat \<Rightarrow> bool" where
  "room_at m a n \<longleftrightarrow> unat a + n < 2 ^ 64 \<and>
     (\<forall>(b, buf) \<in> set m. unat b + length buf \<le> unat a \<or> unat a + n < unat b)"

lemma room_at_empty_block:
  "room_at m a n \<Longrightarrow> (a, buf) \<in> set m \<Longrightarrow> buf = []"
  by (auto simp: room_at_def)

abbreviation resize_block :: "addr \<Rightarrow> nat \<Rightarrow> phys_mem \<Rightarrow> phys_mem" where
  "resize_block a n m \<equiv> map (\<lambda>(b, buf). (b, if b = a then resize n buf else buf)) m"

lemma room_at_Cons:
  "room_at ((b, buf) # m) a n \<longleftrightarrow>
     room_at m a n \<and> (unat b + length buf \<le> unat a \<or> unat a + n < unat b)"
  by (auto simp: room_at_def)

lemma resize_Nil [simp]: "resize n [] = replicate n 0"
  by (simp add: resize_def)

lemma in_block_resized:
  "room_at m a n \<Longrightarrow> in_block x (a, replicate n 0) \<longleftrightarrow> unat a \<le> unat x \<and> unat x < unat a + n"
  by (subst in_block_iff) (auto simp: room_at_def)

lemma not_in_empty_block [simp]: "\<not> in_block x (a, [])"
  using in_block_nat [of x a "[]"] by auto

lemma find_backing_resize_old:
  "room_at m a n \<Longrightarrow> unat x < unat a \<or> unat a + n \<le> unat x \<Longrightarrow>
     find_backing (resize_block a n m) x = find_backing m x"
proof (induction m)
  case (Cons bl m)
  obtain b buf where bl: "bl = (b, buf)" by (cases bl)
  with Cons have h: "room_at m a n" "unat b + length buf \<le> unat a \<or> unat a + n < unat b"
    by (auto simp: room_at_Cons)
  show ?case
  proof (cases "b = a")
    case True
    with h have "buf = []" by auto
    with True Cons h show ?thesis by (auto simp: bl in_block_resized [OF h(1)])
  next
    case False
    with Cons h show ?thesis by (auto simp: bl)
  qed
qed simp

lemma find_backing_resize_new:
  "room_at m a n \<Longrightarrow> unat a \<le> unat x \<Longrightarrow> unat x < unat a + n \<Longrightarrow> a \<in> fst ` set m \<Longrightarrow>
     \<exists>i. i < length m \<and> fst (m ! i) = a \<and>
       find_backing (resize_block a n m) x = Some (i, unat x - unat a, n - (unat x - unat a))"
proof (induction m)
  case (Cons bl m)
  obtain b buf where bl: "bl = (b, buf)" by (cases bl)
  with Cons have h: "room_at m a n" "unat b + length buf \<le> unat a \<or> unat a + n < unat b"
    by (auto simp: room_at_Cons)
  show ?case
  proof (cases "b = a")
    case True
    with h have "buf = []" by auto
    with True Cons h show ?thesis
      by (intro exI [of _ 0]) (auto simp: bl in_block_resized [OF h(1)] resize_def unat_sub_le)
  next
    case False
    with Cons.prems bl have "a \<in> fst ` set m" by auto
    with Cons h obtain i where "i < length m" "fst (m ! i) = a"
      "find_backing (resize_block a n m) x = Some (i, unat x - unat a, n - (unat x - unat a))"
      by blast
    with False in_block_outside [OF h(2) Cons.prems(2,3)] show ?thesis
      by (intro exI [of _ "Suc i"]) (auto simp: bl)
  qed
qed simp

text \<open>What mapping a fresh range leaves alone, and what it adds.\<close>

lemma map_phys_mem_old:
  assumes "room_at m a (unat sz)" and "unat x < unat a \<or> unat a + unat sz \<le> unat x"
  shows "find_backing (map_phys_mem m a sz) x = find_backing m x"
    and "find_backing m x = Some (i, off, avail) \<Longrightarrow> map_phys_mem m a sz ! i = m ! i"
proof -
  have wrap: "unat a + unat sz < 2 ^ 64" using assms(1) by (simp add: room_at_def)
  have out: "\<not> in_block x (a, resize (unat sz) [])"
    using wrap assms(2) by (subst in_block_iff) (auto simp: resize_def)
  then show "find_backing (map_phys_mem m a sz) x = find_backing m x"
    using find_backing_resize_old [OF assms]
    by (simp add: map_phys_mem_def find_backing_append split: option.split)
  assume f: "find_backing m x = Some (i, off, avail)"
  then have i: "i < length m" and blk: "in_block x (m ! i)"
    by (auto simp: find_backing_Some_iff)
  have "fst (m ! i) \<noteq> a"
  proof
    assume "fst (m ! i) = a"
    moreover from this i have "snd (m ! i) = []"
      using room_at_empty_block [OF assms(1)] by (metis nth_mem prod.collapse)
    ultimately show False
      using blk not_in_empty_block by (metis prod.collapse)
  qed
  then show "map_phys_mem m a sz ! i = m ! i"
    using i by (auto simp: map_phys_mem_def nth_append split: prod.split)
qed

lemma map_phys_mem_new:
  assumes "room_at m a (unat sz)" and "unat a \<le> unat x" and "unat x < unat a + unat sz"
  shows "\<exists>i. find_backing (map_phys_mem m a sz) x =
      Some (i, unat x - unat a, unat sz - (unat x - unat a)) \<and>
    snd (map_phys_mem m a sz ! i) = replicate (unat sz) 0"
proof (cases "a \<in> fst ` set m")
  case True
  from find_backing_resize_new [OF assms this] obtain i where i: "i < length m" "fst (m ! i) = a"
    "find_backing (map_phys_mem m a sz) x = Some (i, unat x - unat a, unat sz - (unat x - unat a))"
    by (auto simp: map_phys_mem_def True)
  moreover have "snd (m ! i) = []"
    using room_at_empty_block [OF assms(1)] i by (metis nth_mem prod.collapse)
  ultimately show ?thesis
    by (intro exI [of _ i]) (cases "m ! i", auto simp: map_phys_mem_def True resize_def)
next
  case False
  have wrap: "unat a + unat sz < 2 ^ 64" using assms(1) by (simp add: room_at_def)
  have "find_backing m x = None"
  proof (rule ccontr)
    assume "find_backing m x \<noteq> None"
    then obtain i where "i < length m" "in_block x (m ! i)"
      by (auto simp: find_backing_Some_iff)
    moreover from this(1) have "unat (fst (m ! i)) + length (snd (m ! i)) \<le> unat a \<or>
        unat a + unat sz < unat (fst (m ! i))"
      using assms(1) by (fastforce simp: room_at_def dest: nth_mem)
    ultimately show False
      using in_block_outside [OF _ assms(2,3)] by (metis prod.collapse)
  qed
  moreover have "in_block x (a, resize (unat sz) [])"
    using wrap assms(2,3) by (subst in_block_iff) (auto simp: resize_def)
  ultimately show ?thesis
    using False assms(2)
    by (auto simp: map_phys_mem_def find_backing_append resize_def unat_sub_le)
qed

lemma page_size_pow: "page_size = 2 ^ 12"
  by (simp add: page_size_def)

lemma unat_page_size [simp]: "unat page_size = 4096"
  by (simp add: page_size_def)

lemma page_align_down: "page_align a = align_down (2 ^ 12) a"
  by (simp add: page_align_def align_down_def page_size_pow)

lemma size_align_up: "size_align a = align_up (2 ^ 12) a"
  by (simp add: size_align_def align_up_def page_size_pow)

lemma unat_page_align: "unat (page_align a) = unat a div 4096 * 4096"
  using unat_align_down [of 12 a] by (simp add: page_align_down)

lemma page_align_idem [simp]: "page_align (page_align a) = page_align a"
  unfolding page_align_down by (rule align_down_idem)

lemma page_aligned_size_align: "4096 dvd unat (size_align a)"
  unfolding size_align_up align_up_alt unat_align_down by simp

lemma size_align_aligned:
  assumes "4096 dvd unat a"
  shows "size_align a = a"
proof -
  obtain k where k: "unat a = 4096 * k" using assms by (elim dvdE)
  with unat_lt64 [of a] have "k < 2 ^ 52" by simp
  with k have "unat (size_align a) = (4096 * k + 4095) div 4096 * 4096"
    using unat_align_up [of 12 a] by (simp add: size_align_up)
  also have "\<dots> = unat a" by (simp add: k)
  finally show ?thesis by (simp add: word_unat_eq_iff)
qed

text \<open>
  The allocator's invariant: the cursor is a page boundary inside guest memory, and every
  block lies below the cursor or past the end of guest memory (a range the machine has
  rather than one that was allocated).
\<close>

definition phys_ok :: "'a mmu_base_scheme \<Rightarrow> bool" where
  "phys_ok s \<longleftrightarrow>
     unat phys_base \<le> unat (phys_next s) \<and> unat (phys_next s) \<le> unat phys_end \<and>
     4096 dvd unat (phys_next s) \<and>
     (\<forall>(b, buf) \<in> set (phys s).
        unat b + length buf \<le> unat (phys_next s) \<or> unat phys_end < unat b)"

lemma phys_ok_write [simp]: "phys_ok (s\<lparr>phys := write_phys_mem (phys s) x ws\<rparr>) = phys_ok s"
proof -
  have shape: "map (\<lambda>(b, buf). (b, length buf)) (write_phys_mem (phys s) x ws) =
      map (\<lambda>(b, buf). (b, length buf)) (phys s)"
    using same_shape_write [of "phys s" x ws] by (simp add: same_shape_def)
  have ball: "(\<forall>(b, buf) \<in> set m. Q b (length buf)) \<longleftrightarrow>
      (\<forall>(b, n) \<in> set (map (\<lambda>(b, buf). (b, length buf)) m). Q b n)"
    for m :: phys_mem and Q by auto
  let ?Q = "\<lambda>b n. unat b + n \<le> unat (phys_next s) \<or> unat phys_end < unat b"
  show ?thesis
    using ball [of "write_phys_mem (phys s) x ws" ?Q] ball [of "phys s" ?Q]
    by (simp add: phys_ok_def shape)
qed

lemma unat_phys_end [simp]: "unat phys_end = 0x200000000"
  by (simp add: phys_end_def phys_base_def phys_size_def)

lemma unat_phys_base [simp]: "unat phys_base = 0x100000000"
  by (simp add: phys_base_def)

lemma alloc_phys_lockedE:
  assumes "alloc_phys_locked s sz = Inr (s', a)" and "phys_ok s"
  shows "a = phys_next s" and "phys s' = map_phys_mem (phys s) a (size_align sz)"
    and "unat (phys_next s') = unat a + unat (size_align sz)"
    and "unat a + unat (size_align sz) \<le> unat phys_end"
    and "mmu_base.more s' = mmu_base.more s"
proof -
  from assms(1) have s': "s' = s\<lparr>phys_next := a + size_align sz,
      phys := map_phys_mem (phys s) a (size_align sz)\<rparr>"
    and a: "a = phys_next s" and fit: "\<not> size_align sz > phys_end - a"
    by (auto simp: alloc_phys_locked_def Let_def split: if_splits)
  have "unat (phys_end - a) = unat phys_end - unat a"
    using assms(2) a by (simp add: unat_sub_le phys_ok_def)
  with fit have le: "unat (size_align sz) \<le> unat phys_end - unat a"
    by (simp add: word_less_nat_alt)
  then show "unat a + unat (size_align sz) \<le> unat phys_end"
    using assms(2) a by (auto simp: phys_ok_def)
  then have "unat (a + size_align sz) = unat a + unat (size_align sz)"
    by (intro unat_add_no_overflow) simp
  then show "unat (phys_next s') = unat a + unat (size_align sz)" by (simp add: s')
  show "a = phys_next s" "phys s' = map_phys_mem (phys s) a (size_align sz)"
    "mmu_base.more s' = mmu_base.more s"
    by (simp_all add: s' a)
qed

lemma alloc_phys_total:
  assumes "phys_ok s" and "unat (phys_next s) + unat (size_align sz) \<le> unat phys_end"
  shows "\<exists>s'. alloc_phys_locked s sz = Inr (s', phys_next s)"
proof -
  have "unat (phys_end - phys_next s) = unat phys_end - unat (phys_next s)"
    using assms(1) by (simp add: unat_sub_le phys_ok_def)
  with assms(2) have "\<not> size_align sz > phys_end - phys_next s"
    by (simp add: word_less_nat_alt)
  then show ?thesis by (simp add: alloc_phys_locked_def Let_def)
qed

lemma phys_ok_room:
  "phys_ok s \<Longrightarrow> unat (phys_next s) + n \<le> unat phys_end \<Longrightarrow> room_at (phys s) (phys_next s) n"
  by (fastforce simp: phys_ok_def room_at_def)

lemma map_phys_mem_set:
  "(b, buf) \<in> set (map_phys_mem m a sz) \<Longrightarrow>
     (b, buf) \<in> set m \<or> (b = a \<and> length buf = unat sz)"
  by (auto simp: map_phys_mem_def resize_def split: if_splits)

lemma phys_ok_alloc:
  assumes "alloc_phys_locked s sz = Inr (s', a)" and "phys_ok s"
  shows "phys_ok s'"
proof -
  note e = alloc_phys_lockedE [OF assms]
  have "4096 dvd unat (phys_next s')"
    using assms(2) e(1,3) page_aligned_size_align [of sz] by (simp add: phys_ok_def)
  moreover have "unat b + length buf \<le> unat (phys_next s') \<or> unat phys_end < unat b"
    if "(b, buf) \<in> set (phys s')" for b buf
  proof -
    from map_phys_mem_set [OF that [unfolded e(2)]]
    show ?thesis using assms(2) e(1,3) by (fastforce simp: phys_ok_def)
  qed
  ultimately show ?thesis
    using e(1,3,4) assms(2) by (auto simp: phys_ok_def)
qed

lemma backed_old_outside:
  assumes "phys_ok s" and "backed (phys s) x n"
  shows "unat x < unat (phys_next s) \<and> unat x + n \<le> unat (phys_next s) \<or>
    unat phys_end < unat x"
proof -
  obtain i off avail where r: "find_backing (phys s) x = Some (i, off, avail)" and n: "n \<le> avail"
    using assms(2) by (rule backedE)
  note o = find_backing_offset [OF r]
  have "(fst (phys s ! i), snd (phys s ! i)) \<in> set (phys s)" using o(1) by simp
  with assms(1) have "unat (fst (phys s ! i)) + length (snd (phys s ! i)) \<le> unat (phys_next s) \<or>
      unat phys_end < unat (fst (phys s ! i))"
    unfolding phys_ok_def by blast
  then show ?thesis using o n by auto
qed

lemma alloc_phys_keeps:
  assumes al: "alloc_phys_locked s sz = Inr (s', a)" and ok: "phys_ok s"
    and x: "backed (phys s) x n"
  shows "backed (phys s') x n"
    and "length buf \<le> n \<Longrightarrow> read_phys_mem (phys s') x buf = read_phys_mem (phys s) x buf"
proof -
  note e = alloc_phys_lockedE [OF al ok]
  have out: "unat x < unat a \<or> unat a + unat (size_align sz) \<le> unat x"
    using backed_old_outside [OF ok x] e by auto
  have room: "room_at (phys s) a (unat (size_align sz))"
    using phys_ok_room [OF ok] e by simp
  obtain i off avail where r: "find_backing (phys s) x = Some (i, off, avail)" and n: "n \<le> avail"
    using x by (rule backedE)
  have r': "find_backing (phys s') x = Some (i, off, avail)"
    unfolding e(2) map_phys_mem_old(1) [OF room out] by (rule r)
  then show "backed (phys s') x n" using n by (simp add: backed_def)
  have "phys s' ! i = phys s ! i"
    unfolding e(2) by (rule map_phys_mem_old(2) [OF room out r])
  then show "read_phys_mem (phys s') x buf = read_phys_mem (phys s) x buf"
    by (simp add: read_phys_mem_def r r')
qed

lemma alloc_phys_fresh:
  assumes al: "alloc_phys_locked s sz = Inr (s', a)" and ok: "phys_ok s"
    and x: "unat a \<le> unat x" "unat x + n \<le> unat a + unat (size_align sz)" "0 < n"
  shows "backed (phys s') x n"
    and "length buf \<le> n \<Longrightarrow> read_phys_mem (phys s') x buf = replicate (length buf) 0"
proof -
  note e = alloc_phys_lockedE [OF al ok]
  have room: "room_at (phys s) a (unat (size_align sz))"
    using phys_ok_room [OF ok] e by simp
  have "unat x < unat a + unat (size_align sz)" using x by simp
  from map_phys_mem_new [OF room x(1) this] obtain i where
    r: "find_backing (phys s') x = Some (i, unat x - unat a, unat (size_align sz) - (unat x - unat a))"
    and z: "snd (phys s' ! i) = replicate (unat (size_align sz)) 0"
    unfolding e(2) by blast
  show "backed (phys s') x n" using r x by (auto simp: backed_def)
  assume "length buf \<le> n"
  then show "read_phys_mem (phys s') x buf = replicate (length buf) 0"
    using x by (subst read_phys_mem_block [OF r]) (auto simp: z min_def)
qed

section \<open>Properties\<close>

text \<open>
  C1. A frame run handed out by the allocator starts at the cursor, is page aligned, ends
  inside guest memory, is backed and reads as zero everywhere, and handing it out keeps the
  allocator's invariant and every byte that was already backed.
\<close>

theorem alloc_phys_correct:
  assumes "phys_ok s" and "alloc_phys s sz = Inr (s', a)"
  shows "phys_ok s' \<and> a = phys_next s \<and> 4096 dvd unat a \<and>
    unat (phys_next s') = unat a + unat (size_align sz) \<and> unat (phys_next s') \<le> unat phys_end \<and>
    (\<forall>x n. unat a \<le> unat x \<and> 0 < n \<and> unat x + n \<le> unat (phys_next s') \<longrightarrow>
       backed (phys s') x n \<and> read_phys_mem (phys s') x (replicate n 0xFF) = replicate n 0) \<and>
    (\<forall>x n. backed (phys s) x n \<longrightarrow>
       backed (phys s') x n \<and>
       read_phys_mem (phys s') x (replicate n 0xFF) = read_phys_mem (phys s) x (replicate n 0xFF))"
proof -
  have al: "alloc_phys_locked s sz = Inr (s', a)" using assms(2) by (simp add: alloc_phys_def)
  note e = alloc_phys_lockedE [OF al assms(1)]
  have "4096 dvd unat a" using assms(1) e(1) by (simp add: phys_ok_def)
  with e phys_ok_alloc [OF al assms(1)]
    alloc_phys_fresh [OF al assms(1)] alloc_phys_keeps [OF al assms(1)]
  show ?thesis by (metis length_replicate order_refl)
qed

theorem alloc_phys_correct_witness:
  "\<exists>s'. alloc_phys \<lparr>phys = [], phys_next = phys_base\<rparr> 1 = Inr (s', phys_base) \<and>
     phys_ok s' \<and> unat (phys_next s') = unat phys_base + 4096"
proof -
  let ?s = "\<lparr>phys = [], phys_next = phys_base\<rparr> :: mmu_base"
  have ok: "phys_ok ?s" by (simp add: phys_ok_def)
  have sz: "size_align 1 = 0x1000" by (simp add: size_align_def page_size_def)
  have "alloc_phys ?s 1 = Inr (?s\<lparr>phys_next := phys_base + 0x1000,
      phys := map_phys_mem [] phys_base 0x1000\<rparr>, phys_base)"
    by (simp add: alloc_phys_def alloc_phys_locked_def sz phys_end_def phys_base_def phys_size_def)
  from alloc_phys_correct [OF ok this] this show ?thesis by (auto simp: sz)
qed

text \<open>
  Physical reads return what was last written there, and a write changes nothing outside
  the bytes it covers.
\<close>

theorem read_write_phys_laws:
  assumes "backed m a (length bs)"
  shows "read_phys_mem (write_phys_mem m a bs) a (replicate (length bs) 0) = bs \<and>
    (\<forall>x n. backed m x n \<and> ranges_apart a (length bs) x n \<longrightarrow>
       read_phys_mem (write_phys_mem m a bs) x (replicate n 0) = read_phys_mem m x (replicate n 0))"
proof (intro conjI allI impI)
  show "read_phys_mem (write_phys_mem m a bs) a (replicate (length bs) 0) = bs"
    using assms by (rule read_write_phys_same) simp
  fix x n
  assume h: "backed m x n \<and> ranges_apart a (length bs) x n"
  then have "ranges_apart x n a (length bs)" by (simp only: ranges_apart_sym)
  with h assms
  show "read_phys_mem (write_phys_mem m a bs) x (replicate n 0) = read_phys_mem m x (replicate n 0)"
    by (intro read_write_phys_other) simp_all
qed

theorem read_write_phys_laws_witness:
  "read_phys_mem (write_phys_mem [(0x1000, [1, 2, 3, 4])] 0x1001 [7, 8]) 0x1001 [0, 0] = [7, 8]"
proof -
  have "find_backing [(0x1000, [1, 2, 3, 4])] 0x1001 = Some (0, 1, 3)"
    by (simp add: in_block.simps)
  then have "backed [(0x1000, [1, 2, 3, 4])] 0x1001 (length [7, 8 :: u8])"
    by (simp add: backed_def)
  from read_write_phys_laws [OF this] show ?thesis by (simp add: numeral_2_eq_2)
qed

end
