(* ===== verification/Pool.thy ===== *)
theory Pool
  imports Std_Map Phys_Mem
begin

text \<open>
  The kernel pool, \<open>src/kernel/win/pool.cpp\<close>: a map from addresses to blocks, first fit on the
  aligned address, splitting in front of and behind the chosen block, and coalescing with both
  neighbours on free. The blocks come in runs from the \<open>alloc\<close> of an address space, which the
  locale \<open>run_source\<close> states the contract of; both address spaces of the program satisfy it.
  What a client sees of a pool is \<open>allocated\<close>: which addresses hold a live allocation, and its
  size and tag. Allocation adds exactly one entry to it and free removes exactly one.
\<close>

record block =
  bsize :: u64
  requested :: u64
  btag :: u32
  bfree :: bool

type_synonym pool = "(addr \<times> block) list"

definition pool_alignment :: u64 where
  "pool_alignment = 16"

definition pool_page_size :: u64 where
  "pool_page_size = 0x1000"

definition run_size :: u64 where
  "run_size = 0x100000"

definition new_block :: "u64 \<Rightarrow> block" where
  "new_block sz = \<lparr>bsize = sz, requested = 0, btag = 0, bfree = True\<rparr>"

section \<open>Operations\<close>

definition pool_reserve ::
  "(u64 \<Rightarrow> mem_prot \<Rightarrow> 'm \<Rightarrow> emu_error + 'm \<times> addr) \<Rightarrow> u64 \<Rightarrow> 'm \<times> pool \<Rightarrow>
   emu_error + ('m \<times> pool) \<times> addr" where
  "pool_reserve alloc sz = (\<lambda>(mem, blocks).
     let reserved = align_up pool_page_size (max sz run_size)
     in bind_result (alloc reserved (prot_rw OR prot_supervisor) mem) (\<lambda>(mem1, base).
          Inr ((mem1, smap_emplace base (new_block reserved) blocks), base)))"

text \<open>The first block the request fits in, once its address is aligned.\<close>

definition fits :: "u64 \<Rightarrow> u64 \<Rightarrow> addr \<times> block \<Rightarrow> bool" where
  "fits alignment needed = (\<lambda>(k, b). bfree b \<and> (align_up alignment k - k) + needed \<le> bsize b)"

text \<open>Splitting the block at \<open>it\<close>, and marking the part at \<open>a\<close> as taken.\<close>

definition pool_carve :: "addr \<Rightarrow> addr \<Rightarrow> u64 \<Rightarrow> u64 \<Rightarrow> u32 \<Rightarrow> pool \<Rightarrow> pool" where
  "pool_carve it a needed sz t blocks =
     (let lead = a - it;
          b = the (smap_find it blocks);
          blocks1 = (if 0 < lead
                     then smap_emplace a (new_block (bsize b - lead)) (smap_set it (b\<lparr>bsize := lead\<rparr>) blocks)
                     else blocks);
          chosen = the (smap_find a blocks1);
          (blocks2, chosen2) =
            (if needed < bsize chosen
             then (smap_emplace (a + needed) (new_block (bsize chosen - needed)) blocks1,
                   chosen\<lparr>bsize := needed\<rparr>)
             else (blocks1, chosen))
      in smap_set a (chosen2\<lparr>bfree := False, requested := sz, btag := t\<rparr>) blocks2)"

definition pool_allocate ::
  "(u64 \<Rightarrow> mem_prot \<Rightarrow> 'm \<Rightarrow> emu_error + 'm \<times> addr) \<Rightarrow> (addr \<Rightarrow> u8 list \<Rightarrow> 'm \<Rightarrow> emu_error + 'm) \<Rightarrow>
   u64 \<Rightarrow> u32 \<Rightarrow> bool \<Rightarrow> 'm \<times> pool \<Rightarrow> emu_error + ('m \<times> pool) \<times> addr" where
  "pool_allocate alloc wr sz t zero = (\<lambda>(mem, blocks).
     if sz = 0 then Inr ((mem, blocks), 0)
     else
       let alignment = (if pool_page_size \<le> sz then pool_page_size else pool_alignment);
           needed = align_up pool_alignment sz
       in bind_result
            (case List.find (fits alignment needed) blocks of
               Some (k, b) \<Rightarrow> Inr ((mem, blocks), k)
             | None \<Rightarrow> pool_reserve alloc (needed + alignment) (mem, blocks))
            (\<lambda>((mem1, blocks1), it).
               let a = align_up alignment it;
                   blocks2 = pool_carve it a needed sz t blocks1
               in bind_result (if zero then wr a (replicate (unat sz) 0) mem1 else Inr mem1)
                    (\<lambda>mem2. Inr ((mem2, blocks2), a))))"

text \<open>\<open>std::next(it)\<close> and \<open>std::prev(it)\<close> of the iterator at a key.\<close>

definition next_entry :: "addr \<Rightarrow> (addr \<times> 'v) list \<Rightarrow> (addr \<times> 'v) option" where
  "next_entry k m = (case upper_bound k m of [] \<Rightarrow> None | e # _ \<Rightarrow> Some e)"

definition prev_entry :: "addr \<Rightarrow> (addr \<times> 'v) list \<Rightarrow> (addr \<times> 'v) option" where
  "prev_entry k m =
     (let before = takeWhile (\<lambda>e. fst e < k) m in if before = [] then None else Some (last before))"

text \<open>The two coalescing steps of \<open>free\<close>, on the freed block at \<open>a\<close>.\<close>

definition join_next :: "addr \<Rightarrow> block \<Rightarrow> pool \<Rightarrow> pool \<times> block" where
  "join_next a freed blocks =
     (case next_entry a blocks of
        None \<Rightarrow> (blocks, freed)
      | Some (n, nb) \<Rightarrow>
          if bfree nb \<and> a + bsize freed = n
          then (smap_erase n blocks, freed\<lparr>bsize := bsize freed + bsize nb\<rparr>)
          else (blocks, freed))"

definition join_prev :: "addr \<Rightarrow> block \<Rightarrow> pool \<Rightarrow> pool" where
  "join_prev a freed blocks =
     (case prev_entry a blocks of
        None \<Rightarrow> blocks
      | Some (p, pb) \<Rightarrow>
          if bfree pb \<and> p + bsize pb = a
          then smap_erase a (smap_set p (pb\<lparr>bsize := bsize pb + bsize freed\<rparr>) blocks)
          else blocks)"

definition pool_free :: "addr \<Rightarrow> pool \<Rightarrow> pool \<times> (u64 \<times> u32) option" where
  "pool_free a blocks =
     (case smap_find a blocks of
        None \<Rightarrow> (blocks, None)
      | Some b \<Rightarrow>
          if bfree b then (blocks, None)
          else
            let result = (requested b, btag b);
                (blocks1, freed) = join_next a (b\<lparr>bfree := True\<rparr>) blocks
            in (join_prev a freed (smap_set a freed blocks1), Some result))"

text \<open>\<open>char\<close> is signed on the targets: a byte from \<open>0x80\<close> on is negative, and not printable.\<close>

definition pool_tag_name :: "u32 \<Rightarrow> string" where
  "pool_tag_name t =
     map (\<lambda>i. let c = (ucast (drop_bit (i * 8) t AND 0xFF) :: u8)
               in if 0x20 \<le> sint c \<and> sint c < 0x7F then char_of (unat c) else CHR ''.'') [0..<4]"

definition pool_tag :: "string \<Rightarrow> u32" where
  "pool_tag name =
     of_char (name ! 0) OR push_bit 8 (of_char (name ! 1)) OR
     push_bit 16 (of_char (name ! 2)) OR push_bit 24 (of_char (name ! 3))"

lemma of_char_word: "(of_char c :: 'a::len word) = of_nat (of_char c :: nat)"
  by (simp only: of_nat_of_char)

lemma of_char_bit: "bit (of_char c :: 'a::len word) n \<longleftrightarrow> n < LENGTH('a) \<and> bit (of_char c :: nat) n"
  by (subst of_char_word) (simp add: bit_of_nat_iff)

lemma of_char_8: "bit (of_char c :: nat) n \<Longrightarrow> n < 8"
proof -
  have "take_bit 8 (of_char c :: nat) = of_char c"
    using nat_of_char_less_256 [of c] by (intro take_bit_nat_eq_self) simp
  then show "bit (of_char c :: nat) n \<Longrightarrow> n < 8" by (metis bit_take_bit_iff)
qed

lemma tag_byte:
  assumes "i < 4"
  shows "(ucast (drop_bit (i * 8) (pool_tag name) AND 0xFF) :: u8) = of_char (name ! i)"
proof -
  have m: "(0xFF :: u32) = mask 8" by (simp add: mask_eq_exp_minus_1)
  from assms consider "i = 0" | "i = 1" | "i = 2" | "i = 3" by linarith
  then show ?thesis unfolding m take_bit_eq_mask [symmetric]
    by cases (rule bit_eqI, auto simp: pool_tag_def bit_simps of_char_bit dest: of_char_8)+
qed

lemma tag_name_round_trip:
  assumes "length name = 4" and "\<forall>c \<in> set name. 0x20 \<le> (of_char c :: nat) \<and> of_char c < (0x7F :: nat)"
  shows "pool_tag_name (pool_tag name) = name"
proof (rule nth_equalityI)
  show "length (pool_tag_name (pool_tag name)) = length name" by (simp add: pool_tag_name_def assms(1))
  fix i assume "i < length (pool_tag_name (pool_tag name))"
  then have i: "i < 4" by (simp add: pool_tag_name_def)
  define c where "c = name ! i"
  have p: "0x20 \<le> (of_char c :: nat)" "of_char c < (0x7F :: nat)" using assms i by (auto simp: c_def)
  have u: "unat (of_char c :: u8) = of_char c"
    using p unfolding of_char_word [where 'a = 8] by (simp add: unat_of_nat take_bit_nat_eq_self)
  have "sint (of_char c :: u8) = int (of_char c)"
  proof -
    have ui: "uint (of_char c :: u8) = int (of_char c)" using u by (metis of_nat_unat)
    show ?thesis unfolding sint_uint ui using p by (intro signed_take_bit_int_eq_self) simp_all
  qed
  then show "pool_tag_name (pool_tag name) ! i = name ! i"
    using i p tag_byte [OF i, of name] u by (simp add: pool_tag_name_def Let_def c_def)
qed
section \<open>What a client sees\<close>

definition allocated :: "pool \<Rightarrow> addr \<Rightarrow> (u64 \<times> u32) option" where
  "allocated m a =
     (case smap_find a m of
        None \<Rightarrow> None
      | Some b \<Rightarrow> if bfree b then None else Some (requested b, btag b))"

text \<open>
  The invariant: the blocks are disjoint and end below \<open>limit\<close>, all on 16 byte boundaries, and a
  taken block has room for what was asked of it.
\<close>

definition block_ok :: "addr \<times> block \<Rightarrow> bool" where
  "block_ok = (\<lambda>(k, b). 16 dvd unat k \<and> 16 dvd unat (bsize b) \<and>
     (\<not> bfree b \<longrightarrow> 0 < unat (requested b) \<and> unat (requested b) \<le> unat (bsize b)))"

definition pool_ok :: "nat \<Rightarrow> pool \<Rightarrow> bool" where
  "pool_ok limit m \<longleftrightarrow> tiled bsize 1 limit m \<and> limit < 2 ^ 64 \<and> (\<forall>e \<in> set m. block_ok e)"

lemma pool_ok_sorted: "pool_ok hi m \<Longrightarrow> sorted_keys m"
  by (auto simp: pool_ok_def dest: tiled_sorted)

lemma allocated_iff:
  "sorted_keys m \<Longrightarrow> allocated m a = Some r \<longleftrightarrow>
     (\<exists>b. (a, b) \<in> set m \<and> \<not> bfree b \<and> r = (requested b, btag b))"
  by (auto simp: allocated_def smap_find_in [symmetric] split: option.splits)

text \<open>Live allocations do not overlap.\<close>

lemma allocated_disjoint:
  assumes "pool_ok hi m" and "allocated m a = Some (n, t)" and "allocated m a' = Some (n', t')" and "a < a'"
  shows "unat a + unat n \<le> unat a'"
proof -
  note s = pool_ok_sorted [OF assms(1)]
  obtain b where b: "(a, b) \<in> set m" "\<not> bfree b" "n = requested b"
    using assms(2) by (auto simp: allocated_iff [OF s])
  obtain b' where b': "(a', b') \<in> set m" using assms(3) by (auto simp: allocated_iff [OF s])
  obtain xs ys where m: "m = xs @ (a, b) # ys" using b(1) by (auto dest: split_list)
  have "(a', b') \<in> set ys"
    using b' s assms(4) by (auto simp: m sorted_keys_append)
  then have "unat a + unat (bsize b) \<le> unat a'"
    using tiled_keys_after [of bsize 1 hi xs a b ys "(a', b')"] assms(1) by (auto simp: pool_ok_def m)
  moreover have "unat n \<le> unat (bsize b)" using assms(1) b by (auto simp: pool_ok_def block_ok_def)
  ultimately show ?thesis by linarith
qed

section \<open>Carving a block\<close>

lemma new_block_sel [simp]: "bsize (new_block n) = n" "bfree (new_block n)"
  by (simp_all add: new_block_def)

text \<open>The part in front of the aligned address becomes a free block of its own.\<close>

lemma carve_lead:
  assumes t: "tiled bsize lo hi (xs @ (k, b) # ys)" and hi: "hi < 2 ^ 64"
    and a: "unat k < unat a" "unat a < unat k + unat (bsize b)"
  shows "smap_emplace a (new_block (bsize b - (a - k))) (smap_set k (b\<lparr>bsize := a - k\<rparr>) (xs @ (k, b) # ys)) =
      (xs @ [(k, b\<lparr>bsize := a - k\<rparr>)]) @ (a, new_block (bsize b - (a - k))) # ys" (is "?l = ?r")
    and "tiled bsize lo hi ((xs @ [(k, b\<lparr>bsize := a - k\<rparr>)]) @ (a, new_block (bsize b - (a - k))) # ys)"
proof -
  note s = tiled_sorted [OF t]
  have u: "unat (a - k) = unat a - unat k" using a by (simp add: word_nat)
  then have r: "unat (bsize b - (a - k)) = unat (bsize b) - (unat a - unat k)" using a by (subst unat_sub_le) auto
  show t2: "tiled bsize lo hi ?r" using t a u r by (auto simp: tiled_split ac_simps)
  have s1: "sorted_keys ((xs @ [(k, b\<lparr>bsize := a - k\<rparr>)]) @ ys)"
    using s by (auto simp: sorted_keys_append sorted_keys_Cons)
  have "smap_set k (b\<lparr>bsize := a - k\<rparr>) (xs @ (k, b) # ys) = (xs @ [(k, b\<lparr>bsize := a - k\<rparr>)]) @ ys"
    using smap_set_here [OF s] by simp
  moreover have "\<forall>x \<in> set (xs @ [(k, b\<lparr>bsize := a - k\<rparr>)]). fst x < a" "\<forall>y \<in> set ys. a < fst y"
    using tiled_sorted [OF t2] by (auto simp: sorted_keys_append sorted_keys_Cons)
  ultimately show "?l = ?r" using smap_emplace_between [OF s1] by simp
qed

text \<open>The part behind the request does too.\<close>

lemma carve_tail:
  assumes t: "tiled bsize lo hi (xs @ (a, c) # ys)" and hi: "hi < 2 ^ 64"
    and n: "0 < unat needed" "unat needed < unat (bsize c)"
  shows "smap_set a (c\<lparr>bsize := needed, bfree := False, requested := sz, btag := tg\<rparr>)
      (smap_emplace (a + needed) (new_block (bsize c - needed)) (xs @ (a, c) # ys)) =
      xs @ (a, c\<lparr>bsize := needed, bfree := False, requested := sz, btag := tg\<rparr>) #
      (a + needed, new_block (bsize c - needed)) # ys" (is "?l = ?r")
    and "tiled bsize lo hi (xs @ (a, c\<lparr>bsize := needed, bfree := False, requested := sz, btag := tg\<rparr>) #
      (a + needed, new_block (bsize c - needed)) # ys)"
proof -
  note s = tiled_sorted [OF t]
  have u: "unat (a + needed) = unat a + unat needed"
    using tiled_end [OF t] hi n by (intro unat_add_no_overflow) linarith
  have r: "unat (bsize c - needed) = unat (bsize c) - unat needed" using n by (intro unat_sub_le) simp
  show t2: "tiled bsize lo hi ?r" using t n u r by (auto simp: tiled_split)
  note s2 = tiled_sorted [OF t2]
  have s1: "sorted_keys ((xs @ [(a, c)]) @ ys)" using s by simp
  have "\<forall>x \<in> set (xs @ [(a, c)]). fst x < a + needed" "\<forall>y \<in> set ys. a + needed < fst y"
    using s2 by (auto simp: sorted_keys_append sorted_keys_Cons)
  from smap_emplace_between [OF s1 this] have
    "smap_emplace (a + needed) (new_block (bsize c - needed)) (xs @ (a, c) # ys) =
     xs @ (a, c) # (a + needed, new_block (bsize c - needed)) # ys" by simp
  moreover have "sorted_keys (xs @ (a, c) # (a + needed, new_block (bsize c - needed)) # ys)"
    using s2 by (simp add: sorted_keys_append sorted_keys_Cons)
  ultimately show "?l = ?r" using smap_set_here by simp
qed

lemma carve_exact:
  assumes "tiled bsize lo hi (xs @ (a, c) # ys)"
  shows "tiled bsize lo hi (xs @ (a, c\<lparr>bfree := False, requested := sz, btag := tg\<rparr>) # ys)"
  using assms by (simp add: tiled_split)

text \<open>
  Carving one free block: its pieces are that block's, the piece at \<open>a\<close> is taken and the
  pieces around it are free.
\<close>

lemma pool_carve_shape:
  assumes t: "tiled bsize lo hi (xs @ (k, b) # ys)" and hi: "hi < 2 ^ 64"
    and a: "unat k \<le> unat a" "unat a + unat needed \<le> unat k + unat (bsize b)" and n: "0 < unat needed"
    and sz: "unat sz \<le> unat needed" "0 < unat sz"
    and al: "16 dvd unat k" "16 dvd unat (bsize b)" "16 dvd unat a" "16 dvd unat needed" and free: "bfree b"
  obtains pre c post where "pool_carve k a needed sz tg (xs @ (k, b) # ys) = xs @ pre @ (a, c) # post @ ys"
    and "\<forall>e \<in> set (pre @ post). bfree (snd e) \<and> block_ok e"
    and "c = c\<lparr>bsize := needed, bfree := False, requested := sz, btag := tg\<rparr>"
    and "tiled bsize lo hi (xs @ pre @ (a, c) # post @ ys)"
proof -
  let ?mark = "\<lambda>c. c\<lparr>bsize := needed, bfree := False, requested := sz, btag := tg\<rparr>"
  note s = tiled_sorted [OF t]
  define pre c0 where "pre = (if k = a then [] else [(k, b\<lparr>bsize := a - k\<rparr>)])"
    and "c0 = (if k = a then b else new_block (bsize b - (a - k)))"
  have lead: "unat (a - k) = unat a - unat k" using a by (intro unat_sub_le) simp
  then have rest: "unat (bsize b - (a - k)) = unat (bsize b) - (unat a - unat k)"
    using a by (subst unat_sub_le) auto
  have c0: "unat needed \<le> unat (bsize c0)" "16 dvd unat (bsize c0)" "bfree c0"
    using a al free lead rest by (auto simp: c0_def)
  have pre: "\<forall>e \<in> set pre. bfree (snd e) \<and> block_ok e"
    using al free lead by (auto simp: pre_def block_ok_def)
  define m1 where "m1 = (xs @ pre) @ (a, c0) # ys"
  have first: "(if 0 < a - k then smap_emplace a (new_block (bsize b - (a - k)))
      (smap_set k (b\<lparr>bsize := a - k\<rparr>) (xs @ (k, b) # ys)) else xs @ (k, b) # ys) = m1 \<and> tiled bsize lo hi m1"
  proof (cases "k = a")
    case False
    then have "unat k \<noteq> unat a" by (simp add: word_unat_eq_iff)
    then have "unat k < unat a" "0 < a - k" using a(1) lead by (auto simp: word_less_nat_alt)
    with False carve_lead [OF t hi, of a] a(2) n show ?thesis by (simp add: m1_def pre_def c0_def)
  qed (use t in \<open>simp add: m1_def pre_def c0_def\<close>)
  note t1 = conjunct2 [OF first, unfolded m1_def]
  have find1: "smap_find k (xs @ (k, b) # ys) = Some b" "smap_find a m1 = Some c0"
    using smap_find_here [OF s] smap_find_here [OF tiled_sorted [OF t1]] by (simp_all add: m1_def)
  have carve: "pool_carve k a needed sz tg (xs @ (k, b) # ys) =
      (if needed < bsize c0 then smap_set a (?mark c0) (smap_emplace (a + needed) (new_block (bsize c0 - needed)) m1)
       else smap_set a (c0\<lparr>bfree := False, requested := sz, btag := tg\<rparr>) m1)"
    using first find1 by (simp add: pool_carve_def Let_def)
  show ?thesis
  proof (cases "needed < bsize c0")
    case True
    then have lt: "unat needed < unat (bsize c0)" by (simp add: word_less_nat_alt)
    note ct = carve_tail [OF t1 hi n lt, where sz = sz and tg = tg]
    have "unat (a + needed) = unat a + unat needed"
      using tiled_end [OF t1] hi lt by (intro unat_add_no_overflow) linarith
    moreover have "unat (bsize c0 - needed) = unat (bsize c0) - unat needed"
      using lt by (intro unat_sub_le) simp
    ultimately have ok: "block_ok (a + needed, new_block (bsize c0 - needed))"
      using al c0 by (simp add: block_ok_def)
    show ?thesis
      by (rule that [of pre "?mark c0" "[(a + needed, new_block (bsize c0 - needed))]"])
        (use carve True ct pre ok in \<open>simp_all add: m1_def ball_Un\<close>)
  next
    case False
    with c0 have eq: "bsize c0 = needed" by (simp add: word_less_nat_alt word_unat_eq_iff)
    have mark: "c0\<lparr>bfree := False, requested := sz, btag := tg\<rparr> = ?mark c0" unfolding eq [symmetric] by simp
    have "pool_carve k a needed sz tg (xs @ (k, b) # ys) = xs @ pre @ (a, ?mark c0) # [] @ ys"
      using carve False smap_set_here [OF tiled_sorted [OF t1]] unfolding mark by (simp add: m1_def)
    moreover have "tiled bsize lo hi (xs @ pre @ (a, ?mark c0) # [] @ ys)"
      using carve_exact [OF t1, where sz = sz and tg = tg] unfolding mark by simp
    ultimately show ?thesis using pre by (intro that [of pre "?mark c0" "[]"]) simp_all
  qed
qed

lemma carve_allocated:
  assumes "sorted_keys (xs @ (k, b) # ys)" and "sorted_keys (xs @ pre @ (a, c) # post @ ys)"
    and "bfree b" and "\<forall>e \<in> set (pre @ post). bfree (snd e)" and "\<not> bfree c"
  shows "allocated (xs @ pre @ (a, c) # post @ ys) = (allocated (xs @ (k, b) # ys))(a \<mapsto> (requested c, btag c))"
    and "allocated (xs @ (k, b) # ys) a = None"
proof -
  have away: "(a, c') \<notin> set xs \<union> set ys \<union> set pre \<union> set post" for c'
    using sorted_keys_away [of "xs @ pre" a c "post @ ys" "(a, c')"] assms(2) by auto
  have side: "bfree b'" if "(x, b') \<in> set pre \<union> set post" for x b'
    using assms(4) that by force
  show "allocated (xs @ pre @ (a, c) # post @ ys) = (allocated (xs @ (k, b) # ys))(a \<mapsto> (requested c, btag c))"
  proof (intro ext option_ext)
    fix x r
    show "allocated (xs @ pre @ (a, c) # post @ ys) x = Some r \<longleftrightarrow>
        ((allocated (xs @ (k, b) # ys))(a \<mapsto> (requested c, btag c))) x = Some r"
      using assms(3,5) away side
      by (cases "x = a") (auto simp: allocated_iff [OF assms(1)] allocated_iff [OF assms(2)])
  qed
  show "allocated (xs @ (k, b) # ys) a = None"
    using assms(3) away by (auto simp: not_Some_eq [symmetric] allocated_iff [OF assms(1)] simp del: not_Some_eq)
qed

text \<open>The distance to the next boundary, which the fit test adds to the request.\<close>

lemma align_up_gap:
  assumes "n < 64"
  shows "unat (align_up (2 ^ n) s - s) < 2 ^ n" and "2 ^ n dvd unat (align_up (2 ^ n) s)"
proof -
  let ?x = "s + (2 ^ n - 1)"
  have "align_up (2 ^ n) s - s = (2 ^ n - 1) - take_bit n ?x"
    by (simp add: align_up_alt align_down_pow)
  moreover have "unat (take_bit n ?x) \<le> unat ((2 :: u64) ^ n - 1)"
    unfolding unat_take_bit_word unat_pow2_minus1 [OF assms]
    using mod_less_divisor [of "2 ^ n" "unat ?x"] by (metis Suc_pred' less_Suc_eq_le zero_less_numeral zero_less_power)
  ultimately have "unat (align_up (2 ^ n) s - s) \<le> 2 ^ n - 1"
    by (simp add: unat_sub_le unat_pow2_minus1 [OF assms])
  moreover have "(0 :: nat) < 2 ^ n" by simp
  ultimately show "unat (align_up (2 ^ n) s - s) < 2 ^ n" by linarith
  show "2 ^ n dvd unat (align_up (2 ^ n) s)" by (simp add: align_up_alt unat_align_down)
qed

lemma align_up_aligned:
  assumes "n < 64" and "2 ^ n dvd unat s" and "unat s + 2 ^ n - 1 < 2 ^ 64"
  shows "align_up (2 ^ n) s = s"
proof -
  obtain q where q: "unat s = q * 2 ^ n" using assms(2) by (auto elim: dvdE)
  obtain r :: nat where r: "2 ^ n = Suc r" using gr0_implies_Suc [of "2 ^ n"] by auto
  have "(q * 2 ^ n + 2 ^ n - 1) div 2 ^ n = (q :: nat)"
    unfolding r by (rule div_nat_eqI) simp_all
  then have "unat (align_up (2 ^ n) s) = unat s" using unat_align_up [OF assms(1,3)] by (simp add: q)
  then show ?thesis by (simp add: word_unat_eq_iff)
qed

lemma alignment_pow: "pool_alignment = 2 ^ 4" "pool_page_size = 2 ^ 12"
  by (simp_all add: pool_alignment_def pool_page_size_def)

lemma request_size:
  assumes "unat sz + 0x3000 < 2 ^ 64" and "0 < unat sz"
  shows "16 dvd unat (align_up pool_alignment sz)" and "unat sz \<le> unat (align_up pool_alignment sz)"
    and "unat (align_up pool_alignment sz) < unat sz + 16"
  using unat_align_up [of 4 sz] assms by (simp_all add: alignment_pow)

text \<open>A block that passes the test holds the aligned request, with no wrap-around.\<close>

lemma fits_room:
  assumes f: "fits al needed (k, b)" and al: "al = pool_page_size \<or> al = pool_alignment"
    and room: "unat k + unat (bsize b) < 2 ^ 64" and n: "unat needed + 0x1000 < 2 ^ 64"
  shows "unat k \<le> unat (align_up al k) \<and> unat (align_up al k) + unat needed \<le> unat k + unat (bsize b) \<and>
    16 dvd unat (align_up al k) \<and> unat al dvd unat (align_up al k) \<and> bfree b"
proof -
  let ?d = "align_up al k - k"
  have gap: "unat ?d < 0x1000" "unat al dvd unat (align_up al k)" "16 dvd unat (align_up al k)"
    using al align_up_gap [of 12 k] align_up_gap [of 4 k] by (auto simp: alignment_pow intro: dvd_trans)
  then have "unat (?d + needed) = unat ?d + unat needed" using n by (intro unat_add_no_overflow) simp
  then have fit: "unat ?d + unat needed \<le> unat (bsize b)"
    using f by (simp add: fits_def word_le_nat_alt)
  then have "unat (k + ?d) = unat k + unat ?d" using room by (intro unat_add_no_overflow) linarith
  then have "unat (align_up al k) = unat k + unat ?d" by simp
  with fit gap f show ?thesis by (simp add: fits_def)
qed

section \<open>Freeing a block\<close>

lemma upper_bound_here:
  "sorted_keys (xs @ (k, b) # ys) \<Longrightarrow> upper_bound k (xs @ (k, b) # ys) = ys"
proof -
  assume s: "sorted_keys (xs @ (k, b) # ys)"
  then have "\<forall>e \<in> set (xs @ [(k, b)]). fst e \<le> k" "ys = [] \<or> \<not> fst (hd ys) \<le> k"
    by (auto simp: sorted_keys_append sorted_keys_Cons not_le) (cases ys, auto)
  then have "dropWhile (\<lambda>e. fst e \<le> k) ((xs @ [(k, b)]) @ ys) = ys"
    by (subst dropWhile_append2) (auto, cases ys, auto)
  then show ?thesis by (simp add: upper_bound_def)
qed

lemma next_entry_here:
  "sorted_keys (xs @ (k, b) # ys) \<Longrightarrow> next_entry k (xs @ (k, b) # ys) = (if ys = [] then None else Some (hd ys))"
  by (auto simp: next_entry_def upper_bound_here split: list.split)

lemma prev_entry_here:
  "sorted_keys (xs @ (k, b) # ys) \<Longrightarrow> prev_entry k (xs @ (k, b) # ys) = (if xs = [] then None else Some (last xs))"
proof -
  assume "sorted_keys (xs @ (k, b) # ys)"
  then have "takeWhile (\<lambda>e. fst e < k) (xs @ (k, b) # ys) = xs"
    by (subst takeWhile_append2) (auto simp: sorted_keys_append)
  then show ?thesis by (simp add: prev_entry_def Let_def)
qed

text \<open>Joining two neighbours that are both free, in either direction.\<close>

lemma tiled_join:
  assumes "tiled bsize lo hi (xs @ (k, b) # (n, c) # ys)" and "hi < 2 ^ 64" and "k + bsize b = n"
  shows "tiled bsize lo hi (xs @ (k, b\<lparr>bsize := bsize b + bsize c\<rparr>) # ys)"
    and "unat (bsize b + bsize c) = unat (bsize b) + unat (bsize c)"
proof -
  have t: "tiled bsize lo hi ((xs @ [(k, b)]) @ (n, c) # ys)" using assms(1) by simp
  have le: "unat n + unat (bsize c) \<le> hi" "unat k + unat (bsize b) \<le> unat n"
    using tiled_end [OF t] assms(1) by (auto simp: tiled_split)
  have n: "unat n = unat k + unat (bsize b)"
    unfolding assms(3) [symmetric] using le assms(2) unat_lt64 [of n] by (intro unat_add_no_overflow) linarith
  show s: "unat (bsize b + bsize c) = unat (bsize b) + unat (bsize c)"
    using le n assms(2) by (intro unat_add_no_overflow) linarith
  show "tiled bsize lo hi (xs @ (k, b\<lparr>bsize := bsize b + bsize c\<rparr>) # ys)"
    using assms(1) n by (auto simp: tiled_split s ac_simps)
qed

lemma pool_free_absent: "allocated m a = None \<Longrightarrow> pool_free a m = (m, None)"
  by (auto simp: allocated_def pool_free_def split: option.splits if_splits)

text \<open>What coalescing may do to a pool: it stays well formed and drops nothing but free blocks.\<close>

definition same_live :: "nat \<Rightarrow> pool \<Rightarrow> pool \<Rightarrow> bool" where
  "same_live hi m m' \<longleftrightarrow> pool_ok hi m' \<and>
     (\<forall>x y. \<not> bfree y \<longrightarrow> (x, y) \<in> set m' \<longleftrightarrow> (x, y) \<in> set m)"

lemma join_next_shape:
  assumes ok: "pool_ok hi (xs @ (a, b) # ys)" and f: "f = b\<lparr>bfree := True\<rparr>"
  obtains c ys' where "join_next a f (xs @ (a, b) # ys) = (xs @ (a, b) # ys', c)"
    and "bfree c" and "same_live hi (xs @ (a, f) # ys) (xs @ (a, c) # ys')"
proof -
  note t = ok [unfolded pool_ok_def, THEN conjunct1]
  have hi: "hi < 2 ^ 64" using ok by (simp add: pool_ok_def)
  note s = tiled_sorted [OF t]
  show ?thesis
  proof (cases "\<exists>nb zs. ys = (a + bsize b, nb) # zs \<and> bfree nb")
    case True
    then obtain nb zs where y: "ys = (a + bsize b, nb) # zs" "bfree nb" by blast
    let ?c = "f\<lparr>bsize := bsize b + bsize nb\<rparr>"
    have "tiled bsize 1 hi (xs @ (a, f) # (a + bsize b, nb) # zs)" using t by (simp add: y tiled_split f)
    note j = tiled_join [OF this hi, simplified f, simplified, folded f]
    have "sorted_keys ((xs @ [(a, b)]) @ (a + bsize b, nb) # zs)" using s y by simp
    from smap_erase_here [OF this] have er: "smap_erase (a + bsize b) (xs @ (a, b) # ys) = xs @ (a, b) # zs"
      by (simp add: y)
    have nx: "next_entry a (xs @ (a, b) # ys) = Some (a + bsize b, nb)" using next_entry_here [OF s] by (simp add: y)
    have "pool_ok hi (xs @ (a, ?c) # zs)"
      using ok j hi by (auto simp: pool_ok_def block_ok_def y f)
    then have "same_live hi (xs @ (a, f) # ys) (xs @ (a, ?c) # zs)"
      using y by (auto simp: same_live_def f)
    moreover have "join_next a f (xs @ (a, b) # ys) = (xs @ (a, b) # zs, ?c)"
      using nx er y(2) by (simp add: join_next_def f)
    ultimately show ?thesis by (intro that) (auto simp: f)
  next
    case False
    then have "join_next a f (xs @ (a, b) # ys) = (xs @ (a, b) # ys, f)"
      using next_entry_here [OF s] by (cases ys) (auto simp: join_next_def f)
    moreover have "same_live hi (xs @ (a, f) # ys) (xs @ (a, f) # ys)"
      using ok by (auto simp: same_live_def pool_ok_def block_ok_def tiled_split f)
    ultimately show ?thesis by (intro that) (auto simp: f)
  qed
qed

lemma join_prev_shape:
  assumes ok: "pool_ok hi (xs @ (a, c) # ys)" and c: "bfree c"
  shows "same_live hi (xs @ (a, c) # ys) (join_prev a c (xs @ (a, c) # ys))"
proof (cases "\<exists>ws p pb. xs = ws @ [(p, pb)] \<and> bfree pb \<and> p + bsize pb = a")
  case True
  then obtain ws p pb where x: "xs = ws @ [(p, pb)]" "bfree pb" "p + bsize pb = a" by blast
  let ?d = "pb\<lparr>bsize := bsize pb + bsize c\<rparr>"
  have t: "tiled bsize 1 hi (ws @ (p, pb) # (a, c) # ys)" and hi: "hi < 2 ^ 64"
    using ok by (auto simp: pool_ok_def x)
  note j = tiled_join [OF t hi x(3)]
  note s = pool_ok_sorted [OF ok]
  have sp: "sorted_keys (ws @ (p, pb) # (a, c) # ys)" "sorted_keys ((ws @ [(p, ?d)]) @ (a, c) # ys)"
    using s by (auto simp: x sorted_keys_append sorted_keys_Cons)
  have "smap_erase a (smap_set p ?d (xs @ (a, c) # ys)) = ws @ (p, ?d) # ys"
    using smap_set_here [OF sp(1)] smap_erase_here [OF sp(2)] by (simp add: x)
  then have m': "join_prev a c (xs @ (a, c) # ys) = ws @ (p, ?d) # ys"
    using prev_entry_here [OF s] x by (simp add: join_prev_def)
  have "pool_ok hi (ws @ (p, ?d) # ys)" using ok j x(2) by (auto simp: pool_ok_def block_ok_def x)
  then show ?thesis unfolding m' using x c by (auto simp: same_live_def)
next
  case False
  then have "join_prev a c (xs @ (a, c) # ys) = xs @ (a, c) # ys"
    using prev_entry_here [OF pool_ok_sorted [OF ok]]
    by (cases xs rule: rev_cases) (auto simp: join_prev_def split: prod.splits)
  then show ?thesis using ok by (simp add: same_live_def)
qed

text \<open>
  Free: the entry goes and no other changes, whatever is coalesced; what comes back is the size
  and the tag the block was allocated with.
\<close>

lemma pool_free_correct:
  assumes ok: "pool_ok hi m" and live: "allocated m a = Some r"
  obtains m' where "pool_free a m = (m', Some r)" and "pool_ok hi m'" and "allocated m' = (allocated m)(a := None)"
proof -
  note s0 = pool_ok_sorted [OF ok]
  obtain b where b: "(a, b) \<in> set m" "\<not> bfree b" "r = (requested b, btag b)"
    using live by (auto simp: allocated_iff [OF s0])
  then obtain xs ys where m: "m = xs @ (a, b) # ys" by (auto dest: split_list)
  obtain c ys' where j: "join_next a (b\<lparr>bfree := True\<rparr>) m = (xs @ (a, b) # ys', c)" and c: "bfree c"
    and l1: "same_live hi (xs @ (a, b\<lparr>bfree := True\<rparr>) # ys) (xs @ (a, c) # ys')"
    using join_next_shape [OF ok [unfolded m] refl] unfolding m .
  have ok1: "pool_ok hi (xs @ (a, c) # ys')" using l1 by (simp add: same_live_def)
  have "sorted_keys (xs @ (a, b) # ys')"
    using pool_ok_sorted [OF ok1] by (simp add: sorted_keys_append sorted_keys_Cons)
  note set = smap_set_here [OF this, of c]
  define m' where "m' = join_prev a c (xs @ (a, c) # ys')"
  have l2: "same_live hi (xs @ (a, c) # ys') m'" unfolding m'_def by (rule join_prev_shape [OF ok1 c])
  have ok': "pool_ok hi m'" using l2 by (simp add: same_live_def)
  have fr: "pool_free a m = (m', Some r)"
    using smap_find_here [OF s0 [unfolded m]] j set b(2,3) by (simp add: pool_free_def m'_def m)
  have away: "(a, x) \<notin> set xs \<union> set ys" for x
    using sorted_keys_away [of xs a b ys "(a, x)"] s0 by (auto simp: m)
  have key: "(x, y) \<in> set m' \<longleftrightarrow> x \<noteq> a \<and> (x, y) \<in> set m" if "\<not> bfree y" for x y
    using l1 l2 that away [of y] by (auto simp: same_live_def m)
  have "allocated m' = (allocated m)(a := None)"
  proof (intro ext option_ext)
    fix x r
    show "allocated m' x = Some r \<longleftrightarrow> ((allocated m)(a := None)) x = Some r"
      using key [of _ x] by (cases "x = a")
        (auto simp: allocated_iff [OF pool_ok_sorted [OF ok']] allocated_iff [OF s0])
  qed
  with fr ok' show ?thesis by (rule that)
qed

section \<open>The contract of the memory a pool draws on\<close>

text \<open>
  Runs are handed out page aligned, one after the other, from \<open>limit\<close> on; a write moves nothing.
\<close>

locale run_source =
  fixes alloc :: "u64 \<Rightarrow> mem_prot \<Rightarrow> 'm \<Rightarrow> emu_error + 'm \<times> addr"
    and wr :: "addr \<Rightarrow> u8 list \<Rightarrow> 'm \<Rightarrow> emu_error + 'm"
    and inv :: "'m \<Rightarrow> bool" and limit :: "'m \<Rightarrow> nat"
  assumes alloc_run: "inv mem \<Longrightarrow> 4096 dvd unat sz \<Longrightarrow>
      alloc sz (prot_rw OR prot_supervisor) mem = Inr (mem', base) \<Longrightarrow>
      inv mem' \<and> 4096 dvd unat base \<and> unat base = limit mem \<and> limit mem' = limit mem + unat sz"
    and limit_bound: "inv mem \<Longrightarrow> limit mem < 2 ^ 64"
    and wr_keeps: "inv mem \<Longrightarrow> wr a bs mem = Inr mem' \<Longrightarrow> inv mem' \<and> limit mem' = limit mem"
begin

text \<open>What the choice of a block gives: a free block with room, in a pool that shows the same.\<close>

lemma chosen_block:
  assumes inv: "inv mem" and ok: "pool_ok (limit mem) m"
    and sz: "unat sz + 0x3000 < 2 ^ 64" "0 < unat sz"
    and al: "al = pool_page_size \<or> al = pool_alignment" and n: "needed = align_up pool_alignment sz"
    and ch: "(case List.find (fits al needed) m of
               Some (k, b) \<Rightarrow> Inr ((mem, m), k)
             | None \<Rightarrow> pool_reserve alloc (needed + al) (mem, m)) = Inr ((mem1, m1), it)"
  shows "inv mem1 \<and> pool_ok (limit mem1) m1 \<and> allocated m1 = allocated m \<and>
    (\<exists>xs b ys. m1 = xs @ (it, b) # ys \<and> fits al needed (it, b))"
proof (cases "List.find (fits al needed) m")
  case (Some e)
  obtain k b where e: "e = (k, b)" by (cases e)
  with Some ch have "mem1 = mem" "m1 = m" "it = k" by auto
  moreover from Some e have "(k, b) \<in> set m" "fits al needed (k, b)" by (auto simp: find_Some_iff)
  moreover from this(1) obtain xs ys where "m = xs @ (k, b) # ys" by (auto dest: split_list)
  ultimately show ?thesis using inv ok by blast
next
  case None
  define R where "R = align_up pool_page_size (max (needed + al) run_size)"
  note r = request_size [OF sz]
  have al': "unat al \<le> 0x1000" using al by (auto simp: pool_page_size_def pool_alignment_def)
  have na: "unat (needed + al) = unat needed + unat al"
    using r(3) sz(1) al' by (intro unat_add_no_overflow) (simp add: n)
  have "unat (max (needed + al) run_size) + 0xFFF < 2 ^ 64"
    using r(3) sz(1) al' na by (simp add: max_def run_size_def n)
  with unat_align_up [of 12 "max (needed + al) run_size"] have R: "4096 dvd unat R"
    "unat (max (needed + al) run_size) \<le> unat R" by (simp_all add: R_def alignment_pow)
  have nR: "unat needed + unat al \<le> unat R"
    using R(2) na by (simp add: max_def word_le_nat_alt split: if_splits)
  from None ch obtain base where a: "alloc R (prot_rw OR prot_supervisor) mem = Inr (mem1, base)"
    and m1: "m1 = smap_emplace base (new_block R) m" and it: "it = base"
    by (auto simp: pool_reserve_def Let_def R_def split: sum.splits)
  note run = alloc_run [OF inv R(1) a]
  have t: "tiled bsize 1 (unat base) m" using ok run by (simp add: pool_ok_def)
  have "0 < unat R" using nR r(2) sz(2) by (simp add: n)
  then have t1: "tiled bsize 1 (limit mem1) (m @ [(base, new_block R)])"
    using t run tiled_window [OF t] by (simp add: tiled_split)
  have "sorted_keys (m @ [])" "\<forall>x \<in> set m. fst x < base"
    using tiled_sorted [OF t1] by (simp_all add: sorted_keys_append)
  from smap_emplace_between [OF this] have m1': "m1 = m @ [(base, new_block R)]" by (simp add: m1)
  have "(16 :: nat) dvd 4096" by simp
  then have "16 dvd unat base" "16 dvd unat R" using run R(1) by (blast intro: dvd_trans)+
  then have "block_ok (base, new_block R)" by (simp add: block_ok_def)
  then have ok1: "pool_ok (limit mem1) m1"
    using t1 ok limit_bound [of mem1] run by (auto simp: pool_ok_def m1')
  have "allocated m1 = allocated m"
    by (intro ext option_ext) (auto simp: allocated_iff [OF pool_ok_sorted [OF ok1 [unfolded m1']]]
        allocated_iff [OF pool_ok_sorted [OF ok]] m1')
  moreover have "unat base + 0xFFF < 2 ^ 64"
    using limit_bound [of mem1] run nR \<open>0 < unat R\<close> R(1) by (auto elim!: dvdE)
  then have "align_up al base = base"
    using al run align_up_aligned [of 12 base] align_up_aligned [of 4 base] \<open>16 dvd unat base\<close>
    by (auto simp: alignment_pow)
  ultimately have "fits al needed (base, new_block R)" "allocated m1 = allocated m"
    using nR by (simp_all add: fits_def word_le_nat_alt)
  then show ?thesis
    using run ok1 m1' it by blast
qed

text \<open>
  Allocation: one new entry, at an aligned address that held none, in a pool that is still
  well formed; the memory is the source's own, unless a new run was drawn or zeroes written.
\<close>

lemma allocate_correct:
  assumes inv: "inv mem" and ok: "pool_ok (limit mem) m" and sz: "unat sz + 0x3000 < 2 ^ 64" "0 < unat sz"
    and run: "pool_allocate alloc wr sz t zero (mem, m) = Inr ((mem', m'), a)"
  shows "inv mem'" and "pool_ok (limit mem') m'" and "allocated m a = None"
    and "allocated m' = (allocated m)(a \<mapsto> (sz, t))" and "a \<noteq> 0"
    and "(if 4096 \<le> unat sz then 4096 else 16) dvd unat a" and "unat a + unat sz \<le> limit mem'"
    and "zero \<longrightarrow> (\<exists>mem1. wr a (replicate (unat sz) 0) mem1 = Inr mem')"
proof -
  define al where "al = (if pool_page_size \<le> sz then pool_page_size else pool_alignment)"
  define needed where "needed = align_up pool_alignment sz"
  have al: "al = pool_page_size \<or> al = pool_alignment" by (simp add: al_def)
  have nz: "sz \<noteq> 0" using sz(2) by auto
  let ?pick = "case List.find (fits al needed) m of
         Some (k, b) \<Rightarrow> Inr ((mem, m), k)
       | None \<Rightarrow> pool_reserve alloc (needed + al) (mem, m)"
  have "bind_result ?pick (\<lambda>((mem1, m1), it).
      bind_result (if zero then wr (align_up al it) (replicate (unat sz) 0) mem1 else Inr mem1)
        (\<lambda>mem2. Inr ((mem2, pool_carve it (align_up al it) needed sz t m1), align_up al it))) = Inr ((mem', m'), a)"
    using run nz by (simp only: pool_allocate_def Let_def split_conv if_False al_def needed_def)
  then obtain mem1 m1 it where ch: "?pick = Inr ((mem1, m1), it)"
    and "bind_result (if zero then wr (align_up al it) (replicate (unat sz) 0) mem1 else Inr mem1)
        (\<lambda>mem2. Inr ((mem2, pool_carve it (align_up al it) needed sz t m1), align_up al it)) = Inr ((mem', m'), a)"
    by (cases ?pick) auto
  then have a: "a = align_up al it" and m': "m' = pool_carve it a needed sz t m1"
    and wz: "(if zero then wr a (replicate (unat sz) 0) mem1 else Inr mem1) = Inr mem'"
    by (auto split: sum.splits)
  from chosen_block [OF inv ok sz al needed_def ch] obtain xs b ys where inv1: "inv mem1"
    and ok1: "pool_ok (limit mem1) m1" and same: "allocated m1 = allocated m"
    and m1: "m1 = xs @ (it, b) # ys" and fit: "fits al needed (it, b)" by blast
  note t1 = ok1 [unfolded pool_ok_def, THEN conjunct1, unfolded m1]
  note r = request_size [OF sz, folded needed_def]
  note bound = limit_bound [OF inv1]
  have bok: "16 dvd unat it" "16 dvd unat (bsize b)" using ok1 by (auto simp: pool_ok_def block_ok_def m1)
  have "unat it + unat (bsize b) < 2 ^ 64" using tiled_end [OF t1] bound by linarith
  from fits_room [OF fit al this] r sz have room: "unat it \<le> unat a" "unat a + unat needed \<le> unat it + unat (bsize b)"
    "16 dvd unat a" "unat al dvd unat a" "bfree b" by (auto simp: a)
  have pos: "0 < unat needed" using r(2) sz(2) by simp
  obtain pre c post where sh: "m' = xs @ pre @ (a, c) # post @ ys"
    and side: "\<forall>e \<in> set (pre @ post). bfree (snd e) \<and> block_ok e"
    and c: "c = c\<lparr>bsize := needed, bfree := False, requested := sz, btag := t\<rparr>"
    and t': "tiled bsize 1 (limit mem1) (xs @ pre @ (a, c) # post @ ys)"
    using pool_carve_shape [OF t1 bound room(1,2) pos r(2) sz(2) bok room(3) r(1) room(5), of t] m'
    unfolding m1 by metis
  have cs: "bsize c = needed" "\<not> bfree c" "requested c = sz" "btag c = t" by (subst c, simp)+
  have keep: "inv mem' \<and> limit mem' = limit mem1"
    using wz inv1 wr_keeps [OF inv1] by (auto split: if_splits)
  then show "inv mem'" by simp
  have "\<forall>e \<in> set m'. block_ok e"
    using ok1 side cs r sz(2) room(3) by (auto simp: sh pool_ok_def m1 block_ok_def)
  then show "pool_ok (limit mem') m'" using t' bound keep by (simp add: pool_ok_def sh)
  note ca = carve_allocated [OF tiled_sorted [OF t1] tiled_sorted [OF t'] room(5) _ cs(2)]
  show "allocated m a = None" "allocated m' = (allocated m)(a \<mapsto> (sz, t))"
    using ca side cs same by (simp_all add: sh m1)
  have "tiled bsize 1 (limit mem1) ((xs @ pre) @ (a, c) # post @ ys)" using t' by simp
  from tiled_end [OF this] show "a \<noteq> 0" "unat a + unat sz \<le> limit mem'" using cs r(2) keep by auto
  show "(if 4096 \<le> unat sz then 4096 else 16) dvd unat a"
    using room(4) by (auto simp: al_def pool_page_size_def pool_alignment_def word_le_nat_alt split: if_splits)
  show "zero \<longrightarrow> (\<exists>mem1. wr a (replicate (unat sz) 0) mem1 = Inr mem')" using wz by auto
qed

end

end
