(* ===== verification/Page_Tables.thy ===== *)
theory Page_Tables
  imports Phys_Mem Std_Map
begin

text \<open>
  What the two memory units have in common: four-level tables of 512 eight-byte entries kept
  in guest frames, the state of a unit and of an address space, and the loops over the pages
  of a range (src/emu/x86/mmu.cpp and src/emu/arm64/mmu.cpp write them twice, identically up
  to the names of the levels). An architecture supplies how an entry names the next table
  (\<open>dn\<close>) and how a last-level entry names a frame (\<open>dl\<close>).

  The invariant \<open>tables_ok\<close> is stated with a ghost labelling of the table frames by level,
  owner and address prefix. The locale \<open>entry_format\<close> is the contract of an entry encoding;
  inside it the three table updates the code performs are shown to change exactly the
  translations they should: rewriting an entry with the same target changes none, linking a
  fresh table changes none, and storing a last-level entry changes one page.
\<close>

section \<open>State shared by the memory units\<close>

text \<open>One call of the page-note callback: frame, address, table, level, mapped.\<close>

type_synonym page_note = "addr \<times> addr \<times> addr \<times> nat \<times> bool"

text \<open>
  \<open>kernel_root\<close> is \<open>kernel_pml4_pa_\<close> or \<open>kernel_ttbr_pa_\<close>; a space object is named by the
  frame of its top-level table, so \<open>spaces\<close> holds the keys of \<open>spaces_\<close>. The calls
  of the page-note callback are recorded in order.
\<close>

record table_mmu = mmu_base +
  kernel_root :: addr
  spaces :: "addr list"
  note_log :: "page_note list"

record space =
  root_pa :: addr
  shadow :: "(addr \<times> addr) list"
  user_next :: addr
  kernel_next :: addr

definition new_space :: "addr \<Rightarrow> space" where
  "new_space root = \<lparr>root_pa = root, shadow = [], user_next = 0x10000,
     kernel_next = 0xFFFFF80000000000\<rparr>"

definition note_page :: "page_note \<Rightarrow> 'a table_mmu_scheme \<Rightarrow> 'a table_mmu_scheme" where
  "note_page n s = s\<lparr>note_log := note_log s @ [n]\<rparr>"

section \<open>Entries and walks\<close>

definition index_of :: "nat \<Rightarrow> addr \<Rightarrow> nat" where
  "index_of l va = unat (bf_get (12 + 9 * l, 9) va)"

definition slot :: "addr \<Rightarrow> nat \<Rightarrow> addr" where
  "slot table i = table + of_nat i * 8"

definition entry_at :: "phys_mem \<Rightarrow> addr \<Rightarrow> nat \<Rightarrow> u64" where
  "entry_at m table i = read_phys64 m (slot table i)"

definition set_entry :: "addr \<Rightarrow> nat \<Rightarrow> u64 \<Rightarrow> 'a mmu_base_scheme \<Rightarrow> 'a mmu_base_scheme" where
  "set_entry table i e s = s\<lparr>phys := write_phys64 (phys s) (slot table i) e\<rparr>"

text \<open>The last-level table a walk ends in, and the frame its entry names.\<close>

fun reach :: "(u64 \<Rightarrow> addr option) \<Rightarrow> phys_mem \<Rightarrow> nat \<Rightarrow> addr \<Rightarrow> addr \<Rightarrow> addr option" where
  "reach dn m 0 table va = Some table"
| "reach dn m (Suc l) table va =
     (case dn (entry_at m table (index_of (Suc l) va)) of
        None \<Rightarrow> None
      | Some next \<Rightarrow> reach dn m l next va)"

definition walk_from ::
  "(u64 \<Rightarrow> addr option) \<Rightarrow> (u64 \<Rightarrow> addr option) \<Rightarrow> phys_mem \<Rightarrow> nat \<Rightarrow> addr \<Rightarrow> addr \<Rightarrow> addr option" where
  "walk_from dn dl m l table va =
     (case reach dn m l table va of
        None \<Rightarrow> None
      | Some pt \<Rightarrow> dl (entry_at m pt (index_of 0 va)))"

abbreviation walk ::
  "(u64 \<Rightarrow> addr option) \<Rightarrow> (u64 \<Rightarrow> addr option) \<Rightarrow> phys_mem \<Rightarrow> addr \<Rightarrow> addr \<Rightarrow> addr option" where
  "walk dn dl m root va \<equiv> walk_from dn dl m 3 root va"

section \<open>Loops over pages\<close>

text \<open>
  \<open>for (off = 0; off < aligned; off += page_size())\<close>. The bound is a result of
  \<open>size_align\<close>, a multiple of the page size, so the body runs \<open>aligned / 4096\<close> times and the
  counter does not wrap.
\<close>

fun for_pages :: "(u64 \<Rightarrow> 's \<Rightarrow> emu_error + 's) \<Rightarrow> nat \<Rightarrow> u64 \<Rightarrow> 's \<Rightarrow> emu_error + 's" where
  "for_pages body 0 off st = Inr st"
| "for_pages body (Suc n) off st =
     bind_result (body off st) (for_pages body n (off + page_size))"

definition page_loop :: "u64 \<Rightarrow> (u64 \<Rightarrow> 's \<Rightarrow> emu_error + 's) \<Rightarrow> 's \<Rightarrow> emu_error + 's" where
  "page_loop aligned body st = for_pages body (unat aligned div 4096) 0 st"

lemma page_off_lt: "unat (va - page_align va) < 4096"
proof -
  have "unat (va - page_align va) = unat va - unat (page_align va)"
    by (rule unat_sub_le) (simp add: unat_page_align)
  also have "\<dots> = unat va mod 4096"
    by (simp add: unat_page_align minus_div_mult_eq_mod)
  finally show ?thesis by simp
qed

text \<open>
  \<open>copy_virt\<close>: page by page, through the tables first and the shadow map only when the walk
  finds nothing. \<open>pos\<close> is the source's \<open>done\<close>, the bytes copied so far; the buffer is read from when writing and
  written to when reading.
\<close>

function copy_pages ::
  "(phys_mem \<Rightarrow> addr \<Rightarrow> addr option) \<Rightarrow> (addr \<times> addr) list \<Rightarrow> bool \<Rightarrow> addr \<Rightarrow> nat \<Rightarrow>
   phys_mem \<Rightarrow> u8 list \<Rightarrow> emu_error + phys_mem \<times> u8 list" where
  "copy_pages tr sh write va pos m buf =
     (if pos < length buf then
        let cur_va = va + of_nat pos;
            page = page_align cur_va;
            page_off = unat (cur_va - page);
            chunk = min (length buf - pos) (4096 - page_off);
            frame = (case tr m page of Some f \<Rightarrow> Some f | None \<Rightarrow> umap_find page sh)
        in case frame of
             None \<Rightarrow> throw Unmapped_virtual_address
           | Some f \<Rightarrow>
               let pa = f + of_nat page_off
               in if write
                  then copy_pages tr sh write va (pos + chunk)
                         (write_phys_mem m pa (take chunk (drop pos buf))) buf
                  else copy_pages tr sh write va (pos + chunk) m
                         (take pos buf @ read_phys_mem m pa (take chunk (drop pos buf)) @
                          drop (pos + chunk) buf)
      else Inr (m, buf))"
  by pat_completeness auto
termination
proof (relation "measure (\<lambda>(tr, sh, w, va, pos, m, buf). length buf - pos)", goal_cases)
  case 1
  then show ?case by simp
next
  case (2 tr sh wr va pos m buf cur_va page page_off chunk frame f pa)
  with page_off_lt [of cur_va] show ?case by auto
next
  case (3 tr sh wr va pos m buf cur_va page page_off chunk frame f pa)
  with page_off_lt [of cur_va] show ?case by (auto simp: min_def)
qed

declare copy_pages.simps [simp del]

section \<open>The table invariant\<close>

text \<open>The page an address lies in, as a number; bits 63:48 do not take part in a walk.\<close>

definition vpn :: "addr \<Rightarrow> nat" where
  "vpn va = unat va div 4096 mod 2 ^ 36"

lemma take_bit_unat: "take_bit 64 (unat (a :: u64)) = unat a"
  using unat_lt64 [of a] by (simp add: take_bit_nat_eq_self_iff)

lemma mod_div_window:
  "a + b \<le> c \<Longrightarrow> (x mod 2 ^ c) div 2 ^ a mod 2 ^ b = (x :: nat) div 2 ^ a mod 2 ^ b"
  by (simp only: flip: drop_bit_eq_div take_bit_eq_mod)
     (simp add: drop_bit_take_bit min_def, linarith)

lemma index_of_vpn: "l \<le> 3 \<Longrightarrow> index_of l va = vpn va div 512 ^ l mod 512"
proof -
  assume l: "l \<le> 3"
  have "index_of l va = unat va div 2 ^ (12 + 9 * l) mod 2 ^ 9"
    by (simp add: index_of_def bf_get_def unat_take_bit_word unsigned_drop_bit_eq take_bit_unat
        flip: drop_bit_eq_div)
  also have "\<dots> = unat va div 4096 div 2 ^ (9 * l) mod 2 ^ 9"
    by (simp add: power_add div_mult2_eq)
  also have "\<dots> = unat va div 4096 mod 2 ^ 36 div 2 ^ (9 * l) mod 2 ^ 9"
    using l by (subst mod_div_window) simp_all
  finally show ?thesis by (simp add: vpn_def power_mult)
qed

lemma index_of_lt [simp]: "index_of l va < 512"
  by (simp add: index_of_def bf_get_def unat_take_bit_word)

definition page_backed :: "phys_mem \<Rightarrow> addr \<Rightarrow> bool" where
  "page_backed m f \<longleftrightarrow> (\<forall>off<4096. backed m (f + of_nat off) (4096 - off))"

definition frame_ok :: "'a mmu_base_scheme \<Rightarrow> addr \<Rightarrow> bool" where
  "frame_ok s f \<longleftrightarrow> 4096 dvd unat f \<and> unat phys_base \<le> unat f \<and>
     unat f + 4096 \<le> unat (phys_next s) \<and> page_backed (phys s) f"

text \<open>
  A table frame's label: its level (3 at the root), the root that owns it (0 for the tables
  of the kernel half, which every space shares) and the address prefix it serves.
\<close>

type_synonym label = "nat \<times> addr \<times> nat"
type_synonym labelling = "addr \<Rightarrow> label option"

fun child_label :: "label \<Rightarrow> nat \<Rightarrow> label" where
  "child_label (l, owner, p) i = (l - 1, if l = 3 \<and> 256 \<le> i then 0 else owner, p * 512 + i)"

definition tables_ok :: "(u64 \<Rightarrow> addr option) \<Rightarrow> 'a mmu_base_scheme \<Rightarrow> labelling \<Rightarrow> bool" where
  "tables_ok dn s L \<longleftrightarrow> phys_ok s \<and>
     (\<forall>f lb. L f = Some lb \<longrightarrow> frame_ok s f \<and> fst lb \<le> 3 \<and>
        (0 < fst lb \<longrightarrow>
          (\<forall>i<512. \<forall>g. dn (entry_at (phys s) f i) = Some g \<longrightarrow> L g = Some (child_label lb i))))"

lemma tables_okD:
  assumes "tables_ok dn s L" and "L f = Some lb"
  shows "frame_ok s f" and "fst lb \<le> 3"
    and "0 < fst lb \<Longrightarrow> i < 512 \<Longrightarrow> dn (entry_at (phys s) f i) = Some g \<Longrightarrow>
      L g = Some (child_label lb i)"
  using assms unfolding tables_ok_def by blast+

lemma frame_okD:
  assumes "frame_ok s f"
  shows "4096 dvd unat f" and "unat f + 4096 \<le> unat (phys_next s)" and "f \<noteq> 0"
    and "page_backed (phys s) f" and "unat phys_base \<le> unat f"
  using assms by (auto simp: frame_ok_def)

lemma unat_slot: "unat f + 4096 < 2 ^ 64 \<Longrightarrow> i < 512 \<Longrightarrow> unat (slot f i) = unat f + i * 8"
proof -
  assume h: "unat f + 4096 < 2 ^ 64" "i < 512"
  have "slot f i = f + of_nat (i * 8)" by (simp add: slot_def)
  moreover have "unat (of_nat (i * 8) :: u64) = i * 8"
    using h by (intro unat_of_nat64) simp
  ultimately show ?thesis using h by (simp add: unat_add_no_overflow)
qed

lemma page_backed_slot: "page_backed m f \<Longrightarrow> i < 512 \<Longrightarrow> backed m (slot f i) 8"
proof -
  assume "page_backed m f" "i < 512"
  then have "backed m (f + of_nat (i * 8)) (4096 - i * 8)"
    unfolding page_backed_def by (elim allE [of _ "i * 8"]) simp
  moreover have "8 \<le> 4096 - i * 8" using \<open>i < 512\<close> by simp
  ultimately have "backed m (f + of_nat (i * 8)) 8"
    unfolding backed_def by (auto split: option.splits)
  then show ?thesis by (simp add: slot_def)
qed

lemma aligned_frames_apart:
  "4096 dvd a \<Longrightarrow> 4096 dvd b \<Longrightarrow> a \<noteq> (b :: nat) \<Longrightarrow> a + 4096 \<le> b \<or> b + 4096 \<le> a"
  by (auto elim!: dvdE)

lemma frame_room: "phys_ok s \<Longrightarrow> frame_ok s f \<Longrightarrow> unat f + 4096 < 2 ^ 64"
  by (auto simp: frame_ok_def phys_ok_def)

text \<open>A stored entry is read back, and no entry of this or of another table frame changes.\<close>

lemma entry_at_set_entry:
  assumes ok: "phys_ok s" and f: "frame_ok s f" and g: "frame_ok s g" and i: "i < 512" and j: "j < 512"
  shows "entry_at (phys (set_entry f i e s)) g j = (if g = f \<and> j = i then e else entry_at (phys s) g j)"
proof -
  have b: "backed (phys s) (slot f i) 8" "backed (phys s) (slot g j) 8"
    using f g i j by (auto simp: frame_ok_def intro: page_backed_slot)
  show ?thesis
  proof (cases "g = f \<and> j = i")
    case True
    then show ?thesis
      using b by (simp add: entry_at_def set_entry_def read_write_phys64_same)
  next
    case False
    have "ranges_apart (slot g j) 8 (slot f i) 8"
      using False aligned_frames_apart [OF frame_okD(1) [OF f] frame_okD(1) [OF g]] i j
      unfolding ranges_apart_def unat_slot [OF frame_room [OF ok f] i] unat_slot [OF frame_room [OF ok g] j]
      by (cases "g = f") (auto simp: word_unat_eq_iff)
    with b False show ?thesis
      by (auto simp: entry_at_def set_entry_def read_write_phys64_other)
  qed
qed

lemma set_entry_simps [simp]:
  "phys_next (set_entry f i e s) = phys_next s"
  "backed (phys (set_entry f i e s)) x n = backed (phys s) x n"
  "page_backed (phys (set_entry f i e s)) g = page_backed (phys s) g"
  "frame_ok (set_entry f i e s) g = frame_ok s g"
  by (simp_all add: set_entry_def page_backed_def frame_ok_def)

lemma phys_ok_set_entry [simp]: "phys_ok (set_entry f i e s) = phys_ok s"
  unfolding set_entry_def write_phys64_def by (rule phys_ok_write)

text \<open>A whole table of zeroes leads nowhere.\<close>

definition empty_table :: "phys_mem \<Rightarrow> addr \<Rightarrow> bool" where
  "empty_table m f \<longleftrightarrow> (\<forall>i<512. entry_at m f i = 0)"

text \<open>Bytes that belong to no table.\<close>

definition data_range :: "'a mmu_base_scheme \<Rightarrow> labelling \<Rightarrow> addr \<Rightarrow> nat \<Rightarrow> bool" where
  "data_range s L x n \<longleftrightarrow> backed (phys s) x n \<and> (\<forall>f \<in> dom L. ranges_apart f 4096 x n)"

text \<open>
  A change of the tables that no translation can see: the invariant holds again, no table is
  lost, every walk gives what it gave, and no byte outside the tables changes.
\<close>

definition silent ::
  "(u64 \<Rightarrow> addr option) \<Rightarrow> (u64 \<Rightarrow> addr option) \<Rightarrow>
   'a mmu_base_scheme \<Rightarrow> labelling \<Rightarrow> 'a mmu_base_scheme \<Rightarrow> labelling \<Rightarrow> bool" where
  "silent dn dl s L s' L' \<longleftrightarrow>
     tables_ok dn s' L' \<and> L \<subseteq>\<^sub>m L' \<and>
     (\<forall>f lb va. L f = Some lb \<longrightarrow>
        walk_from dn dl (phys s') (fst lb) f va = walk_from dn dl (phys s) (fst lb) f va) \<and>
     (\<forall>f lb i g. L f = Some lb \<longrightarrow> 0 < fst lb \<longrightarrow> i < 512 \<longrightarrow>
        dn (entry_at (phys s) f i) = Some g \<longrightarrow> dn (entry_at (phys s') f i) = Some g) \<and>
     (\<forall>x (buf :: u8 list). data_range s L x (length buf) \<longrightarrow> data_range s' L' x (length buf) \<and>
        read_phys_mem (phys s') x buf = read_phys_mem (phys s) x buf) \<and>
     (\<forall>f. frame_ok s f \<longrightarrow> frame_ok s' f) \<and> unat (phys_next s) \<le> unat (phys_next s')"

lemma silentD:
  assumes "silent dn dl s L s' L'"
  shows "tables_ok dn s' L'" and "L \<subseteq>\<^sub>m L'"
    and "L f = Some lb \<Longrightarrow>
      walk_from dn dl (phys s') (fst lb) f va = walk_from dn dl (phys s) (fst lb) f va"
    and "L f = Some lb \<Longrightarrow> 0 < fst lb \<Longrightarrow> i < 512 \<Longrightarrow>
      dn (entry_at (phys s) f i) = Some g \<Longrightarrow> dn (entry_at (phys s') f i) = Some g"
    and "data_range s L x (length (buf :: u8 list)) \<Longrightarrow> data_range s' L' x (length buf)"
    and "data_range s L x (length buf) \<Longrightarrow> read_phys_mem (phys s') x buf = read_phys_mem (phys s) x buf"
    and "frame_ok s f \<Longrightarrow> frame_ok s' f" and "unat (phys_next s) \<le> unat (phys_next s')"
  using assms unfolding silent_def by blast+

lemma map_leD: "L \<subseteq>\<^sub>m L' \<Longrightarrow> L f = Some lb \<Longrightarrow> L' f = Some lb"
  by (auto simp: map_le_def dom_def)

lemma silent_refl: "tables_ok dn s L \<Longrightarrow> silent dn dl s L s L"
  by (simp add: silent_def)

lemma silent_trans:
  assumes a: "silent dn dl s L s' L'" and b: "silent dn dl s' L' s'' L''"
  shows "silent dn dl s L s'' L''"
  unfolding silent_def
proof (intro conjI allI impI)
  show "tables_ok dn s'' L''" by (rule silentD(1) [OF b])
  show "L \<subseteq>\<^sub>m L''" using silentD(2) [OF a] silentD(2) [OF b] by (rule map_le_trans)
  show "unat (phys_next s) \<le> unat (phys_next s'')"
    using silentD(8) [OF a] silentD(8) [OF b] by simp
  fix f lb va i g assume f: "L f = Some lb"
  note f' = map_leD [OF silentD(2) [OF a] f]
  show "walk_from dn dl (phys s'') (fst lb) f va = walk_from dn dl (phys s) (fst lb) f va"
    using silentD(3) [OF a f] silentD(3) [OF b f'] by simp
  assume l: "0 < fst lb" "i < 512" "dn (entry_at (phys s) f i) = Some g"
  show "dn (entry_at (phys s'') f i) = Some g"
    by (rule silentD(4) [OF b f' l(1,2) silentD(4) [OF a f l]])
next
  fix x :: addr and buf :: "u8 list" assume d: "data_range s L x (length buf)"
  show "data_range s'' L'' x (length buf)"
    using d silentD(5) [OF a] silentD(5) [OF b] by blast
  show "read_phys_mem (phys s'') x buf = read_phys_mem (phys s) x buf"
    using d silentD(5,6) [OF a] silentD(6) [OF b] by metis
qed (use silentD(7) [OF a] silentD(7) [OF b] in blast)

section \<open>The three updates\<close>

text \<open>A fresh run of frames: nothing existing is in it, and its pages are empty tables.\<close>

lemma page_backedI:
  assumes "\<And>off. off < 4096 \<Longrightarrow> backed m (f + of_nat off) (4096 - off)"
  shows "page_backed m f"
  using assms by (simp add: page_backed_def)

lemma fresh_page:
  assumes al: "alloc_phys_locked s sz = Inr (s', a)" and ok: "phys_ok s"
    and k: "k * 4096 < unat (size_align sz)"
  shows "frame_ok s' (a + of_nat (k * 4096))"
    and "empty_table (phys s') (a + of_nat (k * 4096))"
    and "unat (phys_next s) \<le> unat (a + of_nat (k * 4096))"
proof -
  note e = alloc_phys_lockedE [OF al ok]
  obtain q where q: "unat (size_align sz) = 4096 * q"
    using page_aligned_size_align [of sz] by (elim dvdE)
  with k have room: "k * 4096 + 4096 \<le> unat (size_align sz)" by (simp add: Suc_le_eq flip: mult_Suc)
  define f where "f = a + of_nat (k * 4096)"
  have "unat (of_nat (k * 4096) :: u64) = k * 4096"
    using room e(4) by (intro unat_of_nat64) simp
  then have f: "unat f = unat a + k * 4096"
    unfolding f_def using room e(4) by (subst unat_add_no_overflow) simp_all
  have off: "unat (f + of_nat n) = unat a + k * 4096 + n" if "n < 4096" for n
    using that room e(4) f by (subst unat_add_no_overflow) (simp_all add: unat_of_nat64)
  have "page_backed (phys s') f"
    using room e(4) by (intro page_backedI alloc_phys_fresh(1) [OF al ok]) (simp_all add: off)
  then show "frame_ok s' (a + of_nat (k * 4096))"
    unfolding f_def [symmetric]
    using ok e f room by (auto simp: frame_ok_def phys_ok_def)
  show "unat (phys_next s) \<le> unat (a + of_nat (k * 4096))"
    unfolding f_def [symmetric] using e(1) f by simp
  show "empty_table (phys s') (a + of_nat (k * 4096))"
    unfolding f_def [symmetric] empty_table_def entry_at_def read_phys64_def
  proof (intro allI impI)
    fix i :: nat assume i: "i < 512"
    have "unat (slot f i) = unat f + i * 8"
      using i f room e(4) by (intro unat_slot) simp_all
    then have "read_phys_mem (phys s') (slot f i) (replicate 8 0) = replicate (length (replicate 8 (0::u8))) 0"
      using i f room by (intro alloc_phys_fresh(2) [OF al ok, where n = 8]) simp_all
    then show "(le_dec (read_phys_mem (phys s') (slot f i) (replicate 8 0)) :: u64) = 0"
      by (simp add: numeral_eq_Suc)
  qed
qed

lemma frame_ok_alloc:
  assumes al: "alloc_phys_locked s sz = Inr (s', a)" and ok: "phys_ok s" and f: "frame_ok s f"
  shows "frame_ok s' f" and "i < 512 \<Longrightarrow> entry_at (phys s') f i = entry_at (phys s) f i"
proof -
  note e = alloc_phys_lockedE [OF al ok]
  show "frame_ok s' f"
    using f e(1,3) alloc_phys_keeps(1) [OF al ok]
    by (auto simp: frame_ok_def page_backed_def)
  assume "i < 512"
  with f have "backed (phys s) (slot f i) 8"
    by (auto simp: frame_ok_def intro: page_backed_slot)
  then show "entry_at (phys s') f i = entry_at (phys s) f i"
    by (simp add: entry_at_def read_phys64_def alloc_phys_keeps(2) [OF al ok])
qed

lemma tables_ok_set_entry:
  assumes ok: "tables_ok dn s L" and f: "L f = Some lb" and i: "i < 512"
    and e: "0 < fst lb \<Longrightarrow> \<forall>g. dn e = Some g \<longrightarrow> L g = Some (child_label lb i)"
  shows "tables_ok dn (set_entry f i e s) L"
proof -
  have pok: "phys_ok s" using ok by (simp add: tables_ok_def)
  show ?thesis
    unfolding tables_ok_def
  proof (intro conjI allI impI)
    show "phys_ok (set_entry f i e s)" using pok by simp
    fix g lb' assume g: "L g = Some lb'"
    show "frame_ok (set_entry f i e s) g" using tables_okD(1) [OF ok g] by simp
    show "fst lb' \<le> 3" by (rule tables_okD(2) [OF ok g])
    fix j h assume lv: "0 < fst lb'" and j: "j < 512"
      and h: "dn (entry_at (phys (set_entry f i e s)) g j) = Some h"
    then show "L h = Some (child_label lb' j)"
      using entry_at_set_entry [OF pok tables_okD(1) [OF ok f] tables_okD(1) [OF ok g] i j, of e]
        e tables_okD(3) [OF ok g lv j] f g by (auto split: if_splits)
  qed
qed

lemma data_set_entry:
  assumes ok: "tables_ok dn s L" and f: "L f = Some lb" and i: "i < 512"
    and d: "data_range s L x (length (buf :: u8 list))"
  shows "read_phys_mem (phys (set_entry f i e s)) x buf = read_phys_mem (phys s) x buf"
proof -
  have pok: "phys_ok s" using ok by (simp add: tables_ok_def)
  note fok = tables_okD(1) [OF ok f]
  have "unat (slot f i) = unat f + i * 8" by (rule unat_slot [OF frame_room [OF pok fok] i])
  moreover have "ranges_apart f 4096 x (length buf)" using d f by (auto simp: data_range_def)
  ultimately have "ranges_apart x (length buf) (slot f i) 8"
    using i by (auto simp: ranges_apart_def)
  moreover have "backed (phys s) (slot f i) 8"
    using fok i by (auto simp: frame_ok_def intro: page_backed_slot)
  ultimately show ?thesis
    using d by (simp add: set_entry_def write_phys64_def read_write_phys_other data_range_def)
qed

text \<open>
  The label of the last-level table a walk ends in: it serves the page's prefix, and it is
  owned by the root in the user half and by nobody in the kernel half.
\<close>

definition owner_of :: "nat \<Rightarrow> addr \<Rightarrow> addr \<Rightarrow> addr" where
  "owner_of l owner va = (if l = 3 \<and> 256 \<le> index_of 3 va then 0 else owner)"

lemma vpn_split: "l \<le> 2 \<Longrightarrow> vpn va div 512 ^ (l + 2) * 512 + index_of (Suc l) va = vpn va div 512 ^ (l + 1)"
proof -
  assume l: "l \<le> 2"
  have "vpn va div 512 ^ (l + 2) = vpn va div (512 ^ (l + 1) * 512)" by (simp add: mult.commute)
  also have "\<dots> = vpn va div 512 ^ (l + 1) div 512" by (rule div_mult2_eq)
  finally have hi: "vpn va div 512 ^ (l + 2) = vpn va div 512 ^ (l + 1) div 512" .
  have "index_of (Suc l) va = vpn va div 512 ^ (l + 1) mod 512"
    using l by (simp only: index_of_vpn Suc_eq_plus1)
  with hi show ?thesis by (simp only: div_mult_mod_eq)
qed

lemma reach_label:
  "tables_ok dn s L \<Longrightarrow> L f = Some (l, owner, vpn va div 512 ^ (l + 1)) \<Longrightarrow>
   reach dn (phys s) l f va = Some t \<Longrightarrow> L t = Some (0, owner_of l owner va, vpn va div 512)"
proof (induction l arbitrary: f owner)
  case 0
  then show ?case by (simp add: owner_of_def)
next
  case (Suc l)
  from Suc.prems(3) obtain g where g: "dn (entry_at (phys s) f (index_of (Suc l) va)) = Some g"
    and r: "reach dn (phys s) l g va = Some t"
    by (auto split: option.splits)
  have le: "l \<le> 2" using tables_okD(2) [OF Suc.prems(1,2)] by simp
  have "L g = Some (child_label (Suc l, owner, vpn va div 512 ^ (Suc l + 1)) (index_of (Suc l) va))"
    using tables_okD(3) [OF Suc.prems(1,2) _ index_of_lt g] by simp
  then have "L g = Some (l, owner_of (Suc l) owner va, vpn va div 512 ^ (l + 1))"
    using vpn_split [OF le, of va] by (cases "l = 2") (simp_all add: owner_of_def)
  from Suc.IH [OF Suc.prems(1) this r] show ?case
    using le by (simp add: owner_of_def split: if_splits)
qed

locale entry_format =
  fixes dn :: "u64 \<Rightarrow> addr option" and dl :: "u64 \<Rightarrow> addr option"
  assumes dn_zero: "dn 0 = None" and dl_zero: "dl 0 = None"
begin

lemma walk_empty: "empty_table m f \<Longrightarrow> walk_from dn dl m l f va = None"
  by (cases l) (simp_all add: walk_from_def empty_table_def dn_zero dl_zero)

text \<open>
  Two memories whose labelled entries lead to the same place, except where the second leads
  into an empty table and the first nowhere.
\<close>

lemma walk_agree:
  assumes ok: "tables_ok dn s L"
    and up: "\<And>g lb i. L g = Some lb \<Longrightarrow> 0 < fst lb \<Longrightarrow> i < 512 \<Longrightarrow>
      dn (entry_at m g i) = dn (entry_at (phys s) g i) \<or>
      dn (entry_at (phys s) g i) = None \<and> (\<exists>c. dn (entry_at m g i) = Some c \<and> empty_table m c)"
    and leaf: "\<And>g lb i. L g = Some lb \<Longrightarrow> fst lb = 0 \<Longrightarrow> i < 512 \<Longrightarrow>
      dl (entry_at m g i) = dl (entry_at (phys s) g i)"
    and f: "L f = Some lb"
  shows "walk_from dn dl m (fst lb) f va = walk_from dn dl (phys s) (fst lb) f va"
proof -
  have "walk_from dn dl m l f va = walk_from dn dl (phys s) l f va"
    if "L f = Some lb" "l = fst lb" for l f lb
    using that
  proof (induction l arbitrary: f lb)
    case 0
    with leaf [of f lb] show ?case by (simp add: walk_from_def)
  next
    case (Suc l)
    show ?case
    proof (cases "dn (entry_at (phys s) f (index_of (Suc l) va))")
      case None
      with up [OF Suc.prems(1), of "index_of (Suc l) va"] Suc.prems(2)
      consider "dn (entry_at m f (index_of (Suc l) va)) = None"
        | c where "dn (entry_at m f (index_of (Suc l) va)) = Some c" "empty_table m c"
        by auto
      then show ?thesis
      proof cases
        case 1
        with None show ?thesis by (simp add: walk_from_def)
      next
        case 2
        with None walk_empty [OF 2(2), of l va] show ?thesis by (simp add: walk_from_def)
      qed
    next
      case (Some g)
      with up [OF Suc.prems(1), of "index_of (Suc l) va"] Suc.prems(2)
      have g': "dn (entry_at m f (index_of (Suc l) va)) = Some g" by auto
      have "L g = Some (child_label lb (index_of (Suc l) va))"
        using tables_okD(3) [OF ok Suc.prems(1) _ index_of_lt Some] Suc.prems(2) by simp
      from Suc.IH [OF this] Suc.prems(2) Some g' show ?thesis
        by (cases lb) (auto simp: walk_from_def)
    qed
  qed
  with f show ?thesis by blast
qed

lemma silent_alloc:
  assumes ok: "tables_ok dn s L" and al: "alloc_phys_locked s sz = Inr (s', a)"
    and lab: "L' = L \<or> L' = L(a \<mapsto> lb) \<and> fst lb \<le> 3 \<and> 0 < unat (size_align sz)"
  shows "silent dn dl s L s' L'"
proof -
  have pok: "phys_ok s" using ok by (simp add: tables_ok_def)
  note e = alloc_phys_lockedE [OF al pok] and keep = frame_ok_alloc [OF al pok]
  have old: "frame_ok s f" if "L f = Some l" for f l using ok that by (rule tables_okD(1))
  have fresh: "frame_ok s' a \<and> empty_table (phys s') a" if "L' \<noteq> L"
    using fresh_page(1,2) [OF al pok, of 0] lab that by auto
  have a: "L a = None"
    using old [of a] e(1) by (cases "L a") (auto simp: frame_ok_def)
  then have sub: "L \<subseteq>\<^sub>m L'" using lab by (auto simp: map_le_def)
  have agree: "entry_at (phys s') f i = entry_at (phys s) f i" if "L f = Some l" "i < 512" for f l i
    using keep(2) old that by blast
  have tok: "tables_ok dn s' L'"
    unfolding tables_ok_def
  proof (intro conjI allI impI)
    show "phys_ok s'" by (rule phys_ok_alloc [OF al pok])
    fix f l assume f: "L' f = Some l"
    consider (new) "L' \<noteq> L" "f = a" "l = lb" | (same) "L f = Some l"
      using f lab by (cases "L' = L"; cases "f = a") auto
    then have "frame_ok s' f \<and> fst l \<le> 3 \<and> (\<forall>i g. 0 < fst l \<longrightarrow> i < 512 \<longrightarrow>
        dn (entry_at (phys s') f i) = Some g \<longrightarrow> L' g = Some (child_label l i))"
    proof cases
      case new
      with fresh lab show ?thesis by (auto simp: empty_table_def dn_zero)
    next
      case same
      have "L' g = Some (child_label l i)"
        if "0 < fst l" "i < 512" "dn (entry_at (phys s') f i) = Some g" for i g
        using tables_okD(3) [OF ok same that(1,2)] agree [OF same that(2)] that(3)
        by (simp add: map_leD [OF sub])
      then show ?thesis
        using keep(1) [OF old [OF same]] tables_okD(2) [OF ok same] by blast
    qed
    then show "frame_ok s' f" "fst l \<le> 3"
      "\<And>i g. 0 < fst l \<Longrightarrow> i < 512 \<Longrightarrow> dn (entry_at (phys s') f i) = Some g \<Longrightarrow>
        L' g = Some (child_label l i)" by blast+
  qed
  have data: "data_range s' L' x (length buf) \<and>
      read_phys_mem (phys s') x buf = read_phys_mem (phys s) x buf"
    if d: "data_range s L x (length buf)" for x and buf :: "u8 list"
  proof -
    have b: "backed (phys s) x (length buf)" using d by (simp add: data_range_def)
    have "ranges_apart a 4096 x (length buf)" if "L' \<noteq> L"
      using backed_old_outside [OF pok b] fresh [OF that] e phys_ok_alloc [OF al pok]
      by (auto simp: ranges_apart_def frame_ok_def phys_ok_def)
    then have "ranges_apart f 4096 x (length buf)" if "f \<in> dom L'" for f
      using d lab that by (cases "L f") (auto simp: data_range_def dom_def fun_upd_idem_iff split: if_splits)
    then show ?thesis
      using alloc_phys_keeps [OF al pok b] by (simp add: data_range_def)
  qed
  have wa: "walk_from dn dl (phys s') (fst l) f va = walk_from dn dl (phys s) (fst l) f va"
    if "L f = Some l" for f l va
    using walk_agree [OF ok, of "phys s'", OF _ _ that] agree by simp
  show ?thesis
    unfolding silent_def
    using tok sub data keep(1) e(1,3) wa agree by simp
qed

lemma silent_set_entry:
  assumes ok: "tables_ok dn s L" and f: "L f = Some lb" and i: "i < 512" and lv: "0 < fst lb"
    and e: "dn e = dn (entry_at (phys s) f i) \<or>
      dn (entry_at (phys s) f i) = None \<and> dn e = Some c \<and> L c = Some (child_label lb i) \<and>
      empty_table (phys s) c \<and> c \<noteq> f"
  shows "silent dn dl s L (set_entry f i e s) L"
proof -
  have pok: "phys_ok s" using ok by (simp add: tables_ok_def)
  have old: "frame_ok s g" if "L g = Some l" for g l using ok that by (rule tables_okD(1))
  note ent = entry_at_set_entry [OF pok old [OF f] old i, of _ _ _ e]
  have "\<forall>g. dn e = Some g \<longrightarrow> L g = Some (child_label lb i)"
    using e tables_okD(3) [OF ok f lv i] by auto
  then have tok: "tables_ok dn (set_entry f i e s) L" using tables_ok_set_entry [OF ok f i] by blast
  have up: "dn (entry_at (phys (set_entry f i e s)) g j) = dn (entry_at (phys s) g j) \<or>
      dn (entry_at (phys s) g j) = None \<and>
      (\<exists>c. dn (entry_at (phys (set_entry f i e s)) g j) = Some c \<and>
        empty_table (phys (set_entry f i e s)) c)"
    if "L g = Some l" "0 < fst l" "j < 512" for g l j
    using e ent [OF that(1)] that by (auto simp: empty_table_def ent)
  note data = data_set_entry [OF ok f i]
  have leaf: "dl (entry_at (phys (set_entry f i e s)) g j) = dl (entry_at (phys s) g j)"
    if "L g = Some l" "fst l = 0" "j < 512" for g l j
    using ent [OF that(1,3)] that f lv by auto
  note wa = walk_agree [OF ok up leaf]
  have "dn (entry_at (phys (set_entry f i e s)) g j) = Some h"
    if "L g = Some l" "0 < fst l" "j < 512" "dn (entry_at (phys s) g j) = Some h" for g l j h
    using up [OF that(1-3)] that(4) by simp
  then show ?thesis
    unfolding silent_def
    using tok data wa by (simp add: data_range_def)
qed

end

text \<open>A last-level store.\<close>

lemma set_leaf:
  assumes ok: "tables_ok dn s L" and t: "L t = Some (0, ow, p)" and i: "i < 512"
  shows "tables_ok dn (set_entry t i e s) L"
    and "L f = Some lb \<Longrightarrow> reach dn (phys (set_entry t i e s)) (fst lb) f va = reach dn (phys s) (fst lb) f va"
    and "L f = Some lb \<Longrightarrow> walk_from dn dl (phys (set_entry t i e s)) (fst lb) f va =
      (if reach dn (phys s) (fst lb) f va = Some t \<and> index_of 0 va = i then dl e
       else walk_from dn dl (phys s) (fst lb) f va)"
proof -
  have pok: "phys_ok s" using ok by (simp add: tables_ok_def)
  note ent = entry_at_set_entry [OF pok tables_okD(1) [OF ok t] tables_okD(1) [OF ok] i, where e = e]
  show "tables_ok dn (set_entry t i e s) L" using tables_ok_set_entry [OF ok t i] by simp
  have r: "reach dn (phys (set_entry t i e s)) l f va = reach dn (phys s) l f va"
    if "L f = Some lb" "l = fst lb" for l f lb
    using that
  proof (induction l arbitrary: f lb)
    case (Suc l)
    have "f \<noteq> t" using Suc.prems t by auto
    then have same: "entry_at (phys (set_entry t i e s)) f (index_of (Suc l) va) =
        entry_at (phys s) f (index_of (Suc l) va)"
      using ent [OF Suc.prems(1) index_of_lt] by simp
    show ?case
    proof (cases "dn (entry_at (phys s) f (index_of (Suc l) va))")
      case (Some g)
      have "L g = Some (child_label lb (index_of (Suc l) va))"
        using tables_okD(3) [OF ok Suc.prems(1) _ index_of_lt Some] Suc.prems(2) by simp
      from Suc.IH [OF this] Suc.prems(2) Some same show ?thesis by (cases lb) auto
    qed (simp add: same)
  qed simp
  then show "L f = Some lb \<Longrightarrow> reach dn (phys (set_entry t i e s)) (fst lb) f va = reach dn (phys s) (fst lb) f va"
    by blast
  assume f: "L f = Some lb"
  have lab: "\<exists>l. L g = Some l" if "reach dn (phys s) k h va = Some g" "L h = Some m" "k = fst m" for g k h m
    using that
  proof (induction k arbitrary: h m)
    case (Suc k)
    from Suc.prems(1) obtain g' where g': "dn (entry_at (phys s) h (index_of (Suc k) va)) = Some g'"
      "reach dn (phys s) k g' va = Some g" by (auto split: option.splits)
    have "L g' = Some (child_label m (index_of (Suc k) va))"
      using tables_okD(3) [OF ok Suc.prems(2) _ index_of_lt g'(1)] Suc.prems(3) by simp
    from Suc.IH [OF g'(2) this] Suc.prems(3) show ?case by (cases m) auto
  qed auto
  show "walk_from dn dl (phys (set_entry t i e s)) (fst lb) f va =
      (if reach dn (phys s) (fst lb) f va = Some t \<and> index_of 0 va = i then dl e
       else walk_from dn dl (phys s) (fst lb) f va)"
  proof (cases "reach dn (phys s) (fst lb) f va")
    case None
    then show ?thesis using r [OF f refl] by (simp add: walk_from_def)
  next
    case (Some g)
    then obtain l where "L g = Some l" using lab [OF _ f refl] by blast
    from ent [OF this index_of_lt] Some r [OF f refl] show ?thesis by (simp add: walk_from_def)
  qed
qed

text \<open>
  What a change of one space's tables may do, for the pages of a partial function \<open>V\<close> from
  page numbers to new translations: those pages of that space get them; in the kernel half
  the same pages of other spaces may follow; no other translation of any space and no byte
  outside the tables changes, and no table is unlinked.
\<close>

definition remaps ::
  "(u64 \<Rightarrow> addr option) \<Rightarrow> (u64 \<Rightarrow> addr option) \<Rightarrow> 'a mmu_base_scheme \<Rightarrow> labelling \<Rightarrow>
   'a mmu_base_scheme \<Rightarrow> labelling \<Rightarrow> addr \<Rightarrow> (nat \<Rightarrow> addr option option) \<Rightarrow> bool" where
  "remaps dn dl s L s' L' root V \<longleftrightarrow>
     tables_ok dn s' L' \<and> L \<subseteq>\<^sub>m L' \<and>
     (\<forall>va. walk dn dl (phys s') root va =
        (case V (vpn va) of Some v \<Rightarrow> v | None \<Rightarrow> walk dn dl (phys s) root va)) \<and>
     (\<forall>r va. L r = Some (3, r, 0) \<longrightarrow> r \<noteq> root \<longrightarrow>
        walk dn dl (phys s') r va = walk dn dl (phys s) r va \<or>
        256 \<le> index_of 3 va \<and> vpn va \<in> dom V) \<and>
     (\<forall>f lb i g. L f = Some lb \<longrightarrow> 0 < fst lb \<longrightarrow> i < 512 \<longrightarrow>
        dn (entry_at (phys s) f i) = Some g \<longrightarrow> dn (entry_at (phys s') f i) = Some g) \<and>
     (\<forall>x (buf :: u8 list). data_range s L x (length buf) \<longrightarrow> data_range s' L' x (length buf) \<and>
        read_phys_mem (phys s') x buf = read_phys_mem (phys s) x buf) \<and>
     (\<forall>f. frame_ok s f \<longrightarrow> frame_ok s' f) \<and> unat (phys_next s) \<le> unat (phys_next s')"

lemma remapsI:
  assumes "tables_ok dn s' L'" and "L \<subseteq>\<^sub>m L'"
    and "\<And>va. walk dn dl (phys s') root va =
      (case V (vpn va) of Some v \<Rightarrow> v | None \<Rightarrow> walk dn dl (phys s) root va)"
    and "\<And>r va. L r = Some (3, r, 0) \<Longrightarrow> r \<noteq> root \<Longrightarrow>
      walk dn dl (phys s') r va = walk dn dl (phys s) r va \<or> 256 \<le> index_of 3 va \<and> vpn va \<in> dom V"
    and "\<And>f lb i g. L f = Some lb \<Longrightarrow> 0 < fst lb \<Longrightarrow> i < 512 \<Longrightarrow>
      dn (entry_at (phys s) f i) = Some g \<Longrightarrow> dn (entry_at (phys s') f i) = Some g"
    and "\<And>x buf :: u8 list. data_range s L x (length buf) \<Longrightarrow> data_range s' L' x (length buf)"
    and "\<And>x buf. data_range s L x (length buf) \<Longrightarrow> read_phys_mem (phys s') x buf = read_phys_mem (phys s) x buf"
    and "\<And>f. frame_ok s f \<Longrightarrow> frame_ok s' f" and "unat (phys_next s) \<le> unat (phys_next s')"
  shows "remaps dn dl s L s' L' root V"
  using assms unfolding remaps_def by blast

lemma remapsD:
  assumes "remaps dn dl s L s' L' root V"
  shows "tables_ok dn s' L'" and "L \<subseteq>\<^sub>m L'"
    and "walk dn dl (phys s') root va =
      (case V (vpn va) of Some v \<Rightarrow> v | None \<Rightarrow> walk dn dl (phys s) root va)"
    and "L r = Some (3, r, 0) \<Longrightarrow> r \<noteq> root \<Longrightarrow>
      walk dn dl (phys s') r va = walk dn dl (phys s) r va \<or> 256 \<le> index_of 3 va \<and> vpn va \<in> dom V"
    and "L f = Some lb \<Longrightarrow> 0 < fst lb \<Longrightarrow> i < 512 \<Longrightarrow>
      dn (entry_at (phys s) f i) = Some g \<Longrightarrow> dn (entry_at (phys s') f i) = Some g"
    and "data_range s L x (length (buf :: u8 list)) \<Longrightarrow> data_range s' L' x (length buf)"
    and "data_range s L x (length buf) \<Longrightarrow> read_phys_mem (phys s') x buf = read_phys_mem (phys s) x buf"
    and "frame_ok s f \<Longrightarrow> frame_ok s' f" and "unat (phys_next s) \<le> unat (phys_next s')"
  using assms unfolding remaps_def by blast+

lemma remaps_trans:
  assumes a: "remaps dn dl s L s1 L1 root V" and b: "remaps dn dl s1 L1 s' L' root W"
  shows "remaps dn dl s L s' L' root (V ++ W)"
proof (rule remapsI)
  show "L \<subseteq>\<^sub>m L'" using remapsD(2) [OF a] remapsD(2) [OF b] by (rule map_le_trans)
  show "walk dn dl (phys s') root va =
      (case (V ++ W) (vpn va) of Some v \<Rightarrow> v | None \<Rightarrow> walk dn dl (phys s) root va)" for va
    using remapsD(3) [OF a, of va] remapsD(3) [OF b, of va]
    by (cases "W (vpn va)") (simp_all add: map_add_def)
  show "walk dn dl (phys s') r va = walk dn dl (phys s) r va \<or>
      256 \<le> index_of 3 va \<and> vpn va \<in> dom (V ++ W)" if "L r = Some (3, r, 0)" "r \<noteq> root" for r va
    using remapsD(4) [OF a that, of va] remapsD(4) [OF b map_leD [OF remapsD(2) [OF a] that(1)] that(2), of va]
    by auto
next
  fix f lb i g assume f: "L f = Some lb" and h: "0 < fst lb" "i < 512" "dn (entry_at (phys s) f i) = Some g"
  show "dn (entry_at (phys s') f i) = Some g"
    by (rule remapsD(5) [OF b map_leD [OF remapsD(2) [OF a] f] h(1,2) remapsD(5) [OF a f h]])
next
  fix x :: addr and buf :: "u8 list" assume d: "data_range s L x (length buf)"
  show "data_range s' L' x (length buf)" by (rule remapsD(6) [OF b remapsD(6) [OF a d]])
  show "read_phys_mem (phys s') x buf = read_phys_mem (phys s) x buf"
    using remapsD(7) [OF b remapsD(6) [OF a d]] remapsD(7) [OF a d] by simp
next
  show "frame_ok s' f" if "frame_ok s f" for f
    by (rule remapsD(8) [OF b remapsD(8) [OF a that]])
  show "unat (phys_next s) \<le> unat (phys_next s')"
    using remapsD(9) [OF a] remapsD(9) [OF b] by simp
qed (rule remapsD(1) [OF b])

lemma silent_remaps:
  assumes a: "silent dn dl s L s' L'" and root: "L root = Some (3, root, 0)"
  shows "remaps dn dl s L s' L' root Map.empty"
proof (rule remapsI)
  show "walk dn dl (phys s') root va =
      (case Map.empty (vpn va) of Some v \<Rightarrow> v | None \<Rightarrow> walk dn dl (phys s) root va)" for va
    using silentD(3) [OF a root] by simp
  show "walk dn dl (phys s') r va = walk dn dl (phys s) r va \<or>
      256 \<le> index_of 3 va \<and> vpn va \<in> dom Map.empty" if "L r = Some (3, r, 0)" for r va
    using silentD(3) [OF a that] by simp
qed (use silentD [OF a] in blast)+

lemma remaps_refl: "tables_ok dn s L \<Longrightarrow> L root = Some (3, root, 0) \<Longrightarrow> remaps dn dl s L s L root Map.empty"
  by (rule silent_remaps [OF silent_refl])

lemma remaps_noted:
  "remaps dn dl s L s' L' root V \<Longrightarrow> phys t = phys s' \<Longrightarrow> phys_next t = phys_next s' \<Longrightarrow>
     remaps dn dl s L t L' root V"
  by (simp add: remaps_def tables_ok_def phys_ok_def frame_ok_def data_range_def)

lemma walk_unfold:
  "walk dn dl m root va =
     (case dn (entry_at m root (index_of 3 va)) of None \<Rightarrow> None | Some t2 \<Rightarrow>
      case dn (entry_at m t2 (index_of 2 va)) of None \<Rightarrow> None | Some t1 \<Rightarrow>
      case dn (entry_at m t1 (index_of 1 va)) of None \<Rightarrow> None | Some t0 \<Rightarrow>
        dl (entry_at m t0 (index_of 0 va)))"
  by (simp add: walk_from_def eval_nat_numeral split: option.split)

lemma reach_unfold:
  "reach dn m 3 root va =
     (case dn (entry_at m root (index_of 3 va)) of None \<Rightarrow> None | Some t2 \<Rightarrow>
      case dn (entry_at m t2 (index_of 2 va)) of None \<Rightarrow> None | Some t1 \<Rightarrow>
        dn (entry_at m t1 (index_of 1 va)))"
  by (simp add: eval_nat_numeral split: option.split)

lemma vpn_index_eq: "vpn va' = vpn va \<longleftrightarrow> vpn va' div 512 = vpn va div 512 \<and> index_of 0 va' = index_of 0 va"
  by (simp add: index_of_vpn) (metis div_mult_mod_eq)

lemma vpn_root: "vpn va div 512 ^ (3 + 1) = 0"
  by (simp add: vpn_def)

lemma index_vpn_cong: "vpn va' = vpn va \<Longrightarrow> k \<le> 3 \<Longrightarrow> index_of k va' = index_of k va"
  by (simp add: index_of_vpn)

lemma reach_vpn_cong: "vpn va' = vpn va \<Longrightarrow> l \<le> 3 \<Longrightarrow> reach dn m l f va' = reach dn m l f va"
  by (induction l arbitrary: f) (simp_all add: index_vpn_cong [of va' va] split: option.split)

lemma walk_vpn_cong:
  "vpn va' = vpn va \<Longrightarrow> l \<le> 3 \<Longrightarrow> walk_from dn dl m l f va' = walk_from dn dl m l f va"
  using reach_vpn_cong [of va' va l dn m f] index_vpn_cong [of va' va 0]
  by (simp add: walk_from_def del: index_of_lt cong: option.case_cong)

lemma reach_root_label:
  assumes "tables_ok dn s L" and "L r = Some (3, r, 0)" and "reach dn (phys s) 3 r va = Some t"
  shows "L t = Some (0, owner_of 3 r va, vpn va div 512)"
  using reach_label [OF assms(1) _ assms(3), of r] assms(2) vpn_root [of va] by simp

lemma remaps_leaf:
  assumes ok: "tables_ok dn s L" and root: "L root = Some (3, root, 0)"
    and t: "reach dn (phys s) 3 root va = Some t"
  shows "remaps dn dl s L (set_entry t (index_of 0 va) e s) L root [vpn va \<mapsto> dl e]"
proof -
  let ?s' = "set_entry t (index_of 0 va) e s"
  note tl = reach_root_label [OF ok root t]
  note w = set_leaf(3) [OF ok tl index_of_lt, where e = e and dl = dl]
  have hit: "vpn va' = vpn va \<and> owner_of 3 r va' = owner_of 3 root va"
    if "L r = Some (3, r, 0)" "reach dn (phys s) 3 r va' = Some t" "index_of 0 va' = index_of 0 va" for r va'
    using reach_root_label [OF ok that(1,2)] tl that(3) by (simp add: vpn_index_eq)
  have half: "256 \<le> index_of 3 va'"
    if "L r = Some (3, r, 0)" "reach dn (phys s) 3 r va' = Some t" "index_of 0 va' = index_of 0 va" "r \<noteq> root"
    for r va'
  proof -
    have "r \<noteq> 0" using frame_okD(3) [OF tables_okD(1) [OF ok that(1)]] .
    moreover have "index_of 3 va' = index_of 3 va" using hit [OF that(1-3)] by (simp add: index_of_vpn)
    ultimately show ?thesis
      using hit [OF that(1-3)] that(4) by (auto simp: owner_of_def split: if_splits)
  qed
  show ?thesis
  proof (rule remapsI)
    show "tables_ok dn ?s' L" by (rule set_leaf(1) [OF ok tl index_of_lt])
    show "walk dn dl (phys ?s') root va' = (case [vpn va \<mapsto> dl e] (vpn va') of
        Some v \<Rightarrow> v | None \<Rightarrow> walk dn dl (phys s) root va')" for va'
    proof (cases "vpn va' = vpn va")
      case True
      then show ?thesis
        using w [OF root, where va = va] t walk_vpn_cong [OF True] by simp
    qed (use w [OF root, where va = va'] hit [OF root] in auto)
    show "walk dn dl (phys ?s') r va' = walk dn dl (phys s) r va' \<or>
        256 \<le> index_of 3 va' \<and> vpn va' \<in> dom [vpn va \<mapsto> dl e]"
      if "L r = Some (3, r, 0)" "r \<noteq> root" for r va'
      using w [OF that(1), where va = va'] half [OF that(1)] hit [OF that(1)] that(2) by auto
    show "dn (entry_at (phys ?s') f i) = Some g" if "L f = Some lb" "0 < fst lb" "i < 512"
      "dn (entry_at (phys s) f i) = Some g" for f lb i g
      using entry_at_set_entry [OF _ tables_okD(1) [OF ok tl] tables_okD(1) [OF ok that(1)] index_of_lt that(3)]
        ok tl that by (auto simp: tables_ok_def)
  qed (simp_all add: data_set_entry [OF ok tl index_of_lt], simp_all add: data_range_def)
qed

lemma remaps_same:
  assumes ok: "tables_ok dn s L" and w: "walk dn dl (phys s) root va = v"
  shows "remaps dn dl s L s L root [vpn va \<mapsto> v]"
proof (rule remapsI)
  show "walk dn dl (phys s) root va' = (case [vpn va \<mapsto> v] (vpn va') of
      Some v \<Rightarrow> v | None \<Rightarrow> walk dn dl (phys s) root va')" for va'
    using w walk_vpn_cong [of va' va 3] by (cases "vpn va' = vpn va") auto
qed (simp_all add: ok)

context entry_format
begin

lemma silent_set_leaf:
  assumes ok: "tables_ok dn s L" and t: "L t = Some (0, ow, p)" and i: "i < 512"
    and e: "dl e = dl (entry_at (phys s) t i)"
  shows "silent dn dl s L (set_entry t i e s) L"
proof -
  have pok: "phys_ok s" using ok by (simp add: tables_ok_def)
  note ent = entry_at_set_entry [OF pok tables_okD(1) [OF ok t] tables_okD(1) [OF ok] i, where e = e]
  have same: "dn (entry_at (phys (set_entry t i e s)) g j) = dn (entry_at (phys s) g j)"
    if "L g = Some lb" "0 < fst lb" "j < 512" for g lb j
    using ent [OF that(1,3)] that(1,2) t by auto
  have "dl (entry_at (phys (set_entry t i e s)) g j) = dl (entry_at (phys s) g j)"
    if "L g = Some lb" "j < 512" for g lb j
    using ent [OF that] e by auto
  then have "walk_from dn dl (phys (set_entry t i e s)) (fst lb) f va = walk_from dn dl (phys s) (fst lb) f va"
    if "L f = Some lb" for f lb va
    using walk_agree [OF ok _ _ that, of "phys (set_entry t i e s)"] same by simp
  then show ?thesis
    unfolding silent_def
    using set_leaf(1) [OF ok t i] same data_set_entry [OF ok t i] by (simp add: data_range_def)
qed

end

section \<open>The contract of a table installer\<close>

locale table_mapper = entry_format +
  fixes ensure :: "'s mmu_base_scheme \<Rightarrow> addr \<Rightarrow> nat \<Rightarrow> emu_error + 's mmu_base_scheme \<times> addr"
  assumes ensure_cases:
    "tables_ok dn s L \<Longrightarrow> L f = Some lb \<Longrightarrow> 0 < fst lb \<Longrightarrow> i < 512 \<Longrightarrow> ensure s f i = Inr (s', c) \<Longrightarrow>
       (dn (entry_at (phys s) f i) = Some c \<and>
          (s' = s \<or> (\<exists>e. dn e = Some c \<and> s' = set_entry f i e s))) \<or>
       (dn (entry_at (phys s) f i) = None \<and>
          (\<exists>s1 e. alloc_phys_locked s page_size = Inr (s1, c) \<and> dn e = Some c \<and> s' = set_entry f i e s1))"
begin

lemma ensure_silent:
  assumes ok: "tables_ok dn s L" and f: "L f = Some lb" and lv: "0 < fst lb" and i: "i < 512"
    and en: "ensure s f i = Inr (s', c)"
  shows "\<exists>L'. silent dn dl s L s' L' \<and> L' c = Some (child_label lb i) \<and>
    dn (entry_at (phys s') f i) = Some c"
proof -
  have pok: "phys_ok s" using ok by (simp add: tables_ok_def)
  have fok: "frame_ok s f" using ok f by (rule tables_okD(1))
  from ensure_cases [OF ok f lv i en] consider
    (same) "dn (entry_at (phys s) f i) = Some c" "s' = s"
    | (rewrite) e where "dn (entry_at (phys s) f i) = Some c" "dn e = Some c" "s' = set_entry f i e s"
    | (link) s1 e where "dn (entry_at (phys s) f i) = None" "alloc_phys_locked s page_size = Inr (s1, c)"
        "dn e = Some c" "s' = set_entry f i e s1"
    by blast
  then show ?thesis
  proof cases
    case same
    with silent_refl [OF ok] tables_okD(3) [OF ok f lv i] show ?thesis by blast
  next
    case rewrite
    have "silent dn dl s L s' L" unfolding rewrite(3)
      using rewrite by (intro silent_set_entry [OF ok f i lv]) simp
    moreover have "dn (entry_at (phys s') f i) = Some c"
      using entry_at_set_entry [OF pok fok fok i i] rewrite by simp
    ultimately show ?thesis using tables_okD(3) [OF ok f lv i rewrite(1)] by blast
  next
    case link
    let ?L = "L(c \<mapsto> child_label lb i)"
    have sz: "size_align page_size = page_size" by (rule size_align_aligned) simp
    have lb3: "fst (child_label lb i) \<le> 3" using tables_okD(2) [OF ok f] by (cases lb) auto
    have a: "silent dn dl s L s1 ?L"
      using lb3 by (intro silent_alloc [OF ok link(2), where lb = "child_label lb i"]) (simp add: sz)
    have c: "c = phys_next s" by (rule alloc_phys_lockedE(1) [OF link(2) pok])
    have nf: "c \<noteq> f" using frame_okD(2) [OF fok] c by auto
    have f1: "?L f = Some lb" using f nf by simp
    have ok1: "tables_ok dn s1 ?L" and pok1: "phys_ok s1"
      using silentD(1) [OF a] by (simp_all add: tables_ok_def)
    have fok1: "frame_ok s1 f" using ok1 f1 by (rule tables_okD(1))
    have "empty_table (phys s1) c" using fresh_page(2) [OF link(2) pok, of 0] by (simp add: sz)
    moreover have "dn (entry_at (phys s1) f i) = None"
      using frame_ok_alloc(2) [OF link(2) pok fok i] link(1) by simp
    ultimately have "silent dn dl s1 ?L s' ?L"
      unfolding link(4) using link(3) nf by (intro silent_set_entry [OF ok1 f1 i lv, where c = c]) simp
    moreover have "dn (entry_at (phys s') f i) = Some c"
      unfolding link(4) using entry_at_set_entry [OF pok1 fok1 fok1 i i] link(3) by simp
    ultimately show ?thesis using silent_trans [OF a] by (intro exI [of _ ?L]) simp
  qed
qed

text \<open>Three installed levels and a stored last-level entry: \<open>map_page\<close> of both units.\<close>

lemma map_levels:
  assumes ok: "tables_ok dn s L" and root: "L root = Some (3, root, 0)"
    and e3: "ensure s root (index_of 3 va) = Inr (s1, t2)"
    and e2: "ensure s1 t2 (index_of 2 va) = Inr (s2, t1)"
    and e1: "ensure s2 t1 (index_of 1 va) = Inr (s3, t0)"
  shows "\<exists>L'. remaps dn dl s L (set_entry t0 (index_of 0 va) e s3) L' root [vpn va \<mapsto> dl e]"
proof -
  from ensure_silent [OF ok root _ index_of_lt e3] obtain L1 where
    a: "silent dn dl s L s1 L1" "L1 t2 = Some (child_label (3, root, 0) (index_of 3 va))"
      "dn (entry_at (phys s1) root (index_of 3 va)) = Some t2" by auto
  have root1: "L1 root = Some (3, root, 0)" by (rule map_leD [OF silentD(2) [OF a(1)] root])
  from ensure_silent [OF silentD(1) [OF a(1)] a(2) _ index_of_lt e2] obtain L2 where
    b: "silent dn dl s1 L1 s2 L2"
      "L2 t1 = Some (child_label (child_label (3, root, 0) (index_of 3 va)) (index_of 2 va))"
      "dn (entry_at (phys s2) t2 (index_of 2 va)) = Some t1" by auto
  note t2 = map_leD [OF silentD(2) [OF b(1)] a(2)]
  from ensure_silent [OF silentD(1) [OF b(1)] b(2) _ index_of_lt e1] obtain L3 where
    c: "silent dn dl s2 L2 s3 L3" "dn (entry_at (phys s3) t1 (index_of 1 va)) = Some t0" by auto
  have l2: "dn (entry_at (phys s3) t2 (index_of 2 va)) = Some t1"
    by (rule silentD(4) [OF c(1) t2 _ index_of_lt b(3)]) simp
  have l3: "dn (entry_at (phys s3) root (index_of 3 va)) = Some t2"
    using silentD(4) [OF silent_trans [OF b(1) c(1)] root1 _ index_of_lt a(3)] by simp
  have "reach dn (phys s3) (Suc (Suc (Suc 0))) root va = Some t0"
    using l2 l3 c(2) by (simp add: eval_nat_numeral)
  then have r: "reach dn (phys s3) 3 root va = Some t0" by (simp add: eval_nat_numeral)
  have sil: "silent dn dl s L s3 L3" by (rule silent_trans [OF a(1) silent_trans [OF b(1) c(1)]])
  have "remaps dn dl s3 L3 (set_entry t0 (index_of 0 va) e s3) L3 root [vpn va \<mapsto> dl e]"
    by (rule remaps_leaf [OF silentD(1) [OF sil] map_leD [OF silentD(2) [OF sil] root] r])
  from remaps_trans [OF silent_remaps [OF sil root] this] show ?thesis by auto
qed

end

section \<open>Runs of pages\<close>

fun page_updates :: "(u64 \<Rightarrow> nat \<Rightarrow> 'v option) \<Rightarrow> nat \<Rightarrow> u64 \<Rightarrow> nat \<Rightarrow> 'v option" where
  "page_updates V 0 off = Map.empty"
| "page_updates V (Suc n) off = V off ++ page_updates V n (off + page_size)"

lemma page_updates_none [simp]: "page_updates (\<lambda>off. Map.empty) n o1 = Map.empty"
  by (induction n arbitrary: o1) simp_all

text \<open>A space whose shadow map alone may have changed.\<close>

definition same_space :: "space \<Rightarrow> space \<Rightarrow> bool" where
  "same_space sp sp' \<longleftrightarrow> root_pa sp' = root_pa sp \<and> user_next sp' = user_next sp \<and>
     kernel_next sp' = kernel_next sp"

lemma for_pages_remaps:
  assumes step: "\<And>off s sp s' sp' L. tables_ok dn s L \<Longrightarrow> L (root_pa sp) = Some (3, root_pa sp, 0) \<Longrightarrow>
      body off (s, sp) = Inr (s', sp') \<Longrightarrow>
      same_space sp sp' \<and> (\<exists>L'. remaps dn dl s L s' L' (root_pa sp) (V off))"
  shows "tables_ok dn s L \<Longrightarrow> L (root_pa sp) = Some (3, root_pa sp, 0) \<Longrightarrow>
      for_pages body n off (s, sp) = Inr (s', sp') \<Longrightarrow>
      same_space sp sp' \<and> (\<exists>L'. remaps dn dl s L s' L' (root_pa sp) (page_updates V n off))"
proof (induction n arbitrary: off s sp L)
  case 0
  then show ?case using remaps_refl [of dn s L "root_pa sp" dl] by (auto simp: same_space_def)
next
  case (Suc n)
  from Suc.prems(3) obtain s1 sp1 where b: "body off (s, sp) = Inr (s1, sp1)"
    and r: "for_pages body n (off + page_size) (s1, sp1) = Inr (s', sp')"
    by (auto split: sum.splits)
  from step [OF Suc.prems(1,2) b] obtain L1 where q: "same_space sp sp1"
    and m: "remaps dn dl s L s1 L1 (root_pa sp) (V off)" by blast
  have eq: "root_pa sp1 = root_pa sp" using q by (simp add: same_space_def)
  from Suc.IH [OF remapsD(1) [OF m] _ r] map_leD [OF remapsD(2) [OF m] Suc.prems(2)] q
  show ?case using remaps_trans [OF m] by (auto simp: eq same_space_def)
qed

lemma vpn_add: "vpn (a + of_nat (k * 4096)) = (vpn a + k) mod 2 ^ 36"
proof -
  have "unat (a + of_nat (k * 4096)) = (unat a + k * 4096) mod 2 ^ 64"
    by (simp add: unat_word_ariths(1) unat_of_nat take_bit_eq_mod mod_simps del: of_nat_mult)
  then have "vpn (a + of_nat (k * 4096)) = (unat a + k * 4096) mod 2 ^ 64 div 2 ^ 12 mod 2 ^ 36"
    by (simp add: vpn_def)
  also have "\<dots> = (unat a + k * 4096) div 2 ^ 12 mod 2 ^ 36" by (rule mod_div_window) simp
  also have "\<dots> = (unat a div 4096 + k) mod 2 ^ 36" by (simp add: add.commute)
  finally show ?thesis by (simp add: vpn_def mod_simps)
qed

lemma vpn_add_eq_iff:
  assumes "j < 2 ^ 36" and "k < 2 ^ 36"
  shows "vpn (a + of_nat (j * 4096)) = vpn (a + of_nat (k * 4096)) \<longleftrightarrow> j = k"
proof
  assume "vpn (a + of_nat (j * 4096)) = vpn (a + of_nat (k * 4096))"
  then have "\<exists>q r. vpn a + j + 2 ^ 36 * q = vpn a + k + 2 ^ 36 * r"
    unfolding vpn_add nat_mod_eq_iff .
  then have "j mod 2 ^ 36 = k mod 2 ^ 36" unfolding nat_mod_eq_iff by (simp add: add.assoc)
  with assms show "j = k" by simp
qed simp

definition page_at :: "addr \<Rightarrow> (u64 \<Rightarrow> 'v) \<Rightarrow> u64 \<Rightarrow> nat \<Rightarrow> 'v option" where
  "page_at a v off = [vpn (a + off) \<mapsto> v off]"

lemma page_at_apply: "page_at a v off p = (if p = vpn (a + off) then Some (v off) else None)"
  by (simp add: page_at_def)

lemma page_updates_at:
  assumes "n \<le> 2 ^ 36" and "k < n"
  shows "page_updates (page_at a v) n off (vpn (a + off + of_nat (k * 4096))) =
    Some (v (off + of_nat (k * 4096)))"
  using assms
proof (induction n arbitrary: off k)
  case (Suc n)
  have ps: "page_size = of_nat (1 * 4096)" by (simp add: page_size_def)
  show ?case
  proof (cases k)
    case 0
    have "page_updates (page_at a v) n (off + page_size) (vpn (a + off)) = None"
    proof -
      have "page_updates (page_at a v) m o1 p = None"
        if "\<forall>j<m. p \<noteq> vpn (a + (o1 + of_nat (j * 4096)))" for m o1 p
        using that
      proof (induction m arbitrary: o1)
        case (Suc m)
        have "p \<noteq> vpn (a + (o1 + page_size + of_nat (j * 4096)))" if "j < m" for j
          using Suc.prems that by (auto dest!: spec [of _ "Suc j"] simp: page_size_def algebra_simps)
        moreover have "p \<noteq> vpn (a + o1)" using Suc.prems by (auto dest: spec [of _ 0])
        ultimately show ?case using Suc.IH by (auto simp: map_add_def page_at_apply [of a v o1])
      qed simp
      moreover have "vpn (a + off) \<noteq> vpn (a + (off + page_size + of_nat (j * 4096)))" if "j < n" for j
        using vpn_add_eq_iff [of 0 "Suc j" "a + off"] that Suc.prems(1)
        by (simp add: page_size_def algebra_simps)
      ultimately show ?thesis by blast
    qed
    with 0 show ?thesis by (simp add: map_add_def page_at_apply [of a v off])
  next
    case (Suc k')
    have "off + page_size + of_nat (k' * 4096) = off + of_nat (k * 4096)"
      using Suc by (simp add: page_size_def algebra_simps)
    moreover have "page_updates (page_at a v) n (off + page_size)
        (vpn (a + (off + page_size) + of_nat (k' * 4096))) = Some (v (off + page_size + of_nat (k' * 4096)))"
      using Suc.IH [of k' "off + page_size"] Suc.prems Suc by simp
    ultimately show ?thesis by (simp only: page_updates.simps map_add_Some_iff add.assoc) simp
  qed
qed simp

lemma page_updates_dom:
  assumes "page_updates (page_at a v) n off p = Some w"
  shows "\<exists>k<n. p = vpn (a + off + of_nat (k * 4096))"
  using assms
proof (induction n arbitrary: off)
  case (Suc n)
  then consider "page_updates (page_at a v) n (off + page_size) p = Some w"
    | "p = vpn (a + off)"
    by (auto simp: map_add_Some_iff page_at_apply [of a v off] split: if_splits)
  then show ?case
  proof cases
    case 1
    then obtain k where "k < n" "p = vpn (a + (off + page_size) + of_nat (k * 4096))"
      using Suc.IH by blast
    then show ?thesis
      by (intro exI [of _ "Suc k"]) (simp add: page_size_def algebra_simps)
  next
    case 2
    then show ?thesis by (intro exI [of _ 0]) simp
  qed
qed simp

lemma vpn_page_align [simp]: "vpn (page_align va) = vpn va"
  by (simp add: vpn_def unat_page_align)

text \<open>
  Every space of a set of roots is well formed over one labelling: the invariant the
  properties are stated with.
\<close>

definition spaces_ok :: "(u64 \<Rightarrow> addr option) \<Rightarrow> 'a mmu_base_scheme \<Rightarrow> addr set \<Rightarrow> bool" where
  "spaces_ok dn s R \<longleftrightarrow> (\<exists>L. tables_ok dn s L \<and> (\<forall>r \<in> R. L r = Some (3, r, 0)))"

lemma spaces_okE:
  assumes "spaces_ok dn s R"
  obtains L where "tables_ok dn s L" and "\<And>r. r \<in> R \<Longrightarrow> L r = Some (3, r, 0)"
  using assms unfolding spaces_ok_def by blast

lemma remaps_spaces_ok:
  "remaps dn dl s L s' L' root V \<Longrightarrow> (\<And>r. r \<in> R \<Longrightarrow> L r = Some (3, r, 0)) \<Longrightarrow> spaces_ok dn s' R"
  unfolding spaces_ok_def by (intro exI [of _ L'] conjI ballI) (auto dest: remapsD(1,2) map_leD)

lemma take_bit_frame:
  assumes "4096 dvd unat pa" and "unat pa < 2 ^ 48"
  shows "take_bit 48 (page_align pa) = pa"
proof -
  have "unat (take_bit 48 (page_align pa)) = unat pa"
    using assms by (simp only: unat_take_bit_word unat_page_align dvd_div_mult_self mod_less)
  then show ?thesis by (simp add: word_unat_eq_iff)
qed

text \<open>The bytes of a fresh run, after any change of tables that leaves data alone.\<close>

lemma fresh_run_data:
  assumes ok: "tables_ok dn s L" and al: "alloc_phys_locked s sz = Inr (s1, a)"
    and k: "k * 4096 < unat (size_align sz)" and fit: "off + n \<le> 4096" and n: "0 < n"
  shows "data_range s1 L (a + of_nat (k * 4096) + of_nat off) n"
    and "length buf = n \<Longrightarrow> read_phys_mem (phys s1) (a + of_nat (k * 4096) + of_nat off) buf = replicate n 0"
proof -
  have pok: "phys_ok s" using ok by (simp add: tables_ok_def)
  note e = alloc_phys_lockedE [OF al pok]
  obtain q where q: "unat (size_align sz) = 4096 * q"
    using page_aligned_size_align [of sz] by (elim dvdE)
  with k have room: "k * 4096 + 4096 \<le> unat (size_align sz)" by (simp add: Suc_le_eq flip: mult_Suc)
  define x where "x = a + of_nat (k * 4096) + of_nat off"
  have "x = a + of_nat (k * 4096 + off)" by (simp add: x_def algebra_simps)
  moreover have "unat (of_nat (k * 4096 + off) :: u64) = k * 4096 + off"
    using room fit n e(4) by (intro unat_of_nat64) simp
  ultimately have x: "unat x = unat a + (k * 4096 + off)"
    using room fit n e(4) by (simp only:) (subst unat_add_no_overflow, simp_all)
  have in_run: "unat a \<le> unat x" "unat x + n \<le> unat a + unat (size_align sz)"
    using x room fit by auto
  have "ranges_apart f 4096 x n" if "f \<in> dom L" for f
    using frame_okD(2) [OF tables_okD(1) [OF ok]] that in_run e(1)
    by (fastforce simp: ranges_apart_def dom_def)
  with alloc_phys_fresh(1) [OF al pok in_run n]
  show "data_range s1 L (a + of_nat (k * 4096) + of_nat off) n"
    by (simp add: data_range_def x_def)
  assume "length buf = n"
  with alloc_phys_fresh(2) [OF al pok in_run n, of buf]
  show "read_phys_mem (phys s1) (a + of_nat (k * 4096) + of_nat off) buf = replicate n 0"
    by (simp add: x_def)
qed

lemma run_frame:
  assumes ok: "phys_ok s" and al: "alloc_phys_locked s sz = Inr (s1, a)" and k: "k * 4096 < unat (size_align sz)"
  shows "take_bit 48 (page_align (a + of_nat (k * 4096))) = a + of_nat (k * 4096)"
proof -
  note f = fresh_page(1) [OF al ok k]
  have "unat (a + of_nat (k * 4096)) < 2 ^ 48"
    using frame_okD(2) [OF f] phys_ok_alloc [OF al ok] by (simp add: phys_ok_def)
  with frame_okD(1) [OF f] show ?thesis by (intro take_bit_frame)
qed

text \<open>A loop whose body needs a bounded amount of memory succeeds when that is there.\<close>

definition mem_left :: "'a mmu_base_scheme \<Rightarrow> nat" where
  "mem_left s = unat phys_end - unat (phys_next s)"

lemma for_pages_total:
  assumes step: "\<And>off st. phys_ok (fst st) \<Longrightarrow> c \<le> mem_left (fst st) \<Longrightarrow>
      \<exists>st'. body off st = Inr st' \<and> phys_ok (fst st') \<and> mem_left (fst st) \<le> mem_left (fst st') + c"
  shows "phys_ok (fst st) \<Longrightarrow> n * c \<le> mem_left (fst st) \<Longrightarrow> \<exists>st'. for_pages body n off st = Inr st'"
proof (induction n arbitrary: off st)
  case (Suc n)
  from step [OF Suc.prems(1), of off] Suc.prems(2) obtain st1 where
    b: "body off st = Inr st1" "phys_ok (fst st1)" "mem_left (fst st) \<le> mem_left (fst st1) + c"
    by auto
  with Suc.IH [of st1 "off + page_size"] Suc.prems(2) show ?case by auto
qed simp

lemma alloc_page_total:
  assumes "phys_ok s" and "4096 \<le> mem_left s"
  shows "\<exists>s' c. alloc_phys_locked s page_size = Inr (s', c) \<and> phys_ok s' \<and> mem_left s = mem_left s' + 4096"
proof -
  have sz: "size_align page_size = page_size" by (rule size_align_aligned) simp
  have le: "unat (phys_next s) + 4096 \<le> unat phys_end"
    using assms by (simp add: mem_left_def phys_ok_def)
  with alloc_phys_total [OF assms(1), of page_size] obtain s' where
    al: "alloc_phys_locked s page_size = Inr (s', phys_next s)" by (auto simp: sz)
  from alloc_phys_lockedE(3) [OF al assms(1)] le phys_ok_alloc [OF al assms(1)] al
  show ?thesis by (auto simp: mem_left_def sz)
qed

section \<open>A new space\<close>

text \<open>
  The copy loop of \<open>create_addr_space\<close>: entry by entry, from one top-level table into another.
\<close>

fun copy_entries :: "addr \<Rightarrow> addr \<Rightarrow> nat list \<Rightarrow> 'a mmu_base_scheme \<Rightarrow> 'a mmu_base_scheme" where
  "copy_entries src dst [] s = s"
| "copy_entries src dst (i # is) s =
     copy_entries src dst is (set_entry dst i (entry_at (phys s) src i) s)"

definition kernel_slots :: "nat list" where
  "kernel_slots = [256..<512]"

lemma set_kernel_slots: "i \<in> set kernel_slots \<longleftrightarrow> 256 \<le> i \<and> i < 512"
  by (simp only: kernel_slots_def set_upt atLeastLessThan_iff)

text \<open>A store into one root is not seen from another.\<close>

lemma walk_set_root:
  assumes ok: "tables_ok dn s L" and r: "L r = Some (3, r, 0)" and i: "i < 512"
    and q: "L q = Some (3, q, 0)" "q \<noteq> r"
  shows "walk dn dl (phys (set_entry r i e s)) q va = walk dn dl (phys s) q va"
proof -
  have pok: "phys_ok s" using ok by (simp add: tables_ok_def)
  have same: "entry_at (phys (set_entry r i e s)) g j = entry_at (phys s) g j"
    if "L g = Some lb" "g \<noteq> r" "j < 512" for g lb j
    using entry_at_set_entry [OF pok tables_okD(1) [OF ok r] tables_okD(1) [OF ok that(1)] i that(3), of e] that(2)
    by simp
  have "walk_from dn dl (phys (set_entry r i e s)) l f va = walk_from dn dl (phys s) l f va"
    if "L f = Some (l, ow, p)" "f \<noteq> r" for l f ow p
    using that
  proof (induction l arbitrary: f ow p)
    case 0
    then show ?case using same [OF 0 index_of_lt] by (simp add: walk_from_def)
  next
    case (Suc l)
    have le: "l < 3" using tables_okD(2) [OF ok Suc.prems(1)] by simp
    show ?case
    proof (cases "dn (entry_at (phys s) f (index_of (Suc l) va))")
      case None
      then show ?thesis using same [OF Suc.prems index_of_lt] by (simp add: walk_from_def)
    next
      case (Some g)
      obtain ow' p' where g: "L g = Some (l, ow', p')"
        using tables_okD(3) [OF ok Suc.prems(1) _ index_of_lt Some] by auto
      moreover from g le r have "g \<noteq> r" by auto
      ultimately show ?thesis
        using Suc.IH [of g] Some same [OF Suc.prems index_of_lt] by (auto simp: walk_from_def)
    qed
  qed
  with q show ?thesis by blast
qed

lemma copy_entries_ok:
  assumes kr: "L kr = Some (3, kr, 0)" and r: "L r = Some (3, r, 0)" and ne: "r \<noteq> kr"
  shows "tables_ok dn s L \<Longrightarrow> (\<forall>i \<in> set is. 256 \<le> i \<and> i < 512) \<Longrightarrow>
    tables_ok dn (copy_entries kr r is s) L \<and>
    (\<forall>q va. L q = Some (3, q, 0) \<longrightarrow> q \<noteq> r \<longrightarrow>
       walk dn dl (phys (copy_entries kr r is s)) q va = walk dn dl (phys s) q va) \<and>
    (\<forall>g lb j. L g = Some lb \<longrightarrow> j < 512 \<longrightarrow> entry_at (phys (copy_entries kr r is s)) g j =
       (if g = r \<and> j \<in> set is then entry_at (phys s) kr j else entry_at (phys s) g j)) \<and>
    phys_next (copy_entries kr r is s) = phys_next s"
proof (induction "is" arbitrary: s)
  case (Cons i "is")
  let ?e = "entry_at (phys s) kr i"
  let ?s1 = "set_entry r i ?e s"
  have i: "256 \<le> i" "i < 512" using Cons.prems(2) by auto
  have pok: "phys_ok s" using Cons.prems(1) by (simp add: tables_ok_def)
  have "dn ?e = Some g \<Longrightarrow> L g = Some (child_label (3, r, 0) i)" for g
    using tables_okD(3) [OF Cons.prems(1) kr _ i(2)] i(1) by simp
  then have ok1: "tables_ok dn ?s1 L" using tables_ok_set_entry [OF Cons.prems(1) r i(2)] by simp
  have ent: "entry_at (phys ?s1) g j = (if g = r \<and> j = i then ?e else entry_at (phys s) g j)"
    if "L g = Some lb" "j < 512" for g lb j
    using entry_at_set_entry [OF pok tables_okD(1) [OF Cons.prems(1) r] tables_okD(1) [OF Cons.prems(1) that(1)] i(2) that(2)] .
  note IH = Cons.IH [OF ok1] and w = walk_set_root [OF Cons.prems(1) r i(2)]
  from IH Cons.prems(2) w ent kr ne show ?case by auto
qed simp

lemma tables_ok_cong:
  "phys t = phys s \<Longrightarrow> phys_next t = phys_next s \<Longrightarrow> tables_ok dn t L = tables_ok dn s L"
  by (simp add: tables_ok_def phys_ok_def frame_ok_def)

context entry_format
begin

lemma new_root:
  assumes ok: "tables_ok dn s L" and al: "alloc_phys_locked s page_size = Inr (s1, r)"
    and kr: "kr = 0 \<or> L kr = Some (3, kr, 0)"
    and s2: "phys s2 = phys (if kr = 0 then s1 else copy_entries kr r kernel_slots s1)"
      "phys_next s2 = phys_next s1"
  shows "L r = None" and "tables_ok dn s2 (L(r \<mapsto> (3, r, 0)))"
    and "L q = Some (3, q, 0) \<Longrightarrow> walk dn dl (phys s2) q va = walk dn dl (phys s) q va"
    and "walk dn dl (phys s2) r va =
      (if 256 \<le> index_of 3 va \<and> kr \<noteq> 0 then walk dn dl (phys s) kr va else None)"
    and "kr \<noteq> 0 \<Longrightarrow> 256 \<le> i \<Longrightarrow> i < 512 \<Longrightarrow> entry_at (phys s2) r i = entry_at (phys s2) kr i"
proof -
  let ?L = "L(r \<mapsto> (3, r, 0))"
  have pok: "phys_ok s" using ok by (simp add: tables_ok_def)
  have sz: "size_align page_size = page_size" by (rule size_align_aligned) simp
  note e = alloc_phys_lockedE [OF al pok]
  show fresh: "L r = None"
    using tables_okD(1) [OF ok, of r] e(1) by (cases "L r") (auto simp: frame_ok_def)
  have sil: "silent dn dl s L s1 ?L"
    by (rule silent_alloc [OF ok al, where lb = "(3, r, 0)"]) (simp add: sz)
  note ok1 = silentD(1) [OF sil]
  have emp: "empty_table (phys s1) r" using fresh_page(2) [OF al pok, of 0] by (simp add: sz)
  have old: "walk dn dl (phys s1) q va = walk dn dl (phys s) q va" if "L q = Some (3, q, 0)" for q va
    using silentD(3) [OF sil that] by simp
  have up: "?L q = Some (3, q, 0)" "q \<noteq> r" if "L q = Some (3, q, 0)" for q
    using that fresh by auto
  have "tables_ok dn s2 ?L \<and>
      (\<forall>q va. L q = Some (3, q, 0) \<longrightarrow> walk dn dl (phys s2) q va = walk dn dl (phys s) q va) \<and>
      (\<forall>va. walk dn dl (phys s2) r va =
        (if 256 \<le> index_of 3 va \<and> kr \<noteq> 0 then walk dn dl (phys s) kr va else None)) \<and>
      (kr \<noteq> 0 \<longrightarrow> 256 \<le> i \<longrightarrow> i < 512 \<longrightarrow> entry_at (phys s2) r i = entry_at (phys s2) kr i)"
  proof (cases "kr = 0")
    case True
    then show ?thesis
      using s2 ok1 old walk_empty [OF emp] by (simp add: tables_ok_cong [of s2 s1])
  next
    case False
    with kr have kl: "L kr = Some (3, kr, 0)" by simp
    let ?c = "copy_entries kr r kernel_slots s1"
    have c: "tables_ok dn ?c ?L"
      "\<And>q va. ?L q = Some (3, q, 0) \<Longrightarrow> q \<noteq> r \<Longrightarrow> walk dn dl (phys ?c) q va = walk dn dl (phys s1) q va"
      "\<And>g lb j. ?L g = Some lb \<Longrightarrow> j < 512 \<Longrightarrow> entry_at (phys ?c) g j =
        (if g = r \<and> j \<in> set kernel_slots then entry_at (phys s1) kr j else entry_at (phys s1) g j)"
      "phys_next ?c = phys_next s1"
      using copy_entries_ok [of ?L kr r dn s1 kernel_slots dl] up [OF kl] ok1 set_kernel_slots by auto
    have p2: "phys s2 = phys ?c" "phys_next s2 = phys_next ?c" using s2 False c(4) by simp_all
    have share: "entry_at (phys ?c) r j = entry_at (phys ?c) kr j" if "256 \<le> j" "j < 512" for j
      using c(3) [of r _ j] c(3) [OF up(1) [OF kl], of j] up(2) [OF kl] that by (simp add: set_kernel_slots)
    have own: "entry_at (phys ?c) r j = 0" if "j < 256" for j
      using c(3) [of r _ j] emp that by (simp add: empty_table_def set_kernel_slots)
    have "walk dn dl (phys ?c) r va = (if 256 \<le> index_of 3 va then walk dn dl (phys s) kr va else None)" for va
    proof (cases "256 \<le> index_of 3 va")
      case True
      then have "walk dn dl (phys ?c) r va = walk dn dl (phys ?c) kr va"
        using share by (simp add: walk_unfold)
      also have "\<dots> = walk dn dl (phys s) kr va" using c(2) [OF up [OF kl]] old [OF kl] by simp
      finally show ?thesis using True by simp
    qed (simp add: walk_unfold own dn_zero)
    then show ?thesis
      using c(1) c(2) [OF up] old False share p2 by (simp add: tables_ok_cong [OF p2])
  qed
  then show "tables_ok dn s2 ?L"
    "L q = Some (3, q, 0) \<Longrightarrow> walk dn dl (phys s2) q va = walk dn dl (phys s) q va"
    "walk dn dl (phys s2) r va =
      (if 256 \<le> index_of 3 va \<and> kr \<noteq> 0 then walk dn dl (phys s) kr va else None)"
    "kr \<noteq> 0 \<Longrightarrow> 256 \<le> i \<Longrightarrow> i < 512 \<Longrightarrow> entry_at (phys s2) r i = entry_at (phys s2) kr i"
    by blast+
qed

end

end
