(* ===== verification/Page_Copy.thy ===== *)
theory Page_Copy
  imports Page_Tables
begin

text \<open>
  Copies through translations, the loop of \<open>copy_virt\<close>: bytes written to a range are the
  bytes read back, provided the pages of the range have frames of their own that are not
  tables. The locale \<open>copy_range\<close> states what the loop needs of memory; \<open>data_space\<close> is a
  run of ordinary pages of an address space and provides it.
\<close>

section \<open>Copying through translations\<close>

text \<open>
  \<open>G\<close> stands for what the copied range needs of the memory: every page of it translates to
  its own whole frame, and storing into those frames does not change that.
\<close>

lemma page_align_nat: "unat va + i < 2 ^ 64 \<Longrightarrow> unat (page_align (va + of_nat i)) = (unat va + i) div 4096 * 4096"
  by (subst unat_page_align, subst unat_add_no_overflow) (simp_all add: unat_of_nat64)

lemma page_off_nat: "unat (va - page_align va) = unat va mod 4096"
proof -
  have "unat (va - page_align va) = unat va - unat (page_align va)"
    by (rule unat_sub_le) (simp add: unat_page_align)
  then show ?thesis by (simp add: unat_page_align minus_div_mult_eq_mod)
qed

locale copy_range =
  fixes tr :: "phys_mem \<Rightarrow> addr \<Rightarrow> addr option" and va :: addr and len :: nat
    and fr :: "addr \<Rightarrow> addr" and G :: "phys_mem \<Rightarrow> bool"
  assumes no_wrap: "unat va + len \<le> 2 ^ 64"
    and frames: "G m \<Longrightarrow> i < len \<Longrightarrow> tr m (page_align (va + of_nat i)) = Some (fr (page_align (va + of_nat i))) \<and>
      page_backed m (fr (page_align (va + of_nat i)))"
    and frame_shape: "i < len \<Longrightarrow> 4096 dvd unat (fr (page_align (va + of_nat i))) \<and>
      unat (fr (page_align (va + of_nat i))) + 4096 \<le> 2 ^ 64"
    and frames_apart: "i < len \<Longrightarrow> j < len \<Longrightarrow>
      fr (page_align (va + of_nat i)) = fr (page_align (va + of_nat j)) \<Longrightarrow>
      page_align (va + of_nat i) = page_align (va + of_nat j)"
    and stores: "G m \<Longrightarrow> i < len \<Longrightarrow> off + length ws \<le> 4096 \<Longrightarrow>
      G (write_phys_mem m (fr (page_align (va + of_nat i)) + of_nat off) ws)"
begin

abbreviation frame :: "nat \<Rightarrow> addr" where
  "frame i \<equiv> fr (page_align (va + of_nat i))"

definition chunk_at :: "nat \<Rightarrow> nat" where
  "chunk_at pos = min (len - pos) (4096 - (unat va + pos) mod 4096)"

definition pa_at :: "nat \<Rightarrow> addr" where
  "pa_at pos = frame pos + of_nat ((unat va + pos) mod 4096)"

lemma chunk_pos: "pos < len \<Longrightarrow> 0 < chunk_at pos \<and> pos + chunk_at pos \<le> len"
  by (auto simp: chunk_at_def)

lemma cur_off: "pos < len \<Longrightarrow> unat (va + of_nat pos - page_align (va + of_nat pos)) = (unat va + pos) mod 4096"
  using no_wrap by (simp add: page_off_nat unat_add_no_overflow unat_of_nat64)

lemma pa_range: "pos < len \<Longrightarrow> unat (pa_at pos) = unat (frame pos) + (unat va + pos) mod 4096"
proof -
  assume pos: "pos < len"
  have lt: "(unat va + pos) mod 4096 < 4096" by simp
  have o: "unat (of_nat ((unat va + pos) mod 4096) :: u64) = (unat va + pos) mod 4096"
    by (rule unat_of_nat64 [OF less_trans [OF lt]]) simp
  show ?thesis
    unfolding pa_at_def using frame_shape [OF pos] lt o by (subst unat_add_no_overflow) linarith+
qed

lemma pa_backed: "G m \<Longrightarrow> pos < len \<Longrightarrow> backed m (pa_at pos) (chunk_at pos)"
proof -
  assume "G m" and pos: "pos < len"
  then have "backed m (pa_at pos) (4096 - (unat va + pos) mod 4096)"
    using frames unfolding pa_at_def page_backed_def by simp
  then show ?thesis unfolding backed_def chunk_at_def by (auto split: option.splits)
qed

lemma later_page:
  assumes "pos < len" and "pos + chunk_at pos \<le> j" and "j < len"
  shows "frame j \<noteq> frame pos"
proof
  assume "frame j = frame pos"
  with assms have "page_align (va + of_nat j) = page_align (va + of_nat pos)"
    using frames_apart by simp
  then have eq: "(unat va + j) div 4096 = (unat va + pos) div 4096"
    using page_align_nat [of va j] page_align_nat [of va pos] assms no_wrap by simp
  have "chunk_at pos = 4096 - (unat va + pos) mod 4096"
    using assms by (auto simp: chunk_at_def min_def split: if_splits)
  with assms(2) have "(unat va + pos) div 4096 * 4096 + 4096 \<le> unat va + j"
    using div_mult_mod_eq [of "unat va + pos" 4096] mod_less_divisor [of 4096 "unat va + pos"] by linarith
  then have "(unat va + pos) div 4096 + 1 \<le> (unat va + j) div 4096"
    by (simp add: less_eq_div_iff_mult_less_eq)
  with eq show False by simp
qed

lemma frame_apart:
  assumes "i < len" and "j < len" and "frame i \<noteq> frame j"
  shows "ranges_apart (frame i) 4096 (frame j) 4096"
  using aligned_frames_apart [of "unat (frame i)" "unat (frame j)"] frame_shape assms
  by (auto simp: ranges_apart_def word_unat_eq_iff)

lemma copy_step:
  assumes "G m" and pos: "pos < len" and len: "length buf = len"
  shows "copy_pages tr sh True va pos m buf =
      copy_pages tr sh True va (pos + chunk_at pos)
        (write_phys_mem m (pa_at pos) (take (chunk_at pos) (drop pos buf))) buf"
    and "copy_pages tr sh False va pos m buf =
      copy_pages tr sh False va (pos + chunk_at pos) m
        (take pos buf @ read_phys_mem m (pa_at pos) (take (chunk_at pos) (drop pos buf)) @
         drop (pos + chunk_at pos) buf)"
  using frames [OF assms(1) pos] cur_off [OF pos] pos len
  by (subst copy_pages.simps, simp add: Let_def chunk_at_def pa_at_def)+

lemma copy_write_read:
  assumes "G m" and "length bs = len"
  shows "\<exists>m'. copy_pages tr sh True va pos m bs = Inr (m', bs) \<and> G m' \<and>
    (\<forall>buf. length buf = len \<longrightarrow> copy_pages tr sh False va pos m' buf = Inr (m', take pos buf @ drop pos bs)) \<and>
    (\<forall>x (b :: u8 list). backed m x (length b) \<longrightarrow>
       (\<forall>j. pos \<le> j \<and> j < len \<longrightarrow> ranges_apart (frame j) 4096 x (length b)) \<longrightarrow>
       backed m' x (length b) \<and> read_phys_mem m' x b = read_phys_mem m x b)"
  using assms
proof (induction "len - pos" arbitrary: pos m rule: less_induct)
  case less
  show ?case
  proof (cases "pos < len")
    case False
    then show ?thesis using less.prems by (simp add: copy_pages.simps)
  next
    case pos: True
    let ?c = "chunk_at pos" and ?x = "pa_at pos"
    let ?ws = "take ?c (drop pos bs)"
    let ?m1 = "write_phys_mem m ?x ?ws"
    have c: "0 < ?c" "pos + ?c \<le> len" using chunk_pos [OF pos] by auto
    have lw: "length ?ws = ?c" using c less.prems(2) by simp
    have fit: "(unat va + pos) mod 4096 + ?c \<le> 4096" by (auto simp: chunk_at_def)
    have G1: "G ?m1" unfolding pa_at_def using stores [OF less.prems(1) pos] fit lw by simp
    have bk: "backed m ?x (length ?ws)" using pa_backed [OF less.prems(1) pos] lw by simp
    have in_frame: "unat (frame pos) \<le> unat ?x" "unat ?x + ?c \<le> unat (frame pos) + 4096"
      using pa_range [OF pos] fit by auto
    have dec: "len - (pos + ?c) < len - pos" using c pos by simp
    from less.hyps [OF dec G1 less.prems(2)] obtain m' where
      w: "copy_pages tr sh True va (pos + ?c) ?m1 bs = Inr (m', bs)" and G': "G m'"
      and r: "\<And>buf. length buf = len \<Longrightarrow> copy_pages tr sh False va (pos + ?c) m' buf =
        Inr (m', take (pos + ?c) buf @ drop (pos + ?c) bs)"
      and k: "\<And>x (b :: u8 list). backed ?m1 x (length b) \<Longrightarrow>
        (\<And>j. pos + ?c \<le> j \<Longrightarrow> j < len \<Longrightarrow> ranges_apart (frame j) 4096 x (length b)) \<Longrightarrow>
        backed m' x (length b) \<and> read_phys_mem m' x b = read_phys_mem ?m1 x b"
      by blast
    have chunk: "read_phys_mem m' ?x b = ?ws" if "length b = ?c" for b
    proof -
      have "ranges_apart (frame j) 4096 ?x ?c" if j: "pos + ?c \<le> j" "j < len" for j
        using frame_apart [OF j(2) pos later_page [OF pos j]] in_frame by (auto simp: ranges_apart_def)
      with k [of ?x b] bk that lw have "read_phys_mem m' ?x b = read_phys_mem ?m1 ?x b" by simp
      also have "\<dots> = ?ws" by (rule read_write_phys_same [OF bk]) (simp only: that lw)
      finally show ?thesis .
    qed
    have "copy_pages tr sh False va pos m' buf = Inr (m', take pos buf @ drop pos bs)"
      if "length buf = len" for buf
    proof -
      let ?b1 = "take pos buf @ ?ws @ drop (pos + ?c) buf"
      have "copy_pages tr sh False va pos m' buf = copy_pages tr sh False va (pos + ?c) m' ?b1"
        unfolding copy_step(2) [OF G' pos that]
        using chunk [of "take ?c (drop pos buf)"] c that by simp
      also have "\<dots> = Inr (m', take (pos + ?c) ?b1 @ drop (pos + ?c) bs)"
        using c that lw by (intro r) simp
      also have "take (pos + ?c) ?b1 @ drop (pos + ?c) bs = take pos buf @ ?ws @ drop (pos + ?c) bs"
        using c that lw by simp
      also have "?ws @ drop (pos + ?c) bs = drop pos bs"
        using append_take_drop_id [of ?c "drop pos bs"] by (simp add: add.commute)
      finally show ?thesis .
    qed
    moreover have "backed m' x (length b) \<and> read_phys_mem m' x b = read_phys_mem m x b"
      if b: "backed m x (length b)"
        and ap: "\<forall>j. pos \<le> j \<and> j < len \<longrightarrow> ranges_apart (frame j) 4096 x (length b)"
      for x and b :: "u8 list"
    proof -
      have "ranges_apart x (length b) ?x (length ?ws)"
        using ap [rule_format, of pos] pos in_frame lw by (auto simp: ranges_apart_def)
      then have "read_phys_mem ?m1 x b = read_phys_mem m x b"
        by (rule read_write_phys_other [OF b bk])
      with k [of x b] b ap show ?thesis by simp
    qed
    moreover have "copy_pages tr sh True va pos m bs = Inr (m', bs)"
      using copy_step(1) [OF less.prems(1) pos less.prems(2)] w by simp
    ultimately show ?thesis using G' by blast
  qed
qed

end

text \<open>Storing outside the tables changes no table.\<close>

lemma entry_at_data_write:
  assumes ok: "tables_ok dn s L" and d: "data_range s L x (length ws)" and g: "L g = Some lb" and j: "j < 512"
  shows "entry_at (write_phys_mem (phys s) x ws) g j = entry_at (phys s) g j"
proof -
  have pok: "phys_ok s" using ok by (simp add: tables_ok_def)
  note gok = tables_okD(1) [OF ok g]
  have "unat (slot g j) = unat g + j * 8" by (rule unat_slot [OF frame_room [OF pok gok] j])
  moreover have "ranges_apart g 4096 x (length ws)" using d g by (auto simp: data_range_def)
  ultimately have "ranges_apart (slot g j) 8 x (length ws)" using j by (auto simp: ranges_apart_def)
  moreover have "backed (phys s) (slot g j) 8"
    using gok j by (auto simp: frame_ok_def intro: page_backed_slot)
  ultimately show ?thesis
    using d by (simp add: entry_at_def read_phys64_def read_write_phys_other data_range_def)
qed

lemma data_write:
  assumes ok: "tables_ok dn s L" and d: "data_range s L x (length ws)"
  shows "tables_ok dn (s\<lparr>phys := write_phys_mem (phys s) x ws\<rparr>) L"
    and "L f = Some lb \<Longrightarrow> reach dn (write_phys_mem (phys s) x ws) (fst lb) f va = reach dn (phys s) (fst lb) f va"
proof -
  note ent = entry_at_data_write [OF ok d]
  show "tables_ok dn (s\<lparr>phys := write_phys_mem (phys s) x ws\<rparr>) L"
    using ok ent unfolding tables_ok_def by (auto simp: frame_ok_def page_backed_def)
  have "reach dn (write_phys_mem (phys s) x ws) l f va = reach dn (phys s) l f va"
    if "L f = Some lb" "l = fst lb" for l f lb
    using that
  proof (induction l arbitrary: f lb)
    case (Suc l)
    have same: "entry_at (write_phys_mem (phys s) x ws) f (index_of (Suc l) va) =
        entry_at (phys s) f (index_of (Suc l) va)" by (rule ent [OF Suc.prems(1) index_of_lt])
    show ?case
    proof (cases "dn (entry_at (phys s) f (index_of (Suc l) va))")
      case (Some g)
      have "L g = Some (child_label lb (index_of (Suc l) va))"
        using tables_okD(3) [OF ok Suc.prems(1) _ index_of_lt Some] Suc.prems(2) by simp
      from Suc.IH [OF this] Suc.prems(2) Some same show ?thesis by (cases lb) auto
    qed (simp add: same)
  qed simp
  then show "L f = Some lb \<Longrightarrow>
      reach dn (write_phys_mem (phys s) x ws) (fst lb) f va = reach dn (phys s) (fst lb) f va" by blast
qed

lemma walk_data_write:
  assumes ok: "tables_ok dn s L" and d: "data_range s L x (length ws)" and r: "L r = Some (3, r, 0)"
  shows "walk dn dl (write_phys_mem (phys s) x ws) r va = walk dn dl (phys s) r va"
proof (cases "reach dn (phys s) 3 r va")
  case None
  then show ?thesis using data_write(2) [OF ok d r] by (simp add: walk_from_def)
next
  case (Some t)
  then show ?thesis
    using data_write(2) [OF ok d r] entry_at_data_write [OF ok d reach_root_label [OF ok r Some] index_of_lt]
    by (simp add: walk_from_def)
qed

text \<open>A run of pages whose frames are distinct and are not tables.\<close>

definition plain_pages ::
  "(u64 \<Rightarrow> addr option) \<Rightarrow> (u64 \<Rightarrow> addr option) \<Rightarrow> 'a mmu_base_scheme \<Rightarrow> labelling \<Rightarrow> addr \<Rightarrow>
   (addr \<Rightarrow> addr) \<Rightarrow> addr \<Rightarrow> nat \<Rightarrow> bool" where
  "plain_pages dn dl s L root fr va len \<longleftrightarrow>
     (\<forall>i<len. let p = page_align (va + of_nat i)
        in walk dn dl (phys s) root p = Some (fr p) \<and> 4096 dvd unat (fr p) \<and>
           unat (fr p) + 4096 \<le> 2 ^ 64 \<and> page_backed (phys s) (fr p) \<and> data_range s L (fr p) 4096 \<and>
           (\<forall>j<len. fr p = fr (page_align (va + of_nat j)) \<longrightarrow> p = page_align (va + of_nat j)))"

text \<open>What a store into the range keeps.\<close>

definition data_only ::
  "(u64 \<Rightarrow> addr option) \<Rightarrow> (u64 \<Rightarrow> addr option) \<Rightarrow> 'a mmu_base_scheme \<Rightarrow> labelling \<Rightarrow> phys_mem \<Rightarrow> bool" where
  "data_only dn dl s L m \<longleftrightarrow> tables_ok dn (s\<lparr>phys := m\<rparr>) L \<and>
     (\<forall>r p. L r = Some (3, r, 0) \<longrightarrow> walk dn dl m r p = walk dn dl (phys s) r p) \<and>
     (\<forall>x n. backed m x n = backed (phys s) x n)"

lemma data_only_write:
  assumes h: "data_only dn dl s L m" and d: "data_range s L x (length ws)"
  shows "data_only dn dl s L (write_phys_mem m x ws)"
proof -
  let ?s = "s\<lparr>phys := m\<rparr>"
  have ok: "tables_ok dn ?s L" using h by (simp add: data_only_def)
  have d': "data_range ?s L x (length ws)" using h d by (simp add: data_only_def data_range_def)
  show ?thesis
    using h data_write(1) [OF ok d'] walk_data_write [OF ok d']
    by (simp add: data_only_def)
qed

locale data_space =
  fixes dn :: "u64 \<Rightarrow> addr option" and dl :: "u64 \<Rightarrow> addr option" and s :: "'s mmu_base_scheme"
    and L :: labelling and root :: addr and fr :: "addr \<Rightarrow> addr" and va :: addr and len :: nat
    and tr :: "phys_mem \<Rightarrow> addr \<Rightarrow> addr option"
  assumes space_ok: "tables_ok dn s L" and space_root: "L root = Some (3, root, 0)"
    and range_no_wrap: "unat va + len \<le> 2 ^ 64" and plain: "plain_pages dn dl s L root fr va len"
    and tr_walk: "data_only dn dl s L m \<Longrightarrow> tr m p = walk dn dl m root p"

sublocale data_space \<subseteq> copy_range tr va len fr "data_only dn dl s L"
proof
  show "unat va + len \<le> 2 ^ 64" by (rule range_no_wrap)
next
  fix m i assume "data_only dn dl s L m" "i < len"
  then show "tr m (page_align (va + of_nat i)) = Some (fr (page_align (va + of_nat i))) \<and>
      page_backed m (fr (page_align (va + of_nat i)))"
    using plain space_root tr_walk by (simp add: plain_pages_def data_only_def page_backed_def Let_def)
next
  fix i assume "i < len"
  then show "4096 dvd unat (fr (page_align (va + of_nat i))) \<and>
      unat (fr (page_align (va + of_nat i))) + 4096 \<le> 2 ^ 64"
    using plain by (simp add: plain_pages_def Let_def)
next
  fix i j assume "i < len" "j < len"
    "fr (page_align (va + of_nat i)) = fr (page_align (va + of_nat j))"
  then show "page_align (va + of_nat i) = page_align (va + of_nat j)"
    using plain by (simp add: plain_pages_def Let_def)
next
  fix m i off and ws :: "u8 list"
  assume h: "data_only dn dl s L m" and i: "i < len" and fit: "off + length ws \<le> 4096"
  let ?f = "fr (page_align (va + of_nat i))"
  have f: "unat ?f + 4096 \<le> 2 ^ 64" "page_backed (phys s) ?f" "data_range s L ?f 4096"
    using plain i by (auto simp: plain_pages_def Let_def)
  show "data_only dn dl s L (write_phys_mem m (?f + of_nat off) ws)"
  proof (cases "ws = []")
    case True
    then have "write_phys_mem m (?f + of_nat off) ws = m"
      by (auto simp: write_phys_mem_def Let_def list_update_id split: option.split prod.split)
    with h show ?thesis by simp
  next
    case False
    then have off: "off < 4096" using fit by (cases ws) auto
    then have u: "unat (?f + of_nat off) = unat ?f + off"
      using f(1) by (subst unat_add_no_overflow) (simp_all add: unat_of_nat64)
    have "backed (phys s) (?f + of_nat off) (4096 - off)"
      using f(2) off by (simp add: page_backed_def)
    then have "backed (phys s) (?f + of_nat off) (length ws)"
      using fit by (auto simp: backed_def split: option.splits)
    moreover have "ranges_apart g 4096 (?f + of_nat off) (length ws)" if "g \<in> dom L" for g
    proof -
      have "ranges_apart g 4096 ?f 4096" using f(3) that by (simp add: data_range_def)
      then show ?thesis using u fit unfolding ranges_apart_def by linarith
    qed
    ultimately show ?thesis
      using data_only_write [OF h] by (simp add: data_range_def)
  qed
qed

context data_space
begin

lemma space_write_read:
  assumes "length bs = len"
  shows "\<exists>m'. copy_pages tr sh True va 0 (phys s) bs = Inr (m', bs) \<and>
    data_only dn dl s L m' \<and>
    (\<forall>buf. length buf = len \<longrightarrow> copy_pages tr sh False va 0 m' buf = Inr (m', bs))"
proof -
  have "data_only dn dl s L (phys s)" using space_ok by (simp add: data_only_def)
  from copy_write_read [OF this assms, of sh 0] show ?thesis by auto
qed

end

text \<open>A run mapped page by page onto a run of whole frames is ordinary, from any offset on.\<close>

lemma run_plain:
  assumes pok: "phys_ok s" and al: "4096 dvd unat va" and nw: "unat va + n * 4096 \<le> 2 ^ 64"
    and fit: "off + len \<le> n * 4096"
    and w: "\<And>k. k < n \<Longrightarrow> walk dn dl (phys s) root (va + of_nat (k * 4096)) = Some (a + of_nat (k * 4096))"
    and z: "\<And>k. k < n \<Longrightarrow> frame_ok s (a + of_nat (k * 4096)) \<and> data_range s L (a + of_nat (k * 4096)) 4096"
  shows "plain_pages dn dl s L root (\<lambda>p. a + (p - va)) (va + of_nat off) len"
    and "unat (va + of_nat off) + len \<le> 2 ^ 64"
proof -
  have uv: "unat (va + of_nat off) = unat va + off" if "0 < len"
    using that fit nw by (subst unat_add_no_overflow) (simp_all add: unat_of_nat64)
  then show "unat (va + of_nat off) + len \<le> 2 ^ 64"
    using fit nw unat_lt64 [of "va + of_nat off"] by (cases "len = 0") auto
  have page: "page_align (va + of_nat off + of_nat i) = va + of_nat ((off + i) div 4096 * 4096)"
    and k: "(off + i) div 4096 < n" if "i < len" for i
  proof -
    have lt: "off + i < n * 4096" using that fit by simp
    then show "(off + i) div 4096 < n" by (simp add: less_mult_imp_div_less)
    have "unat (page_align (va + of_nat off + of_nat i)) = (unat va + off + i) div 4096 * 4096"
      using page_align_nat [of "va + of_nat off" i] uv that lt nw by simp
    also have "\<dots> = unat va + (off + i) div 4096 * 4096" using al by (auto simp: add.assoc elim!: dvdE)
    also have "\<dots> = unat (va + of_nat ((off + i) div 4096 * 4096))"
      using lt nw by (subst unat_add_no_overflow) (simp_all add: unat_of_nat64 del: of_nat_mult)
    finally show "page_align (va + of_nat off + of_nat i) = va + of_nat ((off + i) div 4096 * 4096)"
      by (simp add: word_unat_eq_iff)
  qed
  show "plain_pages dn dl s L root (\<lambda>p. a + (p - va)) (va + of_nat off) len"
    unfolding plain_pages_def Let_def
  proof (intro allI impI)
    fix i assume i: "i < len"
    let ?k = "(off + i) div 4096" and ?p = "page_align (va + of_nat off + of_nat i)"
    have f: "frame_ok s (a + of_nat (?k * 4096))" using z [OF k [OF i]] by blast
    have "unat (a + of_nat (?k * 4096)) + 4096 \<le> 2 ^ 64" using frame_room [OF pok f] by linarith
    with w [OF k [OF i]] z [OF k [OF i]] frame_okD(1,4) [OF f]
    show "walk dn dl (phys s) root ?p = Some (a + (?p - va)) \<and> 4096 dvd unat (a + (?p - va)) \<and>
        unat (a + (?p - va)) + 4096 \<le> 2 ^ 64 \<and> page_backed (phys s) (a + (?p - va)) \<and>
        data_range s L (a + (?p - va)) 4096 \<and>
        (\<forall>j<len. a + (?p - va) = a + (page_align (va + of_nat off + of_nat j) - va) \<longrightarrow>
           ?p = page_align (va + of_nat off + of_nat j))"
      unfolding page [OF i] by (simp del: of_nat_mult)
  qed
qed

end
