(* ===== verification/Page_Maps.thy ===== *)
theory Page_Maps
  imports Page_Copy
begin

text \<open>
  Ranges and address spaces over any page mapper: the loops of \<open>map_virt\<close>, \<open>addr_space::alloc\<close>
  and \<open>create_addr_space\<close>, which the two memory units share. The locale \<open>page_mapper\<close> is the
  contract of a unit's \<open>map_page\<close>; what an allocation does is shown once inside it.
\<close>

section \<open>Shared operations\<close>

text \<open>Which cursor an allocation takes from.\<close>

definition take_cursor :: "mem_prot \<Rightarrow> u64 \<Rightarrow> space \<Rightarrow> space \<times> addr" where
  "take_cursor prot aligned sp =
     (if has_prot prot prot_supervisor
      then (sp\<lparr>kernel_next := kernel_next sp + aligned\<rparr>, kernel_next sp)
      else (sp\<lparr>user_next := user_next sp + aligned\<rparr>, user_next sp))"

text \<open>The first hit in the order the container happens to iterate.\<close>

fun first_va_of :: "addr \<Rightarrow> (addr \<times> addr) list \<Rightarrow> addr option" where
  "first_va_of pa_page [] = None"
| "first_va_of pa_page ((va_page, mapped_pa) # rest) =
     (if mapped_pa = pa_page then Some va_page else first_va_of pa_page rest)"

definition map_fresh ::
  "(addr \<Rightarrow> addr \<Rightarrow> 'a mmu_base_scheme \<times> space \<Rightarrow> emu_error + 'a mmu_base_scheme \<times> space) \<Rightarrow>
   addr \<Rightarrow> u64 \<Rightarrow> 'a mmu_base_scheme \<times> space \<Rightarrow> emu_error + 'a mmu_base_scheme \<times> space" where
  "map_fresh mp va sz = (\<lambda>(s, sp).
     let start = page_align va; aligned = size_align sz
     in bind_result (alloc_phys_locked s aligned) (\<lambda>(s1, pa_block).
          page_loop aligned (\<lambda>off. mp (start + off) (pa_block + off)) (s1, sp)))"

definition alloc_by ::
  "(addr \<Rightarrow> addr \<Rightarrow> 'a mmu_base_scheme \<times> space \<Rightarrow> emu_error + 'a mmu_base_scheme \<times> space) \<Rightarrow>
   mem_prot \<Rightarrow> u64 \<Rightarrow> 'a mmu_base_scheme \<times> space \<Rightarrow> emu_error + ('a mmu_base_scheme \<times> space) \<times> addr" where
  "alloc_by mp prot sz = (\<lambda>(s, sp).
     let aligned = align_up 0x1000 sz; (sp1, va) = take_cursor prot aligned sp
     in bind_result (map_fresh mp va aligned (s, sp1)) (\<lambda>st. Inr (st, va)))"

definition create_space :: "'a table_mmu_scheme \<Rightarrow> emu_error + 'a table_mmu_scheme \<times> space" where
  "create_space s =
     bind_result (alloc_phys_locked s page_size) (\<lambda>(s1, root).
       let s2 = (if kernel_root s1 = 0 then s1\<lparr>kernel_root := root\<rparr>
                 else copy_entries (kernel_root s1) root kernel_slots s1)
       in Inr (s2\<lparr>spaces := root # filter (\<lambda>p. p \<noteq> root) (spaces s2)\<rparr>, new_space root))"

section \<open>The contract of a page mapper\<close>

locale page_mapper = entry_format +
  fixes mp :: "addr \<Rightarrow> addr \<Rightarrow> 's mmu_base_scheme \<times> space \<Rightarrow> emu_error + 's mmu_base_scheme \<times> space"
  assumes mp_remaps: "tables_ok dn s L \<Longrightarrow> L (root_pa sp) = Some (3, root_pa sp, 0) \<Longrightarrow>
      mp va pa (s, sp) = Inr (s', sp') \<Longrightarrow>
      same_space sp sp' \<and>
      (\<exists>L'. remaps dn dl s L s' L' (root_pa sp) [vpn va \<mapsto> Some (take_bit 48 (page_align pa))])"
    and mp_total: "phys_ok (fst st) \<Longrightarrow> 12288 \<le> mem_left (fst st) \<Longrightarrow>
      \<exists>st'. mp va pa st = Inr st' \<and> phys_ok (fst st') \<and> mem_left (fst st) \<le> mem_left (fst st') + 12288"
begin

lemma map_run_remaps:
  assumes ok: "tables_ok dn s L" and root: "L (root_pa sp) = Some (3, root_pa sp, 0)"
    and run: "for_pages (\<lambda>off. mp (start + off) (pa + off)) n off (s, sp) = Inr (s', sp')"
  shows "same_space sp sp' \<and>
    (\<exists>L'. remaps dn dl s L s' L' (root_pa sp)
      (page_updates (page_at start (\<lambda>off. Some (take_bit 48 (page_align (pa + off))))) n off))"
proof (rule for_pages_remaps [OF _ ok root run])
  fix off :: u64 and s :: "'s mmu_base_scheme" and sp s' sp' L
  assume "tables_ok dn s L" "L (root_pa sp) = Some (3, root_pa sp, 0)"
    "mp (start + off) (pa + off) (s, sp) = Inr (s', sp')"
  from mp_remaps [OF this] show "same_space sp sp' \<and>
      (\<exists>L'. remaps dn dl s L s' L' (root_pa sp)
        (page_at start (\<lambda>off. Some (take_bit 48 (page_align (pa + off)))) off))"
    by (simp add: page_at_def)
qed

text \<open>
  A fresh range: its pages lead to the frames of one new run, in order, and those hold zeroes;
  no other page of the space changed.
\<close>

lemma map_fresh_remaps:
  assumes ok: "tables_ok dn s L" and root: "L (root_pa sp) = Some (3, root_pa sp, 0)"
    and mv: "map_fresh mp va sz (s, sp) = Inr (s', sp')"
    and n: "n = unat (size_align sz) div 4096" and a: "a = phys_next s"
  shows "same_space sp sp'" and "unat a + n * 4096 \<le> unat phys_end"
    and "\<exists>L' V. remaps dn dl s L s' L' (root_pa sp) V \<and>
      dom V \<subseteq> {vpn (page_align va + of_nat (k * 4096)) |k. k < n} \<and>
      (\<forall>k<n. V (vpn (page_align va + of_nat (k * 4096))) = Some (Some (a + of_nat (k * 4096)))) \<and>
      (\<forall>k<n. frame_ok s' (a + of_nat (k * 4096)) \<and> data_range s' L' (a + of_nat (k * 4096)) 4096 \<and>
        (\<forall>buf. length buf = 4096 \<longrightarrow>
           read_phys_mem (phys s') (a + of_nat (k * 4096)) buf = replicate 4096 0))"
proof -
  have pok: "phys_ok s" using ok by (simp add: tables_ok_def)
  have sz: "size_align (size_align sz) = size_align sz"
    by (rule size_align_aligned [OF page_aligned_size_align])
  from mv obtain s1 a' where al': "alloc_phys_locked s (size_align sz) = Inr (s1, a')"
    and run': "for_pages (\<lambda>off. mp (page_align va + off) (a' + off)) n 0 (s1, sp) = Inr (s', sp')"
    by (auto simp: map_fresh_def page_loop_def Let_def n split: sum.splits)
  note e' = alloc_phys_lockedE [OF al' pok]
  have "a' = a" using e'(1) a by simp
  note al = al' [unfolded this] and run = run' [unfolded this] and e = e' [unfolded this]
  have nk: "k * 4096 < unat (size_align (size_align sz))" if "k < n" for k
    using that page_aligned_size_align [of sz] by (auto simp: sz n elim: dvdE)
  show "unat a + n * 4096 \<le> unat phys_end"
    using e(4) by (simp add: sz n dvd_div_mult_self page_aligned_size_align)
  then have n36: "n \<le> 2 ^ 36" by simp
  have sil: "silent dn dl s L s1 L" by (rule silent_alloc [OF ok al]) simp
  note ok1 = silentD(1) [OF sil]
  let ?V = "page_updates (page_at (page_align va) (\<lambda>off. Some (take_bit 48 (page_align (a + off))))) n 0"
  from map_run_remaps [OF ok1 root run] obtain L' where ss: "same_space sp sp'"
    and r: "remaps dn dl s1 L s' L' (root_pa sp) ?V" by blast
  show "same_space sp sp'" by (rule ss)
  have "remaps dn dl s L s' L' (root_pa sp) ?V"
    using remaps_trans [OF silent_remaps [OF sil root] r] by simp
  moreover have "dom ?V \<subseteq> {vpn (page_align va + of_nat (k * 4096)) |k. k < n}"
    by (auto dest!: page_updates_dom)
  moreover have "?V (vpn (page_align va + of_nat (k * 4096))) = Some (Some (a + of_nat (k * 4096)))"
    if "k < n" for k
    using page_updates_at [OF n36 that, of "page_align va" "\<lambda>off. Some (take_bit 48 (page_align (a + off)))" 0]
      run_frame [OF pok al nk [OF that]]
    by (simp del: of_nat_mult)
  moreover have "frame_ok s' (a + of_nat (k * 4096)) \<and> data_range s' L' (a + of_nat (k * 4096)) 4096 \<and>
      (\<forall>buf. length buf = 4096 \<longrightarrow>
        read_phys_mem (phys s') (a + of_nat (k * 4096)) buf = replicate 4096 0)"
    if "k < n" for k
  proof -
    note f = fresh_run_data [OF ok al nk [OF that], of 0 4096]
    have d: "data_range s1 L (a + of_nat (k * 4096)) (length (replicate 4096 (0 :: u8)))"
      using f(1) by (simp del: of_nat_mult)
    have "read_phys_mem (phys s') (a + of_nat (k * 4096)) buf = replicate 4096 0"
      if "length buf = 4096" for buf
      using remapsD(7) [OF r, of "a + of_nat (k * 4096)" buf] f that by (simp del: of_nat_mult)
    then show ?thesis
      using remapsD(8) [OF r fresh_page(1) [OF al pok nk [OF that]]] remapsD(6) [OF r d]
      by (simp del: of_nat_mult)
  qed
  ultimately show "\<exists>L' V. remaps dn dl s L s' L' (root_pa sp) V \<and>
      dom V \<subseteq> {vpn (page_align va + of_nat (k * 4096)) |k. k < n} \<and>
      (\<forall>k<n. V (vpn (page_align va + of_nat (k * 4096))) = Some (Some (a + of_nat (k * 4096)))) \<and>
      (\<forall>k<n. frame_ok s' (a + of_nat (k * 4096)) \<and> data_range s' L' (a + of_nat (k * 4096)) 4096 \<and>
        (\<forall>buf. length buf = 4096 \<longrightarrow>
           read_phys_mem (phys s') (a + of_nat (k * 4096)) buf = replicate 4096 0))"
    by (intro exI [of _ L'] exI [of _ ?V] conjI allI impI) blast+
qed

lemma map_fresh_total:
  assumes "phys_ok s" and "4 * unat (size_align sz) \<le> mem_left s"
  shows "\<exists>st'. map_fresh mp va sz (s, sp) = Inr st'"
proof -
  let ?a = "unat (size_align sz)"
  have sz: "size_align (size_align sz) = size_align sz"
    by (rule size_align_aligned [OF page_aligned_size_align])
  have "unat (phys_next s) + ?a \<le> unat phys_end"
    using assms unfolding mem_left_def phys_ok_def by (elim conjE) linarith
  with alloc_phys_total [OF assms(1), of "size_align sz"] obtain s1 where
    al: "alloc_phys_locked s (size_align sz) = Inr (s1, phys_next s)" by (auto simp: sz)
  have "mem_left s = mem_left s1 + ?a"
    using alloc_phys_lockedE(3,4) [OF al assms(1)] by (simp add: mem_left_def sz)
  moreover have "?a div 4096 * 4096 = ?a" by (simp add: page_aligned_size_align)
  ultimately have "?a div 4096 * 12288 \<le> mem_left s1" using assms(2) by linarith
  with for_pages_total [of 12288 "\<lambda>off. mp (page_align va + off) (phys_next s + off)"
      "(s1, sp)" "?a div 4096" 0] mp_total phys_ok_alloc [OF al assms(1)]
  have "\<exists>st'. for_pages (\<lambda>off. mp (page_align va + off) (phys_next s + off))
      (?a div 4096) 0 (s1, sp) = Inr st'" by (metis fst_conv)
  then show ?thesis by (auto simp: map_fresh_def page_loop_def Let_def al)
qed

text \<open>\<open>alloc\<close> from the cursor: the effect of \<open>map_virt\<close> at the old cursor.\<close>

lemma alloc_effect:
  assumes ok: "tables_ok dn s L" and root: "L (root_pa sp) = Some (3, root_pa sp, 0)"
    and al: "alloc_by mp prot sz (s, sp) = Inr ((s', sp'), va)"
    and n: "n = unat (size_align sz) div 4096" and a: "a = phys_next s"
  shows "va = (if has_prot prot prot_supervisor then kernel_next sp else user_next sp)"
    and "root_pa sp' = root_pa sp"
    and "(if has_prot prot prot_supervisor then kernel_next sp' else user_next sp') = va + size_align sz"
    and "(if has_prot prot prot_supervisor then user_next sp' = user_next sp else kernel_next sp' = kernel_next sp)"
    and "unat a + n * 4096 \<le> unat phys_end"
    and "\<exists>L' V. remaps dn dl s L s' L' (root_pa sp) V \<and>
      dom V \<subseteq> {vpn (page_align va + of_nat (k * 4096)) |k. k < n} \<and>
      (\<forall>k<n. V (vpn (page_align va + of_nat (k * 4096))) = Some (Some (a + of_nat (k * 4096)))) \<and>
      (\<forall>k<n. frame_ok s' (a + of_nat (k * 4096)) \<and> data_range s' L' (a + of_nat (k * 4096)) 4096 \<and>
        (\<forall>buf. length buf = 4096 \<longrightarrow>
           read_phys_mem (phys s') (a + of_nat (k * 4096)) buf = replicate 4096 0))"
proof -
  have up: "align_up 0x1000 sz = size_align sz" by (simp add: align_up_def size_align_def page_size_def)
  obtain sp1 where tc: "take_cursor prot (size_align sz) sp = (sp1, va)"
    and mv: "map_fresh mp va (size_align sz) (s, sp1) = Inr (s', sp')"
    using al by (auto simp: alloc_by_def Let_def up split: prod.splits sum.splits)
  have sp1: "root_pa sp1 = root_pa sp"
    and va: "va = (if has_prot prot prot_supervisor then kernel_next sp else user_next sp)"
    using tc by (auto simp: take_cursor_def split: if_splits)
  have idem: "size_align (size_align sz) = size_align sz"
    by (rule size_align_aligned [OF page_aligned_size_align])
  note m = map_fresh_remaps [OF ok _ mv _ a, of n, unfolded idem sp1, OF root n]
  show "va = (if has_prot prot prot_supervisor then kernel_next sp else user_next sp)" by (rule va)
  show "root_pa sp' = root_pa sp"
    "(if has_prot prot prot_supervisor then kernel_next sp' else user_next sp') = va + size_align sz"
    "(if has_prot prot prot_supervisor then user_next sp' = user_next sp else kernel_next sp' = kernel_next sp)"
    using m(1) tc sp1 by (auto simp: same_space_def take_cursor_def split: if_splits)
  show "unat a + n * 4096 \<le> unat phys_end" by (rule m(2))
  show "\<exists>L' V. remaps dn dl s L s' L' (root_pa sp) V \<and>
      dom V \<subseteq> {vpn (page_align va + of_nat (k * 4096)) |k. k < n} \<and>
      (\<forall>k<n. V (vpn (page_align va + of_nat (k * 4096))) = Some (Some (a + of_nat (k * 4096)))) \<and>
      (\<forall>k<n. frame_ok s' (a + of_nat (k * 4096)) \<and> data_range s' L' (a + of_nat (k * 4096)) 4096 \<and>
        (\<forall>buf. length buf = 4096 \<longrightarrow>
           read_phys_mem (phys s') (a + of_nat (k * 4096)) buf = replicate 4096 0))"
    by (rule m(3))
qed

text \<open>An allocated range is a run of ordinary pages, from any offset on.\<close>

lemma alloc_plain:
  assumes ok: "tables_ok dn s L" and root: "L (root_pa sp) = Some (3, root_pa sp, 0)"
    and al: "alloc_by mp prot sz (s, sp) = Inr ((s', sp'), va)" and va: "4096 dvd unat va"
    and nw: "unat va + unat (size_align sz) \<le> 2 ^ 64"
  shows "\<exists>L'. tables_ok dn s' L' \<and> L \<subseteq>\<^sub>m L' \<and> root_pa sp' = root_pa sp \<and>
    (\<forall>off len. off + len \<le> unat (size_align sz) \<longrightarrow>
       plain_pages dn dl s' L' (root_pa sp') (\<lambda>p. phys_next s + (p - va)) (va + of_nat off) len \<and>
       unat (va + of_nat off) + len \<le> 2 ^ 64)"
proof -
  define n where "n = unat (size_align sz) div 4096"
  define a where "a = phys_next s"
  have sz: "unat (size_align sz) = n * 4096" by (simp add: n_def page_aligned_size_align)
  have "unat (page_align va) = unat va" using va by (simp add: unat_page_align)
  then have pa: "page_align va = va" by (simp add: word_unat_eq_iff)
  note ef = alloc_effect [OF ok root al n_def a_def, unfolded pa]
  from ef(6) obtain L' V where r: "remaps dn dl s L s' L' (root_pa sp) V"
    and V: "\<And>k. k < n \<Longrightarrow> V (vpn (va + of_nat (k * 4096))) = Some (Some (a + of_nat (k * 4096)))"
    and z: "\<And>k. k < n \<Longrightarrow> frame_ok s' (a + of_nat (k * 4096)) \<and> data_range s' L' (a + of_nat (k * 4096)) 4096"
    by blast
  have ok': "tables_ok dn s' L'" by (rule remapsD(1) [OF r])
  have pok': "phys_ok s'" using ok' by (simp add: tables_ok_def)
  have w: "walk dn dl (phys s') (root_pa sp') (va + of_nat (k * 4096)) = Some (a + of_nat (k * 4096))"
    if "k < n" for k
    using remapsD(3) [OF r, of "va + of_nat (k * 4096)"] V [OF that] ef(2) by (simp del: of_nat_mult)
  note pl = run_plain [OF pok' va nw [unfolded sz] _ w z]
  with ok' remapsD(2) [OF r] ef(2) show ?thesis unfolding a_def sz by blast
qed

end

section \<open>Isolation and sharing\<close>

text \<open>Two spaces share a top-level slot when both lead to the same table there.\<close>

definition shares_slot :: "(u64 \<Rightarrow> addr option) \<Rightarrow> phys_mem \<Rightarrow> addr \<Rightarrow> addr \<Rightarrow> nat \<Rightarrow> bool" where
  "shares_slot dn m r q i \<longleftrightarrow> dn (entry_at m r i) \<noteq> None \<and> dn (entry_at m q i) = dn (entry_at m r i)"

lemma shares_walk:
  "shares_slot dn m r q (index_of 3 va) \<Longrightarrow> walk dn dl m q va = walk dn dl m r va"
  by (simp add: shares_slot_def walk_unfold)

lemma remaps_isolation:
  assumes r: "remaps dn dl s L s' L' root V"
    and R: "\<And>r. r \<in> R \<Longrightarrow> L r = Some (3, r, 0)" and qR: "q \<in> R"
    and h: "vpn va' \<notin> dom V \<or> q \<noteq> root \<and> index_of 3 va' < 256"
  shows "walk dn dl (phys s') q va' = walk dn dl (phys s) q va'"
proof (cases "q = root")
  case True
  with h have "V (vpn va') = None" by auto
  with remapsD(3) [OF r, of va'] True show ?thesis by simp
next
  case False
  with remapsD(4) [OF r R [OF qR] False, of va'] h show ?thesis by auto
qed

lemma remaps_shares:
  assumes "remaps dn dl s L s' L' root V"
    and "L r = Some (3, r, 0)" and "L q = Some (3, q, 0)" and "i < 512" and "shares_slot dn (phys s) r q i"
  shows "shares_slot dn (phys s') r q i"
  using remapsD(5) [OF assms(1,2) _ assms(4)] remapsD(5) [OF assms(1,3) _ assms(4)] assms(5)
  unfolding shares_slot_def by (metis fst_conv not_Some_eq zero_less_numeral)

context page_mapper
begin

lemma map_page_space:
  assumes "spaces_ok dn s R" and "root_pa sp \<in> R" and "mp va pa (s, sp) = Inr (s', sp')"
    and v: "v = Some (take_bit 48 (page_align pa))"
  shows "spaces_ok dn s' R \<and> root_pa sp' = root_pa sp \<and> walk dn dl (phys s') (root_pa sp) va = v \<and>
    (\<forall>q va'. q \<in> R \<and> (vpn va' \<noteq> vpn va \<or> q \<noteq> root_pa sp \<and> index_of 3 va < 256) \<longrightarrow>
       walk dn dl (phys s') q va' = walk dn dl (phys s) q va') \<and>
    (\<forall>q. q \<in> R \<and> shares_slot dn (phys s) (root_pa sp) q (index_of 3 va) \<longrightarrow>
       walk dn dl (phys s') q va = v)"
proof -
  obtain L where ok: "tables_ok dn s L" and R: "\<And>r. r \<in> R \<Longrightarrow> L r = Some (3, r, 0)"
    using assms(1) by (rule spaces_okE) blast
  from mp_remaps [OF ok R [OF assms(2)] assms(3)]
  obtain L' where sp': "root_pa sp' = root_pa sp"
    and r: "remaps dn dl s L s' L' (root_pa sp) [vpn va \<mapsto> v]"
    by (auto simp: same_space_def v)
  have hit: "walk dn dl (phys s') (root_pa sp) va = v"
    using remapsD(3) [OF r, of va] by simp
  moreover have "walk dn dl (phys s') q va' = walk dn dl (phys s) q va'"
    if "q \<in> R" "vpn va' \<noteq> vpn va \<or> q \<noteq> root_pa sp \<and> index_of 3 va < 256" for q va'
    using remaps_isolation [OF r R that(1), of va'] that(2)
    by (cases "vpn va' = vpn va") (auto simp: index_of_vpn)
  moreover have "walk dn dl (phys s') q va = v"
    if "q \<in> R" "shares_slot dn (phys s) (root_pa sp) q (index_of 3 va)" for q
    using shares_walk [OF remaps_shares [OF r R [OF assms(2)] R [OF that(1)] index_of_lt that(2)]] hit
    by simp
  ultimately show ?thesis using remaps_spaces_ok [OF r R] sp' by blast
qed

lemma alloc_space:
  assumes "spaces_ok dn s R" and "root_pa sp \<in> R"
    and "alloc_by mp prot sz (s, sp) = Inr ((s', sp'), va)" and "4096 dvd unat va"
    and "n = unat (size_align sz) div 4096" and "a = phys_next s"
  shows "spaces_ok dn s' R \<and> root_pa sp' = root_pa sp \<and>
    (if has_prot prot prot_supervisor
     then va = kernel_next sp \<and> kernel_next sp' = va + size_align sz \<and> user_next sp' = user_next sp
     else va = user_next sp \<and> user_next sp' = va + size_align sz \<and> kernel_next sp' = kernel_next sp) \<and>
    (\<forall>k<n. walk dn dl (phys s') (root_pa sp) (va + of_nat (k * 4096)) = Some (a + of_nat (k * 4096)) \<and>
       read_phys_mem (phys s') (a + of_nat (k * 4096)) (replicate 4096 0xFF) = replicate 4096 0) \<and>
    (\<forall>q va'. q \<in> R \<and>
       ((\<forall>k<n. vpn va' \<noteq> vpn (va + of_nat (k * 4096))) \<or> q \<noteq> root_pa sp \<and> index_of 3 va' < 256) \<longrightarrow>
       walk dn dl (phys s') q va' = walk dn dl (phys s) q va')"
proof -
  obtain L where ok: "tables_ok dn s L" and R: "\<And>r. r \<in> R \<Longrightarrow> L r = Some (3, r, 0)"
    using assms(1) by (rule spaces_okE) blast
  have "unat (page_align va) = unat va" using assms(4) by (simp add: unat_page_align)
  then have pa: "page_align va = va" by (simp add: word_unat_eq_iff)
  note ef = alloc_effect [OF ok R [OF assms(2)] assms(3,5,6), unfolded pa]
  from ef(6) obtain L' V where r: "remaps dn dl s L s' L' (root_pa sp) V"
    and dom: "dom V \<subseteq> {vpn (va + of_nat (k * 4096)) |k. k < n}"
    and V: "\<And>k. k < n \<Longrightarrow> V (vpn (va + of_nat (k * 4096))) = Some (Some (a + of_nat (k * 4096)))"
    and z: "\<And>k buf. k < n \<Longrightarrow> length buf = 4096 \<Longrightarrow>
      read_phys_mem (phys s') (a + of_nat (k * 4096)) buf = replicate 4096 0"
    by blast
  have "walk dn dl (phys s') (root_pa sp) (va + of_nat (k * 4096)) = Some (a + of_nat (k * 4096)) \<and>
      read_phys_mem (phys s') (a + of_nat (k * 4096)) (replicate 4096 0xFF) = replicate 4096 0" if "k < n" for k
    using remapsD(3) [OF r, of "va + of_nat (k * 4096)"] V [OF that] z [OF that] by (simp del: of_nat_mult)
  moreover have "walk dn dl (phys s') q va' = walk dn dl (phys s) q va'"
    if "q \<in> R" "(\<forall>k<n. vpn va' \<noteq> vpn (va + of_nat (k * 4096))) \<or> q \<noteq> root_pa sp \<and> index_of 3 va' < 256" for q va'
    using remaps_isolation [OF r R that(1), of va'] that(2) dom by blast
  ultimately show ?thesis
    using remaps_spaces_ok [OF r R] ef(1-4) by (simp split: if_splits)
qed

lemma alloc_space_succeeds:
  assumes "phys_ok s" and "4 * unat (size_align sz) \<le> mem_left s"
  shows "\<exists>st' va. alloc_by mp prot sz (s, sp) = Inr (st', va)"
proof -
  have up: "align_up 0x1000 sz = size_align sz" by (simp add: align_up_def size_align_def page_size_def)
  have idem: "size_align (size_align sz) = size_align sz"
    by (rule size_align_aligned [OF page_aligned_size_align])
  obtain sp1 va where tc: "take_cursor prot (size_align sz) sp = (sp1, va)"
    by (cases "take_cursor prot (size_align sz) sp")
  obtain st' where "map_fresh mp va (size_align sz) (s, sp1) = Inr st'"
    using map_fresh_total [OF assms(1), of "size_align sz" va sp1] assms(2) by (auto simp: idem)
  then show ?thesis by (simp add: alloc_by_def up tc)
qed

end

section \<open>Loops that cannot fail, and new spaces\<close>

lemma for_pages_never_fails:
  assumes "\<And>off st. \<exists>st'. body off st = Inr st'"
  shows "\<exists>st'. for_pages body n off st = Inr st'"
proof (induction n arbitrary: off st)
  case (Suc n)
  obtain st1 where "body off st = Inr st1" using assms by blast
  with Suc.IH show ?case by simp
qed simp

lemma create_space_cases:
  assumes "create_space s = Inr (s', sp)"
  obtains s1 where "alloc_phys_locked s page_size = Inr (s1, root_pa sp)" and "sp = new_space (root_pa sp)"
    and "phys s' = phys (if kernel_root s = 0 then s1 else copy_entries (kernel_root s) (root_pa sp) kernel_slots s1)"
    and "phys_next s' = phys_next s1"
    and "kernel_root s' = (if kernel_root s = 0 then root_pa sp else kernel_root s)"
    and "spaces s' = root_pa sp # filter (\<lambda>p. p \<noteq> root_pa sp) (spaces s)"
proof -
  from assms obtain s1 r where al: "alloc_phys_locked s page_size = Inr (s1, r)" and sp: "sp = new_space r"
    and s': "s' = (let s2 = (if kernel_root s1 = 0 then s1\<lparr>kernel_root := r\<rparr>
        else copy_entries (kernel_root s1) r kernel_slots s1)
      in s2\<lparr>spaces := r # filter (\<lambda>p. p \<noteq> r) (spaces s2)\<rparr>)"
    by (auto simp: create_space_def Let_def split: sum.splits)
  have more: "kernel_root s1 = kernel_root s" "spaces s1 = spaces s"
    using al by (auto simp: alloc_phys_locked_def Let_def split: if_splits)
  have ce: "kernel_root (copy_entries k d is t) = kernel_root t" "spaces (copy_entries k d is t) = spaces t"
    "phys_next (copy_entries k d is t) = phys_next t"
    for k d "is" and t :: "'a table_mmu_scheme"
    by (induction "is" arbitrary: t) (simp_all add: set_entry_def)
  have "root_pa sp = r" by (simp add: sp new_space_def)
  with that [of s1] al sp more show thesis by (simp add: s' Let_def ce)
qed

context entry_format
begin

lemma create_space_correct:
  assumes "spaces_ok dn s R" and "kernel_root s = 0 \<or> kernel_root s \<in> R" and "create_space s = Inr (s', sp)"
  shows "root_pa sp \<notin> R \<and> spaces_ok dn s' (insert (root_pa sp) R) \<and>
    kernel_root s' \<in> insert (root_pa sp) R \<and> root_pa sp \<in> set (spaces s') \<and>
    (\<forall>q va. q \<in> R \<longrightarrow> walk dn dl (phys s') q va = walk dn dl (phys s) q va) \<and>
    (\<forall>va. index_of 3 va < 256 \<longrightarrow> walk dn dl (phys s') (root_pa sp) va = None) \<and>
    (\<forall>va. kernel_root s \<noteq> 0 \<and> 256 \<le> index_of 3 va \<longrightarrow>
       walk dn dl (phys s') (root_pa sp) va = walk dn dl (phys s) (kernel_root s) va)"
proof -
  obtain L where ok: "tables_ok dn s L" and R: "\<And>r. r \<in> R \<Longrightarrow> L r = Some (3, r, 0)"
    using assms(1) by (rule spaces_okE) blast
  have kr: "kernel_root s = 0 \<or> L (kernel_root s) = Some (3, kernel_root s, 0)" using assms(2) R by blast
  from assms(3) obtain s1 where al: "alloc_phys_locked s page_size = Inr (s1, root_pa sp)"
    and s': "phys s' = phys (if kernel_root s = 0 then s1 else copy_entries (kernel_root s) (root_pa sp) kernel_slots s1)"
      "phys_next s' = phys_next s1"
    and k: "kernel_root s' = (if kernel_root s = 0 then root_pa sp else kernel_root s)"
    and sps: "spaces s' = root_pa sp # filter (\<lambda>p. p \<noteq> root_pa sp) (spaces s)"
    by (rule create_space_cases)
  note nr = new_root [OF ok al kr s']
  have new: "root_pa sp \<notin> R" using nr(1) R by auto
  have "spaces_ok dn s' (insert (root_pa sp) R)"
    unfolding spaces_ok_def using nr(2) R new by (intro exI [of _ "L(root_pa sp \<mapsto> (3, root_pa sp, 0))"]) auto
  then show ?thesis
    using new k sps assms(2) nr(3) [OF R] nr(4) by auto
qed

end

section \<open>A machine with one space\<close>

definition boot_mmu :: table_mmu where
  "boot_mmu = \<lparr>phys = [], phys_next = phys_base, kernel_root = 0, spaces = [], note_log = []\<rparr>"

lemma boot_ok: "phys_ok boot_mmu" "mem_left boot_mmu = 0x100000000"
  by (simp_all add: boot_mmu_def phys_ok_def mem_left_def)

lemma spaces_ok_empty: "phys_ok s \<Longrightarrow> spaces_ok dn s {}"
  unfolding spaces_ok_def by (intro exI [of _ Map.empty]) (simp add: tables_ok_def)

context entry_format
begin

lemma boot_space:
  "\<exists>s sp. create_space boot_mmu = Inr (s, sp) \<and> phys_ok s \<and> mem_left s = 0xFFFFF000 \<and>
     sp = new_space (root_pa sp) \<and> kernel_root s = root_pa sp \<and> spaces_ok dn s {root_pa sp}"
proof -
  obtain s1 c where al: "alloc_phys_locked boot_mmu page_size = Inr (s1, c)" "phys_ok s1"
    "mem_left boot_mmu = mem_left s1 + 4096"
    using alloc_page_total [OF boot_ok(1)] boot_ok(2) by auto
  then obtain s sp where cr: "create_space boot_mmu = Inr (s, sp)"
    by (auto simp: create_space_def Let_def)
  then obtain s2 where c: "alloc_phys_locked boot_mmu page_size = Inr (s2, root_pa sp)"
    "sp = new_space (root_pa sp)" "phys s = phys s2" "phys_next s = phys_next s2" "kernel_root s = root_pa sp"
    by (rule create_space_cases) (auto simp: boot_mmu_def)
  with al have s2: "s2 = s1" by simp
  have "phys_ok s" "mem_left s = 0xFFFFF000"
    using al c(3,4) boot_ok(2) by (simp_all add: s2 phys_ok_def mem_left_def)
  moreover have "spaces_ok dn s {root_pa sp}"
    using create_space_correct [OF spaces_ok_empty [OF boot_ok(1)] _ cr] by (simp add: boot_mmu_def)
  ultimately show ?thesis using cr c by blast
qed

end

lemma boot_simps:
  "size_align 0x1800 = 0x2000" "size_align 0x2000 = 0x2000" "align_up 0x1000 0x1800 = 0x2000"
  "prot_rw AND prot_supervisor = 0" "page_align 0x10000 = 0x10000" "4096 dvd unat (0x10000 :: u64)"
  by (simp_all add: size_align_def page_size_def align_up_def page_align_def prot_rw_def prot_read_def
      prot_write_def prot_supervisor_def)

end
