(* ===== verification/X86_Mmu.thy ===== *)
theory X86_Mmu
  imports Page_Maps
begin

text \<open>
  The x86-64 memory unit and address space (src/emu/x86/mmu.cpp, mmu.hpp and
  addr_space.hpp). The entry structs \<open>pt_entry_64\<close> and \<open>pte_64\<close> and the control registers
  come from the external header ia32.hpp, which is not part of the sources: where their
  fields lie is the parameter \<open>P\<close>, and \<open>ia32_ok\<close> is what the code relies on. A space is
  passed and returned beside the unit's state; \<open>flush_all_tlb\<close> has no counterpart, the
  processors' translation caches being part of the backend. A thrown error ends the call
  with the error as its value.
\<close>

section \<open>The external entry layouts\<close>

record entry_layout =
  f_present :: bitfield
  f_write :: bitfield
  f_supervisor :: bitfield
  f_accessed :: bitfield
  f_dirty :: bitfield
  f_global :: bitfield
  f_execute_disable :: bitfield
  f_page_frame_number :: bitfield

record cr_layout =
  cr4_physical_address_extension :: bitfield
  cr4_os_fxsave_fxrstor_support :: bitfield
  cr4_os_xmm_exception_support :: bitfield
  cr4_page_size_extensions :: bitfield
  cr4_page_global_enable :: bitfield
  cr4_fsgsbase_enable :: bitfield
  cr4_usermode_instruction_prevention :: bitfield
  cr4_smep_enable :: bitfield
  cr4_smap_enable :: bitfield
  efer_syscall_enable :: bitfield
  efer_execute_disable_bit_enable :: bitfield
  efer_ia32e_mode_enable :: bitfield
  efer_ia32e_mode_active :: bitfield
  cr0_protection_enable :: bitfield
  cr0_monitor_coprocessor :: bitfield
  cr0_extension_type :: bitfield
  cr0_numeric_error :: bitfield
  cr0_write_protect :: bitfield
  cr0_alignment_mask :: bitfield
  cr0_paging_enable :: bitfield

record ia32 =
  pt_entry_64 :: entry_layout
  pte_64 :: entry_layout

definition entry_fields :: "entry_layout \<Rightarrow> bitfield list" where
  "entry_fields l = [f_present l, f_write l, f_supervisor l, f_accessed l, f_dirty l,
     f_global l, f_execute_disable l, f_page_frame_number l]"

fun pairwise_disjoint :: "bitfield list \<Rightarrow> bool" where
  "pairwise_disjoint [] \<longleftrightarrow> True"
| "pairwise_disjoint (f # fs) \<longleftrightarrow> (\<forall>g \<in> set fs. bf_disjoint f g) \<and> pairwise_disjoint fs"

definition layout_ok :: "entry_layout \<Rightarrow> bool" where
  "layout_ok l \<longleftrightarrow> (\<forall>f \<in> set (entry_fields l). bf_within f) \<and> pairwise_disjoint (entry_fields l) \<and>
     (\<forall>f \<in> set (butlast (entry_fields l)). snd f = 1) \<and> snd (f_page_frame_number l) = 36"

definition ia32_ok :: "ia32 \<Rightarrow> bool" where
  "ia32_ok P \<longleftrightarrow> layout_ok (pt_entry_64 P) \<and> layout_ok (pte_64 P)"

section \<open>Tables\<close>

definition pfn_to_pa :: "u64 \<Rightarrow> addr" where
  "pfn_to_pa pfn = push_bit 12 pfn"

definition x86_ensure_table ::
  "ia32 \<Rightarrow> bool \<Rightarrow> 'a mmu_base_scheme \<Rightarrow> addr \<Rightarrow> nat \<Rightarrow> emu_error + 'a mmu_base_scheme \<times> addr" where
  "x86_ensure_table P user s table_pa index =
     (let l = pt_entry_64 P; entry = entry_at (phys s) table_pa index
      in if bf_get (f_present l) entry \<noteq> 0
         then
           (let s1 = (if user \<and> bf_get (f_supervisor l) entry = 0
                      then set_entry table_pa index (bf_set (f_supervisor l) 1 entry) s else s);
                entry1 = (if user \<and> bf_get (f_supervisor l) entry = 0
                          then bf_set (f_supervisor l) 1 entry else entry)
            in Inr (s1, pfn_to_pa (bf_get (f_page_frame_number l) entry1)))
         else
           bind_result (alloc_phys_locked s page_size) (\<lambda>(s1, child).
             let e0 = 0;
                 e1 = bf_set (f_present l) 1 e0;
                 e2 = bf_set (f_write l) 1 e1;
                 e3 = bf_set (f_supervisor l) (if user then 1 else 0) e2;
                 e4 = bf_set (f_accessed l) 1 e3;
                 e5 = bf_set (f_page_frame_number l) (drop_bit 12 child) e4
             in Inr (set_entry table_pa index e5 s1, child)))"

definition x86_leaf :: "entry_layout \<Rightarrow> addr \<Rightarrow> mem_prot \<Rightarrow> u64" where
  "x86_leaf l pa prot =
     (let user = \<not> has_prot prot prot_supervisor;
          e1 = bf_set (f_present l) 1 0;
          e2 = bf_set (f_write l) (if has_prot prot prot_write then 1 else 0) e1;
          e3 = bf_set (f_execute_disable l) (if has_prot prot prot_exec then 0 else 1) e2;
          e4 = bf_set (f_accessed l) 1 e3;
          e5 = bf_set (f_dirty l) (if has_prot prot prot_write then 1 else 0) e4;
          e6 = (if user then bf_set (f_supervisor l) 1 e5 else bf_set (f_global l) 1 e5)
      in bf_set (f_page_frame_number l) (drop_bit 12 pa) e6)"

definition x86_map_page ::
  "ia32 \<Rightarrow> addr \<Rightarrow> addr \<Rightarrow> mem_prot \<Rightarrow> 'a table_mmu_scheme \<times> space \<Rightarrow>
   emu_error + 'a table_mmu_scheme \<times> space" where
  "x86_map_page P va pa prot = (\<lambda>(s, sp).
     let v = page_align va; user = \<not> has_prot prot prot_supervisor
     in bind_result (x86_ensure_table P user s (root_pa sp) (index_of 3 v)) (\<lambda>(s1, pdpt).
        bind_result (x86_ensure_table P user s1 pdpt (index_of 2 v)) (\<lambda>(s2, pd).
        bind_result (x86_ensure_table P user s2 pd (index_of 1 v)) (\<lambda>(s3, pt).
          let s4 = set_entry pt (index_of 0 v) (x86_leaf (pte_64 P) pa prot) s3;
              sp1 = sp\<lparr>shadow := umap_set v pa (shadow sp)\<rparr>;
              s5 = fold note_page
                     [(pa, v, pt, 0, True), (pt, v, pd, 1, True), (pd, v, pdpt, 2, True),
                      (pdpt, v, root_pa sp, 3, True), (root_pa sp, v, root_pa sp, 4, True)] s4
          in Inr (s5, sp1)))))"

definition x86_unmap_page ::
  "ia32 \<Rightarrow> addr \<Rightarrow> 'a table_mmu_scheme \<times> space \<Rightarrow> emu_error + 'a table_mmu_scheme \<times> space" where
  "x86_unmap_page P va = (\<lambda>(s0, sp0).
     let v = page_align va; l = pt_entry_64 P;
         (s, sp) = (case umap_find v (shadow sp0) of
             None \<Rightarrow> (s0, sp0)
           | Some pa \<Rightarrow> (note_page (pa, v, 0, 0, False) s0,
                         sp0\<lparr>shadow := umap_erase v (shadow sp0)\<rparr>));
         pml4e = entry_at (phys s) (root_pa sp) (index_of 3 v)
     in if bf_get (f_present l) pml4e = 0 then Inr (s, sp) else
        let pdpte = entry_at (phys s) (pfn_to_pa (bf_get (f_page_frame_number l) pml4e)) (index_of 2 v)
        in if bf_get (f_present l) pdpte = 0 then Inr (s, sp) else
           let pde = entry_at (phys s) (pfn_to_pa (bf_get (f_page_frame_number l) pdpte)) (index_of 1 v)
           in if bf_get (f_present l) pde = 0 then Inr (s, sp) else
              Inr (set_entry (pfn_to_pa (bf_get (f_page_frame_number l) pde)) (index_of 0 v) 0 s, sp))"

definition x86_translate_virt :: "ia32 \<Rightarrow> space \<Rightarrow> phys_mem \<Rightarrow> addr \<Rightarrow> addr option" where
  "x86_translate_virt P sp m v =
     (let l = pt_entry_64 P; pml4e = entry_at m (root_pa sp) (index_of 3 v)
      in if bf_get (f_present l) pml4e = 0 then None else
         let pdpte = entry_at m (pfn_to_pa (bf_get (f_page_frame_number l) pml4e)) (index_of 2 v)
         in if bf_get (f_present l) pdpte = 0 then None else
            let pde = entry_at m (pfn_to_pa (bf_get (f_page_frame_number l) pdpte)) (index_of 1 v)
            in if bf_get (f_present l) pde = 0 then None else
               let pte = entry_at m (pfn_to_pa (bf_get (f_page_frame_number l) pde)) (index_of 0 v)
               in if bf_get (f_present (pte_64 P)) pte = 0 then None
                  else Some (pfn_to_pa (bf_get (f_page_frame_number (pte_64 P)) pte)))"

definition x86_reprotect :: "entry_layout \<Rightarrow> mem_prot \<Rightarrow> u64 \<Rightarrow> u64" where
  "x86_reprotect l prot pte =
     (let n1 = bf_set (f_present l) 1 0;
          n2 = bf_set (f_page_frame_number l) (bf_get (f_page_frame_number l) pte) n1;
          n3 = bf_set (f_accessed l) (bf_get (f_accessed l) pte) n2;
          n4 = bf_set (f_dirty l) (bf_get (f_dirty l) pte) n3;
          n5 = (if has_prot prot prot_write then bf_set (f_write l) 1 n4 else n4);
          n6 = (if has_prot prot prot_exec then n5 else bf_set (f_execute_disable l) 1 n5)
      in if bf_get (f_supervisor l) pte \<noteq> 0 then bf_set (f_supervisor l) 1 n6
         else bf_set (f_global l) 1 n6)"

text \<open>The body of the loop of \<open>prot_virt\<close>; each \<open>continue\<close> returns the state as it is.\<close>

definition x86_prot_page ::
  "ia32 \<Rightarrow> mem_prot \<Rightarrow> addr \<Rightarrow> 'a table_mmu_scheme \<times> space \<Rightarrow> emu_error + 'a table_mmu_scheme \<times> space" where
  "x86_prot_page P prot v = (\<lambda>(s, sp).
     let l = pt_entry_64 P; pml4e = entry_at (phys s) (root_pa sp) (index_of 3 v)
     in if bf_get (f_present l) pml4e = 0 then Inr (s, sp) else
        let pdpte = entry_at (phys s) (pfn_to_pa (bf_get (f_page_frame_number l) pml4e)) (index_of 2 v)
        in if bf_get (f_present l) pdpte = 0 then Inr (s, sp) else
           let pde = entry_at (phys s) (pfn_to_pa (bf_get (f_page_frame_number l) pdpte)) (index_of 1 v)
           in if bf_get (f_present l) pde = 0 then Inr (s, sp) else
              let pt_pa = pfn_to_pa (bf_get (f_page_frame_number l) pde);
                  pte = entry_at (phys s) pt_pa (index_of 0 v)
              in if bf_get (f_present (pte_64 P)) pte = 0 then Inr (s, sp) else
                 Inr (set_entry pt_pa (index_of 0 v) (x86_reprotect (pte_64 P) prot pte) s, sp))"

section \<open>Ranges\<close>

definition x86_map_virt ::
  "ia32 \<Rightarrow> addr \<Rightarrow> u64 \<Rightarrow> mem_prot \<Rightarrow> 'a table_mmu_scheme \<times> space \<Rightarrow>
   emu_error + 'a table_mmu_scheme \<times> space" where
  "x86_map_virt P va sz prot = (\<lambda>(s, sp).
     let start = page_align va; aligned = size_align sz
     in bind_result (alloc_phys_locked s aligned) (\<lambda>(s1, pa_block).
          page_loop aligned (\<lambda>off. x86_map_page P (start + off) (pa_block + off) prot) (s1, sp)))"

definition x86_map_virt_phys ::
  "ia32 \<Rightarrow> addr \<Rightarrow> addr \<Rightarrow> u64 \<Rightarrow> mem_prot \<Rightarrow> 'a table_mmu_scheme \<times> space \<Rightarrow>
   emu_error + 'a table_mmu_scheme \<times> space" where
  "x86_map_virt_phys P va pa sz prot st =
     (let start = page_align va; pa_start = page_align pa; aligned = size_align sz
      in page_loop aligned (\<lambda>off. x86_map_page P (start + off) (pa_start + off) prot) st)"

definition x86_unmap_virt ::
  "ia32 \<Rightarrow> addr \<Rightarrow> u64 \<Rightarrow> 'a table_mmu_scheme \<times> space \<Rightarrow> emu_error + 'a table_mmu_scheme \<times> space" where
  "x86_unmap_virt P va sz st =
     (let start = page_align va; aligned = size_align sz
      in page_loop aligned (\<lambda>off. x86_unmap_page P (start + off)) st)"

definition x86_prot_virt ::
  "ia32 \<Rightarrow> addr \<Rightarrow> u64 \<Rightarrow> mem_prot \<Rightarrow> 'a table_mmu_scheme \<times> space \<Rightarrow>
   emu_error + 'a table_mmu_scheme \<times> space" where
  "x86_prot_virt P va sz prot st =
     (let start = page_align va; aligned = size_align sz
      in page_loop aligned (\<lambda>off. x86_prot_page P prot (start + off)) st)"

section \<open>Access\<close>

definition x86_copy_virt ::
  "ia32 \<Rightarrow> space \<Rightarrow> bool \<Rightarrow> addr \<Rightarrow> phys_mem \<Rightarrow> u8 list \<Rightarrow> emu_error + phys_mem \<times> u8 list" where
  "x86_copy_virt P sp write va m buf =
     copy_pages (x86_translate_virt P sp) (shadow sp) write va 0 m buf"

definition x86_read_virt ::
  "ia32 \<Rightarrow> 'a table_mmu_scheme \<Rightarrow> space \<Rightarrow> addr \<Rightarrow> u8 list \<Rightarrow> emu_error + u8 list" where
  "x86_read_virt P s sp va buf = map_sum id snd (x86_copy_virt P sp False va (phys s) buf)"

definition x86_write_virt ::
  "ia32 \<Rightarrow> 'a table_mmu_scheme \<Rightarrow> space \<Rightarrow> addr \<Rightarrow> u8 list \<Rightarrow> emu_error + 'a table_mmu_scheme" where
  "x86_write_virt P s sp va buf =
     map_sum id (\<lambda>(m, _). s\<lparr>phys := m\<rparr>) (x86_copy_virt P sp True va (phys s) buf)"

definition x86_virt_to_phys :: "ia32 \<Rightarrow> 'a table_mmu_scheme \<Rightarrow> space \<Rightarrow> addr \<Rightarrow> addr option" where
  "x86_virt_to_phys P s sp va =
     (let page = page_align va
      in case x86_translate_virt P sp (phys s) page of
           Some pa \<Rightarrow> Some (pa + (va - page))
         | None \<Rightarrow>
             (case umap_find page (shadow sp) of
                Some pa \<Rightarrow> Some (pa + (va - page))
              | None \<Rightarrow> None))"

definition x86_phys_to_virt :: "space \<Rightarrow> addr \<Rightarrow> addr option" where
  "x86_phys_to_virt sp pa =
     (let pa_page = pa AND NOT (page_size - 1); offset = pa - pa_page
      in map_option (\<lambda>va_page. va_page + offset) (first_va_of pa_page (shadow sp)))"

section \<open>Address spaces\<close>

definition x86_create_addr_space ::
  "'a table_mmu_scheme \<Rightarrow> emu_error + 'a table_mmu_scheme \<times> space" where
  "x86_create_addr_space s =
     bind_result (alloc_phys_locked s page_size) (\<lambda>(s1, pml4).
       let s2 = (if kernel_root s1 = 0 then s1\<lparr>kernel_root := pml4\<rparr>
                 else copy_entries (kernel_root s1) pml4 kernel_slots s1)
       in Inr (s2\<lparr>spaces := pml4 # filter (\<lambda>p. p \<noteq> pml4) (spaces s2)\<rparr>, new_space pml4))"

definition x86_destroy_addr_space :: "space \<Rightarrow> 'a table_mmu_scheme \<Rightarrow> 'a table_mmu_scheme" where
  "x86_destroy_addr_space sp s = s\<lparr>spaces := filter (\<lambda>p. p \<noteq> root_pa sp) (spaces s)\<rparr>"

record x86_vcpu =
  cr0 :: u64
  cr3 :: u64
  cr4 :: u64
  efer :: u64

definition x86_curr_addr_space :: "'a table_mmu_scheme \<Rightarrow> x86_vcpu \<Rightarrow> addr option" where
  "x86_curr_addr_space s cpu = (if cr3 cpu \<in> set (spaces s) then Some (cr3 cpu) else None)"

definition x86_switch_to :: "space \<Rightarrow> x86_vcpu \<Rightarrow> x86_vcpu" where
  "x86_switch_to sp cpu = cpu\<lparr>cr3 := root_pa sp\<rparr>"

definition set_flags :: "bitfield list \<Rightarrow> u64 \<Rightarrow> u64" where
  "set_flags fs w = fold (\<lambda>f. bf_set f 1) fs w"

definition x86_init_vcpu :: "cr_layout \<Rightarrow> x86_vcpu \<Rightarrow> x86_vcpu" where
  "x86_init_vcpu C cpu =
     (let cpu1 = cpu\<lparr>cr4 := set_flags
            [cr4_physical_address_extension C, cr4_os_fxsave_fxrstor_support C,
             cr4_os_xmm_exception_support C, cr4_page_size_extensions C, cr4_page_global_enable C,
             cr4_fsgsbase_enable C, cr4_usermode_instruction_prevention C, cr4_smep_enable C,
             cr4_smap_enable C] (cr4 cpu)\<rparr>;
          cpu2 = cpu1\<lparr>efer := set_flags
            [efer_syscall_enable C, efer_execute_disable_bit_enable C, efer_ia32e_mode_enable C,
             efer_ia32e_mode_active C] (efer cpu1)\<rparr>
      in cpu2\<lparr>cr0 := set_flags
            [cr0_protection_enable C, cr0_monitor_coprocessor C, cr0_extension_type C,
             cr0_numeric_error C, cr0_write_protect C, cr0_alignment_mask C, cr0_paging_enable C]
            (cr0 cpu2)\<rparr>)"

definition x86_alloc ::
  "ia32 \<Rightarrow> u64 \<Rightarrow> mem_prot \<Rightarrow> 'a table_mmu_scheme \<times> space \<Rightarrow>
   emu_error + ('a table_mmu_scheme \<times> space) \<times> addr" where
  "x86_alloc P sz prot = (\<lambda>(s, sp).
     let aligned = align_up 0x1000 sz; (sp1, va) = take_cursor prot aligned sp
     in bind_result (x86_map_virt P va aligned prot (s, sp1)) (\<lambda>st. Inr (st, va)))"

definition x86_map_phys ::
  "ia32 \<Rightarrow> addr \<Rightarrow> u64 \<Rightarrow> mem_prot \<Rightarrow> 'a table_mmu_scheme \<times> space \<Rightarrow>
   emu_error + ('a table_mmu_scheme \<times> space) \<times> addr" where
  "x86_map_phys P pa sz prot = (\<lambda>(s, sp).
     let aligned = align_up 0x1000 sz; (sp1, va) = take_cursor prot aligned sp
     in bind_result (x86_map_virt_phys P va pa aligned prot (s, sp1)) (\<lambda>st. Inr (st, va)))"

text \<open>\<open>addr_space::alloc_phys\<close> of the base class: back the range, then map it.\<close>

definition x86_space_alloc_phys ::
  "ia32 \<Rightarrow> addr \<Rightarrow> u64 \<Rightarrow> mem_prot \<Rightarrow> 'a table_mmu_scheme \<times> space \<Rightarrow>
   emu_error + ('a table_mmu_scheme \<times> space) \<times> addr" where
  "x86_space_alloc_phys P pa sz prot = (\<lambda>(s, sp). x86_map_phys P pa sz prot (back_phys s pa sz, sp))"

section \<open>Reading entries back\<close>

lemma layout_okD:
  assumes "layout_ok l"
  shows "bf_within (f_present l)" "bf_within (f_write l)" "bf_within (f_supervisor l)"
    "bf_within (f_accessed l)" "bf_within (f_dirty l)" "bf_within (f_global l)"
    "bf_within (f_execute_disable l)" "bf_within (f_page_frame_number l)"
    "snd (f_present l) = 1" "snd (f_write l) = 1" "snd (f_supervisor l) = 1"
    "snd (f_accessed l) = 1" "snd (f_dirty l) = 1" "snd (f_global l) = 1"
    "snd (f_execute_disable l) = 1" "snd (f_page_frame_number l) = 36"
  using assms by (simp_all add: layout_ok_def entry_fields_def)

lemma pairwise_disjointD:
  "pairwise_disjoint fs \<Longrightarrow> i < length fs \<Longrightarrow> j < length fs \<Longrightarrow> i \<noteq> j \<Longrightarrow> bf_disjoint (fs ! i) (fs ! j)"
proof (induction fs arbitrary: i j)
  case (Cons f fs)
  then show ?case
    by (cases i; cases j) (auto intro: bf_disjoint_sym)
qed simp

lemma layout_disjoint:
  assumes "layout_ok l" and "i < 8" and "j < 8" and "i \<noteq> j"
  shows "bf_disjoint (entry_fields l ! i) (entry_fields l ! j)"
  using assms by (intro pairwise_disjointD) (simp_all add: layout_ok_def entry_fields_def)

lemma layout_other:
  assumes "layout_ok l" and "i < 8" and "j < 8" and "i \<noteq> j"
  shows "bf_get (entry_fields l ! i) (bf_set (entry_fields l ! j) v w) = bf_get (entry_fields l ! i) w"
  using bf_get_set_other [OF layout_disjoint [OF assms]] .

lemma fields_nth:
  "f_present l = entry_fields l ! 0" "f_write l = entry_fields l ! 1"
  "f_supervisor l = entry_fields l ! 2" "f_accessed l = entry_fields l ! 3"
  "f_dirty l = entry_fields l ! 4" "f_global l = entry_fields l ! 5"
  "f_execute_disable l = entry_fields l ! 6" "f_page_frame_number l = entry_fields l ! 7"
  by (simp_all add: entry_fields_def)

lemma layout_same:
  assumes "layout_ok l"
  shows "j < 7 \<Longrightarrow> bf_get (entry_fields l ! j) (bf_set (entry_fields l ! j) v w) = take_bit 1 v"
    and "bf_get (entry_fields l ! 7) (bf_set (entry_fields l ! 7) v w) = take_bit 36 v"
proof -
  assume "j < 7"
  moreover have "length (entry_fields l) = 8" by (simp add: entry_fields_def)
  ultimately have "entry_fields l ! j \<in> set (butlast (entry_fields l))"
    using nth_mem [of j "butlast (entry_fields l)"] by (simp add: nth_butlast)
  then have "snd (entry_fields l ! j) = 1" "bf_within (entry_fields l ! j)"
    using assms in_set_butlastD by (fastforce simp: layout_ok_def)+
  then show "bf_get (entry_fields l ! j) (bf_set (entry_fields l ! j) v w) = take_bit 1 v"
    by (simp add: bf_get_set_same)
next
  show "bf_get (entry_fields l ! 7) (bf_set (entry_fields l ! 7) v w) = take_bit 36 v"
    using layout_okD(8,16) [OF assms] by (simp add: bf_get_set_same flip: fields_nth)
qed

definition x86_dn :: "ia32 \<Rightarrow> u64 \<Rightarrow> addr option" where
  "x86_dn P e = (if bf_get (f_present (pt_entry_64 P)) e = 0 then None
     else Some (pfn_to_pa (bf_get (f_page_frame_number (pt_entry_64 P)) e)))"

definition x86_dl :: "ia32 \<Rightarrow> u64 \<Rightarrow> addr option" where
  "x86_dl P e = (if bf_get (f_present (pte_64 P)) e = 0 then None
     else Some (pfn_to_pa (bf_get (f_page_frame_number (pte_64 P)) e)))"

lemma x86_translate_walk:
  "x86_translate_virt P sp m v = walk (x86_dn P) (x86_dl P) m (root_pa sp) v"
  by (simp add: x86_translate_virt_def walk_unfold x86_dn_def x86_dl_def Let_def)

lemma pfn_roundtrip: "pfn_to_pa (take_bit 36 (drop_bit 12 pa)) = take_bit 48 (page_align pa)"
  unfolding pfn_to_pa_def page_align_down align_down_shift
  by (rule bit_eqI) (auto simp: bit_simps)

lemma take_bit_1 [simp]: "take_bit (Suc 0) (1 :: u64) = 1" "take_bit (Suc 0) (0 :: u64) = 0"
  by simp_all

lemma x86_dl_leaf:
  assumes "layout_ok (pte_64 P)"
  shows "x86_dl P (x86_leaf (pte_64 P) pa prot) = Some (take_bit 48 (page_align pa))"
  unfolding x86_dl_def x86_leaf_def Let_def fields_nth
  by (simp add: layout_other [OF assms] layout_same [OF assms] pfn_roundtrip)

section \<open>The unit meets the installer's contract\<close>

lemma frame_bound: "phys_ok s \<Longrightarrow> frame_ok s f \<Longrightarrow> unat f < 2 ^ 48"
  by (auto simp: frame_ok_def phys_ok_def)

lemma x86_ensure_cases:
  assumes P: "ia32_ok P" and ok: "phys_ok s" and en: "x86_ensure_table P user s f i = Inr (s', c)"
  shows "(x86_dn P (entry_at (phys s) f i) = Some c \<and>
        (s' = s \<or> (\<exists>e. x86_dn P e = Some c \<and> s' = set_entry f i e s))) \<or>
     (x86_dn P (entry_at (phys s) f i) = None \<and>
        (\<exists>s1 e. alloc_phys_locked s page_size = Inr (s1, c) \<and> x86_dn P e = Some c \<and>
          s' = set_entry f i e s1))"
proof -
  let ?l = "pt_entry_64 P" and ?e = "entry_at (phys s) f i"
  have l: "layout_ok ?l" using P by (simp add: ia32_ok_def)
  note rd = layout_other [OF l] layout_same [OF l]
  show ?thesis
  proof (cases "bf_get (f_present ?l) ?e = 0")
    case False
    have same: "bf_get (f_present ?l) (bf_set (f_supervisor ?l) 1 ?e) = bf_get (f_present ?l) ?e"
      "bf_get (f_page_frame_number ?l) (bf_set (f_supervisor ?l) 1 ?e) = bf_get (f_page_frame_number ?l) ?e"
      unfolding fields_nth by (simp_all add: rd)
    show ?thesis
    proof (cases "user \<and> bf_get (f_supervisor ?l) ?e = 0")
      case True
      then have "c = pfn_to_pa (bf_get (f_page_frame_number ?l) ?e)"
        "s' = set_entry f i (bf_set (f_supervisor ?l) 1 ?e) s"
        using False en same by (simp_all add: x86_ensure_table_def Let_def)
      with False same show ?thesis unfolding x86_dn_def
        by (intro disjI1 conjI disjI2 exI [of _ "bf_set (f_supervisor ?l) 1 ?e"]) simp_all
    next
      case no: False
      then have "c = pfn_to_pa (bf_get (f_page_frame_number ?l) ?e) \<and> s' = s"
        using False en by (cases user) (auto simp: x86_ensure_table_def Let_def)
      with False show ?thesis by (simp add: x86_dn_def)
    qed
  next
    case True
    with en obtain s1 where al: "alloc_phys_locked s page_size = Inr (s1, c)"
      by (auto simp: x86_ensure_table_def Let_def split: sum.splits)
    have "frame_ok s1 c" "phys_ok s1"
      using fresh_page(1) [OF al ok, of 0] phys_ok_alloc [OF al ok]
      by (simp_all add: size_align_aligned)
    then have c: "take_bit 48 (page_align c) = c"
      by (intro take_bit_frame frame_okD(1) frame_bound)
    define e where "e = bf_set (f_page_frame_number ?l) (drop_bit 12 c)
      (bf_set (f_accessed ?l) 1 (bf_set (f_supervisor ?l) (if user then 1 else 0)
        (bf_set (f_write ?l) 1 (bf_set (f_present ?l) 1 0))))"
    have "x86_dn P e = Some c"
      unfolding x86_dn_def e_def fields_nth by (simp add: rd pfn_roundtrip c)
    moreover have "s' = set_entry f i e s1"
      using en True al by (simp add: x86_ensure_table_def Let_def e_def)
    moreover have "x86_dn P ?e = None" using True by (simp add: x86_dn_def)
    ultimately show ?thesis using al by blast
  qed
qed

text \<open>What the code relies on of the external header, as an interface.\<close>

locale ia32_header =
  fixes P :: ia32
  assumes header_ok: "ia32_ok P"

sublocale ia32_header \<subseteq> table_mapper "x86_dn P" "x86_dl P" "x86_ensure_table P user" for user
proof
  show "x86_dn P 0 = None" "x86_dl P 0 = None" by (simp_all add: x86_dn_def x86_dl_def bf_get_zero)
next
  fix s :: "'s mmu_base_scheme" and L f lb i s' c
  assume "tables_ok (x86_dn P) s L" and en: "x86_ensure_table P user s f i = Inr (s', c)"
  then have "phys_ok s" by (simp add: tables_ok_def)
  from x86_ensure_cases [OF header_ok this en]
  show "(x86_dn P (entry_at (phys s) f i) = Some c \<and>
        (s' = s \<or> (\<exists>e. x86_dn P e = Some c \<and> s' = set_entry f i e s))) \<or>
     (x86_dn P (entry_at (phys s) f i) = None \<and>
        (\<exists>s1 e. alloc_phys_locked s page_size = Inr (s1, c) \<and> x86_dn P e = Some c \<and>
          s' = set_entry f i e s1))" .
qed

text \<open>The layout the processor manuals document meets it.\<close>

definition intel_entry :: entry_layout where
  "intel_entry = \<lparr>f_present = (0, 1), f_write = (1, 1), f_supervisor = (2, 1), f_accessed = (5, 1),
     f_dirty = (6, 1), f_global = (8, 1), f_execute_disable = (63, 1), f_page_frame_number = (12, 36)\<rparr>"

definition intel_ia32 :: ia32 where
  "intel_ia32 = \<lparr>pt_entry_64 = intel_entry, pte_64 = intel_entry\<rparr>"

lemma intel_ok: "ia32_ok intel_ia32"
  by (simp add: ia32_ok_def intel_ia32_def layout_ok_def entry_fields_def intel_entry_def
      bf_within_def bf_disjoint_def)

interpretation intel: ia32_header intel_ia32
  by unfold_locales (rule intel_ok)

context ia32_header
begin

lemma map_page_remaps:
  assumes ok: "tables_ok (x86_dn P) s L" and root: "L (root_pa sp) = Some (3, root_pa sp, 0)"
    and mp: "x86_map_page P va pa prot (s, sp) = Inr (s', sp')"
  shows "sp' = sp\<lparr>shadow := umap_set (page_align va) pa (shadow sp)\<rparr> \<and>
    (\<exists>L'. remaps (x86_dn P) (x86_dl P) s L s' L' (root_pa sp)
       [vpn (page_align va) \<mapsto> Some (take_bit 48 (page_align pa))])"
proof -
  let ?v = "page_align va" and ?u = "\<not> has_prot prot prot_supervisor"
  from mp obtain s1 pdpt s2 pd s3 pt where
    e: "x86_ensure_table P ?u s (root_pa sp) (index_of 3 ?v) = Inr (s1, pdpt)"
      "x86_ensure_table P ?u s1 pdpt (index_of 2 ?v) = Inr (s2, pd)"
      "x86_ensure_table P ?u s2 pd (index_of 1 ?v) = Inr (s3, pt)"
    and sp': "sp' = sp\<lparr>shadow := umap_set ?v pa (shadow sp)\<rparr>"
    and s': "phys s' = phys (set_entry pt (index_of 0 ?v) (x86_leaf (pte_64 P) pa prot) s3)"
      "phys_next s' = phys_next s3"
    by (auto simp: x86_map_page_def Let_def note_page_def split: sum.splits)
  have "x86_dl P (x86_leaf (pte_64 P) pa prot) = Some (take_bit 48 (page_align pa))"
    using header_ok by (intro x86_dl_leaf) (simp add: ia32_ok_def)
  with map_levels [OF ok root e, of "x86_leaf (pte_64 P) pa prot"] s' sp' show ?thesis
    by (metis remaps_noted set_entry_simps(1))
qed

lemma unmap_page_remaps:
  assumes ok: "tables_ok (x86_dn P) s L" and root: "L (root_pa sp) = Some (3, root_pa sp, 0)"
    and un: "x86_unmap_page P va (s, sp) = Inr (s', sp')"
  shows "sp' = sp\<lparr>shadow := shadow sp'\<rparr> \<and>
    (\<forall>k. umap_find k (shadow sp') = (if k = page_align va then None else umap_find k (shadow sp))) \<and>
    (\<exists>L'. remaps (x86_dn P) (x86_dl P) s L s' L' (root_pa sp) [vpn (page_align va) \<mapsto> None])"
proof -
  let ?v = "page_align va" and ?dn = "x86_dn P" and ?dl = "x86_dl P"
  have sh: "sp' = (case umap_find ?v (shadow sp) of None \<Rightarrow> sp
      | Some _ \<Rightarrow> sp\<lparr>shadow := umap_erase ?v (shadow sp)\<rparr>)"
    using un by (auto simp: x86_unmap_page_def Let_def split: option.splits if_splits)
  then have sp': "sp' = sp\<lparr>shadow := shadow sp'\<rparr>"
    "umap_find k (shadow sp') = (if k = ?v then None else umap_find k (shadow sp))" for k
    by (auto simp: umap_find_erase split: option.splits)
  have ph: "phys s' = (case reach ?dn (phys s) 3 (root_pa sp) ?v of None \<Rightarrow> phys s
      | Some t \<Rightarrow> phys (set_entry t (index_of 0 ?v) 0 s))" "phys_next s' = phys_next s"
    using un by (auto simp: x86_unmap_page_def Let_def note_page_def set_entry_def reach_unfold x86_dn_def
        split: option.splits if_splits)
  have "\<exists>L'. remaps ?dn ?dl s L s' L' (root_pa sp) [vpn ?v \<mapsto> None]"
  proof (cases "reach ?dn (phys s) 3 (root_pa sp) ?v")
    case None
    then have "walk ?dn ?dl (phys s) (root_pa sp) ?v = None" by (simp add: walk_from_def)
    from remaps_same [OF ok this] None ph show ?thesis by (auto intro: remaps_noted)
  next
    case (Some t)
    from remaps_leaf [OF ok root Some, of ?dl 0]
    have "remaps ?dn ?dl s L (set_entry t (index_of 0 ?v) 0 s) L (root_pa sp) [vpn ?v \<mapsto> None]"
      by (simp add: dl_zero)
    from remaps_noted [OF this, of s'] ph Some show ?thesis by auto
  qed
  with sp' show ?thesis by blast
qed

lemma reprotect_reads:
  fixes pte prot
  defines "e \<equiv> x86_reprotect (pte_64 P) prot pte"
  shows "bf_get (f_present (pte_64 P)) e = 1"
    and "bf_get (f_page_frame_number (pte_64 P)) e = bf_get (f_page_frame_number (pte_64 P)) pte"
    and "bf_get (f_accessed (pte_64 P)) e = bf_get (f_accessed (pte_64 P)) pte"
    and "bf_get (f_dirty (pte_64 P)) e = bf_get (f_dirty (pte_64 P)) pte"
    and "bf_get (f_write (pte_64 P)) e = (if has_prot prot prot_write then 1 else 0)"
    and "bf_get (f_execute_disable (pte_64 P)) e = (if has_prot prot prot_exec then 0 else 1)"
    and "bf_get (f_supervisor (pte_64 P)) e = bf_get (f_supervisor (pte_64 P)) pte"
    and "bf_get (f_global (pte_64 P)) e = (if bf_get (f_supervisor (pte_64 P)) pte = 0 then 1 else 0)"
proof -
  let ?l = "pte_64 P"
  have l: "layout_ok ?l" using header_ok by (simp add: ia32_ok_def)
  note rd = layout_other [OF l] layout_same [OF l]
  have one: "take_bit 1 (bf_get f pte) = bf_get f pte" if "snd f = 1" for f
    unfolding bf_get_def that by (simp only: take_bit_take_bit min.idem)
  have bit: "bf_get (f_supervisor ?l) pte = 0 \<or> bf_get (f_supervisor ?l) pte = 1"
    unfolding bf_get_def layout_okD(11) [OF l] take_bit_eq_mod using parity_cases [of "drop_bit (fst (f_supervisor ?l)) pte"]
    by auto
  note w = layout_okD(12,13,16) [OF l]
  show "bf_get (f_page_frame_number ?l) e = bf_get (f_page_frame_number ?l) pte"
    using w(3) unfolding e_def x86_reprotect_def Let_def fields_nth
    by (auto simp: rd bf_get_zero) (simp_all add: bf_get_def)
  show "bf_get (f_accessed ?l) e = bf_get (f_accessed ?l) pte"
    "bf_get (f_dirty ?l) e = bf_get (f_dirty ?l) pte"
    using one [OF w(1)] one [OF w(2)] unfolding e_def x86_reprotect_def Let_def fields_nth
    by (auto simp: rd bf_get_zero)
  show "bf_get (f_present ?l) e = 1"
    "bf_get (f_write ?l) e = (if has_prot prot prot_write then 1 else 0)"
    "bf_get (f_execute_disable ?l) e = (if has_prot prot prot_exec then 0 else 1)"
    "bf_get (f_supervisor ?l) e = bf_get (f_supervisor ?l) pte"
    "bf_get (f_global ?l) e = (if bf_get (f_supervisor ?l) pte = 0 then 1 else 0)"
    using bit unfolding e_def x86_reprotect_def Let_def fields_nth
    by (auto simp: rd bf_get_zero)
qed

lemma prot_page_silent:
  assumes ok: "tables_ok (x86_dn P) s L" and root: "L (root_pa sp) = Some (3, root_pa sp, 0)"
    and pr: "x86_prot_page P prot v (s, sp) = Inr (s', sp')"
  shows "sp' = sp \<and> silent (x86_dn P) (x86_dl P) s L s' L"
proof -
  let ?dn = "x86_dn P" and ?dl = "x86_dl P"
  have sp': "sp' = sp" using pr by (auto simp: x86_prot_page_def Let_def split: if_splits)
  show ?thesis
  proof (cases "reach ?dn (phys s) 3 (root_pa sp) v")
    case None
    then have "s' = s"
      using pr by (auto simp: x86_prot_page_def Let_def reach_unfold x86_dn_def split: if_splits)
    then show ?thesis using sp' silent_refl [OF ok] by simp
  next
    case (Some t)
    let ?e = "entry_at (phys s) t (index_of 0 v)"
    have s': "s' = (if bf_get (f_present (pte_64 P)) ?e = 0 then s
        else set_entry t (index_of 0 v) (x86_reprotect (pte_64 P) prot ?e) s)"
      using pr Some by (auto simp: x86_prot_page_def Let_def reach_unfold x86_dn_def split: if_splits)
    note tl = reach_root_label [OF ok root Some]
    have "silent ?dn ?dl s L (set_entry t (index_of 0 v) (x86_reprotect (pte_64 P) prot ?e) s) L"
      if "bf_get (f_present (pte_64 P)) ?e \<noteq> 0"
      using that by (intro silent_set_leaf [OF ok tl index_of_lt]) (simp add: x86_dl_def reprotect_reads)
    then show ?thesis using sp' s' silent_refl [OF ok] by simp
  qed
qed

lemma unmap_run_remaps:
  assumes ok: "tables_ok (x86_dn P) s L" and root: "L (root_pa sp) = Some (3, root_pa sp, 0)"
    and run: "for_pages (\<lambda>off. x86_unmap_page P (start + off)) n off (s, sp) = Inr (s', sp')"
  shows "same_space sp sp' \<and>
    (\<exists>L'. remaps (x86_dn P) (x86_dl P) s L s' L' (root_pa sp)
      (page_updates (page_at start (\<lambda>off. None)) n off))"
proof (rule for_pages_remaps [OF _ ok root run])
  fix off :: u64 and s :: "'a table_mmu_scheme" and sp s' sp' L
  assume "tables_ok (x86_dn P) s L" "L (root_pa sp) = Some (3, root_pa sp, 0)"
    "x86_unmap_page P (start + off) (s, sp) = Inr (s', sp')"
  from unmap_page_remaps [OF this] show "same_space sp sp' \<and>
      (\<exists>L'. remaps (x86_dn P) (x86_dl P) s L s' L' (root_pa sp) (page_at start (\<lambda>off. None) off))"
    unfolding same_space_def page_at_def by (metis space.select_convs(1,3,4) space.surjective space.update_convs(2) vpn_page_align)
qed

end

section \<open>Enough memory is enough\<close>

lemma x86_ensure_total:
  assumes "phys_ok s" and "4096 \<le> mem_left s"
  shows "\<exists>s' c. x86_ensure_table P user s f i = Inr (s', c) \<and> phys_ok s' \<and> mem_left s \<le> mem_left s' + 4096"
  using alloc_page_total [OF assms] assms(1)
  by (auto simp: x86_ensure_table_def Let_def mem_left_def)

lemma x86_map_page_total:
  assumes "phys_ok (fst st)" and "12288 \<le> mem_left (fst st)"
  shows "\<exists>st'. x86_map_page P va pa prot st = Inr st' \<and> phys_ok (fst st') \<and>
    mem_left (fst st) \<le> mem_left (fst st') + 12288"
proof -
  obtain s sp where st: "st = (s, sp)" by (cases st)
  let ?v = "page_align va" and ?u = "\<not> has_prot prot prot_supervisor"
  from x86_ensure_total [of s] assms st obtain s1 t2 where
    a: "x86_ensure_table P ?u s (root_pa sp) (index_of 3 ?v) = Inr (s1, t2)" "phys_ok s1"
      "mem_left s \<le> mem_left s1 + 4096" by fastforce
  from x86_ensure_total [of s1] a assms st obtain s2 t1 where
    b: "x86_ensure_table P ?u s1 t2 (index_of 2 ?v) = Inr (s2, t1)" "phys_ok s2"
      "mem_left s1 \<le> mem_left s2 + 4096" by fastforce
  from x86_ensure_total [of s2] a b assms st obtain s3 t0 where
    c: "x86_ensure_table P ?u s2 t1 (index_of 1 ?v) = Inr (s3, t0)" "phys_ok s3"
      "mem_left s2 \<le> mem_left s3 + 4096" by fastforce
  have note_ok: "phys_ok (note_page nt t) = phys_ok t" "mem_left (note_page nt t) = mem_left t"
    for nt and t :: "'a table_mmu_scheme" by (simp_all add: note_page_def phys_ok_def mem_left_def)
  show ?thesis
    using a b c by (simp add: st x86_map_page_def Let_def note_ok) (simp add: mem_left_def)
qed

text \<open>The last-level entry of a page, where the tables go down that far.\<close>

definition x86_pte :: "ia32 \<Rightarrow> phys_mem \<Rightarrow> addr \<Rightarrow> addr \<Rightarrow> u64 option" where
  "x86_pte P m root va = map_option (\<lambda>t. entry_at m t (index_of 0 va)) (reach (x86_dn P) m 3 root va)"

definition reprotected :: "ia32 \<Rightarrow> mem_prot \<Rightarrow> u64 \<Rightarrow> u64" where
  "reprotected P prot e = (if bf_get (f_present (pte_64 P)) e = 0 then e else x86_reprotect (pte_64 P) prot e)"

context ia32_header
begin

lemma prot_page_pte:
  assumes ok: "tables_ok (x86_dn P) s L" and root: "L (root_pa sp) = Some (3, root_pa sp, 0)"
    and pr: "x86_prot_page P prot v (s, sp) = Inr (s', sp')"
  shows "x86_pte P (phys s') (root_pa sp) va =
    (if vpn va = vpn v then map_option (reprotected P prot) (x86_pte P (phys s) (root_pa sp) va)
     else x86_pte P (phys s) (root_pa sp) va)"
proof (cases "reach (x86_dn P) (phys s) 3 (root_pa sp) v")
  case None
  then have "s' = s"
    using pr by (auto simp: x86_prot_page_def Let_def reach_unfold x86_dn_def split: if_splits)
  moreover have "x86_pte P (phys s) (root_pa sp) va = None" if "vpn va = vpn v"
    using None reach_vpn_cong [OF that] by (simp add: x86_pte_def)
  ultimately show ?thesis by simp
next
  case (Some t)
  let ?e = "entry_at (phys s) t (index_of 0 v)"
  have s': "s' = (if bf_get (f_present (pte_64 P)) ?e = 0 then s
      else set_entry t (index_of 0 v) (x86_reprotect (pte_64 P) prot ?e) s)"
    using pr Some by (auto simp: x86_prot_page_def Let_def reach_unfold x86_dn_def split: if_splits)
  have pok: "phys_ok s" using ok by (simp add: tables_ok_def)
  note tl = reach_root_label [OF ok root Some]
  note tok = tables_okD(1) [OF ok tl]
  have r: "reach (x86_dn P) (phys s') 3 (root_pa sp) va = reach (x86_dn P) (phys s) 3 (root_pa sp) va" for va
    using set_leaf(2) [OF ok tl index_of_lt root] by (simp add: s')
  have ent: "entry_at (phys s') g j = (if g = t \<and> j = index_of 0 v then reprotected P prot ?e else entry_at (phys s) g j)"
    if "frame_ok s g" "j < 512" for g j
    using entry_at_set_entry [OF pok tok that(1) index_of_lt that(2)] by (auto simp: s' reprotected_def)
  show ?thesis
  proof (cases "reach (x86_dn P) (phys s) 3 (root_pa sp) va")
    case None
    then show ?thesis using r by (simp add: x86_pte_def)
  next
    case (Some u)
    note ul = reach_root_label [OF ok root Some]
    have "u = t" if "vpn va = vpn v"
      using Some \<open>reach (x86_dn P) (phys s) 3 (root_pa sp) v = Some t\<close> reach_vpn_cong [OF that]
      by simp
    moreover have "vpn va = vpn v" if "u = t" "index_of 0 va = index_of 0 v"
      using that ul tl by (simp add: vpn_index_eq)
    moreover have "index_of 0 va = index_of 0 v" if "vpn va = vpn v" using that by (rule index_vpn_cong) simp
    ultimately show ?thesis
      using ent [OF tables_okD(1) [OF ok ul] index_of_lt] r Some
      by (cases "vpn va = vpn v") (auto simp: x86_pte_def)
  qed
qed

lemma prot_run:
  assumes n: "n \<le> 2 ^ 36"
  shows "tables_ok (x86_dn P) s L \<Longrightarrow> L (root_pa sp) = Some (3, root_pa sp, 0) \<Longrightarrow>
    for_pages (\<lambda>off. x86_prot_page P prot (start + off)) n off (s, sp) = Inr (s', sp') \<Longrightarrow>
    sp' = sp \<and> silent (x86_dn P) (x86_dl P) s L s' L \<and>
    (\<forall>va. x86_pte P (phys s') (root_pa sp) va =
       (if \<exists>k<n. vpn va = vpn (start + off + of_nat (k * 4096))
        then map_option (reprotected P prot) (x86_pte P (phys s) (root_pa sp) va)
        else x86_pte P (phys s) (root_pa sp) va))"
  using n
proof (induction n arbitrary: s off)
  case 0
  then show ?case using silent_refl by auto
next
  case (Suc n)
  from Suc.prems(3) obtain s1 sp1 where a0: "x86_prot_page P prot (start + off) (s, sp) = Inr (s1, sp1)"
    and b0: "for_pages (\<lambda>off. x86_prot_page P prot (start + off)) n (off + page_size) (s1, sp1) = Inr (s', sp')"
    by (auto split: sum.splits)
  have "sp1 = sp" using prot_page_silent [OF Suc.prems(1,2) a0] by blast
  note a = a0 [unfolded this] and b = b0 [unfolded this]
  have sil: "silent (x86_dn P) (x86_dl P) s L s1 L" using prot_page_silent [OF Suc.prems(1,2) a] by blast
  note one = prot_page_pte [OF Suc.prems(1,2) a]
  from Suc.IH [OF silentD(1) [OF sil] Suc.prems(2) b] Suc.prems(4)
  have rest: "sp' = sp" "silent (x86_dn P) (x86_dl P) s1 L s' L"
    "\<And>va. x86_pte P (phys s') (root_pa sp) va =
       (if \<exists>k<n. vpn va = vpn (start + (off + page_size) + of_nat (k * 4096))
        then map_option (reprotected P prot) (x86_pte P (phys s1) (root_pa sp) va)
        else x86_pte P (phys s1) (root_pa sp) va)" by auto
  have shift: "start + (off + page_size) + of_nat (k * 4096) = start + off + of_nat (Suc k * 4096)" for k
    by (simp add: page_size_def algebra_simps)
  have no: "vpn (start + off) \<noteq> vpn (start + off + of_nat (Suc k * 4096))" if "k < n" for k
    using vpn_add_eq_iff [of 0 "Suc k" "start + off"] that Suc.prems(4) by simp
  have ex: "(\<exists>k<Suc n. vpn va = vpn (start + off + of_nat (k * 4096))) \<longleftrightarrow>
      vpn va = vpn (start + off) \<or> (\<exists>k<n. vpn va = vpn (start + off + of_nat (Suc k * 4096)))" for va
    by (simp add: Ex_less_Suc2 del: of_nat_mult)
  show ?case
    unfolding ex using rest(1) silent_trans [OF sil rest(2)] rest(3) one no
    by (auto simp del: of_nat_mult simp: shift)
qed

end

text \<open>A written ordinary range reads back, and the write touches no table.\<close>

lemma x86_write_read_plain:
  assumes ds: "data_space (x86_dn P) (x86_dl P) s L (root_pa sp) fr va (length bs) (x86_translate_virt P sp)"
  shows "\<exists>s'. x86_write_virt P s sp va bs = Inr s' \<and> tables_ok (x86_dn P) s' L \<and>
    (\<forall>buf. length buf = length bs \<longrightarrow> x86_read_virt P s' sp va buf = Inr bs) \<and>
    (\<forall>r p. L r = Some (3, r, 0) \<longrightarrow>
       walk (x86_dn P) (x86_dl P) (phys s') r p = walk (x86_dn P) (x86_dl P) (phys s) r p)"
proof -
  from data_space.space_write_read [OF ds refl, of "shadow sp"] obtain m' where
    "x86_copy_virt P sp True va (phys s) bs = Inr (m', bs)" "data_only (x86_dn P) (x86_dl P) s L m'"
    "\<forall>buf. length buf = length bs \<longrightarrow> x86_copy_virt P sp False va m' buf = Inr (m', bs)"
    by (auto simp: x86_copy_virt_def)
  then show ?thesis
    by (auto simp: x86_write_virt_def x86_read_virt_def data_only_def)
qed

text \<open>Unmapping and reprotecting cannot fail.\<close>

lemma x86_unmap_virt_total: "\<exists>st'. x86_unmap_virt P va sz st = Inr st'"
  unfolding x86_unmap_virt_def page_loop_def Let_def
  by (rule for_pages_never_fails) (simp add: x86_unmap_page_def Let_def split: prod.split)

lemma x86_prot_virt_total: "\<exists>st'. x86_prot_virt P va sz prot st = Inr st'"
  unfolding x86_prot_virt_def page_loop_def Let_def
  by (rule for_pages_never_fails) (simp add: x86_prot_page_def Let_def split: prod.split)

section \<open>The unit meets the page mapper's contract\<close>

sublocale ia32_header \<subseteq> maps: page_mapper "x86_dn P" "x86_dl P" "\<lambda>va pa. x86_map_page P va pa prot" for prot
proof
  fix s :: "'s table_mmu_scheme" and L sp va pa s' sp'
  assume "tables_ok (x86_dn P) s L" "L (root_pa sp) = Some (3, root_pa sp, 0)"
    "x86_map_page P va pa prot (s, sp) = Inr (s', sp')"
  from map_page_remaps [OF this] show "same_space sp sp' \<and>
      (\<exists>L'. remaps (x86_dn P) (x86_dl P) s L s' L' (root_pa sp) [vpn va \<mapsto> Some (take_bit 48 (page_align pa))])"
    by (auto simp: same_space_def)
qed (rule x86_map_page_total)

context ia32_header
begin

lemma page_mapper_x86: "page_mapper (x86_dn P) (x86_dl P) (\<lambda>va pa. x86_map_page P va pa prot)"
  by (rule maps.page_mapper_axioms)

end

lemma x86_alloc_by: "x86_alloc P sz prot = alloc_by (\<lambda>va pa. x86_map_page P va pa prot) prot sz"
  by (simp add: x86_alloc_def alloc_by_def map_fresh_def x86_map_virt_def fun_eq_iff)

lemma x86_create_by: "x86_create_addr_space s = create_space s"
  by (simp add: x86_create_addr_space_def create_space_def)

text \<open>The pages a first allocation maps, the space the witnesses below work in.\<close>

lemma boot_alloc:
  "\<exists>s sp s' sp'. x86_create_addr_space boot_mmu = Inr (s, sp) \<and>
     spaces_ok (x86_dn intel_ia32) s {root_pa sp} \<and> phys_ok s \<and> mem_left s = 0xFFFFF000 \<and>
     kernel_root s = root_pa sp \<and>
     x86_alloc intel_ia32 0x1800 prot_rw (s, sp) = Inr ((s', sp'), 0x10000) \<and>
     spaces_ok (x86_dn intel_ia32) s' {root_pa sp'}"
proof -
  obtain s sp where b: "create_space boot_mmu = Inr (s, sp)" "phys_ok s" "mem_left s = 0xFFFFF000"
    "spaces_ok (x86_dn intel_ia32) s {root_pa sp}" "sp = new_space (root_pa sp)" "kernel_root s = root_pa sp"
    using intel.boot_space by blast
  have un: "user_next sp = 0x10000" using b(5) by (metis new_space_def space.select_convs(3))
  obtain s' sp' va where al: "x86_alloc intel_ia32 0x1800 prot_rw (s, sp) = Inr ((s', sp'), va)"
    using intel.maps.alloc_space_succeeds [OF b(2), of "0x1800" prot_rw prot_rw sp] b(3)
    unfolding x86_alloc_by by (auto simp: boot_simps)
  have va: "va = 0x10000"
    using al un by (auto simp: x86_alloc_def take_cursor_def boot_simps split: sum.splits)
  have "spaces_ok (x86_dn intel_ia32) s' {root_pa sp} \<and> root_pa sp' = root_pa sp"
    using intel.maps.alloc_space [OF b(4) _ al [unfolded x86_alloc_by] _ refl refl] va by (simp add: boot_simps)
  with al b va show ?thesis by (auto simp: x86_create_by)
qed

definition boot_run :: "table_mmu \<times> space" where
  "boot_run = (case x86_create_addr_space boot_mmu of
      Inl _ \<Rightarrow> (boot_mmu, new_space 0)
    | Inr st \<Rightarrow> (case x86_alloc intel_ia32 0x1800 prot_rw st of Inl _ \<Rightarrow> st | Inr (st', _) \<Rightarrow> st'))"

lemma boot_run_plain:
  "\<exists>L a. data_space (x86_dn intel_ia32) (x86_dl intel_ia32) (fst boot_run) L (root_pa (snd boot_run))
     (\<lambda>p. a + (p - 0x10000)) 0x10000 0x2000 (x86_translate_virt intel_ia32 (snd boot_run))"
proof -
  obtain s sp s' sp' where b: "x86_create_addr_space boot_mmu = Inr (s, sp)"
    "spaces_ok (x86_dn intel_ia32) s {root_pa sp}"
    "x86_alloc intel_ia32 0x1800 prot_rw (s, sp) = Inr ((s', sp'), 0x10000)"
    using boot_alloc by blast
  then obtain L where L: "tables_ok (x86_dn intel_ia32) s L" "L (root_pa sp) = Some (3, root_pa sp, 0)"
    by (auto simp: spaces_ok_def)
  from intel.maps.alloc_plain [OF L b(3) [unfolded x86_alloc_by]] obtain L' where
    ok: "tables_ok (x86_dn intel_ia32) s' L'" "L \<subseteq>\<^sub>m L'" "root_pa sp' = root_pa sp"
    and pl: "\<forall>off len. off + len \<le> unat (size_align 0x1800) \<longrightarrow> plain_pages (x86_dn intel_ia32) (x86_dl intel_ia32) s' L'
      (root_pa sp') (\<lambda>p. phys_next s + (p - 0x10000)) (0x10000 + of_nat off) len \<and>
      unat (0x10000 + of_nat off :: u64) + len \<le> 2 ^ 64"
    by (auto simp: boot_simps)
  from pl [rule_format, of 0 "0x2000"] ok map_leD [OF ok(2) L(2)]
  have "data_space (x86_dn intel_ia32) (x86_dl intel_ia32) s' L'
      (root_pa sp') (\<lambda>p. phys_next s + (p - 0x10000)) 0x10000 0x2000 (x86_translate_virt intel_ia32 sp')"
    by (intro data_space.intro) (simp_all add: boot_simps x86_translate_walk)
  then show ?thesis using b by (auto simp: boot_run_def)
qed

definition boot_tables :: "labelling \<times> addr" where
  "boot_tables = (SOME x. data_space (x86_dn intel_ia32) (x86_dl intel_ia32) (fst boot_run) (fst x)
     (root_pa (snd boot_run)) (\<lambda>p. snd x + (p - 0x10000)) 0x10000 0x2000 (x86_translate_virt intel_ia32 (snd boot_run)))"

interpretation boot: data_space "x86_dn intel_ia32" "x86_dl intel_ia32" "fst boot_run" "fst boot_tables"
  "root_pa (snd boot_run)" "\<lambda>p. snd boot_tables + (p - 0x10000)" "0x10000" "0x2000"
  "x86_translate_virt intel_ia32 (snd boot_run)"
proof -
  have "\<exists>x. data_space (x86_dn intel_ia32) (x86_dl intel_ia32) (fst boot_run) (fst x)
      (root_pa (snd boot_run)) (\<lambda>p. snd x + (p - 0x10000)) 0x10000 0x2000 (x86_translate_virt intel_ia32 (snd boot_run))"
    using boot_run_plain by auto
  from someI_ex [OF this] show "data_space (x86_dn intel_ia32) (x86_dl intel_ia32) (fst boot_run) (fst boot_tables)
      (root_pa (snd boot_run)) (\<lambda>p. snd boot_tables + (p - 0x10000)) 0x10000 0x2000 (x86_translate_virt intel_ia32 (snd boot_run))"
    unfolding boot_tables_def .
qed

section \<open>Properties\<close>



text \<open>
  An allocation in an x86 space moves the cursor of its half by the rounded size and maps
  the range from the old cursor onto the frames of one fresh run, in order. Every page of it
  reads as zeroes, and no translation outside the range changes, in this space or another.
\<close>

theorem x86_alloc_correct:
  assumes "ia32_ok P" and "spaces_ok (x86_dn P) s R" and "root_pa sp \<in> R"
    and "x86_alloc P sz prot (s, sp) = Inr ((s', sp'), va)" and "4096 dvd unat va"
    and "n = unat (size_align sz) div 4096" and "a = phys_next s"
  shows "spaces_ok (x86_dn P) s' R \<and> root_pa sp' = root_pa sp \<and>
    (if has_prot prot prot_supervisor
     then va = kernel_next sp \<and> kernel_next sp' = va + size_align sz \<and> user_next sp' = user_next sp
     else va = user_next sp \<and> user_next sp' = va + size_align sz \<and> kernel_next sp' = kernel_next sp) \<and>
    (\<forall>k<n. x86_translate_virt P sp' (phys s') (va + of_nat (k * 4096)) = Some (a + of_nat (k * 4096)) \<and>
       read_phys_mem (phys s') (a + of_nat (k * 4096)) (replicate 4096 0xFF) = replicate 4096 0) \<and>
    (\<forall>sp2 va'. root_pa sp2 \<in> R \<and>
       ((\<forall>k<n. vpn va' \<noteq> vpn (va + of_nat (k * 4096))) \<or>
        root_pa sp2 \<noteq> root_pa sp \<and> index_of 3 va' < 256) \<longrightarrow>
       x86_translate_virt P sp2 (phys s') va' = x86_translate_virt P sp2 (phys s) va')"
  using page_mapper.alloc_space [OF ia32_header.page_mapper_x86 [OF ia32_header.intro [OF assms(1)]]
      assms(2,3) assms(4) [unfolded x86_alloc_by] assms(5-7)]
  by (simp add: x86_translate_walk)

theorem x86_alloc_correct_witness:
  "\<exists>s sp s' sp'. x86_create_addr_space boot_mmu = Inr (s, sp) \<and>
     x86_alloc intel_ia32 0x1800 prot_rw (s, sp) = Inr ((s', sp'), 0x10000) \<and>
     user_next sp' = 0x12000 \<and>
     x86_translate_virt intel_ia32 sp' (phys s') 0x11000 = Some (phys_next s + 0x1000)"
proof -
  obtain s sp s' sp' where b: "x86_create_addr_space boot_mmu = Inr (s, sp)"
    "spaces_ok (x86_dn intel_ia32) s {root_pa sp}"
    and al: "x86_alloc intel_ia32 0x1800 prot_rw (s, sp) = Inr ((s', sp'), 0x10000)"
    using boot_alloc by blast
  have "x86_translate_virt intel_ia32 sp' (phys s') (0x10000 + of_nat (1 * 4096)) = Some (phys_next s + of_nat (1 * 4096)) \<and>
      user_next sp' = 0x10000 + 0x2000"
    using x86_alloc_correct [OF intel_ok b(2) _ al _ refl refl]
    by (auto simp: boot_simps dest: spec [of _ "1 :: nat"])
  then show ?thesis using b(1) al by auto
qed

text \<open>
  C5. What is written to an allocated x86 range is what is read back, wherever the access
  starts in it and however many pages it spans; the write disturbs no translation.
\<close>

theorem x86_write_read_virt:
  assumes "ia32_ok P" and "spaces_ok (x86_dn P) s R" and "root_pa sp \<in> R"
    and "x86_alloc P sz prot (s, sp) = Inr ((s', sp'), va)" and "4096 dvd unat va"
    and "unat va + unat (size_align sz) \<le> 2 ^ 64" and "off + length bs \<le> unat (size_align sz)"
  shows "\<exists>s''. x86_write_virt P s' sp' (va + of_nat off) bs = Inr s'' \<and> spaces_ok (x86_dn P) s'' R \<and>
    x86_read_virt P s'' sp' (va + of_nat off) (replicate (length bs) 0) = Inr bs \<and>
    (\<forall>sp2 va'. root_pa sp2 \<in> R \<longrightarrow>
       x86_translate_virt P sp2 (phys s'') va' = x86_translate_virt P sp2 (phys s') va')"
proof -
  obtain L where ok: "tables_ok (x86_dn P) s L" and R: "\<And>r. r \<in> R \<Longrightarrow> L r = Some (3, r, 0)"
    using assms(2) by (rule spaces_okE) blast
  from page_mapper.alloc_plain [OF ia32_header.page_mapper_x86 [OF ia32_header.intro [OF assms(1)]]
      ok R [OF assms(3)] assms(4) [unfolded x86_alloc_by] assms(5,6)] assms(7)
  obtain L' where sub: "L \<subseteq>\<^sub>m L'" and ok': "tables_ok (x86_dn P) s' L'" and rt: "root_pa sp' = root_pa sp"
    and pl: "plain_pages (x86_dn P) (x86_dl P) s' L' (root_pa sp') (\<lambda>p. phys_next s + (p - va)) (va + of_nat off) (length bs)"
      "unat (va + of_nat off) + length bs \<le> 2 ^ 64" by blast
  have R': "L' q = Some (3, q, 0)" if "q \<in> R" for q using map_leD [OF sub R [OF that]] .
  have ds: "data_space (x86_dn P) (x86_dl P) s' L' (root_pa sp') (\<lambda>p. phys_next s + (p - va)) (va + of_nat off)
      (length bs) (x86_translate_virt P sp')"
    using ok' R' [OF assms(3)] rt pl by (intro data_space.intro) (simp_all add: x86_translate_walk)
  from R' x86_write_read_plain [OF ds] show ?thesis
    unfolding spaces_ok_def x86_translate_walk by (metis length_replicate)
qed

theorem x86_write_read_virt_witness:
  "\<exists>s sp s' sp' s''. x86_create_addr_space boot_mmu = Inr (s, sp) \<and>
     x86_alloc intel_ia32 0x1800 prot_rw (s, sp) = Inr ((s', sp'), 0x10000) \<and>
     x86_write_virt intel_ia32 s' sp' (0x10000 + of_nat 0xFFF) [1, 2, 3] = Inr s'' \<and>
     x86_read_virt intel_ia32 s'' sp' (0x10000 + of_nat 0xFFF) (replicate 3 0) = Inr [1, 2, 3]"
proof -
  obtain s sp s' sp' where b: "x86_create_addr_space boot_mmu = Inr (s, sp)"
    "spaces_ok (x86_dn intel_ia32) s {root_pa sp}"
    and al: "x86_alloc intel_ia32 0x1800 prot_rw (s, sp) = Inr ((s', sp'), 0x10000)"
    using boot_alloc by blast
  have len: "length [1, 2, 3 :: u8] = 3" by simp
  have "\<exists>s''. x86_write_virt intel_ia32 s' sp' (0x10000 + of_nat 0xFFF) [1, 2, 3] = Inr s'' \<and>
      x86_read_virt intel_ia32 s'' sp' (0x10000 + of_nat 0xFFF) (replicate 3 0) = Inr [1, 2, 3]"
    using x86_write_read_virt [OF intel_ok b(2) _ al, where off = "0xFFF" and bs = "[1, 2, 3]"]
    unfolding len by (auto simp: boot_simps)
  with b(1) al show ?thesis by blast
qed

text \<open>
  C6. Unmapping an x86 range removes the translations of its pages and of nothing else.
\<close>

theorem x86_unmap_virt_correct:
  assumes "ia32_ok P" and "spaces_ok (x86_dn P) s R" and "root_pa sp \<in> R"
    and "x86_unmap_virt P va sz (s, sp) = Inr (s', sp')" and "n = unat (size_align sz) div 4096"
    and "n \<le> 2 ^ 36"
  shows "spaces_ok (x86_dn P) s' R \<and> root_pa sp' = root_pa sp \<and>
    (\<forall>k<n. x86_translate_virt P sp' (phys s') (page_align va + of_nat (k * 4096)) = None) \<and>
    (\<forall>sp2 va'. root_pa sp2 \<in> R \<and>
       ((\<forall>k<n. vpn va' \<noteq> vpn (page_align va + of_nat (k * 4096))) \<or>
        root_pa sp2 \<noteq> root_pa sp \<and> index_of 3 va' < 256) \<longrightarrow>
       x86_translate_virt P sp2 (phys s') va' = x86_translate_virt P sp2 (phys s) va')"
proof -
  obtain L where ok: "tables_ok (x86_dn P) s L" and R: "\<And>r. r \<in> R \<Longrightarrow> L r = Some (3, r, 0)"
    using assms(2) by (rule spaces_okE) blast
  let ?V = "page_updates (page_at (page_align va) (\<lambda>off. None)) n 0"
  have "for_pages (\<lambda>off. x86_unmap_page P (page_align va + off)) n 0 (s, sp) = Inr (s', sp')"
    using assms(4,5) by (simp add: x86_unmap_virt_def page_loop_def Let_def)
  from ia32_header.unmap_run_remaps [OF ia32_header.intro [OF assms(1)] ok R [OF assms(3)] this]
  obtain L' where ss: "root_pa sp' = root_pa sp"
    and r: "remaps (x86_dn P) (x86_dl P) s L s' L' (root_pa sp) ?V" by (auto simp: same_space_def)
  have "x86_translate_virt P sp' (phys s') (page_align va + of_nat (k * 4096)) = None" if "k < n" for k
    using remapsD(3) [OF r, of "page_align va + of_nat (k * 4096)"]
      page_updates_at [OF assms(6) that, of "page_align va" "\<lambda>off. None :: addr option" 0] ss
    by (simp add: x86_translate_walk del: of_nat_mult)
  moreover have "x86_translate_virt P sp2 (phys s') va' = x86_translate_virt P sp2 (phys s) va'"
    if "root_pa sp2 \<in> R" "(\<forall>k<n. vpn va' \<noteq> vpn (page_align va + of_nat (k * 4096))) \<or>
        root_pa sp2 \<noteq> root_pa sp \<and> index_of 3 va' < 256" for sp2 va'
    using remaps_isolation [OF r R that(1), of va'] that(2)
    by (fastforce simp: x86_translate_walk dest: page_updates_dom)
  ultimately show ?thesis using remaps_spaces_ok [OF r R] ss by blast
qed

theorem x86_unmap_virt_correct_witness:
  "\<exists>s sp s' sp' s'' sp''. x86_create_addr_space boot_mmu = Inr (s, sp) \<and>
     x86_alloc intel_ia32 0x1800 prot_rw (s, sp) = Inr ((s', sp'), 0x10000) \<and>
     x86_unmap_virt intel_ia32 0x10000 0x1800 (s', sp') = Inr (s'', sp'') \<and>
     x86_translate_virt intel_ia32 sp'' (phys s'') (0x10000 + of_nat (0 * 4096)) = None"
proof -
  obtain s sp s' sp' where b: "x86_create_addr_space boot_mmu = Inr (s, sp)"
    "x86_alloc intel_ia32 0x1800 prot_rw (s, sp) = Inr ((s', sp'), 0x10000)"
    "spaces_ok (x86_dn intel_ia32) s' {root_pa sp'}"
    using boot_alloc by blast
  obtain s'' sp'' where u: "x86_unmap_virt intel_ia32 0x10000 0x1800 (s', sp') = Inr (s'', sp'')"
    using x86_unmap_virt_total [of intel_ia32 "0x10000" "0x1800" "(s', sp')"] by auto
  have "page_align 0x10000 = (0x10000 :: u64)" by (simp add: page_align_def page_size_def)
  then have "x86_translate_virt intel_ia32 sp'' (phys s'') (0x10000 + of_nat (0 * 4096)) = None"
    using x86_unmap_virt_correct [OF intel_ok b(3) _ u refl]
    by (auto simp: boot_simps dest: spec [of _ "0 :: nat"])
  with b u show ?thesis by blast
qed

text \<open>
  C7. Reprotecting an x86 range moves no page: every translation of every space stays, and
  each present entry of the range takes the new write and execute permissions while its
  accessed, dirty and user bits are kept.
\<close>

theorem x86_prot_virt_correct:
  assumes "ia32_ok P" and "spaces_ok (x86_dn P) s R" and "root_pa sp \<in> R"
    and "x86_prot_virt P va sz prot (s, sp) = Inr (s', sp')" and "n = unat (size_align sz) div 4096"
    and "n \<le> 2 ^ 36"
  shows "sp' = sp \<and> spaces_ok (x86_dn P) s' R \<and>
    (\<forall>sp2 va'. root_pa sp2 \<in> R \<longrightarrow>
       x86_translate_virt P sp2 (phys s') va' = x86_translate_virt P sp2 (phys s) va') \<and>
    (\<forall>k<n. \<forall>e. x86_pte P (phys s) (root_pa sp) (page_align va + of_nat (k * 4096)) = Some e \<and>
       bf_get (f_present (pte_64 P)) e \<noteq> 0 \<longrightarrow>
       (\<exists>e'. x86_pte P (phys s') (root_pa sp) (page_align va + of_nat (k * 4096)) = Some e' \<and>
          bf_get (f_write (pte_64 P)) e' = (if has_prot prot prot_write then 1 else 0) \<and>
          bf_get (f_execute_disable (pte_64 P)) e' = (if has_prot prot prot_exec then 0 else 1) \<and>
          bf_get (f_accessed (pte_64 P)) e' = bf_get (f_accessed (pte_64 P)) e \<and>
          bf_get (f_dirty (pte_64 P)) e' = bf_get (f_dirty (pte_64 P)) e \<and>
          bf_get (f_supervisor (pte_64 P)) e' = bf_get (f_supervisor (pte_64 P)) e))"
proof -
  obtain L where ok: "tables_ok (x86_dn P) s L" and R: "\<And>r. r \<in> R \<Longrightarrow> L r = Some (3, r, 0)"
    using assms(2) by (rule spaces_okE) blast
  note H = ia32_header.intro [OF assms(1)]
  have run: "for_pages (\<lambda>off. x86_prot_page P prot (page_align va + off)) n 0 (s, sp) = Inr (s', sp')"
    using assms(4,5) by (simp add: x86_prot_virt_def page_loop_def Let_def)
  from ia32_header.prot_run [OF H assms(6) ok R [OF assms(3)] run] have
    sp': "sp' = sp" and sil: "silent (x86_dn P) (x86_dl P) s L s' L"
    and pte: "\<And>va'. x86_pte P (phys s') (root_pa sp) va' =
       (if \<exists>k<n. vpn va' = vpn (page_align va + 0 + of_nat (k * 4096))
        then map_option (reprotected P prot) (x86_pte P (phys s) (root_pa sp) va')
        else x86_pte P (phys s) (root_pa sp) va')" by blast+
  have "x86_translate_virt P sp2 (phys s') va' = x86_translate_virt P sp2 (phys s) va'"
    if "root_pa sp2 \<in> R" for sp2 va'
    using silentD(3) [OF sil R [OF that]] by (simp add: x86_translate_walk)
  moreover have "spaces_ok (x86_dn P) s' R" using silentD(1) [OF sil] R by (auto simp: spaces_ok_def)
  moreover have "x86_pte P (phys s') (root_pa sp) (page_align va + of_nat (k * 4096)) =
      Some (x86_reprotect (pte_64 P) prot e)"
    if "k < n" "x86_pte P (phys s) (root_pa sp) (page_align va + of_nat (k * 4096)) = Some e"
      "bf_get (f_present (pte_64 P)) e \<noteq> 0" for k e
    using pte [of "page_align va + of_nat (k * 4096)"] that by (auto simp: reprotected_def simp del: of_nat_mult)
  ultimately show ?thesis
    using sp' ia32_header.reprotect_reads [OF H] by (simp del: of_nat_mult)
qed

theorem x86_prot_virt_correct_witness:
  "\<exists>s sp s' sp' s'' sp''. x86_create_addr_space boot_mmu = Inr (s, sp) \<and>
     x86_alloc intel_ia32 0x1800 prot_rw (s, sp) = Inr ((s', sp'), 0x10000) \<and>
     x86_prot_virt intel_ia32 0x10000 0x1800 prot_rx (s', sp') = Inr (s'', sp'') \<and>
     x86_translate_virt intel_ia32 sp' (phys s'') 0x11000 = x86_translate_virt intel_ia32 sp' (phys s') 0x11000"
proof -
  obtain s sp s' sp' where b: "x86_create_addr_space boot_mmu = Inr (s, sp)"
    "x86_alloc intel_ia32 0x1800 prot_rw (s, sp) = Inr ((s', sp'), 0x10000)"
    "spaces_ok (x86_dn intel_ia32) s' {root_pa sp'}"
    using boot_alloc by blast
  obtain s'' sp'' where u: "x86_prot_virt intel_ia32 0x10000 0x1800 prot_rx (s', sp') = Inr (s'', sp'')"
    using x86_prot_virt_total [of intel_ia32 "0x10000" "0x1800" prot_rx "(s', sp')"] by auto
  show ?thesis
    using x86_prot_virt_correct [OF intel_ok b(3) _ u refl] b(1,2) u by (auto simp: boot_simps)
qed

text \<open>
  C8. A new x86 space gets a root no space has, sees nothing in its user half, and in its
  kernel half exactly what the first space sees; the spaces there were keep every translation.
\<close>

theorem x86_create_addr_space_correct:
  assumes "spaces_ok (x86_dn P) s R" and "kernel_root s = 0 \<or> kernel_root s \<in> R"
    and "x86_create_addr_space s = Inr (s', sp)"
  shows "root_pa sp \<notin> R \<and> spaces_ok (x86_dn P) s' (insert (root_pa sp) R) \<and>
    kernel_root s' \<in> insert (root_pa sp) R \<and> root_pa sp \<in> set (spaces s') \<and>
    (\<forall>sp2 va. root_pa sp2 \<in> R \<longrightarrow>
       x86_translate_virt P sp2 (phys s') va = x86_translate_virt P sp2 (phys s) va) \<and>
    (\<forall>va. index_of 3 va < 256 \<longrightarrow> x86_translate_virt P sp (phys s') va = None) \<and>
    (\<forall>sp1 va. root_pa sp1 = kernel_root s \<and> kernel_root s \<noteq> 0 \<and> 256 \<le> index_of 3 va \<longrightarrow>
       x86_translate_virt P sp (phys s') va = x86_translate_virt P sp1 (phys s) va)"
proof -
  have "entry_format (x86_dn P) (x86_dl P)"
    by unfold_locales (simp_all add: x86_dn_def x86_dl_def bf_get_zero)
  from entry_format.create_space_correct [OF this assms(1,2) assms(3) [unfolded x86_create_by]]
  show ?thesis by (simp add: x86_translate_walk)
qed

theorem x86_create_addr_space_correct_witness:
  "\<exists>s sp s' sp'. x86_create_addr_space boot_mmu = Inr (s, sp) \<and> x86_create_addr_space s = Inr (s', sp') \<and>
     root_pa sp' \<noteq> root_pa sp \<and>
     x86_translate_virt intel_ia32 sp' (phys s') 0xFFFFF80000000000 =
       x86_translate_virt intel_ia32 sp (phys s) 0xFFFFF80000000000"
proof -
  obtain s sp where b: "x86_create_addr_space boot_mmu = Inr (s, sp)" "phys_ok s" "mem_left s = 0xFFFFF000"
    "spaces_ok (x86_dn intel_ia32) s {root_pa sp}" "kernel_root s = root_pa sp"
    using boot_alloc by blast
  obtain s' sp' where c: "x86_create_addr_space s = Inr (s', sp')"
    using alloc_page_total [OF b(2)] b(3) by (auto simp: x86_create_addr_space_def Let_def)
  have "root_pa sp \<noteq> 0"
    using b(4) by (auto simp: spaces_ok_def dest: tables_okD(1) frame_okD(3))
  moreover have "256 \<le> index_of 3 0xFFFFF80000000000" by (simp add: index_of_vpn vpn_def)
  ultimately show ?thesis
    using x86_create_addr_space_correct [OF b(4) _ c] b(1,5) c by auto
qed

text \<open>
  C9. While four times the rounded size is left in guest memory an x86 allocation succeeds:
  one part for the frames and at most three tables for every page.
\<close>

theorem x86_alloc_succeeds:
  assumes "ia32_ok P" and "phys_ok s" and "4 * unat (size_align sz) \<le> mem_left s"
  shows "\<exists>st' va. x86_alloc P sz prot (s, sp) = Inr (st', va)"
  unfolding x86_alloc_by
  by (rule page_mapper.alloc_space_succeeds [OF ia32_header.page_mapper_x86 [OF ia32_header.intro [OF assms(1)]] assms(2,3)])

theorem x86_alloc_succeeds_witness:
  "\<exists>st' va. x86_alloc intel_ia32 0x1800 prot_rw (boot_mmu, new_space 0x100000000) = Inr (st', va)"
  by (rule x86_alloc_succeeds [OF intel_ok boot_ok(1)]) (simp add: boot_ok(2) boot_simps)

end
