(* ===== verification/Arm64_Mmu.thy ===== *)
theory Arm64_Mmu
  imports Page_Maps
begin

text \<open>
  The arm64 memory unit and address space (src/emu/arm64/mmu.cpp, mmu.hpp and
  addr_space.hpp). Descriptors are plain 64-bit words whose bits the sources define. User and
  kernel addresses share one level 0 table, which both translation base registers name. The
  unit interprets the contracts of the table installer and of the page mapper; beyond what the
  x86 unit has, the walk that reports a missing table by the address 0 is shown to agree with
  the tables.
\<close>

section \<open>Descriptors\<close>

definition desc_valid :: u64 where "desc_valid = 1"
definition desc_table :: u64 where "desc_table = push_bit 1 1"
definition desc_af :: u64 where "desc_af = push_bit 10 1"
definition desc_sh_is :: u64 where "desc_sh_is = push_bit 8 3"
definition desc_ap_el0 :: u64 where "desc_ap_el0 = push_bit 6 1"
definition desc_ap_ro :: u64 where "desc_ap_ro = push_bit 7 1"
definition desc_addr_mask :: u64 where "desc_addr_mask = 0x0000FFFFFFFFF000"

definition page_attrs :: "mem_prot \<Rightarrow> u64" where
  "page_attrs prot =
     (let attrs = desc_valid OR desc_table OR desc_af OR desc_sh_is;
          attrs = (if \<not> has_prot prot prot_supervisor then attrs OR desc_ap_el0 else attrs)
      in if \<not> has_prot prot prot_write then attrs OR desc_ap_ro else attrs)"

section \<open>Tables\<close>

definition arm64_ensure_table ::
  "'a mmu_base_scheme \<Rightarrow> addr \<Rightarrow> nat \<Rightarrow> emu_error + 'a mmu_base_scheme \<times> addr" where
  "arm64_ensure_table s table_pa index =
     (let entry = entry_at (phys s) table_pa index
      in if entry AND desc_valid \<noteq> 0 then Inr (s, entry AND desc_addr_mask)
         else bind_result (alloc_phys_locked s page_size) (\<lambda>(s1, child).
           Inr (set_entry table_pa index ((child AND desc_addr_mask) OR desc_valid OR desc_table) s1, child)))"

definition arm64_map_page ::
  "addr \<Rightarrow> addr \<Rightarrow> mem_prot \<Rightarrow> 'a table_mmu_scheme \<times> space \<Rightarrow>
   emu_error + 'a table_mmu_scheme \<times> space" where
  "arm64_map_page va pa prot = (\<lambda>(s, sp).
     let v = page_align va
     in bind_result (arm64_ensure_table s (root_pa sp) (index_of 3 v)) (\<lambda>(s1, l1).
        bind_result (arm64_ensure_table s1 l1 (index_of 2 v)) (\<lambda>(s2, l2).
        bind_result (arm64_ensure_table s2 l2 (index_of 1 v)) (\<lambda>(s3, l3).
          let s4 = set_entry l3 (index_of 0 v) ((pa AND desc_addr_mask) OR page_attrs prot) s3;
              sp1 = sp\<lparr>shadow := umap_set v pa (shadow sp)\<rparr>;
              s5 = fold note_page
                     [(pa, v, l3, 0, True), (l3, v, l2, 1, True), (l2, v, l1, 2, True),
                      (l1, v, root_pa sp, 3, True), (root_pa sp, v, root_pa sp, 4, True)] s4
          in Inr (s5, sp1)))))"

text \<open>The walk answers 0 where a table is missing.\<close>

definition arm64_step :: "phys_mem \<Rightarrow> addr \<Rightarrow> nat \<Rightarrow> addr" where
  "arm64_step m table idx =
     (let e = entry_at m table idx in if e AND desc_valid \<noteq> 0 then e AND desc_addr_mask else 0)"

definition walk_to_l3 :: "space \<Rightarrow> phys_mem \<Rightarrow> addr \<Rightarrow> addr" where
  "walk_to_l3 sp m va =
     (let v = page_align va; l1 = arm64_step m (root_pa sp) (index_of 3 v)
      in if l1 = 0 then 0
         else let l2 = arm64_step m l1 (index_of 2 v)
              in if l2 = 0 then 0 else arm64_step m l2 (index_of 1 v))"

definition arm64_translate_virt :: "space \<Rightarrow> phys_mem \<Rightarrow> addr \<Rightarrow> addr option" where
  "arm64_translate_virt sp m page =
     (let l3 = walk_to_l3 sp m page
      in if l3 = 0 then None
         else let entry = entry_at m l3 (index_of 0 page)
              in if entry AND desc_valid = 0 then None else Some (entry AND desc_addr_mask))"

definition arm64_unmap_page ::
  "addr \<Rightarrow> 'a table_mmu_scheme \<times> space \<Rightarrow> emu_error + 'a table_mmu_scheme \<times> space" where
  "arm64_unmap_page va = (\<lambda>(s0, sp0).
     let v = page_align va;
         (s, sp) = (case umap_find v (shadow sp0) of
             None \<Rightarrow> (s0, sp0)
           | Some pa \<Rightarrow> (note_page (pa, v, 0, 0, False) s0,
                         sp0\<lparr>shadow := umap_erase v (shadow sp0)\<rparr>));
         l3 = walk_to_l3 sp (phys s) va
     in if l3 \<noteq> 0 then Inr (set_entry l3 (index_of 0 v) 0 s, sp) else Inr (s, sp))"

definition arm64_reprotect :: "mem_prot \<Rightarrow> u64 \<Rightarrow> u64" where
  "arm64_reprotect prot entry =
     (let attrs = page_attrs prot;
          attrs = attrs AND NOT desc_ap_el0;
          attrs = attrs OR (entry AND desc_ap_el0)
      in (entry AND desc_addr_mask) OR attrs)"

text \<open>The body of the loop of \<open>prot_virt\<close>.\<close>

definition arm64_prot_page ::
  "mem_prot \<Rightarrow> addr \<Rightarrow> 'a table_mmu_scheme \<times> space \<Rightarrow> emu_error + 'a table_mmu_scheme \<times> space" where
  "arm64_prot_page prot v = (\<lambda>(s, sp).
     let l3 = walk_to_l3 sp (phys s) v
     in if l3 = 0 then Inr (s, sp)
        else let entry = entry_at (phys s) l3 (index_of 0 v)
             in if entry AND desc_valid = 0 then Inr (s, sp)
                else Inr (set_entry l3 (index_of 0 v) (arm64_reprotect prot entry) s, sp))"

section \<open>Ranges\<close>

definition arm64_map_virt ::
  "addr \<Rightarrow> u64 \<Rightarrow> mem_prot \<Rightarrow> 'a table_mmu_scheme \<times> space \<Rightarrow>
   emu_error + 'a table_mmu_scheme \<times> space" where
  "arm64_map_virt va sz prot = (\<lambda>(s, sp).
     let start = page_align va; aligned = size_align sz
     in bind_result (alloc_phys_locked s aligned) (\<lambda>(s1, pa_block).
          page_loop aligned
            (\<lambda>off. arm64_map_page (start + off) (pa_block + off) (prot OR prot_write)) (s1, sp)))"

definition arm64_map_virt_phys ::
  "addr \<Rightarrow> addr \<Rightarrow> u64 \<Rightarrow> mem_prot \<Rightarrow> 'a table_mmu_scheme \<times> space \<Rightarrow>
   emu_error + 'a table_mmu_scheme \<times> space" where
  "arm64_map_virt_phys va pa sz prot st =
     (let start = page_align va; pa_start = page_align pa; aligned = size_align sz
      in page_loop aligned
           (\<lambda>off. arm64_map_page (start + off) (pa_start + off) (prot OR prot_write)) st)"

definition arm64_unmap_virt ::
  "addr \<Rightarrow> u64 \<Rightarrow> 'a table_mmu_scheme \<times> space \<Rightarrow> emu_error + 'a table_mmu_scheme \<times> space" where
  "arm64_unmap_virt va sz st =
     (let start = page_align va; aligned = size_align sz
      in page_loop aligned (\<lambda>off. arm64_unmap_page (start + off)) st)"

definition arm64_prot_virt ::
  "addr \<Rightarrow> u64 \<Rightarrow> mem_prot \<Rightarrow> 'a table_mmu_scheme \<times> space \<Rightarrow>
   emu_error + 'a table_mmu_scheme \<times> space" where
  "arm64_prot_virt va sz prot st =
     (let start = page_align va; aligned = size_align sz
      in page_loop aligned (\<lambda>off. arm64_prot_page prot (start + off)) st)"

section \<open>Access\<close>

definition arm64_copy_virt ::
  "space \<Rightarrow> bool \<Rightarrow> addr \<Rightarrow> phys_mem \<Rightarrow> u8 list \<Rightarrow> emu_error + phys_mem \<times> u8 list" where
  "arm64_copy_virt sp write va m buf =
     copy_pages (arm64_translate_virt sp) (shadow sp) write va 0 m buf"

definition arm64_read_virt ::
  "'a table_mmu_scheme \<Rightarrow> space \<Rightarrow> addr \<Rightarrow> u8 list \<Rightarrow> emu_error + u8 list" where
  "arm64_read_virt s sp va buf = map_sum id snd (arm64_copy_virt sp False va (phys s) buf)"

definition arm64_write_virt ::
  "'a table_mmu_scheme \<Rightarrow> space \<Rightarrow> addr \<Rightarrow> u8 list \<Rightarrow> emu_error + 'a table_mmu_scheme" where
  "arm64_write_virt s sp va buf =
     map_sum id (\<lambda>(m, _). s\<lparr>phys := m\<rparr>) (arm64_copy_virt sp True va (phys s) buf)"

definition arm64_virt_to_phys :: "'a table_mmu_scheme \<Rightarrow> space \<Rightarrow> addr \<Rightarrow> addr option" where
  "arm64_virt_to_phys s sp va =
     (let page = page_align va
      in case arm64_translate_virt sp (phys s) page of
           Some pa \<Rightarrow> Some (pa + (va - page))
         | None \<Rightarrow>
             (case umap_find page (shadow sp) of
                Some pa \<Rightarrow> Some (pa + (va - page))
              | None \<Rightarrow> None))"

definition arm64_phys_to_virt :: "space \<Rightarrow> addr \<Rightarrow> addr option" where
  "arm64_phys_to_virt sp pa =
     (let pa_page = pa AND NOT (page_size - 1); offset = pa - pa_page
      in map_option (\<lambda>va_page. va_page + offset) (first_va_of pa_page (shadow sp)))"

section \<open>Address spaces and processors\<close>

definition arm64_create_addr_space ::
  "'a table_mmu_scheme \<Rightarrow> emu_error + 'a table_mmu_scheme \<times> space" where
  "arm64_create_addr_space s =
     bind_result (alloc_phys_locked s page_size) (\<lambda>(s1, ttbr).
       let s2 = (if kernel_root s1 = 0 then s1\<lparr>kernel_root := ttbr\<rparr>
                 else copy_entries (kernel_root s1) ttbr kernel_slots s1)
       in Inr (s2\<lparr>spaces := ttbr # filter (\<lambda>p. p \<noteq> ttbr) (spaces s2)\<rparr>, new_space ttbr))"

definition arm64_destroy_addr_space :: "space \<Rightarrow> 'a table_mmu_scheme \<Rightarrow> 'a table_mmu_scheme" where
  "arm64_destroy_addr_space sp s = s\<lparr>spaces := filter (\<lambda>p. p \<noteq> root_pa sp) (spaces s)\<rparr>"

record arm64_vcpu =
  ttbr0_el1 :: u64
  ttbr1_el1 :: u64
  mair_el1 :: u64
  tcr_el1 :: u64
  sctlr_el1 :: u64

definition arm64_curr_addr_space :: "'a table_mmu_scheme \<Rightarrow> arm64_vcpu \<Rightarrow> addr option" where
  "arm64_curr_addr_space s cpu =
     (let ttbr = ttbr0_el1 cpu AND desc_addr_mask
      in if ttbr \<in> set (spaces s) then Some ttbr else None)"

definition arm64_switch_to :: "space \<Rightarrow> arm64_vcpu \<Rightarrow> arm64_vcpu" where
  "arm64_switch_to sp cpu = cpu\<lparr>ttbr0_el1 := root_pa sp, ttbr1_el1 := root_pa sp\<rparr>"

definition arm64_init_vcpu :: "arm64_vcpu \<Rightarrow> arm64_vcpu" where
  "arm64_init_vcpu cpu =
     (let t0sz = 16; t1sz = 16;
          tcr = push_bit 0 t0sz OR push_bit 8 1 OR push_bit 10 1 OR push_bit 12 3 OR push_bit 14 0
            OR push_bit 16 t1sz OR push_bit 24 1 OR push_bit 26 1 OR push_bit 28 3 OR push_bit 30 2
            OR push_bit 32 2
      in cpu\<lparr>mair_el1 := 0xFF, tcr_el1 := tcr,
             sctlr_el1 := sctlr_el1 cpu OR (push_bit 0 1 OR push_bit 2 1 OR push_bit 12 1)\<rparr>)"

definition arm64_alloc ::
  "u64 \<Rightarrow> mem_prot \<Rightarrow> 'a table_mmu_scheme \<times> space \<Rightarrow>
   emu_error + ('a table_mmu_scheme \<times> space) \<times> addr" where
  "arm64_alloc sz prot = (\<lambda>(s, sp).
     let aligned = align_up 0x1000 sz; (sp1, va) = take_cursor prot aligned sp
     in bind_result (arm64_map_virt va aligned prot (s, sp1)) (\<lambda>st. Inr (st, va)))"

definition arm64_map_phys ::
  "addr \<Rightarrow> u64 \<Rightarrow> mem_prot \<Rightarrow> 'a table_mmu_scheme \<times> space \<Rightarrow>
   emu_error + ('a table_mmu_scheme \<times> space) \<times> addr" where
  "arm64_map_phys pa sz prot = (\<lambda>(s, sp).
     let aligned = align_up 0x1000 sz; (sp1, va) = take_cursor prot aligned sp
     in bind_result (arm64_map_virt_phys va pa aligned prot (s, sp1)) (\<lambda>st. Inr (st, va)))"

section \<open>Reading descriptors back\<close>

definition arm64_dn :: "u64 \<Rightarrow> addr option" where
  "arm64_dn e = (if e AND desc_valid = 0 then None else Some (e AND desc_addr_mask))"

lemma desc_addr_mask_bits: "bit desc_addr_mask i \<longleftrightarrow> 12 \<le> i \<and> i < 48"
proof -
  have eq: "desc_addr_mask = push_bit 12 (mask 36)" by (simp add: desc_addr_mask_def mask_eq_exp_minus_1)
  show ?thesis unfolding eq by (auto simp: bit_simps)
qed

lemma and_addr_mask: "pa AND desc_addr_mask = take_bit 48 (page_align pa)"
  unfolding page_align_down align_down_shift
  by (rule bit_eqI) (auto simp: bit_simps desc_addr_mask_bits)

lemmas desc_defs = desc_valid_def desc_table_def desc_af_def desc_sh_is_def desc_ap_el0_def desc_ap_ro_def

lemma page_attrs_low: "take_bit 12 (page_attrs prot) = page_attrs prot" and
  page_attrs_valid: "page_attrs prot AND desc_valid = desc_valid"
  by (simp_all add: page_attrs_def Let_def desc_defs)

lemma or_low_mask: "take_bit 12 x = x \<Longrightarrow> ((e AND desc_addr_mask) OR x) AND desc_addr_mask = e AND desc_addr_mask"
proof -
  assume x: "take_bit 12 x = x"
  have "n < 12" if "bit x n" for n using that x by (metis bit_take_bit_iff)
  then show ?thesis by (intro bit_eqI) (fastforce simp: bit_simps desc_addr_mask_bits)
qed

lemma or_low_valid: "x AND desc_valid = desc_valid \<Longrightarrow> ((e AND desc_addr_mask) OR x) AND desc_valid = desc_valid"
proof -
  have "(e AND desc_addr_mask) AND desc_valid = 0"
    by (rule bit_eqI) (auto simp: bit_simps desc_addr_mask_bits desc_valid_def bit_1_iff)
  then show "x AND desc_valid = desc_valid \<Longrightarrow> ((e AND desc_addr_mask) OR x) AND desc_valid = desc_valid"
    by (simp add: bit.conj_disj_distrib2)
qed

lemma desc_valid_nz [simp]: "desc_valid \<noteq> 0"
  by (simp add: desc_valid_def)

lemma arm64_dn_built:
  "take_bit 12 x = x \<Longrightarrow> x AND desc_valid = desc_valid \<Longrightarrow>
     arm64_dn ((e AND desc_addr_mask) OR x) = Some (e AND desc_addr_mask)"
  by (simp add: arm64_dn_def or_low_mask or_low_valid)

lemma el0_bit: "bit desc_ap_el0 n \<longleftrightarrow> n = 6"
  by (auto simp only: desc_ap_el0_def bit_push_bit_iff bit_1_iff) (simp add: possible_bit_def)

lemma reprotect_attrs:
  "take_bit 12 (page_attrs prot AND NOT desc_ap_el0 OR entry AND desc_ap_el0) =
     page_attrs prot AND NOT desc_ap_el0 OR entry AND desc_ap_el0"
  "(page_attrs prot AND NOT desc_ap_el0 OR entry AND desc_ap_el0) AND desc_valid = desc_valid"
proof -
  have el0: "entry AND desc_ap_el0 = 0 \<or> entry AND desc_ap_el0 = desc_ap_el0"
  proof (cases "bit entry 6")
    case True
    then show ?thesis by (intro disjI2 bit_eqI) (auto simp: bit_and_iff el0_bit)
  next
    case False
    then show ?thesis by (intro disjI1 bit_eqI) (auto simp: bit_and_iff el0_bit)
  qed
  moreover have "take_bit 12 (page_attrs prot AND NOT desc_ap_el0 OR x) = page_attrs prot AND NOT desc_ap_el0 OR x"
    "(page_attrs prot AND NOT desc_ap_el0 OR x) AND desc_valid = desc_valid"
    if "x = 0 \<or> x = desc_ap_el0" for x
    using that by (auto simp: page_attrs_def Let_def desc_defs)
  ultimately show "take_bit 12 (page_attrs prot AND NOT desc_ap_el0 OR entry AND desc_ap_el0) =
     page_attrs prot AND NOT desc_ap_el0 OR entry AND desc_ap_el0"
    "(page_attrs prot AND NOT desc_ap_el0 OR entry AND desc_ap_el0) AND desc_valid = desc_valid" by blast+
qed

section \<open>The unit meets the contracts\<close>

lemma arm64_ensure_cases:
  assumes ok: "phys_ok s" and en: "arm64_ensure_table s f i = Inr (s', c)"
  shows "(arm64_dn (entry_at (phys s) f i) = Some c \<and> s' = s) \<or>
     (arm64_dn (entry_at (phys s) f i) = None \<and>
        (\<exists>s1 e. alloc_phys_locked s page_size = Inr (s1, c) \<and> arm64_dn e = Some c \<and>
          s' = set_entry f i e s1))"
proof (cases "entry_at (phys s) f i AND desc_valid = 0")
  case False
  with en show ?thesis by (auto simp: arm64_ensure_table_def arm64_dn_def Let_def)
next
  case True
  with en obtain s1 where al: "alloc_phys_locked s page_size = Inr (s1, c)"
    and s': "s' = set_entry f i ((c AND desc_addr_mask) OR (desc_valid OR desc_table)) s1"
    by (auto simp: arm64_ensure_table_def Let_def or.assoc split: sum.splits)
  have "frame_ok s1 c" "phys_ok s1"
    using fresh_page(1) [OF al ok, of 0] phys_ok_alloc [OF al ok] by (simp_all add: size_align_aligned)
  then have "unat c < 2 ^ 48" "4096 dvd unat c" by (auto simp: frame_ok_def phys_ok_def)
  then have c: "c AND desc_addr_mask = c" by (simp add: and_addr_mask take_bit_frame)
  have "arm64_dn ((c AND desc_addr_mask) OR (desc_valid OR desc_table)) = Some (c AND desc_addr_mask)"
    by (rule arm64_dn_built) (simp_all add: desc_defs)
  moreover have "arm64_dn (entry_at (phys s) f i) = None" using True by (simp add: arm64_dn_def)
  ultimately show ?thesis using al s' c by auto
qed

interpretation arm64: table_mapper arm64_dn arm64_dn arm64_ensure_table
proof
  show "arm64_dn 0 = None" by (simp add: arm64_dn_def)
next
  fix s :: "'s mmu_base_scheme" and L f lb i s' c
  assume "tables_ok arm64_dn s L" and en: "arm64_ensure_table s f i = Inr (s', c)"
  then have "phys_ok s" by (simp add: tables_ok_def)
  from arm64_ensure_cases [OF this en]
  show "(arm64_dn (entry_at (phys s) f i) = Some c \<and>
        (s' = s \<or> (\<exists>e. arm64_dn e = Some c \<and> s' = set_entry f i e s))) \<or>
     (arm64_dn (entry_at (phys s) f i) = None \<and>
        (\<exists>s1 e. alloc_phys_locked s page_size = Inr (s1, c) \<and> arm64_dn e = Some c \<and>
          s' = set_entry f i e s1))" by blast
qed

lemma arm64_map_page_remaps:
  assumes ok: "tables_ok arm64_dn s L" and root: "L (root_pa sp) = Some (3, root_pa sp, 0)"
    and mp: "arm64_map_page va pa prot (s, sp) = Inr (s', sp')"
  shows "same_space sp sp' \<and> shadow sp' = umap_set (page_align va) pa (shadow sp) \<and>
    (\<exists>L'. remaps arm64_dn arm64_dn s L s' L' (root_pa sp) [vpn va \<mapsto> Some (take_bit 48 (page_align pa))])"
proof -
  let ?v = "page_align va" and ?e = "(pa AND desc_addr_mask) OR page_attrs prot"
  from mp obtain s1 l1 s2 l2 s3 l3 where
    e: "arm64_ensure_table s (root_pa sp) (index_of 3 ?v) = Inr (s1, l1)"
      "arm64_ensure_table s1 l1 (index_of 2 ?v) = Inr (s2, l2)"
      "arm64_ensure_table s2 l2 (index_of 1 ?v) = Inr (s3, l3)"
    and sp': "sp' = sp\<lparr>shadow := umap_set ?v pa (shadow sp)\<rparr>"
    and s': "phys s' = phys (set_entry l3 (index_of 0 ?v) ?e s3)" "phys_next s' = phys_next s3"
    by (auto simp: arm64_map_page_def Let_def note_page_def split: sum.splits)
  have "arm64_dn ?e = Some (take_bit 48 (page_align pa))"
    using arm64_dn_built [OF page_attrs_low page_attrs_valid, of pa prot] by (simp add: and_addr_mask)
  with arm64.map_levels [OF ok root e, of ?e] obtain L' where
    "remaps arm64_dn arm64_dn s L (set_entry l3 (index_of 0 ?v) ?e s3) L' (root_pa sp)
      [vpn va \<mapsto> Some (take_bit 48 (page_align pa))]" by auto
  from remaps_noted [OF this, of s'] s' sp' show ?thesis by (auto simp: same_space_def)
qed

lemma arm64_ensure_total:
  assumes "phys_ok s" and "4096 \<le> mem_left s"
  shows "\<exists>s' c. arm64_ensure_table s f i = Inr (s', c) \<and> phys_ok s' \<and> mem_left s \<le> mem_left s' + 4096"
  using alloc_page_total [OF assms] assms(1)
  by (auto simp: arm64_ensure_table_def Let_def mem_left_def)

lemma arm64_map_page_total:
  assumes "phys_ok (fst st)" and "12288 \<le> mem_left (fst st)"
  shows "\<exists>st'. arm64_map_page va pa prot st = Inr st' \<and> phys_ok (fst st') \<and>
    mem_left (fst st) \<le> mem_left (fst st') + 12288"
proof -
  obtain s sp where st: "st = (s, sp)" by (cases st)
  let ?v = "page_align va"
  from arm64_ensure_total [of s] assms st obtain s1 t2 where
    a: "arm64_ensure_table s (root_pa sp) (index_of 3 ?v) = Inr (s1, t2)" "phys_ok s1"
      "mem_left s \<le> mem_left s1 + 4096" by fastforce
  from arm64_ensure_total [of s1] a assms st obtain s2 t1 where
    b: "arm64_ensure_table s1 t2 (index_of 2 ?v) = Inr (s2, t1)" "phys_ok s2"
      "mem_left s1 \<le> mem_left s2 + 4096" by fastforce
  from arm64_ensure_total [of s2] a b assms st obtain s3 t0 where
    c: "arm64_ensure_table s2 t1 (index_of 1 ?v) = Inr (s3, t0)" "phys_ok s3"
      "mem_left s2 \<le> mem_left s3 + 4096" by fastforce
  have note_ok: "phys_ok (note_page nt t) = phys_ok t" "mem_left (note_page nt t) = mem_left t"
    for nt and t :: "'a table_mmu_scheme" by (simp_all add: note_page_def phys_ok_def mem_left_def)
  show ?thesis
    using a b c by (simp add: st arm64_map_page_def Let_def note_ok) (simp add: mem_left_def)
qed

interpretation arm64_maps: page_mapper arm64_dn arm64_dn "\<lambda>va pa. arm64_map_page va pa prot" for prot
proof
  fix s :: "'s table_mmu_scheme" and L sp va pa s' sp'
  assume "tables_ok arm64_dn s L" "L (root_pa sp) = Some (3, root_pa sp, 0)"
    "arm64_map_page va pa prot (s, sp) = Inr (s', sp')"
  from arm64_map_page_remaps [OF this] show "same_space sp sp' \<and>
      (\<exists>L'. remaps arm64_dn arm64_dn s L s' L' (root_pa sp) [vpn va \<mapsto> Some (take_bit 48 (page_align pa))])"
    by blast
qed (rule arm64_map_page_total)

text \<open>In well-formed tables the address 0 means what it is taken to mean.\<close>

lemma arm64_step_dn:
  assumes ok: "tables_ok arm64_dn s L" and f: "L f = Some lb" "0 < fst lb"
  shows "arm64_step (phys s) f (index_of k va) = 0 \<longleftrightarrow> arm64_dn (entry_at (phys s) f (index_of k va)) = None"
    and "arm64_dn (entry_at (phys s) f (index_of k va)) = Some g \<Longrightarrow> arm64_step (phys s) f (index_of k va) = g"
proof -
  show some: "arm64_step (phys s) f (index_of k va) = g"
    if "arm64_dn (entry_at (phys s) f (index_of k va)) = Some g" for g
    using that by (auto simp: arm64_step_def arm64_dn_def Let_def split: if_splits)
  show "arm64_step (phys s) f (index_of k va) = 0 \<longleftrightarrow> arm64_dn (entry_at (phys s) f (index_of k va)) = None"
  proof (cases "arm64_dn (entry_at (phys s) f (index_of k va))")
    case None
    then show ?thesis by (auto simp: arm64_step_def arm64_dn_def Let_def split: if_splits)
  next
    case (Some g)
    have "g \<noteq> 0"
      using frame_okD(3) [OF tables_okD(1) [OF ok tables_okD(3) [OF ok f index_of_lt Some]]] .
    with Some some show ?thesis by simp
  qed
qed

lemma walk_to_l3_reach:
  assumes ok: "tables_ok arm64_dn s L" and root: "L (root_pa sp) = Some (3, root_pa sp, 0)"
  shows "walk_to_l3 sp (phys s) va = 0 \<longleftrightarrow> reach arm64_dn (phys s) 3 (root_pa sp) va = None"
    and "reach arm64_dn (phys s) 3 (root_pa sp) va = Some t \<Longrightarrow> walk_to_l3 sp (phys s) va = t"
proof -
  have ix: "index_of k (page_align va) = index_of k va" if "k \<le> 3" for k
    using index_vpn_cong [of "page_align va" va k] that by simp
  note s3 = arm64_step_dn [OF ok root, of 3 va]
  have "(walk_to_l3 sp (phys s) va = 0 \<longleftrightarrow> reach arm64_dn (phys s) 3 (root_pa sp) va = None) \<and>
      (\<forall>t. reach arm64_dn (phys s) 3 (root_pa sp) va = Some t \<longrightarrow> walk_to_l3 sp (phys s) va = t)"
  proof (cases "arm64_dn (entry_at (phys s) (root_pa sp) (index_of 3 va))")
    case None
    then show ?thesis using s3 by (simp add: walk_to_l3_def reach_unfold ix)
  next
    case (Some g)
    have gl: "L g = Some (child_label (3, root_pa sp, 0) (index_of 3 va))"
      using tables_okD(3) [OF ok root _ index_of_lt Some] by simp
    note s2 = arm64_step_dn [OF ok gl, of 2 va]
    have g0: "g \<noteq> 0" using frame_okD(3) [OF tables_okD(1) [OF ok gl]] .
    show ?thesis
    proof (cases "arm64_dn (entry_at (phys s) g (index_of 2 va))")
      case None
      then show ?thesis using s3 s2 Some g0 by (simp add: walk_to_l3_def reach_unfold ix)
    next
      case (Some h)
      have hl: "L h = Some (child_label (child_label (3, root_pa sp, 0) (index_of 3 va)) (index_of 2 va))"
        using tables_okD(3) [OF ok gl _ index_of_lt Some] by simp
      note s1 = arm64_step_dn [OF ok hl, of 1 va]
      have h0: "h \<noteq> 0" using frame_okD(3) [OF tables_okD(1) [OF ok hl]] .
      show ?thesis
        using s3 s2 s1 Some g0 h0 \<open>arm64_dn (entry_at (phys s) (root_pa sp) (index_of 3 va)) = Some g\<close>
        by (simp add: walk_to_l3_def reach_unfold ix)
    qed
  qed
  then show "walk_to_l3 sp (phys s) va = 0 \<longleftrightarrow> reach arm64_dn (phys s) 3 (root_pa sp) va = None"
    "reach arm64_dn (phys s) 3 (root_pa sp) va = Some t \<Longrightarrow> walk_to_l3 sp (phys s) va = t" by blast+
qed

lemma arm64_translate_walk:
  assumes ok: "tables_ok arm64_dn s L" and root: "L (root_pa sp) = Some (3, root_pa sp, 0)"
  shows "arm64_translate_virt sp (phys s) va = walk arm64_dn arm64_dn (phys s) (root_pa sp) va"
  using walk_to_l3_reach [OF ok root, of va]
  by (cases "reach arm64_dn (phys s) 3 (root_pa sp) va")
     (auto simp: arm64_translate_virt_def walk_from_def arm64_dn_def Let_def)

lemma arm64_translate_space:
  "spaces_ok arm64_dn s R \<Longrightarrow> root_pa sp \<in> R \<Longrightarrow>
     arm64_translate_virt sp (phys s) va = walk arm64_dn arm64_dn (phys s) (root_pa sp) va"
  by (erule spaces_okE) (rule arm64_translate_walk)

lemma arm64_unmap_page_remaps:
  assumes ok: "tables_ok arm64_dn s L" and root: "L (root_pa sp) = Some (3, root_pa sp, 0)"
    and un: "arm64_unmap_page va (s, sp) = Inr (s', sp')"
  shows "same_space sp sp' \<and> (\<exists>L'. remaps arm64_dn arm64_dn s L s' L' (root_pa sp) [vpn va \<mapsto> None])"
proof -
  let ?v = "page_align va"
  have sp': "same_space sp sp'"
    using un by (auto simp: arm64_unmap_page_def Let_def same_space_def split: option.splits if_splits)
  have wk: "walk_to_l3 (sp\<lparr>shadow := x\<rparr>) m va = walk_to_l3 sp m va" for x m
    by (simp add: walk_to_l3_def)
  have ph: "phys s' = (if walk_to_l3 sp (phys s) va = 0 then phys s
      else phys (set_entry (walk_to_l3 sp (phys s) va) (index_of 0 ?v) 0 s))" "phys_next s' = phys_next s"
    using un by (auto simp: arm64_unmap_page_def Let_def note_page_def set_entry_def wk split: option.splits if_splits)
  have ix: "index_of 0 ?v = index_of 0 va" using index_vpn_cong [of ?v va 0] by simp
  note l3 = walk_to_l3_reach [OF ok root, of va]
  have "\<exists>L'. remaps arm64_dn arm64_dn s L s' L' (root_pa sp) [vpn va \<mapsto> None]"
  proof (cases "reach arm64_dn (phys s) 3 (root_pa sp) va")
    case None
    then have "walk arm64_dn arm64_dn (phys s) (root_pa sp) va = None" by (simp add: walk_from_def)
    from remaps_noted [OF remaps_same [OF ok this], of s'] None ph l3 show ?thesis by auto
  next
    case (Some t)
    have r: "remaps arm64_dn arm64_dn s L (set_entry t (index_of 0 va) 0 s) L (root_pa sp) [vpn va \<mapsto> None]"
      using remaps_leaf [OF ok root Some, of arm64_dn 0] by (simp add: arm64.dl_zero)
    have "walk_to_l3 sp (phys s) va = t" "t \<noteq> 0"
      using l3 Some frame_okD(3) [OF tables_okD(1) [OF ok reach_root_label [OF ok root Some]]] by auto
    with remaps_noted [OF r, of s'] ph ix show ?thesis by auto
  qed
  with sp' show ?thesis by blast
qed

lemma arm64_prot_page_silent:
  assumes ok: "tables_ok arm64_dn s L" and root: "L (root_pa sp) = Some (3, root_pa sp, 0)"
    and pr: "arm64_prot_page prot v (s, sp) = Inr (s', sp')"
  shows "sp' = sp \<and> silent arm64_dn arm64_dn s L s' L"
proof (cases "reach arm64_dn (phys s) 3 (root_pa sp) v")
  case None
  then have "sp' = sp \<and> s' = s"
    using pr walk_to_l3_reach [OF ok root, of v] by (simp add: arm64_prot_page_def)
  then show ?thesis using silent_refl [OF ok] by simp
next
  case (Some t)
  let ?e = "entry_at (phys s) t (index_of 0 v)"
  note tl = reach_root_label [OF ok root Some]
  have t: "walk_to_l3 sp (phys s) v = t" "t \<noteq> 0"
    using walk_to_l3_reach [OF ok root, of v] Some frame_okD(3) [OF tables_okD(1) [OF ok tl]] by auto
  have s': "sp' = sp \<and> s' = (if ?e AND desc_valid = 0 then s
      else set_entry t (index_of 0 v) (arm64_reprotect prot ?e) s)"
    using pr t by (auto simp: arm64_prot_page_def Let_def split: if_splits)
  have "arm64_dn (arm64_reprotect prot ?e) = Some (?e AND desc_addr_mask)"
    unfolding arm64_reprotect_def Let_def by (rule arm64_dn_built [OF reprotect_attrs])
  then have "silent arm64_dn arm64_dn s L (set_entry t (index_of 0 v) (arm64_reprotect prot ?e) s) L"
    if "?e AND desc_valid \<noteq> 0"
    using that by (intro arm64.silent_set_leaf [OF ok tl index_of_lt]) (simp add: arm64_dn_def)
  with s' silent_refl [OF ok] show ?thesis by simp
qed

lemma arm64_alloc_by:
  "arm64_alloc sz prot = alloc_by (\<lambda>va pa. arm64_map_page va pa (prot OR prot_write)) prot sz"
  by (simp add: arm64_alloc_def alloc_by_def map_fresh_def arm64_map_virt_def fun_eq_iff)

lemma arm64_create_by: "arm64_create_addr_space s = create_space s"
  by (simp add: arm64_create_addr_space_def create_space_def)

lemma arm64_write_read_plain:
  assumes ds: "data_space arm64_dn arm64_dn s L (root_pa sp) fr va (length bs) (arm64_translate_virt sp)"
  shows "\<exists>s'. arm64_write_virt s sp va bs = Inr s' \<and> tables_ok arm64_dn s' L \<and>
    (\<forall>buf. length buf = length bs \<longrightarrow> arm64_read_virt s' sp va buf = Inr bs) \<and>
    (\<forall>r p. L r = Some (3, r, 0) \<longrightarrow>
       walk arm64_dn arm64_dn (phys s') r p = walk arm64_dn arm64_dn (phys s) r p)"
proof -
  from data_space.space_write_read [OF ds refl, of "shadow sp"] obtain m' where
    "arm64_copy_virt sp True va (phys s) bs = Inr (m', bs)" "data_only arm64_dn arm64_dn s L m'"
    "\<forall>buf. length buf = length bs \<longrightarrow> arm64_copy_virt sp False va m' buf = Inr (m', bs)"
    by (auto simp: arm64_copy_virt_def)
  then show ?thesis
    by (auto simp: arm64_write_virt_def arm64_read_virt_def data_only_def)
qed

text \<open>A first allocation, the space the witnesses below work in.\<close>

lemma arm64_boot_alloc:
  "\<exists>s sp s' sp'. arm64_create_addr_space boot_mmu = Inr (s, sp) \<and>
     spaces_ok arm64_dn s {root_pa sp} \<and> phys_ok s \<and> mem_left s = 0xFFFFF000 \<and>
     kernel_root s = root_pa sp \<and>
     arm64_alloc 0x1800 prot_rw (s, sp) = Inr ((s', sp'), 0x10000) \<and>
     spaces_ok arm64_dn s' {root_pa sp'}"
proof -
  obtain s sp where b: "create_space boot_mmu = Inr (s, sp)" "phys_ok s" "mem_left s = 0xFFFFF000"
    "spaces_ok arm64_dn s {root_pa sp}" "sp = new_space (root_pa sp)" "kernel_root s = root_pa sp"
    using arm64.boot_space by blast
  have un: "user_next sp = 0x10000" using b(5) by (metis new_space_def space.select_convs(3))
  obtain s' sp' va where al: "arm64_alloc 0x1800 prot_rw (s, sp) = Inr ((s', sp'), va)"
    using arm64_maps.alloc_space_succeeds [OF b(2), of "0x1800" "prot_rw OR prot_write" prot_rw sp] b(3)
    unfolding arm64_alloc_by by (auto simp: boot_simps)
  have va: "va = 0x10000"
    using al un by (auto simp: arm64_alloc_def take_cursor_def boot_simps split: sum.splits)
  have "spaces_ok arm64_dn s' {root_pa sp} \<and> root_pa sp' = root_pa sp"
    using arm64_maps.alloc_space [OF b(4) _ al [unfolded arm64_alloc_by] _ refl refl] va by (simp add: boot_simps)
  with al b va show ?thesis by (auto simp: arm64_create_by)
qed

section \<open>Properties\<close>

text \<open>
  C10. Mapping a page of an arm64 space installs exactly that translation: every other page of
  every space keeps its own, a user page is invisible to every other space, and a space that
  shares the level 0 slot of the page sees it too.
\<close>

theorem arm64_map_page_correct:
  assumes "spaces_ok arm64_dn s R" and "root_pa sp \<in> R"
    and "arm64_map_page va pa prot (s, sp) = Inr (s', sp')"
  shows "spaces_ok arm64_dn s' R \<and>
    arm64_translate_virt sp' (phys s') va = Some (pa AND desc_addr_mask) \<and>
    umap_find (page_align va) (shadow sp') = Some pa \<and>
    (\<forall>sp2 va'. root_pa sp2 \<in> R \<and>
       (vpn va' \<noteq> vpn va \<or> root_pa sp2 \<noteq> root_pa sp \<and> index_of 3 va < 256) \<longrightarrow>
       arm64_translate_virt sp2 (phys s') va' = arm64_translate_virt sp2 (phys s) va') \<and>
    (\<forall>sp2. root_pa sp2 \<in> R \<and> shares_slot arm64_dn (phys s) (root_pa sp) (root_pa sp2) (index_of 3 va) \<longrightarrow>
       arm64_translate_virt sp2 (phys s') va = Some (pa AND desc_addr_mask))"
proof -
  obtain L where "tables_ok arm64_dn s L" "L (root_pa sp) = Some (3, root_pa sp, 0)"
    using assms(1,2) by (auto simp: spaces_ok_def)
  from arm64_map_page_remaps [OF this assms(3)]
  have sh: "shadow sp' = umap_set (page_align va) pa (shadow sp)" by blast
  from arm64_maps.map_page_space [OF assms refl]
  show ?thesis
    using assms(1,2) sh by (auto simp: arm64_translate_space umap_find_set and_addr_mask)
qed

theorem arm64_map_page_correct_witness:
  "\<exists>s sp s' sp'. arm64_create_addr_space boot_mmu = Inr (s, sp) \<and>
     arm64_map_page 0x10000 0x100005000 prot_rw (s, sp) = Inr (s', sp') \<and>
     arm64_translate_virt sp' (phys s') 0x10000 = Some 0x100005000"
proof -
  obtain s sp where b: "arm64_create_addr_space boot_mmu = Inr (s, sp)" "phys_ok s" "mem_left s = 0xFFFFF000"
    "spaces_ok arm64_dn s {root_pa sp}"
    using arm64_boot_alloc by blast
  obtain s' sp' where m: "arm64_map_page 0x10000 0x100005000 prot_rw (s, sp) = Inr (s', sp')"
    using arm64_map_page_total [where st = "(s, sp)"] b by fastforce
  have "0x100005000 AND desc_addr_mask = 0x100005000" by (simp add: desc_addr_mask_def)
  then show ?thesis
    using arm64_map_page_correct [OF b(4) _ m] b(1) m by auto
qed

text \<open>
  An arm64 allocation moves the cursor of its half by the rounded size and maps the range
  from the old cursor onto the frames of one fresh zeroed run, in order; no translation outside
  the range changes, in this space or another.
\<close>

theorem arm64_alloc_correct:
  assumes "spaces_ok arm64_dn s R" and "root_pa sp \<in> R"
    and "arm64_alloc sz prot (s, sp) = Inr ((s', sp'), va)" and "4096 dvd unat va"
    and "n = unat (size_align sz) div 4096" and "a = phys_next s"
  shows "spaces_ok arm64_dn s' R \<and> root_pa sp' = root_pa sp \<and>
    (if has_prot prot prot_supervisor
     then va = kernel_next sp \<and> kernel_next sp' = va + size_align sz \<and> user_next sp' = user_next sp
     else va = user_next sp \<and> user_next sp' = va + size_align sz \<and> kernel_next sp' = kernel_next sp) \<and>
    (\<forall>k<n. arm64_translate_virt sp' (phys s') (va + of_nat (k * 4096)) = Some (a + of_nat (k * 4096)) \<and>
       read_phys_mem (phys s') (a + of_nat (k * 4096)) (replicate 4096 0xFF) = replicate 4096 0) \<and>
    (\<forall>sp2 va'. root_pa sp2 \<in> R \<and>
       ((\<forall>k<n. vpn va' \<noteq> vpn (va + of_nat (k * 4096))) \<or>
        root_pa sp2 \<noteq> root_pa sp \<and> index_of 3 va' < 256) \<longrightarrow>
       arm64_translate_virt sp2 (phys s') va' = arm64_translate_virt sp2 (phys s) va')"
proof -
  note c = arm64_maps.alloc_space [OF assms(1,2) assms(3) [unfolded arm64_alloc_by] assms(4-6)]
  from c assms(2) have "arm64_translate_virt sp' (phys s') x = walk arm64_dn arm64_dn (phys s') (root_pa sp) x" for x
    using arm64_translate_space [of s' R sp'] by simp
  then show ?thesis using c assms(1) by (auto simp: arm64_translate_space)
qed

theorem arm64_alloc_correct_witness:
  "\<exists>s sp s' sp'. arm64_create_addr_space boot_mmu = Inr (s, sp) \<and>
     arm64_alloc 0x1800 prot_rw (s, sp) = Inr ((s', sp'), 0x10000) \<and> user_next sp' = 0x12000 \<and>
     arm64_translate_virt sp' (phys s') (0x10000 + of_nat (1 * 4096)) = Some (phys_next s + of_nat (1 * 4096))"
proof -
  obtain s sp s' sp' where b: "arm64_create_addr_space boot_mmu = Inr (s, sp)" "spaces_ok arm64_dn s {root_pa sp}"
    and al: "arm64_alloc 0x1800 prot_rw (s, sp) = Inr ((s', sp'), 0x10000)"
    using arm64_boot_alloc by blast
  have "arm64_translate_virt sp' (phys s') (0x10000 + of_nat (1 * 4096)) = Some (phys_next s + of_nat (1 * 4096)) \<and>
      user_next sp' = 0x10000 + 0x2000"
    using arm64_alloc_correct [OF b(2) _ al _ refl refl]
    by (auto simp: boot_simps dest: spec [of _ "1 :: nat"])
  then show ?thesis using b(1) al by auto
qed

text \<open>
  What is written to an allocated arm64 range is what is read back, wherever the access
  starts in it and however many pages it spans; the write disturbs no translation.
\<close>

theorem arm64_write_read_virt:
  assumes "spaces_ok arm64_dn s R" and "root_pa sp \<in> R"
    and "arm64_alloc sz prot (s, sp) = Inr ((s', sp'), va)" and "4096 dvd unat va"
    and "unat va + unat (size_align sz) \<le> 2 ^ 64" and "off + length bs \<le> unat (size_align sz)"
  shows "\<exists>s''. arm64_write_virt s' sp' (va + of_nat off) bs = Inr s'' \<and> spaces_ok arm64_dn s'' R \<and>
    arm64_read_virt s'' sp' (va + of_nat off) (replicate (length bs) 0) = Inr bs \<and>
    (\<forall>sp2 va'. root_pa sp2 \<in> R \<longrightarrow>
       arm64_translate_virt sp2 (phys s'') va' = arm64_translate_virt sp2 (phys s') va')"
proof -
  obtain L where ok: "tables_ok arm64_dn s L" and R: "\<And>r. r \<in> R \<Longrightarrow> L r = Some (3, r, 0)"
    using assms(1) by (rule spaces_okE) blast
  from arm64_maps.alloc_plain [OF ok R [OF assms(2)] assms(3) [unfolded arm64_alloc_by] assms(4,5)] assms(6)
  obtain L' where sub: "L \<subseteq>\<^sub>m L'" and ok': "tables_ok arm64_dn s' L'" and rt: "root_pa sp' = root_pa sp"
    and pl: "plain_pages arm64_dn arm64_dn s' L' (root_pa sp') (\<lambda>p. phys_next s + (p - va)) (va + of_nat off) (length bs)"
      "unat (va + of_nat off) + length bs \<le> 2 ^ 64" by blast
  have R': "L' q = Some (3, q, 0)" if "q \<in> R" for q using map_leD [OF sub R [OF that]] .
  have root': "L' (root_pa sp') = Some (3, root_pa sp', 0)" using R' [OF assms(2)] rt by simp
  have "arm64_translate_virt sp' m p = walk arm64_dn arm64_dn m (root_pa sp') p"
    if "data_only arm64_dn arm64_dn s' L' m" for m p
    using arm64_translate_walk [of "s'\<lparr>phys := m\<rparr>" L' sp' p] that root' by (simp add: data_only_def)
  then have ds: "data_space arm64_dn arm64_dn s' L' (root_pa sp') (\<lambda>p. phys_next s + (p - va)) (va + of_nat off)
      (length bs) (arm64_translate_virt sp')"
    using ok' root' pl by (intro data_space.intro) simp_all
  from arm64_write_read_plain [OF ds] obtain s'' where
    w: "arm64_write_virt s' sp' (va + of_nat off) bs = Inr s''" "tables_ok arm64_dn s'' L'"
      "arm64_read_virt s'' sp' (va + of_nat off) (replicate (length bs) 0) = Inr bs"
      "\<forall>r p. L' r = Some (3, r, 0) \<longrightarrow>
        walk arm64_dn arm64_dn (phys s'') r p = walk arm64_dn arm64_dn (phys s') r p"
    by (metis length_replicate)
  have "arm64_translate_virt sp2 (phys s'') va' = arm64_translate_virt sp2 (phys s') va'"
    if "root_pa sp2 \<in> R" for sp2 va'
    using w(4) R' [OF that] arm64_translate_walk [OF w(2) R' [OF that]] arm64_translate_walk [OF ok' R' [OF that]]
    by simp
  with w R' show ?thesis by (auto simp: spaces_ok_def)
qed

theorem arm64_write_read_virt_witness:
  "\<exists>s sp s' sp' s''. arm64_create_addr_space boot_mmu = Inr (s, sp) \<and>
     arm64_alloc 0x1800 prot_rw (s, sp) = Inr ((s', sp'), 0x10000) \<and>
     arm64_write_virt s' sp' (0x10000 + of_nat 0xFFF) [1, 2, 3] = Inr s'' \<and>
     arm64_read_virt s'' sp' (0x10000 + of_nat 0xFFF) (replicate 3 0) = Inr [1, 2, 3]"
proof -
  obtain s sp s' sp' where b: "arm64_create_addr_space boot_mmu = Inr (s, sp)" "spaces_ok arm64_dn s {root_pa sp}"
    and al: "arm64_alloc 0x1800 prot_rw (s, sp) = Inr ((s', sp'), 0x10000)"
    using arm64_boot_alloc by blast
  have len: "length [1, 2, 3 :: u8] = 3" by simp
  have "\<exists>s''. arm64_write_virt s' sp' (0x10000 + of_nat 0xFFF) [1, 2, 3] = Inr s'' \<and>
      arm64_read_virt s'' sp' (0x10000 + of_nat 0xFFF) (replicate 3 0) = Inr [1, 2, 3]"
    using arm64_write_read_virt [OF b(2) _ al, where off = "0xFFF" and bs = "[1, 2, 3]"]
    unfolding len by (auto simp: boot_simps)
  with b(1) al show ?thesis by blast
qed

text \<open>
  Unmapping an arm64 range removes the translations of its pages and of nothing else, and
  reprotecting one moves no page of any space.
\<close>

theorem arm64_unmap_prot_correct:
  assumes "spaces_ok arm64_dn s R" and "root_pa sp \<in> R" and "n = unat (size_align sz) div 4096" and "n \<le> 2 ^ 36"
    and "arm64_unmap_virt va sz (s, sp) = Inr (s', sp')" and "arm64_prot_virt va sz prot (s, sp) = Inr (t, tsp)"
  shows "spaces_ok arm64_dn s' R \<and> root_pa sp' = root_pa sp \<and>
    (\<forall>k<n. arm64_translate_virt sp' (phys s') (page_align va + of_nat (k * 4096)) = None) \<and>
    (\<forall>sp2 va'. root_pa sp2 \<in> R \<and>
       ((\<forall>k<n. vpn va' \<noteq> vpn (page_align va + of_nat (k * 4096))) \<or>
        root_pa sp2 \<noteq> root_pa sp \<and> index_of 3 va' < 256) \<longrightarrow>
       arm64_translate_virt sp2 (phys s') va' = arm64_translate_virt sp2 (phys s) va') \<and>
    spaces_ok arm64_dn t R \<and> root_pa tsp = root_pa sp \<and>
    (\<forall>sp2 va'. root_pa sp2 \<in> R \<longrightarrow>
       arm64_translate_virt sp2 (phys t) va' = arm64_translate_virt sp2 (phys s) va')"
proof -
  obtain L where ok: "tables_ok arm64_dn s L" and R: "\<And>r. r \<in> R \<Longrightarrow> L r = Some (3, r, 0)"
    using assms(1) by (rule spaces_okE) blast
  let ?V = "page_updates (page_at (page_align va) (\<lambda>off. None :: addr option)) n 0"
  have "same_space sp sp' \<and> (\<exists>L'. remaps arm64_dn arm64_dn s L s' L' (root_pa sp) ?V)"
  proof (rule for_pages_remaps [OF _ ok R [OF assms(2)]])
    show "for_pages (\<lambda>off. arm64_unmap_page (page_align va + off)) n 0 (s, sp) = Inr (s', sp')"
      using assms(3,5) by (simp add: arm64_unmap_virt_def page_loop_def Let_def)
  qed (simp add: page_at_def arm64_unmap_page_remaps)
  then obtain L' where ss: "root_pa sp' = root_pa sp"
    and r: "remaps arm64_dn arm64_dn s L s' L' (root_pa sp) ?V" by (auto simp: same_space_def)
  have "same_space sp tsp \<and> (\<exists>L'. remaps arm64_dn arm64_dn s L t L' (root_pa sp) (page_updates (\<lambda>off. Map.empty) n 0))"
  proof (rule for_pages_remaps [OF _ ok R [OF assms(2)]])
    show "for_pages (\<lambda>off. arm64_prot_page prot (page_align va + off)) n 0 (s, sp) = Inr (t, tsp)"
      using assms(3,6) by (simp add: arm64_prot_virt_def page_loop_def Let_def)
  next
    fix off :: u64 and s :: "'a table_mmu_scheme" and sp s' sp' L
    assume h: "tables_ok arm64_dn s L" "L (root_pa sp) = Some (3, root_pa sp, 0)"
      "arm64_prot_page prot (page_align va + off) (s, sp) = Inr (s', sp')"
    from arm64_prot_page_silent [OF h] have p: "sp' = sp" "silent arm64_dn arm64_dn s L s' L" by auto
    from p silent_remaps [OF p(2) h(2)]
    show "same_space sp sp' \<and> (\<exists>L'. remaps arm64_dn arm64_dn s L s' L' (root_pa sp) Map.empty)"
      by (auto simp: same_space_def)
  qed
  then obtain L2 where ts: "root_pa tsp = root_pa sp"
    and r2: "remaps arm64_dn arm64_dn s L t L2 (root_pa sp) (page_updates (\<lambda>off. Map.empty) n 0)"
    by (auto simp: same_space_def)
  have ok': "spaces_ok arm64_dn s' R" "spaces_ok arm64_dn t R"
    using remaps_spaces_ok [OF r R] remaps_spaces_ok [OF r2 R] by blast+
  have "arm64_translate_virt sp' (phys s') (page_align va + of_nat (k * 4096)) = None" if "k < n" for k
    using remapsD(3) [OF r, of "page_align va + of_nat (k * 4096)"]
      page_updates_at [OF assms(4) that, of "page_align va" "\<lambda>off. None :: addr option" 0]
      arm64_translate_space [OF ok'(1), of sp'] ss assms(2)
    by (simp del: of_nat_mult)
  moreover have "arm64_translate_virt sp2 (phys s') va' = arm64_translate_virt sp2 (phys s) va'"
    if "root_pa sp2 \<in> R" "(\<forall>k<n. vpn va' \<noteq> vpn (page_align va + of_nat (k * 4096))) \<or>
        root_pa sp2 \<noteq> root_pa sp \<and> index_of 3 va' < 256" for sp2 va'
    using remaps_isolation [OF r R that(1), of va'] that(2)
      arm64_translate_space [OF ok'(1) that(1)] arm64_translate_space [OF assms(1) that(1)]
    by (fastforce dest: page_updates_dom)
  moreover have "arm64_translate_virt sp2 (phys t) va' = arm64_translate_virt sp2 (phys s) va'"
    if "root_pa sp2 \<in> R" for sp2 va'
    using remaps_isolation [OF r2 R that, of va']
      arm64_translate_space [OF ok'(2) that] arm64_translate_space [OF assms(1) that] by simp
  ultimately show ?thesis using ok' ss ts by blast
qed

theorem arm64_unmap_prot_correct_witness:
  "\<exists>s sp s' sp' s'' sp'' t tsp. arm64_create_addr_space boot_mmu = Inr (s, sp) \<and>
     arm64_alloc 0x1800 prot_rw (s, sp) = Inr ((s', sp'), 0x10000) \<and>
     arm64_unmap_virt 0x10000 0x1800 (s', sp') = Inr (s'', sp'') \<and>
     arm64_prot_virt 0x10000 0x1800 prot_read (s', sp') = Inr (t, tsp) \<and>
     arm64_translate_virt sp'' (phys s'') (0x10000 + of_nat (0 * 4096)) = None \<and>
     arm64_translate_virt sp' (phys t) 0x11000 = arm64_translate_virt sp' (phys s') 0x11000"
proof -
  obtain s sp s' sp' where b: "arm64_create_addr_space boot_mmu = Inr (s, sp)"
    "arm64_alloc 0x1800 prot_rw (s, sp) = Inr ((s', sp'), 0x10000)" "spaces_ok arm64_dn s' {root_pa sp'}"
    using arm64_boot_alloc by blast
  have "\<exists>st'. arm64_unmap_virt 0x10000 0x1800 (s', sp') = Inr st'"
    unfolding arm64_unmap_virt_def page_loop_def Let_def
    by (rule for_pages_never_fails) (simp add: arm64_unmap_page_def Let_def split: prod.split)
  then obtain s'' sp'' where u: "arm64_unmap_virt 0x10000 0x1800 (s', sp') = Inr (s'', sp'')" by auto
  have "\<exists>st'. arm64_prot_virt 0x10000 0x1800 prot_read (s', sp') = Inr st'"
    unfolding arm64_prot_virt_def page_loop_def Let_def
    by (rule for_pages_never_fails) (simp add: arm64_prot_page_def Let_def split: prod.split)
  then obtain t tsp where p: "arm64_prot_virt 0x10000 0x1800 prot_read (s', sp') = Inr (t, tsp)" by auto
  from arm64_unmap_prot_correct [OF b(3) _ refl _ u p]
  have "arm64_translate_virt sp'' (phys s'') (0x10000 + of_nat (0 * 4096)) = None \<and>
      arm64_translate_virt sp' (phys t) 0x11000 = arm64_translate_virt sp' (phys s') 0x11000"
    by (auto simp: boot_simps dest: spec [of _ "0 :: nat"])
  with b u p show ?thesis by blast
qed

text \<open>
  A new arm64 space gets a root no space has, sees nothing in its user half, and in its
  kernel half exactly what the first space sees; the spaces there were keep every translation.
  Switching a processor to it makes it the processor's current space.
\<close>

theorem arm64_create_addr_space_correct:
  assumes "spaces_ok arm64_dn s R" and "kernel_root s = 0 \<or> kernel_root s \<in> R"
    and "arm64_create_addr_space s = Inr (s', sp)"
  shows "root_pa sp \<notin> R \<and> spaces_ok arm64_dn s' (insert (root_pa sp) R) \<and>
    kernel_root s' \<in> insert (root_pa sp) R \<and>
    arm64_curr_addr_space s' (arm64_switch_to sp cpu) = Some (root_pa sp) \<and>
    (\<forall>sp2 va. root_pa sp2 \<in> R \<longrightarrow>
       arm64_translate_virt sp2 (phys s') va = arm64_translate_virt sp2 (phys s) va) \<and>
    (\<forall>va. index_of 3 va < 256 \<longrightarrow> arm64_translate_virt sp (phys s') va = None) \<and>
    (\<forall>sp1 va. root_pa sp1 = kernel_root s \<and> kernel_root s \<noteq> 0 \<and> 256 \<le> index_of 3 va \<longrightarrow>
       arm64_translate_virt sp (phys s') va = arm64_translate_virt sp1 (phys s) va)"
proof -
  note c = arm64.create_space_correct [OF assms(1,2) assms(3) [unfolded arm64_create_by]]
  then have ok': "spaces_ok arm64_dn s' (insert (root_pa sp) R)" by blast
  then obtain L where "tables_ok arm64_dn s' L" "L (root_pa sp) = Some (3, root_pa sp, 0)"
    by (auto simp: spaces_ok_def)
  then have f: "frame_ok s' (root_pa sp)" "phys_ok s'" by (auto simp: tables_ok_def)
  then have "root_pa sp AND desc_addr_mask = root_pa sp"
    by (auto simp: and_addr_mask frame_ok_def phys_ok_def intro!: take_bit_frame)
  with c have "arm64_curr_addr_space s' (arm64_switch_to sp cpu) = Some (root_pa sp)"
    by (simp add: arm64_curr_addr_space_def arm64_switch_to_def)
  with c ok' show ?thesis
    using arm64_translate_space [OF ok'] arm64_translate_space [OF assms(1)] assms(2) by auto
qed

theorem arm64_create_addr_space_correct_witness:
  "\<exists>s sp s' sp'. arm64_create_addr_space boot_mmu = Inr (s, sp) \<and> arm64_create_addr_space s = Inr (s', sp') \<and>
     root_pa sp' \<noteq> root_pa sp \<and>
     arm64_translate_virt sp' (phys s') 0xFFFFF80000000000 = arm64_translate_virt sp (phys s) 0xFFFFF80000000000"
proof -
  obtain s sp where b: "arm64_create_addr_space boot_mmu = Inr (s, sp)" "phys_ok s" "mem_left s = 0xFFFFF000"
    "spaces_ok arm64_dn s {root_pa sp}" "kernel_root s = root_pa sp"
    using arm64_boot_alloc by blast
  obtain s' sp' where c: "arm64_create_addr_space s = Inr (s', sp')"
    using alloc_page_total [OF b(2)] b(3) by (auto simp: arm64_create_addr_space_def Let_def)
  have "root_pa sp \<noteq> 0"
    using b(4) by (auto simp: spaces_ok_def dest: tables_okD(1) frame_okD(3))
  moreover have "256 \<le> index_of 3 0xFFFFF80000000000" by (simp add: index_of_vpn vpn_def)
  ultimately show ?thesis
    using arm64_create_addr_space_correct [OF b(4) _ c] b(1,5) c by auto
qed

end
