(* ===== verification/Pool_Memory.thy ===== *)
theory Pool_Memory
  imports Pool X86_Mmu Arm64_Mmu
begin

text \<open>
  The address spaces as sources of pool runs. The kernel cursor of a space starts at
  \<open>0xFFFFF80000000000\<close> and each run is backed by as many bytes of guest physical memory as it
  advances the cursor, so what is left of that memory bounds how far the cursor can go and it
  never wraps. With that both memory units meet the contract \<open>run_source\<close>, and the pool's
  allocation and free are correct over the program's own address spaces.
\<close>

section \<open>Physical memory only grows\<close>

definition grows :: "'a mmu_base_scheme \<Rightarrow> 'a mmu_base_scheme \<Rightarrow> bool" where
  "grows s s' \<longleftrightarrow> phys_ok s' \<and> unat (phys_next s) \<le> unat (phys_next s')"

lemma grows_refl: "phys_ok s \<Longrightarrow> grows s s"
  by (simp add: grows_def)

lemma grows_trans [trans]: "grows s s1 \<Longrightarrow> grows s1 s2 \<Longrightarrow> grows s s2"
  by (simp add: grows_def)

lemma grows_ok: "grows s s' \<Longrightarrow> phys_ok s'"
  by (simp add: grows_def)

lemma grows_set_entry: "grows s s' \<Longrightarrow> grows s (set_entry t i e s')"
  by (simp add: grows_def set_entry_def write_phys64_def)

lemma grows_frame: "grows s s1 \<Longrightarrow> phys s' = phys s1 \<Longrightarrow> phys_next s' = phys_next s1 \<Longrightarrow> grows s s'"
  by (simp add: grows_def phys_ok_def)

lemma grows_alloc: "alloc_phys_locked s sz = Inr (s', a) \<Longrightarrow> phys_ok s \<Longrightarrow> grows s s'"
  using alloc_phys_lockedE(1,3) [of s sz s' a] phys_ok_alloc [of s sz s' a] by (simp add: grows_def)

lemmas grows_intros = grows_set_entry grows_refl

locale growing_mapper =
  fixes mp :: "addr \<Rightarrow> addr \<Rightarrow> 's mmu_base_scheme \<times> space \<Rightarrow> emu_error + 's mmu_base_scheme \<times> space"
  assumes mp_grows: "phys_ok s \<Longrightarrow> mp va pa (s, sp) = Inr (s', sp') \<Longrightarrow> grows s s' \<and> same_space sp sp'"
begin

lemma run_grows:
  "phys_ok s \<Longrightarrow> for_pages (\<lambda>off. mp (start + off) (pa + off)) n off (s, sp) = Inr (s', sp') \<Longrightarrow>
     grows s s' \<and> same_space sp sp'"
proof (induction n arbitrary: off s sp)
  case (Suc n)
  then obtain s1 sp1 where a: "mp (start + off) (pa + off) (s, sp) = Inr (s1, sp1)"
    and b: "for_pages (\<lambda>off. mp (start + off) (pa + off)) n (off + page_size) (s1, sp1) = Inr (s', sp')"
    by (auto split: sum.splits)
  from mp_grows [OF Suc.prems(1) a] Suc.IH [OF _ b] show ?case
    by (auto simp: same_space_def dest: grows_ok intro: grows_trans)
qed (auto simp: grows_refl same_space_def)

lemma alloc_advance:
  assumes "phys_ok s" and "alloc_by mp prot sz (s, sp) = Inr ((s', sp'), va)"
  shows "phys_ok s' \<and> unat (phys_next s) + unat (size_align sz) \<le> unat (phys_next s') \<and>
    (has_prot prot prot_supervisor \<longrightarrow> va = kernel_next sp \<and> kernel_next sp' = va + size_align sz)"
proof -
  have up: "align_up 0x1000 sz = size_align sz" by (simp add: align_up_def size_align_def page_size_def)
  have idem: "size_align (size_align sz) = size_align sz"
    by (rule size_align_aligned [OF page_aligned_size_align])
  obtain sp1 where tc: "take_cursor prot (size_align sz) sp = (sp1, va)"
    and mv: "map_fresh mp va (size_align sz) (s, sp1) = Inr (s', sp')"
    using assms(2) by (auto simp: alloc_by_def Let_def up split: prod.splits sum.splits)
  then obtain s1 a n where al: "alloc_phys_locked s (size_align sz) = Inr (s1, a)"
    and run: "for_pages (\<lambda>off. mp (page_align va + off) (a + off)) n 0 (s1, sp1) = Inr (s', sp')"
    by (auto simp: map_fresh_def page_loop_def Let_def idem split: sum.splits)
  from run_grows [OF phys_ok_alloc [OF al assms(1)] run] have "grows s1 s'" "same_space sp1 sp'" by auto
  with alloc_phys_lockedE [OF al assms(1)] tc show ?thesis
    by (auto simp: grows_def same_space_def take_cursor_def idem split: if_splits)
qed

end

lemma x86_ensure_grows: "phys_ok s \<Longrightarrow> x86_ensure_table P user s t i = Inr (s', c) \<Longrightarrow> grows s s'"
  by (auto simp: x86_ensure_table_def Let_def intro: grows_intros grows_alloc split: if_splits sum.splits)

lemma arm64_ensure_grows: "phys_ok s \<Longrightarrow> arm64_ensure_table s t i = Inr (s', c) \<Longrightarrow> grows s s'"
  by (auto simp: arm64_ensure_table_def Let_def intro: grows_intros grows_alloc split: if_splits sum.splits)

interpretation x86_growing: growing_mapper "\<lambda>va pa. x86_map_page P va pa prot" for P prot
proof
  fix s :: "'s table_mmu_scheme" and sp va pa s' sp'
  assume ok: "phys_ok s" and mp: "x86_map_page P va pa prot (s, sp) = Inr (s', sp')"
  let ?v = "page_align va" and ?u = "\<not> has_prot prot prot_supervisor"
  from mp obtain s1 t1 s2 t2 s3 t3 where
    e: "x86_ensure_table P ?u s (root_pa sp) (index_of 3 ?v) = Inr (s1, t1)"
      "x86_ensure_table P ?u s1 t1 (index_of 2 ?v) = Inr (s2, t2)"
      "x86_ensure_table P ?u s2 t2 (index_of 1 ?v) = Inr (s3, t3)"
    and r: "phys s' = phys (set_entry t3 (index_of 0 ?v) (x86_leaf (pte_64 P) pa prot) s3)"
      "phys_next s' = phys_next s3" "same_space sp sp'"
    by (auto simp: x86_map_page_def Let_def note_page_def same_space_def split: sum.splits)
  have "grows s s3"
    using x86_ensure_grows [OF ok e(1)] x86_ensure_grows [OF _ e(2)] x86_ensure_grows [OF _ e(3)]
    by (meson grows_ok grows_trans)
  from grows_frame [OF grows_set_entry [OF this] r(1)] r show "grows s s' \<and> same_space sp sp'"
    by (simp add: set_entry_def)
qed

interpretation arm64_growing: growing_mapper "\<lambda>va pa. arm64_map_page va pa prot" for prot
proof
  fix s :: "'s table_mmu_scheme" and sp va pa s' sp'
  assume ok: "phys_ok s" and mp: "arm64_map_page va pa prot (s, sp) = Inr (s', sp')"
  let ?v = "page_align va"
  from mp obtain s1 t1 s2 t2 s3 t3 where
    e: "arm64_ensure_table s (root_pa sp) (index_of 3 ?v) = Inr (s1, t1)"
      "arm64_ensure_table s1 t1 (index_of 2 ?v) = Inr (s2, t2)"
      "arm64_ensure_table s2 t2 (index_of 1 ?v) = Inr (s3, t3)"
    and r: "phys s' = phys (set_entry t3 (index_of 0 ?v) ((pa AND desc_addr_mask) OR page_attrs prot) s3)"
      "phys_next s' = phys_next s3" "same_space sp sp'"
    by (auto simp: arm64_map_page_def Let_def note_page_def same_space_def split: sum.splits)
  have "grows s s3"
    using arm64_ensure_grows [OF ok e(1)] arm64_ensure_grows [OF _ e(2)] arm64_ensure_grows [OF _ e(3)]
    by (meson grows_ok grows_trans)
  from grows_frame [OF grows_set_entry [OF this] r(1)] r show "grows s s' \<and> same_space sp sp'"
    by (simp add: set_entry_def)
qed

section \<open>Both units are run sources\<close>

lemma copy_keeps_ok:
  "copy_pages tr sh True va pos m buf = Inr (m', buf') \<Longrightarrow> phys_ok (s\<lparr>phys := m\<rparr>) \<Longrightarrow> phys_ok (s\<lparr>phys := m'\<rparr>)"
proof (induction tr sh True va pos m buf rule: copy_pages.induct)
  case (1 tr sh va pos m buf)
  let ?f = "case tr m (page_align (va + of_nat pos)) of Some f \<Rightarrow> Some f
    | None \<Rightarrow> umap_find (page_align (va + of_nat pos)) sh"
  have w: "phys_ok (s\<lparr>phys := write_phys_mem m x ws\<rparr>)" for x ws
    using "1.prems"(2) phys_ok_write [of "s\<lparr>phys := m\<rparr>" x ws] by simp
  show ?case
  proof (cases "pos < length buf")
    case True
    with "1.prems"(1) obtain f where f: "?f = Some f" by (subst (asm) copy_pages.simps) (auto simp: Let_def split: option.splits)
    show ?thesis
      using "1.prems"(1) "1.hyps"(1) [OF True refl refl refl refl refl f refl _ _ w]
      by (subst (asm) copy_pages.simps) (simp add: True f Let_def)
  next
    case False
    with "1.prems" show ?thesis by (subst (asm) copy_pages.simps) auto
  qed
qed

text \<open>The cursor is page aligned and what it can still advance by is bounded by the memory left.\<close>

definition run_inv :: "'a table_mmu_scheme \<times> space \<Rightarrow> bool" where
  "run_inv = (\<lambda>(s, sp). phys_ok s \<and> 4096 dvd unat (kernel_next sp) \<and>
     unat (kernel_next sp) + mem_left s < 2 ^ 64)"

definition run_limit :: "'a table_mmu_scheme \<times> space \<Rightarrow> nat" where
  "run_limit = (\<lambda>(s, sp). unat (kernel_next sp))"

lemma supervisor_run: "has_prot (prot_rw OR prot_supervisor) prot_supervisor"
  by (simp add: prot_rw_def prot_read_def prot_write_def prot_supervisor_def)

lemma run_source_alloc:
  assumes "growing_mapper mp" and "run_inv mem" and "4096 dvd unat sz"
    and "alloc_by mp (prot_rw OR prot_supervisor) sz mem = Inr (mem', base)"
  shows "run_inv mem' \<and> 4096 dvd unat base \<and> unat base = run_limit mem \<and> run_limit mem' = run_limit mem + unat sz"
proof -
  obtain s sp s' sp' where m: "mem = (s, sp)" "mem' = (s', sp')" by (cases mem, cases mem')
  have sa: "size_align sz = sz" using assms(3) by (rule size_align_aligned)
  note inv = assms(2) [unfolded run_inv_def m split_conv]
  have a: "phys_ok s'" "unat (phys_next s) + unat sz \<le> unat (phys_next s')" "base = kernel_next sp"
    "kernel_next sp' = base + sz"
    using growing_mapper.alloc_advance [OF assms(1) _ assms(4) [unfolded m]] inv supervisor_run sa by auto
  have left: "unat sz + mem_left s' \<le> mem_left s" using a by (simp add: mem_left_def phys_ok_def)
  then have "unat (base + sz) = unat base + unat sz"
    using inv a(3) by (intro unat_add_no_overflow) (elim conjE, simp)
  with a inv left assms(3) show ?thesis by (simp add: m run_inv_def run_limit_def)
qed

lemma run_source_write:
  assumes "run_inv (s, sp)" and "copy_pages tr sh True va 0 (phys s) bs = Inr (m, bs')"
  shows "run_inv (s\<lparr>phys := m\<rparr>, sp)"
  using copy_keeps_ok [OF assms(2), of s] assms(1) by (simp add: run_inv_def mem_left_def)

definition x86_wr :: "ia32 \<Rightarrow> addr \<Rightarrow> u8 list \<Rightarrow> 'a table_mmu_scheme \<times> space \<Rightarrow> emu_error + 'a table_mmu_scheme \<times> space" where
  "x86_wr P a bs = (\<lambda>(s, sp). map_sum id (\<lambda>s'. (s', sp)) (x86_write_virt P s sp a bs))"

definition arm64_wr :: "addr \<Rightarrow> u8 list \<Rightarrow> 'a table_mmu_scheme \<times> space \<Rightarrow> emu_error + 'a table_mmu_scheme \<times> space" where
  "arm64_wr a bs = (\<lambda>(s, sp). map_sum id (\<lambda>s'. (s', sp)) (arm64_write_virt s sp a bs))"

interpretation x86_runs: run_source "x86_alloc P" "x86_wr P" run_inv run_limit for P
proof
  fix mem mem' :: "'a table_mmu_scheme \<times> space" and sz base
  assume "run_inv mem" "4096 dvd unat sz" "x86_alloc P sz (prot_rw OR prot_supervisor) mem = Inr (mem', base)"
  then show "run_inv mem' \<and> 4096 dvd unat base \<and> unat base = run_limit mem \<and> run_limit mem' = run_limit mem + unat sz"
    unfolding x86_alloc_by by (rule run_source_alloc [OF x86_growing.growing_mapper_axioms])
next
  fix mem :: "'a table_mmu_scheme \<times> space"
  show "run_inv mem \<Longrightarrow> run_limit mem < 2 ^ 64" by (cases mem) (simp add: run_inv_def run_limit_def)
next
  fix mem mem' :: "'a table_mmu_scheme \<times> space" and a bs
  assume "run_inv mem" "x86_wr P a bs mem = Inr mem'"
  then show "run_inv mem' \<and> run_limit mem' = run_limit mem"
    by (cases mem) (auto simp: x86_wr_def x86_write_virt_def x86_copy_virt_def map_sum_def run_limit_def
        intro: run_source_write split: sum.splits)
qed

interpretation arm64_runs: run_source arm64_alloc arm64_wr run_inv run_limit
proof
  fix mem mem' :: "'a table_mmu_scheme \<times> space" and sz base
  assume "run_inv mem" "4096 dvd unat sz" "arm64_alloc sz (prot_rw OR prot_supervisor) mem = Inr (mem', base)"
  then show "run_inv mem' \<and> 4096 dvd unat base \<and> unat base = run_limit mem \<and> run_limit mem' = run_limit mem + unat sz"
    unfolding arm64_alloc_by by (rule run_source_alloc [OF arm64_growing.growing_mapper_axioms])
next
  fix mem :: "'a table_mmu_scheme \<times> space"
  show "run_inv mem \<Longrightarrow> run_limit mem < 2 ^ 64" by (cases mem) (simp add: run_inv_def run_limit_def)
next
  fix mem mem' :: "'a table_mmu_scheme \<times> space" and a bs
  assume "run_inv mem" "arm64_wr a bs mem = Inr mem'"
  then show "run_inv mem' \<and> run_limit mem' = run_limit mem"
    by (cases mem) (auto simp: arm64_wr_def arm64_write_virt_def arm64_copy_virt_def map_sum_def run_limit_def
        intro: run_source_write split: sum.splits)
qed

section \<open>Allocation and free over the program's address spaces\<close>

text \<open>A first allocation of \<open>0x40\<close> bytes draws a run and takes its beginning.\<close>

lemma first_allocation:
  assumes "alloc 0x100000 (prot_rw OR prot_supervisor) mem = Inr (mem', base)" and "16 dvd unat base"
    and "unat base + 0x100000 < 2 ^ 64"
  shows "\<exists>m'. pool_allocate alloc wr 0x40 t False (mem, []) = Inr ((mem', m'), base)"
proof -
  have "align_up 0x10 base = base" using align_up_aligned [of 4 base] assms(2,3) by simp
  moreover have "align_up 0x10 0x40 = 0x40" "align_up 0x1000 0x100000 = 0x100000" by (simp_all add: align_up_def)
  moreover have "max 0x50 0x100000 = (0x100000 :: u64)" by (simp add: max_def)
  ultimately show ?thesis using assms(1)
    by (simp add: pool_allocate_def pool_reserve_def pool_page_size_def pool_alignment_def run_size_def Let_def)
qed

lemma pool_ok_empty: "pool_ok hi [] \<longleftrightarrow> 1 \<le> hi \<and> hi < 2 ^ 64" "allocated [] = Map.empty"
  by (auto simp: pool_ok_def allocated_def smap_find_def)

lemma boot_pool:
  assumes "sp = new_space r" and "phys_ok s" and "mem_left s = 0xFFFFF000" and "growing_mapper mp"
    and al: "alloc 0x100000 (prot_rw OR prot_supervisor) = alloc_by mp (prot_rw OR prot_supervisor) 0x100000"
    and ok: "\<exists>st va. alloc_by mp (prot_rw OR prot_supervisor) 0x100000 (s, sp) = Inr (st, va)"
  shows "run_inv (s, sp)" and "pool_ok (run_limit (s, sp)) []"
    and "\<exists>mem' m'. pool_allocate alloc wr 0x40 t False ((s, sp), []) = Inr ((mem', m'), 0xFFFFF80000000000)"
proof -
  have k: "kernel_next sp = 0xFFFFF80000000000" by (simp add: assms(1) new_space_def)
  show inv: "run_inv (s, sp)" using assms(2,3) by (simp add: run_inv_def k)
  show "pool_ok (run_limit (s, sp)) []" by (simp add: pool_ok_empty run_limit_def k)
  obtain mem' base where a: "alloc_by mp (prot_rw OR prot_supervisor) 0x100000 (s, sp) = Inr (mem', base)"
    using ok by blast
  have "unat base = run_limit (s, sp)" using run_source_alloc [OF assms(4) inv _ a] by simp
  then have b: "base = 0xFFFFF80000000000" by (simp add: run_limit_def k word_unat_eq_iff)
  show "\<exists>mem' m'. pool_allocate alloc wr 0x40 t False ((s, sp), []) = Inr ((mem', m'), 0xFFFFF80000000000)"
    using first_allocation [of alloc "(s, sp)" mem' base wr t] a b al by fastforce
qed

lemma size_align_run: "size_align 0x100000 = 0x100000"
  by (rule size_align_aligned) simp

lemma x86_boot_pool:
  "\<exists>s sp mem' m'. x86_create_addr_space boot_mmu = Inr (s, sp) \<and> run_inv (s, sp) \<and> pool_ok (run_limit (s, sp)) [] \<and>
     pool_allocate (x86_alloc intel_ia32) (x86_wr intel_ia32) 0x40 t False ((s, sp), []) =
       Inr ((mem', m'), 0xFFFFF80000000000)"
proof -
  obtain s sp where b: "create_space boot_mmu = Inr (s, sp)" "phys_ok s" "mem_left s = 0xFFFFF000"
    "sp = new_space (root_pa sp)" using intel.boot_space by blast
  have "4 * unat (size_align 0x100000) \<le> mem_left s" by (simp add: size_align_run b(3))
  from boot_pool [where alloc = "x86_alloc intel_ia32" and
      mp = "\<lambda>va pa. x86_map_page intel_ia32 va pa (prot_rw OR prot_supervisor)", OF b(4,2,3) x86_growing.growing_mapper_axioms x86_alloc_by
      intel.maps.alloc_space_succeeds [OF b(2) this]] b(1)
  show ?thesis unfolding x86_create_by by blast
qed

lemma arm64_boot_pool:
  "\<exists>s sp mem' m'. arm64_create_addr_space boot_mmu = Inr (s, sp) \<and> run_inv (s, sp) \<and> pool_ok (run_limit (s, sp)) [] \<and>
     pool_allocate arm64_alloc arm64_wr 0x40 t False ((s, sp), []) = Inr ((mem', m'), 0xFFFFF80000000000)"
proof -
  obtain s sp where b: "create_space boot_mmu = Inr (s, sp)" "phys_ok s" "mem_left s = 0xFFFFF000"
    "sp = new_space (root_pa sp)" using arm64.boot_space by blast
  have "4 * unat (size_align 0x100000) \<le> mem_left s" by (simp add: size_align_run b(3))
  from boot_pool [where alloc = arm64_alloc and
      mp = "\<lambda>va pa. arm64_map_page va pa ((prot_rw OR prot_supervisor) OR prot_write)", OF b(4,2,3) arm64_growing.growing_mapper_axioms arm64_alloc_by
      arm64_maps.alloc_space_succeeds [OF b(2) this]] b(1)
  show ?thesis unfolding arm64_create_by by blast
qed

text \<open>
  A pool allocation over an x86 address space returns a non-zero address that held no
  live allocation, aligned to 16 bytes, or to a page from a page up; it adds exactly that
  entry, with the size and tag asked for, keeps the blocks disjoint and inside the kernel
  range handed out so far, and a zeroing request ends by writing that many zeroes there.
\<close>

theorem x86_pool_allocate_correct:
  assumes "run_inv mem" and "pool_ok (run_limit mem) m" and "unat sz + 0x3000 < 2 ^ 64" and "0 < unat sz"
    and "pool_allocate (x86_alloc P) (x86_wr P) sz t zero (mem, m) = Inr ((mem', m'), a)"
  shows "run_inv mem' \<and> pool_ok (run_limit mem') m' \<and> allocated m a = None \<and>
    allocated m' = (allocated m)(a \<mapsto> (sz, t)) \<and> a \<noteq> 0 \<and>
    (if 4096 \<le> unat sz then 4096 else 16) dvd unat a \<and> unat a + unat sz \<le> run_limit mem' \<and>
    (zero \<longrightarrow> (\<exists>mem1. x86_wr P a (replicate (unat sz) 0) mem1 = Inr mem'))"
  using x86_runs.allocate_correct [OF assms] by blast

theorem x86_pool_allocate_correct_witness:
  "\<exists>s sp mem' m'. x86_create_addr_space boot_mmu = Inr (s, sp) \<and>
     pool_allocate (x86_alloc intel_ia32) (x86_wr intel_ia32) 0x40 0x6B626174 False ((s, sp), []) =
       Inr ((mem', m'), 0xFFFFF80000000000) \<and>
     allocated m' 0xFFFFF80000000000 = Some (0x40, 0x6B626174)"
proof -
  obtain s sp mem' m' where b: "x86_create_addr_space boot_mmu = Inr (s, sp)" "run_inv (s, sp)" "pool_ok (run_limit (s, sp)) []"
    and al: "pool_allocate (x86_alloc intel_ia32) (x86_wr intel_ia32) 0x40 0x6B626174 False ((s, sp), []) =
       Inr ((mem', m'), 0xFFFFF80000000000)"
    using x86_boot_pool by blast
  from x86_pool_allocate_correct [OF b(2,3) _ _ al] b(1) al show ?thesis by auto
qed

text \<open>
  C16. Freeing an address with no live allocation changes nothing and reports nothing, which
  covers a double free and a pointer into the middle of a block. Freeing a live one reports
  the size and tag it was allocated with and removes that entry and no other, whichever
  neighbours are coalesced.
\<close>

theorem pool_free_exact:
  assumes "pool_ok hi m"
  shows "case allocated m a of
      None \<Rightarrow> pool_free a m = (m, None)
    | Some r \<Rightarrow> \<exists>m'. pool_free a m = (m', Some r) \<and> pool_ok hi m' \<and>
        allocated m' = (allocated m)(a := None) \<and> pool_free a m' = (m', None)"
proof (cases "allocated m a")
  case (Some r)
  then obtain m' where "pool_free a m = (m', Some r)" "pool_ok hi m'" "allocated m' = (allocated m)(a := None)"
    by (rule pool_free_correct [OF assms])
  then show ?thesis using Some pool_free_absent [of m' a] by simp
qed (simp add: pool_free_absent)

theorem pool_free_exact_witness:
  "pool_free 0x1010 [(0x1000, new_block 0x10), (0x1010, \<lparr>bsize = 0x20, requested = 0x18, btag = 7, bfree = False\<rparr>),
     (0x1030, new_block 0xFD0)] = ([(0x1000, new_block 0x1000)], Some (0x18, 7)) \<and>
   pool_ok 0x2000 [(0x1000, new_block 0x1000)]"
proof -
  let ?m = "[(0x1000, new_block 0x10), (0x1010, \<lparr>bsize = 0x20, requested = 0x18, btag = 7, bfree = False\<rparr>),
     (0x1030, new_block 0xFD0)] :: pool"
  have ok: "pool_ok 0x2000 ?m" by (simp add: pool_ok_def block_ok_def)
  have fr: "pool_free 0x1010 ?m = ([(0x1000, new_block 0x1000)], Some (0x18, 7))" by code_simp
  have "allocated ?m 0x1010 = Some (0x18, 7)" by code_simp
  with pool_free_exact [OF ok, of "0x1010"] fr show ?thesis by auto
qed

text \<open>
  Allocating from the pool of an arm64 address space and freeing the result gives back
  the size and tag and leaves the live allocations as they were.
\<close>

theorem arm64_pool_round_trip:
  assumes "run_inv mem" and "pool_ok (run_limit mem) m" and "unat sz + 0x3000 < 2 ^ 64" and "0 < unat sz"
    and "pool_allocate arm64_alloc arm64_wr sz t zero (mem, m) = Inr ((mem', m'), a)"
  shows "\<exists>m''. pool_free a m' = (m'', Some (sz, t)) \<and> allocated m'' = allocated m \<and>
    run_inv mem' \<and> pool_ok (run_limit mem') m''"
proof -
  note al = arm64_runs.allocate_correct [OF assms]
  obtain m'' where "pool_free a m' = (m'', Some (sz, t))" "pool_ok (run_limit mem') m''"
    "allocated m'' = (allocated m')(a := None)"
    using pool_free_correct [OF al(2), of a "(sz, t)"] al(4) by auto
  with al show ?thesis by (auto simp: fun_upd_idem)
qed

theorem arm64_pool_round_trip_witness:
  "\<exists>s sp mem' m' m''. arm64_create_addr_space boot_mmu = Inr (s, sp) \<and>
     pool_allocate arm64_alloc arm64_wr 0x40 0x6B626174 False ((s, sp), []) = Inr ((mem', m'), 0xFFFFF80000000000) \<and>
     pool_free 0xFFFFF80000000000 m' = (m'', Some (0x40, 0x6B626174)) \<and> allocated m'' = Map.empty"
proof -
  obtain s sp mem' m' where b: "arm64_create_addr_space boot_mmu = Inr (s, sp)" "run_inv (s, sp)" "pool_ok (run_limit (s, sp)) []"
    and al: "pool_allocate arm64_alloc arm64_wr 0x40 0x6B626174 False ((s, sp), []) =
       Inr ((mem', m'), 0xFFFFF80000000000)"
    using arm64_boot_pool by blast
  from arm64_pool_round_trip [OF b(2,3) _ _ al] b(1) al show ?thesis by (auto simp: pool_ok_empty)
qed

end
