(* ===== verification/Nt_Defs.thy ===== *)
theory Nt_Defs
  imports Prelude
begin

text \<open>
  The status codes of \<open>src/kernel/win/status.hpp\<close> and the memory constants of
  \<open>src/kernel/win/win_user_mem.hpp\<close>.
\<close>

type_synonym NTSTATUS = u32

definition STATUS_SUCCESS :: NTSTATUS where "STATUS_SUCCESS = 0x00000000"
definition STATUS_INVALID_PARAMETER :: NTSTATUS where "STATUS_INVALID_PARAMETER = 0xC000000D"
definition STATUS_NO_MEMORY :: NTSTATUS where "STATUS_NO_MEMORY = 0xC0000017"
definition STATUS_ACCESS_VIOLATION :: NTSTATUS where "STATUS_ACCESS_VIOLATION = 0xC0000005"
definition STATUS_ACCESS_DENIED :: NTSTATUS where "STATUS_ACCESS_DENIED = 0xC0000022"
definition STATUS_PRIVILEGE_NOT_HELD :: NTSTATUS where "STATUS_PRIVILEGE_NOT_HELD = 0xC0000061"
definition STATUS_OBJECT_NAME_NOT_FOUND :: NTSTATUS where "STATUS_OBJECT_NAME_NOT_FOUND = 0xC0000034"
definition STATUS_NOT_IMPLEMENTED :: NTSTATUS where "STATUS_NOT_IMPLEMENTED = 0xC0000002"
definition STATUS_INVALID_HANDLE :: NTSTATUS where "STATUS_INVALID_HANDLE = 0xC0000008"
definition STATUS_CONFLICTING_ADDRESSES :: NTSTATUS where "STATUS_CONFLICTING_ADDRESSES = 0xC0000018"
definition STATUS_UNABLE_TO_FREE_VM :: NTSTATUS where "STATUS_UNABLE_TO_FREE_VM = 0xC000001C"
definition STATUS_MEMORY_NOT_ALLOCATED :: NTSTATUS where "STATUS_MEMORY_NOT_ALLOCATED = 0xC00000A0"
definition STATUS_BUFFER_TOO_SMALL :: NTSTATUS where "STATUS_BUFFER_TOO_SMALL = 0xC0000023"
definition STATUS_UNSUCCESSFUL :: NTSTATUS where "STATUS_UNSUCCESSFUL = 0xC0000001"
definition STATUS_INVALID_CID :: NTSTATUS where "STATUS_INVALID_CID = 0xC000000B"
definition STATUS_PROCEDURE_NOT_FOUND :: NTSTATUS where "STATUS_PROCEDURE_NOT_FOUND = 0xC000007A"
definition STATUS_INSUFFICIENT_RESOURCES :: NTSTATUS where "STATUS_INSUFFICIENT_RESOURCES = 0xC000009A"
definition STATUS_NOT_SUPPORTED :: NTSTATUS where "STATUS_NOT_SUPPORTED = 0xC00000BB"
definition STATUS_INVALID_DEVICE_REQUEST :: NTSTATUS where "STATUS_INVALID_DEVICE_REQUEST = 0xC0000010"
definition STATUS_PROCESS_IS_TERMINATING :: NTSTATUS where "STATUS_PROCESS_IS_TERMINATING = 0xC000010A"
definition STATUS_INVALID_PARAMETER_2 :: NTSTATUS where "STATUS_INVALID_PARAMETER_2 = 0xC00000F0"
definition STATUS_BUFFER_OVERFLOW :: NTSTATUS where "STATUS_BUFFER_OVERFLOW = 0x80000005"
definition STATUS_INVALID_ADDRESS :: NTSTATUS where "STATUS_INVALID_ADDRESS = 0xC0000141"
definition STATUS_INVALID_INFO_CLASS :: NTSTATUS where "STATUS_INVALID_INFO_CLASS = 0xC0000003"
definition STATUS_OBJECT_NAME_INVALID :: NTSTATUS where "STATUS_OBJECT_NAME_INVALID = 0xC0000033"
definition STATUS_INVALID_PARAMETER_1 :: NTSTATUS where "STATUS_INVALID_PARAMETER_1 = 0xC00000EF"
definition STATUS_INVALID_PARAMETER_5 :: NTSTATUS where "STATUS_INVALID_PARAMETER_5 = 0xC00000F3"
definition STATUS_WMI_GUID_NOT_FOUND :: NTSTATUS where "STATUS_WMI_GUID_NOT_FOUND = 0xC0000295"
definition STATUS_NO_MORE_ENTRIES :: NTSTATUS where "STATUS_NO_MORE_ENTRIES = 0x8000001A"
definition STATUS_MORE_ENTRIES :: NTSTATUS where "STATUS_MORE_ENTRIES = 0x00000105"
definition STATUS_DEBUGGER_INACTIVE :: NTSTATUS where "STATUS_DEBUGGER_INACTIVE = 0xC0000354"
definition STATUS_OBJECT_NAME_COLLISION :: NTSTATUS where "STATUS_OBJECT_NAME_COLLISION = 0xC0000035"
definition STATUS_INFO_LENGTH_MISMATCH :: NTSTATUS where "STATUS_INFO_LENGTH_MISMATCH = 0xC0000004"
definition STATUS_MAPPED_FILE_SIZE_ZERO :: NTSTATUS where "STATUS_MAPPED_FILE_SIZE_ZERO = 0xC000011E"
definition STATUS_IMAGE_NOT_AT_BASE :: NTSTATUS where "STATUS_IMAGE_NOT_AT_BASE = 0x40000003"
definition STATUS_INVALID_FILE_FOR_SECTION :: NTSTATUS where "STATUS_INVALID_FILE_FOR_SECTION = 0xC0000020"
definition STATUS_INVALID_IMAGE_FORMAT :: NTSTATUS where "STATUS_INVALID_IMAGE_FORMAT = 0xC000007B"
definition STATUS_END_OF_FILE :: NTSTATUS where "STATUS_END_OF_FILE = 0xC0000011"
definition STATUS_NO_MORE_FILES :: NTSTATUS where "STATUS_NO_MORE_FILES = 0x80000006"
definition STATUS_FILE_IS_A_DIRECTORY :: NTSTATUS where "STATUS_FILE_IS_A_DIRECTORY = 0xC00000BA"
definition STATUS_NOT_A_DIRECTORY :: NTSTATUS where "STATUS_NOT_A_DIRECTORY = 0xC0000103"
definition STATUS_SEMAPHORE_LIMIT_EXCEEDED :: NTSTATUS where "STATUS_SEMAPHORE_LIMIT_EXCEEDED = 0xC0000047"
definition STATUS_MUTANT_NOT_OWNED :: NTSTATUS where "STATUS_MUTANT_NOT_OWNED = 0xC0000046"
definition STATUS_PORT_NOT_SET :: NTSTATUS where "STATUS_PORT_NOT_SET = 0xC0000353"
definition STATUS_INVALID_SIGNATURE :: NTSTATUS where "STATUS_INVALID_SIGNATURE = 0xC000A000"
definition STATUS_INVALID_IMAGE_HASH :: NTSTATUS where "STATUS_INVALID_IMAGE_HASH = 0xC0000428"
definition STATUS_TIMEOUT :: NTSTATUS where "STATUS_TIMEOUT = 0x00000102"
definition STATUS_PENDING :: NTSTATUS where "STATUS_PENDING = 0x00000103"
definition STATUS_NO_TOKEN :: NTSTATUS where "STATUS_NO_TOKEN = 0xC000007C"
definition STATUS_NOT_FOUND :: NTSTATUS where "STATUS_NOT_FOUND = 0xC0000225"
definition STATUS_TOO_LATE :: NTSTATUS where "STATUS_TOO_LATE = 0xC0000189"
definition STATUS_OBJECT_TYPE_MISMATCH :: NTSTATUS where "STATUS_OBJECT_TYPE_MISMATCH = 0xC0000024"
definition STATUS_PORT_DISCONNECTED :: NTSTATUS where "STATUS_PORT_DISCONNECTED = 0xC0000037"
definition STATUS_INVALID_PARAMETER_4 :: NTSTATUS where "STATUS_INVALID_PARAMETER_4 = 0xC00000F2"
definition STATUS_ILLEGAL_FUNCTION :: NTSTATUS where "STATUS_ILLEGAL_FUNCTION = 0xC00000AF"

lemmas status_defs =
  STATUS_SUCCESS_def STATUS_INVALID_PARAMETER_def STATUS_NO_MEMORY_def
  STATUS_ACCESS_VIOLATION_def STATUS_ACCESS_DENIED_def STATUS_PRIVILEGE_NOT_HELD_def
  STATUS_OBJECT_NAME_NOT_FOUND_def STATUS_NOT_IMPLEMENTED_def STATUS_INVALID_HANDLE_def
  STATUS_CONFLICTING_ADDRESSES_def STATUS_UNABLE_TO_FREE_VM_def STATUS_MEMORY_NOT_ALLOCATED_def
  STATUS_BUFFER_TOO_SMALL_def STATUS_UNSUCCESSFUL_def STATUS_INVALID_CID_def
  STATUS_PROCEDURE_NOT_FOUND_def STATUS_INSUFFICIENT_RESOURCES_def STATUS_NOT_SUPPORTED_def
  STATUS_INVALID_DEVICE_REQUEST_def STATUS_PROCESS_IS_TERMINATING_def STATUS_INVALID_PARAMETER_2_def
  STATUS_BUFFER_OVERFLOW_def STATUS_INVALID_ADDRESS_def STATUS_INVALID_INFO_CLASS_def
  STATUS_OBJECT_NAME_INVALID_def STATUS_INVALID_PARAMETER_1_def STATUS_INVALID_PARAMETER_5_def
  STATUS_WMI_GUID_NOT_FOUND_def STATUS_NO_MORE_ENTRIES_def STATUS_MORE_ENTRIES_def
  STATUS_DEBUGGER_INACTIVE_def STATUS_OBJECT_NAME_COLLISION_def STATUS_INFO_LENGTH_MISMATCH_def
  STATUS_MAPPED_FILE_SIZE_ZERO_def STATUS_IMAGE_NOT_AT_BASE_def STATUS_INVALID_FILE_FOR_SECTION_def
  STATUS_INVALID_IMAGE_FORMAT_def STATUS_END_OF_FILE_def STATUS_NO_MORE_FILES_def
  STATUS_FILE_IS_A_DIRECTORY_def STATUS_NOT_A_DIRECTORY_def STATUS_SEMAPHORE_LIMIT_EXCEEDED_def
  STATUS_MUTANT_NOT_OWNED_def STATUS_PORT_NOT_SET_def STATUS_INVALID_SIGNATURE_def
  STATUS_INVALID_IMAGE_HASH_def STATUS_TIMEOUT_def STATUS_PENDING_def
  STATUS_NO_TOKEN_def STATUS_NOT_FOUND_def STATUS_TOO_LATE_def
  STATUS_OBJECT_TYPE_MISMATCH_def STATUS_PORT_DISCONNECTED_def STATUS_INVALID_PARAMETER_4_def
  STATUS_ILLEGAL_FUNCTION_def

section \<open>Memory constants\<close>

definition mem_commit :: u32 where "mem_commit = 0x00001000"
definition mem_reserve :: u32 where "mem_reserve = 0x00002000"
definition mem_decommit :: u32 where "mem_decommit = 0x00004000"
definition mem_release :: u32 where "mem_release = 0x00008000"
definition mem_free :: u32 where "mem_free = 0x00010000"
definition mem_private :: u32 where "mem_private = 0x00020000"
definition mem_mapped :: u32 where "mem_mapped = 0x00040000"
definition mem_image :: u32 where "mem_image = 0x01000000"
definition page_noaccess :: u32 where "page_noaccess = 0x001"
definition page_readonly :: u32 where "page_readonly = 0x002"
definition page_readwrite :: u32 where "page_readwrite = 0x004"
definition page_writecopy :: u32 where "page_writecopy = 0x008"
definition page_execute :: u32 where "page_execute = 0x010"
definition page_execute_read :: u32 where "page_execute_read = 0x020"
definition page_execute_readwrite :: u32 where "page_execute_readwrite = 0x040"
definition page_execute_writecopy :: u32 where "page_execute_writecopy = 0x080"
definition page_guard :: u32 where "page_guard = 0x100"
definition page_prot_mask :: u32 where "page_prot_mask = 0xFF"
definition user_alloc_base :: u64 where "user_alloc_base = 0x0000000100000000"
definition user_addr_limit :: u64 where "user_addr_limit = 0x00007FFFFFFEFFFF"
definition alloc_granularity :: u64 where "alloc_granularity = 0x10000"

lemmas page_consts =
  mem_commit_def mem_reserve_def mem_decommit_def mem_release_def
  mem_free_def mem_private_def mem_mapped_def mem_image_def
  page_noaccess_def page_readonly_def page_readwrite_def page_writecopy_def
  page_execute_def page_execute_read_def page_execute_readwrite_def page_execute_writecopy_def
  page_guard_def page_prot_mask_def user_alloc_base_def user_addr_limit_def
  alloc_granularity_def

end
