(* ===== verification/User_Mem.thy ===== *)
theory User_Mem
  imports Std_Map Phys_Mem Nt_Defs
begin

text \<open>
  The user memory manager, \<open>src/kernel/win/win_user_mem.cpp\<close>: the reservations of a process,
  each with a map of its committed regions, the frames kept for pages that are committed but
  must fault, and the virtual memory operations of the guest on them. The memory unit is a
  parameter, the record \<open>mem_ops\<close> of the virtual functions of \<open>mmu\<close> on one address space.
\<close>

section \<open>Data\<close>

record 'm mem_ops =
  map_virt :: "addr \<Rightarrow> u64 \<Rightarrow> mem_prot \<Rightarrow> 'm \<Rightarrow> emu_error + 'm"
  map_virt_phys :: "addr \<Rightarrow> addr \<Rightarrow> u64 \<Rightarrow> mem_prot \<Rightarrow> 'm \<Rightarrow> emu_error + 'm"
  unmap_virt :: "addr \<Rightarrow> u64 \<Rightarrow> 'm \<Rightarrow> emu_error + 'm"
  prot_virt :: "addr \<Rightarrow> u64 \<Rightarrow> mem_prot \<Rightarrow> 'm \<Rightarrow> emu_error + 'm"
  virt_to_phys :: "addr \<Rightarrow> 'm \<Rightarrow> addr option"

record committed_region =
  csize :: u64
  cprot :: u32

type_synonym committed_map = "(addr \<times> committed_region) list"

record reservation =
  rsize :: u64
  initial_prot :: u32
  rtype :: u32
  committed :: committed_map

type_synonym reservation_map = "(addr \<times> reservation) list"

record 'm user_mem =
  mach :: 'm
  next_free :: addr
  reservations :: reservation_map
  backing :: "(addr \<times> addr) list"

definition new_user_mem :: "'m \<Rightarrow> 'm user_mem" where
  "new_user_mem m = \<lparr>mach = m, next_free = user_alloc_base, reservations = [], backing = []\<rparr>"

section \<open>Protections\<close>

definition is_resident :: "u32 \<Rightarrow> bool" where
  "is_resident prot \<longleftrightarrow> prot AND page_guard = 0 \<and> prot AND page_prot_mask \<noteq> page_noaccess"

definition to_mem_prot :: "u32 \<Rightarrow> mem_prot" where
  "to_mem_prot prot =
     (let p = prot AND page_prot_mask
      in if p = page_noaccess then prot_none
         else if p = page_readonly then prot_read
         else if p = page_execute then prot_exec
         else if p = page_execute_read then prot_rx
         else if p = page_execute_readwrite \<or> p = page_execute_writecopy then prot_rwx
         else prot_rw)"

definition to_win_prot :: "mem_prot \<Rightarrow> u32" where
  "to_win_prot prot =
     (if prot AND prot_exec \<noteq> 0 then
        if prot AND prot_write \<noteq> 0 then page_execute_readwrite
        else if prot AND prot_read \<noteq> 0 then page_execute_read else page_execute
      else if prot AND prot_write \<noteq> 0 then page_readwrite
      else if prot AND prot_read \<noteq> 0 then page_readonly else page_noaccess)"

section \<open>The region maps\<close>

definition find_reservation :: "reservation_map \<Rightarrow> addr \<Rightarrow> (addr \<times> reservation) option" where
  "find_reservation rs a = region_at rsize rs a"

definition find_committed :: "committed_map \<Rightarrow> addr \<Rightarrow> (addr \<times> committed_region) option" where
  "find_committed cs a = region_at csize cs a"

definition split_at :: "addr \<Rightarrow> committed_map \<Rightarrow> committed_map" where
  "split_at a cs =
     (case find_committed cs a of
        None \<Rightarrow> cs
      | Some (k, b) \<Rightarrow>
          if k = a then cs
          else let tail = k + csize b - a;
                   cs1 = smap_set k (b\<lparr>csize := csize b - tail\<rparr>) cs
               in smap_set a \<lparr>csize = tail, cprot = cprot b\<rparr> cs1)"

fun merge_adjacent :: "committed_map \<Rightarrow> committed_map" where
  "merge_adjacent ((k, b) # (j, c) # m) =
     (if k + csize b = j \<and> cprot b = cprot c
      then merge_adjacent ((k, b\<lparr>csize := csize b + csize c\<rparr>) # m)
      else (k, b) # merge_adjacent ((j, c) # m))"
| "merge_adjacent m = m"

section \<open>Pages\<close>

text \<open>One turn of the loop of \<open>map_pages\<close> over a range with kept frames.\<close>

fun map_each :: "'m mem_ops \<Rightarrow> mem_prot \<Rightarrow> addr \<Rightarrow> nat \<Rightarrow> 'm user_mem \<Rightarrow> emu_error + 'm user_mem" where
  "map_each M p page 0 s = Inr s"
| "map_each M p page (Suc n) s =
     bind_result
       (case smap_find page (backing s) of
          None \<Rightarrow> map_sum id (\<lambda>m. s\<lparr>mach := m\<rparr>) (map_virt M page page_size p (mach s))
        | Some pa \<Rightarrow> map_sum id (\<lambda>m. s\<lparr>mach := m, backing := smap_erase page (backing s)\<rparr>)
                      (map_virt_phys M page pa page_size p (mach s)))
       (map_each M p (page + page_size) n)"

definition pages_of :: "u64 \<Rightarrow> nat" where
  "pages_of sz = (unat sz + 4095) div 4096"

definition map_pages :: "'m mem_ops \<Rightarrow> addr \<Rightarrow> u64 \<Rightarrow> u32 \<Rightarrow> 'm user_mem \<Rightarrow> emu_error + 'm user_mem" where
  "map_pages M base sz prot s =
     (let p = to_mem_prot prot; first = lower_bound base (backing s)
      in if first = [] \<or> base + sz \<le> fst (hd first)
         then map_sum id (\<lambda>m. s\<lparr>mach := m\<rparr>) (map_virt M base sz p (mach s))
         else map_each M p base (pages_of sz) s)"

fun keep_frames :: "'m mem_ops \<Rightarrow> addr \<Rightarrow> nat \<Rightarrow> 'm user_mem \<Rightarrow> 'm user_mem" where
  "keep_frames M page 0 s = s"
| "keep_frames M page (Suc n) s =
     keep_frames M (page + page_size) n
       (case virt_to_phys M page (mach s) of
          None \<Rightarrow> s
        | Some pa \<Rightarrow> s\<lparr>backing := smap_set page pa (backing s)\<rparr>)"

definition evict_pages :: "'m mem_ops \<Rightarrow> addr \<Rightarrow> u64 \<Rightarrow> 'm user_mem \<Rightarrow> emu_error + 'm user_mem" where
  "evict_pages M base sz s =
     (let s1 = keep_frames M base (pages_of sz) s
      in map_sum id (\<lambda>m. s1\<lparr>mach := m\<rparr>) (unmap_virt M base sz (mach s1)))"

fun drop_frames :: "addr \<Rightarrow> nat \<Rightarrow> 'm user_mem \<Rightarrow> 'm user_mem" where
  "drop_frames page 0 s = s"
| "drop_frames page (Suc n) s =
     drop_frames (page + page_size) n (s\<lparr>backing := smap_erase page (backing s)\<rparr>)"

definition release_pages :: "'m mem_ops \<Rightarrow> addr \<Rightarrow> u64 \<Rightarrow> 'm user_mem \<Rightarrow> emu_error + 'm user_mem" where
  "release_pages M base sz s =
     (let s1 = drop_frames base (pages_of sz) s
      in map_sum id (\<lambda>m. s1\<lparr>mach := m\<rparr>) (unmap_virt M base sz (mach s1)))"

definition commit_pages :: "'m mem_ops \<Rightarrow> addr \<Rightarrow> u64 \<Rightarrow> u32 \<Rightarrow> 'm user_mem \<Rightarrow> emu_error + 'm user_mem" where
  "commit_pages M base sz prot s = (if is_resident prot then map_pages M base sz prot s else Inr s)"

definition apply_prot ::
  "'m mem_ops \<Rightarrow> addr \<Rightarrow> u64 \<Rightarrow> u32 \<Rightarrow> u32 \<Rightarrow> 'm user_mem \<Rightarrow> emu_error + 'm user_mem" where
  "apply_prot M base sz old_prot new_prot s =
     (let was_resident = is_resident old_prot; now_resident = is_resident new_prot
      in if was_resident \<and> \<not> now_resident then evict_pages M base sz s
         else if \<not> was_resident \<and> now_resident then map_pages M base sz new_prot s
         else if now_resident
         then map_sum id (\<lambda>m. s\<lparr>mach := m\<rparr>) (prot_virt M base sz (to_mem_prot new_prot) (mach s))
         else Inr s)"

section \<open>Choosing a range\<close>

definition overlapping :: "reservation_map \<Rightarrow> addr \<Rightarrow> u64 \<Rightarrow> (addr \<times> reservation) option" where
  "overlapping rs base sz =
     (case find_reservation rs base of
        Some e \<Rightarrow> Some e
      | None \<Rightarrow>
          (case lower_bound base rs of
             [] \<Rightarrow> None
           | e # _ \<Rightarrow> if fst e < base + sz then Some e else None))"

text \<open>
  The search loop, with the number of turns it may take; \<open>pick_base_returns\<close> shows that one
  turn more than there are reservations is enough.
\<close>

fun pick_loop :: "nat \<Rightarrow> reservation_map \<Rightarrow> u64 \<Rightarrow> u64 \<Rightarrow> addr \<Rightarrow> emu_error + addr option" where
  "pick_loop 0 rs sz msk candidate = throw Does_not_return"
| "pick_loop (Suc n) rs sz msk candidate =
     (if candidate + sz \<le> user_addr_limit then
        case overlapping rs candidate sz of
          None \<Rightarrow> Inr (Some candidate)
        | Some (k, r) \<Rightarrow> pick_loop n rs sz msk ((k + rsize r + msk) AND NOT msk)
      else Inr None)"

definition pick_base :: "u64 \<Rightarrow> u64 \<Rightarrow> 'm user_mem \<Rightarrow> emu_error + 'm user_mem \<times> addr" where
  "pick_base sz alignment s =
     (let msk = max alignment alloc_granularity - 1
      in bind_result
           (pick_loop (Suc (length (reservations s))) (reservations s) sz msk ((next_free s + msk) AND NOT msk))
           (\<lambda>c. case c of
                  Some candidate \<Rightarrow> Inr (s\<lparr>next_free := candidate + sz\<rparr>, candidate)
                | None \<Rightarrow> Inr (s, 0)))"

section \<open>Committing\<close>

definition set_committed :: "addr \<Rightarrow> committed_map \<Rightarrow> 'm user_mem \<Rightarrow> 'm user_mem" where
  "set_committed k cs s =
     s\<lparr>reservations :=
        (case smap_find k (reservations s) of
           None \<Rightarrow> reservations s
         | Some r \<Rightarrow> smap_set k (r\<lparr>committed := cs\<rparr>) (reservations s))\<rparr>"

definition fill_gap ::
  "'m mem_ops \<Rightarrow> u32 \<Rightarrow> addr \<Rightarrow> addr \<Rightarrow> 'm user_mem \<times> committed_map \<Rightarrow> emu_error + 'm user_mem \<times> committed_map" where
  "fill_gap M prot cursor stop = (\<lambda>(s, cs).
     if cursor < stop then
       let gap = stop - cursor
       in map_sum id (\<lambda>s1. (s1, smap_set cursor \<lparr>csize = gap, cprot = prot\<rparr> cs))
            (commit_pages M cursor gap prot s)
     else Inr (s, cs))"

text \<open>The loop over the regions in the range, with the cursor behind the last one handled.\<close>

fun commit_each ::
  "'m mem_ops \<Rightarrow> u32 \<Rightarrow> committed_map \<Rightarrow> addr \<Rightarrow> 'm user_mem \<times> committed_map \<Rightarrow>
   emu_error + ('m user_mem \<times> committed_map) \<times> addr" where
  "commit_each M prot [] cursor st = Inr (st, cursor)"
| "commit_each M prot ((k, b) # es) cursor st =
     bind_result (fill_gap M prot cursor k st) (\<lambda>(s, cs).
     bind_result (apply_prot M k (csize b) (cprot b) prot s) (\<lambda>s1.
       commit_each M prot es (k + csize b) (s1, smap_set k (b\<lparr>cprot := prot\<rparr>) cs)))"

definition in_range :: "addr \<Rightarrow> addr \<Rightarrow> committed_map \<Rightarrow> committed_map" where
  "in_range from stop cs = takeWhile (\<lambda>e. fst e < stop) (lower_bound from cs)"

definition commit_into ::
  "'m mem_ops \<Rightarrow> addr \<Rightarrow> reservation \<Rightarrow> addr \<Rightarrow> u64 \<Rightarrow> u32 \<Rightarrow> 'm user_mem \<Rightarrow> emu_error + 'm user_mem \<times> NTSTATUS" where
  "commit_into M k r base sz prot s =
     (let stop = base + sz
      in if k + rsize r < stop then Inr (s, STATUS_CONFLICTING_ADDRESSES)
         else
           let cs = split_at stop (split_at base (committed r))
           in bind_result (commit_each M prot (in_range base stop cs) base (s, cs)) (\<lambda>(st, cursor).
              bind_result (fill_gap M prot cursor stop st) (\<lambda>(s1, cs1).
                Inr (set_committed k (merge_adjacent cs1) s1, STATUS_SUCCESS))))"

section \<open>The services\<close>

text \<open>The in-out arguments \<open>base\<close> and \<open>size\<close> are returned beside the status.\<close>

type_synonym 'm answer = "emu_error + 'm user_mem \<times> NTSTATUS \<times> addr \<times> u64"

definition um_reserve ::
  "'m mem_ops \<Rightarrow> addr \<Rightarrow> addr \<Rightarrow> u64 \<Rightarrow> u64 \<Rightarrow> bool \<Rightarrow> u32 \<Rightarrow> 'm user_mem \<Rightarrow> 'm answer" where
  "um_reserve M target base sz region do_commit prot s =
     (if target = 0 \<or> user_addr_limit < target + region then Inr (s, STATUS_NO_MEMORY, base, sz)
      else if overlapping (reservations s) target region \<noteq> None
      then Inr (s, STATUS_CONFLICTING_ADDRESSES, base, sz)
      else
        let r = \<lparr>rsize = region, initial_prot = prot, rtype = mem_private, committed = []\<rparr>;
            s1 = s\<lparr>reservations := smap_set target r (reservations s)\<rparr>
        in if do_commit
           then bind_result (commit_pages M target region prot s1) (\<lambda>s2.
                  Inr (set_committed target [(target, \<lparr>csize = region, cprot = prot\<rparr>)] s2,
                       STATUS_SUCCESS, target, region))
           else Inr (s1, STATUS_SUCCESS, target, region))"

definition um_allocate ::
  "'m mem_ops \<Rightarrow> addr \<Rightarrow> u64 \<Rightarrow> u32 \<Rightarrow> u32 \<Rightarrow> u64 \<Rightarrow> 'm user_mem \<Rightarrow> 'm answer" where
  "um_allocate M base sz alloc_type prot alignment s =
     (let start = page_align base;
          region = size_align (sz + (base - start));
          do_reserve = (alloc_type AND mem_reserve \<noteq> 0);
          do_commit = (alloc_type AND mem_commit \<noteq> 0);
          fresh = (if base \<noteq> 0
                   then um_reserve M (if do_reserve then base AND NOT (alloc_granularity - 1) else start)
                          base sz region do_commit prot s
                   else bind_result (pick_base region alignment s) (\<lambda>(s1, target).
                          um_reserve M target base sz region do_commit prot s1))
      in if region = 0 then Inr (s, STATUS_INVALID_PARAMETER, base, sz)
         else if \<not> do_reserve \<and> \<not> do_commit then Inr (s, STATUS_INVALID_PARAMETER, base, sz)
         else if do_commit \<and> \<not> do_reserve \<and> base \<noteq> 0
         then (case find_reservation (reservations s) start of
                 Some (k, r) \<Rightarrow>
                   bind_result (commit_into M k r start region prot s) (\<lambda>(s1, status).
                     if status = STATUS_SUCCESS then Inr (s1, status, start, region)
                     else Inr (s1, status, base, sz))
               | None \<Rightarrow> fresh)
         else fresh)"

fun release_each :: "'m mem_ops \<Rightarrow> committed_map \<Rightarrow> 'm user_mem \<Rightarrow> emu_error + 'm user_mem" where
  "release_each M [] s = Inr s"
| "release_each M ((k, b) # es) s = bind_result (release_pages M k (csize b) s) (release_each M es)"

definition um_free :: "'m mem_ops \<Rightarrow> addr \<Rightarrow> u64 \<Rightarrow> u32 \<Rightarrow> 'm user_mem \<Rightarrow> 'm answer" where
  "um_free M base sz free_type s =
     (let start = page_align base; res = find_reservation (reservations s) start
      in if free_type AND mem_release \<noteq> 0 then
           if sz \<noteq> 0 then Inr (s, STATUS_INVALID_PARAMETER, base, sz)
           else (case res of
                   None \<Rightarrow> Inr (s, STATUS_UNABLE_TO_FREE_VM, base, sz)
                 | Some (k, r) \<Rightarrow>
                     if k \<noteq> start then Inr (s, STATUS_UNABLE_TO_FREE_VM, base, sz)
                     else if rtype r \<noteq> mem_private then Inr (s, STATUS_UNABLE_TO_FREE_VM, base, sz)
                     else bind_result (release_each M (committed r) s) (\<lambda>s1.
                            Inr (s1\<lparr>reservations := smap_erase k (reservations s1)\<rparr>,
                                 STATUS_SUCCESS, k, rsize r)))
         else if free_type AND mem_decommit = 0 then Inr (s, STATUS_INVALID_PARAMETER, base, sz)
         else (case res of
                 None \<Rightarrow> Inr (s, STATUS_MEMORY_NOT_ALLOCATED, base, sz)
               | Some (k, r) \<Rightarrow>
                   let asked = size_align (sz + (base - start))
                   in if asked = 0 \<and> k \<noteq> start then Inr (s, STATUS_UNABLE_TO_FREE_VM, base, sz)
                      else
                        let region = (if asked = 0 then rsize r else asked);
                            stop = start + region;
                            cs = split_at stop (split_at start (committed r));
                            gone = in_range start stop cs
                        in bind_result (release_each M gone s) (\<lambda>s1.
                             Inr (set_committed k (fold (\<lambda>e. smap_erase (fst e)) gone cs) s1,
                                  STATUS_SUCCESS, start, region))))"

text \<open>The loop of \<open>protect\<close> over the regions of the range.\<close>

fun protect_each ::
  "'m mem_ops \<Rightarrow> u32 \<Rightarrow> committed_map \<Rightarrow> 'm user_mem \<times> committed_map \<Rightarrow> emu_error + 'm user_mem \<times> committed_map" where
  "protect_each M prot [] st = Inr st"
| "protect_each M prot ((k, b) # es) st =
     (case st of (s, cs) \<Rightarrow>
        bind_result (apply_prot M k (csize b) (cprot b) prot s) (\<lambda>s1.
          protect_each M prot es (s1, smap_set k (b\<lparr>cprot := prot\<rparr>) cs)))"

definition um_protect ::
  "'m mem_ops \<Rightarrow> addr \<Rightarrow> u64 \<Rightarrow> u32 \<Rightarrow> 'm user_mem \<Rightarrow> emu_error + 'm user_mem \<times> NTSTATUS \<times> addr \<times> u64 \<times> u32" where
  "um_protect M base sz new_prot s =
     (let start = page_align base; region = size_align (sz + (base - start)); stop = start + region
      in case find_reservation (reservations s) start of
           None \<Rightarrow>
             map_sum id (\<lambda>m. (s\<lparr>mach := m\<rparr>, STATUS_SUCCESS, start, region, page_readwrite))
               (prot_virt M start region (to_mem_prot new_prot) (mach s))
         | Some (k, r) \<Rightarrow>
             (case find_committed (committed r) start of
                None \<Rightarrow> Inr (s, STATUS_SUCCESS, start, region, initial_prot r)
              | Some (j, b) \<Rightarrow>
                  let cs = split_at stop (split_at start (committed r))
                  in bind_result (protect_each M new_prot (in_range start stop cs) (s, cs)) (\<lambda>(s1, cs1).
                       Inr (set_committed k (merge_adjacent cs1) s1, STATUS_SUCCESS, start, region, cprot b))))"

record memory_basic_info =
  base_address :: u64
  allocation_base :: u64
  allocation_protect :: u32
  partition_id :: u32
  region_size :: u64
  mbi_state :: u32
  mbi_protect :: u32
  mbi_type :: u32

definition um_query :: "addr \<Rightarrow> 'm user_mem \<Rightarrow> NTSTATUS \<times> memory_basic_info" where
  "um_query a s = (STATUS_SUCCESS,
     (let page = page_align a
      in case find_reservation (reservations s) a of
           None \<Rightarrow>
             \<lparr>base_address = page, allocation_base = 0, allocation_protect = 0, partition_id = 0,
              region_size = (case upper_bound a (reservations s) of
                               [] \<Rightarrow> user_addr_limit + 1 | e # _ \<Rightarrow> fst e) - page,
              mbi_state = mem_free, mbi_protect = page_noaccess, mbi_type = 0\<rparr>
         | Some (k, r) \<Rightarrow>
             (case find_committed (committed r) a of
                Some (j, b) \<Rightarrow>
                  \<lparr>base_address = page, allocation_base = k, allocation_protect = initial_prot r,
                   partition_id = 0,
                   region_size = j + csize b - page, mbi_state = mem_commit, mbi_protect = cprot b,
                   mbi_type = rtype r\<rparr>
              | None \<Rightarrow>
                  \<lparr>base_address = page, allocation_base = k, allocation_protect = initial_prot r,
                   partition_id = 0,
                   region_size = (case upper_bound page (committed r) of
                                    [] \<Rightarrow> k + rsize r | e # _ \<Rightarrow> fst e) - page,
                   mbi_state = mem_reserve, mbi_protect = page_noaccess, mbi_type = rtype r\<rparr>)))"

definition alloc_pages :: "'m mem_ops \<Rightarrow> u64 \<Rightarrow> u32 \<Rightarrow> 'm user_mem \<Rightarrow> emu_error + 'm user_mem \<times> addr" where
  "alloc_pages M sz prot s =
     bind_result (um_allocate M 0 sz (mem_commit OR mem_reserve) prot 0 s) (\<lambda>(s1, status, base, region).
       if status \<noteq> STATUS_SUCCESS then Inr (s1, 0) else Inr (s1, base))"

definition um_alloc :: "'m mem_ops \<Rightarrow> u64 \<Rightarrow> mem_prot \<Rightarrow> 'm user_mem \<Rightarrow> emu_error + 'm user_mem \<times> addr" where
  "um_alloc M sz prot s = alloc_pages M sz (to_win_prot prot) s"

definition register_region :: "addr \<Rightarrow> u64 \<Rightarrow> u32 \<Rightarrow> u32 \<Rightarrow> 'm user_mem \<Rightarrow> 'm user_mem" where
  "register_region base sz prot ty s =
     (let region = size_align sz
      in s\<lparr>reservations := smap_set base
            \<lparr>rsize = region, initial_prot = prot, rtype = ty,
             committed = [(base, \<lparr>csize = region, cprot = prot\<rparr>)]\<rparr> (reservations s)\<rparr>)"

definition register_image :: "addr \<Rightarrow> u64 \<Rightarrow> 'm user_mem \<Rightarrow> 'm user_mem" where
  "register_image base sz s = register_region base sz page_execute_readwrite mem_image s"

definition register_mapped :: "addr \<Rightarrow> u64 \<Rightarrow> u32 \<Rightarrow> 'm user_mem \<Rightarrow> 'm user_mem" where
  "register_mapped base sz prot s = register_region base sz prot mem_mapped s"

text \<open>\<open>committed.find(page)\<close> after both splits is the region of that one page.\<close>

definition handle_fault :: "'m mem_ops \<Rightarrow> addr \<Rightarrow> 'm user_mem \<Rightarrow> emu_error + 'm user_mem \<times> bool" where
  "handle_fault M fault_addr s =
     (let page = page_align fault_addr
      in case find_reservation (reservations s) page of
           None \<Rightarrow> Inr (s, False)
         | Some (k, r) \<Rightarrow>
             (case find_committed (committed r) page of
                None \<Rightarrow>
                  if \<not> is_resident (initial_prot r) then Inr (s, False)
                  else map_sum id
                    (\<lambda>s1. (set_committed k (merge_adjacent (smap_set page
                              \<lparr>csize = page_size, cprot = initial_prot r\<rparr> (committed r))) s1, True))
                    (map_pages M page page_size (initial_prot r) s)
              | Some (j, b) \<Rightarrow>
                  if cprot b AND page_guard = 0 then Inr (s, False)
                  else
                    let cs = split_at (page + page_size) (split_at page (committed r));
                        hit = the (smap_find page cs);
                        hit1 = hit\<lparr>cprot := cprot hit AND NOT page_guard\<rparr>
                    in map_sum id
                      (\<lambda>s1. (set_committed k (merge_adjacent (smap_set page hit1 cs)) s1, True))
                      (map_pages M page page_size (cprot hit1) s)))"

end
