(* ===== verification/User_Regions.thy ===== *)
theory User_Regions
  imports User_Mem
begin

text \<open>
  Correctness of the user memory manager's bookkeeping. \<open>prot_at\<close> and \<open>page_state\<close> are what a
  guest can ask of an address: whether it is reserved, whether it is committed and with which
  protection. Splitting and merging regions never change them; each service changes them on
  the pages it is asked about and nowhere else, and keeps the regions disjoint and inside
  their reservations.
\<close>

section \<open>What a region map says of an address\<close>

definition prot_at :: "committed_map \<Rightarrow> addr \<Rightarrow> u32 option" where
  "prot_at cs a = map_option (\<lambda>e. cprot (snd e)) (find_committed cs a)"

definition covers :: "committed_map \<Rightarrow> nat \<Rightarrow> u32 \<Rightarrow> bool" where
  "covers cs n p \<longleftrightarrow> (\<exists>e \<in> set cs. unat (fst e) \<le> n \<and> n < unat (fst e) + unat (csize (snd e)) \<and> cprot (snd e) = p)"

lemma covers_simps [simp]:
  "\<not> covers [] n p"
  "covers ((k, b) # cs) n p \<longleftrightarrow> unat k \<le> n \<and> n < unat k + unat (csize b) \<and> cprot b = p \<or> covers cs n p"
  "covers (xs @ ys) n p \<longleftrightarrow> covers xs n p \<or> covers ys n p"
  by (auto simp: covers_def)

lemma prot_at_iff:
  assumes "tiled csize lo hi cs" and "hi < 2 ^ 64"
  shows "prot_at cs a = Some p \<longleftrightarrow> covers cs (unat a) p"
  unfolding prot_at_def find_committed_def covers_def
  using region_at_iff [OF assms] by (auto simp: Bex_def)

lemma prot_at_eqI:
  assumes "tiled csize lo hi cs" and "tiled csize lo' hi' cs'" and "hi < 2 ^ 64" and "hi' < 2 ^ 64"
    and "\<And>p. covers cs' (unat a) p \<longleftrightarrow> covers cs (unat a) p"
  shows "prot_at cs' a = prot_at cs a"
  using assms prot_at_iff by (metis not_Some_eq)

lemma covers_window: "tiled csize lo hi cs \<Longrightarrow> covers cs n p \<Longrightarrow> lo \<le> n \<and> n < hi"
  using tiled_bounds [of csize lo hi cs] by (fastforce simp: covers_def)

section \<open>Splitting and merging\<close>

text \<open>No region straddles the address.\<close>

definition cut_at :: "nat \<Rightarrow> committed_map \<Rightarrow> bool" where
  "cut_at n cs \<longleftrightarrow> (\<forall>e \<in> set cs. unat (fst e) + unat (csize (snd e)) \<le> n \<or> n \<le> unat (fst e))"

lemma cut_at_simps [simp]:
  "cut_at n []" "cut_at n (e # cs) \<longleftrightarrow> (unat (fst e) + unat (csize (snd e)) \<le> n \<or> n \<le> unat (fst e)) \<and> cut_at n cs"
  "cut_at n (xs @ ys) \<longleftrightarrow> cut_at n xs \<and> cut_at n ys"
  by (auto simp: cut_at_def)

text \<open>All regions start and end on page boundaries.\<close>

definition paged :: "committed_map \<Rightarrow> bool" where
  "paged cs \<longleftrightarrow> (\<forall>e \<in> set cs. 4096 dvd unat (fst e) \<and> 4096 dvd unat (csize (snd e)))"

lemma paged_simps [simp]:
  "paged []" "paged (e # cs) \<longleftrightarrow> 4096 dvd unat (fst e) \<and> 4096 dvd unat (csize (snd e)) \<and> paged cs"
  "paged (xs @ ys) \<longleftrightarrow> paged xs \<and> paged ys"
  by (auto simp: paged_def)

lemma split_at_correct:
  assumes t: "tiled csize lo hi cs" and hi: "hi < 2 ^ 64"
  shows "tiled csize lo hi (split_at a cs)" and "cut_at (unat a) (split_at a cs)"
    and "covers (split_at a cs) n p \<longleftrightarrow> covers cs n p"
    and "cut_at m cs \<Longrightarrow> cut_at m (split_at a cs)"
    and "paged cs \<Longrightarrow> 4096 dvd unat a \<Longrightarrow> paged (split_at a cs)"
proof -
  have "tiled csize lo hi (split_at a cs) \<and> cut_at (unat a) (split_at a cs) \<and>
      (covers (split_at a cs) n p \<longleftrightarrow> covers cs n p) \<and> (cut_at m cs \<longrightarrow> cut_at m (split_at a cs)) \<and>
      (paged cs \<longrightarrow> 4096 dvd unat a \<longrightarrow> paged (split_at a cs))"
  proof (cases "\<exists>k b. find_committed cs a = Some (k, b) \<and> k \<noteq> a")
    case True
    then obtain k b where f: "find_committed cs a = Some (k, b)" and ne: "k \<noteq> a" by blast
    then have mem: "(k, b) \<in> set cs" and le: "unat k \<le> unat a" and lt: "unat a < unat k + unat (csize b)"
      using region_at_iff [OF t hi] by (auto simp: find_committed_def)
    then obtain xs ys where cs: "cs = xs @ (k, b) # ys" by (auto dest: split_list)
    have lt': "unat k < unat a" using le ne by (metis le_neq_implies_less word_unat_eq_iff)
    note t' = t [unfolded cs]
    have sum: "unat (k + csize b) = unat k + unat (csize b)"
      using tiled_end [OF t'] hi by (intro unat_add_no_overflow) linarith
    let ?tail = "k + csize b - a"
    have tail: "unat ?tail = unat k + unat (csize b) - unat a"
      using lt by (subst unat_sub_le) (simp_all add: sum)
    have ak: "unat (a - k) = unat a - unat k" using lt' by (intro unat_sub_le) simp
    have front: "csize b - ?tail = a - k" by simp
    let ?new = "xs @ (k, b\<lparr>csize := csize b - ?tail\<rparr>) # (a, \<lparr>csize = ?tail, cprot = cprot b\<rparr>) # ys"
    have tn: "tiled csize lo hi ?new" using t' lt lt' by (auto simp: tiled_split tail front ak)
    note sn = tiled_sorted [OF tn]
    have s1: "sorted_keys ((xs @ [(k, b\<lparr>csize := csize b - ?tail\<rparr>)]) @ ys)"
      using tiled_sorted [OF t'] by (simp add: sorted_keys_append sorted_keys_Cons)
    have "\<forall>x \<in> set (xs @ [(k, b\<lparr>csize := csize b - ?tail\<rparr>)]). fst x < a" "\<forall>y \<in> set ys. a < fst y"
      using sn by (auto simp: sorted_keys_append sorted_keys_Cons)
    from smap_set_between [OF s1 this] have sp: "split_at a cs = ?new"
      using f ne smap_set_here [OF tiled_sorted [OF t']] by (simp add: split_at_def Let_def cs)
    have "cut_at (unat a) ?new"
      using tiled_keys_after [OF t'] tiled_keys_before [OF t'] lt lt'
      by (fastforce simp: cut_at_def front ak)
    moreover have "paged cs \<longrightarrow> 4096 dvd unat a \<longrightarrow> paged ?new"
      using lt by (auto simp: cs tail front ak intro: dvd_diff_nat dvd_add)
    ultimately show ?thesis
      unfolding sp using tn lt lt' by (auto simp: cs tail front ak)
  next
    case False
    then have "split_at a cs = cs" by (auto simp: split_at_def split: option.splits)
    moreover have "cut_at (unat a) cs"
    proof (rule ccontr)
      assume "\<not> cut_at (unat a) cs"
      then obtain k b where "(k, b) \<in> set cs" "\<not> unat k + unat (csize b) \<le> unat a" "\<not> unat a \<le> unat k"
        by (auto simp: cut_at_def)
      then have "find_committed cs a = Some (k, b)" "k \<noteq> a"
        using region_at_iff [OF t hi] by (auto simp: find_committed_def)
      with False show False by blast
    qed
    ultimately show ?thesis using t by simp
  qed
  then show "tiled csize lo hi (split_at a cs)" "cut_at (unat a) (split_at a cs)"
    "covers (split_at a cs) n p \<longleftrightarrow> covers cs n p" "cut_at m cs \<Longrightarrow> cut_at m (split_at a cs)"
    "paged cs \<Longrightarrow> 4096 dvd unat a \<Longrightarrow> paged (split_at a cs)" by blast+
qed

lemma merge_adjacent_correct:
  assumes "tiled csize lo hi cs" and "hi < 2 ^ 64"
  shows "tiled csize lo hi (merge_adjacent cs) \<and> (covers (merge_adjacent cs) n p \<longleftrightarrow> covers cs n p) \<and>
    (paged cs \<longrightarrow> paged (merge_adjacent cs))"
  using assms(1)
proof (induction cs arbitrary: lo rule: merge_adjacent.induct)
  case (1 k b j c m)
  show ?case
  proof (cases "k + csize b = j \<and> cprot b = cprot c")
    case True
    have e: "unat j + unat (csize c) \<le> hi" "unat k + unat (csize b) \<le> unat j"
      using "1.prems" tiled_window [of csize _ hi m] by auto
    have j: "unat j = unat k + unat (csize b)"
      unfolding conjunct1 [OF True, symmetric] using e unat_lt64 [of j]
      by (intro unat_add_no_overflow) linarith
    have s: "unat (csize b + csize c) = unat (csize b) + unat (csize c)"
      using e j assms(2) by (intro unat_add_no_overflow) linarith
    have "tiled csize lo hi ((k, b\<lparr>csize := csize b + csize c\<rparr>) # m)" using "1.prems" j by (auto simp: s ac_simps)
    from "1.IH"(1) [OF True this] True show ?thesis using j by (auto simp: s)
  next
    case False
    have "tiled csize (unat k + unat (csize b)) hi ((j, c) # m)" using "1.prems" by simp
    from "1.IH"(2) [OF False this] False "1.prems" show ?thesis by auto
  qed
qed simp_all

section \<open>The regions of a range\<close>

lemma range_split:
  assumes t: "tiled csize lo hi cs" and cut: "cut_at (unat a) cs" "cut_at (unat z) cs"
    and le: "lo \<le> unat a" "unat a \<le> unat z" "unat z \<le> hi"
  obtains xs ys where "cs = xs @ in_range a z cs @ ys" and "tiled csize lo (unat a) xs"
    and "tiled csize (unat a) (unat z) (in_range a z cs)" and "tiled csize (unat z) hi ys"
proof -
  define xs where "xs = takeWhile (\<lambda>e. fst e < a) cs"
  define ys where "ys = dropWhile (\<lambda>e. fst e < z) (lower_bound a cs)"
  have cs: "cs = xs @ in_range a z cs @ ys"
    by (simp add: xs_def ys_def in_range_def lower_bound_def)
  note s = tiled_sorted [OF t]
  have s': "sorted_keys (lower_bound a cs)"
    using s by (metis lower_bound_def sorted_keys_append takeWhile_dropWhile_id)
  have mem: "set xs \<subseteq> set cs" "set (in_range a z cs) \<subseteq> set cs" "set ys \<subseteq> set cs"
    by (metis cs le_supI1 le_supI2 order_refl set_append)+
  have kx: "fst e < a" if "e \<in> set xs" for e using that by (auto simp: xs_def dest: set_takeWhileD)
  have km: "a \<le> fst e" "fst e < z" if "e \<in> set (in_range a z cs)" for e
    using that lower_bound_le [OF s, of e] set_takeWhileD [of e _ "lower_bound a cs"]
    by (auto simp: in_range_def lower_bound_def)
  have ky: "z \<le> fst e" if "e \<in> set ys" for e
    using that lower_bound_le [OF s'] by (simp add: ys_def)
  obtain m1 where x1: "tiled csize lo m1 xs" and r1: "tiled csize m1 hi (in_range a z cs @ ys)"
    using t by (subst (asm) cs) (auto simp: tiled_append)
  then obtain m2 where x2: "tiled csize m1 m2 (in_range a z cs)" and x3: "tiled csize m2 hi ys"
    by (auto simp: tiled_append)
  have edge: "unat (fst e) + unat (csize (snd e)) \<le> unat n" if "e \<in> set cs" "fst e < n" "cut_at (unat n) cs" for e n
    using that by (auto simp: cut_at_def word_less_nat_alt)
  have bnd: "lo \<le> unat (fst e)" "unat (fst e) + unat (csize (snd e)) \<le> hi" if "e \<in> set cs" for e
    using tiled_bounds [OF t, of "fst e" "snd e"] that by simp_all
  have "tiled csize lo (unat a) xs"
    using mem(1) by (intro tiled_frame [OF x1] le(1) edge kx cut(1) bnd) blast+
  moreover have "tiled csize (unat a) (unat z) (in_range a z cs)"
    using mem(2) by (intro tiled_frame [OF x2] le(2) edge km(2) cut(2) km(1) [unfolded word_le_nat_alt]) blast+
  moreover have "tiled csize (unat z) hi ys"
    using mem(3) by (intro tiled_frame [OF x3] le(3) bnd ky [unfolded word_le_nat_alt]) blast+
  ultimately show ?thesis using cs by (rule that [rotated])
qed

section \<open>The page operations leave the books alone\<close>

definition same_books :: "'m user_mem \<Rightarrow> 'm user_mem \<Rightarrow> bool" where
  "same_books s s' \<longleftrightarrow> reservations s' = reservations s \<and> next_free s' = next_free s"

lemma same_books_refl [simp]: "same_books s s" and same_books_mach [simp]: "same_books s (s\<lparr>mach := m\<rparr>)"
  and same_books_backing [simp]: "same_books s (s\<lparr>backing := f\<rparr>)"
  by (simp_all add: same_books_def)

lemma same_books_trans [trans]: "same_books s s1 \<Longrightarrow> same_books s1 s2 \<Longrightarrow> same_books s s2"
  by (simp add: same_books_def)

lemma map_sum_Inr: "map_sum id f r = Inr y \<longleftrightarrow> (\<exists>x. r = Inr x \<and> y = f x)"
  by (cases r) auto

lemma bind_Inr: "bind_result r f = Inr y \<longleftrightarrow> (\<exists>x. r = Inr x \<and> f x = Inr y)"
  by (cases r) auto

lemma map_each_books: "map_each M p page n s = Inr s' \<Longrightarrow> same_books s s'"
proof (induction n arbitrary: page s)
  case (Suc n)
  show ?case
  proof (cases "smap_find page (backing s)")
    case None
    with Suc.prems obtain m where "map_each M p (page + page_size) n (s\<lparr>mach := m\<rparr>) = Inr s'"
      by (auto simp: bind_Inr map_sum_Inr)
    from Suc.IH [OF this] show ?thesis by (simp add: same_books_def)
  next
    case (Some pa)
    with Suc.prems obtain m f where "map_each M p (page + page_size) n (s\<lparr>mach := m, backing := f\<rparr>) = Inr s'"
      by (auto simp: bind_Inr map_sum_Inr)
    from Suc.IH [OF this] show ?thesis by (simp add: same_books_def)
  qed
qed simp

lemma map_pages_books: "map_pages M base sz prot s = Inr s' \<Longrightarrow> same_books s s'"
  by (auto simp: map_pages_def Let_def map_sum_Inr split: if_splits dest: map_each_books)

lemma keep_frames_books: "same_books s (keep_frames M page n s)"
proof (induction n arbitrary: page s)
  case (Suc n)
  have "same_books s (case virt_to_phys M page (mach s) of None \<Rightarrow> s
      | Some pa \<Rightarrow> s\<lparr>backing := smap_set page pa (backing s)\<rparr>)" by (simp split: option.split)
  with Suc show ?case by (auto intro: same_books_trans)
qed simp

lemma drop_frames_books: "same_books s (drop_frames page n s)"
proof (induction n arbitrary: page s)
  case (Suc n)
  from same_books_trans [OF same_books_backing Suc] show ?case by simp
qed simp

lemma evict_pages_books: "evict_pages M base sz s = Inr s' \<Longrightarrow> same_books s s'"
  using keep_frames_books [of s M base "pages_of sz"]
  by (auto simp: evict_pages_def Let_def map_sum_Inr same_books_def)

lemma release_pages_books: "release_pages M base sz s = Inr s' \<Longrightarrow> same_books s s'"
  using drop_frames_books [of s base "pages_of sz"]
  by (auto simp: release_pages_def Let_def map_sum_Inr same_books_def)

lemma commit_pages_books: "commit_pages M base sz prot s = Inr s' \<Longrightarrow> same_books s s'"
  by (auto simp: commit_pages_def split: if_splits dest: map_pages_books)

lemma apply_prot_books: "apply_prot M base sz p q s = Inr s' \<Longrightarrow> same_books s s'"
  by (auto simp: apply_prot_def Let_def map_sum_Inr split: if_splits dest: map_pages_books evict_pages_books)

lemma release_each_books: "release_each M es s = Inr s' \<Longrightarrow> same_books s s'"
proof (induction es arbitrary: s)
  case (Cons e es)
  then show ?case by (cases e) (auto simp: bind_Inr dest: release_pages_books intro: same_books_trans)
qed simp

section \<open>The loops over the regions of a range\<close>

definition reprot :: "u32 \<Rightarrow> committed_map \<Rightarrow> committed_map" where
  "reprot p cs = map (\<lambda>(k, b). (k, b\<lparr>cprot := p\<rparr>)) cs"

lemma tiled_reprot [simp]: "tiled csize lo hi (reprot p cs) = tiled csize lo hi cs"
  by (induction cs arbitrary: lo) (auto simp: reprot_def)

lemma paged_reprot [simp]: "paged (reprot p cs) = paged cs"
  by (induction cs) (auto simp: reprot_def)

lemma covers_reprot: "covers (reprot p cs) n q \<longleftrightarrow> q = p \<and> (\<exists>r. covers cs n r)"
  by (induction cs) (auto simp: reprot_def)

lemma protect_each_shape:
  assumes "protect_each M p mid (s, xs @ mid @ ys) = Inr (s', cs')" and "sorted_keys (xs @ mid @ ys)"
  shows "cs' = xs @ reprot p mid @ ys \<and> same_books s s'"
  using assms
proof (induction mid arbitrary: xs s)
  case (Cons e mid)
  obtain k b where e: "e = (k, b)" by (cases e)
  from Cons.prems(1) obtain s1 where a: "apply_prot M k (csize b) (cprot b) p s = Inr s1"
    and r: "protect_each M p mid (s1, smap_set k (b\<lparr>cprot := p\<rparr>) (xs @ (k, b) # mid @ ys)) = Inr (s', cs')"
    by (auto simp: e bind_Inr)
  have s: "sorted_keys (xs @ (k, b) # mid @ ys)" using Cons.prems(2) by (simp add: e)
  then have set: "smap_set k (b\<lparr>cprot := p\<rparr>) (xs @ (k, b) # mid @ ys) = (xs @ [(k, b\<lparr>cprot := p\<rparr>)]) @ mid @ ys"
    by (simp add: smap_set_here)
  have "sorted_keys ((xs @ [(k, b\<lparr>cprot := p\<rparr>)]) @ mid @ ys)"
    using s by (simp add: sorted_keys_append sorted_keys_Cons)
  from Cons.IH [OF r [unfolded set] this] show ?case
    using apply_prot_books [OF a] by (auto simp: e reprot_def intro: same_books_trans)
qed (simp add: reprot_def)

text \<open>A run of regions without gaps, all with one protection.\<close>

fun solid :: "u32 \<Rightarrow> nat \<Rightarrow> nat \<Rightarrow> committed_map \<Rightarrow> bool" where
  "solid p lo hi [] \<longleftrightarrow> lo = hi"
| "solid p lo hi ((k, b) # cs) \<longleftrightarrow>
     unat k = lo \<and> 0 < unat (csize b) \<and> cprot b = p \<and> solid p (lo + unat (csize b)) hi cs"

lemma solid_append: "solid p lo hi (xs @ ys) \<longleftrightarrow> (\<exists>m. solid p lo m xs \<and> solid p m hi ys)"
proof (induction xs arbitrary: lo)
  case (Cons e xs)
  then show ?case by (cases e) auto
qed simp

lemma solid_tiled: "solid p lo hi cs \<Longrightarrow> tiled csize lo hi cs"
proof (induction cs arbitrary: lo)
  case (Cons e cs)
  then show ?case by (cases e) auto
qed simp

lemma solid_covers: "solid p lo hi cs \<Longrightarrow> covers cs n q \<longleftrightarrow> q = p \<and> lo \<le> n \<and> n < hi"
proof (induction cs arbitrary: lo)
  case (Cons e cs)
  obtain k b where e: "e = (k, b)" by (cases e)
  have r: "solid p (lo + unat (csize b)) hi cs" using Cons.prems by (simp add: e)
  from Cons.IH [OF r] tiled_window [OF solid_tiled [OF r]] Cons.prems show ?case by (auto simp: e)
qed simp

lemma fill_gap_shape:
  assumes "fill_gap M p c z (s, fin @ rest) = Inr (s', cs')" and "solid p lo (unat c) fin'"
    and "fin = xs @ fin'" and "tiled csize l0 lo xs" and "tiled csize (unat z) hi rest"
    and "unat c \<le> unat z"
  obtains g where "cs' = fin @ g @ rest" and "solid p (unat c) (unat z) g" and "same_books s s'"
    and "4096 dvd unat c \<Longrightarrow> 4096 dvd unat z \<Longrightarrow> paged g"
proof (cases "c < z")
  case True
  let ?g = "(c, \<lparr>csize = z - c, cprot = p\<rparr>)"
  have zc: "unat (z - c) = unat z - unat c" using assms(6) by (rule unat_sub_le)
  from assms(1) True obtain s1 where cp: "commit_pages M c (z - c) p s = Inr s1" and s': "s' = s1"
    and cs': "cs' = smap_set c \<lparr>csize = z - c, cprot = p\<rparr> (fin @ rest)"
    by (auto simp: fill_gap_def Let_def map_sum_Inr)
  have sg: "solid p (unat c) (unat z) [?g]" using True by (simp add: zc word_less_nat_alt)
  have "tiled csize l0 hi (xs @ fin' @ [?g] @ rest)"
    unfolding tiled_append using assms(4,5) solid_tiled [OF assms(2)] solid_tiled [OF sg] by blast
  from tiled_sorted [OF this] have "sorted_keys (fin @ rest)" "\<forall>x \<in> set fin. fst x < c"
    "\<forall>y \<in> set rest. c < fst y"
    by (auto simp: assms(3) sorted_keys_append sorted_keys_Cons)
  from smap_set_between [OF this] cs' have "cs' = fin @ [?g] @ rest" by simp
  with sg commit_pages_books [OF cp] s' show ?thesis by (intro that) (auto simp: zc intro: dvd_diff_nat)
next
  case False
  then have "c = z" using assms(6) by (simp add: word_less_nat_alt word_unat_eq_iff)
  with assms(1) show ?thesis by (intro that [of "[]"]) (auto simp: fill_gap_def)
qed

lemma commit_each_shape:
  fixes z :: addr
  assumes "commit_each M p mid c (s, xs @ fin @ mid @ ys) = Inr ((s', cs'), c')"
    and "tiled csize l0 lo xs" and "solid p lo (unat c) fin" and "tiled csize (unat c) (unat z) mid"
    and "tiled csize (unat z) hi ys" and "paged mid" and "4096 dvd unat c" and "paged fin"
  shows "\<exists>fin'. cs' = xs @ fin' @ ys \<and> solid p lo (unat c') fin' \<and> unat c' \<le> unat z \<and> same_books s s' \<and>
    paged fin' \<and> 4096 dvd unat c'"
  using assms(1,3,4,6-8)
proof (induction mid arbitrary: fin c s)
  case Nil
  then show ?case by auto
next
  case (Cons e mid)
  obtain k b where e: "e = (k, b)" by (cases e)
  from Cons.prems(1) obtain s1 cs1 s2 where
    fg: "fill_gap M p c k (s, (xs @ fin) @ (k, b) # mid @ ys) = Inr (s1, cs1)"
    and ap: "apply_prot M k (csize b) (cprot b) p s1 = Inr s2"
    and ce: "commit_each M p mid (k + csize b) (s2, smap_set k (b\<lparr>cprot := p\<rparr>) cs1) = Inr ((s', cs'), c')"
    by (auto simp: e bind_Inr)
  have t: "unat c \<le> unat k" "0 < unat (csize b)" "tiled csize (unat k + unat (csize b)) (unat z) mid"
    using Cons.prems(3) by (simp_all add: e)
  have kz: "unat k + unat (csize b) \<le> unat z" by (rule tiled_window [OF t(3)])
  have sum: "unat (k + csize b) = unat k + unat (csize b)"
    using kz unat_lt64 [of z] by (intro unat_add_no_overflow) linarith
  have rest: "tiled csize (unat k) hi ((k, b) # mid @ ys)"
    using t assms(5) by (auto simp: tiled_append)
  obtain g where cs1: "cs1 = (xs @ fin) @ g @ (k, b) # mid @ ys" and g: "solid p (unat c) (unat k) g"
    and sb: "same_books s s1" and pg: "paged g"
    using fill_gap_shape [OF fg Cons.prems(2) refl assms(2) rest t(1)] Cons.prems(4,5) by (auto simp: e)
  let ?fin = "fin @ g @ [(k, b\<lparr>cprot := p\<rparr>)]"
  have solid': "solid p lo (unat (k + csize b)) ?fin"
    using Cons.prems(2) g t(2) by (auto simp: solid_append sum)
  have "tiled csize l0 hi (xs @ (fin @ g) @ (k, b) # mid @ ys)"
    unfolding tiled_append using assms(2) solid_tiled [of p lo "unat k" "fin @ g"] Cons.prems(2) g rest
    by (auto simp: solid_append tiled_append)
  from tiled_sorted [OF this] have set': "smap_set k (b\<lparr>cprot := p\<rparr>) cs1 = xs @ ?fin @ mid @ ys"
    using smap_set_here [of "xs @ fin @ g" k b "mid @ ys"] by (simp add: cs1)
  have "paged ?fin" "4096 dvd unat (k + csize b)" "paged mid"
    using Cons.prems(4,6) pg by (auto simp: e sum)
  from Cons.IH [OF ce [unfolded set'] solid' t(3) [folded sum] this(3,2,1)]
  obtain fin' where "cs' = xs @ fin' @ ys" "solid p lo (unat c') fin'" "unat c' \<le> unat z" "same_books s2 s'"
    "paged fin'" "4096 dvd unat c'" by blast
  moreover have "same_books s s2" by (rule same_books_trans [OF sb apply_prot_books [OF ap]])
  ultimately show ?case using same_books_trans by blast
qed

section \<open>The books of a process\<close>

definition reservation_ok :: "addr \<times> reservation \<Rightarrow> bool" where
  "reservation_ok = (\<lambda>(k, r). 4096 dvd unat k \<and> 4096 dvd unat (rsize r) \<and>
     tiled csize (unat k) (unat k + unat (rsize r)) (committed r) \<and> paged (committed r))"

definition books_ok :: "nat \<Rightarrow> 'm user_mem \<Rightarrow> bool" where
  "books_ok hi s \<longleftrightarrow> tiled rsize 0 hi (reservations s) \<and> hi < 2 ^ 64 \<and>
     (\<forall>e \<in> set (reservations s). reservation_ok e)"

text \<open>\<open>None\<close>: not reserved; \<open>Some None\<close>: reserved; \<open>Some (Some p)\<close>: committed with protection \<open>p\<close>.\<close>

definition page_state :: "'m user_mem \<Rightarrow> addr \<Rightarrow> u32 option option" where
  "page_state s a = map_option (\<lambda>(k, r). prot_at (committed r) a) (find_reservation (reservations s) a)"

definition within :: "addr \<Rightarrow> u64 \<Rightarrow> addr \<Rightarrow> bool" where
  "within base sz a \<longleftrightarrow> unat base \<le> unat a \<and> unat a < unat base + unat sz"

lemma books_same: "same_books s s' \<Longrightarrow> books_ok hi s' = books_ok hi s"
  and page_state_same: "same_books s s' \<Longrightarrow> page_state s' a = page_state s a"
  by (simp_all add: same_books_def books_ok_def page_state_def)

lemma find_reservation_iff:
  assumes "books_ok hi s"
  shows "find_reservation (reservations s) a = Some (k, r) \<longleftrightarrow> (k, r) \<in> set (reservations s) \<and> within k (rsize r) a"
  unfolding find_reservation_def within_def
  using region_at_iff [of rsize 0 hi "reservations s" a k r] assms by (auto simp: books_ok_def)

lemma found_reservation:
  assumes "books_ok hi s" and "find_reservation (reservations s) a = Some (k, r)"
  shows "(k, r) \<in> set (reservations s)" and "within k (rsize r) a" and "reservation_ok (k, r)"
    and "unat k + unat (rsize r) < 2 ^ 64"
proof -
  show m: "(k, r) \<in> set (reservations s)" and "within k (rsize r) a"
    using assms find_reservation_iff by blast+
  show "reservation_ok (k, r)" using assms(1) m by (auto simp: books_ok_def)
  show "unat k + unat (rsize r) < 2 ^ 64"
    using assms(1) tiled_bounds [of rsize 0 hi "reservations s" k r] m by (auto simp: books_ok_def)
qed

text \<open>Replacing the committed regions of one reservation is seen inside it and nowhere else.\<close>

lemma set_committed_correct:
  assumes ok: "books_ok hi s" and mem: "(k, r) \<in> set (reservations s)"
    and t: "tiled csize (unat k) (unat k + unat (rsize r)) cs" and pg: "paged cs"
  shows "books_ok hi (set_committed k cs s)"
    and "page_state (set_committed k cs s) a = (if within k (rsize r) a then Some (prot_at cs a) else page_state s a)"
proof -
  let ?s' = "set_committed k cs s" and ?r = "r\<lparr>committed := cs\<rparr>"
  obtain xs ys where m: "reservations s = xs @ (k, r) # ys" using mem by (auto dest: split_list)
  have ti: "tiled rsize 0 hi (xs @ (k, r) # ys)" using ok by (simp add: books_ok_def m)
  note so = tiled_sorted [OF ti]
  have m': "reservations ?s' = xs @ (k, ?r) # ys"
    using smap_find_here [OF so] smap_set_here [OF so] by (simp add: set_committed_def m)
  show ok': "books_ok hi ?s'"
    using ok t pg by (auto simp: books_ok_def m m' tiled_split reservation_ok_def)
  have "find_reservation (reservations ?s') a = (if within k (rsize r) a then Some (k, ?r)
      else find_reservation (reservations s) a)"
  proof (cases "within k (rsize r) a")
    case True
    then show ?thesis using find_reservation_iff [OF ok', of a k ?r] by (simp add: m')
  next
    case False
    have "find_reservation (reservations ?s') a = Some (j, q) \<longleftrightarrow> find_reservation (reservations s) a = Some (j, q)" for j q
      unfolding find_reservation_iff [OF ok'] find_reservation_iff [OF ok] using False by (auto simp: m m')
    then show ?thesis using False by (metis not_Some_eq surj_pair)
  qed
  then show "page_state ?s' a = (if within k (rsize r) a then Some (prot_at cs a) else page_state s a)"
    by (simp add: page_state_def)
qed

section \<open>Services on a range of one reservation\<close>

text \<open>What the two splits at the ends of a range give: the regions before, in and behind it.\<close>

lemma on_range:
  assumes t: "tiled csize lo hi cs0" and hi: "hi < 2 ^ 64" and le: "lo \<le> unat a" "unat a \<le> unat z"
    and cs: "cs = split_at z (split_at a cs0)" and pg: "paged cs0" "4096 dvd unat a" "4096 dvd unat z"
  obtains xs ys where "cs = xs @ in_range a z cs @ ys" and "tiled csize lo hi cs"
    and "tiled csize lo (unat a) xs" and "tiled csize (unat a) (unat z) (in_range a z cs)"
    and "tiled csize (unat z) (max hi (unat z)) ys" and "\<forall>n p. covers cs n p \<longleftrightarrow> covers cs0 n p"
    and "paged cs"
proof -
  note a = split_at_correct [where a = a, OF t hi]
  note z = split_at_correct [where a = z, OF a(1) hi, folded cs]
  have "tiled csize lo (max hi (unat z)) cs" using z(1) by (rule tiled_mono) simp_all
  from range_split [OF this z(4) [OF a(2)] z(2) le] obtain xs ys where
    "cs = xs @ in_range a z cs @ ys" "tiled csize lo (unat a) xs"
    "tiled csize (unat a) (unat z) (in_range a z cs)" "tiled csize (unat z) (max hi (unat z)) ys"
    by auto
  then show ?thesis using that z(1,3) z(5) [OF a(5) [OF pg(1,2)] pg(3)] a(3) by blast
qed

lemma tiled_drop_mid: "tiled sz lo hi (xs @ mid @ ys) \<Longrightarrow> tiled sz lo hi (xs @ ys)"
  unfolding tiled_append by (meson order_refl tiled_mono tiled_window)

text \<open>Outside the range nothing is covered by its regions, inside nothing by the others.\<close>

lemma covers_range:
  assumes "tiled csize lo (unat (a :: addr)) xs" and "tiled csize (unat a) (unat (z :: addr)) mid"
    and "tiled csize (unat z) h ys"
  shows "covers (xs @ mid @ ys) n p \<longleftrightarrow> (if unat a \<le> n \<and> n < unat z then covers mid n p else covers (xs @ ys) n p)"
  using covers_window [OF assms(1), of n p] covers_window [OF assms(2), of n p] covers_window [OF assms(3), of n p]
  by auto

lemma fold_erase_mid:
  "sorted_keys (xs @ mid @ ys) \<Longrightarrow> fold (\<lambda>e. smap_erase (fst e)) mid (xs @ mid @ ys) = xs @ ys"
proof (induction mid)
  case (Cons e mid)
  obtain k b where e: "e = (k, b)" by (cases e)
  have "smap_erase k (xs @ (k, b) # mid @ ys) = xs @ mid @ ys"
    using Cons.prems by (intro smap_erase_here) (simp add: e)
  moreover have "sorted_keys (xs @ mid @ ys)" using Cons.prems by (simp add: e sorted_keys_append sorted_keys_Cons)
  ultimately show ?case using Cons.IH by (simp add: e)
qed simp

lemma prot_at_upd:
  assumes "tiled csize lo hi cs" and "hi < 2 ^ 64" and "tiled csize lo' hi' cs'" and "hi' < 2 ^ 64"
    and "\<And>p. covers cs' (unat a) p \<longleftrightarrow> (\<exists>q. covers cs (unat a) q \<and> f q = p)"
  shows "prot_at cs' a = map_option f (prot_at cs a)"
proof (rule option_ext)
  fix p
  show "prot_at cs' a = Some p \<longleftrightarrow> map_option f (prot_at cs a) = Some p"
    using assms(5) [of p] prot_at_iff [OF assms(1,2), of a] prot_at_iff [OF assms(3,4), of a p] by auto
qed

text \<open>Storing the new regions of the reservation a service worked on.\<close>

lemma page_state_in:
  assumes "books_ok hi s" and "(k, r) \<in> set (reservations s)" and "within k (rsize r) a"
  shows "page_state s a = Some (prot_at (committed r) a)"
  using find_reservation_iff [OF assms(1), of a k r] assms by (simp add: page_state_def)

lemma store_regions:
  assumes ok: "books_ok hi s" and mem: "(k, r) \<in> set (reservations s)" and sb: "same_books s s2"
    and t: "tiled csize (unat k) (unat k + unat (rsize r)) m" and pg: "paged m"
    and v: "\<And>a. within k (rsize r) a \<Longrightarrow> prot_at m a = g a (prot_at (committed r) a)"
  shows "books_ok hi (set_committed k m s2)"
    and "page_state (set_committed k m s2) a =
      (if within k (rsize r) a then map_option (g a) (page_state s a) else page_state s a)"
proof -
  have ok2: "books_ok hi s2" and mem2: "(k, r) \<in> set (reservations s2)"
    using ok mem sb by (auto simp: books_same same_books_def books_ok_def)
  note sc = set_committed_correct [OF ok2 mem2 t pg]
  show "books_ok hi (set_committed k m s2)" by (rule sc(1))
  show "page_state (set_committed k m s2) a =
      (if within k (rsize r) a then map_option (g a) (page_state s a) else page_state s a)"
    using sc(2) [of a] v [of a] page_state_in [OF ok mem, of a] page_state_same [OF sb, of a] by simp
qed

text \<open>A range filled without gaps, between what was before and behind it.\<close>

lemma solid_replace:
  assumes t: "tiled csize lo hi cs0" and hi: "hi < 2 ^ 64" and sh: "cs = xs @ mid @ ys"
    and tx: "tiled csize lo (unat a) xs" and tm: "tiled csize (unat a) (unat z) mid"
    and ty: "tiled csize (unat z) hi ys" and cv: "\<forall>n p. covers cs n p \<longleftrightarrow> covers cs0 n p"
    and so: "solid q (unat (a :: addr)) (unat (z :: addr)) w" and pg: "paged (xs @ w @ ys)"
  defines "m \<equiv> merge_adjacent (xs @ w @ ys)"
  shows "tiled csize lo hi m" and "paged m"
    and "prot_at m x = (if unat a \<le> unat x \<and> unat x < unat z then Some q else prot_at cs0 x)"
proof -
  have t2: "tiled csize lo hi (xs @ w @ ys)"
    unfolding tiled_append using tx solid_tiled [OF so] ty by (auto simp: tiled_append)
  note mg = merge_adjacent_correct [OF t2 hi, folded m_def]
  show tm': "tiled csize lo hi m" and "paged m" using mg [of 0 0] pg by blast+
  show "prot_at m x = (if unat a \<le> unat x \<and> unat x < unat z then Some q else prot_at cs0 x)"
  proof (rule option_ext)
    fix p
    have "covers m (unat x) p \<longleftrightarrow> (if unat a \<le> unat x \<and> unat x < unat z then p = q else covers cs (unat x) p)"
      using mg covers_range [OF tx solid_tiled [OF so] ty, of "unat x" p] solid_covers [OF so]
        covers_range [OF tx tm ty, of "unat x" p] by (auto simp: sh)
    then show "prot_at m x = Some p \<longleftrightarrow>
        (if unat a \<le> unat x \<and> unat x < unat z then Some q else prot_at cs0 x) = Some p"
      using prot_at_iff [OF tm' hi] prot_at_iff [OF t hi] cv by auto
  qed
qed

text \<open>\<open>commit_into\<close>: the range is committed with the new protection, gaps and all.\<close>

lemma commit_into_correct:
  assumes ok: "books_ok hi s" and f: "find_reservation (reservations s) base = Some (k, r)"
    and al: "4096 dvd unat base" "4096 dvd unat sz" and nw: "unat base + unat sz < 2 ^ 64"
    and run: "commit_into M k r base sz prot s = Inr (s', status)"
  shows "if unat base + unat sz \<le> unat k + unat (rsize r)
    then status = STATUS_SUCCESS \<and> books_ok hi s' \<and>
      (\<forall>a. page_state s' a = (if within base sz a then Some (Some prot) else page_state s a))
    else status = STATUS_CONFLICTING_ADDRESSES \<and> s' = s"
proof -
  note fr = found_reservation [OF ok f]
  have stop: "unat (base + sz) = unat base + unat sz" using nw by (rule unat_add_no_overflow)
  have ke: "unat (k + rsize r) = unat k + unat (rsize r)" using fr(4) by (rule unat_add_no_overflow)
  show ?thesis
  proof (cases "unat base + unat sz \<le> unat k + unat (rsize r)")
    case False
    then show ?thesis using run by (auto simp: commit_into_def Let_def word_less_nat_alt stop ke)
  next
    case True
    define cs where "cs = split_at (base + sz) (split_at base (committed r))"
    have t: "tiled csize (unat k) (unat k + unat (rsize r)) (committed r)" and pg: "paged (committed r)"
      and b: "unat k \<le> unat base" using fr(2,3) by (auto simp: reservation_ok_def within_def)
    have zd: "4096 dvd unat (base + sz)" and bz: "unat base \<le> unat (base + sz)" using al stop by (auto intro: dvd_add)
    obtain xs ys where
      sh: "cs = xs @ in_range base (base + sz) cs @ ys"
      and tc: "tiled csize (unat k) (unat k + unat (rsize r)) cs"
      and tx: "tiled csize (unat k) (unat base) xs"
      and tm: "tiled csize (unat base) (unat (base + sz)) (in_range base (base + sz) cs)"
      and ty: "tiled csize (unat (base + sz)) (max (unat k + unat (rsize r)) (unat (base + sz))) ys"
      and cv: "\<forall>n p. covers cs n p \<longleftrightarrow> covers (committed r) n p" and pcs: "paged cs"
      by (rule on_range [OF t fr(4) b bz cs_def pg al(1) zd])
    have ty': "tiled csize (unat (base + sz)) (unat k + unat (rsize r)) ys"
      using ty True by (simp add: stop max_def split: if_splits)
    have pms: "paged xs" "paged (in_range base (base + sz) cs)" "paged ys"
      using pcs by (subst (asm) sh, simp)+
    from run True obtain s1 cs1 c s2 cs2 where
      ce: "commit_each M prot (in_range base (base + sz) cs) base (s, cs) = Inr ((s1, cs1), c)"
      and fg: "fill_gap M prot c (base + sz) (s1, cs1) = Inr (s2, cs2)"
      and fin: "s' = set_committed k (merge_adjacent cs2) s2" "status = STATUS_SUCCESS"
      by (auto simp: commit_into_def Let_def word_less_nat_alt stop ke bind_Inr simp flip: cs_def)
    have "commit_each M prot (in_range base (base + sz) cs) base
        (s, xs @ [] @ in_range base (base + sz) cs @ ys) = Inr ((s1, cs1), c)"
      using ce sh by simp
    from commit_each_shape [OF this tx _ tm ty' pms(2) al(1)] obtain fin' where
      c1: "cs1 = (xs @ fin') @ ys" "solid prot (unat base) (unat c) fin'" "unat c \<le> unat (base + sz)"
      and b1: "same_books s s1" and p1: "paged fin'" "4096 dvd unat c" by auto
    from fill_gap_shape [OF fg [unfolded c1(1)] c1(2) refl tx ty' c1(3)] obtain g where
      c2: "cs2 = (xs @ fin') @ g @ ys" "solid prot (unat c) (unat (base + sz)) g"
      and b2: "same_books s1 s2" and p2: "paged g" using p1 al stop by (auto intro: dvd_add)
    let ?w = "fin' @ g"
    have so: "solid prot (unat base) (unat (base + sz)) ?w" using c1(2) c2(2) by (auto simp: solid_append)
    have pw: "paged (xs @ ?w @ ys)" using pms p1 p2 by simp
    define m where "m = merge_adjacent (xs @ ?w @ ys)"
    note sr = solid_replace [OF t fr(4) sh tx tm ty' cv so pw, folded m_def]
    have s': "s' = set_committed k m s2" using fin(1) c2(1) by (simp add: m_def)
    have pv: "prot_at m a = (if within base sz a then Some prot else prot_at (committed r) a)" for a
      using sr(3) [of a] by (simp add: within_def stop)
    have inside: "within base sz a \<Longrightarrow> within k (rsize r) a" for a using b True by (simp add: within_def)
    note st = store_regions [where g = "\<lambda>a p. if within base sz a then Some prot else p",
        OF ok fr(1) same_books_trans [OF b1 b2] sr(1,2) pv]
    have "page_state s' a = (if within base sz a then Some (Some prot) else page_state s a)" for a
      using st(2) [of a] s' inside [of a] page_state_in [OF ok fr(1), of a] by auto
    with st(1) s' fin(2) True show ?thesis by simp
  qed
qed

text \<open>\<open>protect\<close>: what is committed in the range takes the new protection, what is not stays as it is.\<close>

lemma protect_correct:
  assumes ok: "books_ok hi s" and start: "start = page_align base" and reg: "region = size_align (sz + (base - start))"
    and f: "find_reservation (reservations s) start = Some (k, r)" and nw: "unat start + unat region < 2 ^ 64"
    and run: "um_protect M base sz new_prot s = Inr (s', status, base', sz', old)"
  shows "status = STATUS_SUCCESS \<and> base' = start \<and> sz' = region \<and> books_ok hi s' \<and>
    old = (case prot_at (committed r) start of Some p \<Rightarrow> p | None \<Rightarrow> initial_prot r) \<and>
    (\<forall>a. page_state s' a =
       (if within start region a \<and> within k (rsize r) a \<and> prot_at (committed r) start \<noteq> None
        then map_option (map_option (\<lambda>_. new_prot)) (page_state s a) else page_state s a))"
proof (cases "find_committed (committed r) start")
  case None
  then show ?thesis
    using run f ok unfolding um_protect_def by (auto simp: Let_def start reg prot_at_def)
next
  case (Some e)
  obtain j b where e: "find_committed (committed r) start = Some (j, b)" using Some by (cases e) auto
  note fr = found_reservation [OF ok f]
  have t: "tiled csize (unat k) (unat k + unat (rsize r)) (committed r)" and pg: "paged (committed r)"
    and ks: "unat k \<le> unat start" using fr(2,3) by (auto simp: reservation_ok_def within_def)
  have al: "4096 dvd unat start" "4096 dvd unat region" by (simp_all add: start reg page_aligned_size_align unat_page_align)
  have stop: "unat (start + region) = unat start + unat region" using nw by (rule unat_add_no_overflow)
  have zd: "4096 dvd unat (start + region)" and bz: "unat start \<le> unat (start + region)" using al stop by (auto intro: dvd_add)
  define cs where "cs = split_at (start + region) (split_at start (committed r))"
  define mid where "mid = in_range start (start + region) cs"
  obtain xs ys where sh: "cs = xs @ mid @ ys" and tc: "tiled csize (unat k) (unat k + unat (rsize r)) cs"
    and tx: "tiled csize (unat k) (unat start) xs" and tm: "tiled csize (unat start) (unat (start + region)) mid"
    and ty: "tiled csize (unat (start + region)) (max (unat k + unat (rsize r)) (unat (start + region))) ys"
    and cv: "\<forall>n p. covers cs n p \<longleftrightarrow> covers (committed r) n p" and pcs: "paged cs"
    unfolding mid_def by (rule on_range [OF t fr(4) ks bz cs_def pg al(1) zd])
  from run f e obtain s1 cs1 where pe: "protect_each M new_prot mid (s, cs) = Inr (s1, cs1)"
    and res: "s' = set_committed k (merge_adjacent cs1) s1" "status = STATUS_SUCCESS" "base' = start"
      "sz' = region" "old = cprot b"
    by (auto simp: um_protect_def Let_def bind_Inr simp flip: start reg cs_def mid_def)
  from protect_each_shape [OF pe [unfolded sh]] tiled_sorted [OF tc] have
    c1: "cs1 = xs @ reprot new_prot mid @ ys" and sb: "same_books s s1" by (simp_all add: sh)
  have t1: "tiled csize (unat k) (unat k + unat (rsize r)) cs1" using tc by (simp add: c1 sh tiled_append)
  have p1: "paged cs1" using pcs by (simp add: c1 sh)
  note mg = merge_adjacent_correct [OF t1 fr(4)]
  have pv: "prot_at (merge_adjacent cs1) a =
      (if within start region a then map_option (\<lambda>_. new_prot) else id) (prot_at (committed r) a)" for a
  proof -
    have tmr: "tiled csize (unat start) (unat (start + region)) (reprot new_prot mid)" using tm by simp
    have "covers cs1 (unat a) p \<longleftrightarrow>
        (\<exists>q. covers (committed r) (unat a) q \<and> (if within start region a then new_prot else q) = p)" for p
      using covers_range [OF tx tmr ty, of "unat a" p] covers_range [OF tx tm ty, of "unat a"] cv
      by (auto simp: c1 sh within_def stop covers_reprot)
    then have "covers (merge_adjacent cs1) (unat a) p \<longleftrightarrow>
        (\<exists>q. covers (committed r) (unat a) q \<and> (if within start region a then new_prot else q) = p)" for p
      using mg by blast
    from prot_at_upd [OF t fr(4) conjunct1 [OF mg [of 0 0]] fr(4) this] show ?thesis
      by (auto simp: option.map_ident)
  qed
  have pm: "paged (merge_adjacent cs1)" using mg [of 0 0] p1 by blast
  note st = store_regions [where g = "\<lambda>a. if within start region a then map_option (\<lambda>_. new_prot) else id",
      OF ok fr(1) sb conjunct1 [OF mg [of 0 0]] pm pv]
  have "prot_at (committed r) start = Some (cprot b)" by (simp add: prot_at_def e)
  moreover have "page_state s' a = (if within start region a \<and> within k (rsize r) a
      then map_option (map_option (\<lambda>_. new_prot)) (page_state s a) else page_state s a)" for a
    using st(2) [of a] by (simp add: res option.map_id0)
  ultimately show ?thesis using st(1) res by simp
qed

text \<open>\<open>free\<close> with \<open>MEM_DECOMMIT\<close>: the pages of the range are reserved only.\<close>

lemma decommit_correct:
  assumes ok: "books_ok hi s" and start: "start = page_align base" and asked: "asked = size_align (sz + (base - start))"
    and ty: "free_type AND mem_release = 0" "free_type AND mem_decommit \<noteq> 0"
    and f: "find_reservation (reservations s) start = Some (k, r)" and whole: "asked \<noteq> 0 \<or> k = start"
    and reg: "region = (if asked = 0 then rsize r else asked)" and nw: "unat start + unat region < 2 ^ 64"
    and run: "um_free M base sz free_type s = Inr (s', status, base', sz')"
  shows "status = STATUS_SUCCESS \<and> base' = start \<and> sz' = region \<and> books_ok hi s' \<and>
    (\<forall>a. page_state s' a =
       (if within start region a \<and> within k (rsize r) a then Some None else page_state s a))"
proof -
  note fr = found_reservation [OF ok f]
  have t: "tiled csize (unat k) (unat k + unat (rsize r)) (committed r)" and pg: "paged (committed r)"
    and ks: "unat k \<le> unat start" and rd: "4096 dvd unat (rsize r)" using fr(2,3) by (auto simp: reservation_ok_def within_def)
  have al: "4096 dvd unat start" "4096 dvd unat region"
    using rd by (simp_all add: start reg asked page_aligned_size_align unat_page_align)
  have stop: "unat (start + region) = unat start + unat region" using nw by (rule unat_add_no_overflow)
  have zd: "4096 dvd unat (start + region)" and bz: "unat start \<le> unat (start + region)" using al stop by (auto intro: dvd_add)
  define cs where "cs = split_at (start + region) (split_at start (committed r))"
  define mid where "mid = in_range start (start + region) cs"
  obtain xs ys where sh: "cs = xs @ mid @ ys" and tc: "tiled csize (unat k) (unat k + unat (rsize r)) cs"
    and tx: "tiled csize (unat k) (unat start) xs" and tm: "tiled csize (unat start) (unat (start + region)) mid"
    and ty': "tiled csize (unat (start + region)) (max (unat k + unat (rsize r)) (unat (start + region))) ys"
    and cv: "\<forall>n p. covers cs n p \<longleftrightarrow> covers (committed r) n p" and pcs: "paged cs"
    unfolding mid_def by (rule on_range [OF t fr(4) ks bz cs_def pg al(1) zd])
  have "um_free M base sz free_type s = bind_result (release_each M mid s) (\<lambda>s1.
      Inr (set_committed k (fold (\<lambda>e. smap_erase (fst e)) mid cs) s1, STATUS_SUCCESS, start, region))"
    using ty f whole unfolding um_free_def Let_def mid_def cs_def reg asked start by auto
  with run obtain s1 where re: "release_each M mid s = Inr s1"
    and res: "s' = set_committed k (fold (\<lambda>e. smap_erase (fst e)) mid cs) s1" "status = STATUS_SUCCESS"
      "base' = start" "sz' = region"
    by (auto simp: bind_Inr)
  have er: "fold (\<lambda>e. smap_erase (fst e)) mid cs = xs @ ys"
    using fold_erase_mid [of xs mid ys] tiled_sorted [OF tc] by (simp add: sh)
  have t1: "tiled csize (unat k) (unat k + unat (rsize r)) (xs @ ys)"
    using tiled_drop_mid tc sh by metis
  have p1: "paged (xs @ ys)" using pcs by (simp add: sh)
  have pv: "prot_at (xs @ ys) a = (if within start region a then (\<lambda>_. None) else id) (prot_at (committed r) a)" for a
  proof (rule option_ext)
    fix p
    have "covers (xs @ ys) (unat a) p \<longleftrightarrow> \<not> within start region a \<and> covers (committed r) (unat a) p"
      using covers_range [OF tx tm ty', of "unat a" p] covers_range [OF tx _ ty', of "[]" "unat a" p] bz cv
      by (auto simp: sh within_def stop)
    then show "prot_at (xs @ ys) a = Some p \<longleftrightarrow>
        (if within start region a then (\<lambda>_. None) else id) (prot_at (committed r) a) = Some p"
      using prot_at_iff [OF t1 fr(4)] prot_at_iff [OF t fr(4)] by auto
  qed
  note st = store_regions [where g = "\<lambda>a. if within start region a then (\<lambda>_. None) else id",
      OF ok fr(1) release_each_books [OF re] t1 p1 pv]
  have "page_state s' a = (if within start region a \<and> within k (rsize r) a then Some None else page_state s a)" for a
    using st(2) [of a] page_state_in [OF ok fr(1), of a] by (simp add: res er option.map_id0)
  then show ?thesis using st(1) res er by simp
qed

text \<open>\<open>free\<close> with \<open>MEM_RELEASE\<close>: the reservation is gone, its pages are free.\<close>

lemma erase_reservation:
  assumes ok: "books_ok hi s" and mem: "(k, r) \<in> set (reservations s)"
  defines "s' \<equiv> s\<lparr>reservations := smap_erase k (reservations s)\<rparr>"
  shows "books_ok hi s'" and "page_state s' a = (if within k (rsize r) a then None else page_state s a)"
proof -
  obtain xs ys where m: "reservations s = xs @ (k, r) # ys" using mem by (auto dest: split_list)
  have ti: "tiled rsize 0 hi (xs @ (k, r) # ys)" using ok by (simp add: books_ok_def m)
  have m': "reservations s' = xs @ ys" using smap_erase_here [OF tiled_sorted [OF ti]] by (simp add: s'_def m)
  have "tiled rsize 0 hi (xs @ [(k, r)] @ ys)" using ti by simp
  from tiled_drop_mid [OF this] show ok': "books_ok hi s'" using ok by (auto simp: books_ok_def m m')
  have find: "find_reservation (reservations s') a = Some (j, q) \<longleftrightarrow>
      \<not> within k (rsize r) a \<and> find_reservation (reservations s) a = Some (j, q)" for j q
  proof -
    have "\<not> within k (rsize r) a" if "(j, q) \<in> set xs \<union> set ys" "within j (rsize q) a"
      using that tiled_keys_after [OF ti, of "(j, q)"] tiled_keys_before [OF ti, of "(j, q)"]
      by (auto simp: within_def)
    then show ?thesis
      unfolding find_reservation_iff [OF ok'] find_reservation_iff [OF ok] by (auto simp: m m')
  qed
  then have "find_reservation (reservations s') a =
      (if within k (rsize r) a then None else find_reservation (reservations s) a)"
    by (intro option_ext) (auto simp: split_paired_all)
  then show "page_state s' a = (if within k (rsize r) a then None else page_state s a)"
    by (simp add: page_state_def)
qed

lemma release_correct:
  assumes ok: "books_ok hi s" and start: "start = page_align base" and ty: "free_type AND mem_release \<noteq> 0"
    and f: "find_reservation (reservations s) start = Some (start, r)" and priv: "rtype r = mem_private"
    and run: "um_free M base 0 free_type s = Inr (s', status, base', sz')"
  shows "status = STATUS_SUCCESS \<and> base' = start \<and> sz' = rsize r \<and> books_ok hi s' \<and>
    (\<forall>a. page_state s' a = (if within start (rsize r) a then None else page_state s a))"
proof -
  note fr = found_reservation [OF ok f]
  from run f ty priv obtain s1 where re: "release_each M (committed r) s = Inr s1"
    and res: "s' = s1\<lparr>reservations := smap_erase start (reservations s1)\<rparr>" "status = STATUS_SUCCESS"
      "base' = start" "sz' = rsize r"
    by (auto simp: um_free_def Let_def bind_Inr simp flip: start)
  note sb = release_each_books [OF re]
  have "books_ok hi s1" "(start, r) \<in> set (reservations s1)"
    using ok fr(1) sb by (auto simp: books_same same_books_def books_ok_def)
  from erase_reservation [OF this] res page_state_same [OF sb] show ?thesis by simp
qed

section \<open>Faults\<close>

lemma dvd_room: "(n :: nat) dvd a \<Longrightarrow> n dvd b \<Longrightarrow> a < b \<Longrightarrow> a + n \<le> b"
  by (metis dvd_diff_nat dvd_imp_le add.commute le_diff_conv2 less_or_eq_imp_le zero_less_diff)

lemma one_page:
  assumes "tiled csize (unat (a :: addr)) (unat a + 4096) mid" and "paged mid"
  shows "mid = [] \<or> (\<exists>b. mid = [(a, b)] \<and> unat (csize b) = 4096)"
proof (cases mid)
  case (Cons e m)
  obtain k b where e: "e = (k, b)" by (cases e)
  have h: "unat a \<le> unat k" "0 < unat (csize b)" "4096 dvd unat (csize b)"
    and t: "tiled csize (unat k + unat (csize b)) (unat a + 4096) m"
    using assms by (simp_all add: Cons e)
  have "4096 \<le> unat (csize b)" using h(2,3) by (simp add: dvd_imp_le)
  with h tiled_window [OF t] have eq: "unat k = unat a" "unat (csize b) = 4096" by linarith+
  have "m = []"
  proof (rule ccontr)
    assume "m \<noteq> []"
    then obtain j c m' where "m = (j, c) # m'" by (metis neq_Nil_conv surj_pair)
    with t eq tiled_window [of csize "unat j + unat (csize c)" "unat a + 4096" m'] show False by auto
  qed
  with eq show ?thesis by (simp add: Cons e word_unat_eq_iff)
qed simp

text \<open>A page no region reaches into lies between two regions.\<close>

lemma page_gap:
  assumes t: "tiled csize lo hi cs" and pg: "paged cs" and a: "4096 dvd unat (a :: addr)" "lo \<le> unat a"
    "unat a + 4096 \<le> hi" and hi: "hi < 2 ^ 64" and none: "prot_at cs a = None"
  obtains xs ys where "cs = xs @ ys" and "tiled csize lo (unat a) xs" and "tiled csize (unat a + 4096) hi ys"
proof -
  have z: "unat (a + 0x1000) = unat a + 4096" using a(3) hi by (subst unat_add_no_overflow) simp_all
  have nc: "\<not> covers cs (unat a) p" for p using none prot_at_iff [OF t hi, of a p] by simp
  have cut: "cut_at (unat a) cs" "cut_at (unat (a + 0x1000)) cs"
  proof -
    have "unat k + unat (csize b) \<le> unat a \<or> unat a + 4096 \<le> unat k" if "(k, b) \<in> set cs" for k b
    proof -
      have "\<not> (unat k \<le> unat a \<and> unat a < unat k + unat (csize b))"
        using nc [of "cprot b"] that by (auto simp: covers_def)
      moreover have "4096 dvd unat k" using pg that by (auto simp: paged_def)
      ultimately show ?thesis using a(1) by (auto elim!: dvdE)
    qed
    then show "cut_at (unat a) cs" "cut_at (unat (a + 0x1000)) cs" by (fastforce simp: cut_at_def z)+
  qed
  from range_split [OF t cut a(2)] a(3) z obtain xs ys where
    sh: "cs = xs @ in_range a (a + 0x1000) cs @ ys" and tx: "tiled csize lo (unat a) xs"
    and tm: "tiled csize (unat a) (unat a + 4096) (in_range a (a + 0x1000) cs)" and ty: "tiled csize (unat a + 4096) hi ys"
    by auto
  have "paged (in_range a (a + 0x1000) cs)" using pg by (subst (asm) sh) simp
  moreover have False if m: "in_range a (a + 0x1000) cs = [(a, b)]" "unat (csize b) = 4096" for b
  proof -
    have "cs = xs @ (a, b) # ys" using sh m(1) by simp
    then show False using nc [of "cprot b"] m(2) by simp
  qed
  ultimately have "in_range a (a + 0x1000) cs = []" using one_page [OF tm] by blast
  with sh tx ty show ?thesis by (intro that) auto
qed

text \<open>
  A fault is handled when the page is reserved for an accessible protection and not committed
  yet, which commits it, or when it is a guard page, which disarms it; nothing else changes.
\<close>

definition fault_prot :: "'m user_mem \<Rightarrow> addr \<Rightarrow> u32 option" where
  "fault_prot s page =
     (case find_reservation (reservations s) page of
        None \<Rightarrow> None
      | Some (k, r) \<Rightarrow>
          (case prot_at (committed r) page of
             None \<Rightarrow> if is_resident (initial_prot r) then Some (initial_prot r) else None
           | Some p \<Rightarrow> if p AND page_guard \<noteq> 0 then Some (p AND NOT page_guard) else None))"

lemma handle_fault_correct:
  assumes ok: "books_ok hi s" and pg: "page = page_align fault_addr"
    and run: "handle_fault M fault_addr s = Inr (s', handled)"
  shows "case fault_prot s page of
      None \<Rightarrow> \<not> handled \<and> s' = s
    | Some p \<Rightarrow> handled \<and> books_ok hi s' \<and>
        (\<forall>a. page_state s' a = (if within page page_size a then Some (Some p) else page_state s a))"
proof (cases "find_reservation (reservations s) page")
  case None
  then show ?thesis using run by (auto simp: handle_fault_def Let_def fault_prot_def simp flip: pg)
next
  case (Some e)
  then obtain k r where f: "find_reservation (reservations s) page = Some (k, r)" by (cases e) auto
  note fr = found_reservation [OF ok f]
  have t: "tiled csize (unat k) (unat k + unat (rsize r)) (committed r)" and pgd: "paged (committed r)"
    and kp: "unat k \<le> unat page" and kd: "4096 dvd unat k" "4096 dvd unat (rsize r)"
    and lt: "unat page < unat k + unat (rsize r)"
    using fr(2,3) by (auto simp: reservation_ok_def within_def)
  have pd: "4096 dvd unat page" by (simp add: pg unat_page_align)
  have room: "unat page + 4096 \<le> unat k + unat (rsize r)" 
    using pd kd by (intro dvd_room lt) (auto intro: dvd_add)
  have z: "unat (page + page_size) = unat page + 4096"
    using room fr(4) by (subst unat_add_no_overflow) (simp_all add: page_size_def)
  have wi: "within page page_size a \<longleftrightarrow> unat page \<le> unat a \<and> unat a < unat (page + page_size)" for a
    unfolding z by (simp add: within_def page_size_def)
  have inside: "within page page_size a \<Longrightarrow> within k (rsize r) a" for a
    using kp room by (simp add: within_def page_size_def)
  have store: "books_ok hi (set_committed k m s1) \<and>
      (\<forall>a. page_state (set_committed k m s1) a = (if within page page_size a then Some (Some q) else page_state s a))"
    if "same_books s s1" "tiled csize (unat k) (unat k + unat (rsize r)) m" "paged m"
      "\<And>a. prot_at m a = (if within page page_size a then Some q else prot_at (committed r) a)" for m s1 q
  proof -
    note st = store_regions [where g = "\<lambda>a p. if within page page_size a then Some q else p", OF ok fr(1) that]
    then show ?thesis using inside page_state_in [OF ok fr(1)] by auto
  qed
  show ?thesis
  proof (cases "prot_at (committed r) page")
    case None
    then have fc: "find_committed (committed r) page = None" by (simp add: prot_at_def)
    show ?thesis
    proof (cases "is_resident (initial_prot r)")
      case False
      with run f fc None show ?thesis by (auto simp: handle_fault_def Let_def fault_prot_def simp flip: pg)
    next
      case True
      let ?n = "\<lparr>csize = page_size, cprot = initial_prot r\<rparr>"
      from run f fc True obtain s1 where mp: "map_pages M page page_size (initial_prot r) s = Inr s1"
        and res: "s' = set_committed k (merge_adjacent (smap_set page ?n (committed r))) s1" "handled"
        by (auto simp: handle_fault_def Let_def map_sum_Inr simp flip: pg)
      obtain xs ys where sh: "committed r = xs @ [] @ ys" and tx: "tiled csize (unat k) (unat page) xs"
        and ty: "tiled csize (unat (page + page_size)) (unat k + unat (rsize r)) ys"
        using page_gap [OF t pgd pd kp room fr(4) None] unfolding z by auto
      have so: "solid (initial_prot r) (unat page) (unat (page + page_size)) [(page, ?n)]"
        unfolding z by (simp add: page_size_def)
      have tm: "tiled csize (unat page) (unat (page + page_size)) []" by (simp add: z)
      have pw: "paged (xs @ [(page, ?n)] @ ys)" using pgd pd by (simp add: sh page_size_def)
      note sr = solid_replace [OF t fr(4) sh tx tm ty _ so pw, folded wi]
      have "tiled csize (unat k) (unat k + unat (rsize r)) (xs @ [(page, ?n)] @ ys)"
        unfolding tiled_append using tx solid_tiled [OF so] ty by (auto simp: tiled_append)
      from tiled_sorted [OF this] have "smap_set page ?n (committed r) = xs @ [(page, ?n)] @ ys"
        using smap_set_between [of xs ys page ?n] by (auto simp: sh sorted_keys_append sorted_keys_Cons)
      with store [OF map_pages_books [OF mp] sr(1,2,3)] res True f None show ?thesis
        by (simp add: fault_prot_def)
    qed
  next
    case (Some p)
    then obtain j b where fc: "find_committed (committed r) page = Some (j, b)" "cprot b = p"
      by (auto simp: prot_at_def)
    show ?thesis
    proof (cases "p AND page_guard = 0")
      case True
      with run f fc Some show ?thesis by (auto simp: handle_fault_def Let_def fault_prot_def simp flip: pg)
    next
      case False
      define cs where "cs = split_at (page + page_size) (split_at page (committed r))"
      have zd: "4096 dvd unat (page + page_size)" and bz: "unat page \<le> unat (page + page_size)" using pd z by simp_all
      obtain xs ys where sh: "cs = xs @ in_range page (page + page_size) cs @ ys"
        and tc: "tiled csize (unat k) (unat k + unat (rsize r)) cs"
        and tx: "tiled csize (unat k) (unat page) xs"
        and tm: "tiled csize (unat page) (unat (page + page_size)) (in_range page (page + page_size) cs)"
        and ty: "tiled csize (unat (page + page_size)) (max (unat k + unat (rsize r)) (unat (page + page_size))) ys"
        and cv: "\<forall>n p. covers cs n p \<longleftrightarrow> covers (committed r) n p" and pcs: "paged cs"
        by (rule on_range [OF t fr(4) kp bz cs_def pgd pd zd])
      have ty': "tiled csize (unat (page + page_size)) (unat k + unat (rsize r)) ys"
        using ty room by (simp add: z max_def split: if_splits)
      have "covers cs (unat page) p" using cv prot_at_iff [OF t fr(4)] Some by blast
      then have in_mid: "covers (in_range page (page + page_size) cs) (unat page) p"
        using covers_range [OF tx tm ty', of "unat page" p] sh z by simp
      have "paged (in_range page (page + page_size) cs)" using pcs by (subst (asm) sh) simp
      with one_page [OF tm [unfolded z]] in_mid obtain c where
        mid: "in_range page (page + page_size) cs = [(page, c)]" and c: "unat (csize c) = 4096" "cprot c = p"
        by auto
      let ?n = "c\<lparr>cprot := p AND NOT page_guard\<rparr>"
      have so: "solid (p AND NOT page_guard) (unat page) (unat (page + page_size)) [(page, ?n)]"
        unfolding z by (simp add: c)
      have pw: "paged (xs @ [(page, ?n)] @ ys)" using pcs by (subst (asm) sh) (simp add: mid)
      note sr = solid_replace [OF t fr(4) sh tx tm ty' cv so pw, folded wi]
      have sk: "sorted_keys (xs @ (page, c) # ys)" using tiled_sorted [OF tc] sh mid by simp
      have cs': "cs = xs @ (page, c) # ys" using sh mid by simp
      have "smap_find page cs = Some c" "smap_set page ?n cs = xs @ [(page, ?n)] @ ys"
        using smap_find_here [OF sk] smap_set_here [OF sk] by (simp_all add: cs')
      with run f fc False obtain s1 where mp: "map_pages M page page_size (p AND NOT page_guard) s = Inr s1"
        and res: "s' = set_committed k (merge_adjacent (xs @ [(page, ?n)] @ ys)) s1" "handled"
        by (auto simp: handle_fault_def Let_def map_sum_Inr c simp flip: pg cs_def)
      with store [OF map_pages_books [OF mp] sr(1,2,3)] False f Some show ?thesis
        by (simp add: fault_prot_def)
    qed
  qed
qed

end
