(* ===== verification/User_Alloc.thy ===== *)
theory User_Alloc
  imports User_Regions
begin

text \<open>
  Finding room for a reservation. The search of \<open>pick_base\<close> ends after at most one turn more
  than there are reservations, because every clash moves the candidate past one of them; what
  it finds is free, aligned and below the limit of user addresses. A reservation placed in free
  room keeps the books in order and changes the state of its own pages only.
\<close>

section \<open>Overlaps\<close>

definition clear_of :: "addr \<Rightarrow> u64 \<Rightarrow> addr \<times> reservation \<Rightarrow> bool" where
  "clear_of base sz e \<longleftrightarrow> unat (fst e) + unat (rsize (snd e)) \<le> unat base \<or> unat base + unat sz \<le> unat (fst e)"

lemma overlapping_iff:
  assumes t: "tiled rsize lo hi rs" and hi: "hi < 2 ^ 64" and nw: "unat base + unat sz < 2 ^ 64" and sz: "0 < unat sz"
  shows "overlapping rs base sz = None \<longleftrightarrow> (\<forall>e \<in> set rs. clear_of base sz e)"
    and "overlapping rs base sz = Some e \<Longrightarrow> e \<in> set rs \<and> \<not> clear_of base sz e"
proof -
  have stop: "unat (base + sz) = unat base + unat sz" using nw by (rule unat_add_no_overflow)
  note reg = region_at_iff [OF t hi, of base]
  have "(overlapping rs base sz = None \<longleftrightarrow> (\<forall>e \<in> set rs. clear_of base sz e)) \<and>
      (\<forall>e. overlapping rs base sz = Some e \<longrightarrow> e \<in> set rs \<and> \<not> clear_of base sz e)"
  proof (cases "region_at rsize rs base")
    case (Some f)
    then obtain k r where f: "region_at rsize rs base = Some (k, r)" by (cases f) auto
    then have "(k, r) \<in> set rs" "\<not> clear_of base sz (k, r)" using reg [of k r] sz by (auto simp: clear_of_def)
    with f show ?thesis by (auto simp: overlapping_def find_reservation_def)
  next
    case None
    have no: "unat (fst e) + unat (rsize (snd e)) \<le> unat base" if "e \<in> set rs" "fst e < base" for e
      using None reg [of "fst e" "snd e"] that by (auto simp: word_less_nat_alt not_less)
    have lb: "base \<le> fst e" if "e \<in> set (lower_bound base rs)" for e
      using lower_bound_le [OF tiled_sorted [OF t]] that by (simp add: lower_bound_def)
    have parts: "rs = takeWhile (\<lambda>e. fst e < base) rs @ lower_bound base rs" by (simp add: lower_bound_def)
    show ?thesis
    proof (cases "lower_bound base rs")
      case Nil
      then have "\<forall>e \<in> set rs. fst e < base" by (auto simp: lower_bound_def dropWhile_eq_Nil_conv)
      then show ?thesis using None Nil no by (auto simp: overlapping_def find_reservation_def clear_of_def)
    next
      case (Cons e es)
      have e: "e \<in> set rs" "base \<le> fst e" using parts Cons lb by (auto, metis in_set_conv_decomp)
      have "sorted_keys (lower_bound base rs)"
        using tiled_sorted [OF t] parts by (metis sorted_keys_append)
      then have first: "fst e \<le> fst d" if "d \<in> set (lower_bound base rs)" for d
        using that Cons by (cases e) (auto simp: sorted_keys_Cons)
      show ?thesis
      proof (cases "fst e < base + sz")
        case True
        have "0 < unat (rsize (snd e))" using tiled_bounds [OF t, of "fst e" "snd e"] e by simp
        then have "\<not> clear_of base sz e" using True e by (simp add: clear_of_def word_less_nat_alt word_le_nat_alt stop)
        with e True None Cons show ?thesis by (auto simp: overlapping_def find_reservation_def)
      next
        case False
        have "clear_of base sz d" if "d \<in> set rs" for d
        proof (cases "fst d < base")
          case True
          then show ?thesis using no that by (simp add: clear_of_def)
        next
          case ge: False
          have "d \<in> set (lower_bound base rs)"
            using that ge parts by (metis (no_types, lifting) Un_iff set_append set_takeWhileD)
          from first [OF this] False show ?thesis by (simp add: clear_of_def word_less_nat_alt word_le_nat_alt stop)
        qed
        with False None Cons show ?thesis by (simp add: overlapping_def find_reservation_def)
      qed
    qed
  qed
  then show "overlapping rs base sz = None \<longleftrightarrow> (\<forall>e \<in> set rs. clear_of base sz e)"
    "overlapping rs base sz = Some e \<Longrightarrow> e \<in> set rs \<and> \<not> clear_of base sz e" by blast+
qed

section \<open>The search for a base\<close>

lemma round_up:
  fixes x :: u64
  assumes "n < 64" and "unat x + 2 ^ n \<le> 2 ^ 64" and "msk = 2 ^ n - 1"
  shows "unat x \<le> unat ((x + msk) AND NOT msk)" and "unat ((x + msk) AND NOT msk) < unat x + 2 ^ n"
    and "2 ^ n dvd unat ((x + msk) AND NOT msk)"
proof -
  have eq: "(x + msk) AND NOT msk = align_up (2 ^ n) x" by (simp add: align_up_def assms(3) add_diff_eq)
  have p: "(0 :: nat) < 2 ^ n" by simp
  have u: "unat (align_up (2 ^ n) x) = (unat x + 2 ^ n - 1) div 2 ^ n * 2 ^ n"
    using assms(2) p by (intro unat_align_up assms(1)) linarith
  let ?y = "unat x + 2 ^ n - 1"
  have m: "?y div 2 ^ n * 2 ^ n + ?y mod 2 ^ n = ?y" by (rule div_mult_mod_eq)
  have lt: "?y mod 2 ^ n < 2 ^ n" by simp
  show "unat x \<le> unat ((x + msk) AND NOT msk)" "unat ((x + msk) AND NOT msk) < unat x + 2 ^ n"
    unfolding eq u using m lt p by linarith+
  show "2 ^ n dvd unat ((x + msk) AND NOT msk)" unfolding eq u by simp
qed

text \<open>The reservations the candidate has not moved past.\<close>

definition ahead :: "reservation_map \<Rightarrow> addr \<Rightarrow> (addr \<times> reservation) list" where
  "ahead rs c = filter (\<lambda>e. unat c < unat (fst e) + unat (rsize (snd e))) rs"

lemma pick_loop_correct:
  assumes t: "tiled rsize lo hi rs" and n: "n < 64" and msk: "msk = 2 ^ n - 1"
    and room: "hi + 2 ^ n + unat sz < 2 ^ 64" and sz: "0 < unat sz"
    and c: "unat c \<le> hi + 2 ^ n" "2 ^ n dvd unat c" and fuel: "length (ahead rs c) < fuel"
  shows "\<exists>r. pick_loop fuel rs sz msk c = Inr r \<and>
    (\<forall>b. r = Some b \<longrightarrow> unat c \<le> unat b \<and> 2 ^ n dvd unat b \<and> unat b + unat sz \<le> unat user_addr_limit \<and>
       (\<forall>e \<in> set rs. clear_of b sz e))"
  using c fuel
proof (induction fuel arbitrary: c)
  case (Suc fuel)
  have nw: "unat c + unat sz < 2 ^ 64" using Suc.prems(1) room by linarith
  have stop: "unat (c + sz) = unat c + unat sz" using nw by (rule unat_add_no_overflow)
  have hi: "hi < 2 ^ 64" using room by linarith
  note ov = overlapping_iff [OF t hi nw sz]
  show ?case
  proof (cases "c + sz \<le> user_addr_limit")
    case False
    then show ?thesis by simp
  next
    case True
    show ?thesis
    proof (cases "overlapping rs c sz")
      case None
      with True Suc.prems(2) ov(1) show ?thesis by (simp add: word_le_nat_alt stop)
    next
      case (Some e)
      obtain k r where e: "e = (k, r)" by (cases e)
      have mem: "(k, r) \<in> set rs" and clash: "\<not> clear_of c sz (k, r)" using ov(2) [OF Some] by (auto simp: e)
      have kb: "unat k + unat (rsize r) \<le> hi" using tiled_bounds [OF t mem] by simp
      have ku: "unat (k + rsize r) = unat k + unat (rsize r)" using kb hi by (intro unat_add_no_overflow) linarith
      define d where "d = (k + rsize r + msk) AND NOT msk"
      note ru = round_up [OF n _ msk, of "k + rsize r", folded d_def, unfolded ku]
      have fit: "unat k + unat (rsize r) + 2 ^ n \<le> 2 ^ 64" using kb room by linarith
      note ru = ru [OF fit]
      have past: "unat c < unat k + unat (rsize r)" using clash by (simp add: clear_of_def)
      have "(k, r) \<in> set (ahead rs c)" "(k, r) \<notin> set (ahead rs d)" using mem past ru(1) by (auto simp: ahead_def)
      moreover have "ahead rs d = filter (\<lambda>e. unat d < unat (fst e) + unat (rsize (snd e))) (ahead rs c)"
        using past ru(1) by (auto simp: ahead_def intro!: filter_cong)
      ultimately have "length (ahead rs d) < length (ahead rs c)"
        by (metis (no_types, lifting) length_filter_less mem_Collect_eq set_filter)
      with Suc.prems(3) have "length (ahead rs d) < fuel" by simp
      moreover have "unat d \<le> hi + 2 ^ n" using ru(2) kb by linarith
      ultimately obtain q where "pick_loop fuel rs sz msk d = Inr q"
        "\<forall>b. q = Some b \<longrightarrow> unat d \<le> unat b \<and> 2 ^ n dvd unat b \<and> unat b + unat sz \<le> unat user_addr_limit \<and>
           (\<forall>e \<in> set rs. clear_of b sz e)"
        using Suc.IH [of d] ru(3) by blast
      moreover have "unat c \<le> unat d" using past ru(1) by linarith
      ultimately show ?thesis using True Some by (auto simp: e d_def)
    qed
  qed
qed simp

section \<open>Placing a reservation\<close>

lemma place_reservation:
  assumes ok: "books_ok hi s" and cl: "\<forall>e \<in> set (reservations s). clear_of base (rsize r) e"
    and r: "reservation_ok (base, r)" "0 < unat (rsize r)" and top: "unat base + unat (rsize r) \<le> hi"
  defines "s' \<equiv> s\<lparr>reservations := smap_set base r (reservations s)\<rparr>"
  shows "books_ok hi s'"
    and "page_state s' a = (if within base (rsize r) a then Some (prot_at (committed r) a) else page_state s a)"
    and "within base (rsize r) a \<Longrightarrow> page_state s a = None"
    and "(base, r) \<in> set (reservations s')"
proof -
  let ?rs = "reservations s"
  define xs ys where "xs = takeWhile (\<lambda>e. fst e < base) ?rs" and "ys = lower_bound base ?rs"
  have m: "?rs = xs @ ys" by (simp add: xs_def ys_def lower_bound_def)
  have t: "tiled rsize 0 hi (xs @ ys)" using ok by (simp add: books_ok_def m)
  note so = tiled_sorted [OF t]
  obtain mid where tx: "tiled rsize 0 mid xs" and ty: "tiled rsize mid hi ys" using t by (auto simp: tiled_append)
  have pos: "0 < unat (rsize (snd e))" if "e \<in> set ?rs" for e
    using tiled_bounds [OF t, of "fst e" "snd e"] that by (simp add: m)
  have kx: "fst e < base" if "e \<in> set xs" for e using that by (auto simp: xs_def dest: set_takeWhileD)
  have ky: "base \<le> fst e" if "e \<in> set ys" for e
    using lower_bound_le [OF so [folded m]] that by (simp add: ys_def lower_bound_def)
  have ex: "unat (fst e) + unat (rsize (snd e)) \<le> unat base" if "e \<in> set xs" for e
    using cl kx [OF that] r(2) that by (force simp: m clear_of_def word_less_nat_alt)
  have ey: "unat base + unat (rsize r) \<le> unat (fst e)" if "e \<in> set ys" for e
  proof -
    have "clear_of base (rsize r) e" "0 < unat (rsize (snd e))" "unat base \<le> unat (fst e)"
      using cl pos ky [OF that] that by (simp_all add: m word_le_nat_alt)
    then show ?thesis by (auto simp: clear_of_def)
  qed
  have b: "unat (fst e) + unat (rsize (snd e)) \<le> hi" if "e \<in> set ys" for e
    using tiled_bounds [OF ty, of "fst e" "snd e"] that by simp
  have "tiled rsize 0 (unat base) xs" by (intro tiled_frame [OF tx] ex) simp_all
  moreover have "tiled rsize (unat base + unat (rsize r)) hi ys" by (intro tiled_frame [OF ty] top ey b)
  ultimately have t': "tiled rsize 0 hi (xs @ (base, r) # ys)" using r(2) by (simp add: tiled_split)
  have "\<forall>y \<in> set ys. base < fst y" using tiled_sorted [OF t'] by (auto simp: sorted_keys_append sorted_keys_Cons)
  with smap_set_between [OF so] kx have m': "reservations s' = xs @ (base, r) # ys" by (simp add: s'_def m)
  show ok': "books_ok hi s'" using ok t' r(1) by (auto simp: books_ok_def m m')
  show "(base, r) \<in> set (reservations s')" by (simp add: m')
  have apart: "\<not> (within base (rsize r) a \<and> within k (rsize q) a)" if "(k, q) \<in> set ?rs" for k q
    using cl that by (fastforce simp: clear_of_def within_def)
  have old: "find_reservation ?rs a = None" if "within base (rsize r) a"
    using find_reservation_iff [OF ok, of a] apart that by (metis not_Some_eq surj_pair)
  then show "within base (rsize r) a \<Longrightarrow> page_state s a = None" by (simp add: page_state_def)
  have "find_reservation (reservations s') a =
      (if within base (rsize r) a then Some (base, r) else find_reservation ?rs a)"
  proof (cases "within base (rsize r) a")
    case True
    then show ?thesis using find_reservation_iff [OF ok', of a base r] by (simp add: m')
  next
    case False
    then have "find_reservation (reservations s') a = Some (j, q) \<longleftrightarrow> find_reservation ?rs a = Some (j, q)" for j q
      unfolding find_reservation_iff [OF ok'] find_reservation_iff [OF ok] by (auto simp: m m')
    then show ?thesis using False by (intro option_ext) (auto simp: split_paired_all)
  qed
  then show "page_state s' a = (if within base (rsize r) a then Some (prot_at (committed r) a) else page_state s a)"
    by (simp add: page_state_def)
qed

lemma prot_at_one: "prot_at [(base, \<lparr>csize = sz, cprot = p\<rparr>)] a = Some p" if "within base sz a" "unat base + unat sz < 2 ^ 64"
proof -
  have "tiled csize (unat base) (unat base + unat sz) [(base, \<lparr>csize = sz, cprot = p\<rparr>)]"
    using that(1) by (auto simp: within_def)
  from prot_at_iff [OF this that(2)] that(1) show ?thesis by (simp add: within_def)
qed

lemma prot_at_Nil: "prot_at [] a = None"
  by (simp add: prot_at_def find_committed_def region_at_def floor_entry_def)

text \<open>\<open>allocate\<close> from the point where the target is known.\<close>

lemma reserve_correct:
  assumes ok: "books_ok hi s" and al: "4096 dvd unat target" "4096 dvd unat region" and pos: "0 < unat region"
    and nw: "unat target + unat region < 2 ^ 64" and top: "unat user_addr_limit \<le> hi"
    and run: "um_reserve M target base sz region do_commit prot s = Inr (s', status, base', sz')"
  shows "if target \<noteq> 0 \<and> unat target + unat region \<le> unat user_addr_limit \<and>
      (\<forall>e \<in> set (reservations s). clear_of target region e)
    then status = STATUS_SUCCESS \<and> base' = target \<and> sz' = region \<and> books_ok hi s' \<and>
      (\<forall>a. page_state s' a =
         (if within target region a then Some (if do_commit then Some prot else None) else page_state s a)) \<and>
      (\<forall>a. within target region a \<longrightarrow> page_state s a = None)
    else status \<in> {STATUS_NO_MEMORY, STATUS_CONFLICTING_ADDRESSES} \<and> s' = s \<and> base' = base \<and> sz' = sz"
    (is "if ?fits then ?yes else ?no")
proof -
  have t: "tiled rsize 0 hi (reservations s)" and hi: "hi < 2 ^ 64" using ok by (simp_all add: books_ok_def)
  have stop: "unat (target + region) = unat target + unat region" using nw by (rule unat_add_no_overflow)
  note ov = overlapping_iff(1) [OF t hi nw pos]
  show ?thesis
  proof (cases ?fits)
    case False
    then show ?thesis
      using run ov by (auto simp: um_reserve_def word_less_nat_alt stop not_less split: if_splits)
  next
    case True
    let ?r = "\<lparr>rsize = region, initial_prot = prot, rtype = mem_private, committed = []\<rparr>"
    let ?s1 = "s\<lparr>reservations := smap_set target ?r (reservations s)\<rparr>"
    let ?cs = "[(target, \<lparr>csize = region, cprot = prot\<rparr>)]"
    have rok: "reservation_ok (target, ?r)" using al by (simp add: reservation_ok_def)
    have bound: "unat target + unat (rsize ?r) \<le> hi" using True top by simp
    have cl: "\<forall>e \<in> set (reservations s). clear_of target (rsize ?r) e" using True by simp
    note pl = place_reservation [OF ok cl rok _ bound]
    have pl1: "books_ok hi ?s1" and pl4: "(target, ?r) \<in> set (reservations ?s1)"
      and pl2: "\<And>a. page_state ?s1 a = (if within target region a then Some None else page_state s a)"
      and pl3: "\<And>a. within target region a \<Longrightarrow> page_state s a = None"
      using pl pos by (simp_all add: prot_at_Nil)
    show ?thesis
    proof (cases do_commit)
      case False
      with run True ov have "s' = ?s1" "status = STATUS_SUCCESS" "base' = target" "sz' = region"
        by (auto simp: um_reserve_def word_less_nat_alt stop Let_def not_less)
      with pl1 pl2 pl3 True False show ?thesis by simp
    next
      case dc: True
      with run True ov obtain s2 where cp: "commit_pages M target region prot ?s1 = Inr s2"
        and res: "s' = set_committed target ?cs s2" "status = STATUS_SUCCESS" "base' = target" "sz' = region"
        by (auto simp: um_reserve_def word_less_nat_alt stop Let_def not_less bind_Inr)
      have tc: "tiled csize (unat target) (unat target + unat (rsize ?r)) ?cs" using pos by simp
      have pgd: "paged ?cs" using al by simp
      have v: "prot_at ?cs a = (\<lambda>_. Some prot) (prot_at (committed ?r) a)" if "within target (rsize ?r) a" for a
        using prot_at_one [of target region a prot] that nw by simp
      note st = store_regions [where g = "\<lambda>a _. Some prot", OF pl1 pl4 commit_pages_books [OF cp] tc pgd v]
      have "page_state s' a = (if within target region a then Some (Some prot) else page_state s a)" for a
        using st(2) [of a] pl2 [of a] by (simp add: res)
      with st(1) pl3 res True dc show ?thesis by simp
    qed
  qed
qed

section \<open>Queries\<close>

lemma page_of_boundary:
  assumes "4096 dvd k"
  shows "k \<le> unat (a :: addr) \<Longrightarrow> k \<le> unat (page_align a)" and "unat (page_align a) < k \<Longrightarrow> unat a < k"
proof -
  obtain q where q: "k = 4096 * q" using assms by (auto elim: dvdE)
  show "k \<le> unat a \<Longrightarrow> k \<le> unat (page_align a)"
    unfolding unat_page_align q using div_le_mono [of "4096 * q" "unat a" 4096] by simp
  show "unat (page_align a) < k \<Longrightarrow> unat a < k"
    unfolding unat_page_align q using div_less_iff_less_mult [of 4096 "unat a" q] by (simp add: mult.commute)
qed

text \<open>Where the entries behind \<open>upper_bound\<close> start.\<close>

lemma upper_bound_least:
  assumes "sorted_keys m" and "d \<in> set m" and "a < fst d"
  shows "\<exists>e es. upper_bound a m = e # es \<and> fst e \<le> fst d"
proof -
  have "d \<in> set (upper_bound a m)"
    using assms(2,3) unfolding upper_bound_def
    by (metis Un_iff leD set_append set_takeWhileD takeWhile_dropWhile_id)
  moreover have "sorted_keys (upper_bound a m)"
    using assms(1) by (metis upper_bound_def sorted_keys_append takeWhile_dropWhile_id)
  ultimately show ?thesis by (cases "upper_bound a m") (auto simp: sorted_keys_Cons intro: less_imp_le)
qed

lemma upper_bound_first: "upper_bound a m = e # es \<Longrightarrow> e \<in> set m \<and> a < fst e"
  unfolding upper_bound_def
  by (metis dropWhile_eq_Cons_conv in_set_conv_decomp not_le takeWhile_dropWhile_id)

lemma query_correct:
  assumes ok: "books_ok hi s" and lim: "unat a \<le> unat user_addr_limit" "hi \<le> unat user_addr_limit + 1"
    and q: "um_query a s = (status, info)" and x: "within (page_align a) (region_size info) x"
  shows "page_state s x = page_state s a"
proof -
  let ?p = "page_align a"
  have pa: "unat ?p \<le> unat a" by (simp add: unat_page_align)
  have t: "tiled rsize 0 hi (reservations s)" and hi: "hi < 2 ^ 64" using ok by (simp_all add: books_ok_def)
  have xp: "unat ?p \<le> unat x" using x by (simp add: within_def)
  show ?thesis
  proof (cases "find_reservation (reservations s) a")
    case None
    let ?n = "case upper_bound a (reservations s) of [] \<Rightarrow> user_addr_limit + 1 | e # _ \<Rightarrow> fst e"
    have info: "region_size info = ?n - ?p" using q None by (auto simp: um_query_def Let_def)
    have ln: "unat (user_addr_limit + 1) = unat user_addr_limit + 1" by (simp add: user_addr_limit_def)
    have pn: "unat ?p \<le> unat ?n"
      using pa lim(1) upper_bound_first [of a "reservations s"] by (auto simp: ln word_less_nat_alt split: list.split)
    then have xn: "unat x < unat ?n" using x by (simp add: within_def info unat_sub_le)
    have "\<not> within k (rsize r) x" if mem: "(k, r) \<in> set (reservations s)" for k r
    proof
      assume w: "within k (rsize r) x"
      have kd: "4096 dvd unat k" "4096 dvd unat k + unat (rsize r)"
        using ok mem by (auto simp: books_ok_def reservation_ok_def intro: dvd_add)
      show False
      proof (cases "a < k")
        case True
        with upper_bound_least [OF tiled_sorted [OF t] mem, of a] w xn show False
          by (auto simp: within_def word_le_nat_alt)
      next
        case False
        then have "unat k \<le> unat a" by (simp add: word_less_nat_alt)
        moreover have "unat a < unat k + unat (rsize r)"
          using page_of_boundary(2) [OF kd(2), of a] w xp by (auto simp: within_def)
        ultimately show False using find_reservation_iff [OF ok, of a k r] mem None by (simp add: within_def)
      qed
    qed
    then have "find_reservation (reservations s) x = None"
      using find_reservation_iff [OF ok, of x] by (metis not_Some_eq surj_pair)
    then show ?thesis using None by (simp add: page_state_def)
  next
    case (Some e)
    then obtain k r where f: "find_reservation (reservations s) a = Some (k, r)" by (cases e) auto
    note fr = found_reservation [OF ok f]
    have tc: "tiled csize (unat k) (unat k + unat (rsize r)) (committed r)" and pg: "paged (committed r)"
      and kd: "4096 dvd unat k" and wa: "unat k \<le> unat a" "unat a < unat k + unat (rsize r)"
      using fr(2,3) by (auto simp: reservation_ok_def within_def)
    have kp: "unat k \<le> unat ?p" by (rule page_of_boundary(1) [OF kd wa(1)])
    have st: "page_state s y = Some (prot_at (committed r) y)" if "within k (rsize r) y" for y
      by (rule page_state_in [OF ok fr(1) that])
    show ?thesis
    proof (cases "find_committed (committed r) a")
      case c: (Some d)
      then obtain j b where d: "find_committed (committed r) a = Some (j, b)" by (cases d) auto
      then have jb: "(j, b) \<in> set (committed r)" "unat j \<le> unat a" "unat a < unat j + unat (csize b)"
        using region_at_iff [OF tc fr(4)] by (auto simp: find_committed_def)
      note bd = tiled_bounds [OF tc jb(1)]
      have ju: "unat (j + csize b) = unat j + unat (csize b)" using bd fr(4) by (intro unat_add_no_overflow) linarith
      have "4096 dvd unat j" using pg jb(1) by (auto simp: paged_def)
      then have jp: "unat j \<le> unat ?p" by (rule page_of_boundary(1) [OF _ jb(2)])
      have info: "region_size info = j + csize b - ?p" using q f d by (auto simp: um_query_def Let_def)
      have "unat (j + csize b - ?p) = unat j + unat (csize b) - unat ?p"
        using jb(3) pa by (subst unat_sub_le) (simp_all add: ju)
      then have xj: "unat j \<le> unat x" "unat x < unat j + unat (csize b)"
        using x jp jb(3) pa by (auto simp: within_def info)
      then have "find_committed (committed r) x = Some (j, b)"
        using region_at_iff [OF tc fr(4)] jb(1) by (simp add: find_committed_def)
      moreover have "within k (rsize r) x" using xj bd by (simp add: within_def)
      ultimately show ?thesis using st fr(2) d by (simp add: prot_at_def)
    next
      case None
      let ?n = "case upper_bound ?p (committed r) of [] \<Rightarrow> k + rsize r | e # _ \<Rightarrow> fst e"
      have info: "region_size info = ?n - ?p" using q f None by (auto simp: um_query_def Let_def)
      have ku: "unat (k + rsize r) = unat k + unat (rsize r)" using fr(4) by (rule unat_add_no_overflow)
      have nb: "unat ?p \<le> unat ?n \<and> unat ?n \<le> unat k + unat (rsize r)"
        using pa wa ku upper_bound_first [of ?p "committed r"] tiled_bounds [OF tc]
        by (force simp: word_less_nat_alt split: list.split)
      then have xn: "unat x < unat ?n" using x by (simp add: within_def info unat_sub_le)
      have nc: "\<not> covers (committed r) (unat a) p" for p
        using prot_at_iff [OF tc fr(4), of a p] None by (simp add: prot_at_def)
      have "\<not> covers (committed r) (unat x) p" for p
      proof
        assume "covers (committed r) (unat x) p"
        then obtain j b where jb: "(j, b) \<in> set (committed r)" "unat j \<le> unat x" "unat x < unat j + unat (csize b)"
          by (auto simp: covers_def)
        have jd: "4096 dvd unat j + unat (csize b)" using pg jb(1) by (auto simp: paged_def intro: dvd_add)
        show False
        proof (cases "?p < j")
          case True
          with upper_bound_least [OF tiled_sorted [OF tc] jb(1), of ?p] xn jb(2) show False
            by (auto simp: word_le_nat_alt)
        next
          case False
          then have "unat j \<le> unat a" using pa by (simp add: word_less_nat_alt)
          moreover have "unat a < unat j + unat (csize b)"
            using page_of_boundary(2) [OF jd, of a] xp jb(3) by linarith
          ultimately show False using nc [of "cprot b"] jb(1) by (auto simp: covers_def)
        qed
      qed
      then have "prot_at (committed r) x = None" using prot_at_iff [OF tc fr(4), of x] by (metis not_Some_eq)
      moreover have "within k (rsize r) x" using nb xn xp kp by (simp add: within_def)
      ultimately show ?thesis using st fr(2) None by (simp add: prot_at_def)
    qed
  qed
qed

end
