(* ===== verification/User_Vm.thy ===== *)
theory User_Vm
  imports User_Alloc
begin

text \<open>
  The properties of the guest's virtual memory services over any memory unit, with witnesses
  on a unit that records the calls it gets, and two inputs on which the code does not do what
  its callers expect.
\<close>

definition log_ops :: "(addr \<times> u64) list mem_ops" where
  "log_ops = \<lparr>map_virt = \<lambda>va sz p m. Inr (m @ [(va, sz)]), map_virt_phys = \<lambda>va pa sz p m. Inr (m @ [(va, sz)]),
     unmap_virt = \<lambda>va sz m. Inr m, prot_virt = \<lambda>va sz p m. Inr m, virt_to_phys = \<lambda>va m. None\<rparr>"

definition user_top :: nat where
  "user_top = unat user_addr_limit + 1"

definition vm0 :: "(addr \<times> u64) list user_mem" where
  "vm0 = \<lparr>mach = [], next_free = 0x100010000,
     reservations = [(0x100000000, \<lparr>rsize = 0x5000, initial_prot = page_readwrite, rtype = mem_private,
       committed = [(0x100000000, \<lparr>csize = 0x2000, cprot = page_readwrite\<rparr>),
                    (0x100003000, \<lparr>csize = 0x1000, cprot = page_readwrite OR page_guard\<rparr>)]\<rparr>)], backing = []\<rparr>"

definition vm0_res :: "'m user_mem \<Rightarrow> reservation" where
  "vm0_res s = snd (hd (reservations s))"

lemma vm0_ok: "books_ok user_top vm0"
  by (simp add: books_ok_def vm0_def user_top_def user_addr_limit_def reservation_ok_def paged_def)

lemma alloc_type_bits:
  "(mem_reserve OR mem_commit) AND mem_reserve \<noteq> 0" "(mem_reserve OR mem_commit) AND mem_commit \<noteq> 0"
  "mem_commit AND mem_reserve = 0" "mem_commit AND mem_commit \<noteq> 0"
  "mem_decommit AND mem_release = 0" "mem_decommit AND mem_decommit \<noteq> 0" "mem_release AND mem_release \<noteq> 0"
  by (simp_all add: page_consts)

section \<open>Properties\<close>

text \<open>
  Allocating without an address: the search for room always ends. It either
  answers \<open>STATUS_NO_MEMORY\<close> and changes no page, or hands out a range of the rounded size that
  was free, lies below the user limit and is aligned as asked (at least to 64 KB), of which
  every page is then committed with the protection asked for, or reserved; no other page
  changes and the reservations stay disjoint.
\<close>

theorem um_allocate_fresh:
  assumes "books_ok user_top s" and "max alignment alloc_granularity = 2 ^ n" and "n < 47"
    and "unat (next_free s) \<le> user_top" and "0 < unat sz" and "unat sz < 2 ^ 63"
    and "alloc_type AND mem_reserve \<noteq> 0 \<or> alloc_type AND mem_commit \<noteq> 0"
  shows "(\<exists>q. pick_base (size_align sz) alignment s = Inr q) \<and>
    (\<forall>s' status base' sz'. um_allocate M 0 sz alloc_type prot alignment s = Inr (s', status, base', sz') \<longrightarrow>
      books_ok user_top s' \<and>
      (status = STATUS_NO_MEMORY \<and> (\<forall>a. page_state s' a = page_state s a) \<or>
       status = STATUS_SUCCESS \<and> sz' = size_align sz \<and> 2 ^ n dvd unat base' \<and>
         unat base' + unat sz' \<le> unat user_addr_limit \<and>
         (\<forall>a. within base' sz' a \<longrightarrow> page_state s a = None) \<and>
         (\<forall>a. page_state s' a =
            (if within base' sz' a then Some (if alloc_type AND mem_commit \<noteq> 0 then Some prot else None)
             else page_state s a))))"
proof -
  let ?R = "size_align sz" and ?msk = "max alignment alloc_granularity - 1"
  let ?c = "(next_free s + ?msk) AND NOT ?msk"
  have R: "4096 dvd unat ?R" "unat sz \<le> unat ?R" "unat ?R < 2 ^ 63 + 4096"
    using unat_align_up [of 12 sz] assms(6)
    by (simp_all add: size_align_def page_size_def align_up_def page_aligned_size_align)
  have pow: "(2 :: nat) ^ n \<le> 2 ^ 46" using assms(3) by (intro power_increasing) simp_all
  have t: "tiled rsize 0 user_top (reservations s)" using assms(1) by (simp add: books_ok_def)
  have lim: "user_top = 0x7FFFFFFF0000" by (simp add: user_top_def user_addr_limit_def)
  have room: "user_top + 2 ^ n + unat ?R < 2 ^ 64" using R(3) pow by (simp add: lim)
  have n64: "n < 64" using assms(3) by simp
  have msk: "?msk = 2 ^ n - 1" using assms(2) by simp
  have "unat (next_free s) + 2 ^ n \<le> 2 ^ 64" using assms(4) pow by (simp add: lim)
  note ru = round_up [OF n64 this msk]
  have c: "unat ?c \<le> user_top + 2 ^ n" using ru(2) assms(4) by linarith
  have fuel: "length (ahead (reservations s) ?c) < Suc (length (reservations s))"
    by (simp add: ahead_def le_imp_less_Suc)
  have pos: "0 < unat ?R" using R(2) assms(5) by linarith
  obtain r where pl: "pick_loop (Suc (length (reservations s))) (reservations s) ?R ?msk ?c = Inr r"
    and found: "\<And>b. r = Some b \<Longrightarrow> 2 ^ n dvd unat b \<and> unat b + unat ?R \<le> unat user_addr_limit"
    using pick_loop_correct [OF t n64 msk room pos c ru(3) fuel] by blast
  define s1 where "s1 = (case r of Some b \<Rightarrow> s\<lparr>next_free := b + ?R\<rparr> | None \<Rightarrow> s)"
  define b where "b = (case r of Some b \<Rightarrow> b | None \<Rightarrow> 0)"
  have pb: "pick_base ?R alignment s = Inr (s1, b)"
    using pl by (simp add: pick_base_def Let_def s1_def b_def split: option.split)
  have s1: "books_ok user_top s1" "page_state s1 a = page_state s a" "reservations s1 = reservations s" for a
    using assms(1) by (simp_all add: s1_def books_ok_def page_state_def split: option.split)
  have al: "2 ^ n dvd unat b" "unat b + unat ?R < 2 ^ 64"
    using found room R(3) by (auto simp: b_def lim user_addr_limit_def split: option.split)
  have "(4096 :: nat) dvd 2 ^ n"
  proof -
    have "alloc_granularity \<le> 2 ^ n" using assms(2) by (metis max.cobounded2)
    then have "(2 :: nat) ^ 16 \<le> 2 ^ n" using unat_pow2 [OF n64] by (simp add: word_le_nat_alt alloc_granularity_def)
    then have "16 \<le> n" by (rule power_le_imp_le_exp [rotated]) simp
    then have "(2 :: nat) ^ 12 dvd 2 ^ n" by (intro le_imp_power_dvd) simp
    then show ?thesis by simp
  qed
  then have b4: "4096 dvd unat b" using al(1) by (rule dvd_trans)
  have "books_ok user_top s' \<and>
      (status = STATUS_NO_MEMORY \<and> (\<forall>a. page_state s' a = page_state s a) \<or>
       status = STATUS_SUCCESS \<and> sz' = ?R \<and> 2 ^ n dvd unat base' \<and>
         unat base' + unat sz' \<le> unat user_addr_limit \<and>
         (\<forall>a. within base' sz' a \<longrightarrow> page_state s a = None) \<and>
         (\<forall>a. page_state s' a =
            (if within base' sz' a then Some (if alloc_type AND mem_commit \<noteq> 0 then Some prot else None)
             else page_state s a)))"
    if run: "um_allocate M 0 sz alloc_type prot alignment s = Inr (s', status, base', sz')" for s' status base' sz'
  proof -
    have nz: "?R \<noteq> 0" using pos by auto
    have ur: "um_reserve M b 0 sz ?R (alloc_type AND mem_commit \<noteq> 0) prot s1 = Inr (s', status, base', sz')"
      using run nz assms(7) pb by (auto simp: um_allocate_def Let_def page_align_def split: if_splits)
    have top: "unat user_addr_limit \<le> user_top" by (simp add: user_top_def)
    note rc = reserve_correct [OF s1(1) b4 R(1) pos al(2) top ur]
    show ?thesis
    proof (cases "b = 0")
      case True
      then have "s' = s1" "status = STATUS_NO_MEMORY" using ur by (simp_all add: um_reserve_def)
      then show ?thesis using s1 by simp
    next
      case False
      then have r: "r = Some b" by (auto simp: b_def split: option.splits)
      then have "\<forall>e \<in> set (reservations s1). clear_of b ?R e"
        using pick_loop_correct [OF t n64 msk room pos c ru(3) fuel] pl by (auto simp: s1(3))
      then show ?thesis using rc found [OF r] al s1 False by simp
    qed
  qed
  with pb show ?thesis by blast
qed

theorem um_allocate_fresh_witness:
  "\<exists>s'. um_allocate log_ops 0 0x2800 (mem_reserve OR mem_commit) page_readwrite 0 vm0 =
      Inr (s', STATUS_SUCCESS, 0x100010000, 0x3000) \<and> page_state s' 0x100012FFF = Some (Some page_readwrite) \<and>
      page_state s' 0x100003000 = page_state vm0 0x100003000"
proof -
  have gr: "max 0 alloc_granularity = 2 ^ 16" by (simp add: alloc_granularity_def)
  have sa: "size_align 0x2800 = 0x3000" by (simp add: size_align_def page_size_def)
  obtain s' where run: "um_allocate log_ops 0 0x2800 (mem_reserve OR mem_commit) page_readwrite 0 vm0 =
      Inr (s', STATUS_SUCCESS, 0x100010000, 0x3000)"
  proof
    show "um_allocate log_ops 0 0x2800 (mem_reserve OR mem_commit) page_readwrite 0 vm0 =
      Inr (vm0\<lparr>mach := [(0x100010000, 0x3000)], next_free := 0x100013000,
        reservations := reservations vm0 @ [(0x100010000, \<lparr>rsize = 0x3000, initial_prot = page_readwrite,
          rtype = mem_private, committed = [(0x100010000, \<lparr>csize = 0x3000, cprot = page_readwrite\<rparr>)]\<rparr>)]\<rparr>,
        STATUS_SUCCESS, 0x100010000, 0x3000)" by code_simp
  qed
  have nf: "unat (next_free vm0) \<le> user_top" by (simp add: vm0_def user_top_def user_addr_limit_def)
  have w: "within 0x100010000 0x3000 0x100012FFF" "\<not> within 0x100010000 0x3000 0x100003000" by (simp_all add: within_def)
  have "page_state s' 0x100012FFF = Some (Some page_readwrite) \<and> page_state s' 0x100003000 = page_state vm0 0x100003000"
    using um_allocate_fresh [OF vm0_ok gr _ nf, of "0x2800" "mem_reserve OR mem_commit" log_ops page_readwrite] run w
    by (simp add: page_consts sa status_defs)
  with run show ?thesis by blast
qed

text \<open>
  C19. Committing inside a reservation: a range that ends inside it is committed with the new
  protection, pages that already were and gaps between them alike; one that runs past its end
  is refused with \<open>STATUS_CONFLICTING_ADDRESSES\<close> and changes nothing.
\<close>

theorem um_allocate_commit:
  assumes "books_ok hi s" and "start = page_align base" and "region = size_align (sz + (base - start))"
    and "find_reservation (reservations s) start = Some (k, r)" and "base \<noteq> 0" and "region \<noteq> 0"
    and "alloc_type AND mem_commit \<noteq> 0" and "alloc_type AND mem_reserve = 0" and "unat start + unat region < 2 ^ 64"
    and "um_allocate M base sz alloc_type prot alignment s = Inr (s', status, base', sz')"
  shows "if unat start + unat region \<le> unat k + unat (rsize r)
    then status = STATUS_SUCCESS \<and> base' = start \<and> sz' = region \<and> books_ok hi s' \<and>
      (\<forall>a. page_state s' a = (if within start region a then Some (Some prot) else page_state s a))
    else status = STATUS_CONFLICTING_ADDRESSES \<and> s' = s"
proof -
  have al: "4096 dvd unat start" "4096 dvd unat region"
    by (simp_all add: assms(2,3) page_aligned_size_align unat_page_align)
  obtain st where ci: "commit_into M k r start region prot s = Inr (s', st)" and res: "status = st"
    "st = STATUS_SUCCESS \<Longrightarrow> base' = start \<and> sz' = region"
    using assms(4-8,10)
    by (auto simp: um_allocate_def Let_def bind_Inr simp flip: assms(2,3) split: if_splits)
  from commit_into_correct [OF assms(1,4) al assms(9) ci] res show ?thesis by auto
qed

theorem um_allocate_commit_witness:
  "\<exists>s'. um_allocate log_ops 0x100001000 0x1800 mem_commit page_execute_read 0 vm0 =
      Inr (s', STATUS_SUCCESS, 0x100001000, 0x2000) \<and>
      page_state s' 0x100002000 = Some (Some page_execute_read) \<and> page_state s' 0x100000FFF = Some (Some page_readwrite)"
proof -
  obtain s' where run: "um_allocate log_ops 0x100001000 0x1800 mem_commit page_execute_read 0 vm0 =
      Inr (s', STATUS_SUCCESS, 0x100001000, 0x2000)"
  proof
    show "um_allocate log_ops 0x100001000 0x1800 mem_commit page_execute_read 0 vm0 =
      Inr (vm0\<lparr>mach := [(0x100002000, 0x1000)], reservations := [(0x100000000, \<lparr>rsize = 0x5000,
       initial_prot = page_readwrite, rtype = mem_private,
       committed = [(0x100000000, \<lparr>csize = 0x1000, cprot = page_readwrite\<rparr>),
                    (0x100001000, \<lparr>csize = 0x2000, cprot = page_execute_read\<rparr>),
                    (0x100003000, \<lparr>csize = 0x1000, cprot = page_readwrite OR page_guard\<rparr>)]\<rparr>)]\<rparr>,
       STATUS_SUCCESS, 0x100001000, 0x2000)" by code_simp
  qed
  have f: "find_reservation (reservations vm0) 0x100001000 = Some (0x100000000, vm0_res vm0)" by code_simp
  have k: "rsize (vm0_res vm0) = 0x5000" by code_simp
  have st: "0x100001000 = page_align (0x100001000 :: u64)" by (simp add: page_align_def page_size_def)
  have rg: "0x2000 = size_align (0x1800 + (0x100001000 - 0x100001000))" by (simp add: size_align_def page_size_def)
  have old: "page_state vm0 0x100000FFF = Some (Some page_readwrite)" by code_simp
  have w: "within 0x100001000 0x2000 0x100002000" "\<not> within 0x100001000 0x2000 0x100000FFF" by (simp_all add: within_def)
  have "page_state s' 0x100002000 = Some (Some page_execute_read) \<and> page_state s' 0x100000FFF = page_state vm0 0x100000FFF"
    using um_allocate_commit [OF vm0_ok st rg f _ _ alloc_type_bits(4,3) _ run] w k
    by (simp add: status_defs)
  with run old show ?thesis by auto
qed

text \<open>
  C20. \<open>NtProtectVirtualMemory\<close> inside a reservation answers with the protection the first page
  had (the reservation's own where nothing is committed there, and then changes nothing);
  every committed page of the range in that reservation takes the new protection, pages that
  are only reserved and pages outside the range keep their state, whatever regions are split
  or merged.
\<close>

theorem um_protect_correct:
  assumes "books_ok hi s" and "start = page_align base" and "region = size_align (sz + (base - start))"
    and "find_reservation (reservations s) start = Some (k, r)" and "unat start + unat region < 2 ^ 64"
    and "um_protect M base sz new_prot s = Inr (s', status, base', sz', old)"
  shows "status = STATUS_SUCCESS \<and> base' = start \<and> sz' = region \<and> books_ok hi s' \<and>
    old = (case prot_at (committed r) start of Some p \<Rightarrow> p | None \<Rightarrow> initial_prot r) \<and>
    (\<forall>a. page_state s' a =
       (if within start region a \<and> within k (rsize r) a \<and> prot_at (committed r) start \<noteq> None
        then map_option (map_option (\<lambda>_. new_prot)) (page_state s a) else page_state s a))"
  using protect_correct [OF assms] .

theorem um_protect_correct_witness:
  "\<exists>s'. um_protect log_ops 0x100001800 0x1000 page_readonly vm0 =
      Inr (s', STATUS_SUCCESS, 0x100001000, 0x2000, page_readwrite) \<and>
      page_state s' 0x100001000 = Some (Some page_readonly) \<and> page_state s' 0x100002000 = Some None"
proof -
  obtain s' where run: "um_protect log_ops 0x100001800 0x1000 page_readonly vm0 =
      Inr (s', STATUS_SUCCESS, 0x100001000, 0x2000, page_readwrite)"
  proof
    show "um_protect log_ops 0x100001800 0x1000 page_readonly vm0 =
      Inr (vm0\<lparr>reservations := [(0x100000000, \<lparr>rsize = 0x5000,
       initial_prot = page_readwrite, rtype = mem_private,
       committed = [(0x100000000, \<lparr>csize = 0x1000, cprot = page_readwrite\<rparr>),
                    (0x100001000, \<lparr>csize = 0x1000, cprot = page_readonly\<rparr>),
                    (0x100003000, \<lparr>csize = 0x1000, cprot = page_readwrite OR page_guard\<rparr>)]\<rparr>)]\<rparr>,
       STATUS_SUCCESS, 0x100001000, 0x2000, page_readwrite)" by code_simp
  qed
  have f: "find_reservation (reservations vm0) 0x100001000 = Some (0x100000000, vm0_res vm0)" by code_simp
  have k: "rsize (vm0_res vm0) = 0x5000" by code_simp
  have st: "0x100001000 = page_align (0x100001800 :: u64)" by (simp add: page_align_def page_size_def)
  have rg: "0x2000 = size_align (0x1000 + (0x100001800 - 0x100001000))" by (simp add: size_align_def page_size_def)
  have old: "page_state vm0 0x100001000 = Some (Some page_readwrite)" "page_state vm0 0x100002000 = Some None"
    "prot_at (committed (vm0_res vm0)) 0x100001000 \<noteq> None" by code_simp+
  have w: "within 0x100001000 0x2000 0x100001000" "within 0x100001000 0x2000 0x100002000"
    "within 0x100000000 0x5000 0x100001000" "within 0x100000000 0x5000 0x100002000" by (simp_all add: within_def)
  have "page_state s' 0x100001000 = Some (Some page_readonly) \<and> page_state s' 0x100002000 = Some None"
    using um_protect_correct [OF vm0_ok st rg f _ run] w k old by simp
  with run show ?thesis by blast
qed

text \<open>
  C21. \<open>NtFreeVirtualMemory\<close>: decommitting makes the pages of the range in its reservation
  reserved only (the whole reservation when its base is given with size 0); releasing a private
  reservation by its base makes all its pages free. Neither touches any other page.
\<close>

theorem um_free_correct:
  assumes "books_ok hi s" and "start = page_align base" and "asked = size_align (sz + (base - start))"
    and "find_reservation (reservations s) start = Some (k, r)"
    and "region = (if asked = 0 then rsize r else asked)" and "unat start + unat region < 2 ^ 64"
    and "um_free M base sz free_type s = Inr (s', status, base', sz')"
  shows "(free_type AND mem_release = 0 \<and> free_type AND mem_decommit \<noteq> 0 \<and> (asked \<noteq> 0 \<or> k = start) \<longrightarrow>
      status = STATUS_SUCCESS \<and> base' = start \<and> sz' = region \<and> books_ok hi s' \<and>
      (\<forall>a. page_state s' a =
         (if within start region a \<and> within k (rsize r) a then Some None else page_state s a))) \<and>
    (free_type AND mem_release \<noteq> 0 \<and> sz = 0 \<and> k = start \<and> rtype r = mem_private \<longrightarrow>
      status = STATUS_SUCCESS \<and> base' = start \<and> sz' = rsize r \<and> books_ok hi s' \<and>
      (\<forall>a. page_state s' a = (if within start (rsize r) a then None else page_state s a)))"
  using decommit_correct [OF assms(1-3) _ _ assms(4) _ assms(5-7)]
    release_correct [OF assms(1,2), of free_type r M s' status base' sz'] assms(4,7) by blast

theorem um_free_correct_witness:
  "\<exists>s'. um_free log_ops 0x100001000 0x2000 mem_decommit vm0 = Inr (s', STATUS_SUCCESS, 0x100001000, 0x2000) \<and>
      page_state s' 0x100001000 = Some None \<and> page_state s' 0x100000000 = Some (Some page_readwrite)"
proof -
  obtain s' where run: "um_free log_ops 0x100001000 0x2000 mem_decommit vm0 = Inr (s', STATUS_SUCCESS, 0x100001000, 0x2000)"
  proof
    show "um_free log_ops 0x100001000 0x2000 mem_decommit vm0 =
      Inr (vm0\<lparr>reservations := [(0x100000000, \<lparr>rsize = 0x5000,
       initial_prot = page_readwrite, rtype = mem_private,
       committed = [(0x100000000, \<lparr>csize = 0x1000, cprot = page_readwrite\<rparr>),
                    (0x100003000, \<lparr>csize = 0x1000, cprot = page_readwrite OR page_guard\<rparr>)]\<rparr>)]\<rparr>,
       STATUS_SUCCESS, 0x100001000, 0x2000)" by code_simp
  qed
  have f: "find_reservation (reservations vm0) 0x100001000 = Some (0x100000000, vm0_res vm0)" by code_simp
  have k: "rsize (vm0_res vm0) = 0x5000" by code_simp
  have st: "0x100001000 = page_align (0x100001000 :: u64)" by (simp add: page_align_def page_size_def)
  have rg: "0x2000 = size_align (0x2000 + (0x100001000 - 0x100001000))" by (simp add: size_align_def page_size_def)
  have old: "page_state vm0 0x100000000 = Some (Some page_readwrite)" by code_simp
  have w: "within 0x100001000 0x2000 0x100001000" "\<not> within 0x100001000 0x2000 0x100000000"
    "within 0x100000000 0x5000 0x100001000" by (simp_all add: within_def)
  have "page_state s' 0x100001000 = Some None \<and> page_state s' 0x100000000 = Some (Some page_readwrite)"
    using um_free_correct [OF vm0_ok st rg f refl _ run] w k old alloc_type_bits(5,6) by simp
  with run show ?thesis by blast
qed

text \<open>
  C22. A page fault is handled exactly when the page is reserved, not committed and reserved
  for an accessible protection, which commits that one page, or when it is a committed guard
  page, which clears the guard of that one page and keeps the rest of its protection; any other
  fault is left to the guest and changes nothing. A guard page therefore fires once.
\<close>

theorem handle_fault_exact:
  assumes "books_ok hi s" and "page = page_align fault_addr" and "handle_fault M fault_addr s = Inr (s', handled)"
  shows "case fault_prot s page of
      None \<Rightarrow> \<not> handled \<and> s' = s
    | Some p \<Rightarrow> handled \<and> books_ok hi s' \<and>
        (\<forall>a. page_state s' a = (if within page page_size a then Some (Some p) else page_state s a))"
  using handle_fault_correct [OF assms] .

theorem handle_fault_exact_witness:
  "\<exists>s'. handle_fault log_ops 0x100003ABC vm0 = Inr (s', True) \<and>
      page_state s' 0x100003FFF = Some (Some page_readwrite) \<and> page_state s' 0x100002000 = Some None"
proof -
  obtain s' where run: "handle_fault log_ops 0x100003ABC vm0 = Inr (s', True)"
  proof
    show "handle_fault log_ops 0x100003ABC vm0 =
      Inr (vm0\<lparr>mach := [(0x100003000, 0x1000)], reservations := [(0x100000000, \<lparr>rsize = 0x5000,
       initial_prot = page_readwrite, rtype = mem_private,
       committed = [(0x100000000, \<lparr>csize = 0x2000, cprot = page_readwrite\<rparr>),
                    (0x100003000, \<lparr>csize = 0x1000, cprot = page_readwrite\<rparr>)]\<rparr>)]\<rparr>, True)" by code_simp
  qed
  have fp: "fault_prot vm0 0x100003000 = Some page_readwrite" by code_simp
  have pg: "0x100003000 = page_align (0x100003ABC :: u64)" by (simp add: page_align_def page_size_def)
  have w: "within 0x100003000 page_size 0x100003FFF" "\<not> within 0x100003000 page_size 0x100002000"
    by (simp_all add: within_def page_size_def)
  have old: "page_state vm0 0x100002000 = Some None" by code_simp
  have "page_state s' 0x100003FFF = Some (Some page_readwrite) \<and> page_state s' 0x100002000 = Some None"
    using handle_fault_exact [OF vm0_ok pg run] fp w old by simp
  with run show ?thesis by blast
qed



section \<open>Two inputs the code mishandles\<close>

text \<open>
  A reservation at an address that is not on a 64 KB boundary is moved down to the boundary
  without growing, so the range the caller asked for is not in it.
\<close>

lemma reserve_misses_its_range:
  "\<exists>s'. um_allocate log_ops 0x10005000 0x1000 mem_reserve page_readwrite 0 (new_user_mem []) =
     Inr (s', STATUS_SUCCESS, 0x10000000, 0x1000) \<and> page_state s' 0x10005000 = None"
proof -
  have "um_allocate log_ops 0x10005000 0x1000 mem_reserve page_readwrite 0 (new_user_mem []) =
     Inr ((new_user_mem [])\<lparr>reservations := [(0x10000000, \<lparr>rsize = 0x1000, initial_prot = page_readwrite,
       rtype = mem_private, committed = []\<rparr>)]\<rparr>, STATUS_SUCCESS, 0x10000000, 0x1000)" by code_simp
  moreover have "page_state ((new_user_mem ([] :: (addr \<times> u64) list))\<lparr>reservations := [(0x10000000, \<lparr>rsize = 0x1000,
       initial_prot = page_readwrite, rtype = mem_private, committed = []\<rparr>)]\<rparr>) 0x10005000 = None" by code_simp
  ultimately show ?thesis by blast
qed

text \<open>
  The limit check adds before it compares, so a size close to \<open>2^64\<close> wraps past it and is
  granted.
\<close>

lemma allocate_wraps_past_limit:
  "\<exists>s'. um_allocate log_ops 0 0xFFFFFFFF00010000 mem_reserve page_readwrite 0 (new_user_mem []) =
     Inr (s', STATUS_SUCCESS, 0x100000000, 0xFFFFFFFF00010000)"
proof
  show "um_allocate log_ops 0 0xFFFFFFFF00010000 mem_reserve page_readwrite 0 (new_user_mem []) =
     Inr ((new_user_mem [])\<lparr>next_free := 0x10000, reservations := [(0x100000000, \<lparr>rsize = 0xFFFFFFFF00010000,
       initial_prot = page_readwrite, rtype = mem_private, committed = []\<rparr>)]\<rparr>,
       STATUS_SUCCESS, 0x100000000, 0xFFFFFFFF00010000)" by code_simp
qed

end
