(* ===== verification/Guest_Mem.thy ===== *)
theory Guest_Mem
  imports Prelude
begin

text \<open>
  Guest memory as the kernel objects see it: \<open>addr_space\<close> behind its virtual \<open>read_mem\<close> and
  \<open>write_mem\<close>. A view of an address space gives a byte for every mapped address; what the
  memory units make of page tables is the subject of other theories. A structure the host
  reads or writes as a whole (\<open>emu_object<T>::read\<close>, \<open>write\<close>) is a byte list, its members are
  little-endian fields of it.
\<close>

type_synonym gmem = "addr \<Rightarrow> u8 option"

fun g_read :: "nat \<Rightarrow> addr \<Rightarrow> gmem \<Rightarrow> emu_error + u8 list" where
  "g_read 0 a g = Inr []"
| "g_read (Suc n) a g =
     (case g a of
        None \<Rightarrow> throw Unmapped_virtual_address
      | Some b \<Rightarrow> bind_result (g_read n (a + 1) g) (\<lambda>bs. Inr (b # bs)))"

fun g_write :: "addr \<Rightarrow> u8 list \<Rightarrow> gmem \<Rightarrow> emu_error + gmem" where
  "g_write a [] g = Inr g"
| "g_write a (b # bs) g =
     (if g a = None then throw Unmapped_virtual_address
      else g_write (a + 1) bs (g(a \<mapsto> b)))"

text \<open>\<open>read_mem<T>\<close> and \<open>write_mem<T>\<close> for a scalar of \<open>n\<close> bytes.\<close>

definition g_get :: "nat \<Rightarrow> addr \<Rightarrow> gmem \<Rightarrow> emu_error + 'a::len word" where
  "g_get n a g = bind_result (g_read n a g) (\<lambda>bs. Inr (le_dec bs))"

definition g_put :: "nat \<Rightarrow> addr \<Rightarrow> 'a::len word \<Rightarrow> gmem \<Rightarrow> emu_error + gmem" where
  "g_put n a w g = g_write a (le_enc n w) g"

text \<open>A member of a structure held as its bytes.\<close>

definition field_get :: "nat \<Rightarrow> nat \<Rightarrow> u8 list \<Rightarrow> 'a::len word" where
  "field_get off n bs = le_dec (take n (drop off bs))"

definition field_put :: "nat \<Rightarrow> nat \<Rightarrow> 'a::len word \<Rightarrow> u8 list \<Rightarrow> u8 list" where
  "field_put off n w bs = take off bs @ le_enc n w @ drop (off + n) bs"

section \<open>Ranges\<close>

definition span :: "addr \<Rightarrow> nat \<Rightarrow> addr set" where
  "span a n = (\<lambda>i. a + of_nat i) ` {..<n}"

definition g_mapped :: "gmem \<Rightarrow> addr \<Rightarrow> nat \<Rightarrow> bool" where
  "g_mapped g a n \<longleftrightarrow> (\<forall>x \<in> span a n. g x \<noteq> None)"

lemma span_Suc: "span a (Suc n) = insert a (span (a + 1) n)"
  unfolding span_def lessThan_Suc_eq_insert_0
  by (auto simp: image_image algebra_simps)

lemma span_0 [simp]: "span a 0 = {}"
  by (simp add: span_def)

lemma span_mono: "n \<le> m \<Longrightarrow> span a n \<subseteq> span a m"
  by (auto simp: span_def)

lemma span_offset: "i + n \<le> m \<Longrightarrow> span (a + of_nat i) n \<subseteq> span a m"
proof
  fix x assume "i + n \<le> m" and "x \<in> span (a + of_nat i) n"
  then obtain j where "j < n" "x = a + of_nat (i + j)"
    by (auto simp: span_def algebra_simps)
  with \<open>i + n \<le> m\<close> show "x \<in> span a m"
    unfolding span_def by (intro image_eqI [where x = "i + j"]) auto
qed

lemma notin_span_next: "n < 2 ^ 64 \<Longrightarrow> a \<notin> span (a + 1) n"
proof
  assume n: "n < 2 ^ 64" and "a \<in> span (a + 1) n"
  then obtain i where i: "i < n" "a = a + 1 + of_nat i" by (auto simp: span_def)
  then have "of_nat (Suc i) = (0 :: addr)" by (simp add: algebra_simps)
  then have "2 ^ 64 dvd Suc i" by (simp only: word_of_nat_eq_0_iff) simp
  with i n show False by (auto dest!: dvd_imp_le)
qed

lemma span_iff: "n < 2 ^ 64 \<Longrightarrow> x \<in> span a n \<longleftrightarrow> unat (x - a) < n"
proof
  assume n: "n < 2 ^ 64" and "x \<in> span a n"
  then obtain i where "i < n" "x - a = of_nat i" by (auto simp: span_def)
  with n show "unat (x - a) < n" by (simp add: unat_of_nat64)
next
  assume "unat (x - a) < n"
  then show "x \<in> span a n"
    unfolding span_def by (intro image_eqI [where x = "unat (x - a)"]) auto
qed

section \<open>Reads and writes\<close>

lemma g_mapped_Suc: "g_mapped g a (Suc n) \<longleftrightarrow> g a \<noteq> None \<and> g_mapped g (a + 1) n"
  by (auto simp: g_mapped_def span_Suc)

lemma g_read_total: "g_mapped g a n \<Longrightarrow> \<exists>bs. g_read n a g = Inr bs \<and> length bs = n"
proof (induction n arbitrary: a)
  case (Suc n)
  then have "g a \<noteq> None" and "g_mapped g (a + 1) n" by (auto simp: g_mapped_Suc)
  with Suc.IH [of "a + 1"] show ?case by auto
qed simp

lemma g_read_mapped: "g_read n a g = Inr bs \<Longrightarrow> g_mapped g a n \<and> length bs = n"
proof (induction n arbitrary: a bs)
  case (Suc n)
  then obtain b cs where "g a = Some b" "g_read n (a + 1) g = Inr cs" "bs = b # cs"
    by (auto split: option.splits sum.splits)
  with Suc.IH [of "a + 1" cs] show ?case by (simp add: g_mapped_Suc)
qed (simp add: g_mapped_def)

lemma g_read_cong: "(\<And>x. x \<in> span a n \<Longrightarrow> g x = g' x) \<Longrightarrow> g_read n a g = g_read n a g'"
proof (induction n arbitrary: a)
  case (Suc n)
  then have "g a = g' a" and "g_read n (a + 1) g = g_read n (a + 1) g'"
    by (auto simp: span_Suc intro!: Suc.IH)
  then show ?case by (auto split: option.split)
qed simp

lemma g_write_total: "g_mapped g a (length bs) \<Longrightarrow> \<exists>g'. g_write a bs g = Inr g'"
proof (induction bs arbitrary: a g)
  case (Cons b bs)
  then have "g a \<noteq> None" and "g_mapped (g(a \<mapsto> b)) (a + 1) (length bs)"
    by (auto simp: g_mapped_Suc g_mapped_def span_Suc)
  with Cons.IH show ?case by auto
qed simp

lemma g_write_other: "g_write a bs g = Inr g' \<Longrightarrow> x \<notin> span a (length bs) \<Longrightarrow> g' x = g x"
  by (induction bs arbitrary: a g) (auto simp: span_Suc split: if_splits)

lemma g_write_dom: "g_write a bs g = Inr g' \<Longrightarrow> (g' x = None) = (g x = None)"
proof (induction bs arbitrary: a g)
  case (Cons b bs)
  then have w: "g_write (a + 1) bs (g(a \<mapsto> b)) = Inr g'" and "g a \<noteq> None"
    by (auto split: if_splits)
  with Cons.IH [OF w] show ?case by auto
qed simp

lemma g_write_mapped: "g_write a bs g = Inr g' \<Longrightarrow> g_mapped g' x n = g_mapped g x n"
  by (simp add: g_mapped_def g_write_dom)

lemma g_write_defined: "g_write a bs g = Inr g' \<Longrightarrow> g_mapped g a (length bs)"
proof (induction bs arbitrary: a g)
  case (Cons b bs)
  then have "g_mapped (g(a \<mapsto> b)) (a + 1) (length bs)" and "g a \<noteq> None"
    by (auto split: if_splits)
  then show ?case by (auto simp: g_mapped_def span_Suc split: if_splits)
qed (simp add: g_mapped_def)

lemma g_read_write_same:
  assumes "g_write a bs g = Inr g'" and "length bs < 2 ^ 64"
  shows "g_read (length bs) a g' = Inr bs"
  using assms
proof (induction bs arbitrary: a g)
  case (Cons b bs)
  then have w: "g_write (a + 1) bs (g(a \<mapsto> b)) = Inr g'" by (auto split: if_splits)
  then have "g' a = Some b"
    using g_write_other [OF w, of a] notin_span_next [of "length bs" a] Cons.prems by simp
  moreover have "g_read (length bs) (a + 1) g' = Inr bs"
    using Cons.IH [OF w] Cons.prems by simp
  ultimately show ?case by simp
qed simp

lemma g_read_write_other:
  assumes "g_write a bs g = Inr g'" and "span a (length bs) \<inter> span b n = {}"
  shows "g_read n b g' = g_read n b g"
  by (rule g_read_cong) (use assms g_write_other in blast)

lemma g_get_put_same:
  "g_put n a (w :: 'a::len word) g = Inr g' \<Longrightarrow> n < 2 ^ 64 \<Longrightarrow> g_get n a g' = Inr (take_bit (8 * n) w)"
  using g_read_write_same [of a "le_enc n w" g g'] by (simp add: g_get_def g_put_def le_dec_enc)

lemma g_get_put_other:
  "g_put m a w g = Inr g' \<Longrightarrow> span a m \<inter> span b n = {} \<Longrightarrow> g_get n b g' = g_get n b g"
  by (simp add: g_get_def g_put_def g_read_write_other)

lemma g_get_write_other:
  "g_write a bs g = Inr g' \<Longrightarrow> span a (length bs) \<inter> span b n = {} \<Longrightarrow> g_get n b g' = g_get n b g"
  by (simp add: g_get_def g_read_write_other)

text \<open>A scalar inside a structure that was read whole is its field.\<close>

lemma g_read_append:
  "g_read (m + n) a g =
     bind_result (g_read m a g) (\<lambda>xs. bind_result (g_read n (a + of_nat m) g) (\<lambda>ys. Inr (xs @ ys)))"
proof (induction m arbitrary: a)
  case 0
  then show ?case by (auto split: sum.split)
next
  case (Suc m)
  have next_at: "a + 1 + of_nat m = a + of_nat (Suc m)" by (simp add: algebra_simps)
  show ?case
    using Suc.IH [of "a + 1", unfolded next_at]
    by (auto simp del: of_nat_Suc split: option.split sum.split)
qed

lemma g_read_sub:
  assumes "g_read m a g = Inr bs" and "off + n \<le> m"
  shows "g_read n (a + of_nat off) g = Inr (take n (drop off bs))"
proof -
  have split: "m = off + (n + (m - off - n))" using assms(2) by simp
  have "g_read (off + (n + (m - off - n))) a g = Inr bs"
    using assms split by simp
  then obtain xs ys zs where parts: "g_read off a g = Inr xs" "g_read n (a + of_nat off) g = Inr ys"
      "bs = xs @ ys @ zs"
    unfolding g_read_append by (auto split: sum.splits)
  then have "length xs = off" "length ys = n" by (auto dest: g_read_mapped)
  with parts show ?thesis by simp
qed

lemma g_get_field:
  assumes "g_read m a g = Inr bs" and "off + n \<le> m"
  shows "g_get n (a + of_nat off) g = Inr (field_get off n bs)"
  using g_read_sub [OF assms] by (simp add: g_get_def field_get_def)

lemma length_field_put [simp]: "off + n \<le> length bs \<Longrightarrow> length (field_put off n w bs) = length bs"
  by (simp add: field_put_def)

lemma field_get_put_same:
  "off + n \<le> length bs \<Longrightarrow> field_get off n (field_put off n (w :: 'a::len word) bs) = take_bit (8 * n) w"
  by (simp add: field_get_def field_put_def le_dec_enc)

lemma field_get_put_other:
  assumes "off + n \<le> length bs" and "off' + n' \<le> off \<or> off + n \<le> off'"
  shows "field_get off' n' (field_put off n w bs) = field_get off' n' bs"
proof -
  from assms(2) have "take n' (drop off' (field_put off n w bs)) = take n' (drop off' bs)"
  proof
    assume "off' + n' \<le> off"
    then show ?thesis using assms(1)
      by (simp add: field_put_def take_drop)
  next
    assume "off + n \<le> off'"
    then have "drop off' (field_put off n w bs) = drop (off' - off - n) (drop (off + n) bs)"
      using assms(1) by (simp add: field_put_def)
    with \<open>off + n \<le> off'\<close> show ?thesis by simp
  qed
  then show ?thesis by (simp add: field_get_def)
qed

lemma g_get_cong: "(\<And>x. x \<in> span a n \<Longrightarrow> g' x = g x) \<Longrightarrow> g_get n a g' = g_get n a g"
  using g_read_cong [of a n g' g] by (simp add: g_get_def)

lemma g_get_mapped: "g_get n a g = Inr w \<Longrightarrow> g_mapped g a n"
  by (auto simp: g_get_def dest: g_read_mapped split: sum.splits)

lemma g_put_total: "g_mapped g a n \<Longrightarrow> \<exists>g'. g_put n a v g = Inr g'"
  unfolding g_put_def by (rule g_write_total) simp

lemma g_put_other: "g_put n a v g = Inr g' \<Longrightarrow> x \<notin> span a n \<Longrightarrow> g' x = g x"
  using g_write_other [of a "le_enc n v" g g' x] by (simp add: g_put_def)

lemma g_put_mapped: "g_put m a v g = Inr g' \<Longrightarrow> g_mapped g' b n = g_mapped g b n"
  using g_write_mapped by (simp add: g_put_def)

text \<open>Two members of one structure, by their offsets.\<close>

lemma span_fields_apart:
  assumes "i + n \<le> j \<or> j + m \<le> i" and "i + n < 2 ^ 64" and "j + m < 2 ^ 64"
  shows "span (a + of_nat i) n \<inter> span (a + of_nat j) m = {}"
proof -
  have "i + x = j + y" if "a + of_nat i + of_nat x = a + of_nat j + (of_nat y :: addr)"
    "x < n" "y < m" for x y
  proof -
    have "of_nat (i + x) = (of_nat (j + y) :: addr)" using that(1) by (simp add: algebra_simps)
    then have "(i + x) mod 2 ^ 64 = (j + y) mod 2 ^ 64"
      by (simp only: word_of_nat_eq_iff take_bit_eq_mod) simp
    with that assms show ?thesis by simp
  qed
  with assms(1) show ?thesis by (fastforce simp: span_def)
qed

end
