(* ===== verification/Names.thy ===== *)
theory Names
  imports Guest_Mem Std_Map "HOL-Library.Char_ord" "HOL-Library.List_Lexorder"
begin

text \<open>
  \<open>util/string.hpp\<close> and \<open>kernel/win/string.hpp\<close>: ASCII case folding, the comparison that
  ignores case, widening and narrowing, and strings in guest memory, both terminated and
  counted. A \<open>std::string\<close> is a \<open>string\<close>, a \<open>std::u16string\<close> a list of 16-bit words; a
  \<open>std::basic_string<T>\<close> read from the guest is a list of words of the width of \<open>T\<close>. The
  last part has the path components the registry, the file system and the object namespace
  are searched by.
\<close>

section \<open>Case folding and comparison\<close>

definition ascii_lower_char :: "char \<Rightarrow> char" where
  "ascii_lower_char c =
     (let n = of_char c :: nat in if 65 \<le> n \<and> n \<le> 90 then char_of (n - 65 + 97) else c)"

definition ascii_lower_u16 :: "u16 \<Rightarrow> u16" where
  "ascii_lower_u16 c = (if 65 \<le> c \<and> c \<le> 90 then c - 65 + 97 else c)"

definition ascii_lower :: "string \<Rightarrow> string" where
  "ascii_lower s = map ascii_lower_char s"

text \<open>
  The comparison is a template: \<open>lower\<close> is the overload of \<open>ascii_lower\<close> and the order is that
  of the character type. The pointers are the lists they point at, which the callers make at
  least \<open>count\<close> long.
\<close>

fun compare_count :: "('a::linorder \<Rightarrow> 'a) \<Rightarrow> 'a list \<Rightarrow> 'a list \<Rightarrow> nat \<Rightarrow> int" where
  "compare_count lower a b 0 = 0"
| "compare_count lower (x # a) (y # b) (Suc n) =
     (let ca = lower x; cb = lower y in
      if ca \<noteq> cb then (if ca < cb then -1 else 1) else compare_count lower a b n)"
| "compare_count lower a b (Suc n) = 0"

definition compare_ascii_nocase :: "('a::linorder \<Rightarrow> 'a) \<Rightarrow> 'a list \<Rightarrow> 'a list \<Rightarrow> int" where
  "compare_ascii_nocase lower a b =
     (let diff = compare_count lower a b (min (length a) (length b)) in
      if diff \<noteq> 0 then diff
      else if length a = length b then 0
      else if length a < length b then -1 else 1)"

text \<open>\<open>basic_string::compare\<close>, which only promises the sign of its result.\<close>

definition string_compare :: "'a::linorder list \<Rightarrow> 'a list \<Rightarrow> int" where
  "string_compare a b = (if a < b then -1 else if a = b then 0 else 1)"

definition compare_unicode :: "u16 list \<Rightarrow> u16 list \<Rightarrow> bool \<Rightarrow> int" where
  "compare_unicode a b case_insensitive =
     (if case_insensitive then compare_ascii_nocase ascii_lower_u16 a b else string_compare a b)"

definition narrow_wstring :: "u16 list \<Rightarrow> string" where
  "narrow_wstring wide = map (\<lambda>wc. char_of (unat (wc AND 0xFF))) wide"

definition widen_string :: "string \<Rightarrow> u16 list" where
  "widen_string narrow = map of_char narrow"

section \<open>Strings in guest memory\<close>

text \<open>The bytes of a run of characters of \<open>n\<close> bytes each, and back.\<close>

definition chars_bytes :: "nat \<Rightarrow> 'a::len word list \<Rightarrow> u8 list" where
  "chars_bytes n cs = concat (map (le_enc n) cs)"

fun bytes_chars :: "nat \<Rightarrow> nat \<Rightarrow> u8 list \<Rightarrow> 'a::len word list" where
  "bytes_chars n 0 bs = []"
| "bytes_chars n (Suc k) bs = le_dec (take n bs) # bytes_chars n k (drop n bs)"

fun read_basic_string :: "nat \<Rightarrow> addr \<Rightarrow> nat \<Rightarrow> gmem \<Rightarrow> emu_error + 'a::len word list" where
  "read_basic_string n a 0 g = Inr []"
| "read_basic_string n a (Suc max_chars) g =
     bind_result (g_get n a g) (\<lambda>c.
       if c = 0 then Inr []
       else bind_result (read_basic_string n (a + of_nat n) max_chars g) (\<lambda>cs. Inr (c # cs)))"

definition read_string :: "addr \<Rightarrow> nat \<Rightarrow> gmem \<Rightarrow> emu_error + string" where
  "read_string a max_chars g =
     bind_result (read_basic_string 1 a max_chars g) (\<lambda>cs. Inr (map (\<lambda>c. char_of (unat (c :: u8))) cs))"

definition read_wstring :: "addr \<Rightarrow> nat \<Rightarrow> gmem \<Rightarrow> emu_error + u16 list" where
  "read_wstring a max_chars g = read_basic_string 2 a max_chars g"

definition write_basic_string_buffer ::
  "nat \<Rightarrow> addr \<Rightarrow> u64 \<Rightarrow> 'a::len word list \<Rightarrow> gmem \<Rightarrow> emu_error + gmem" where
  "write_basic_string_buffer n a buf_count str g =
     (let chars = min (length str) (unat (buf_count - 1)) in
      bind_result (if chars > 0 then g_write a (chars_bytes n (take chars str)) g else Inr g)
        (\<lambda>g. g_put n (a + of_nat (chars * n)) (0 :: 'a word) g))"

definition write_string_buffer :: "addr \<Rightarrow> u64 \<Rightarrow> string \<Rightarrow> gmem \<Rightarrow> emu_error + gmem" where
  "write_string_buffer a buf_count str g =
     write_basic_string_buffer 1 a buf_count (map of_char str :: u8 list) g"

definition write_wstring_buffer :: "addr \<Rightarrow> u64 \<Rightarrow> u16 list \<Rightarrow> gmem \<Rightarrow> emu_error + gmem" where
  "write_wstring_buffer a buf_count str g = write_basic_string_buffer 2 a buf_count str g"

text \<open>The default bound of \<open>guest::read_wstring\<close>.\<close>

definition default_max_chars :: nat where "default_max_chars = 4096"

text \<open>\<open>space.alloc\<close> of the address space the string is put in is the argument \<open>alloc\<close>.\<close>

definition allocate_basic_string ::
  "(u64 \<Rightarrow> u64 \<Rightarrow> gmem \<Rightarrow> emu_error + addr \<times> gmem) \<Rightarrow> nat \<Rightarrow> 'a::len word list \<Rightarrow> bool \<Rightarrow> u64 \<Rightarrow>
   gmem \<Rightarrow> emu_error + addr \<times> gmem" where
  "allocate_basic_string alloc n str terminate prot g =
     bind_result (alloc (of_nat (length str * n + (if terminate then n else 0))) prot g) (\<lambda>(a, g).
     bind_result (g_write a (chars_bytes n str) g) (\<lambda>g.
     bind_result (if terminate then g_put n (a + of_nat (length str * n)) (0 :: 'a word) g else Inr g)
       (\<lambda>g. Inr (a, g))))"

text \<open>A \<open>_UNICODE_STRING\<close> or \<open>_STRING\<close> with the address its \<open>Buffer\<close> holds.\<close>

record counted_string =
  cs_Length :: u16
  cs_MaximumLength :: u16
  cs_Buffer :: addr

definition read_counted_string :: "nat \<Rightarrow> counted_string \<Rightarrow> gmem \<Rightarrow> emu_error + 'a::len word list" where
  "read_counted_string n str g =
     (if cs_Length str = 0 \<or> cs_Buffer str = 0 then Inr []
      else bind_result (g_read (unat (cs_Length str)) (cs_Buffer str) g)
             (\<lambda>bs. Inr (bytes_chars n (unat (cs_Length str) div n) bs)))"

definition read_unicode_string :: "counted_string \<Rightarrow> gmem \<Rightarrow> emu_error + u16 list" where
  "read_unicode_string str g = read_counted_string 2 str g"

text \<open>A counted string behind a pointer, empty for a null one.\<close>

definition unicode_at :: "addr \<Rightarrow> gmem \<Rightarrow> emu_error + u16 list" where
  "unicode_at a g =
     (if a = 0 then Inr []
      else bind_result (g_read 16 a g) (\<lambda>bs.
        read_unicode_string \<lparr>cs_Length = field_get 0 2 bs, cs_MaximumLength = field_get 2 2 bs,
          cs_Buffer = field_get 8 8 bs\<rparr> g))"

definition read_ansi_string :: "counted_string \<Rightarrow> gmem \<Rightarrow> emu_error + string" where
  "read_ansi_string str g =
     bind_result (read_counted_string 1 str g) (\<lambda>cs. Inr (map (\<lambda>c. char_of (unat (c :: u8))) cs))"

definition init_unicode_string ::
  "(u64 \<Rightarrow> u64 \<Rightarrow> gmem \<Rightarrow> emu_error + addr \<times> gmem) \<Rightarrow> u16 list \<Rightarrow> u64 \<Rightarrow> gmem \<Rightarrow>
   emu_error + counted_string \<times> gmem" where
  "init_unicode_string alloc str prot g =
     bind_result (allocate_basic_string alloc 2 str True prot g) (\<lambda>(buffer, g).
       let len = of_nat (length str * 2) :: u16 in
       Inr (\<lparr>cs_Length = len, cs_MaximumLength = len + 2, cs_Buffer = buffer\<rparr>, g))"

section \<open>Paths\<close>

definition starts_with :: "string \<Rightarrow> string \<Rightarrow> bool" where
  "starts_with s p \<longleftrightarrow> take (length p) s = p"

text \<open>What precedes the first slash: \<open>s.substr(0, s.find('/'))\<close>.\<close>

definition first_component :: "string \<Rightarrow> string" where
  "first_component s = takeWhile (\<lambda>c. c \<noteq> CHR ''/'') s"

section \<open>The comparison is that of the folded strings\<close>

lemma compare_folded:
  "compare_ascii_nocase lower a b = string_compare (map lower a) (map lower b)"
proof (induction a arbitrary: b)
  case Nil
  then show ?case
    by (cases b) (auto simp: compare_ascii_nocase_def string_compare_def)
next
  case (Cons x a)
  show ?case
  proof (cases b)
    case Nil
    then show ?thesis by (simp add: compare_ascii_nocase_def string_compare_def)
  next
    case (Cons y b')
    have "compare_ascii_nocase lower (x # a) (y # b') =
        (if lower x \<noteq> lower y then (if lower x < lower y then -1 else 1)
         else compare_ascii_nocase lower a b')"
      by (simp add: compare_ascii_nocase_def Let_def)
    with Cons.IH Cons show ?thesis
      by (auto simp: string_compare_def)
  qed
qed

text \<open>
  The comparison that ignores case is the lexicographic comparison of the folded strings:
  equal exactly when they fold to the same string, antisymmetric, and a proper prefix comes
  first.
\<close>

theorem compare_ascii_nocase_correct:
  "compare_ascii_nocase lower a b = string_compare (map lower a) (map lower b) \<and>
   (compare_ascii_nocase lower a b = 0 \<longleftrightarrow> map lower a = map lower b) \<and>
   compare_ascii_nocase lower b a = - compare_ascii_nocase lower a b"
  unfolding compare_folded by (auto simp: string_compare_def)

lemma narrow_widen: "narrow_wstring (widen_string s) = s"
proof -
  have "unat ((of_char c :: u16) AND 0xFF) = of_char c" for c
  proof -
    have mask: "(of_char c :: u16) AND 0xFF = take_bit 8 (of_nat (of_char c))"
      by (simp add: take_bit_eq_mask mask_eq_exp_minus_1 of_nat_of_char)
    have "(of_char c :: nat) < 65536" using nat_of_char_less_256 [of c] by linarith
    then show ?thesis
      unfolding mask unsigned_take_bit_eq by (simp add: take_bit_eq_mod unat_of_nat)
  qed
  then show ?thesis
    by (simp add: narrow_wstring_def widen_string_def o_def)
qed

section \<open>What was written reads back\<close>

lemma length_chars_bytes [simp]: "length (chars_bytes n cs) = length cs * n"
  by (induction cs) (simp_all add: chars_bytes_def)

lemma chars_bytes_Cons: "chars_bytes n (c # cs) = le_enc n c @ chars_bytes n cs"
  by (simp add: chars_bytes_def)

lemma le_dec_enc_full: "8 * n = LENGTH('a) \<Longrightarrow> le_dec (le_enc n (c :: 'a::len word)) = c"
  by (simp add: le_dec_enc take_bit_word_eq_self)

lemma bytes_chars_bytes:
  "8 * n = LENGTH('a) \<Longrightarrow> bytes_chars n (length cs) (chars_bytes n cs) = (cs :: 'a::len word list)"
  by (induction cs) (simp_all add: chars_bytes_Cons le_dec_enc_full)

lemma read_basic_string_written:
  fixes cs :: "'a::len word list"
  assumes n: "8 * n = LENGTH('a)"
    and "g_read (length cs * n) a g = Inr (chars_bytes n cs)" and "0 \<notin> set cs"
    and "g_get n (a + of_nat (length cs * n)) g = Inr (0 :: 'a word)" and "length cs < max_chars"
  shows "read_basic_string n a max_chars g = Inr cs"
  using assms(2-)
proof (induction cs arbitrary: a max_chars)
  case Nil
  then show ?case by (cases max_chars) simp_all
next
  case (Cons c cs)
  have len: "length (c # cs) * n = n + length cs * n" by simp
  from Cons.prems(1) obtain xs ys where parts: "g_read n a g = Inr xs"
      "g_read (length cs * n) (a + of_nat n) g = Inr ys" "chars_bytes n (c # cs) = xs @ ys"
    unfolding len g_read_append by (auto split: sum.splits)
  then have "length xs = n" by (auto dest: g_read_mapped)
  with parts(3) have xs: "xs = le_enc n c" and ys: "ys = chars_bytes n cs"
    by (auto simp: chars_bytes_Cons append_eq_append_conv)
  have end_at: "a + of_nat (length (c # cs) * n) = a + of_nat n + of_nat (length cs * n)"
    by (simp add: algebra_simps)
  obtain m where m: "max_chars = Suc m" using Cons.prems(4) by (cases max_chars) auto
  have "read_basic_string n (a + of_nat n) m g = Inr cs"
    using Cons.IH [of "a + of_nat n" m] Cons.prems parts(2) ys m unfolding end_at by simp
  moreover have "g_get n a g = Inr c"
    using parts(1) xs n by (simp add: g_get_def le_dec_enc_full)
  ultimately show ?case using Cons.prems(2) m by simp
qed

lemma span_end_disjoint: "n + m < 2 ^ 64 \<Longrightarrow> span a n \<inter> span (a + of_nat n) m = {}"
proof -
  assume nm: "n + m < 2 ^ 64"
  have "a + of_nat i \<noteq> a + of_nat n + (of_nat j :: addr)" if "i < n" "j < m" for i j
  proof
    assume "a + of_nat i = a + of_nat n + (of_nat j :: addr)"
    then have "of_nat i = (of_nat (n + j) :: addr)" by (simp add: algebra_simps)
    then have "i mod 2 ^ 64 = (n + j) mod 2 ^ 64"
      by (simp only: word_of_nat_eq_iff take_bit_eq_mod) simp
    with that nm show False by simp
  qed
  then show ?thesis by (auto simp: span_def)
qed

text \<open>The buffer is written in two pieces: the characters that fit, then the terminator.\<close>

lemma write_string_pieces:
  fixes str :: "'a::len word list"
  assumes count: "0 < buf_count" "unat buf_count * n < 2 ^ 64"
    and w: "write_basic_string_buffer n a buf_count str g = Inr g'"
  obtains k g1 where "k = min (length str) (unat buf_count - 1)"
    and "g_write a (chars_bytes n (take k str)) g = Inr g1"
    and "g_put n (a + of_nat (k * n)) (0 :: 'a word) g1 = Inr g'"
    and "k * n + n \<le> unat buf_count * n" and "length (take k str) = k" and "k < unat buf_count"
proof -
  define k where "k = min (length str) (unat (buf_count - 1))"
  have less1: "unat (buf_count - 1) = unat buf_count - 1"
    using count(1) by (simp add: unat_minus_one unat_gt_0)
  have k: "k < unat buf_count" using count(1) unat_gt_0 [of buf_count] by (auto simp: k_def less1)
  have "(k + 1) * n \<le> unat buf_count * n" using k by (intro mult_right_mono) auto
  moreover obtain g1 where "g_write a (chars_bytes n (take k str)) g = Inr g1"
    and "g_put n (a + of_nat (k * n)) (0 :: 'a word) g1 = Inr g'"
    using w [unfolded write_basic_string_buffer_def Let_def, folded k_def]
    by (cases "k = 0") (auto simp: chars_bytes_def split: sum.splits)
  ultimately show ?thesis
    using that [of k g1] k by (simp add: k_def less1 algebra_simps)
qed

lemma write_string_reads_back:
  fixes str :: "'a::len word list"
  assumes n: "8 * n = LENGTH('a)" and count: "0 < buf_count" "unat buf_count * n < 2 ^ 64"
    and w: "write_basic_string_buffer n a buf_count str g = Inr g'" and "0 \<notin> set str"
    and "unat buf_count \<le> max_chars"
  shows "read_basic_string n a max_chars g' = Inr (take (unat buf_count - 1) str)"
proof -
  obtain k g1 where k: "k = min (length str) (unat buf_count - 1)"
    and g1: "g_write a (chars_bytes n (take k str)) g = Inr g1"
    and g': "g_put n (a + of_nat (k * n)) (0 :: 'a word) g1 = Inr g'"
    and room: "k * n + n \<le> unat buf_count * n" and len: "length (take k str) = k"
    and less: "k < unat buf_count"
    by (rule write_string_pieces [OF count w])
  have apart: "span (a + of_nat (k * n)) n \<inter> span a (k * n) = {}"
    using span_end_disjoint [of "k * n" n a] room count(2) by auto
  have "g_read (k * n) a g1 = Inr (chars_bytes n (take k str))"
    using g_read_write_same [OF g1] room count(2) len by simp
  then have body: "g_read (k * n) a g' = Inr (chars_bytes n (take k str))"
    using g_read_write_other [of "a + of_nat (k * n)" "le_enc n (0 :: 'a word)" g1 g' a "k * n"]
      g' apart by (simp add: g_put_def)
  have nul: "g_get n (a + of_nat (k * n)) g' = Inr (0 :: 'a word)"
    using g_get_put_same [OF g'] room count(2) by simp
  have "read_basic_string n a max_chars g' = Inr (take k str)"
    by (rule read_basic_string_written [OF n])
      (use body nul len less assms(5,6) in \<open>auto dest: in_set_takeD\<close>)
  then show ?thesis by (simp add: k min_def split: if_splits)
qed

lemma write_string_inside:
  fixes str :: "'a::len word list"
  assumes count: "0 < buf_count" "unat buf_count * n < 2 ^ 64"
    and w: "write_basic_string_buffer n a buf_count str g = Inr g'"
    and x: "x \<notin> span a (unat buf_count * n)"
  shows "g' x = g x"
proof -
  obtain k g1 where g1: "g_write a (chars_bytes n (take k str)) g = Inr g1"
    and g': "g_put n (a + of_nat (k * n)) (0 :: 'a word) g1 = Inr g'"
    and fits: "k * n + n \<le> unat buf_count * n" and len: "length (take k str) = k"
    by (rule write_string_pieces [OF count w])
  have "x \<notin> span a (k * n)" and "x \<notin> span (a + of_nat (k * n)) n"
    using x span_mono [OF add_leD1 [OF fits], of a] span_offset [OF fits, of a] by blast+
  then show ?thesis
    using g_write_other [OF g1, of x] g_put_other [OF g', of x] len by simp
qed

section \<open>Path components\<close>

lemma starts_with_iff: "starts_with s p \<longleftrightarrow> (\<exists>r. s = p @ r)"
  by (metis append_eq_conv_conj append_take_drop_id starts_with_def)

text \<open>
  The names directly under a prefix: the component that follows it in some name, up to the
  next slash or the end.
\<close>

definition children :: "string \<Rightarrow> string set \<Rightarrow> string set" where
  "children p names =
     {c. CHR ''/'' \<notin> set c \<and> (\<exists>r. p @ c @ r \<in> names \<and> (r = [] \<or> hd r = CHR ''/''))}"

lemma first_component_split: "\<exists>r. s = first_component s @ r \<and> (r = [] \<or> hd r = CHR ''/'')"
proof (intro exI conjI)
  show "s = first_component s @ dropWhile (\<lambda>c. c \<noteq> CHR ''/'') s"
    by (simp add: first_component_def)
  show "dropWhile (\<lambda>c. c \<noteq> CHR ''/'') s = [] \<or> hd (dropWhile (\<lambda>c. c \<noteq> CHR ''/'') s) = CHR ''/''"
    using hd_dropWhile [of "\<lambda>c. c \<noteq> CHR ''/''" s] by blast
qed

lemma first_component_no_slash: "CHR ''/'' \<notin> set (first_component s)"
  by (auto simp: first_component_def dest: set_takeWhileD)

lemma first_component_append:
  "CHR ''/'' \<notin> set c \<Longrightarrow> r = [] \<or> hd r = CHR ''/'' \<Longrightarrow> first_component (c @ r) = c"
proof -
  assume c: "CHR ''/'' \<notin> set c" and r: "r = [] \<or> hd r = CHR ''/''"
  have "takeWhile (\<lambda>x. x \<noteq> CHR ''/'') (c @ r) = c @ takeWhile (\<lambda>x. x \<noteq> CHR ''/'') r"
    by (rule takeWhile_append2) (use c in auto)
  also have "takeWhile (\<lambda>x. x \<noteq> CHR ''/'') r = []" using r by (cases r) auto
  finally show ?thesis by (simp add: first_component_def)
qed

lemma children_alt:
  "children p names = (\<lambda>s. first_component (drop (length p) s)) ` {s \<in> names. starts_with s p}"
proof (intro set_eqI iffI)
  fix c assume "c \<in> children p names"
  then obtain r where c: "CHR ''/'' \<notin> set c" "p @ c @ r \<in> names" "r = [] \<or> hd r = CHR ''/''"
    by (auto simp: children_def)
  then have "first_component (drop (length p) (p @ c @ r)) = c"
    by (simp add: first_component_append)
  with c(2) show "c \<in> (\<lambda>s. first_component (drop (length p) s)) ` {s \<in> names. starts_with s p}"
    by (intro image_eqI [where x = "p @ c @ r"]) (auto simp: starts_with_iff)
next
  fix c assume "c \<in> (\<lambda>s. first_component (drop (length p) s)) ` {s \<in> names. starts_with s p}"
  then obtain t where t: "p @ t \<in> names" "c = first_component t"
    by (auto simp: starts_with_iff)
  obtain r where r: "t = c @ r" "r = [] \<or> hd r = CHR ''/''"
    using first_component_split [of t] t(2) by auto
  have "p @ c @ r \<in> names" using t(1) r(1) by simp
  moreover have "CHR ''/'' \<notin> set c" using first_component_no_slash [of t] t(2) by simp
  ultimately show "c \<in> children p names"
    using r(2) unfolding children_def by blast
qed

end
