(* ===== verification/Obj_Manager.thy ===== *)
theory Obj_Manager
  imports Names
begin

text \<open>
  \<open>kernel/win/win_obj_manager\<close>, \<open>win_handle_table\<close> and the host objects of \<open>objects.hpp\<close>: guest
  objects with an \<open>_OBJECT_HEADER\<close> in front of their body, the object namespace, and the
  handle tables of the processes. A \<open>shared_ptr\<close> to a file or a thread is the number that
  identifies it, and so is a registry key and the host object of a keyed event, a completion port, a wait packet,
  a worker factory or a port, which the theories of their services keep. The hooks that log accesses to a
  header have no effect on the state and are left out. The step relation at the end interleaves
  the critical sections of the operations of all processes.
\<close>

section \<open>State\<close>

datatype win_object =
    Thread_object (to_thread: nat)
  | File_host (to_file: "nat option") (to_path: string) (to_position: u64) (to_console: bool)
      (to_device_object: addr) (to_file_object: addr)
  | Device_host (to_driver: addr) (to_name: string)
  | Symbolic_link_host (to_target: string)
  | Directory_host (to_name: string)
  | Driver_object_host (to_driver: addr) (to_name: string)
  | Section_host (to_file: "nat option") (to_path: string) (to_size: u64) (to_is_image: bool)
      (to_image: "u8 list")
  | Dispatcher_host (to_type: nat) (to_name: string)
  | Keyed_event_host (to_host: nat)
  | Io_completion_host (to_host: nat)
  | Wait_packet_host (to_host: nat)
  | Worker_factory_host (to_host: nat)
  | Registry_key_host (to_key: nat) (to_path: string)
  | Alpc_port_host (to_host: nat)

definition file_is_device :: "win_object \<Rightarrow> bool" where
  "file_is_device f \<longleftrightarrow> to_device_object f \<noteq> 0"

text \<open>\<open>header\<close> is the address of the \<open>emu_object\<close>, zero for a default constructed one.\<close>

record object_entry =
  header :: addr
  host :: "win_object option"

record obj_manager =
  objects :: "(addr \<times> object_entry) list"
  named :: "(string \<times> addr) list"
  next_id :: u32

definition new_obj_manager :: obj_manager where
  "new_obj_manager = \<lparr>objects = [], named = [], next_id = 4\<rparr>"

record handle_entry =
  body_addr :: addr
  access :: u32

record handle_table =
  handles :: "(u64 \<times> handle_entry) list"
  next_handle :: u64

definition new_handle_table :: handle_table where
  "new_handle_table = \<lparr>handles = [], next_handle = 4\<rparr>"

section \<open>The object header\<close>

text \<open>The size of \<open>_OBJECT_HEADER\<close> and the offsets of its members.\<close>

definition hdr_size :: nat where "hdr_size = 0x38"
definition PointerCount :: nat where "PointerCount = 0x00"
definition HandleCount :: nat where "HandleCount = 0x08"
definition TypeIndex :: nat where "TypeIndex = 0x18"

lemmas hdr_defs = hdr_size_def PointerCount_def HandleCount_def TypeIndex_def

definition new_header :: "u8 \<Rightarrow> u8 list" where
  "new_header type_index =
     field_put TypeIndex 1 type_index (field_put PointerCount 8 (1 :: u64) (replicate hdr_size 0))"

section \<open>Operations of the object manager\<close>

definition create_object ::
  "(u64 \<Rightarrow> u64 \<Rightarrow> gmem \<Rightarrow> emu_error + addr \<times> gmem) \<Rightarrow> u8 \<Rightarrow> u8 list option \<Rightarrow> u64 \<Rightarrow>
   win_object option \<Rightarrow> u64 \<Rightarrow> obj_manager \<times> gmem \<Rightarrow> emu_error + addr \<times> obj_manager \<times> gmem" where
  "create_object alloc type_index body_data body_size hst prot = (\<lambda>(m, g).
     bind_result (alloc (of_nat hdr_size + body_size) prot g) (\<lambda>(base, g).
     let body = base + of_nat hdr_size in
     bind_result (g_write base (new_header type_index) g) (\<lambda>g.
     bind_result (case body_data of
                    Some d \<Rightarrow> if body_size > 0 then g_write body (take (unat body_size) d) g else Inr g
                  | None \<Rightarrow> Inr g) (\<lambda>g.
       Inr (body, m\<lparr>objects := umap_set body \<lparr>header = base, host = hst\<rparr> (objects m)\<rparr>, g)))))"

definition register_object :: "addr \<Rightarrow> win_object option \<Rightarrow> obj_manager \<Rightarrow> obj_manager" where
  "register_object body hst m =
     m\<lparr>objects := umap_set body \<lparr>header = 0, host = hst\<rparr> (objects m)\<rparr>"

definition register_named_object :: "string \<Rightarrow> addr \<Rightarrow> obj_manager \<Rightarrow> obj_manager" where
  "register_named_object name body m =
     (if name = [] then m else m\<lparr>named := umap_set name body (named m)\<rparr>)"

definition lookup_named_object :: "string \<Rightarrow> obj_manager \<Rightarrow> addr" where
  "lookup_named_object name m =
     (case umap_find name (named m) of Some a \<Rightarrow> a | None \<Rightarrow> 0)"

fun child_loop :: "string \<Rightarrow> string list \<Rightarrow> (string \<times> addr) list \<Rightarrow> string list" where
  "child_loop p names [] = names"
| "child_loop p names ((name, a) # rest) =
     (if \<not> starts_with name p then child_loop p names rest
      else
        let leaf = drop (length p) name; child = first_component leaf in
        if child \<noteq> [] \<and> child \<notin> set names then child_loop p (names @ [child]) rest
        else child_loop p names rest)"

definition child_names :: "string \<Rightarrow> obj_manager \<Rightarrow> string list" where
  "child_names p m = sort (child_loop p [] (named m))"

definition unregister_named_object :: "string \<Rightarrow> obj_manager \<Rightarrow> obj_manager" where
  "unregister_named_object name m =
     (case umap_find name (named m) of
        Some a \<Rightarrow> m\<lparr>named := umap_erase name (named m)\<rparr> | None \<Rightarrow> m)"

text \<open>\<open>cast\<close> is the \<open>dynamic_pointer_cast\<close> to the class asked for.\<close>

definition get_object :: "(win_object \<Rightarrow> 't option) \<Rightarrow> addr \<Rightarrow> obj_manager \<Rightarrow> 't option" where
  "get_object cast body m =
     (case umap_find body (objects m) of
        None \<Rightarrow> None
      | Some e \<Rightarrow> (case host e of None \<Rightarrow> None | Some h \<Rightarrow> cast h))"

definition has_object :: "addr \<Rightarrow> obj_manager \<Rightarrow> bool" where
  "has_object body m \<longleftrightarrow> umap_find body (objects m) \<noteq> None"

definition header_of :: "addr \<Rightarrow> addr" where
  "header_of body = body - of_nat hdr_size"

text \<open>The four counting operations read the header, change one member and write it back.\<close>

definition update_header ::
  "addr \<Rightarrow> nat \<Rightarrow> (u64 \<Rightarrow> u64) \<Rightarrow> obj_manager \<Rightarrow> gmem \<Rightarrow> emu_error + gmem" where
  "update_header body member f m g =
     (case umap_find body (objects m) of
        None \<Rightarrow> Inr g
      | Some e \<Rightarrow>
          if header e = 0 then Inr g
          else bind_result (g_read hdr_size (header e) g) (\<lambda>hdr.
                 g_write (header e) (field_put member 8 (f (field_get member 8 hdr)) hdr) g))"

definition reference_object :: "addr \<Rightarrow> obj_manager \<Rightarrow> gmem \<Rightarrow> emu_error + gmem" where
  "reference_object body = update_header body PointerCount (\<lambda>c. c + 1)"

definition dereference_object :: "addr \<Rightarrow> obj_manager \<Rightarrow> gmem \<Rightarrow> emu_error + gmem" where
  "dereference_object body = update_header body PointerCount (\<lambda>c. c - 1)"

definition increment_handle_count :: "addr \<Rightarrow> obj_manager \<Rightarrow> gmem \<Rightarrow> emu_error + gmem" where
  "increment_handle_count body = update_header body HandleCount (\<lambda>c. c + 1)"

definition decrement_handle_count :: "addr \<Rightarrow> obj_manager \<Rightarrow> gmem \<Rightarrow> emu_error + gmem" where
  "decrement_handle_count body = update_header body HandleCount (\<lambda>c. c - 1)"

definition allocate_id :: "obj_manager \<Rightarrow> u32 \<times> obj_manager" where
  "allocate_id m = (next_id m, m\<lparr>next_id := next_id m + 4\<rparr>)"

section \<open>Operations of a handle table\<close>

definition alloc_handle :: "handle_table \<Rightarrow> u64 \<times> handle_table" where
  "alloc_handle t = (next_handle t, t\<lparr>next_handle := next_handle t + 4\<rparr>)"

text \<open>The critical sections of \<open>create_handle\<close> and \<open>close_handle\<close> under the table's own lock.\<close>

definition insert_handle :: "addr \<Rightarrow> u32 \<Rightarrow> handle_table \<Rightarrow> u64 \<times> handle_table" where
  "insert_handle body acc t =
     (let (h, t) = alloc_handle t in
      (h, t\<lparr>handles := umap_set h \<lparr>body_addr = body, access = acc\<rparr> (handles t)\<rparr>))"

definition take_handle :: "u64 \<Rightarrow> handle_table \<Rightarrow> (addr \<times> handle_table) option" where
  "take_handle h t =
     (case umap_find h (handles t) of
        None \<Rightarrow> None
      | Some e \<Rightarrow> Some (body_addr e, t\<lparr>handles := umap_erase h (handles t)\<rparr>))"

definition create_handle ::
  "addr \<Rightarrow> u32 \<Rightarrow> obj_manager \<Rightarrow> handle_table \<times> gmem \<Rightarrow> emu_error + u64 \<times> handle_table \<times> gmem" where
  "create_handle body acc m = (\<lambda>(t, g).
     if \<not> has_object body m then Inr (0, t, g)
     else let (h, t) = insert_handle body acc t in
          bind_result (increment_handle_count body m g) (\<lambda>g. Inr (h, t, g)))"

definition close_handle ::
  "u64 \<Rightarrow> obj_manager \<Rightarrow> handle_table \<times> gmem \<Rightarrow> emu_error + bool \<times> handle_table \<times> gmem" where
  "close_handle h m = (\<lambda>(t, g).
     case take_handle h t of
       None \<Rightarrow> Inr (False, t, g)
     | Some (body, t) \<Rightarrow> bind_result (decrement_handle_count body m g) (\<lambda>g. Inr (True, t, g)))"

definition lookup_handle :: "u64 \<Rightarrow> handle_table \<Rightarrow> handle_entry option" where
  "lookup_handle h t = umap_find h (handles t)"

definition get_handle_object ::
  "(win_object \<Rightarrow> 't option) \<Rightarrow> u64 \<Rightarrow> obj_manager \<Rightarrow> handle_table \<Rightarrow> 't option" where
  "get_handle_object cast h m t =
     (case lookup_handle h t of None \<Rightarrow> None | Some e \<Rightarrow> get_object cast (body_addr e) m)"

section \<open>The processes and the object manager they share\<close>

text \<open>
  One step is one critical section: opening and closing a handle each take two, the table's
  own and the one of the count. What a thread still has to count after the first is kept in
  \<open>inc\<close> and \<open>dec\<close>. The allocator hands out memory that was not mapped before, and the guest
  may write anything but a header.
\<close>

record obj_system =
  mgr :: obj_manager
  tables :: "handle_table list"
  gmem :: gmem
  inc :: "addr list"
  dec :: "addr list"

definition fresh_block :: "gmem \<Rightarrow> addr \<Rightarrow> nat \<Rightarrow> gmem \<Rightarrow> bool" where
  "fresh_block g base n g' \<longleftrightarrow>
     n < 2 ^ 64 \<and> (\<forall>x \<in> span base n. g x = None) \<and> g_mapped g' base n \<and>
     (\<forall>x. x \<notin> span base n \<longrightarrow> g' x = g x)"

definition header_spans :: "obj_manager \<Rightarrow> addr set" where
  "header_spans m = (\<Union>e \<in> {e \<in> snd ` set (objects m). header e \<noteq> 0}. span (header e) hdr_size)"

inductive obj_step :: "obj_system \<Rightarrow> obj_system \<Rightarrow> bool" where
  create: "create_object alloc ti data sz hst prot (mgr s, gmem s) = Inr (body, m', g') \<Longrightarrow>
    hdr_size + unat sz < 2 ^ 64 \<Longrightarrow>
    (\<And>base g1. alloc (of_nat hdr_size + sz) prot (gmem s) = Inr (base, g1) \<Longrightarrow>
       fresh_block (gmem s) base (hdr_size + unat sz) g1) \<Longrightarrow>
    \<not> has_object body (mgr s) \<Longrightarrow>
    obj_step s (s\<lparr>mgr := m', gmem := g'\<rparr>)"
| register: "obj_step s (s\<lparr>mgr := register_object body hst (mgr s)\<rparr>)"
| register_name: "obj_step s (s\<lparr>mgr := register_named_object name body (mgr s)\<rparr>)"
| unregister_name: "obj_step s (s\<lparr>mgr := unregister_named_object name (mgr s)\<rparr>)"
| new_id: "allocate_id (mgr s) = (i, m') \<Longrightarrow> obj_step s (s\<lparr>mgr := m'\<rparr>)"
| reference: "reference_object body (mgr s) (gmem s) = Inr g' \<Longrightarrow> obj_step s (s\<lparr>gmem := g'\<rparr>)"
| dereference: "dereference_object body (mgr s) (gmem s) = Inr g' \<Longrightarrow> obj_step s (s\<lparr>gmem := g'\<rparr>)"
| open_handle: "i < length (tables s) \<Longrightarrow> has_object body (mgr s) \<Longrightarrow>
    unat (next_handle (tables s ! i)) + 4 < 2 ^ 64 \<Longrightarrow>
    insert_handle body acc (tables s ! i) = (h, t') \<Longrightarrow>
    obj_step s (s\<lparr>tables := (tables s)[i := t'], inc := body # inc s\<rparr>)"
| count_open: "body \<in> set (inc s) \<Longrightarrow> increment_handle_count body (mgr s) (gmem s) = Inr g' \<Longrightarrow>
    obj_step s (s\<lparr>gmem := g', inc := remove1 body (inc s)\<rparr>)"
| close_handle: "i < length (tables s) \<Longrightarrow> take_handle h (tables s ! i) = Some (body, t') \<Longrightarrow>
    obj_step s (s\<lparr>tables := (tables s)[i := t'], dec := body # dec s\<rparr>)"
| count_close: "body \<in> set (dec s) \<Longrightarrow> decrement_handle_count body (mgr s) (gmem s) = Inr g' \<Longrightarrow>
    obj_step s (s\<lparr>gmem := g', dec := remove1 body (dec s)\<rparr>)"
| new_process: "obj_step s (s\<lparr>tables := tables s @ [new_handle_table]\<rparr>)"
| guest: "(\<And>x. x \<in> header_spans (mgr s) \<Longrightarrow> g' x = gmem s x) \<Longrightarrow> obj_step s (s\<lparr>gmem := g'\<rparr>)"

inductive obj_reach :: "obj_system \<Rightarrow> bool" where
  boot: "obj_reach \<lparr>mgr = new_obj_manager, tables = [], gmem = g, inc = [], dec = []\<rparr>"
| step: "obj_reach s \<Longrightarrow> obj_step s s' \<Longrightarrow> obj_reach s'"

section \<open>What the operations do\<close>

lemma length_new_header [simp]: "length (new_header ti) = hdr_size"
  by (simp add: new_header_def hdr_defs)

lemma new_header_counts:
  "field_get PointerCount 8 (new_header ti) = (1 :: u64)"
  "field_get HandleCount 8 (new_header ti) = (0 :: u64)"
  "field_get TypeIndex 1 (new_header ti) = ti"
proof -
  let ?z = "replicate hdr_size (0 :: u8)"
  have len: "length (field_put PointerCount 8 (1 :: u64) ?z) = hdr_size"
    by (simp add: hdr_defs)
  have "field_get PointerCount 8 (new_header ti) =
      (field_get PointerCount 8 (field_put PointerCount 8 (1 :: u64) ?z) :: u64)"
    unfolding new_header_def by (rule field_get_put_other) (simp_all add: hdr_defs)
  then show "field_get PointerCount 8 (new_header ti) = (1 :: u64)"
    by (simp add: field_get_put_same hdr_defs take_bit_word_eq_self)
  have "field_get HandleCount 8 (new_header ti) =
      (field_get HandleCount 8 (field_put PointerCount 8 (1 :: u64) ?z) :: u64)"
    unfolding new_header_def by (rule field_get_put_other) (simp_all add: hdr_defs)
  also have "\<dots> = field_get HandleCount 8 ?z"
    by (rule field_get_put_other) (simp_all add: hdr_defs)
  also have "\<dots> = 0"
    by (simp add: field_get_def hdr_defs numeral_eq_Suc)
  finally show "field_get HandleCount 8 (new_header ti) = (0 :: u64)" .
  show "field_get TypeIndex 1 (new_header ti) = ti"
    unfolding new_header_def by (subst field_get_put_same) (simp_all add: hdr_defs take_bit_word_eq_self)
qed

text \<open>A member of the header of a body, as the guest reads it.\<close>

definition hdr_member :: "gmem \<Rightarrow> addr \<Rightarrow> nat \<Rightarrow> emu_error + u64" where
  "hdr_member g h member = g_get 8 (h + of_nat member) g"

lemma update_header_untracked:
  "\<forall>e. umap_find body (objects m) = Some e \<longrightarrow> header e = 0 \<Longrightarrow>
   update_header body member f m g = Inr g"
  by (auto simp: update_header_def split: option.split)

lemma update_header_total:
  assumes "umap_find body (objects m) = Some e" and "g_mapped g (header e) hdr_size"
    and "member + 8 \<le> hdr_size"
  shows "\<exists>g'. update_header body member f m g = Inr g'"
proof -
  obtain hdr where hdr: "g_read hdr_size (header e) g = Inr hdr" "length hdr = hdr_size"
    using g_read_total [OF assms(2)] by auto
  moreover have "\<exists>g'. g_write (header e) (field_put member 8 w hdr) g = Inr g'" for w :: u64
    by (rule g_write_total) (use assms hdr in simp)
  ultimately show ?thesis using assms(1) by (auto simp: update_header_def)
qed

lemma update_header_tracked:
  assumes "update_header body member f m g = Inr g'"
    and "umap_find body (objects m) = Some e" and "header e \<noteq> 0" and "member + 8 \<le> hdr_size"
  shows "\<exists>c. hdr_member g (header e) member = Inr c \<and> hdr_member g' (header e) member = Inr (f c)"
    and "other + 8 \<le> hdr_size \<Longrightarrow> other + 8 \<le> member \<or> member + 8 \<le> other \<Longrightarrow>
      hdr_member g' (header e) other = hdr_member g (header e) other"
    and "x \<notin> span (header e) hdr_size \<Longrightarrow> g' x = g x"
    and "g_mapped g' a n = g_mapped g a n"
proof -
  obtain hdr where r: "g_read hdr_size (header e) g = Inr hdr"
    and w: "g_write (header e) (field_put member 8 (f (field_get member 8 hdr)) hdr) g = Inr g'"
    using assms by (auto simp: update_header_def split: sum.splits)
  let ?new = "field_put member 8 (f (field_get member 8 hdr)) hdr"
  have len: "length hdr = hdr_size" using g_read_mapped [OF r] by simp
  then have len': "length ?new = hdr_size" using assms(4) by simp
  then have r': "g_read hdr_size (header e) g' = Inr ?new"
    using g_read_write_same [OF w] by (simp add: hdr_size_def)
  show "\<exists>c. hdr_member g (header e) member = Inr c \<and> hdr_member g' (header e) member = Inr (f c)"
    using g_get_field [OF r assms(4), where 'a = 64] g_get_field [OF r' assms(4), where 'a = 64] len assms(4)
    by (simp add: hdr_member_def field_get_put_same take_bit_word_eq_self)
  show "hdr_member g' (header e) other = hdr_member g (header e) other"
    if "other + 8 \<le> hdr_size" "other + 8 \<le> member \<or> member + 8 \<le> other"
    using g_get_field [OF r that(1), where 'a = 64] g_get_field [OF r' that(1), where 'a = 64] len assms(4) that
    by (simp add: hdr_member_def field_get_put_other)
  show "g' x = g x" if "x \<notin> span (header e) hdr_size"
    using g_write_other [OF w] that len' by simp
  show "g_mapped g' a n = g_mapped g a n" by (rule g_write_mapped [OF w])
qed

lemma hdr_member_other:
  assumes "\<And>x. x \<in> span h hdr_size \<Longrightarrow> g' x = g x" and "member + 8 \<le> hdr_size"
  shows "hdr_member g' h member = hdr_member g h member"
proof -
  have "g_read 8 (h + of_nat member) g' = g_read 8 (h + of_nat member) g"
    by (rule g_read_cong) (use assms span_offset [of member 8 hdr_size h] in blast)
  then show ?thesis by (simp add: hdr_member_def g_get_def)
qed

lemma create_object_cases:
  assumes "create_object alloc ti data sz hst prot (m, g) = Inr (body, m', g')"
    and "hdr_size + unat sz < 2 ^ 64"
    and "\<And>base g1. alloc (of_nat hdr_size + sz) prot g = Inr (base, g1) \<Longrightarrow>
      fresh_block g base (hdr_size + unat sz) g1"
  obtains base where "body = base + of_nat hdr_size"
    and "m' = m\<lparr>objects := umap_set body \<lparr>header = base, host = hst\<rparr> (objects m)\<rparr>"
    and "\<forall>x \<in> span base hdr_size. g x = None" and "g_mapped g' base hdr_size"
    and "\<forall>x. g x \<noteq> None \<longrightarrow> g' x = g x"
    and "hdr_member g' base HandleCount = Inr 0" and "hdr_member g' base PointerCount = Inr 1"
proof -
  obtain base g1 g2 where al: "alloc (of_nat hdr_size + sz) prot g = Inr (base, g1)"
    and w1: "g_write base (new_header ti) g1 = Inr g2"
    and w2: "(case data of
          Some d \<Rightarrow> if sz > 0 then g_write (base + of_nat hdr_size) (take (unat sz) d) g2 else Inr g2
        | None \<Rightarrow> Inr g2) = Inr g'"
    and body: "body = base + of_nat hdr_size"
    and m': "m' = m\<lparr>objects := umap_set body \<lparr>header = base, host = hst\<rparr> (objects m)\<rparr>"
    using assms(1) unfolding create_object_def Let_def
    by (auto split: sum.splits option.splits if_splits)
  have fresh: "fresh_block g base (hdr_size + unat sz) g1" by (rule assms(3) [OF al])
  obtain d where d: "length d \<le> unat sz" and w3: "g_write (base + of_nat hdr_size) d g2 = Inr g'"
  proof (cases "\<exists>d. data = Some d \<and> sz > 0")
    case True
    then obtain d where "data = Some d" "sz > 0" by blast
    with w2 show ?thesis by (intro that [of "take (unat sz) d"]) auto
  next
    case False
    with w2 show ?thesis by (intro that [of "[]"]) (auto split: option.splits if_splits)
  qed
  have body_in: "span (base + of_nat hdr_size) (length d) \<subseteq> span base (hdr_size + unat sz)"
    by (rule span_offset) (use d in simp)
  have hdr_in: "span base hdr_size \<subseteq> span base (hdr_size + unat sz)" by (rule span_mono) simp
  have apart: "span (base + of_nat hdr_size) (length d) \<inter> span base hdr_size = {}"
    using span_end_disjoint [of hdr_size "length d" base] d assms(2) by auto
  have r: "g_read hdr_size base g' = Inr (new_header ti)"
    using g_read_write_same [OF w1] g_read_write_other [OF w3 apart] by (simp add: hdr_size_def)
  show ?thesis
  proof
    show "\<forall>x \<in> span base hdr_size. g x = None" using fresh hdr_in by (auto simp: fresh_block_def)
    show "g_mapped g' base hdr_size" using g_read_mapped [OF r] by simp
    show "\<forall>x. g x \<noteq> None \<longrightarrow> g' x = g x"
    proof (intro allI impI)
      fix x assume "g x \<noteq> None"
      then have "x \<notin> span base (hdr_size + unat sz)" using fresh by (auto simp: fresh_block_def)
      then have "g' x = g2 x" "g2 x = g1 x" "g1 x = g x"
        using g_write_other [OF w3, of x] g_write_other [OF w1, of x] fresh body_in hdr_in
        by (auto simp: fresh_block_def)
      then show "g' x = g x" by simp
    qed
    show "hdr_member g' base HandleCount = Inr 0" "hdr_member g' base PointerCount = Inr 1"
      using g_get_field [OF r, of HandleCount 8, where 'a = 64]
        g_get_field [OF r, of PointerCount 8, where 'a = 64] new_header_counts [of ti]
      by (simp_all add: hdr_member_def hdr_defs)
  qed (use body m' in simp_all)
qed

lemma child_loop_set:
  "set (child_loop p names m) =
     set names \<union> ((\<lambda>s. first_component (drop (length p) s)) ` {s \<in> fst ` set m. starts_with s p} - {[]})"
  by (induction p names m rule: child_loop.induct) (auto simp: Let_def)

lemma child_loop_distinct: "distinct names \<Longrightarrow> distinct (child_loop p names m)"
  by (induction p names m rule: child_loop.induct) (auto simp: Let_def)

lemma child_names_children: "set (child_names p m) = children p (fst ` set (named m)) - {[]}"
  by (simp add: child_names_def child_loop_set children_alt)

end
