(* ===== verification/Obj_Handles.thy ===== *)
theory Obj_Handles
  imports Obj_Manager
begin

text \<open>
  Handles and their counts: in every reachable state of the processes, whatever the order of
  their critical sections, the \<open>HandleCount\<close> the guest reads in an object header is the number
  of handles open to the object, up to the counts still owed. Also what \<open>create_handle\<close>,
  \<open>close_handle\<close> and a directory enumeration return.
\<close>

section \<open>Counting handles\<close>

definition opens_in :: "addr \<Rightarrow> handle_table \<Rightarrow> nat" where
  "opens_in b t = length (filter (\<lambda>(h, e). body_addr e = b) (handles t))"

definition opens :: "addr \<Rightarrow> handle_table list \<Rightarrow> nat" where
  "opens b ts = sum_list (map (opens_in b) ts)"

lemma umap_set_fresh: "k \<notin> fst ` set m \<Longrightarrow> umap_set k v m = m @ [(k, v)]"
  unfolding umap_set_def by (induction m) auto

lemma umap_erase_filter: "umap_erase k m = filter (\<lambda>(j, v). j \<noteq> k) m"
  by (auto simp: umap_erase_def AList.delete_eq intro!: filter_cong)

lemma filter_erase_length:
  "distinct (map fst m) \<Longrightarrow> map_of m k = Some v \<Longrightarrow>
   length (filter P m) = length (filter P (filter (\<lambda>(j, v). j \<noteq> k) m)) + (if P (k, v) then 1 else 0)"
proof (induction m)
  case (Cons x m)
  obtain j w where x: "x = (j, w)" by (cases x)
  show ?case
  proof (cases "j = k")
    case True
    then have "k \<notin> fst ` set m" and "w = v" using Cons.prems x by auto
    then have "filter (\<lambda>(j, v). j \<noteq> k) m = m" by (force simp: filter_id_conv)
    with x True \<open>w = v\<close> show ?thesis by simp
  next
    case False
    with Cons x show ?thesis by auto
  qed
qed simp

lemma opens_in_insert:
  "next_handle t \<notin> fst ` set (handles t) \<Longrightarrow> insert_handle body acc t = (h, t') \<Longrightarrow>
   opens_in b t' = opens_in b t + (if b = body then 1 else 0)"
  by (auto simp: insert_handle_def alloc_handle_def opens_in_def umap_set_fresh)

lemma opens_in_take:
  assumes "umap_ok (handles t)" and "take_handle h t = Some (body, t')"
  shows "opens_in b t = opens_in b t' + (if b = body then 1 else 0)"
proof -
  obtain e where e: "map_of (handles t) h = Some e" "body = body_addr e"
    and t': "handles t' = filter (\<lambda>(j, v). j \<noteq> h) (handles t)"
    using assms(2) by (auto simp: take_handle_def umap_erase_filter umap_find_def split: option.splits)
  show ?thesis
    using filter_erase_length [OF _ e(1), of "\<lambda>(h, e). body_addr e = b"] assms(1) e(2) t'
    by (auto simp: opens_in_def umap_ok_def)
qed

lemma opens_update:
  "i < length ts \<Longrightarrow> opens b (ts[i := t]) + opens_in b (ts ! i) = opens b ts + opens_in b t"
proof (induction ts arbitrary: i)
  case (Cons x ts)
  then show ?case by (cases i) (auto simp: opens_def)
qed simp

section \<open>The invariant\<close>

definition tracked :: "obj_manager \<Rightarrow> addr \<Rightarrow> addr \<Rightarrow> bool" where
  "tracked m b h \<longleftrightarrow> h \<noteq> 0 \<and> (\<exists>e. umap_find b (objects m) = Some e \<and> header e = h)"

definition headers_ok :: "obj_manager \<Rightarrow> gmem \<Rightarrow> bool" where
  "headers_ok m g \<longleftrightarrow>
     (\<forall>b h. tracked m b h \<longrightarrow> b = h + of_nat hdr_size \<and> g_mapped g h hdr_size) \<and>
     (\<forall>b h b' h'. tracked m b h \<longrightarrow> tracked m b' h' \<longrightarrow> b \<noteq> b' \<longrightarrow>
        span h hdr_size \<inter> span h' hdr_size = {})"

definition table_ok :: "handle_table \<Rightarrow> bool" where
  "table_ok t \<longleftrightarrow>
     umap_ok (handles t) \<and> 0 < unat (next_handle t) \<and> 4 dvd unat (next_handle t) \<and>
     (\<forall>h \<in> fst ` set (handles t). 0 < unat h \<and> 4 dvd unat h \<and> unat h < unat (next_handle t))"

definition bodies_ok :: "obj_system \<Rightarrow> bool" where
  "bodies_ok s \<longleftrightarrow>
     (\<forall>t \<in> set (tables s). \<forall>e \<in> snd ` set (handles t). has_object (body_addr e) (mgr s)) \<and>
     (\<forall>b \<in> set (inc s) \<union> set (dec s). has_object b (mgr s))"

definition counts_ok :: "obj_system \<Rightarrow> bool" where
  "counts_ok s \<longleftrightarrow>
     (\<forall>b h. tracked (mgr s) b h \<longrightarrow>
        hdr_member (gmem s) h HandleCount =
          Inr (of_nat (opens b (tables s)) - of_nat (count_list (inc s) b)
               + of_nat (count_list (dec s) b)))"

definition obj_inv :: "obj_system \<Rightarrow> bool" where
  "obj_inv s \<longleftrightarrow>
     headers_ok (mgr s) (gmem s) \<and> (\<forall>t \<in> set (tables s). table_ok t) \<and> bodies_ok s \<and> counts_ok s"

lemma update_header_ok:
  assumes "update_header body member f m g = Inr g'" and "headers_ok m g"
    and "member + 8 \<le> hdr_size"
  shows "headers_ok m g'"
    and "tracked m body h \<Longrightarrow>
      \<exists>c. hdr_member g h member = Inr c \<and> hdr_member g' h member = Inr (f c)"
    and "tracked m b h \<Longrightarrow> other + 8 \<le> hdr_size \<Longrightarrow>
      b \<noteq> body \<or> other + 8 \<le> member \<or> member + 8 \<le> other \<Longrightarrow>
      hdr_member g' h other = hdr_member g h other"
proof -
  show "headers_ok m g'"
  proof (cases "\<exists>h. tracked m body h")
    case True
    then obtain e where "umap_find body (objects m) = Some e" "header e \<noteq> 0"
      by (auto simp: tracked_def)
    from update_header_tracked(4) [OF assms(1) this assms(3)] assms(2)
    show ?thesis by (simp add: headers_ok_def)
  next
    case False
    then have "g' = g" using update_header_untracked [of body m member f g] assms(1)
      by (auto simp: tracked_def)
    with assms(2) show ?thesis by simp
  qed
  show "\<exists>c. hdr_member g h member = Inr c \<and> hdr_member g' h member = Inr (f c)"
    if "tracked m body h"
    using that update_header_tracked(1) [OF assms(1) _ _ assms(3)] by (auto simp: tracked_def)
  show "hdr_member g' h other = hdr_member g h other"
    if t: "tracked m b h" and o: "other + 8 \<le> hdr_size"
      and ne: "b \<noteq> body \<or> other + 8 \<le> member \<or> member + 8 \<le> other"
  proof (cases "\<exists>h. tracked m body h")
    case True
    then obtain e where e: "umap_find body (objects m) = Some e" "header e \<noteq> 0"
      by (auto simp: tracked_def)
    show ?thesis
    proof (cases "b = body")
      case True
      with t e have "h = header e" by (auto simp: tracked_def)
      with update_header_tracked(2) [OF assms(1) e assms(3) o] ne True show ?thesis by simp
    next
      case False
      have "tracked m body (header e)" using e by (auto simp: tracked_def)
      then have "span h hdr_size \<inter> span (header e) hdr_size = {}"
        using assms(2) t False unfolding headers_ok_def by blast
      then show ?thesis
        by (intro hdr_member_other [OF _ o])
          (use update_header_tracked(3) [OF assms(1) e assms(3)] in blast)
    qed
  next
    case False
    then have "g' = g" using update_header_untracked [of body m member f g] assms(1)
      by (auto simp: tracked_def)
    then show ?thesis by simp
  qed
qed

lemma hdr_room: "PointerCount + 8 \<le> hdr_size" "HandleCount + 8 \<le> hdr_size"
  and hdr_apart: "HandleCount + 8 \<le> PointerCount \<or> PointerCount + 8 \<le> HandleCount"
  by (simp_all add: hdr_defs)

lemma has_object_tracked: "tracked m b h \<Longrightarrow> has_object b m"
  by (auto simp: tracked_def has_object_def)

text \<open>An object no handle names has no handle open and none owed.\<close>

lemma opens_none:
  assumes "bodies_ok s" and "\<not> has_object b (mgr s)"
  shows "opens b (tables s) = 0" and "count_list (inc s) b = 0" and "count_list (dec s) b = 0"
proof -
  have "opens_in b t = 0" if "t \<in> set (tables s)" for t
  proof -
    have "\<forall>x \<in> set (handles t). body_addr (snd x) \<noteq> b"
      using assms that unfolding bodies_ok_def by force
    then show ?thesis by (auto simp: opens_in_def filter_empty_conv)
  qed
  then show "opens b (tables s) = 0" by (simp add: opens_def)
  show "count_list (inc s) b = 0" "count_list (dec s) b = 0"
    using assms by (auto simp: bodies_ok_def count_list_0_iff)
qed

section \<open>Every step keeps it\<close>

lemma inv_create:
  assumes inv: "obj_inv s" and "hdr_size + unat sz < 2 ^ 64" and "\<not> has_object body (mgr s)"
    and "create_object alloc ti data sz hst prot (mgr s, gmem s) = Inr (body, m', g')"
    and "\<And>base g1. alloc (of_nat hdr_size + sz) prot (gmem s) = Inr (base, g1) \<Longrightarrow>
       fresh_block (gmem s) base (hdr_size + unat sz) g1"
  shows "obj_inv (s\<lparr>mgr := m', gmem := g'\<rparr>)"
proof -
  obtain base where b: "body = base + of_nat hdr_size"
    and m': "m' = (mgr s)\<lparr>objects := umap_set body \<lparr>header = base, host = hst\<rparr> (objects (mgr s))\<rparr>"
    and fresh: "\<forall>x \<in> span base hdr_size. gmem s x = None" and mapped: "g_mapped g' base hdr_size"
    and same: "\<forall>x. gmem s x \<noteq> None \<longrightarrow> g' x = gmem s x"
    and zero: "hdr_member g' base HandleCount = Inr 0"
    using create_object_cases [OF assms(4,2,5)] by metis
  have tr: "tracked m' x h \<longleftrightarrow> (if x = body then h \<noteq> 0 \<and> h = base else tracked (mgr s) x h)" for x h
    by (auto simp: tracked_def m')
  have old: "tracked (mgr s) x h \<Longrightarrow> g_mapped (gmem s) h hdr_size \<and> x = h + of_nat hdr_size" for x h
    using inv by (auto simp: obj_inv_def headers_ok_def)
  have keep: "g' y = gmem s y \<and> y \<notin> span base hdr_size"
    if "tracked (mgr s) x h" "y \<in> span h hdr_size" for x h y
    using old [OF that(1)] that(2) same fresh unfolding g_mapped_def by metis
  have has: "has_object x (mgr s) \<Longrightarrow> has_object x m'" for x by (auto simp: has_object_def m')
  have "headers_ok m' g'"
    unfolding headers_ok_def
  proof (intro conjI allI impI)
    fix x h assume t: "tracked m' x h"
    show "x = h + of_nat hdr_size" using t old b by (auto simp: tr split: if_splits)
    show "g_mapped g' h hdr_size"
    proof (cases "x = body")
      case True
      with t mapped show ?thesis by (simp add: tr)
    next
      case False
      with t have "tracked (mgr s) x h" by (simp add: tr)
      with keep old show ?thesis unfolding g_mapped_def by metis
    qed
  next
    fix x h x' h' assume "tracked m' x h" "tracked m' x' h'" "x \<noteq> x'"
    moreover have "tracked (mgr s) x h \<Longrightarrow> tracked (mgr s) x' h' \<Longrightarrow>
        span h hdr_size \<inter> span h' hdr_size = {}"
      using inv \<open>x \<noteq> x'\<close> unfolding obj_inv_def headers_ok_def by blast
    ultimately show "span h hdr_size \<inter> span h' hdr_size = {}"
      using keep by (auto simp: tr split: if_splits)
  qed
  moreover have "counts_ok (s\<lparr>mgr := m', gmem := g'\<rparr>)"
  proof -
    have "hdr_member g' h HandleCount = hdr_member (gmem s) h HandleCount"
      if "tracked (mgr s) x h" for x h
      by (rule hdr_member_other [OF _ hdr_room(2)]) (use keep that in blast)
    then show ?thesis
      using inv opens_none [of s body] assms(3) zero
      by (auto simp: counts_ok_def obj_inv_def tr split: if_splits)
  qed
  ultimately show ?thesis
    using inv has by (auto simp: obj_inv_def bodies_ok_def)
qed

lemma inv_same_objects:
  assumes "obj_inv s" and "\<And>x h. tracked m' x h \<Longrightarrow> tracked (mgr s) x h"
    and "\<And>x. has_object x (mgr s) \<Longrightarrow> has_object x m'"
  shows "obj_inv (s\<lparr>mgr := m'\<rparr>)"
  using assms unfolding obj_inv_def headers_ok_def bodies_ok_def counts_ok_def by simp blast

lemma inv_header:
  assumes inv: "obj_inv s" and u: "update_header body HandleCount f (mgr s) (gmem s) = Inr g'"
    and "headers_ok (mgr s) g' \<Longrightarrow> bodies_ok (s\<lparr>gmem := g', inc := i', dec := d'\<rparr>)"
    and owed: "\<And>b. b \<noteq> body \<Longrightarrow> count_list i' b = count_list (inc s) b \<and> count_list d' b = count_list (dec s) b"
    and moved: "\<And>n. f (n - of_nat (count_list (inc s) body) + of_nat (count_list (dec s) body)) =
      n - of_nat (count_list i' body) + of_nat (count_list d' body)"
  shows "obj_inv (s\<lparr>gmem := g', inc := i', dec := d'\<rparr>)"
proof -
  have ok: "headers_ok (mgr s) (gmem s)" using inv by (simp add: obj_inv_def)
  note upd = update_header_ok [OF u ok hdr_room(2)]
  have "counts_ok (s\<lparr>gmem := g', inc := i', dec := d'\<rparr>)"
    unfolding counts_ok_def
  proof (intro allI impI)
    fix b h assume "tracked (mgr (s\<lparr>gmem := g', inc := i', dec := d'\<rparr>)) b h"
    then have t: "tracked (mgr s) b h" by simp
    have old: "hdr_member (gmem s) h HandleCount =
        Inr (of_nat (opens b (tables s)) - of_nat (count_list (inc s) b)
             + of_nat (count_list (dec s) b))"
      using inv t by (simp add: obj_inv_def counts_ok_def)
    show "hdr_member (gmem (s\<lparr>gmem := g', inc := i', dec := d'\<rparr>)) h HandleCount =
        Inr (of_nat (opens b (tables (s\<lparr>gmem := g', inc := i', dec := d'\<rparr>)))
             - of_nat (count_list (inc (s\<lparr>gmem := g', inc := i', dec := d'\<rparr>)) b)
             + of_nat (count_list (dec (s\<lparr>gmem := g', inc := i', dec := d'\<rparr>)) b))"
    proof (cases "b = body")
      case True
      with upd(2) [of h] t old moved [of "of_nat (opens b (tables s))"] show ?thesis by auto
    next
      case False
      with upd(3) [OF t hdr_room(2)] old owed [OF False] show ?thesis by simp
    qed
  qed
  with inv upd(1) assms(3) show ?thesis by (simp add: obj_inv_def)
qed

lemma inv_pointer:
  assumes inv: "obj_inv s" and u: "update_header body PointerCount f (mgr s) (gmem s) = Inr g'"
  shows "obj_inv (s\<lparr>gmem := g'\<rparr>)"
proof -
  have ok: "headers_ok (mgr s) (gmem s)" using inv by (simp add: obj_inv_def)
  note upd = update_header_ok [OF u ok hdr_room(1)]
  have "hdr_member g' h HandleCount = hdr_member (gmem s) h HandleCount" if "tracked (mgr s) b h" for b h
    by (rule upd(3) [OF that hdr_room(2)]) (use hdr_apart in blast)
  with inv upd(1) show ?thesis
    by (auto simp: obj_inv_def counts_ok_def bodies_ok_def)
qed

lemma table_fresh: "table_ok t \<Longrightarrow> next_handle t \<notin> fst ` set (handles t)"
  by (auto simp: table_ok_def)

lemma table_ok_insert:
  assumes "table_ok t" and "unat (next_handle t) + 4 < 2 ^ 64"
    and "insert_handle body acc t = (h, t')"
  shows "table_ok t'" and "h = next_handle t"
    and "set (handles t') = insert (h, \<lparr>body_addr = body, access = acc\<rparr>) (set (handles t))"
proof -
  have u: "unat (next_handle t + 4) = unat (next_handle t) + 4"
    using unat_add_no_overflow [of "next_handle t" 4] assms(2) by simp
  show h: "h = next_handle t"
    using assms(3) by (auto simp: insert_handle_def alloc_handle_def)
  have t': "t' = t\<lparr>next_handle := next_handle t + 4,
      handles := handles t @ [(h, \<lparr>body_addr = body, access = acc\<rparr>)]\<rparr>"
    using assms(3) table_fresh [OF assms(1)]
    by (auto simp: insert_handle_def alloc_handle_def umap_set_fresh)
  show "table_ok t'"
    using assms(1) table_fresh [OF assms(1)] u h by (auto simp: table_ok_def t' umap_ok_def)
  show "set (handles t') = insert (h, \<lparr>body_addr = body, access = acc\<rparr>) (set (handles t))"
    by (auto simp: t')
qed

lemma table_ok_take:
  assumes "table_ok t" and "take_handle h t = Some (body, t')"
  shows "table_ok t'" and "set (handles t') \<subseteq> set (handles t)"
    and "\<exists>e. (h, e) \<in> set (handles t) \<and> body = body_addr e"
proof -
  obtain e where e: "(h, e) \<in> set (handles t)" "body = body_addr e"
    and t': "t' = t\<lparr>handles := filter (\<lambda>(j, v). j \<noteq> h) (handles t)\<rparr>"
    using assms(2)
    by (auto simp: take_handle_def umap_erase_filter umap_find_def split: option.splits
        dest: map_of_SomeD)
  then show "set (handles t') \<subseteq> set (handles t)"
    and "\<exists>e. (h, e) \<in> set (handles t) \<and> body = body_addr e" by auto
  show "table_ok t'"
    using assms(1) unfolding table_ok_def umap_ok_def
    by (auto simp: t' distinct_map_filter dest!: bspec)
qed

lemma ball_list_update: "\<forall>t \<in> set ts. P t \<Longrightarrow> P t' \<Longrightarrow> \<forall>t \<in> set (ts[i := t']). P t"
  using set_update_subset_insert [of ts i t'] by auto

lemma inv_open:
  assumes inv: "obj_inv s" and i: "i < length (tables s)" and has: "has_object body (mgr s)"
    and room: "unat (next_handle (tables s ! i)) + 4 < 2 ^ 64"
    and ins: "insert_handle body acc (tables s ! i) = (h, t')"
  shows "obj_inv (s\<lparr>tables := (tables s)[i := t'], inc := body # inc s\<rparr>)"
proof -
  let ?t = "tables s ! i"
  have ok: "table_ok ?t" using inv i by (auto simp: obj_inv_def)
  note t' = table_ok_insert [OF ok room ins]
  have op: "opens b ((tables s)[i := t']) = opens b (tables s) + (if b = body then 1 else 0)" for b
    using opens_update [OF i, of b t'] opens_in_insert [OF table_fresh [OF ok] ins, of b] by simp
  have "\<forall>t \<in> set ((tables s)[i := t']). table_ok t"
    by (rule ball_list_update) (use inv t'(1) in \<open>auto simp: obj_inv_def\<close>)
  moreover have old: "\<forall>t \<in> set (tables s). \<forall>e \<in> snd ` set (handles t). has_object (body_addr e) (mgr s)"
    using inv by (simp add: obj_inv_def bodies_ok_def)
  have "\<forall>e \<in> snd ` set (handles t'). has_object (body_addr e) (mgr s)"
    unfolding t'(3) using bspec [OF old nth_mem [OF i]] has by auto
  then have "\<forall>t \<in> set ((tables s)[i := t']). \<forall>e \<in> snd ` set (handles t).
      has_object (body_addr e) (mgr s)"
    by (rule ball_list_update [OF old])
  ultimately show ?thesis
    using inv has by (auto simp: obj_inv_def bodies_ok_def counts_ok_def op algebra_simps)
qed

lemma inv_close:
  assumes inv: "obj_inv s" and i: "i < length (tables s)"
    and tk: "take_handle h (tables s ! i) = Some (body, t')"
  shows "obj_inv (s\<lparr>tables := (tables s)[i := t'], dec := body # dec s\<rparr>)"
proof -
  let ?t = "tables s ! i"
  have ok: "table_ok ?t" using inv i by (auto simp: obj_inv_def)
  note t' = table_ok_take [OF ok tk]
  have op: "opens b (tables s) = opens b ((tables s)[i := t']) + (if b = body then 1 else 0)" for b
    using opens_update [OF i, of b t'] opens_in_take [OF _ tk, of b] ok by (simp add: table_ok_def)
  have has: "has_object body (mgr s)"
    using inv t'(3) nth_mem [OF i] unfolding obj_inv_def bodies_ok_def by force
  have "\<forall>t \<in> set ((tables s)[i := t']). table_ok t"
    by (rule ball_list_update) (use inv t'(1) in \<open>auto simp: obj_inv_def\<close>)
  moreover have old: "\<forall>t \<in> set (tables s). \<forall>e \<in> snd ` set (handles t). has_object (body_addr e) (mgr s)"
    using inv by (simp add: obj_inv_def bodies_ok_def)
  have "\<forall>e \<in> snd ` set (handles t'). has_object (body_addr e) (mgr s)"
    using bspec [OF old nth_mem [OF i]] t'(2) by blast
  then have "\<forall>t \<in> set ((tables s)[i := t']). \<forall>e \<in> snd ` set (handles t).
      has_object (body_addr e) (mgr s)"
    by (rule ball_list_update [OF old])
  moreover have "counts_ok (s\<lparr>tables := (tables s)[i := t'], dec := body # dec s\<rparr>)"
    using inv op by (auto simp: obj_inv_def counts_ok_def)
  ultimately show ?thesis
    using inv has by (auto simp: obj_inv_def bodies_ok_def)
qed

lemma inv_guest:
  assumes inv: "obj_inv s" and same: "\<And>x. x \<in> header_spans (mgr s) \<Longrightarrow> g' x = gmem s x"
  shows "obj_inv (s\<lparr>gmem := g'\<rparr>)"
proof -
  have keep: "g' x = gmem s x" if t: "tracked (mgr s) b h" and x: "x \<in> span h hdr_size" for b h x
  proof -
    obtain e where "(b, e) \<in> set (objects (mgr s))" "header e = h" "h \<noteq> 0"
      using t by (auto simp: tracked_def umap_find_def dest: map_of_SomeD)
    with x have "x \<in> header_spans (mgr s)" unfolding header_spans_def by force
    then show ?thesis by (rule same)
  qed
  have "headers_ok (mgr s) g'"
    using inv keep unfolding obj_inv_def headers_ok_def g_mapped_def by metis
  moreover have "hdr_member g' h HandleCount = hdr_member (gmem s) h HandleCount"
    if "tracked (mgr s) b h" for b h
    by (rule hdr_member_other [OF _ hdr_room(2)]) (use keep that in blast)
  ultimately show ?thesis
    using inv by (auto simp: obj_inv_def counts_ok_def bodies_ok_def)
qed

lemma obj_step_inv: "obj_step s s' \<Longrightarrow> obj_inv s \<Longrightarrow> obj_inv s'"
proof (induction rule: obj_step.induct)
  case (create alloc ti data sz hst prot s body m' g')
  then show ?case by (intro inv_create)
next
  case (register s body hst)
  show ?case
    by (rule inv_same_objects [OF register])
      (auto simp: register_object_def tracked_def has_object_def split: if_splits)
next
  case (register_name s name body)
  show ?case
    by (rule inv_same_objects [OF register_name])
      (auto simp: register_named_object_def tracked_def has_object_def split: if_splits)
next
  case (unregister_name s name)
  show ?case
    by (rule inv_same_objects [OF unregister_name])
      (auto simp: unregister_named_object_def tracked_def has_object_def split: option.splits)
next
  case (new_id s i m')
  show ?case
    by (rule inv_same_objects [OF new_id(2)])
      (use new_id(1) in \<open>auto simp: allocate_id_def tracked_def has_object_def\<close>)
next
  case (count_open body s g')
  have "obj_inv (s\<lparr>gmem := g', inc := remove1 body (inc s), dec := dec s\<rparr>)"
  proof (rule inv_header)
    have "0 < count_list (inc s) body" using count_open(1) count_list_0_iff [of "inc s" body] by auto
    then show "n - of_nat (count_list (inc s) body) + of_nat (count_list (dec s) body) + 1 =
        n - of_nat (count_list (remove1 body (inc s)) body) + of_nat (count_list (dec s) body)"
      for n :: u64 by simp
  qed (use count_open in
      \<open>auto simp: increment_handle_count_def obj_inv_def bodies_ok_def dest: set_remove1_subset [THEN subsetD]\<close>)
  then show ?case by simp
next
  case (count_close body s g')
  have "obj_inv (s\<lparr>gmem := g', inc := inc s, dec := remove1 body (dec s)\<rparr>)"
  proof (rule inv_header)
    have "0 < count_list (dec s) body" using count_close(1) count_list_0_iff [of "dec s" body] by auto
    then show "n - of_nat (count_list (inc s) body) + of_nat (count_list (dec s) body) - 1 =
        n - of_nat (count_list (inc s) body) + of_nat (count_list (remove1 body (dec s)) body)"
      for n :: u64 by simp
  qed (use count_close in
      \<open>auto simp: decrement_handle_count_def obj_inv_def bodies_ok_def dest: set_remove1_subset [THEN subsetD]\<close>)
  then show ?case by simp
next
  case (new_process s)
  then show ?case
    by (auto simp: obj_inv_def counts_ok_def bodies_ok_def opens_def opens_in_def new_handle_table_def
        table_ok_def umap_ok_def)
qed (auto simp: reference_object_def dereference_object_def intro: inv_pointer inv_open inv_close inv_guest)

lemma obj_reach_inv: "obj_reach s \<Longrightarrow> obj_inv s"
proof (induction rule: obj_reach.induct)
  case (boot g)
  show ?case
    by (simp add: obj_inv_def headers_ok_def bodies_ok_def counts_ok_def tracked_def new_obj_manager_def)
next
  case (step s s')
  then show ?case by (blast intro: obj_step_inv)
qed

section \<open>A small system, for the witnesses\<close>

definition demo_alloc :: "addr \<Rightarrow> u64 \<Rightarrow> u64 \<Rightarrow> gmem \<Rightarrow> emu_error + addr \<times> gmem" where
  "demo_alloc at sz prot g = Inr (at, \<lambda>x. if unat (x - at) < unat sz then Some 0 else g x)"

lemma demo_alloc_fresh:
  "demo_alloc at sz prot (\<lambda>x. None) = Inr (base, g1) \<Longrightarrow>
   fresh_block (\<lambda>x. None) base (unat sz) g1"
  using unat_lt64 [of sz]
  by (auto simp: demo_alloc_def fresh_block_def g_mapped_def span_iff)

definition demo_object :: "addr \<times> obj_manager \<times> gmem" where
  "demo_object = projr (create_object (demo_alloc 0x10000) 3 None 8 (Some (Directory_host ''d''))
     11 (new_obj_manager, \<lambda>x. None))"

definition demo_opened :: obj_system where
  "demo_opened =
     \<lparr>mgr = fst (snd demo_object), tables = [snd (insert_handle (fst demo_object) 1 new_handle_table)],
      gmem = projr (increment_handle_count (fst demo_object) (fst (snd demo_object)) (snd (snd demo_object))),
      inc = [], dec = []\<rparr>"

lemma demo_created:
  obtains g where "create_object (demo_alloc 0x10000) 3 None 8 (Some (Directory_host ''d'')) 11
      (new_obj_manager, \<lambda>x. None) = Inr demo_object"
    and "demo_object = (0x10038, new_obj_manager\<lparr>objects :=
      [(0x10038, \<lparr>header = 0x10000, host = Some (Directory_host ''d'')\<rparr>)]\<rparr>, g)"
    and "g_mapped g 0x10000 hdr_size"
proof -
  let ?g0 = "\<lambda>x :: addr. if unat (x - 0x10000) < unat (0x40 :: u64) then Some (0 :: u8) else None"
  have mapped: "g_mapped ?g0 0x10000 hdr_size"
    by (auto simp: g_mapped_def span_iff hdr_size_def)
  obtain g where w: "g_write 0x10000 (new_header 3) ?g0 = Inr g"
    using g_write_total [of ?g0 "0x10000" "new_header 3"] mapped by auto
  have c: "create_object (demo_alloc 0x10000) 3 None 8 (Some (Directory_host ''d'')) 11
      (new_obj_manager, \<lambda>x. None) =
    Inr (0x10038, new_obj_manager\<lparr>objects :=
      [(0x10038, \<lparr>header = 0x10000, host = Some (Directory_host ''d'')\<rparr>)]\<rparr>, g)"
    using w by (simp add: create_object_def demo_alloc_def hdr_size_def umap_set_def new_obj_manager_def)
  moreover have "g_mapped g 0x10000 hdr_size"
    using g_write_mapped [OF w] mapped by simp
  ultimately show ?thesis by (intro that [of g]) (simp_all add: demo_object_def)
qed

lemma demo_facts:
  "has_object (fst demo_object) (fst (snd demo_object))"
  "fst demo_object = 0x10038"
  "umap_find (fst demo_object) (objects (fst (snd demo_object))) =
     Some \<lparr>header = 0x10000, host = Some (Directory_host ''d'')\<rparr>"
  "increment_handle_count (fst demo_object) (fst (snd demo_object)) (snd (snd demo_object)) =
     Inr (gmem demo_opened)"
proof -
  obtain g where o: "demo_object = (0x10038, new_obj_manager\<lparr>objects :=
      [(0x10038, \<lparr>header = 0x10000, host = Some (Directory_host ''d'')\<rparr>)]\<rparr>, g)"
    and mapped: "g_mapped g 0x10000 hdr_size" by (rule demo_created)
  show "has_object (fst demo_object) (fst (snd demo_object))" "fst demo_object = 0x10038"
    and found: "umap_find (fst demo_object) (objects (fst (snd demo_object))) =
     Some \<lparr>header = 0x10000, host = Some (Directory_host ''d'')\<rparr>"
    by (simp_all add: o has_object_def umap_find_def)
  have "g_mapped (snd (snd demo_object)) 0x10000 hdr_size" using mapped by (simp add: o)
  then obtain g' where "increment_handle_count (fst demo_object) (fst (snd demo_object))
      (snd (snd demo_object)) = Inr g'"
    using update_header_total [OF found _ hdr_room(2), of "snd (snd demo_object)" "\<lambda>c. c + 1"]
    by (auto simp: increment_handle_count_def)
  then show "increment_handle_count (fst demo_object) (fst (snd demo_object)) (snd (snd demo_object)) =
     Inr (gmem demo_opened)"
    by (simp add: demo_opened_def)
qed

lemma demo_reach: "obj_reach demo_opened"
proof -
  obtain g where c: "create_object (demo_alloc 0x10000) 3 None 8 (Some (Directory_host ''d'')) 11
      (new_obj_manager, \<lambda>x. None) = Inr demo_object" by (rule demo_created)
  obtain body m g where o: "demo_object = (body, m, g)" by (cases demo_object)
  let ?s0 = "\<lparr>mgr = new_obj_manager, tables = [], gmem = \<lambda>x. None, inc = [], dec = []\<rparr>"
  let ?s1 = "?s0\<lparr>mgr := m, gmem := g\<rparr>"
  let ?s2 = "?s1\<lparr>tables := tables ?s1 @ [new_handle_table]\<rparr>"
  let ?t = "snd (insert_handle body 1 new_handle_table)"
  let ?s3 = "?s2\<lparr>tables := (tables ?s2)[0 := ?t], inc := body # inc ?s2\<rparr>"
  have "obj_reach ?s0" by (rule obj_reach.boot)
  moreover have "obj_step ?s0 ?s1"
  proof (rule obj_step.create)
    show "create_object (demo_alloc 0x10000) 3 None 8 (Some (Directory_host ''d'')) 11
      (mgr ?s0, gmem ?s0) = Inr (body, m, g)" using c o by simp
    show "fresh_block (gmem ?s0) base (hdr_size + unat (8 :: u64)) g1"
      if "demo_alloc 0x10000 (of_nat hdr_size + 8) 11 (gmem ?s0) = Inr (base, g1)" for base g1
      using demo_alloc_fresh [of "0x10000" "of_nat hdr_size + 8" 11 base g1] that
      by (simp add: hdr_size_def)
  qed (simp_all add: hdr_size_def has_object_def new_obj_manager_def)
  moreover have "obj_step ?s1 ?s2" by (rule obj_step.new_process)
  moreover have "obj_step ?s2 ?s3"
    by (rule obj_step.open_handle [where h = "fst (insert_handle body 1 new_handle_table)" and acc = 1])
      (use demo_facts(1) in \<open>auto simp: new_handle_table_def o\<close>)
  moreover have "obj_step ?s3 (?s3\<lparr>gmem := gmem demo_opened, inc := remove1 body (inc ?s3)\<rparr>)"
    by (rule obj_step.count_open) (use demo_facts(4) in \<open>auto simp: demo_opened_def o\<close>)
  moreover have "?s3\<lparr>gmem := gmem demo_opened, inc := remove1 body (inc ?s3)\<rparr> = demo_opened"
    by (simp add: demo_opened_def o)
  ultimately show ?thesis by (metis obj_reach.step)
qed

section \<open>Properties\<close>



text \<open>The count moves by \<open>f\<close> at the object and stays as it is at every other one.\<close>

lemma handle_count_update:
  assumes "headers_ok m g" and "has_object body m"
  obtains g' where "update_header body HandleCount f m g = Inr g'" and "headers_ok m g'"
    and "\<forall>b h. tracked m b h \<longrightarrow> hdr_member g' h HandleCount =
      map_sum id (if b = body then f else id) (hdr_member g h HandleCount)"
proof -
  obtain e where e: "umap_find body (objects m) = Some e" using assms(2) by (auto simp: has_object_def)
  obtain g' where u: "update_header body HandleCount f m g = Inr g'"
  proof (cases "header e = 0")
    case True
    with e show ?thesis by (intro that [of g]) (simp add: update_header_def)
  next
    case False
    with e have "tracked m body (header e)" by (simp add: tracked_def)
    with assms(1) have "g_mapped g (header e) hdr_size" by (simp add: headers_ok_def)
    with update_header_total [OF e _ hdr_room(2)] that show ?thesis by blast
  qed
  note upd = update_header_ok [OF u assms(1) hdr_room(2)]
  have "hdr_member g' h HandleCount =
      map_sum id (if b = body then f else id) (hdr_member g h HandleCount)"
    if t: "tracked m b h" for b h
  proof (cases "b = body")
    case True
    with upd(2) [of h] t show ?thesis by auto
  next
    case False
    with upd(3) [OF t hdr_room(2)] show ?thesis by (simp add: sum.map_id0)
  qed
  with u upd(1) that show ?thesis by blast
qed

text \<open>
  C25: A handle to a registered object is new and not zero, looks up to the object and the
  access it was made with and leaves every other handle as it was. Closing it succeeds once
  and puts the table and every handle count back; closing it again is refused. An object that
  was never registered gets the handle zero and changes nothing.
\<close>

theorem handle_round_trip:
  assumes "headers_ok m g" and "table_ok t" and "unat (next_handle t) + 4 < 2 ^ 64"
  shows "(\<not> has_object body m \<longrightarrow> create_handle body acc m (t, g) = Inr (0, t, g)) \<and>
    (has_object body m \<longrightarrow> (\<exists>h t' g' t'' g''.
       create_handle body acc m (t, g) = Inr (h, t', g') \<and> h \<noteq> 0 \<and> lookup_handle h t = None \<and>
       (\<forall>k. lookup_handle k t' =
          (if k = h then Some \<lparr>body_addr = body, access = acc\<rparr> else lookup_handle k t)) \<and>
       close_handle h m (t', g') = Inr (True, t'', g'') \<and>
       (\<forall>k. lookup_handle k t'' = lookup_handle k t) \<and>
       close_handle h m (t'', g'') = Inr (False, t'', g'') \<and>
       (\<forall>b hdr. tracked m b hdr \<longrightarrow>
          hdr_member g' hdr HandleCount =
            map_sum id (\<lambda>c. if b = body then c + 1 else c) (hdr_member g hdr HandleCount) \<and>
          hdr_member g'' hdr HandleCount = hdr_member g hdr HandleCount)))"
proof (intro conjI impI)
  show "create_handle body acc m (t, g) = Inr (0, t, g)" if "\<not> has_object body m"
    using that by (simp add: create_handle_def)
next
  assume has: "has_object body m"
  obtain h t' where ins: "insert_handle body acc t = (h, t')" by fastforce
  note t' = table_ok_insert [OF assms(2,3) ins]
  have fresh: "lookup_handle h t = None" and h0: "h \<noteq> 0"
    using table_fresh [OF assms(2)] t'(2) assms(2)
    by (auto simp: lookup_handle_def umap_find_def map_of_eq_None_iff table_ok_def)
  have look: "lookup_handle k t' =
      (if k = h then Some \<lparr>body_addr = body, access = acc\<rparr> else lookup_handle k t)" for k
    using ins by (auto simp: insert_handle_def alloc_handle_def lookup_handle_def)
  define t'' where "t'' = t'\<lparr>handles := umap_erase h (handles t')\<rparr>"
  have tk: "take_handle h t' = Some (body, t'')"
    using look [of h] by (simp add: take_handle_def lookup_handle_def t''_def)
  have look': "lookup_handle k t'' = lookup_handle k t" for k
    using look [of k] fresh by (auto simp: lookup_handle_def t''_def)
  obtain g' where g': "update_header body HandleCount (\<lambda>c. c + 1) m g = Inr g'" "headers_ok m g'"
    and c': "\<forall>b h. tracked m b h \<longrightarrow> hdr_member g' h HandleCount =
      map_sum id (if b = body then (\<lambda>c. c + 1) else id) (hdr_member g h HandleCount)"
    by (rule handle_count_update [OF assms(1) has])
  obtain g'' where g'': "update_header body HandleCount (\<lambda>c. c - 1) m g' = Inr g''"
    and c'': "\<forall>b h. tracked m b h \<longrightarrow> hdr_member g'' h HandleCount =
      map_sum id (if b = body then (\<lambda>c. c - 1) else id) (hdr_member g' h HandleCount)"
    by (rule handle_count_update [OF g'(2) has])
  have restored: "hdr_member g' hdr HandleCount =
        map_sum id (\<lambda>c. if b = body then c + 1 else c) (hdr_member g hdr HandleCount) \<and>
      hdr_member g'' hdr HandleCount = hdr_member g hdr HandleCount" if "tracked m b hdr" for b hdr
    using c' [rule_format, OF that] c'' [rule_format, OF that]
    by (cases "hdr_member g hdr HandleCount") auto
  show "\<exists>h t' g' t'' g''. create_handle body acc m (t, g) = Inr (h, t', g') \<and> h \<noteq> 0 \<and>
      lookup_handle h t = None \<and>
      (\<forall>k. lookup_handle k t' =
         (if k = h then Some \<lparr>body_addr = body, access = acc\<rparr> else lookup_handle k t)) \<and>
      close_handle h m (t', g') = Inr (True, t'', g'') \<and>
      (\<forall>k. lookup_handle k t'' = lookup_handle k t) \<and>
      close_handle h m (t'', g'') = Inr (False, t'', g'') \<and>
      (\<forall>b hdr. tracked m b hdr \<longrightarrow>
         hdr_member g' hdr HandleCount =
           map_sum id (\<lambda>c. if b = body then c + 1 else c) (hdr_member g hdr HandleCount) \<and>
         hdr_member g'' hdr HandleCount = hdr_member g hdr HandleCount)"
  proof (intro exI conjI allI impI)
    show "create_handle body acc m (t, g) = Inr (h, t', g')"
      using has ins g'(1) by (simp add: create_handle_def increment_handle_count_def)
    show "close_handle h m (t', g') = Inr (True, t'', g'')"
      using tk g'' by (simp add: close_handle_def decrement_handle_count_def)
    show "close_handle h m (t'', g'') = Inr (False, t'', g'')"
      using look' [of h] fresh by (simp add: close_handle_def take_handle_def lookup_handle_def)
  qed (use h0 fresh look look' restored in blast)+
qed

theorem handle_round_trip_witness:
  "\<exists>h t' g'. create_handle 0x10038 7 (mgr demo_opened) (new_handle_table, gmem demo_opened)
      = Inr (h, t', g') \<and> h \<noteq> 0 \<and> lookup_handle h t' = Some \<lparr>body_addr = 0x10038, access = 7\<rparr>"
proof -
  have "headers_ok (mgr demo_opened) (gmem demo_opened)"
    using obj_reach_inv [OF demo_reach] by (simp add: obj_inv_def)
  moreover have "table_ok new_handle_table"
    by (simp add: table_ok_def new_handle_table_def umap_ok_def)
  moreover have "has_object 0x10038 (mgr demo_opened)"
    using demo_facts(1,2) by (simp add: demo_opened_def)
  ultimately show ?thesis
    using handle_round_trip [of "mgr demo_opened" "gmem demo_opened" new_handle_table "0x10038" 7]
    by (auto simp: new_handle_table_def)
qed

text \<open>
  Enumerating a directory of the object namespace gives, in ascending order and each once,
  exactly the non-empty components that follow the prefix in some registered name, whatever
  order the names are kept in.
\<close>

theorem child_names_correct:
  "child_names p m = sorted_list_of_set (children p (fst ` set (named m)) - {[]})"
proof -
  have "distinct (child_loop p [] (named m))" by (rule child_loop_distinct) simp
  then have "child_names p m = sorted_list_of_set (set (child_loop p [] (named m)))"
    by (simp add: child_names_def sorted_list_of_set_sort_remdups distinct_remdups_id)
  with child_names_children [of p m] show ?thesis by (simp add: child_names_def)
qed

end
