(* ===== verification/Registry.thy ===== *)
theory Registry
  imports Names
begin

text \<open>
  \<open>kernel/win/registry\<close>: keys by their normalised path and the values of a key. A
  \<open>shared_ptr<win_registry_key>\<close> is an index into the key objects made so far, which only
  grow, so that a handle to a deleted key keeps working on the object it holds.
\<close>

section \<open>Values of a key\<close>

definition reg_sz :: u32 where "reg_sz = 1"
definition reg_binary :: u32 where "reg_binary = 3"
definition reg_dword :: u32 where "reg_dword = 4"
definition reg_qword :: u32 where "reg_qword = 11"

record registry_value =
  rv_type :: u32
  rv_data :: "u8 list"

type_synonym registry_key = "(string \<times> registry_value) list"

text \<open>
  \<open>vector::resize\<close> keeps a prefix and fills with zeros; \<open>None\<close> is a null data pointer, which
  copies nothing.
\<close>

definition vec_resize :: "nat \<Rightarrow> u8 list \<Rightarrow> u8 list" where
  "vec_resize n bs = take n bs @ replicate (n - length bs) 0"

definition set_value :: "string \<Rightarrow> u32 \<Rightarrow> u8 list option \<Rightarrow> nat \<Rightarrow> registry_key \<Rightarrow> registry_key" where
  "set_value name ty data sz k =
     (let old = (case umap_find name k of Some v \<Rightarrow> rv_data v | None \<Rightarrow> []);
          bytes = (case data of
                     Some d \<Rightarrow> if sz > 0 then take sz d else vec_resize sz old
                   | None \<Rightarrow> vec_resize sz old)
      in umap_set name \<lparr>rv_type = ty, rv_data = bytes\<rparr> k)"

definition set_value_span :: "string \<Rightarrow> u32 \<Rightarrow> u8 list \<Rightarrow> registry_key \<Rightarrow> registry_key" where
  "set_value_span name ty data k = set_value name ty (Some data) (length data) k"

definition query_value :: "string \<Rightarrow> registry_key \<Rightarrow> registry_value option" where
  "query_value name k = umap_find name k"

definition delete_value :: "string \<Rightarrow> registry_key \<Rightarrow> bool \<times> registry_key" where
  "delete_value name k = (umap_find name k \<noteq> None, umap_erase name k)"

definition set_dword :: "string \<Rightarrow> u32 \<Rightarrow> registry_key \<Rightarrow> registry_key" where
  "set_dword name v k = set_value name reg_dword (Some (le_enc 4 v)) 4 k"

definition set_qword :: "string \<Rightarrow> u64 \<Rightarrow> registry_key \<Rightarrow> registry_key" where
  "set_qword name v k = set_value name reg_qword (Some (le_enc 8 v)) 8 k"

definition set_string16 :: "string \<Rightarrow> u16 list \<Rightarrow> registry_key \<Rightarrow> registry_key" where
  "set_string16 name v k =
     (let buffer = chars_bytes 2 v @ replicate 2 0 in
      set_value name reg_sz (Some buffer) (length buffer) k)"

definition set_string8 :: "string \<Rightarrow> string \<Rightarrow> registry_key \<Rightarrow> registry_key" where
  "set_string8 name v k = set_string16 name (widen_string v) k"

definition set_binary :: "string \<Rightarrow> u8 list option \<Rightarrow> nat \<Rightarrow> registry_key \<Rightarrow> registry_key" where
  "set_binary name data sz k = set_value name reg_binary data sz k"

definition set_binary_span :: "string \<Rightarrow> u8 list \<Rightarrow> registry_key \<Rightarrow> registry_key" where
  "set_binary_span name data k = set_value name reg_binary (Some data) (length data) k"

definition enumerate_values :: "registry_key \<Rightarrow> string list" where
  "enumerate_values k = sort (map fst k)"

section \<open>Keys\<close>

record registry =
  keys :: "(string \<times> nat) list"
  objs :: "registry_key list"

definition open_key :: "string \<Rightarrow> registry \<Rightarrow> nat option" where
  "open_key path r = umap_find path (keys r)"

text \<open>\<open>make_shared<win_registry_key>()\<close> stored under a path.\<close>

definition fresh_key :: "string \<Rightarrow> registry \<Rightarrow> nat \<times> registry" where
  "fresh_key path r =
     (length (objs r), r\<lparr>keys := umap_set path (length (objs r)) (keys r), objs := objs r @ [[]]\<rparr>)"

text \<open>The loop over the slashes of the path; \<open>before\<close> is what precedes the next character.\<close>

fun create_ancestors :: "string \<Rightarrow> string \<Rightarrow> registry \<Rightarrow> registry" where
  "create_ancestors before [] r = r"
| "create_ancestors before (c # rest) r =
     (if c = CHR ''/'' then
        create_ancestors (before @ [c]) rest
          (if umap_find before (keys r) \<noteq> None then r else snd (fresh_key before r))
      else create_ancestors (before @ [c]) rest r)"

definition create_key :: "string \<Rightarrow> registry \<Rightarrow> nat \<times> registry" where
  "create_key path r =
     (case umap_find path (keys r) of
        Some k \<Rightarrow> (k, r)
      | None \<Rightarrow> fresh_key path (create_ancestors [] path r))"

definition delete_key :: "string \<Rightarrow> registry \<Rightarrow> bool \<times> registry" where
  "delete_key path r =
     (umap_find path (keys r) \<noteq> None, r\<lparr>keys := umap_erase path (keys r)\<rparr>)"

definition key_exists :: "string \<Rightarrow> registry \<Rightarrow> bool" where
  "key_exists path r \<longleftrightarrow> umap_find path (keys r) \<noteq> None"

text \<open>The \<open>std::set\<close> is kept as the ascending list of its members.\<close>

fun subkey_loop :: "string \<Rightarrow> string list \<Rightarrow> (string \<times> nat) list \<Rightarrow> string list" where
  "subkey_loop p subkeys [] = subkeys"
| "subkey_loop p subkeys ((key_path, k) # rest) =
     (if \<not> starts_with key_path p then subkey_loop p subkeys rest
      else
        let remainder = drop (length p) key_path;
            name = (if CHR ''/'' \<notin> set remainder then remainder else first_component remainder) in
        subkey_loop p (if name \<in> set subkeys then subkeys else insort name subkeys) rest)"

definition enumerate_subkeys :: "string \<Rightarrow> registry \<Rightarrow> string list" where
  "enumerate_subkeys parent r = subkey_loop (parent @ ''/'') [] (keys r)"

text \<open>\<open>std::tolower\<close> in the C locale, applied after a backslash became a slash.\<close>

definition fold_path_char :: "char \<Rightarrow> char" where
  "fold_path_char c = ascii_lower_char (if c = CHR 0x5C then CHR ''/'' else c)"

definition strip_prefix :: "string \<Rightarrow> string \<Rightarrow> string" where
  "strip_prefix p s = (if starts_with s p then drop (length p) s else s)"

definition strip_trailing :: "string \<Rightarrow> string" where
  "strip_trailing s = rev (dropWhile (\<lambda>c. c = CHR ''/'') (rev s))"

definition normalize_path :: "u16 list \<Rightarrow> string" where
  "normalize_path guest_path =
     (let path = map fold_path_char (narrow_wstring guest_path);
          path = strip_prefix ''registry/machine/'' path;
          path = (if path \<noteq> [] \<and> hd path = CHR ''/'' then tl path else path);
          path = strip_prefix ''registry/machine/'' path
      in strip_trailing path)"

section \<open>Creating a key\<close>

definition registry_ok :: "registry \<Rightarrow> bool" where
  "registry_ok r \<longleftrightarrow> umap_ok (keys r) \<and> (\<forall>k \<in> snd ` set (keys r). k < length (objs r))"

text \<open>
  What it means for one state to extend another: keys stay where they are with the values they
  have, and whatever is new is an empty key.
\<close>

definition extends :: "registry \<Rightarrow> registry \<Rightarrow> bool" where
  "extends r r' \<longleftrightarrow>
     (\<exists>n. objs r' = objs r @ replicate n []) \<and>
     (\<forall>p k. umap_find p (keys r) = Some k \<longrightarrow> umap_find p (keys r') = Some k) \<and>
     (\<forall>p k. umap_find p (keys r) = None \<longrightarrow> umap_find p (keys r') = Some k \<longrightarrow>
        length (objs r) \<le> k \<and> k < length (objs r'))"

lemma extends_refl: "extends r r"
  unfolding extends_def by (auto intro: exI [where x = 0])

lemma extends_trans:
  assumes "extends a b" and "extends b c"
  shows "extends a c"
proof -
  obtain n m where n: "objs b = objs a @ replicate n []" and m: "objs c = objs b @ replicate m []"
    using assms by (auto simp: extends_def)
  then have "objs c = objs a @ replicate (n + m) []" by (simp add: replicate_add)
  moreover have "length (objs a) \<le> k \<and> k < length (objs c)"
    if c: "umap_find p (keys c) = Some k" and a: "umap_find p (keys a) = None" for p k
  proof (cases "umap_find p (keys b)")
    case None
    with assms(2) c have "length (objs b) \<le> k \<and> k < length (objs c)"
      unfolding extends_def by blast
    with n show ?thesis by simp
  next
    case (Some j)
    then have "j = k" using assms(2) c unfolding extends_def by fastforce
    with assms(1) a Some have "length (objs a) \<le> k \<and> k < length (objs b)"
      unfolding extends_def by blast
    with m show ?thesis by simp
  qed
  ultimately show ?thesis using assms unfolding extends_def by blast
qed

lemma extends_fresh: "umap_find p (keys r) = None \<Longrightarrow> extends r (snd (fresh_key p r))"
  unfolding extends_def fresh_key_def by (auto intro: exI [where x = 1] split: if_splits)

lemma fresh_key_ok: "registry_ok r \<Longrightarrow> registry_ok (snd (fresh_key p r))"
proof -
  assume ok: "registry_ok r"
  have "\<forall>k \<in> snd ` set (umap_set p (length (objs r)) (keys r)). k < Suc (length (objs r))"
    using umap_set_range [of p "length (objs r)" "keys r"] ok unfolding registry_ok_def by fastforce
  with ok show ?thesis by (simp add: registry_ok_def fresh_key_def)
qed

text \<open>The ancestors made on the way: every part of the path that ends before a slash.\<close>

lemma create_ancestors_correct:
  assumes "registry_ok r"
  shows "registry_ok (create_ancestors before rest r) \<and> extends r (create_ancestors before rest r) \<and>
    (\<forall>p. key_exists p (create_ancestors before rest r) \<longleftrightarrow>
       key_exists p r \<or> (\<exists>u v. rest = u @ CHR ''/'' # v \<and> p = before @ u))"
  using assms
proof (induction before rest r rule: create_ancestors.induct)
  case (1 before r)
  then show ?case by (simp add: extends_refl)
next
  case (2 before c rest r)
  define r1 where "r1 = (if c = CHR ''/'' \<and> umap_find before (keys r) = None
    then snd (fresh_key before r) else r)"
  have r1: "create_ancestors before (c # rest) r = create_ancestors (before @ [c]) rest r1"
    by (auto simp: r1_def)
  have ok: "registry_ok r1" and ext: "extends r r1"
    using 2(3) by (auto simp: r1_def fresh_key_ok extends_fresh extends_refl)
  have exs: "key_exists p r1 \<longleftrightarrow> key_exists p r \<or> (c = CHR ''/'' \<and> p = before)" for p
    by (auto simp: r1_def key_exists_def fresh_key_def)
  have IH: "registry_ok (create_ancestors (before @ [c]) rest r1) \<and>
      extends r1 (create_ancestors (before @ [c]) rest r1) \<and>
      (\<forall>p. key_exists p (create_ancestors (before @ [c]) rest r1) \<longleftrightarrow>
         key_exists p r1 \<or> (\<exists>u v. rest = u @ CHR ''/'' # v \<and> p = (before @ [c]) @ u))"
    using 2(1,2) ok by (cases "c = CHR ''/''") (auto simp: r1_def)
  have split: "(\<exists>u v. c # rest = u @ CHR ''/'' # v \<and> p = before @ u) \<longleftrightarrow>
      (c = CHR ''/'' \<and> p = before) \<or> (\<exists>u v. rest = u @ CHR ''/'' # v \<and> p = (before @ [c]) @ u)" for p
    by (auto simp: Cons_eq_append_conv)
  show ?case
    unfolding r1 split using IH exs extends_trans [OF ext] by blast
qed

lemma set_subkey_loop:
  "set (subkey_loop p names ks) =
     set names \<union> (\<lambda>s. first_component (drop (length p) s)) ` {s \<in> fst ` set ks. starts_with s p}"
proof (induction ks arbitrary: names)
  case (Cons x rest)
  obtain key_path k where x: "x = (key_path, k)" by (cases x)
  have name: "(if CHR ''/'' \<notin> set s then s else first_component s) = first_component s" for s
    unfolding first_component_def by (auto intro!: takeWhile_eq_all_conv [THEN iffD2, symmetric])
  have names: "{s \<in> fst ` set ((key_path, k) # rest). starts_with s p} =
      (if starts_with key_path p then {key_path} else {}) \<union> {s \<in> fst ` set rest. starts_with s p}"
    by auto
  show ?case
    unfolding x names by (auto simp: Let_def name Cons.IH set_insort_key)
qed simp

lemma sorted_subkey_loop:
  "sorted names \<and> distinct names \<Longrightarrow> sorted (subkey_loop p names ks) \<and> distinct (subkey_loop p names ks)"
proof (induction ks arbitrary: names)
  case (Cons x rest)
  obtain key_path k where x: "x = (key_path, k)" by (cases x)
  have "sorted (if n \<in> set names then names else insort n names) \<and>
      distinct (if n \<in> set names then names else insort n names)" for n
    using Cons.prems by (simp add: sorted_insort distinct_insort)
  with Cons show ?case unfolding x by (simp add: Let_def del: if_split)
qed simp

lemma keys_exist: "fst ` set (keys r) = {p. key_exists p r}"
  using umap_keys [of _ "keys r"] by (auto simp: key_exists_def)

lemma enumerate_subkeys_children:
  "enumerate_subkeys parent r = sorted_list_of_set (children (parent @ ''/'') {p. key_exists p r})"
proof -
  let ?l = "subkey_loop (parent @ ''/'') [] (keys r)"
  have "sorted ?l \<and> distinct ?l" using sorted_subkey_loop [of "[]"] by simp
  then have "?l = sorted_list_of_set (set ?l)"
    by (simp add: sorted_list_of_set.idem_if_sorted_distinct)
  then show ?thesis
    by (simp add: enumerate_subkeys_def set_subkey_loop children_alt keys_exist)
qed

text \<open>
  C27: Creating a key gives the key a later open finds. A key that is there already is handed
  out unchanged. A new one is empty, every ancestor on its path exists after it, nothing else
  appears, and no key that was there before moves or changes; the subkeys a later enumeration
  lists under any parent are, in order, exactly the components that follow it in some path.
\<close>

theorem create_key_correct:
  assumes "registry_ok r" and "create_key path r = (k, r')"
  shows "registry_ok r' \<and> extends r r' \<and> open_key path r' = Some k \<and>
    (key_exists path r \<longrightarrow> r' = r) \<and>
    (\<not> key_exists path r \<longrightarrow> objs r' ! k = [] \<and>
      (\<forall>p. key_exists p r' \<longleftrightarrow> key_exists p r \<or> p = path \<or> (\<exists>v. path = p @ ''/'' @ v))) \<and>
    (\<forall>parent. enumerate_subkeys parent r' =
       sorted_list_of_set (children (parent @ ''/'') {p. key_exists p r'}))"
proof (cases "umap_find path (keys r)")
  case (Some j)
  with assms show ?thesis
    by (auto simp: create_key_def open_key_def key_exists_def extends_refl enumerate_subkeys_children)
next
  case None
  define r1 where "r1 = create_ancestors [] path r"
  have r': "(k, r') = fresh_key path r1" using assms(2) None by (simp add: create_key_def r1_def)
  have r1: "registry_ok r1" "extends r r1"
    "key_exists p r1 \<longleftrightarrow> key_exists p r \<or> (\<exists>v. path = p @ ''/'' @ v)" for p
    using create_ancestors_correct [OF assms(1), of "[]" path] by (auto simp: r1_def)
  have "umap_find path (keys r1) = None"
    using r1(3) [of path] None by (auto simp: key_exists_def)
  then have "extends r1 r'" using extends_fresh [of path r1] r' by (metis snd_conv)
  moreover have "registry_ok r'" using fresh_key_ok [OF r1(1)] r' by (metis snd_conv)
  moreover have "open_key path r' = Some k" and "objs r' ! k = []"
    and "key_exists p r' \<longleftrightarrow> key_exists p r1 \<or> p = path" for p
    using r' by (auto simp: fresh_key_def open_key_def key_exists_def)
  moreover have "\<not> key_exists path r" using None by (simp add: key_exists_def)
  ultimately show ?thesis
    using extends_trans [OF r1(2)] r1(3) enumerate_subkeys_children by blast
qed

definition empty_registry :: registry where
  "empty_registry = \<lparr>keys = [], objs = []\<rparr>"

theorem create_key_correct_witness:
  "key_exists ''system'' (snd (create_key ''system/select'' empty_registry)) \<and>
   open_key ''system/select'' (snd (create_key ''system/select'' empty_registry)) =
     Some (fst (create_key ''system/select'' empty_registry))"
proof -
  have "registry_ok empty_registry" by (simp add: registry_ok_def empty_registry_def umap_ok_def)
  moreover have "\<not> key_exists ''system/select'' empty_registry"
    by (simp add: key_exists_def empty_registry_def)
  moreover have "\<exists>v. ''system/select'' = ''system'' @ ''/'' @ v"
    by (rule exI [where x = "''select''"]) simp
  ultimately show ?thesis
    using create_key_correct [of empty_registry "''system/select''"
        "fst (create_key ''system/select'' empty_registry)"
        "snd (create_key ''system/select'' empty_registry)"]
    by simp
qed

text \<open>
  Deleting a key leaves the keys below it: the parent still lists a subkey that can no longer
  be opened.
\<close>

lemma delete_key_leaves_subkeys:
  "let r = snd (delete_key ''m/a'' (snd (create_key ''m/a/b'' empty_registry))) in
   open_key ''m/a'' r = None \<and> enumerate_subkeys ''m'' r = [''a''] \<and> key_exists ''m/a/b'' r"
  by code_simp

text \<open>What is set under a name is what a query returns, bytes and type.\<close>

lemma query_set_value:
  "length d = sz \<Longrightarrow> query_value n (set_value name ty (Some d) sz k) =
     (if n = name then Some \<lparr>rv_type = ty, rv_data = d\<rparr> else query_value n k)"
  by (cases "sz = 0") (auto simp: query_value_def set_value_def Let_def vec_resize_def)

lemma query_set_dword:
  "query_value name (set_dword name v k) = Some \<lparr>rv_type = reg_dword, rv_data = le_enc 4 v\<rparr>"
  by (simp add: set_dword_def query_set_value)

lemma query_set_string:
  "query_value name (set_string8 name v k) =
     Some \<lparr>rv_type = reg_sz, rv_data = chars_bytes 2 (widen_string v) @ [0, 0]\<rparr>"
  by (simp add: set_string8_def set_string16_def Let_def query_set_value numeral_2_eq_2)

end
