(* ===== verification/Filesystem.thy ===== *)
theory Filesystem
  imports Registry
begin

text \<open>
  \<open>kernel/win/filesystem\<close>: the files of the guest by their normalised path, the directories
  nothing else implies, and the listing of a directory. A \<open>shared_ptr<win_file>\<close> is an index
  into the file contents made so far. Reading the host's own files is an argument of
  \<open>load_file\<close>; the walk over a host directory in \<open>load_dir\<close> is left out.
\<close>

section \<open>State\<close>

record filesystem =
  files :: "(string \<times> nat) list"
  contents :: "u8 list list"
  dirs :: "string list"

definition empty_filesystem :: filesystem where
  "empty_filesystem = \<lparr>files = [], contents = [], dirs = []\<rparr>"

record dir_entry =
  de_name :: string
  de_is_directory :: bool
  de_size :: nat

definition file_write :: "nat \<Rightarrow> u8 list \<Rightarrow> filesystem \<Rightarrow> filesystem" where
  "file_write f buf fs = fs\<lparr>contents := (contents fs)[f := buf]\<rparr>"

definition file_write_raw :: "nat \<Rightarrow> u8 list option \<Rightarrow> nat \<Rightarrow> filesystem \<Rightarrow> filesystem" where
  "file_write_raw f buf sz fs =
     fs\<lparr>contents := (contents fs)[f :=
       (case buf of
          Some b \<Rightarrow> if sz > 0 then take sz b else vec_resize sz (contents fs ! f)
        | None \<Rightarrow> vec_resize sz (contents fs ! f))]\<rparr>"

section \<open>Paths\<close>

definition systemroot_name :: string where "systemroot_name = ''/systemroot''"
definition windows_dir_narrow :: string where "windows_dir_narrow = ''C:'' @ [CHR 0x5C] @ ''Windows''"
definition windows_dir_key :: string where "windows_dir_key = map fold_path_char windows_dir_narrow"

fun erase_first_prefix :: "string list \<Rightarrow> string \<Rightarrow> string" where
  "erase_first_prefix [] s = s"
| "erase_first_prefix (p # ps) s =
     (if starts_with s p then drop (length p) s else erase_first_prefix ps s)"

definition normalize :: "string \<Rightarrow> string" where
  "normalize path =
     (let r = strip_trailing (map fold_path_char path);
          r = erase_first_prefix [''/??/'', ''/dosdevices/''] r
      in if starts_with r systemroot_name \<and>
            (length r = length systemroot_name \<or> r ! length systemroot_name = CHR ''/'')
         then windows_dir_key @ drop (length systemroot_name) r
         else r)"

definition object_namespace_key :: "string \<Rightarrow> string" where
  "object_namespace_key name = normalize name"

section \<open>Files and directories\<close>

definition fs_open :: "string \<Rightarrow> filesystem \<Rightarrow> nat option" where
  "fs_open path fs = umap_find (normalize path) (files fs)"

definition fs_create :: "string \<Rightarrow> filesystem \<Rightarrow> nat \<times> filesystem" where
  "fs_create path fs =
     (length (contents fs),
      fs\<lparr>files := umap_set (normalize path) (length (contents fs)) (files fs),
         contents := contents fs @ [[]]\<rparr>)"

text \<open>\<open>use_count()\<close>: the names of the file, and the pointers held outside the map.\<close>

definition use_count :: "(nat \<Rightarrow> nat) \<Rightarrow> nat \<Rightarrow> filesystem \<Rightarrow> nat" where
  "use_count held f fs = length (filter (\<lambda>(p, g). g = f) (files fs)) + held f"

definition fs_remove :: "(nat \<Rightarrow> nat) \<Rightarrow> string \<Rightarrow> filesystem \<Rightarrow> bool \<times> filesystem" where
  "fs_remove held path fs =
     (case umap_find (normalize path) (files fs) of
        None \<Rightarrow> (False, fs)
      | Some f \<Rightarrow>
          if use_count held f fs > 1 then (False, fs)
          else (True, fs\<lparr>files := umap_erase (normalize path) (files fs)\<rparr>))"

definition fs_exists :: "string \<Rightarrow> filesystem \<Rightarrow> bool" where
  "fs_exists path fs \<longleftrightarrow> umap_find (normalize path) (files fs) \<noteq> None"

definition oset_insert :: "'a::linorder \<Rightarrow> 'a list \<Rightarrow> 'a list" where
  "oset_insert x xs = (if x \<in> set xs then xs else insort x xs)"

text \<open>\<open>norm.resize(norm.find_last_of('/'))\<close>.\<close>

definition parent_dir :: "string \<Rightarrow> string" where
  "parent_dir s = rev (tl (dropWhile (\<lambda>c. c \<noteq> CHR ''/'') (rev s)))"

lemma parent_dir_split:
  "CHR ''/'' \<in> set s \<Longrightarrow> \<exists>v. s = parent_dir s @ CHR ''/'' # v \<and> CHR ''/'' \<notin> set v"
proof -
  assume s: "CHR ''/'' \<in> set s"
  let ?d = "dropWhile (\<lambda>c. c \<noteq> CHR ''/'') (rev s)"
  let ?t = "takeWhile (\<lambda>c. c \<noteq> CHR ''/'') (rev s)"
  have ne: "?d \<noteq> []" using s by (simp add: dropWhile_eq_Nil_conv)
  then have "hd ?d = CHR ''/''" using hd_dropWhile [OF ne] by simp
  then have d: "?d = CHR ''/'' # tl ?d" using ne by (metis list.collapse)
  have "rev s = ?t @ ?d" by simp
  then have "s = rev ?d @ rev ?t" by (metis rev_append rev_rev_ident)
  also have "rev ?d = parent_dir s @ [CHR ''/'']" by (subst d) (simp add: parent_dir_def)
  finally have "s = parent_dir s @ CHR ''/'' # rev ?t" by simp
  moreover have "CHR ''/'' \<notin> set (rev ?t)" by (auto dest: set_takeWhileD)
  ultimately show ?thesis by blast
qed

function create_directory_loop :: "string \<Rightarrow> string list \<Rightarrow> string list" where
  "create_directory_loop norm ds =
     (if norm = [] then ds
      else if CHR ''/'' \<notin> set norm then oset_insert norm ds
      else create_directory_loop (parent_dir norm) (oset_insert norm ds))"
  by pat_completeness auto

termination
proof (relation "measure (\<lambda>(norm, ds). length norm)")
  fix norm :: string and ds :: "string list"
  assume "\<not> CHR ''/'' \<notin> set norm"
  then obtain v where "norm = parent_dir norm @ CHR ''/'' # v" using parent_dir_split [of norm] by blast
  then have "length norm = length (parent_dir norm @ CHR ''/'' # v)" by simp
  then show "((parent_dir norm, oset_insert norm ds), norm, ds) \<in> measure (\<lambda>(norm, ds). length norm)"
    by simp
qed simp

declare create_directory_loop.simps [simp del]

definition create_directory :: "string \<Rightarrow> filesystem \<Rightarrow> filesystem" where
  "create_directory path fs = fs\<lparr>dirs := create_directory_loop (normalize path) (dirs fs)\<rparr>"

definition fs_link :: "string \<Rightarrow> string \<Rightarrow> filesystem \<Rightarrow> bool \<times> filesystem" where
  "fs_link from_path to_path fs =
     (case umap_find (normalize from_path) (files fs) of
        None \<Rightarrow> (False, fs)
      | Some f \<Rightarrow> (True, fs\<lparr>files := umap_set (normalize to_path) f (files fs)\<rparr>))"

definition dir_exists :: "string \<Rightarrow> filesystem \<Rightarrow> bool" where
  "dir_exists path fs =
     (let norm = normalize path in
      norm = [] \<or> norm \<in> set (dirs fs) \<or>
      list_ex (\<lambda>(key, f). starts_with key (norm @ ''/'')) (files fs))"

text \<open>\<open>entries[name]\<close>, made with the defaults of \<open>dir_entry\<close> when it is not there.\<close>

definition dir_entry_at :: "string \<Rightarrow> (string \<times> dir_entry) list \<Rightarrow> dir_entry" where
  "dir_entry_at n es =
     (case smap_find n es of
        Some e \<Rightarrow> e | None \<Rightarrow> \<lparr>de_name = [], de_is_directory = False, de_size = 0\<rparr>)"

fun list_files :: "string \<Rightarrow> u8 list list \<Rightarrow> (string \<times> dir_entry) list \<Rightarrow> (string \<times> nat) list \<Rightarrow>
    (string \<times> dir_entry) list" where
  "list_files p data es [] = es"
| "list_files p data es ((key, f) # others) =
     (let rest = drop (length p) key in
      if \<not> starts_with key p then list_files p data es others
      else if rest = [] then list_files p data es others
      else if CHR ''/'' \<notin> set rest then
        list_files p data
          (smap_set rest ((dir_entry_at rest es)\<lparr>de_name := rest, de_size := length (data ! f)\<rparr>) es) others
      else
        let name = first_component rest in
        list_files p data
          (smap_set name ((dir_entry_at name es)\<lparr>de_name := name, de_is_directory := True\<rparr>) es) others)"

fun list_dirs :: "string \<Rightarrow> (string \<times> dir_entry) list \<Rightarrow> string list \<Rightarrow> (string \<times> dir_entry) list" where
  "list_dirs p es [] = es"
| "list_dirs p es (dir # others) =
     (let rest = drop (length p) dir in
      if \<not> starts_with dir p then list_dirs p es others
      else if rest = [] then list_dirs p es others
      else
        let name = (if CHR ''/'' \<notin> set rest then rest else first_component rest) in
        list_dirs p
          (smap_set name ((dir_entry_at name es)\<lparr>de_name := name, de_is_directory := True\<rparr>) es) others)"

definition list_dir :: "string \<Rightarrow> filesystem \<Rightarrow> dir_entry list" where
  "list_dir path fs =
     (let prefix = normalize path; prefix = (if prefix \<noteq> [] then prefix @ ''/'' else prefix) in
      map snd (list_dirs prefix (list_files prefix (contents fs) [] (files fs)) (dirs fs)))"

text \<open>\<open>buffer\<close> is what reading the host file gave and \<open>host_size\<close> the size the host reports.\<close>

definition load_file :: "u8 list \<Rightarrow> nat \<Rightarrow> string \<Rightarrow> filesystem \<Rightarrow> bool \<times> filesystem" where
  "load_file buffer host_size virtual_path fs =
     (if buffer = [] \<and> host_size \<noteq> 0 then (False, fs)
      else (True, fs\<lparr>files := umap_set (normalize virtual_path) (length (contents fs)) (files fs),
                     contents := contents fs @ [buffer]\<rparr>))"

section \<open>What a listing holds\<close>

lemma dir_entry_at_set:
  "dir_entry_at c (smap_set n e es) = (if c = n then e else dir_entry_at c es)"
  by (simp add: dir_entry_at_def find_set)

text \<open>The names below a prefix, the empty remainder left out.\<close>

definition below :: "string \<Rightarrow> string set \<Rightarrow> string set" where
  "below p names = {r. r \<noteq> [] \<and> p @ r \<in> names}"

lemma below_insert: "below p (insert s names) =
  (if starts_with s p \<and> drop (length p) s \<noteq> [] then insert (drop (length p) s) else id) (below p names)"
  by (auto simp: below_def starts_with_iff)

lemma below_Nil [simp]: "below p {} = {}"
  by (simp add: below_def)

definition named_ok :: "(string \<times> dir_entry) list \<Rightarrow> bool" where
  "named_ok es \<longleftrightarrow> sorted_keys es \<and> (\<forall>c \<in> fst ` set es. de_name (dir_entry_at c es) = c)"

lemma named_ok_set:
  "named_ok es \<Longrightarrow> de_name e = n \<Longrightarrow> named_ok (smap_set n e es)"
  by (auto simp: named_ok_def sorted_set dir_entry_at_set smap_set_keys)

lemma first_component_whole: "CHR ''/'' \<notin> set s \<Longrightarrow> first_component s = s"
  unfolding first_component_def by (auto simp: takeWhile_eq_all_conv)

lemma first_component_eq:
  "CHR ''/'' \<in> set s \<Longrightarrow> first_component s = c \<Longrightarrow> \<exists>v. s = c @ CHR ''/'' # v"
proof -
  assume slash: "CHR ''/'' \<in> set s" and c: "first_component s = c"
  obtain r where r: "s = c @ r" "r = [] \<or> hd r = CHR ''/''"
    using first_component_split [of s] c by auto
  with slash first_component_no_slash [of s] c have "r \<noteq> []" by auto
  with r show ?thesis by (metis list.collapse)
qed

lemma list_files_correct:
  assumes "named_ok es" and "distinct (map fst fl)"
  shows "named_ok (list_files p data es fl) \<and>
    fst ` set (list_files p data es fl) = fst ` set es \<union> first_component ` below p (fst ` set fl) \<and>
    (\<forall>c. de_is_directory (dir_entry_at c (list_files p data es fl)) \<longleftrightarrow>
       de_is_directory (dir_entry_at c es) \<or>
       (\<exists>r \<in> below p (fst ` set fl). CHR ''/'' \<in> set r \<and> first_component r = c)) \<and>
    (\<forall>c. de_size (dir_entry_at c (list_files p data es fl)) =
       (case map_of fl (p @ c) of
          Some f \<Rightarrow> if c \<noteq> [] \<and> CHR ''/'' \<notin> set c then length (data ! f) else de_size (dir_entry_at c es)
        | None \<Rightarrow> de_size (dir_entry_at c es)))"
  using assms
proof (induction fl arbitrary: es)
  case Nil
  then show ?case by simp
next
  case (Cons x fl)
  obtain key f where x: "x = (key, f)" by (cases x)
  define rest where "rest = drop (length p) key"
  define n where "n = first_component rest"
  define live where "live \<longleftrightarrow> starts_with key p \<and> rest \<noteq> []"
  define e where "e = (if CHR ''/'' \<notin> set rest
    then (dir_entry_at n es)\<lparr>de_name := n, de_size := length (data ! f)\<rparr>
    else (dir_entry_at n es)\<lparr>de_name := n, de_is_directory := True\<rparr>)"
  define es1 where "es1 = (if live then smap_set n e es else es)"
  have step: "list_files p data es (x # fl) = list_files p data es1 fl"
    by (auto simp: x es1_def live_def e_def n_def rest_def Let_def first_component_whole)
  have ok1: "named_ok es1" using Cons.prems(1) by (simp add: es1_def named_ok_set e_def)
  have key: "live \<Longrightarrow> key = p @ rest" by (auto simp: live_def rest_def starts_with_iff)
  have fresh: "map_of fl key = None" using Cons.prems(2) by (simp add: x map_of_eq_None_iff)
  have below: "below p (fst ` set (x # fl)) = (if live then insert rest else id) (below p (fst ` set fl))"
    by (simp add: x below_insert live_def rest_def)
  have whole: "CHR ''/'' \<notin> set rest \<Longrightarrow> n = rest" by (simp add: n_def first_component_whole)
  have keys: "fst ` set es1 \<union> first_component ` below p (fst ` set fl) =
      fst ` set es \<union> first_component ` below p (fst ` set (x # fl))"
    unfolding below by (auto simp: es1_def smap_set_keys n_def)
  have dir: "de_is_directory (dir_entry_at c es1) \<longleftrightarrow>
      de_is_directory (dir_entry_at c es) \<or> (live \<and> CHR ''/'' \<in> set rest \<and> n = c)" for c
    by (auto simp: es1_def dir_entry_at_set e_def)
  have size: "de_size (dir_entry_at c es1) =
      (if live \<and> c = rest \<and> CHR ''/'' \<notin> set c then length (data ! f) else de_size (dir_entry_at c es))" for c
    using whole first_component_no_slash [of rest]
    by (auto simp: es1_def dir_entry_at_set e_def n_def)
  note IH = Cons.IH [OF ok1] Cons.prems(2)
  have at_key: "p @ c = key \<Longrightarrow> rest = c \<and> (live \<longleftrightarrow> c \<noteq> [])" for c
    by (auto simp: rest_def live_def starts_with_def)
  have "de_size (dir_entry_at c (list_files p data es (x # fl))) =
      (case map_of (x # fl) (p @ c) of
         Some f \<Rightarrow> if c \<noteq> [] \<and> CHR ''/'' \<notin> set c then length (data ! f) else de_size (dir_entry_at c es)
       | None \<Rightarrow> de_size (dir_entry_at c es))" for c
  proof (cases "p @ c = key")
    case True
    with IH at_key [OF True] fresh size [of c] step show ?thesis by (simp add: x)
  next
    case False
    then have "\<not> (live \<and> c = rest)" using key by auto
    with IH False size [of c] step show ?thesis by (auto simp: x split: option.split)
  qed
  moreover have "de_is_directory (dir_entry_at c (list_files p data es (x # fl))) \<longleftrightarrow>
      de_is_directory (dir_entry_at c es) \<or>
      (\<exists>r \<in> below p (fst ` set (x # fl)). CHR ''/'' \<in> set r \<and> first_component r = c)" for c
    unfolding below using IH dir [of c] step by (auto simp: n_def)
  ultimately show ?case using IH keys step by simp
qed

lemma list_dirs_correct:
  assumes "named_ok es"
  shows "named_ok (list_dirs p es ds) \<and>
    fst ` set (list_dirs p es ds) = fst ` set es \<union> first_component ` below p (set ds) \<and>
    (\<forall>c. de_is_directory (dir_entry_at c (list_dirs p es ds)) \<longleftrightarrow>
       de_is_directory (dir_entry_at c es) \<or> c \<in> first_component ` below p (set ds)) \<and>
    (\<forall>c. de_size (dir_entry_at c (list_dirs p es ds)) = de_size (dir_entry_at c es))"
  using assms
proof (induction ds arbitrary: es)
  case Nil
  then show ?case by simp
next
  case (Cons d ds)
  define n where "n = first_component (drop (length p) d)"
  define live where "live \<longleftrightarrow> starts_with d p \<and> drop (length p) d \<noteq> []"
  define es1 where "es1 = (if live
    then smap_set n ((dir_entry_at n es)\<lparr>de_name := n, de_is_directory := True\<rparr>) es else es)"
  have step: "list_dirs p es (d # ds) = list_dirs p es1 ds"
    by (auto simp: es1_def live_def n_def Let_def first_component_whole)
  have "named_ok es1" using Cons.prems by (simp add: es1_def named_ok_set)
  note IH = Cons.IH [OF this]
  have "below p (set (d # ds)) = (if live then insert (drop (length p) d) else id) (below p (set ds))"
    by (simp add: below_insert live_def)
  then show ?case
    unfolding step using IH by (auto simp: es1_def dir_entry_at_set smap_set_keys n_def)
qed

lemma set_oset_insert [simp]: "set (oset_insert x xs) = insert x (set xs)"
  by (auto simp: oset_insert_def set_insort_key)

text \<open>A directory is made with every directory on the way to it.\<close>

lemma create_directory_chain:
  "set (create_directory_loop n ds) =
     set ds \<union> {q. q \<noteq> [] \<and> (q = n \<or> (\<exists>v. n = q @ CHR ''/'' # v))}"
proof (induction n ds rule: create_directory_loop.induct)
  case (1 n ds)
  consider "n = []" | "n \<noteq> []" "CHR ''/'' \<notin> set n" | "n \<noteq> []" "CHR ''/'' \<in> set n" by blast
  then show ?case
  proof cases
    case 3
    then obtain w where w: "n = parent_dir n @ CHR ''/'' # w" "CHR ''/'' \<notin> set w"
      using parent_dir_split by blast
    have "(\<exists>v. n = q @ CHR ''/'' # v) \<longleftrightarrow>
        q = parent_dir n \<or> (\<exists>v. parent_dir n = q @ CHR ''/'' # v)" for q
    proof
      assume "\<exists>v. n = q @ CHR ''/'' # v"
      then obtain v where "parent_dir n @ CHR ''/'' # w = q @ CHR ''/'' # v" using w(1) by metis
      then show "q = parent_dir n \<or> (\<exists>v. parent_dir n = q @ CHR ''/'' # v)"
        using w(2) by (auto simp: append_eq_append_conv2 Cons_eq_append_conv append_eq_Cons_conv)
    next
      assume "q = parent_dir n \<or> (\<exists>v. parent_dir n = q @ CHR ''/'' # v)"
      then show "\<exists>v. n = q @ CHR ''/'' # v" by (metis append_Cons append_assoc w(1))
    qed
    with 1 3 show ?thesis by (subst create_directory_loop.simps) auto
  qed (auto simp: create_directory_loop.simps)
qed

lemma entries_listed:
  assumes "named_ok es"
  shows "map snd es = map (\<lambda>c. dir_entry_at c es) (sorted_list_of_set (fst ` set es))"
proof -
  have sorted: "sorted_wrt (<) (map fst es)" using assms by (simp add: named_ok_def sorted_keys_def)
  then have "sorted_list_of_set (set (map fst es)) = map fst es"
    by (simp only: sorted_list_of_set.idem_if_sorted_distinct strict_sorted_iff)
  moreover have "dir_entry_at c es = e" if "(c, e) \<in> set es" for c e
    using that sorted by (simp add: dir_entry_at_def smap_find_def strict_sorted_iff map_of_is_SomeI)
  ultimately show ?thesis by (simp add: o_def) auto
qed

section \<open>Properties\<close>

text \<open>
  C28: A directory listing has, in ascending order and each once, the first components of the
  file and directory names below the directory. An entry is a directory exactly when a file
  lies deeper under it or it, or something below it, was made as a directory; its size is that
  of the file of that name.
\<close>

theorem list_dir_correct:
  assumes "umap_ok (files fs)"
    and "p = (if normalize path = [] then [] else normalize path @ ''/'')"
  shows "list_dir path fs =
    map (\<lambda>c. \<lparr>de_name = c,
        de_is_directory = ((\<exists>v. p @ c @ CHR ''/'' # v \<in> fst ` set (files fs)) \<or>
          c \<in> first_component ` below p (set (dirs fs))),
        de_size = (case umap_find (p @ c) (files fs) of
            Some f \<Rightarrow> if c \<noteq> [] then length (contents fs ! f) else 0 | None \<Rightarrow> 0)\<rparr>)
      (sorted_list_of_set (first_component ` below p (fst ` set (files fs) \<union> set (dirs fs))))"
proof -
  define es where "es = list_files p (contents fs) [] (files fs)"
  define ds where "ds = list_dirs p es (dirs fs)"
  have empty: "named_ok []" "de_size (dir_entry_at c []) = 0" "\<not> de_is_directory (dir_entry_at c [])" for c
    by (simp_all add: named_ok_def dir_entry_at_def smap_find_def)
  note lf = list_files_correct [OF empty(1), of "files fs" p "contents fs", folded es_def]
  have ok: "distinct (map fst (files fs))" using assms(1) by (simp add: umap_ok_def)
  note ld = list_dirs_correct [of es p "dirs fs", folded ds_def]
  have es_ok: "named_ok es" using lf ok by blast
  have keys: "fst ` set ds = first_component ` below p (fst ` set (files fs) \<union> set (dirs fs))"
    using lf ok ld es_ok by (auto simp: below_def)
  have slash: "c \<in> fst ` set ds \<Longrightarrow> CHR ''/'' \<notin> set c" for c
    unfolding keys by (auto simp: first_component_no_slash)
  have deeper: "(\<exists>r \<in> below p names. CHR ''/'' \<in> set r \<and> first_component r = c) \<longleftrightarrow>
      (\<exists>v. p @ c @ CHR ''/'' # v \<in> names)" if "CHR ''/'' \<notin> set c" for c names
  proof
    assume "\<exists>r \<in> below p names. CHR ''/'' \<in> set r \<and> first_component r = c"
    then obtain r where "p @ r \<in> names" "CHR ''/'' \<in> set r" "first_component r = c"
      by (auto simp: below_def)
    then show "\<exists>v. p @ c @ CHR ''/'' # v \<in> names" using first_component_eq [of r c] by metis
  next
    assume "\<exists>v. p @ c @ CHR ''/'' # v \<in> names"
    then obtain v where "p @ c @ CHR ''/'' # v \<in> names" by blast
    with that show "\<exists>r \<in> below p names. CHR ''/'' \<in> set r \<and> first_component r = c"
      by (intro bexI [where x = "c @ CHR ''/'' # v"]) (auto simp: below_def first_component_append)
  qed
  have entry: "dir_entry_at c ds = \<lparr>de_name = c,
        de_is_directory = ((\<exists>v. p @ c @ CHR ''/'' # v \<in> fst ` set (files fs)) \<or>
          c \<in> first_component ` below p (set (dirs fs))),
        de_size = (case umap_find (p @ c) (files fs) of
            Some f \<Rightarrow> if c \<noteq> [] then length (contents fs ! f) else 0 | None \<Rightarrow> 0)\<rparr>"
    if c: "c \<in> fst ` set ds" for c
  proof (rule dir_entry.equality)
    have "de_name (dir_entry_at c ds) = c" using ld [OF es_ok] c unfolding named_ok_def by blast
    then show "de_name (dir_entry_at c ds) = de_name \<lparr>de_name = c, de_is_directory = a, de_size = b\<rparr>" for a b
      by simp
  qed (use ld es_ok lf ok empty slash [OF c] deeper [OF slash [OF c]] in
      \<open>auto simp: umap_find_def split: option.split\<close>)
  have "list_dir path fs = map snd ds"
    using assms(2) by (simp add: list_dir_def Let_def es_def ds_def)
  also have "\<dots> = map (\<lambda>c. dir_entry_at c ds) (sorted_list_of_set (fst ` set ds))"
    by (rule entries_listed) (use ld es_ok in simp)
  finally show ?thesis
    using entry by (simp add: keys [symmetric])
qed

definition demo_fs :: filesystem where
  "demo_fs = create_directory ''C:/Temp/Logs'' (snd (load_file [1, 2, 3] 3 ''C:/Windows/win.ini''
     (snd (load_file [7] 1 ''C:/boot.ini'' empty_filesystem))))"

theorem list_dir_correct_witness:
  "map de_name (list_dir ''C:'' demo_fs) =
     sorted_list_of_set (first_component ` below ''c:/'' (fst ` set (files demo_fs) \<union> set (dirs demo_fs))) \<and>
   list_dir ''C:'' demo_fs =
     [\<lparr>de_name = ''boot.ini'', de_is_directory = False, de_size = 1\<rparr>,
      \<lparr>de_name = ''temp'', de_is_directory = True, de_size = 0\<rparr>,
      \<lparr>de_name = ''windows'', de_is_directory = True, de_size = 0\<rparr>]"
proof -
  have ok: "umap_ok (files demo_fs)"
    by (simp add: demo_fs_def create_directory_def load_file_def empty_filesystem_def umap_ok_def umap_set_def
        distinct_update)
  have norm: "''c:/'' = (if normalize ''C:'' = [] then [] else normalize ''C:'' @ ''/'')" by code_simp
  have "list_dir ''C:'' demo_fs =
     [\<lparr>de_name = ''boot.ini'', de_is_directory = False, de_size = 1\<rparr>,
      \<lparr>de_name = ''temp'', de_is_directory = True, de_size = 0\<rparr>,
      \<lparr>de_name = ''windows'', de_is_directory = True, de_size = 0\<rparr>]"
    by code_simp
  with list_dir_correct [OF ok norm] show ?thesis by (simp add: o_def)
qed

text \<open>The spellings of a path.\<close>

lemma strip_trailing_append:
  "\<exists>c \<in> set x. c \<noteq> CHR ''/'' \<Longrightarrow> strip_trailing (p @ x) = p @ strip_trailing x"
proof -
  assume "\<exists>c \<in> set x. c \<noteq> CHR ''/''"
  then obtain c where "c \<in> set (rev x)" "\<not> c = CHR ''/''" by auto
  from dropWhile_append1 [OF this(1), of "\<lambda>c. c = CHR ''/''" "rev p"] this(2)
  show ?thesis by (simp add: strip_trailing_def)
qed

lemma strip_trailing_slashes:
  "\<forall>c \<in> set x. c = CHR ''/'' \<Longrightarrow> strip_trailing (p @ x) = strip_trailing p"
  unfolding strip_trailing_def rev_append by (subst dropWhile_append2) auto

lemma strip_trailing_hd:
  "x \<noteq> [] \<Longrightarrow> hd x \<noteq> CHR ''/'' \<Longrightarrow> \<exists>t. strip_trailing x = hd x # t"
proof -
  assume x: "x \<noteq> []" "hd x \<noteq> CHR ''/''"
  then have split: "x = [hd x] @ tl x" by simp
  have one: "strip_trailing [hd x] = [hd x]" using x(2) by (simp add: strip_trailing_def)
  show ?thesis
  proof (cases "\<exists>c \<in> set (tl x). c \<noteq> CHR ''/''")
    case True
    then show ?thesis using strip_trailing_append [of "tl x" "[hd x]"] split by simp
  next
    case False
    then show ?thesis using strip_trailing_slashes [of "tl x" "[hd x]"] split one by simp
  qed
qed

text \<open>The backslash as the guest writes it.\<close>

definition backslash :: string where "backslash = [CHR 0x5C]"

text \<open>
  C29: A guest path means the same file however it is spelled: upper and lower case, slashes
  and backslashes do not matter, the prefixes of the DOS device directory are interchangeable
  and dropped, and the name of the system root stands for the windows directory.
\<close>

theorem normalize_spellings:
  "(map fold_path_char a = map fold_path_char b \<longrightarrow> normalize a = normalize b) \<and>
   ((\<exists>c \<in> set x. fold_path_char c \<noteq> CHR ''/'') \<longrightarrow>
      normalize (backslash @ ''??'' @ backslash @ x) = normalize (backslash @ ''DosDevices'' @ backslash @ x)) \<and>
   (x \<noteq> [] \<and> fold_path_char (hd x) \<noteq> CHR ''/'' \<longrightarrow> normalize (backslash @ ''??'' @ backslash @ x) = normalize x) \<and>
   normalize (backslash @ ''SystemRoot'' @ backslash @ x) = normalize (''C:'' @ backslash @ ''Windows'' @ backslash @ x)"
proof (intro conjI impI; (elim conjE)?)
  have "map fold_path_char (backslash @ ''??'' @ backslash) = ''/??/''"
    "map fold_path_char (backslash @ ''DosDevices'' @ backslash) = ''/dosdevices/''"
    "map fold_path_char (backslash @ ''SystemRoot'' @ backslash) = ''/systemroot/''"
    "map fold_path_char (''C:'' @ backslash @ ''Windows'' @ backslash) = ''c:/windows/''"
    by code_simp+
  then have fold: "map fold_path_char (backslash @ ''??'' @ backslash @ x) = ''/??/'' @ map fold_path_char x"
    "map fold_path_char (backslash @ ''DosDevices'' @ backslash @ x) = ''/dosdevices/'' @ map fold_path_char x"
    "map fold_path_char (backslash @ ''SystemRoot'' @ backslash @ x) = ''/systemroot/'' @ map fold_path_char x"
    "map fold_path_char (''C:'' @ backslash @ ''Windows'' @ backslash @ x) = ''c:/windows/'' @ map fold_path_char x"
    by (simp_all only: map_append append_assoc [symmetric])
  have win: "windows_dir_key = ''c:/windows''" by code_simp
  have bare: "strip_trailing ''/systemroot/'' = ''/systemroot''"
    "strip_trailing ''c:/windows/'' = ''c:/windows''" by code_simp+
  show "normalize a = normalize b" if "map fold_path_char a = map fold_path_char b"
    using that by (simp add: normalize_def)
  show "normalize (backslash @ ''??'' @ backslash @ x) = normalize (backslash @ ''DosDevices'' @ backslash @ x)"
    if "\<exists>c \<in> set x. fold_path_char c \<noteq> CHR ''/''"
  proof -
    have "\<exists>c \<in> set (map fold_path_char x). c \<noteq> CHR ''/''" using that by auto
    then show ?thesis
      unfolding normalize_def fold by (simp add: strip_trailing_append starts_with_def del: append_Cons)
  qed
  show "normalize (backslash @ ''??'' @ backslash @ x) = normalize x"
    if x: "x \<noteq> []" and hd: "fold_path_char (hd x) \<noteq> CHR ''/''"
  proof -
    have "hd (map fold_path_char x) \<noteq> CHR ''/''" using x hd by (simp add: hd_map)
    with x obtain t where t: "strip_trailing (map fold_path_char x) = fold_path_char (hd x) # t"
      using strip_trailing_hd [of "map fold_path_char x"] by (auto simp: hd_map)
    have "\<exists>c \<in> set (map fold_path_char x). c \<noteq> CHR ''/''" using x hd by (cases x) auto
    with t hd show ?thesis
      unfolding normalize_def fold
      by (simp add: strip_trailing_append starts_with_def systemroot_name_def del: append_Cons)
  qed
  show "normalize (backslash @ ''SystemRoot'' @ backslash @ x) = normalize (''C:'' @ backslash @ ''Windows'' @ backslash @ x)"
  proof (cases "\<exists>c \<in> set (map fold_path_char x). c \<noteq> CHR ''/''")
    case True
    then show ?thesis
      unfolding normalize_def fold strip_trailing_append [OF True]
      by (simp add: Let_def starts_with_def systemroot_name_def win)
  next
    case False
    then show ?thesis
      unfolding normalize_def fold
      by (simp add: strip_trailing_slashes bare starts_with_def systemroot_name_def win del: append_Cons)
  qed
qed

theorem normalize_spellings_witness:
  "normalize (backslash @ ''??'' @ backslash @ ''C:'' @ backslash @ ''Boot'') = normalize ''C:/BOOT'' \<and>
   normalize ''C:/BOOT'' = ''c:/boot'' \<and>
   normalize (backslash @ ''??'' @ backslash @ ''C:/BOOT'') = normalize (backslash @ ''DosDevices'' @ backslash @ ''C:/BOOT'')"
proof -
  have "map fold_path_char (''C:'' @ backslash @ ''Boot'') = map fold_path_char ''C:/BOOT''"
    "fold_path_char (hd (''C:'' @ backslash @ ''Boot'')) \<noteq> CHR ''/''"
    "fold_path_char CHR ''B'' \<noteq> CHR ''/''" "normalize ''C:/BOOT'' = ''c:/boot''"
    by code_simp+
  then show ?thesis
    using normalize_spellings [of "''C:'' @ backslash @ ''Boot''" "''C:/BOOT''" "''C:'' @ backslash @ ''Boot''"]
      normalize_spellings [of _ _ "''C:/BOOT''"]
    by auto
qed

text \<open>
  The directory \<open>GLOBAL??\<close> is not among the prefixes: a name under it is another name than the
  one under \<open>??\<close>.
\<close>

lemma global_prefix_not_folded:
  "object_namespace_key (backslash @ ''GLOBAL??'' @ backslash @ ''X'') \<noteq> object_namespace_key (backslash @ ''??'' @ backslash @ ''X'')"
  by code_simp

end
