(* ===== verification/Crt.thy ===== *)
theory Crt
  imports Names
begin

text \<open>
  The string routines of \<open>kernel/win/modules/nt_crt_ops.cpp\<close>. A \<open>std::string\<close> argument was
  read from the guest before the handler runs, so it is the list of its bytes. What formatting
  produces is an argument; writing it out is modelled. The result is the returned value and
  guest memory.
\<close>

definition crt_einval :: int where "crt_einval = 22"
definition crt_erange :: int where "crt_erange = 34"

text \<open>\<open>_TRUNCATE\<close>.\<close>

definition truncate_count :: u64 where "truncate_count = - 1"

section \<open>Comparisons and searches\<close>

definition crt_wcslen :: "u16 list \<Rightarrow> nat" where
  "crt_wcslen str = length str"

text \<open>\<open>count\<close> characters are compared, terminators included, which is what \<open>c_str()\<close> shows.\<close>

definition counted :: "u64 \<Rightarrow> 'a list \<Rightarrow> 'a list \<Rightarrow> nat" where
  "counted count a b = min (unat count) (min (length a) (length b) + 1)"

definition crt_stricmp :: "(u8 \<Rightarrow> u8) \<Rightarrow> u8 list \<Rightarrow> u8 list \<Rightarrow> int" where
  "crt_stricmp lower str1 str2 = compare_ascii_nocase lower str1 str2"

definition crt_strnicmp :: "(u8 \<Rightarrow> u8) \<Rightarrow> u8 list \<Rightarrow> u8 list \<Rightarrow> u64 \<Rightarrow> int" where
  "crt_strnicmp lower str1 str2 count =
     compare_count lower (str1 @ [0]) (str2 @ [0]) (counted count str1 str2)"

definition crt_wcscmp :: "u16 list \<Rightarrow> u16 list \<Rightarrow> int" where
  "crt_wcscmp str1 str2 = string_compare str1 str2"

definition crt_wcsncmp :: "u16 list \<Rightarrow> u16 list \<Rightarrow> u64 \<Rightarrow> int" where
  "crt_wcsncmp str1 str2 count =
     (let n = counted count str1 str2 in string_compare (take n str1) (take n str2))"

definition crt_wcsicmp :: "u16 list \<Rightarrow> u16 list \<Rightarrow> int" where
  "crt_wcsicmp str1 str2 = compare_ascii_nocase ascii_lower_u16 str1 str2"

definition crt_wcsnicmp :: "u16 list \<Rightarrow> u16 list \<Rightarrow> u64 \<Rightarrow> int" where
  "crt_wcsnicmp str1 str2 count =
     compare_count ascii_lower_u16 (str1 @ [0]) (str2 @ [0]) (counted count str1 str2)"

text \<open>
  The search of \<open>strchr\<close> has no bound of its own; \<open>fuel\<close> is the number of bytes looked at, and
  using it up is \<open>Does_not_return\<close>.
\<close>

fun strchr_loop :: "nat \<Rightarrow> addr \<Rightarrow> u8 \<Rightarrow> gmem \<Rightarrow> emu_error + addr" where
  "strchr_loop 0 at wanted g = throw Does_not_return"
| "strchr_loop (Suc fuel) at wanted g =
     bind_result (g_get 1 at g) (\<lambda>ch.
       if ch = wanted then Inr at
       else if ch = 0 then Inr 0
       else strchr_loop fuel (at + 1) wanted g)"

definition crt_strchr :: "nat \<Rightarrow> addr \<Rightarrow> u32 \<Rightarrow> gmem \<Rightarrow> emu_error + addr" where
  "crt_strchr fuel str c g = (if str = 0 then Inr 0 else strchr_loop fuel str (ucast c) g)"

fun strnlen_loop :: "nat \<Rightarrow> addr \<Rightarrow> gmem \<Rightarrow> emu_error + nat" where
  "strnlen_loop 0 at g = Inr 0"
| "strnlen_loop (Suc left) at g =
     bind_result (g_get 1 at g) (\<lambda>ch :: u8.
       if ch = 0 then Inr 0 else bind_result (strnlen_loop left (at + 1) g) (\<lambda>n. Inr (Suc n)))"

definition crt_strnlen :: "addr \<Rightarrow> u64 \<Rightarrow> gmem \<Rightarrow> emu_error + nat" where
  "crt_strnlen str max_count g =
     (if str = 0 \<or> max_count = 0 then Inr 0 else strnlen_loop (unat max_count) str g)"

fun find_sub :: "'a list \<Rightarrow> 'a list \<Rightarrow> nat option" where
  "find_sub sub [] = (if sub = [] then Some 0 else None)"
| "find_sub sub (x # xs) =
     (if take (length sub) (x # xs) = sub then Some 0 else map_option Suc (find_sub sub xs))"

definition crt_strstr :: "addr \<Rightarrow> u8 list \<Rightarrow> gmem \<Rightarrow> emu_error + addr" where
  "crt_strstr str sub_str g =
     bind_result (read_basic_string 1 str 4096 g) (\<lambda>haystack.
       Inr (case find_sub sub_str haystack of None \<Rightarrow> 0 | Some pos \<Rightarrow> str + of_nat pos))"

section \<open>Copies\<close>

definition crt_strcpy_s :: "addr \<Rightarrow> u64 \<Rightarrow> u8 list \<Rightarrow> gmem \<Rightarrow> emu_error + int \<times> gmem" where
  "crt_strcpy_s destination sz source g =
     (if destination = 0 \<or> sz = 0 then Inr (crt_einval, g)
      else if length source + 1 > unat sz then
        bind_result (g_put 1 destination (0 :: u8) g) (\<lambda>g. Inr (crt_erange, g))
      else bind_result (g_write destination (source @ [0]) g) (\<lambda>g. Inr (0, g)))"

definition crt_strncpy_s :: "addr \<Rightarrow> u64 \<Rightarrow> u8 list \<Rightarrow> u64 \<Rightarrow> gmem \<Rightarrow> emu_error + int \<times> gmem" where
  "crt_strncpy_s destination sz source count g =
     (if destination = 0 \<or> sz = 0 then Inr (crt_einval, g)
      else
        let wanted = (if count = truncate_count then length source else min (unat count) (length source));
            room = unat (sz - 1) in
        if wanted > room \<and> count \<noteq> truncate_count then
          bind_result (g_put 1 destination (0 :: u8) g) (\<lambda>g. Inr (crt_erange, g))
        else
          let n = min wanted room in
          bind_result (g_write destination (take n source @ [0]) g)
            (\<lambda>g. Inr (if n < wanted then crt_erange else 0, g)))"

definition crt_strncpy :: "addr \<Rightarrow> u8 list \<Rightarrow> u64 \<Rightarrow> gmem \<Rightarrow> emu_error + addr \<times> gmem" where
  "crt_strncpy destination source count g =
     (let n = min (unat count) (length source) in
      bind_result (g_write destination (take n source @ replicate (unat count - n) 0) g)
        (\<lambda>g. Inr (destination, g)))"

definition crt_wcsncpy :: "addr \<Rightarrow> u16 list \<Rightarrow> u64 \<Rightarrow> gmem \<Rightarrow> emu_error + addr \<times> gmem" where
  "crt_wcsncpy destination source count g =
     (let n = min (unat count) (length source) in
      bind_result (g_write destination (chars_bytes 2 (take n source @ replicate (unat count - n) 0)) g)
        (\<lambda>g. Inr (destination, g)))"

definition crt_wcscpy_s :: "addr \<Rightarrow> u64 \<Rightarrow> u16 list \<Rightarrow> gmem \<Rightarrow> emu_error + int \<times> gmem" where
  "crt_wcscpy_s destination size_in_words source g =
     (if destination = 0 \<or> size_in_words = 0 then Inr (crt_einval, g)
      else if length source + 1 > unat size_in_words then
        bind_result (g_put 2 destination (0 :: u16) g) (\<lambda>g. Inr (crt_erange, g))
      else bind_result (write_wstring_buffer destination size_in_words source g) (\<lambda>g. Inr (0, g)))"

definition crt_wcscat_s :: "addr \<Rightarrow> u64 \<Rightarrow> u16 list \<Rightarrow> gmem \<Rightarrow> emu_error + int \<times> gmem" where
  "crt_wcscat_s destination size_in_words source g =
     (if destination = 0 \<or> size_in_words = 0 then Inr (crt_einval, g)
      else bind_result (read_wstring destination 4096 g) (\<lambda>existing.
        if length existing + length source + 1 > unat size_in_words then
          bind_result (g_put 2 destination (0 :: u16) g) (\<lambda>g. Inr (crt_erange, g))
        else bind_result (write_wstring_buffer destination size_in_words (existing @ source) g)
               (\<lambda>g. Inr (0, g))))"

text \<open>What the formatting functions do with the text they made.\<close>

definition write_formatted :: "addr \<Rightarrow> u64 \<Rightarrow> u16 list \<Rightarrow> bool \<Rightarrow> gmem \<Rightarrow> emu_error + int \<times> gmem" where
  "write_formatted destination count txt secure g =
     (if destination = 0 \<or> count = 0 then Inr (-1, g)
      else if length txt \<ge> unat count then
        (if secure then bind_result (g_put 2 destination (0 :: u16) g) (\<lambda>g. Inr (-1, g))
         else bind_result (g_write destination (chars_bytes 2 (take (unat count) txt)) g) (\<lambda>g. Inr (-1, g)))
      else bind_result (write_wstring_buffer destination count txt g) (\<lambda>g. Inr (int (length txt), g)))"

definition write_counted ::
  "nat \<Rightarrow> addr \<Rightarrow> u64 \<Rightarrow> u64 \<Rightarrow> 'a::len word list \<Rightarrow> gmem \<Rightarrow> emu_error + int \<times> gmem" where
  "write_counted n destination count max_count txt g =
     (if destination = 0 \<or> count = 0 then Inr (crt_einval, g)
      else
        let wanted = (if max_count = truncate_count then length txt else min (length txt) (unat max_count)) in
        if wanted + 1 \<le> unat count then
          bind_result (write_basic_string_buffer n destination count (take wanted txt) g)
            (\<lambda>g. Inr (int wanted, g))
        else
          let kept = (if max_count = truncate_count then unat (count - 1) else 0) in
          bind_result (write_basic_string_buffer n destination count (take kept txt) g)
            (\<lambda>g. Inr (-1, g)))"

section \<open>Lengths and searches are exact\<close>

lemma strnlen_bound: "strnlen_loop m a g = Inr n \<Longrightarrow> n \<le> m"
  by (induction m arbitrary: a n) (auto split: sum.splits if_splits)

lemma strnlen_terminated:
  "read_basic_string 1 a m g = Inr (cs :: u8 list) \<Longrightarrow> strnlen_loop m a g = Inr (length cs)"
  by (induction m arbitrary: a cs) (auto split: sum.splits if_splits)

text \<open>With the string terminated inside the fuel the search of \<open>strchr\<close> comes back.\<close>

lemma strchr_returns:
  "read_basic_string 1 a m g = Inr (cs :: u8 list) \<Longrightarrow> length cs < m \<Longrightarrow>
   strchr_loop m a w g =
     Inr (if w \<in> set (cs @ [0]) then a + of_nat (length (takeWhile (\<lambda>c. c \<noteq> w) (cs @ [0]))) else 0)"
proof (induction m arbitrary: a cs)
  case (Suc m)
  then obtain c where c: "g_get 1 a g = Inr (c :: u8)" by (auto split: sum.splits)
  show ?case
  proof (cases "c = 0")
    case True
    then have "cs = []" using Suc.prems(1) c by auto
    with c True show ?thesis by simp
  next
    case False
    then obtain ds where ds: "read_basic_string 1 (a + 1) m g = Inr ds" "cs = c # ds"
      using Suc.prems(1) c by (auto split: sum.splits)
    with Suc.IH [OF ds(1)] Suc.prems(2) c False show ?thesis by (auto simp: algebra_simps)
  qed
qed simp

section \<open>Copies stay inside their buffer\<close>

lemma chars_bytes_u8: "chars_bytes 1 cs = (cs :: u8 list)"
  by (induction cs) (simp_all add: chars_bytes_def)

lemma terminated_reads_back:
  fixes cs :: "u8 list"
  assumes w: "g_write d (cs @ [0]) g = Inr g'" and "0 \<notin> set cs" and "length cs < m"
    and "length cs + 1 < 2 ^ 64"
  shows "read_basic_string 1 d m g' = Inr cs"
proof (rule read_basic_string_written)
  have "g_read (length cs + 1) d g' = Inr (cs @ [0])"
    using g_read_write_same [OF w] assms(4) by simp
  then obtain xs ys where parts: "g_read (length cs) d g' = Inr xs"
      "g_read 1 (d + of_nat (length cs)) g' = Inr ys" "cs @ [0] = xs @ ys"
    unfolding g_read_append by (auto split: sum.splits)
  then have "xs = cs" "ys = [0]" using g_read_mapped [OF parts(1)] by auto
  with parts show "g_read (length cs * 1) d g' = Inr (chars_bytes 1 cs)"
    and "g_get 1 (d + of_nat (length cs * 1)) g' = Inr (0 :: u8)"
    by (simp_all add: chars_bytes_u8 g_get_def del: One_nat_def)
qed (use assms in simp_all)

lemma write_inside: "g_write d bs g = Inr g' \<Longrightarrow> length bs \<le> n \<Longrightarrow> x \<notin> span d n \<Longrightarrow> g' x = g x"
  using g_write_other span_mono by blast

lemma put_inside: "g_put m d v g = Inr g' \<Longrightarrow> m \<le> n \<Longrightarrow> x \<notin> span d n \<Longrightarrow> g' x = g x"
  unfolding g_put_def by (erule write_inside) simp_all

lemma unat_pos: "sz \<noteq> 0 \<Longrightarrow> 0 < unat (sz :: u64) \<and> unat (sz - 1) = unat sz - 1"
  using unat_gt_0 [of sz] by (auto simp: unat_minus_one)

lemma strcpy_s_bounded:
  assumes "crt_strcpy_s d sz src g = Inr (r, g')"
  shows "(\<forall>x. x \<notin> span d (unat sz) \<longrightarrow> g' x = g x) \<and>
    (r = 0 \<and> 0 \<notin> set src \<longrightarrow> read_basic_string 1 d (unat sz) g' = Inr src)"
  using assms unat_pos [of sz] unat_lt64 [of sz]
  by (auto simp: crt_strcpy_s_def crt_einval_def crt_erange_def simp del: One_nat_def
      split: if_splits sum.splits
      intro: put_inside [where n = "unat sz"] write_inside [where n = "unat sz"] terminated_reads_back)

lemma strncpy_s_bounded:
  assumes "crt_strncpy_s d sz src count g = Inr (r, g')"
  shows "(\<forall>x. x \<notin> span d (unat sz) \<longrightarrow> g' x = g x) \<and>
    (r = 0 \<and> 0 \<notin> set src \<longrightarrow> read_basic_string 1 d (unat sz) g' =
       Inr (if count = truncate_count then src else take (unat count) src))"
proof (cases "d = 0 \<or> sz = 0")
  case True
  with assms show ?thesis by (auto simp: crt_strncpy_s_def crt_einval_def)
next
  case False
  define wanted where "wanted = (if count = truncate_count then length src else min (unat count) (length src))"
  define n where "n = min wanted (unat sz - 1)"
  have sz: "0 < unat sz" "unat (sz - 1) = unat sz - 1" using unat_pos [of sz] False by auto
  show ?thesis
  proof (cases "wanted > unat sz - 1 \<and> count \<noteq> truncate_count")
    case True
    with False assms sz show ?thesis
      unfolding crt_strncpy_s_def Let_def wanted_def [symmetric]
      by (auto simp: crt_erange_def simp del: One_nat_def split: sum.splits
          intro: put_inside [where n = "unat sz"])
  next
    case keep: False
    with False assms sz have w: "g_write d (take n src @ [0]) g = Inr g'"
      and r: "r = (if n < wanted then crt_erange else 0)"
      unfolding crt_strncpy_s_def Let_def wanted_def [symmetric] n_def
      by (auto split: sum.splits if_splits)
    have len: "length (take n src) = n" by (simp add: n_def wanted_def)
    have "read_basic_string 1 d (unat sz) g' = Inr (take n src)" if "0 \<notin> set src"
      by (rule terminated_reads_back [OF w])
        (use that sz unat_lt64 [of sz] in \<open>auto simp: len n_def dest: in_set_takeD\<close>)
    moreover have "n = wanted" if "r = 0" using that r by (auto simp: crt_erange_def n_def split: if_splits)
    moreover have "take wanted src = (if count = truncate_count then src else take (unat count) src)"
      by (auto simp: wanted_def min_def)
    moreover have "length (take n src @ [0]) \<le> unat sz" using sz by (auto simp: len n_def)
    ultimately show ?thesis using write_inside [OF w, of "unat sz"] by auto
  qed
qed

lemma wstring_buffer_bounded:
  assumes "write_wstring_buffer d sz src g = Inr g'" and "sz \<noteq> 0" and "unat sz * 2 < 2 ^ 64"
    and "length src < unat sz"
  shows "(\<forall>x. x \<notin> span d (unat sz * 2) \<longrightarrow> g' x = g x) \<and>
    (0 \<notin> set src \<longrightarrow> read_wstring d (unat sz) g' = Inr src)"
proof -
  have len: "8 * 2 = LENGTH(16)" by simp
  have pos: "0 < sz" using assms(2) by (simp add: word_gt_0)
  note w = assms(1) [unfolded write_wstring_buffer_def]
  have "\<forall>x. x \<notin> span d (unat sz * 2) \<longrightarrow> g' x = g x"
    using write_string_inside [OF pos assms(3) w] by blast
  moreover have "read_wstring d (unat sz) g' = Inr src" if "0 \<notin> set src"
    using write_string_reads_back [OF len pos assms(3) w that, of "unat sz"] assms(4)
    by (simp add: read_wstring_def)
  ultimately show ?thesis by blast
qed

lemma wcs_bounded:
  assumes "unat sz * 2 < 2 ^ 64"
  shows "crt_wcscpy_s d sz src g = Inr (r, g') \<Longrightarrow>
      (\<forall>x. x \<notin> span d (unat sz * 2) \<longrightarrow> g' x = g x) \<and>
      (r = 0 \<and> 0 \<notin> set src \<longrightarrow> read_wstring d (unat sz) g' = Inr src)"
    and "crt_wcscat_s d sz src g = Inr (r, g') \<Longrightarrow>
      (\<forall>x. x \<notin> span d (unat sz * 2) \<longrightarrow> g' x = g x) \<and>
      (\<forall>old. read_wstring d 4096 g = Inr old \<longrightarrow> r = 0 \<and> 0 \<notin> set (old @ src) \<longrightarrow>
         read_wstring d (unat sz) g' = Inr (old @ src))"
proof -
  have clear: "\<forall>x. x \<notin> span d (unat sz * 2) \<longrightarrow> g' x = g x"
    if "sz \<noteq> 0" "g_put 2 d (0 :: u16) g = Inr g'"
    using put_inside [OF that(2), of "unat sz * 2"] unat_pos [OF that(1)] by auto
  show "(\<forall>x. x \<notin> span d (unat sz * 2) \<longrightarrow> g' x = g x) \<and>
      (r = 0 \<and> 0 \<notin> set src \<longrightarrow> read_wstring d (unat sz) g' = Inr src)"
    if "crt_wcscpy_s d sz src g = Inr (r, g')"
    using that clear wstring_buffer_bounded [OF _ _ assms, of d src g g']
    by (auto simp: crt_wcscpy_s_def crt_einval_def crt_erange_def split: if_splits sum.splits)
  show "(\<forall>x. x \<notin> span d (unat sz * 2) \<longrightarrow> g' x = g x) \<and>
      (\<forall>old. read_wstring d 4096 g = Inr old \<longrightarrow> r = 0 \<and> 0 \<notin> set (old @ src) \<longrightarrow>
         read_wstring d (unat sz) g' = Inr (old @ src))"
    if "crt_wcscat_s d sz src g = Inr (r, g')"
  proof (cases "d = 0 \<or> sz = 0")
    case True
    with that show ?thesis by (auto simp: crt_wcscat_s_def crt_einval_def)
  next
    case False
    with that obtain old where old: "read_wstring d 4096 g = Inr old"
      by (auto simp: crt_wcscat_s_def split: sum.splits)
    with that False clear wstring_buffer_bounded [OF _ _ assms, of d "old @ src" g g']
    show ?thesis
      by (auto simp: crt_wcscat_s_def crt_erange_def split: if_splits sum.splits)
  qed
qed

text \<open>
  C31: The bounded copies write nothing outside the buffer they were given, whatever they
  return. When they return zero, the buffer reads back as the source, cut to the count that was
  asked for, and after the concatenation as what was there followed by the source.
\<close>

theorem crt_copies_bounded:
  assumes "unat sz * 2 < 2 ^ 64"
  shows "(crt_strcpy_s d sz src g = Inr (r, g') \<longrightarrow>
      (\<forall>x. x \<notin> span d (unat sz) \<longrightarrow> g' x = g x) \<and>
      (r = 0 \<and> 0 \<notin> set src \<longrightarrow> read_basic_string 1 d (unat sz) g' = Inr src)) \<and>
    (crt_strncpy_s d sz src count g = Inr (r, g') \<longrightarrow>
      (\<forall>x. x \<notin> span d (unat sz) \<longrightarrow> g' x = g x) \<and>
      (r = 0 \<and> 0 \<notin> set src \<longrightarrow> read_basic_string 1 d (unat sz) g' =
         Inr (if count = truncate_count then src else take (unat count) src))) \<and>
    (crt_wcscpy_s d sz wsrc g = Inr (r, g') \<longrightarrow>
      (\<forall>x. x \<notin> span d (unat sz * 2) \<longrightarrow> g' x = g x) \<and>
      (r = 0 \<and> 0 \<notin> set wsrc \<longrightarrow> read_wstring d (unat sz) g' = Inr wsrc)) \<and>
    (crt_wcscat_s d sz wsrc g = Inr (r, g') \<longrightarrow>
      (\<forall>x. x \<notin> span d (unat sz * 2) \<longrightarrow> g' x = g x) \<and>
      (\<forall>old. read_wstring d 4096 g = Inr old \<longrightarrow> r = 0 \<and> 0 \<notin> set (old @ wsrc) \<longrightarrow>
         read_wstring d (unat sz) g' = Inr (old @ wsrc)))"
  by (rule conjI, rule impI, erule strcpy_s_bounded, rule conjI, rule impI, erule strncpy_s_bounded,
      rule conjI, rule impI, erule wcs_bounded(1) [OF assms], rule impI, erule wcs_bounded(2) [OF assms])

definition demo_buffer :: gmem where
  "demo_buffer x = (if 0x100 \<le> x \<and> x < 0x120 then Some 0 else None)"

theorem crt_copies_bounded_witness:
  "\<exists>g'. crt_strcpy_s 0x100 4 [97, 98] demo_buffer = Inr (0, g') \<and>
     read_basic_string 1 0x100 4 g' = Inr [97, 98 :: u8] \<and> g' 0x104 = Some 0"
proof -
  have "\<not> isl (crt_strcpy_s 0x100 4 [97, 98] demo_buffer) \<and>
      fst (projr (crt_strcpy_s 0x100 4 [97, 98] demo_buffer)) = 0"
    by code_simp
  then obtain g' where g': "crt_strcpy_s 0x100 4 [97, 98] demo_buffer = Inr (0, g')"
    by (cases "crt_strcpy_s 0x100 4 [97, 98] demo_buffer") auto
  have "(0x104 :: addr) \<notin> span 0x100 4" by (simp add: span_iff)
  moreover have "unat (4 :: u64) = 4" by simp
  ultimately have "g' 0x104 = demo_buffer 0x104"
    using crt_copies_bounded [of 4 "0x100" "[97, 98]" demo_buffer 0 g'] g' by auto
  moreover have "read_basic_string 1 0x100 4 g' = Inr [97, 98 :: u8]"
    using crt_copies_bounded [of 4 "0x100" "[97, 98]" demo_buffer 0 g'] g' by auto
  moreover have "demo_buffer 0x104 = Some 0" by code_simp
  ultimately show ?thesis using g' by auto
qed

end
