(* ===== verification/Dispatcher.thy ===== *)
theory Dispatcher
  imports Guest_Mem Nt_Defs
begin

text \<open>
  Dispatcher objects and the waits of a thread: \<open>kernel/win/dispatcher.hpp\<close>, the wait half of
  \<open>kernel/win/thread.cpp\<close> and the readiness of a thread from \<open>kernel/thread_scheduler.hpp\<close>. The
  state of an object lives in guest memory, at the offsets of the generated types. Guest time
  counts 100ns ticks, the host clock nanoseconds; both are arguments where the code reads
  them. The return register \<open>conv->set_ret\<close> writes is a field of the thread.
\<close>

section \<open>Objects\<close>

definition DH_Type :: addr where "DH_Type = 0x00"
definition DH_Signalling :: addr where "DH_Signalling = 0x01"
definition DH_Size :: addr where "DH_Size = 0x02"
definition DH_SignalState :: addr where "DH_SignalState = 0x04"
definition DH_WaitListHead :: addr where "DH_WaitListHead = 0x08"
definition KMUTANT_OwnerThread :: addr where "KMUTANT_OwnerThread = 0x28"
definition KTHREAD_SuspendCount :: addr where "KTHREAD_SuspendCount = 0x284"

lemmas dh_defs = DH_Type_def DH_Signalling_def DH_Size_def DH_SignalState_def DH_WaitListHead_def
  KMUTANT_OwnerThread_def KTHREAD_SuspendCount_def

definition event_notification_object :: u8 where "event_notification_object = 0"
definition event_synchronization_object :: u8 where "event_synchronization_object = 1"
definition mutant_object :: u8 where "mutant_object = 2"
definition process_object :: u8 where "process_object = 3"
definition queue_object :: u8 where "queue_object = 4"
definition semaphore_object :: u8 where "semaphore_object = 5"
definition thread_object :: u8 where "thread_object = 6"
definition gate_object :: u8 where "gate_object = 7"
definition timer_notification_object :: u8 where "timer_notification_object = 8"
definition timer_synchronization_object :: u8 where "timer_synchronization_object = 9"

lemmas dispatcher_types = event_notification_object_def event_synchronization_object_def
  mutant_object_def process_object_def queue_object_def semaphore_object_def thread_object_def
  gate_object_def timer_notification_object_def timer_synchronization_object_def

text \<open>\<open>sizeof(T) / 4\<close>, kept in a byte.\<close>

definition dispatcher_size :: "nat \<Rightarrow> u8" where
  "dispatcher_size sz = of_nat (sz div 4)"

definition type_at :: "addr \<Rightarrow> gmem \<Rightarrow> emu_error + u8" where
  "type_at object g = g_get 1 (object + DH_Type) g"

definition state_at :: "addr \<Rightarrow> gmem \<Rightarrow> emu_error + u32" where
  "state_at object g = g_get 4 (object + DH_SignalState) g"

definition set_state_at :: "addr \<Rightarrow> u32 \<Rightarrow> gmem \<Rightarrow> emu_error + gmem" where
  "set_state_at object state g = g_put 4 (object + DH_SignalState) state g"

definition owner_at :: "addr \<Rightarrow> gmem \<Rightarrow> emu_error + addr" where
  "owner_at object g = g_get 8 (object + KMUTANT_OwnerThread) g"

definition set_owner_at :: "addr \<Rightarrow> addr \<Rightarrow> gmem \<Rightarrow> emu_error + gmem" where
  "set_owner_at object owner g = g_put 8 (object + KMUTANT_OwnerThread) owner g"

definition init_dispatcher :: "addr \<Rightarrow> nat \<Rightarrow> u8 \<Rightarrow> u32 \<Rightarrow> gmem \<Rightarrow> emu_error + gmem" where
  "init_dispatcher object sz type state g =
     bind_result (g_put 1 (object + DH_Type) type g) (\<lambda>g.
     bind_result (g_put 1 (object + DH_Signalling) (0 :: u8) g) (\<lambda>g.
     bind_result (g_put 1 (object + DH_Size) (dispatcher_size sz) g) (\<lambda>g.
     bind_result (g_put 4 (object + DH_SignalState) state g) (\<lambda>g.
       let head = object + DH_WaitListHead in
       g_write head (le_enc 8 head @ le_enc 8 head) g))))"

definition is_signalled :: "addr \<Rightarrow> addr \<Rightarrow> gmem \<Rightarrow> emu_error + bool" where
  "is_signalled object waiter g =
     bind_result (state_at object g) (\<lambda>state.
       if sint state \<le> 0 then
         bind_result (type_at object g) (\<lambda>type.
           if type = mutant_object then
             (if waiter = 0 then Inr False
              else bind_result (owner_at object g) (\<lambda>owner. Inr (owner = waiter)))
           else Inr False)
       else Inr True)"

definition take_object :: "addr \<Rightarrow> addr \<Rightarrow> gmem \<Rightarrow> emu_error + gmem" where
  "take_object object waiter g =
     bind_result (type_at object g) (\<lambda>type.
     bind_result (state_at object g) (\<lambda>state.
       if type \<in> {event_notification_object, process_object, thread_object, timer_notification_object}
       then Inr g
       else if type = mutant_object then
         bind_result (set_state_at object (state - 1) g) (set_owner_at object waiter)
       else if type \<in> {semaphore_object, queue_object} then set_state_at object (state - 1) g
       else set_state_at object 0 g))"

section \<open>Threads\<close>

record wait_state =
  ws_objects :: "addr list"
  ws_all :: bool
  ws_deadline :: int
  ws_timed :: bool
  ws_satisfied :: bool
  ws_status :: u32

record win_thread =
  tid :: nat
  ethread :: addr
  wait :: "wait_state option"
  alerted :: bool
  suspend_count :: u32
  started :: bool
  finished :: bool
  sleep_until :: int
  ret_value :: u32

definition sleep_for :: "int \<Rightarrow> int \<Rightarrow> win_thread \<Rightarrow> win_thread" where
  "sleep_for host_now ms t = t\<lparr>sleep_until := host_now + ms * 1000000\<rparr>"

definition is_sleeping :: "int \<Rightarrow> win_thread \<Rightarrow> bool" where
  "is_sleeping host_now t \<longleftrightarrow> host_now < sleep_until t"

text \<open>\<open>std::chrono::ceil<milliseconds>\<close> of a count of 100ns ticks.\<close>

definition ceil_ms :: "int \<Rightarrow> int" where
  "ceil_ms ticks = (ticks + 9999) div 10000"

definition begin_wait :: "int \<Rightarrow> int \<Rightarrow> wait_state \<Rightarrow> win_thread \<Rightarrow> win_thread" where
  "begin_wait guest_now host_now w t =
     (let t = (if ws_timed w
               then sleep_for host_now (ceil_ms (max 0 (ws_deadline w - guest_now))) t else t)
      in t\<lparr>wait := Some w\<rparr>)"

definition is_waiting :: "win_thread \<Rightarrow> bool" where
  "is_waiting t \<longleftrightarrow> wait t \<noteq> None"

definition waiting_on :: "addr \<Rightarrow> win_thread \<Rightarrow> bool" where
  "waiting_on object t \<longleftrightarrow> (case wait t of Some w \<Rightarrow> object \<in> set (ws_objects w) | None \<Rightarrow> False)"

fun all_signalled :: "addr list \<Rightarrow> addr \<Rightarrow> gmem \<Rightarrow> emu_error + bool" where
  "all_signalled [] self g = Inr True"
| "all_signalled (a # as) self g =
     bind_result (is_signalled a self g) (\<lambda>b. if b then all_signalled as self g else Inr False)"

text \<open>The index of the first available object, counted from \<open>i\<close>.\<close>

fun first_signalled :: "addr list \<Rightarrow> nat \<Rightarrow> addr \<Rightarrow> gmem \<Rightarrow> emu_error + nat option" where
  "first_signalled [] i self g = Inr None"
| "first_signalled (a # as) i self g =
     bind_result (is_signalled a self g)
       (\<lambda>b. if b then Inr (Some i) else first_signalled as (Suc i) self g)"

fun take_all :: "addr list \<Rightarrow> addr \<Rightarrow> gmem \<Rightarrow> emu_error + gmem" where
  "take_all [] self g = Inr g"
| "take_all (a # as) self g = bind_result (take_object a self g) (take_all as self)"

definition try_satisfy :: "win_thread \<times> gmem \<Rightarrow> emu_error + bool \<times> win_thread \<times> gmem" where
  "try_satisfy = (\<lambda>(t, g).
     case wait t of
       None \<Rightarrow> Inr (False, t, g)
     | Some w \<Rightarrow>
         if ws_satisfied w then Inr (False, t, g)
         else
           let self = ethread t;
               finish = (\<lambda>status g.
                 Inr (True, t\<lparr>wait := Some (w\<lparr>ws_status := status, ws_satisfied := True\<rparr>)\<rparr>, g))
           in if ws_all w then
                bind_result (all_signalled (ws_objects w) self g) (\<lambda>b.
                  if \<not> b then Inr (False, t, g)
                  else bind_result (take_all (ws_objects w) self g) (finish STATUS_SUCCESS))
              else
                bind_result (first_signalled (ws_objects w) 0 self g) (\<lambda>taken.
                  case taken of
                    None \<Rightarrow> Inr (False, t, g)
                  | Some i \<Rightarrow> bind_result (take_object (ws_objects w ! i) self g) (finish (of_nat i))))"

definition alert :: "win_thread \<Rightarrow> win_thread" where
  "alert t =
     (case wait t of
        Some w \<Rightarrow>
          if \<not> ws_satisfied w \<and> ws_objects w = [] then
            t\<lparr>wait := Some (w\<lparr>ws_status := STATUS_SUCCESS, ws_satisfied := True\<rparr>)\<rparr>
          else t\<lparr>alerted := True\<rparr>
      | None \<Rightarrow> t\<lparr>alerted := True\<rparr>)"

definition take_alert :: "win_thread \<Rightarrow> bool \<times> win_thread" where
  "take_alert t = (alerted t, t\<lparr>alerted := False\<rparr>)"

definition write_suspend_count :: "win_thread \<Rightarrow> gmem \<Rightarrow> emu_error + gmem" where
  "write_suspend_count t g =
     (if ethread t \<noteq> 0
      then g_put 1 (ethread t + KTHREAD_SuspendCount) (ucast (suspend_count t) :: u8) g else Inr g)"

definition suspend :: "win_thread \<times> gmem \<Rightarrow> emu_error + u32 \<times> win_thread \<times> gmem" where
  "suspend = (\<lambda>(t, g).
     let previous = suspend_count t; t = t\<lparr>suspend_count := suspend_count t + 1\<rparr> in
     bind_result (write_suspend_count t g) (\<lambda>g. Inr (previous, t, g)))"

text \<open>The last component of the result: whether the scheduler is woken.\<close>

definition resume_thread :: "win_thread \<times> gmem \<Rightarrow> emu_error + u32 \<times> win_thread \<times> gmem \<times> bool" where
  "resume_thread = (\<lambda>(t, g).
     let previous = suspend_count t;
         t = (if suspend_count t \<noteq> 0 then t\<lparr>suspend_count := suspend_count t - 1\<rparr> else t) in
     bind_result (write_suspend_count t g) (\<lambda>g.
       Inr (previous, t, g, suspend_count t = 0 \<and> previous \<noteq> 0)))"

text \<open>\<open>thread::may_run\<close> and \<open>thread::is_ready\<close> of the base class ask the same question.\<close>

definition base_ready :: "int \<Rightarrow> win_thread \<Rightarrow> bool" where
  "base_ready host_now t \<longleftrightarrow> started t \<and> \<not> is_sleeping host_now t"

definition may_run :: "int \<Rightarrow> int \<Rightarrow> win_thread \<Rightarrow> bool" where
  "may_run guest_now host_now t \<longleftrightarrow>
     (if suspend_count t \<noteq> 0 then False
      else case wait t of
             Some w \<Rightarrow> ws_satisfied w \<or> (ws_timed w \<and> ws_deadline w \<le> guest_now)
           | None \<Rightarrow> base_ready host_now t)"

definition is_ready :: "int \<Rightarrow> int \<Rightarrow> win_thread \<Rightarrow> bool \<times> win_thread" where
  "is_ready guest_now host_now t =
     (if suspend_count t \<noteq> 0 then (False, t)
      else case wait t of
             None \<Rightarrow> (base_ready host_now t, t)
           | Some w \<Rightarrow>
               let finish = (\<lambda>status. (sleep_for host_now 0 (t\<lparr>ret_value := status\<rparr>))\<lparr>wait := None\<rparr>) in
               if ws_satisfied w then (True, finish (ws_status w))
               else if ws_timed w then
                 let remaining = ws_deadline w - guest_now in
                 if remaining \<le> 0 then (True, finish STATUS_TIMEOUT)
                 else (False, sleep_for host_now (ceil_ms remaining) t)
               else (False, t))"

section \<open>The abstract object\<close>

text \<open>
  What a wait promises, without memory: an object is its type, its signal state and, for a
  mutant, its owner. \<open>dview\<close> reads it out of guest memory and \<open>extent\<close> is the memory it is
  read from.
\<close>

record dobj =
  d_type :: u8
  d_state :: u32
  d_owner :: addr

definition signalled :: "addr \<Rightarrow> dobj \<Rightarrow> bool" where
  "signalled waiter d \<longleftrightarrow>
     0 < sint (d_state d) \<or> (d_type d = mutant_object \<and> waiter \<noteq> 0 \<and> d_owner d = waiter)"

definition taken :: "addr \<Rightarrow> dobj \<Rightarrow> dobj" where
  "taken waiter d =
     (if d_type d \<in> {event_notification_object, process_object, thread_object, timer_notification_object}
      then d
      else if d_type d = mutant_object then d\<lparr>d_state := d_state d - 1, d_owner := waiter\<rparr>
      else if d_type d \<in> {semaphore_object, queue_object} then d\<lparr>d_state := d_state d - 1\<rparr>
      else d\<lparr>d_state := 0\<rparr>)"

definition dview :: "gmem \<Rightarrow> addr \<Rightarrow> dobj \<Rightarrow> bool" where
  "dview g a d \<longleftrightarrow>
     type_at a g = Inr (d_type d) \<and> state_at a g = Inr (d_state d) \<and>
     (if d_type d = mutant_object then owner_at a g = Inr (d_owner d) else d_owner d = 0)"

definition extent :: "addr \<Rightarrow> dobj \<Rightarrow> addr set" where
  "extent a d = span a (if d_type d = mutant_object then 0x30 else 0x08)"

lemma field_in: "off + n \<le> m \<Longrightarrow> of_nat off = w \<Longrightarrow> span (a + w) n \<subseteq> span a m"
  using span_offset by blast

lemma extent_fields:
  "span (a + DH_Type) 1 \<subseteq> extent a d" "span (a + DH_SignalState) 4 \<subseteq> extent a d"
  "d_type d = mutant_object \<Longrightarrow> span (a + KMUTANT_OwnerThread) 8 \<subseteq> extent a d"
  unfolding extent_def dh_defs
  by (rule field_in [of 0], simp, simp, rule field_in [of 4], simp, simp, simp,
      rule field_in [of "0x28"], simp_all)

lemma dview_cong:
  assumes "dview g a d" and "\<And>x. x \<in> extent a d \<Longrightarrow> g' x = g x"
  shows "dview g' a d"
proof -
  have "type_at a g' = type_at a g"
    unfolding type_at_def by (rule g_get_cong) (use extent_fields(1) assms(2) in blast)
  moreover have "state_at a g' = state_at a g"
    unfolding state_at_def by (rule g_get_cong) (use extent_fields(2) assms(2) in blast)
  moreover have "owner_at a g' = owner_at a g" if "d_type d = mutant_object"
    unfolding owner_at_def
    by (rule g_get_cong) (use extent_fields(3) [OF that] assms(2) in blast)
  ultimately show ?thesis using assms(1) by (auto simp: dview_def split: if_splits)
qed

lemma is_signalled_dview: "dview g a d \<Longrightarrow> is_signalled a waiter g = Inr (signalled waiter d)"
  by (auto simp: dview_def is_signalled_def signalled_def split: if_splits)

lemma fields_apart:
  "span (a + DH_SignalState) 4 \<inter> span (a + DH_Type) 1 = {}"
  "span (a + KMUTANT_OwnerThread) 8 \<inter> span (a + DH_Type) 1 = {}"
  "span (a + KMUTANT_OwnerThread) 8 \<inter> span (a + DH_SignalState) 4 = {}"
  "span (a + DH_SignalState) 4 \<inter> span (a + KMUTANT_OwnerThread) 8 = {}"
  using span_fields_apart [of 4 4 0 1 a] span_fields_apart [of "0x28" 8 0 1 a]
    span_fields_apart [of "0x28" 8 4 4 a] span_fields_apart [of 4 4 "0x28" 8 a]
  by (simp_all add: dh_defs)

text \<open>Setting the signal state, and setting the owner, of a viewed object.\<close>

lemma set_state_dview:
  assumes "dview g a d"
  obtains g' where "set_state_at a s g = Inr g'" and "dview g' a (d\<lparr>d_state := s\<rparr>)"
    and "\<forall>x. x \<notin> extent a d \<longrightarrow> g' x = g x"
proof -
  have "g_mapped g (a + DH_SignalState) 4"
    using assms by (auto simp: dview_def state_at_def dest: g_get_mapped)
  then obtain g' where w: "g_put 4 (a + DH_SignalState) s g = Inr g'"
    using g_put_total by blast
  have "state_at a g' = Inr s"
    using g_get_put_same [OF w] by (simp add: state_at_def take_bit_word_eq_self)
  moreover have "type_at a g' = type_at a g" "owner_at a g' = owner_at a g"
    unfolding type_at_def owner_at_def
    by (rule g_get_put_other [OF w fields_apart(1)]) (rule g_get_put_other [OF w fields_apart(4)])
  ultimately have "dview g' a (d\<lparr>d_state := s\<rparr>)" using assms by (auto simp: dview_def split: if_splits)
  moreover have "\<forall>x. x \<notin> extent a d \<longrightarrow> g' x = g x"
    using g_put_other [OF w] extent_fields(2) by blast
  ultimately show ?thesis using that w by (simp add: set_state_at_def)
qed

lemma set_owner_dview:
  assumes "dview g a d" and m: "d_type d = mutant_object"
  obtains g' where "set_owner_at a ow g = Inr g'" and "dview g' a (d\<lparr>d_owner := ow\<rparr>)"
    and "\<forall>x. x \<notin> extent a d \<longrightarrow> g' x = g x"
proof -
  have "g_mapped g (a + KMUTANT_OwnerThread) 8"
    using assms by (auto simp: dview_def owner_at_def dest: g_get_mapped)
  then obtain g' where w: "g_put 8 (a + KMUTANT_OwnerThread) ow g = Inr g'"
    using g_put_total by blast
  have "owner_at a g' = Inr ow"
    using g_get_put_same [OF w] by (simp add: owner_at_def take_bit_word_eq_self)
  moreover have "type_at a g' = type_at a g" "state_at a g' = state_at a g"
    unfolding type_at_def state_at_def
    by (rule g_get_put_other [OF w fields_apart(2)]) (rule g_get_put_other [OF w fields_apart(3)])
  ultimately have "dview g' a (d\<lparr>d_owner := ow\<rparr>)" using assms by (auto simp: dview_def)
  moreover have "\<forall>x. x \<notin> extent a d \<longrightarrow> g' x = g x"
    using g_put_other [OF w] extent_fields(3) [OF m] by blast
  ultimately show ?thesis using that w by (simp add: set_owner_at_def)
qed

lemma extent_taken [simp]: "extent a (taken w d) = extent a d"
  by (simp add: extent_def taken_def)

lemma extent_state [simp]: "extent a (d\<lparr>d_state := s\<rparr>) = extent a d"
  by (simp add: extent_def)

lemma take_dview:
  assumes "dview g a d"
  obtains g' where "take_object a w g = Inr g'" and "dview g' a (taken w d)"
    and "\<forall>x. x \<notin> extent a d \<longrightarrow> g' x = g x"
proof -
  have read: "type_at a g = Inr (d_type d)" "state_at a g = Inr (d_state d)"
    using assms by (auto simp: dview_def)
  consider (keep) "d_type d \<in> {event_notification_object, process_object, thread_object,
      timer_notification_object}"
    | (mutant) "d_type d = mutant_object"
    | (count) "d_type d \<in> {semaphore_object, queue_object}"
    | (auto) "d_type d \<notin> {event_notification_object, process_object, thread_object,
      timer_notification_object, mutant_object, semaphore_object, queue_object}" by blast
  then show ?thesis
  proof cases
    case keep
    then show ?thesis using that [of g] read assms by (simp add: take_object_def taken_def)
  next
    case mutant
    obtain g1 where g1: "set_state_at a (d_state d - 1) g = Inr g1"
      "dview g1 a (d\<lparr>d_state := d_state d - 1\<rparr>)" "\<forall>x. x \<notin> extent a d \<longrightarrow> g1 x = g x"
      by (rule set_state_dview [OF assms])
    obtain g2 where "set_owner_at a w g1 = Inr g2"
      "dview g2 a ((d\<lparr>d_state := d_state d - 1\<rparr>)\<lparr>d_owner := w\<rparr>)"
      "\<forall>x. x \<notin> extent a (d\<lparr>d_state := d_state d - 1\<rparr>) \<longrightarrow> g2 x = g1 x"
      by (rule set_owner_dview [OF g1(2)]) (use mutant in auto)
    with g1 mutant read that show ?thesis
      by (simp add: take_object_def taken_def dispatcher_types)
  next
    case count
    obtain g1 where "set_state_at a (d_state d - 1) g = Inr g1"
      "dview g1 a (d\<lparr>d_state := d_state d - 1\<rparr>)" "\<forall>x. x \<notin> extent a d \<longrightarrow> g1 x = g x"
      by (rule set_state_dview [OF assms])
    with count read that show ?thesis
      by (auto simp: take_object_def taken_def dispatcher_types)
  next
    case auto
    obtain g1 where "set_state_at a 0 g = Inr g1"
      "dview g1 a (d\<lparr>d_state := 0\<rparr>)" "\<forall>x. x \<notin> extent a d \<longrightarrow> g1 x = g x"
      by (rule set_state_dview [OF assms])
    with auto read that show ?thesis
      by (auto simp: take_object_def taken_def)
  qed
qed

section \<open>Waits over several objects\<close>

definition views :: "gmem \<Rightarrow> (addr \<Rightarrow> dobj) \<Rightarrow> addr list \<Rightarrow> bool" where
  "views g D as \<longleftrightarrow> (\<forall>a \<in> set as. dview g a (D a))"

definition separate :: "(addr \<Rightarrow> dobj) \<Rightarrow> addr list \<Rightarrow> bool" where
  "separate D as \<longleftrightarrow>
     distinct as \<and> (\<forall>a \<in> set as. \<forall>b \<in> set as. a \<noteq> b \<longrightarrow> extent a (D a) \<inter> extent b (D b) = {})"

lemma all_signalled_view:
  "views g D as \<Longrightarrow> all_signalled as w g = Inr (\<forall>a \<in> set as. signalled w (D a))"
  by (induction as) (auto simp: views_def is_signalled_dview)

lemma first_signalled_view:
  "views g D as \<Longrightarrow> first_signalled as i w g =
     Inr (if \<exists>a \<in> set as. signalled w (D a)
          then Some (i + length (takeWhile (\<lambda>a. \<not> signalled w (D a)) as)) else None)"
  by (induction as arbitrary: i) (auto simp: views_def is_signalled_dview)

lemma take_all_view:
  assumes "views g D as" and "separate D as"
  shows "\<exists>g'. take_all as w g = Inr g' \<and> views g' (\<lambda>a. taken w (D a)) as \<and>
    (\<forall>x. (\<forall>a \<in> set as. x \<notin> extent a (D a)) \<longrightarrow> g' x = g x)"
  using assms
proof (induction as arbitrary: g)
  case Nil
  then show ?case by (simp add: views_def)
next
  case (Cons a as)
  have a: "dview g a (D a)" using Cons.prems(1) by (simp add: views_def)
  obtain g1 where g1: "take_object a w g = Inr g1" "dview g1 a (taken w (D a))"
    "\<forall>x. x \<notin> extent a (D a) \<longrightarrow> g1 x = g x"
    by (rule take_dview [OF a])
  have apart: "extent b (D b) \<inter> extent a (D a) = {}" if "b \<in> set as" for b
    using Cons.prems(2) that by (auto simp: separate_def)
  have "views g1 D as"
    unfolding views_def
  proof
    fix b assume b: "b \<in> set as"
    then have "dview g b (D b)" using Cons.prems(1) by (simp add: views_def)
    then show "dview g1 b (D b)" by (rule dview_cong) (use apart [OF b] g1(3) in blast)
  qed
  moreover have "separate D as" using Cons.prems(2) by (auto simp: separate_def)
  ultimately obtain g2 where g2: "take_all as w g1 = Inr g2" "views g2 (\<lambda>a. taken w (D a)) as"
    "\<forall>x. (\<forall>a \<in> set as. x \<notin> extent a (D a)) \<longrightarrow> g2 x = g1 x"
    using Cons.IH by blast
  have "dview g2 a (taken w (D a))"
    using g1(2) by (rule dview_cong) (use apart g2(3) in auto)
  with g1 g2 show ?case by (auto simp: views_def)
qed

lemma takeWhile_first:
  "\<exists>a \<in> set as. P a \<Longrightarrow> length (takeWhile (\<lambda>a. \<not> P a) as) < length as \<and>
     P (as ! length (takeWhile (\<lambda>a. \<not> P a) as)) \<and>
     (\<forall>j < length (takeWhile (\<lambda>a. \<not> P a) as). \<not> P (as ! j))"
  by (induction as) (auto simp: nth_Cons split: nat.split)

section \<open>Properties\<close>

text \<open>
  C32: Trying to satisfy a wait does what the wait promises of the abstract objects. A wait for
  all is satisfied exactly when every object is available, takes each of them once and returns
  success; otherwise nothing is taken. A wait for any takes the first available object and no
  other, and returns its index; with none available nothing changes.
\<close>

theorem try_satisfy_correct:
  assumes "wait t = Some w" and "\<not> ws_satisfied w" and "views g D (ws_objects w)"
    and "separate D (ws_objects w)"
  shows "if ws_all w
    then (if \<forall>a \<in> set (ws_objects w). signalled (ethread t) (D a)
      then \<exists>g'. try_satisfy (t, g) =
          Inr (True, t\<lparr>wait := Some (w\<lparr>ws_status := STATUS_SUCCESS, ws_satisfied := True\<rparr>)\<rparr>, g') \<and>
        views g' (\<lambda>a. taken (ethread t) (D a)) (ws_objects w) \<and>
        (\<forall>x. (\<forall>a \<in> set (ws_objects w). x \<notin> extent a (D a)) \<longrightarrow> g' x = g x)
      else try_satisfy (t, g) = Inr (False, t, g))
    else (if \<exists>a \<in> set (ws_objects w). signalled (ethread t) (D a)
      then \<exists>g' i. i < length (ws_objects w) \<and> signalled (ethread t) (D (ws_objects w ! i)) \<and>
        (\<forall>j < i. \<not> signalled (ethread t) (D (ws_objects w ! j))) \<and>
        try_satisfy (t, g) =
          Inr (True, t\<lparr>wait := Some (w\<lparr>ws_status := of_nat i, ws_satisfied := True\<rparr>)\<rparr>, g') \<and>
        views g' (\<lambda>a. if a = ws_objects w ! i then taken (ethread t) (D a) else D a) (ws_objects w) \<and>
        (\<forall>x. x \<notin> extent (ws_objects w ! i) (D (ws_objects w ! i)) \<longrightarrow> g' x = g x)
      else try_satisfy (t, g) = Inr (False, t, g))"
proof (cases "ws_all w")
  case True
  then show ?thesis
    using assms all_signalled_view [OF assms(3), of "ethread t"]
      take_all_view [OF assms(3,4), of "ethread t"]
    by (auto simp: try_satisfy_def Let_def)
next
  case False
  let ?P = "\<lambda>a. signalled (ethread t) (D a)"
  let ?i = "length (takeWhile (\<lambda>a. \<not> ?P a) (ws_objects w))"
  show ?thesis
  proof (cases "\<exists>a \<in> set (ws_objects w). ?P a")
    case ex: True
    note i = takeWhile_first [OF ex]
    let ?a = "ws_objects w ! ?i"
    have "dview g ?a (D ?a)" using assms(3) i by (auto simp: views_def)
    then obtain g' where g': "take_object ?a (ethread t) g = Inr g'"
      "dview g' ?a (taken (ethread t) (D ?a))" "\<forall>x. x \<notin> extent ?a (D ?a) \<longrightarrow> g' x = g x"
      by (rule take_dview)
    have "views g' (\<lambda>a. if a = ?a then taken (ethread t) (D a) else D a) (ws_objects w)"
      unfolding views_def
    proof
      fix b assume b: "b \<in> set (ws_objects w)"
      show "dview g' b (if b = ?a then taken (ethread t) (D b) else D b)"
      proof (cases "b = ?a")
        case True
        then show ?thesis using g'(2) by simp
      next
        case ne: False
        have "extent b (D b) \<inter> extent ?a (D ?a) = {}"
          using assms(4) b i ne by (auto simp: separate_def)
        moreover have "dview g b (D b)" using assms(3) b by (simp add: views_def)
        ultimately show ?thesis using ne dview_cong [of g b "D b" g'] g'(3) by auto
      qed
    qed
    moreover have "try_satisfy (t, g) =
        Inr (True, t\<lparr>wait := Some (w\<lparr>ws_status := of_nat ?i, ws_satisfied := True\<rparr>)\<rparr>, g')"
      using assms False ex g'(1) first_signalled_view [OF assms(3), of 0 "ethread t"]
      by (simp add: try_satisfy_def Let_def)
    ultimately show ?thesis using False ex i g'(3) by auto
  next
    case no: False
    then show ?thesis
      using assms False first_signalled_view [OF assms(3), of 0 "ethread t"]
      by (simp add: try_satisfy_def Let_def)
  qed
qed

text \<open>Two semaphores, the second with a count of one.\<close>

definition demo_sems :: gmem where
  "demo_sems x =
     (if x = 0x1000 \<or> x = 0x2000 then Some 5
      else if x = 0x2004 then Some 1
      else if 0x1000 \<le> x \<and> x < 0x3000 then Some 0 else None)"

definition demo_sem :: "addr \<Rightarrow> dobj" where
  "demo_sem a = \<lparr>d_type = 5, d_state = (if a = 0x2000 then 1 else 0), d_owner = 0\<rparr>"

definition demo_waiter :: win_thread where
  "demo_waiter =
     \<lparr>tid = 1, ethread = 0x9000,
      wait = Some \<lparr>ws_objects = [0x1000, 0x2000], ws_all = False, ws_deadline = 0, ws_timed = False,
                   ws_satisfied = False, ws_status = 0\<rparr>,
      alerted = False, suspend_count = 0, started = True, finished = False, sleep_until = 0,
      ret_value = 0\<rparr>"

lemma demo_sems_views: "views demo_sems demo_sem [0x1000, 0x2000]"
proof -
  have "type_at 0x1000 demo_sems = Inr 5" "state_at 0x1000 demo_sems = Inr 0"
    "type_at 0x2000 demo_sems = Inr 5" "state_at 0x2000 demo_sems = Inr 1" by code_simp+
  then show ?thesis by (simp add: views_def dview_def demo_sem_def mutant_object_def)
qed

lemma demo_sems_separate: "separate demo_sem [0x1000, 0x2000]"
  by (simp add: separate_def extent_def demo_sem_def mutant_object_def span_def lessThan_nat_numeral
      lessThan_Suc)

theorem try_satisfy_correct_witness:
  "\<exists>g' i. try_satisfy (demo_waiter, demo_sems) = Inr (True, demo_waiter\<lparr>wait := Some
      ((the (wait demo_waiter))\<lparr>ws_status := of_nat i, ws_satisfied := True\<rparr>)\<rparr>, g') \<and>
     i = 1 \<and> dview g' 0x2000 \<lparr>d_type = 5, d_state = 0, d_owner = 0\<rparr>"
proof -
  let ?w = "the (wait demo_waiter)"
  have w: "wait demo_waiter = Some ?w" "ws_objects ?w = [0x1000, 0x2000]" "\<not> ws_all ?w"
    "\<not> ws_satisfied ?w"
    by (simp_all add: demo_waiter_def)
  have sig: "signalled 0x9000 (demo_sem 0x2000)" "\<not> signalled 0x9000 (demo_sem 0x1000)"
    by (simp_all add: signalled_def demo_sem_def mutant_object_def)
  have e: "ethread demo_waiter = 0x9000" by (simp add: demo_waiter_def)
  have ex: "(\<exists>a \<in> set [0x1000, 0x2000]. signalled 0x9000 (demo_sem a)) = True" using sig by simp
  note r0 = try_satisfy_correct [OF w(1,4), of demo_sems demo_sem, unfolded w(2) e,
      OF demo_sems_views demo_sems_separate]
  obtain g' i where r: "i < length [0x1000, 0x2000 :: addr]"
    "signalled 0x9000 (demo_sem ([0x1000, 0x2000] ! i))"
    "try_satisfy (demo_waiter, demo_sems) =
       Inr (True, demo_waiter\<lparr>wait := Some (?w\<lparr>ws_status := of_nat i, ws_satisfied := True\<rparr>)\<rparr>, g')"
    "views g' (\<lambda>a. if a = [0x1000, 0x2000] ! i then taken 0x9000 (demo_sem a) else demo_sem a)
       [0x1000, 0x2000]"
    using r0 unfolding ex if_True if_not_P [OF w(3)] by blast
  have i: "i = 1" using r(1,2) sig(2) by (cases i) auto
  have "dview g' 0x2000 (taken 0x9000 (demo_sem 0x2000))" using r(4) i by (simp add: views_def)
  then have "dview g' 0x2000 \<lparr>d_type = 5, d_state = 0, d_owner = 0\<rparr>"
    by (simp add: taken_def demo_sem_def dispatcher_types)
  with r(3) i show ?thesis by blast
qed

lemma ceil_ms_covers: "0 < ticks \<Longrightarrow> ticks \<le> ceil_ms ticks * 10000 \<and> 0 < ceil_ms ticks"
  unfolding ceil_ms_def by (simp add: pos_imp_zdiv_pos_iff)

text \<open>
  Asking whether a thread wants a cpu gives the answer the cpu about to run it gets. A
  thread taken off a wait no longer waits or sleeps and returns the status it was released
  with, or that the time ran out; a suspended one is untouched; and one whose time has not run
  out keeps its wait and is put to sleep at least until its deadline.
\<close>

theorem is_ready_correct:
  "fst (is_ready gnow hnow t) = may_run gnow hnow t \<and>
   (case wait t of
      None \<Rightarrow> snd (is_ready gnow hnow t) = t
    | Some w \<Rightarrow>
        if suspend_count t \<noteq> 0 then snd (is_ready gnow hnow t) = t
        else if may_run gnow hnow t then
          wait (snd (is_ready gnow hnow t)) = None \<and> \<not> is_sleeping hnow (snd (is_ready gnow hnow t)) \<and>
          ret_value (snd (is_ready gnow hnow t)) =
            (if ws_satisfied w then ws_status w else STATUS_TIMEOUT)
        else
          wait (snd (is_ready gnow hnow t)) = wait t \<and>
          ret_value (snd (is_ready gnow hnow t)) = ret_value t \<and>
          (ws_timed w \<longrightarrow> is_sleeping hnow (snd (is_ready gnow hnow t)) \<and>
             (ws_deadline w - gnow) * 100 \<le> sleep_until (snd (is_ready gnow hnow t)) - hnow))"
proof (cases "wait t")
  case None
  then show ?thesis by (simp add: is_ready_def may_run_def)
next
  case (Some w)
  have "(ws_deadline w - gnow) * 100 \<le> ceil_ms (ws_deadline w - gnow) * 1000000 \<and>
      0 < ceil_ms (ws_deadline w - gnow)" if "0 < ws_deadline w - gnow"
    using ceil_ms_covers [OF that] by auto
  with Some show ?thesis
    by (auto simp: is_ready_def may_run_def Let_def sleep_for_def is_sleeping_def)
qed

theorem is_ready_correct_witness:
  "fst (is_ready 5 7 (demo_waiter\<lparr>wait := Some ((the (wait demo_waiter))\<lparr>ws_timed := True,
     ws_deadline := 30001\<rparr>)\<rparr>)) = False \<and>
   is_sleeping 7 (snd (is_ready 5 7 (demo_waiter\<lparr>wait := Some ((the (wait demo_waiter))\<lparr>ws_timed := True,
     ws_deadline := 30001\<rparr>)\<rparr>)))"
  using is_ready_correct [of 5 7 "demo_waiter\<lparr>wait := Some ((the (wait demo_waiter))\<lparr>ws_timed := True,
     ws_deadline := 30001\<rparr>)\<rparr>"]
  by (simp add: demo_waiter_def may_run_def)

end
