(* ===== verification/Scheduler.thy ===== *)
theory Scheduler
  imports Dispatcher "HOL-Library.Multiset"
begin

text \<open>
  \<open>kernel/thread_scheduler.hpp\<close>: the ready queue the virtual cpus share, the loop each of them
  runs, and the preemption of busy cpus. A \<open>shared_ptr<thread>\<close> is the number of a thread
  object. The parts of the loop between two points where the lock is dropped are the steps of
  the relation \<open>sched_step\<close>; the guest code a cpu runs may do anything to the threads the
  sources let it do. The registers of a thread that is off a cpu are a list beside the list of
  register names of the architecture.
\<close>

section \<open>Registers of a thread\<close>

text \<open>\<open>get_reg\<close> and \<open>set_reg\<close> take the first register of that name; an unknown one reads zero.\<close>

fun get_reg :: "'r list \<Rightarrow> 'r \<Rightarrow> u64 list \<Rightarrow> u64" where
  "get_reg (q # regs) r (v # vals) = (if q = r then v else get_reg regs r vals)"
| "get_reg regs r vals = 0"

fun set_reg :: "'r list \<Rightarrow> 'r \<Rightarrow> u64 \<Rightarrow> u64 list \<Rightarrow> u64 list" where
  "set_reg (q # regs) r x (v # vals) = (if q = r then x # vals else v # set_reg regs r x vals)"
| "set_reg regs r x vals = vals"

text \<open>\<open>save\<close> reads every register of the cpu in order, \<open>restore\<close> writes them back.\<close>

definition save_regs :: "'r list \<Rightarrow> ('r \<Rightarrow> u64) \<Rightarrow> u64 list" where
  "save_regs regs cpu = map cpu regs"

fun restore_regs :: "'r list \<Rightarrow> u64 list \<Rightarrow> ('r \<Rightarrow> u64) \<Rightarrow> 'r \<Rightarrow> u64" where
  "restore_regs (r # regs) (v # vals) cpu = restore_regs regs vals (cpu(r := v))"
| "restore_regs regs vals cpu = cpu"

text \<open>What the constructor leaves: the registers of the cpu with the entry point and the stack.\<close>

definition new_thread_regs :: "'r list \<Rightarrow> 'r \<Rightarrow> 'r \<Rightarrow> addr \<Rightarrow> addr \<Rightarrow> ('r \<Rightarrow> u64) \<Rightarrow> u64 list" where
  "new_thread_regs regs pc sp start_addr stack_ptr cpu =
     map (\<lambda>r. if r = pc then start_addr else if r = sp then stack_ptr else cpu r) regs"

text \<open>A process bounds what a stack may be.\<close>

definition default_stack_size :: u64 where "default_stack_size = 0x10000"
definition max_stack_size :: u64 where "max_stack_size = 0x100000"

definition thread_stack_size :: "u64 \<Rightarrow> u64" where
  "thread_stack_size wanted =
     (let pages = (max wanted default_stack_size + 0xFFF) AND NOT 0xFFF in min pages max_stack_size)"

section \<open>The ready queue\<close>

record scheduler =
  ready_queue :: "nat list"
  stopped :: bool
  threads :: "nat \<Rightarrow> win_thread"

text \<open>What a cpu shares with the scheduler: \<open>cpu.thread()\<close> and the stop flag \<open>try_stop\<close> raises.\<close>

record vcpu =
  cur :: "nat option"
  stop_flag :: bool

definition enqueue :: "nat \<Rightarrow> scheduler \<Rightarrow> scheduler" where
  "enqueue r s = s\<lparr>ready_queue := ready_queue s @ [r]\<rparr>"

definition remove :: "nat \<Rightarrow> scheduler \<Rightarrow> scheduler" where
  "remove i s = s\<lparr>ready_queue := filter (\<lambda>r. tid (threads s r) \<noteq> i) (ready_queue s)\<rparr>"

definition stop :: "scheduler \<Rightarrow> scheduler" where
  "stop s = s\<lparr>stopped := True\<rparr>"

definition set_thread :: "nat \<Rightarrow> (win_thread \<Rightarrow> win_thread) \<Rightarrow> scheduler \<Rightarrow> scheduler" where
  "set_thread r f s = s\<lparr>threads := (threads s)(r := f (threads s r))\<rparr>"

definition start :: "nat \<Rightarrow> scheduler \<Rightarrow> scheduler" where
  "start r s = set_thread r (\<lambda>t. t\<lparr>started := True\<rparr>) s"

definition finish :: "nat \<Rightarrow> scheduler \<Rightarrow> scheduler" where
  "finish r s = set_thread r (\<lambda>t. t\<lparr>finished := True\<rparr>) s"

definition yield_current :: "vcpu \<Rightarrow> vcpu" where
  "yield_current c = c\<lparr>stop_flag := True\<rparr>"

definition sleep_current :: "int \<Rightarrow> int \<Rightarrow> vcpu \<times> scheduler \<Rightarrow> vcpu \<times> scheduler" where
  "sleep_current host_now ms = (\<lambda>(c, s).
     (yield_current c, case cur c of Some r \<Rightarrow> set_thread r (sleep_for host_now ms) s | None \<Rightarrow> s))"

fun preempt_loop :: "nat \<Rightarrow> vcpu list \<Rightarrow> vcpu list" where
  "preempt_loop spare [] = []"
| "preempt_loop spare (c # cs) =
     (if spare = 0 then c # cs
      else if cur c = None then c # preempt_loop spare cs
      else c\<lparr>stop_flag := True\<rparr> # preempt_loop (spare - 1) cs)"

definition preempt_for_waiting :: "int \<Rightarrow> int \<Rightarrow> scheduler \<Rightarrow> vcpu list \<Rightarrow> vcpu list" where
  "preempt_for_waiting gnow hnow s cs =
     preempt_loop (length (filter (\<lambda>r. may_run gnow hnow (threads s r)) (ready_queue s))) cs"

text \<open>The search asks \<open>is_ready\<close> of each thread in turn, which changes the ones it asks.\<close>

fun first_runnable :: "int \<Rightarrow> int \<Rightarrow> nat list \<Rightarrow> (nat \<Rightarrow> win_thread) \<Rightarrow> nat option \<times> (nat \<Rightarrow> win_thread)" where
  "first_runnable gnow hnow [] ts = (None, ts)"
| "first_runnable gnow hnow (r # q) ts =
     (let (ready, t) = is_ready gnow hnow (ts r); ts = ts(r := t) in
      if ready then (Some r, ts) else first_runnable gnow hnow q ts)"

fun next_wake_loop :: "int \<Rightarrow> nat list \<Rightarrow> (nat \<Rightarrow> win_thread) \<Rightarrow> int option \<Rightarrow> int option" where
  "next_wake_loop hnow [] ts earliest = earliest"
| "next_wake_loop hnow (r # q) ts earliest =
     next_wake_loop hnow q ts
       (if is_sleeping hnow (ts r) \<and>
           (case earliest of None \<Rightarrow> True | Some e \<Rightarrow> sleep_until (ts r) < e)
        then Some (sleep_until (ts r)) else earliest)"

definition next_wake :: "int \<Rightarrow> scheduler \<Rightarrow> int option" where
  "next_wake hnow s = next_wake_loop hnow (ready_queue s) (threads s) None"

definition nothing_left :: "vcpu list \<Rightarrow> scheduler \<Rightarrow> bool" where
  "nothing_left cs s \<longleftrightarrow> ready_queue s = [] \<and> list_all (\<lambda>c. cur c = None) cs"

section \<open>Scheduling\<close>

text \<open>What one turn of the loop of \<open>schedule\<close> comes to; a park is until a time or a notification.\<close>

datatype outcome = Leave | Take nat | Park "int option"

text \<open>
  The turn, under the lock. The clocks are read once by the search and once more for the time
  to wake at.
\<close>

definition schedule_turn ::
  "int \<Rightarrow> int \<Rightarrow> int \<Rightarrow> vcpu list \<Rightarrow> scheduler \<Rightarrow> outcome \<times> scheduler" where
  "schedule_turn gnow hnow later cs s =
     (if stopped s \<or> nothing_left cs s then (Leave, s)
      else
        let (found, ts) = first_runnable gnow hnow (ready_queue s) (threads s);
            s = s\<lparr>threads := ts\<rparr> in
        case found of
          Some r \<Rightarrow> (Take r, s\<lparr>ready_queue := remove1 r (ready_queue s)\<rparr>)
        | None \<Rightarrow> (Park (next_wake later s), s))"

text \<open>The part before the loop: the thread the cpu comes with goes to the back of the queue.\<close>

definition requeue :: "nat option \<Rightarrow> vcpu \<times> scheduler \<Rightarrow> vcpu \<times> scheduler" where
  "requeue prev = (\<lambda>(c, s).
     case prev of
       None \<Rightarrow> (c, s)
     | Some r \<Rightarrow> (c\<lparr>cur := None\<rparr>, s\<lparr>ready_queue := ready_queue s @ [r]\<rparr>))"

definition release :: "vcpu \<Rightarrow> vcpu" where
  "release c = c\<lparr>cur := None\<rparr>"

text \<open>Where a cpu is in \<open>run\<close>, between two steps.\<close>

datatype place =
    Calling "nat option"
  | Parked
  | Resuming nat
  | Running nat
  | Retiring nat
  | Leaving
  | Gone

text \<open>
  The machine, with two ghosts: the threads ever queued, and those that were retired or taken
  off the queue by \<open>remove\<close>.
\<close>

record machine =
  sched :: scheduler
  cpus :: "vcpu list"
  places :: "place list"
  born :: "nat set"
  dead :: "nat set"

definition after_turn :: "nat \<Rightarrow> outcome \<times> scheduler \<Rightarrow> machine \<Rightarrow> machine" where
  "after_turn i = (\<lambda>(out, s) m.
     case out of
       Leave \<Rightarrow> m\<lparr>sched := s, places := (places m)[i := Leaving]\<rparr>
     | Take r \<Rightarrow> m\<lparr>sched := s, cpus := (cpus m)[i := (cpus m ! i)\<lparr>cur := Some r\<rparr>], places := (places m)[i := Resuming r]\<rparr>
     | Park w \<Rightarrow> m\<lparr>sched := s, places := (places m)[i := Parked]\<rparr>)"

text \<open>References the machine still holds.\<close>

definition held :: "machine \<Rightarrow> nat set" where
  "held m = set (ready_queue (sched m)) \<union> {r. Some r \<in> cur ` set (cpus m)}"

inductive sched_step :: "machine \<Rightarrow> machine \<Rightarrow> bool" where
  schedule: "i < length (cpus m) \<Longrightarrow> places m ! i = Calling prev \<Longrightarrow>
    requeue prev (cpus m ! i, sched m) = (c, s) \<Longrightarrow> hnow \<le> later \<Longrightarrow>
    m1 = m\<lparr>sched := s, cpus := (cpus m)[i := c]\<rparr> \<Longrightarrow>
    sched_step m (after_turn i (schedule_turn gnow hnow later (cpus m1) s) m1)"
| wakeup: "i < length (cpus m) \<Longrightarrow> places m ! i = Parked \<Longrightarrow> hnow \<le> later \<Longrightarrow>
    sched_step m (after_turn i (schedule_turn gnow hnow later (cpus m) (sched m)) m)"
| resume: "i < length (cpus m) \<Longrightarrow> places m ! i = Resuming r \<Longrightarrow>
    sched_step m (m\<lparr>places := (places m)[i := Running r]\<rparr>)"
| quantum: "i < length (cpus m) \<Longrightarrow> places m ! i = Running r \<Longrightarrow> \<not> finished (threads (sched m) r) \<Longrightarrow>
    sched_step m (m\<lparr>places := (places m)[i := Calling (Some r)]\<rparr>)"
| finished: "i < length (cpus m) \<Longrightarrow> places m ! i = Running r \<Longrightarrow> finished (threads (sched m) r) \<Longrightarrow>
    sched_step m (m\<lparr>cpus := (cpus m)[i := release (cpus m ! i)], places := (places m)[i := Retiring r],
      dead := insert r (dead m)\<rparr>)"
| retire: "i < length (cpus m) \<Longrightarrow> places m ! i = Retiring r \<Longrightarrow>
    sched_step m (m\<lparr>places := (places m)[i := Calling None], sched := remove (tid (threads (sched m) r)) (sched m),
      dead := dead m \<union> {q \<in> set (ready_queue (sched m)). tid (threads (sched m) q) = tid (threads (sched m) r)}\<rparr>)"
| leave: "i < length (cpus m) \<Longrightarrow> places m ! i = Leaving \<Longrightarrow>
    sched_step m (m\<lparr>cpus := (cpus m)[i := release (cpus m ! i)], places := (places m)[i := Gone]\<rparr>)"
| create: "i < length (cpus m) \<Longrightarrow> places m ! i = Running r \<Longrightarrow> q \<notin> held m \<Longrightarrow> q \<notin> born m \<Longrightarrow>
    sched_step m (m\<lparr>sched := enqueue q (sched m), born := insert q (born m)\<rparr>)"
| terminate: "i < length (cpus m) \<Longrightarrow> places m ! i = Running r \<Longrightarrow>
    sched_step m (m\<lparr>sched := remove k (sched m),
      dead := dead m \<union> {q \<in> set (ready_queue (sched m)). tid (threads (sched m) q) = k}\<rparr>)"
| halt: "sched_step m (m\<lparr>sched := stop (sched m)\<rparr>)"
| guest: "ready_queue s' = ready_queue (sched m) \<Longrightarrow> stopped s' = stopped (sched m) \<Longrightarrow>
    sched_step m (m\<lparr>sched := s'\<rparr>)"
| preempt: "sched_step m (m\<lparr>cpus := preempt_for_waiting gnow hnow (sched m) (cpus m)\<rparr>)"

text \<open>Booted: the first threads are queued and every cpu is about to enter its loop.\<close>

definition booted :: "machine \<Rightarrow> bool" where
  "booted m \<longleftrightarrow>
     distinct (ready_queue (sched m)) \<and> length (places m) = length (cpus m) \<and>
     (\<forall>w \<in> set (places m). w = Calling None) \<and> (\<forall>c \<in> set (cpus m). cur c = None) \<and>
     born m = set (ready_queue (sched m)) \<and> dead m = {}"

inductive sched_reach :: "machine \<Rightarrow> bool" where
  boot: "booted m \<Longrightarrow> sched_reach m"
| step: "sched_reach m \<Longrightarrow> sched_step m m' \<Longrightarrow> sched_reach m'"

section \<open>Registers come back\<close>

lemma get_set_reg:
  "length vals = length regs \<Longrightarrow> r \<in> set regs \<Longrightarrow>
   get_reg regs q (set_reg regs r x vals) = (if q = r then x else get_reg regs q vals)"
  by (induction regs r x vals rule: set_reg.induct) auto

lemma restore_other: "q \<notin> set regs \<Longrightarrow> restore_regs regs vals cpu q = cpu q"
  by (induction regs vals cpu rule: restore_regs.induct) auto

text \<open>What a cpu restores is what it, or another, saved.\<close>

lemma restore_save: "r \<in> set regs \<Longrightarrow> restore_regs regs (save_regs regs cpu) cpu' r = cpu r"
proof (induction regs arbitrary: cpu')
  case (Cons q regs)
  then show ?case
    by (cases "r \<in> set regs") (auto simp: save_regs_def restore_other)
qed simp

section \<open>Who is where\<close>

fun place_cur :: "place \<Rightarrow> nat option" where
  "place_cur (Calling p) = p"
| "place_cur Parked = None"
| "place_cur (Resuming r) = Some r"
| "place_cur (Running r) = Some r"
| "place_cur (Retiring r) = None"
| "place_cur Leaving = None"
| "place_cur Gone = None"

definition opt_mset :: "nat option \<Rightarrow> nat multiset" where
  "opt_mset x = (case x of Some r \<Rightarrow> {#r#} | None \<Rightarrow> {#})"

lemma opt_mset_simps [simp]: "opt_mset None = {#}" "opt_mset (Some r) = {#r#}"
  by (simp_all add: opt_mset_def)

definition on_cpus :: "place list \<Rightarrow> nat multiset" where
  "on_cpus ps = sum_list (map (\<lambda>p. opt_mset (place_cur p)) ps)"

text \<open>The threads the machine holds, counted as often as it holds them.\<close>

definition occ :: "machine \<Rightarrow> nat multiset" where
  "occ m = mset (ready_queue (sched m)) + on_cpus (places m)"

lemma on_cpus_update:
  "i < length ps \<Longrightarrow>
   on_cpus (ps[i := p]) + opt_mset (place_cur (ps ! i)) = on_cpus ps + opt_mset (place_cur p)"
proof (induction ps arbitrary: i)
  case (Cons x ps)
  show ?case
  proof (cases i)
    case 0
    then show ?thesis by (simp add: on_cpus_def)
  next
    case (Suc j)
    with Cons.IH [of j] Cons.prems have "on_cpus (ps[j := p]) + opt_mset (place_cur (ps ! j)) =
      on_cpus ps + opt_mset (place_cur p)" by simp
    with Suc show ?thesis by (simp add: on_cpus_def)
  qed
qed simp

lemma set_on_cpus: "r \<in># on_cpus ps \<longleftrightarrow> Some r \<in> place_cur ` set ps"
  by (induction ps) (auto simp: on_cpus_def opt_mset_def split: option.splits)

lemma on_cpus_empty: "on_cpus ps = {#} \<longleftrightarrow> (\<forall>p \<in> set ps. place_cur p = None)"
  by (induction ps) (auto simp: on_cpus_def opt_mset_def split: option.splits)

definition leaving :: "machine \<Rightarrow> bool" where
  "leaving m \<longleftrightarrow> Leaving \<in> set (places m) \<or> Gone \<in> set (places m)"

definition sched_inv :: "machine \<Rightarrow> bool" where
  "sched_inv m \<longleftrightarrow>
     map cur (cpus m) = map place_cur (places m) \<and>
     (\<forall>r. count (occ m) r \<le> 1) \<and> set_mset (occ m) \<subseteq> born m \<and> born m \<subseteq> set_mset (occ m) \<union> dead m \<and>
     (\<not> stopped (sched m) \<and> leaving m \<longrightarrow> occ m = {#})"

lemma inv_places: "sched_inv m \<Longrightarrow> length (places m) = length (cpus m)"
  by (metis length_map sched_inv_def)

lemma held_occ: "sched_inv m \<Longrightarrow> held m = set_mset (occ m)"
proof -
  assume "sched_inv m"
  then have "cur ` set (cpus m) = place_cur ` set (places m)"
    unfolding sched_inv_def by (metis image_set)
  then show ?thesis by (auto simp: held_def occ_def set_on_cpus)
qed

lemma nothing_left_occ: "sched_inv m \<Longrightarrow> nothing_left (cpus m) (sched m) \<longleftrightarrow> occ m = {#}"
proof -
  assume inv: "sched_inv m"
  then have eq: "cur ` set (cpus m) = place_cur ` set (places m)"
    unfolding sched_inv_def by (metis image_set)
  have "list_all (\<lambda>c. cur c = None) (cpus m) \<longleftrightarrow> cur ` set (cpus m) \<subseteq> {None}"
    by (auto simp: list_all_iff)
  also have "\<dots> \<longleftrightarrow> on_cpus (places m) = {#}" unfolding eq by (auto simp: on_cpus_empty)
  finally show ?thesis by (auto simp: nothing_left_def occ_def)
qed

section \<open>One turn\<close>

lemma first_runnable_in: "first_runnable gnow hnow q ts = (Some r, ts') \<Longrightarrow> r \<in> set q"
  by (induction q arbitrary: ts) (auto simp: Let_def split: prod.splits if_splits)

lemma turn_cases:
  assumes "schedule_turn gnow hnow later cs s = (out, s')"
  shows "stopped s' = stopped s"
    and "out = Leave \<Longrightarrow> s' = s \<and> (stopped s \<or> nothing_left cs s)"
    and "out = Take r \<Longrightarrow> mset (ready_queue s) = add_mset r (mset (ready_queue s'))"
    and "out = Park w \<Longrightarrow> ready_queue s' = ready_queue s"
  using assms
  by (auto simp: schedule_turn_def Let_def split: if_splits option.splits prod.splits
      dest: first_runnable_in)

lemma leaving_update:
  "i < length (places m) \<Longrightarrow> places m ! i \<notin> {Leaving, Gone} \<Longrightarrow> p \<notin> {Leaving, Gone} \<Longrightarrow>
   leaving (m\<lparr>places := (places m)[i := p]\<rparr>) = leaving m"
  unfolding leaving_def by (auto simp: in_set_conv_nth nth_list_update)

section \<open>Every step keeps the invariant\<close>

text \<open>A step that moves threads about without a cpu starting to leave.\<close>

lemma inv_move:
  assumes inv: "sched_inv m" and "map cur (cpus m') = map place_cur (places m')"
    and "occ m' \<subseteq># occ m" and "born m' = born m" and "set_mset (occ m) - set_mset (occ m') \<subseteq> dead m'"
    and "dead m \<subseteq> dead m'" and "\<not> stopped (sched m') \<Longrightarrow> \<not> stopped (sched m)"
    and "leaving m' \<Longrightarrow> leaving m"
  shows "sched_inv m'"
proof -
  have "count (occ m') r \<le> 1" for r
    using inv mset_subset_eq_count [OF assms(3), of r] unfolding sched_inv_def
    by (metis order_trans)
  moreover have "set_mset (occ m') \<subseteq> set_mset (occ m)" using assms(3) by (rule set_mset_mono)
  moreover have "occ m = {#} \<Longrightarrow> occ m' = {#}" using assms(3) by simp
  ultimately show ?thesis
    using inv assms(2,4-8) unfolding sched_inv_def by blast
qed

lemma inv_requeue:
  assumes inv: "sched_inv m" and i: "i < length (cpus m)" and p: "places m ! i = Calling prev"
    and rq: "requeue prev (cpus m ! i, sched m) = (c, s)"
  shows "sched_inv (m\<lparr>sched := s, cpus := (cpus m)[i := c], places := (places m)[i := Parked]\<rparr>)"
    (is "sched_inv ?m'")
proof (rule inv_move [OF inv])
  have len: "i < length (places m)" using i inv_places [OF inv] by simp
  have cur: "map cur (cpus m) = map place_cur (places m)" using inv by (simp add: sched_inv_def)
  then have ci: "cur (cpus m ! i) = prev" using i len p by (metis nth_map place_cur.simps(1))
  have c: "cur c = None" using rq ci by (cases prev) (auto simp: requeue_def)
  show "map cur (cpus ?m') = map place_cur (places ?m')" using cur c by (simp add: map_update)
  have "mset (ready_queue s) = mset (ready_queue (sched m)) + opt_mset prev"
    using rq by (cases prev) (auto simp: requeue_def)
  then have eq: "occ ?m' = occ m"
    using on_cpus_update [OF len, of Parked] p by (simp add: occ_def ac_simps)
  show "occ ?m' \<subseteq># occ m" "set_mset (occ m) - set_mset (occ ?m') \<subseteq> dead ?m'" using eq by simp_all
  show "\<not> stopped (sched ?m') \<Longrightarrow> \<not> stopped (sched m)"
    using rq by (cases prev) (auto simp: requeue_def)
  show "leaving ?m' \<Longrightarrow> leaving m"
    using leaving_update [OF len, of Parked] p by (simp add: leaving_def)
qed simp_all

lemma inv_turn:
  assumes inv: "sched_inv m" and i: "i < length (cpus m)" and p: "places m ! i = Parked"
    and turn: "schedule_turn gnow hnow later (cpus m) (sched m) = (out, s)"
  shows "sched_inv (after_turn i (out, s) m)"
proof -
  have len: "i < length (places m)" using i inv_places [OF inv] by simp
  have cur: "map cur (cpus m) = map place_cur (places m)" using inv by (simp add: sched_inv_def)
  note t = turn_cases [OF turn]
  have upd: "on_cpus ((places m)[i := q]) = on_cpus (places m) + opt_mset (place_cur q)" for q
    using on_cpus_update [OF len, of q] p by simp
  have same: "(cpus m)[i := cpus m ! i] = cpus m" by simp
  have none: "cur (cpus m ! i) = None"
    using cur i len p by (metis nth_map place_cur.simps(2))
  show ?thesis
  proof (cases out)
    case Leave
    have "map cur (cpus m) = map place_cur ((places m)[i := Leaving])"
      using cur p len by (metis list_update_id map_update place_cur.simps(2,6))
    moreover have "\<not> stopped (sched m) \<Longrightarrow> occ m = {#}"
      using t(2) [OF Leave] nothing_left_occ [OF inv] by blast
    ultimately show ?thesis
      using inv t(2) [OF Leave] Leave by (simp add: after_turn_def sched_inv_def occ_def upd)
  next
    case (Take r)
    let ?m' = "after_turn i (out, s) m"
    have eq: "occ ?m' = occ m"
      using t(3) [OF Take] Take by (simp add: after_turn_def occ_def upd)
    have "map cur (cpus ?m') = map place_cur (places ?m')"
      using cur Take by (simp add: after_turn_def map_update)
    then show ?thesis
    proof (rule inv_move [OF inv])
      show "leaving ?m' \<Longrightarrow> leaving m"
        using leaving_update [OF len, of "Resuming r"] p Take by (simp add: after_turn_def leaving_def)
    qed (use eq Take t(1) in \<open>simp_all add: after_turn_def\<close>)
  next
    case (Park w)
    let ?m' = "after_turn i (out, s) m"
    have "places ?m' = places m" "cpus ?m' = cpus m"
      using Park p by (simp_all add: after_turn_def) (metis list_update_id)
    moreover have "occ ?m' = occ m"
      using t(4) [OF Park] Park by (simp add: after_turn_def occ_def upd)
    ultimately show ?thesis
      using inv t(1) Park by (simp add: sched_inv_def leaving_def after_turn_def)
  qed
qed

text \<open>Taking threads off the queue, the cpus staying where they are or moving between empty places.\<close>

lemma inv_remove:
  assumes inv: "sched_inv m"
  shows "sched_inv (m\<lparr>sched := remove k (sched m),
      dead := dead m \<union> {q \<in> set (ready_queue (sched m)). tid (threads (sched m) q) = k}\<rparr>)"
    (is "sched_inv ?m'")
proof (rule inv_move [OF inv])
  let ?q = "ready_queue (sched m)"
  have sub: "mset (filter (\<lambda>r. tid (threads (sched m) r) \<noteq> k) ?q) \<subseteq># mset ?q"
    by (simp add: multiset_filter_subset)
  then show "occ ?m' \<subseteq># occ m" by (simp add: occ_def remove_def)
  show "set_mset (occ m) - set_mset (occ ?m') \<subseteq> dead ?m'" by (auto simp: occ_def remove_def)
qed (use inv in \<open>auto simp: remove_def leaving_def sched_inv_def\<close>)

lemma inv_place:
  assumes inv: "sched_inv m" and i: "i < length (cpus m)"
    and "place_cur p = place_cur (places m ! i)"
    and "p \<in> {Leaving, Gone} \<Longrightarrow> places m ! i \<in> {Leaving, Gone}"
  shows "sched_inv (m\<lparr>places := (places m)[i := p]\<rparr>)" (is "sched_inv ?m'")
proof (rule inv_move [OF inv])
  have len: "i < length (places m)" using i inv_places [OF inv] by simp
  have "map cur (cpus m) = map place_cur (places m)" using inv by (simp add: sched_inv_def)
  then show "map cur (cpus ?m') = map place_cur (places ?m')"
    using assms(3) len by (simp add: map_update) (metis list_update_id map_update)
  have "occ ?m' = occ m" using on_cpus_update [OF len, of p] assms(3) by (simp add: occ_def)
  then show "occ ?m' \<subseteq># occ m" "set_mset (occ m) - set_mset (occ ?m') \<subseteq> dead ?m'" by simp_all
  show "leaving ?m' \<Longrightarrow> leaving m"
    using assms(4) len unfolding leaving_def
    by (auto simp: in_set_conv_nth nth_list_update split: if_splits)
qed simp_all

lemma inv_release_empty:
  assumes "sched_inv m" and "i < length (cpus m)" and "cur (cpus m ! i) = None"
  shows "(cpus m)[i := release (cpus m ! i)] = cpus m"
proof -
  have "release (cpus m ! i) = cpus m ! i"
    using assms(3) by (cases "cpus m ! i") (simp add: release_def)
  then show ?thesis by simp
qed

lemma inv_finished:
  assumes inv: "sched_inv m" and i: "i < length (cpus m)" and p: "places m ! i = Running r"
  shows "sched_inv (m\<lparr>cpus := (cpus m)[i := release (cpus m ! i)], places := (places m)[i := Retiring r],
      dead := insert r (dead m)\<rparr>)" (is "sched_inv ?m'")
proof (rule inv_move [OF inv])
  have len: "i < length (places m)" using i inv_places [OF inv] by simp
  have "map cur (cpus m) = map place_cur (places m)" using inv by (simp add: sched_inv_def)
  then show "map cur (cpus ?m') = map place_cur (places ?m')" by (simp add: map_update release_def)
  have "add_mset r (on_cpus ((places m)[i := Retiring r])) = on_cpus (places m)"
    using on_cpus_update [OF len, of "Retiring r"] p by simp
  then have occ: "occ m = add_mset r (occ ?m')" by (simp add: occ_def)
  show "occ ?m' \<subseteq># occ m" "set_mset (occ m) - set_mset (occ ?m') \<subseteq> dead ?m'"
    unfolding occ by auto
  show "leaving ?m' \<Longrightarrow> leaving m"
    using leaving_update [OF len, of "Retiring r"] p by (simp add: leaving_def)
qed auto

lemma inv_create_thread:
  assumes inv: "sched_inv m" and i: "i < length (cpus m)" and p: "places m ! i = Running r"
    and q: "q \<notin> held m"
  shows "sched_inv (m\<lparr>sched := enqueue q (sched m), born := insert q (born m)\<rparr>)" (is "sched_inv ?m'")
proof -
  have len: "i < length (places m)" using i inv_places [OF inv] by simp
  have occ: "occ ?m' = add_mset q (occ m)" by (simp add: occ_def enqueue_def)
  have q0: "count (occ m) q = 0" using q held_occ [OF inv] by (simp add: not_in_iff)
  have "Some r \<in> place_cur ` set (places m)"
    using len p by (metis image_eqI nth_mem place_cur.simps(4))
  then have "r \<in># on_cpus (places m)" by (simp add: set_on_cpus)
  then have "occ m \<noteq> {#}" by (auto simp: occ_def)
  with inv have "stopped (sched m) \<or> \<not> leaving m" by (auto simp: sched_inv_def)
  with inv q0 show ?thesis unfolding sched_inv_def occ by (auto simp: enqueue_def leaving_def)
qed

lemma preempt_cur: "map cur (preempt_loop n cs) = map cur cs"
  by (induction n cs rule: preempt_loop.induct) auto

lemma sched_step_inv: "sched_step m m' \<Longrightarrow> sched_inv m \<Longrightarrow> sched_inv m'"
proof (induction rule: sched_step.induct)
  case (schedule i m prev c s hnow later m1 gnow)
  let ?m2 = "m1\<lparr>places := (places m)[i := Parked]\<rparr>"
  have inv: "sched_inv ?m2" using inv_requeue [OF schedule.prems schedule.hyps(1-3)] schedule.hyps(5) by simp
  obtain out s' where turn: "schedule_turn gnow hnow later (cpus m1) s = (out, s')" by fastforce
  have len: "i < length (places m)"
    using schedule.hyps(1) inv_places [OF schedule.prems] by simp
  have "sched_inv (after_turn i (out, s') ?m2)"
    by (rule inv_turn [OF inv]) (use turn len schedule.hyps(1,5) in simp_all)
  moreover have "after_turn i (out, s') ?m2 = after_turn i (out, s') m1"
    using schedule.hyps(5) by (cases out) (simp_all add: after_turn_def)
  ultimately show ?case using turn by simp
next
  case (wakeup i m hnow later gnow)
  obtain out s' where "schedule_turn gnow hnow later (cpus m) (sched m) = (out, s')" by fastforce
  with inv_turn [OF wakeup(4,1,2) this] show ?case by simp
next
  case (resume i m r)
  then show ?case by (intro inv_place) simp_all
next
  case (quantum i m r)
  then show ?case by (intro inv_place) simp_all
next
  case (finished i m r)
  then show ?case by (intro inv_finished)
next
  case (retire i m r)
  from inv_remove [OF inv_place [OF retire(3,1), of "Calling None"], of "tid (threads (sched m) r)"]
    retire(2) show ?case by simp
next
  case (leave i m)
  have "map cur (cpus m) = map place_cur (places m)" using leave(3) by (simp add: sched_inv_def)
  then have "cur (cpus m ! i) = None"
    using leave(1,2) inv_places [OF leave(3)] by (metis nth_map place_cur.simps(6))
  with inv_place [OF leave(3,1), of Gone] leave(2) inv_release_empty [OF leave(3,1)] show ?case by simp
next
  case (create i m r q)
  then show ?case by (intro inv_create_thread)
next
  case (terminate i m r k)
  then show ?case by (intro inv_remove)
next
  case (halt m)
  then show ?case by (auto simp: sched_inv_def stop_def occ_def leaving_def)
next
  case (guest s' m)
  then show ?case by (auto simp: sched_inv_def occ_def leaving_def)
next
  case (preempt m gnow hnow)
  then show ?case
    by (auto simp: sched_inv_def occ_def leaving_def preempt_for_waiting_def preempt_cur)
qed

lemma sched_reach_inv: "sched_reach m \<Longrightarrow> sched_inv m"
proof (induction rule: sched_reach.induct)
  case (boot m)
  have "map place_cur (places m) = map (\<lambda>_. None) (places m)"
    using boot by (auto simp: booted_def)
  moreover have "map cur (cpus m) = map (\<lambda>_. None) (cpus m)" using boot by (auto simp: booted_def)
  moreover have "map (\<lambda>_. None :: nat option) (places m) = map (\<lambda>_. None) (cpus m)"
    using boot by (simp add: booted_def map_replicate_const)
  moreover have "on_cpus (places m) = {#}" using boot by (auto simp: booted_def on_cpus_empty)
  moreover have "\<not> leaving m" using boot by (auto simp: booted_def leaving_def)
  ultimately show ?case
    using boot by (auto simp: sched_inv_def booted_def occ_def distinct_count_atmost_1 count_mset
        split: if_splits)
next
  case (step m m')
  then show ?case by (blast intro: sched_step_inv)
qed

section \<open>What a turn chooses\<close>

lemma is_ready_fst: "fst (is_ready gnow hnow t) = may_run gnow hnow t"
  by (auto simp: is_ready_def may_run_def Let_def split: option.splits)

lemma first_runnable_correct:
  "distinct q \<Longrightarrow> first_runnable gnow hnow q ts =
     (find (\<lambda>r. may_run gnow hnow (ts r)) q,
      \<lambda>x. if x \<in> set (takeWhile (\<lambda>r. \<not> may_run gnow hnow (ts r)) q) \<or>
             find (\<lambda>r. may_run gnow hnow (ts r)) q = Some x
          then snd (is_ready gnow hnow (ts x)) else ts x)"
proof (induction q arbitrary: ts)
  case (Cons r q)
  obtain b t where bt: "is_ready gnow hnow (ts r) = (b, t)" by fastforce
  then have b: "b = may_run gnow hnow (ts r)" using is_ready_fst [of gnow hnow "ts r"] by simp
  show ?case
  proof (cases b)
    case True
    with bt b show ?thesis by (auto simp: fun_eq_iff)
  next
    case False
    define ts1 where "ts1 = ts(r := t)"
    have same: "may_run gnow hnow (ts1 x) = may_run gnow hnow (ts x)" if "x \<in> set q" for x
      using Cons.prems that by (auto simp: ts1_def)
    have find: "find (\<lambda>r. may_run gnow hnow (ts1 r)) q = find (\<lambda>r. may_run gnow hnow (ts r)) q"
      by (rule find_cong) (use same in auto)
    have tw: "takeWhile (\<lambda>r. \<not> may_run gnow hnow (ts1 r)) q = takeWhile (\<lambda>r. \<not> may_run gnow hnow (ts r)) q"
      by (rule takeWhile_cong) (use same in auto)
    have r: "r \<notin> set q" using Cons.prems by simp
    then have "r \<notin> set (takeWhile (\<lambda>r. \<not> may_run gnow hnow (ts r)) q)" by (auto dest: set_takeWhileD)
    moreover have "find (\<lambda>r. may_run gnow hnow (ts r)) q \<noteq> Some r"
      using r by (auto simp: find_Some_iff)
    moreover have "first_runnable gnow hnow (r # q) ts = first_runnable gnow hnow q ts1"
      using bt False by (simp add: ts1_def)
    moreover from calculation(1,2) bt have "(\<lambda>x. if x \<in> set (takeWhile (\<lambda>r. \<not> may_run gnow hnow (ts r)) q) \<or>
          find (\<lambda>r. may_run gnow hnow (ts r)) q = Some x then snd (is_ready gnow hnow (ts1 x)) else ts1 x) =
        (\<lambda>x. if x \<in> set (takeWhile (\<lambda>r. \<not> may_run gnow hnow (ts r)) (r # q)) \<or>
          find (\<lambda>r. may_run gnow hnow (ts r)) (r # q) = Some x then snd (is_ready gnow hnow (ts x)) else ts x)"
      using b False by (auto simp: ts1_def fun_eq_iff)
    ultimately show ?thesis
      using Cons.IH [of ts1] Cons.prems b False unfolding find tw by simp
  qed
qed simp

text \<open>The earliest time to wake at, as a minimum.\<close>

definition sleeps :: "int \<Rightarrow> nat list \<Rightarrow> (nat \<Rightarrow> win_thread) \<Rightarrow> int set" where
  "sleeps hnow q ts = (\<lambda>r. sleep_until (ts r)) ` {r \<in> set q. is_sleeping hnow (ts r)}"

lemma next_wake_loop_correct:
  "next_wake_loop hnow q ts e =
     (let S = set_option e \<union> sleeps hnow q ts in if S = {} then None else Some (Min S))"
proof (induction q arbitrary: e)
  case Nil
  then show ?case by (cases e) (auto simp: sleeps_def)
next
  case (Cons r q)
  have ins: "sleeps hnow (r # q) ts =
      (if is_sleeping hnow (ts r) then {sleep_until (ts r)} else {}) \<union> sleeps hnow q ts"
    by (auto simp: sleeps_def)
  have fin: "finite (sleeps hnow q ts)" by (simp add: sleeps_def)
  show ?case
  proof (cases "is_sleeping hnow (ts r)")
    case False
    then show ?thesis using Cons.IH [of e] ins by simp
  next
    case True
    show ?thesis
    proof (cases e)
      case None
      then show ?thesis using Cons.IH [of "Some (sleep_until (ts r))"] ins True by simp
    next
      case (Some x)
      have "Min (insert x (insert (sleep_until (ts r)) (sleeps hnow q ts))) =
          Min (insert (min x (sleep_until (ts r))) (sleeps hnow q ts))"
        using fin by (cases "sleeps hnow q ts = {}") (simp_all add: Min.insert min.assoc)
      then show ?thesis
        using Cons.IH [of "Some (min x (sleep_until (ts r)))"] ins True Some
        by (auto simp: Let_def min_def insert_commute split: if_splits)
    qed
  qed
qed

lemma next_wake_correct:
  "next_wake hnow s =
     (if sleeps hnow (ready_queue s) (threads s) = {} then None
      else Some (Min (sleeps hnow (ready_queue s) (threads s))))"
  by (simp add: next_wake_def next_wake_loop_correct)

lemma not_ready_sleeps:
  assumes "\<not> may_run gnow hnow t" and "suspend_count t = 0"
    and "case wait t of Some w \<Rightarrow> ws_timed w | None \<Rightarrow> started t"
  shows "is_sleeping hnow (snd (is_ready gnow hnow t))"
proof (cases "wait t")
  case None
  with assms show ?thesis by (auto simp: may_run_def is_ready_def base_ready_def)
next
  case (Some w)
  then have "0 < ws_deadline w - gnow" using assms by (auto simp: may_run_def)
  from ceil_ms_covers [OF this] Some assms show ?thesis
    by (auto simp: may_run_def is_ready_def Let_def sleep_for_def is_sleeping_def)
qed

section \<open>Properties\<close>

text \<open>
  C34: At every moment every thread ever queued is in exactly one place: on the ready queue, on
  one cpu, or retired or removed; never on two cpus, never on a cpu and the queue, never twice
  on the queue, and never nowhere.
\<close>

theorem thread_in_one_place:
  assumes "sched_reach m"
  shows "distinct (ready_queue (sched m)) \<and>
    (\<forall>i j r. i < length (cpus m) \<and> j < length (cpus m) \<and> i \<noteq> j \<and> cur (cpus m ! i) = Some r \<longrightarrow>
       cur (cpus m ! j) \<noteq> Some r) \<and>
    (\<forall>c \<in> set (cpus m). \<forall>r \<in> set (ready_queue (sched m)). cur c \<noteq> Some r) \<and>
    (\<forall>r \<in> born m. r \<in> dead m \<or> r \<in> set (ready_queue (sched m)) \<or> (\<exists>c \<in> set (cpus m). cur c = Some r))"
proof -
  have inv: "sched_inv m" by (rule sched_reach_inv [OF assms])
  then have one: "count (mset (ready_queue (sched m))) r + count (on_cpus (places m)) r \<le> 1" for r
    by (simp add: sched_inv_def occ_def)
  have cur: "cur (cpus m ! i) = place_cur (places m ! i)" if "i < length (cpus m)" for i
    using inv that inv_places [OF inv] by (metis nth_map sched_inv_def)
  have eq: "cur ` set (cpus m) = place_cur ` set (places m)"
    using inv unfolding sched_inv_def by (metis image_set)
  have "distinct (ready_queue (sched m))"
    unfolding distinct_count_atmost_1
  proof
    fix r
    have "count (mset (ready_queue (sched m))) r \<le> 1" using one [of r] by linarith
    then show "count (mset (ready_queue (sched m))) r = (if r \<in> set (ready_queue (sched m)) then 1 else 0)"
      by (auto simp: le_Suc_eq count_eq_zero_iff)
  qed
  moreover have "cur (cpus m ! j) \<noteq> Some r"
    if i: "i < length (cpus m)" "cur (cpus m ! i) = Some r" and j: "j < length (cpus m)" "i \<noteq> j" for i j r
  proof
    assume rj: "cur (cpus m ! j) = Some r"
    let ?ps = "(places m)[i := Parked]"
    have len: "i < length (places m)" "j < length (places m)" using i(1) j(1) inv_places [OF inv] by auto
    have "place_cur (places m ! i) = Some r" using cur [OF i(1)] i(2) by simp
    then have "on_cpus (places m) = add_mset r (on_cpus ?ps)"
      using on_cpus_update [OF len(1), of Parked] by simp
    moreover have "r \<in># on_cpus ?ps"
      unfolding set_on_cpus using rj cur [OF j(1)] j(2) len
      by (metis image_eqI length_list_update nth_list_update_neq nth_mem)
    ultimately have "2 \<le> count (on_cpus (places m)) r" by simp
    with one [of r] show False by linarith
  qed
  moreover have "cur c \<noteq> Some r" if "c \<in> set (cpus m)" "r \<in> set (ready_queue (sched m))" for c r
  proof
    assume "cur c = Some r"
    then have "r \<in># on_cpus (places m)" using that(1) eq by (metis image_eqI set_on_cpus)
    with that(2) have "0 < count (on_cpus (places m)) r" "0 < count (mset (ready_queue (sched m))) r"
      by simp_all
    with one [of r] show False by linarith
  qed
  moreover have "r \<in> dead m \<or> r \<in> set (ready_queue (sched m)) \<or> (\<exists>c \<in> set (cpus m). cur c = Some r)"
    if "r \<in> born m" for r
  proof -
    have "r \<in> dead m \<or> r \<in># mset (ready_queue (sched m)) \<or> r \<in># on_cpus (places m)"
      using inv that unfolding sched_inv_def occ_def by auto
    then show ?thesis unfolding set_on_cpus eq [symmetric] by auto
  qed
  ultimately show ?thesis by blast
qed

definition demo_thread :: "nat \<Rightarrow> win_thread" where
  "demo_thread i =
     \<lparr>tid = i, ethread = 0, wait = None, alerted = False, suspend_count = 0, started = True,
      finished = False, sleep_until = (if i = 1 then 10 else 0), ret_value = 0\<rparr>"

definition demo_machine :: machine where
  "demo_machine =
     \<lparr>sched = \<lparr>ready_queue = [1, 2], stopped = False, threads = demo_thread\<rparr>,
      cpus = [\<lparr>cur = None, stop_flag = False\<rparr>, \<lparr>cur = None, stop_flag = False\<rparr>],
      places = [Calling None, Calling None], born = {1, 2}, dead = {}\<rparr>"

lemma demo_machine_reach: "sched_reach demo_machine"
  by (rule sched_reach.boot) (simp add: booted_def demo_machine_def)

theorem thread_in_one_place_witness:
  "distinct (ready_queue (sched demo_machine)) \<and> 2 \<in> set (ready_queue (sched demo_machine))"
  using thread_in_one_place [OF demo_machine_reach] by (auto simp: demo_machine_def)

text \<open>
  C35: A cpu leaves its loop only when the scheduler was stopped or there is nothing left, and
  from then on there never is: no thread is queued and none is on any cpu.
\<close>

theorem cpu_leaves_only_idle:
  assumes "sched_reach m" and "Leaving \<in> set (places m) \<or> Gone \<in> set (places m)"
    and "\<not> stopped (sched m)"
  shows "ready_queue (sched m) = [] \<and> (\<forall>c \<in> set (cpus m). cur c = None)"
proof -
  have inv: "sched_inv m" by (rule sched_reach_inv [OF assms(1)])
  then have "occ m = {#}" using assms(2,3) by (auto simp: sched_inv_def leaving_def)
  with nothing_left_occ [OF inv] show ?thesis by (simp add: nothing_left_def list_all_iff)
qed

definition demo_idle :: machine where
  "demo_idle = demo_machine\<lparr>sched := (sched demo_machine)\<lparr>ready_queue := []\<rparr>, born := {}\<rparr>"

theorem cpu_leaves_only_idle_witness:
  "\<exists>m. sched_reach m \<and> Leaving \<in> set (places m) \<and> ready_queue (sched m) = [] \<and>
     (\<forall>c \<in> set (cpus m). cur c = None)"
proof -
  have boot: "sched_reach demo_idle"
    by (rule sched_reach.boot) (simp add: booted_def demo_idle_def demo_machine_def)
  let ?m = "after_turn 0 (schedule_turn 0 0 0 (cpus demo_idle) (sched demo_idle)) demo_idle"
  have "sched_step demo_idle ?m"
    using sched_step.schedule [of 0 demo_idle None "cpus demo_idle ! 0" "sched demo_idle" 0 0 demo_idle 0]
    by (simp add: demo_idle_def demo_machine_def requeue_def)
  with boot have reach: "sched_reach ?m" by (rule sched_reach.step)
  have "Leaving \<in> set (places ?m)" "\<not> stopped (sched ?m)"
    by (simp_all add: demo_idle_def demo_machine_def schedule_turn_def nothing_left_def after_turn_def)
  with cpu_leaves_only_idle [OF reach] reach show ?thesis by blast
qed



text \<open>
  The two clock readings of a turn need not agree. When the only queued thread wakes up between
  them, the search has not seen it ready and the time to wake at no longer counts it: the cpu
  parks with no time to wake at, although the thread could run.
\<close>

lemma turn_misses_wakeup:
  "let s = \<lparr>ready_queue = [1], stopped = False, threads = demo_thread\<rparr> in
   fst (schedule_turn 0 9 10 [\<lparr>cur = None, stop_flag = False\<rparr>] s) = Park None \<and>
   may_run 0 10 (threads s 1)"
  by code_simp

end
