(* ===== verification/Linked_List.thy ===== *)
theory Linked_List
  imports Guest_Mem
begin

text \<open>
  \<open>kernel/win/linked_list.hpp\<close>: the circular lists the guest walks, of processes, threads and
  loaded modules. A list is its head and the offset of the links inside an entry; the head and
  every entry hold a forward and a backward link of eight bytes each. \<open>chain\<close> is the ring the
  links are meant to form, read through the two link functions of guest memory.
\<close>

section \<open>The list\<close>

record linked_list =
  ll_head :: addr
  ll_offset :: nat

record list_entry =
  flink :: addr
  blink :: addr

definition read_links :: "addr \<Rightarrow> gmem \<Rightarrow> emu_error + list_entry" where
  "read_links a g =
     bind_result (g_get 8 a g) (\<lambda>f. bind_result (g_get 8 (a + 8) g) (\<lambda>b. Inr \<lparr>flink = f, blink = b\<rparr>))"

definition write_flink :: "addr \<Rightarrow> addr \<Rightarrow> gmem \<Rightarrow> emu_error + gmem" where
  "write_flink at v g = g_put 8 at v g"

definition write_blink :: "addr \<Rightarrow> addr \<Rightarrow> gmem \<Rightarrow> emu_error + gmem" where
  "write_blink at v g = g_put 8 (at + 8) v g"

definition write_links :: "addr \<Rightarrow> list_entry \<Rightarrow> gmem \<Rightarrow> emu_error + gmem" where
  "write_links a e g = bind_result (write_flink a (flink e) g) (write_blink a (blink e))"

definition links_addr :: "linked_list \<Rightarrow> addr \<Rightarrow> addr" where
  "links_addr l entry_addr = entry_addr + of_nat (ll_offset l)"

definition list_init :: "linked_list \<Rightarrow> gmem \<Rightarrow> emu_error + gmem" where
  "list_init l g = write_links (ll_head l) \<lparr>flink = ll_head l, blink = ll_head l\<rparr> g"

text \<open>The links inside the bytes of an entry, through the reference \<open>links_of\<close> hands out.\<close>

definition set_links :: "linked_list \<Rightarrow> list_entry \<Rightarrow> u8 list \<Rightarrow> u8 list" where
  "set_links l e contents =
     field_put (ll_offset l + 8) 8 (blink e) (field_put (ll_offset l) 8 (flink e) contents)"

definition push_back :: "linked_list \<Rightarrow> u8 list \<Rightarrow> addr \<Rightarrow> gmem \<Rightarrow> emu_error + gmem" where
  "push_back l entry entry_addr g =
     bind_result (read_links (ll_head l) g) (\<lambda>head.
     let tail_links = blink head;
         contents = set_links l \<lparr>flink = ll_head l, blink = tail_links\<rparr> entry in
     bind_result (g_write entry_addr contents g) (\<lambda>g.
     bind_result
       (if tail_links = ll_head l then Inr (head\<lparr>flink := links_addr l entry_addr\<rparr>, g)
        else bind_result (write_flink tail_links (links_addr l entry_addr) g) (\<lambda>g. Inr (head, g)))
       (\<lambda>(head, g). write_links (ll_head l) (head\<lparr>blink := links_addr l entry_addr\<rparr>) g)))"

definition list_remove :: "linked_list \<Rightarrow> addr \<Rightarrow> gmem \<Rightarrow> emu_error + gmem" where
  "list_remove l entry_addr g =
     bind_result (read_links (links_addr l entry_addr) g) (\<lambda>links.
     bind_result (write_blink (flink links) (blink links) g) (write_flink (blink links) (flink links)))"

text \<open>
  \<open>for_each\<close> with a callback that only looks: the entries it was called with. \<open>fuel\<close> bounds the
  steps of the walk.
\<close>

fun walk :: "nat \<Rightarrow> linked_list \<Rightarrow> (addr \<Rightarrow> bool) \<Rightarrow> addr \<Rightarrow> gmem \<Rightarrow> emu_error + addr list" where
  "walk 0 l fn cur g = throw Does_not_return"
| "walk (Suc fuel) l fn cur g =
     (if cur = ll_head l then Inr []
      else
        bind_result (read_links cur g) (\<lambda>links.
          if \<not> fn (cur - of_nat (ll_offset l)) then Inr [cur - of_nat (ll_offset l)]
          else bind_result (walk fuel l fn (flink links) g) (\<lambda>es. Inr ((cur - of_nat (ll_offset l)) # es))))"

definition for_each :: "nat \<Rightarrow> linked_list \<Rightarrow> (addr \<Rightarrow> bool) \<Rightarrow> gmem \<Rightarrow> emu_error + addr list" where
  "for_each fuel l fn g =
     bind_result (read_links (ll_head l) g) (\<lambda>head. walk fuel l fn (flink head) g)"

definition list_size :: "nat \<Rightarrow> linked_list \<Rightarrow> gmem \<Rightarrow> emu_error + nat" where
  "list_size fuel l g = bind_result (for_each fuel l (\<lambda>_. True) g) (\<lambda>es. Inr (length es))"

definition list_empty :: "linked_list \<Rightarrow> gmem \<Rightarrow> emu_error + bool" where
  "list_empty l g = bind_result (read_links (ll_head l) g) (\<lambda>head. Inr (flink head = ll_head l))"

section \<open>Rings\<close>

definition fl :: "gmem \<Rightarrow> addr \<Rightarrow> emu_error + addr" where "fl g a = g_get 8 a g"
definition bl :: "gmem \<Rightarrow> addr \<Rightarrow> emu_error + addr" where "bl g a = g_get 8 (a + 8) g"

fun chain :: "(addr \<Rightarrow> emu_error + addr) \<Rightarrow> (addr \<Rightarrow> emu_error + addr) \<Rightarrow> addr \<Rightarrow> addr list \<Rightarrow> addr \<Rightarrow> bool" where
  "chain F B x [] z \<longleftrightarrow> F x = Inr z \<and> B z = Inr x"
| "chain F B x (l # ls) z \<longleftrightarrow> F x = Inr l \<and> B l = Inr x \<and> chain F B l ls z"

definition apart_nodes :: "addr set \<Rightarrow> bool" where
  "apart_nodes N \<longleftrightarrow> (\<forall>x \<in> N. \<forall>y \<in> N. x \<noteq> y \<longrightarrow> span x 16 \<inter> span y 16 = {})"

definition ring :: "gmem \<Rightarrow> addr \<Rightarrow> addr list \<Rightarrow> bool" where
  "ring g h ls \<longleftrightarrow> chain (fl g) (bl g) h ls h \<and> distinct (h # ls) \<and> apart_nodes (set (h # ls))"

lemma chain_append: "chain F B x (as @ l # cs) z \<longleftrightarrow> chain F B x as l \<and> chain F B l cs z"
  by (induction as arbitrary: x) auto

lemma chain_cong:
  "(\<And>y. y \<in> set (x # ls) \<Longrightarrow> F y = F' y) \<Longrightarrow> (\<And>y. y \<in> set (ls @ [z]) \<Longrightarrow> B y = B' y) \<Longrightarrow>
   chain F B x ls z = chain F' B' x ls z"
  by (induction ls arbitrary: x) auto

lemma chain_ends:
  "chain F B x ls z \<Longrightarrow> F (last (x # ls)) = Inr z \<and> B z = Inr (last (x # ls)) \<and> F x = Inr (hd (ls @ [z]))"
proof (induction ls arbitrary: x)
  case (Cons l ls)
  from Cons.prems have "chain F B l ls z" "F x = Inr l" by simp_all
  with Cons.IH [of l] show ?case by simp
qed simp

lemma chain_push:
  assumes "chain F B h ls h" and "distinct (l # h # ls)"
  shows "chain (F(last (h # ls) := Inr l, l := Inr h)) (B(l := Inr (last (h # ls)), h := Inr l)) h (ls @ [l]) h"
proof -
  let ?t = "last (h # ls)"
  let ?F = "F(?t := Inr l, l := Inr h)" and ?B = "B(l := Inr ?t, h := Inr l)"
  have l: "l \<noteq> ?t" "l \<noteq> h" using assms(2) by (auto split: if_splits)
  have "chain ?F ?B h ls l"
  proof (cases ls rule: rev_cases)
    case Nil
    then show ?thesis using l by simp
  next
    case (snoc as t)
    then have split: "chain F B h as t" using assms(1) by (simp add: chain_append)
    have "chain ?F ?B h as t = chain F B h as t"
      by (rule chain_cong) (use snoc assms(2) in auto)
    with split snoc l assms(2) show ?thesis by (simp add: chain_append)
  qed
  then show ?thesis using l by (simp add: chain_append)
qed

lemma chain_remove:
  assumes "chain F B h (as @ l # cs) h" and "distinct (h # as @ l # cs)"
  shows "F l = Inr (hd (cs @ [h])) \<and> B l = Inr (last (h # as)) \<and>
    chain (F(last (h # as) := Inr (hd (cs @ [h])))) (B(hd (cs @ [h]) := Inr (last (h # as)))) h (as @ cs) h"
proof -
  let ?p = "last (h # as)" and ?n = "hd (cs @ [h])"
  let ?F = "F(?p := Inr ?n)" and ?B = "B(?n := Inr ?p)"
  have ch: "chain F B h as l" "chain F B l cs h" using assms(1) by (simp_all add: chain_append)
  have ends: "F ?p = Inr l" "B l = Inr ?p" "F l = Inr ?n"
    using chain_ends [OF ch(1)] chain_ends [OF ch(2)] by auto
  have "chain ?F ?B h (as @ cs) h"
  proof (cases cs)
    case Nil
    show ?thesis
    proof (cases as rule: rev_cases)
      case Nil2: Nil
      with Nil show ?thesis by simp
    next
      case (snoc bs p)
      then have "chain F B h bs p" using ch(1) by (simp add: chain_append)
      moreover have "chain ?F ?B h bs p = chain F B h bs p"
        by (rule chain_cong) (use snoc Nil assms(2) in auto)
      ultimately show ?thesis using snoc Nil by (simp add: chain_append)
    qed
  next
    case (Cons n ds)
    have "chain F B n ds h" using ch(2) Cons by simp
    moreover have "?p \<notin> set (n # ds)"
      using last_in_set [of "h # as"] assms(2) Cons by auto
    moreover have "chain ?F ?B n ds h = chain F B n ds h" if "?p \<notin> set (n # ds)"
      by (rule chain_cong) (use Cons assms(2) that in auto)
    moreover have "chain ?F ?B h as n"
    proof (cases as rule: rev_cases)
      case Nil
      with Cons show ?thesis by simp
    next
      case (snoc bs p)
      then have "chain F B h bs p" using ch(1) by (simp add: chain_append)
      moreover have "chain ?F ?B h bs p = chain F B h bs p"
        by (rule chain_cong) (use snoc Cons assms(2) in auto)
      ultimately show ?thesis using snoc Cons by (simp add: chain_append)
    qed
    ultimately show ?thesis using Cons by (simp add: chain_append)
  qed
  with ends show ?thesis by blast
qed

section \<open>Links in memory\<close>

lemma span_halves: "span a 8 \<subseteq> span a 16" "span (a + 8) 8 \<subseteq> span a 16" "span a 8 \<inter> span (a + 8) 8 = {}"
  using span_mono [of 8 16 a] span_offset [of 8 8 16 a] span_fields_apart [of 0 8 8 8 a] by simp_all

lemma apart_nodesD: "apart_nodes N \<Longrightarrow> x \<in> N \<Longrightarrow> y \<in> N \<Longrightarrow> x \<noteq> y \<Longrightarrow> span x 16 \<inter> span y 16 = {}"
  by (auto simp: apart_nodes_def)

definition same_but_links :: "gmem \<Rightarrow> addr \<Rightarrow> gmem \<Rightarrow> bool" where
  "same_but_links g a g' \<longleftrightarrow>
     (\<forall>x. x \<notin> span a 16 \<longrightarrow> g' x = g x) \<and> (\<forall>b n. g_mapped g' b n = g_mapped g b n)"

lemma write_flink_ok:
  assumes "apart_nodes N" and "a \<in> N" and "g_mapped g a 8"
  shows "\<exists>g'. write_flink a v g = Inr g' \<and> same_but_links g a g' \<and>
    (\<forall>y \<in> N. fl g' y = ((fl g)(a := Inr v)) y \<and> bl g' y = bl g y)"
proof -
  obtain g' where p: "g_put 8 a v g = Inr g'" using g_put_total [OF assms(3)] by blast
  have "fl g' y = ((fl g)(a := Inr v)) y \<and> bl g' y = bl g y" if "y \<in> N" for y
  proof (cases "y = a")
    case True
    then show ?thesis
      using g_get_put_same [OF p] g_get_put_other [OF p, of "a + 8" 8] span_halves
      by (simp add: fl_def bl_def)
  next
    case False
    then have "span a 16 \<inter> span y 16 = {}" using apart_nodesD assms(1,2) that by metis
    then have "span a 8 \<inter> span y 8 = {}" "span a 8 \<inter> span (y + 8) 8 = {}"
      using span_halves [of a] span_halves [of y] by blast+
    with False show ?thesis by (simp add: fl_def bl_def g_get_put_other [OF p])
  qed
  moreover have "same_but_links g a g'"
    unfolding same_but_links_def using g_put_other [OF p] g_put_mapped [OF p] span_halves [of a] by blast
  ultimately show ?thesis using p by (auto simp: write_flink_def)
qed

lemma write_blink_ok:
  assumes "apart_nodes N" and "a \<in> N" and "g_mapped g (a + 8) 8"
  shows "\<exists>g'. write_blink a v g = Inr g' \<and> same_but_links g a g' \<and>
    (\<forall>y \<in> N. fl g' y = fl g y \<and> bl g' y = ((bl g)(a := Inr v)) y)"
proof -
  obtain g' where p: "g_put 8 (a + 8) v g = Inr g'" using g_put_total [OF assms(3)] by blast
  have "fl g' y = fl g y \<and> bl g' y = ((bl g)(a := Inr v)) y" if "y \<in> N" for y
  proof (cases "y = a")
    case True
    then show ?thesis
      using g_get_put_same [OF p] g_get_put_other [OF p, of a 8] span_halves [of a]
      by (simp add: fl_def bl_def Int_commute)
  next
    case False
    then have "span a 16 \<inter> span y 16 = {}" using apart_nodesD assms(1,2) that by metis
    then have "span (a + 8) 8 \<inter> span y 8 = {}" "span (a + 8) 8 \<inter> span (y + 8) 8 = {}"
      using span_halves [of a] span_halves [of y] by blast+
    with False show ?thesis by (simp add: fl_def bl_def g_get_put_other [OF p])
  qed
  moreover have "same_but_links g a g'"
    unfolding same_but_links_def using g_put_other [OF p] g_put_mapped [OF p] span_halves [of a] by blast
  ultimately show ?thesis using p by (auto simp: write_blink_def)
qed

lemma same_but_linksD:
  "same_but_links g a g' \<Longrightarrow> x \<notin> span a 16 \<Longrightarrow> g' x = g x"
  "same_but_links g a g' \<Longrightarrow> g_mapped g' b n = g_mapped g b n"
  by (simp_all add: same_but_links_def)

lemma read_links_Inr: "fl g a = Inr f \<Longrightarrow> bl g a = Inr b \<Longrightarrow> read_links a g = Inr \<lparr>flink = f, blink = b\<rparr>"
  by (simp add: read_links_def fl_def bl_def)

lemma links_mapped: "fl g a = Inr f \<Longrightarrow> g_mapped g a 8" "bl g a = Inr f \<Longrightarrow> g_mapped g (a + 8) 8"
  by (auto simp: fl_def bl_def dest: g_get_mapped)

lemma write_links_ok:
  assumes "apart_nodes N" and "a \<in> N" and "g_mapped g a 8" and "g_mapped g (a + 8) 8"
  shows "\<exists>g'. write_links a e g = Inr g' \<and> same_but_links g a g' \<and>
    (\<forall>y \<in> N. fl g' y = ((fl g)(a := Inr (flink e))) y \<and> bl g' y = ((bl g)(a := Inr (blink e))) y)"
proof -
  obtain g1 where 1: "write_flink a (flink e) g = Inr g1" "same_but_links g a g1"
    "\<forall>y \<in> N. fl g1 y = ((fl g)(a := Inr (flink e))) y \<and> bl g1 y = bl g y"
    using write_flink_ok [OF assms(1-3)] by blast
  have "g_mapped g1 (a + 8) 8" using 1(2) assms(4) by (simp add: same_but_links_def)
  from write_blink_ok [OF assms(1,2) this] obtain g2 where 2: "write_blink a (blink e) g1 = Inr g2"
    "same_but_links g1 a g2" "\<forall>y \<in> N. fl g2 y = fl g1 y \<and> bl g2 y = ((bl g1)(a := Inr (blink e))) y"
    by blast
  have "same_but_links g a g2" using 1(2) 2(2) by (simp add: same_but_links_def)
  with 1 2 show ?thesis by (simp add: write_links_def)
qed

text \<open>Where the chain is and where the entry goes: every node of a chain is mapped.\<close>

lemma chain_mapped:
  "chain (fl g) (bl g) x ls z \<Longrightarrow> y \<in> set (x # ls) \<Longrightarrow> g_mapped g y 8"
  "chain (fl g) (bl g) x ls z \<Longrightarrow> y \<in> set (ls @ [z]) \<Longrightarrow> g_mapped g (y + 8) 8"
  by (induction ls arbitrary: x) (auto dest: links_mapped)

lemma write_entry_ok:
  assumes m: "g_mapped g ea (length entry)" and off: "ll_offset l + 16 \<le> length entry"
    and len: "length entry < 2 ^ 64"
    and away: "\<And>y. y \<in> N \<Longrightarrow> span ea (length entry) \<inter> span y 16 = {}"
  shows "\<exists>g'. g_write ea (set_links l e entry) g = Inr g' \<and>
    fl g' (links_addr l ea) = Inr (flink e) \<and> bl g' (links_addr l ea) = Inr (blink e) \<and>
    (\<forall>y \<in> N. fl g' y = fl g y \<and> bl g' y = bl g y) \<and>
    (\<forall>x. x \<notin> span ea (length entry) \<longrightarrow> g' x = g x) \<and> (\<forall>b n. g_mapped g' b n = g_mapped g b n) \<and>
    g_read (length entry) ea g' = Inr (set_links l e entry)"
proof -
  let ?c = "set_links l e entry"
  have c: "length ?c = length entry" using off by (simp add: set_links_def)
  obtain g' where w: "g_write ea ?c g = Inr g'" using g_write_total [of g ea ?c] m c by auto
  have r: "g_read (length entry) ea g' = Inr ?c" using g_read_write_same [OF w] c len by simp
  have "fl g' (links_addr l ea) = Inr (field_get (ll_offset l) 8 ?c)"
    using g_get_field [OF r, of "ll_offset l" 8] off by (simp add: fl_def links_addr_def)
  moreover have "bl g' (links_addr l ea) = Inr (field_get (ll_offset l + 8) 8 ?c)"
    using g_get_field [OF r, of "ll_offset l + 8" 8] off
    by (simp add: bl_def links_addr_def add.assoc)
  moreover have "fl g' y = fl g y \<and> bl g' y = bl g y" if "y \<in> N" for y
  proof -
    have "span ea (length ?c) \<inter> span y 8 = {}" "span ea (length ?c) \<inter> span (y + 8) 8 = {}"
      using away [OF that] span_halves [of y] c by auto
    then show ?thesis by (simp add: fl_def bl_def g_get_write_other [OF w])
  qed
  ultimately show ?thesis
    using w r off c g_write_other [OF w] g_write_mapped [OF w]
    by (simp add: set_links_def field_get_put_same field_get_put_other)
qed

section \<open>The operations keep the ring\<close>

lemma ring_pushed:
  assumes ring: "ring g h ls" and new: "distinct (l # h # ls)" and N: "apart_nodes (set (l # h # ls))"
    and F: "\<forall>y \<in> set (l # h # ls). fl g' y = ((fl g)(last (h # ls) := Inr l, l := Inr h)) y"
    and B: "\<forall>y \<in> set (l # h # ls). bl g' y = ((bl g)(l := Inr (last (h # ls)), h := Inr l)) y"
  shows "ring g' h (ls @ [l])"
proof -
  have "chain ((fl g)(last (h # ls) := Inr l, l := Inr h)) ((bl g)(l := Inr (last (h # ls)), h := Inr l))
      h (ls @ [l]) h"
    using chain_push ring new unfolding ring_def by blast
  moreover have "chain (fl g') (bl g') h (ls @ [l]) h =
      chain ((fl g)(last (h # ls) := Inr l, l := Inr h)) ((bl g)(l := Inr (last (h # ls)), h := Inr l))
        h (ls @ [l]) h"
    by (rule chain_cong) (use F B in auto)
  moreover have "set (h # ls @ [l]) = set (l # h # ls)" by auto
  ultimately show ?thesis using new N by (auto simp: ring_def)
qed

lemma push_back_ring:
  assumes ring: "ring g (ll_head l) ls" and m: "g_mapped g ea (length entry)"
    and off: "ll_offset l + 16 \<le> length entry" and len: "length entry < 2 ^ 64"
    and away: "\<And>y. y \<in> set (ll_head l # ls) \<Longrightarrow> span ea (length entry) \<inter> span y 16 = {}"
  shows "\<exists>g'. push_back l entry ea g = Inr g' \<and> ring g' (ll_head l) (ls @ [links_addr l ea])"
proof -
  let ?h = "ll_head l" and ?t = "last (ll_head l # ls)" and ?n = "links_addr l ea"
  let ?N = "set (?n # ?h # ls)" and ?f = "hd (ls @ [ll_head l])"
  have here: "span ?n 16 \<subseteq> span ea (length entry)"
    using span_offset [OF off, of ea] by (simp add: links_addr_def)
  have self: "y \<in> span y 16" for y :: addr by (simp add: span_iff)
  have new: "?n \<notin> set (?h # ls)" using away here self by blast
  have N: "apart_nodes ?N"
    using ring away here unfolding ring_def apart_nodes_def by (auto; blast)
  have ch: "chain (fl g) (bl g) ?h ls ?h" using ring by (simp add: ring_def)
  note ends = chain_ends [OF ch]
  have t: "?t \<in> ?N" "?h \<in> ?N" by auto
  have head: "read_links ?h g = Inr \<lparr>flink = ?f, blink = ?t\<rparr>"
    using ends by (intro read_links_Inr) auto
  obtain g1 where g1: "g_write ea (set_links l \<lparr>flink = ?h, blink = ?t\<rparr> entry) g = Inr g1"
    "fl g1 ?n = Inr ?h" "bl g1 ?n = Inr ?t" "\<forall>y \<in> set (?h # ls). fl g1 y = fl g y \<and> bl g1 y = bl g y"
    "\<forall>b n. g_mapped g1 b n = g_mapped g b n"
    using write_entry_ok [OF m off len away, of "set (?h # ls)" "\<lparr>flink = ?h, blink = ?t\<rparr>"] by auto
  have hm: "g_mapped g ?h 8" "g_mapped g (?h + 8) 8" "g_mapped g ?t 8"
    using ends links_mapped by metis+
  show ?thesis
  proof (cases "?t = ?h")
    case True
    have "g_mapped g1 ?h 8" "g_mapped g1 (?h + 8) 8" using hm g1(5) by auto
    from write_links_ok [OF N t(2) this, of "\<lparr>flink = ?n, blink = ?n\<rparr>"] obtain g2
      where g2: "write_links ?h \<lparr>flink = ?n, blink = ?n\<rparr> g1 = Inr g2"
        "\<forall>y \<in> ?N. fl g2 y = ((fl g1)(?h := Inr ?n)) y \<and> bl g2 y = ((bl g1)(?h := Inr ?n)) y" by auto
    have "ring g2 ?h (ls @ [?n])"
      by (rule ring_pushed [OF ring _ N]) (use ring new g1 g2 True in \<open>auto simp: ring_def\<close>)
    moreover have "push_back l entry ea g = Inr g2"
      using g1 g2 True by (simp add: push_back_def head)
    ultimately show ?thesis by blast
  next
    case False
    have "g_mapped g1 ?t 8" using hm g1(5) by auto
    from write_flink_ok [OF N t(1) this, of ?n] obtain g2
      where g2: "write_flink ?t ?n g1 = Inr g2" "same_but_links g1 ?t g2"
        "\<forall>y \<in> ?N. fl g2 y = ((fl g1)(?t := Inr ?n)) y \<and> bl g2 y = bl g1 y" by blast
    have "g_mapped g2 ?h 8" "g_mapped g2 (?h + 8) 8" using hm g1(5) same_but_linksD(2) [OF g2(2)] by auto
    from write_links_ok [OF N t(2) this, of "\<lparr>flink = ?f, blink = ?n\<rparr>"] obtain g3
      where g3: "write_links ?h \<lparr>flink = ?f, blink = ?n\<rparr> g2 = Inr g3"
        "\<forall>y \<in> ?N. fl g3 y = ((fl g2)(?h := Inr ?f)) y \<and> bl g3 y = ((bl g2)(?h := Inr ?n)) y" by auto
    have "ring g3 ?h (ls @ [?n])"
      by (rule ring_pushed [OF ring _ N]) (use ring new g1 g2(3) g3(2) ends False in \<open>auto simp: ring_def\<close>)
    moreover have "push_back l entry ea g = Inr g3"
      using g1 g2(1) g3(1) False by (simp add: push_back_def head)
    ultimately show ?thesis by blast
  qed
qed

lemma list_init_ring:
  assumes "g_mapped g (ll_head l) 16"
  shows "\<exists>g'. list_init l g = Inr g' \<and> ring g' (ll_head l) [] \<and> same_but_links g (ll_head l) g'"
proof -
  let ?h = "ll_head l"
  have N: "apart_nodes {?h}" by (simp add: apart_nodes_def)
  have "g_mapped g ?h 8" "g_mapped g (?h + 8) 8"
    using assms span_halves [of ?h] unfolding g_mapped_def by blast+
  from write_links_ok [OF N _ this, of "\<lparr>flink = ?h, blink = ?h\<rparr>"] show ?thesis
    using N by (auto simp: list_init_def ring_def)
qed

lemma list_remove_ring:
  assumes ring: "ring g (ll_head l) (as @ links_addr l ea # cs)"
  shows "\<exists>g'. list_remove l ea g = Inr g' \<and> ring g' (ll_head l) (as @ cs)"
proof -
  let ?h = "ll_head l" and ?e = "links_addr l ea"
  let ?p = "last (ll_head l # as)" and ?n = "hd (cs @ [ll_head l])"
  let ?N = "set (?h # as @ ?e # cs)"
  have ch: "chain (fl g) (bl g) ?h (as @ ?e # cs) ?h" and d: "distinct (?h # as @ ?e # cs)"
    and N: "apart_nodes ?N" using ring by (simp_all add: ring_def)
  note rem = chain_remove [OF ch d]
  have in_N: "?n \<in> ?N" "?p \<in> ?N" by (cases cs) auto
  have "?n \<in> set (cs @ [?h])" by (cases cs) auto
  then have "g_mapped g (?n + 8) 8" using chain_mapped(2) [OF ch, of ?n] by auto
  from write_blink_ok [OF N in_N(1) this, of ?p] obtain g1 where g1: "write_blink ?n ?p g = Inr g1"
    "same_but_links g ?n g1" "\<forall>y \<in> ?N. fl g1 y = fl g y \<and> bl g1 y = ((bl g)(?n := Inr ?p)) y" by blast
  have "?p \<in> set (?h # as)" by auto
  then have "g_mapped g1 ?p 8"
    using chain_mapped(1) [OF ch, of ?p] same_but_linksD(2) [OF g1(2)] by auto
  from write_flink_ok [OF N in_N(2) this, of ?n] obtain g2 where g2: "write_flink ?p ?n g1 = Inr g2"
    "\<forall>y \<in> ?N. fl g2 y = ((fl g1)(?p := Inr ?n)) y \<and> bl g2 y = bl g1 y" by blast
  have "chain (fl g2) (bl g2) ?h (as @ cs) ?h =
      chain ((fl g)(?p := Inr ?n)) ((bl g)(?n := Inr ?p)) ?h (as @ cs) ?h"
    by (rule chain_cong) (use g1(3) g2(2) in auto)
  moreover have "apart_nodes (set (?h # as @ cs))" using N by (auto simp: apart_nodes_def)
  ultimately have "ring g2 ?h (as @ cs)" using rem d by (simp add: ring_def)
  moreover have "list_remove l ea g = Inr g2"
    using rem g1(1) g2(1) by (simp add: list_remove_def read_links_Inr)
  ultimately show ?thesis by blast
qed

text \<open>The entries a walk reaches: up to and including the first one the callback stops at.\<close>

fun visited :: "('a \<Rightarrow> bool) \<Rightarrow> 'a list \<Rightarrow> 'a list" where
  "visited P [] = []"
| "visited P (x # xs) = (if P x then x # visited P xs else [x])"

lemma visited_all: "visited (\<lambda>_. True) xs = xs"
  by (induction xs) auto

lemma walk_chain:
  assumes "chain (fl g) (bl g) x ls (ll_head l)" and "ll_head l \<notin> set ls" and "length ls < fuel"
  shows "\<exists>y. fl g x = Inr y \<and>
    walk fuel l fn y g = Inr (visited fn (map (\<lambda>y. y - of_nat (ll_offset l)) ls))"
  using assms
proof (induction ls arbitrary: x fuel)
  case Nil
  then show ?case by (cases fuel) auto
next
  case (Cons n ls)
  then obtain k where k: "fuel = Suc k" "length ls < k" by (cases fuel) auto
  from Cons.prems have ch: "fl g x = Inr n" "bl g n = Inr x" "chain (fl g) (bl g) n ls (ll_head l)"
    "n \<noteq> ll_head l" "ll_head l \<notin> set ls" by auto
  from Cons.IH [OF ch(3,5) k(2)] obtain y where "fl g n = Inr y"
    "walk k l fn y g = Inr (visited fn (map (\<lambda>y. y - of_nat (ll_offset l)) ls))" by blast
  then show ?case using ch k by (simp add: read_links_Inr)
qed

lemma ring_head_links: "ring g h ls \<Longrightarrow> read_links h g = Inr \<lparr>flink = hd (ls @ [h]), blink = last (h # ls)\<rparr>"
  using chain_ends [of "fl g" "bl g" h ls h] by (auto simp: ring_def intro: read_links_Inr)

lemma for_each_ring:
  assumes "ring g (ll_head l) ls" and "length ls < fuel"
  shows "for_each fuel l fn g = Inr (visited fn (map (\<lambda>y. y - of_nat (ll_offset l)) ls))"
proof -
  have ch: "chain (fl g) (bl g) (ll_head l) ls (ll_head l)" "ll_head l \<notin> set ls"
    using assms(1) by (simp_all add: ring_def)
  from walk_chain [OF ch assms(2), of fn] chain_ends [OF ch(1)] show ?thesis
    by (simp add: for_each_def ring_head_links [OF assms(1)])
qed

lemma list_empty_ring: "ring g (ll_head l) ls \<Longrightarrow> list_empty l g = Inr (ls = [])"
  using ring_head_links [of g "ll_head l" ls] by (cases ls) (auto simp: list_empty_def ring_def)

text \<open>
  C37. On a list whose links form a ring through \<open>ls\<close>, \<open>push_back\<close> of an entry lying apart from
  the ring succeeds and the ring then runs through \<open>ls\<close> and the new entry; \<open>remove\<close> of an entry
  in the ring succeeds and leaves the ring of the others in their order; a walk of more steps
  than there are entries ends and calls back on each entry in order up to the first refusal;
  \<open>size\<close> counts the entries and \<open>empty\<close> says whether there are none.
\<close>

theorem linked_list_correct:
  assumes "ring g (ll_head l) ls"
  shows "(\<forall>entry ea. g_mapped g ea (length entry) \<longrightarrow> ll_offset l + 16 \<le> length entry \<longrightarrow>
      length entry < 2 ^ 64 \<longrightarrow>
      (\<forall>y \<in> set (ll_head l # ls). span ea (length entry) \<inter> span y 16 = {}) \<longrightarrow>
      (\<exists>g'. push_back l entry ea g = Inr g' \<and> ring g' (ll_head l) (ls @ [links_addr l ea]))) \<and>
    (\<forall>as ea cs. ls = as @ links_addr l ea # cs \<longrightarrow>
      (\<exists>g'. list_remove l ea g = Inr g' \<and> ring g' (ll_head l) (as @ cs))) \<and>
    (\<forall>fuel > length ls. for_each fuel l fn g = Inr (visited fn (map (\<lambda>y. y - of_nat (ll_offset l)) ls)) \<and>
      list_size fuel l g = Inr (length ls)) \<and>
    list_empty l g = Inr (ls = [])"
proof (intro conjI)
  show "\<forall>as ea cs. ls = as @ links_addr l ea # cs \<longrightarrow>
      (\<exists>g'. list_remove l ea g = Inr g' \<and> ring g' (ll_head l) (as @ cs))"
    using assms list_remove_ring [of g l] by blast
  show "\<forall>fuel > length ls. for_each fuel l fn g = Inr (visited fn (map (\<lambda>y. y - of_nat (ll_offset l)) ls)) \<and>
      list_size fuel l g = Inr (length ls)"
    by (simp add: for_each_ring [OF assms] list_size_def visited_all)
  show "list_empty l g = Inr (ls = [])" by (rule list_empty_ring [OF assms])
qed (use assms push_back_ring in blast)

definition list_w :: linked_list where
  "list_w = \<lparr>ll_head = 0x1000, ll_offset = 8\<rparr>"

text \<open>An empty list in zeroed memory, one entry of 32 bytes at 0x2000 pushed and removed again.\<close>

theorem linked_list_witness:
  "\<exists>g0 g1 g2. list_init list_w (\<lambda>_. Some 0) = Inr g0 \<and> push_back list_w (replicate 32 0) 0x2000 g0 = Inr g1 \<and>
    for_each 2 list_w (\<lambda>_. True) g1 = Inr [0x2000] \<and> list_empty list_w g1 = Inr False \<and>
    list_remove list_w 0x2000 g1 = Inr g2 \<and> list_empty list_w g2 = Inr True"
proof -
  have h: "ll_head list_w = 0x1000" "ll_offset list_w = 8" "links_addr list_w 0x2000 = 0x2008"
    by (simp_all add: list_w_def links_addr_def)
  obtain g0 where g0: "list_init list_w (\<lambda>_. Some 0) = Inr g0" "ring g0 0x1000 []"
    "same_but_links (\<lambda>_. Some 0) 0x1000 g0"
    using list_init_ring [of "\<lambda>_. Some 0" list_w] by (auto simp: g_mapped_def h)
  have m: "g_mapped g0 0x2000 32" using same_but_linksD(2) [OF g0(3)] by (simp add: g_mapped_def)
  have "span 0x2000 32 \<inter> span (0x1000 :: addr) 16 = {}"
    using span_fields_apart [of "0x1000" 32 0 16 "0x1000"] by (simp add: Int_commute)
  with linked_list_correct [of g0 list_w "[]", THEN conjunct1, rule_format, of "0x2000" "replicate 32 0"] g0(2) m
  obtain g1 where g1: "push_back list_w (replicate 32 0) 0x2000 g0 = Inr g1" "ring g1 0x1000 [0x2008]"
    by (auto simp: h)
  from linked_list_correct [of g1 list_w "[0x2008]" "\<lambda>_. True"] g1(2)
  have all: "(\<forall>as ea cs. [0x2008] = as @ links_addr list_w ea # cs \<longrightarrow>
      (\<exists>g'. list_remove list_w ea g1 = Inr g' \<and> ring g' 0x1000 (as @ cs)))"
    "for_each 2 list_w (\<lambda>_. True) g1 = Inr [0x2000]" "list_empty list_w g1 = Inr False"
    by (simp_all add: h)
  from all(1) [rule_format, of "[]" "0x2000" "[]"] obtain g2
    where g2: "list_remove list_w 0x2000 g1 = Inr g2" "ring g2 0x1000 []" by (auto simp: h)
  have "list_empty list_w g2 = Inr True" using linked_list_correct [of g2 list_w "[]"] g2(2) by (simp add: h)
  with g0 g1 g2 all show ?thesis by blast
qed

end
