(* ===== verification/Nt_Sync.thy ===== *)
theory Nt_Sync
  imports Dispatcher Obj_Manager
begin

text \<open>
  The synchronisation services: \<open>kernel/win/modules/nt_dispatch_ops.cpp\<close> (events, semaphores,
  mutants), \<open>nt_wait_ops.cpp\<close> (waits) and \<open>windows_process::wake_waiters\<close> of
  \<open>kernel/win/process.cpp\<close>. A service is a function of the state it runs in: the object
  manager, the handle table of the system process, guest memory, the threads of the process in
  the order of their ids, and the thread the cpu runs. \<open>yielded\<close> and \<open>woken\<close> record that the cpu
  was stopped for the scheduler and that parked cpus were notified. The kernel half of the
  address space, where the objects live, is the same in the default and the current space: both
  are the one guest memory of the state. A pointer argument that is null is zero. Signed 32-bit
  sums wrap, as they do on the targets. The log lines are left out.
\<close>

section \<open>State\<close>

record nt_state =
  objs :: obj_manager
  table :: handle_table
  gm :: gmem
  procthreads :: "(nat \<times> win_thread) list"
  current :: "nat option"
  yielded :: bool
  woken :: bool

type_synonym service = "nt_state \<Rightarrow> emu_error + NTSTATUS \<times> nt_state"

definition KSEMAPHORE_Limit :: addr where "KSEMAPHORE_Limit = 0x18"
definition OA_ObjectName :: addr where "OA_ObjectName = 0x10"
definition sizeof_KEVENT :: nat where "sizeof_KEVENT = 0x18"
definition sizeof_KSEMAPHORE :: nat where "sizeof_KSEMAPHORE = 0x20"
definition sizeof_KMUTANT :: nat where "sizeof_KMUTANT = 0x38"

text \<open>\<open>prot_rw | prot_supervisor\<close>.\<close>

definition kernel_rw :: u64 where "kernel_rw = 0xB"

definition with_mem :: "(gmem \<Rightarrow> emu_error + gmem) \<Rightarrow> nt_state \<Rightarrow> emu_error + nt_state" where
  "with_mem f s = bind_result (f (gm s)) (\<lambda>g. Inr (s\<lparr>gm := g\<rparr>))"

text \<open>An optional out parameter: \<open>if (p) p.write(v)\<close>.\<close>

definition write_opt :: "nat \<Rightarrow> addr \<Rightarrow> 'a::len word \<Rightarrow> nt_state \<Rightarrow> emu_error + nt_state" where
  "write_opt n p v s = (if p \<noteq> 0 then with_mem (g_put n p v) s else Inr s)"

section \<open>Waking the waiters of an object\<close>

text \<open>\<open>for_each_thread\<close> with the callback of \<open>wake_waiters\<close>, in the order of the thread ids.\<close>

fun wake_loop :: "addr \<Rightarrow> (nat \<times> win_thread) list \<Rightarrow> gmem \<Rightarrow>
  emu_error + bool \<times> (nat \<times> win_thread) list \<times> gmem" where
  "wake_loop object [] g = Inr (False, [], g)"
| "wake_loop object ((i, t) # ts) g =
     bind_result (if waiting_on object t then try_satisfy (t, g) else Inr (False, t, g)) (\<lambda>(hit, t, g).
     bind_result (wake_loop object ts g) (\<lambda>(released, ts, g).
       Inr (hit \<or> released, (i, t) # ts, g)))"

definition wake_waiters :: "addr \<Rightarrow> nt_state \<Rightarrow> emu_error + nt_state" where
  "wake_waiters object s =
     bind_result (wake_loop object (procthreads s) (gm s)) (\<lambda>(released, ts, g).
       Inr (s\<lparr>procthreads := ts, gm := g, woken := woken s \<or> released\<rparr>))"

section \<open>Objects behind handles\<close>

fun as_dispatcher :: "win_object \<Rightarrow> nat option" where
  "as_dispatcher (Dispatcher_host type name) = Some type"
| "as_dispatcher _ = None"

definition is_event_type :: "u8 \<Rightarrow> bool" where
  "is_event_type type \<longleftrightarrow> type = event_notification_object \<or> type = event_synchronization_object"

text \<open>The address and the type of the host; a null address is no result, as at every caller.\<close>

definition resolve :: "u64 \<Rightarrow> u8 \<Rightarrow> nt_state \<Rightarrow> (addr \<times> u8) option" where
  "resolve handle expected s =
     (case lookup_handle handle (table s) of
        None \<Rightarrow> None
      | Some entry \<Rightarrow>
          (case get_object as_dispatcher (body_addr entry) (objs s) of
             None \<Rightarrow> None
           | Some type \<Rightarrow>
               if of_nat type \<noteq> expected \<and> \<not> (is_event_type expected \<and> is_event_type (of_nat type))
               then None
               else if body_addr entry = 0 then None
               else Some (body_addr entry, of_nat type)))"

definition object_of :: "u64 \<Rightarrow> nt_state \<Rightarrow> addr" where
  "object_of handle s =
     (case lookup_handle handle (table s) of Some e \<Rightarrow> body_addr e | None \<Rightarrow> 0)"

definition attribute_name :: "addr \<Rightarrow> gmem \<Rightarrow> emu_error + string" where
  "attribute_name attributes g =
     bind_result (if attributes \<noteq> 0 then g_get 8 (attributes + OA_ObjectName) g else Inr 0) (\<lambda>name.
     if name = 0 then Inr []
     else
       bind_result (g_get 2 name g) (\<lambda>len.
       bind_result (g_get 2 (name + 2) g) (\<lambda>maximum.
       bind_result (g_get 8 (name + 8) g) (\<lambda>buffer.
       bind_result (read_unicode_string
           \<lparr>cs_Length = len, cs_MaximumLength = maximum, cs_Buffer = buffer\<rparr> g) (\<lambda>wide.
         Inr (narrow_wstring wide))))))"

type_synonym allocator = "u64 \<Rightarrow> u64 \<Rightarrow> gmem \<Rightarrow> emu_error + addr \<times> gmem"

definition create_dispatcher ::
  "allocator \<Rightarrow> nat \<Rightarrow> u8 \<Rightarrow> u32 \<Rightarrow> u32 \<Rightarrow> string \<Rightarrow> nt_state \<Rightarrow> emu_error + u64 \<times> nt_state" where
  "create_dispatcher alloc sz type state acc name s =
     bind_result (create_object alloc 0 (Some (replicate sz 0)) (of_nat sz)
         (Some (Dispatcher_host (unat type) name)) kernel_rw (objs s, gm s)) (\<lambda>(a, om, g).
     let s = s\<lparr>objs := om, gm := g\<rparr> in
     if a = 0 then Inr (0, s)
     else
       bind_result (init_dispatcher a sz type state (gm s)) (\<lambda>g.
       bind_result (create_handle a acc (objs s) (table s, g)) (\<lambda>(h, t, g).
         Inr (h, s\<lparr>table := t, gm := g\<rparr>))))"

section \<open>Events\<close>

definition notification_event :: u32 where "notification_event = 0"
definition event_basic_information :: u32 where "event_basic_information = 0"
definition sizeof_event_basic_information :: u32 where "sizeof_event_basic_information = 8"

definition create_event :: "allocator \<Rightarrow> addr \<Rightarrow> u32 \<Rightarrow> addr \<Rightarrow> u32 \<Rightarrow> bool \<Rightarrow> service" where
  "create_event alloc event_handle acc attributes event_type initial s =
     (if event_handle = 0 then Inr (STATUS_INVALID_PARAMETER, s)
      else
        bind_result (attribute_name attributes (gm s)) (\<lambda>name.
        let type = (if event_type = notification_event then event_notification_object
                    else event_synchronization_object) in
        bind_result (create_dispatcher alloc sizeof_KEVENT type (if initial then 1 else 0) acc name s) (\<lambda>(h, s).
        if h = 0 then Inr (STATUS_INSUFFICIENT_RESOURCES, s)
        else bind_result (with_mem (g_put 8 event_handle h) s) (\<lambda>s. Inr (STATUS_SUCCESS, s)))))"

definition open_event :: "addr \<Rightarrow> service" where
  "open_event event_handle s =
     bind_result (write_opt 8 event_handle (0 :: u64) s) (\<lambda>s. Inr (STATUS_OBJECT_NAME_NOT_FOUND, s))"

text \<open>What \<open>set_event\<close> and \<open>reset_event\<close> have in common: the state is replaced and the old one reported.\<close>

definition swap_state :: "addr \<Rightarrow> u32 \<Rightarrow> addr \<Rightarrow> nt_state \<Rightarrow> emu_error + nt_state" where
  "swap_state object new previous_state s =
     bind_result (state_at object (gm s)) (\<lambda>previous.
     bind_result (with_mem (set_state_at object new) s) (write_opt 4 previous_state previous))"

definition set_event :: "u64 \<Rightarrow> addr \<Rightarrow> service" where
  "set_event handle previous_state s =
     (case resolve handle event_notification_object s of
        None \<Rightarrow> Inr (STATUS_INVALID_HANDLE, s)
      | Some (a, _) \<Rightarrow>
          bind_result (swap_state a 1 previous_state s) (\<lambda>s.
          bind_result (wake_waiters a s) (\<lambda>s. Inr (STATUS_SUCCESS, s))))"

definition reset_event :: "u64 \<Rightarrow> addr \<Rightarrow> service" where
  "reset_event handle previous_state s =
     (case resolve handle event_notification_object s of
        None \<Rightarrow> Inr (STATUS_INVALID_HANDLE, s)
      | Some (a, _) \<Rightarrow> bind_result (swap_state a 0 previous_state s) (\<lambda>s. Inr (STATUS_SUCCESS, s)))"

definition clear_event :: "u64 \<Rightarrow> service" where
  "clear_event handle s =
     (case resolve handle event_notification_object s of
        None \<Rightarrow> Inr (STATUS_INVALID_HANDLE, s)
      | Some (a, _) \<Rightarrow> bind_result (with_mem (set_state_at a 0) s) (\<lambda>s. Inr (STATUS_SUCCESS, s)))"

definition query_event :: "u64 \<Rightarrow> u32 \<Rightarrow> addr \<Rightarrow> u32 \<Rightarrow> addr \<Rightarrow> service" where
  "query_event handle info_class information len return_length s =
     (case resolve handle event_notification_object s of
        None \<Rightarrow> Inr (STATUS_INVALID_HANDLE, s)
      | Some (a, type) \<Rightarrow>
          if info_class \<noteq> event_basic_information then Inr (STATUS_INVALID_INFO_CLASS, s)
          else
            bind_result (write_opt 4 return_length sizeof_event_basic_information s) (\<lambda>s.
            if len < sizeof_event_basic_information then Inr (STATUS_INFO_LENGTH_MISMATCH, s)
            else
              bind_result (state_at a (gm s)) (\<lambda>state.
              let event_type = (if type = event_notification_object then 0 else 1 :: u32) in
              bind_result (with_mem (g_write information (le_enc 4 event_type @ le_enc 4 state)) s) (\<lambda>s.
                Inr (STATUS_SUCCESS, s)))))"

section \<open>Semaphores\<close>

definition create_semaphore :: "allocator \<Rightarrow> addr \<Rightarrow> u32 \<Rightarrow> addr \<Rightarrow> u32 \<Rightarrow> u32 \<Rightarrow> service" where
  "create_semaphore alloc semaphore_handle acc attributes initial maximum s =
     (if semaphore_handle = 0 then Inr (STATUS_INVALID_PARAMETER, s)
      else if sint maximum \<le> 0 \<or> sint initial < 0 \<or> sint maximum < sint initial
      then Inr (STATUS_INVALID_PARAMETER, s)
      else
        bind_result (attribute_name attributes (gm s)) (\<lambda>name.
        bind_result (create_dispatcher alloc sizeof_KSEMAPHORE semaphore_object initial acc name s) (\<lambda>(h, s).
        if h = 0 then Inr (STATUS_INSUFFICIENT_RESOURCES, s)
        else
          bind_result (with_mem (g_put 4 (object_of h s + KSEMAPHORE_Limit) maximum) s) (\<lambda>s.
          bind_result (with_mem (g_put 8 semaphore_handle h) s) (\<lambda>s. Inr (STATUS_SUCCESS, s))))))"

definition release_semaphore :: "u64 \<Rightarrow> u32 \<Rightarrow> addr \<Rightarrow> service" where
  "release_semaphore handle release_count previous_count s =
     (case resolve handle semaphore_object s of
        None \<Rightarrow> Inr (STATUS_INVALID_HANDLE, s)
      | Some (a, _) \<Rightarrow>
          if sint release_count \<le> 0 then Inr (STATUS_INVALID_PARAMETER, s)
          else
            bind_result (state_at a (gm s)) (\<lambda>previous.
            bind_result (g_get 4 (a + KSEMAPHORE_Limit) (gm s)) (\<lambda>limit :: u32.
            if sint limit < sint (previous + release_count)
            then Inr (STATUS_SEMAPHORE_LIMIT_EXCEEDED, s)
            else
              bind_result (with_mem (set_state_at a (previous + release_count)) s) (\<lambda>s.
              bind_result (write_opt 4 previous_count previous s) (\<lambda>s.
              bind_result (wake_waiters a s) (\<lambda>s. Inr (STATUS_SUCCESS, s)))))))"

section \<open>Mutants\<close>

definition current_thread :: "nt_state \<Rightarrow> win_thread option" where
  "current_thread s = (case current s of Some i \<Rightarrow> map_of (procthreads s) i | None \<Rightarrow> None)"

definition create_mutant :: "allocator \<Rightarrow> addr \<Rightarrow> u32 \<Rightarrow> addr \<Rightarrow> bool \<Rightarrow> service" where
  "create_mutant alloc mutant_handle acc attributes initial_owner s =
     (if mutant_handle = 0 then Inr (STATUS_INVALID_PARAMETER, s)
      else
        bind_result (attribute_name attributes (gm s)) (\<lambda>name.
        bind_result (create_dispatcher alloc sizeof_KMUTANT mutant_object (if initial_owner then 0 else 1)
            acc name s) (\<lambda>(h, s).
        if h = 0 then Inr (STATUS_INSUFFICIENT_RESOURCES, s)
        else
          bind_result
            (if initial_owner
             then with_mem (set_owner_at (object_of h s)
                    (case current_thread s of Some t \<Rightarrow> ethread t | None \<Rightarrow> 0)) s
             else Inr s) (\<lambda>s.
          bind_result (with_mem (g_put 8 mutant_handle h) s) (\<lambda>s. Inr (STATUS_SUCCESS, s))))))"

definition release_mutant :: "u64 \<Rightarrow> addr \<Rightarrow> service" where
  "release_mutant handle previous_count s =
     (case resolve handle mutant_object s of
        None \<Rightarrow> Inr (STATUS_INVALID_HANDLE, s)
      | Some (a, _) \<Rightarrow>
          bind_result (state_at a (gm s)) (\<lambda>previous.
          if 0 < sint previous then Inr (STATUS_MUTANT_NOT_OWNED, s)
          else
            bind_result (with_mem (set_state_at a (previous + 1)) s) (\<lambda>s.
            bind_result (with_mem (set_owner_at a 0) s) (\<lambda>s.
            bind_result (write_opt 4 previous_count previous s) (\<lambda>s.
            bind_result (wake_waiters a s) (\<lambda>s. Inr (STATUS_SUCCESS, s)))))))"

section \<open>Waits\<close>

definition wait_all :: u32 where "wait_all = 0"
definition maximum_wait_objects :: u32 where "maximum_wait_objects = 64"

text \<open>\<open>read_timeout\<close>: the deadline and whether there is one; \<open>now\<close> is the guest time.\<close>

definition read_timeout :: "int \<Rightarrow> addr \<Rightarrow> gmem \<Rightarrow> emu_error + int \<times> bool" where
  "read_timeout now value g =
     (if value = 0 then Inr (0, False)
      else
        bind_result (g_get 8 value g) (\<lambda>ticks :: u64.
          Inr (if sint ticks < 0 then sint (word_of_int now - ticks) else sint ticks, True)))"

definition make_wait :: "int \<Rightarrow> addr list \<Rightarrow> u32 \<Rightarrow> addr \<Rightarrow> gmem \<Rightarrow> emu_error + wait_state" where
  "make_wait now watched wait_type timeout g =
     bind_result (read_timeout now timeout g) (\<lambda>(deadline, timed).
       Inr \<lparr>ws_objects = watched, ws_all = (wait_type = wait_all), ws_deadline = deadline,
            ws_timed = timed, ws_satisfied = False, ws_status = 0\<rparr>)"

definition set_current :: "nat \<Rightarrow> win_thread \<Rightarrow> nt_state \<Rightarrow> nt_state" where
  "set_current i t s = s\<lparr>procthreads := map (\<lambda>(j, u). (j, if j = i then t else u)) (procthreads s)\<rparr>"

definition enter_wait :: "int \<Rightarrow> int \<Rightarrow> addr list \<Rightarrow> u32 \<Rightarrow> addr \<Rightarrow> service" where
  "enter_wait now host_now watched wait_type timeout s =
     (case (current s, current_thread s) of
        (Some i, Some t) \<Rightarrow>
          bind_result (make_wait now watched wait_type timeout (gm s)) (\<lambda>w.
          bind_result (try_satisfy (begin_wait now host_now w t, gm s)) (\<lambda>(_, t, g).
            Inr (STATUS_SUCCESS, (set_current i t s)\<lparr>gm := g, yielded := True\<rparr>)))
      | _ \<Rightarrow> Inr (STATUS_INVALID_PARAMETER, s))"

definition KeWaitForSingleObject :: "int \<Rightarrow> int \<Rightarrow> addr \<Rightarrow> addr \<Rightarrow> service" where
  "KeWaitForSingleObject now host_now object timeout s =
     (if object = 0 then Inr (STATUS_INVALID_PARAMETER, s)
      else enter_wait now host_now [object] 1 timeout s)"

fun read_array :: "addr \<Rightarrow> nat \<Rightarrow> gmem \<Rightarrow> emu_error + u64 list" where
  "read_array a 0 g = Inr []"
| "read_array a (Suc n) g =
     bind_result (g_get 8 a g) (\<lambda>x. bind_result (read_array (a + 8) n g) (\<lambda>xs. Inr (x # xs)))"

definition KeWaitForMultipleObjects :: "int \<Rightarrow> int \<Rightarrow> u32 \<Rightarrow> addr \<Rightarrow> u32 \<Rightarrow> addr \<Rightarrow> service" where
  "KeWaitForMultipleObjects now host_now count object_array wait_type timeout s =
     (if count = 0 \<or> maximum_wait_objects < count \<or> object_array = 0 then Inr (STATUS_INVALID_PARAMETER, s)
      else
        bind_result (read_array object_array (unat count) (gm s)) (\<lambda>watched.
          enter_wait now host_now watched wait_type timeout s))"

definition NtWaitForSingleObject :: "int \<Rightarrow> int \<Rightarrow> u64 \<Rightarrow> addr \<Rightarrow> service" where
  "NtWaitForSingleObject now host_now handle timeout s =
     (let object = object_of handle s in
      if object = 0 then Inr (STATUS_INVALID_HANDLE, s)
      else enter_wait now host_now [object] 1 timeout s)"

text \<open>The loop over the handles stops at the first that is not open.\<close>

fun resolve_array :: "addr \<Rightarrow> nat \<Rightarrow> nt_state \<Rightarrow> emu_error + addr list option" where
  "resolve_array a 0 s = Inr (Some [])"
| "resolve_array a (Suc n) s =
     bind_result (g_get 8 a (gm s)) (\<lambda>handle.
       let object = object_of handle s in
       if object = 0 then Inr None
       else bind_result (resolve_array (a + 8) n s) (\<lambda>rest. Inr (map_option ((#) object) rest)))"

definition NtWaitForMultipleObjects :: "int \<Rightarrow> int \<Rightarrow> u32 \<Rightarrow> addr \<Rightarrow> u32 \<Rightarrow> addr \<Rightarrow> service" where
  "NtWaitForMultipleObjects now host_now count handle_array wait_type timeout s =
     (if count = 0 \<or> maximum_wait_objects < count \<or> handle_array = 0 then Inr (STATUS_INVALID_PARAMETER, s)
      else
        bind_result (resolve_array handle_array (unat count) s) (\<lambda>found.
          case found of
            None \<Rightarrow> Inr (STATUS_INVALID_HANDLE, s)
          | Some watched \<Rightarrow> enter_wait now host_now watched wait_type timeout s))"

definition signal_object :: "addr \<Rightarrow> gmem \<Rightarrow> emu_error + gmem" where
  "signal_object object g =
     bind_result (type_at object g) (\<lambda>type.
       if type = semaphore_object then
         bind_result (state_at object g) (\<lambda>state. set_state_at object (state + 1) g)
       else if type = mutant_object then
         bind_result (state_at object g) (\<lambda>state.
         bind_result (set_state_at object (state + 1) g) (set_owner_at object 0))
       else set_state_at object 1 g)"

definition SignalAndWaitForSingleObject :: "int \<Rightarrow> int \<Rightarrow> u64 \<Rightarrow> u64 \<Rightarrow> addr \<Rightarrow> service" where
  "SignalAndWaitForSingleObject now host_now signal_handle wait_handle timeout s =
     (let signal = object_of signal_handle s; object = object_of wait_handle s in
      if signal = 0 \<or> object = 0 then Inr (STATUS_INVALID_HANDLE, s)
      else
        bind_result (with_mem (signal_object signal) s) (\<lambda>s.
        bind_result (wake_waiters signal s) (enter_wait now host_now [object] 1 timeout)))"

section \<open>What waking promises\<close>

text \<open>
  Without memory: a wait that can be satisfied, the objects it then takes, and the thread
  afterwards. \<open>release_waiters\<close> goes through the threads and grants what it can.
\<close>

definition grantable :: "win_thread \<Rightarrow> (addr \<Rightarrow> dobj) \<Rightarrow> bool" where
  "grantable t D \<longleftrightarrow>
     (case wait t of
        None \<Rightarrow> False
      | Some w \<Rightarrow> \<not> ws_satisfied w \<and>
          (if ws_all w then \<forall>a \<in> set (ws_objects w). signalled (ethread t) (D a)
           else \<exists>a \<in> set (ws_objects w). signalled (ethread t) (D a)))"

definition first_ready :: "win_thread \<Rightarrow> wait_state \<Rightarrow> (addr \<Rightarrow> dobj) \<Rightarrow> nat" where
  "first_ready t w D = length (takeWhile (\<lambda>a. \<not> signalled (ethread t) (D a)) (ws_objects w))"

definition granted :: "win_thread \<Rightarrow> (addr \<Rightarrow> dobj) \<Rightarrow> addr list" where
  "granted t D =
     (case wait t of
        None \<Rightarrow> []
      | Some w \<Rightarrow> if ws_all w then ws_objects w else [ws_objects w ! first_ready t w D])"

definition grant :: "win_thread \<Rightarrow> (addr \<Rightarrow> dobj) \<Rightarrow> addr \<Rightarrow> dobj" where
  "grant t D a = (if a \<in> set (granted t D) then taken (ethread t) (D a) else D a)"

definition served :: "win_thread \<Rightarrow> (addr \<Rightarrow> dobj) \<Rightarrow> win_thread" where
  "served t D =
     (case wait t of
        None \<Rightarrow> t
      | Some w \<Rightarrow> t\<lparr>wait := Some (w\<lparr>ws_status := (if ws_all w then STATUS_SUCCESS else of_nat (first_ready t w D)),
          ws_satisfied := True\<rparr>)\<rparr>)"

fun release_waiters ::
  "addr \<Rightarrow> (nat \<times> win_thread) list \<Rightarrow> (addr \<Rightarrow> dobj) \<Rightarrow> (nat \<times> win_thread) list \<times> (addr \<Rightarrow> dobj)" where
  "release_waiters a [] D = ([], D)"
| "release_waiters a ((i, t) # ts) D =
     (if waiting_on a t \<and> grantable t D
      then let (us, E) = release_waiters a ts (grant t D) in ((i, served t D) # us, E)
      else let (us, E) = release_waiters a ts D in ((i, t) # us, E))"

text \<open>A wait whose objects are among \<open>A\<close>, each named once.\<close>

definition waits_within :: "addr list \<Rightarrow> win_thread \<Rightarrow> bool" where
  "waits_within A t \<longleftrightarrow>
     (case wait t of None \<Rightarrow> True | Some w \<Rightarrow> distinct (ws_objects w) \<and> set (ws_objects w) \<subseteq> set A)"

definition frame :: "(addr \<Rightarrow> dobj) \<Rightarrow> addr list \<Rightarrow> gmem \<Rightarrow> gmem \<Rightarrow> bool" where
  "frame D A g g' \<longleftrightarrow> (\<forall>x. (\<forall>a \<in> set A. x \<notin> extent a (D a)) \<longrightarrow> g' x = g x)"

lemma extent_grant [simp]: "extent a (grant t D a) = extent a (D a)"
  by (simp add: grant_def)

lemma separate_grant [simp]: "separate (grant t D) A = separate D A"
  by (simp add: separate_def)

lemma frame_grant [simp]: "frame (grant t D) A = frame D A"
  by (simp add: frame_def fun_eq_iff)

lemma frame_refl [simp]: "frame D A g g"
  by (simp add: frame_def)

lemma frame_trans: "frame D A g g1 \<Longrightarrow> frame D A g1 g2 \<Longrightarrow> frame D A g g2"
  by (simp add: frame_def)

text \<open>Memory that changes only where the objects of \<open>O\<close> are leaves the others as they were.\<close>

lemma views_after:
  assumes "views g D A" and "separate D A" and "set T \<subseteq> set A"
    and "\<And>a. a \<in> set T \<Longrightarrow> dview g' a (E a)" and "\<And>a. a \<notin> set T \<Longrightarrow> E a = D a"
    and "\<forall>x. (\<forall>a \<in> set T. x \<notin> extent a (D a)) \<longrightarrow> g' x = g x"
  shows "views g' E A"
  unfolding views_def
proof
  fix b assume b: "b \<in> set A"
  show "dview g' b (E b)"
  proof (cases "b \<in> set T")
    case True
    then show ?thesis by (rule assms(4))
  next
    case False
    have "extent b (D b) \<inter> extent a (D a) = {}" if "a \<in> set T" for a
    proof -
      have "a \<in> set A" "b \<noteq> a" using assms(3) that False by auto
      then show ?thesis using assms(2) b by (simp add: separate_def)
    qed
    then have "g' x = g x" if "x \<in> extent b (D b)" for x using assms(6) that by blast
    then have "dview g' b (D b)" using assms(1) b dview_cong unfolding views_def by blast
    then show ?thesis using assms(5) [OF False] by simp
  qed
qed

lemma try_satisfy_grant:
  assumes "views g D A" and "separate D A" and "waits_within A t" and "grantable t D"
  shows "\<exists>g'. try_satisfy (t, g) = Inr (True, served t D, g') \<and> views g' (grant t D) A \<and> frame D A g g'"
proof -
  from assms(4) obtain w where w: "wait t = Some w" "\<not> ws_satisfied w"
    by (auto simp: grantable_def split: option.splits)
  have objs: "set (ws_objects w) \<subseteq> set A" "distinct (ws_objects w)"
    using assms(3) w by (auto simp: waits_within_def)
  have v: "views g D (ws_objects w)" using assms(1) objs by (auto simp: views_def)
  have sep: "separate D (ws_objects w)" using assms(2) objs unfolding separate_def by blast
  let ?T = "granted t D"
  have T: "set ?T \<subseteq> set A"
  proof (cases "ws_all w")
    case False
    then have "first_ready t w D < length (ws_objects w)"
      using assms(4) w takeWhile_first [of "ws_objects w" "\<lambda>a. signalled (ethread t) (D a)"]
      by (simp add: grantable_def first_ready_def)
    then show ?thesis using objs(1) w False by (auto simp: granted_def)
  qed (use w objs in \<open>simp add: granted_def\<close>)
  have "\<exists>g'. try_satisfy (t, g) = Inr (True, served t D, g') \<and>
      (\<forall>a \<in> set ?T. dview g' a (taken (ethread t) (D a))) \<and>
      (\<forall>x. (\<forall>a \<in> set ?T. x \<notin> extent a (D a)) \<longrightarrow> g' x = g x)"
  proof (cases "ws_all w")
    case True
    then show ?thesis
      using assms(4) w all_signalled_view [OF v, of "ethread t"] take_all_view [OF v sep, of "ethread t"]
      by (auto simp: try_satisfy_def Let_def grantable_def granted_def served_def views_def)
  next
    case False
    let ?a = "ws_objects w ! first_ready t w D"
    have "dview g ?a (D ?a)" using T w False assms(1) by (auto simp: granted_def views_def)
    then obtain g' where "take_object ?a (ethread t) g = Inr g'" "dview g' ?a (taken (ethread t) (D ?a))"
      "\<forall>x. x \<notin> extent ?a (D ?a) \<longrightarrow> g' x = g x" by (rule take_dview)
    then show ?thesis
      using assms(4) w False first_signalled_view [OF v, of 0 "ethread t"]
      by (auto simp: try_satisfy_def Let_def grantable_def granted_def served_def first_ready_def)
  qed
  then obtain g' where g': "try_satisfy (t, g) = Inr (True, served t D, g')"
    "\<forall>a \<in> set ?T. dview g' a (taken (ethread t) (D a))"
    "\<forall>x. (\<forall>a \<in> set ?T. x \<notin> extent a (D a)) \<longrightarrow> g' x = g x" by blast
  have "views g' (grant t D) A"
    by (rule views_after [OF assms(1,2) T _ _ g'(3)]) (use g'(2) in \<open>auto simp: grant_def\<close>)
  moreover have "frame D A g g'" unfolding frame_def using g'(3) T by blast
  ultimately show ?thesis using g'(1) by blast
qed

lemma try_satisfy_refuse:
  assumes "views g D A" and "waits_within A t" and "\<not> grantable t D"
  shows "try_satisfy (t, g) = Inr (False, t, g)"
proof (cases "wait t")
  case (Some w)
  then have v: "views g D (ws_objects w)" using assms(1,2) by (auto simp: views_def waits_within_def)
  show ?thesis
    using Some assms(3) all_signalled_view [OF v, of "ethread t"] first_signalled_view [OF v, of 0 "ethread t"]
    by (auto simp: try_satisfy_def Let_def grantable_def)
qed (simp add: try_satisfy_def)

text \<open>
  Taking only lowers what is signalled for others, as long as the count of a mutant does not
  run out of its 32 bits.
\<close>

definition room :: "int \<Rightarrow> (addr \<Rightarrow> dobj) \<Rightarrow> addr list \<Rightarrow> bool" where
  "room n D A \<longleftrightarrow> n \<le> 2 ^ 31 \<and> (\<forall>a \<in> set A. n - 2 ^ 31 < sint (d_state (D a)))"

lemma sint_minus_one: "- (2 ^ 31) < sint (s :: u32) \<Longrightarrow> sint (s - 1) = sint s - 1"
  using sint_lt [of s] by (simp add: sint_word_ariths(2) signed_take_bit_int_eq_self)

lemma signalled_taken:
  assumes "signalled v (taken w d)" and "v \<noteq> w" and "- (2 ^ 31) < sint (d_state d)"
  shows "signalled v d"
  using assms sint_minus_one [OF assms(3)]
  by (auto simp: signalled_def taken_def split: if_splits)

lemma room_grant:
  assumes "room (n + 1) D A" and "0 \<le> n"
  shows "room n (grant t D) A"
proof -
  have n: "n < 2 ^ 31" using assms(1) by (simp add: room_def)
  have "n - 2 ^ 31 < sint (d_state (grant t D a))" if "a \<in> set A" for a
  proof -
    from that have r: "n + 1 - 2 ^ 31 < sint (d_state (D a))" using assms(1) by (simp add: room_def)
    then have "n - 2 ^ 31 < sint (d_state (taken (ethread t) (D a)))"
      using assms(2) n sint_minus_one [of "d_state (D a)"] by (auto simp: taken_def)
    with r show ?thesis by (simp add: grant_def)
  qed
  with n show ?thesis by (simp add: room_def)
qed

lemma room_mono: "room m D A \<Longrightarrow> n \<le> m \<Longrightarrow> room n D A"
  by (fastforce simp: room_def)

section \<open>Waking does what it promises\<close>

lemma served_not_grantable: "\<not> grantable (served t D) E"
  by (cases "wait t") (auto simp: served_def grantable_def)

lemma wake_loop_refines:
  assumes "views g D A" and "separate D A" and "\<forall>(i, t) \<in> set ts. waits_within A t"
  shows "\<exists>g'. wake_loop a ts g =
      Inr (fst (release_waiters a ts D) \<noteq> ts, fst (release_waiters a ts D), g') \<and>
    views g' (snd (release_waiters a ts D)) A \<and> frame D A g g'"
  using assms
proof (induction ts arbitrary: g D)
  case Nil
  then show ?case by simp
next
  case (Cons it ts)
  obtain i t where it: "it = (i, t)" by force
  have within: "waits_within A t" "\<forall>(i, t) \<in> set ts. waits_within A t" using Cons.prems(3) it by auto
  show ?case
  proof (cases "waiting_on a t \<and> grantable t D")
    case True
    obtain g1 where g1: "try_satisfy (t, g) = Inr (True, served t D, g1)" "views g1 (grant t D) A"
      "frame D A g g1" using try_satisfy_grant [OF Cons.prems(1,2) within(1)] True by blast
    obtain us E where r: "release_waiters a ts (grant t D) = (us, E)" by force
    from Cons.IH [OF g1(2) _ within(2)] Cons.prems(2) r obtain g2 where
      "wake_loop a ts g1 = Inr (us \<noteq> ts, us, g2)"
      "views g2 E A" "frame D A g1 g2" by auto
    moreover have "served t D \<noteq> t"
      using True served_not_grantable [of t D D] by auto
    ultimately show ?thesis using it True g1 r frame_trans [OF g1(3)] by auto
  next
    case False
    have "(if waiting_on a t then try_satisfy (t, g) else Inr (False, t, g)) = Inr (False, t, g)"
      using False try_satisfy_refuse [OF Cons.prems(1) within(1)] by auto
    moreover obtain us E where r: "release_waiters a ts D = (us, E)" by force
    moreover from Cons.IH [OF Cons.prems(1,2) within(2)] r obtain g2 where
      "wake_loop a ts g = Inr (us \<noteq> ts, us, g2)"
      "views g2 E A" "frame D A g g2" by auto
    ultimately show ?thesis using it False by auto
  qed
qed

lemma release_waiters_lowers:
  assumes "room (int (length ts)) D A" and "x \<in> set A" and "v \<notin> ethread ` snd ` set ts"
    and "signalled v (snd (release_waiters a ts D) x)"
  shows "signalled v (D x)"
  using assms
proof (induction ts arbitrary: D)
  case (Cons it ts)
  obtain i t where it: "it = (i, t)" by force
  show ?case
  proof (cases "waiting_on a t \<and> grantable t D")
    case True
    have "room (int (length ts)) (grant t D) A" using Cons.prems(1) by (intro room_grant) (simp_all add: add.commute)
    then have "signalled v (grant t D x)"
      by (rule Cons.IH) (use Cons.prems it True in \<open>auto split: prod.splits\<close>)
    moreover have "- (2 ^ 31) < sint (d_state (D x))" using Cons.prems(1,2) by (force simp: room_def)
    moreover have "v \<noteq> ethread t" using Cons.prems(3) it by auto
    ultimately show ?thesis by (auto simp: grant_def split: if_splits dest: signalled_taken)
  next
    case False
    have "room (int (length ts)) D A" using Cons.prems(1) by (rule room_mono) simp
    then show ?thesis
      by (rule Cons.IH) (use Cons.prems it False in \<open>auto split: prod.splits\<close>)
  qed
qed simp

lemma grantable_lower:
  assumes "grantable t E" and "waits_within A t"
    and "\<And>x. x \<in> set A \<Longrightarrow> signalled (ethread t) (E x) \<Longrightarrow> signalled (ethread t) (D x)"
  shows "grantable t D"
  using assms by (fastforce simp: grantable_def waits_within_def split: option.splits if_splits)

lemma release_waiters_complete:
  assumes "room (int (length ts)) D A" and "\<forall>(i, t) \<in> set ts. waits_within A t"
    and "distinct (map (ethread \<circ> snd) ts)"
    and "(i, t) \<in> set (fst (release_waiters a ts D))" and "waiting_on a t"
  shows "\<not> grantable t (snd (release_waiters a ts D))"
  using assms
proof (induction ts arbitrary: D)
  case (Cons ju ts)
  obtain j u where ju: "ju = (j, u)" by force
  let ?D = "if waiting_on a u \<and> grantable u D then grant u D else D"
  obtain us E where r: "release_waiters a ts ?D = (us, E)" by force
  have rw: "release_waiters a (ju # ts) D =
      ((j, if waiting_on a u \<and> grantable u D then served u D else u) # us, E)"
    using r by (auto simp: ju)
  have room: "room (int (length ts)) ?D A"
    using Cons.prems(1) room_grant [of "int (length ts)" D A u] room_mono by (auto simp: add.commute)
  show ?case
  proof (cases "(i, t) \<in> set us")
    case True
    with Cons.IH [OF room] Cons.prems(2,3,5) r rw show ?thesis by (auto simp: ju)
  next
    case False
    then have t: "t = (if waiting_on a u \<and> grantable u D then served u D else u)"
      using Cons.prems(4) rw by auto
    show ?thesis
    proof (cases "waiting_on a u \<and> grantable u D")
      case True
      then show ?thesis using t rw served_not_grantable by auto
    next
      case no: False
      then have "\<not> grantable u D" using t Cons.prems(5) by auto
      moreover have "signalled (ethread u) (D x)" if "x \<in> set A" "signalled (ethread u) (E x)" for x
        using release_waiters_lowers [OF room that(1), of "ethread u" a] that(2) r no Cons.prems(3) ju
        by (auto simp: image_image)
      ultimately have "\<not> grantable u E"
        using grantable_lower [of u E A D] Cons.prems(2) ju by auto
      then show ?thesis using t no rw by auto
    qed
  qed
qed simp

section \<open>The services on views\<close>

text \<open>The threads and objects of a state, as the services need them to find everything in place.\<close>

definition sync_ok :: "(addr \<Rightarrow> dobj) \<Rightarrow> addr list \<Rightarrow> nt_state \<Rightarrow> bool" where
  "sync_ok D A s \<longleftrightarrow>
     views (gm s) D A \<and> separate D A \<and> (\<forall>(i, t) \<in> set (procthreads s). waits_within A t) \<and>
     distinct (map (ethread \<circ> snd) (procthreads s)) \<and> room (int (length (procthreads s))) D A"

definition nobody_left :: "addr \<Rightarrow> (addr \<Rightarrow> dobj) \<Rightarrow> nt_state \<Rightarrow> bool" where
  "nobody_left a D s \<longleftrightarrow> (\<forall>(i, t) \<in> set (procthreads s). waiting_on a t \<longrightarrow> \<not> grantable t D)"

lemma wake_waiters_refines:
  assumes "sync_ok D A s"
  shows "\<exists>g. let (ts, E) = release_waiters a (procthreads s) D;
      s' = s\<lparr>procthreads := ts, gm := g, woken := woken s \<or> ts \<noteq> procthreads s\<rparr>
    in wake_waiters a s = Inr s' \<and> views g E A \<and> frame D A (gm s) g \<and> nobody_left a E s'"
proof -
  obtain ts E where r: "release_waiters a (procthreads s) D = (ts, E)" by force
  have v: "views (gm s) D A" "separate D A" "\<forall>(i, t) \<in> set (procthreads s). waits_within A t"
    using assms by (auto simp: sync_ok_def)
  from wake_loop_refines [OF v, of a] r obtain g where g:
    "wake_loop a (procthreads s) (gm s) = Inr (ts \<noteq> procthreads s, ts, g)"
    "views g E A" "frame D A (gm s) g" by auto
  have "\<not> grantable t E" if "(i, t) \<in> set ts" "waiting_on a t" for i t
    using release_waiters_complete [of "procthreads s" D A i t a] assms that r v
    by (auto simp: sync_ok_def)
  then show ?thesis using r g by (auto simp: wake_waiters_def nobody_left_def)
qed

lemma with_mem_Inr [simp]: "f (gm s) = Inr g \<Longrightarrow> with_mem f s = Inr (s\<lparr>gm := g\<rparr>)"
  by (simp add: with_mem_def)

text \<open>Where an out parameter may be: nowhere, or mapped and away from the objects.\<close>

definition out_ok :: "(addr \<Rightarrow> dobj) \<Rightarrow> addr list \<Rightarrow> gmem \<Rightarrow> addr \<Rightarrow> nat \<Rightarrow> bool" where
  "out_ok D A g p n \<longleftrightarrow> p = 0 \<or> g_mapped g p n \<and> (\<forall>a \<in> set A. span p n \<inter> extent a (D a) = {})"

lemma write_opt_ok:
  assumes "views (gm s) D A" and "out_ok D A (gm s) p n"
  shows "\<exists>g. write_opt n p v s = Inr (s\<lparr>gm := g\<rparr>) \<and> views g D A"
proof (cases "p = 0")
  case True
  then show ?thesis using assms(1) by (intro exI [of _ "gm s"]) (simp add: write_opt_def)
next
  case False
  then obtain g where g: "g_put n p v (gm s) = Inr g"
    using assms(2) g_put_total [of "gm s" p n v] by (auto simp: out_ok_def)
  have "views g D A"
    unfolding views_def
  proof
    fix a assume a: "a \<in> set A"
    then have "span p n \<inter> extent a (D a) = {}" using assms(2) False by (simp add: out_ok_def)
    then have "g x = gm s x" if "x \<in> extent a (D a)" for x using g_put_other [OF g] that by blast
    then show "dview g a (D a)" using assms(1) a dview_cong unfolding views_def by blast
  qed
  then show ?thesis using g False by (intro exI [of _ g]) (simp add: write_opt_def)
qed

lemma set_state_views:
  assumes "views (gm s) D A" and "separate D A" and "a \<in> set A"
  shows "\<exists>g. with_mem (set_state_at a v) s = Inr (s\<lparr>gm := g\<rparr>) \<and> views g (D(a := (D a)\<lparr>d_state := v\<rparr>)) A \<and>
    (\<forall>b n. g_mapped g b n = g_mapped (gm s) b n)"
proof -
  have "dview (gm s) a (D a)" using assms(1,3) by (simp add: views_def)
  then obtain g where g: "set_state_at a v (gm s) = Inr g" "dview g a ((D a)\<lparr>d_state := v\<rparr>)"
    "\<forall>x. x \<notin> extent a (D a) \<longrightarrow> g x = gm s x" by (rule set_state_dview)
  have "views g (D(a := (D a)\<lparr>d_state := v\<rparr>)) A"
    by (rule views_after [OF assms(1,2), of "[a]"]) (use assms(3) g in auto)
  moreover have "g_mapped g b n = g_mapped (gm s) b n" for b n
    using g(1) g_put_mapped unfolding set_state_at_def by blast
  ultimately show ?thesis using with_mem_Inr [of "set_state_at a v" s g] g(1) by blast
qed

lemma extent_upd [simp]: "extent b ((D(a := (D a)\<lparr>d_state := v\<rparr>)) b) = extent b (D b)"
  by simp

lemma separate_upd [simp]: "separate (D(a := (D a)\<lparr>d_state := v\<rparr>)) A = separate D A"
  unfolding separate_def extent_upd ..

lemma out_ok_upd [simp]: "out_ok (D(a := (D a)\<lparr>d_state := v\<rparr>)) A g p n = out_ok D A g p n"
  unfolding out_ok_def extent_upd ..

text \<open>Replacing the state of an object, reporting the old one and waking its waiters.\<close>

lemma signal_refines:
  assumes ok: "sync_ok D A s" and a: "a \<in> set A" and out: "out_ok D A (gm s) p 4"
    and room: "room (int (length (procthreads s))) (D(a := (D a)\<lparr>d_state := v\<rparr>)) A"
  shows "\<exists>g s1. with_mem (set_state_at a v) s = Inr s1 \<and>
    (let (ts, E) = release_waiters a (procthreads s) (D(a := (D a)\<lparr>d_state := v\<rparr>));
         s' = s\<lparr>procthreads := ts, gm := g, woken := woken s \<or> ts \<noteq> procthreads s\<rparr>
     in bind_result (write_opt 4 p (old :: u32) s1) (wake_waiters a) = Inr s' \<and> views g E A \<and> nobody_left a E s')"
proof -
  let ?D = "D(a := (D a)\<lparr>d_state := v\<rparr>)"
  have v: "views (gm s) D A" "separate D A" using ok by (simp_all add: sync_ok_def)
  obtain g1 where g1: "with_mem (set_state_at a v) s = Inr (s\<lparr>gm := g1\<rparr>)" "views g1 ?D A"
    "\<forall>b n. g_mapped g1 b n = g_mapped (gm s) b n" using set_state_views [OF v a] by blast
  have "out_ok ?D A g1 p 4" using out g1(3) unfolding out_ok_upd by (simp add: out_ok_def)
  then obtain g2 where g2: "write_opt 4 p old (s\<lparr>gm := g1\<rparr>) = Inr (s\<lparr>gm := g2\<rparr>)" "views g2 ?D A"
    using write_opt_ok [of "s\<lparr>gm := g1\<rparr>" ?D A p 4 old] g1(2) by auto
  have "sync_ok ?D A (s\<lparr>gm := g2\<rparr>)"
    using ok room g2(2) unfolding sync_ok_def separate_upd by simp
  from wake_waiters_refines [OF this, of a] obtain g3 where
    "let (ts, E) = release_waiters a (procthreads s) ?D;
         s' = s\<lparr>procthreads := ts, gm := g3, woken := woken s \<or> ts \<noteq> procthreads s\<rparr>
     in wake_waiters a (s\<lparr>gm := g2\<rparr>) = Inr s' \<and> views g3 E A \<and> nobody_left a E s'"
    by (auto simp: Let_def split: prod.splits)
  with g1(1) g2(1) show ?thesis by (intro exI [of _ g3] exI [of _ "s\<lparr>gm := g1\<rparr>"]) (simp add: Let_def split: prod.splits)
qed

section \<open>Properties\<close>

text \<open>
  C38: Waking the waiters of an object grants, in the order of the thread ids, every wait that
  can be granted and nothing else: memory and threads come out as \<open>release_waiters\<close> says of the
  abstract objects, only the objects of the waits change, the scheduler is notified exactly when
  a thread was released, and no waiter is left that could have been released.
\<close>

theorem wake_waiters_correct:
  assumes "sync_ok D A s" and "release_waiters a (procthreads s) D = (ts, E)"
  shows "\<exists>g. wake_waiters a s = Inr (s\<lparr>procthreads := ts, gm := g, woken := woken s \<or> ts \<noteq> procthreads s\<rparr>) \<and>
    views g E A \<and> frame D A (gm s) g \<and>
    (\<forall>(i, t) \<in> set ts. waiting_on a t \<longrightarrow> \<not> grantable t E)"
  using wake_waiters_refines [OF assms(1), of a] assms(2) by (auto simp: nobody_left_def)

text \<open>Two threads wait for either of two semaphores; the second semaphore has a count of one.\<close>

definition demo_other :: win_thread where
  "demo_other = demo_waiter\<lparr>tid := 2, ethread := 0xA000\<rparr>"

definition demo_mem :: gmem where
  "demo_mem x = (if x = 0x1018 then Some 9 else demo_sems x)"

definition demo_state :: nt_state where
  "demo_state =
     \<lparr>objs = new_obj_manager\<lparr>objects := [(0x1000, \<lparr>header = 0xFC8, host = Some (Dispatcher_host 5 ''s'')\<rparr>)]\<rparr>,
      table = new_handle_table\<lparr>handles := [(4, \<lparr>body_addr = 0x1000, access = 0\<rparr>)]\<rparr>,
      gm = demo_mem, procthreads = [(1, demo_waiter), (2, demo_other)], current = None,
      yielded = False, woken = False\<rparr>"

lemma demo_wait [simp]: "ws_objects (the (wait demo_waiter)) = [0x1000, 0x2000]"
  by (simp add: demo_waiter_def)

lemma demo_sync_ok: "sync_ok demo_sem [0x1000, 0x2000] demo_state"
proof -
  have "type_at 0x1000 demo_mem = Inr 5" "state_at 0x1000 demo_mem = Inr 0"
    "type_at 0x2000 demo_mem = Inr 5" "state_at 0x2000 demo_mem = Inr 1" by code_simp+
  then have "views demo_mem demo_sem [0x1000, 0x2000]"
    by (simp add: views_def dview_def demo_sem_def mutant_object_def)
  then show ?thesis
    using demo_sems_separate
    by (simp add: sync_ok_def demo_state_def waits_within_def demo_waiter_def demo_other_def room_def demo_sem_def)
qed

lemma demo_release:
  "release_waiters 0x2000 (procthreads demo_state) demo_sem =
     ([(1, served demo_waiter demo_sem), (2, demo_other)], grant demo_waiter demo_sem)"
  by (simp add: demo_state_def demo_waiter_def demo_other_def demo_sem_def waiting_on_def grantable_def
      signalled_def grant_def granted_def first_ready_def taken_def dispatcher_types)

theorem wake_waiters_correct_witness:
  "\<exists>s'. wake_waiters 0x2000 demo_state = Inr s' \<and> woken s' \<and>
     procthreads s' = [(1, served demo_waiter demo_sem), (2, demo_other)]"
proof -
  have "served demo_waiter demo_sem \<noteq> demo_waiter"
    by (simp add: served_def demo_waiter_def)
  then have "[(1, served demo_waiter demo_sem), (2, demo_other)] \<noteq> procthreads demo_state"
    by (simp add: demo_state_def)
  with wake_waiters_correct [OF demo_sync_ok demo_release] show ?thesis by auto
qed



text \<open>
  Releasing a mutant once clears its owner even when it is held twice, so the thread that still
  holds it can no longer acquire it again: the mutant at 0x1000 is held twice by the thread
  whose object is at 0x9000 and is released once.
\<close>

definition mutant_mem :: gmem where
  "mutant_mem x =
     (if x = 0x1000 then Some 2 else if 0x1004 \<le> x \<and> x < 0x1008 then Some 0xFF
      else if x = 0x1029 then Some 0x90
      else if 0x1000 \<le> x \<and> x < 0x2000 then Some 0 else None)"

definition mutant_state :: nt_state where
  "mutant_state = demo_state\<lparr>gm := mutant_mem, procthreads := [],
     objs := (objs demo_state)\<lparr>objects := [(0x1000, \<lparr>header = 0xFC8, host = Some (Dispatcher_host 2 ''m'')\<rparr>)]\<rparr>\<rparr>"

lemma recursive_release_loses_owner:
  "is_signalled 0x1000 0x9000 mutant_mem = Inr True \<and>
   (case release_mutant 4 0 mutant_state of
      Inl e \<Rightarrow> False
    | Inr (st, s) \<Rightarrow> st = STATUS_SUCCESS \<and> state_at 0x1000 (gm s) = Inr 0 \<and>
        is_signalled 0x1000 0x9000 (gm s) = Inr False)"
  by code_simp

text \<open>The check of a release against the limit wraps: the sum turns negative and passes.\<close>

definition full_mem :: gmem where
  "full_mem x =
     (if x = 0x1000 then Some 5 else if 0x1004 \<le> x \<and> x < 0x1007 \<or> 0x1018 \<le> x \<and> x < 0x101B then Some 0xFF
      else if x = 0x1007 \<or> x = 0x101B then Some 0x7F
      else if 0x1000 \<le> x \<and> x < 0x2000 then Some 0 else None)"

lemma release_past_limit_wraps:
  "case release_semaphore 4 1 0 (demo_state\<lparr>gm := full_mem, procthreads := []\<rparr>) of
      Inl e \<Rightarrow> False
    | Inr (st, s) \<Rightarrow> st = STATUS_SUCCESS \<and> state_at 0x1000 (gm s) = Inr 0x80000000"
  by code_simp

end
