(* ===== verification/Unwind.thy ===== *)
theory Unwind
  imports Guest_Mem
begin

text \<open>
  What the two unwinders of \<open>kernel/win/unwind\<close> share: the context that is unwound, the tables of
  an image as the vendored PE library shows them, the binary searches of
  \<open>lookup_function_entry\<close>, the scope table search and the stack walk of \<open>unwind.cpp\<close>. An image
  is a function from relative addresses to bytes; the exception directory is the list of its
  entries. The code a filter runs is an argument that may change memory.
\<close>

section \<open>Contexts\<close>

definition max_gp :: nat where "max_gp = 31"
definition max_fp :: nat where "max_fp = 8"

record unwind_context =
  uc_pc :: addr
  uc_sp :: addr
  gp :: "addr list"
  fp_regs :: "addr list"

record unwind_result =
  ur_handler :: addr
  ur_handler_data :: addr
  establisher_frame :: addr
  function_entry :: addr

definition no_result :: unwind_result where
  "no_result = \<lparr>ur_handler = 0, ur_handler_data = 0, establisher_frame = 0, function_entry = 0\<rparr>"

record 'f proc_module =
  mod_addr :: addr
  mod_size :: u64
  has_pe :: bool
  exc_used :: bool
  exc_va :: u32
  funcs :: "'f list"
  img :: "u32 \<Rightarrow> u8"

text \<open>A 32-bit word of the image, through a pointer into it.\<close>

definition img_u32 :: "(u32 \<Rightarrow> u8) \<Rightarrow> u32 \<Rightarrow> u32" where
  "img_u32 im rva = le_dec [im rva, im (rva + 1), im (rva + 2), im (rva + 3)]"

section \<open>Searching the function table\<close>

text \<open>The search for an entry that contains the address, and the one for the last that starts before it.\<close>

function find_entry :: "('f \<Rightarrow> u32) \<Rightarrow> ('f \<Rightarrow> u32) \<Rightarrow> u32 \<Rightarrow> 'f list \<Rightarrow> nat \<Rightarrow> nat \<Rightarrow> 'f option" where
  "find_entry begin_of end_of rva fs lo hi =
     (if lo < hi then
        let mid = lo + (hi - lo) div 2; entry = fs ! mid in
        if rva < begin_of entry then find_entry begin_of end_of rva fs lo mid
        else if end_of entry \<le> rva then find_entry begin_of end_of rva fs (mid + 1) hi
        else Some entry
      else None)"
  by auto
termination
  by (relation "measure (\<lambda>(_, _, _, _, lo, hi). hi - lo)") auto

function upper_index :: "('f \<Rightarrow> u32) \<Rightarrow> u32 \<Rightarrow> 'f list \<Rightarrow> nat \<Rightarrow> nat \<Rightarrow> nat" where
  "upper_index begin_of rva fs lo hi =
     (if lo < hi then
        let mid = lo + (hi - lo) div 2 in
        if begin_of (fs ! mid) \<le> rva then upper_index begin_of rva fs (mid + 1) hi
        else upper_index begin_of rva fs lo mid
      else lo)"
  by auto
termination
  by (relation "measure (\<lambda>(_, _, _, lo, hi). hi - lo)") auto

declare find_entry.simps [simp del] upper_index.simps [simp del]

text \<open>A table of functions that do not overlap, in the order of their addresses.\<close>

definition table_ok :: "('f \<Rightarrow> u32) \<Rightarrow> ('f \<Rightarrow> u32) \<Rightarrow> 'f list \<Rightarrow> bool" where
  "table_ok begin_of end_of fs \<longleftrightarrow>
     (\<forall>i < length fs. begin_of (fs ! i) \<le> end_of (fs ! i)) \<and>
     (\<forall>i j. i < j \<longrightarrow> j < length fs \<longrightarrow> end_of (fs ! i) \<le> begin_of (fs ! j))"

lemma find_entry_Some:
  "find_entry b e rva fs lo hi = Some f \<Longrightarrow> hi \<le> length fs \<Longrightarrow>
     f \<in> set fs \<and> b f \<le> rva \<and> rva < e f"
proof (induction b e rva fs lo hi rule: find_entry.induct)
  case (1 b e rva fs lo hi)
  let ?mid = "lo + (hi - lo) div 2"
  have lt: "lo < hi" using "1.prems"(1) by (subst (asm) find_entry.simps) (auto split: if_splits)
  then have mid: "?mid < length fs" "?mid \<le> length fs" using "1.prems"(2) by auto
  consider "rva < b (fs ! ?mid)" | "\<not> rva < b (fs ! ?mid)" "e (fs ! ?mid) \<le> rva"
    | "\<not> rva < b (fs ! ?mid)" "\<not> e (fs ! ?mid) \<le> rva" by blast
  then show ?case
  proof cases
    case 1
    then show ?thesis using "1.IH"(1) [OF lt refl refl] "1.prems" lt mid
      by (subst (asm) find_entry.simps) (simp add: Let_def)
  next
    case 2
    then show ?thesis using "1.IH"(2) [OF lt refl refl] "1.prems" lt
      by (subst (asm) find_entry.simps) (simp add: Let_def)
  next
    case 3
    then show ?thesis using "1.prems" lt mid by (subst (asm) find_entry.simps) (auto simp: Let_def)
  qed
qed

lemma find_entry_None:
  "find_entry b e rva fs lo hi = None \<Longrightarrow> hi \<le> length fs \<Longrightarrow> table_ok b e fs \<Longrightarrow> lo \<le> i \<Longrightarrow> i < hi \<Longrightarrow>
     \<not> (b (fs ! i) \<le> rva \<and> rva < e (fs ! i))"
proof (induction b e rva fs lo hi rule: find_entry.induct)
  case (1 b e rva fs lo hi)
  let ?mid = "lo + (hi - lo) div 2"
  have lt: "lo < hi" using "1.prems" by simp
  then have mid: "lo \<le> ?mid" "?mid < hi" by auto
  consider "rva < b (fs ! ?mid)" | "\<not> rva < b (fs ! ?mid)" "e (fs ! ?mid) \<le> rva"
    | "\<not> rva < b (fs ! ?mid)" "\<not> e (fs ! ?mid) \<le> rva" by blast
  then show ?case
  proof cases
    case 1
    have "rva < b (fs ! i)" if "?mid \<le> i"
    proof (cases "i = ?mid")
      case False
      then have "e (fs ! ?mid) \<le> b (fs ! i)" "b (fs ! ?mid) \<le> e (fs ! ?mid)"
        using "1.prems" mid that by (auto simp: table_ok_def)
      with 1 show ?thesis by simp
    qed (use 1 in simp)
    moreover have "find_entry b e rva fs lo ?mid = None"
      using "1.prems"(1) lt 1 by (subst (asm) find_entry.simps) (simp add: Let_def)
    ultimately show ?thesis using "1.IH"(1) [OF lt refl refl 1] "1.prems" mid
      by (cases "i < ?mid") auto
  next
    case 2
    have "e (fs ! i) \<le> rva" if "i \<le> ?mid"
    proof (cases "i = ?mid")
      case False
      then have "e (fs ! i) \<le> b (fs ! ?mid)" "b (fs ! ?mid) \<le> e (fs ! ?mid)"
        using "1.prems" mid that by (auto simp: table_ok_def)
      with 2 show ?thesis by simp
    qed (use 2 in simp)
    moreover have "find_entry b e rva fs (?mid + 1) hi = None"
      using "1.prems"(1) lt 2 by (subst (asm) find_entry.simps) (simp add: Let_def)
    ultimately show ?thesis using "1.IH"(2) [OF lt refl refl 2] "1.prems" mid
      by (cases "?mid < i") auto
  next
    case 3
    then show ?thesis using "1.prems"(1) lt by (subst (asm) find_entry.simps) (simp add: Let_def)
  qed
qed

text \<open>The binary search is the linear one.\<close>

lemma find_entry_linear:
  assumes "table_ok b e fs"
  shows "find_entry b e rva fs 0 (length fs) = find (\<lambda>f. b f \<le> rva \<and> rva < e f) fs"
proof (cases "find_entry b e rva fs 0 (length fs)")
  case None
  then have "\<not> (b f \<le> rva \<and> rva < e f)" if "f \<in> set fs" for f
    using find_entry_None [OF None _ assms] that by (auto simp: in_set_conv_nth)
  then show ?thesis using None by (metis (mono_tags, lifting) find_None_iff)
next
  case (Some f)
  then have f: "f \<in> set fs" "b f \<le> rva" "rva < e f" using find_entry_Some [OF Some] by auto
  then obtain g where g: "find (\<lambda>f. b f \<le> rva \<and> rva < e f) fs = Some g"
    by (metis (mono_tags, lifting) find_None_iff not_Some_eq)
  obtain i j where "i < length fs" "f = fs ! i" "j < length fs" "g = fs ! j" "b g \<le> rva" "rva < e g"
    using f g by (fastforce simp: in_set_conv_nth find_Some_iff)
  moreover from this f have "\<not> i < j" "\<not> j < i"
    using assms unfolding table_ok_def by (meson leD order_trans)+
  ultimately show ?thesis using Some g by auto
qed

lemma upper_index_split:
  assumes "sorted (map b fs)" and "hi \<le> length fs" and "lo \<le> hi"
    and "\<forall>i < lo. b (fs ! i) \<le> rva" and "\<forall>i < length fs. hi \<le> i \<longrightarrow> rva < b (fs ! i)"
  shows "upper_index b rva fs lo hi = length (takeWhile (\<lambda>f. b f \<le> rva) fs)"
  using assms
proof (induction b rva fs lo hi rule: upper_index.induct)
  case (1 b rva fs lo hi)
  let ?mid = "lo + (hi - lo) div 2"
  have mono: "b (fs ! i) \<le> b (fs ! j)" if "i \<le> j" "j < length fs" for i j
    using "1.prems"(1) that by (auto simp: sorted_iff_nth_mono)
  show ?case
  proof (cases "lo < hi")
    case False
    then have "lo = hi" using "1.prems"(3) by simp
    then have "takeWhile (\<lambda>f. b f \<le> rva) fs = take lo fs"
      using "1.prems"(4,5) by (intro takeWhile_eq_take_P_nth) force+
    then have "length (takeWhile (\<lambda>f. b f \<le> rva) fs) = lo" using "1.prems"(2) \<open>lo = hi\<close> by simp
    then show ?thesis using False by (subst upper_index.simps) simp
  next
    case lt: True
    show ?thesis
    proof (cases "b (fs ! ?mid) \<le> rva")
      case True
      have "\<forall>i < ?mid + 1. b (fs ! i) \<le> rva"
      proof (intro allI impI)
        fix i assume "i < ?mid + 1"
        then have "b (fs ! i) \<le> b (fs ! ?mid)" using lt "1.prems"(2) by (intro mono) auto
        with True show "b (fs ! i) \<le> rva" by simp
      qed
      then have "upper_index b rva fs (?mid + 1) hi = length (takeWhile (\<lambda>f. b f \<le> rva) fs)"
        using "1.IH"(1) [OF lt refl True] "1.prems" lt by auto
      then show ?thesis using lt True by (subst upper_index.simps) (simp add: Let_def)
    next
      case False
      have "\<forall>i < length fs. ?mid \<le> i \<longrightarrow> rva < b (fs ! i)"
      proof (intro allI impI)
        fix i assume "i < length fs" "?mid \<le> i"
        then have "b (fs ! ?mid) \<le> b (fs ! i)" by (intro mono)
        with False show "rva < b (fs ! i)" by simp
      qed
      then have "upper_index b rva fs lo ?mid = length (takeWhile (\<lambda>f. b f \<le> rva) fs)"
        using "1.IH"(2) [OF lt refl False] "1.prems" lt by auto
      then show ?thesis using lt False by (subst upper_index.simps) (simp add: Let_def)
    qed
  qed
qed

section \<open>Scope tables\<close>

definition exception_continue_execution :: int where "exception_continue_execution = 0"
definition exception_continue_search :: int where "exception_continue_search = 1"
definition exception_execute_handler :: int where "exception_execute_handler = 2"

record scope_entry =
  begin_address :: u32
  end_address :: u32
  handler_address :: u32
  jump_target :: u32

record handler_result =
  disposition :: int
  target_ip :: addr
  hr_frame :: addr

record scope_search =
  image_base :: addr
  handler_data :: addr
  control_pc :: addr
  search_frame :: addr
  exception_pointers :: addr
  first_scope :: u32

definition read_scope :: "addr \<Rightarrow> gmem \<Rightarrow> emu_error + scope_entry" where
  "read_scope a g =
     bind_result (g_get 4 a g) (\<lambda>b. bind_result (g_get 4 (a + 4) g) (\<lambda>e.
     bind_result (g_get 4 (a + 8) g) (\<lambda>h. bind_result (g_get 4 (a + 12) g) (\<lambda>j.
       Inr \<lparr>begin_address = b, end_address = e, handler_address = h, jump_target = j\<rparr>))))"

text \<open>
  The loop over the \<open>left\<close> scopes from \<open>i\<close> on. \<open>call\<close> runs a filter of the guest: its verdict and
  the memory it leaves.
\<close>

fun scope_loop :: "(addr \<Rightarrow> u64 list \<Rightarrow> gmem \<Rightarrow> u64 \<times> gmem) \<Rightarrow> scope_search \<Rightarrow> nat \<Rightarrow> u32 \<Rightarrow> gmem \<Rightarrow>
  emu_error + handler_result \<times> gmem" where
  "scope_loop call s 0 i g =
     Inr (\<lparr>disposition = exception_continue_search, target_ip = 0, hr_frame = 0\<rparr>, g)"
| "scope_loop call s (Suc left) i g =
     bind_result (read_scope (handler_data s + 4 + ucast i * 16) g) (\<lambda>scope.
       let pc_rva = ucast (control_pc s - image_base s) :: u32 in
       if pc_rva < begin_address scope \<or> end_address scope \<le> pc_rva then scope_loop call s left (i + 1) g
       else if jump_target scope = 0 then scope_loop call s left (i + 1) g
       else
         let found = \<lparr>disposition = exception_execute_handler,
               target_ip = image_base s + ucast (jump_target scope), hr_frame = search_frame s\<rparr> in
         if handler_address scope \<noteq> 1 then
           let (verdict, g) = call (image_base s + ucast (handler_address scope))
                 [exception_pointers s, search_frame s] g;
               v = sint (ucast verdict :: u32) in
           if v < 0 then
             Inr (\<lparr>disposition = exception_continue_execution, target_ip = 0, hr_frame = 0\<rparr>, g)
           else if v = 0 then scope_loop call s left (i + 1) g
           else Inr (found, g)
         else Inr (found, g))"

definition search_scope_table ::
  "(addr \<Rightarrow> u64 list \<Rightarrow> gmem \<Rightarrow> u64 \<times> gmem) \<Rightarrow> scope_search \<Rightarrow> gmem \<Rightarrow> emu_error + handler_result \<times> gmem" where
  "search_scope_table call s g =
     bind_result (g_get 4 (handler_data s) g) (\<lambda>count :: u32.
       scope_loop call s (unat count - unat (first_scope s)) (first_scope s) g)"

section \<open>Walking the stack\<close>

definition contains_addr :: "'f proc_module \<Rightarrow> addr \<Rightarrow> bool" where
  "contains_addr m a \<longleftrightarrow> mod_addr m \<le> a \<and> a < mod_addr m + mod_size m"

definition find_module_by_addr :: "'f proc_module list \<Rightarrow> addr \<Rightarrow> 'f proc_module option" where
  "find_module_by_addr ms a = find (\<lambda>m. contains_addr m a) ms"

text \<open>The unwinder of the architecture is the first argument: whether it went on, and the context.\<close>

fun walk_frames ::
  "('f proc_module \<Rightarrow> unwind_context \<Rightarrow> emu_error + bool \<times> unwind_context) \<Rightarrow> 'f proc_module list \<Rightarrow> nat \<Rightarrow>
   unwind_context \<Rightarrow> emu_error + (addr \<times> addr) list" where
  "walk_frames unwind ms 0 ctx = Inr []"
| "walk_frames unwind ms (Suc n) ctx =
     (case find_module_by_addr ms (uc_pc ctx) of
        None \<Rightarrow> Inr []
      | Some m \<Rightarrow>
          bind_result (unwind m ctx) (\<lambda>(more, ctx).
            if \<not> more then Inr []
            else bind_result (walk_frames unwind ms n ctx) (\<lambda>fs. Inr ((uc_pc ctx, uc_sp ctx) # fs))))"

definition walk_stack ::
  "('f proc_module \<Rightarrow> unwind_context \<Rightarrow> emu_error + bool \<times> unwind_context) \<Rightarrow> 'f proc_module list \<Rightarrow> nat \<Rightarrow>
   unwind_context \<Rightarrow> emu_error + (addr \<times> addr) list" where
  "walk_stack unwind ms max_frames ctx =
     bind_result (walk_frames unwind ms max_frames ctx) (\<lambda>fs. Inr ((uc_pc ctx, uc_sp ctx) # fs))"

lemma walk_stack_bounded: "walk_stack unwind ms n ctx = Inr fs \<Longrightarrow> length fs \<le> Suc n"
proof -
  have "walk_frames unwind ms n ctx = Inr fs \<Longrightarrow> length fs \<le> n" for fs
    by (induction n arbitrary: ctx fs) (fastforce split: option.splits sum.splits if_splits)+
  then show "walk_stack unwind ms n ctx = Inr fs \<Longrightarrow> length fs \<le> Suc n"
    by (fastforce simp: walk_stack_def split: sum.splits)
qed

end
