(* ===== verification/Unwind_Arm64.thy ===== *)
theory Unwind_Arm64
  imports Unwind
begin

text \<open>
  \<open>kernel/win/unwind/arm64_unwind.cpp\<close>: decoding the unwind data of a function, replaying its
  unwind codes against the stack, and unwinding a frame. The codes of a prologue are read from
  the image byte by byte; the registers d8 to d15 are the entries of \<open>fp_regs\<close>.
\<close>

section \<open>Unwind data\<close>

definition reg_fp :: nat where "reg_fp = 29"
definition reg_lr :: nat where "reg_lr = 30"

record runtime_function_arm64 =
  rf_begin :: u32
  rf_unwind_data :: u32

record arm64_function_entry =
  fe_begin_rva :: u32
  fe_length :: u32
  fe_unwind_data :: u32
  fe_packed :: bool

text \<open>The pointers of a header are relative addresses in the image.\<close>

record xdata_header =
  function_length :: u32
  epilog_count :: u32
  code_words :: u32
  exception_data :: bool
  epilog_in_header :: bool
  epilog_scopes :: u32
  codes_at :: u32
  after_codes :: u32

definition code_len :: "u8 \<Rightarrow> nat" where
  "code_len b0 =
     (if b0 AND 0x80 = 0x00 then 1
      else if b0 AND 0xC0 = 0x80 then 1
      else if b0 = 0xE0 then 4
      else if b0 = 0xE2 then 2
      else if 0xE1 \<le> b0 then 1
      else 2)"

definition parse_xdata :: "(u32 \<Rightarrow> u8) \<Rightarrow> u32 \<Rightarrow> xdata_header option" where
  "parse_xdata im rva =
     (let w0 = img_u32 im rva;
          version = drop_bit 18 w0 AND 3;
          epilogs = drop_bit 22 w0 AND 0x1F;
          cwords = drop_bit 27 w0 AND 0x1F;
          in_header = bit w0 21
      in if version \<noteq> 0 then None
         else
           let (epilogs, cwords, next) =
                 (if epilogs = 0 \<and> cwords = 0
                  then let w1 = img_u32 im (rva + 4) in (w1 AND 0xFFFF, drop_bit 16 w1 AND 0xFF, 2)
                  else (epilogs, cwords, 1));
               scopes = (if in_header then 0 else rva + 4 * next);
               next = (if in_header then next else next + epilogs)
           in Some \<lparr>function_length = (w0 AND 0x3FFFF) * 4, epilog_count = epilogs, code_words = cwords,
                exception_data = bit w0 20, epilog_in_header = in_header, epilog_scopes = scopes,
                codes_at = rva + 4 * next, after_codes = rva + 4 * (next + cwords)\<rparr>)"

section \<open>Replaying codes\<close>

record replayer =
  ctx :: unwind_context
  last_pair_reg :: nat
  last_pair_off :: u64
  last_pair_fp :: bool

definition new_replayer :: "unwind_context \<Rightarrow> replayer" where
  "new_replayer c = \<lparr>ctx = c, last_pair_reg = 19, last_pair_off = 0, last_pair_fp = False\<rparr>"

definition load_reg :: "gmem \<Rightarrow> nat \<Rightarrow> u64 \<Rightarrow> unwind_context \<Rightarrow> emu_error + unwind_context" where
  "load_reg g reg off c =
     (if reg < max_gp
      then bind_result (g_get 8 (uc_sp c + off) g) (\<lambda>v. Inr (c\<lparr>gp := (gp c)[reg := v]\<rparr>))
      else Inr c)"

definition load_pair :: "gmem \<Rightarrow> nat \<Rightarrow> u64 \<Rightarrow> unwind_context \<Rightarrow> emu_error + unwind_context" where
  "load_pair g reg off c =
     bind_result (load_reg g reg off c) (load_reg g (if reg = reg_fp then reg_lr else reg + 1) (off + 8))"

definition load_fp :: "gmem \<Rightarrow> nat \<Rightarrow> u64 \<Rightarrow> unwind_context \<Rightarrow> emu_error + unwind_context" where
  "load_fp g n off c =
     (if n < max_fp
      then bind_result (g_get 8 (uc_sp c + off) g) (\<lambda>v. Inr (c\<lparr>fp_regs := (fp_regs c)[n := v]\<rparr>))
      else Inr c)"

definition load_fp_pair :: "gmem \<Rightarrow> nat \<Rightarrow> u64 \<Rightarrow> unwind_context \<Rightarrow> emu_error + unwind_context" where
  "load_fp_pair g n off c = bind_result (load_fp g n off c) (load_fp g (n + 1) (off + 8))"

definition mark_pair :: "nat \<Rightarrow> u64 \<Rightarrow> bool \<Rightarrow> replayer \<Rightarrow> replayer" where
  "mark_pair reg off is_fp r = r\<lparr>last_pair_reg := reg, last_pair_off := off, last_pair_fp := is_fp\<rparr>"

definition add_sp :: "u64 \<Rightarrow> unwind_context \<Rightarrow> unwind_context" where
  "add_sp n c = c\<lparr>uc_sp := uc_sp c + n\<rparr>"

text \<open>One turn of the loop of \<open>run\<close>: go on after so many bytes, stop at an end code, or give up.\<close>

datatype turn = Next nat replayer | Ended | Unhandled

definition go :: "nat \<Rightarrow> replayer \<Rightarrow> emu_error + unwind_context \<Rightarrow> emu_error + turn" where
  "go n r c = bind_result c (\<lambda>c. Inr (Next n (r\<lparr>ctx := c\<rparr>)))"

abbreviation (input) w8 :: "u8 \<Rightarrow> u64" where "w8 b \<equiv> ucast b"

definition replay_step :: "gmem \<Rightarrow> u8 \<Rightarrow> u8 \<Rightarrow> u8 \<Rightarrow> u8 \<Rightarrow> u8 \<Rightarrow> replayer \<Rightarrow> emu_error + turn" where
  "replay_step g b0 b1 r1 r2 r3 r =
     (let c = ctx r;
          x2 = unat (push_bit 2 (b0 AND 0x03) OR drop_bit 6 b1);
          x1 = unat (push_bit 2 (b0 AND 0x01) OR drop_bit 6 b1);
          z6 = w8 (b1 AND 0x3F); z5 = w8 (b1 AND 0x1F)
      in if b0 AND 0xE0 = 0x00 then go 1 r (Inr (add_sp (w8 (b0 AND 0x1F) * 16) c))
         else if b0 AND 0xE0 = 0x20 then
           go 1 r (bind_result (load_pair g 19 0 c) (\<lambda>c. Inr (add_sp (w8 (b0 AND 0x1F) * 8) c)))
         else if b0 AND 0xC0 = 0x40 then go 1 r (load_pair g reg_fp (w8 (b0 AND 0x3F) * 8) c)
         else if b0 AND 0xC0 = 0x80 then
           go 1 r (bind_result (load_pair g reg_fp 0 c) (\<lambda>c. Inr (add_sp ((w8 (b0 AND 0x3F) + 1) * 8) c)))
         else if b0 AND 0xF8 = 0xC0 then
           go 2 r (Inr (add_sp ((push_bit 8 (w8 (b0 AND 0x07)) OR w8 b1) * 16) c))
         else if b0 AND 0xFC = 0xC8 then
           go 2 (mark_pair (19 + x2) (z6 * 8) False r) (load_pair g (19 + x2) (z6 * 8) c)
         else if b0 AND 0xFC = 0xCC then
           go 2 (mark_pair (19 + x2) 0 False r)
             (bind_result (load_pair g (19 + x2) 0 c) (\<lambda>c. Inr (add_sp ((z6 + 1) * 8) c)))
         else if b0 AND 0xFC = 0xD0 then go 2 r (load_reg g (19 + x2) (z6 * 8) c)
         else if b0 AND 0xFE = 0xD4 then
           go 2 r (bind_result (load_reg g (19 + unat (push_bit 3 (b0 AND 0x01) OR drop_bit 5 b1)) 0 c)
             (\<lambda>c. Inr (add_sp ((z5 + 1) * 8) c)))
         else if b0 AND 0xFE = 0xD6 then
           go 2 r (bind_result (load_reg g (19 + 2 * x1) (z6 * 8) c) (load_reg g reg_lr (z6 * 8 + 8)))
         else if b0 AND 0xFE = 0xD8 then
           go 2 (mark_pair x1 (z6 * 8) True r) (load_fp_pair g x1 (z6 * 8) c)
         else if b0 AND 0xFE = 0xDA then
           go 2 (mark_pair x1 0 True r)
             (bind_result (load_fp_pair g x1 0 c) (\<lambda>c. Inr (add_sp ((z6 + 1) * 8) c)))
         else if b0 AND 0xFE = 0xDC then go 2 r (load_fp g x1 (z6 * 8) c)
         else if b0 = 0xDE then
           go 2 r (bind_result (load_fp g (unat (drop_bit 5 b1)) 0 c) (\<lambda>c. Inr (add_sp ((z5 + 1) * 8) c)))
         else if b0 = 0xE0 then
           go 4 r (Inr (add_sp ((push_bit 16 (w8 r1) OR push_bit 8 (w8 r2) OR w8 r3) * 16) c))
         else if b0 = 0xE1 then go 1 r (Inr (c\<lparr>uc_sp := gp c ! reg_fp\<rparr>))
         else if b0 = 0xE2 then go 2 r (Inr (c\<lparr>uc_sp := gp c ! reg_fp - w8 b1 * 8\<rparr>))
         else if b0 = 0xE3 then go 1 r (Inr c)
         else if b0 = 0xE4 \<or> b0 = 0xE5 then Inr Ended
         else if b0 = 0xE6 then
           let r = mark_pair (last_pair_reg r + 2) (last_pair_off r + 16) (last_pair_fp r) r in
           go 1 r (if last_pair_fp r then load_fp_pair g (last_pair_reg r) (last_pair_off r) c
                   else load_pair g (last_pair_reg r) (last_pair_off r) c)
         else if b0 = 0xFC then go 1 r (Inr c)
         else Inr Unhandled)"

text \<open>
  The loop, over the bytes from \<open>codes\<close> on. The second byte of a code counts as zero past the
  end; the bytes of \<open>alloc_l\<close> are read whether they are inside or not. The result is false when a
  code turned up that is not known.
\<close>

fun replay :: "nat \<Rightarrow> gmem \<Rightarrow> (nat \<Rightarrow> u8) \<Rightarrow> nat \<Rightarrow> nat \<Rightarrow> replayer \<Rightarrow> emu_error + bool \<times> replayer" where
  "replay 0 g codes sz i r = (if i < sz then throw Does_not_return else Inr (True, r))"
| "replay (Suc fuel) g codes sz i r =
     (if i < sz then
        bind_result (replay_step g (codes i) (if i + 1 < sz then codes (i + 1) else 0)
            (codes (i + 1)) (codes (i + 2)) (codes (i + 3)) r) (\<lambda>t.
          case t of
            Next n r \<Rightarrow> replay fuel g codes sz (i + n) r
          | Ended \<Rightarrow> Inr (True, r)
          | Unhandled \<Rightarrow> Inr (False, r))
      else Inr (True, r))"

text \<open>Every code is at least one byte long, so as many turns as bytes are enough.\<close>

definition run_codes :: "gmem \<Rightarrow> (nat \<Rightarrow> u8) \<Rightarrow> nat \<Rightarrow> unwind_context \<Rightarrow> emu_error + bool \<times> unwind_context" where
  "run_codes g codes sz c =
     bind_result (replay sz g codes sz 0 (new_replayer c)) (\<lambda>(fine, r). Inr (fine, ctx r))"

section \<open>Epilogues\<close>

text \<open>The number of codes from \<open>at\<close> up to and with the end code.\<close>

fun extent_of :: "nat \<Rightarrow> (nat \<Rightarrow> u8) \<Rightarrow> nat \<Rightarrow> nat \<Rightarrow> u32" where
  "extent_of 0 codes ncodes start = 0"
| "extent_of (Suc fuel) codes ncodes start =
     (if start < ncodes then
        if codes start = 0xE4 \<or> codes start = 0xE5 then 1
        else 1 + extent_of fuel codes ncodes (start + code_len (codes start))
      else 0)"

fun find_scope :: "(nat \<Rightarrow> u8) \<Rightarrow> (nat \<Rightarrow> u32) \<Rightarrow> u32 \<Rightarrow> nat \<Rightarrow> nat \<Rightarrow> nat \<Rightarrow> (nat \<times> u32) option" where
  "find_scope codes scopes rva ncodes i 0 = None"
| "find_scope codes scopes rva ncodes i (Suc left) =
     (let word = scopes i; begin = (word AND 0x3FFFF) * 4; start = unat (drop_bit 22 word AND 0x3FF) in
      if ncodes \<le> start then find_scope codes scopes rva ncodes (i + 1) left
      else
        let insns = extent_of ncodes codes ncodes start in
        if begin \<le> rva \<and> rva < begin + insns * 4 then Some (start, (rva - begin) div 4)
        else find_scope codes scopes rva ncodes (i + 1) left)"

definition find_epilog :: "(u32 \<Rightarrow> u8) \<Rightarrow> xdata_header \<Rightarrow> u32 \<Rightarrow> nat \<Rightarrow> (nat \<times> u32) option" where
  "find_epilog im h rva ncodes =
     (let codes = (\<lambda>i. im (codes_at h + of_nat i)) in
      if epilog_in_header h then
        let start = unat (epilog_count h) in
        if ncodes \<le> start then None
        else
          let insns = extent_of ncodes codes ncodes start; begin = function_length h - insns * 4 in
          if begin \<le> rva \<and> rva < function_length h then Some (start, (rva - begin) div 4) else None
      else find_scope codes (\<lambda>i. img_u32 im (epilog_scopes h + 4 * of_nat i)) rva ncodes 0 (unat (epilog_count h)))"

fun skip_codes :: "nat \<Rightarrow> (nat \<Rightarrow> u8) \<Rightarrow> nat \<Rightarrow> nat \<Rightarrow> nat" where
  "skip_codes 0 codes ncodes start = start"
| "skip_codes (Suc k) codes ncodes start =
     (if start < ncodes then skip_codes k codes ncodes (start + code_len (codes start)) else start)"

section \<open>Packed unwind data\<close>

text \<open>
  \<open>gp[i] = v\<close> and \<open>fp_regs[i] = v\<close> as the arrays are laid out: an index past the end is an access
  outside the array.
\<close>

fun load_run :: "gmem \<Rightarrow> nat \<Rightarrow> nat \<Rightarrow> addr \<Rightarrow> unwind_context \<Rightarrow> emu_error + unwind_context" where
  "load_run g reg 0 off c = Inr c"
| "load_run g reg (Suc n) off c =
     bind_result (g_get 8 (uc_sp c + off) g) (\<lambda>v.
       if reg < max_gp then load_run g (reg + 1) n (off + 8) (c\<lparr>gp := (gp c)[reg := v]\<rparr>)
       else throw Out_of_bounds)"

fun load_fp_run :: "gmem \<Rightarrow> nat \<Rightarrow> nat \<Rightarrow> addr \<Rightarrow> unwind_context \<Rightarrow> emu_error + unwind_context" where
  "load_fp_run g k 0 off c = Inr c"
| "load_fp_run g k (Suc n) off c =
     (if k < max_fp
      then bind_result (g_get 8 (uc_sp c + off) g) (\<lambda>v.
             load_fp_run g (k + 1) n (off + 8) (c\<lparr>fp_regs := (fp_regs c)[k := v]\<rparr>))
      else Inr c)"

definition apply_packed :: "gmem \<Rightarrow> u32 \<Rightarrow> unwind_context \<Rightarrow> emu_error + (bool \<times> unwind_context)" where
  "apply_packed g packed c =
     (let reg_f = unat (drop_bit 13 packed AND 0x07);
          reg_i = unat (drop_bit 16 packed AND 0x0F);
          h = bit packed 20;
          cr = drop_bit 21 packed AND 0x03;
          frame_size = ucast (drop_bit 23 packed AND 0x1FF) * 16 :: u64;
          fp_count = (if reg_f \<noteq> 0 then reg_f + 1 else 0);
          chained = (cr = 2 \<or> cr = 3);
          lr_saved = (cr = 1);
          n_lr = (if lr_saved then 1 else 0 :: nat);
          saved = (8 * of_nat (reg_i + n_lr + fp_count) + (if h then 64 else 0) + 15) AND NOT (15 :: u64)
      in if \<not> chained \<and> frame_size < saved then Inr (False, c)
         else
           let area = (if chained then 0x10 else frame_size - saved) in
           bind_result (if chained then bind_result (load_run g reg_fp 1 0 c) (load_run g reg_lr 1 8) else Inr c) (\<lambda>c.
           bind_result (load_run g 19 reg_i area c) (\<lambda>c.
           bind_result (if lr_saved then load_run g reg_lr 1 (area + 8 * of_nat reg_i) c else Inr c) (\<lambda>c.
           bind_result (load_fp_run g 0 fp_count (area + 8 * of_nat (reg_i + n_lr)) c) (\<lambda>c.
             Inr (True, add_sp frame_size c))))))"

section \<open>Frames\<close>

definition arm64_lookup_function_entry ::
  "runtime_function_arm64 proc_module \<Rightarrow> addr \<Rightarrow> arm64_function_entry option" where
  "arm64_lookup_function_entry m pc =
     (if \<not> has_pe m \<or> \<not> exc_used m then None
      else
        let rva = ucast (pc - mod_addr m) :: u32;
            lo = upper_index rf_begin rva (funcs m) 0 (length (funcs m))
        in if lo = 0 then None
           else
             let entry = funcs m ! (lo - 1);
                 packed = (rf_unwind_data entry AND 3 \<noteq> 0);
                 len = (if packed then (drop_bit 2 (rf_unwind_data entry) AND 0x7FF) * 4
                        else (img_u32 (img m) (rf_unwind_data entry) AND 0x3FFFF) * 4)
             in if rf_begin entry + len \<le> rva then None
                else Some \<lparr>fe_begin_rva = rf_begin entry, fe_length = len,
                       fe_unwind_data = rf_unwind_data entry, fe_packed = packed\<rparr>)"

definition return_to_lr :: "unwind_result \<Rightarrow> unwind_context \<Rightarrow> emu_error + bool \<times> unwind_context \<times> unwind_result" where
  "return_to_lr res c = (let c = c\<lparr>uc_pc := gp c ! reg_lr\<rparr> in Inr (uc_pc c \<noteq> 0, c, res))"

definition arm64_unwind_frame ::
  "gmem \<Rightarrow> runtime_function_arm64 proc_module \<Rightarrow> unwind_context \<Rightarrow>
   emu_error + bool \<times> unwind_context \<times> unwind_result" where
  "arm64_unwind_frame g m c =
     (let res = no_result\<lparr>establisher_frame := uc_sp c\<rparr> in
      case arm64_lookup_function_entry m (uc_pc c) of
        None \<Rightarrow> return_to_lr res c
      | Some f \<Rightarrow>
          if uc_pc c = mod_addr m + ucast (fe_begin_rva f) then return_to_lr res c
          else if fe_packed f then
            bind_result (apply_packed g (fe_unwind_data f) c) (\<lambda>(fine, c).
              if fine then return_to_lr res c else Inr (False, c, res))
          else
            case parse_xdata (img m) (fe_unwind_data f) of
              None \<Rightarrow> Inr (False, c, res)
            | Some h \<Rightarrow>
                let rva = ucast (uc_pc c - mod_addr m) - fe_begin_rva f;
                    ncodes = unat (code_words h * 4);
                    codes = (\<lambda>i. img m (codes_at h + of_nat i));
                    start = (case find_epilog (img m) h rva ncodes of
                               None \<Rightarrow> 0
                             | Some (start, k) \<Rightarrow> skip_codes (unat k) codes ncodes start)
                in bind_result (run_codes g (\<lambda>i. codes (start + i)) (ncodes - start) c) (\<lambda>(fine, c).
                     if \<not> fine then Inr (False, c, res)
                     else
                         let res = (if exception_data h
                               then res\<lparr>ur_handler := mod_addr m + ucast (img_u32 (img m) (after_codes h)),
                                        ur_handler_data := mod_addr m + ucast (after_codes h + 4)\<rparr>
                               else res)
                         in return_to_lr res c))"

section \<open>Prologues\<close>

text \<open>
  The instructions of a prologue, by the unwind code that describes each, with the code's
  encoding: what is stored where, how far the stack pointer goes down, and whether the frame
  pointer is set. Registers are numbered through: 31 and up are d8 and up. A store is relative
  to the stack pointer after the instruction.
\<close>

datatype prolog =
    Alloc_s nat | Save_r19r20_x nat | Save_fplr nat | Save_fplr_x nat | Alloc_m nat
  | Save_regp nat nat | Save_regp_x nat nat | Save_reg nat nat | Save_reg_x nat nat
  | Save_lrpair nat nat | Save_fregp nat nat | Save_fregp_x nat nat | Save_freg nat nat
  | Save_freg_x nat nat | Alloc_l nat | Set_fp | Add_fp nat | Nop_code

fun valid_op :: "prolog \<Rightarrow> bool" where
  "valid_op (Alloc_s n) \<longleftrightarrow> n < 32"
| "valid_op (Save_r19r20_x z) \<longleftrightarrow> z < 32"
| "valid_op (Save_fplr z) \<longleftrightarrow> z < 64"
| "valid_op (Save_fplr_x z) \<longleftrightarrow> z < 64"
| "valid_op (Alloc_m n) \<longleftrightarrow> n < 2048"
| "valid_op (Save_regp x z) \<longleftrightarrow> x \<le> 10 \<and> z < 64"
| "valid_op (Save_regp_x x z) \<longleftrightarrow> x \<le> 10 \<and> z < 64"
| "valid_op (Save_reg x z) \<longleftrightarrow> x \<le> 11 \<and> z < 64"
| "valid_op (Save_reg_x x z) \<longleftrightarrow> x \<le> 11 \<and> z < 32"
| "valid_op (Save_lrpair x z) \<longleftrightarrow> x \<le> 5 \<and> z < 64"
| "valid_op (Save_fregp x z) \<longleftrightarrow> x \<le> 6 \<and> z < 64"
| "valid_op (Save_fregp_x x z) \<longleftrightarrow> x \<le> 6 \<and> z < 64"
| "valid_op (Save_freg x z) \<longleftrightarrow> x \<le> 7 \<and> z < 64"
| "valid_op (Save_freg_x x z) \<longleftrightarrow> x \<le> 7 \<and> z < 32"
| "valid_op (Alloc_l n) \<longleftrightarrow> n < 2 ^ 24"
| "valid_op Set_fp \<longleftrightarrow> True"
| "valid_op (Add_fp n) \<longleftrightarrow> n < 256"
| "valid_op Nop_code \<longleftrightarrow> True"

fun encode :: "prolog \<Rightarrow> u8 list" where
  "encode (Alloc_s n) = [of_nat n]"
| "encode (Save_r19r20_x z) = [of_nat (0x20 + z)]"
| "encode (Save_fplr z) = [of_nat (0x40 + z)]"
| "encode (Save_fplr_x z) = [of_nat (0x80 + z)]"
| "encode (Alloc_m n) = [of_nat (0xC0 + n div 256), of_nat (n mod 256)]"
| "encode (Save_regp x z) = [of_nat (0xC8 + x div 4), of_nat (x mod 4 * 64 + z)]"
| "encode (Save_regp_x x z) = [of_nat (0xCC + x div 4), of_nat (x mod 4 * 64 + z)]"
| "encode (Save_reg x z) = [of_nat (0xD0 + x div 4), of_nat (x mod 4 * 64 + z)]"
| "encode (Save_reg_x x z) = [of_nat (0xD4 + x div 8), of_nat (x mod 8 * 32 + z)]"
| "encode (Save_lrpair x z) = [of_nat (0xD6 + x div 4), of_nat (x mod 4 * 64 + z)]"
| "encode (Save_fregp x z) = [of_nat (0xD8 + x div 4), of_nat (x mod 4 * 64 + z)]"
| "encode (Save_fregp_x x z) = [of_nat (0xDA + x div 4), of_nat (x mod 4 * 64 + z)]"
| "encode (Save_freg x z) = [of_nat (0xDC + x div 4), of_nat (x mod 4 * 64 + z)]"
| "encode (Save_freg_x x z) = [0xDE, of_nat (x * 32 + z)]"
| "encode (Alloc_l n) = [0xE0, of_nat (n div 65536), of_nat (n div 256 mod 256), of_nat (n mod 256)]"
| "encode Set_fp = [0xE1]"
| "encode (Add_fp n) = [0xE2, of_nat n]"
| "encode Nop_code = [0xE3]"

fun drop_of :: "prolog \<Rightarrow> u64" where
  "drop_of (Alloc_s n) = of_nat n * 16"
| "drop_of (Save_r19r20_x z) = of_nat z * 8"
| "drop_of (Save_fplr_x z) = (of_nat z + 1) * 8"
| "drop_of (Alloc_m n) = of_nat n * 16"
| "drop_of (Save_regp_x x z) = (of_nat z + 1) * 8"
| "drop_of (Save_reg_x x z) = (of_nat z + 1) * 8"
| "drop_of (Save_fregp_x x z) = (of_nat z + 1) * 8"
| "drop_of (Save_freg_x x z) = (of_nat z + 1) * 8"
| "drop_of (Alloc_l n) = of_nat n * 16"
| "drop_of _ = 0"

fun stores :: "prolog \<Rightarrow> (nat \<times> u64) list" where
  "stores (Save_r19r20_x z) = [(19, 0), (20, 8)]"
| "stores (Save_fplr z) = [(29, of_nat z * 8), (30, of_nat z * 8 + 8)]"
| "stores (Save_fplr_x z) = [(29, 0), (30, 8)]"
| "stores (Save_regp x z) = [(19 + x, of_nat z * 8), (20 + x, of_nat z * 8 + 8)]"
| "stores (Save_regp_x x z) = [(19 + x, 0), (20 + x, 8)]"
| "stores (Save_reg x z) = [(19 + x, of_nat z * 8)]"
| "stores (Save_reg_x x z) = [(19 + x, 0)]"
| "stores (Save_lrpair x z) = [(19 + 2 * x, of_nat z * 8), (30, of_nat z * 8 + 8)]"
| "stores (Save_fregp x z) = [(31 + x, of_nat z * 8), (32 + x, of_nat z * 8 + 8)]"
| "stores (Save_fregp_x x z) = [(31 + x, 0), (32 + x, 8)]"
| "stores (Save_freg x z) = [(31 + x, of_nat z * 8)]"
| "stores (Save_freg_x x z) = [(31 + x, 0)]"
| "stores _ = []"

fun fp_set :: "prolog \<Rightarrow> u64 option" where
  "fp_set Set_fp = Some 0"
| "fp_set (Add_fp n) = Some (of_nat n * 8)"
| "fp_set _ = None"

definition reg :: "unwind_context \<Rightarrow> nat \<Rightarrow> addr" where
  "reg c r = (if r < 31 then gp c ! r else fp_regs c ! (r - 31))"

text \<open>The instruction took the machine from \<open>c\<close> to \<open>c'\<close>, and memory still holds what it stored.\<close>

definition did :: "gmem \<Rightarrow> prolog \<Rightarrow> unwind_context \<Rightarrow> unwind_context \<Rightarrow> bool" where
  "did g p c c' \<longleftrightarrow>
     uc_sp c' = uc_sp c - drop_of p \<and>
     (\<forall>(r, off) \<in> set (stores p). g_get 8 (uc_sp c' + off) g = Inr (reg c r)) \<and>
     (\<forall>r. reg c' r = (case fp_set p of Some k \<Rightarrow> if r = 29 then uc_sp c + k else reg c r | None \<Rightarrow> reg c r))"

fun did_all :: "gmem \<Rightarrow> prolog list \<Rightarrow> unwind_context \<Rightarrow> unwind_context \<Rightarrow> bool" where
  "did_all g [] c c' \<longleftrightarrow> c' = c"
| "did_all g (p # ps) c c' \<longleftrightarrow> (\<exists>d. did g p c d \<and> did_all g ps d c')"

text \<open>
  What is known of a context while codes are undone: whether its stack pointer is the one the
  prologue had at that point, and which registers have the values they had there.
\<close>

definition track :: "prolog \<Rightarrow> bool \<times> nat set \<Rightarrow> (bool \<times> nat set) option" where
  "track p = (\<lambda>(k, R).
     if fp_set p \<noteq> None then (if 29 \<in> R then Some (True, R - {29}) else None)
     else if stores p = [] then Some (k, R)
     else if k then Some (True, R \<union> fst ` set (stores p))
     else None)"

fun track_all :: "prolog list \<Rightarrow> bool \<times> nat set \<Rightarrow> (bool \<times> nat set) option" where
  "track_all [] s = Some s"
| "track_all (p # ps) s = (case track p s of None \<Rightarrow> None | Some s \<Rightarrow> track_all ps s)"

section \<open>What a code does\<close>

fun load_slots :: "gmem \<Rightarrow> (nat \<times> u64) list \<Rightarrow> unwind_context \<Rightarrow> emu_error + unwind_context" where
  "load_slots g [] c = Inr c"
| "load_slots g ((r, off) # ss) c =
     bind_result (if r < 31 then load_reg g r off c else load_fp g (r - 31) off c) (load_slots g ss)"

definition undo :: "gmem \<Rightarrow> prolog \<Rightarrow> unwind_context \<Rightarrow> emu_error + unwind_context" where
  "undo g p c =
     bind_result (load_slots g (stores p) c) (\<lambda>c.
       Inr (case fp_set p of Some k \<Rightarrow> c\<lparr>uc_sp := gp c ! 29 - k\<rparr> | None \<Rightarrow> add_sp (drop_of p) c))"

lemma byte_and: "(of_nat m :: u8) AND mask k = of_nat (m mod 2 ^ k)"
proof -
  have "(of_nat m :: u8) AND mask k = take_bit k (of_nat m)" by (simp only: take_bit_eq_mask)
  also have "\<dots> = of_nat (take_bit k m)" by (simp only: take_bit_of_nat)
  finally show ?thesis by (simp only: take_bit_eq_mod)
qed

lemma byte_unat: "m < 256 \<Longrightarrow> unat (of_nat m :: u8) = m"
  by (simp add: unat_of_nat)

lemma byte_drop: "m < 256 \<Longrightarrow> drop_bit k (of_nat m :: u8) = of_nat (m div 2 ^ k)"
proof -
  assume m: "m < 256"
  then have "m div 2 ^ k < 256" by (meson div_le_dividend le_less_trans)
  with m have "unat (drop_bit k (of_nat m :: u8)) = unat (of_nat (m div 2 ^ k) :: u8)"
    by (simp only: unat_drop_bit_eq byte_unat) (simp only: drop_bit_eq_div)
  then show ?thesis by (rule unsigned_word_eqI)
qed

lemma byte_w8: "m < 256 \<Longrightarrow> (ucast (of_nat m :: u8) :: u64) = of_nat m"
  using of_nat_unat [of "of_nat m :: u8", where 'a = u64] by (simp only: byte_unat)

lemma byte_masks:
  "(of_nat m :: u8) AND 0x3F = of_nat (m mod 64)" "(of_nat m :: u8) AND 0x1F = of_nat (m mod 32)"
  using byte_and [of m 6] byte_and [of m 5] by (simp_all add: mask_eq_exp_minus_1)

text \<open>The second byte of a two-byte code carries the low part of the register and the offset.\<close>

lemma second_byte:
  assumes "x < 4" and "z < 64"
  shows "drop_bit 6 (of_nat (x * 64 + z) :: u8) = of_nat x" "(of_nat (x * 64 + z) :: u8) AND 0x3F = of_nat z"
proof -
  have "x * 64 + z < 256" "(x * 64 + z) div 64 = x" "(x * 64 + z) mod 64 = z" using assms by simp_all
  then show "drop_bit 6 (of_nat (x * 64 + z) :: u8) = of_nat x" "(of_nat (x * 64 + z) :: u8) AND 0x3F = of_nat z"
    by (simp_all only: byte_drop byte_masks) simp
qed

lemma second_byte5:
  assumes "x < 8" and "z < 32"
  shows "drop_bit 5 (of_nat (x * 32 + z) :: u8) = of_nat x" "(of_nat (x * 32 + z) :: u8) AND 0x1F = of_nat z"
proof -
  have "x * 32 + z < 256" "(x * 32 + z) div 32 = x" "(x * 32 + z) mod 32 = z" using assms by simp_all
  then show "drop_bit 5 (of_nat (x * 32 + z) :: u8) = of_nat x" "(of_nat (x * 32 + z) :: u8) AND 0x1F = of_nat z"
    by (simp_all only: byte_drop byte_masks) simp
qed

lemma lt_cases: "(n :: nat) < 4 \<Longrightarrow> n = 0 \<or> n = 1 \<or> n = 2 \<or> n = 3" "(n :: nat) < 2 \<Longrightarrow> n = 0 \<or> n = 1"
  by auto

definition noted :: "prolog \<Rightarrow> replayer \<Rightarrow> replayer" where
  "noted p r =
     (case p of
        Save_regp x z \<Rightarrow> mark_pair (19 + x) (of_nat z * 8) False r
      | Save_regp_x x z \<Rightarrow> mark_pair (19 + x) 0 False r
      | Save_fregp x z \<Rightarrow> mark_pair x (of_nat z * 8) True r
      | Save_fregp_x x z \<Rightarrow> mark_pair x 0 True r
      | _ \<Rightarrow> r)"

lemma add_sp_0 [simp]: "add_sp 0 c = c"
  by (simp add: add_sp_def)

lemmas step_simps = replay_step_def Let_def noted_def undo_def go_def load_pair_def load_fp_pair_def
  reg_fp_def reg_lr_def max_gp_def max_fp_def

lemma upto_numeral: "(n :: nat) \<le> numeral v \<longleftrightarrow> n = numeral v \<or> n \<le> pred_numeral v"
  by (auto simp: numeral_eq_Suc le_Suc_eq)

lemmas upto_cases = upto_numeral pred_numeral_simps BitM.simps One_nat_def le_Suc_eq le_zero_eq

lemma step_Save_regp:
  assumes "x \<le> 10" and "drop_bit 6 b1 = (of_nat (x mod 4) :: u8)" and "b1 AND 0x3F = of_nat z" and "z < 64"
  shows "replay_step g (of_nat (0xC8 + x div 4)) b1 r1 r2 r3 r =
    go 2 (noted (Save_regp x z) r) (undo g (Save_regp x z) (ctx r))"
  using assms(1) [simplified upto_cases] assms(2-)
  by (elim disjE) (simp_all add: step_simps byte_w8 split: sum.split)

lemma step_Save_regp_x:
  assumes "x \<le> 10" and "drop_bit 6 b1 = (of_nat (x mod 4) :: u8)" and "b1 AND 0x3F = of_nat z" and "z < 64"
  shows "replay_step g (of_nat (0xCC + x div 4)) b1 r1 r2 r3 r =
    go 2 (noted (Save_regp_x x z) r) (undo g (Save_regp_x x z) (ctx r))"
  using assms(1) [simplified upto_cases] assms(2-)
  by (elim disjE) (simp_all add: step_simps byte_w8 split: sum.split)

lemma step_Save_reg:
  assumes "x \<le> 11" and "drop_bit 6 b1 = (of_nat (x mod 4) :: u8)" and "b1 AND 0x3F = of_nat z" and "z < 64"
  shows "replay_step g (of_nat (0xD0 + x div 4)) b1 r1 r2 r3 r =
    go 2 (noted (Save_reg x z) r) (undo g (Save_reg x z) (ctx r))"
  using assms(1) [simplified upto_cases] assms(2-)
  by (elim disjE) (simp_all add: step_simps byte_w8 split: sum.split)

lemma step_Save_lrpair:
  assumes "x \<le> 5" and "drop_bit 6 b1 = (of_nat (x mod 4) :: u8)" and "b1 AND 0x3F = of_nat z" and "z < 64"
  shows "replay_step g (of_nat (0xD6 + x div 4)) b1 r1 r2 r3 r =
    go 2 (noted (Save_lrpair x z) r) (undo g (Save_lrpair x z) (ctx r))"
  using assms(1) [simplified upto_cases] assms(2-)
  by (elim disjE) (simp_all add: step_simps byte_w8 split: sum.split)

lemma step_Save_fregp:
  assumes "x \<le> 6" and "drop_bit 6 b1 = (of_nat (x mod 4) :: u8)" and "b1 AND 0x3F = of_nat z" and "z < 64"
  shows "replay_step g (of_nat (0xD8 + x div 4)) b1 r1 r2 r3 r =
    go 2 (noted (Save_fregp x z) r) (undo g (Save_fregp x z) (ctx r))"
  using assms(1) [simplified upto_cases] assms(2-)
  by (elim disjE) (simp_all add: step_simps byte_w8 flip: numeral_2_eq_2 split: sum.split)

lemma step_Save_fregp_x:
  assumes "x \<le> 6" and "drop_bit 6 b1 = (of_nat (x mod 4) :: u8)" and "b1 AND 0x3F = of_nat z" and "z < 64"
  shows "replay_step g (of_nat (0xDA + x div 4)) b1 r1 r2 r3 r =
    go 2 (noted (Save_fregp_x x z) r) (undo g (Save_fregp_x x z) (ctx r))"
  using assms(1) [simplified upto_cases] assms(2-)
  by (elim disjE) (simp_all add: step_simps byte_w8 flip: numeral_2_eq_2 split: sum.split)

lemma step_Save_freg:
  assumes "x \<le> 7" and "drop_bit 6 b1 = (of_nat (x mod 4) :: u8)" and "b1 AND 0x3F = of_nat z" and "z < 64"
  shows "replay_step g (of_nat (0xDC + x div 4)) b1 r1 r2 r3 r =
    go 2 (noted (Save_freg x z) r) (undo g (Save_freg x z) (ctx r))"
  using assms(1) [simplified upto_cases] assms(2-)
  by (elim disjE) (simp_all add: step_simps byte_w8 split: sum.split)

lemma step_Save_reg_x:
  assumes "x \<le> 11" and "drop_bit 5 b1 = (of_nat (x mod 8) :: u8)" and "b1 AND 0x1F = of_nat z" and "z < 32"
  shows "replay_step g (of_nat (0xD4 + x div 8)) b1 r1 r2 r3 r =
    go 2 (noted (Save_reg_x x z) r) (undo g (Save_reg_x x z) (ctx r))"
  using assms(1) [simplified upto_cases] assms(2-)
  by (elim disjE) (simp_all add: step_simps byte_w8 split: sum.split)

lemma step_Save_freg_x:
  assumes "x \<le> 7" and "drop_bit 5 b1 = (of_nat x :: u8)" and "b1 AND 0x1F = of_nat z" and "z < 32"
  shows "replay_step g 0xDE b1 r1 r2 r3 r = go 2 (noted (Save_freg_x x z) r) (undo g (Save_freg_x x z) (ctx r))"
  using assms(1) [simplified upto_cases] assms(2-)
  by (elim disjE) (simp_all add: step_simps byte_w8 split: sum.split)

lemma high_bits: "(a :: u8) AND 0xE0 = push_bit 5 (drop_bit 5 a)" "(a :: u8) AND 0xC0 = push_bit 6 (drop_bit 6 a)"
proof -
  have "(0xE0 :: u8) = NOT (mask 5)" "(0xC0 :: u8) = NOT (mask 6)" by (simp_all add: mask_eq_exp_minus_1)
  then show "(a :: u8) AND 0xE0 = push_bit 5 (drop_bit 5 a)" "(a :: u8) AND 0xC0 = push_bit 6 (drop_bit 6 a)"
    by (simp_all only: and_not_mask)
qed

lemma step_one_byte:
  "n < 32 \<Longrightarrow> replay_step g (of_nat n) b1 r1 r2 r3 r = go 1 (noted (Alloc_s n) r) (undo g (Alloc_s n) (ctx r))"
  "z < 32 \<Longrightarrow> replay_step g (of_nat (0x20 + z)) b1 r1 r2 r3 r =
     go 1 (noted (Save_r19r20_x z) r) (undo g (Save_r19r20_x z) (ctx r))"
  "y < 64 \<Longrightarrow> replay_step g (of_nat (0x40 + y)) b1 r1 r2 r3 r =
     go 1 (noted (Save_fplr y) r) (undo g (Save_fplr y) (ctx r))"
  "y < 64 \<Longrightarrow> replay_step g (of_nat (0x80 + y)) b1 r1 r2 r3 r =
     go 1 (noted (Save_fplr_x y) r) (undo g (Save_fplr_x y) (ctx r))"
proof -
  have d: "(0x20 + z) div 32 = 1" "(0x20 + z) mod 32 = z" if "z < 32" for z :: nat using that by auto
  have e: "(0x40 + y) div 64 = 1" "(0x40 + y) mod 64 = y" "(0x80 + y) div 64 = 2" "(0x80 + y) mod 64 = y"
    "(0x40 + y) div 32 = (if y < 32 then 2 else 3)" "(0x80 + y) div 32 = (if y < 32 then 4 else 5)"
    if "y < 64" for y :: nat
    using that mod_mult_self1 [of y 2 64] by (simp_all add: div_nat_eqI add.commute)
  show "n < 32 \<Longrightarrow> replay_step g (of_nat n) b1 r1 r2 r3 r = go 1 (noted (Alloc_s n) r) (undo g (Alloc_s n) (ctx r))"
    by (simp only: replay_step_def Let_def high_bits byte_drop byte_masks) (simp add: step_simps byte_w8)
  show "z < 32 \<Longrightarrow> replay_step g (of_nat (0x20 + z)) b1 r1 r2 r3 r =
     go 1 (noted (Save_r19r20_x z) r) (undo g (Save_r19r20_x z) (ctx r))"
    using d
    by (simp del: of_nat_add add: replay_step_def Let_def high_bits byte_drop byte_masks noted_def undo_def
        load_pair_def reg_fp_def byte_w8 split: sum.split)
  show "y < 64 \<Longrightarrow> replay_step g (of_nat (0x40 + y)) b1 r1 r2 r3 r =
     go 1 (noted (Save_fplr y) r) (undo g (Save_fplr y) (ctx r))"
    using e
    by (simp del: of_nat_add add: replay_step_def Let_def high_bits byte_drop byte_masks noted_def undo_def
        load_pair_def reg_fp_def reg_lr_def byte_w8 split: sum.split)
  show "y < 64 \<Longrightarrow> replay_step g (of_nat (0x80 + y)) b1 r1 r2 r3 r =
     go 1 (noted (Save_fplr_x y) r) (undo g (Save_fplr_x y) (ctx r))"
    using e
    by (simp del: of_nat_add add: replay_step_def Let_def high_bits byte_drop byte_masks noted_def undo_def
        load_pair_def reg_fp_def reg_lr_def byte_w8 split: sum.split)
qed

lemma step_Alloc_m:
  assumes "k \<le> 7" and m: "m < 256"
  shows "replay_step g (of_nat (0xC0 + k)) (of_nat m) r1 r2 r3 r =
    go 2 r (Inr (add_sp (of_nat (k * 256 + m) * 16) (ctx r)))"
  using or_split [of m 8 k, where 'a = 64] assms(1) [simplified upto_cases] m
  by (elim disjE) (simp_all add: replay_step_def Let_def byte_w8)

lemma step_Alloc_l:
  assumes "k < 256" and "j < 256" and "m < 256"
  shows "replay_step g 0xE0 b1 (of_nat k) (of_nat j) (of_nat m) r =
    go 4 r (Inr (add_sp (of_nat (k * 65536 + (j * 256 + m)) * 16) (ctx r)))"
proof -
  have "push_bit 16 (of_nat k) OR push_bit 8 (of_nat j) OR of_nat m = (of_nat (k * 65536 + (j * 256 + m)) :: u64)"
    using or_split [of m 8 j, where 'a = 64] or_split [of "j * 256 + m" 16 k, where 'a = 64] assms
    by (simp del: of_nat_add of_nat_mult)
  with assms show ?thesis
    by (simp del: of_nat_add of_nat_mult add: replay_step_def Let_def byte_w8)
qed

lemma step_allocs:
  "n < 2048 \<Longrightarrow> replay_step g (of_nat (0xC0 + n div 256)) (of_nat (n mod 256)) r1 r2 r3 r =
     go 2 (noted (Alloc_m n) r) (undo g (Alloc_m n) (ctx r))"
  "l < 2 ^ 24 \<Longrightarrow> replay_step g 0xE0 b1 (of_nat (l div 65536)) (of_nat (l div 256 mod 256)) (of_nat (l mod 256)) r =
     go 4 (noted (Alloc_l l) r) (undo g (Alloc_l l) (ctx r))"
proof -
  show "n < 2048 \<Longrightarrow> replay_step g (of_nat (0xC0 + n div 256)) (of_nat (n mod 256)) r1 r2 r3 r =
     go 2 (noted (Alloc_m n) r) (undo g (Alloc_m n) (ctx r))"
  proof -
    assume "n < 2048"
    then have "n div 256 \<le> 7" by auto
    from step_Alloc_m [OF this, of "n mod 256"] show ?thesis by (simp del: of_nat_add add: noted_def undo_def)
  qed
  assume l: "l < 2 ^ 24"
  have "l div 65536 < 256" using l by auto
  moreover have "l div 65536 * 65536 + (l div 256 mod 256 * 256 + l mod 256) = l"
  proof -
    have "l div 65536 = l div 256 div 256" by (simp flip: div_mult2_eq)
    moreover have "l div 256 div 256 * 256 + l div 256 mod 256 = l div 256" "l div 256 * 256 + l mod 256 = l"
      by (rule div_mult_mod_eq)+
    ultimately show ?thesis by linarith
  qed
  ultimately show "replay_step g 0xE0 b1 (of_nat (l div 65536)) (of_nat (l div 256 mod 256)) (of_nat (l mod 256)) r =
     go 4 (noted (Alloc_l l) r) (undo g (Alloc_l l) (ctx r))"
    using step_Alloc_l [of "l div 65536" "l div 256 mod 256" "l mod 256"]
    by (simp del: of_nat_add of_nat_mult add: noted_def undo_def)
qed

lemma step_rest:
  "replay_step g 0xE1 b1 r1 r2 r3 r = go 1 (noted Set_fp r) (undo g Set_fp (ctx r))"
  "n < 256 \<Longrightarrow> replay_step g 0xE2 (of_nat n) r1 r2 r3 r = go 2 (noted (Add_fp n) r) (undo g (Add_fp n) (ctx r))"
  "replay_step g 0xE3 b1 r1 r2 r3 r = go 1 (noted Nop_code r) (undo g Nop_code (ctx r))"
  by (simp_all add: step_simps byte_w8)

lemma replay_step_encode:
  assumes "valid_op p"
  shows "replay_step g (encode p ! 0) (if 1 < length (encode p) then encode p ! 1 else b1)
     (if length (encode p) = 4 then encode p ! 1 else r1) (if length (encode p) = 4 then encode p ! 2 else r2)
     (if length (encode p) = 4 then encode p ! 3 else r3) r =
   go (length (encode p)) (noted p r) (undo g p (ctx r))"
proof -
  have two: "Suc (Suc 0) = 2" "Suc (Suc (Suc (Suc 0))) = 4" by simp_all
  note steps = step_rest step_one_byte step_allocs step_Save_regp step_Save_regp_x
      step_Save_reg step_Save_reg_x step_Save_lrpair step_Save_fregp step_Save_fregp_x step_Save_freg
  show ?thesis
  proof (cases p)
    case (Save_freg_x x z)
    then show ?thesis
      using assms second_byte5 [of x z] step_Save_freg_x [of x "of_nat (x * 32 + z)" z]
      by (simp del: of_nat_add of_nat_mult flip: numeral_2_eq_2)
  qed (use assms in \<open>simp_all add: steps two second_byte second_byte5 del: of_nat_add of_nat_mult\<close>)
qed

lemma replay_step_code:
  assumes "valid_op p" and "b0 = encode p ! 0" and "1 < length (encode p) \<Longrightarrow> b1 = encode p ! 1"
    and "length (encode p) = 4 \<Longrightarrow> r1 = encode p ! 1 \<and> r2 = encode p ! 2 \<and> r3 = encode p ! 3"
  shows "replay_step g b0 b1 r1 r2 r3 r = go (length (encode p)) (noted p r) (undo g p (ctx r))"
proof -
  let ?n = "length (encode p)"
  have "(if 1 < ?n then encode p ! 1 else b1) = b1" "(if ?n = 4 then encode p ! 1 else r1) = r1"
    "(if ?n = 4 then encode p ! 2 else r2) = r2" "(if ?n = 4 then encode p ! 3 else r3) = r3"
    using assms(3,4) by auto
  with replay_step_encode [OF assms(1), of g b1 r1 r2 r3 r] show ?thesis by (simp only: assms(2))
qed

section \<open>Replaying the codes of a prologue\<close>

lemma encode_length: "1 \<le> length (encode p)" "length (encode p) \<noteq> 3" "length (encode p) \<le> 4"
  by (cases p; simp)+

fun undo_all :: "gmem \<Rightarrow> prolog list \<Rightarrow> unwind_context \<Rightarrow> emu_error + unwind_context" where
  "undo_all g [] c = Inr c"
| "undo_all g (p # ps) c = bind_result (undo g p c) (undo_all g ps)"

definition end_code :: u8 where "end_code = 0xE4"

abbreviation (input) code_bytes :: "prolog list \<Rightarrow> u8 list" where
  "code_bytes ps \<equiv> concat (map encode ps) @ [end_code]"

text \<open>Replaying the bytes of codes up to an end code undoes the instructions they describe.\<close>

lemma replay_codes:
  assumes "list_all valid_op ps" and "\<forall>j < length (code_bytes ps). codes (i + j) = code_bytes ps ! j"
    and "i + length (code_bytes ps) \<le> sz" and "sz - i \<le> fuel" and "undo_all g ps (ctx r) = Inr c"
  shows "\<exists>r'. replay fuel g codes sz i r = Inr (True, r') \<and> ctx r' = c"
  using assms
proof (induction ps arbitrary: i r fuel)
  case Nil
  then obtain f where f: "fuel = Suc f" by (cases fuel) auto
  have "codes i = 0xE4" using Nil.prems(2) by (simp add: end_code_def)
  then have "replay_step g (codes i) b1 r1 r2 r3 r = Inr Ended" for b1 r1 r2 r3
    by (simp add: replay_step_def Let_def)
  moreover have "i < sz" "ctx r = c" using Nil.prems by simp_all
  ultimately show ?case using f by simp
next
  case (Cons p ps)
  let ?e = "encode p" and ?n = "length (encode p)"
  obtain f where f: "fuel = Suc f" using Cons.prems(3,4) by (cases fuel) auto
  have at: "codes (i + j) = ?e ! j" if "j < ?n" for j
  proof -
    have "codes (i + j) = code_bytes (p # ps) ! j" using Cons.prems(2) that by simp
    then show ?thesis using that by (simp add: nth_append)
  qed
  have sz: "i + ?n < sz" using Cons.prems(3) by simp
  obtain d where d: "undo g p (ctx r) = Inr d" "undo_all g ps d = Inr c"
    using Cons.prems(5) by (auto split: sum.splits)
  have "replay_step g (codes i) (if i + 1 < sz then codes (i + 1) else 0) (codes (i + 1)) (codes (i + 2))
      (codes (i + 3)) r = go ?n (noted p r) (undo g p (ctx r))"
  proof (rule replay_step_code)
    show "codes i = ?e ! 0" using at [of 0] encode_length(1) [of p] by (cases "encode p") auto
    show "(if i + 1 < sz then codes (i + 1) else 0) = ?e ! 1" if "1 < ?n" using at [OF that] sz that by simp
    show "codes (i + 1) = ?e ! 1 \<and> codes (i + 2) = ?e ! 2 \<and> codes (i + 3) = ?e ! 3" if "?n = 4"
      using at [of 1] at [of 2] at [of 3] that by simp
  qed (use Cons.prems(1) in simp)
  then have "replay fuel g codes sz i r = replay f g codes sz (i + ?n) ((noted p r)\<lparr>ctx := d\<rparr>)"
    using f sz d(1) by (simp add: go_def)
  moreover have "\<exists>r'. replay f g codes sz (i + ?n) ((noted p r)\<lparr>ctx := d\<rparr>) = Inr (True, r') \<and> ctx r' = c"
  proof (rule Cons.IH)
    show "\<forall>j < length (code_bytes ps). codes (i + ?n + j) = code_bytes ps ! j"
    proof (intro allI impI)
      fix j assume "j < length (code_bytes ps)"
      then show "codes (i + ?n + j) = code_bytes ps ! j"
        using Cons.prems(2) [rule_format, of "?n + j"] by (simp add: nth_append add.assoc)
    qed
    show "sz - (i + ?n) \<le> f" using Cons.prems(4) f encode_length(1) [of p] by simp
  qed (use Cons.prems d in simp_all)
  ultimately show ?case by simp
qed

definition full :: "unwind_context \<Rightarrow> bool" where
  "full c \<longleftrightarrow> length (gp c) = 31 \<and> length (fp_regs c) = 8"

definition knows :: "unwind_context \<Rightarrow> bool \<times> nat set \<Rightarrow> unwind_context \<Rightarrow> bool" where
  "knows u s c \<longleftrightarrow> (fst s \<longrightarrow> uc_sp u = uc_sp c) \<and> (\<forall>r \<in> snd s. reg u r = reg c r)"

lemma load_slots_ok:
  assumes "full u" and "\<forall>(r, off) \<in> set ss. r < 39 \<and> g_get 8 (uc_sp u + off) g = Inr (reg c r)"
  shows "\<exists>u'. load_slots g ss u = Inr u' \<and> full u' \<and> uc_sp u' = uc_sp u \<and> uc_pc u' = uc_pc u \<and>
    (\<forall>r. reg u' r = (if r \<in> fst ` set ss then reg c r else reg u r))"
  using assms
proof (induction ss arbitrary: u)
  case (Cons s ss)
  obtain r off where s: "s = (r, off)" by force
  let ?v = "reg c r"
  let ?u = "if r < 31 then u\<lparr>gp := (gp u)[r := ?v]\<rparr> else u\<lparr>fp_regs := (fp_regs u)[r - 31 := ?v]\<rparr>"
  have r: "r < 39" "g_get 8 (uc_sp u + off) g = Inr ?v" using Cons.prems(2) s by auto
  then have ld: "(if r < 31 then load_reg g r off u else load_fp g (r - 31) off u) = Inr ?u"
    by (simp add: load_reg_def load_fp_def max_gp_def max_fp_def)
  have u: "full ?u" "uc_sp ?u = uc_sp u" "uc_pc ?u = uc_pc u" using Cons.prems(1) by (auto simp: full_def)
  have ru: "reg ?u q = (if q = r then ?v else reg u q)" for q
    using Cons.prems(1) r(1) by (auto simp: reg_def full_def nth_list_update)
  from Cons.IH [OF u(1)] Cons.prems(2) u(2) obtain u' where "load_slots g ss ?u = Inr u'" "full u'"
    "uc_sp u' = uc_sp ?u" "uc_pc u' = uc_pc ?u" "\<forall>q. reg u' q = (if q \<in> fst ` set ss then reg c q else reg ?u q)"
    by auto
  with ld s u ru show ?case by auto
qed simp

lemma stores_bound: "valid_op p \<Longrightarrow> (r, off) \<in> set (stores p) \<Longrightarrow> r < 39"
  by (cases p) auto

lemma stores_no_fp: "fp_set p \<noteq> None \<Longrightarrow> stores p = [] \<and> drop_of p = 0"
  by (cases p) auto

lemma undo_knows:
  assumes "did g p c c'" and "valid_op p" and "full u" and "knows u s c'" and "track p s = Some s'"
  shows "\<exists>u'. undo g p u = Inr u' \<and> full u' \<and> uc_pc u' = uc_pc u \<and> knows u' s' c"
proof (cases "fp_set p")
  case (Some k)
  then have st: "stores p = []" "drop_of p = 0" using stores_no_fp [of p] by auto
  have "29 \<in> snd s" "s' = (True, snd s - {29})" using assms(5) Some by (auto simp: track_def split: if_splits prod.splits)
  then show ?thesis
    using assms(1,3,4) Some st by (auto simp: undo_def did_def knows_def full_def reg_def)
next
  case None
  obtain k R where s: "s = (k, R)" by force
  show ?thesis
  proof (cases "stores p = []")
    case True
    then have "s' = s" using assms(5) None s by (simp add: track_def)
    then show ?thesis using assms True None by (auto simp: undo_def did_def knows_def full_def reg_def add_sp_def)
  next
    case False
    then have k: "k" "s' = (True, R \<union> fst ` set (stores p))"
      using assms(5) None s by (auto simp: track_def split: if_splits)
    have "\<forall>(r, off) \<in> set (stores p). r < 39 \<and> g_get 8 (uc_sp u + off) g = Inr (reg c r)"
      using assms(1,4) s k(1) stores_bound [OF assms(2)] by (auto simp: did_def knows_def)
    from load_slots_ok [OF assms(3) this] obtain u' where u': "load_slots g (stores p) u = Inr u'" "full u'"
      "uc_sp u' = uc_sp u" "uc_pc u' = uc_pc u"
      "\<forall>r. reg u' r = (if r \<in> fst ` set (stores p) then reg c r else reg u r)" by blast
    have "knows (add_sp (drop_of p) u') s' c"
      unfolding knows_def
    proof (intro conjI impI ballI)
      show "uc_sp (add_sp (drop_of p) u') = uc_sp c"
        using assms(1,4) u'(3) s k(1) by (simp add: knows_def did_def add_sp_def)
      fix r assume "r \<in> snd s'"
      then have "r \<in> fst ` set (stores p) \<or> reg u r = reg c' r" using assms(4) s k(2) by (auto simp: knows_def)
      moreover have "reg c' r = reg c r" using assms(1) None by (simp add: did_def)
      moreover have "reg (add_sp (drop_of p) u') r = reg u' r" by (simp add: reg_def add_sp_def)
      ultimately show "reg (add_sp (drop_of p) u') r = reg c r" using u'(5) by auto
    qed
    then show ?thesis using u' None by (auto simp: undo_def full_def add_sp_def)
  qed
qed

lemma undo_all_knows:
  assumes "did_all g ps c c'" and "list_all valid_op ps" and "full u" and "knows u s c'"
    and "track_all (rev ps) s = Some s'"
  shows "\<exists>u'. undo_all g (rev ps) u = Inr u' \<and> full u' \<and> uc_pc u' = uc_pc u \<and> knows u' s' c"
proof -
  have track_append: "track_all (ps @ qs) s = (case track_all ps s of None \<Rightarrow> None | Some s \<Rightarrow> track_all qs s)" for ps qs s
    by (induction ps arbitrary: s) (auto split: option.split)
  have undo_append: "undo_all g (ps @ qs) u = bind_result (undo_all g ps u) (undo_all g qs)" for ps qs u
    by (induction ps arbitrary: u) (auto split: sum.split)
  show ?thesis
    using assms
  proof (induction ps arbitrary: c s')
    case (Cons p ps)
    obtain d where d: "did g p c d" "did_all g ps d c'" using Cons.prems(1) by auto
    obtain t where t: "track_all (rev ps) s = Some t" "track p t = Some s'"
      using Cons.prems(5) track_append [of "rev ps" "[p]" s] by (auto split: option.splits)
    from Cons.IH [OF d(2) _ Cons.prems(3,4) t(1)] Cons.prems(2) obtain v where v:
      "undo_all g (rev ps) u = Inr v" "full v" "uc_pc v = uc_pc u" "knows v t d" by auto
    from undo_knows [OF d(1) _ v(2,4) t(2)] Cons.prems(2) obtain w where
      "undo g p v = Inr w" "full w" "uc_pc w = uc_pc v" "knows w s' c" by auto
    with v show ?case using undo_append [of "rev ps" "[p]" u] by simp
  qed simp
qed

text \<open>The loop ends for every code sequence: each turn consumes a byte.\<close>

lemma go_positive: "go n r c = Inr (Next k r') \<Longrightarrow> k = n"
  by (auto simp: go_def split: sum.splits)

lemma replay_step_positive: "replay_step g b0 b1 r1 r2 r3 r = Inr (Next n r') \<Longrightarrow> 1 \<le> n"
  unfolding replay_step_def Let_def by (auto split: if_splits dest!: go_positive)

lemma g_read_Inl: "g_read n a g = Inl e \<Longrightarrow> e = Unmapped_virtual_address"
  by (induction n arbitrary: a) (auto split: option.splits sum.splits)

lemma load_Inl:
  "load_reg g q off c = Inl e \<Longrightarrow> e = Unmapped_virtual_address"
  "load_fp g q off c = Inl e \<Longrightarrow> e = Unmapped_virtual_address"
  "load_pair g q off c = Inl e \<Longrightarrow> e = Unmapped_virtual_address"
  "load_fp_pair g q off c = Inl e \<Longrightarrow> e = Unmapped_virtual_address"
  by (auto simp: load_reg_def load_fp_def load_pair_def load_fp_pair_def g_get_def dest: g_read_Inl
      split: if_splits sum.splits)

lemma replay_step_Inl: "replay_step g b0 b1 r1 r2 r3 r = Inl e \<Longrightarrow> e = Unmapped_virtual_address"
  unfolding replay_step_def Let_def go_def by (auto split: if_splits sum.splits dest: load_Inl)

lemma replay_ends: "sz - i \<le> fuel \<Longrightarrow> replay fuel g codes sz i r \<noteq> throw Does_not_return"
proof (induction fuel arbitrary: i r)
  case (Suc fuel)
  let ?t = "replay_step g (codes i) (if i + 1 < sz then codes (i + 1) else 0)
       (codes (i + 1)) (codes (i + 2)) (codes (i + 3)) r"
  show ?case
  proof (cases ?t)
    case (Inl e)
    then show ?thesis using replay_step_Inl [OF Inl] by auto
  next
    case (Inr t)
    have "replay fuel g codes sz (i + n) r' \<noteq> throw Does_not_return" if "t = Next n r'" "i < sz" for n r'
    proof -
      have "1 \<le> n" using Inr that(1) by (intro replay_step_positive) simp
      then show ?thesis using Suc.IH [of "i + n" r'] Suc.prems that(2) by simp
    qed
    then show ?thesis using Inr by (auto split: turn.split)
  qed
qed simp

text \<open>
  The register count of packed data has four bits but only twelve registers from x19 on exist: a
  count from 13 on runs over the end of the array.
\<close>

lemma packed_run_over: "apply_packed (\<lambda>_. Some 0) 0x00EF0000
    \<lparr>uc_pc = 0, uc_sp = 0, gp = replicate 31 0, fp_regs = replicate 8 0\<rparr> = throw Out_of_bounds"
  by code_simp

section \<open>Properties\<close>

text \<open>
  C40: Unwinding a frame of a function with full unwind data. \<open>ps\<close> is the prologue, whose
  instructions took the caller's state \<open>c\<close> to \<open>c'\<close> and whose codes the image holds; \<open>u\<close> is any
  later state of the body that still has the registers \<open>R\<close> of \<open>c'\<close>, and its stack pointer when
  \<open>k\<close>. As long as memory holds what the prologue stored, unwinding returns the caller's stack
  pointer, its return address as the new pc, and every register the codes restore or the body
  left alone.
\<close>

theorem arm64_unwind_frame_correct:
  assumes "arm64_lookup_function_entry m (uc_pc u) = Some f"
    and "uc_pc u \<noteq> mod_addr m + ucast (fe_begin_rva f)" and "\<not> fe_packed f"
    and "parse_xdata (img m) (fe_unwind_data f) = Some h"
    and "find_epilog (img m) h (ucast (uc_pc u - mod_addr m) - fe_begin_rva f) (unat (code_words h * 4)) = None"
    and "list_all valid_op ps"
    and "\<forall>j < length (code_bytes (rev ps)). img m (codes_at h + of_nat j) = code_bytes (rev ps) ! j"
    and "length (code_bytes (rev ps)) \<le> unat (code_words h * 4)"
    and "did_all g ps c c'" and "full u" and "knows u (k, R) c'"
    and "track_all (rev ps) (k, R) = Some (True, R')" and "30 \<in> R'"
  shows "\<exists>u' res. arm64_unwind_frame g m u = Inr (reg c 30 \<noteq> 0, u', res) \<and> uc_pc u' = reg c 30 \<and>
    uc_sp u' = uc_sp c \<and> (\<forall>r \<in> R'. reg u' r = reg c r) \<and> establisher_frame res = uc_sp u"
proof -
  let ?n = "unat (code_words h * 4)" and ?codes = "\<lambda>i. img m (codes_at h + of_nat i)"
  obtain v where v: "undo_all g (rev ps) u = Inr v" "full v" "knows v (True, R') c"
    using undo_all_knows [OF assms(9,6,10,11,12)] by blast
  have "\<exists>r'. replay ?n g ?codes ?n 0 (new_replayer u) = Inr (True, r') \<and> ctx r' = v"
    by (rule replay_codes [of "rev ps"]) (use assms(6,7,8) v(1) in \<open>auto simp: new_replayer_def\<close>)
  then have run: "run_codes g ?codes ?n u = Inr (True, v)" by (auto simp: run_codes_def)
  have lr: "gp v ! 30 = reg c 30" using v(3) assms(13) by (auto simp: knows_def reg_def)
  let ?w = "v\<lparr>uc_pc := gp v ! 30\<rparr>"
  have "\<exists>res. arm64_unwind_frame g m u = return_to_lr res v \<and> establisher_frame res = uc_sp u"
    using assms(1-5) run by (auto simp: arm64_unwind_frame_def Let_def no_result_def)
  then obtain res where "arm64_unwind_frame g m u = return_to_lr res v" "establisher_frame res = uc_sp u" by blast
  then have "arm64_unwind_frame g m u = Inr (reg c 30 \<noteq> 0, ?w, res)"
    using lr by (simp add: return_to_lr_def reg_lr_def Let_def)
  moreover have "uc_sp ?w = uc_sp c" "\<forall>r \<in> R'. reg ?w r = reg c r"
    using v(3) by (auto simp: knows_def reg_def)
  ultimately show ?thesis using lr \<open>establisher_frame res = uc_sp u\<close> by (intro exI [of _ ?w] exI [of _ res]) simp
qed

text \<open>
  A function that saves fp and lr, sets fp and then moves the stack pointer by an amount no code
  describes: only fp leads back.
\<close>

definition demo_img :: "u32 \<Rightarrow> u8" where
  "demo_img rva =
     (if rva = 0x2000 then 0x10 else if rva = 0x2003 then 0x08
      else if rva = 0x2004 then 0xE1 else if rva = 0x2005 then 0x81 else if rva = 0x2006 then 0xE4
      else if rva = 0x2007 then 0xE3 else 0)"

definition demo_module :: "runtime_function_arm64 proc_module" where
  "demo_module = \<lparr>mod_addr = 0x140000000, mod_size = 0x10000, has_pe = True, exc_used = True, exc_va = 0x3000,
     funcs = [\<lparr>rf_begin = 0x1000, rf_unwind_data = 0x2000\<rparr>], img = demo_img\<rparr>"

definition demo_stack :: gmem where
  "demo_stack x =
     (if x = 0x8001 then Some 0x90 else if x = 0x8009 then Some 0x50 else if x = 0x800C then Some 1
      else if x = 0x800B then Some 0x40 else if 0x8000 \<le> x \<and> x < 0x8010 then Some 0 else None)"

definition demo_caller :: unwind_context where
  "demo_caller = \<lparr>uc_pc = 0, uc_sp = 0x8010, gp = (replicate 31 0)[29 := 0x9000, 30 := 0x140005000],
     fp_regs = replicate 8 0\<rparr>"

definition demo_body :: unwind_context where
  "demo_body = \<lparr>uc_pc = 0x140001008, uc_sp = 0x7000, gp = (replicate 31 7)[29 := 0x8000], fp_regs = replicate 8 0\<rparr>"

theorem arm64_unwind_frame_correct_witness:
  "\<exists>u' res. arm64_unwind_frame demo_stack demo_module demo_body = Inr (True, u', res) \<and>
     uc_pc u' = 0x140005000 \<and> uc_sp u' = 0x8010 \<and> reg u' 29 = 0x9000"
proof -
  let ?c = demo_caller
  let ?d = "?c\<lparr>uc_sp := 0x8000\<rparr>" and ?e = "?c\<lparr>uc_sp := 0x8000, gp := (gp ?c)[29 := 0x8000]\<rparr>"
  let ?h = "the (parse_xdata demo_img 0x2000)"
  have img: "img demo_module = demo_img" "mod_addr demo_module = 0x140000000" by (simp_all add: demo_module_def)
  have lk: "arm64_lookup_function_entry demo_module (uc_pc demo_body) =
      Some \<lparr>fe_begin_rva = 0x1000, fe_length = 0x40, fe_unwind_data = 0x2000, fe_packed = False\<rparr>" (is "_ = Some ?f")
    by code_simp
  have h: "parse_xdata (img demo_module) (fe_unwind_data ?f) = Some ?h" "code_words ?h = 1" "codes_at ?h = 0x2004"
    unfolding img by code_simp+
  have ep: "find_epilog (img demo_module) ?h (ucast (uc_pc demo_body - mod_addr demo_module) - fe_begin_rva ?f)
      (unat (code_words ?h * 4)) = None" by code_simp
  have did: "did_all demo_stack [Save_fplr_x 1, Set_fp] ?c ?e"
  proof -
    have "g_get 8 0x8000 demo_stack = Inr (0x9000 :: u64)" "g_get 8 0x8008 demo_stack = Inr (0x140005000 :: u64)"
      by code_simp+
    then have "did demo_stack (Save_fplr_x 1) ?c ?d" by (simp add: did_def demo_caller_def reg_def)
    moreover have "did demo_stack Set_fp ?d ?e" by (auto simp: did_def demo_caller_def reg_def nth_list_update)
    ultimately show ?thesis by auto
  qed
  have kn: "knows demo_body (False, {29}) ?e" by (simp add: knows_def demo_body_def demo_caller_def reg_def)
  have tr: "track_all (rev [Save_fplr_x 1, Set_fp]) (False, {29}) = Some (True, {29, 30})"
    by (auto simp: track_def)
  have bytes: "\<forall>j < length (code_bytes (rev [Save_fplr_x 1, Set_fp])).
      img demo_module (codes_at ?h + of_nat j) = code_bytes (rev [Save_fplr_x 1, Set_fp]) ! j"
    by (auto simp: img h(3) demo_img_def end_code_def less_Suc_eq numeral_3_eq_3)
  have regs: "reg ?c 30 = 0x140005000" "reg ?c 29 = 0x9000" "uc_sp ?c = 0x8010" by (simp_all add: reg_def demo_caller_def)
  show ?thesis
    using arm64_unwind_frame_correct [OF lk _ _ h(1) ep _ bytes _ did _ kn tr] regs
    by (auto simp: demo_body_def img full_def h(2))
qed

end
