(* ===== verification/Unwind_X64.thy ===== *)
theory Unwind_X64
  imports Unwind
begin

text \<open>
  \<open>kernel/win/unwind/x64_unwind.cpp\<close>: finding a function, undoing its prologue by its unwind
  codes and unwinding a frame. The structures of the exception directory belong to the vendored
  PE library: a function entry, an unwind info and an unwind code are records of the members the
  code reads, \<open>info_at\<close> is the info at a relative address, and \<open>slots\<close>, how many entries a code
  takes, is an argument.
\<close>

section \<open>Unwind data\<close>

record runtime_function_x64 =
  begin_rva :: u32
  end_rva :: u32
  unwind_info_rva :: u32

datatype opcode =
    push_nonvol | alloc_large | alloc_small | set_fpreg | save_nonvol | save_nonvol_far
  | save_xmm128 | save_xmm128_far | push_machframe | other_code

record unwind_code =
  c_offset :: u8
  c_code :: opcode
  c_info :: nat
  c_frame_offset :: u16

record unwind_info =
  size_of_prolog :: u8
  frame_register :: nat
  frame_offset :: u8
  code_count :: nat
  code_list :: "unwind_code list"
  chain_info :: bool
  has_handler :: bool
  chained_rva :: u32
  handler_rva :: u32
  after_rva :: u32

definition reg_rax :: nat where "reg_rax = 0"
definition reg_rsp :: nat where "reg_rsp = 4"

definition x64_lookup_function_entry :: "runtime_function_x64 proc_module \<Rightarrow> addr \<Rightarrow> runtime_function_x64 option" where
  "x64_lookup_function_entry m rip =
     (if \<not> has_pe m \<or> \<not> exc_used m then None
      else find_entry begin_rva end_rva (ucast (rip - mod_addr m)) (funcs m) 0 (length (funcs m)))"

fun entry_index :: "u32 \<Rightarrow> runtime_function_x64 list \<Rightarrow> nat \<Rightarrow> nat option" where
  "entry_index b [] i = None"
| "entry_index b (f # fs) i = (if begin_rva f = b then Some i else entry_index b fs (i + 1))"

definition function_entry_addr :: "u64 \<Rightarrow> runtime_function_x64 proc_module \<Rightarrow> runtime_function_x64 \<Rightarrow> addr" where
  "function_entry_addr rf_size m f =
     (if \<not> has_pe m \<or> \<not> exc_used m then 0
      else case entry_index (begin_rva f) (funcs m) 0 of
             Some i \<Rightarrow> mod_addr m + ucast (exc_va m) + of_nat i * rf_size
           | None \<Rightarrow> 0)"

section \<open>Unwind codes\<close>

text \<open>
  One code: the context after it, or the end of the frame at a machine frame. \<open>at1\<close> and \<open>at2\<close> read
  the entries that follow the code.
\<close>

datatype code_result = Went unwind_context | Machframe unwind_context

definition read_into :: "gmem \<Rightarrow> nat \<Rightarrow> addr \<Rightarrow> unwind_context \<Rightarrow> emu_error + unwind_context" where
  "read_into g r a c = bind_result (g_get 8 a g) (\<lambda>v. Inr (c\<lparr>gp := (gp c)[r := v]\<rparr>))"

definition far_offset :: "unwind_code \<Rightarrow> unwind_code \<Rightarrow> u64" where
  "far_offset lo hi = ucast (c_frame_offset lo) OR push_bit 16 (ucast (c_frame_offset hi))"

definition up_sp :: "u64 \<Rightarrow> unwind_context \<Rightarrow> unwind_context" where
  "up_sp n c = c\<lparr>uc_sp := uc_sp c + n\<rparr>"

definition went :: "emu_error + unwind_context \<Rightarrow> emu_error + code_result" where
  "went r = bind_result r (\<lambda>c. Inr (Went c))"

definition apply_code :: "gmem \<Rightarrow> unwind_code \<Rightarrow> emu_error + unwind_code \<Rightarrow> emu_error + unwind_code \<Rightarrow>
  unwind_context \<Rightarrow> emu_error + code_result" where
  "apply_code g code at1 at2 c =
     (let r = c_info code in
      case c_code code of
        push_nonvol \<Rightarrow> went (bind_result (read_into g r (uc_sp c) c) (\<lambda>c. Inr (up_sp 8 c)))
      | alloc_large \<Rightarrow>
          went (bind_result at1 (\<lambda>c1.
            if r = 0 then Inr (up_sp (ucast (c_frame_offset c1) * 8) c)
            else bind_result at2 (\<lambda>c2. Inr (up_sp (far_offset c1 c2) c))))
      | alloc_small \<Rightarrow> went (Inr (up_sp (of_nat r * 8 + 8) c))
      | save_nonvol \<Rightarrow> went (bind_result at1 (\<lambda>c1. read_into g r (uc_sp c + ucast (c_frame_offset c1) * 8) c))
      | save_nonvol_far \<Rightarrow>
          went (bind_result at1 (\<lambda>c1. bind_result at2 (\<lambda>c2. read_into g r (uc_sp c + far_offset c1 c2) c)))
      | push_machframe \<Rightarrow>
          (let c = (if r = 1 then up_sp 8 c else c) in
           bind_result (g_get 8 (uc_sp c) g) (\<lambda>pc.
           bind_result (g_get 8 (uc_sp c + 24) g) (\<lambda>sp.
             Inr (Machframe (c\<lparr>uc_pc := pc, uc_sp := sp, gp := (gp c)[reg_rsp := sp]\<rparr>)))))
      | _ \<Rightarrow> went (Inr c))"

text \<open>
  The loop over the codes. Reading past the list of codes the library hands out is an access
  outside it.
\<close>

fun run_unwind :: "(unwind_code \<Rightarrow> nat) \<Rightarrow> nat \<Rightarrow> gmem \<Rightarrow> bool \<Rightarrow> u32 \<Rightarrow> unwind_code list \<Rightarrow> nat \<Rightarrow> nat \<Rightarrow>
  unwind_context \<Rightarrow> emu_error + code_result" where
  "run_unwind slots 0 g in_prolog rva codes count i c =
     (if i < count then throw Does_not_return else Inr (Went c))"
| "run_unwind slots (Suc fuel) g in_prolog rva codes count i c =
     (if i < count then
        if length codes \<le> i then throw Out_of_bounds
        else
          let code = codes ! i; n = slots code;
              at = (\<lambda>j. if j < length codes then Inr (codes ! j) else throw Out_of_bounds) in
          if in_prolog \<and> rva < ucast (c_offset code) then
            run_unwind slots fuel g in_prolog rva codes count (i + n) c
          else
            bind_result (apply_code g code (at (i + 1)) (at (i + 2)) c) (\<lambda>r.
              case r of
                Machframe c \<Rightarrow> Inr (Machframe c)
              | Went c \<Rightarrow> run_unwind slots fuel g in_prolog rva codes count (i + n) c)
      else Inr (Went c))"

text \<open>The chain of unwind infos of a function; a chain that does not end uses up the fuel.\<close>

fun apply_unwind_info ::
  "(unwind_code \<Rightarrow> nat) \<Rightarrow> (u32 \<Rightarrow> unwind_info) \<Rightarrow> nat \<Rightarrow> gmem \<Rightarrow> addr \<Rightarrow> u32 \<Rightarrow> u32 \<Rightarrow> unwind_context \<Rightarrow>
   emu_error + unwind_context \<times> unwind_result" where
  "apply_unwind_info slots info_at 0 g base begin_at unwind_rva c = throw Does_not_return"
| "apply_unwind_info slots info_at (Suc fuel) g base begin_at unwind_rva c =
     (let info = info_at unwind_rva;
          rva = ucast (uc_pc c - base) - begin_at;
          in_prolog = (rva < ucast (size_of_prolog info));
          c = (if frame_register info \<noteq> reg_rax \<and> \<not> in_prolog
               then c\<lparr>uc_sp := gp c ! frame_register info - ucast (frame_offset info) * 16\<rparr> else c);
          result = no_result\<lparr>establisher_frame := uc_sp c\<rparr>
      in bind_result (run_unwind slots (code_count info) g in_prolog rva (code_list info) (code_count info) 0 c) (\<lambda>r.
           case r of
             Machframe c \<Rightarrow> Inr (c, result)
           | Went c \<Rightarrow>
               if chain_info info then apply_unwind_info slots info_at fuel g base begin_at (chained_rva info) c
               else
                 let result = (if has_handler info
                       then result\<lparr>ur_handler := base + ucast (handler_rva info),
                                   ur_handler_data := base + ucast (after_rva info + 4)\<rparr>
                       else result) in
                 bind_result (g_get 8 (uc_sp c) g) (\<lambda>pc.
                   let c = up_sp 8 (c\<lparr>uc_pc := pc\<rparr>) in
                   Inr (c\<lparr>gp := (gp c)[reg_rsp := uc_sp c]\<rparr>, result))))"

definition x64_unwind_frame ::
  "(unwind_code \<Rightarrow> nat) \<Rightarrow> (u32 \<Rightarrow> unwind_info) \<Rightarrow> u64 \<Rightarrow> nat \<Rightarrow> gmem \<Rightarrow> runtime_function_x64 proc_module \<Rightarrow>
   unwind_context \<Rightarrow> emu_error + bool \<times> unwind_context \<times> unwind_result" where
  "x64_unwind_frame slots info_at rf_size fuel g m c =
     (case x64_lookup_function_entry m (uc_pc c) of
        None \<Rightarrow>
          bind_result (g_get 8 (uc_sp c) g) (\<lambda>pc.
            Inr (pc \<noteq> 0, up_sp 8 (c\<lparr>uc_pc := pc\<rparr>), no_result\<lparr>establisher_frame := uc_sp c\<rparr>))
      | Some f \<Rightarrow>
          bind_result (apply_unwind_info slots info_at fuel g (mod_addr m) (begin_rva f) (unwind_info_rva f) c) (\<lambda>(c, result).
            Inr (True, c, result\<lparr>function_entry := function_entry_addr rf_size m f\<rparr>)))"

section \<open>Prologues\<close>

text \<open>
  The instructions of a prologue with the codes that describe them. The number of entries a code
  takes is documented with the format.
\<close>

datatype xprolog =
    Push nat | Alloc_sm nat | Alloc_lg nat | Alloc_far nat | Save_nv nat nat | Save_nv_far nat nat
  | Set_fpreg | Save_xmm nat nat

definition documented_slots :: "(unwind_code \<Rightarrow> nat) \<Rightarrow> bool" where
  "documented_slots slots \<longleftrightarrow>
     (\<forall>code. slots code =
        (case c_code code of
           alloc_large \<Rightarrow> if c_info code = 0 then 2 else 3
         | save_nonvol \<Rightarrow> 2 | save_xmm128 \<Rightarrow> 2 | save_nonvol_far \<Rightarrow> 3 | save_xmm128_far \<Rightarrow> 3
         | _ \<Rightarrow> 1))"

fun valid_xop :: "xprolog \<Rightarrow> bool" where
  "valid_xop (Push r) \<longleftrightarrow> r < 16"
| "valid_xop (Alloc_sm n) \<longleftrightarrow> n < 16"
| "valid_xop (Alloc_lg n) \<longleftrightarrow> n < 2 ^ 16"
| "valid_xop (Alloc_far n) \<longleftrightarrow> n < 2 ^ 32"
| "valid_xop (Save_nv r n) \<longleftrightarrow> r < 16 \<and> n < 2 ^ 16"
| "valid_xop (Save_nv_far r n) \<longleftrightarrow> r < 16 \<and> n < 2 ^ 32"
| "valid_xop Set_fpreg \<longleftrightarrow> True"
| "valid_xop (Save_xmm r n) \<longleftrightarrow> True"

definition slot :: "u8 \<Rightarrow> opcode \<Rightarrow> nat \<Rightarrow> unwind_code" where
  "slot off op r = \<lparr>c_offset = off, c_code = op, c_info = r, c_frame_offset = 0\<rparr>"

definition operand :: "nat \<Rightarrow> unwind_code" where
  "operand n = \<lparr>c_offset = 0, c_code = other_code, c_info = 0, c_frame_offset = of_nat n\<rparr>"

fun xcodes :: "u8 \<times> xprolog \<Rightarrow> unwind_code list" where
  "xcodes (off, Push r) = [slot off push_nonvol r]"
| "xcodes (off, Alloc_sm n) = [slot off alloc_small n]"
| "xcodes (off, Alloc_lg n) = [slot off alloc_large 0, operand n]"
| "xcodes (off, Alloc_far n) = [slot off alloc_large 1, operand (n mod 2 ^ 16), operand (n div 2 ^ 16)]"
| "xcodes (off, Save_nv r n) = [slot off save_nonvol r, operand n]"
| "xcodes (off, Save_nv_far r n) = [slot off save_nonvol_far r, operand (n mod 2 ^ 16), operand (n div 2 ^ 16)]"
| "xcodes (off, Set_fpreg) = [slot off set_fpreg 0]"
| "xcodes (off, Save_xmm r n) = [slot off save_xmm128 r, operand n]"

fun xdrop :: "xprolog \<Rightarrow> u64" where
  "xdrop (Push r) = 8"
| "xdrop (Alloc_sm n) = of_nat n * 8 + 8"
| "xdrop (Alloc_lg n) = of_nat n * 8"
| "xdrop (Alloc_far n) = of_nat n"
| "xdrop _ = 0"

fun xstore :: "xprolog \<Rightarrow> (nat \<times> u64) option" where
  "xstore (Push r) = Some (r, 0)"
| "xstore (Save_nv r n) = Some (r, of_nat n * 8)"
| "xstore (Save_nv_far r n) = Some (r, of_nat n)"
| "xstore _ = None"

text \<open>\<open>fr\<close> and \<open>fo\<close> are the frame register of the function and its offset.\<close>

definition xdid :: "gmem \<Rightarrow> nat \<Rightarrow> u64 \<Rightarrow> xprolog \<Rightarrow> unwind_context \<Rightarrow> unwind_context \<Rightarrow> bool" where
  "xdid g fr fo p c c' \<longleftrightarrow>
     uc_sp c' = uc_sp c - xdrop p \<and>
     (case xstore p of Some (r, off) \<Rightarrow> g_get 8 (uc_sp c' + off) g = Inr (gp c ! r) | None \<Rightarrow> True) \<and>
     (\<forall>r. gp c' ! r = (if p = Set_fpreg \<and> r = fr then uc_sp c + fo * 16 else gp c ! r))"

fun xdid_all :: "gmem \<Rightarrow> nat \<Rightarrow> u64 \<Rightarrow> xprolog list \<Rightarrow> unwind_context \<Rightarrow> unwind_context \<Rightarrow> bool" where
  "xdid_all g fr fo [] c c' \<longleftrightarrow> c' = c"
| "xdid_all g fr fo (p # ps) c c' \<longleftrightarrow> (\<exists>d. xdid g fr fo p c d \<and> xdid_all g fr fo ps d c')"

text \<open>The registers known to have the values they had, as codes are undone.\<close>

definition xtrack :: "nat \<Rightarrow> xprolog \<Rightarrow> nat set \<Rightarrow> nat set" where
  "xtrack fr p R =
     (case xstore p of Some (r, off) \<Rightarrow> insert r R | None \<Rightarrow> if p = Set_fpreg then R - {fr} else R)"

definition xundo :: "gmem \<Rightarrow> xprolog \<Rightarrow> unwind_context \<Rightarrow> emu_error + unwind_context" where
  "xundo g p c =
     bind_result (case xstore p of Some (r, off) \<Rightarrow> read_into g r (uc_sp c + off) c | None \<Rightarrow> Inr c) (\<lambda>c.
       Inr (up_sp (xdrop p) c))"

fun xundo_all :: "gmem \<Rightarrow> xprolog list \<Rightarrow> unwind_context \<Rightarrow> emu_error + unwind_context" where
  "xundo_all g [] c = Inr c"
| "xundo_all g (p # ps) c = bind_result (xundo g p c) (xundo_all g ps)"

section \<open>Undoing a prologue\<close>

lemma up_sp_0 [simp]: "up_sp 0 c = c"
  by (simp add: up_sp_def)

lemma operand_value: "n < 2 ^ 16 \<Longrightarrow> (ucast (c_frame_offset (operand n)) :: u64) = of_nat n"
proof -
  assume "n < 2 ^ 16"
  then have "unat (of_nat n :: u16) = n" by (simp add: unat_of_nat)
  then show ?thesis using of_nat_unat [of "of_nat n :: u16", where 'a = u64] by (simp add: operand_def)
qed

lemma far_value: "n < 4294967296 \<Longrightarrow> far_offset (operand (n mod 65536)) (operand (n div 65536)) = of_nat n"
proof -
  assume n: "n < 4294967296"
  have "n div 65536 < 2 ^ 16" "n mod 65536 < 2 ^ 16" using n by auto
  then have "far_offset (operand (n mod 65536)) (operand (n div 65536)) =
      of_nat (n mod 65536) OR push_bit 16 (of_nat (n div 65536))"
    by (simp only: far_offset_def operand_value)
  also have "\<dots> = of_nat (n div 65536 * 65536 + n mod 65536)"
    using or_split [of "n mod 65536" 16 "n div 65536", where 'a = 64] by (simp only: or.commute) simp
  finally show ?thesis by (simp only: div_mult_mod_eq)
qed

lemma apply_xcode:
  assumes "valid_xop p" and "xcodes (off, p) = code # rest"
    and "1 \<le> length rest \<Longrightarrow> at1 = Inr (rest ! 0)" and "2 \<le> length rest \<Longrightarrow> at2 = Inr (rest ! 1)"
  shows "apply_code g code at1 at2 c = went (xundo g p c)"
  using assms
  by (cases p) (auto simp: apply_code_def slot_def xundo_def operand_value far_value went_def split: sum.splits)

lemma xcodes_shape:
  assumes "documented_slots slots"
  shows "\<exists>code rest. xcodes (off, p) = code # rest \<and> c_offset code = off \<and> slots code = Suc (length rest)"
proof -
  have "slots (slot off op r) =
      (case op of alloc_large \<Rightarrow> if r = 0 then 2 else 3 | save_nonvol \<Rightarrow> 2 | save_xmm128 \<Rightarrow> 2
         | save_nonvol_far \<Rightarrow> 3 | save_xmm128_far \<Rightarrow> 3 | _ \<Rightarrow> 1)" for op r
    using assms by (simp add: documented_slots_def slot_def)
  then show ?thesis by (cases p) (simp_all, simp_all add: slot_def)
qed

definition executed :: "bool \<Rightarrow> u32 \<Rightarrow> (u8 \<times> xprolog) list \<Rightarrow> xprolog list" where
  "executed in_prolog rva qs = map snd (filter (\<lambda>(off, p). \<not> (in_prolog \<and> rva < ucast off)) qs)"

text \<open>The loop over the codes of a prologue undoes the instructions that were executed.\<close>

lemma run_xcodes:
  assumes "documented_slots slots" and "list_all (\<lambda>(off, p). valid_xop p) qs"
    and "codes = pre @ concat (map xcodes qs)" and "length codes - length pre \<le> fuel"
    and "xundo_all g (executed in_prolog rva qs) c = Inr c'"
  shows "run_unwind slots fuel g in_prolog rva codes (length codes) (length pre) c = Inr (Went c')"
  using assms(2-)
proof (induction qs arbitrary: pre fuel c)
  case Nil
  then show ?case by (cases fuel) (simp_all add: executed_def)
next
  case (Cons q qs)
  obtain off p where q: "q = (off, p)" by force
  obtain code rest where x: "xcodes q = code # rest" "c_offset code = off" "slots code = Suc (length rest)"
    using xcodes_shape [OF assms(1), of off p] q by auto
  let ?n = "length pre" and ?tl = "concat (map xcodes qs)"
  have codes: "codes = pre @ code # rest @ ?tl" using Cons.prems(2) x(1) by simp
  then obtain f where f: "fuel = Suc f" using Cons.prems(3) by (cases fuel) auto
  let ?pre = "pre @ code # rest"
  have next_pre: "length ?pre = ?n + slots code" using x(3) by simp
  have IH: "run_unwind slots f g in_prolog rva codes (length codes) (?n + slots code) d = Inr (Went c')"
    if "xundo_all g (executed in_prolog rva qs) d = Inr c'" for d
  proof -
    have "codes = ?pre @ ?tl" "length codes - length ?pre \<le> f" using Cons.prems(3) f codes by simp_all
    with Cons.IH [of ?pre f d] that Cons.prems(1) show ?thesis unfolding next_pre by simp
  qed
  let ?at = "\<lambda>j. if j < length codes then Inr (codes ! j) else throw Out_of_bounds"
  have at: "codes ! ?n = code" "?n < length codes" using codes by simp_all
  show ?case
  proof (cases "in_prolog \<and> rva < ucast off")
    case True
    then have "executed in_prolog rva (q # qs) = executed in_prolog rva qs" using q by (simp add: executed_def)
    then show ?thesis using IH [of c] Cons.prems(4) f at x(2) True by (simp add: Let_def)
  next
    case False
    then have "executed in_prolog rva (q # qs) = p # executed in_prolog rva qs" using q by (auto simp: executed_def)
    then obtain d where d: "xundo g p c = Inr d" "xundo_all g (executed in_prolog rva qs) d = Inr c'"
      using Cons.prems(4) by (auto split: sum.splits)
    have "apply_code g code (?at (?n + 1)) (?at (?n + 2)) c = went (xundo g p c)"
    proof (rule apply_xcode)
      show "xcodes (off, p) = code # rest" using x(1) q by simp
      show "?at (?n + 1) = Inr (rest ! 0)" if "1 \<le> length rest" using codes that by (auto simp: nth_append)
      show "?at (?n + 2) = Inr (rest ! 1)" if "2 \<le> length rest" using codes that by (auto simp: nth_append)
    qed (use Cons.prems(1) q in simp)
    then have "apply_code g code (?at (?n + 1)) (?at (?n + 2)) c = Inr (Went d)" using d(1) by (simp add: went_def)
    then show ?thesis using IH [OF d(2)] f at x(2) False by (auto simp: Let_def)
  qed
qed

definition xknows :: "unwind_context \<Rightarrow> nat set \<Rightarrow> unwind_context \<Rightarrow> bool" where
  "xknows u R c \<longleftrightarrow> uc_sp u = uc_sp c \<and> (\<forall>r \<in> R. gp u ! r = gp c ! r)"

lemma xundo_knows:
  assumes "xdid g fr fo p c c'" and "valid_xop p" and "16 \<le> length (gp u)" and "xknows u R c'"
  shows "\<exists>u'. xundo g p u = Inr u' \<and> length (gp u') = length (gp u) \<and> uc_pc u' = uc_pc u \<and>
    xknows u' (xtrack fr p R) c"
proof (cases "xstore p")
  case None
  then show ?thesis
    using assms(1,4) by (auto simp: xundo_def xdid_def xknows_def xtrack_def up_sp_def)
next
  case (Some ro)
  obtain r off where ro: "ro = (r, off)" by force
  have "r < 16" "p \<noteq> Set_fpreg" using assms(2) Some ro by (cases p; auto)+
  moreover have "g_get 8 (uc_sp u + off) g = Inr (gp c ! r)"
  proof -
    have "g_get 8 (uc_sp c' + off) g = Inr (gp c ! r)" using assms(1) Some ro by (auto simp: xdid_def)
    then show ?thesis using assms(4) by (simp add: xknows_def)
  qed
  ultimately show ?thesis
    using assms(1,3,4) Some ro
    by (auto simp: xundo_def xdid_def xknows_def xtrack_def up_sp_def read_into_def nth_list_update)
qed

fun xtrack_all :: "nat \<Rightarrow> xprolog list \<Rightarrow> nat set \<Rightarrow> nat set" where
  "xtrack_all fr [] R = R"
| "xtrack_all fr (p # ps) R = xtrack_all fr ps (xtrack fr p R)"

lemma xtrack_append: "xtrack_all fr (ps @ qs) R = xtrack_all fr qs (xtrack_all fr ps R)"
  by (induction ps arbitrary: R) auto

lemma xundo_append: "xundo_all g (ps @ qs) u = bind_result (xundo_all g ps u) (xundo_all g qs)"
  by (induction ps arbitrary: u) (auto split: sum.split)

lemma xundo_all_knows:
  assumes "xdid_all g fr fo ps c c'" and "list_all valid_xop ps" and "16 \<le> length (gp u)" and "xknows u R c'"
  shows "\<exists>u'. xundo_all g (rev ps) u = Inr u' \<and> length (gp u') = length (gp u) \<and> uc_pc u' = uc_pc u \<and>
    xknows u' (xtrack_all fr (rev ps) R) c"
  using assms
proof (induction ps arbitrary: c)
  case (Cons p ps)
  obtain d where d: "xdid g fr fo p c d" "xdid_all g fr fo ps d c'" using Cons.prems(1) by auto
  from Cons.IH [OF d(2) _ Cons.prems(3,4)] Cons.prems(2) obtain v where v:
    "xundo_all g (rev ps) u = Inr v" "length (gp v) = length (gp u)" "uc_pc v = uc_pc u"
    "xknows v (xtrack_all fr (rev ps) R) d" by auto
  from xundo_knows [OF d(1) _ _ v(4)] Cons.prems(2,3) v(2) obtain w where
    "xundo g p v = Inr w" "length (gp w) = length (gp v)" "uc_pc w = uc_pc v"
    "xknows w (xtrack fr p (xtrack_all fr (rev ps) R)) c" by auto
  with v show ?case by (simp add: xundo_append xtrack_append)
qed simp

lemma executed_rev: "executed in_prolog rva (rev qs) = rev (executed in_prolog rva qs)"
  by (simp add: executed_def rev_map rev_filter)

lemma executed_valid:
  "list_all (\<lambda>(off, p). valid_xop p) qs \<Longrightarrow> list_all valid_xop (executed in_prolog rva qs)"
  by (auto simp: executed_def list_all_iff)

section \<open>Properties\<close>

text \<open>
  C12: Unwinding a frame of an x64 function. \<open>qs\<close> is the prologue with the code offsets of its
  instructions and the image holds its codes; the instructions executed before the pc took the
  caller's state \<open>c\<close>, at whose stack pointer the return address lies, to \<open>c'\<close>, and \<open>u\<close> is a later
  state that still has the registers \<open>R\<close> of \<open>c'\<close>. When the stack pointer of \<open>c'\<close> is what \<open>u\<close> has or,
  past the prologue of a function with a frame register, what that register leads to, unwinding
  returns to the return address with the stack pointer above it, and gives back every register
  the codes restore or the body left alone.
\<close>

theorem x64_unwind_frame_correct:
  assumes "x64_lookup_function_entry m (uc_pc u) = Some f" and "documented_slots slots"
    and "info_at (unwind_info_rva f) = info" and "\<not> chain_info info"
    and "list_all (\<lambda>(off, p). valid_xop p) qs"
    and "code_list info = concat (map xcodes (rev qs))" and "code_count info = length (code_list info)"
    and "rva = ucast (uc_pc u - mod_addr m) - begin_rva f" and "pr \<longleftrightarrow> rva < ucast (size_of_prolog info)"
    and "xdid_all g (frame_register info) (ucast (frame_offset info)) (executed pr rva qs) c c'"
    and "uc_sp c' = (if frame_register info \<noteq> reg_rax \<and> \<not> pr
           then gp u ! frame_register info - ucast (frame_offset info) * 16 else uc_sp u)"
    and "\<forall>r \<in> R. gp u ! r = gp c' ! r" and "16 \<le> length (gp u)" and "g_get 8 (uc_sp c) g = Inr ret"
  shows "\<exists>u' res. x64_unwind_frame slots info_at rf_size (Suc fuel) g m u = Inr (True, u', res) \<and>
    uc_pc u' = ret \<and> uc_sp u' = uc_sp c + 8 \<and> gp u' ! reg_rsp = uc_sp c + 8 \<and>
    (\<forall>r \<in> xtrack_all (frame_register info) (rev (executed pr rva qs)) R - {reg_rsp}. gp u' ! r = gp c ! r) \<and>
    establisher_frame res = uc_sp c'"
proof -
  let ?u = "u\<lparr>uc_sp := uc_sp c'\<rparr>" and ?ps = "executed pr rva qs"
  have at: "(if frame_register info \<noteq> reg_rax \<and> \<not> pr
      then u\<lparr>uc_sp := gp u ! frame_register info - ucast (frame_offset info) * 16\<rparr> else u) = ?u"
    using assms(11) by simp
  have "xknows ?u R c'" using assms(12) by (simp add: xknows_def)
  from xundo_all_knows [OF assms(10) executed_valid [OF assms(5)] _ this] assms(13) obtain v where
    v: "xundo_all g (rev ?ps) ?u = Inr v" "length (gp v) = length (gp u)"
    "xknows v (xtrack_all (frame_register info) (rev ?ps) R) c" by auto
  have run: "run_unwind slots (code_count info) g pr rva (code_list info) (code_count info) 0 ?u = Inr (Went v)"
    using run_xcodes [OF assms(2), of "rev qs" "code_list info" "[]" "code_count info" g pr rva ?u v]
      assms(5,6,7) v(1) by (simp add: executed_rev)
  let ?w = "v\<lparr>uc_pc := ret, uc_sp := uc_sp c + 8, gp := (gp v)[reg_rsp := uc_sp c + 8]\<rparr>"
  have "\<exists>res. apply_unwind_info slots info_at (Suc fuel) g (mod_addr m) (begin_rva f) (unwind_info_rva f) u =
      Inr (?w, res) \<and> establisher_frame res = uc_sp c'"
    using assms(3,4,14) v(3) run
    by (simp add: Let_def assms(8,9) [symmetric] at up_sp_def xknows_def no_result_def)
  moreover have "uc_pc ?w = ret" "uc_sp ?w = uc_sp c + 8" "gp ?w ! reg_rsp = uc_sp c + 8"
    using assms(13) v(2) by (simp_all add: reg_rsp_def)
  moreover have "\<forall>r \<in> xtrack_all (frame_register info) (rev ?ps) R - {reg_rsp}. gp ?w ! r = gp c ! r"
    using v(3) by (auto simp: xknows_def)
  ultimately show ?thesis using assms(1) by (fastforce simp: x64_unwind_frame_def)
qed

text \<open>
  A function that pushes rbp, allocates 32 bytes and points rbp above them, in a body that has
  moved the stack pointer on: rbp leads back.
\<close>

definition demo_slots :: "unwind_code \<Rightarrow> nat" where
  "demo_slots code =
     (case c_code code of
        alloc_large \<Rightarrow> if c_info code = 0 then 2 else 3
      | save_nonvol \<Rightarrow> 2 | save_xmm128 \<Rightarrow> 2 | save_nonvol_far \<Rightarrow> 3 | save_xmm128_far \<Rightarrow> 3
      | _ \<Rightarrow> 1)"

definition demo_prologue :: "(u8 \<times> xprolog) list" where
  "demo_prologue = [(1, Push 5), (5, Alloc_sm 3), (10, Set_fpreg)]"

definition demo_info :: "(u8 \<times> xprolog) list \<Rightarrow> u8 \<Rightarrow> unwind_info" where
  "demo_info qs fo = \<lparr>size_of_prolog = 10, frame_register = 5, frame_offset = fo,
     code_count = length (concat (map xcodes (rev qs))), code_list = concat (map xcodes (rev qs)),
     chain_info = False, has_handler = False, chained_rva = 0, handler_rva = 0, after_rva = 0\<rparr>"

definition demo_module_x64 :: "runtime_function_x64 proc_module" where
  "demo_module_x64 = \<lparr>mod_addr = 0x140000000, mod_size = 0x10000, has_pe = True, exc_used = True, exc_va = 0x3000,
     funcs = [\<lparr>begin_rva = 0x1000, end_rva = 0x1100, unwind_info_rva = 0x2000\<rparr>], img = (\<lambda>_. 0)\<rparr>"

definition demo_stack_x64 :: gmem where
  "demo_stack_x64 x =
     (if x = 0x8FF9 then Some 0x95 else if x = 0x9001 then Some 0x50 else if x = 0x9003 then Some 0x40
      else if x = 0x9004 then Some 1 else if 0x8FF0 \<le> x \<and> x < 0x9100 then Some 0 else None)"

definition demo_caller_x64 :: unwind_context where
  "demo_caller_x64 = \<lparr>uc_pc = 0, uc_sp = 0x9000, gp = (replicate 31 0)[5 := 0x9500], fp_regs = []\<rparr>"

definition demo_body_x64 :: "u64 \<Rightarrow> unwind_context" where
  "demo_body_x64 rbp = \<lparr>uc_pc = 0x140001080, uc_sp = 0x7000, gp = (replicate 31 7)[5 := rbp], fp_regs = []\<rparr>"

lemma demo_slots_documented: "documented_slots demo_slots"
  by (auto simp: documented_slots_def demo_slots_def split: opcode.split)

lemma demo_stack_at: "g_get 8 0x8FF8 demo_stack_x64 = Inr (0x9500 :: u64)"
  "g_get 8 0x9000 demo_stack_x64 = Inr (0x140005000 :: u64)"
  by code_simp+

theorem x64_unwind_frame_correct_witness:
  "\<exists>u' res. x64_unwind_frame demo_slots (\<lambda>_. demo_info demo_prologue 2) 12 1 demo_stack_x64 demo_module_x64
       (demo_body_x64 0x8FF8) = Inr (True, u', res) \<and>
     uc_pc u' = 0x140005000 \<and> uc_sp u' = 0x9008 \<and> gp u' ! 5 = 0x9500"
proof -
  let ?c = demo_caller_x64 and ?i = "demo_info demo_prologue 2" and ?u = "demo_body_x64 0x8FF8"
  let ?d = "?c\<lparr>uc_sp := 0x8FF8\<rparr>" and ?e = "?c\<lparr>uc_sp := 0x8FD8\<rparr>"
  let ?c' = "?c\<lparr>uc_sp := 0x8FD8, gp := (gp ?c)[5 := 0x8FF8]\<rparr>"
  have lk: "x64_lookup_function_entry demo_module_x64 (uc_pc ?u) =
      Some \<lparr>begin_rva = 0x1000, end_rva = 0x1100, unwind_info_rva = 0x2000\<rparr>" (is "_ = Some ?f")
    by code_simp
  have ex: "executed False 0x80 demo_prologue = [Push 5, Alloc_sm 3, Set_fpreg]"
    by (simp add: executed_def demo_prologue_def)
  have "xdid demo_stack_x64 5 2 (Push 5) ?c ?d" "xdid demo_stack_x64 5 2 (Alloc_sm 3) ?d ?e"
    "xdid demo_stack_x64 5 2 Set_fpreg ?e ?c'"
    using demo_stack_at(1) by (auto simp: xdid_def demo_caller_x64_def nth_list_update)
  then have did: "xdid_all demo_stack_x64 (frame_register ?i) (ucast (frame_offset ?i)) (executed False 0x80 demo_prologue) ?c ?c'"
    unfolding ex by (auto simp: demo_info_def)
  have tr: "5 \<in> xtrack_all (frame_register ?i) (rev (executed False 0x80 demo_prologue)) {5} - {reg_rsp}"
    unfolding ex by (simp add: xtrack_def demo_info_def reg_rsp_def)
  have ok: "list_all (\<lambda>(off, p). valid_xop p) demo_prologue" "code_list ?i = concat (map xcodes (rev demo_prologue))"
    "code_count ?i = length (code_list ?i)" "\<not> chain_info ?i"
    by (simp_all add: demo_prologue_def demo_info_def)
  have rva: "0x80 = ucast (uc_pc ?u - mod_addr demo_module_x64) - begin_rva ?f"
    "False \<longleftrightarrow> (0x80 :: u32) < ucast (size_of_prolog ?i)"
    by (simp_all add: demo_body_x64_def demo_module_x64_def demo_info_def)
  have sp: "uc_sp ?c' = (if frame_register ?i \<noteq> reg_rax \<and> \<not> False
      then gp ?u ! frame_register ?i - ucast (frame_offset ?i) * 16 else uc_sp ?u)"
    by (simp add: demo_info_def demo_body_x64_def demo_caller_x64_def reg_rax_def)
  have rest: "\<forall>r \<in> {5}. gp ?u ! r = gp ?c' ! r" "16 \<le> length (gp ?u)"
    "g_get 8 (uc_sp ?c) demo_stack_x64 = Inr (0x140005000 :: u64)" "uc_sp ?c = 0x9000" "gp ?c ! 5 = 0x9500"
    using demo_stack_at(2) by (simp_all add: demo_body_x64_def demo_caller_x64_def)
  show ?thesis
    using x64_unwind_frame_correct [where info_at = "\<lambda>_. ?i" and rf_size = 12 and fuel = 0,
        OF lk demo_slots_documented refl ok(4,1,2,3) rva did sp rest(1,2,3)] tr rest(4,5) by auto
qed

text \<open>
  The condition on the frame register cannot be dropped. When the prologue sets the register
  before it allocates, as \<open>push rbp; mov rbp, rsp; sub rsp, 32\<close>, the register leads to the stack
  pointer before the allocation. The documented unwinder goes back to that stack pointer when it
  meets the \<open>set_fpreg\<close> code; this one starts from it and then undoes the allocation on top.
\<close>

lemma alloc_after_fpreg:
  "x64_unwind_frame demo_slots (\<lambda>_. demo_info [(1, Push 5), (4, Set_fpreg), (8, Alloc_sm 3)] 0) 12 1
     demo_stack_x64 demo_module_x64 (demo_body_x64 0x8FF8) =
   Inr (True, \<lparr>uc_pc = 0, uc_sp = 0x9028, gp = (replicate 31 7)[4 := 0x9028, 5 := 0], fp_regs = []\<rparr>,
     no_result\<lparr>establisher_frame := 0x8FF8, function_entry := 0x140003000\<rparr>)"
  by code_simp

end
