(* ===== verification/Guest_Struct.thy ===== *)
theory Guest_Struct
  imports Guest_Mem
begin

text \<open>
  A structure in guest memory as its bytes, and what a sequence of calls on it promises.
  \<open>emu_object<T>::field\<close> reads and writes one member at a time; \<open>struct_at\<close> turns a chain of such
  accesses into updates of one byte list. The locale \<open>simulation\<close> is the contract between the
  calls that work on guest memory and the state machine they implement.
\<close>

section \<open>Structures\<close>

lemma le_dec_zeros [simp]: "le_dec (replicate n 0) = 0"
  by (induction n) simp_all

definition struct_at :: "addr \<Rightarrow> u8 list \<Rightarrow> gmem \<Rightarrow> bool" where
  "struct_at a bs g \<longleftrightarrow> length bs < 2 ^ 64 \<and> g_read (length bs) a g = Inr bs"

definition g_set :: "addr \<Rightarrow> u8 list \<Rightarrow> gmem \<Rightarrow> gmem" where
  "g_set a bs g = (\<lambda>x. if unat (x - a) < length bs then Some (bs ! unat (x - a)) else g x)"

lemma g_read_at: "g_read n a g = Inr bs \<Longrightarrow> i < n \<Longrightarrow> g (a + of_nat i) = Some (bs ! i)"
proof (induction n arbitrary: a bs i)
  case (Suc n)
  then obtain b cs where b: "g a = Some b" "g_read n (a + 1) g = Inr cs" "bs = b # cs"
    by (auto split: option.splits sum.splits)
  show ?case
  proof (cases i)
    case (Suc j)
    then show ?thesis using Suc.IH [OF b(2), of j] Suc.prems(2) b(3) by (simp add: add.assoc)
  qed (use b in simp)
qed simp

lemma g_read_eqI:
  "length bs = n \<Longrightarrow> (\<And>i. i < n \<Longrightarrow> g (a + of_nat i) = Some (bs ! i)) \<Longrightarrow> g_read n a g = Inr bs"
proof (induction n arbitrary: a bs)
  case (Suc n)
  then obtain b cs where bs: "bs = b # cs" by (cases bs) auto
  have "g_read n (a + 1) g = Inr cs"
  proof (rule Suc.IH)
    fix i assume "i < n"
    then show "g (a + 1 + of_nat i) = Some (cs ! i)" using Suc.prems(2) [of "Suc i"] bs by (simp add: add.assoc)
  qed (use Suc.prems(1) bs in simp)
  then show ?case using Suc.prems(2) [of 0] bs by simp
qed simp

lemma struct_at_iff:
  "struct_at a bs g \<longleftrightarrow> length bs < 2 ^ 64 \<and> (\<forall>i < length bs. g (a + of_nat i) = Some (bs ! i))"
  using g_read_at [of "length bs" a g bs] g_read_eqI [of bs "length bs" g a] by (auto simp: struct_at_def)

lemma struct_at_set [simp]: "struct_at a bs (g_set a bs g) \<longleftrightarrow> length bs < 2 ^ 64"
  by (auto simp: struct_at_iff g_set_def unat_of_nat64)

lemma g_set_set [simp]: "length bs = length cs \<Longrightarrow> g_set a bs (g_set a cs g) = g_set a bs g"
  by (rule ext) (simp add: g_set_def)

lemma g_set_same: "struct_at a bs g \<Longrightarrow> g_set a bs g = g"
proof (rule ext)
  fix x assume "struct_at a bs g"
  then show "g_set a bs g x = g x"
    using struct_at_iff [of a bs g] by (auto simp: g_set_def dest!: spec [of _ "unat (x - a)"])
qed

lemma g_set_other: "x \<notin> span a (length bs) \<Longrightarrow> length bs < 2 ^ 64 \<Longrightarrow> g_set a bs g x = g x"
  by (simp add: g_set_def span_iff)

lemma struct_mapped: "struct_at a bs g \<Longrightarrow> g_mapped g a (length bs)"
  using g_read_mapped by (auto simp: struct_at_def)

lemma struct_at_apart:
  assumes "span a (length bs) \<inter> span b (length cs) = {}" and "length bs < 2 ^ 64"
  shows "struct_at b cs (g_set a bs g) = struct_at b cs g"
proof -
  have "g_read (length cs) b (g_set a bs g) = g_read (length cs) b g"
    by (rule g_read_cong) (use assms g_set_other in blast)
  then show ?thesis by (simp add: struct_at_def)
qed

lemma struct_at_unique: "struct_at a bs g \<Longrightarrow> struct_at a cs g \<Longrightarrow> length bs = length cs \<Longrightarrow> bs = cs"
  by (simp add: struct_at_def)

text \<open>Reading and writing a member.\<close>

lemma struct_get:
  assumes "struct_at a bs g" and "unat off + n \<le> length bs"
  shows "g_get n (a + off) g = Inr (field_get (unat off) n bs)"
  using g_get_field [of "length bs" a g bs "unat off" n] assms by (simp add: struct_at_def)

lemma nth_field_put:
  assumes "off + n \<le> length bs" and "i < length bs"
  shows "field_put off n w bs ! i = (if off \<le> i \<and> i < off + n then le_enc n w ! (i - off) else bs ! i)"
  using assms by (auto simp: field_put_def nth_append min_def)

lemma unat_minus_offset:
  "unat (off :: addr) \<le> unat (x - a) \<Longrightarrow> unat (x - (a + off)) = unat (x - a) - unat off"
  "unat (x - a) < unat off \<Longrightarrow> unat off + n < 2 ^ 64 \<Longrightarrow> n \<le> unat (x - (a + off))"
proof -
  have e: "x - (a + off) = (x - a) - off" by simp
  show "unat off \<le> unat (x - a) \<Longrightarrow> unat (x - (a + off)) = unat (x - a) - unat off"
    unfolding e by (simp add: unat_sub word_le_nat_alt)
  assume "unat (x - a) < unat off" "unat off + n < 2 ^ 64"
  then show "n \<le> unat (x - (a + off))" unfolding e by (simp add: unat_sub_if')
qed

lemma struct_put:
  assumes "struct_at a bs g" and fits: "unat off + n \<le> length bs"
  shows "g_put n (a + off) v g = Inr (g_set a (field_put (unat off) n v bs) g)"
proof -
  have len: "length bs < 2 ^ 64" using assms(1) by (simp add: struct_at_def)
  have "g_mapped g (a + off) n"
    using struct_mapped [OF assms(1)] span_offset [of "unat off" n "length bs" a] fits by (auto simp: g_mapped_def)
  then obtain g' where g': "g_put n (a + off) v g = Inr g'" using g_put_total by blast
  have at: "g' (a + off + of_nat j) = Some (le_enc n v ! j)" if "j < n" for j
    using g_read_at [OF g_read_write_same [of "a + off" "le_enc n v" g g'], of j] g' that fits len by (simp add: g_put_def)
  have "g' x = g_set a (field_put (unat off) n v bs) g x" for x
  proof -
    let ?i = "unat (x - a)"
    have old: "g x = Some (bs ! ?i)" if "?i < length bs"
      using assms(1) that by (auto simp: struct_at_iff dest!: spec [of _ ?i])
    consider "unat off \<le> ?i" "?i < unat off + n" | "?i < unat off \<or> unat off + n \<le> ?i" by linarith
    then show ?thesis
    proof cases
      case 1
      then have "x = a + off + of_nat (?i - unat off)" by (simp add: unat_minus_offset(1) [symmetric])
      then have "g' x = Some (le_enc n v ! (?i - unat off))" using at [of "?i - unat off"] 1 by simp
      then show ?thesis using 1 fits by (simp add: g_set_def nth_field_put)
    next
      case 2
      then have "\<not> unat (x - (a + off)) < n"
        using unat_minus_offset(1) [of off x a] unat_minus_offset(2) [of x a off n] fits len by force
      then have "x \<notin> span (a + off) n" using span_iff [of n x "a + off"] fits len by simp
      then have "g' x = g x" using g_put_other [OF g'] by blast
      then show ?thesis using 2 fits old by (auto simp: g_set_def nth_field_put)
    qed
  qed
  then show ?thesis using g' by (auto simp: fun_eq_iff)
qed

text \<open>Several members written at once.\<close>

lemma g_write_append:
  "g_write a (xs @ ys) g = bind_result (g_write a xs g) (g_write (a + of_nat (length xs)) ys)"
proof (induction xs arbitrary: a g)
  case (Cons x xs)
  have "a + of_nat (length (x # xs)) = a + 1 + of_nat (length xs)" by (simp add: add.assoc)
  with Cons.IH [of "a + 1" "g(a \<mapsto> x)"] show ?case by (simp only: append_Cons g_write.simps) simp
qed simp

lemma le_enc_zero: "le_enc n 0 = replicate n 0"
  by (induction n) simp_all

text \<open>A structure that was written.\<close>

lemma struct_get_set:
  "unat off + n \<le> length bs \<Longrightarrow> length bs < 2 ^ 64 \<Longrightarrow> g_get n (a + off) (g_set a bs g) = Inr (field_get (unat off) n bs)"
  by (simp add: struct_get)

lemma struct_put_set:
  "unat off + n \<le> length bs \<Longrightarrow> length bs < 2 ^ 64 \<Longrightarrow>
   g_put n (a + off) v (g_set a bs g) = Inr (g_set a (field_put (unat off) n v bs) g)"
  using struct_put [of a bs "g_set a bs g" off n v] by simp

lemma struct_write_prefix:
  assumes "struct_at a bs g" and "length cs \<le> length bs"
  shows "g_write a cs g = Inr (g_set a (cs @ drop (length cs) bs) g)"
proof -
  have len: "length bs < 2 ^ 64" using assms(1) by (simp add: struct_at_def)
  have "g_mapped g a (length cs)"
    using struct_mapped [OF assms(1)] span_mono [OF assms(2), of a] by (auto simp: g_mapped_def)
  then obtain g' where g': "g_write a cs g = Inr g'" using g_write_total by blast
  have "g' x = g_set a (cs @ drop (length cs) bs) g x" for x
  proof (cases "unat (x - a) < length cs")
    case True
    then have "g' x = Some (cs ! unat (x - a))"
      using g_read_at [OF g_read_write_same [OF g'], of "unat (x - a)"] assms(2) len by simp
    then show ?thesis using True assms(2) by (simp add: g_set_def nth_append)
  next
    case False
    then have "g' x = g x" using g_write_other [OF g'] span_iff [of "length cs" x a] assms(2) len by simp
    then show ?thesis
      using False assms by (auto simp: g_set_def nth_append struct_at_iff dest!: spec [of _ "unat (x - a)"])
  qed
  then show ?thesis using g' by (auto simp: fun_eq_iff)
qed

lemma field_get_put_full:
  "off + n \<le> length bs \<Longrightarrow> LENGTH('a) \<le> 8 * n \<Longrightarrow> field_get off n (field_put off n (w :: 'a::len word) bs) = w"
  by (simp add: field_get_put_same take_bit_word_eq_self)

lemmas struct_get_0 = struct_get [where off = 0, simplified]
lemmas struct_put_0 = struct_put [where off = 0, simplified]

lemma struct_write: "struct_at a bs g \<Longrightarrow> length cs = length bs \<Longrightarrow> g_write a cs g = Inr (g_set a cs g)"
proof -
  assume a: "struct_at a bs g" "length cs = length bs"
  then obtain g' where g': "g_write a cs g = Inr g'" using g_write_total [of g a cs] struct_mapped by fastforce
  have "struct_at a cs g'" using g_read_write_same [OF g'] a by (simp add: struct_at_def)
  moreover have "g_set a cs g' = g_set a cs g"
    using g_write_other [OF g'] a by (auto simp: g_set_def span_iff struct_at_def fun_eq_iff)
  ultimately show ?thesis using g' g_set_same by metis
qed

lemmas struct_simps = struct_get struct_put struct_get_0 struct_put_0 struct_get_set struct_put_set
  struct_get_set [where off = 0, simplified] struct_put_set [where off = 0, simplified]
  field_get_put_full field_get_put_other

section \<open>Sequences of calls\<close>

fun calls :: "('op \<Rightarrow> 's \<Rightarrow> emu_error + 'r \<times> 's) \<Rightarrow> 'op list \<Rightarrow> 's \<Rightarrow> emu_error + 'r list \<times> 's" where
  "calls step [] s = Inr ([], s)"
| "calls step (p # ps) s =
     bind_result (step p s) (\<lambda>(r, s). bind_result (calls step ps s) (\<lambda>(rs, s). Inr (r # rs, s)))"

fun outcome :: "('op \<Rightarrow> 'a \<Rightarrow> 'r \<times> 'a) \<Rightarrow> 'op list \<Rightarrow> 'a \<Rightarrow> 'r list \<times> 'a" where
  "outcome spec [] a = ([], a)"
| "outcome spec (p # ps) a =
     (case spec p a of (r, a) \<Rightarrow> case outcome spec ps a of (rs, a) \<Rightarrow> (r # rs, a))"

fun admitted :: "('op \<Rightarrow> 'a \<Rightarrow> 'r \<times> 'a) \<Rightarrow> ('op \<Rightarrow> 'a \<Rightarrow> bool) \<Rightarrow> 'op list \<Rightarrow> 'a \<Rightarrow> bool" where
  "admitted spec ok [] a \<longleftrightarrow> True"
| "admitted spec ok (p # ps) a \<longleftrightarrow> ok p a \<and> admitted spec ok ps (snd (spec p a))"

text \<open>
  \<open>shows_as\<close> relates what is in memory to a state of the specification; \<open>ok\<close> says in which states
  a call is within the contract; \<open>keeps\<close> bounds what a call may change.
\<close>

locale simulation =
  fixes step :: "'op \<Rightarrow> 's \<Rightarrow> emu_error + 'r \<times> 's"
    and spec :: "'op \<Rightarrow> 'a \<Rightarrow> 'r \<times> 'a"
    and shows_as :: "'a \<Rightarrow> 's \<Rightarrow> bool"
    and ok :: "'op \<Rightarrow> 'a \<Rightarrow> bool"
    and keeps :: "'s \<Rightarrow> 's \<Rightarrow> bool"
  assumes simulate: "shows_as a s \<Longrightarrow> ok p a \<Longrightarrow>
      \<exists>s'. step p s = Inr (fst (spec p a), s') \<and> shows_as (snd (spec p a)) s' \<and> keeps s s'"
    and keeps_refl: "keeps s s"
    and keeps_trans: "keeps s s' \<Longrightarrow> keeps s' s'' \<Longrightarrow> keeps s s''"
begin

lemma simulate_calls:
  "shows_as a s \<Longrightarrow> admitted spec ok ps a \<Longrightarrow>
   \<exists>s'. calls step ps s = Inr (fst (outcome spec ps a), s') \<and> shows_as (snd (outcome spec ps a)) s' \<and> keeps s s'"
proof (induction ps arbitrary: a s)
  case Nil
  then show ?case using keeps_refl by simp
next
  case (Cons p ps)
  obtain r b where spec: "spec p a = (r, b)" by force
  from simulate [OF Cons.prems(1), of p] Cons.prems(2) spec obtain t where
    t: "step p s = Inr (r, t)" "shows_as b t" "keeps s t" by auto
  from Cons.IH [OF t(2)] Cons.prems(2) spec obtain u where
    u: "calls step ps t = Inr (fst (outcome spec ps b), u)" "shows_as (snd (outcome spec ps b)) u" "keeps t u" by auto
  then show ?case using t spec keeps_trans [OF t(3) u(3)] by (auto split: prod.split)
qed

end

text \<open>Memory outside a range.\<close>

definition apart :: "addr \<Rightarrow> nat \<Rightarrow> gmem \<Rightarrow> gmem \<Rightarrow> bool" where
  "apart a n g g' \<longleftrightarrow> (\<forall>x. x \<notin> span a n \<longrightarrow> g' x = g x)"

lemma apart_refl [simp]: "apart a n g g"
  by (simp add: apart_def)

lemma apart_trans: "apart a n g g' \<Longrightarrow> apart a n g' g'' \<Longrightarrow> apart a n g g''"
  by (simp add: apart_def)

lemma apart_set [simp]: "length bs = n \<Longrightarrow> n < 2 ^ 64 \<Longrightarrow> apart a n g (g_set a bs g)"
  by (simp add: apart_def g_set_other)

end
