(* ===== verification/Guest_Locks.thy ===== *)
theory Guest_Locks
  imports Guest_Struct Nt_Defs
begin

text \<open>
  The locks of \<open>kernel/win/modules/nt_lock_ops.cpp\<close> and \<open>kernel/win/rundown.hpp\<close>: push locks,
  executive resources, rundown protection. Every lock is a structure in guest memory; a null
  pointer is zero. The flags of a push lock call and whether an acquire may wait only select the
  log line. The thread a call runs on is the address of its ETHREAD, zero without one.
\<close>

section \<open>Push locks\<close>

definition push_lock_locked :: u64 where "push_lock_locked = 0x1"
definition push_lock_waiting :: u64 where "push_lock_waiting = 0x2"
definition push_lock_multiple_shared :: u64 where "push_lock_multiple_shared = 0x8"
definition push_lock_share_increment :: u64 where "push_lock_share_increment = 0x10"
definition push_lock_state_mask :: u64 where "push_lock_state_mask = 0xF"

lemmas push_lock_defs = push_lock_locked_def push_lock_waiting_def push_lock_multiple_shared_def
  push_lock_share_increment_def push_lock_state_mask_def

definition take_push_lock :: "addr \<Rightarrow> bool \<Rightarrow> gmem \<Rightarrow> emu_error + gmem" where
  "take_push_lock push_lock shared g =
     bind_result (g_get 8 push_lock g) (\<lambda>v :: u64.
       let shares = v div push_lock_share_increment in
       if v AND push_lock_locked \<noteq> 0 \<and> (shares = 0 \<or> \<not> shared) then Inr g
       else
         let taken =
           (if shared
            then ((v OR push_lock_locked) + push_lock_share_increment)
                   OR (if shares \<noteq> 0 then push_lock_multiple_shared else 0)
            else v OR push_lock_locked) in
         g_put 8 push_lock taken g)"

definition give_push_lock :: "addr \<Rightarrow> gmem \<Rightarrow> emu_error + gmem" where
  "give_push_lock push_lock g =
     bind_result (g_get 8 push_lock g) (\<lambda>v :: u64.
       if v AND push_lock_locked = 0 then Inr g
       else
         let released =
           (if v AND NOT push_lock_state_mask \<le> push_lock_share_increment then 0
            else v - push_lock_share_increment) in
         g_put 8 push_lock released g)"

definition ExInitializePushLock :: "addr \<Rightarrow> gmem \<Rightarrow> emu_error + gmem" where
  "ExInitializePushLock push_lock g = (if push_lock = 0 then Inr g else g_put 8 push_lock (0 :: u64) g)"

definition ExAcquirePushLockExclusiveEx :: "addr \<Rightarrow> gmem \<Rightarrow> emu_error + gmem" where
  "ExAcquirePushLockExclusiveEx push_lock g =
     (if push_lock \<noteq> 0 then take_push_lock push_lock False g else Inr g)"

definition ExAcquirePushLockSharedEx :: "addr \<Rightarrow> gmem \<Rightarrow> emu_error + gmem" where
  "ExAcquirePushLockSharedEx push_lock g =
     (if push_lock \<noteq> 0 then take_push_lock push_lock True g else Inr g)"

text \<open>The three release calls have one body.\<close>

definition ExReleasePushLockEx :: "addr \<Rightarrow> gmem \<Rightarrow> emu_error + gmem" where
  "ExReleasePushLockEx push_lock g = (if push_lock \<noteq> 0 then give_push_lock push_lock g else Inr g)"

section \<open>Executive resources\<close>

definition RES_ActiveCount :: addr where "RES_ActiveCount = 0x18"
definition RES_Flag :: addr where "RES_Flag = 0x1A"
definition RES_OwnerThread :: addr where "RES_OwnerThread = 0x30"
definition RES_TableSize :: addr where "RES_TableSize = 0x38"
definition RES_ActiveEntries :: addr where "RES_ActiveEntries = 0x40"
definition sizeof_ERESOURCE :: nat where "sizeof_ERESOURCE = 0x68"
definition resource_owned_exclusive :: u16 where "resource_owned_exclusive = 0x80"
definition owner_flag_mask :: u32 where "owner_flag_mask = 0x7"
definition owner_count_shift :: nat where "owner_count_shift = 3"

lemmas resource_defs = RES_ActiveCount_def RES_Flag_def RES_OwnerThread_def RES_TableSize_def
  RES_ActiveEntries_def sizeof_ERESOURCE_def

definition owner_count :: "addr \<Rightarrow> gmem \<Rightarrow> emu_error + u32" where
  "owner_count resource g =
     bind_result (g_get 4 (resource + RES_TableSize) g) (\<lambda>w :: u32. Inr (drop_bit owner_count_shift w))"

definition set_owner :: "addr \<Rightarrow> addr \<Rightarrow> u32 \<Rightarrow> gmem \<Rightarrow> emu_error + gmem" where
  "set_owner resource owner_thread count g =
     bind_result (g_put 8 (resource + RES_OwnerThread) owner_thread g) (\<lambda>g.
     bind_result (g_get 4 (resource + RES_TableSize) g) (\<lambda>w :: u32.
       g_put 4 (resource + RES_TableSize) ((w AND owner_flag_mask) OR push_bit owner_count_shift count) g))"

definition take_resource :: "addr \<Rightarrow> addr \<Rightarrow> bool \<Rightarrow> gmem \<Rightarrow> emu_error + bool \<times> gmem" where
  "take_resource resource owner exclusive g =
     bind_result (g_get 4 (resource + RES_ActiveEntries) g) (\<lambda>entries :: u32.
     bind_result (g_get 2 (resource + RES_Flag) g) (\<lambda>flag :: u16.
     let held_exclusive = (flag AND resource_owned_exclusive \<noteq> 0) in
     bind_result (g_get 8 (resource + RES_OwnerThread) g) (\<lambda>held_by :: addr.
     if entries = 0 then
       bind_result (g_put 2 (resource + RES_Flag)
           (if exclusive then flag OR resource_owned_exclusive else flag AND NOT resource_owned_exclusive) g) (\<lambda>g.
       bind_result (set_owner resource owner 1 g) (\<lambda>g.
       bind_result (g_put 4 (resource + RES_ActiveEntries) (1 :: u32) g) (\<lambda>g.
       bind_result (g_put 2 (resource + RES_ActiveCount) (1 :: u16) g) (\<lambda>g. Inr (True, g)))))
     else if held_by = owner \<or> \<not> exclusive \<and> \<not> held_exclusive then
       bind_result
         (if held_by \<noteq> owner then
            bind_result (g_put 4 (resource + RES_ActiveEntries) (entries + 1) g) (\<lambda>g.
            bind_result (g_get 2 (resource + RES_ActiveCount) g) (\<lambda>n :: u16.
              g_put 2 (resource + RES_ActiveCount) (n + 1) g))
          else Inr g) (\<lambda>g.
       bind_result (owner_count resource g) (\<lambda>n.
       bind_result (set_owner resource owner (n + 1) g) (\<lambda>g. Inr (True, g))))
     else Inr (False, g))))"

definition ExInitializeResourceLite :: "addr \<Rightarrow> gmem \<Rightarrow> emu_error + NTSTATUS \<times> gmem" where
  "ExInitializeResourceLite resource g =
     (if resource = 0 then Inr (STATUS_INVALID_PARAMETER, g)
      else
        bind_result (g_write resource (replicate sizeof_ERESOURCE 0) g) (\<lambda>g.
        bind_result (g_write resource (le_enc 8 resource @ le_enc 8 resource) g) (\<lambda>g.
          Inr (STATUS_SUCCESS, g))))"

definition ExAcquireResourceExclusiveLite :: "addr \<Rightarrow> addr \<Rightarrow> gmem \<Rightarrow> emu_error + bool \<times> gmem" where
  "ExAcquireResourceExclusiveLite thread resource g =
     (if resource = 0 then Inr (False, g) else take_resource resource thread True g)"

definition ExAcquireResourceSharedLite :: "addr \<Rightarrow> addr \<Rightarrow> gmem \<Rightarrow> emu_error + bool \<times> gmem" where
  "ExAcquireResourceSharedLite thread resource g =
     (if resource = 0 then Inr (False, g) else take_resource resource thread False g)"

definition ExReleaseResourceLite :: "addr \<Rightarrow> gmem \<Rightarrow> emu_error + gmem" where
  "ExReleaseResourceLite resource g =
     (if resource = 0 then Inr g
      else
        bind_result (owner_count resource g) (\<lambda>count.
        bind_result (g_get 4 (resource + RES_ActiveEntries) g) (\<lambda>entries :: u32.
        if count = 0 \<or> entries = 0 then Inr g
        else if 1 < count then
          bind_result (g_get 8 (resource + RES_OwnerThread) g) (\<lambda>owner.
            set_owner resource owner (count - 1) g)
        else
          bind_result (set_owner resource 0 0 g) (\<lambda>g.
          bind_result (g_put 4 (resource + RES_ActiveEntries) (entries - 1) g) (\<lambda>g.
          bind_result (g_get 2 (resource + RES_Flag) g) (\<lambda>flag :: u16.
          bind_result (g_put 2 (resource + RES_Flag) (flag AND NOT resource_owned_exclusive) g) (\<lambda>g.
            if entries = 1 then g_put 2 (resource + RES_ActiveCount) (0 :: u16) g else Inr g)))))))"

definition ExDeleteResourceLite :: "addr \<Rightarrow> gmem \<Rightarrow> emu_error + NTSTATUS \<times> gmem" where
  "ExDeleteResourceLite resource g =
     (if resource = 0 then Inr (STATUS_INVALID_PARAMETER, g)
      else
        bind_result (g_write resource (replicate sizeof_ERESOURCE 0) g) (\<lambda>g. Inr (STATUS_SUCCESS, g)))"

section \<open>Rundown protection\<close>

definition rundown_active :: u64 where "rundown_active = 0x1"
definition rundown_reference :: u64 where "rundown_reference = 0x2"

definition rundown_references :: "addr \<Rightarrow> gmem \<Rightarrow> emu_error + u64" where
  "rundown_references run_ref g =
     bind_result (g_get 8 run_ref g) (\<lambda>v. Inr ((v AND NOT rundown_active) div rundown_reference))"

definition acquire_rundown :: "addr \<Rightarrow> gmem \<Rightarrow> emu_error + bool \<times> gmem" where
  "acquire_rundown run_ref g =
     bind_result (g_get 8 run_ref g) (\<lambda>v :: u64.
       if v AND rundown_active \<noteq> 0 then Inr (False, g)
       else bind_result (g_put 8 run_ref (v + rundown_reference) g) (\<lambda>g. Inr (True, g)))"

definition release_rundown :: "addr \<Rightarrow> gmem \<Rightarrow> emu_error + bool \<times> gmem" where
  "release_rundown run_ref g =
     bind_result (g_get 8 run_ref g) (\<lambda>v :: u64.
       let references = v AND NOT rundown_active in
       if references < rundown_reference then Inr (False, g)
       else
         bind_result (g_put 8 run_ref ((v AND rundown_active) OR (references - rundown_reference)) g) (\<lambda>g.
           Inr (True, g)))"

definition begin_rundown :: "addr \<Rightarrow> gmem \<Rightarrow> emu_error + gmem" where
  "begin_rundown run_ref g = g_put 8 run_ref rundown_active g"

definition ExInitializeRundownProtection :: "addr \<Rightarrow> gmem \<Rightarrow> emu_error + gmem" where
  "ExInitializeRundownProtection rundown_ref g =
     (if rundown_ref = 0 then Inr g else g_put 8 rundown_ref (0 :: u64) g)"

definition ExAcquireRundownProtection :: "addr \<Rightarrow> gmem \<Rightarrow> emu_error + bool \<times> gmem" where
  "ExAcquireRundownProtection rundown_ref g =
     (if rundown_ref = 0 then Inr (False, g)
      else
        bind_result (g_get 8 rundown_ref g) (\<lambda>v :: u64.
        bind_result (g_put 8 rundown_ref (v + 2) g) (\<lambda>g. Inr (True, g))))"

definition ExReleaseRundownProtection :: "addr \<Rightarrow> gmem \<Rightarrow> emu_error + gmem" where
  "ExReleaseRundownProtection rundown_ref g =
     (if rundown_ref = 0 then Inr g
      else
        bind_result (g_get 8 rundown_ref g) (\<lambda>count :: u64.
          g_put 8 rundown_ref (if 2 \<le> count then count - 2 else 0) g))"

definition ExWaitForRundownProtectionRelease :: "addr \<Rightarrow> gmem \<Rightarrow> emu_error + gmem" where
  "ExWaitForRundownProtectionRelease run_ref g =
     (if run_ref = 0 then Inr g
      else bind_result (rundown_references run_ref g) (\<lambda>held. begin_rundown run_ref g))"

section \<open>What the locks promise\<close>

text \<open>A push lock is a readers-writer lock whose refused calls change nothing.\<close>

datatype rw_lock = Free | Exclusive | Shared nat
datatype rw_call = Take_exclusive | Take_shared | Give

fun rw_spec :: "rw_call \<Rightarrow> rw_lock \<Rightarrow> unit \<times> rw_lock" where
  "rw_spec Take_exclusive Free = ((), Exclusive)"
| "rw_spec Take_exclusive s = ((), s)"
| "rw_spec Take_shared Free = ((), Shared 1)"
| "rw_spec Take_shared Exclusive = ((), Exclusive)"
| "rw_spec Take_shared (Shared n) = ((), Shared (n + 1))"
| "rw_spec Give (Shared n) = ((), if n = 1 then Free else Shared (n - 1))"
| "rw_spec Give s = ((), Free)"

definition max_shares :: nat where "max_shares = 2 ^ 60 - 1"

fun rw_ok :: "rw_call \<Rightarrow> rw_lock \<Rightarrow> bool" where
  "rw_ok Take_shared (Shared n) \<longleftrightarrow> n < max_shares"
| "rw_ok c s \<longleftrightarrow> True"

fun push_word :: "rw_lock \<Rightarrow> u64 \<Rightarrow> bool" where
  "push_word Free w \<longleftrightarrow> w = 0"
| "push_word Exclusive w \<longleftrightarrow> w = 1"
| "push_word (Shared n) w \<longleftrightarrow>
     1 \<le> n \<and> n \<le> max_shares \<and> (w = of_nat (n * 16 + 9) \<or> n = 1 \<and> w = 17)"

fun push_call :: "addr \<Rightarrow> rw_call \<Rightarrow> gmem \<Rightarrow> emu_error + unit \<times> gmem" where
  "push_call a Take_exclusive g = bind_result (ExAcquirePushLockExclusiveEx a g) (\<lambda>g. Inr ((), g))"
| "push_call a Take_shared g = bind_result (ExAcquirePushLockSharedEx a g) (\<lambda>g. Inr ((), g))"
| "push_call a Give g = bind_result (ExReleasePushLockEx a g) (\<lambda>g. Inr ((), g))"

definition push_lock_at :: "addr \<Rightarrow> rw_lock \<Rightarrow> gmem \<Rightarrow> bool" where
  "push_lock_at a l g \<longleftrightarrow> a \<noteq> 0 \<and> (\<exists>w. g_get 8 a g = Inr w \<and> push_word l w)"

lemma shared_word:
  assumes "n < 2 ^ 60" and "b = 1 \<or> b = 9"
  shows "unat (of_nat (n * 16 + b) :: u64) = n * 16 + b"
    "of_nat (n * 16 + b) div (16 :: u64) = of_nat n"
    "of_nat (n * 16 + b) AND (1 :: u64) = 1"
    "of_nat (n * 16 + b) OR (1 :: u64) = of_nat (n * 16 + b)"
    "of_nat (n * 16 + b) OR (8 :: u64) = of_nat (n * 16 + 9)"
    "of_nat (n * 16 + b) AND NOT (15 :: u64) = of_nat (n * 16)"
proof -
  let ?w = "of_nat (n * 16 + b) :: u64"
  have small: "b < 2 ^ 4" "(n * 16 + b) div 16 = n" "odd (n * 16 + b)" "n * 16 + b < 2 ^ 64" using assms by auto
  show u: "unat ?w = n * 16 + b" using small(4) by (simp add: unat_of_nat64 del: of_nat_add of_nat_mult)
  have d: "drop_bit 4 ?w = of_nat n"
  proof (rule unsigned_word_eqI)
    have "unat (drop_bit 4 w) = unat w div 16" for w :: u64
      by (simp only: drop_bit_eq_div unat_div) simp
    then have "unat (drop_bit 4 ?w) = unat ?w div 16" .
    then show "unat (drop_bit 4 ?w) = unat (of_nat n :: u64)" using u small(2) assms(1) by (simp add: unat_of_nat64)
  qed
  show "?w div 16 = of_nat n" using d drop_bit_eq_div [of 4 ?w] by (simp del: of_nat_add of_nat_mult)
  have bits: "(n * 16 + b) AND 1 = 1" "(n * 16 + b) OR 1 = n * 16 + b"
    using small(3) by (simp_all add: and_one_eq or_one_eq or_Suc_0_eq mod_2_eq_odd)
  show "?w AND 1 = 1" "?w OR 1 = ?w"
    using of_nat_and_eq [of "n * 16 + b" 1, where 'a = u64] of_nat_or_eq [of "n * 16 + b" 1, where 'a = u64]
    by (simp_all only: bits of_nat_1)
  have split: "?w = push_bit 4 (of_nat n) OR of_nat b" using or_split [OF small(1), of n, where 'a = 64] by simp
  have "of_nat b OR (8 :: u64) = 9" using assms(2) by auto
  then have "?w OR 8 = push_bit 4 (of_nat n) OR of_nat 9" unfolding split or.assoc by simp
  also have "\<dots> = of_nat (n * 16 + 9)" using or_split [of 9 4 n, where 'a = 64] by simp
  finally show "?w OR 8 = of_nat (n * 16 + 9)" .
  have "NOT (15 :: u64) = NOT (mask 4)" by (simp add: mask_eq_exp_minus_1)
  then have "?w AND NOT 15 = push_bit 4 (of_nat n)" by (simp only: and_not_mask d)
  then show "?w AND NOT 15 = of_nat (n * 16)" by (simp add: push_bit_eq_mult)
qed

lemma shared_word_cases:
  assumes "push_word (Shared n) v"
  obtains b where "b = 1 \<or> b = 9" and "v = of_nat (n * 16 + b)" and "1 \<le> n" and "n < 2 ^ 60" and "b = 1 \<longrightarrow> n = 1"
proof -
  have "1 \<le> n" "n < 2 ^ 60" "v = of_nat (n * 16 + 9) \<or> n = 1 \<and> v = of_nat (n * 16 + 1)"
    using assms by (auto simp: max_shares_def)
  then consider "v = of_nat (n * 16 + 9)" | "n = 1" "v = of_nat (n * 16 + 1)" by blast
  then show thesis
    using that [of 1] that [of 9] \<open>1 \<le> n\<close> \<open>n < 2 ^ 60\<close> by cases (simp_all del: of_nat_add of_nat_mult)
qed

text \<open>What the two calls do to the word, for the words that occur.\<close>

lemma take_push_word:
  assumes "push_word l v" and "rw_ok (if shared then Take_shared else Take_exclusive) l"
  shows "\<exists>w. push_word (snd (rw_spec (if shared then Take_shared else Take_exclusive) l)) w \<and>
    (if v AND push_lock_locked \<noteq> 0 \<and> (v div push_lock_share_increment = 0 \<or> \<not> shared) then v
     else if shared then ((v OR push_lock_locked) + push_lock_share_increment)
            OR (if v div push_lock_share_increment \<noteq> 0 then push_lock_multiple_shared else 0)
     else v OR push_lock_locked) = w"
proof (cases l)
  case (Shared n)
  obtain b where b: "b = 1 \<or> b = 9" "v = of_nat (n * 16 + b)" and n: "1 \<le> n" "n < 2 ^ 60" "b = 1 \<longrightarrow> n = 1"
    using assms(1) unfolding Shared by (rule shared_word_cases)
  have v: "v AND 1 = 1" "v OR 1 = v" "v div 16 = of_nat n" using shared_word [OF n(2) b(1)] b(2) by simp_all
  have "v div 16 \<noteq> 0" using v(3) n by (auto simp: word_of_nat_eq_0_iff dest!: dvd_imp_le)
  moreover have "push_word (Shared (n + 1)) ((v + 16) OR 8)" if "n < max_shares"
  proof -
    have "v + 16 = of_nat ((n + 1) * 16 + b)" using b(2) by (simp add: algebra_simps)
    then have "(v + 16) OR 8 = of_nat ((n + 1) * 16 + 9)"
      using shared_word(5) [of "n + 1" b] b(1) that by (simp add: max_shares_def del: of_nat_add of_nat_mult)
    then show ?thesis using that by (simp del: of_nat_add of_nat_mult)
  qed
  ultimately show ?thesis using assms Shared v by (auto simp: push_lock_defs)
qed (use assms in \<open>simp_all add: push_lock_defs max_shares_def\<close>)

lemma give_push_word:
  assumes "push_word l v"
  shows "push_word (snd (rw_spec Give l))
    (if v AND push_lock_locked = 0 then v
     else if v AND NOT push_lock_state_mask \<le> push_lock_share_increment then 0
     else v - push_lock_share_increment)"
proof (cases l)
  case (Shared n)
  obtain b where b: "b = 1 \<or> b = 9" "v = of_nat (n * 16 + b)" and n: "1 \<le> n" "n < 2 ^ 60" "b = 1 \<longrightarrow> n = 1"
    using assms(1) unfolding Shared by (rule shared_word_cases)
  have v: "v AND 1 = 1" "v AND NOT 15 = of_nat (n * 16)" using shared_word [OF n(2) b(1)] b(2) by simp_all
  have le: "of_nat (n * 16) \<le> (16 :: u64) \<longleftrightarrow> n = 1"
    using n by (simp add: word_le_nat_alt unat_of_nat64 del: of_nat_mult)
  show ?thesis
  proof (cases "n = 1")
    case False
    then have "v - 16 = of_nat ((n - 1) * 16 + b)" using b(2) n(1) by (simp add: of_nat_diff algebra_simps)
    moreover have "b = 9" using b(1) n(3) False by auto
    ultimately show ?thesis using v le False n Shared
      by (simp add: push_lock_defs max_shares_def del: of_nat_add of_nat_mult) linarith
  qed (use v le Shared in \<open>simp add: push_lock_defs\<close>)
qed (use assms in \<open>simp_all add: push_lock_defs\<close>)

lemma word_put:
  assumes "g_get 8 a g = Inr (w :: u64)"
  shows "\<exists>g'. g_put 8 a (v :: u64) g = Inr g' \<and> g_get 8 a g' = Inr v \<and> apart a 8 g g'"
proof -
  obtain g' where g': "g_put 8 a v g = Inr g'" using g_put_total [OF g_get_mapped [OF assms]] by blast
  then have "g_get 8 a g' = Inr v" using g_get_put_same [OF g'] by simp
  with g' g_put_other [OF g'] show ?thesis by (auto simp: apart_def)
qed

text \<open>A push lock call rewrites the word.\<close>

interpretation push: simulation "push_call a" rw_spec "push_lock_at a" rw_ok "apart a 8"
proof unfold_locales
  fix l g p
  assume "push_lock_at a l g" and ok: "rw_ok p l"
  then obtain v where a: "a \<noteq> 0" and v: "g_get 8 a g = Inr v" "push_word l v" by (auto simp: push_lock_at_def)
  have take: "\<exists>g'. take_push_lock a shared g = Inr g' \<and>
      push_lock_at a (snd (rw_spec (if shared then Take_shared else Take_exclusive) l)) g' \<and> apart a 8 g g'"
    if "rw_ok (if shared then Take_shared else Take_exclusive) l" for shared
    using take_push_word [OF v(2) that] a v word_put [OF v(1)]
    by (fastforce simp: take_push_lock_def Let_def push_lock_at_def)
  have give: "\<exists>g'. give_push_lock a g = Inr g' \<and> push_lock_at a (snd (rw_spec Give l)) g' \<and> apart a 8 g g'"
    using give_push_word [OF v(2)] a v word_put [OF v(1)] by (fastforce simp: give_push_lock_def Let_def push_lock_at_def)
  show "\<exists>g'. push_call a p g = Inr (fst (rw_spec p l), g') \<and> push_lock_at a (snd (rw_spec p l)) g' \<and> apart a 8 g g'"
    using take [of True] take [of False] give a ok
    by (cases p) (auto simp: ExAcquirePushLockExclusiveEx_def ExAcquirePushLockSharedEx_def ExReleasePushLockEx_def)
qed (auto intro: apart_trans)

text \<open>
  A resource held by one thread at a time, which may acquire it again. Two threads sharing it,
  and a thread that asks for exclusive access while it shares it, are outside the contract: what
  happens then is shown below.
\<close>

datatype res_state = Unowned | Owned bool addr nat
datatype res_call = Acquire bool addr | Release

fun res_spec :: "res_call \<Rightarrow> res_state \<Rightarrow> bool \<times> res_state" where
  "res_spec (Acquire e t) Unowned = (True, Owned e t 1)"
| "res_spec (Acquire e t) (Owned e' t' n) = (if t = t' then (True, Owned e' t (n + 1)) else (False, Owned e' t' n))"
| "res_spec Release Unowned = (True, Unowned)"
| "res_spec Release (Owned e t n) = (True, if n = 1 then Unowned else Owned e t (n - 1))"

fun res_ok :: "res_call \<Rightarrow> res_state \<Rightarrow> bool" where
  "res_ok (Acquire e t) (Owned e' t' n) \<longleftrightarrow> (if t = t' then n < 2 ^ 29 - 1 \<and> (e \<longrightarrow> e') else e \<or> e')"
| "res_ok c s \<longleftrightarrow> True"

fun resource_call :: "addr \<Rightarrow> res_call \<Rightarrow> gmem \<Rightarrow> emu_error + bool \<times> gmem" where
  "resource_call r (Acquire True t) g = ExAcquireResourceExclusiveLite t r g"
| "resource_call r (Acquire False t) g = ExAcquireResourceSharedLite t r g"
| "resource_call r Release g = bind_result (ExReleaseResourceLite r g) (\<lambda>g. Inr (True, g))"

fun res_bytes :: "res_state \<Rightarrow> u8 list \<Rightarrow> bool" where
  "res_bytes Unowned bs \<longleftrightarrow> field_get 0x40 4 bs = (0 :: u32)"
| "res_bytes (Owned e t n) bs \<longleftrightarrow>
     field_get 0x40 4 bs = (1 :: u32) \<and> field_get 0x30 8 bs = t \<and> 1 \<le> n \<and> n < 2 ^ 29 \<and>
     drop_bit 3 (field_get 0x38 4 bs) = (of_nat n :: u32) \<and>
     (field_get 0x1A 2 bs AND resource_owned_exclusive \<noteq> 0) = e"

definition resource_at :: "addr \<Rightarrow> res_state \<Rightarrow> gmem \<Rightarrow> bool" where
  "resource_at r s g \<longleftrightarrow> r \<noteq> 0 \<and> (\<exists>bs. struct_at r bs g \<and> length bs = sizeof_ERESOURCE \<and> res_bytes s bs)"

lemma resource_at_set:
  "r \<noteq> 0 \<Longrightarrow> length bs = 104 \<Longrightarrow> resource_at r s (g_set r bs g) \<longleftrightarrow> res_bytes s bs"
proof -
  assume a: "r \<noteq> 0" "length bs = 104"
  then have "struct_at r bs (g_set r bs g)" by simp
  then have "(\<exists>cs. struct_at r cs (g_set r bs g) \<and> length cs = 104 \<and> res_bytes s cs) \<longleftrightarrow> res_bytes s bs"
    using struct_at_unique [of r _ "g_set r bs g" bs] a(2) by metis
  with a show ?thesis by (simp add: resource_at_def sizeof_ERESOURCE_def)
qed

lemma flag_bits:
  "resource_owned_exclusive \<noteq> 0" "(w OR resource_owned_exclusive) AND resource_owned_exclusive \<noteq> 0"
  "(w AND NOT resource_owned_exclusive) AND resource_owned_exclusive = 0"
  by (simp_all add: resource_owned_exclusive_def and.assoc)

lemma owner_word:
  "n < 2 ^ 29 \<Longrightarrow> drop_bit 3 ((w :: u32) AND 7 OR push_bit 3 (of_nat n)) = of_nat n"
proof -
  assume n: "n < 2 ^ 29"
  have "bit (drop_bit 3 (w AND mask 3 OR push_bit 3 v)) i = bit (take_bit 29 v) i" for v :: u32 and i
    by (auto simp: bit_simps dest: bit_imp_le_length)
  then have "drop_bit 3 (w AND mask 3 OR push_bit 3 v) = take_bit 29 v" for v by (rule bit_word_eqI)
  then have "drop_bit 3 (w AND 7 OR push_bit 3 (of_nat n)) = take_bit 29 (of_nat n :: u32)"
    by (simp add: mask_eq_exp_minus_1)
  with n show ?thesis by (simp add: take_bit_of_nat take_bit_nat_eq_self)
qed

lemmas resource_steps = take_resource_def ExReleaseResourceLite_def Let_def resource_defs set_owner_def
  owner_count_def struct_simps resource_at_set owner_flag_mask_def owner_count_shift_def flag_bits

lemma acquire_resource:
  assumes "resource_at r s g" and "res_ok (Acquire e t) s"
  shows "\<exists>g'. take_resource r t e g = Inr (fst (res_spec (Acquire e t) s), g') \<and>
    resource_at r (snd (res_spec (Acquire e t) s)) g' \<and> apart r sizeof_ERESOURCE g g'"
proof -
  obtain bs where bs: "struct_at r bs g" "length bs = sizeof_ERESOURCE" "res_bytes s bs" and r: "r \<noteq> 0"
    using assms(1) by (auto simp: resource_at_def)
  show ?thesis
  proof (cases s)
    case Unowned
    then show ?thesis using bs r owner_word [of 1] by (simp add: resource_steps)
  next
    case (Owned e' t' n)
    have "drop_bit 3 (w AND 7 OR push_bit 3 (of_nat n + 1)) = (of_nat n + 1 :: u32)" if "n < 2 ^ 29 - 1" for w
      using owner_word [of "n + 1" w] that by (simp add: add.commute)
    moreover have "of_nat (n + 1) = (of_nat n + 1 :: u32)" by simp
    ultimately show ?thesis using bs r assms Owned by (cases "t = t'") (simp_all add: resource_steps del: of_nat_add of_nat_Suc)
  qed
qed

lemma release_resource:
  assumes "resource_at r s g"
  shows "\<exists>g'. ExReleaseResourceLite r g = Inr g' \<and> resource_at r (snd (res_spec Release s)) g' \<and>
    apart r sizeof_ERESOURCE g g'"
proof -
  obtain bs where bs: "struct_at r bs g" "length bs = sizeof_ERESOURCE" "res_bytes s bs" and r: "r \<noteq> 0"
    using assms(1) by (auto simp: resource_at_def)
  show ?thesis
  proof (cases s)
    case Unowned
    then show ?thesis using bs r assms by (simp add: resource_steps)
  next
    case (Owned e t n)
    then have n: "1 \<le> n" "n < 2 ^ 29" using bs(3) by simp_all
    then have "of_nat n \<noteq> (0 :: u32)" "(1 :: u32) < of_nat n \<longleftrightarrow> n \<noteq> 1" "of_nat n - 1 = (of_nat (n - 1) :: u32)"
      using n by (auto simp: word_of_nat_eq_0_iff word_less_nat_alt unat_of_nat of_nat_diff dest!: dvd_imp_le)
    moreover have "n - 1 < 2 ^ 29" using n(2) by simp
    moreover have "1 \<le> n - 1" if "n \<noteq> 1" using that n(1) by simp
    ultimately show ?thesis using bs r Owned n owner_word [of "n - 1"] by (simp add: resource_steps)
  qed
qed

interpretation resource: simulation "resource_call r" res_spec "resource_at r" res_ok "apart r sizeof_ERESOURCE"
proof unfold_locales
  fix s g p
  assume s: "resource_at r s g" and ok: "res_ok p s"
  then have r: "r \<noteq> 0" by (simp add: resource_at_def)
  show "\<exists>g'. resource_call r p g = Inr (fst (res_spec p s), g') \<and> resource_at r (snd (res_spec p s)) g' \<and>
      apart r sizeof_ERESOURCE g g'"
  proof (cases p)
    case (Acquire e t)
    then show ?thesis using acquire_resource [OF s, of e t] ok r
      by (cases e) (simp_all add: ExAcquireResourceExclusiveLite_def ExAcquireResourceSharedLite_def)
  next
    case Release
    moreover have "fst (res_spec Release s)" by (cases s) simp_all
    ultimately show ?thesis using release_resource [OF s] by auto
  qed
qed (auto intro: apart_trans)

text \<open>Rundown protection counts references until a rundown begins.\<close>

datatype run_call = Acquire_rundown | Release_rundown | Begin_rundown

fun run_spec :: "run_call \<Rightarrow> bool \<times> nat \<Rightarrow> bool \<times> bool \<times> nat" where
  "run_spec Acquire_rundown (act, n) = (if act then (False, act, n) else (True, act, n + 1))"
| "run_spec Release_rundown (act, n) = (if n = 0 then (False, act, n) else (True, act, n - 1))"
| "run_spec Begin_rundown (act, n) = (True, True, 0)"

fun run_ok :: "run_call \<Rightarrow> bool \<times> nat \<Rightarrow> bool" where
  "run_ok Acquire_rundown (act, n) \<longleftrightarrow> n < 2 ^ 63 - 1"
| "run_ok p s \<longleftrightarrow> True"

fun run_step :: "addr \<Rightarrow> run_call \<Rightarrow> gmem \<Rightarrow> emu_error + bool \<times> gmem" where
  "run_step a Acquire_rundown g = acquire_rundown a g"
| "run_step a Release_rundown g = release_rundown a g"
| "run_step a Begin_rundown g = bind_result (begin_rundown a g) (\<lambda>g. Inr (True, g))"

definition rundown_at :: "addr \<Rightarrow> bool \<times> nat \<Rightarrow> gmem \<Rightarrow> bool" where
  "rundown_at a s g \<longleftrightarrow> snd s < 2 ^ 63 \<and> g_get 8 a g = Inr (of_nat (2 * snd s + of_bool (fst s)) :: u64)"

lemma rundown_word:
  assumes "n < 2 ^ 63"
  shows "of_nat (2 * n + of_bool b) AND (1 :: u64) = of_bool b"
    "of_nat (2 * n + of_bool b) AND NOT (1 :: u64) = of_nat (2 * n)"
    "of_nat (2 * n) < (2 :: u64) \<longleftrightarrow> n = 0"
    "of_bool b OR (of_nat (2 * n) :: u64) = of_nat (2 * n + of_bool b)"
proof -
  have split: "of_nat (2 * n + of_bool b) = (push_bit 1 (of_nat n) OR of_bool b :: u64)"
    using or_split [of "of_bool b" 1 n, where 'a = 64] by (simp add: mult.commute)
  have odd: "push_bit 1 w AND 1 = (0 :: u64)" for w :: u64
    by (simp add: and_one_eq mod_2_eq_odd)
  show "of_nat (2 * n + of_bool b) AND (1 :: u64) = of_bool b"
    unfolding split using odd by (simp add: bit.conj_disj_distrib2)
  have "push_bit 1 w AND NOT 1 = push_bit 1 w" for w :: u64
    by (rule bit_word_eqI) (auto simp: bit_simps bit_0 intro!: gr0I)
  then show "of_nat (2 * n + of_bool b) AND NOT (1 :: u64) = of_nat (2 * n)"
    unfolding split by (cases b) (simp_all add: bit.conj_disj_distrib2 push_bit_eq_mult)
  show "of_nat (2 * n) < (2 :: u64) \<longleftrightarrow> n = 0"
    using assms by (simp add: word_less_nat_alt unat_of_nat64 del: of_nat_mult)
  show "of_bool b OR (of_nat (2 * n) :: u64) = of_nat (2 * n + of_bool b)"
    unfolding split by (simp add: or.commute push_bit_eq_mult mult.commute)
qed

interpretation rundown: simulation "run_step a" run_spec "rundown_at a" run_ok "apart a 8"
proof unfold_locales
  fix s g p
  assume at: "rundown_at a s g" and ok: "run_ok p s"
  obtain act n where s: "s = (act, n)" by force
  have n: "n < 2 ^ 63" and v: "g_get 8 a g = Inr (of_nat (2 * n + of_bool act) :: u64)"
    using at s by (simp_all add: rundown_at_def)
  have put: "\<exists>g'. g_put 8 a w g = Inr g' \<and> g_get 8 a g' = Inr w \<and> apart a 8 g g'" for w :: u64
    using word_put [OF v] by blast
  note defs = acquire_rundown_def release_rundown_def begin_rundown_def rundown_active_def rundown_reference_def rundown_at_def
  show "\<exists>g'. run_step a p g = Inr (fst (run_spec p s), g') \<and> rundown_at a (snd (run_spec p s)) g' \<and> apart a 8 g g'"
  proof (cases p)
    case Acquire_rundown
    moreover have sum: "of_nat (2 * (n + 1)) = (of_nat (2 * n) + 2 :: u64)" by simp
    ultimately show ?thesis
      using put [of "of_nat (2 * n) + 2"] s v n ok rundown_word(1) [OF n, of act]
      by (cases act) (auto simp: defs sum simp del: of_nat_mult of_nat_add mult_Suc_right add_2_eq_Suc)
  next
    case Release_rundown
    moreover have "of_nat (2 * n) - 2 = (of_nat (2 * (n - 1)) :: u64)" if "n \<noteq> 0" using that by (simp add: of_nat_diff)
    moreover have "n - 1 < 2 ^ 63" using n by simp
    ultimately show ?thesis
      using put [of "of_nat (2 * (n - 1) + of_bool act)"] s v n rundown_word(1,2) [OF n, of act] rundown_word(3) [OF n]
        rundown_word(4) [of "n - 1" act]
      by (auto simp: defs Let_def simp del: of_nat_mult of_nat_add)
  next
    case Begin_rundown
    then show ?thesis using put [of 1] s by (auto simp: defs)
  qed
qed (auto intro: apart_trans)

section \<open>Properties\<close>

text \<open>
  C17: A push lock is a readers-writer lock. From a state its word encodes, every sequence of
  acquires and releases leaves the state the specification gives, encoded again, with at most
  2^60 - 1 shares at a time, and touches no byte outside the lock; a lock just initialised is
  free.
\<close>

theorem push_lock_correct:
  assumes "push_lock_at a l g"
  shows "(admitted rw_spec rw_ok ps l \<longrightarrow> (\<exists>g'. calls (push_call a) ps g = Inr (fst (outcome rw_spec ps l), g') \<and>
      push_lock_at a (snd (outcome rw_spec ps l)) g' \<and> apart a 8 g g')) \<and>
    (\<exists>g'. ExInitializePushLock a g = Inr g' \<and> push_lock_at a Free g')"
proof
  show "admitted rw_spec rw_ok ps l \<longrightarrow> (\<exists>g'. calls (push_call a) ps g = Inr (fst (outcome rw_spec ps l), g') \<and>
      push_lock_at a (snd (outcome rw_spec ps l)) g' \<and> apart a 8 g g')"
    using push.simulate_calls [OF assms] by blast
  obtain w :: u64 where "a \<noteq> 0" "g_get 8 a g = Inr w" using assms by (auto simp: push_lock_at_def)
  with word_put [of a g w 0] show "\<exists>g'. ExInitializePushLock a g = Inr g' \<and> push_lock_at a Free g'"
    by (auto simp: ExInitializePushLock_def push_lock_at_def)
qed

definition zeroed :: gmem where
  "zeroed x = (if 0x1000 \<le> x \<and> x < 0x1068 then Some 0 else None)"

lemma zeroed_lock: "push_lock_at 0x1000 Free zeroed"
proof -
  have "g_get 8 0x1000 zeroed = Inr (0 :: u64)" by code_simp
  then show ?thesis by (simp add: push_lock_at_def)
qed

theorem push_lock_correct_witness:
  "\<exists>g'. calls (push_call 0x1000) [Take_shared, Take_shared, Take_exclusive, Give, Give, Take_exclusive, Take_shared] zeroed =
      Inr ([(), (), (), (), (), (), ()], g') \<and> push_lock_at 0x1000 Exclusive g'"
  using push_lock_correct [OF zeroed_lock,
      of "[Take_shared, Take_shared, Take_exclusive, Give, Give, Take_exclusive, Take_shared]"]
  by (auto simp: max_shares_def)

text \<open>
  C26: An executive resource used by one thread at a time is a recursive lock: acquiring by the
  owner counts, acquiring by another thread is refused while it is held, the last release frees
  it. Every sequence of such calls leaves the resource in the state the specification gives and
  touches no byte outside it; a resource just initialised is free.
\<close>

theorem resource_correct:
  assumes "resource_at r s g"
  shows "(admitted res_spec res_ok ps s \<longrightarrow> (\<exists>g'. calls (resource_call r) ps g = Inr (fst (outcome res_spec ps s), g') \<and>
      resource_at r (snd (outcome res_spec ps s)) g' \<and> apart r sizeof_ERESOURCE g g')) \<and>
    (\<exists>g'. ExInitializeResourceLite r g = Inr (STATUS_SUCCESS, g') \<and> resource_at r Unowned g')"
proof
  show "admitted res_spec res_ok ps s \<longrightarrow> (\<exists>g'. calls (resource_call r) ps g = Inr (fst (outcome res_spec ps s), g') \<and>
      resource_at r (snd (outcome res_spec ps s)) g' \<and> apart r sizeof_ERESOURCE g g')"
    using resource.simulate_calls [OF assms] by blast
  obtain bs where bs: "struct_at r bs g" "length bs = 104" "r \<noteq> 0"
    using assms by (auto simp: resource_at_def sizeof_ERESOURCE_def)
  let ?zs = "replicate 104 0 :: u8 list" and ?link = "le_enc 8 r @ le_enc 8 r"
  have "g_write r ?zs g = Inr (g_set r ?zs g)" using struct_write [OF bs(1)] bs(2) by simp
  moreover have "g_write r ?link (g_set r ?zs g) = Inr (g_set r (?link @ replicate 88 0) g)"
    using struct_write_prefix [of r ?zs "g_set r ?zs g" ?link] by simp
  moreover have "res_bytes Unowned (?link @ replicate 88 0)" by (simp add: field_get_def)
  ultimately show "\<exists>g'. ExInitializeResourceLite r g = Inr (STATUS_SUCCESS, g') \<and> resource_at r Unowned g'"
    using bs(3) by (simp add: ExInitializeResourceLite_def sizeof_ERESOURCE_def resource_at_set)
qed

lemma zeroed_resource: "resource_at 0x1000 Unowned zeroed"
proof -
  have "g_read 104 0x1000 zeroed = Inr (replicate 104 0)" by code_simp
  then have "struct_at 0x1000 (replicate 104 0) zeroed" by (simp add: struct_at_def)
  moreover have "res_bytes Unowned (replicate 104 0)" by (simp add: field_get_def)
  ultimately show ?thesis by (auto simp: resource_at_def sizeof_ERESOURCE_def)
qed

theorem resource_correct_witness:
  "\<exists>g'. calls (resource_call 0x1000) [Acquire True 7, Acquire False 7, Acquire False 9, Release, Release, Acquire False 9] zeroed =
      Inr ([True, True, False, True, True, True], g') \<and> resource_at 0x1000 (Owned False 9 1) g'"
  using resource_correct [OF zeroed_resource,
      of "[Acquire True 7, Acquire False 7, Acquire False 9, Release, Release, Acquire False 9]"]
  by auto

text \<open>
  Outside the contract. Two threads that share a resource leave it held for ever: the second
  takes over the owner entry, the two releases account for one entry only, and from then on the
  resource can be neither released nor acquired for exclusive access.
\<close>

lemma resource_two_sharers:
  "map_sum id fst (calls (resource_call 0x1000)
     [Acquire False 7, Acquire False 9, Release, Release, Release, Acquire True 7] zeroed) =
   Inr [True, True, True, True, True, False]"
  by code_simp

text \<open>
  Asking for exclusive access while sharing is granted as a recursive acquire, and the resource
  stays marked as shared: another thread still gets shared access.
\<close>

lemma resource_upgrade:
  "map_sum id fst (calls (resource_call 0x1000) [Acquire False 7, Acquire True 7, Acquire False 9] zeroed) =
   Inr [True, True, True]"
  by code_simp

text \<open>
  A rundown that begins while a reference is out: the late release takes the running-down mark
  away, and the object can be acquired again.
\<close>

lemma rundown_reopened:
  "map_sum id fst (bind_result (ExAcquireRundownProtection 0x1000 zeroed) (\<lambda>(_, g).
     bind_result (ExWaitForRundownProtectionRelease 0x1000 g) (\<lambda>g.
     bind_result (ExReleaseRundownProtection 0x1000 g) (acquire_rundown 0x1000)))) = Inr True"
  by code_simp

end
