(* ===== verification/Wait_Queue.thy ===== *)
theory Wait_Queue
  imports Nt_Sync
begin

text \<open>
  Threads that wait for one object and nothing else, as the locks and rendezvous built on
  dispatcher objects use them: what \<open>wake_waiters\<close> does to such a queue, and putting the running
  thread into it.
\<close>

section \<open>A queue on one object\<close>

definition queued :: "addr \<Rightarrow> win_thread \<Rightarrow> bool" where
  "queued a t \<longleftrightarrow>
     (case wait t of Some w \<Rightarrow> ws_objects w = [a] \<and> \<not> ws_all w \<and> \<not> ws_satisfied w | None \<Rightarrow> False)"

definition lone_wait :: "addr \<Rightarrow> wait_state" where
  "lone_wait a = \<lparr>ws_objects = [a], ws_all = False, ws_deadline = 0, ws_timed = False,
     ws_satisfied = False, ws_status = 0\<rparr>"

definition handed :: "win_thread \<Rightarrow> win_thread" where
  "handed t = t\<lparr>wait := Some ((the (wait t))\<lparr>ws_status := 0, ws_satisfied := True\<rparr>)\<rparr>"

text \<open>Every thread that waits for \<open>a\<close> waits for it alone, or is already released.\<close>

definition orderly :: "addr \<Rightarrow> (nat \<times> win_thread) list \<Rightarrow> bool" where
  "orderly a ts \<longleftrightarrow> (\<forall>(i, t) \<in> set ts. waiting_on a t \<longrightarrow> queued a t \<or> ws_satisfied (the (wait t)))"

definition queue_of :: "addr \<Rightarrow> (nat \<times> win_thread) list \<Rightarrow> (nat \<times> win_thread) list" where
  "queue_of a ts = filter (queued a \<circ> snd) ts"

lemma orderly_append [simp]: "orderly a (ts @ us) \<longleftrightarrow> orderly a ts \<and> orderly a us"
  by (auto simp: orderly_def)

lemma orderly_Cons [simp]:
  "orderly a ((i, t) # ts) \<longleftrightarrow>
     (waiting_on a t \<longrightarrow> queued a t \<or> ws_satisfied (the (wait t))) \<and> orderly a ts"
  by (simp add: orderly_def)

lemma orderly_Nil [simp]: "orderly a []"
  by (simp add: orderly_def)

lemma queue_append [simp]: "queue_of a (ts @ us) = queue_of a ts @ queue_of a us"
  by (simp add: queue_of_def)

lemma queue_Cons [simp]: "queue_of a ((i, t) # ts) = (if queued a t then (i, t) # queue_of a ts else queue_of a ts)"
  by (simp add: queue_of_def)

lemma queue_Nil [simp]: "queue_of a [] = []"
  by (simp add: queue_of_def)

lemma handed_released [simp]: "\<not> queued a (handed t)" "ws_satisfied (the (wait (handed t)))"
  by (simp_all add: queued_def handed_def)

lemma waiting_handed: "wait t \<noteq> None \<Longrightarrow> waiting_on a (handed t) = waiting_on a t"
  by (auto simp: waiting_on_def handed_def)

lemma queued_lone [simp]: "queued a (t\<lparr>wait := Some (lone_wait b)\<rparr>) \<longleftrightarrow> a = b"
  "waiting_on a (t\<lparr>wait := Some (lone_wait b)\<rparr>) \<longleftrightarrow> a = b"
  by (auto simp: queued_def waiting_on_def lone_wait_def)

lemma queued_waits: "queued a t \<Longrightarrow> waiting_on a t \<and> wait t \<noteq> None"
  by (auto simp: queued_def waiting_on_def split: option.splits)

text \<open>One thread: it gets the object exactly when it is queued and the object is signalled.\<close>

lemma try_single:
  assumes "\<And>self. is_signalled a self g = Inr sig" and "\<And>self. sig \<Longrightarrow> take_object a self g = Inr g'"
    and "waiting_on a t \<longrightarrow> queued a t \<or> ws_satisfied (the (wait t))"
  shows "(if waiting_on a t then try_satisfy (t, g) else Inr (False, t, g)) =
    (if sig \<and> queued a t then Inr (True, handed t, g') else Inr (False, t, g))"
proof (cases "queued a t")
  case True
  then obtain w where w: "wait t = Some w" "ws_objects w = [a]" "\<not> ws_all w" "\<not> ws_satisfied w"
    by (auto simp: queued_def split: option.splits)
  then show ?thesis
    using True assms(1,2) by (cases sig) (simp_all add: try_satisfy_def Let_def waiting_on_def handed_def)
next
  case False
  then have "waiting_on a t \<Longrightarrow> try_satisfy (t, g) = Inr (False, t, g)"
    using assms(3) by (auto simp: waiting_on_def try_satisfy_def split: option.splits)
  with False show ?thesis by simp
qed

lemma wake_loop_skip:
  assumes "(if waiting_on a t then try_satisfy (t, g) else Inr (False, t, g)) = Inr (False, t, g)"
  shows "wake_loop a ((i, t) # ts) g =
    bind_result (wake_loop a ts g) (\<lambda>(released, ts, g). Inr (released, (i, t) # ts, g))"
  by (simp only: wake_loop.simps assms) (auto split: sum.split)

lemma wake_loop_nobody: "queue_of a ts = [] \<Longrightarrow> orderly a ts \<Longrightarrow> wake_loop a ts g = Inr (False, ts, g)"
proof (induction ts)
  case (Cons it ts)
  obtain i t where it: "it = (i, t)" by force
  have "\<not> queued a t" using Cons.prems(1) it by (auto split: if_splits)
  then have "waiting_on a t \<Longrightarrow> try_satisfy (t, g) = Inr (False, t, g)"
    using Cons.prems(2) it by (auto simp: waiting_on_def try_satisfy_def split: option.splits)
  then have "wake_loop a (it # ts) g = bind_result (wake_loop a ts g) (\<lambda>(released, ts, g). Inr (released, it # ts, g))"
    unfolding it by (intro wake_loop_skip) simp
  with Cons it show ?case by (auto split: if_splits)
qed simp

lemma wake_loop_quiet:
  assumes "\<And>self. is_signalled a self g = Inr False"
  shows "orderly a ts \<Longrightarrow> wake_loop a ts g = Inr (False, ts, g)"
proof (induction ts)
  case (Cons it ts)
  obtain i t where it: "it = (i, t)" by force
  have "(if waiting_on a t then try_satisfy (t, g) else Inr (False, t, g)) = Inr (False, t, g)"
    using try_single [OF assms, of g t] Cons.prems it by simp
  from wake_loop_skip [OF this, of i ts] Cons it show ?case by simp
qed simp

text \<open>An object that serves one thread serves the first of the queue.\<close>

lemma wake_loop_first:
  assumes "\<And>self. is_signalled a self g = Inr True" and "\<And>self. take_object a self g = Inr g'"
    and "\<And>self. is_signalled a self g' = Inr False" and "queued a u"
  shows "orderly a (us @ (j, u) # vs) \<Longrightarrow> queue_of a us = [] \<Longrightarrow>
    wake_loop a (us @ (j, u) # vs) g = Inr (True, us @ (j, handed u) # vs, g')"
proof (induction us)
  case Nil
  then have "wake_loop a vs g' = Inr (False, vs, g')" using wake_loop_quiet [OF assms(3)] by simp
  moreover have "(if waiting_on a u then try_satisfy (u, g) else Inr (False, u, g)) = Inr (True, handed u, g')"
    using try_single [OF assms(1,2), of u] Nil assms(4) by simp
  ultimately show ?case by (simp only: append_Nil wake_loop.simps) simp
next
  case (Cons it us)
  obtain i t where it: "it = (i, t)" by force
  have "\<not> queued a t" using Cons.prems it by (auto split: if_splits)
  then have "(if waiting_on a t then try_satisfy (t, g) else Inr (False, t, g)) = Inr (False, t, g)"
    using try_single [OF assms(1,2), of t] Cons.prems it by simp
  from wake_loop_skip [OF this, of i "us @ (j, u) # vs"] Cons it show ?case by (auto split: if_splits)
qed

lemma queue_split:
  assumes "queue_of a ts \<noteq> []"
  obtains us j u vs where "ts = us @ (j, u) # vs" and "queue_of a us = []" and "queued a u"
    and "queue_of a ts = (j, u) # queue_of a vs"
proof -
  obtain ju rest where q: "queue_of a ts = ju # rest" using assms by (cases "queue_of a ts") auto
  then obtain us vs where s: "ts = us @ ju # vs" "\<forall>x \<in> set us. \<not> (queued a \<circ> snd) x" "(queued a \<circ> snd) ju"
    "filter (queued a \<circ> snd) vs = rest"
    unfolding queue_of_def filter_eq_Cons_iff by blast
  moreover obtain j u where ju: "ju = (j, u)" by force
  moreover have "queue_of a us = []" using s(2) unfolding queue_of_def filter_empty_conv by blast
  moreover have "queued a u" "queue_of a ts = (j, u) # queue_of a vs" using s(3,4) q ju by (simp_all add: queue_of_def)
  ultimately show thesis using that by blast
qed

lemma wake_waiters_none:
  "\<forall>(i, t) \<in> set (procthreads s). \<not> waiting_on a t \<Longrightarrow> wake_waiters a s = Inr s"
proof -
  assume none: "\<forall>(i, t) \<in> set (procthreads s). \<not> waiting_on a t"
  have "wake_loop a ts g = Inr (False, ts, g)" if "\<forall>(i, t) \<in> set ts. \<not> waiting_on a t" for ts g
    using that by (induction ts) auto
  with none show ?thesis by (simp add: wake_waiters_def)
qed

section \<open>The thread a cpu runs\<close>

definition upd_thread :: "nat \<Rightarrow> win_thread \<Rightarrow> (nat \<times> win_thread) list \<Rightarrow> (nat \<times> win_thread) list" where
  "upd_thread i t ts = map (\<lambda>(j, u). (j, if j = i then t else u)) ts"

lemma set_current_upd: "set_current i t s = s\<lparr>procthreads := upd_thread i t (procthreads s)\<rparr>"
  by (simp add: set_current_def upd_thread_def)

lemma upd_thread_ids [simp]: "map fst (upd_thread i t ts) = map fst ts"
  by (simp add: upd_thread_def comp_def case_prod_beta)

lemma upd_thread_split:
  "distinct (map fst (us @ (i, t) # vs)) \<Longrightarrow> upd_thread i t' (us @ (i, t) # vs) = us @ (i, t') # vs"
proof -
  assume "distinct (map fst (us @ (i, t) # vs))"
  then have "i \<notin> fst ` set us" "i \<notin> fst ` set vs" by auto
  then have "upd_thread i t' us = us" "upd_thread i t' vs = vs" by (force simp: upd_thread_def intro!: map_idI)+
  then show ?thesis by (simp add: upd_thread_def)
qed

lemma upd_thread_in: "(i, t) \<in> set ts \<Longrightarrow> (i, t') \<in> set (upd_thread i t' ts)"
  "i \<noteq> j \<Longrightarrow> (i, t) \<in> set ts \<Longrightarrow> (i, t) \<in> set (upd_thread j t' ts)"
  by (force simp: upd_thread_def)+

lemma orderly_upd:
  "orderly a ts \<Longrightarrow> (waiting_on a t \<longrightarrow> queued a t \<or> ws_satisfied (the (wait t))) \<Longrightarrow> orderly a (upd_thread i t ts)"
  by (fastforce simp: orderly_def upd_thread_def)

lemma queue_upd:
  assumes "distinct (map fst ts)" and "(i, t) \<in> set ts"
  shows "length (queue_of a (upd_thread i t' ts)) + of_bool (queued a t) = length (queue_of a ts) + of_bool (queued a t')"
proof -
  obtain us vs where ts: "ts = us @ (i, t) # vs" using assms(2) split_list by fast
  then show ?thesis using upd_thread_split assms(1) by simp
qed

lemma set_current_split:
  "procthreads s = us @ (i, t) # vs \<Longrightarrow> distinct (map fst (procthreads s)) \<Longrightarrow>
   procthreads (set_current i t' s) = us @ (i, t') # vs"
  using upd_thread_split [of us i t vs t'] by (simp add: set_current_upd)

lemma current_thread_split:
  assumes "current s = Some i" and "procthreads s = us @ (i, t) # vs" and "distinct (map fst (procthreads s))"
  shows "current_thread s = Some t"
proof -
  have "map_of (procthreads s) i = Some t" using assms(2,3) by (intro map_of_is_SomeI) auto
  then show ?thesis using assms(1) by (simp add: current_thread_def)
qed

lemma current_thread_gm [simp]: "current_thread (s\<lparr>gm := g\<rparr>) = current_thread s"
  by (simp add: current_thread_def split: option.split)

end
