(* ===== verification/Ke_Sync.thy ===== *)
theory Ke_Sync
  imports Wait_Queue Guest_Struct
begin

text \<open>
  \<open>kernel/win/modules/nt_sync_ops.cpp\<close> and \<open>nt_irql_ops.cpp\<close>: the dispatcher objects a driver
  calls by pointer, fast mutexes, critical and guarded regions, and the interrupt request level.
  A null pointer is zero. The level of a cpu lives in its KPCR: \<open>irql_at\<close> is the address of that
  byte, none where there is no emulator or no per-cpu block; the copy in the register of the
  backend is left out. \<open>off\<close> is the offset of a disable count in the thread object, which the two
  targets place differently. A wait without a time limit does not read the clocks.
\<close>

section \<open>Interrupt request level\<close>

definition passive_level :: u8 where "passive_level = 0"
definition apc_level :: u8 where "apc_level = 1"
definition dispatch_level :: u8 where "dispatch_level = 2"

definition set_irql :: "addr option \<Rightarrow> u8 \<Rightarrow> nt_state \<Rightarrow> emu_error + u8 \<times> nt_state" where
  "set_irql irql_at irql s =
     (case irql_at of
        None \<Rightarrow> Inr (passive_level, s)
      | Some a \<Rightarrow>
          bind_result (g_get 1 a (gm s)) (\<lambda>old.
          bind_result (with_mem (g_put 1 a irql) s) (\<lambda>s. Inr (old, s))))"

definition KeGetCurrentIrql :: "addr option \<Rightarrow> nt_state \<Rightarrow> emu_error + u8" where
  "KeGetCurrentIrql irql_at s = (case irql_at of None \<Rightarrow> Inr passive_level | Some a \<Rightarrow> g_get 1 a (gm s))"

text \<open>Every call that raises or lowers the level, spin locks included, sets it and returns the old one.\<close>

definition KeRaiseIrql :: "addr option \<Rightarrow> u8 \<Rightarrow> addr \<Rightarrow> nt_state \<Rightarrow> emu_error + nt_state" where
  "KeRaiseIrql irql_at new_irql old_irql_out s =
     bind_result (set_irql irql_at new_irql s) (\<lambda>(old, s). write_opt 1 old_irql_out old s)"

definition KfRaiseIrql :: "addr option \<Rightarrow> u8 \<Rightarrow> nt_state \<Rightarrow> emu_error + u8 \<times> nt_state" where
  "KfRaiseIrql irql_at new_irql s = set_irql irql_at new_irql s"

definition KeLowerIrql :: "addr option \<Rightarrow> u8 \<Rightarrow> nt_state \<Rightarrow> emu_error + nt_state" where
  "KeLowerIrql irql_at new_irql s = bind_result (set_irql irql_at new_irql s) (\<lambda>(_, s). Inr s)"

definition KeRaiseIrqlToDpcLevel :: "addr option \<Rightarrow> nt_state \<Rightarrow> emu_error + u8 \<times> nt_state" where
  "KeRaiseIrqlToDpcLevel irql_at s = set_irql irql_at dispatch_level s"

definition KeAcquireSpinLockRaiseToDpc :: "addr option \<Rightarrow> addr \<Rightarrow> nt_state \<Rightarrow> emu_error + u8 \<times> nt_state" where
  "KeAcquireSpinLockRaiseToDpc irql_at spin_lock s = set_irql irql_at dispatch_level s"

definition KeReleaseSpinLock :: "addr option \<Rightarrow> addr \<Rightarrow> u8 \<Rightarrow> nt_state \<Rightarrow> emu_error + nt_state" where
  "KeReleaseSpinLock irql_at spin_lock new_irql s =
     bind_result (set_irql irql_at new_irql s) (\<lambda>(_, s). Inr s)"

section \<open>Fast mutexes\<close>

definition FM_Count :: addr where "FM_Count = 0x00"
definition FM_Owner :: addr where "FM_Owner = 0x08"
definition FM_Contention :: addr where "FM_Contention = 0x10"
definition FM_Event :: addr where "FM_Event = 0x18"
definition FM_OldIrql :: addr where "FM_OldIrql = 0x30"
definition sizeof_FAST_MUTEX :: nat where "sizeof_FAST_MUTEX = 0x38"

lemmas fm_defs = FM_Count_def FM_Owner_def FM_Contention_def FM_Event_def FM_OldIrql_def sizeof_FAST_MUTEX_def

definition fm_lock_bit :: u32 where "fm_lock_bit = 1"
definition fm_waiter_increment :: u32 where "fm_waiter_increment = 4"

definition mutex_count :: "addr \<Rightarrow> gmem \<Rightarrow> emu_error + u32" where
  "mutex_count mutex g = g_get 4 (mutex + FM_Count) g"

definition take_mutex :: "addr \<Rightarrow> nt_state \<Rightarrow> emu_error + bool \<times> nt_state" where
  "take_mutex mutex s =
     bind_result (mutex_count mutex (gm s)) (\<lambda>count.
     if count AND fm_lock_bit \<noteq> 0 then
       bind_result (with_mem (g_put 4 (mutex + FM_Count) (count AND NOT fm_lock_bit)) s) (\<lambda>s. Inr (True, s))
     else
       bind_result (g_get 1 (mutex + FM_Event + DH_Size) (gm s)) (\<lambda>sz :: u8.
       if sz = 0 then
         bind_result (with_mem (init_dispatcher (mutex + FM_Event) sizeof_KEVENT event_synchronization_object 0) s) (\<lambda>s.
         bind_result (with_mem (g_put 4 (mutex + FM_Contention) (0 :: u32)) s) (\<lambda>s.
         bind_result (with_mem (g_put 4 (mutex + FM_Count) (0 :: u32)) s) (\<lambda>s. Inr (True, s))))
       else
         bind_result (g_get 4 (mutex + FM_Contention) (gm s)) (\<lambda>contention :: u32.
         bind_result (with_mem (g_put 4 (mutex + FM_Contention) (contention + 1)) s) (\<lambda>s.
         case (current s, current_thread s) of
           (Some i, Some t) \<Rightarrow>
             bind_result (with_mem (g_put 4 (mutex + FM_Count) (count + fm_waiter_increment)) s) (\<lambda>s.
             bind_result (try_satisfy (begin_wait 0 0 (lone_wait (mutex + FM_Event)) t, gm s)) (\<lambda>(_, t, g).
               Inr (False, (set_current i t s)\<lparr>gm := g, yielded := True\<rparr>)))
         | _ \<Rightarrow> Inr (True, s)))))"

definition own_mutex :: "addr \<Rightarrow> nt_state \<Rightarrow> emu_error + nt_state" where
  "own_mutex mutex s =
     with_mem (g_put 8 (mutex + FM_Owner)
       (case current_thread s of Some t \<Rightarrow> ethread t | None \<Rightarrow> 0)) s"

text \<open>The event to wake, or zero.\<close>

definition give_mutex :: "addr \<Rightarrow> nt_state \<Rightarrow> emu_error + addr \<times> nt_state" where
  "give_mutex mutex s =
     bind_result (mutex_count mutex (gm s)) (\<lambda>count.
     bind_result (with_mem (g_put 8 (mutex + FM_Owner) (0 :: u64)) s) (\<lambda>s.
     if count AND fm_lock_bit \<noteq> 0 then Inr (0, s)
     else if sint fm_waiter_increment \<le> sint count then
       bind_result (with_mem (g_put 4 (mutex + FM_Count) (count - fm_waiter_increment)) s) (\<lambda>s.
       bind_result (with_mem (set_state_at (mutex + FM_Event) 1) s) (\<lambda>s.
         Inr (mutex + FM_Event, s)))
     else
       bind_result (with_mem (g_put 4 (mutex + FM_Count) (count OR fm_lock_bit)) s) (\<lambda>s. Inr (0, s))))"

definition KeInitializeGuardedMutex :: "addr \<Rightarrow> nt_state \<Rightarrow> emu_error + nt_state" where
  "KeInitializeGuardedMutex mutex s =
     (if mutex = 0 then Inr s
      else
        bind_result (with_mem (g_put 4 (mutex + FM_Count) fm_lock_bit) s) (\<lambda>s.
        bind_result (with_mem (g_put 8 (mutex + FM_Owner) (0 :: u64)) s) (\<lambda>s.
        bind_result (with_mem (g_put 4 (mutex + FM_Contention) (0 :: u32)) s) (\<lambda>s.
          with_mem (init_dispatcher (mutex + FM_Event) sizeof_KEVENT event_synchronization_object 0) s))))"

definition ExAcquireFastMutex :: "addr option \<Rightarrow> addr \<Rightarrow> nt_state \<Rightarrow> emu_error + nt_state" where
  "ExAcquireFastMutex irql_at mutex s =
     (if mutex = 0 then Inr s
      else
        bind_result (set_irql irql_at apc_level s) (\<lambda>(old_irql, s).
        bind_result (take_mutex mutex s) (\<lambda>(owned, s).
        bind_result (own_mutex mutex s) (\<lambda>s.
          with_mem (g_put 4 (mutex + FM_OldIrql) (ucast old_irql :: u32)) s))))"

text \<open>\<open>if (wake) wake_waiters(wake)\<close>.\<close>

definition wake_event :: "addr \<Rightarrow> nt_state \<Rightarrow> emu_error + nt_state" where
  "wake_event wake s = (if wake \<noteq> 0 then wake_waiters wake s else Inr s)"

definition ExReleaseFastMutex :: "addr option \<Rightarrow> addr \<Rightarrow> nt_state \<Rightarrow> emu_error + nt_state" where
  "ExReleaseFastMutex irql_at mutex s =
     (if mutex = 0 then Inr s
      else
        bind_result (g_get 4 (mutex + FM_OldIrql) (gm s)) (\<lambda>old :: u32.
        bind_result (give_mutex mutex s) (\<lambda>(wake, s).
        bind_result (wake_event wake s) (\<lambda>s.
        bind_result (set_irql irql_at (ucast old) s) (\<lambda>(_, s). Inr s)))))"

definition ExTryToAcquireFastMutex :: "addr option \<Rightarrow> addr \<Rightarrow> nt_state \<Rightarrow> emu_error + bool \<times> nt_state" where
  "ExTryToAcquireFastMutex irql_at mutex s =
     (if mutex = 0 then Inr (False, s)
      else
        bind_result (set_irql irql_at apc_level s) (\<lambda>(old_irql, s).
        bind_result (mutex_count mutex (gm s)) (\<lambda>count.
        if count AND fm_lock_bit = 0 then
          bind_result (set_irql irql_at old_irql s) (\<lambda>(_, s). Inr (False, s))
        else
          bind_result (with_mem (g_put 4 (mutex + FM_Count) (count AND NOT fm_lock_bit)) s) (\<lambda>s.
          bind_result (own_mutex mutex s) (\<lambda>s.
          bind_result (with_mem (g_put 4 (mutex + FM_OldIrql) (ucast old_irql :: u32)) s) (\<lambda>s.
            Inr (True, s)))))))"

definition ExAcquireFastMutexUnsafe :: "addr \<Rightarrow> nt_state \<Rightarrow> emu_error + nt_state" where
  "ExAcquireFastMutexUnsafe mutex s =
     (if mutex = 0 then Inr s
      else bind_result (take_mutex mutex s) (\<lambda>(owned, s). own_mutex mutex s))"

definition ExReleaseFastMutexUnsafe :: "addr \<Rightarrow> nt_state \<Rightarrow> emu_error + nt_state" where
  "ExReleaseFastMutexUnsafe mutex s =
     (if mutex = 0 then Inr s
      else bind_result (give_mutex mutex s) (\<lambda>(wake, s). wake_event wake s))"

section \<open>Events, mutexes and semaphores\<close>

definition KMUTANT_MutantListEntry :: addr where "KMUTANT_MutantListEntry = 0x18"
definition KMUTANT_MutantFlags :: addr where "KMUTANT_MutantFlags = 0x30"
definition KMUTANT_ApcDisable :: addr where "KMUTANT_ApcDisable = 0x31"

definition KeInitializeEvent :: "addr \<Rightarrow> u32 \<Rightarrow> u8 \<Rightarrow> nt_state \<Rightarrow> emu_error + nt_state" where
  "KeInitializeEvent event type state s =
     (if event = 0 then Inr s
      else with_mem (init_dispatcher event sizeof_KEVENT
             (if type = 0 then event_notification_object else event_synchronization_object)
             (if state \<noteq> 0 then 1 else 0)) s)"

definition KeSetEvent :: "addr \<Rightarrow> nt_state \<Rightarrow> emu_error + u32 \<times> nt_state" where
  "KeSetEvent event s =
     (if event = 0 then Inr (0, s)
      else
        bind_result (state_at event (gm s)) (\<lambda>previous.
        bind_result (with_mem (set_state_at event 1) s) (\<lambda>s.
        bind_result (wake_waiters event s) (\<lambda>s. Inr (previous, s)))))"

definition KeResetEvent :: "addr \<Rightarrow> nt_state \<Rightarrow> emu_error + u32 \<times> nt_state" where
  "KeResetEvent event s =
     (if event = 0 then Inr (0, s)
      else
        bind_result (state_at event (gm s)) (\<lambda>previous.
        bind_result (with_mem (set_state_at event 0) s) (\<lambda>s. Inr (previous, s))))"

definition KeInitializeMutex :: "addr \<Rightarrow> nt_state \<Rightarrow> emu_error + nt_state" where
  "KeInitializeMutex mutex s =
     (if mutex = 0 then Inr s
      else
        bind_result (with_mem (init_dispatcher mutex sizeof_KMUTANT mutant_object 1) s) (\<lambda>s.
        bind_result (with_mem (g_write (mutex + KMUTANT_MutantListEntry) (replicate 16 0)) s) (\<lambda>s.
        bind_result (with_mem (set_owner_at mutex 0) s) (\<lambda>s.
        bind_result (with_mem (g_put 1 (mutex + KMUTANT_MutantFlags) (0 :: u8)) s) (\<lambda>s.
          with_mem (g_put 1 (mutex + KMUTANT_ApcDisable) (1 :: u8)) s)))))"

definition KeReleaseMutex :: "addr \<Rightarrow> nt_state \<Rightarrow> emu_error + u32 \<times> nt_state" where
  "KeReleaseMutex mutex s =
     (if mutex = 0 then Inr (0, s)
      else
        bind_result (state_at mutex (gm s)) (\<lambda>previous.
        bind_result (with_mem (set_state_at mutex (previous + 1)) s) (\<lambda>s.
        bind_result (with_mem (set_owner_at mutex 0) s) (\<lambda>s.
        bind_result (wake_waiters mutex s) (\<lambda>s. Inr (previous, s))))))"

definition KeInitializeSemaphore :: "addr \<Rightarrow> u32 \<Rightarrow> u32 \<Rightarrow> nt_state \<Rightarrow> emu_error + nt_state" where
  "KeInitializeSemaphore semaphore count limit s =
     (if semaphore = 0 then Inr s
      else
        bind_result (with_mem (init_dispatcher semaphore sizeof_KSEMAPHORE semaphore_object count) s)
          (with_mem (g_put 4 (semaphore + KSEMAPHORE_Limit) limit)))"

definition KeReleaseSemaphore :: "addr \<Rightarrow> u32 \<Rightarrow> nt_state \<Rightarrow> emu_error + u32 \<times> nt_state" where
  "KeReleaseSemaphore semaphore adjustment s =
     (if semaphore = 0 then Inr (0, s)
      else
        bind_result (state_at semaphore (gm s)) (\<lambda>previous.
        bind_result (g_get 4 (semaphore + KSEMAPHORE_Limit) (gm s)) (\<lambda>limit :: u32.
        if sint limit < sint (previous + adjustment) then Inr (previous, s)
        else
          bind_result (with_mem (set_state_at semaphore (previous + adjustment)) s) (\<lambda>s.
          bind_result (wake_waiters semaphore s) (\<lambda>s. Inr (previous, s))))))"

definition KeReadStateMutant :: "addr \<Rightarrow> nt_state \<Rightarrow> emu_error + u32" where
  "KeReadStateMutant object s = (if object = 0 then Inr 0 else state_at object (gm s))"

definition InitializeSListHead :: "addr \<Rightarrow> nt_state \<Rightarrow> emu_error + nt_state" where
  "InitializeSListHead slist_head s =
     (if slist_head = 0 then Inr s else with_mem (g_write slist_head (replicate 16 0)) s)"

section \<open>Critical and guarded regions\<close>

definition apc_disable :: "addr \<Rightarrow> int \<Rightarrow> nt_state \<Rightarrow> emu_error + int \<times> nt_state" where
  "apc_disable off delta s =
     (case current_thread s of
        None \<Rightarrow> Inr (0, s)
      | Some t \<Rightarrow>
          if ethread t = 0 then Inr (0, s)
          else
            bind_result (g_get 2 (ethread t + off) (gm s)) (\<lambda>count :: u16.
            let updated = sint count + delta in
            bind_result (with_mem (g_put 2 (ethread t + off) (word_of_int updated :: u16)) s) (\<lambda>s.
              Inr (updated, s))))"

definition KeEnterCriticalRegion :: "addr \<Rightarrow> nt_state \<Rightarrow> emu_error + nt_state" where
  "KeEnterCriticalRegion off s = bind_result (apc_disable off (- 1) s) (\<lambda>(_, s). Inr s)"

definition KeLeaveCriticalRegion :: "addr \<Rightarrow> nt_state \<Rightarrow> emu_error + nt_state" where
  "KeLeaveCriticalRegion off s = bind_result (apc_disable off 1 s) (\<lambda>(_, s). Inr s)"

section \<open>What a fast mutex promises\<close>

text \<open>
  \<open>n\<close> is none while the mutex is free and the number of threads queued while it is held. The
  event inside the mutex is a synchronisation event that is not signalled, and the threads that
  wait for it wait for nothing else.
\<close>

definition event_bytes :: "u32 \<Rightarrow> u8 list \<Rightarrow> bool" where
  "event_bytes state bs \<longleftrightarrow>
     length bs = 0x38 \<and> field_get 0x18 1 bs = event_synchronization_object \<and>
     field_get 0x1A 1 bs \<noteq> (0 :: u8) \<and> field_get 0x1C 4 bs = state"

fun count_word :: "nat option \<Rightarrow> u32" where
  "count_word None = 1"
| "count_word (Some k) = of_nat (4 * k)"

definition mutex_at :: "addr \<Rightarrow> nat option \<Rightarrow> gmem \<Rightarrow> bool" where
  "mutex_at m n g \<longleftrightarrow>
     m \<noteq> 0 \<and> m + FM_Event \<noteq> 0 \<and>
     (\<exists>bs. struct_at m bs g \<and> event_bytes 0 bs \<and> field_get 0 4 bs = count_word n)"

definition fm_ok :: "addr \<Rightarrow> nat option \<Rightarrow> nt_state \<Rightarrow> bool" where
  "fm_ok m n s \<longleftrightarrow>
     mutex_at m n (gm s) \<and> distinct (map fst (procthreads s)) \<and> orderly (m + FM_Event) (procthreads s) \<and>
     length (queue_of (m + FM_Event) (procthreads s)) = (case n of None \<Rightarrow> 0 | Some k \<Rightarrow> k)"

lemma event_fields:
  assumes "struct_at m bs g" and "event_bytes st bs"
  shows "type_at (m + FM_Event) g = Inr event_synchronization_object" "state_at (m + FM_Event) g = Inr st"
    "g_get 1 (m + FM_Event + DH_Size) g = Inr (field_get 0x1A 1 bs :: u8)"
    "set_state_at (m + FM_Event) v g = Inr (g_set m (field_put 0x1C 4 v bs) g)"
proof -
  have off: "m + FM_Event + DH_SignalState = m + 0x1C" "m + FM_Event + DH_Type = m + 0x18" "m + FM_Event + DH_Size = m + 0x1A"
    by (simp_all add: fm_defs dh_defs)
  note b = assms(2) [unfolded event_bytes_def]
  show "type_at (m + FM_Event) g = Inr event_synchronization_object" "state_at (m + FM_Event) g = Inr st"
    "g_get 1 (m + FM_Event + DH_Size) g = Inr (field_get 0x1A 1 bs :: u8)"
    "set_state_at (m + FM_Event) v g = Inr (g_set m (field_put 0x1C 4 v bs) g)"
    using b by (simp_all add: type_at_def state_at_def set_state_at_def off struct_get [OF assms(1)] struct_put [OF assms(1)])
qed

text \<open>The event serves one waiter: it is signalled until it is taken.\<close>

lemma event_served:
  assumes "struct_at m bs g" and "event_bytes st bs" and "st = 0 \<or> st = 1"
  shows "is_signalled (m + FM_Event) self g = Inr (st = 1)"
    "take_object (m + FM_Event) self g = Inr (g_set m (field_put 0x1C 4 (0 :: u32) bs) g)"
  using assms(3) event_fields [OF assms(1,2)] by (auto simp: is_signalled_def take_object_def dispatcher_types)

lemma event_bytes_put:
  "event_bytes st bs \<Longrightarrow> event_bytes st' (field_put 0x1C 4 st' bs)"
  "event_bytes st bs \<Longrightarrow> off + n \<le> 0x18 \<Longrightarrow> event_bytes st (field_put off n v bs)"
  by (auto simp: event_bytes_def field_get_put_other field_get_put_full)

lemma mutex_at_set:
  assumes "m \<noteq> 0" and "m + FM_Event \<noteq> 0" and "event_bytes 0 bs" and "field_get 0 4 bs = count_word n"
  shows "mutex_at m n (g_set m bs g)"
  using assms by (auto simp: mutex_at_def event_bytes_def intro!: exI [of _ bs])

lemma count_word_bits:
  assumes "k < 2 ^ 29"
  shows "count_word (Some k) AND fm_lock_bit = 0" "count_word (Some k) OR fm_lock_bit = of_nat (4 * k + 1)"
    "sint fm_waiter_increment \<le> sint (count_word (Some k)) \<longleftrightarrow> 1 \<le> k"
    "count_word (Some k) + fm_waiter_increment = count_word (Some (k + 1))"
    "1 \<le> k \<Longrightarrow> count_word (Some k) - fm_waiter_increment = count_word (Some (k - 1))"
proof -
  have e: "even (of_nat (4 * k) :: u32)" by simp
  then show "count_word (Some k) AND fm_lock_bit = 0" "count_word (Some k) OR fm_lock_bit = of_nat (4 * k + 1)"
    by (simp_all only: count_word.simps fm_lock_bit_def and_one_eq or_one_eq) (simp_all add: mod_2_eq_odd)
  have "sint (of_nat (4 * k) :: u32) = 4 * int k"
    using assms by (simp only: signed_of_nat) (simp add: signed_take_bit_int_eq_self)
  then show "sint fm_waiter_increment \<le> sint (count_word (Some k)) \<longleftrightarrow> 1 \<le> k"
    by (simp add: fm_waiter_increment_def del: of_nat_mult)
  show "count_word (Some k) + fm_waiter_increment = count_word (Some (k + 1))"
    by (simp add: fm_waiter_increment_def)
  show "count_word (Some k) - fm_waiter_increment = count_word (Some (k - 1))" if "1 \<le> k"
    using that by (simp add: fm_waiter_increment_def of_nat_diff)
qed

text \<open>Releasing: without a queue the mutex becomes free, with one the first of it is handed the mutex.\<close>

lemma fm_struct:
  assumes "mutex_at m n g"
  obtains bs where "struct_at m bs g" and "event_bytes 0 bs" and "length bs = 0x38"
    and "field_get 0 4 bs = count_word n" and "m \<noteq> 0" and "m + FM_Event \<noteq> 0"
  using assms by (auto simp: mutex_at_def event_bytes_def)

lemma release_alone:
  assumes "fm_ok m (Some 0) s"
  shows "\<exists>g. ExReleaseFastMutexUnsafe m s = Inr (s\<lparr>gm := g\<rparr>) \<and> fm_ok m None (s\<lparr>gm := g\<rparr>)"
proof -
  obtain bs where bs: "struct_at m bs (gm s)" "event_bytes 0 bs" "length bs = 0x38"
    "field_get 0 4 bs = count_word (Some 0)" "m \<noteq> 0" "m + FM_Event \<noteq> 0"
    using assms fm_struct unfolding fm_ok_def by blast
  let ?bs = "field_put 0 4 (1 :: u32) (field_put 8 8 (0 :: u64) bs)"
  have "ExReleaseFastMutexUnsafe m s = Inr (s\<lparr>gm := g_set m ?bs (gm s)\<rparr>)"
    using bs by (simp add: ExReleaseFastMutexUnsafe_def give_mutex_def mutex_count_def wake_event_def with_mem_def
        fm_lock_bit_def fm_waiter_increment_def FM_Count_def FM_Owner_def struct_simps)
  moreover have "mutex_at m None (g_set m ?bs (gm s))"
    by (rule mutex_at_set) (use bs in \<open>simp_all add: event_bytes_put struct_simps\<close>)
  ultimately show ?thesis using assms by (auto simp: fm_ok_def)
qed

lemma release_handed:
  assumes "fm_ok m (Some (Suc k)) s" and "Suc k < 2 ^ 29"
  shows "\<exists>us j u vs g. procthreads s = us @ (j, u) # vs \<and> queued (m + FM_Event) u \<and>
    queue_of (m + FM_Event) us = [] \<and>
    (let s' = s\<lparr>procthreads := us @ (j, handed u) # vs, gm := g, woken := True\<rparr> in
     ExReleaseFastMutexUnsafe m s = Inr s' \<and> fm_ok m (Some k) s')"
proof -
  let ?ev = "m + FM_Event"
  have mt: "mutex_at m (Some (Suc k)) (gm s)" and th: "orderly ?ev (procthreads s)"
    and len: "length (queue_of ?ev (procthreads s)) = Suc k" and ids: "distinct (map fst (procthreads s))"
    using assms(1) by (simp_all add: fm_ok_def)
  obtain bs where bs: "struct_at m bs (gm s)" "event_bytes 0 bs" "length bs = 0x38"
    "field_get 0 4 bs = count_word (Some (Suc k))" "m \<noteq> 0" "?ev \<noteq> 0"
    using mt fm_struct by blast
  have "queue_of ?ev (procthreads s) \<noteq> []" using len by auto
  then obtain us j u vs where sp: "procthreads s = us @ (j, u) # vs" "queue_of ?ev us = []" "queued ?ev u"
    "queue_of ?ev (procthreads s) = (j, u) # queue_of ?ev vs" by (rule queue_split)
  let ?b1 = "field_put 0 4 (count_word (Some k)) (field_put 8 8 (0 :: u64) bs)"
  let ?b2 = "field_put 0x1C 4 (1 :: u32) ?b1" and ?b3 = "field_put 0x1C 4 (0 :: u32) (field_put 0x1C 4 (1 :: u32) ?b1)"
  note cw = count_word_bits [OF assms(2)]
  have b1: "event_bytes 0 ?b1" "length ?b1 = 0x38" using bs by (simp_all add: event_bytes_put)
  have b2: "event_bytes 1 ?b2" "length ?b2 = 0x38" using event_bytes_put(1) [OF b1(1)] b1(2) by simp_all
  have b3: "event_bytes 0 ?b3" "length ?b3 = 0x38" "field_get 0 4 ?b3 = count_word (Some k)"
    using event_bytes_put(1) [OF b2(1)] bs(3) by (simp_all add: struct_simps)
  have ss: "set_state_at ?ev 1 (g_set m ?b1 (gm s)) = Inr (g_set m ?b2 (gm s))"
    using event_fields(4) [of m ?b1 "g_set m ?b1 (gm s)" 0 1] b1 b2(2) by simp
  have give: "give_mutex m s = Inr (?ev, s\<lparr>gm := g_set m ?b2 (gm s)\<rparr>)"
    using bs cw ss by (simp add: give_mutex_def mutex_count_def with_mem_def FM_Count_def FM_Owner_def struct_simps
        del: count_word.simps)
  let ?g2 = "g_set m ?b2 (gm s)" and ?g3 = "g_set m ?b3 (gm s)"
  have st: "struct_at m ?b2 ?g2" "struct_at m ?b3 ?g3" "g_set m ?b3 ?g2 = ?g3" using b2(2) b3(2) by simp_all
  have "wake_loop ?ev (us @ (j, u) # vs) ?g2 = Inr (True, us @ (j, handed u) # vs, ?g3)"
  proof (rule wake_loop_first [OF _ _ _ sp(3) _ sp(2)])
    show "is_signalled ?ev self ?g2 = Inr True" "take_object ?ev self ?g2 = Inr ?g3" for self
      using event_served [OF st(1) b2(1), of self] unfolding st(3) by simp_all
    show "is_signalled ?ev self ?g3 = Inr False" for self using event_served(1) [OF st(2) b3(1), of self] by simp
    show "orderly ?ev (us @ (j, u) # vs)" using th sp(1) by simp
  qed
  then have rel: "ExReleaseFastMutexUnsafe m s =
      Inr (s\<lparr>procthreads := us @ (j, handed u) # vs, gm := ?g3, woken := True\<rparr>)"
    using give bs(5,6) sp(1) by (simp add: ExReleaseFastMutexUnsafe_def wake_event_def wake_waiters_def)
  have "fm_ok m (Some k) (s\<lparr>procthreads := us @ (j, handed u) # vs, gm := ?g3, woken := True\<rparr>)"
    using mutex_at_set [OF bs(5,6) b3(1,3), of "gm s"] ids th sp len by (simp add: fm_ok_def)
  then show ?thesis
    using rel sp(1-3)
    by (intro exI [of _ us] exI [of _ j] exI [of _ u] exI [of _ vs] exI [of _ ?g3]) (simp add: Let_def)
qed

lemma acquire_free:
  assumes "fm_ok m None s"
  shows "\<exists>g. ExAcquireFastMutexUnsafe m s = Inr (s\<lparr>gm := g\<rparr>) \<and> fm_ok m (Some 0) (s\<lparr>gm := g\<rparr>)"
proof -
  obtain bs where bs: "struct_at m bs (gm s)" "event_bytes 0 bs" "length bs = 0x38"
    "field_get 0 4 bs = count_word None" "m \<noteq> 0" "m + FM_Event \<noteq> 0"
    using assms fm_struct unfolding fm_ok_def by blast
  let ?o = "case current_thread s of Some t \<Rightarrow> ethread t | None \<Rightarrow> 0"
  let ?bs = "field_put 8 8 ?o (field_put 0 4 (0 :: u32) bs)"
  have "current_thread (s\<lparr>gm := g\<rparr>) = current_thread s" for g by (simp add: current_thread_def split: option.split)
  then have "ExAcquireFastMutexUnsafe m s = Inr (s\<lparr>gm := g_set m ?bs (gm s)\<rparr>)"
    using bs by (simp add: ExAcquireFastMutexUnsafe_def take_mutex_def own_mutex_def mutex_count_def with_mem_def
        fm_lock_bit_def FM_Count_def FM_Owner_def struct_simps)
  moreover have "mutex_at m (Some 0) (g_set m ?bs (gm s))"
    by (rule mutex_at_set) (use bs in \<open>simp_all add: event_bytes_put struct_simps\<close>)
  ultimately show ?thesis using assms by (auto simp: fm_ok_def)
qed

lemma acquire_held:
  assumes "fm_ok m (Some k) s" and "k < 2 ^ 29" and "current s = Some i" and "procthreads s = us @ (i, t) # vs"
    and "wait t = None"
  shows "\<exists>g. let s' = s\<lparr>procthreads := us @ (i, t\<lparr>wait := Some (lone_wait (m + FM_Event))\<rparr>) # vs, gm := g, yielded := True\<rparr> in
    ExAcquireFastMutexUnsafe m s = Inr s' \<and> fm_ok m (Some (k + 1)) s'"
proof -
  let ?ev = "m + FM_Event" and ?t = "t\<lparr>wait := Some (lone_wait (m + FM_Event))\<rparr>"
  have mt: "mutex_at m (Some k) (gm s)" and ids: "distinct (map fst (procthreads s))"
    using assms(1) by (simp_all add: fm_ok_def)
  obtain bs where bs: "struct_at m bs (gm s)" "event_bytes 0 bs" "length bs = 0x38"
    "field_get 0 4 bs = count_word (Some k)" "m \<noteq> 0" "?ev \<noteq> 0"
    using fm_struct [OF mt] by blast
  have sz: "field_get 0x1A 1 bs \<noteq> (0 :: u8)" using bs(2) by (simp add: event_bytes_def)
  have cur: "current_thread s = Some t" by (rule current_thread_split [OF assms(3,4) ids])
  let ?b1 = "field_put 0 4 (count_word (Some (k + 1))) (field_put 0x10 4 (field_get 0x10 4 bs + 1 :: u32) bs)"
  let ?b2 = "field_put 8 8 (ethread t) ?b1"
  have b1: "event_bytes 0 ?b1" "length ?b1 = 0x38" "length bs < 2 ^ 64" using bs by (simp_all add: event_bytes_put)
  have b2: "event_bytes 0 ?b2" "field_get 0 4 ?b2 = count_word (Some (k + 1))"
    using event_bytes_put(2) [OF b1(1), of 8 8 "ethread t"] bs(3) by (simp_all add: struct_simps del: count_word.simps)
  let ?g1 = "g_set m ?b1 (gm s)"
  have q: "queued ?ev ?t" "waiting_on ?ev ?t" by simp_all
  have "begin_wait 0 0 (lone_wait ?ev) t = ?t" by (simp add: begin_wait_def lone_wait_def)
  moreover have "try_satisfy (?t, ?g1) = Inr (False, ?t, ?g1)"
    using try_single [of ?ev ?g1 False ?g1 ?t] event_served(1) [of m ?b1 ?g1 0] b1 q by simp
  moreover note count_word_bits(1,4) [OF assms(2)]
  moreover have "g_get 4 m (gm s) = Inr (count_word (Some k))" "g_get 4 (m + 0x10) (gm s) = Inr (field_get 0x10 4 bs :: u32)"
    "g_put 4 (m + 0x10) (field_get 0x10 4 bs + 1 :: u32) (gm s) = Inr (g_set m (field_put 0x10 4 (field_get 0x10 4 bs + 1 :: u32) bs) (gm s))"
    "g_put 4 m (count_word (Some (k + 1))) (g_set m (field_put 0x10 4 (field_get 0x10 4 bs + 1 :: u32) bs) (gm s)) = Inr ?g1"
    using bs by (simp_all add: struct_simps del: count_word.simps)
  ultimately have "take_mutex m s = Inr (False, (set_current i ?t s)\<lparr>gm := ?g1, yielded := True\<rparr>)"
    using sz assms(3) cur event_fields(3) [OF bs(1,2)]
    by (simp add: take_mutex_def mutex_count_def with_mem_def FM_Count_def FM_Contention_def
        set_current_def del: count_word.simps One_nat_def)
  moreover have sc: "procthreads (set_current i ?t s) = us @ (i, ?t) # vs"
    using set_current_split [OF assms(4) ids] .
  moreover have "current_thread ((set_current i ?t s)\<lparr>gm := ?g1, yielded := True\<rparr>) = Some ?t"
  proof -
    have "map_of (us @ (i, ?t) # vs) i = Some ?t" using ids assms(4) by (intro map_of_is_SomeI) auto
    then show ?thesis using assms(3) sc by (simp add: current_thread_def) (simp add: set_current_def)
  qed
  ultimately have "ExAcquireFastMutexUnsafe m s = Inr ((set_current i ?t s)\<lparr>gm := g_set m ?b2 (gm s), yielded := True\<rparr>)"
    using bs b1(2) by (simp add: ExAcquireFastMutexUnsafe_def own_mutex_def with_mem_def FM_Owner_def struct_simps
        del: count_word.simps)
  moreover have "(set_current i ?t s)\<lparr>gm := g_set m ?b2 (gm s), yielded := True\<rparr> =
      s\<lparr>procthreads := us @ (i, ?t) # vs, gm := g_set m ?b2 (gm s), yielded := True\<rparr>" (is "_ = ?s'")
    using sc by (simp add: set_current_def)
  moreover have "\<not> queued ?ev t" using assms(5) by (simp add: queued_def)
  then have "fm_ok m (Some (k + 1)) ?s'"
    using mutex_at_set [OF bs(5,6) b2, of "gm s"] assms(1,4) q unfolding fm_ok_def by auto
  ultimately show ?thesis by (auto simp: Let_def)
qed

section \<open>Properties\<close>

text \<open>
  C14: A fast mutex is held by one thread at a time and handed over in turn. Acquiring a free mutex
  takes it without waiting; acquiring a held one queues the running thread on the event of the
  mutex and yields. Releasing a mutex nobody waits for frees it; otherwise it stays held, and
  exactly the first queued thread, in the order of the ids, is released from its wait while the
  others stay queued and the event is left unsignalled. The count in memory keeps telling how
  many threads are queued.
\<close>

theorem fast_mutex_correct:
  assumes "fm_ok m n s" and "n \<noteq> None \<longrightarrow> the n < 2 ^ 29"
  shows "(n = None \<longrightarrow> (\<exists>g. ExAcquireFastMutexUnsafe m s = Inr (s\<lparr>gm := g\<rparr>) \<and> fm_ok m (Some 0) (s\<lparr>gm := g\<rparr>))) \<and>
    (\<forall>k i us t vs. n = Some k \<longrightarrow> current s = Some i \<longrightarrow> procthreads s = us @ (i, t) # vs \<longrightarrow> wait t = None \<longrightarrow>
       (\<exists>g. let s' = s\<lparr>procthreads := us @ (i, t\<lparr>wait := Some (lone_wait (m + FM_Event))\<rparr>) # vs, gm := g, yielded := True\<rparr> in
        ExAcquireFastMutexUnsafe m s = Inr s' \<and> fm_ok m (Some (k + 1)) s')) \<and>
    (n = Some 0 \<longrightarrow> (\<exists>g. ExReleaseFastMutexUnsafe m s = Inr (s\<lparr>gm := g\<rparr>) \<and> fm_ok m None (s\<lparr>gm := g\<rparr>))) \<and>
    (\<forall>k. n = Some (Suc k) \<longrightarrow>
       (\<exists>us j u vs g. procthreads s = us @ (j, u) # vs \<and> queued (m + FM_Event) u \<and>
          queue_of (m + FM_Event) us = [] \<and>
          (let s' = s\<lparr>procthreads := us @ (j, handed u) # vs, gm := g, woken := True\<rparr> in
           ExReleaseFastMutexUnsafe m s = Inr s' \<and> fm_ok m (Some k) s')))"
proof (intro conjI allI impI)
  show "\<exists>g. ExAcquireFastMutexUnsafe m s = Inr (s\<lparr>gm := g\<rparr>) \<and> fm_ok m (Some 0) (s\<lparr>gm := g\<rparr>)" if "n = None"
    using acquire_free assms(1) that by simp
  show "\<exists>g. let s' = s\<lparr>procthreads := us @ (i, t\<lparr>wait := Some (lone_wait (m + FM_Event))\<rparr>) # vs, gm := g, yielded := True\<rparr> in
      ExAcquireFastMutexUnsafe m s = Inr s' \<and> fm_ok m (Some (k + 1)) s'"
    if "n = Some k" "current s = Some i" "procthreads s = us @ (i, t) # vs" "wait t = None" for k i us t vs
    using acquire_held [of m k s i us t vs] assms that by simp
  show "\<exists>g. ExReleaseFastMutexUnsafe m s = Inr (s\<lparr>gm := g\<rparr>) \<and> fm_ok m None (s\<lparr>gm := g\<rparr>)" if "n = Some 0"
    using release_alone assms(1) that by simp
  show "\<exists>us j u vs g. procthreads s = us @ (j, u) # vs \<and> queued (m + FM_Event) u \<and>
      queue_of (m + FM_Event) us = [] \<and>
      (let s' = s\<lparr>procthreads := us @ (j, handed u) # vs, gm := g, woken := True\<rparr> in
       ExReleaseFastMutexUnsafe m s = Inr s' \<and> fm_ok m (Some k) s')" if "n = Some (Suc k)" for k
    using release_handed [of m k s] assms that by simp
qed

text \<open>Two threads queue on the mutex at 0x1000, which a third one holds.\<close>

definition idle_thread :: "nat \<Rightarrow> win_thread" where
  "idle_thread i = \<lparr>tid = i, ethread = of_nat (0x9000 + i * 0x1000), wait = None, alerted = False, suspend_count = 0,
     started = True, finished = False, sleep_until = 0, ret_value = 0\<rparr>"

definition queued_thread :: "nat \<Rightarrow> win_thread" where
  "queued_thread i = (idle_thread i)\<lparr>wait := Some (lone_wait 0x1018)\<rparr>"

definition mutex_mem :: gmem where
  "mutex_mem x =
     (if x = 0x1000 then Some 8 else if x = 0x1018 then Some 1 else if x = 0x101A then Some 6
      else if 0x1000 \<le> x \<and> x < 0x1038 then Some 0 else None)"

definition mutex_state :: nt_state where
  "mutex_state = demo_state\<lparr>gm := mutex_mem, current := Some 1,
     procthreads := [(1, idle_thread 1), (2, queued_thread 2), (3, queued_thread 3)]\<rparr>"

lemma mutex_state_ok: "fm_ok 0x1000 (Some 2) mutex_state"
proof -
  let ?bs = "case g_read 0x38 0x1000 mutex_mem of Inr bs \<Rightarrow> bs | Inl _ \<Rightarrow> []"
  have "g_read 0x38 0x1000 mutex_mem = Inr ?bs" "length ?bs = 0x38" "field_get 0x18 1 ?bs = (1 :: u8)"
    "field_get 0x1A 1 ?bs = (6 :: u8)" "field_get 0x1C 4 ?bs = (0 :: u32)" "field_get 0 4 ?bs = (8 :: u32)"
    by code_simp+
  then have "struct_at 0x1000 ?bs mutex_mem" "event_bytes 0 ?bs" "field_get 0 4 ?bs = count_word (Some 2)"
    by (simp_all add: struct_at_def event_bytes_def dispatcher_types)
  then have "mutex_at 0x1000 (Some 2) mutex_mem" by (auto simp: mutex_at_def FM_Event_def)
  then show ?thesis
    by (simp add: fm_ok_def mutex_state_def queued_thread_def idle_thread_def lone_wait_def queued_def waiting_on_def FM_Event_def)
qed

theorem fast_mutex_correct_witness:
  "\<exists>s'. ExReleaseFastMutexUnsafe 0x1000 mutex_state = Inr s' \<and> fm_ok 0x1000 (Some 1) s' \<and>
     procthreads s' = [(1, idle_thread 1), (2, handed (queued_thread 2)), (3, queued_thread 3)]"
proof -
  have th: "procthreads mutex_state = [(1, idle_thread 1), (2, queued_thread 2), (3, queued_thread 3)]"
    by (simp add: mutex_state_def)
  have q: "\<not> queued 0x1018 (idle_thread 1)" "queued 0x1018 (queued_thread 2)"
    by (simp_all add: queued_def idle_thread_def queued_thread_def lone_wait_def)
  have "Some (2 :: nat) = Some (Suc 1)" by simp
  then obtain us j u vs g where r: "procthreads mutex_state = us @ (j, u) # vs" "queued 0x1018 u"
    "queue_of 0x1018 us = []"
    "ExReleaseFastMutexUnsafe 0x1000 mutex_state =
       Inr (mutex_state\<lparr>procthreads := us @ (j, handed u) # vs, gm := g, woken := True\<rparr>)"
    "fm_ok 0x1000 (Some 1) (mutex_state\<lparr>procthreads := us @ (j, handed u) # vs, gm := g, woken := True\<rparr>)"
    using fast_mutex_correct [OF mutex_state_ok] by (auto simp: Let_def FM_Event_def)
  have "us = [(1, idle_thread 1)] \<and> j = 2 \<and> u = queued_thread 2 \<and> vs = [(3, queued_thread 3)]"
    using r(1,2,3) q th by (auto simp: Cons_eq_append_conv split: if_splits)
  then show ?thesis using r(4,5) by auto
qed

text \<open>
  Entering and leaving a critical region cancel, whatever the count: the count is kept in 16 bits
  and wraps.
\<close>

lemma critical_region_balanced:
  assumes "current_thread s = Some t" and "ethread t \<noteq> 0" and "g_mapped (gm s) (ethread t + off) 2"
  shows "\<exists>g. bind_result (KeEnterCriticalRegion off s) (KeLeaveCriticalRegion off) = Inr (s\<lparr>gm := g\<rparr>) \<and>
    g_get 2 (ethread t + off) g = (g_get 2 (ethread t + off) (gm s) :: emu_error + u16)"
proof -
  have cur: "current_thread (s\<lparr>gm := g\<rparr>) = Some t" for g
    using assms(1) by (simp add: current_thread_def split: option.splits)
  obtain c :: u16 where c: "g_get 2 (ethread t + off) (gm s) = Inr c"
    using g_read_total [OF assms(3)] by (auto simp: g_get_def)
  obtain g1 where g1: "g_put 2 (ethread t + off) (word_of_int (sint c - 1) :: u16) (gm s) = Inr g1"
    using g_put_total [OF assms(3)] by blast
  let ?d = "word_of_int (sint c - 1) :: u16"
  have d: "g_get 2 (ethread t + off) g1 = Inr ?d" using g_get_put_same [OF g1] by (simp add: take_bit_word_eq_self)
  obtain g2 where g2: "g_put 2 (ethread t + off) (word_of_int (sint ?d + 1) :: u16) g1 = Inr g2"
    using g_put_total g_put_mapped [OF g1] assms(3) by blast
  have "word_of_int (sint ?d + 1) = c" by simp
  then have "g_get 2 (ethread t + off) g2 = Inr c" using g_get_put_same [OF g2] by (simp add: take_bit_word_eq_self)
  with assms(1,2) c g1 d g2 cur show ?thesis
    by (auto simp: KeEnterCriticalRegion_def KeLeaveCriticalRegion_def apc_disable_def Let_def with_mem_def)
qed

end
