(* ===== verification/Iocp.thy ===== *)
theory Iocp
  imports Wait_Queue Guest_Struct
begin

text \<open>
  \<open>kernel/win/modules/nt_iocp_ops.cpp\<close>: completion ports, wait completion packets and worker
  factories. The host objects are kept by their number; a \<open>make_shared\<close> takes the next one. The
  mutex of a port serialises its operations. A null pointer is zero, and the time limits and
  access masks that are only logged are left out.
\<close>

section \<open>State\<close>

record completion_packet =
  key_context :: addr
  apc_context :: addr
  pkt_status :: NTSTATUS
  information :: u64

record io_completion =
  io_name :: string
  io_body :: addr
  packets :: "completion_packet list"

record wait_packet =
  wp_port :: "nat option"
  wp_packet :: completion_packet
  associated :: bool

record worker_factory =
  wf_port :: nat
  start_routine :: addr
  start_parameter :: addr
  maximum_thread_count :: u32
  shut_down :: bool

record io_state =
  nt :: nt_state
  ports :: "(nat \<times> io_completion) list"
  wait_packets :: "(nat \<times> wait_packet) list"
  factories :: "(nat \<times> worker_factory) list"
  next_host :: nat

type_synonym io_service = "io_state \<Rightarrow> emu_error + NTSTATUS \<times> io_state"

definition KQ_EntryListHead :: addr where "KQ_EntryListHead = 0x18"
definition KQ_CurrentCount :: addr where "KQ_CurrentCount = 0x28"
definition KQ_MaximumCount :: addr where "KQ_MaximumCount = 0x2C"
definition KQ_ThreadListHead :: addr where "KQ_ThreadListHead = 0x30"
definition sizeof_KQUEUE :: nat where "sizeof_KQUEUE = 0x40"

lemmas kq_defs = KQ_EntryListHead_def KQ_CurrentCount_def KQ_MaximumCount_def KQ_ThreadListHead_def sizeof_KQUEUE_def

definition no_packet :: completion_packet where
  "no_packet = \<lparr>key_context = 0, apc_context = 0, pkt_status = STATUS_SUCCESS, information = 0\<rparr>"

definition no_wait_packet :: wait_packet where
  "no_wait_packet = \<lparr>wp_port = None, wp_packet = no_packet, associated = False\<rparr>"

fun as_port :: "win_object \<Rightarrow> nat option" where
  "as_port (Io_completion_host i) = Some i"
| "as_port _ = None"

fun as_wait_packet :: "win_object \<Rightarrow> nat option" where
  "as_wait_packet (Wait_packet_host i) = Some i"
| "as_wait_packet _ = None"

fun as_factory :: "win_object \<Rightarrow> nat option" where
  "as_factory (Worker_factory_host i) = Some i"
| "as_factory _ = None"

text \<open>\<open>get_object<T>(handle)\<close>: the number of the host object and the object.\<close>

definition host_of :: "(win_object \<Rightarrow> nat option) \<Rightarrow> (nat \<times> 'h) list \<Rightarrow> u64 \<Rightarrow> nt_state \<Rightarrow> (nat \<times> 'h) option" where
  "host_of cast hs handle s =
     (case get_handle_object cast handle (objs s) (table s) of
        None \<Rightarrow> None
      | Some i \<Rightarrow> map_option (Pair i) (umap_find i hs))"

definition port_from_handle :: "u64 \<Rightarrow> io_state \<Rightarrow> (nat \<times> io_completion) option" where
  "port_from_handle handle s = host_of as_port (ports s) handle (nt s)"

definition factory_from_handle :: "u64 \<Rightarrow> io_state \<Rightarrow> (nat \<times> worker_factory) option" where
  "factory_from_handle handle s = host_of as_factory (factories s) handle (nt s)"

definition io_mem :: "(gmem \<Rightarrow> emu_error + gmem) \<Rightarrow> io_state \<Rightarrow> emu_error + io_state" where
  "io_mem f s = bind_result (with_mem f (nt s)) (\<lambda>n. Inr (s\<lparr>nt := n\<rparr>))"

definition io_write_opt :: "nat \<Rightarrow> addr \<Rightarrow> 'a::len word \<Rightarrow> io_state \<Rightarrow> emu_error + io_state" where
  "io_write_opt n p v s = bind_result (write_opt n p v (nt s)) (\<lambda>t. Inr (s\<lparr>nt := t\<rparr>))"

section \<open>The queue of a port\<close>

text \<open>The signal state of the port and the count in its KQUEUE follow the depth.\<close>

definition resync :: "io_completion \<Rightarrow> gmem \<Rightarrow> emu_error + gmem" where
  "resync port g =
     (if io_body port = 0 then Inr g
      else
        bind_result (set_state_at (io_body port) (of_nat (length (packets port))) g)
          (g_put 4 (io_body port + KQ_CurrentCount) (of_nat (length (packets port)) :: u32)))"

definition port_push :: "nat \<Rightarrow> io_completion \<Rightarrow> completion_packet \<Rightarrow> io_state \<Rightarrow> emu_error + io_state" where
  "port_push i port packet s =
     (let port = port\<lparr>packets := packets port @ [packet]\<rparr> in
      io_mem (resync port) (s\<lparr>ports := umap_set i port (ports s)\<rparr>))"

definition port_pop :: "nat \<Rightarrow> io_completion \<Rightarrow> io_state \<Rightarrow> emu_error + completion_packet option \<times> io_state" where
  "port_pop i port s =
     (let (packet, port) =
        (case packets port of [] \<Rightarrow> (None, port) | p # ps \<Rightarrow> (Some p, port\<lparr>packets := ps\<rparr>))
      in bind_result (io_mem (resync port) (s\<lparr>ports := umap_set i port (ports s)\<rparr>)) (\<lambda>s. Inr (packet, s)))"

section \<open>Ports\<close>

definition io_create_handle :: "addr \<Rightarrow> u32 \<Rightarrow> addr \<Rightarrow> io_service" where
  "io_create_handle a acc handle_out s =
     bind_result (create_handle a acc (objs (nt s)) (table (nt s), gm (nt s))) (\<lambda>(h, t, g).
     bind_result (io_mem (g_put 8 handle_out h) (s\<lparr>nt := (nt s)\<lparr>table := t, gm := g\<rparr>\<rparr>)) (\<lambda>s.
       Inr (STATUS_SUCCESS, s)))"

definition io_create_object ::
  "allocator \<Rightarrow> u8 list \<Rightarrow> win_object \<Rightarrow> io_state \<Rightarrow> emu_error + addr \<times> io_state" where
  "io_create_object alloc body h s =
     bind_result (create_object alloc 0 (Some body) (of_nat (length body)) (Some h) kernel_rw
         (objs (nt s), gm (nt s))) (\<lambda>(a, om, g).
       Inr (a, s\<lparr>nt := (nt s)\<lparr>objs := om, gm := g\<rparr>\<rparr>))"

definition links_to_self :: "addr \<Rightarrow> gmem \<Rightarrow> emu_error + gmem" where
  "links_to_self head g = g_write head (le_enc 8 head @ le_enc 8 head) g"

definition CreateIoCompletion :: "allocator \<Rightarrow> addr \<Rightarrow> u32 \<Rightarrow> addr \<Rightarrow> u32 \<Rightarrow> io_service" where
  "CreateIoCompletion alloc handle_out acc attributes concurrent_threads s =
     (if handle_out = 0 then Inr (STATUS_INVALID_PARAMETER, s)
      else
        bind_result (attribute_name attributes (gm (nt s))) (\<lambda>name.
        let i = next_host s;
            port = \<lparr>io_name = name, io_body = 0, packets = []\<rparr>;
            s = s\<lparr>next_host := i + 1, ports := umap_set i port (ports s)\<rparr> in
        bind_result (io_create_object alloc (replicate sizeof_KQUEUE 0) (Io_completion_host i) s) (\<lambda>(a, s).
        if a = 0 then Inr (STATUS_INSUFFICIENT_RESOURCES, s)
        else
          bind_result (io_mem (init_dispatcher a sizeof_KQUEUE queue_object 0) s) (\<lambda>s.
          bind_result (io_mem (g_put 4 (a + KQ_MaximumCount)
              (if concurrent_threads \<noteq> 0 then concurrent_threads else 1)) s) (\<lambda>s.
          bind_result (io_mem (links_to_self (a + KQ_EntryListHead)) s) (\<lambda>s.
          bind_result (io_mem (links_to_self (a + KQ_ThreadListHead)) s) (\<lambda>s.
          let s = s\<lparr>ports := umap_set i (port\<lparr>io_body := a\<rparr>) (ports s)\<rparr>;
              s = (if name \<noteq> [] then s\<lparr>nt := (nt s)\<lparr>objs := register_named_object name a (objs (nt s))\<rparr>\<rparr> else s) in
          io_create_handle a acc handle_out s)))))))"

definition io_wake :: "addr \<Rightarrow> io_state \<Rightarrow> emu_error + io_state" where
  "io_wake a s = bind_result (wake_waiters a (nt s)) (\<lambda>n. Inr (s\<lparr>nt := n\<rparr>))"

definition SetIoCompletion :: "u64 \<Rightarrow> completion_packet \<Rightarrow> io_service" where
  "SetIoCompletion handle packet s =
     (case port_from_handle handle s of
        None \<Rightarrow> Inr (STATUS_INVALID_HANDLE, s)
      | Some (i, port) \<Rightarrow>
          bind_result (port_push i port packet s) (\<lambda>s.
          bind_result (io_wake (io_body port) s) (\<lambda>s. Inr (STATUS_SUCCESS, s))))"

definition SetIoCompletionEx :: "u64 \<Rightarrow> u64 \<Rightarrow> completion_packet \<Rightarrow> io_service" where
  "SetIoCompletionEx handle packet_handle packet s =
     (if host_of as_wait_packet (wait_packets s) packet_handle (nt s) = None then Inr (STATUS_INVALID_HANDLE, s)
      else SetIoCompletion handle packet s)"

text \<open>\<open>_IO_STATUS_BLOCK\<close> and \<open>file_io_completion_information_t\<close> as bytes.\<close>

definition status_block :: "completion_packet \<Rightarrow> u8 list" where
  "status_block p = le_enc 4 (pkt_status p) @ replicate 4 0 @ le_enc 8 (information p)"

definition completion_information :: "completion_packet \<Rightarrow> u8 list" where
  "completion_information p =
     le_enc 8 (key_context p) @ le_enc 8 (apc_context p) @ status_block p"

definition RemoveIoCompletion :: "u64 \<Rightarrow> addr \<Rightarrow> addr \<Rightarrow> addr \<Rightarrow> io_service" where
  "RemoveIoCompletion handle key apc io_status_block s =
     (case port_from_handle handle s of
        None \<Rightarrow> Inr (STATUS_INVALID_HANDLE, s)
      | Some (i, port) \<Rightarrow>
          bind_result (port_pop i port s) (\<lambda>(packet, s).
          case packet of
            None \<Rightarrow> Inr (STATUS_TIMEOUT, s)
          | Some p \<Rightarrow>
              bind_result (io_write_opt 8 key (key_context p) s) (\<lambda>s.
              bind_result (io_write_opt 8 apc (apc_context p) s) (\<lambda>s.
              bind_result (if io_status_block \<noteq> 0 then io_mem (g_write io_status_block (status_block p)) s
                           else Inr s) (\<lambda>s.
                Inr (STATUS_SUCCESS, s))))))"

text \<open>The loop of \<open>RemoveIoCompletionEx\<close>: \<open>n\<close> turns are left and \<open>removed\<close> packets were taken.\<close>

fun remove_loop :: "nat \<Rightarrow> nat \<Rightarrow> addr \<Rightarrow> nat \<Rightarrow> io_state \<Rightarrow> emu_error + nat \<times> io_state" where
  "remove_loop i 0 entries removed s = Inr (removed, s)"
| "remove_loop i (Suc n) entries removed s =
     (case umap_find i (ports s) of
        None \<Rightarrow> Inr (removed, s)
      | Some port \<Rightarrow>
          bind_result (port_pop i port s) (\<lambda>(packet, s).
          case packet of
            None \<Rightarrow> Inr (removed, s)
          | Some p \<Rightarrow>
              bind_result (io_mem (g_write (entries + of_nat removed * 0x20) (completion_information p)) s)
                (remove_loop i n entries (removed + 1))))"

definition RemoveIoCompletionEx :: "u64 \<Rightarrow> addr \<Rightarrow> u32 \<Rightarrow> addr \<Rightarrow> io_service" where
  "RemoveIoCompletionEx handle entries count removed_out s =
     (case port_from_handle handle s of
        None \<Rightarrow> Inr (STATUS_INVALID_HANDLE, s)
      | Some (i, port) \<Rightarrow>
          if entries = 0 \<or> count = 0 then Inr (STATUS_INVALID_PARAMETER, s)
          else
            bind_result (remove_loop i (unat count) entries 0 s) (\<lambda>(removed, s).
            bind_result (io_write_opt 4 removed_out (of_nat removed :: u32) s) (\<lambda>s.
              Inr (if removed = 0 then STATUS_TIMEOUT else STATUS_SUCCESS, s))))"

section \<open>Wait completion packets\<close>

definition CreateWaitCompletionPacket :: "allocator \<Rightarrow> addr \<Rightarrow> u32 \<Rightarrow> io_service" where
  "CreateWaitCompletionPacket alloc handle_out acc s =
     (if handle_out = 0 then Inr (STATUS_INVALID_PARAMETER, s)
      else
        let i = next_host s; s = s\<lparr>next_host := i + 1, wait_packets := umap_set i no_wait_packet (wait_packets s)\<rparr> in
        bind_result (io_create_object alloc (replicate 8 0) (Wait_packet_host i) s) (\<lambda>(a, s).
        if a = 0 then Inr (STATUS_INSUFFICIENT_RESOURCES, s) else io_create_handle a acc handle_out s))"

definition AssociateWaitCompletionPacket ::
  "u64 \<Rightarrow> u64 \<Rightarrow> u64 \<Rightarrow> completion_packet \<Rightarrow> addr \<Rightarrow> io_service" where
  "AssociateWaitCompletionPacket packet_handle port_handle target_handle p already_signalled s =
     (case (host_of as_wait_packet (wait_packets s) packet_handle (nt s), port_from_handle port_handle s) of
        (Some (j, _), Some (i, port)) \<Rightarrow>
          (case lookup_handle target_handle (table (nt s)) of
             None \<Rightarrow> Inr (STATUS_INVALID_HANDLE, s)
           | Some target \<Rightarrow>
               let wp = \<lparr>wp_port = Some i, wp_packet = p, associated = True\<rparr>;
                   s = s\<lparr>wait_packets := umap_set j wp (wait_packets s)\<rparr> in
               bind_result (is_signalled (body_addr target) 0 (gm (nt s))) (\<lambda>sig.
               bind_result
                 (if sig then
                    bind_result (port_push i port p s) (\<lambda>s.
                      io_wake (io_body port)
                        (s\<lparr>wait_packets := umap_set j (wp\<lparr>associated := False\<rparr>) (wait_packets s)\<rparr>))
                  else Inr s) (\<lambda>s.
               bind_result (io_write_opt 1 already_signalled (if sig then 1 else 0 :: u8) s) (\<lambda>s.
                 Inr (STATUS_SUCCESS, s)))))
      | _ \<Rightarrow> Inr (STATUS_INVALID_HANDLE, s))"

definition CancelWaitCompletionPacket :: "u64 \<Rightarrow> io_service" where
  "CancelWaitCompletionPacket packet_handle s =
     (case host_of as_wait_packet (wait_packets s) packet_handle (nt s) of
        None \<Rightarrow> Inr (STATUS_INVALID_HANDLE, s)
      | Some (j, wp) \<Rightarrow>
          Inr (STATUS_SUCCESS,
               s\<lparr>wait_packets := umap_set j (wp\<lparr>associated := False, wp_port := None\<rparr>) (wait_packets s)\<rparr>))"

section \<open>Worker factories\<close>

definition worker_factory_basic_information :: u32 where "worker_factory_basic_information = 7"
definition sizeof_worker_factory_information :: u32 where "sizeof_worker_factory_information = 0x70"

definition CreateWorkerFactory :: "allocator \<Rightarrow> addr \<Rightarrow> u32 \<Rightarrow> u64 \<Rightarrow> addr \<Rightarrow> addr \<Rightarrow> u32 \<Rightarrow> io_service" where
  "CreateWorkerFactory alloc handle_out acc port_handle start parameter maximum s =
     (if handle_out = 0 \<or> start = 0 then Inr (STATUS_INVALID_PARAMETER, s)
      else case port_from_handle port_handle s of
             None \<Rightarrow> Inr (STATUS_INVALID_HANDLE, s)
           | Some (p, _) \<Rightarrow>
               let i = next_host s;
                   f = \<lparr>wf_port = p, start_routine = start, start_parameter = parameter,
                        maximum_thread_count = maximum, shut_down = False\<rparr>;
                   s = s\<lparr>next_host := i + 1, factories := umap_set i f (factories s)\<rparr> in
               bind_result (io_create_object alloc (replicate 8 0) (Worker_factory_host i) s) (\<lambda>(a, s).
               if a = 0 then Inr (STATUS_INSUFFICIENT_RESOURCES, s) else io_create_handle a acc handle_out s))"

definition SetInformationWorkerFactory :: "u64 \<Rightarrow> io_service" where
  "SetInformationWorkerFactory handle s =
     (if factory_from_handle handle s = None then Inr (STATUS_INVALID_HANDLE, s) else Inr (STATUS_SUCCESS, s))"

text \<open>The members that are not zero: the maximum at 0x28 and the start routine and parameter at 0x40.\<close>

definition factory_information :: "worker_factory \<Rightarrow> u8 list" where
  "factory_information f =
     replicate 0x28 0 @ le_enc 4 (maximum_thread_count f) @ replicate 0x14 0 @
     le_enc 8 (start_routine f) @ le_enc 8 (start_parameter f) @ replicate 0x20 0"

definition QueryInformationWorkerFactory :: "u64 \<Rightarrow> u32 \<Rightarrow> addr \<Rightarrow> u32 \<Rightarrow> addr \<Rightarrow> io_service" where
  "QueryInformationWorkerFactory handle information_class buffer len return_length s =
     (case factory_from_handle handle s of
        None \<Rightarrow> Inr (STATUS_INVALID_HANDLE, s)
      | Some (_, f) \<Rightarrow>
          if information_class \<noteq> worker_factory_basic_information then Inr (STATUS_INVALID_INFO_CLASS, s)
          else
            bind_result (io_write_opt 4 return_length sizeof_worker_factory_information s) (\<lambda>s.
            if len < sizeof_worker_factory_information then Inr (STATUS_INFO_LENGTH_MISMATCH, s)
            else
              bind_result (io_mem (g_write buffer (factory_information f)) s) (\<lambda>s. Inr (STATUS_SUCCESS, s))))"

definition worker_call :: "u64 \<Rightarrow> io_service" where
  "worker_call handle s =
     (case factory_from_handle handle s of
        None \<Rightarrow> Inr (STATUS_INVALID_HANDLE, s)
      | Some (_, f) \<Rightarrow> Inr (if shut_down f then STATUS_TOO_LATE else STATUS_SUCCESS, s))"

definition ShutdownWorkerFactory :: "u64 \<Rightarrow> addr \<Rightarrow> io_service" where
  "ShutdownWorkerFactory handle pending_worker_count s =
     (case factory_from_handle handle s of
        None \<Rightarrow> Inr (STATUS_INVALID_HANDLE, s)
      | Some (i, f) \<Rightarrow>
          bind_result (io_write_opt 4 pending_worker_count (0 :: u32)
              (s\<lparr>factories := umap_set i (f\<lparr>shut_down := True\<rparr>) (factories s)\<rparr>)) (\<lambda>s.
            Inr (STATUS_SUCCESS, s)))"

section \<open>What a port promises\<close>

text \<open>
  A queue of packets, seen by a guest that posts with \<open>SetIoCompletion\<close> and takes with
  \<open>RemoveIoCompletion\<close> into a buffer at \<open>out\<close>, which it then reads.
\<close>

datatype port_op = Post completion_packet | Take

fun port_spec :: "port_op \<Rightarrow> completion_packet list \<Rightarrow> (NTSTATUS \<times> completion_packet option) \<times> completion_packet list" where
  "port_spec (Post p) q = ((STATUS_SUCCESS, None), q @ [p])"
| "port_spec Take [] = ((STATUS_TIMEOUT, None), [])"
| "port_spec Take (p # q) = ((STATUS_SUCCESS, Some p), q)"

definition read_packet :: "addr \<Rightarrow> gmem \<Rightarrow> emu_error + completion_packet" where
  "read_packet out g =
     bind_result (g_get 8 out g) (\<lambda>k.
     bind_result (g_get 8 (out + 8) g) (\<lambda>a.
     bind_result (g_get 4 (out + 0x10) g) (\<lambda>st.
     bind_result (g_get 8 (out + 0x18) g) (\<lambda>n.
       Inr \<lparr>key_context = k, apc_context = a, pkt_status = st, information = n\<rparr>))))"

fun port_call :: "u64 \<Rightarrow> addr \<Rightarrow> port_op \<Rightarrow> io_state \<Rightarrow> emu_error + (NTSTATUS \<times> completion_packet option) \<times> io_state" where
  "port_call h out (Post p) s = bind_result (SetIoCompletion h p s) (\<lambda>(st, s). Inr ((st, None), s))"
| "port_call h out Take s =
     bind_result (RemoveIoCompletion h out (out + 8) (out + 0x10) s) (\<lambda>(st, s).
       if st = STATUS_SUCCESS
       then bind_result (read_packet out (gm (nt s))) (\<lambda>p. Inr ((st, Some p), s))
       else Inr ((st, None), s))"

definition kqueue_bytes :: "nat \<Rightarrow> u8 list \<Rightarrow> bool" where
  "kqueue_bytes n bs \<longleftrightarrow>
     length bs = 0x40 \<and> field_get 4 4 bs = (of_nat n :: u32) \<and> field_get 0x28 4 bs = (of_nat n :: u32)"

definition port_at :: "u64 \<Rightarrow> addr \<Rightarrow> addr \<Rightarrow> completion_packet list \<Rightarrow> io_state \<Rightarrow> bool" where
  "port_at h body out q s \<longleftrightarrow>
     (\<exists>i nm. port_from_handle h s = Some (i, \<lparr>io_name = nm, io_body = body, packets = q\<rparr>)) \<and>
     body \<noteq> 0 \<and> out \<noteq> 0 \<and> out + 8 \<noteq> 0 \<and> out + 0x10 \<noteq> 0 \<and> span body 0x40 \<inter> span out 0x20 = {} \<and>
     (\<exists>bs. struct_at body bs (gm (nt s)) \<and> kqueue_bytes (length q) bs) \<and>
     (\<exists>os. struct_at out os (gm (nt s)) \<and> length os = 0x20) \<and>
     (\<forall>(i, t) \<in> set (procthreads (nt s)). \<not> waiting_on body t)"

definition port_keeps :: "addr \<Rightarrow> addr \<Rightarrow> io_state \<Rightarrow> io_state \<Rightarrow> bool" where
  "port_keeps body out s s' \<longleftrightarrow>
     (\<forall>x. x \<notin> span body 0x40 \<longrightarrow> x \<notin> span out 0x20 \<longrightarrow> gm (nt s') x = gm (nt s) x) \<and>
     objs (nt s') = objs (nt s) \<and> table (nt s') = table (nt s) \<and> procthreads (nt s') = procthreads (nt s)"

lemma resync_struct:
  assumes "struct_at (io_body p) bs g" and "length bs = 0x40" and "io_body p \<noteq> 0"
  shows "resync p g = Inr (g_set (io_body p) (field_put 0x28 4 (of_nat (length (packets p)) :: u32)
      (field_put 4 4 (of_nat (length (packets p)) :: u32) bs)) g)"
  using assms by (simp add: resync_def set_state_at_def dh_defs KQ_CurrentCount_def struct_simps)

lemma kqueue_bytes_put:
  "length bs = 0x40 \<Longrightarrow> kqueue_bytes n (field_put 0x28 4 (of_nat n :: u32) (field_put 4 4 (of_nat n :: u32) bs))"
  by (simp add: kqueue_bytes_def struct_simps)

lemma port_from_handle_set:
  assumes "port_from_handle h s = Some (i, p)" and "objs (nt s') = objs (nt s)" and "table (nt s') = table (nt s)"
    and "ports s' = umap_set i p' (ports s)"
  shows "port_from_handle h s' = Some (i, p')"
  using assms by (auto simp: port_from_handle_def host_of_def get_handle_object_def split: option.splits)

text \<open>What a change of the queue leaves: the new packets, the new bytes of the KQUEUE.\<close>

lemma port_requeue:
  assumes "port_at h body out q s" and "port_from_handle h s = Some (i, p)"
  shows "\<exists>g. io_mem (resync (p\<lparr>packets := q'\<rparr>)) (s\<lparr>ports := umap_set i (p\<lparr>packets := q'\<rparr>) (ports s)\<rparr>) =
      Inr (s\<lparr>ports := umap_set i (p\<lparr>packets := q'\<rparr>) (ports s), nt := (nt s)\<lparr>gm := g\<rparr>\<rparr>) \<and>
    port_at h body out q' (s\<lparr>ports := umap_set i (p\<lparr>packets := q'\<rparr>) (ports s), nt := (nt s)\<lparr>gm := g\<rparr>\<rparr>) \<and>
    (\<forall>x. x \<notin> span body 0x40 \<longrightarrow> g x = gm (nt s) x)"
proof -
  obtain bs os nm where p: "p = \<lparr>io_name = nm, io_body = body, packets = q\<rparr>"
    and m: "struct_at body bs (gm (nt s))" "length bs = 0x40" "struct_at out os (gm (nt s))" "length os = 0x20"
    "body \<noteq> 0" "span body 0x40 \<inter> span out 0x20 = {}"
    using assms by (auto simp: port_at_def kqueue_bytes_def)
  let ?bs = "field_put 0x28 4 (of_nat (length q') :: u32) (field_put 4 4 (of_nat (length q') :: u32) bs)"
  let ?g = "g_set body ?bs (gm (nt s))" and ?p = "p\<lparr>packets := q'\<rparr>"
  have len: "length ?bs = 0x40" using m(2) by simp
  have "resync ?p (gm (nt s)) = Inr ?g" using resync_struct [of ?p bs] p m by simp
  moreover have "struct_at body ?bs ?g" "struct_at out os ?g" using len m by (simp_all add: struct_at_apart)
  moreover have "kqueue_bytes (length q') ?bs" by (rule kqueue_bytes_put [OF m(2)])
  moreover have "port_from_handle h (s\<lparr>ports := umap_set i ?p (ports s), nt := (nt s)\<lparr>gm := ?g\<rparr>\<rparr>) = Some (i, ?p)"
    by (rule port_from_handle_set [OF assms(2)]) simp_all
  moreover have "?g x = gm (nt s) x" if "x \<notin> span body 0x40" for x using g_set_other [of x body ?bs] len that by simp
  ultimately show ?thesis
    using assms(1) p m(4) by (intro exI [of _ ?g]) (auto simp: io_mem_def port_at_def)
qed

lemma write_status_block:
  "g_write a (status_block p) g =
     bind_result (g_put 4 a (pkt_status p) g) (\<lambda>g.
     bind_result (g_put 4 (a + 4) (0 :: u32) g) (g_put 8 (a + 8) (information p)))"
proof -
  have zero: "replicate 4 0 = le_enc 4 (0 :: u32)" by (simp add: le_enc_zero)
  show ?thesis
    unfolding status_block_def zero g_write_append by (simp add: g_put_def add.commute split: sum.split)
qed

text \<open>Writing a packet into the buffer of the caller, and reading it there.\<close>

lemma deliver_packet:
  assumes "port_at h body out q s"
  shows "\<exists>g. bind_result (io_write_opt 8 out (key_context p) s) (\<lambda>s.
      bind_result (io_write_opt 8 (out + 8) (apc_context p) s) (\<lambda>s.
        io_mem (g_write (out + 0x10) (status_block p)) s)) = Inr (s\<lparr>nt := (nt s)\<lparr>gm := g\<rparr>\<rparr>) \<and>
    read_packet out g = Inr p \<and> port_at h body out q (s\<lparr>nt := (nt s)\<lparr>gm := g\<rparr>\<rparr>) \<and>
    (\<forall>x. x \<notin> span out 0x20 \<longrightarrow> g x = gm (nt s) x)"
proof -
  obtain bs os where m: "struct_at body bs (gm (nt s))" "kqueue_bytes (length q) bs" "struct_at out os (gm (nt s))"
    "length os = 0x20" "out \<noteq> 0" "out + 8 \<noteq> 0" "span body 0x40 \<inter> span out 0x20 = {}"
    using assms by (auto simp: port_at_def)
  let ?os = "field_put 0x18 8 (information p) (field_put 0x14 4 (0 :: u32) (field_put 0x10 4 (pkt_status p)
    (field_put 8 8 (apc_context p) (field_put 0 8 (key_context p) os))))"
  let ?g = "g_set out ?os (gm (nt s))"
  have len: "length ?os = 0x20" using m(4) by simp
  have "struct_at body bs ?g" using m(1,2,7) len by (simp add: struct_at_apart Int_commute kqueue_bytes_def)
  moreover have "port_from_handle h (s\<lparr>nt := (nt s)\<lparr>gm := ?g\<rparr>\<rparr>) = port_from_handle h s"
    by (simp add: port_from_handle_def host_of_def)
  moreover have "\<exists>cs. struct_at out cs ?g \<and> length cs = 0x20" using len by (intro exI [of _ ?os]) simp
  ultimately have at: "port_at h body out q (s\<lparr>nt := (nt s)\<lparr>gm := ?g\<rparr>\<rparr>)"
    using assms m(2) by (auto simp: port_at_def)
  have rd: "read_packet out ?g = Inr p" using m(4) by (simp add: read_packet_def struct_simps)
  have other: "?g x = gm (nt s) x" if "x \<notin> span out 0x20" for x using g_set_other [of x out ?os] len that by simp
  have "out + 0x10 + 4 = out + 0x14" "out + 0x10 + 8 = out + 0x18" by simp_all
  then have ws: "g_write (out + 0x10) (status_block p) g =
      bind_result (g_put 4 (out + 0x10) (pkt_status p) g) (\<lambda>g.
      bind_result (g_put 4 (out + 0x14) (0 :: u32) g) (g_put 8 (out + 0x18) (information p)))" for g
    by (simp only: write_status_block)
  have "bind_result (io_write_opt 8 out (key_context p) s) (\<lambda>s.
      bind_result (io_write_opt 8 (out + 8) (apc_context p) s) (\<lambda>s.
        io_mem (g_write (out + 0x10) (status_block p)) s)) = Inr (s\<lparr>nt := (nt s)\<lparr>gm := ?g\<rparr>\<rparr>)"
    using m(3-6) by (simp add: io_write_opt_def write_opt_def io_mem_def with_mem_def ws struct_simps)
  with at rd other show ?thesis by blast
qed

interpretation port: simulation "port_call h out" port_spec "port_at h body out" "\<lambda>_ _. True" "port_keeps body out"
proof unfold_locales
  fix q s p
  assume at: "port_at h body out q s"
  then obtain i nm where find: "port_from_handle h s = Some (i, \<lparr>io_name = nm, io_body = body, packets = q\<rparr>)"
    and out: "out + 0x10 \<noteq> 0"
    and quiet: "\<forall>(i, t) \<in> set (procthreads (nt s)). \<not> waiting_on body t"
    by (auto simp: port_at_def)
  note requeue = port_requeue [OF at find]
  show "\<exists>s'. port_call h out p s = Inr (fst (port_spec p q), s') \<and> port_at h body out (snd (port_spec p q)) s' \<and>
      port_keeps body out s s'"
  proof (cases p)
    case (Post k)
    from requeue [of "q @ [k]"] show ?thesis
      using Post find quiet by (auto simp: SetIoCompletion_def port_push_def io_wake_def wake_waiters_none port_keeps_def)
  next
    case Take
    show ?thesis
    proof (cases q)
      case Nil
      from requeue [of q] show ?thesis
        using Take Nil find by (auto simp: RemoveIoCompletion_def port_pop_def STATUS_TIMEOUT_def STATUS_SUCCESS_def port_keeps_def)
    next
      case (Cons k r)
      from requeue [of r] obtain g s1 where s1: "s1 = s\<lparr>ports := umap_set i \<lparr>io_name = nm, io_body = body, packets = r\<rparr> (ports s),
          nt := (nt s)\<lparr>gm := g\<rparr>\<rparr>"
        "io_mem (resync \<lparr>io_name = nm, io_body = body, packets = r\<rparr>)
          (s\<lparr>ports := umap_set i \<lparr>io_name = nm, io_body = body, packets = r\<rparr> (ports s)\<rparr>) = Inr s1"
        "port_at h body out r s1" "\<forall>x. x \<notin> span body 0x40 \<longrightarrow> g x = gm (nt s) x" by auto
      from deliver_packet [OF s1(3), of k] obtain g2 s2 where s2: "s2 = s1\<lparr>nt := (nt s1)\<lparr>gm := g2\<rparr>\<rparr>"
        "bind_result (io_write_opt 8 out (key_context k) s1) (\<lambda>s.
           bind_result (io_write_opt 8 (out + 8) (apc_context k) s) (\<lambda>s.
             io_mem (g_write (out + 0x10) (status_block k)) s)) = Inr s2"
        "read_packet out g2 = Inr k" "port_at h body out r s2" "\<forall>x. x \<notin> span out 0x20 \<longrightarrow> g2 x = gm (nt s1) x" by auto
      have "RemoveIoCompletion h out (out + 8) (out + 0x10) s = Inr (STATUS_SUCCESS, s2)"
        using find Cons s1(2) s2(2) out by (auto simp: RemoveIoCompletion_def port_pop_def split: sum.splits)
      moreover have "port_keeps body out s s2" using s1(1,4) s2(1,5) by (auto simp: port_keeps_def)
      ultimately show ?thesis using Take Cons s2(1,3,4) by simp
    qed
  qed
qed (auto simp: port_keeps_def)

section \<open>Properties\<close>

text \<open>
  C2: A completion port is a first-in first-out queue. Whatever sequence of \<open>SetIoCompletion\<close> and
  \<open>RemoveIoCompletion\<close> a guest performs on an open port nobody waits for, every packet comes out
  once, in the order posted and with the key, the context, the status and the information it was
  posted with; an empty port answers STATUS_TIMEOUT. Afterwards the signal state and the count in
  the KQUEUE are the number of packets left, and memory outside the KQUEUE and the buffer is as
  it was.
\<close>

theorem iocp_fifo:
  assumes "port_at h body out q s"
  shows "\<exists>s'. calls (port_call h out) ps s = Inr (fst (outcome port_spec ps q), s') \<and>
    state_at body (gm (nt s')) = Inr (of_nat (length (snd (outcome port_spec ps q)))) \<and>
    g_get 4 (body + KQ_CurrentCount) (gm (nt s')) = Inr (of_nat (length (snd (outcome port_spec ps q))) :: u32) \<and>
    port_at h body out (snd (outcome port_spec ps q)) s' \<and> port_keeps body out s s'"
proof -
  have "admitted port_spec (\<lambda>_ _. True) ps q" by (induction ps arbitrary: q) auto
  from port.simulate_calls [OF assms this] obtain s' where
    s': "calls (port_call h out) ps s = Inr (fst (outcome port_spec ps q), s')"
    "port_at h body out (snd (outcome port_spec ps q)) s'" "port_keeps body out s s'" by blast
  then obtain bs where "struct_at body bs (gm (nt s'))" "kqueue_bytes (length (snd (outcome port_spec ps q))) bs"
    by (auto simp: port_at_def)
  then show ?thesis
    using s' by (simp add: state_at_def dh_defs KQ_CurrentCount_def kqueue_bytes_def struct_simps)
qed

definition io_demo_mem :: gmem where
  "io_demo_mem x = (if 0x1000 \<le> x \<and> x < 0x1040 \<or> 0x2000 \<le> x \<and> x < 0x2020 then Some 0 else None)"

definition io_demo :: io_state where
  "io_demo = \<lparr>nt = demo_state\<lparr>gm := io_demo_mem, procthreads := [],
      objs := new_obj_manager\<lparr>objects := [(0x1000, \<lparr>header = 0xFC8, host = Some (Io_completion_host 0)\<rparr>)]\<rparr>\<rparr>,
    ports = [(0, \<lparr>io_name = [], io_body = 0x1000, packets = []\<rparr>)], wait_packets = [], factories = [], next_host = 1\<rparr>"

lemma io_demo_port: "port_at 4 0x1000 0x2000 [] io_demo"
proof -
  have "g_read 0x40 0x1000 io_demo_mem = Inr (replicate 0x40 0)" "g_read 0x20 0x2000 io_demo_mem = Inr (replicate 0x20 0)"
    by code_simp+
  then have "struct_at 0x1000 (replicate 0x40 0) io_demo_mem" "struct_at 0x2000 (replicate 0x20 0) io_demo_mem"
    by (simp_all add: struct_at_def)
  moreover have "kqueue_bytes 0 (replicate 0x40 0)" by (simp add: kqueue_bytes_def field_get_def)
  moreover have "span 0x1000 0x40 \<inter> span 0x2000 0x20 = {}"
    using span_fields_apart [of 0 "0x40" "0x1000" "0x20" "0x1000"] by simp
  moreover have "port_from_handle 4 io_demo = Some (0, \<lparr>io_name = [], io_body = 0x1000, packets = []\<rparr>)"
    by code_simp
  ultimately show ?thesis
    unfolding port_at_def by (auto simp: io_demo_def intro: exI [of _ "replicate 0x40 0"] exI [of _ "replicate 0x20 0"])
qed

theorem iocp_fifo_witness:
  "\<exists>s'. calls (port_call 4 0x2000) [Post (no_packet\<lparr>key_context := 7\<rparr>), Post (no_packet\<lparr>key_context := 8\<rparr>), Take, Take, Take] io_demo =
     Inr ([(STATUS_SUCCESS, None), (STATUS_SUCCESS, None), (STATUS_SUCCESS, Some (no_packet\<lparr>key_context := 7\<rparr>)),
       (STATUS_SUCCESS, Some (no_packet\<lparr>key_context := 8\<rparr>)), (STATUS_TIMEOUT, None)], s') \<and>
     state_at 0x1000 (gm (nt s')) = Inr 0"
  using iocp_fifo [OF io_demo_port,
      of "[Post (no_packet\<lparr>key_context := 7\<rparr>), Post (no_packet\<lparr>key_context := 8\<rparr>), Take, Take, Take]"]
  by auto

end
