(* ===== verification/Keyed_Event.thy ===== *)
theory Keyed_Event
  imports Wait_Queue Guest_Struct
begin

text \<open>
  Keyed events of \<open>kernel/win/modules/nt_dispatch_ops.cpp\<close>: a waiter and a releaser of the same
  key meet. A gate is a pair of semaphores: each side posts on its own and waits on the other.
  The host objects are kept by their number; number zero is the event behind a null handle. The
  alertable flag only selects a log line.
\<close>

section \<open>State\<close>

record gate =
  arrivals :: addr
  releases :: addr

record key_state =
  kn :: nt_state
  kevents :: "(nat \<times> (addr \<times> gate) list) list"
  knext :: nat

type_synonym key_service = "key_state \<Rightarrow> emu_error + NTSTATUS \<times> key_state"

definition keyed_event_body_size :: nat where "keyed_event_body_size = 0x40"

fun as_keyed_event :: "win_object \<Rightarrow> nat option" where
  "as_keyed_event (Keyed_event_host i) = Some i"
| "as_keyed_event _ = None"

definition keyed_event_from_handle :: "u64 \<Rightarrow> key_state \<Rightarrow> (nat \<times> (addr \<times> gate) list) option" where
  "keyed_event_from_handle handle s =
     (case (if handle = 0 then Some 0 else get_handle_object as_keyed_event handle (objs (kn s)) (table (kn s))) of
        None \<Rightarrow> None
      | Some i \<Rightarrow> map_option (Pair i) (umap_find i (kevents s)))"

section \<open>Gates\<close>

definition key_mem :: "(gmem \<Rightarrow> emu_error + gmem) \<Rightarrow> key_state \<Rightarrow> emu_error + key_state" where
  "key_mem f s = bind_result (with_mem f (kn s)) (\<lambda>n. Inr (s\<lparr>kn := n\<rparr>))"

definition key_create_object ::
  "allocator \<Rightarrow> u8 list \<Rightarrow> win_object option \<Rightarrow> key_state \<Rightarrow> emu_error + addr \<times> key_state" where
  "key_create_object alloc body h s =
     bind_result (create_object alloc 0 (Some body) (of_nat (length body)) h kernel_rw
         (objs (kn s), gm (kn s))) (\<lambda>(a, om, g).
       Inr (a, s\<lparr>kn := (kn s)\<lparr>objs := om, gm := g\<rparr>\<rparr>))"

definition make_semaphore :: "allocator \<Rightarrow> key_state \<Rightarrow> emu_error + addr \<times> key_state" where
  "make_semaphore alloc s =
     bind_result (key_create_object alloc (replicate sizeof_KSEMAPHORE 0) None s) (\<lambda>(a, s).
     if a = 0 then Inr (0, s)
     else
       bind_result (key_mem (init_dispatcher a sizeof_KSEMAPHORE semaphore_object 0) s) (\<lambda>s.
       bind_result (key_mem (g_put 4 (a + KSEMAPHORE_Limit) (0x7FFFFFFF :: u32)) s) (\<lambda>s. Inr (a, s))))"

definition gate_for :: "allocator \<Rightarrow> nat \<Rightarrow> (addr \<times> gate) list \<Rightarrow> addr \<Rightarrow> key_state \<Rightarrow> emu_error + gate \<times> key_state" where
  "gate_for alloc i gates key s =
     (let found = (case umap_find key gates of Some gt \<Rightarrow> gt | None \<Rightarrow> \<lparr>arrivals = 0, releases = 0\<rparr>) in
      if arrivals found \<noteq> 0 then Inr (found, s)
      else
        bind_result (make_semaphore alloc s) (\<lambda>(a, s).
        bind_result (make_semaphore alloc s) (\<lambda>(r, s).
          let gt = \<lparr>arrivals = a, releases = r\<rparr> in
          Inr (gt, s\<lparr>kevents := umap_set i (umap_set key gt gates) (kevents s)\<rparr>))))"

section \<open>Services\<close>

definition create_keyed_event :: "allocator \<Rightarrow> addr \<Rightarrow> u32 \<Rightarrow> addr \<Rightarrow> u32 \<Rightarrow> key_service" where
  "create_keyed_event alloc keyed_event_handle acc attributes flags s =
     (if keyed_event_handle = 0 then Inr (STATUS_INVALID_PARAMETER, s)
      else if flags \<noteq> 0 then Inr (STATUS_INVALID_PARAMETER_4, s)
      else
        bind_result (attribute_name attributes (gm (kn s))) (\<lambda>name.
        let i = knext s; s = s\<lparr>knext := i + 1, kevents := umap_set i [] (kevents s)\<rparr> in
        bind_result (key_create_object alloc (replicate keyed_event_body_size 0) (Some (Keyed_event_host i)) s) (\<lambda>(a, s).
        if a = 0 then Inr (STATUS_INSUFFICIENT_RESOURCES, s)
        else
          let s = (if name \<noteq> [] then s\<lparr>kn := (kn s)\<lparr>objs := register_named_object name a (objs (kn s))\<rparr>\<rparr> else s) in
          bind_result (create_handle a acc (objs (kn s)) (table (kn s), gm (kn s))) (\<lambda>(h, t, g).
          bind_result (key_mem (g_put 8 keyed_event_handle h) (s\<lparr>kn := (kn s)\<lparr>table := t, gm := g\<rparr>\<rparr>)) (\<lambda>s.
            Inr (STATUS_SUCCESS, s))))))"

text \<open>What follows the choice of the gate: post, wake the other side, wait for it.\<close>

definition meet :: "int \<Rightarrow> int \<Rightarrow> addr \<Rightarrow> addr \<Rightarrow> addr \<Rightarrow> nat \<Rightarrow> nt_state \<Rightarrow> emu_error + nt_state" where
  "meet now host_now post wait_on timeout i s =
     bind_result (state_at post (gm s)) (\<lambda>state.
     bind_result (with_mem (set_state_at post (state + 1)) s) (\<lambda>s.
     bind_result (wake_waiters post s) (\<lambda>s.
     bind_result (read_timeout now timeout (gm s)) (\<lambda>(deadline, timed).
     case current_thread s of
       None \<Rightarrow> Inr s
     | Some t \<Rightarrow>
         let w = \<lparr>ws_objects = [wait_on], ws_all = False, ws_deadline = deadline, ws_timed = timed,
                  ws_satisfied = False, ws_status = 0\<rparr> in
         bind_result (try_satisfy (begin_wait now host_now w t, gm s)) (\<lambda>(_, t, g).
           Inr ((set_current i t s)\<lparr>gm := g, yielded := True\<rparr>))))))"

definition rendezvous :: "allocator \<Rightarrow> int \<Rightarrow> int \<Rightarrow> u64 \<Rightarrow> addr \<Rightarrow> addr \<Rightarrow> bool \<Rightarrow> key_service" where
  "rendezvous alloc now host_now handle key timeout releasing s =
     (case keyed_event_from_handle handle s of
        None \<Rightarrow> Inr (STATUS_INVALID_HANDLE, s)
      | Some (k, gates) \<Rightarrow>
          (case (current (kn s), current_thread (kn s)) of
             (Some i, Some _) \<Rightarrow>
               bind_result (gate_for alloc k gates key s) (\<lambda>(gt, s).
               if arrivals gt = 0 \<or> releases gt = 0 then Inr (STATUS_INSUFFICIENT_RESOURCES, s)
               else
                 let post = (if releasing then releases gt else arrivals gt);
                     wait_on = (if releasing then arrivals gt else releases gt) in
                 bind_result (meet now host_now post wait_on timeout i (kn s)) (\<lambda>n.
                   Inr (STATUS_SUCCESS, s\<lparr>kn := n\<rparr>)))
           | _ \<Rightarrow> Inr (STATUS_INVALID_PARAMETER, s)))"

definition WaitForKeyedEvent :: "allocator \<Rightarrow> int \<Rightarrow> int \<Rightarrow> u64 \<Rightarrow> addr \<Rightarrow> addr \<Rightarrow> key_service" where
  "WaitForKeyedEvent alloc now host_now handle key timeout s =
     rendezvous alloc now host_now handle key timeout False s"

definition ReleaseKeyedEvent :: "allocator \<Rightarrow> int \<Rightarrow> int \<Rightarrow> u64 \<Rightarrow> addr \<Rightarrow> addr \<Rightarrow> key_service" where
  "ReleaseKeyedEvent alloc now host_now handle key timeout s =
     rendezvous alloc now host_now handle key timeout True s"

section \<open>The semaphores of a gate\<close>

definition sem_bytes :: "nat \<Rightarrow> u8 list \<Rightarrow> bool" where
  "sem_bytes n bs \<longleftrightarrow>
     length bs = 0x20 \<and> field_get 0 1 bs = semaphore_object \<and> field_get 4 4 bs = (of_nat n :: u32) \<and> n < 2 ^ 31"

definition sem_at :: "addr \<Rightarrow> nat \<Rightarrow> gmem \<Rightarrow> bool" where
  "sem_at a n g \<longleftrightarrow> (\<exists>bs. struct_at a bs g \<and> sem_bytes n bs)"

lemma sem_fields:
  assumes "struct_at a bs g" and "sem_bytes n bs"
  shows "type_at a g = Inr semaphore_object" "state_at a g = Inr (of_nat n)"
    "set_state_at a v g = Inr (g_set a (field_put 4 4 v bs) g)"
  using assms by (simp_all add: type_at_def state_at_def set_state_at_def dh_defs struct_simps sem_bytes_def)

lemma sem_bytes_put: "sem_bytes n bs \<Longrightarrow> m < 2 ^ 31 \<Longrightarrow> sem_bytes m (field_put 4 4 (of_nat m :: u32) bs)"
  by (simp add: sem_bytes_def struct_simps)

lemma sint_count: "n < 2 ^ 31 \<Longrightarrow> sint (of_nat n :: u32) = int n"
  by (simp only: signed_of_nat) (simp add: signed_take_bit_int_eq_self)

text \<open>A semaphore is signalled while its count is positive, and taking it lowers the count.\<close>

lemma sem_served:
  assumes "sem_at a n g"
  shows "is_signalled a self g = Inr (0 < n)"
    "0 < n \<Longrightarrow> \<exists>g'. (\<forall>self. take_object a self g = Inr g') \<and> sem_at a (n - 1) g' \<and> apart a 0x20 g g'"
    "n + 1 < 2 ^ 31 \<Longrightarrow> \<exists>g'. set_state_at a (of_nat n + 1) g = Inr g' \<and> sem_at a (n + 1) g' \<and> apart a 0x20 g g'"
    "state_at a g = Inr (of_nat n)"
proof -
  obtain bs where bs: "struct_at a bs g" "sem_bytes n bs" using assms by (auto simp: sem_at_def)
  have n: "n < 2 ^ 31" and len: "length bs = 0x20" using bs(2) by (simp_all add: sem_bytes_def)
  note f = sem_fields [OF bs]
  show "is_signalled a self g = Inr (0 < n)" using f sint_count [OF n] by (auto simp: is_signalled_def dispatcher_types)
  have put: "\<exists>g'. set_state_at a (of_nat m) g = Inr g' \<and> sem_at a m g' \<and> apart a 0x20 g g'" if "m < 2 ^ 31" for m
    using sem_bytes_put [OF bs(2) that] len
    by (auto simp: f(3) sem_at_def intro!: exI [of _ "field_put 4 4 (of_nat m :: u32) bs"])
  show "\<exists>g'. (\<forall>self. take_object a self g = Inr g') \<and> sem_at a (n - 1) g' \<and> apart a 0x20 g g'" if "0 < n"
    using put [of "n - 1"] n that f(1,2) by (auto simp: take_object_def dispatcher_types of_nat_diff)
  show "\<exists>g'. set_state_at a (of_nat n + 1) g = Inr g' \<and> sem_at a (n + 1) g' \<and> apart a 0x20 g g'" if "n + 1 < 2 ^ 31"
    using put [OF that] by (simp add: add.commute)
  show "state_at a g = Inr (of_nat n)" by (rule f)
qed

lemma sem_atI:
  assumes "g_read 0x20 a g = Inr bs" and "field_get 0 1 bs = (5 :: u8)" and "field_get 4 4 bs = (of_nat n :: u32)" and "n < 2 ^ 31"
  shows "sem_at a n g"
  using assms g_read_mapped [OF assms(1)] by (auto simp: sem_at_def struct_at_def sem_bytes_def dispatcher_types intro!: exI [of _ bs])

lemma sem_apart:
  assumes "sem_at b n g" and "apart a 0x20 g g'" and "span a 0x20 \<inter> span b 0x20 = {}"
  shows "sem_at b n g'"
proof -
  obtain bs where bs: "struct_at b bs g" "sem_bytes n bs" using assms(1) by (auto simp: sem_at_def)
  have "g_read (length bs) b g' = g_read (length bs) b g"
    by (rule g_read_cong) (use assms(2,3) bs(2) in \<open>auto simp: apart_def sem_bytes_def\<close>)
  with bs show ?thesis by (auto simp: sem_at_def struct_at_def)
qed

section \<open>Meeting\<close>

text \<open>
  \<open>post\<close> is the semaphore of one side and \<open>wait_on\<close> that of the other, with \<open>m\<close> threads of the first
  side and \<open>n\<close> of the second waiting. Only one side waits at a time.
\<close>

definition gate_ok :: "addr \<Rightarrow> addr \<Rightarrow> nat \<Rightarrow> nat \<Rightarrow> nt_state \<Rightarrow> bool" where
  "gate_ok post wait_on m n s \<longleftrightarrow>
     sem_at post m (gm s) \<and> sem_at wait_on n (gm s) \<and> span post 0x20 \<inter> span wait_on 0x20 = {} \<and>
     distinct (map fst (procthreads s)) \<and> orderly post (procthreads s) \<and> orderly wait_on (procthreads s) \<and>
     length (queue_of post (procthreads s)) = n \<and> length (queue_of wait_on (procthreads s)) = m \<and> (m = 0 \<or> n = 0)"

lemma gate_sym: "gate_ok p w m n s \<longleftrightarrow> gate_ok w p n m s"
  by (auto simp: gate_ok_def Int_commute)

lemma spans_distinct: "span p 0x20 \<inter> span w 0x20 = {} \<Longrightarrow> p \<noteq> w"
  using span_iff [of "0x20" p p] by auto

text \<open>The posting half.\<close>

lemma post_wakes:
  assumes "gate_ok p w m n s" and "m + 1 < 2 ^ 31"
  shows "\<exists>g. if n = 0
    then bind_result (with_mem (set_state_at p (of_nat m + 1)) s) (wake_waiters p) = Inr (s\<lparr>gm := g\<rparr>) \<and>
      sem_at p (m + 1) g \<and> sem_at w 0 g
    else \<exists>j u. (j, u) \<in> set (procthreads s) \<and> hd (queue_of p (procthreads s)) = (j, u) \<and> queued p u \<and>
      bind_result (with_mem (set_state_at p (of_nat m + 1)) s) (wake_waiters p) =
        Inr (s\<lparr>procthreads := upd_thread j (handed u) (procthreads s), gm := g, woken := True\<rparr>) \<and>
      sem_at p 0 g \<and> sem_at w n g"
proof -
  have ok: "sem_at p m (gm s)" "sem_at w n (gm s)" "span p 0x20 \<inter> span w 0x20 = {}" "distinct (map fst (procthreads s))"
    "orderly p (procthreads s)" "length (queue_of p (procthreads s)) = n" "m = 0 \<or> n = 0"
    using assms(1) by (simp_all add: gate_ok_def)
  obtain g1 where g1: "set_state_at p (of_nat m + 1) (gm s) = Inr g1" "sem_at p (m + 1) g1" "apart p 0x20 (gm s) g1"
    using sem_served(3) [OF ok(1) assms(2)] by blast
  have w1: "sem_at w n g1" using sem_apart [OF ok(2) g1(3) ok(3)] .
  show ?thesis
  proof (cases "n = 0")
    case True
    then have "wake_loop p (procthreads s) g1 = Inr (False, procthreads s, g1)"
      using ok(5,6) by (intro wake_loop_nobody) simp_all
    then show ?thesis using True g1 w1 by (intro exI [of _ g1]) (simp add: wake_waiters_def)
  next
    case False
    then have m: "m = 0" and "queue_of p (procthreads s) \<noteq> []" using ok(6,7) by auto
    then obtain us j u vs where sp: "procthreads s = us @ (j, u) # vs" "queue_of p us = []" "queued p u"
      "queue_of p (procthreads s) = (j, u) # queue_of p vs" using queue_split by blast
    have "sem_at p 1 g1" using g1(2) m by simp
    then obtain g2 where g2: "\<forall>self. take_object p self g1 = Inr g2" "sem_at p 0 g2" "apart p 0x20 g1 g2"
      using sem_served(2) [of p 1 g1] by auto
    have "wake_loop p (us @ (j, u) # vs) g1 = Inr (True, us @ (j, handed u) # vs, g2)"
    proof (rule wake_loop_first [OF _ _ _ sp(3) _ sp(2)])
      show "is_signalled p self g1 = Inr True" for self using sem_served(1) [OF \<open>sem_at p 1 g1\<close>] by simp
      show "take_object p self g1 = Inr g2" for self using g2(1) by simp
      show "is_signalled p self g2 = Inr False" for self using sem_served(1) [OF g2(2)] by simp
    qed (use ok(5) sp(1) in simp)
    moreover have "upd_thread j (handed u) (procthreads s) = us @ (j, handed u) # vs"
      using upd_thread_split sp(1) ok(4) by simp
    ultimately have "bind_result (with_mem (set_state_at p (of_nat m + 1)) s) (wake_waiters p) =
        Inr (s\<lparr>procthreads := upd_thread j (handed u) (procthreads s), gm := g2, woken := True\<rparr>)"
      using g1(1) sp(1) by (simp add: wake_waiters_def)
    moreover have "sem_at w n g2" using sem_apart [OF w1 g2(3) ok(3)] .
    ultimately show ?thesis
      using False g2(2) sp by (intro exI [of _ g2]) (auto intro!: exI [of _ j] exI [of _ u])
  qed
qed

lemma meet_step:
  assumes "state_at p (gm s) = Inr v"
    and "bind_result (with_mem (set_state_at p (v + 1)) s) (wake_waiters p) = Inr s1"
    and "current_thread s1 = Some t" and "try_satisfy (t\<lparr>wait := Some (lone_wait w)\<rparr>, gm s1) = Inr (b, t2, g2)"
  shows "meet now host_now p w 0 i s = Inr ((set_current i t2 s1)\<lparr>gm := g2, yielded := True\<rparr>)"
proof -
  have bw: "begin_wait now host_now \<lparr>ws_objects = [w], ws_all = False, ws_deadline = 0, ws_timed = False,
      ws_satisfied = False, ws_status = 0\<rparr> t = t\<lparr>wait := Some (lone_wait w)\<rparr>"
    by (simp add: begin_wait_def lone_wait_def)
  obtain s0 where "with_mem (set_state_at p (v + 1)) s = Inr s0" "wake_waiters p s0 = Inr s1"
    using assms(2) by (auto split: sum.splits)
  then show ?thesis using assms(1,3,4) by (simp add: meet_def read_timeout_def bw)
qed

lemma meet_ok:
  assumes ok: "gate_ok p w m n s" and m: "m + 1 < 2 ^ 31" and cur: "current s = Some i"
    and it: "(i, t) \<in> set (procthreads s)" and idle: "wait t = None"
  shows "\<exists>g. let t' = t\<lparr>wait := Some (lone_wait w)\<rparr> in
    if n = 0 then
      (let s' = s\<lparr>procthreads := upd_thread i t' (procthreads s), gm := g, yielded := True\<rparr> in
       meet now host_now p w 0 i s = Inr s' \<and> gate_ok p w (m + 1) 0 s')
    else \<exists>j u. hd (queue_of p (procthreads s)) = (j, u) \<and> queued p u \<and>
      (let s' = s\<lparr>procthreads := upd_thread i (handed t') (upd_thread j (handed u) (procthreads s)), gm := g,
                 woken := True, yielded := True\<rparr> in
       meet now host_now p w 0 i s = Inr s' \<and> gate_ok p w 0 (n - 1) s')"
proof -
  let ?t = "t\<lparr>wait := Some (lone_wait w)\<rparr>" and ?ts = "procthreads s"
  have g0: "sem_at p m (gm s)" "span p 0x20 \<inter> span w 0x20 = {}" "distinct (map fst ?ts)" "orderly p ?ts" "orderly w ?ts"
    "length (queue_of p ?ts) = n" "length (queue_of w ?ts) = m" "m = 0 \<or> n = 0" "p \<noteq> w"
    using ok spans_distinct unfolding gate_ok_def by blast+
  have nq: "\<not> queued a t" for a using idle by (simp add: queued_def)
  have cur_of: "current_thread s1 = Some t"
    if "current s1 = Some i" "(i, t) \<in> set (procthreads s1)" "distinct (map fst (procthreads s1))" for s1
    using that by (simp add: current_thread_def)
  note step = meet_step [OF sem_served(4) [OF g0(1)]]
  show ?thesis
  proof (cases "n = 0")
    case True
    from post_wakes [OF ok m] True obtain g1 where
      g1: "bind_result (with_mem (set_state_at p (of_nat m + 1)) s) (wake_waiters p) = Inr (s\<lparr>gm := g1\<rparr>)"
      "sem_at p (m + 1) g1" "sem_at w 0 g1" by auto
    have "try_satisfy (?t, g1) = Inr (False, ?t, g1)"
      using try_single [of w g1 False g1 ?t] sem_served(1) [OF g1(3)] by simp
    moreover have "current_thread (s\<lparr>gm := g1\<rparr>) = Some t" using cur_of [of s] cur it g0(3) by simp
    ultimately have "meet now host_now p w 0 i s = Inr (s\<lparr>procthreads := upd_thread i ?t ?ts, gm := g1, yielded := True\<rparr>)"
      using step [OF g1(1), of t w False] by (simp add: set_current_upd)
    moreover have "gate_ok p w (m + 1) 0 (s\<lparr>procthreads := upd_thread i ?t ?ts, gm := g1, yielded := True\<rparr>)"
      using g0 g1(2,3) queue_upd [OF g0(3) it, of p ?t] queue_upd [OF g0(3) it, of w ?t] nq True
      by (simp add: gate_ok_def orderly_upd)
    ultimately show ?thesis using True by (auto simp: Let_def)
  next
    case False
    from post_wakes [OF ok m] False obtain g1 j u where ju: "(j, u) \<in> set ?ts" "hd (queue_of p ?ts) = (j, u)" "queued p u"
      and g1: "bind_result (with_mem (set_state_at p (of_nat m + 1)) s) (wake_waiters p) =
        Inr (s\<lparr>procthreads := upd_thread j (handed u) ?ts, gm := g1, woken := True\<rparr>)" (is "_ = Inr ?s1")
      "sem_at p 0 g1" "sem_at w n g1" by auto
    let ?us = "upd_thread j (handed u) ?ts"
    have "i \<noteq> j" using ju(1,3) it g0(3) nq by (metis eq_key_imp_eq_value)
    then have it': "(i, t) \<in> set ?us" using it upd_thread_in(2) by blast
    have ids: "distinct (map fst ?us)" using g0(3) by simp
    have qp: "length (queue_of p ?us) + 1 = n" using queue_upd [OF g0(3) ju(1), of p "handed u"] ju(3) g0(6) by simp
    have "\<not> queued w u" using ju(3) g0(9) by (auto simp: queued_def split: option.splits)
    then have qw: "length (queue_of w ?us) = 0" using queue_upd [OF g0(3) ju(1), of w "handed u"] g0(7,8) False by simp
    obtain g2 where g2: "\<forall>self. take_object w self g1 = Inr g2" "sem_at w (n - 1) g2" "apart w 0x20 g1 g2"
      using sem_served(2) [OF g1(3)] False by auto
    have "sem_at p 0 g2" using sem_apart [OF g1(2) g2(3)] g0(2) by (simp add: Int_commute)
    have "try_satisfy (?t, g1) = Inr (True, handed ?t, g2)"
      using try_single [of w g1 True g2 ?t] sem_served(1) [OF g1(3)] g2(1) False by simp
    moreover have "current_thread ?s1 = Some t" using cur_of [of ?s1] cur it' ids by simp
    ultimately have "meet now host_now p w 0 i s =
        Inr (s\<lparr>procthreads := upd_thread i (handed ?t) ?us, gm := g2, woken := True, yielded := True\<rparr>)"
      using step [OF g1(1), of t w True] by (simp add: set_current_upd)
    moreover have "gate_ok p w 0 (n - 1) (s\<lparr>procthreads := upd_thread i (handed ?t) ?us, gm := g2, woken := True, yielded := True\<rparr>)"
      using g0 g2(2) \<open>sem_at p 0 g2\<close> queue_upd [OF ids it', of p "handed ?t"] queue_upd [OF ids it', of w "handed ?t"] nq qp qw
      by (simp add: gate_ok_def orderly_upd)
    ultimately show ?thesis using False ju(2,3) by (auto simp: Let_def)
  qed
qed

section \<open>Properties\<close>

text \<open>
  C33: Waiters and releasers of a key meet one to one, when they wait without a time limit. A
  thread that finds nobody of the other side queues up and yields. A thread that finds the other
  side waiting releases the first of it, in the order of the ids, and its own wait is over at
  once. The counts of the two semaphores keep telling how many threads of each side wait, and
  never both sides do.
\<close>

theorem keyed_event_meets:
  assumes "keyed_event_from_handle h s = Some (e, gates)"
    and "umap_find key gates = Some \<lparr>arrivals = a, releases = r\<rparr>" and "a \<noteq> 0" and "r \<noteq> 0"
    and "p = (if releasing then r else a)" and "w = (if releasing then a else r)"
    and "gate_ok p w m n (kn s)" and "m + 1 < 2 ^ 31" and "current (kn s) = Some i"
    and "(i, t) \<in> set (procthreads (kn s))" and "wait t = None"
  shows "\<exists>g. let t' = t\<lparr>wait := Some (lone_wait w)\<rparr>; ts = procthreads (kn s) in
    if n = 0 then
      (let s' = (kn s)\<lparr>procthreads := upd_thread i t' ts, gm := g, yielded := True\<rparr> in
       rendezvous alloc now host_now h key 0 releasing s = Inr (STATUS_SUCCESS, s\<lparr>kn := s'\<rparr>) \<and> gate_ok p w (m + 1) 0 s')
    else \<exists>j u. hd (queue_of p ts) = (j, u) \<and> queued p u \<and>
      (let s' = (kn s)\<lparr>procthreads := upd_thread i (handed t') (upd_thread j (handed u) ts), gm := g,
                 woken := True, yielded := True\<rparr> in
       rendezvous alloc now host_now h key 0 releasing s = Inr (STATUS_SUCCESS, s\<lparr>kn := s'\<rparr>) \<and> gate_ok p w 0 (n - 1) s')"
proof -
  have "distinct (map fst (procthreads (kn s)))" using assms(7) by (simp add: gate_ok_def)
  then have "current_thread (kn s) = Some t" using assms(9,10) by (simp add: current_thread_def)
  then have "rendezvous alloc now host_now h key 0 releasing s =
      bind_result (meet now host_now p w 0 i (kn s)) (\<lambda>n. Inr (STATUS_SUCCESS, s\<lparr>kn := n\<rparr>))"
    using assms(1-6,9) by (simp add: rendezvous_def gate_for_def Let_def)
  moreover note meet_ok [OF assms(7-11), of now host_now]
  ultimately show ?thesis by (auto simp: Let_def split: if_splits)
qed

text \<open>A gate with its semaphores at 0x1000 and 0x2000; thread 2 waits for the key, thread 1 runs.\<close>

definition parked :: "nat \<Rightarrow> wait_state option \<Rightarrow> win_thread" where
  "parked i w = \<lparr>tid = i, ethread = of_nat (0x9000 + i * 0x1000), wait = w, alerted = False, suspend_count = 0,
     started = True, finished = False, sleep_until = 0, ret_value = 0\<rparr>"

definition key_mem_demo :: "u8 \<Rightarrow> gmem" where
  "key_mem_demo n x =
     (if x = 0x1000 \<or> x = 0x2000 then Some 5 else if x = 0x1004 then Some n
      else if 0x1000 \<le> x \<and> x < 0x1020 \<or> 0x2000 \<le> x \<and> x < 0x2020 then Some 0 else None)"

definition key_demo :: key_state where
  "key_demo = \<lparr>kn = demo_state\<lparr>gm := key_mem_demo 1, current := Some 1,
       procthreads := [(1, parked 1 None), (2, parked 2 (Some (lone_wait 0x2000)))]\<rparr>,
     kevents = [(0, [(0x77, \<lparr>arrivals = 0x1000, releases = 0x2000\<rparr>)])], knext = 1\<rparr>"

lemma key_demo_gate: "gate_ok 0x2000 0x1000 0 1 (kn key_demo)"
proof -
  let ?a = "case g_read 0x20 0x1000 (key_mem_demo 1) of Inr bs \<Rightarrow> bs | Inl _ \<Rightarrow> []"
  let ?r = "case g_read 0x20 0x2000 (key_mem_demo 1) of Inr bs \<Rightarrow> bs | Inl _ \<Rightarrow> []"
  have "g_read 0x20 0x1000 (key_mem_demo 1) = Inr ?a" "length ?a = 0x20" "field_get 0 1 ?a = (5 :: u8)" "field_get 4 4 ?a = (1 :: u32)"
    "g_read 0x20 0x2000 (key_mem_demo 1) = Inr ?r" "length ?r = 0x20" "field_get 0 1 ?r = (5 :: u8)" "field_get 4 4 ?r = (0 :: u32)"
    by code_simp+
  then have "sem_at 0x1000 1 (key_mem_demo 1)" "sem_at 0x2000 0 (key_mem_demo 1)"
    using sem_atI [of "0x1000" "key_mem_demo 1" ?a 1] sem_atI [of "0x2000" "key_mem_demo 1" ?r 0] by simp_all
  moreover have "span 0x2000 0x20 \<inter> span 0x1000 0x20 = {}"
    using span_fields_apart [of "0x1000" "0x20" 0 "0x20" "0x1000"] by simp
  ultimately show ?thesis
    by (simp add: gate_ok_def key_demo_def parked_def orderly_def queue_of_def queued_def waiting_on_def lone_wait_def)
qed

theorem keyed_event_meets_witness:
  "\<exists>s'. rendezvous (\<lambda>_ _ _. throw Unmapped_virtual_address) 0 0 0 0x77 0 True key_demo = Inr (STATUS_SUCCESS, s') \<and>
     gate_ok 0x2000 0x1000 0 0 (kn s') \<and>
     procthreads (kn s') = [(1, handed (parked 1 (Some (lone_wait 0x1000)))), (2, handed (parked 2 (Some (lone_wait 0x2000))))]"
proof -
  have k: "keyed_event_from_handle 0 key_demo = Some (0, [(0x77, \<lparr>arrivals = 0x1000, releases = 0x2000\<rparr>)])"
    "umap_find 0x77 [(0x77, \<lparr>arrivals = 0x1000, releases = 0x2000\<rparr>)] = Some \<lparr>arrivals = 0x1000, releases = (0x2000 :: addr)\<rparr>"
    by (simp_all add: keyed_event_from_handle_def key_demo_def umap_find_def)
  have c: "current (kn key_demo) = Some 1" "(1, parked 1 None) \<in> set (procthreads (kn key_demo))" "wait (parked 1 None) = None"
    by (simp_all add: key_demo_def parked_def)
  have q: "queue_of 0x2000 (procthreads (kn key_demo)) = [(2, parked 2 (Some (lone_wait 0x2000)))]"
    by (simp add: key_demo_def parked_def queued_def lone_wait_def)
  have u: "upd_thread 1 x (upd_thread 2 y (procthreads (kn key_demo))) = [(1, x), (2, y)]" for x y
    by (simp add: upd_thread_def key_demo_def)
  have w: "(parked 1 None)\<lparr>wait := Some (lone_wait 0x1000)\<rparr> = parked 1 (Some (lone_wait 0x1000))" by (simp add: parked_def)
  show ?thesis
    using keyed_event_meets [OF k _ _ _ _ _ _ c, of "0x2000" True "0x1000" 0 1 "\<lambda>_ _ _. throw Unmapped_virtual_address" 0 0]
      key_demo_gate by (auto simp: Let_def q u w simp del: One_nat_def)
qed

text \<open>
  A wait that runs out of time leaves its post behind: the semaphore of its side counts one more
  than there are threads waiting. The next thread of the other side then does not wait, although
  nobody is there, and leaves a post of its own that lets a later waiter through.
\<close>

lemma stale_post_lets_through:
  assumes "sem_at p m (gm s)" and "sem_at w (Suc n) (gm s)" and "span p 0x20 \<inter> span w 0x20 = {}"
    and "distinct (map fst (procthreads s))" and "orderly p (procthreads s)" and "queue_of p (procthreads s) = []"
    and "m + 1 < 2 ^ 31" and "current s = Some i" and "(i, t) \<in> set (procthreads s)"
  shows "\<exists>g. meet now host_now p w 0 i s =
      Inr (s\<lparr>procthreads := upd_thread i (handed (t\<lparr>wait := Some (lone_wait w)\<rparr>)) (procthreads s), gm := g, yielded := True\<rparr>) \<and>
    sem_at p (m + 1) g \<and> sem_at w n g"
proof -
  let ?t = "t\<lparr>wait := Some (lone_wait w)\<rparr>"
  obtain g1 where g1: "set_state_at p (of_nat m + 1) (gm s) = Inr g1" "sem_at p (m + 1) g1" "apart p 0x20 (gm s) g1"
    using sem_served(3) [OF assms(1,7)] by blast
  have w1: "sem_at w (Suc n) g1" using sem_apart [OF assms(2) g1(3) assms(3)] .
  have "bind_result (with_mem (set_state_at p (of_nat m + 1)) s) (wake_waiters p) = Inr (s\<lparr>gm := g1\<rparr>)"
    using g1(1) wake_loop_nobody [OF assms(6,5), of g1] by (simp add: wake_waiters_def)
  moreover obtain g2 where g2: "\<forall>self. take_object w self g1 = Inr g2" "sem_at w n g2" "apart w 0x20 g1 g2"
    using sem_served(2) [OF w1] by auto
  moreover have "try_satisfy (?t, g1) = Inr (True, handed ?t, g2)"
    using try_single [of w g1 True g2 ?t] sem_served(1) [OF w1] g2(1) by simp
  moreover have "current_thread s = Some t" using assms(4,8,9) by (simp add: current_thread_def)
  ultimately have "meet now host_now p w 0 i s =
      Inr (s\<lparr>procthreads := upd_thread i (handed ?t) (procthreads s), gm := g2, yielded := True\<rparr>)"
    using meet_step [OF sem_served(4) [OF assms(1)], of "s\<lparr>gm := g1\<rparr>" t w True "handed ?t" g2 now host_now i]
    by (simp add: set_current_upd)
  moreover have "sem_at p (m + 1) g2" using sem_apart [OF g1(2) g2(3)] assms(3) by (simp add: Int_commute)
  ultimately show ?thesis using g2(2) by blast
qed

end
