(* ===== verification/Timers.thy ===== *)
theory Timers
  imports Nt_Sync Guest_Struct
begin

text \<open>
  \<open>kernel/win/modules/nt_timer_ops.cpp\<close>: deferred procedure calls and timers. A timer only records
  what it was set to: nothing goes off. \<open>now\<close> is the guest time; the thread a DPC starts is
  reported as its routine and arguments. A null pointer is zero.
\<close>

section \<open>Deferred procedure calls\<close>

definition KDPC_DeferredRoutine :: nat where "KDPC_DeferredRoutine = 0x18"
definition KDPC_DeferredContext :: nat where "KDPC_DeferredContext = 0x20"
definition KDPC_SystemArgument1 :: nat where "KDPC_SystemArgument1 = 0x28"
definition KDPC_SystemArgument2 :: nat where "KDPC_SystemArgument2 = 0x30"
definition KDPC_DpcData :: nat where "KDPC_DpcData = 0x38"
definition sizeof_KDPC :: nat where "sizeof_KDPC = 0x40"
definition dpc_object_type :: u8 where "dpc_object_type = 19"
definition medium_importance :: u8 where "medium_importance = 1"

lemmas kdpc_defs = KDPC_DeferredRoutine_def KDPC_DeferredContext_def KDPC_SystemArgument1_def
  KDPC_SystemArgument2_def KDPC_DpcData_def sizeof_KDPC_def

definition KeInitializeDpc :: "addr \<Rightarrow> addr \<Rightarrow> addr \<Rightarrow> gmem \<Rightarrow> emu_error + gmem" where
  "KeInitializeDpc dpc deferred_routine deferred_context g =
     (if dpc = 0 then Inr g
      else
        g_write dpc
          (field_put KDPC_DeferredContext 8 deferred_context (field_put KDPC_DeferredRoutine 8 deferred_routine
            (field_put 1 1 medium_importance (field_put 0 1 dpc_object_type (replicate sizeof_KDPC 0))))) g)"

definition KeInsertQueueDpc ::
  "addr \<Rightarrow> addr \<Rightarrow> addr \<Rightarrow> gmem \<Rightarrow> emu_error + bool \<times> (addr \<times> u64 list) option \<times> gmem" where
  "KeInsertQueueDpc dpc argument1 argument2 g =
     (if dpc = 0 then Inr (False, None, g)
      else
        bind_result (g_read sizeof_KDPC dpc g) (\<lambda>entry.
        let routine = (field_get KDPC_DeferredRoutine 8 entry :: addr) in
        if routine = 0 then Inr (False, None, g)
        else if field_get KDPC_DpcData 8 entry \<noteq> (0 :: addr) then Inr (False, None, g)
        else
          let entry = field_put KDPC_DpcData 8 dpc
                (field_put KDPC_SystemArgument2 8 argument2 (field_put KDPC_SystemArgument1 8 argument1 entry)) in
          bind_result (g_write dpc entry g) (\<lambda>g.
            Inr (True, Some (routine, [dpc, field_get KDPC_DeferredContext 8 entry, argument1, argument2]), g))))"

section \<open>Timers\<close>

definition KTIMER_DueTime :: nat where "KTIMER_DueTime = 0x18"
definition KTIMER_Dpc :: nat where "KTIMER_Dpc = 0x30"
definition KTIMER_Period :: nat where "KTIMER_Period = 0x3C"
definition sizeof_KTIMER :: nat where "sizeof_KTIMER = 0x40"
definition synchronization_timer :: u32 where "synchronization_timer = 1"

lemmas ktimer_defs = KTIMER_DueTime_def KTIMER_Dpc_def KTIMER_Period_def sizeof_KTIMER_def

definition init_timer :: "addr \<Rightarrow> u8 \<Rightarrow> gmem \<Rightarrow> emu_error + gmem" where
  "init_timer timer type g =
     bind_result (init_dispatcher timer sizeof_KTIMER type 0 g) (\<lambda>g.
     bind_result (g_put 8 (timer + of_nat KTIMER_DueTime) (0 :: u64) g) (\<lambda>g.
     bind_result (g_put 8 (timer + of_nat KTIMER_Dpc) (0 :: u64) g) (\<lambda>g.
       g_put 4 (timer + of_nat KTIMER_Period) (0 :: u32) g)))"

definition KeInitializeTimer :: "addr \<Rightarrow> gmem \<Rightarrow> emu_error + gmem" where
  "KeInitializeTimer timer g = (if timer = 0 then Inr g else init_timer timer timer_notification_object g)"

definition KeInitializeTimerEx :: "addr \<Rightarrow> u32 \<Rightarrow> gmem \<Rightarrow> emu_error + gmem" where
  "KeInitializeTimerEx timer type g =
     (if timer = 0 then Inr g
      else init_timer timer
             (if type = synchronization_timer then timer_synchronization_object else timer_notification_object) g)"

text \<open>A negative due time is relative to now.\<close>

definition absolute_time :: "u64 \<Rightarrow> u64 \<Rightarrow> u64" where
  "absolute_time now due_time = (if sint due_time < 0 then now + (- due_time) else due_time)"

definition set_timer :: "u64 \<Rightarrow> addr \<Rightarrow> u64 \<Rightarrow> u32 \<Rightarrow> addr \<Rightarrow> gmem \<Rightarrow> emu_error + bool \<times> gmem" where
  "set_timer now timer due_time period dpc g =
     bind_result (g_read sizeof_KTIMER timer g) (\<lambda>entry.
     let was_set = (field_get KTIMER_DueTime 8 entry \<noteq> (0 :: u64));
         entry = field_put KTIMER_Period 4 period (field_put 4 4 (0 :: u32)
                   (field_put KTIMER_Dpc 8 dpc (field_put KTIMER_DueTime 8 (absolute_time now due_time) entry))) in
     bind_result (g_write timer entry g) (\<lambda>g. Inr (was_set, g)))"

definition KeSetTimer :: "u64 \<Rightarrow> addr \<Rightarrow> u64 \<Rightarrow> addr \<Rightarrow> gmem \<Rightarrow> emu_error + bool \<times> gmem" where
  "KeSetTimer now timer due_time dpc g =
     (if timer = 0 then Inr (False, g) else set_timer now timer due_time 0 dpc g)"

definition KeSetTimerEx :: "u64 \<Rightarrow> addr \<Rightarrow> u64 \<Rightarrow> u32 \<Rightarrow> addr \<Rightarrow> gmem \<Rightarrow> emu_error + bool \<times> gmem" where
  "KeSetTimerEx now timer due_time period dpc g =
     (if sint period < 0 then Inr (False, g)
      else if timer = 0 then Inr (False, g) else set_timer now timer due_time period dpc g)"

definition KeCancelTimer :: "addr \<Rightarrow> gmem \<Rightarrow> emu_error + bool \<times> gmem" where
  "KeCancelTimer timer g =
     (if timer = 0 then Inr (False, g)
      else
        bind_result (g_read sizeof_KTIMER timer g) (\<lambda>entry.
        let was_set = (field_get KTIMER_DueTime 8 entry \<noteq> (0 :: u64));
            entry = field_put KTIMER_Dpc 8 (0 :: u64) (field_put KTIMER_DueTime 8 (0 :: u64) entry) in
        bind_result (g_write timer entry g) (\<lambda>g. Inr (was_set, g))))"

definition KeReadStateTimer :: "addr \<Rightarrow> gmem \<Rightarrow> emu_error + bool" where
  "KeReadStateTimer timer g =
     (if timer = 0 then Inr False else bind_result (state_at timer g) (\<lambda>state. Inr (state \<noteq> 0)))"

definition CreateTimer2 :: "allocator \<Rightarrow> addr \<Rightarrow> u32 \<Rightarrow> u32 \<Rightarrow> service" where
  "CreateTimer2 alloc timer_handle attributes acc s =
     (if timer_handle = 0 then Inr (STATUS_INVALID_PARAMETER, s)
      else
        bind_result (create_object alloc 0 (Some (replicate sizeof_KTIMER 0)) (of_nat sizeof_KTIMER) None kernel_rw
            (objs s, gm s)) (\<lambda>(a, om, g).
        let s = s\<lparr>objs := om, gm := g\<rparr> in
        if a = 0 then Inr (STATUS_INSUFFICIENT_RESOURCES, s)
        else
          bind_result (with_mem (init_dispatcher a sizeof_KTIMER
              (if attributes AND 1 \<noteq> 0 then timer_synchronization_object else timer_notification_object) 0) s) (\<lambda>s.
          bind_result (create_handle a acc (objs s) (table s, gm s)) (\<lambda>(h, t, g).
          bind_result (with_mem (g_put 8 timer_handle h) (s\<lparr>table := t, gm := g\<rparr>)) (\<lambda>s.
            Inr (STATUS_SUCCESS, s))))))"

text \<open>The period is given in 100ns and kept in milliseconds; the quotient of a signed division truncates.\<close>

definition period_ms :: "u64 \<Rightarrow> u32" where
  "period_ms interval = word_of_int (sgn (sint interval) * (\<bar>sint interval\<bar> div 10000))"

definition SetTimer2 :: "int \<Rightarrow> u64 \<Rightarrow> addr \<Rightarrow> addr \<Rightarrow> service" where
  "SetTimer2 now timer_handle due_time period s =
     (case lookup_handle timer_handle (table s) of
        None \<Rightarrow> Inr (STATUS_INVALID_HANDLE, s)
      | Some e \<Rightarrow>
          if due_time = 0 then Inr (STATUS_INVALID_PARAMETER, s)
          else
            bind_result (read_timeout now due_time (gm s)) (\<lambda>(deadline, timed).
            bind_result (if period \<noteq> 0 then g_get 8 period (gm s) else Inr (0 :: u64)) (\<lambda>interval.
            bind_result (with_mem (g_put 8 (body_addr e + of_nat KTIMER_DueTime) (word_of_int deadline :: u64)) s) (\<lambda>s.
            bind_result (with_mem (g_put 4 (body_addr e + of_nat KTIMER_Period) (period_ms interval)) s) (\<lambda>s.
              Inr (STATUS_SUCCESS, s))))))"

definition CancelTimer2 :: "u64 \<Rightarrow> service" where
  "CancelTimer2 timer_handle s =
     (case lookup_handle timer_handle (table s) of
        None \<Rightarrow> Inr (STATUS_INVALID_HANDLE, s)
      | Some e \<Rightarrow>
          bind_result (with_mem (g_put 8 (body_addr e + of_nat KTIMER_DueTime) (0 :: u64)) s) (\<lambda>s.
          bind_result (with_mem (g_put 4 (body_addr e + of_nat KTIMER_Period) (0 :: u32)) s) (\<lambda>s.
            Inr (STATUS_SUCCESS, s))))"

section \<open>What a timer promises\<close>

text \<open>The due time, zero while the timer is not set.\<close>

datatype timer_op = Arm u64 addr | Disarm

fun timer_spec :: "u64 \<Rightarrow> timer_op \<Rightarrow> u64 \<Rightarrow> bool \<times> u64" where
  "timer_spec now (Arm due dpc) d = (d \<noteq> 0, absolute_time now due)"
| "timer_spec now Disarm d = (d \<noteq> 0, 0)"

fun timer_call :: "u64 \<Rightarrow> addr \<Rightarrow> timer_op \<Rightarrow> gmem \<Rightarrow> emu_error + bool \<times> gmem" where
  "timer_call now a (Arm due dpc) g = KeSetTimer now a due dpc g"
| "timer_call now a Disarm g = KeCancelTimer a g"

definition timer_at :: "addr \<Rightarrow> u64 \<Rightarrow> gmem \<Rightarrow> bool" where
  "timer_at a d g \<longleftrightarrow> a \<noteq> 0 \<and> (\<exists>bs. struct_at a bs g \<and> length bs = sizeof_KTIMER \<and> field_get KTIMER_DueTime 8 bs = d)"

interpretation timer: simulation "timer_call now a" "timer_spec now" "timer_at a" "\<lambda>_ _. True" "apart a sizeof_KTIMER"
proof unfold_locales
  fix d g p
  assume "timer_at a d g"
  then obtain bs where a: "a \<noteq> 0" and bs: "struct_at a bs g" "length bs = 0x40" "field_get 0x18 8 bs = d"
    by (auto simp: timer_at_def ktimer_defs)
  have rd: "g_read 0x40 a g = Inr bs" using bs by (simp add: struct_at_def)
  have wr: "length cs = 0x40 \<Longrightarrow> g_write a cs g = Inr (g_set a cs g)" for cs using struct_write [OF bs(1)] bs(2) by simp
  have at: "timer_at a e (g_set a cs g)" if "length cs = 0x40" "field_get 0x18 8 cs = e" for e cs
    using that a by (auto simp: timer_at_def ktimer_defs intro!: exI [of _ cs])
  show "\<exists>g'. timer_call now a p g = Inr (fst (timer_spec now p d), g') \<and> timer_at a (snd (timer_spec now p d)) g' \<and>
      apart a sizeof_KTIMER g g'"
    using a bs rd
    by (cases p) (simp_all add: KeSetTimer_def KeCancelTimer_def set_timer_def ktimer_defs Let_def wr at struct_simps)
qed (auto intro: apart_trans)

text \<open>
  A DPC is marked as queued when it is inserted and nothing takes the mark away, although it runs
  at once on a thread of its own: it can be inserted once, and every later insert is refused.
\<close>

lemma dpc_queued_for_ever:
  assumes "struct_at dpc bs g" and "length bs = sizeof_KDPC" and "dpc \<noteq> 0"
    and "field_get KDPC_DeferredRoutine 8 bs \<noteq> (0 :: addr)" and "field_get KDPC_DpcData 8 bs = (0 :: addr)"
  shows "\<exists>started g'. KeInsertQueueDpc dpc x y g = Inr (True, Some started, g') \<and>
    KeInsertQueueDpc dpc x' y' g' = Inr (False, None, g')"
proof -
  let ?e = "field_put 0x38 8 dpc (field_put 0x30 8 y (field_put 0x28 8 x bs))"
  have len: "length ?e = 0x40" using assms(2) by (simp add: kdpc_defs)
  have "KeInsertQueueDpc dpc x y g =
      Inr (True, Some (field_get 0x18 8 bs, [dpc, field_get 0x20 8 ?e, x, y]), g_set dpc ?e g)"
    using assms struct_write [OF assms(1), of ?e] len
    by (simp add: KeInsertQueueDpc_def kdpc_defs Let_def struct_at_def)
  moreover have "g_read 0x40 dpc (g_set dpc ?e g) = Inr ?e"
    using struct_at_set [of dpc ?e g] len by (simp add: struct_at_def)
  then have "KeInsertQueueDpc dpc x' y' (g_set dpc ?e g) = Inr (False, None, g_set dpc ?e g)"
    using assms by (simp add: KeInsertQueueDpc_def kdpc_defs Let_def struct_simps)
  ultimately show ?thesis by blast
qed

end
