(* ===== verification/Nt_Reg.thy ===== *)
theory Nt_Reg
  imports Nt_Sync Registry Guest_Struct
begin

text \<open>
  \<open>kernel/win/modules/nt_reg_ops.cpp\<close>: the registry services over the store of \<open>Registry\<close>, the
  handles of \<open>Obj_Manager\<close> and guest memory. A key handle leads to a host object that holds the
  key and the path it was opened by. A null pointer is zero; pointers the code only logs are left
  out. The answers are byte lists, written the way \<open>write_info\<close> does.
\<close>

section \<open>State and structures\<close>

record reg_state =
  rn :: nt_state
  reg :: registry
  next_cookie :: u64

type_synonym reg_service = "reg_state \<Rightarrow> emu_error + NTSTATUS \<times> reg_state"

definition key_basic_information :: u32 where "key_basic_information = 0"
definition key_node_information :: u32 where "key_node_information = 1"
definition key_full_information :: u32 where "key_full_information = 2"
definition key_value_basic_information :: u32 where "key_value_basic_information = 0"
definition key_value_full_information :: u32 where "key_value_full_information = 1"
definition key_value_partial_information :: u32 where "key_value_partial_information = 2"
definition reg_created_new_key :: u32 where "reg_created_new_key = 1"
definition reg_opened_existing_key :: u32 where "reg_opened_existing_key = 2"

definition rtl_registry_services :: u32 where "rtl_registry_services = 1"
definition rtl_registry_control :: u32 where "rtl_registry_control = 2"
definition rtl_registry_windows_nt :: u32 where "rtl_registry_windows_nt = 3"
definition rtl_registry_devicemap :: u32 where "rtl_registry_devicemap = 4"
definition rtl_registry_user :: u32 where "rtl_registry_user = 5"
definition rtl_registry_optional :: u32 where "rtl_registry_optional = 0x80000000"
definition rtl_registry_handle :: u32 where "rtl_registry_handle = 0x40000000"
definition rtl_query_registry_required :: u32 where "rtl_query_registry_required = 0x04"
definition rtl_query_registry_direct :: u32 where "rtl_query_registry_direct = 0x20"

definition OA_RootDirectory :: nat where "OA_RootDirectory = 0x08"
definition sizeof_OBJECT_ATTRIBUTES :: nat where "sizeof_OBJECT_ATTRIBUTES = 0x30"

text \<open>The heads of the answers, with their members packed.\<close>

definition key_basic_information_t :: "u32 \<Rightarrow> u8 list" where
  "key_basic_information_t name_length = le_enc 8 (0 :: u64) @ le_enc 4 (0 :: u32) @ le_enc 4 name_length"

definition key_full_information_t :: "u32 \<Rightarrow> u32 \<Rightarrow> u32 \<Rightarrow> u32 \<Rightarrow> u32 \<Rightarrow> u8 list" where
  "key_full_information_t sub_keys max_name_len values max_value_name_len max_value_data_len =
     le_enc 8 (0 :: u64) @ le_enc 4 (0 :: u32) @ le_enc 4 (0x2C :: u32) @ le_enc 4 (0 :: u32) @
     le_enc 4 sub_keys @ le_enc 4 max_name_len @ le_enc 4 (0 :: u32) @ le_enc 4 values @
     le_enc 4 max_value_name_len @ le_enc 4 max_value_data_len"

definition key_value_basic_information_t :: "u32 \<Rightarrow> u32 \<Rightarrow> u8 list" where
  "key_value_basic_information_t type name_length =
     le_enc 4 (0 :: u32) @ le_enc 4 type @ le_enc 4 name_length"

definition key_value_partial_information_t :: "u32 \<Rightarrow> u32 \<Rightarrow> u8 list" where
  "key_value_partial_information_t type data_length =
     le_enc 4 (0 :: u32) @ le_enc 4 type @ le_enc 4 data_length"

definition key_value_full_information_t :: "u32 \<Rightarrow> u32 \<Rightarrow> u32 \<Rightarrow> u32 \<Rightarrow> u8 list" where
  "key_value_full_information_t type data_offset data_length name_length =
     le_enc 4 (0 :: u32) @ le_enc 4 type @ le_enc 4 data_offset @ le_enc 4 data_length @ le_enc 4 name_length"

definition byte_length :: "u16 list \<Rightarrow> u32" where
  "byte_length str = of_nat (length str * 2)"

section \<open>Answers\<close>

definition reg_nt :: "(nt_state \<Rightarrow> emu_error + nt_state) \<Rightarrow> reg_state \<Rightarrow> emu_error + reg_state" where
  "reg_nt f s = bind_result (f (rn s)) (\<lambda>n. Inr (s\<lparr>rn := n\<rparr>))"

definition write_info :: "u8 list \<Rightarrow> addr \<Rightarrow> u32 \<Rightarrow> addr \<Rightarrow> reg_service" where
  "write_info response buffer len result_length s =
     (let required = of_nat (length response) :: u32 in
      bind_result (reg_nt (write_opt 4 result_length required) s) (\<lambda>s.
      if buffer = 0 \<or> len = 0 then Inr (STATUS_BUFFER_TOO_SMALL, s)
      else if len < required then
        bind_result (reg_nt (with_mem (g_write buffer (take (unat len) response))) s) (\<lambda>s.
          Inr (STATUS_BUFFER_OVERFLOW, s))
      else
        bind_result (reg_nt (with_mem (g_write buffer (take (unat required) response))) s) (\<lambda>s.
          Inr (STATUS_SUCCESS, s))))"

definition with_tail :: "u8 list \<Rightarrow> u8 list \<Rightarrow> u32 \<Rightarrow> u8 list" where
  "with_tail head tail tail_size = head @ take (unat tail_size) tail"

text \<open>
  The answer to a query of a value, empty for an unknown class. The size of the full answer is a
  32-bit sum: when it wraps, the copy of the data runs past the end of the vector.
\<close>

definition value_response :: "u32 \<Rightarrow> u16 list \<Rightarrow> registry_value \<Rightarrow> emu_error + u8 list" where
  "value_response info_class value_name v =
     (let name_bytes = byte_length value_name; data_bytes = of_nat (length (rv_data v)) :: u32;
          name = chars_bytes 2 value_name in
      if info_class = key_value_basic_information then
        Inr (with_tail (key_value_basic_information_t (rv_type v) name_bytes) name name_bytes)
      else if info_class = key_value_partial_information then
        Inr (with_tail (key_value_partial_information_t (rv_type v) data_bytes) (rv_data v) data_bytes)
      else if info_class = key_value_full_information then
        let data_offset = 0x14 + name_bytes;
            out = with_tail (key_value_full_information_t (rv_type v) data_offset data_bytes name_bytes) name name_bytes;
            total = unat (data_offset + data_bytes) in
        if data_bytes = 0 then Inr (vec_resize total out)
        else if total < unat data_offset + unat data_bytes then throw Out_of_bounds
        else Inr (take (unat data_offset) (vec_resize total out) @ take (unat data_bytes) (rv_data v))
      else Inr [])"

section \<open>Keys behind handles\<close>

fun as_key :: "win_object \<Rightarrow> (nat \<times> string) option" where
  "as_key (Registry_key_host k path) = Some (k, path)"
| "as_key _ = None"

definition key_from_handle :: "u64 \<Rightarrow> reg_state \<Rightarrow> (nat \<times> string) option" where
  "key_from_handle handle s = get_handle_object as_key handle (nt_state.objs (rn s)) (table (rn s))"

definition open_key_handle :: "allocator \<Rightarrow> nat \<Rightarrow> string \<Rightarrow> u32 \<Rightarrow> reg_state \<Rightarrow> emu_error + u64 \<times> reg_state" where
  "open_key_handle alloc key path acc s =
     bind_result (create_object alloc 0 (Some (replicate 8 0)) 8 (Some (Registry_key_host key path)) kernel_rw
         (nt_state.objs (rn s), gm (rn s))) (\<lambda>(a, om, g).
     let s = s\<lparr>rn := (rn s)\<lparr>nt_state.objs := om, gm := g\<rparr>\<rparr> in
     if a = 0 then Inr (0, s)
     else
       bind_result (create_handle a acc (nt_state.objs (rn s)) (table (rn s), gm (rn s))) (\<lambda>(h, t, g).
         Inr (h, s\<lparr>rn := (rn s)\<lparr>table := t, gm := g\<rparr>\<rparr>)))"

definition resolve_key_path :: "addr \<Rightarrow> reg_state \<Rightarrow> emu_error + string" where
  "resolve_key_path attributes s =
     (if attributes = 0 then Inr []
      else
        bind_result (g_read sizeof_OBJECT_ATTRIBUTES attributes (gm (rn s))) (\<lambda>attrs.
        bind_result (unicode_at (field_get (unat OA_ObjectName) 8 attrs) (gm (rn s))) (\<lambda>name.
        let relative = normalize_path name; root = field_get OA_RootDirectory 8 attrs :: u64 in
        if root = 0 then Inr relative
        else
          case key_from_handle root s of
            None \<Rightarrow> Inr relative
          | Some (_, path) \<Rightarrow> Inr (if relative = [] then path else path @ ''/'' @ relative))))"

definition resolve_rtl_path :: "u32 \<Rightarrow> u16 list \<Rightarrow> string" where
  "resolve_rtl_path relative_to path =
     (let relative = normalize_path path;
          base = relative_to AND NOT (rtl_registry_optional OR rtl_registry_handle) in
      if base = rtl_registry_services then ''system/currentcontrolset/services/'' @ relative
      else if base = rtl_registry_control then ''system/currentcontrolset/control/'' @ relative
      else if base = rtl_registry_windows_nt then ''software/microsoft/windows nt/currentversion/'' @ relative
      else if base = rtl_registry_devicemap then ''hardware/devicemap/'' @ relative
      else if base = rtl_registry_user then ''user/'' @ relative
      else relative)"

text \<open>The values of a key object, and a change of them.\<close>

definition values_of :: "nat \<Rightarrow> reg_state \<Rightarrow> registry_key" where
  "values_of k s = registry.objs (reg s) ! k"

definition set_values :: "nat \<Rightarrow> registry_key \<Rightarrow> reg_state \<Rightarrow> reg_state" where
  "set_values k vs s = s\<lparr>reg := (reg s)\<lparr>registry.objs := (registry.objs (reg s))[k := vs]\<rparr>\<rparr>"

section \<open>Services on keys\<close>

definition CreateKey :: "allocator \<Rightarrow> addr \<Rightarrow> u32 \<Rightarrow> addr \<Rightarrow> addr \<Rightarrow> reg_service" where
  "CreateKey alloc key_handle acc attributes disposition s =
     bind_result (resolve_key_path attributes s) (\<lambda>path.
     if key_handle = 0 \<or> path = [] then Inr (STATUS_INVALID_PARAMETER, s)
     else
       let existed = key_exists path (reg s); (key, r) = create_key path (reg s) in
       bind_result (open_key_handle alloc key path acc (s\<lparr>reg := r\<rparr>)) (\<lambda>(h, s).
       if h = 0 then Inr (STATUS_INSUFFICIENT_RESOURCES, s)
       else
         bind_result (reg_nt (with_mem (g_put 8 key_handle h)) s) (\<lambda>s.
         bind_result (reg_nt (write_opt 4 disposition
             (if existed then reg_opened_existing_key else reg_created_new_key)) s) (\<lambda>s.
           Inr (STATUS_SUCCESS, s)))))"

definition OpenKey :: "allocator \<Rightarrow> addr \<Rightarrow> u32 \<Rightarrow> addr \<Rightarrow> reg_service" where
  "OpenKey alloc key_handle acc attributes s =
     bind_result (resolve_key_path attributes s) (\<lambda>path.
     if key_handle = 0 then Inr (STATUS_INVALID_PARAMETER, s)
     else
       case open_key path (reg s) of
         None \<Rightarrow> Inr (STATUS_OBJECT_NAME_NOT_FOUND, s)
       | Some key \<Rightarrow>
           bind_result (open_key_handle alloc key path acc s) (\<lambda>(h, s).
           if h = 0 then Inr (STATUS_INSUFFICIENT_RESOURCES, s)
           else bind_result (reg_nt (with_mem (g_put 8 key_handle h)) s) (\<lambda>s. Inr (STATUS_SUCCESS, s))))"

text \<open>The part of the path behind the last slash.\<close>

definition last_component :: "string \<Rightarrow> string" where
  "last_component path = rev (takeWhile (\<lambda>c. c \<noteq> CHR ''/'') (rev path))"

text \<open>\<open>std::max\<close> over 32-bit sizes.\<close>

definition max_size :: "nat list \<Rightarrow> u32" where
  "max_size ns = fold (\<lambda>n m. max m (of_nat n)) ns 0"

definition name_response :: "u16 list \<Rightarrow> u8 list" where
  "name_response name = with_tail (key_basic_information_t (byte_length name)) (chars_bytes 2 name) (byte_length name)"

definition QueryKey :: "u64 \<Rightarrow> u32 \<Rightarrow> addr \<Rightarrow> u32 \<Rightarrow> addr \<Rightarrow> reg_service" where
  "QueryKey key_handle info_class information len result_length s =
     (case key_from_handle key_handle s of
        None \<Rightarrow> Inr (STATUS_INVALID_HANDLE, s)
      | Some (k, path) \<Rightarrow>
          if info_class = key_basic_information \<or> info_class = key_node_information then
            write_info (name_response (widen_string (last_component path))) information len result_length s
          else if info_class = key_full_information then
            let subkeys = enumerate_subkeys path (reg s); values = enumerate_values (values_of k s) in
            write_info (key_full_information_t (of_nat (length subkeys))
                (max_size (map (\<lambda>n. length n * 2) subkeys)) (of_nat (length values))
                (max_size (map (\<lambda>n. length n * 2) values))
                (max_size (map (\<lambda>n. case query_value n (values_of k s) of Some v \<Rightarrow> length (rv_data v) | None \<Rightarrow> 0) values)))
              information len result_length s
          else Inr (STATUS_INVALID_INFO_CLASS, s))"

definition EnumerateKey :: "u64 \<Rightarrow> u32 \<Rightarrow> u32 \<Rightarrow> addr \<Rightarrow> u32 \<Rightarrow> addr \<Rightarrow> reg_service" where
  "EnumerateKey key_handle index info_class information len result_length s =
     (case key_from_handle key_handle s of
        None \<Rightarrow> Inr (STATUS_INVALID_HANDLE, s)
      | Some (k, path) \<Rightarrow>
          let subkeys = enumerate_subkeys path (reg s) in
          if length subkeys \<le> unat index then Inr (STATUS_NO_MORE_ENTRIES, s)
          else if info_class \<noteq> key_basic_information \<and> info_class \<noteq> key_node_information
          then Inr (STATUS_INVALID_INFO_CLASS, s)
          else write_info (name_response (widen_string (subkeys ! unat index))) information len result_length s)"

definition DeleteKey :: "u64 \<Rightarrow> reg_service" where
  "DeleteKey key_handle s =
     (case key_from_handle key_handle s of
        None \<Rightarrow> Inr (STATUS_INVALID_HANDLE, s)
      | Some (k, path) \<Rightarrow>
          let (deleted, r) = delete_key path (reg s) in
          Inr (if deleted then STATUS_SUCCESS else STATUS_OBJECT_NAME_NOT_FOUND, s\<lparr>reg := r\<rparr>))"

definition FlushKey :: "u64 \<Rightarrow> reg_service" where
  "FlushKey key_handle s =
     Inr (if key_from_handle key_handle s = None then STATUS_INVALID_HANDLE else STATUS_SUCCESS, s)"

section \<open>Services on values\<close>

definition QueryValueKey :: "u64 \<Rightarrow> addr \<Rightarrow> u32 \<Rightarrow> addr \<Rightarrow> u32 \<Rightarrow> addr \<Rightarrow> reg_service" where
  "QueryValueKey key_handle value_name info_class information len result_length s =
     (case key_from_handle key_handle s of
        None \<Rightarrow> Inr (STATUS_INVALID_HANDLE, s)
      | Some (k, path) \<Rightarrow>
          bind_result (unicode_at value_name (gm (rn s))) (\<lambda>name.
          case query_value (narrow_wstring name) (values_of k s) of
            None \<Rightarrow>
              bind_result (reg_nt (write_opt 4 result_length (0 :: u32)) s) (\<lambda>s.
                Inr (STATUS_OBJECT_NAME_NOT_FOUND, s))
          | Some v \<Rightarrow>
              bind_result (value_response info_class name v) (\<lambda>response.
              if response = [] then Inr (STATUS_INVALID_INFO_CLASS, s)
              else write_info response information len result_length s)))"

definition EnumerateValueKey :: "u64 \<Rightarrow> u32 \<Rightarrow> u32 \<Rightarrow> addr \<Rightarrow> u32 \<Rightarrow> addr \<Rightarrow> reg_service" where
  "EnumerateValueKey key_handle index info_class information len result_length s =
     (case key_from_handle key_handle s of
        None \<Rightarrow> Inr (STATUS_INVALID_HANDLE, s)
      | Some (k, path) \<Rightarrow>
          let names = enumerate_values (values_of k s) in
          if length names \<le> unat index then Inr (STATUS_NO_MORE_ENTRIES, s)
          else
            case query_value (names ! unat index) (values_of k s) of
              None \<Rightarrow> Inr (STATUS_OBJECT_NAME_NOT_FOUND, s)
            | Some v \<Rightarrow>
                bind_result (value_response info_class (widen_string (names ! unat index)) v) (\<lambda>response.
                if response = [] then Inr (STATUS_INVALID_INFO_CLASS, s)
                else write_info response information len result_length s))"

text \<open>The bytes a caller hands over: zeros where there is no pointer.\<close>

definition given_bytes :: "addr \<Rightarrow> u32 \<Rightarrow> gmem \<Rightarrow> emu_error + u8 list" where
  "given_bytes data data_size g =
     (if data_size \<noteq> 0 \<and> data \<noteq> 0 then g_read (unat data_size) data g
      else Inr (replicate (unat data_size) 0))"

definition SetValueKey :: "u64 \<Rightarrow> addr \<Rightarrow> u32 \<Rightarrow> addr \<Rightarrow> u32 \<Rightarrow> reg_service" where
  "SetValueKey key_handle value_name type data data_size s =
     (case key_from_handle key_handle s of
        None \<Rightarrow> Inr (STATUS_INVALID_HANDLE, s)
      | Some (k, path) \<Rightarrow>
          bind_result (unicode_at value_name (gm (rn s))) (\<lambda>name.
          bind_result (given_bytes data data_size (gm (rn s))) (\<lambda>bytes.
            Inr (STATUS_SUCCESS, set_values k (set_value_span (narrow_wstring name) type bytes (values_of k s)) s))))"

definition DeleteValueKey :: "u64 \<Rightarrow> addr \<Rightarrow> reg_service" where
  "DeleteValueKey key_handle value_name s =
     (case key_from_handle key_handle s of
        None \<Rightarrow> Inr (STATUS_INVALID_HANDLE, s)
      | Some (k, path) \<Rightarrow>
          bind_result (unicode_at value_name (gm (rn s))) (\<lambda>name.
          let (deleted, vs) = delete_value (narrow_wstring name) (values_of k s) in
          Inr (if deleted then STATUS_SUCCESS else STATUS_OBJECT_NAME_NOT_FOUND, set_values k vs s)))"

section \<open>Services by path\<close>

definition RtlWriteRegistryValue :: "u32 \<Rightarrow> addr \<Rightarrow> addr \<Rightarrow> u32 \<Rightarrow> addr \<Rightarrow> u32 \<Rightarrow> reg_service" where
  "RtlWriteRegistryValue relative_to path value_name type data len s =
     bind_result (read_wstring path default_max_chars (gm (rn s))) (\<lambda>path.
     bind_result (read_wstring value_name default_max_chars (gm (rn s))) (\<lambda>name.
     let (k, r) = create_key (resolve_rtl_path relative_to path) (reg s); s = s\<lparr>reg := r\<rparr> in
     bind_result (given_bytes data len (gm (rn s))) (\<lambda>bytes.
       Inr (STATUS_SUCCESS, set_values k (set_value_span (narrow_wstring name) type bytes (values_of k s)) s))))"

definition RtlDeleteRegistryValue :: "u32 \<Rightarrow> addr \<Rightarrow> addr \<Rightarrow> reg_service" where
  "RtlDeleteRegistryValue relative_to path value_name s =
     bind_result (read_wstring path default_max_chars (gm (rn s))) (\<lambda>path.
     bind_result (read_wstring value_name default_max_chars (gm (rn s))) (\<lambda>name.
     case open_key (resolve_rtl_path relative_to path) (reg s) of
       None \<Rightarrow> Inr (STATUS_OBJECT_NAME_NOT_FOUND, s)
     | Some k \<Rightarrow>
         let (deleted, vs) = delete_value (narrow_wstring name) (values_of k s) in
         Inr (if deleted then STATUS_SUCCESS else STATUS_OBJECT_NAME_NOT_FOUND, set_values k vs s)))"

text \<open>The rows of a query table: \<open>n\<close> turns are left and the next row is the one at \<open>row\<close>.\<close>

definition sizeof_query_table :: nat where "sizeof_query_table = 0x38"

fun query_rows :: "nat \<Rightarrow> registry_key option \<Rightarrow> addr \<Rightarrow> gmem \<Rightarrow> emu_error + NTSTATUS \<times> gmem" where
  "query_rows 0 key row g = Inr (STATUS_SUCCESS, g)"
| "query_rows (Suc n) key row g =
     bind_result (g_read sizeof_query_table row g) (\<lambda>bs.
     let routine = field_get 0x00 8 bs :: u64; flags = field_get 0x08 4 bs :: u32;
         name_at = field_get 0x10 8 bs :: u64; entry_context = field_get 0x18 8 bs :: u64;
         default_data = field_get 0x28 8 bs :: u64; default_length = field_get 0x30 4 bs :: u32;
         next = query_rows n key (row + of_nat sizeof_query_table) in
     if name_at = 0 \<and> routine = 0 then Inr (STATUS_SUCCESS, g)
     else
       bind_result (read_wstring name_at default_max_chars g) (\<lambda>name.
       if flags AND rtl_query_registry_direct = 0 then next g
       else
         case (case key of Some vs \<Rightarrow> query_value (narrow_wstring name) vs | None \<Rightarrow> None) of
           None \<Rightarrow>
             if flags AND rtl_query_registry_required \<noteq> 0 then Inr (STATUS_OBJECT_NAME_NOT_FOUND, g)
             else if default_data \<noteq> 0 \<and> default_length \<noteq> 0 \<and> entry_context \<noteq> 0 then
               bind_result (g_read (unat default_length) default_data g) (\<lambda>bytes.
               bind_result (g_write entry_context bytes g) next)
             else next g
         | Some v \<Rightarrow>
             if entry_context \<noteq> 0 then bind_result (g_write entry_context (rv_data v) g) next
             else next g))"

definition RtlQueryRegistryValues :: "u32 \<Rightarrow> addr \<Rightarrow> addr \<Rightarrow> reg_service" where
  "RtlQueryRegistryValues relative_to path query_table s =
     bind_result (read_wstring path default_max_chars (gm (rn s))) (\<lambda>path.
     let key = map_option (\<lambda>k. values_of k s) (open_key (resolve_rtl_path relative_to path) (reg s)) in
     bind_result (query_rows 64 key query_table (gm (rn s))) (\<lambda>(status, g).
       Inr (status, s\<lparr>rn := (rn s)\<lparr>gm := g\<rparr>\<rparr>)))"

section \<open>Notifications\<close>

definition CmRegisterCallbackEx :: "addr \<Rightarrow> reg_service" where
  "CmRegisterCallbackEx cookie s =
     (if cookie = 0 then Inr (STATUS_INVALID_PARAMETER, s)
      else
        bind_result (reg_nt (with_mem (g_put 8 cookie (next_cookie s))) (s\<lparr>next_cookie := next_cookie s + 1\<rparr>)) (\<lambda>s.
          Inr (STATUS_SUCCESS, s)))"

definition CmUnRegisterCallback :: "u64 \<Rightarrow> reg_service" where
  "CmUnRegisterCallback cookie s = Inr (STATUS_SUCCESS, s)"

definition NotifyChangeKey :: "u64 \<Rightarrow> addr \<Rightarrow> bool \<Rightarrow> reg_service" where
  "NotifyChangeKey key_handle io_status_block asynchronous s =
     (if lookup_handle key_handle (table (rn s)) = None then Inr (STATUS_INVALID_HANDLE, s)
      else
        bind_result (if io_status_block \<noteq> 0 then reg_nt (with_mem (g_write io_status_block (replicate 16 0))) s
                     else Inr s) (\<lambda>s.
          Inr (if asynchronous then STATUS_PENDING else STATUS_SUCCESS, s)))"

section \<open>What a query leaves in memory\<close>

text \<open>
  The buffer and the length a caller passes are mapped and apart; \<open>n\<close> bytes of the buffer are
  written. The answer is a prefix of the response and its full length, and nothing else changes.
\<close>

definition buffers_ok :: "addr \<Rightarrow> nat \<Rightarrow> addr \<Rightarrow> gmem \<Rightarrow> bool" where
  "buffers_ok buffer n rl g \<longleftrightarrow>
     (buffer \<noteq> 0 \<longrightarrow> g_mapped g buffer n) \<and> (rl \<noteq> 0 \<longrightarrow> g_mapped g rl 4) \<and>
     (buffer \<noteq> 0 \<longrightarrow> rl \<noteq> 0 \<longrightarrow> span buffer n \<inter> span rl 4 = {})"

definition answer_status :: "u8 list \<Rightarrow> addr \<Rightarrow> u32 \<Rightarrow> NTSTATUS" where
  "answer_status response buffer len =
     (if buffer = 0 \<or> len = 0 then STATUS_BUFFER_TOO_SMALL
      else if unat len < length response then STATUS_BUFFER_OVERFLOW else STATUS_SUCCESS)"

definition answered :: "u8 list \<Rightarrow> addr \<Rightarrow> nat \<Rightarrow> addr \<Rightarrow> gmem \<Rightarrow> gmem \<Rightarrow> bool" where
  "answered response buffer n rl g g' \<longleftrightarrow>
     (buffer \<noteq> 0 \<longrightarrow> g_read n buffer g' = Inr (take n response)) \<and>
     (rl \<noteq> 0 \<longrightarrow> g_get 4 rl g' = Inr (of_nat (length response) :: u32)) \<and>
     (\<forall>x. (buffer \<noteq> 0 \<longrightarrow> x \<notin> span buffer n) \<longrightarrow> (rl \<noteq> 0 \<longrightarrow> x \<notin> span rl 4) \<longrightarrow> g' x = g x)"

lemma reg_nt_mem: "reg_nt (with_mem f) s = bind_result (f (gm (rn s))) (\<lambda>g. Inr (s\<lparr>rn := (rn s)\<lparr>gm := g\<rparr>\<rparr>))"
  by (simp add: reg_nt_def with_mem_def split: sum.split)

lemma write_opt_effect:
  assumes "rl \<noteq> 0 \<longrightarrow> g_mapped (gm (rn s)) rl 4"
  shows "\<exists>g. reg_nt (write_opt 4 rl (v :: u32)) s = Inr (s\<lparr>rn := (rn s)\<lparr>gm := g\<rparr>\<rparr>) \<and>
    (rl \<noteq> 0 \<longrightarrow> g_get 4 rl g = Inr v) \<and> (\<forall>x. (rl \<noteq> 0 \<longrightarrow> x \<notin> span rl 4) \<longrightarrow> g x = gm (rn s) x) \<and>
    (\<forall>a n. g_mapped g a n = g_mapped (gm (rn s)) a n)"
proof (cases "rl = 0")
  case True
  then show ?thesis by (auto simp: reg_nt_def write_opt_def intro: exI [of _ "gm (rn s)"])
next
  case False
  then obtain g where g: "g_put 4 rl v (gm (rn s)) = Inr g" using assms g_put_total by blast
  then have "g_get 4 rl g = Inr v" using g_get_put_same [of 4 rl v "gm (rn s)" g] by (simp add: take_bit_word_eq_self)
  then show ?thesis using False g g_put_other [OF g] g_put_mapped [OF g]
    by (auto simp: reg_nt_def write_opt_def with_mem_def intro!: exI [of _ g])
qed

lemma write_info_correct:
  assumes "length response < 2 ^ 32" and "n = min (unat len) (length response)"
    and "buffers_ok buffer n rl (gm (rn s))"
  shows "\<exists>g'. write_info response buffer len rl s =
      Inr (answer_status response buffer len, s\<lparr>rn := (rn s)\<lparr>gm := g'\<rparr>\<rparr>) \<and>
    answered response buffer n rl (gm (rn s)) g'"
proof -
  let ?r = "of_nat (length response) :: u32"
  have r: "unat ?r = length response" using assms(1) by (simp add: unat_of_nat)
  obtain g where g: "reg_nt (write_opt 4 rl ?r) s = Inr (s\<lparr>rn := (rn s)\<lparr>gm := g\<rparr>\<rparr>)"
    "rl \<noteq> 0 \<longrightarrow> g_get 4 rl g = Inr ?r" "\<forall>x. (rl \<noteq> 0 \<longrightarrow> x \<notin> span rl 4) \<longrightarrow> g x = gm (rn s) x"
    "\<forall>a n. g_mapped g a n = g_mapped (gm (rn s)) a n"
    using write_opt_effect [of rl s ?r] assms(3) by (auto simp: buffers_ok_def)
  show ?thesis
  proof (cases "buffer = 0 \<or> len = 0")
    case True
    then have "n = 0 \<or> buffer = 0" using assms(2) by auto
    then show ?thesis using True g by (auto simp: write_info_def answer_status_def answered_def Let_def)
  next
    case False
    let ?w = "take n response"
    have n: "length ?w = n" "n < 2 ^ 64" using assms(1,2) by auto
    have w: "take (unat len) response = ?w" "take (unat ?r) response = response"
      "unat len < length response \<or> ?w = response" using assms(2) r by (auto simp: min_def)
    obtain g' where g': "g_write buffer ?w g = Inr g'"
      using g_write_total [of g buffer ?w] g(4) assms(3) False n(1) by (auto simp: buffers_ok_def)
    have "g_read n buffer g' = Inr ?w" using g_read_write_same [OF g'] n by simp
    moreover have "g_get 4 rl g' = Inr ?r" if "rl \<noteq> 0"
    proof -
      have "g' x = g x" if "x \<in> span rl 4" for x
        using g_write_other [OF g', of x] assms(3) False \<open>rl \<noteq> 0\<close> n(1) that by (auto simp: buffers_ok_def)
      then have "g_get 4 rl g' = (g_get 4 rl g :: emu_error + u32)" by (rule g_get_cong)
      then show ?thesis using g(2) that by simp
    qed
    moreover have "g' x = gm (rn s) x" if "x \<notin> span buffer n" "rl \<noteq> 0 \<longrightarrow> x \<notin> span rl 4" for x
      using g_write_other [OF g', of x] g(3) n(1) that by simp
    ultimately have "answered response buffer n rl (gm (rn s)) g'" using False by (auto simp: answered_def)
    moreover have "write_info response buffer len rl s =
        Inr (answer_status response buffer len, s\<lparr>rn := (rn s)\<lparr>gm := g'\<rparr>\<rparr>)"
      using False g(1) g' w r
      by (auto simp: write_info_def answer_status_def Let_def reg_nt_mem word_less_nat_alt)
    ultimately show ?thesis by blast
  qed
qed

text \<open>Enumerating by index lists the subkeys in order, each once, and then ends.\<close>

lemma EnumerateKey_lists:
  assumes "key_from_handle h s = Some (k, path)"
    and "subkeys = sorted_list_of_set (children (path @ ''/'') {p. key_exists p (reg s)})"
  shows "EnumerateKey h i key_basic_information buffer len rl s =
    (if unat i < length subkeys
     then write_info (name_response (widen_string (subkeys ! unat i))) buffer len rl s
     else Inr (STATUS_NO_MORE_ENTRIES, s))"
  using assms by (auto simp: EnumerateKey_def enumerate_subkeys_children key_basic_information_def Let_def)

text \<open>A handle outlives the name of its key: what is deleted can still be written and read through it.\<close>

lemma key_from_handle_reg [simp]: "key_from_handle h (s\<lparr>reg := r\<rparr>) = key_from_handle h s"
  by (simp add: key_from_handle_def)

lemma handle_outlives_key:
  assumes "key_from_handle h s = Some (k, path)" and "key_exists path (reg s)"
  shows "\<exists>s'. DeleteKey h s = Inr (STATUS_SUCCESS, s') \<and> \<not> key_exists path (reg s') \<and>
    key_from_handle h s' = Some (k, path) \<and> values_of k s' = values_of k s"
  using assms by (auto simp: DeleteKey_def delete_key_def key_exists_def values_of_def)

section \<open>Properties\<close>

lemma length_partial [simp]: "length (key_value_partial_information_t ty n) = 12"
  by (simp add: key_value_partial_information_t_def)

lemma length_given: "given_bytes data sz g = Inr bytes \<Longrightarrow> length bytes = unat sz"
  using g_read_mapped by (auto simp: given_bytes_def split: if_splits)

text \<open>
  C30: A value set through one handle of a key is what a query through any handle of the same key
  returns: the caller gets the type, the length and the data, cut off at the end of its buffer,
  and always the length it would have needed. Setting a value changes no other value of the key
  and no other key, and a query changes no memory but the caller's buffer and length.
\<close>

theorem registry_value_round_trip:
  assumes "key_from_handle h s = Some (k, p)" and "key_from_handle h' s = Some (k, p')"
    and "k < length (registry.objs (reg s))" and "unicode_at value_name (gm (rn s)) = Inr name"
    and "given_bytes data sz (gm (rn s)) = Inr bytes" and "unat sz + 12 < 2 ^ 32"
    and "response = key_value_partial_information_t ty sz @ bytes" and "n = min (unat len) (length response)"
    and "buffers_ok buffer n rl (gm (rn s))"
  shows "\<exists>s' g'. SetValueKey h value_name ty data sz s = Inr (STATUS_SUCCESS, s') \<and> rn s' = rn s \<and>
    (\<forall>j m. query_value m (values_of j s') =
       (if j = k \<and> m = narrow_wstring name then Some \<lparr>rv_type = ty, rv_data = bytes\<rparr>
        else query_value m (values_of j s))) \<and>
    QueryValueKey h' value_name key_value_partial_information buffer len rl s' =
      Inr (answer_status response buffer len, s'\<lparr>rn := (rn s')\<lparr>gm := g'\<rparr>\<rparr>) \<and>
    answered response buffer n rl (gm (rn s)) g'"
proof -
  let ?s = "set_values k (set_value_span (narrow_wstring name) ty bytes (values_of k s)) s"
  have len: "length bytes = unat sz" "length response < 2 ^ 32"
    using length_given [OF assms(5)] assms(6,7) by simp_all
  have rn: "rn ?s = rn s" by (simp add: set_values_def)
  have vals: "query_value m (values_of j ?s) =
      (if j = k \<and> m = narrow_wstring name then Some \<lparr>rv_type = ty, rv_data = bytes\<rparr>
       else query_value m (values_of j s))" for j m
    using assms(3) by (cases "j = k") (auto simp: set_values_def values_of_def set_value_span_def query_set_value)
  have resp: "value_response key_value_partial_information name \<lparr>rv_type = ty, rv_data = bytes\<rparr> = Inr response"
    using assms(7) len(1) by (simp add: value_response_def Let_def with_tail_def key_value_partial_information_def
        key_value_basic_information_def)
  obtain g' where g': "write_info response buffer len rl ?s =
      Inr (answer_status response buffer len, ?s\<lparr>rn := (rn ?s)\<lparr>gm := g'\<rparr>\<rparr>)"
    "answered response buffer n rl (gm (rn s)) g'"
    using write_info_correct [of response n len buffer rl ?s] len(2) assms(8,9) rn by auto
  have "key_from_handle h' ?s = Some (k, p')" using assms(2) by (simp add: set_values_def)
  moreover have "response \<noteq> []" using assms(7) by (auto dest: arg_cong [where f = length])
  ultimately have "QueryValueKey h' value_name key_value_partial_information buffer len rl ?s =
      Inr (answer_status response buffer len, ?s\<lparr>rn := (rn ?s)\<lparr>gm := g'\<rparr>\<rparr>)"
    using assms(4) rn vals [of "narrow_wstring name" k] resp g'(1) by (simp add: QueryValueKey_def)
  moreover have "SetValueKey h value_name ty data sz s = Inr (STATUS_SUCCESS, ?s)"
    using assms(1,4,5) by (simp add: SetValueKey_def)
  ultimately show ?thesis using rn vals g'(2) by blast
qed

text \<open>Two handles of one key, and a value of four bytes read back into a buffer of 14 bytes.\<close>

definition reg_demo_mem :: gmem where
  "reg_demo_mem =
     (\<lambda>x. if 0x1000 \<le> x \<and> x < 0x1100 then Some 0 else None)
       (0x1000 \<mapsto> 2, 0x1009 \<mapsto> 0x10, 0x1008 \<mapsto> 0x20, 0x1020 \<mapsto> 0x56,
        0x1030 \<mapsto> 0xD1, 0x1031 \<mapsto> 0xD2, 0x1032 \<mapsto> 0xD3, 0x1033 \<mapsto> 0xD4)"

definition reg_demo :: reg_state where
  "reg_demo = \<lparr>
     rn = \<lparr>nt_state.objs = \<lparr>objects = [(0x9000, \<lparr>header = 0, host = Some (Registry_key_host 0 ''software'')\<rparr>)],
                        named = [], next_id = 4\<rparr>,
           table = \<lparr>handles = [(4, \<lparr>body_addr = 0x9000, access = 0\<rparr>), (8, \<lparr>body_addr = 0x9000, access = 0\<rparr>)],
                    next_handle = 12\<rparr>,
           gm = reg_demo_mem, procthreads = [], current = None, yielded = False, woken = False\<rparr>,
     reg = \<lparr>keys = [(''software'', 0)], registry.objs = [[]]\<rparr>, next_cookie = 1\<rparr>"

lemma reg_demo_ok:
  "key_from_handle 4 reg_demo = Some (0, ''software'')" "key_from_handle 8 reg_demo = Some (0, ''software'')"
  "0 < length (registry.objs (reg reg_demo))" "unicode_at 0x1000 (gm (rn reg_demo)) = Inr [0x56]"
  "given_bytes 0x1030 4 (gm (rn reg_demo)) = Inr [0xD1, 0xD2, 0xD3, 0xD4]"
  "buffers_ok 0x1080 14 0x10C0 (gm (rn reg_demo))"
  by code_simp+

theorem registry_value_round_trip_witness:
  "\<exists>s' g'. SetValueKey 4 0x1000 3 0x1030 4 reg_demo = Inr (STATUS_SUCCESS, s') \<and>
    QueryValueKey 8 0x1000 key_value_partial_information 0x1080 14 0x10C0 s' =
      Inr (STATUS_BUFFER_OVERFLOW, s'\<lparr>rn := (rn s')\<lparr>gm := g'\<rparr>\<rparr>) \<and>
    g_read 14 0x1080 g' = Inr [0, 0, 0, 0, 3, 0, 0, 0, 4, 0, 0, 0, 0xD1, 0xD2] \<and>
    g_get 4 0x10C0 g' = Inr (16 :: u32)"
proof -
  let ?r = "key_value_partial_information_t 3 4 @ [0xD1, 0xD2, 0xD3, 0xD4]"
  have r: "?r = [0, 0, 0, 0, 3, 0, 0, 0, 4, 0, 0, 0, 0xD1, 0xD2, 0xD3, 0xD4]" by code_simp
  have "answer_status ?r 0x1080 14 = STATUS_BUFFER_OVERFLOW" by (simp add: answer_status_def)
  then show ?thesis
    using registry_value_round_trip [OF reg_demo_ok(1-5), where ty = 3 and response = ?r and n = 14 and len = 14
        and buffer = "0x1080" and rl = "0x10C0"] reg_demo_ok(6) r
    by (fastforce simp: answered_def)
qed

end
