(* ===== verification/Ob_Callbacks.thy ===== *)
theory Ob_Callbacks
  imports Nt_Sync Guest_Struct
begin

text \<open>
  The object callbacks a driver registers: \<open>ObRegisterCallbacks\<close>, \<open>ObUnRegisterCallbacks\<close> and
  \<open>ObOpenObjectByPointer\<close> of \<open>kernel/win/modules/nt_object_ops.cpp\<close> with \<open>ob_pre_handle\<close> and
  \<open>ob_post_handle\<close> of \<open>win_kernel.hpp\<close>. The guest code of a callback is the argument \<open>call\<close>, from
  its address and arguments to its result and the memory it leaves; it changes nothing but
  memory. The address of the kernel global that holds the thread type comes from a symbol file
  and is the argument \<open>thread_type\<close>.
\<close>

section \<open>Registrations\<close>

type_synonym guest_call = "addr \<Rightarrow> u64 list \<Rightarrow> gmem \<Rightarrow> u64 \<times> gmem"

definition ob_operation_handle_create :: u32 where "ob_operation_handle_create = 0x1"
definition ob_operation_handle_duplicate :: u32 where "ob_operation_handle_duplicate = 0x2"

record ob_registration =
  registration :: addr
  object_type :: addr
  operations :: u32
  pre :: addr
  post :: addr
  reg_context :: addr

record ob_state =
  obn :: nt_state
  ob_registrations :: "ob_registration list"

definition sizeof_callback_registration :: nat where "sizeof_callback_registration = 0x28"
definition sizeof_operation_registration :: nat where "sizeof_operation_registration = 0x20"

definition read_operation :: "addr \<Rightarrow> addr \<Rightarrow> addr \<Rightarrow> gmem \<Rightarrow> emu_error + ob_registration" where
  "read_operation handle ctx a g =
     bind_result (g_read sizeof_operation_registration a g) (\<lambda>bs.
     bind_result (g_get 8 (field_get 0x00 8 bs) g) (\<lambda>type.
       Inr \<lparr>registration = handle, object_type = type, operations = field_get 0x08 4 bs,
            pre = field_get 0x10 8 bs, post = field_get 0x18 8 bs, reg_context = ctx\<rparr>))"

fun read_operations :: "nat \<Rightarrow> addr \<Rightarrow> addr \<Rightarrow> addr \<Rightarrow> gmem \<Rightarrow> ob_registration list \<Rightarrow>
  emu_error + ob_registration list" where
  "read_operations 0 handle ctx a g rs = Inr rs"
| "read_operations (Suc n) handle ctx a g rs =
     bind_result (read_operation handle ctx a g) (\<lambda>r.
       read_operations n handle ctx (a + of_nat sizeof_operation_registration) g (rs @ [r]))"

definition ObRegisterCallbacks :: "allocator \<Rightarrow> addr \<Rightarrow> addr \<Rightarrow> ob_state \<Rightarrow> emu_error + NTSTATUS \<times> ob_state" where
  "ObRegisterCallbacks alloc callback_registration registration_handle s =
     (if callback_registration = 0 \<or> registration_handle = 0 then Inr (STATUS_INVALID_PARAMETER, s)
      else
        bind_result (g_read sizeof_callback_registration callback_registration (gm (obn s))) (\<lambda>reg.
        bind_result (unicode_at (callback_registration + 8) (gm (obn s))) (\<lambda>altitude.
        bind_result (create_object alloc 0 (Some (replicate 8 0)) 8 None kernel_rw (objs (obn s), gm (obn s))) (\<lambda>(h, om, g).
        let s = s\<lparr>obn := (obn s)\<lparr>objs := om, gm := g\<rparr>\<rparr> in
        if h = 0 then Inr (STATUS_INSUFFICIENT_RESOURCES, s)
        else
          bind_result (g_put 8 registration_handle h (gm (obn s))) (\<lambda>g.
          bind_result (read_operations (unat (field_get 2 2 reg :: u16)) h (field_get 0x18 8 reg) (field_get 0x20 8 reg)
              g (ob_registrations s)) (\<lambda>rs.
            Inr (STATUS_SUCCESS, s\<lparr>obn := (obn s)\<lparr>gm := g\<rparr>, ob_registrations := rs\<rparr>)))))))"

definition ObUnRegisterCallbacks :: "addr \<Rightarrow> ob_state \<Rightarrow> ob_state" where
  "ObUnRegisterCallbacks handle s =
     s\<lparr>ob_registrations := filter (\<lambda>r. registration r \<noteq> handle) (ob_registrations s)\<rparr>"

section \<open>Running the callbacks\<close>

definition pre_matches :: "addr \<Rightarrow> u32 \<Rightarrow> ob_registration list \<Rightarrow> ob_registration list" where
  "pre_matches ty op rs = filter (\<lambda>r. pre r \<noteq> 0 \<and> operations r AND op \<noteq> 0 \<and> object_type r = ty) rs"

definition post_matches :: "addr \<Rightarrow> u32 \<Rightarrow> ob_registration list \<Rightarrow> ob_registration list" where
  "post_matches ty op rs = filter (\<lambda>r. post r \<noteq> 0 \<and> operations r AND op \<noteq> 0 \<and> object_type r = ty) rs"

definition pre_parameters :: "u32 \<Rightarrow> u32 \<Rightarrow> addr \<Rightarrow> addr \<Rightarrow> u8 list" where
  "pre_parameters desired original source target =
     le_enc 4 desired @ le_enc 4 original @ le_enc 8 source @ le_enc 8 target"

definition pre_information :: "u32 \<Rightarrow> addr \<Rightarrow> addr \<Rightarrow> addr \<Rightarrow> u8 list" where
  "pre_information op object ty params =
     le_enc 4 (push_bit 1 op) @ replicate 4 0 @ le_enc 8 object @ le_enc 8 ty @ replicate 8 0 @ le_enc 8 params"

definition post_parameters :: "u32 \<Rightarrow> u8 list" where
  "post_parameters acc = le_enc 4 acc @ replicate 4 0"

definition post_information :: "u32 \<Rightarrow> addr \<Rightarrow> addr \<Rightarrow> NTSTATUS \<Rightarrow> addr \<Rightarrow> u8 list" where
  "post_information op object ty status params =
     le_enc 4 op @ replicate 4 0 @ le_enc 8 object @ le_enc 8 ty @ replicate 8 0 @ le_enc 4 status @
     replicate 4 0 @ le_enc 8 params"

fun pre_loop :: "guest_call \<Rightarrow> (u32 \<Rightarrow> u8 list) \<Rightarrow> u8 list \<Rightarrow> addr \<Rightarrow> addr \<Rightarrow> ob_registration list \<Rightarrow> u32 \<Rightarrow> gmem \<Rightarrow>
  emu_error + u32 \<times> gmem" where
  "pre_loop call parameters hdr params info [] acc g = Inr (acc, g)"
| "pre_loop call parameters hdr params info (r # rs) acc g =
     bind_result (g_write params (parameters acc) g) (\<lambda>g.
     bind_result (g_write info hdr g) (\<lambda>g.
     let g = snd (call (pre r) [reg_context r, info] g) in
     bind_result (g_read 0x18 params g) (\<lambda>updated.
     let desired = field_get 0 4 updated :: u32 in
     if desired = 0 then Inr (0, g)
     else pre_loop call parameters hdr params info rs desired g)))"

text \<open>\<open>prot_rw\<close>, the default of \<open>emu_object::allocate\<close>.\<close>

definition default_prot :: u64 where "default_prot = 0x3"

definition ob_pre_handle :: "allocator \<Rightarrow> guest_call \<Rightarrow> addr \<Rightarrow> addr \<Rightarrow> u32 \<Rightarrow> u32 \<Rightarrow> addr \<Rightarrow> addr \<Rightarrow>
  ob_registration list \<Rightarrow> gmem \<Rightarrow> emu_error + u32 \<times> gmem" where
  "ob_pre_handle alloc call object ty op desired source target rs g =
     (let matches = pre_matches ty op rs in
      if matches = [] then Inr (desired, g)
      else
        bind_result (alloc 0x18 default_prot g) (\<lambda>(params, g).
        bind_result (alloc 0x28 default_prot g) (\<lambda>(info, g).
        if params = 0 \<or> info = 0 then Inr (desired, g)
        else pre_loop call (\<lambda>acc. pre_parameters acc desired source target) (pre_information op object ty params)
               params info matches desired g)))"

fun post_loop :: "guest_call \<Rightarrow> addr \<Rightarrow> ob_registration list \<Rightarrow> gmem \<Rightarrow> gmem" where
  "post_loop call info [] g = g"
| "post_loop call info (r # rs) g = post_loop call info rs (snd (call (post r) [reg_context r, info] g))"

definition ob_post_handle :: "allocator \<Rightarrow> guest_call \<Rightarrow> addr \<Rightarrow> addr \<Rightarrow> u32 \<Rightarrow> NTSTATUS \<Rightarrow> u32 \<Rightarrow>
  ob_registration list \<Rightarrow> gmem \<Rightarrow> emu_error + gmem" where
  "ob_post_handle alloc call object ty op status acc rs g =
     (let matches = post_matches ty op rs in
      if matches = [] then Inr g
      else
        bind_result (alloc 8 default_prot g) (\<lambda>(params, g).
        bind_result (alloc 0x30 default_prot g) (\<lambda>(info, g).
        if params = 0 \<or> info = 0 then Inr g
        else
          bind_result (g_write params (post_parameters acc) g) (\<lambda>g.
          bind_result (g_write info (post_information op object ty status params) g) (\<lambda>g.
            Inr (post_loop call info matches g))))))"

fun as_thread :: "win_object \<Rightarrow> nat option" where
  "as_thread (Thread_object t) = Some t"
| "as_thread _ = None"

definition object_type_pointer :: "addr option \<Rightarrow> gmem \<Rightarrow> emu_error + addr" where
  "object_type_pointer global g = (case global of None \<Rightarrow> Inr 0 | Some a \<Rightarrow> g_get 8 a g)"

definition ObOpenObjectByPointer :: "allocator \<Rightarrow> guest_call \<Rightarrow> addr option \<Rightarrow> addr \<Rightarrow> u32 \<Rightarrow> addr \<Rightarrow> ob_state \<Rightarrow>
  emu_error + NTSTATUS \<times> ob_state" where
  "ObOpenObjectByPointer alloc call thread_type object desired handle s =
     (if handle = 0 then Inr (STATUS_INVALID_PARAMETER, s)
      else
        bind_result (if get_object as_thread object (objs (obn s)) \<noteq> None
                     then object_type_pointer thread_type (gm (obn s)) else Inr 0) (\<lambda>ty.
        bind_result (if ty \<noteq> 0
                     then ob_pre_handle alloc call object ty ob_operation_handle_create desired 0 0
                            (ob_registrations s) (gm (obn s))
                     else Inr (desired, gm (obn s))) (\<lambda>(acc, g).
        let s = s\<lparr>obn := (obn s)\<lparr>gm := g\<rparr>\<rparr> in
        if ty \<noteq> 0 \<and> acc = 0 then Inr (STATUS_ACCESS_DENIED, s)
        else
          bind_result (reference_object object (objs (obn s)) (gm (obn s))) (\<lambda>g.
          bind_result (create_handle object acc (objs (obn s)) (table (obn s), g)) (\<lambda>(h, t, g).
          bind_result (if ty \<noteq> 0
                       then ob_post_handle alloc call object ty ob_operation_handle_create STATUS_SUCCESS acc
                              (ob_registrations s) g
                       else Inr g) (\<lambda>g.
          bind_result (g_put 8 handle h g) (\<lambda>g.
            Inr (STATUS_SUCCESS, s\<lparr>obn := (obn s)\<lparr>table := t, gm := g\<rparr>\<rparr>))))))))"

section \<open>What the callbacks decide\<close>

text \<open>Each callback sees the access the one before left; nothing left is the end.\<close>

fun strip :: "(ob_registration \<Rightarrow> u32 \<Rightarrow> u32) \<Rightarrow> ob_registration list \<Rightarrow> u32 \<Rightarrow> u32" where
  "strip f [] acc = acc"
| "strip f (r # rs) acc = (let left = f r acc in if left = 0 then 0 else strip f rs left)"

text \<open>
  A callback that behaves: through the pointer in the information it was given it finds the
  access, and that is all it changes.
\<close>

definition behaves :: "guest_call \<Rightarrow> (ob_registration \<Rightarrow> u32 \<Rightarrow> u32) \<Rightarrow> ob_registration \<Rightarrow> bool" where
  "behaves call f r \<longleftrightarrow>
     (\<forall>g info params acc. g_get 8 (info + 0x20) g = Inr params \<longrightarrow> g_get 4 params g = Inr acc \<longrightarrow>
        (let g' = snd (call (pre r) [reg_context r, info] g) in
         g_get 4 params g' = Inr (f r acc) \<and> (\<forall>x. x \<notin> span params 4 \<longrightarrow> g' x = g x)))"

lemma length_pre [simp]:
  "length (pre_parameters a b c d) = 0x18" "length (pre_information op object ty params) = 0x28"
  by (simp_all add: pre_parameters_def pre_information_def)

lemma get_first_field:
  assumes "g_write a (le_enc 4 (v :: u32) @ bs) g = Inr g'" and "4 + length bs < 2 ^ 64"
  shows "g_get 4 a g' = Inr v"
proof -
  have "g_read (4 + length bs) a g' = Inr (le_enc 4 v @ bs)" using g_read_write_same [OF assms(1)] assms(2) by simp
  from g_get_field [OF this, of 0 4, where 'a = 32] show ?thesis
    by (simp add: field_get_def le_dec_enc take_bit_word_eq_self)
qed

lemma get_last_field:
  assumes "g_write a (bs @ le_enc 8 (v :: u64)) g = Inr g'" and "length bs = n" and "n + 8 < 2 ^ 64"
  shows "g_get 8 (a + of_nat n) g' = Inr v"
proof -
  have "g_read (n + 8) a g' = Inr (bs @ le_enc 8 v)" using g_read_write_same [OF assms(1)] assms(2,3) by simp
  from g_get_field [OF this, of n 8, where 'a = 64] assms(2) show ?thesis
    by (simp add: field_get_def le_dec_enc take_bit_word_eq_self)
qed

text \<open>One turn: the callback finds the access where it looks for it, and the loop reads what it left.\<close>

lemma pre_turn:
  assumes "behaves call f r" and "g_mapped g params 0x18" and "g_mapped g info 0x28"
    and "span params 0x18 \<inter> span info 0x28 = {}"
  shows "\<exists>g1 g2 g3 bs. g_write params (pre_parameters acc desired source target) g = Inr g1 \<and>
    g_write info (pre_information op object ty params) g1 = Inr g2 \<and>
    snd (call (pre r) [reg_context r, info] g2) = g3 \<and>
    g_read 0x18 params g3 = Inr bs \<and> field_get 0 4 bs = f r acc \<and>
    (\<forall>x. x \<notin> span params 0x18 \<union> span info 0x28 \<longrightarrow> g3 x = g x) \<and> g_mapped g3 params 0x18 \<and> g_mapped g3 info 0x28"
proof -
  let ?p = "pre_parameters acc desired source target" and ?i = "pre_information op object ty params"
  obtain g1 where g1: "g_write params ?p g = Inr g1" using g_write_total [of g params ?p] assms(2) by auto
  obtain g2 where g2: "g_write info ?i g1 = Inr g2"
    using g_write_total [of g1 info ?i] assms(3) g_write_mapped [OF g1] by auto
  define g3 where "g3 = snd (call (pre r) [reg_context r, info] g2)"
  have "g_get 4 params g1 = Inr acc"
    by (rule get_first_field [OF g1 [unfolded pre_parameters_def]]) simp
  then have a: "g_get 4 params g2 = Inr acc"
    using g_get_write_other [OF g2, of params 4, where 'a = 32] assms(4) span_mono [of 4 "0x18" params] by auto
  have i: "g_get 8 (info + 0x20) g2 = Inr params"
    using get_last_field [of info "le_enc 4 (push_bit 1 op) @ replicate 4 0 @ le_enc 8 object @ le_enc 8 ty @ replicate 8 0"
        params g1 g2 "0x20"] g2 by (simp add: pre_information_def)
  have g3: "g_get 4 params g3 = Inr (f r acc)" "\<forall>x. x \<notin> span params 4 \<longrightarrow> g3 x = g2 x"
    using assms(1) a i unfolding behaves_def Let_def g3_def by blast+
  have in4: "span params 4 \<subseteq> span params 0x18" by (rule span_mono) simp
  have outside: "g3 x = g2 x" if "x \<notin> span params 4" for x using g3(2) that by blast
  have "g_mapped g2 params 0x18" "g_mapped g2 info 0x28"
    using assms(2,3) g_write_mapped [OF g1] g_write_mapped [OF g2] by auto
  then have m: "g_mapped g3 params 0x18" "g_mapped g3 info 0x28"
    using outside g_get_mapped [OF g3(1)] in4 assms(4) unfolding g_mapped_def
    by (metis, metis disjoint_iff in_mono)
  obtain bs where bs: "g_read 0x18 params g3 = Inr bs" using g_read_total [OF m(1)] by blast
  have "field_get 0 4 bs = f r acc" using g_get_field [OF bs, of 0 4, where 'a = 32] g3(1) by simp
  moreover have "g3 x = g x" if "x \<notin> span params 0x18 \<union> span info 0x28" for x
    using outside [of x] g_write_other [OF g2, of x] g_write_other [OF g1, of x] in4 that by auto
  ultimately show ?thesis using g1 g2 g3_def bs m by blast
qed

lemma pre_loop_strips:
  assumes "\<forall>r \<in> set rs. behaves call f r" and "g_mapped g params 0x18" and "g_mapped g info 0x28"
    and "span params 0x18 \<inter> span info 0x28 = {}"
  shows "\<exists>g'. pre_loop call (\<lambda>acc. pre_parameters acc desired source target) (pre_information op object ty params)
      params info rs acc g = Inr (strip f rs acc, g') \<and>
    (\<forall>x. x \<notin> span params 0x18 \<union> span info 0x28 \<longrightarrow> g' x = g x)"
  using assms
proof (induction rs arbitrary: acc g)
  case (Cons r rs)
  from pre_turn [of call f r g params info acc desired source target op object ty] Cons.prems
  obtain g1 g2 g3 bs where t: "g_write params (pre_parameters acc desired source target) g = Inr g1"
    "g_write info (pre_information op object ty params) g1 = Inr g2"
    "snd (call (pre r) [reg_context r, info] g2) = g3" "g_read 0x18 params g3 = Inr bs" "field_get 0 4 bs = f r acc"
    "\<forall>x. x \<notin> span params 0x18 \<union> span info 0x28 \<longrightarrow> g3 x = g x" "g_mapped g3 params 0x18" "g_mapped g3 info 0x28"
    by auto
  show ?case
  proof (cases "f r acc = 0")
    case True
    then show ?thesis using t by simp
  next
    case False
    from Cons.IH [of g3 "f r acc"] Cons.prems t(7,8) obtain g' where
      "pre_loop call (\<lambda>acc. pre_parameters acc desired source target) (pre_information op object ty params)
         params info rs (f r acc) g3 = Inr (strip f rs (f r acc), g')"
      "\<forall>x. x \<notin> span params 0x18 \<union> span info 0x28 \<longrightarrow> g' x = g3 x" by auto
    then show ?thesis using t False by auto
  qed
qed simp

lemma update_header_mapped: "update_header body member f m g = Inr g' \<Longrightarrow> g_mapped g' a n = g_mapped g a n"
  by (auto simp: update_header_def g_write_mapped split: option.splits if_splits sum.splits)

lemma update_header_works:
  assumes "umap_find body (objects m) = Some e" and "header e = 0 \<or> g_mapped g (header e) hdr_size"
    and "member + 8 \<le> hdr_size"
  shows "\<exists>g'. update_header body member f m g = Inr g'"
  using assms update_header_total [OF assms(1)] by (cases "header e = 0") (auto simp: update_header_def)

text \<open>An open that the callbacks leave something of: a reference and a handle with that access.\<close>

lemma open_granted:
  assumes "umap_find object (objects (objs n)) = Some e" and "header e = 0 \<or> g_mapped g (header e) hdr_size"
    and "g_mapped g handle 8" and "h = next_handle (table n)"
  shows "\<exists>g1 g2 t g3. reference_object object (objs n) g = Inr g1 \<and>
    create_handle object acc (objs n) (table n, g1) = Inr (h, t, g2) \<and>
    lookup_handle h t = Some \<lparr>body_addr = object, access = acc\<rparr> \<and>
    g_put 8 handle h g2 = Inr g3 \<and> g_get 8 handle g3 = Inr h"
proof -
  obtain g1 where g1: "update_header object PointerCount (\<lambda>c. c + 1) (objs n) g = Inr g1"
    using update_header_works [OF assms(1,2), of PointerCount] by (auto simp: hdr_defs)
  obtain g2 where g2: "update_header object HandleCount (\<lambda>c. c + 1) (objs n) g1 = Inr g2"
    using update_header_works [OF assms(1), of g1 HandleCount "\<lambda>c. c + 1"] assms(2) update_header_mapped [OF g1]
    by (auto simp: hdr_defs)
  obtain g3 where g3: "g_put 8 handle h g2 = Inr g3"
    using g_put_total [of g2 handle 8 h] assms(3) update_header_mapped [OF g1] update_header_mapped [OF g2] by auto
  have "g_get 8 handle g3 = Inr h" using g_get_put_same [OF g3] by (simp add: take_bit_word_eq_self)
  then show ?thesis using g1 g2 g3 assms(1,4)
    by (auto simp: reference_object_def create_handle_def has_object_def insert_handle_def alloc_handle_def
        increment_handle_count_def lookup_handle_def Let_def)
qed

section \<open>Properties\<close>


text \<open>A callback that takes the bits its context does not name off an open, in guest code.\<close>

definition demo_call :: guest_call where
  "demo_call routine args g =
     (0, case g_get 8 (args ! 1 + 0x20) g of
           Inl _ \<Rightarrow> g
         | Inr p \<Rightarrow>
             (case g_get 4 p g of
                Inl _ \<Rightarrow> g
              | Inr acc \<Rightarrow> (case g_put 4 p (acc AND ucast (args ! 0) :: u32) g of Inl _ \<Rightarrow> g | Inr g' \<Rightarrow> g')))"

lemma demo_call_behaves: "behaves demo_call (\<lambda>r acc. acc AND ucast (reg_context r)) r"
proof -
  have put: "\<exists>g'. g_put 4 p (v :: u32) g = Inr g' \<and> g_get 4 p g' = Inr v \<and> (\<forall>x. x \<notin> span p 4 \<longrightarrow> g' x = g x)"
    if old: "g_get 4 p g = Inr (acc :: u32)" for p g acc v
  proof -
    obtain g' where g': "g_put 4 p v g = Inr g'" using g_put_total g_get_mapped [OF old] by blast
    then show ?thesis using g_get_put_same [OF g'] g_put_other [OF g'] by (auto simp: take_bit_word_eq_self)
  qed
  then show ?thesis unfolding behaves_def Let_def
  proof (intro allI impI)
    fix g info params and acc :: u32
    assume "g_get 8 (info + 0x20) g = Inr params" "g_get 4 params g = Inr acc"
    with put [of params g acc "acc AND ucast (reg_context r)"]
    show "g_get 4 params (snd (demo_call (pre r) [reg_context r, info] g)) = Inr (acc AND ucast (reg_context r)) \<and>
        (\<forall>x. x \<notin> span params 4 \<longrightarrow> snd (demo_call (pre r) [reg_context r, info] g) x = g x)"
      by (auto simp: demo_call_def)
  qed
qed

definition demo_block :: allocator where
  "demo_block sz prot g =
     (let base = (if sz = 0x18 then 0x5000 else 0x6000) in
      Inr (base, \<lambda>x. if unat (x - base) < unat sz then Some 0 else g x))"

definition ob_demo_mem :: gmem where
  "ob_demo_mem x = (if unat (x - 0x1000) < 0x100 then Some (if x = 0x1000 then 7 else 0) else None)"

definition ob_demo :: ob_state where
  "ob_demo = \<lparr>obn = demo_state\<lparr>gm := ob_demo_mem, procthreads := [],
      table := new_handle_table, objs := new_obj_manager\<lparr>objects := [(0x9000, \<lparr>header = 0, host = Some (Thread_object 1)\<rparr>)]\<rparr>\<rparr>,
    ob_registrations = [\<lparr>registration = 1, object_type = 7, operations = 1, pre = 0x4000, post = 0, reg_context = 0xF0\<rparr>,
      \<lparr>registration = 2, object_type = 7, operations = 3, pre = 0x4000, post = 0, reg_context = 0x3C\<rparr>]\<rparr>"

lemma demo_block_fresh:
  "demo_block sz prot g = Inr (a, g') \<Longrightarrow> \<forall>x \<in> span a (unat sz). g x = None \<Longrightarrow> fresh_block g a (unat sz) g'"
  using unat_lt64 [of sz] by (auto simp: demo_block_def fresh_block_def g_mapped_def span_iff Let_def)

lemma demo_apart: "span 0x1000 0x100 \<inter> span 0x5000 0x18 = {}" "span 0x1000 0x100 \<inter> span 0x6000 0x28 = {}"
  "span 0x5000 0x18 \<inter> span 0x6000 0x28 = {}"
  using span_fields_apart [of 0 "0x100" "0x4000" "0x18" "0x1000"] span_fields_apart [of 0 "0x100" "0x5000" "0x28" "0x1000"]
    span_fields_apart [of 0 "0x18" "0x1000" "0x28" "0x5000"] by simp_all

lemma ob_demo_mem_none: "x \<notin> span 0x1000 0x100 \<Longrightarrow> ob_demo_mem x = None"
  by (simp add: ob_demo_mem_def span_iff)


section \<open>Where the callbacks have no say\<close>

text \<open>
  A callback that returns an error and leaves the access alone: the comment on \<open>ob_pre_handle\<close>
  says that this denies the open, and the open goes through.
\<close>

lemma error_status_ignored:
  assumes "call = (\<lambda>routine args g. (ucast STATUS_ACCESS_DENIED, g))" and "g_mapped g params 0x18"
    and "g_mapped g info 0x28" and "span params 0x18 \<inter> span info 0x28 = {}" and "acc \<noteq> 0"
  shows "\<exists>g'. pre_loop call (\<lambda>acc. pre_parameters acc desired source target) (pre_information op object ty params)
    params info rs acc g = Inr (acc, g')"
proof -
  have "behaves call (\<lambda>r acc. acc) r" for r using assms(1) by (simp add: behaves_def Let_def)
  moreover have "strip (\<lambda>r acc. acc) rs acc = acc" using assms(5) by (induction rs) auto
  moreover obtain g' where "pre_loop call (\<lambda>acc. pre_parameters acc desired source target)
      (pre_information op object ty params) params info rs acc g = Inr (strip (\<lambda>r acc. acc) rs acc, g')"
    using pre_loop_strips [of rs call "\<lambda>r acc. acc" g params info desired source target op object ty acc]
      calculation(1) assms(2-4) by blast
  ultimately show ?thesis by simp
qed

text \<open>An address that is no object opens with success and a null handle.\<close>

lemma open_unknown_object:
  assumes "umap_find object (objects (objs (obn s))) = None" and "handle \<noteq> 0" and "g_mapped (gm (obn s)) handle 8"
  shows "\<exists>s'. ObOpenObjectByPointer alloc call gl object desired handle s = Inr (STATUS_SUCCESS, s') \<and>
    g_get 8 handle (gm (obn s')) = Inr (0 :: u64)"
proof -
  obtain g where g: "g_put 8 handle (0 :: u64) (gm (obn s)) = Inr g" using g_put_total [OF assms(3)] by blast
  then have "g_get 8 handle g = Inr (0 :: u64)" using g_get_put_same [OF g] by simp
  then show ?thesis using g assms
    by (auto simp: ObOpenObjectByPointer_def get_object_def reference_object_def update_header_def create_handle_def
        has_object_def Let_def)
qed

end
