(* ===== verification/Nt_Object.thy ===== *)
theory Nt_Object
  imports Filesystem Obj_Handles Ob_Callbacks Pool
begin

text \<open>
  The rest of \<open>kernel/win/modules/nt_object_ops.cpp\<close>: references, closing, and the object
  namespace with its directories and symbolic links. What a driver does with the requests that
  closing a device sends it is the argument \<open>dispatch\<close>, none where there is no emulator; where a
  symbol lies comes from a symbol file and is an argument too.
\<close>

section \<open>References\<close>

definition ObReferenceObjectByHandle :: "u64 \<Rightarrow> addr \<Rightarrow> service" where
  "ObReferenceObjectByHandle handle object_out s =
     (case lookup_handle handle (table s) of
        None \<Rightarrow> Inr (STATUS_INVALID_HANDLE, s)
      | Some e \<Rightarrow>
          bind_result (with_mem (reference_object (body_addr e) (nt_state.objs s)) s) (\<lambda>s.
          bind_result (write_opt 8 object_out (body_addr e) s) (\<lambda>s. Inr (STATUS_SUCCESS, s))))"

definition ObfReferenceObject :: "addr \<Rightarrow> nt_state \<Rightarrow> emu_error + nt_state" where
  "ObfReferenceObject object s = with_mem (reference_object object (nt_state.objs s)) s"

definition ObReferenceObjectByPointer :: "addr \<Rightarrow> service" where
  "ObReferenceObjectByPointer object s =
     (if object = 0 then Inr (STATUS_INVALID_PARAMETER, s)
      else
        bind_result (if has_object object (nt_state.objs s)
                     then with_mem (reference_object object (nt_state.objs s)) s else Inr s) (\<lambda>s.
          Inr (STATUS_SUCCESS, s)))"

definition ObfDereferenceObject :: "addr \<Rightarrow> nt_state \<Rightarrow> emu_error + nt_state" where
  "ObfDereferenceObject object s = with_mem (dereference_object object (nt_state.objs s)) s"

section \<open>Closing\<close>

definition irp_mj_close :: u8 where "irp_mj_close = 0x02"
definition irp_mj_cleanup :: u8 where "irp_mj_cleanup = 0x12"

fun as_file :: "win_object \<Rightarrow> win_object option" where
  "as_file (File_host f p pos con dev obj) = Some (File_host f p pos con dev obj)"
| "as_file _ = None"

type_synonym irp_dispatch = "u8 \<Rightarrow> addr \<Rightarrow> addr \<Rightarrow> nt_state \<times> pool \<Rightarrow> emu_error + nt_state \<times> pool"

definition NtClose :: "irp_dispatch option \<Rightarrow> u64 \<Rightarrow> nt_state \<times> pool \<Rightarrow> emu_error + NTSTATUS \<times> nt_state \<times> pool" where
  "NtClose dispatch handle = (\<lambda>(s, p).
     bind_result
       (case get_handle_object as_file handle (nt_state.objs s) (table s) of
          Some f \<Rightarrow>
            if file_is_device f then
              bind_result
                (case dispatch of
                   None \<Rightarrow> Inr (s, p)
                 | Some send \<Rightarrow>
                     bind_result (send irp_mj_cleanup (to_device_object f) (to_file_object f) (s, p))
                       (send irp_mj_close (to_device_object f) (to_file_object f)))
                (\<lambda>(s, p). Inr (s, fst (pool_free (to_file_object f) p)))
            else Inr (s, p)
        | None \<Rightarrow> Inr (s, p))
       (\<lambda>(s, p).
          bind_result (close_handle handle (nt_state.objs s) (table s, gm s)) (\<lambda>(closed, t, g).
            Inr (if closed then STATUS_SUCCESS else STATUS_INVALID_HANDLE, s\<lparr>table := t, gm := g\<rparr>, p))))"

section \<open>Kinds of object\<close>

fun as_section :: "win_object \<Rightarrow> win_object option" where
  "as_section (Section_host f p sz im img) = Some (Section_host f p sz im img)"
| "as_section _ = None"

fun as_directory :: "win_object \<Rightarrow> string option" where
  "as_directory (Directory_host name) = Some name"
| "as_directory _ = None"

fun as_driver :: "win_object \<Rightarrow> win_object option" where
  "as_driver (Driver_object_host d n) = Some (Driver_object_host d n)"
| "as_driver _ = None"

fun as_symbolic_link :: "win_object \<Rightarrow> string option" where
  "as_symbolic_link (Symbolic_link_host target) = Some target"
| "as_symbolic_link _ = None"

fun as_device :: "win_object \<Rightarrow> win_object option" where
  "as_device (Device_host d n) = Some (Device_host d n)"
| "as_device _ = None"

definition ObGetObjectType :: "(string \<Rightarrow> addr option) \<Rightarrow> addr \<Rightarrow> nt_state \<Rightarrow> emu_error + addr" where
  "ObGetObjectType find_symbol object s =
     (let m = nt_state.objs s;
          symbol = (if get_object as_file object m \<noteq> None then ''IoFileObjectType''
                    else if get_object as_section object m \<noteq> None then ''MmSectionObjectType''
                    else if get_object as_thread object m \<noteq> None then ''PsThreadType'' else []) in
      if symbol = [] then Inr 0
      else case find_symbol symbol of None \<Rightarrow> Inr 0 | Some a \<Rightarrow> g_get 8 a (gm s))"

definition ObReferenceProcessHandleTable :: "addr \<Rightarrow> addr \<Rightarrow> nt_state \<Rightarrow> emu_error + addr" where
  "ObReferenceProcessHandleTable object_table process s =
     (if process \<noteq> 0 then g_get 8 (process + object_table) (gm s) else Inr 0)"

definition ExEnumHandleTable :: "addr \<Rightarrow> nt_state \<Rightarrow> emu_error + bool \<times> nt_state" where
  "ExEnumHandleTable handle s = bind_result (write_opt 8 handle (0 :: u64) s) (\<lambda>s. Inr (False, s))"

section \<open>The namespace\<close>

definition namespace_object_body_size :: nat where "namespace_object_body_size = 0x10"

definition open_namespace_object :: "allocator \<Rightarrow> win_object \<Rightarrow> string \<Rightarrow> u32 \<Rightarrow> nt_state \<Rightarrow> emu_error + u64 \<times> nt_state" where
  "open_namespace_object alloc hst name acc s =
     (let key = object_namespace_key name; existing = lookup_named_object key (nt_state.objs s) in
      if existing \<noteq> 0 then
        bind_result (create_handle existing acc (nt_state.objs s) (table s, gm s)) (\<lambda>(h, t, g).
          Inr (h, s\<lparr>table := t, gm := g\<rparr>))
      else
        bind_result (create_object alloc 0 (Some (replicate namespace_object_body_size 0))
            (of_nat namespace_object_body_size) (Some hst) kernel_rw (nt_state.objs s, gm s)) (\<lambda>(a, om, g).
        let s = s\<lparr>nt_state.objs := om, gm := g\<rparr> in
        if a = 0 then Inr (0, s)
        else
          let om = register_named_object key a om in
          bind_result (create_handle a acc om (table s, gm s)) (\<lambda>(h, t, g).
            Inr (h, s\<lparr>nt_state.objs := om, table := t, gm := g\<rparr>))))"

definition ObOpenObjectByName :: "addr \<Rightarrow> u32 \<Rightarrow> addr \<Rightarrow> service" where
  "ObOpenObjectByName attributes acc handle s =
     (if attributes = 0 \<or> handle = 0 then Inr (STATUS_INVALID_PARAMETER, s)
      else
        bind_result (attribute_name attributes (gm s)) (\<lambda>name.
        let a = lookup_named_object (object_namespace_key name) (nt_state.objs s) in
        if a = 0 then Inr (STATUS_OBJECT_NAME_NOT_FOUND, s)
        else
          bind_result (with_mem (reference_object a (nt_state.objs s)) s) (\<lambda>s.
          bind_result (create_handle a acc (nt_state.objs s) (table s, gm s)) (\<lambda>(h, t, g).
          bind_result (with_mem (g_put 8 handle h) (s\<lparr>table := t, gm := g\<rparr>)) (\<lambda>s.
            Inr (STATUS_SUCCESS, s))))))"

definition open_and_report :: "allocator \<Rightarrow> win_object \<Rightarrow> string \<Rightarrow> u32 \<Rightarrow> addr \<Rightarrow> service" where
  "open_and_report alloc hst name acc handle_out s =
     bind_result (open_namespace_object alloc hst name acc s) (\<lambda>(h, s).
     if h = 0 then Inr (STATUS_INSUFFICIENT_RESOURCES, s)
     else bind_result (with_mem (g_put 8 handle_out h) s) (\<lambda>s. Inr (STATUS_SUCCESS, s)))"

definition OpenDirectoryObject :: "allocator \<Rightarrow> addr \<Rightarrow> u32 \<Rightarrow> addr \<Rightarrow> service" where
  "OpenDirectoryObject alloc directory_handle acc attributes s =
     (if directory_handle = 0 then Inr (STATUS_INVALID_PARAMETER, s)
      else
        bind_result (attribute_name attributes (gm s)) (\<lambda>name.
          open_and_report alloc (Directory_host name) name acc directory_handle s))"

definition system32_dir_narrow :: string where
  "system32_dir_narrow = windows_dir_narrow @ [CHR 0x5C] @ ''System32'' @ [CHR 0x5C]"

definition OpenSymbolicLinkObject :: "allocator \<Rightarrow> addr \<Rightarrow> u32 \<Rightarrow> addr \<Rightarrow> service" where
  "OpenSymbolicLinkObject alloc link_handle acc attributes s =
     (if link_handle = 0 then Inr (STATUS_INVALID_PARAMETER, s)
      else
        bind_result (attribute_name attributes (gm s)) (\<lambda>name.
        let target = system32_dir_narrow;
            target = (if 1 < length target \<and> last target = CHR 0x5C then butlast target else target) in
          open_and_report alloc (Symbolic_link_host target) name acc link_handle s))"

definition QuerySymbolicLinkObject :: "u64 \<Rightarrow> addr \<Rightarrow> addr \<Rightarrow> service" where
  "QuerySymbolicLinkObject link_handle link_target returned_length s =
     (case get_handle_object as_symbolic_link link_handle (nt_state.objs s) (table s) of
        None \<Rightarrow> Inr (STATUS_OBJECT_TYPE_MISMATCH, s)
      | Some t \<Rightarrow>
          let target = widen_string t; needed = of_nat (length target * 2) :: u16 in
          bind_result (write_opt 4 returned_length (ucast needed :: u32) s) (\<lambda>s.
          if link_target = 0 then Inr (STATUS_INVALID_PARAMETER, s)
          else
            bind_result (g_read 16 link_target (gm s)) (\<lambda>bs.
            let maximum = field_get 2 2 bs :: u16; buffer = field_get 8 8 bs :: addr in
            if maximum < needed \<or> buffer = 0 then Inr (STATUS_BUFFER_TOO_SMALL, s)
            else
              bind_result (with_mem (g_write buffer (take (unat needed) (chars_bytes 2 target))) s) (\<lambda>s.
              bind_result (with_mem (g_write link_target (field_put 0 2 needed bs)) s) (\<lambda>s.
                Inr (STATUS_SUCCESS, s))))))"

section \<open>Listing a directory\<close>

definition type_of :: "string \<Rightarrow> obj_manager \<Rightarrow> string" where
  "type_of name m =
     (let a = lookup_named_object name m in
      if a = 0 then ''Unknown''
      else if get_object as_directory a m \<noteq> None then ''Directory''
      else if get_object as_driver a m \<noteq> None then ''Driver''
      else if get_object as_section a m \<noteq> None then ''Section''
      else if get_object as_symbolic_link a m \<noteq> None then ''SymbolicLink''
      else if get_object as_file a m \<noteq> None then ''File''
      else if get_object as_device a m \<noteq> None then ''Device''
      else ''Unknown'')"

text \<open>The size of \<open>object_directory_information_t\<close>, two counted strings.\<close>

definition info_size :: nat where "info_size = 0x20"

definition entry_size :: "u16 list \<times> u16 list \<Rightarrow> nat" where
  "entry_size e = info_size + length (fst e) * 2 + 2 + length (snd e) * 2 + 2"

text \<open>The entries that fit: \<open>sz\<close> is the space taken already.\<close>

fun pick_entries :: "nat \<Rightarrow> bool \<Rightarrow> (u16 list \<times> u16 list) list \<Rightarrow> nat \<Rightarrow> (u16 list \<times> u16 list) list \<times> nat" where
  "pick_entries len single [] sz = ([], sz)"
| "pick_entries len single (e # es) sz =
     (if len < sz + entry_size e then ([], sz)
      else if single then ([e], sz + entry_size e)
      else let (cs, t) = pick_entries len single es (sz + entry_size e) in (e # cs, t))"

definition counted :: "u16 \<Rightarrow> addr \<Rightarrow> u8 list" where
  "counted len buffer = le_enc 2 len @ le_enc 2 (len + 2) @ replicate 4 0 @ le_enc 8 buffer"

text \<open>The structures and the strings they point to, the first string at \<open>string_at\<close>.\<close>

fun layout :: "addr \<Rightarrow> nat \<Rightarrow> (u16 list \<times> u16 list) list \<Rightarrow> u8 list \<times> u8 list" where
  "layout buffer string_at [] = ([], [])"
| "layout buffer string_at ((name, type) # es) =
     (let name_bytes = of_nat (length name * 2) :: u16; type_bytes = of_nat (length type * 2) :: u16;
          type_at = string_at + unat name_bytes + 2;
          (infos, strings) = layout buffer (type_at + unat type_bytes + 2) es in
      (counted name_bytes (buffer + of_nat string_at) @ counted type_bytes (buffer + of_nat type_at) @ infos,
       take (unat name_bytes) (chars_bytes 2 name) @ [0, 0] @
       take (unat type_bytes) (chars_bytes 2 type) @ [0, 0] @ strings))"

definition directory_entries :: "string \<Rightarrow> obj_manager \<Rightarrow> (u16 list \<times> u16 list) list" where
  "directory_entries p m = map (\<lambda>c. (widen_string c, widen_string (type_of (p @ c) m))) (child_names p m)"

definition QueryDirectoryObject :: "u64 \<Rightarrow> addr \<Rightarrow> u32 \<Rightarrow> bool \<Rightarrow> bool \<Rightarrow> addr \<Rightarrow> addr \<Rightarrow> service" where
  "QueryDirectoryObject handle buffer len single restart ctx return_length s =
     (case get_handle_object as_directory handle (nt_state.objs s) (table s) of
        None \<Rightarrow> Inr (STATUS_INVALID_HANDLE, s)
      | Some name \<Rightarrow>
          let entries = directory_entries (object_namespace_key name @ ''/'') (nt_state.objs s) in
          bind_result (if \<not> restart \<and> ctx \<noteq> 0 then g_get 4 ctx (gm s) else Inr (0 :: u32)) (\<lambda>i.
          let index = (if length entries < unat i then of_nat (length entries) else i);
              (chosen, sz) = pick_entries (unat len) single (drop (unat index) entries) info_size;
              next = index + of_nat (length chosen) in
          if unat len < sz then Inr (STATUS_BUFFER_TOO_SMALL, s)
          else
            let (infos, strings) = layout buffer (info_size * (length chosen + 1)) chosen;
                out = vec_resize sz (infos @ replicate info_size 0 @ strings) in
            bind_result (write_opt 4 return_length (of_nat (length out) :: u32) s) (\<lambda>s.
            bind_result (write_opt 4 ctx next s) (\<lambda>s.
            bind_result (with_mem (g_write buffer out) s) (\<lambda>s.
              Inr (if chosen = [] \<and> length entries \<le> unat index then STATUS_NO_MORE_ENTRIES
                   else if unat next < length entries then STATUS_MORE_ENTRIES else STATUS_SUCCESS, s))))))"

section \<open>What a caller reads\<close>

text \<open>
  A caller walks the array by the size of a structure up to the zeroed one and follows the two
  pointers of each; \<open>n\<close> bounds the walk.
\<close>

fun read_directory :: "nat \<Rightarrow> addr \<Rightarrow> gmem \<Rightarrow> emu_error + (u16 list \<times> u16 list) list" where
  "read_directory 0 a g = throw Does_not_return"
| "read_directory (Suc n) a g =
     bind_result (g_read info_size a g) (\<lambda>bs.
     if bs = replicate info_size 0 then Inr []
     else
       bind_result (unicode_at a g) (\<lambda>name.
       bind_result (unicode_at (a + 0x10) g) (\<lambda>type.
       bind_result (read_directory n (a + of_nat info_size) g) (\<lambda>es. Inr ((name, type) # es)))))"

definition short :: "u16 list \<times> u16 list \<Rightarrow> bool" where
  "short e \<longleftrightarrow> length (fst e) < 0x7FFF \<and> length (snd e) < 0x7FFF \<and> snd e \<noteq> []"

lemma length_counted [simp]: "length (counted n b) = 16"
  by (simp add: counted_def)

lemma byte_counts:
  "length (xs :: u16 list) < 0x7FFF \<Longrightarrow> unat (of_nat (length xs * 2) :: u16) = length xs * 2"
  by (simp only: unat_of_nat) simp

lemma layout_sizes:
  "list_all short es \<Longrightarrow> layout buffer at es = (infos, strings) \<Longrightarrow>
   length infos = info_size * length es \<and>
   info_size * length es + length strings = sum_list (map entry_size es)"
proof (induction es arbitrary: at infos strings)
  case (Cons e es)
  obtain name type where e: "e = (name, type)" by force
  let ?at = "at + length name * 2 + 2 + length type * 2 + 2"
  obtain ii ss where rest: "layout buffer ?at es = (ii, ss)" by force
  have n: "unat (of_nat (length name * 2) :: u16) = length name * 2" "unat (of_nat (length type * 2) :: u16) = length type * 2"
    using Cons.prems(1) e byte_counts by (auto simp: short_def)
  have "length ii = info_size * length es" "info_size * length es + length ss = sum_list (map entry_size es)"
    using Cons.IH [OF _ rest] Cons.prems(1) by simp_all
  moreover have "entry_size e = 36 + length name * 2 + length type * 2" by (simp add: entry_size_def e info_size_def)
  ultimately show ?case using Cons.prems(2) e n rest by (auto simp: Let_def info_size_def)
qed auto

lemma counted_fields: "field_get 0 2 (counted n b) = n" "field_get 8 8 (counted n b) = b"
  by (simp_all add: field_get_def counted_def le_dec_enc take_bit_word_eq_self)

lemma unicode_at_counted:
  assumes "g_read 16 a g = Inr (counted (of_nat (length str * 2)) b)" and "a \<noteq> 0" and "b \<noteq> 0"
    and "length str < 0x7FFF" and "g_read (length str * 2) b g = Inr (chars_bytes 2 str)"
  shows "unicode_at a g = Inr str"
proof -
  let ?n = "of_nat (length str * 2) :: u16"
  have n: "unat ?n = length str * 2" using byte_counts [OF assms(4)] .
  have "bytes_chars 2 (length str) (chars_bytes 2 str) = str" by (rule bytes_chars_bytes) simp
  then show ?thesis
    using assms n counted_fields [of ?n b] unat_eq_0 [of ?n]
    by (auto simp: unicode_at_def read_unicode_string_def read_counted_string_def simp del: of_nat_mult)
qed

lemma offset_nonzero: "0 < unat (a :: addr) \<Longrightarrow> unat a + n < 2 ^ 64 \<Longrightarrow> a + of_nat n \<noteq> 0"
  using unat_add_no_overflow [of a "of_nat n"] by (auto simp: unat_of_nat64)

text \<open>The two strings of a structure that lies at \<open>a\<close>, with the rest of the array behind it.\<close>

lemma read_info:
  assumes "g_read (0x20 + n) a g = Inr (counted (of_nat (length name * 2)) b @ counted (of_nat (length type * 2)) c @ rest)"
    and "short (name, type)" and "a \<noteq> 0" and "a + 0x10 \<noteq> 0" and "b \<noteq> 0" and "c \<noteq> 0"
    and "g_read (length name * 2) b g = Inr (chars_bytes 2 name)"
    and "g_read (length type * 2) c g = Inr (chars_bytes 2 type)"
  shows "unicode_at a g = Inr name" "unicode_at (a + 0x10) g = Inr type"
    "\<exists>bs. g_read info_size a g = Inr bs \<and> bs \<noteq> replicate info_size 0"
    "g_read n (a + of_nat info_size) g = Inr rest"
proof -
  have l: "length rest = n" using g_read_mapped [OF assms(1)] by simp
  have fst: "g_read 16 a g = Inr (counted (of_nat (length name * 2)) b)"
    using g_read_sub [OF assms(1), of 0 16] by simp
  have snd: "g_read 16 (a + 0x10) g = Inr (counted (of_nat (length type * 2)) c)"
    using g_read_sub [OF assms(1), of 16 16] by simp
  show "unicode_at a g = Inr name" "unicode_at (a + 0x10) g = Inr type"
    using unicode_at_counted [OF fst assms(3,5) _ assms(7)] unicode_at_counted [OF snd assms(4,6) _ assms(8)] assms(2)
    by (simp_all add: short_def)
  have "g_read info_size a g = Inr (counted (of_nat (length name * 2)) b @ counted (of_nat (length type * 2)) c)"
    using g_read_sub [OF assms(1), of 0 "0x20"] by (simp add: info_size_def)
  moreover have "counted n b @ counted k c \<noteq> replicate info_size 0" for n k
  proof
    assume "counted n b @ counted k c = replicate info_size 0"
    then have "field_get 8 8 (counted n b @ counted k c) = (0 :: addr)" by (simp add: field_get_def)
    then show False using assms(5) counted_fields(2) [of n b] by (simp add: field_get_def)
  qed
  ultimately show "\<exists>bs. g_read info_size a g = Inr bs \<and> bs \<noteq> replicate info_size 0" by blast
  show "g_read n (a + of_nat info_size) g = Inr rest"
    using g_read_sub [OF assms(1), of "0x20" n] l by (simp add: info_size_def)
qed

lemma read_layout:
  assumes "list_all short es" and "layout buffer at es = (infos, strings)"
    and "g_read (length infos + info_size) a g = Inr (infos @ replicate info_size 0)"
    and "g_read (length strings) (buffer + of_nat at) g = Inr strings"
    and "0 < unat a" and "unat a + length infos + info_size < 2 ^ 64"
    and "0 < unat buffer" and "unat buffer + at + length strings < 2 ^ 64"
  shows "read_directory (Suc (length es)) a g = Inr es"
  using assms
proof (induction es arbitrary: at infos strings a)
  case Nil
  then show ?case by simp
next
  case (Cons e es)
  obtain name type where e: "e = (name, type)" by force
  have sh: "short (name, type)" "list_all short es" using Cons.prems(1) e by simp_all
  let ?n = "length name * 2" and ?t = "length type * 2"
  let ?at = "at + ?n + 2 + ?t + 2" and ?b = "buffer + of_nat at" and ?c = "buffer + of_nat (at + ?n + 2)"
  obtain ii ss where rest: "layout buffer ?at es = (ii, ss)" by force
  have nt: "unat (of_nat ?n :: u16) = ?n" "unat (of_nat ?t :: u16) = ?t" using sh(1) byte_counts by (auto simp: short_def)
  have parts: "infos = counted (of_nat ?n) ?b @ counted (of_nat ?t) ?c @ ii"
    "strings = chars_bytes 2 name @ [0, 0] @ chars_bytes 2 type @ [0, 0] @ ss"
    using Cons.prems(2) e nt rest by (auto simp: Let_def simp del: of_nat_add of_nat_mult)
  let ?front = "chars_bytes 2 name @ [0, 0] @ chars_bytes 2 type @ [0, 0] :: u8 list"
  have "strings = ?front @ ss" "length ?front = ?n + 2 + ?t + 2" using parts(2) by simp_all
  then have tail_part: "drop (?n + 2 + ?t + 2) strings = ss" by (metis append_eq_conv_conj)
  have str: "g_read ?n ?b g = Inr (chars_bytes 2 name)" "g_read ?t ?c g = Inr (chars_bytes 2 type)"
    "g_read (length ss) (buffer + of_nat ?at) g = Inr ss"
    using g_read_sub [OF Cons.prems(4), of 0 ?n] g_read_sub [OF Cons.prems(4), of "?n + 2" ?t]
      g_read_sub [OF Cons.prems(4), of "?n + 2 + ?t + 2" "length ss", unfolded tail_part] parts(2)
    by (simp_all add: algebra_simps)
  have nz: "a \<noteq> 0" "a + 0x10 \<noteq> 0" "?b \<noteq> 0" "?c \<noteq> 0"
    using Cons.prems(5-8) parts offset_nonzero [of a 16] offset_nonzero [of buffer at] offset_nonzero [of buffer "at + ?n + 2"]
    by (auto simp: info_size_def)
  have "g_read (0x20 + (length ii + info_size)) a g = Inr (counted (of_nat ?n) ?b @ counted (of_nat ?t) ?c @ ii @ replicate info_size 0)"
    using Cons.prems(3) parts(1) by (simp add: algebra_simps)
  note here = read_info [OF this sh(1) nz str(1,2)]
  have "read_directory (Suc (length es)) (a + of_nat info_size) g = Inr es"
  proof (rule Cons.IH [OF sh(2) rest here(4) str(3)])
    show "0 < unat (a + of_nat info_size)" "unat (a + of_nat info_size) + length ii + info_size < 2 ^ 64"
      using Cons.prems(5,6) parts(1) unat_add_no_overflow [of a "of_nat info_size"] by (simp_all add: info_size_def)
    show "unat buffer + ?at + length ss < 2 ^ 64" using Cons.prems(8) parts(2) by simp
  qed (rule Cons.prems(7))
  then show ?case using here e by auto
qed

section \<open>Walking a directory\<close>

text \<open>What one call chooses: as many of the entries as fit, at least one where the next one fits.\<close>

lemma pick_entries_take:
  "pick_entries len single es sz = (cs, t) \<Longrightarrow>
   cs = take (length cs) es \<and> t = sz + sum_list (map entry_size cs) \<and> (sz \<le> len \<longrightarrow> t \<le> len) \<and>
   (es \<noteq> [] \<longrightarrow> (cs \<noteq> [] \<longleftrightarrow> sz + entry_size (hd es) \<le> len))"
proof (induction es arbitrary: sz cs t)
  case (Cons e es)
  obtain ds u where rest: "pick_entries len single es (sz + entry_size e) = (ds, u)" by force
  show ?case using Cons.IH [OF rest] Cons.prems rest by (auto split: if_splits)
qed simp

lemma read_directory_more: "read_directory n a g = Inr es \<Longrightarrow> n \<le> k \<Longrightarrow> read_directory k a g = Inr es"
proof (induction n arbitrary: a es k)
  case (Suc n)
  then obtain m where "k = Suc m" "n \<le> m" by (cases k) auto
  then show ?case using Suc.prems(1) Suc.IH [of "a + of_nat info_size" _ m] by (auto split: if_splits sum.splits)
qed simp

lemma write_opt4:
  assumes "p = 0 \<or> g_mapped (gm s) p 4"
  shows "\<exists>g. write_opt 4 p (v :: u32) s = Inr (s\<lparr>gm := g\<rparr>) \<and> (p \<noteq> 0 \<longrightarrow> g_get 4 p g = Inr v) \<and>
    (\<forall>x. (p \<noteq> 0 \<longrightarrow> x \<notin> span p 4) \<longrightarrow> g x = gm s x) \<and> (\<forall>a n. g_mapped g a n = g_mapped (gm s) a n)"
proof (cases "p = 0")
  case True
  then show ?thesis by (intro exI [of _ "gm s"]) (simp add: write_opt_def)
next
  case False
  then obtain g where g: "g_put 4 p v (gm s) = Inr g" using assms g_put_total by blast
  then have "g_get 4 p g = Inr v" using g_get_put_same [of 4 p v "gm s" g] by (simp add: take_bit_word_eq_self)
  then show ?thesis using False g g_put_other [OF g] g_put_mapped [OF g]
    by (intro exI [of _ g]) (auto simp: write_opt_def)
qed

text \<open>The answer, read back the way a caller does.\<close>

lemma read_answer:
  assumes "list_all short es" and "layout buffer (info_size * (length es + 1)) es = (infos, strings)"
    and "out = infos @ replicate info_size 0 @ strings" and "g_read (length out) buffer g = Inr out"
    and "0 < unat buffer" and "unat buffer + length out < 2 ^ 64"
  shows "read_directory (Suc (length es)) buffer g = Inr es"
proof (rule read_layout [OF assms(1,2)])
  have sizes: "length infos = info_size * length es" using layout_sizes [OF assms(1,2)] by simp
  show "g_read (length infos + info_size) buffer g = Inr (infos @ replicate info_size 0)"
    using g_read_sub [OF assms(4), of 0 "length infos + info_size"] assms(3) by simp
  show "g_read (length strings) (buffer + of_nat (info_size * (length es + 1))) g = Inr strings"
    using g_read_sub [OF assms(4), of "info_size * (length es + 1)" "length strings"] assms(3) sizes by simp
  show "unat buffer + length infos + info_size < 2 ^ 64"
    "unat buffer + info_size * (length es + 1) + length strings < 2 ^ 64" using assms(3,6) sizes by simp_all
qed (use assms in simp_all)

text \<open>
  The places a caller passes: a buffer that holds the terminator, the scan context, and the
  returned length where it asks for it, all mapped and apart.
\<close>

definition places_ok :: "addr \<Rightarrow> nat \<Rightarrow> addr \<Rightarrow> addr \<Rightarrow> gmem \<Rightarrow> bool" where
  "places_ok buffer n ctx rl g \<longleftrightarrow>
     buffer \<noteq> 0 \<and> unat buffer + n < 2 ^ 64 \<and> info_size \<le> n \<and> ctx \<noteq> 0 \<and>
     g_mapped g buffer n \<and> g_mapped g ctx 4 \<and> (rl = 0 \<or> g_mapped g rl 4) \<and>
     span buffer n \<inter> span ctx 4 = {} \<and> (rl \<noteq> 0 \<longrightarrow> span buffer n \<inter> span rl 4 = {} \<and> span ctx 4 \<inter> span rl 4 = {})"

definition places :: "addr \<Rightarrow> nat \<Rightarrow> addr \<Rightarrow> addr \<Rightarrow> addr set" where
  "places buffer n ctx rl = span buffer n \<union> span ctx 4 \<union> (if rl = 0 then {} else span rl 4)"

lemma query_directory:
  assumes "get_handle_object as_directory h (nt_state.objs s) (table s) = Some name"
    and "es = directory_entries (object_namespace_key name @ ''/'') (nt_state.objs s)"
    and "list_all short es" and "length es < 2 ^ 32" and "i \<le> length es"
    and "if restart then i = 0 else g_get 4 ctx (gm s) = Inr (of_nat i :: u32)"
    and "places_ok buffer (unat len) ctx rl (gm s)"
  shows "\<exists>k g. QueryDirectoryObject h buffer len single restart ctx rl s =
      Inr (if i = length es then STATUS_NO_MORE_ENTRIES
           else if i + k < length es then STATUS_MORE_ENTRIES else STATUS_SUCCESS, s\<lparr>gm := g\<rparr>) \<and>
    i + k \<le> length es \<and> (i < length es \<longrightarrow> (0 < k \<longleftrightarrow> info_size + entry_size (es ! i) \<le> unat len)) \<and>
    g_get 4 ctx g = Inr (of_nat (i + k) :: u32) \<and>
    read_directory (Suc k) buffer g = Inr (take k (drop i es)) \<and>
    (\<forall>x. x \<notin> places buffer (unat len) ctx rl \<longrightarrow> g x = gm s x) \<and>
    (\<forall>a n. g_mapped g a n = g_mapped (gm s) a n)"
proof -
  note ok = assms(7) [unfolded places_ok_def]
  obtain cs sz where pick: "pick_entries (unat len) single (drop i es) info_size = (cs, sz)" by force
  let ?k = "length cs"
  have cs: "cs = take ?k (drop i es)" and sz: "sz = info_size + sum_list (map entry_size cs)" "sz \<le> unat len"
    and progress: "drop i es \<noteq> [] \<Longrightarrow> cs \<noteq> [] \<longleftrightarrow> info_size + entry_size (hd (drop i es)) \<le> unat len"
    using pick_entries_take [OF pick] ok by auto
  have k: "i + ?k \<le> length es" using arg_cong [OF cs, of length] assms(5) by simp
  have sh: "list_all short cs" using assms(3) cs by (metis append_take_drop_id list_all_append)
  obtain infos strings where lay: "layout buffer (info_size * (?k + 1)) cs = (infos, strings)" by force
  let ?out = "infos @ replicate info_size 0 @ strings"
  have out: "length ?out = sz" "vec_resize sz ?out = ?out"
    using layout_sizes [OF sh lay] sz(1) by (auto simp: vec_resize_def)
  have idx: "unat (of_nat i :: u32) = i" "unat (of_nat (i + ?k) :: u32) = i + ?k"
    using assms(4,5) k by (simp_all add: unat_of_nat del: of_nat_add)
  obtain g1 where g1: "write_opt 4 rl (of_nat sz :: u32) s = Inr (s\<lparr>gm := g1\<rparr>)"
    "\<forall>x. (rl \<noteq> 0 \<longrightarrow> x \<notin> span rl 4) \<longrightarrow> g1 x = gm s x" "\<forall>a n. g_mapped g1 a n = g_mapped (gm s) a n"
    using write_opt4 [of rl s "of_nat sz"] ok by auto
  obtain g2 where g2: "write_opt 4 ctx (of_nat (i + ?k) :: u32) (s\<lparr>gm := g1\<rparr>) = Inr (s\<lparr>gm := g2\<rparr>)"
    "g_get 4 ctx g2 = Inr (of_nat (i + ?k) :: u32)" "\<forall>x. x \<notin> span ctx 4 \<longrightarrow> g2 x = g1 x"
    "\<forall>a n. g_mapped g2 a n = g_mapped g1 a n"
    using write_opt4 [of ctx "s\<lparr>gm := g1\<rparr>" "of_nat (i + ?k)"] ok g1(3) by auto
  have part: "span buffer sz \<subseteq> span buffer (unat len)" using span_mono sz(2) by blast
  have "g_mapped g2 buffer sz" using ok g1(3) g2(4) part by (auto simp: g_mapped_def)
  then obtain g where g: "g_write buffer ?out g2 = Inr g" using g_write_total out(1) by metis
  have "read_directory (Suc ?k) buffer g = Inr cs"
  proof (rule read_answer [OF sh lay refl])
    show "g_read (length ?out) buffer g = Inr ?out" using g_read_write_same [OF g] out(1) sz(2) ok by linarith
    show "0 < unat buffer" "unat buffer + length ?out < 2 ^ 64" using ok out(1) sz(2) by (auto simp: unat_gt_0)
  qed
  moreover have "g_get 4 ctx g = Inr (of_nat (i + ?k) :: u32)"
    using g_get_write_other [OF g, of ctx 4, where 'a = 32] out(1) part ok g2(2) by fastforce
  moreover have "g x = gm s x" if "x \<notin> places buffer (unat len) ctx rl" for x
    using g_write_other [OF g, of x] g1(2) g2(3) out(1) part that by (auto simp: places_def split: if_splits)
  moreover have "g_mapped g a n = g_mapped (gm s) a n" for a n using g_write_mapped [OF g] g1(3) g2(4) by simp
  moreover have "0 < ?k \<longleftrightarrow> info_size + entry_size (es ! i) \<le> unat len" if "i < length es"
    using progress that by (simp add: hd_drop_conv_nth)
  moreover have "QueryDirectoryObject h buffer len single restart ctx rl s =
      Inr (if i = length es then STATUS_NO_MORE_ENTRIES
           else if i + ?k < length es then STATUS_MORE_ENTRIES else STATUS_SUCCESS, s\<lparr>gm := g\<rparr>)"
  proof -
    have start: "(if \<not> restart \<and> ctx \<noteq> 0 then g_get 4 ctx (gm s) else Inr (0 :: u32)) = Inr (of_nat i)"
      using assms(6) ok by (auto split: if_splits)
    have len: "\<not> length es < i" "(of_nat i :: u32) + of_nat ?k = of_nat (i + ?k)" "\<not> unat len < sz"
      using assms(5) sz(2) by simp_all
    have fin: "cs = [] \<and> length es \<le> i \<longleftrightarrow> i = length es" using k by auto
    show ?thesis
      unfolding QueryDirectoryObject_def assms(1) option.case Let_def assms(2) [symmetric] start
      by (simp add: idx(1) len pick lay lay [simplified] out g1(1) g2(1) g fin idx(2) del: of_nat_add length_append)
  qed
  ultimately show ?thesis using k cs by (intro exI [of _ ?k] exI [of _ g]) simp
qed

text \<open>
  A caller that lists a whole directory: it asks for a fresh scan, reads what each call leaves in
  the buffer, and goes on with the context until there are no more entries. \<open>n\<close> bounds the calls
  and \<open>m\<close> the entries read of one answer.
\<close>

fun walk_directory :: "nat \<Rightarrow> nat \<Rightarrow> u64 \<Rightarrow> addr \<Rightarrow> u32 \<Rightarrow> bool \<Rightarrow> bool \<Rightarrow> addr \<Rightarrow> addr \<Rightarrow> nt_state \<Rightarrow>
  emu_error + (u16 list \<times> u16 list) list \<times> nt_state" where
  "walk_directory 0 m h buffer len single restart ctx rl s = throw Does_not_return"
| "walk_directory (Suc n) m h buffer len single restart ctx rl s =
     bind_result (QueryDirectoryObject h buffer len single restart ctx rl s) (\<lambda>(st, s).
     if st = STATUS_NO_MORE_ENTRIES then Inr ([], s)
     else
       bind_result (read_directory m buffer (gm s)) (\<lambda>es.
       bind_result (walk_directory n m h buffer len single False ctx rl s) (\<lambda>(more, s).
         Inr (es @ more, s))))"

lemma walk_from:
  assumes "get_handle_object as_directory h (nt_state.objs s) (table s) = Some name"
    and "es = directory_entries (object_namespace_key name @ ''/'') (nt_state.objs s)"
    and "list_all short es" and "length es < 2 ^ 32" and "i \<le> length es" and "length es - i < n" and "length es < m"
    and "if restart then i = 0 else g_get 4 ctx (gm s) = Inr (of_nat i :: u32)"
    and "places_ok buffer (unat len) ctx rl (gm s)" and "\<forall>e \<in> set es. info_size + entry_size e \<le> unat len"
  shows "\<exists>g. walk_directory n m h buffer len single restart ctx rl s = Inr (drop i es, s\<lparr>gm := g\<rparr>) \<and>
    (\<forall>x. x \<notin> places buffer (unat len) ctx rl \<longrightarrow> g x = gm s x)"
  using assms
proof (induction n arbitrary: i restart s)
  case (Suc n)
  obtain k g where q: "QueryDirectoryObject h buffer len single restart ctx rl s =
      Inr (if i = length es then STATUS_NO_MORE_ENTRIES
           else if i + k < length es then STATUS_MORE_ENTRIES else STATUS_SUCCESS, s\<lparr>gm := g\<rparr>)"
    and k: "i + k \<le> length es" "i < length es \<longrightarrow> (0 < k \<longleftrightarrow> info_size + entry_size (es ! i) \<le> unat len)"
    and ctx: "g_get 4 ctx g = Inr (of_nat (i + k) :: u32)" and rd: "read_directory (Suc k) buffer g = Inr (take k (drop i es))"
    and out: "\<forall>x. x \<notin> places buffer (unat len) ctx rl \<longrightarrow> g x = gm s x" and mp: "\<forall>a n. g_mapped g a n = g_mapped (gm s) a n"
    using query_directory [OF Suc.prems(1-5,8,9), of single] by blast
  have codes: "STATUS_MORE_ENTRIES \<noteq> STATUS_NO_MORE_ENTRIES" "STATUS_SUCCESS \<noteq> STATUS_NO_MORE_ENTRIES"
    by (simp_all add: STATUS_MORE_ENTRIES_def STATUS_NO_MORE_ENTRIES_def STATUS_SUCCESS_def)
  show ?case
  proof (cases "i = length es")
    case True
    then show ?thesis using q out by auto
  next
    case False
    then have pos: "0 < k" "i < length es" using Suc.prems(5,10) k(2) by auto
    have "read_directory m buffer g = Inr (take k (drop i es))" using read_directory_more [OF rd] Suc.prems(7) k(1) by simp
    moreover have "places_ok buffer (unat len) ctx rl g" using Suc.prems(9) mp by (simp add: places_ok_def)
    then have "\<exists>g'. walk_directory n m h buffer len single False ctx rl (s\<lparr>gm := g\<rparr>) =
        Inr (drop (i + k) es, (s\<lparr>gm := g\<rparr>)\<lparr>gm := g'\<rparr>) \<and>
        (\<forall>x. x \<notin> places buffer (unat len) ctx rl \<longrightarrow> g' x = gm (s\<lparr>gm := g\<rparr>) x)"
      using Suc.prems k(1) pos ctx by (intro Suc.IH) simp_all
    then obtain g' where "walk_directory n m h buffer len single False ctx rl (s\<lparr>gm := g\<rparr>) =
        Inr (drop (i + k) es, s\<lparr>gm := g'\<rparr>)" "\<forall>x. x \<notin> places buffer (unat len) ctx rl \<longrightarrow> g' x = g x"
      by auto
    moreover have "take k (drop i es) @ drop (i + k) es = drop i es" by (metis append_take_drop_id drop_drop add.commute)
    ultimately show ?thesis using q False codes out by auto
  qed
qed simp

lemma length_widen [simp]: "length (widen_string c) = length c"
  by (simp add: widen_string_def)

lemma type_names: "widen_string (type_of c m) \<noteq> []" "length (type_of c m) < 13"
  by (auto simp: type_of_def widen_string_def Let_def)

text \<open>
  C13: Listing a directory object call by call, in a buffer of any size that takes the longest
  entry, one entry at a time or as many as fit, ends and yields every direct child of the directory
  exactly once, in order, with its type; no memory changes but the buffer, the scan context and
  the returned length.
\<close>

theorem directory_walk_complete:
  assumes "get_handle_object as_directory h (nt_state.objs s) (table s) = Some name"
    and "p = object_namespace_key name @ ''/''"
    and "names = sorted_list_of_set (children p (fst ` set (named (nt_state.objs s))) - {[]})"
    and "\<forall>c \<in> set names. length c < 0x7FFF \<and> 92 + 2 * length c \<le> unat len"
    and "length names < 2 ^ 32" and "length names < n" and "length names < m"
    and "places_ok buffer (unat len) ctx rl (gm s)"
  shows "\<exists>g. walk_directory n m h buffer len single True ctx rl s =
      Inr (map (\<lambda>c. (widen_string c, widen_string (type_of (p @ c) (nt_state.objs s)))) names, s\<lparr>gm := g\<rparr>) \<and>
    (\<forall>x. x \<notin> places buffer (unat len) ctx rl \<longrightarrow> g x = gm s x)"
proof -
  let ?es = "directory_entries p (nt_state.objs s)"
  have es: "?es = map (\<lambda>c. (widen_string c, widen_string (type_of (p @ c) (nt_state.objs s)))) names"
    using assms(3) by (simp add: directory_entries_def child_names_correct)
  have sh: "list_all short ?es" using assms(4) type_names
    by (auto simp: es list_all_iff short_def intro: less_trans [of _ 13])
  have fits: "\<forall>e \<in> set ?es. info_size + entry_size e \<le> unat len"
  proof
    fix e assume "e \<in> set ?es"
    then obtain c where c: "c \<in> set names" "e = (widen_string c, widen_string (type_of (p @ c) (nt_state.objs s)))"
      by (auto simp: es)
    then show "info_size + entry_size e \<le> unat len"
      using assms(4) type_names(2) [of "p @ c" "nt_state.objs s"] by (auto simp: info_size_def entry_size_def)
  qed
  have n: "length ?es < 2 ^ 32" "length ?es < n" "length ?es < m" using assms(5-7) by (simp_all add: es)
  show ?thesis
    using walk_from [OF assms(1) arg_cong [OF assms(2), of "\<lambda>p. directory_entries p (nt_state.objs s)"] sh n(1),
        of 0 n m True ctx buffer len rl single] n assms(8) fits es by auto
qed

definition dir_demo :: nt_state where
  "dir_demo = \<lparr>
     nt_state.objs = \<lparr>objects = [(0x9000, \<lparr>header = 0, host = Some (Directory_host ''Device'')\<rparr>),
                             (0x9100, \<lparr>header = 0, host = Some (Device_host 0x9100 ''tap'')\<rparr>)],
                  named = [(''device/tap'', 0x9100), (''device/net/a'', 0x9200), (''device'', 0x9000), (''driver'', 0x9300)],
                  next_id = 4\<rparr>,
     table = \<lparr>handles = [(4, \<lparr>body_addr = 0x9000, access = 0\<rparr>)], next_handle = 8\<rparr>,
     gm = (\<lambda>x. if unat (x - 0x1000) < 0x100 then Some 0 else None), procthreads = [], current = None,
     yielded = False, woken = False\<rparr>"

lemma dir_demo_ok:
  "get_handle_object as_directory 4 (nt_state.objs dir_demo) (table dir_demo) = Some ''Device''"
  "object_namespace_key ''Device'' = ''device''"
  "child_names ''device/'' (nt_state.objs dir_demo) = [''net'', ''tap'']"
  "map (\<lambda>c. type_of (''device/'' @ c) (nt_state.objs dir_demo)) [''net'', ''tap''] = [''Unknown'', ''Device'']"
  by code_simp+

lemma dir_demo_places: "places_ok 0x1000 0x80 0x1090 0x10A0 (gm dir_demo)"
proof -
  have "g_mapped (gm dir_demo) (0x1000 + of_nat i) n" if "i + n \<le> 0x100" for i n
    using span_offset [OF that, of "0x1000"] span_iff [of "0x100" _ "0x1000"] by (auto simp: g_mapped_def dir_demo_def)
  from this [of 0 "0x80"] this [of "0x90" 4] this [of "0xA0" 4] show ?thesis
    using span_fields_apart [of 0 "0x80" "0x90" 4 "0x1000"] span_fields_apart [of 0 "0x80" "0xA0" 4 "0x1000"]
      span_fields_apart [of "0x90" 4 "0xA0" 4 "0x1000"]
    by (simp add: places_ok_def info_size_def)
qed

theorem directory_walk_complete_witness:
  "\<exists>s'. walk_directory 3 3 4 0x1000 0x80 False True 0x1090 0x10A0 dir_demo =
    Inr ([(widen_string ''net'', widen_string ''Unknown''), (widen_string ''tap'', widen_string ''Device'')], s')"
proof -
  have "sorted_list_of_set (children ''device/'' (fst ` set (named (nt_state.objs dir_demo))) - {[]}) = [''net'', ''tap'']"
    using dir_demo_ok(3) child_names_correct by metis
  then show ?thesis
    using directory_walk_complete [OF dir_demo_ok(1) refl refl, of "0x80" 3 3 "0x1000" "0x1090" "0x10A0" False]
      dir_demo_ok(2,4) dir_demo_places by auto
qed

text \<open>
  A buffer that takes the terminator but not the next entry: the answer is that there are more
  entries, and the same again for ever, with nothing in the buffer.
\<close>

lemma directory_no_progress:
  assumes "get_handle_object as_directory h (nt_state.objs s) (table s) = Some name"
    and "es = directory_entries (object_namespace_key name @ ''/'') (nt_state.objs s)"
    and "list_all short es" and "length es < 2 ^ 32" and "i < length es"
    and "g_get 4 ctx (gm s) = Inr (of_nat i :: u32)" and "places_ok buffer (unat len) ctx rl (gm s)"
    and "unat len < info_size + entry_size (es ! i)"
  shows "\<exists>g. QueryDirectoryObject h buffer len single False ctx rl s = Inr (STATUS_MORE_ENTRIES, s\<lparr>gm := g\<rparr>) \<and>
    g_get 4 ctx g = Inr (of_nat i :: u32)"
proof -
  obtain k g where "QueryDirectoryObject h buffer len single False ctx rl s =
      Inr (if i = length es then STATUS_NO_MORE_ENTRIES
           else if i + k < length es then STATUS_MORE_ENTRIES else STATUS_SUCCESS, s\<lparr>gm := g\<rparr>)"
    "i < length es \<longrightarrow> (0 < k \<longleftrightarrow> info_size + entry_size (es ! i) \<le> unat len)"
    "g_get 4 ctx g = Inr (of_nat (i + k) :: u32)"
    using query_directory [OF assms(1-4) less_imp_le [OF assms(5)], of False ctx buffer len rl single] assms(6,7) by auto
  then show ?thesis using assms(5,8) by auto
qed

end
