(* ===== verification/Nt_File.thy ===== *)
theory Nt_File
  imports Nt_Object
begin

text \<open>
  The files and devices of \<open>kernel/win/modules/nt_io_ops.cpp\<close>: opening, reading, writing,
  information, directory listings and control requests, over \<open>Filesystem\<close> and the handle tables.
  What a driver does with a request is the argument \<open>dispatch\<close>, none where there is no emulator;
  the hash of a path and the size of a wide character of the host are arguments too. What a guest
  writes to the console is collected in \<open>console_out\<close>. Host memory is taken to be unbounded.
\<close>

section \<open>State\<close>

record file_state =
  fnt :: nt_state
  ffs :: filesystem
  fpool :: pool
  console_out :: "u8 list"

type_synonym file_service = "file_state \<Rightarrow> emu_error + NTSTATUS \<times> file_state"

record irp_request =
  major :: u8
  irp_device_object :: addr
  irp_file_object :: addr
  irp_control_code :: u32
  input_buffer :: addr
  input_length :: u32
  output_buffer :: addr
  output_length :: u32

definition new_irp_request :: irp_request where
  "new_irp_request = \<lparr>major = 0x0E, irp_device_object = 0, irp_file_object = 0, irp_control_code = 0,
     input_buffer = 0, input_length = 0, output_buffer = 0, output_length = 0\<rparr>"

type_synonym dispatch_irp = "irp_request \<Rightarrow> file_state \<Rightarrow> emu_error + (NTSTATUS \<times> u64) \<times> file_state"

definition irp_mj_create :: u8 where "irp_mj_create = 0x00"
definition irp_mj_device_control :: u8 where "irp_mj_device_control = 0x0E"

definition file_supersede :: u32 where "file_supersede = 0"
definition file_open :: u32 where "file_open = 1"
definition file_create :: u32 where "file_create = 2"
definition file_open_if :: u32 where "file_open_if = 3"
definition file_overwrite :: u32 where "file_overwrite = 4"
definition file_overwrite_if :: u32 where "file_overwrite_if = 5"

lemmas disposition_defs = file_supersede_def file_open_def file_create_def file_open_if_def file_overwrite_def
  file_overwrite_if_def

definition file_superseded :: u64 where "file_superseded = 0"
definition file_opened :: u64 where "file_opened = 1"
definition file_created :: u64 where "file_created = 2"
definition file_overwritten :: u64 where "file_overwritten = 3"

definition file_directory_information :: u32 where "file_directory_information = 1"
definition file_full_directory_information :: u32 where "file_full_directory_information = 2"
definition file_both_directory_information :: u32 where "file_both_directory_information = 3"
definition file_basic_information :: u32 where "file_basic_information = 4"
definition file_standard_information :: u32 where "file_standard_information = 5"
definition file_internal_information :: u32 where "file_internal_information = 6"
definition file_position_information :: u32 where "file_position_information = 14"
definition file_fs_device_information :: u32 where "file_fs_device_information = 4"
definition file_device_disk :: u32 where "file_device_disk = 0x07"
definition file_device_console :: u32 where "file_device_console = 0x50"
definition file_attribute_normal :: u32 where "file_attribute_normal = 0x80"
definition file_attribute_directory :: u32 where "file_attribute_directory = 0x10"
definition file_directory_file :: u32 where "file_directory_file = 0x00000001"
definition file_non_directory_file :: u32 where "file_non_directory_file = 0x00000040"
definition file_use_file_pointer_position :: u64 where "file_use_file_pointer_position = - 2"
definition file_write_to_end_of_file :: u64 where "file_write_to_end_of_file = - 1"

section \<open>Structures\<close>

definition file_basic_information_t :: "u32 \<Rightarrow> u8 list" where
  "file_basic_information_t attributes = replicate 32 0 @ le_enc 4 attributes @ replicate 4 0"

definition file_standard_information_t :: "u64 \<Rightarrow> u8 list" where
  "file_standard_information_t sz = le_enc 8 sz @ le_enc 8 sz @ le_enc 4 (1 :: u32) @ replicate 4 0"

definition file_network_open_information_t :: "u64 \<Rightarrow> u32 \<Rightarrow> u8 list" where
  "file_network_open_information_t sz attributes =
     replicate 32 0 @ le_enc 8 sz @ le_enc 8 sz @ le_enc 4 attributes @ replicate 4 0"

definition file_directory_information_t :: "u64 \<Rightarrow> u32 \<Rightarrow> u32 \<Rightarrow> u8 list" where
  "file_directory_information_t sz attributes name_length =
     replicate 40 0 @ le_enc 8 sz @ le_enc 8 sz @ le_enc 4 attributes @ le_enc 4 name_length"

definition file_fs_device_information_t :: "u32 \<Rightarrow> u8 list" where
  "file_fs_device_information_t device_type = le_enc 4 device_type @ replicate 4 0"

section \<open>Helpers\<close>

definition f_mem :: "(gmem \<Rightarrow> emu_error + gmem) \<Rightarrow> file_state \<Rightarrow> emu_error + file_state" where
  "f_mem f s = bind_result (f (gm (fnt s))) (\<lambda>g. Inr (s\<lparr>fnt := (fnt s)\<lparr>gm := g\<rparr>\<rparr>))"

definition object_path :: "addr \<Rightarrow> file_state \<Rightarrow> emu_error + string" where
  "object_path attributes s = bind_result (attribute_name attributes (gm (fnt s))) (\<lambda>name. Inr (normalize name))"

text \<open>The open file behind a handle, with the object that holds it.\<close>

definition file_at :: "u64 \<Rightarrow> file_state \<Rightarrow> (addr \<times> win_object) option" where
  "file_at handle s =
     (case lookup_handle handle (table (fnt s)) of
        None \<Rightarrow> None
      | Some e \<Rightarrow> map_option (Pair (body_addr e)) (get_object as_file (body_addr e) (nt_state.objs (fnt s))))"

fun with_position :: "u64 \<Rightarrow> win_object \<Rightarrow> win_object" where
  "with_position pos (File_host f p _ con dev obj) = File_host f p pos con dev obj"
| "with_position pos h = h"

definition set_position :: "addr \<Rightarrow> u64 \<Rightarrow> file_state \<Rightarrow> file_state" where
  "set_position a pos s =
     (let om = nt_state.objs (fnt s) in
      case umap_find a (objects om) of
        None \<Rightarrow> s
      | Some e \<Rightarrow> s\<lparr>fnt := (fnt s)\<lparr>nt_state.objs :=
          om\<lparr>objects := umap_set a (e\<lparr>host := map_option (with_position pos) (host e)\<rparr>) (objects om)\<rparr>\<rparr>\<rparr>)"

definition file_offset :: "addr \<Rightarrow> u64 \<Rightarrow> gmem \<Rightarrow> emu_error + u64" where
  "file_offset byte_offset position g =
     (if byte_offset = 0 then Inr position
      else
        bind_result (g_get 8 byte_offset g) (\<lambda>v.
        if v = file_use_file_pointer_position \<or> v = file_write_to_end_of_file then Inr position
        else Inr (if v <s 0 then position else v)))"

definition io_status :: "NTSTATUS \<Rightarrow> u64 \<Rightarrow> u8 list" where
  "io_status st info = le_enc 4 st @ replicate 4 0 @ le_enc 8 info"

definition write_status_block :: "addr \<Rightarrow> NTSTATUS \<times> u64 \<Rightarrow> file_state \<Rightarrow> emu_error + file_state" where
  "write_status_block block result s =
     (if block = 0 then Inr s else f_mem (g_write block (io_status (fst result) (snd result))) s)"

text \<open>\<open>write_status_block(block, {st, info}); return st;\<close>\<close>

definition answer :: "addr \<Rightarrow> NTSTATUS \<times> u64 \<Rightarrow> file_service" where
  "answer block result s = bind_result (write_status_block block result s) (\<lambda>s. Inr (fst result, s))"

definition write_opt8 :: "addr \<Rightarrow> u64 \<Rightarrow> file_state \<Rightarrow> emu_error + file_state" where
  "write_opt8 p v s = (if p \<noteq> 0 then f_mem (g_put 8 p v) s else Inr s)"

section \<open>Opening\<close>

text \<open>\<open>windows_emulator::find_device\<close>: a name may be a chain of links, of which eight names are followed.\<close>

fun find_device_from :: "nat \<Rightarrow> string \<Rightarrow> obj_manager \<Rightarrow> addr" where
  "find_device_from 0 name m = 0"
| "find_device_from (Suc depth) name m =
     (let a = lookup_named_object name m in
      if a = 0 \<or> get_object as_device a m \<noteq> None then a
      else case get_object as_symbolic_link a m of
             None \<Rightarrow> 0
           | Some target \<Rightarrow> find_device_from depth (object_namespace_key target) m)"

definition find_device :: "string \<Rightarrow> obj_manager \<Rightarrow> addr" where
  "find_device path m = find_device_from 8 (object_namespace_key path) m"

text \<open>A new object for a host, with a handle written to \<open>file_handle\<close> where there is one.\<close>

definition make_file_handle :: "allocator \<Rightarrow> win_object \<Rightarrow> addr \<Rightarrow> file_state \<Rightarrow> emu_error + bool \<times> file_state" where
  "make_file_handle alloc hst file_handle s =
     bind_result (create_object alloc 0 (Some (replicate 8 0)) 8 (Some hst) kernel_rw
         (nt_state.objs (fnt s), gm (fnt s))) (\<lambda>(a, om, g).
     let s = s\<lparr>fnt := (fnt s)\<lparr>nt_state.objs := om, gm := g\<rparr>\<rparr> in
     if a = 0 then Inr (False, s)
     else if file_handle = 0 then Inr (True, s)
     else
       bind_result (create_handle a 0 om (table (fnt s), gm (fnt s))) (\<lambda>(h, t, g).
       bind_result (f_mem (g_put 8 file_handle h) (s\<lparr>fnt := (fnt s)\<lparr>table := t, gm := g\<rparr>\<rparr>)) (\<lambda>s.
         Inr (True, s))))"

definition open_file :: "allocator \<Rightarrow> string \<Rightarrow> u32 \<Rightarrow> u32 \<Rightarrow> addr \<Rightarrow> file_state \<Rightarrow>
  emu_error + (NTSTATUS \<times> u64) \<times> file_state" where
  "open_file alloc path disposition create_options file_handle s =
     (if path = [] then Inr ((STATUS_OBJECT_NAME_INVALID, 0), s)
      else
        let is_directory = dir_exists path (ffs s);
            existed = (fs_exists path (ffs s) \<or> is_directory);
            opened = (\<lambda>f info s.
              bind_result (make_file_handle alloc (File_host (Some f) path 0 False 0 0) file_handle s) (\<lambda>(ok, s).
                Inr (if ok then (STATUS_SUCCESS, info) else (STATUS_INSUFFICIENT_RESOURCES, 0), s)));
            by_name = (\<lambda>info.
              case fs_open path (ffs s) of
                None \<Rightarrow> Inr ((STATUS_UNSUCCESSFUL, 0), s)
              | Some f \<Rightarrow> opened f info s);
            anew = (\<lambda>info. let (f, fs) = fs_create path (ffs s) in opened f info (s\<lparr>ffs := fs\<rparr>)) in
        if existed \<and> is_directory \<and> create_options AND file_non_directory_file \<noteq> 0
        then Inr ((STATUS_FILE_IS_A_DIRECTORY, 0), s)
        else if existed \<and> \<not> is_directory \<and> create_options AND file_directory_file \<noteq> 0
        then Inr ((STATUS_NOT_A_DIRECTORY, 0), s)
        else if is_directory then
          opened (length (contents (ffs s))) file_opened (s\<lparr>ffs := (ffs s)\<lparr>contents := contents (ffs s) @ [[]]\<rparr>\<rparr>)
        else if disposition = file_open then
          if \<not> existed then Inr ((STATUS_OBJECT_NAME_NOT_FOUND, 0), s) else by_name file_opened
        else if disposition = file_create then
          if existed then Inr ((STATUS_OBJECT_NAME_COLLISION, 0), s) else anew file_created
        else if disposition = file_open_if then
          if existed then by_name file_opened else anew file_created
        else if disposition = file_overwrite then
          if \<not> existed then Inr ((STATUS_OBJECT_NAME_NOT_FOUND, 0), s) else anew file_overwritten
        else if disposition = file_supersede \<or> disposition = file_overwrite_if then
          anew (if existed then if disposition = file_supersede then file_superseded else file_overwritten
                else file_created)
        else Inr ((STATUS_INVALID_PARAMETER, 0), s))"

text \<open>The pool of the kernel, whose runs come from the address space the objects come from.\<close>

definition f_pool_allocate :: "allocator \<Rightarrow> u64 \<Rightarrow> u32 \<Rightarrow> file_state \<Rightarrow> emu_error + addr \<times> file_state" where
  "f_pool_allocate alloc sz t s =
     bind_result (pool_allocate (\<lambda>n p g. map_sum id prod.swap (alloc n (ucast p) g)) g_write sz t True
         (gm (fnt s), fpool s)) (\<lambda>((g, p), a). Inr (a, s\<lparr>fnt := (fnt s)\<lparr>gm := g\<rparr>, fpool := p\<rparr>))"

definition FO_DeviceObject :: nat where "FO_DeviceObject = 0x08"
definition FO_FileName :: nat where "FO_FileName = 0x58"
definition sizeof_FILE_OBJECT :: nat where "sizeof_FILE_OBJECT = 0xD8"
definition io_type_file :: u16 where "io_type_file = 5"

definition file_object_body :: "addr \<Rightarrow> u16 \<Rightarrow> u16 \<Rightarrow> addr \<Rightarrow> u8 list" where
  "file_object_body device name_length maximum_length name_buffer =
     field_put FO_FileName 2 name_length
       (field_put (FO_FileName + 2) 2 maximum_length
         (field_put (FO_FileName + 8) 8 name_buffer
           (field_put FO_DeviceObject 8 device
             (field_put 0 2 io_type_file
               (field_put 2 2 (of_nat sizeof_FILE_OBJECT :: u16) (replicate sizeof_FILE_OBJECT 0))))))"

text \<open>\<open>name_bytes[i * 2] = path[i]\<close> into a vector of \<open>n\<close> bytes.\<close>

fun put_chars :: "string \<Rightarrow> nat \<Rightarrow> u8 list \<Rightarrow> emu_error + u8 list" where
  "put_chars [] i bs = Inr bs"
| "put_chars (c # cs) i bs =
     (if i * 2 < length bs then put_chars cs (Suc i) (bs[i * 2 := of_char c]) else throw Out_of_bounds)"

definition write_name :: "allocator \<Rightarrow> nat \<Rightarrow> string \<Rightarrow> file_state \<Rightarrow> emu_error + (u16 \<times> u16 \<times> addr) \<times> file_state" where
  "write_name alloc wchar path s =
     (let name_length = of_nat (length path * wchar) :: u16; n = unat name_length + wchar in
      if name_length = 0 then Inr ((0, 0, 0), s)
      else
        bind_result (f_pool_allocate alloc (of_nat n) (pool_tag ''Name'') s) (\<lambda>(buf, s).
        if buf = 0 then Inr ((0, 0, 0), s)
        else
          bind_result (put_chars path 0 (replicate n 0)) (\<lambda>bs.
          bind_result (f_mem (g_write buf bs) s) (\<lambda>s.
            Inr ((name_length, name_length + of_nat wchar, buf), s)))))"

definition open_device :: "allocator \<Rightarrow> nat \<Rightarrow> dispatch_irp option \<Rightarrow> addr \<Rightarrow> string \<Rightarrow> addr \<Rightarrow> file_state \<Rightarrow>
  emu_error + (NTSTATUS \<times> u64) \<times> file_state" where
  "open_device alloc wchar dispatch device path file_handle s =
     bind_result (case dispatch of
                    None \<Rightarrow> Inr (0, s)
                  | Some _ \<Rightarrow> f_pool_allocate alloc (of_nat sizeof_FILE_OBJECT) (pool_tag ''File'') s) (\<lambda>(fo, s).
     case dispatch of
       None \<Rightarrow> Inr ((STATUS_INSUFFICIENT_RESOURCES, 0), s)
     | Some send \<Rightarrow>
         if fo = 0 then Inr ((STATUS_INSUFFICIENT_RESOURCES, 0), s)
         else
           bind_result (write_name alloc wchar path s) (\<lambda>((len, maximum, buf), s).
           bind_result (f_mem (g_write fo (file_object_body device len maximum buf)) s) (\<lambda>s.
           bind_result (send (new_irp_request\<lparr>major := irp_mj_create, irp_device_object := device, irp_file_object := fo\<rparr>) s)
             (\<lambda>((st, info), s).
           if st <s 0 then Inr ((st, 0), s\<lparr>fpool := fst (pool_free fo (fpool s))\<rparr>)
           else
             bind_result (make_file_handle alloc (File_host None path 0 False device fo) file_handle s) (\<lambda>(ok, s).
             if ok then Inr ((STATUS_SUCCESS, file_opened), s)
             else Inr ((STATUS_INSUFFICIENT_RESOURCES, 0), s\<lparr>fpool := fst (pool_free fo (fpool s))\<rparr>))))))"

definition open_path :: "allocator \<Rightarrow> nat \<Rightarrow> dispatch_irp option \<Rightarrow> string \<Rightarrow> u32 \<Rightarrow> u32 \<Rightarrow> addr \<Rightarrow> addr \<Rightarrow> file_service" where
  "open_path alloc wchar dispatch path disposition options file_handle block s =
     bind_result (write_opt8 file_handle 0 s) (\<lambda>s.
     let device = find_device path (nt_state.objs (fnt s)) in
     bind_result (if device \<noteq> 0 then open_device alloc wchar dispatch device path file_handle s
                  else open_file alloc path disposition options file_handle s) (\<lambda>(result, s).
       answer block result s))"

definition CreateFile :: "allocator \<Rightarrow> nat \<Rightarrow> dispatch_irp option \<Rightarrow> addr \<Rightarrow> addr \<Rightarrow> addr \<Rightarrow> u32 \<Rightarrow> u32 \<Rightarrow> file_service" where
  "CreateFile alloc wchar dispatch file_handle attributes block disposition options s =
     bind_result (object_path attributes s) (\<lambda>path.
       open_path alloc wchar dispatch path disposition options file_handle block s)"

definition OpenFile :: "allocator \<Rightarrow> nat \<Rightarrow> dispatch_irp option \<Rightarrow> addr \<Rightarrow> addr \<Rightarrow> addr \<Rightarrow> u32 \<Rightarrow> file_service" where
  "OpenFile alloc wchar dispatch file_handle attributes block options s =
     bind_result (object_path attributes s) (\<lambda>path.
       open_path alloc wchar dispatch path file_open options file_handle block s)"

section \<open>Reading and writing\<close>

definition file_data :: "nat \<Rightarrow> file_state \<Rightarrow> u8 list" where
  "file_data f s = contents (ffs s) ! f"

definition ReadFile :: "u64 \<Rightarrow> addr \<Rightarrow> addr \<Rightarrow> u32 \<Rightarrow> addr \<Rightarrow> file_service" where
  "ReadFile handle block buffer len byte_offset s =
     (case file_at handle s of
        Some (a, File_host (Some f) _ position _ _ _) \<Rightarrow>
          if buffer = 0 \<or> len = 0 then answer block (STATUS_INVALID_PARAMETER, 0) s
          else
            let data = file_data f s in
            bind_result (file_offset byte_offset position (gm (fnt s))) (\<lambda>offset.
            if length data \<le> unat offset then answer block (STATUS_END_OF_FILE, 0) s
            else
              let copied = min (unat len) (length data - unat offset) in
              bind_result (f_mem (g_write buffer (take copied (drop (unat offset) data))) s) (\<lambda>s.
                answer block (STATUS_SUCCESS, of_nat copied) (set_position a (offset + of_nat copied) s)))
      | _ \<Rightarrow> answer block (STATUS_INVALID_HANDLE, 0) s)"

text \<open>\<open>memcpy(data + at, bytes, size)\<close> into a vector.\<close>

definition copy_into :: "nat \<Rightarrow> u8 list \<Rightarrow> u8 list \<Rightarrow> emu_error + u8 list" where
  "copy_into at bs data =
     (if at + length bs \<le> length data then Inr (take at data @ bs @ drop (at + length bs) data) else throw Out_of_bounds)"

definition WriteFile :: "u64 \<Rightarrow> addr \<Rightarrow> addr \<Rightarrow> u32 \<Rightarrow> addr \<Rightarrow> file_service" where
  "WriteFile handle block buffer len byte_offset s =
     (case file_at handle s of
        Some (a, File_host file _ position console _ _) \<Rightarrow>
          if file = None \<and> \<not> console then answer block (STATUS_INVALID_HANDLE, 0) s
          else if buffer = 0 \<or> len = 0 then answer block (STATUS_INVALID_PARAMETER, 0) s
          else
            bind_result (g_read (unat len) buffer (gm (fnt s))) (\<lambda>bytes.
            if console then answer block (STATUS_SUCCESS, ucast len) (s\<lparr>console_out := console_out s @ bytes\<rparr>)
            else
              let f = the file; current = file_data f s in
              bind_result (file_offset byte_offset position (gm (fnt s))) (\<lambda>offset.
              let stop = offset + ucast len in
              bind_result (if length current < unat stop
                           then copy_into (unat offset) bytes (vec_resize (unat stop) current)
                           else copy_into (unat offset) bytes current) (\<lambda>data.
                answer block (STATUS_SUCCESS, ucast len) (set_position a stop (s\<lparr>ffs := file_write f data (ffs s)\<rparr>)))))
      | _ \<Rightarrow> answer block (STATUS_INVALID_HANDLE, 0) s)"

section \<open>Information\<close>

definition write_file_information :: "(string \<Rightarrow> u64) \<Rightarrow> win_object \<Rightarrow> u32 \<Rightarrow> addr \<Rightarrow> u32 \<Rightarrow> file_state \<Rightarrow>
  emu_error + (NTSTATUS \<times> u64) \<times> file_state" where
  "write_file_information hash hst info_class buffer len s =
     (case to_file hst of
        None \<Rightarrow> throw Out_of_bounds
      | Some f \<Rightarrow>
          let sz = of_nat (length (file_data f s)) :: u64;
              give = (\<lambda>bs. if unat len < length bs then Inr ((STATUS_INFO_LENGTH_MISMATCH, 0), s)
                           else bind_result (f_mem (g_write buffer bs) s) (\<lambda>s.
                                  Inr ((STATUS_SUCCESS, of_nat (length bs)), s))) in
          if info_class = file_standard_information then give (file_standard_information_t sz)
          else if info_class = file_basic_information then give (file_basic_information_t file_attribute_normal)
          else if info_class = file_position_information then give (le_enc 8 (to_position hst))
          else if info_class = file_internal_information then give (le_enc 8 (hash (to_path hst)))
          else Inr ((STATUS_INVALID_INFO_CLASS, 0), s))"

definition QueryInformationFile :: "(string \<Rightarrow> u64) \<Rightarrow> u64 \<Rightarrow> addr \<Rightarrow> addr \<Rightarrow> u32 \<Rightarrow> u32 \<Rightarrow> file_service" where
  "QueryInformationFile hash handle block information len info_class s =
     (case file_at handle s of
        Some (a, File_host (Some f) p position con dev obj) \<Rightarrow>
          bind_result (write_file_information hash (File_host (Some f) p position con dev obj) info_class information len s)
            (\<lambda>(result, s). answer block result s)
      | _ \<Rightarrow> answer block (STATUS_INVALID_HANDLE, 0) s)"

definition IoQueryFileInformation :: "(string \<Rightarrow> u64) \<Rightarrow> addr \<Rightarrow> u32 \<Rightarrow> u32 \<Rightarrow> addr \<Rightarrow> addr \<Rightarrow> file_service" where
  "IoQueryFileInformation hash file_object info_class len information returned_length s =
     (let put = (\<lambda>v s. if returned_length \<noteq> 0 then f_mem (g_put 4 returned_length (v :: u32)) s else Inr s) in
      bind_result (put 0 s) (\<lambda>s.
      case get_object as_file file_object (nt_state.objs (fnt s)) of
        None \<Rightarrow> Inr (STATUS_INVALID_PARAMETER, s)
      | Some hst \<Rightarrow>
          bind_result (write_file_information hash hst info_class information len s) (\<lambda>((st, info), s).
          bind_result (put (ucast info) s) (\<lambda>s. Inr (st, s)))))"

definition IoQueryFileDosDeviceName :: "allocator \<Rightarrow> addr \<Rightarrow> addr \<Rightarrow> file_service" where
  "IoQueryFileDosDeviceName alloc file_object name_information s =
     (if name_information = 0 then Inr (STATUS_INVALID_PARAMETER, s)
      else
        case get_object as_file file_object (nt_state.objs (fnt s)) of
          None \<Rightarrow> bind_result (f_mem (g_put 8 name_information (0 :: u64)) s) (\<lambda>s. Inr (STATUS_OBJECT_NAME_NOT_FOUND, s))
        | Some hst \<Rightarrow>
            let wide = widen_string (to_path hst); bytes = of_nat (length wide * 2) :: u16 in
            bind_result (f_pool_allocate alloc (of_nat (16 + unat bytes + 2)) (pool_tag ''IoNm'') s) (\<lambda>(a, s).
            if a = 0 then Inr (STATUS_INSUFFICIENT_RESOURCES, s)
            else
              bind_result (f_mem (g_write a (counted bytes (a + 16))) s) (\<lambda>s.
              bind_result (f_mem (g_write (a + 16) (take (unat bytes) (chars_bytes 2 wide))) s) (\<lambda>s.
              bind_result (f_mem (g_put 8 name_information a) s) (\<lambda>s. Inr (STATUS_SUCCESS, s))))))"

definition FlushBuffersFile :: "u64 \<Rightarrow> addr \<Rightarrow> file_service" where
  "FlushBuffersFile handle block s =
     (if file_at handle s = None then answer block (STATUS_INVALID_HANDLE, 0) s else answer block (STATUS_SUCCESS, 0) s)"

definition QueryAttributesFile :: "bool \<Rightarrow> addr \<Rightarrow> addr \<Rightarrow> file_service" where
  "QueryAttributesFile full attributes information s =
     bind_result (object_path attributes s) (\<lambda>path.
     let file = fs_open path (ffs s); directory = (file = None \<and> dir_exists path (ffs s)) in
     if file = None \<and> \<not> directory then Inr (STATUS_OBJECT_NAME_NOT_FOUND, s)
     else
       let sz = (case file of Some f \<Rightarrow> of_nat (length (file_data f s)) | None \<Rightarrow> 0) :: u64;
           attrs = (if directory then file_attribute_directory else file_attribute_normal) in
       bind_result (f_mem (g_write information
           (if full then file_network_open_information_t sz attrs else file_basic_information_t attrs)) s) (\<lambda>s.
         Inr (STATUS_SUCCESS, s)))"

definition QueryVolumeInformationFile :: "u64 \<Rightarrow> addr \<Rightarrow> addr \<Rightarrow> u32 \<Rightarrow> u32 \<Rightarrow> file_service" where
  "QueryVolumeInformationFile handle block information len info_class s =
     (case file_at handle s of
        None \<Rightarrow> answer block (STATUS_INVALID_HANDLE, 0) s
      | Some (a, hst) \<Rightarrow>
          if info_class = file_fs_device_information then
            if len < 8 then answer block (STATUS_INFO_LENGTH_MISMATCH, 0) s
            else
              bind_result (f_mem (g_write information (file_fs_device_information_t
                  (if to_console hst then file_device_console else file_device_disk))) s)
                (answer block (STATUS_SUCCESS, 8))
          else answer block (STATUS_INVALID_INFO_CLASS, 0) s)"

section \<open>Directories\<close>

definition QueryDirectoryFile :: "u64 \<Rightarrow> addr \<Rightarrow> addr \<Rightarrow> u32 \<Rightarrow> u32 \<Rightarrow> bool \<Rightarrow> file_service" where
  "QueryDirectoryFile handle block information len info_class restart s =
     (case file_at handle s of
        None \<Rightarrow> answer block (STATUS_INVALID_HANDLE, 0) s
      | Some (a, hst) \<Rightarrow>
          if info_class \<notin> {file_directory_information, file_both_directory_information, file_full_directory_information}
          then answer block (STATUS_INVALID_INFO_CLASS, 0) s
          else
            let s = (if restart then set_position a 0 s else s);
                position = (if restart then 0 else to_position hst);
                entries = list_dir (to_path hst) (ffs s) in
            if length entries \<le> unat position then answer block (STATUS_NO_MORE_FILES, 0) s
            else
              let entry = entries ! unat position;
                  wide = widen_string (de_name entry);
                  name_bytes = of_nat (length wide * 2) :: u32;
                  needed = 0x40 + unat name_bytes in
              if unat len < needed then answer block (STATUS_BUFFER_TOO_SMALL, 0) s
              else
                bind_result (f_mem (g_write information (file_directory_information_t (of_nat (de_size entry))
                    (if de_is_directory entry then file_attribute_directory else file_attribute_normal) name_bytes)) s) (\<lambda>s.
                bind_result (f_mem (g_write (information + 0x40) (take (unat name_bytes) (chars_bytes 2 wide))) s) (\<lambda>s.
                  answer block (STATUS_SUCCESS, of_nat needed) (set_position a (position + 1) s))))"

section \<open>Control requests\<close>

definition control_file :: "dispatch_irp option \<Rightarrow> u64 \<Rightarrow> addr \<Rightarrow> u32 \<Rightarrow> addr \<Rightarrow> u32 \<Rightarrow> addr \<Rightarrow> u32 \<Rightarrow> file_service" where
  "control_file dispatch handle block code input input_len output output_len s =
     (case file_at handle s of
        None \<Rightarrow> answer block (STATUS_INVALID_HANDLE, 0) s
      | Some (a, hst) \<Rightarrow>
          if \<not> file_is_device hst then answer block (STATUS_INVALID_DEVICE_REQUEST, 0) s
          else case dispatch of
            None \<Rightarrow> answer block (STATUS_INVALID_DEVICE_REQUEST, 0) s
          | Some send \<Rightarrow>
              bind_result (send \<lparr>major = irp_mj_device_control, irp_device_object = to_device_object hst,
                  irp_file_object = to_file_object hst, irp_control_code = code, input_buffer = input,
                  input_length = input_len, output_buffer = output, output_length = output_len\<rparr> s)
                (\<lambda>(result, s). answer block result s))"

section \<open>Work items\<close>

definition io_work_item_size :: u64 where "io_work_item_size = 0x40"

definition IoAllocateWorkItem :: "allocator \<Rightarrow> addr \<Rightarrow> file_state \<Rightarrow> emu_error + addr \<times> file_state" where
  "IoAllocateWorkItem alloc device_object s =
     bind_result (f_pool_allocate alloc io_work_item_size (pool_tag ''IoWi'') s) (\<lambda>(item, s).
     if item = 0 then Inr (0, s)
     else bind_result (f_mem (g_put 8 item device_object) s) (\<lambda>s. Inr (item, s)))"

definition IoFreeWorkItem :: "addr \<Rightarrow> file_state \<Rightarrow> file_state" where
  "IoFreeWorkItem item s = (if item \<noteq> 0 then s\<lparr>fpool := fst (pool_free item (fpool s))\<rparr> else s)"

definition IoInitializeWorkItem :: "addr \<Rightarrow> addr \<Rightarrow> file_state \<Rightarrow> emu_error + file_state" where
  "IoInitializeWorkItem io_object item s = (if item = 0 then Inr s else f_mem (g_put 8 item io_object) s)"

section \<open>What an open file promises\<close>

text \<open>
  The specification: a file is its bytes, and every open has a position. A write puts its bytes at
  the offset asked for, or at the position where none is given, growing the file with zeros; a
  read takes what is there, up to the end. Both leave the position behind what they moved.
\<close>

definition overlay :: "nat \<Rightarrow> u8 list \<Rightarrow> u8 list \<Rightarrow> u8 list" where
  "overlay at bs c = take at (c @ replicate (at - length c) 0) @ bs @ drop (at + length bs) c"

definition where_at :: "u64 option \<Rightarrow> u64 \<Rightarrow> u64" where
  "where_at off position = (case off of None \<Rightarrow> position | Some v \<Rightarrow> if v <s 0 then position else v)"

datatype file_op = Wr u64 "u64 option" "u8 list" | Rd u64 "u64 option" u32

fun file_spec :: "(u64 \<Rightarrow> addr) \<Rightarrow> file_op \<Rightarrow> u8 list \<times> (addr \<Rightarrow> u64) \<Rightarrow>
  (NTSTATUS \<times> u8 list) \<times> u8 list \<times> (addr \<Rightarrow> u64)" where
  "file_spec obj (Wr h off bs) (c, pos) =
     (let at = where_at off (pos (obj h)) in
      if bs = [] then ((STATUS_INVALID_PARAMETER, []), c, pos)
      else ((STATUS_SUCCESS, []), overlay (unat at) bs c, pos(obj h := at + of_nat (length bs))))"
| "file_spec obj (Rd h off n) (c, pos) =
     (let at = where_at off (pos (obj h)); bs = take (unat n) (drop (unat at) c) in
      if n = 0 then ((STATUS_INVALID_PARAMETER, []), c, pos)
      else if length c \<le> unat at then ((STATUS_END_OF_FILE, []), c, pos)
      else ((STATUS_SUCCESS, bs), c, pos(obj h := at + of_nat (length bs))))"

text \<open>What the theorem asks of a call: an open of this file, and a buffer and a file that are large enough.\<close>

fun file_ok :: "u64 set \<Rightarrow> (u64 \<Rightarrow> addr) \<Rightarrow> nat \<Rightarrow> file_op \<Rightarrow> u8 list \<times> (addr \<Rightarrow> u64) \<Rightarrow> bool" where
  "file_ok hs obj N (Wr h off bs) (c, pos) \<longleftrightarrow>
     h \<in> hs \<and> length bs \<le> N \<and> unat (where_at off (pos (obj h))) + length bs < 2 ^ 64"
| "file_ok hs obj N (Rd h off n) (c, pos) \<longleftrightarrow> h \<in> hs \<and> unat n \<le> N"

text \<open>
  The client: it stores the bytes and the offset, calls, and reads back what the status block says
  has been read. Its buffer, the cell for the offset and the status block are in guest memory.
\<close>

definition put_offset :: "addr \<Rightarrow> u64 option \<Rightarrow> file_state \<Rightarrow> emu_error + file_state" where
  "put_offset cell off s = (case off of None \<Rightarrow> Inr s | Some v \<Rightarrow> f_mem (g_put 8 cell v) s)"

fun file_call :: "addr \<Rightarrow> addr \<Rightarrow> addr \<Rightarrow> file_op \<Rightarrow> file_state \<Rightarrow> emu_error + (NTSTATUS \<times> u8 list) \<times> file_state" where
  "file_call buf cell block (Wr h off bs) s =
     bind_result (f_mem (g_write buf bs) s) (\<lambda>s.
     bind_result (put_offset cell off s) (\<lambda>s.
     bind_result (WriteFile h block buf (of_nat (length bs)) (if off = None then 0 else cell) s) (\<lambda>(st, s).
       Inr ((st, []), s))))"
| "file_call buf cell block (Rd h off n) s =
     bind_result (put_offset cell off s) (\<lambda>s.
     bind_result (ReadFile h block buf n (if off = None then 0 else cell) s) (\<lambda>(st, s).
     if st \<noteq> STATUS_SUCCESS then Inr ((st, []), s)
     else
       bind_result (g_get 8 (block + 8) (gm (fnt s))) (\<lambda>info.
       bind_result (g_read (unat (info :: u64)) buf (gm (fnt s))) (\<lambda>bs. Inr ((st, bs), s)))))"

definition client_ok :: "addr \<Rightarrow> nat \<Rightarrow> addr \<Rightarrow> addr \<Rightarrow> gmem \<Rightarrow> bool" where
  "client_ok buf N cell block g \<longleftrightarrow>
     buf \<noteq> 0 \<and> cell \<noteq> 0 \<and> block \<noteq> 0 \<and> N < 2 ^ 32 \<and> g_mapped g buf N \<and> g_mapped g cell 8 \<and> g_mapped g block 16 \<and>
     span buf N \<inter> span cell 8 = {} \<and> span buf N \<inter> span block 16 = {} \<and> span cell 8 \<inter> span block 16 = {}"

definition file_shows :: "nat \<Rightarrow> u64 set \<Rightarrow> (u64 \<Rightarrow> addr) \<Rightarrow> u8 list \<times> (addr \<Rightarrow> u64) \<Rightarrow> file_state \<Rightarrow> bool" where
  "file_shows f hs obj st s \<longleftrightarrow>
     f < length (contents (ffs s)) \<and> file_data f s = fst st \<and>
     (\<forall>h \<in> hs. \<exists>acc hdr p dev fo.
        lookup_handle h (table (fnt s)) = Some \<lparr>body_addr = obj h, access = acc\<rparr> \<and>
        umap_find (obj h) (objects (nt_state.objs (fnt s))) =
          Some \<lparr>header = hdr, host = Some (File_host (Some f) p (snd st (obj h)) False dev fo)\<rparr>)"

text \<open>What a call leaves alone: everything but the file, the positions of its opens and the client's places.\<close>

definition file_keeps :: "nat \<Rightarrow> addr set \<Rightarrow> addr set \<Rightarrow> file_state \<Rightarrow> file_state \<Rightarrow> bool" where
  "file_keeps f A P s s' \<longleftrightarrow>
     fpool s' = fpool s \<and> console_out s' = console_out s \<and> table (fnt s') = table (fnt s) \<and>
     files (ffs s') = files (ffs s) \<and> dirs (ffs s') = dirs (ffs s) \<and>
     (\<forall>i. i \<noteq> f \<longrightarrow> file_data i s' = file_data i s) \<and>
     (\<forall>a. a \<notin> A \<longrightarrow> umap_find a (objects (nt_state.objs (fnt s'))) = umap_find a (objects (nt_state.objs (fnt s)))) \<and>
     (\<forall>x. x \<notin> P \<longrightarrow> gm (fnt s') x = gm (fnt s) x)"

lemma file_keeps_refl [simp]: "file_keeps f A P s s"
  by (simp add: file_keeps_def)

lemma file_keeps_trans: "file_keeps f A P s s' \<Longrightarrow> file_keeps f A P s' s'' \<Longrightarrow> file_keeps f A P s s''"
  by (simp add: file_keeps_def)

lemma shows_file_at:
  assumes "file_shows f hs obj (c, pos) s" and "h \<in> hs"
  shows "\<exists>p dev fo. file_at h s = Some (obj h, File_host (Some f) p (pos (obj h)) False dev fo)"
proof -
  from assms obtain acc hdr p dev fo where "lookup_handle h (table (fnt s)) = Some \<lparr>body_addr = obj h, access = acc\<rparr>"
    "umap_find (obj h) (objects (nt_state.objs (fnt s))) =
       Some \<lparr>header = hdr, host = Some (File_host (Some f) p (pos (obj h)) False dev fo)\<rparr>"
    unfolding file_shows_def by fastforce
  then show ?thesis by (simp add: file_at_def get_object_def)
qed

lemma set_position_shows:
  assumes "file_shows f hs obj (c, pos) s" and "h \<in> hs"
  shows "file_shows f hs obj (c, pos(obj h := v)) (set_position (obj h) v s) \<and>
    file_keeps f (obj ` hs) P s (set_position (obj h) v s) \<and> gm (fnt (set_position (obj h) v s)) = gm (fnt s)"
proof -
  from assms obtain hdr p dev fo where u: "umap_find (obj h) (objects (nt_state.objs (fnt s))) =
       Some \<lparr>header = hdr, host = Some (File_host (Some f) p (pos (obj h)) False dev fo)\<rparr>"
    unfolding file_shows_def by fastforce
  have "file_shows f hs obj (c, pos(obj h := v)) (set_position (obj h) v s)"
    unfolding file_shows_def
  proof (intro conjI ballI)
    fix h' assume "h' \<in> hs"
    with assms(1) obtain acc hdr' p' dev' fo' where "lookup_handle h' (table (fnt s)) = Some \<lparr>body_addr = obj h', access = acc\<rparr>"
      "umap_find (obj h') (objects (nt_state.objs (fnt s))) =
         Some \<lparr>header = hdr', host = Some (File_host (Some f) p' (pos (obj h')) False dev' fo')\<rparr>"
      unfolding file_shows_def by fastforce
    then show "\<exists>acc hdr p dev fo. lookup_handle h' (table (fnt (set_position (obj h) v s))) = Some \<lparr>body_addr = obj h', access = acc\<rparr> \<and>
        umap_find (obj h') (objects (nt_state.objs (fnt (set_position (obj h) v s)))) =
          Some \<lparr>header = hdr, host = Some (File_host (Some f) p (snd (c, pos(obj h := v)) (obj h')) False dev fo)\<rparr>"
      using u by (cases "obj h' = obj h") (auto simp: set_position_def Let_def umap_find_set)
  qed (use assms(1) u in \<open>auto simp: file_shows_def set_position_def file_data_def Let_def\<close>)
  then show ?thesis using u assms(2) by (auto simp: set_position_def Let_def file_keeps_def umap_find_set file_data_def)
qed

text \<open>Stores into the client's places.\<close>

definition client_places :: "addr \<Rightarrow> nat \<Rightarrow> addr \<Rightarrow> addr \<Rightarrow> addr set" where
  "client_places buf N cell block = span buf N \<union> span cell 8 \<union> span block 16"

definition client_store :: "addr \<Rightarrow> nat \<Rightarrow> addr \<Rightarrow> addr \<Rightarrow> file_state \<Rightarrow> file_state \<Rightarrow> bool" where
  "client_store buf N cell block s s' \<longleftrightarrow>
     (\<exists>g. s' = s\<lparr>fnt := (fnt s)\<lparr>gm := g\<rparr>\<rparr> \<and> client_ok buf N cell block g \<and>
       (\<forall>x. x \<notin> client_places buf N cell block \<longrightarrow> g x = gm (fnt s) x))"

lemma client_store_keeps:
  assumes "client_store buf N cell block s s'"
  shows "file_keeps f A (client_places buf N cell block) s s'" "file_shows f hs obj st s' = file_shows f hs obj st s"
    "client_ok buf N cell block (gm (fnt s'))" "file_at h s' = file_at h s" "file_data i s' = file_data i s"
  using assms
  by (auto simp: client_store_def file_keeps_def file_shows_def file_data_def file_at_def split: option.split)

lemma store_client:
  assumes "client_ok buf N cell block (gm (fnt s))" and "span a (length bs) \<subseteq> client_places buf N cell block"
    and "length bs < 2 ^ 64"
  shows "\<exists>s'. f_mem (g_write a bs) s = Inr s' \<and> client_store buf N cell block s s' \<and>
    g_read (length bs) a (gm (fnt s')) = Inr bs \<and>
    (\<forall>b n. span a (length bs) \<inter> span b n = {} \<longrightarrow> g_read n b (gm (fnt s')) = g_read n b (gm (fnt s)))"
proof -
  have "g_mapped (gm (fnt s)) a (length bs)"
    using assms(1,2) unfolding g_mapped_def client_ok_def client_places_def by blast
  then obtain g where g: "g_write a bs (gm (fnt s)) = Inr g" using g_write_total by blast
  have "client_ok buf N cell block g" using assms(1) g_write_mapped [OF g] by (simp add: client_ok_def)
  moreover have "\<forall>x. x \<notin> client_places buf N cell block \<longrightarrow> g x = gm (fnt s) x" using g_write_other [OF g] assms(2) by blast
  ultimately show ?thesis
    using g g_read_write_same [OF g assms(3)] g_read_write_other [OF g] by (auto simp: f_mem_def client_store_def)
qed

lemma offset_stored:
  assumes "client_ok buf N cell block (gm (fnt s))"
  shows "\<exists>s'. put_offset cell off s = Inr s' \<and> client_store buf N cell block s s' \<and>
    file_offset (if off = None then 0 else cell) position (gm (fnt s')) = Inr (where_at off position) \<and>
    (\<forall>n \<le> N. g_read n buf (gm (fnt s')) = g_read n buf (gm (fnt s)))"
proof (cases off)
  case None
  then show ?thesis
    using assms by (auto simp: put_offset_def file_offset_def where_at_def client_store_def intro: exI [of _ "gm (fnt s)"])
next
  case (Some v)
  have "span cell (length (le_enc 8 v)) \<subseteq> client_places buf N cell block" by (auto simp: client_places_def)
  from store_client [OF assms this] obtain s' where s': "f_mem (g_write cell (le_enc 8 v)) s = Inr s'"
    "client_store buf N cell block s s'" "g_read 8 cell (gm (fnt s')) = Inr (le_enc 8 v)"
    "\<forall>b n. span cell 8 \<inter> span b n = {} \<longrightarrow> g_read n b (gm (fnt s')) = g_read n b (gm (fnt s))" by auto
  have "span cell 8 \<inter> span buf n = {}" if "n \<le> N" for n
    using assms span_mono [OF that, of buf] by (auto simp: client_ok_def)
  moreover have "v <s 0" if "v = file_use_file_pointer_position \<or> v = file_write_to_end_of_file"
    using that by (auto simp: file_use_file_pointer_position_def file_write_to_end_of_file_def word_sless_alt)
  moreover have "g_get 8 cell (gm (fnt s')) = Inr v"
    using s'(3) by (simp add: g_get_def le_dec_enc take_bit_word_eq_self)
  moreover have "put_offset cell off s = Inr s'" using s'(1) Some by (simp add: put_offset_def f_mem_def g_put_def)
  moreover have "cell \<noteq> 0" using assms by (simp add: client_ok_def)
  ultimately show ?thesis using s'(2,4) Some by (auto simp: file_offset_def where_at_def)
qed

lemma answer_client:
  assumes "client_ok buf N cell block (gm (fnt s))"
  shows "\<exists>s'. answer block (st, info) s = Inr (st, s') \<and> client_store buf N cell block s s' \<and>
    g_get 8 (block + 8) (gm (fnt s')) = Inr info \<and> (\<forall>n \<le> N. g_read n buf (gm (fnt s')) = g_read n buf (gm (fnt s)))"
proof -
  let ?bs = "io_status st info"
  have l: "length ?bs = 16" by (simp add: io_status_def)
  have "span block (length ?bs) \<subseteq> client_places buf N cell block" by (auto simp: client_places_def l)
  from store_client [OF assms this] obtain s' where s': "f_mem (g_write block ?bs) s = Inr s'"
    "client_store buf N cell block s s'" "g_read 16 block (gm (fnt s')) = Inr ?bs"
    "\<forall>b n. span block 16 \<inter> span b n = {} \<longrightarrow> g_read n b (gm (fnt s')) = g_read n b (gm (fnt s))" by (auto simp: l)
  have "span block 16 \<inter> span buf n = {}" if "n \<le> N" for n
    using assms span_mono [OF that, of buf] by (auto simp: client_ok_def)
  moreover have "g_get 8 (block + 8) (gm (fnt s')) = Inr info"
    using g_read_sub [OF s'(3), of 8 8] by (simp add: g_get_def io_status_def le_dec_enc take_bit_word_eq_self)
  ultimately show ?thesis using s' assms by (auto simp: answer_def write_status_block_def client_ok_def)
qed

lemma copy_overlay:
  assumes "stop = at + length bs"
  shows "(if length c < stop then copy_into at bs (vec_resize stop c) else copy_into at bs c) = Inr (overlay at bs c)"
proof (cases "length c < stop")
  case True
  then show ?thesis using assms by (cases "at \<le> length c") (auto simp: copy_into_def vec_resize_def overlay_def)
next
  case False
  then show ?thesis using assms by (auto simp: copy_into_def overlay_def)
qed

lemma file_write_shows:
  assumes "file_shows f hs obj (c, pos) s"
  shows "file_shows f hs obj (d, pos) (s\<lparr>ffs := file_write f d (ffs s)\<rparr>) \<and>
    file_keeps f A P s (s\<lparr>ffs := file_write f d (ffs s)\<rparr>)"
  using assms by (auto simp: file_shows_def file_keeps_def file_write_def file_data_def)

lemma write_call:
  assumes "file_shows f hs obj (c, pos) s" and "client_ok buf N cell block (gm (fnt s))" and "file_ok hs obj N (Wr h off bs) (c, pos)"
  shows "\<exists>s'. file_call buf cell block (Wr h off bs) s = Inr (fst (file_spec obj (Wr h off bs) (c, pos)), s') \<and>
    (file_shows f hs obj (snd (file_spec obj (Wr h off bs) (c, pos))) s' \<and> client_ok buf N cell block (gm (fnt s'))) \<and>
    file_keeps f (obj ` hs) (client_places buf N cell block) s s'"
proof -
  let ?at = "where_at off (pos (obj h))" and ?P = "client_places buf N cell block" and ?len = "of_nat (length bs) :: u32"
  have h: "h \<in> hs" and n: "length bs \<le> N" "N < 2 ^ 32" and fits: "unat ?at + length bs < 2 ^ 64"
    using assms(2,3) by (auto simp: client_ok_def)
  have len: "unat ?len = length bs" "?len = 0 \<longleftrightarrow> bs = []" using n by (simp_all add: unat_of_nat word_unat_eq_iff)
  have "span buf (length bs) \<subseteq> ?P" using span_mono [OF n(1), of buf] by (auto simp: client_places_def)
  from store_client [OF assms(2) this] n obtain s1 where s1: "f_mem (g_write buf bs) s = Inr s1"
    "client_store buf N cell block s s1" "g_read (length bs) buf (gm (fnt s1)) = Inr bs" by auto
  note k1 = client_store_keeps [OF s1(2)]
  from offset_stored [OF k1(3), of off "pos (obj h)"] obtain s2 where s2: "put_offset cell off s1 = Inr s2"
    "client_store buf N cell block s1 s2"
    "file_offset (if off = None then 0 else cell) (pos (obj h)) (gm (fnt s2)) = Inr ?at"
    "g_read (length bs) buf (gm (fnt s2)) = Inr bs" using n(1) s1(3) by auto
  note k2 = client_store_keeps [OF s2(2)]
  have sh: "file_shows f hs obj (c, pos) s2" and kept: "file_keeps f (obj ` hs) ?P s s2"
    using assms(1) k1(2) k2(2) file_keeps_trans [OF k1(1) k2(1)] by simp_all
  then have data: "file_data f s2 = c" by (simp add: file_shows_def)
  obtain p dev fo where at: "file_at h s2 = Some (obj h, File_host (Some f) p (pos (obj h)) False dev fo)"
    using shows_file_at [OF sh h] by blast
  have buf: "buf \<noteq> 0" using assms(2) by (simp add: client_ok_def)
  show ?thesis
  proof (cases "bs = []")
    case True
    obtain s3 where s3: "answer block (STATUS_INVALID_PARAMETER, 0) s2 = Inr (STATUS_INVALID_PARAMETER, s3)"
      "client_store buf N cell block s2 s3" using answer_client [OF k2(3)] by blast
    note k3 = client_store_keeps [OF s3(2)]
    have "file_keeps f (obj ` hs) ?P s s3" using file_keeps_trans [OF kept k3(1)] .
    moreover have "WriteFile h block buf ?len (if off = None then 0 else cell) s2 = Inr (STATUS_INVALID_PARAMETER, s3)"
      using at len(2) True s3(1) by (simp add: WriteFile_def)
    ultimately show ?thesis using True s1(1) s2(1) k3(2,3) sh by (auto simp: Let_def)
  next
    case False
    let ?stop = "?at + of_nat (length bs)" and ?d = "overlay (unat ?at) bs c"
    have "unat (ucast ?len :: u64) = length bs"
      using len(1) n by (simp only: unsigned_ucast_eq) (simp add: take_bit_nat_eq_self)
    then have "ucast ?len = (of_nat (length bs) :: u64)" by (simp only: word_unat_eq_iff) (use n in \<open>simp add: unat_of_nat64\<close>)
    then have stop: "?at + ucast ?len = ?stop" "unat ?stop = unat ?at + length bs"
      using n fits unat_add_no_overflow [of ?at "of_nat (length bs)"] by (simp_all add: unat_of_nat64)
    let ?s3 = "s2\<lparr>ffs := file_write f ?d (ffs s2)\<rparr>" and ?s4 = "set_position (obj h) ?stop (s2\<lparr>ffs := file_write f ?d (ffs s2)\<rparr>)"
    note sh3 = file_write_shows [OF sh, of ?d "obj ` hs" ?P]
    note sh4 = set_position_shows [OF sh3 [THEN conjunct1] h, of ?stop ?P]
    have "client_ok buf N cell block (gm (fnt ?s4))" using sh4 k2(3) by simp
    from answer_client [OF this, of STATUS_SUCCESS "ucast ?len"] obtain s5 where
      s5: "answer block (STATUS_SUCCESS, ucast ?len) ?s4 = Inr (STATUS_SUCCESS, s5)" "client_store buf N cell block ?s4 s5" by blast
    note k5 = client_store_keeps [OF s5(2)]
    have "file_keeps f (obj ` hs) ?P s s5"
      using file_keeps_trans [OF kept] file_keeps_trans [OF sh3 [THEN conjunct2]] file_keeps_trans [OF _ k5(1)] sh4 by blast
    moreover have "WriteFile h block buf ?len (if off = None then 0 else cell) s2 = Inr (STATUS_SUCCESS, s5)"
      using at len False buf s2(3,4) s5(1) data copy_overlay [OF stop(2), of c]
      by (simp add: WriteFile_def Let_def stop(1) del: of_nat_eq_0_iff split: if_splits)
    ultimately show ?thesis using False s1(1) s2(1) k5(2,3) sh4 by (simp add: Let_def)
  qed
qed

lemma read_call:
  assumes "file_shows f hs obj (c, pos) s" and "client_ok buf N cell block (gm (fnt s))" and "file_ok hs obj N (Rd h off n) (c, pos)"
  shows "\<exists>s'. file_call buf cell block (Rd h off n) s = Inr (fst (file_spec obj (Rd h off n) (c, pos)), s') \<and>
    (file_shows f hs obj (snd (file_spec obj (Rd h off n) (c, pos))) s' \<and> client_ok buf N cell block (gm (fnt s'))) \<and>
    file_keeps f (obj ` hs) (client_places buf N cell block) s s'"
proof -
  let ?at = "where_at off (pos (obj h))" and ?P = "client_places buf N cell block" and ?o = "if off = None then 0 else cell"
  have h: "h \<in> hs" and n: "unat n \<le> N" "N < 2 ^ 32" using assms(2,3) by (auto simp: client_ok_def)
  from offset_stored [OF assms(2), of off "pos (obj h)"] obtain s1 where s1: "put_offset cell off s = Inr s1"
    "client_store buf N cell block s s1" "file_offset ?o (pos (obj h)) (gm (fnt s1)) = Inr ?at" by blast
  note k1 = client_store_keeps [OF s1(2)]
  have sh: "file_shows f hs obj (c, pos) s1" using assms(1) k1(2) by simp
  then have data: "file_data f s1 = c" by (simp add: file_shows_def)
  obtain p dev fo where at: "file_at h s1 = Some (obj h, File_host (Some f) p (pos (obj h)) False dev fo)"
    using shows_file_at [OF sh h] by blast
  have buf: "buf \<noteq> 0" using assms(2) by (simp add: client_ok_def)
  have codes: "STATUS_INVALID_PARAMETER \<noteq> STATUS_SUCCESS" "STATUS_END_OF_FILE \<noteq> STATUS_SUCCESS"
    by (simp_all add: status_defs)
  have refused: ?thesis if "st \<noteq> STATUS_SUCCESS" "ReadFile h block buf n ?o s1 = answer block (st, 0) s1"
    "file_spec obj (Rd h off n) (c, pos) = ((st, []), c, pos)" for st
  proof -
    obtain s2 where s2: "answer block (st, 0) s1 = Inr (st, s2)" "client_store buf N cell block s1 s2"
      using answer_client [OF k1(3)] by blast
    note k2 = client_store_keeps [OF s2(2)]
    show ?thesis using that s1(1) s2(1) sh k2(2,3) file_keeps_trans [OF k1(1) k2(1)] by auto
  qed
  consider "n = 0" | "n \<noteq> 0" "length c \<le> unat ?at" | "n \<noteq> 0" "unat ?at < length c" by linarith
  then show ?thesis
  proof cases
    case 1
    then show ?thesis using refused [OF codes(1)] at by (simp add: ReadFile_def Let_def)
  next
    case 2
    then show ?thesis using refused [OF codes(2)] at buf s1(3) data by (simp add: ReadFile_def Let_def)
  next
    case 3
    let ?bs = "take (unat n) (drop (unat ?at) c)" and ?k = "min (unat n) (length c - unat ?at)"
    have k: "length ?bs = ?k" "take ?k (drop (unat ?at) c) = ?bs" "?k \<le> N" using n(1) by (auto simp: min_def)
    have "span buf (length ?bs) \<subseteq> ?P" using span_mono [OF k(3), of buf] k(1) by (auto simp: client_places_def)
    from store_client [OF k1(3) this] k n(2) obtain s2 where s2: "f_mem (g_write buf ?bs) s1 = Inr s2"
      "client_store buf N cell block s1 s2" "g_read ?k buf (gm (fnt s2)) = Inr ?bs" by auto
    note k2 = client_store_keeps [OF s2(2)]
    let ?v = "?at + of_nat ?k" and ?s3 = "set_position (obj h) (?at + of_nat ?k) s2"
    have "file_shows f hs obj (c, pos) s2" using sh k2(2) by simp
    note sh3 = set_position_shows [OF this h, of ?v ?P]
    have "client_ok buf N cell block (gm (fnt ?s3))" using sh3 k2(3) by simp
    from answer_client [OF this, of STATUS_SUCCESS "of_nat ?k"] k(3) sh3 s2(3) obtain s4 where
      s4: "answer block (STATUS_SUCCESS, of_nat ?k) ?s3 = Inr (STATUS_SUCCESS, s4)" "client_store buf N cell block ?s3 s4"
      "g_get 8 (block + 8) (gm (fnt s4)) = Inr (of_nat ?k :: u64)" "g_read ?k buf (gm (fnt s4)) = Inr ?bs" by auto
    note k4 = client_store_keeps [OF s4(2)]
    have u: "unat (of_nat ?k :: u64) = ?k" using k(3) n(2) by (simp add: unat_of_nat64)
    have "file_keeps f (obj ` hs) ?P s s4"
      using file_keeps_trans [OF k1(1)] file_keeps_trans [OF k2(1)] file_keeps_trans [OF _ k4(1)] sh3 by blast
    moreover have "ReadFile h block buf n ?o s1 = Inr (STATUS_SUCCESS, s4)"
      using at buf 3 s1(3) data s2(1) s4(1) k(2) by (simp add: ReadFile_def Let_def)
    moreover have "file_spec obj (Rd h off n) (c, pos) = ((STATUS_SUCCESS, ?bs), c, pos(obj h := ?v))"
      using 3 k(1) by (simp add: Let_def)
    ultimately show ?thesis using s1(1) s4(3,4) u sh3 k4(2,3) by simp
  qed
qed

interpretation open_file_calls: simulation "file_call buf cell block" "file_spec obj"
    "\<lambda>st s. file_shows f hs obj st s \<and> client_ok buf N cell block (gm (fnt s))" "file_ok hs obj N"
    "file_keeps f (obj ` hs) (client_places buf N cell block)"
  for buf cell block obj f hs N
proof (unfold_locales, goal_cases)
  case (1 a s p)
  obtain c pos where a: "a = (c, pos)" by force
  show ?case
  proof (cases p)
    case (Wr h off bs)
    then show ?thesis using write_call [of f hs obj c pos s buf N cell block h off bs] 1 a by blast
  next
    case (Rd h off n)
    then show ?thesis using read_call [of f hs obj c pos s buf N cell block h off n] 1 a by blast
  qed
next
  case (3 s s' s'')
  then show ?case by (rule file_keeps_trans)
qed simp

section \<open>Properties\<close>

text \<open>
  C4: Whatever sequence of \<open>WriteFile\<close> and \<open>ReadFile\<close> is made through the handles of one file, at
  offsets of the callers' choice or at the positions of the opens, every call answers and every
  read returns what the specification of a file with one position per open says, and afterwards
  the file and the positions are those of the specification. Handles of the same open share its
  position. Nothing changes but this file, these positions, and the client's own memory.
\<close>

theorem file_calls_correct:
  assumes "file_shows f hs obj st s" and "client_ok buf N cell block (gm (fnt s))"
    and "admitted (file_spec obj) (file_ok hs obj N) ops st"
  shows "\<exists>s'. calls (file_call buf cell block) ops s = Inr (fst (outcome (file_spec obj) ops st), s') \<and>
    file_shows f hs obj (snd (outcome (file_spec obj) ops st)) s' \<and>
    file_keeps f (obj ` hs) (client_places buf N cell block) s s'"
  using open_file_calls.simulate_calls [of f hs obj st s buf N cell block ops] assms by blast

definition file_demo :: file_state where
  "file_demo = \<lparr>
     fnt = \<lparr>nt_state.objs = \<lparr>objects = [(0x9000, \<lparr>header = 0, host = Some (File_host (Some 0) ''c:/a'' 0 False 0 0)\<rparr>),
                                       (0x9100, \<lparr>header = 0, host = Some (File_host (Some 0) ''c:/a'' 0 False 0 0)\<rparr>)],
                            named = [], next_id = 4\<rparr>,
            table = \<lparr>handles = [(4, \<lparr>body_addr = 0x9000, access = 0\<rparr>), (8, \<lparr>body_addr = 0x9100, access = 0\<rparr>)],
                     next_handle = 12\<rparr>,
            gm = (\<lambda>x. if unat (x - 0x1000) < 0x100 then Some 0 else None), procthreads = [], current = None,
            yielded = False, woken = False\<rparr>,
     ffs = \<lparr>files = [(''c:/a'', 0)], contents = [[1, 2]], dirs = []\<rparr>, fpool = [], console_out = []\<rparr>"

definition demo_obj :: "u64 \<Rightarrow> addr" where
  "demo_obj h = (if h = 4 then 0x9000 else 0x9100)"

lemma file_demo_ok:
  "file_shows 0 {4, 8} demo_obj ([1, 2], \<lambda>_. 0) file_demo" "client_ok 0x1000 0x80 0x1090 0x10A0 (gm (fnt file_demo))"
proof -
  show "file_shows 0 {4, 8} demo_obj ([1, 2], \<lambda>_. 0) file_demo"
    by (simp add: file_shows_def file_demo_def file_data_def demo_obj_def lookup_handle_def umap_find_def)
  have "g_mapped (gm (fnt file_demo)) (0x1000 + of_nat i) n" if "i + n \<le> 0x100" for i n
    using span_offset [OF that, of "0x1000"] span_iff [of "0x100" _ "0x1000"] by (auto simp: g_mapped_def file_demo_def)
  from this [of 0 "0x80"] this [of "0x90" 8] this [of "0xA0" 16] show "client_ok 0x1000 0x80 0x1090 0x10A0 (gm (fnt file_demo))"
    using span_fields_apart [of 0 "0x80" "0x90" 8 "0x1000"] span_fields_apart [of 0 "0x80" "0xA0" 16 "0x1000"]
      span_fields_apart [of "0x90" 8 "0xA0" 16 "0x1000"]
    by (simp add: client_ok_def)
qed

theorem file_calls_correct_witness:
  "\<exists>s'. calls (file_call 0x1000 0x1090 0x10A0) [Wr 4 (Some 3) [7, 8], Rd 8 None 4, Rd 8 None 4, Rd 8 None 1] file_demo =
     Inr ([(STATUS_SUCCESS, []), (STATUS_SUCCESS, [1, 2, 0, 7]), (STATUS_SUCCESS, [8]), (STATUS_END_OF_FILE, [])], s') \<and>
     file_data 0 s' = [1, 2, 0, 7, 8]"
proof -
  let ?ops = "[Wr 4 (Some 3) [7, 8], Rd 8 None 4, Rd 8 None 4, Rd 8 None 1]"
  have spec: "admitted (file_spec demo_obj) (file_ok {4, 8} demo_obj 0x80) ?ops ([1, 2], \<lambda>_. 0)"
    "fst (outcome (file_spec demo_obj) ?ops ([1, 2], \<lambda>_. 0)) =
       [(STATUS_SUCCESS, []), (STATUS_SUCCESS, [1, 2, 0, 7]), (STATUS_SUCCESS, [8]), (STATUS_END_OF_FILE, [])]"
    "fst (snd (outcome (file_spec demo_obj) ?ops ([1, 2], \<lambda>_. 0))) = [1, 2, 0, 7, 8]"
    by (simp_all add: where_at_def overlay_def demo_obj_def word_sless_alt Let_def)
  from file_calls_correct [OF file_demo_ok spec(1)] obtain s' where
    "calls (file_call 0x1000 0x1090 0x10A0) ?ops file_demo = Inr (fst (outcome (file_spec demo_obj) ?ops ([1, 2], \<lambda>_. 0)), s')"
    "file_shows 0 {4, 8} demo_obj (snd (outcome (file_spec demo_obj) ?ops ([1, 2], \<lambda>_. 0))) s'" by blast
  then show ?thesis unfolding spec(2) file_shows_def spec(3) by blast
qed

section \<open>Where the code differs from what it says\<close>

text \<open>An append (\<open>FILE_WRITE_TO_END_OF_FILE\<close>) goes to the position of the open, over what is there.\<close>

lemma append_overwrites:
  "file_call 0x1000 0x1090 0x10A0 (Wr 4 (Some file_write_to_end_of_file) [9]) file_demo =
     Inr ((STATUS_SUCCESS, []), s') \<Longrightarrow> file_data 0 s' = [9, 2]"
proof -
  assume call: "file_call 0x1000 0x1090 0x10A0 (Wr 4 (Some file_write_to_end_of_file) [9]) file_demo = Inr ((STATUS_SUCCESS, []), s')"
  have ok: "file_ok {4, 8} demo_obj 0x80 (Wr 4 (Some file_write_to_end_of_file) [9]) ([1, 2], \<lambda>_. 0)"
    "fst (snd (file_spec demo_obj (Wr 4 (Some file_write_to_end_of_file) [9]) ([1, 2], \<lambda>_. 0))) = [9, 2]"
    by (simp_all add: where_at_def overlay_def demo_obj_def word_sless_alt file_write_to_end_of_file_def Let_def)
  from write_call [OF file_demo_ok ok(1)] call ok(2) show ?thesis by (auto simp: file_shows_def)
qed

text \<open>Asking for information about an open device follows the null pointer to its file.\<close>

lemma information_of_device:
  assumes "get_object as_file a (nt_state.objs (fnt s)) = Some (File_host None p position con dev fo)"
  shows "IoQueryFileInformation hash a info_class len information 0 s = throw Out_of_bounds"
  using assms by (simp add: IoQueryFileInformation_def write_file_information_def Let_def)

text \<open>A chain of links is followed eight names deep and no further, so a circle of links ends.\<close>

lemma find_device_sound:
  "find_device_from n name m = a \<Longrightarrow> a \<noteq> 0 \<Longrightarrow> get_object as_device a m \<noteq> None"
  by (induction n arbitrary: name) (auto simp: Let_def split: if_splits option.splits)

end
