(* ===== verification/Nt_Section.thy ===== *)
theory Nt_Section
  imports Nt_File
begin

text \<open>
  The section objects of \<open>kernel/win/modules/nt_vm_ops.cpp\<close>: making one over a file or over nothing,
  opening one by name, and asking for its size. Views of them are in \<open>Nt_Vm\<close>.
\<close>

definition sec_image :: u32 where "sec_image = 0x01000000"
definition section_body_size :: nat where "section_body_size = 0x40"
definition section_body_size_offset :: nat where "section_body_size_offset = 0x30"
definition section_basic_information :: u32 where "section_basic_information = 0"
definition shared_section_name :: string where
  "shared_section_name = [CHR 0x5C] @ ''Windows'' @ [CHR 0x5C] @ ''SharedSection''"
definition shared_section_size :: u64 where "shared_section_size = 0x10000"

text \<open>A section object, and a handle to it.\<close>

definition make_section :: "allocator \<Rightarrow> win_object \<Rightarrow> file_state \<Rightarrow> emu_error + addr \<times> file_state" where
  "make_section alloc hst s =
     bind_result (create_object alloc 0
         (Some (field_put section_body_size_offset 8 (to_size hst) (replicate section_body_size 0)))
         (of_nat section_body_size) (Some hst) kernel_rw (nt_state.objs (fnt s), gm (fnt s))) (\<lambda>(a, om, g).
       Inr (a, s\<lparr>fnt := (fnt s)\<lparr>nt_state.objs := om, gm := g\<rparr>\<rparr>))"

definition section_handle_for :: "addr \<Rightarrow> u32 \<Rightarrow> file_state \<Rightarrow> emu_error + u64 \<times> file_state" where
  "section_handle_for a acc s =
     bind_result (create_handle a acc (nt_state.objs (fnt s)) (table (fnt s), gm (fnt s))) (\<lambda>(h, t, g).
       Inr (h, s\<lparr>fnt := (fnt s)\<lparr>table := t, gm := g\<rparr>\<rparr>))"

definition CreateSection :: "allocator \<Rightarrow> addr \<Rightarrow> u32 \<Rightarrow> addr \<Rightarrow> addr \<Rightarrow> u32 \<Rightarrow> u64 \<Rightarrow> file_service" where
  "CreateSection alloc section_handle acc attributes maximum_size allocation_attributes file_handle s =
     (if section_handle = 0 then Inr (STATUS_INVALID_PARAMETER, s)
      else
        bind_result (attribute_name attributes (gm (fnt s))) (\<lambda>name.
        bind_result (if maximum_size \<noteq> 0 then g_get 8 maximum_size (gm (fnt s)) else Inr (0 :: u64)) (\<lambda>max_size.
        let is_image = (allocation_attributes AND sec_image \<noteq> 0);
            host = (if file_handle = 0 then Some (None, [])
                    else map_option (\<lambda>(a, f). (to_file f, to_path f)) (file_at file_handle s)) in
        case host of
          None \<Rightarrow> Inr (STATUS_INVALID_HANDLE, s)
        | Some (file, path) \<Rightarrow>
            if file \<noteq> None \<and> file_data (the file) s = [] then Inr (STATUS_MAPPED_FILE_SIZE_ZERO, s)
            else if file = None \<and> max_size <=s 0 then Inr (STATUS_INVALID_PARAMETER, s)
            else
              let sz = (case file of Some f \<Rightarrow> of_nat (length (file_data f s)) | None \<Rightarrow> max_size) in
              bind_result (make_section alloc (Section_host file path sz is_image []) s) (\<lambda>(a, s).
              if a = 0 then Inr (STATUS_INSUFFICIENT_RESOURCES, s)
              else
                bind_result (section_handle_for a acc s) (\<lambda>(h, s).
                bind_result (f_mem (g_put 8 section_handle h) s) (\<lambda>s. Inr (STATUS_SUCCESS, s)))))))"

text \<open>The system file a bare name, or one in the directory of known libraries, stands for.\<close>

definition known_dll :: "string \<Rightarrow> string option" where
  "known_dll name =
     (let base = rev (takeWhile (\<lambda>c. c \<noteq> CHR ''/'' \<and> c \<noteq> CHR 0x5C) (rev name));
          lower = map ascii_lower_char base in
      if 4 < length lower \<and> drop (length lower - 4) lower = ''.dll'' then Some (''c:/windows/system32/'' @ lower) else None)"

definition OpenSection :: "allocator \<Rightarrow> addr \<Rightarrow> u32 \<Rightarrow> addr \<Rightarrow> file_service" where
  "OpenSection alloc section_handle acc attributes s =
     bind_result (write_opt8 section_handle 0 s) (\<lambda>s.
     bind_result (attribute_name attributes (gm (fnt s))) (\<lambda>name.
     let key = object_namespace_key name;
         named = lookup_named_object key (nt_state.objs (fnt s));
         report = (\<lambda>a s.
           bind_result (section_handle_for a acc s) (\<lambda>(h, s).
           bind_result (write_opt8 section_handle h s) (\<lambda>s. Inr (STATUS_SUCCESS, s)))) in
     if name = shared_section_name then
       bind_result (make_section alloc (Section_host None name shared_section_size False []) s) (\<lambda>(a, s).
         if a = 0 then Inr (STATUS_INSUFFICIENT_RESOURCES, s) else report a s)
     else if key = ''/device/physicalmemory'' then Inr (STATUS_PRIVILEGE_NOT_HELD, s)
     else if named \<noteq> 0 \<and> get_object as_section named (nt_state.objs (fnt s)) \<noteq> None then report named s
     else
       case known_dll name of
         None \<Rightarrow> Inr (STATUS_OBJECT_NAME_NOT_FOUND, s)
       | Some path \<Rightarrow>
           (case fs_open path (ffs s) of
              None \<Rightarrow> Inr (STATUS_OBJECT_NAME_NOT_FOUND, s)
            | Some f \<Rightarrow>
                bind_result (make_section alloc
                    (Section_host (Some f) path (of_nat (length (file_data f s))) True []) s) (\<lambda>(a, s).
                  if a = 0 then Inr (STATUS_OBJECT_NAME_NOT_FOUND, s) else report a s))))"

definition section_info :: "bool \<Rightarrow> u64 \<Rightarrow> u8 list" where
  "section_info is_image sz = replicate 8 0 @ le_enc 4 (if is_image then sec_image else 0) @ replicate 4 0 @ le_enc 8 sz"

definition QuerySection :: "u64 \<Rightarrow> u32 \<Rightarrow> addr \<Rightarrow> u64 \<Rightarrow> addr \<Rightarrow> file_service" where
  "QuerySection section_handle info_class information len return_length s =
     (case get_handle_object as_section section_handle (nt_state.objs (fnt s)) (table (fnt s)) of
        None \<Rightarrow> Inr (STATUS_INVALID_HANDLE, s)
      | Some hst \<Rightarrow>
          if info_class \<noteq> section_basic_information then Inr (STATUS_INVALID_INFO_CLASS, s)
          else
            bind_result (write_opt8 return_length 0x18 s) (\<lambda>s.
            if len < 0x18 then Inr (STATUS_INFO_LENGTH_MISMATCH, s)
            else
              bind_result (f_mem (g_write information (section_info (to_is_image hst) (to_size hst))) s) (\<lambda>s.
                Inr (STATUS_SUCCESS, s))))"

text \<open>
  A section of no file whose size has the top bit set is refused, and so is one of an empty file.
\<close>

lemma create_section_needs_size:
  assumes "section_handle \<noteq> 0" and "attribute_name attributes (gm (fnt s)) = Inr name"
    and "maximum_size \<noteq> 0" and "g_get 8 maximum_size (gm (fnt s)) = Inr (n :: u64)" and "n <=s 0"
  shows "CreateSection alloc section_handle acc attributes maximum_size aa 0 s = Inr (STATUS_INVALID_PARAMETER, s)"
  using assms by (simp add: CreateSection_def Let_def)

text \<open>
  The path a known library is looked up by is one that the store may have: case does not matter, nor
  what stands before the last separator.
\<close>

lemma known_dll_name:
  assumes "4 < length base" and "CHR ''/'' \<notin> set base" and "CHR 0x5C \<notin> set base"
    and "map ascii_lower_char (drop (length base - 4) base) = ''.dll''"
  shows "known_dll base = Some (''c:/windows/system32/'' @ map ascii_lower_char base)"
    "c \<in> {CHR ''/'', CHR 0x5C} \<Longrightarrow> known_dll (dir @ [c] @ base) = known_dll base"
proof -
  have all: "takeWhile (\<lambda>c. c \<noteq> CHR ''/'' \<and> c \<noteq> CHR 0x5C) (rev base) = rev base"
    using assms(2,3) by (intro takeWhile_eq_all_conv [THEN iffD2]) auto
  then show "known_dll base = Some (''c:/windows/system32/'' @ map ascii_lower_char base)"
    unfolding known_dll_def Let_def all rev_rev_ident using assms(1,4) by (simp add: drop_map)
  show "known_dll (dir @ [c] @ base) = known_dll base" if "c \<in> {CHR ''/'', CHR 0x5C}"
  proof -
    have "takeWhile (\<lambda>c. c \<noteq> CHR ''/'' \<and> c \<noteq> CHR 0x5C) (rev base @ c # rev dir) = rev base"
      using that all by (subst takeWhile_append2) (use assms(2,3) in auto)
    then have "takeWhile (\<lambda>c. c \<noteq> CHR ''/'' \<and> c \<noteq> CHR 0x5C) (rev (dir @ [c] @ base)) = rev base" by simp
    then show ?thesis unfolding known_dll_def all by (simp only:)
  qed
qed

end
