(* ===== verification/Nt_Pool.thy ===== *)
theory Nt_Pool
  imports Pool_Memory
begin

text \<open>
  \<open>kernel/win/modules/nt_pool_ops.cpp\<close>: the pool as drivers call it. The older calls say what
  they want with a pool type and the newer ones with flags; all come down to one call that checks
  the flags. The memory unit is a parameter, as for the pool itself.
\<close>

section \<open>Flags\<close>

definition pool_flag_use_quota :: u64 where "pool_flag_use_quota = 0x001"
definition pool_flag_uninitialized :: u64 where "pool_flag_uninitialized = 0x002"
definition pool_flag_session :: u64 where "pool_flag_session = 0x004"
definition pool_flag_cache_aligned :: u64 where "pool_flag_cache_aligned = 0x008"
definition pool_flag_reserved1 :: u64 where "pool_flag_reserved1 = 0x010"
definition pool_flag_raise_on_failure :: u64 where "pool_flag_raise_on_failure = 0x020"
definition pool_flag_non_paged :: u64 where "pool_flag_non_paged = 0x040"
definition pool_flag_non_paged_exec :: u64 where "pool_flag_non_paged_exec = 0x080"
definition pool_flag_paged :: u64 where "pool_flag_paged = 0x100"
definition pool_flag_special_pool :: u64 where "pool_flag_special_pool = 0x200"
definition pool_flag_reserved3 :: u64 where "pool_flag_reserved3 = 0x400"
definition pool_flag_reserved4 :: u64 where "pool_flag_reserved4 = 0x800"

definition pool_flag_type_mask :: u64 where
  "pool_flag_type_mask = pool_flag_non_paged OR pool_flag_non_paged_exec OR pool_flag_paged"

lemmas pool_flag_defs = pool_flag_use_quota_def pool_flag_uninitialized_def pool_flag_session_def
  pool_flag_cache_aligned_def pool_flag_reserved1_def pool_flag_raise_on_failure_def pool_flag_non_paged_def
  pool_flag_non_paged_exec_def pool_flag_paged_def pool_flag_special_pool_def pool_flag_reserved3_def
  pool_flag_reserved4_def pool_flag_type_mask_def

definition default_pool_tag :: u32 where "default_pool_tag = 0x30656E6F"

definition pool_type_tag :: "u32 \<Rightarrow> u32" where
  "pool_type_tag t = (if t AND 0x7FFFFFFF \<noteq> 0 then t AND 0x7FFFFFFF else default_pool_tag)"

definition pool_type_paged :: u32 where "pool_type_paged = 0x001"
definition pool_type_cache_aligned :: u32 where "pool_type_cache_aligned = 0x004"
definition pool_type_raise_on_failure :: u32 where "pool_type_raise_on_failure = 0x010"
definition pool_type_session :: u32 where "pool_type_session = 0x020"
definition pool_type_reserved3 :: u32 where "pool_type_reserved3 = 0x040"
definition pool_type_special :: u32 where "pool_type_special = 0x080"
definition pool_type_nx :: u32 where "pool_type_nx = 0x200"
definition pool_type_zero :: u32 where "pool_type_zero = 0x400"

definition pool_flags_from_type :: "u32 \<Rightarrow> u64" where
  "pool_flags_from_type ty =
     (let flags = (if ty AND pool_type_paged \<noteq> 0 then pool_flag_paged
                   else if ty AND pool_type_nx \<noteq> 0 then pool_flag_non_paged else pool_flag_non_paged_exec);
          flags = (if ty AND pool_type_session \<noteq> 0 then flags OR pool_flag_session else flags);
          flags = (if ty AND pool_type_zero = 0 then flags OR pool_flag_uninitialized else flags);
          flags = (if ty AND pool_type_cache_aligned \<noteq> 0 then flags OR pool_flag_cache_aligned else flags);
          flags = (if ty AND pool_type_special \<noteq> 0 then flags OR pool_flag_special_pool else flags);
          flags = (if ty AND pool_type_reserved3 \<noteq> 0 then flags OR pool_flag_reserved3 else flags);
          flags = (if ty AND pool_type_raise_on_failure \<noteq> 0 then flags OR pool_flag_raise_on_failure else flags) in
      flags)"

definition flags_are_valid :: "u64 \<Rightarrow> u32 \<Rightarrow> bool" where
  "flags_are_valid flags t \<longleftrightarrow>
     (let type = flags AND pool_flag_type_mask in
      type \<noteq> 0 \<and> type AND (type - 1) = 0 \<and> flags AND 0xFFFFF000 = 0 \<and>
      flags AND pool_flag_reserved1 = 0 \<and> flags AND pool_flag_reserved4 = 0 \<and> t \<noteq> 0)"

section \<open>Services\<close>

type_synonym 'm pool_alloc = "u64 \<Rightarrow> mem_prot \<Rightarrow> 'm \<Rightarrow> emu_error + 'm \<times> addr"
type_synonym 'm pool_write = "addr \<Rightarrow> u8 list \<Rightarrow> 'm \<Rightarrow> emu_error + 'm"
type_synonym 'm pool_service = "'m \<times> pool \<Rightarrow> emu_error + ('m \<times> pool) \<times> addr"

definition ex_allocate :: "'m pool_alloc \<Rightarrow> 'm pool_write \<Rightarrow> u64 \<Rightarrow> u64 \<Rightarrow> u32 \<Rightarrow> 'm pool_service" where
  "ex_allocate alloc wr flags sz t st =
     (if \<not> flags_are_valid flags t then Inr (st, 0)
      else pool_allocate alloc wr sz t (flags AND pool_flag_uninitialized = 0) st)"

definition ex_release :: "addr \<Rightarrow> 'm \<times> pool \<Rightarrow> 'm \<times> pool" where
  "ex_release a = (\<lambda>(mem, p). if a = 0 then (mem, p) else (mem, fst (pool_free a p)))"

definition ExAllocatePool2 :: "'m pool_alloc \<Rightarrow> 'm pool_write \<Rightarrow> u64 \<Rightarrow> u64 \<Rightarrow> u32 \<Rightarrow> 'm pool_service" where
  "ExAllocatePool2 alloc wr flags sz t = ex_allocate alloc wr flags sz t"

definition ExAllocatePool3 :: "'m pool_alloc \<Rightarrow> 'm pool_write \<Rightarrow> u64 \<Rightarrow> u64 \<Rightarrow> u32 \<Rightarrow> 'm pool_service" where
  "ExAllocatePool3 alloc wr flags sz t = ex_allocate alloc wr flags sz t"

definition ExAllocatePoolWithTag :: "'m pool_alloc \<Rightarrow> 'm pool_write \<Rightarrow> u32 \<Rightarrow> u64 \<Rightarrow> u32 \<Rightarrow> 'm pool_service" where
  "ExAllocatePoolWithTag alloc wr ty sz t = ex_allocate alloc wr (pool_flags_from_type ty) sz (pool_type_tag t)"

definition ExAllocatePoolWithQuotaTag :: "'m pool_alloc \<Rightarrow> 'm pool_write \<Rightarrow> u32 \<Rightarrow> u64 \<Rightarrow> u32 \<Rightarrow> 'm pool_service" where
  "ExAllocatePoolWithQuotaTag alloc wr ty sz t =
     ex_allocate alloc wr (pool_flags_from_type ty OR pool_flag_use_quota) sz (pool_type_tag t)"

definition ExAllocatePool :: "'m pool_alloc \<Rightarrow> 'm pool_write \<Rightarrow> u32 \<Rightarrow> u64 \<Rightarrow> 'm pool_service" where
  "ExAllocatePool alloc wr ty sz = ex_allocate alloc wr (pool_flags_from_type ty) sz default_pool_tag"

definition ExFreePoolWithTag :: "addr \<Rightarrow> u32 \<Rightarrow> 'm \<times> pool \<Rightarrow> 'm \<times> pool" where
  "ExFreePoolWithTag a t = ex_release a"

definition ExFreePool :: "addr \<Rightarrow> 'm \<times> pool \<Rightarrow> 'm \<times> pool" where
  "ExFreePool a = ex_release a"

section \<open>What they promise\<close>

text \<open>Whatever pool type a driver passes is translated to flags that pass the check, and asks for zeroes as it says.\<close>

lemma type_flags_valid:
  "t \<noteq> 0 \<Longrightarrow> flags_are_valid (pool_flags_from_type ty) t"
  "t \<noteq> 0 \<Longrightarrow> flags_are_valid (pool_flags_from_type ty OR pool_flag_use_quota) t"
  unfolding flags_are_valid_def pool_flags_from_type_def Let_def
  by (simp_all add: pool_flag_defs)

lemma type_flags_zero:
  "pool_flags_from_type ty AND pool_flag_uninitialized = 0 \<longleftrightarrow> ty AND pool_type_zero \<noteq> 0"
  "(pool_flags_from_type ty OR pool_flag_use_quota) AND pool_flag_uninitialized = 0 \<longleftrightarrow> ty AND pool_type_zero \<noteq> 0"
  unfolding pool_flags_from_type_def Let_def
  by (simp_all add: pool_flag_defs)

lemma tag_nonzero: "pool_type_tag t \<noteq> 0" "default_pool_tag \<noteq> 0"
  by (simp_all add: pool_type_tag_def default_pool_tag_def)

text \<open>
  C15: A driver that allocates by pool type from the pool of an x86 address space is never refused
  for its flags: if the address space does not run out of memory it gets an address that was free,
  aligned to 16 bytes or to a page, and zeroed where the type asks for that; the allocation is
  recorded with the size asked for and the tag without its top bit. The other live allocations stay
  as they are. Freeing the address takes the allocation away again and no other, and freeing it
  once more changes nothing.
\<close>

theorem ex_pool_round_trip:
  assumes "run_inv mem" and "pool_ok (run_limit mem) m" and "unat sz + 0x3000 < 2 ^ 64" and "0 < unat sz"
    and "ExAllocatePoolWithTag (x86_alloc P) (x86_wr P) ty sz t (mem, m) = Inr ((mem', m'), a)"
  shows "a \<noteq> 0 \<and> allocated m a = None \<and> allocated m' = (allocated m)(a \<mapsto> (sz, pool_type_tag t)) \<and>
    (if 4096 \<le> unat sz then 4096 else 16) dvd unat a \<and> unat a + unat sz \<le> run_limit mem' \<and>
    (ty AND pool_type_zero \<noteq> 0 \<longrightarrow> (\<exists>mem1. x86_wr P a (replicate (unat sz) 0) mem1 = Inr mem')) \<and>
    run_inv mem' \<and> pool_ok (run_limit mem') m' \<and>
    (\<exists>m''. ExFreePoolWithTag a t' (mem', m') = (mem', m'') \<and> allocated m'' = allocated m \<and>
       pool_ok (run_limit mem') m'' \<and> ExFreePool a (mem', m'') = (mem', m''))"
proof -
  have "pool_allocate (x86_alloc P) (x86_wr P) sz (pool_type_tag t) (ty AND pool_type_zero \<noteq> 0) (mem, m) = Inr ((mem', m'), a)"
    using assms(5) type_flags_valid(1) [OF tag_nonzero(1)]
    by (simp add: ExAllocatePoolWithTag_def ex_allocate_def type_flags_zero)
  note al = x86_runs.allocate_correct [OF assms(1-4) this]
  obtain m'' where fr: "pool_free a m' = (m'', Some (sz, pool_type_tag t))" "pool_ok (run_limit mem') m''"
    "allocated m'' = (allocated m')(a := None)"
    using pool_free_correct [OF al(2), of a "(sz, pool_type_tag t)"] al(4) by auto
  then have "allocated m'' = allocated m" "pool_free a m'' = (m'', None)"
    using al(3,4) pool_free_absent [of m'' a] by (auto simp: fun_upd_idem)
  then show ?thesis using al fr by (simp add: ExFreePoolWithTag_def ExFreePool_def ex_release_def)
qed

theorem ex_pool_round_trip_witness:
  "\<exists>s sp mem' m'. x86_create_addr_space boot_mmu = Inr (s, sp) \<and>
     ExAllocatePoolWithTag (x86_alloc intel_ia32) (x86_wr intel_ia32) pool_type_nx 0x40 0xEB626174 ((s, sp), []) =
       Inr ((mem', m'), 0xFFFFF80000000000) \<and>
     allocated m' 0xFFFFF80000000000 = Some (0x40, 0x6B626174)"
proof -
  obtain s sp mem' m' where b: "x86_create_addr_space boot_mmu = Inr (s, sp)" "run_inv (s, sp)" "pool_ok (run_limit (s, sp)) []"
    and al: "pool_allocate (x86_alloc intel_ia32) (x86_wr intel_ia32) 0x40 0x6B626174 False ((s, sp), []) =
       Inr ((mem', m'), 0xFFFFF80000000000)"
    using x86_boot_pool by blast
  have t: "pool_type_tag 0xEB626174 = 0x6B626174" by (simp add: pool_type_tag_def)
  have "ExAllocatePoolWithTag (x86_alloc intel_ia32) (x86_wr intel_ia32) pool_type_nx 0x40 0xEB626174 ((s, sp), []) =
      Inr ((mem', m'), 0xFFFFF80000000000)"
    using al type_flags_valid(1) [OF tag_nonzero(1), of pool_type_nx "0xEB626174"]
    by (simp add: ExAllocatePoolWithTag_def ex_allocate_def type_flags_zero t pool_type_nx_def pool_type_zero_def)
  from ex_pool_round_trip [OF b(2,3) _ _ this] b(1) this t show ?thesis by auto
qed

text \<open>Flags above the low 32 bits pass the check, although none is defined there.\<close>

lemma high_flags_pass: "flags_are_valid (pool_flag_paged OR 0x100000000) 1"
  by (simp add: flags_are_valid_def pool_flag_defs)

end
