(* ===== verification/Nt_String.thy ===== *)
theory Nt_String
  imports Nt_Pool Nt_Object
begin

text \<open>
  \<open>kernel/win/modules/nt_string_ops.cpp\<close>: counted strings in guest memory. The calls that make a
  buffer take it from the pool, so their state is guest memory and the pool; the others only need
  memory. Strings of the guest are cut off after 4096 characters by \<open>guest::read_wstring\<close>.
\<close>

section \<open>Counted strings\<close>

definition string_bytes :: "u16 \<Rightarrow> u16 \<Rightarrow> addr \<Rightarrow> u8 list" where
  "string_bytes len maximum buffer = le_enc 2 len @ le_enc 2 maximum @ replicate 4 0 @ le_enc 8 buffer"

definition ansi_at :: "addr \<Rightarrow> gmem \<Rightarrow> emu_error + string" where
  "ansi_at a g =
     (if a = 0 then Inr []
      else bind_result (g_read 16 a g) (\<lambda>bs.
        read_ansi_string \<lparr>cs_Length = field_get 0 2 bs, cs_MaximumLength = field_get 2 2 bs,
          cs_Buffer = field_get 8 8 bs\<rparr> g))"

definition RtlInitUnicodeString :: "addr \<Rightarrow> addr \<Rightarrow> gmem \<Rightarrow> emu_error + gmem" where
  "RtlInitUnicodeString destination source g =
     (if destination = 0 then Inr g
      else if source = 0 then g_write destination (string_bytes 0 0 0) g
      else
        bind_result (read_wstring source default_max_chars g) (\<lambda>str.
        let len = of_nat (length str * 2) :: u16 in
          g_write destination (string_bytes len (len + 2) source) g))"

definition RtlInitAnsiString :: "addr \<Rightarrow> addr \<Rightarrow> gmem \<Rightarrow> emu_error + gmem" where
  "RtlInitAnsiString destination source g =
     (if destination = 0 then Inr g
      else if source = 0 then g_write destination (string_bytes 0 0 0) g
      else
        bind_result (read_string source default_max_chars g) (\<lambda>str.
        let len = of_nat (length str) :: u16 in
          g_write destination (string_bytes len (len + 1) source) g))"

section \<open>Comparisons\<close>

definition RtlCompareUnicodeString :: "addr \<Rightarrow> addr \<Rightarrow> bool \<Rightarrow> gmem \<Rightarrow> emu_error + int" where
  "RtlCompareUnicodeString string1 string2 case_insensitive g =
     bind_result (unicode_at string1 g) (\<lambda>a.
     bind_result (unicode_at string2 g) (\<lambda>b. Inr (compare_unicode a b case_insensitive)))"

definition RtlEqualUnicodeString :: "addr \<Rightarrow> addr \<Rightarrow> bool \<Rightarrow> gmem \<Rightarrow> emu_error + bool" where
  "RtlEqualUnicodeString string1 string2 case_insensitive g =
     bind_result (unicode_at string1 g) (\<lambda>a.
     bind_result (unicode_at string2 g) (\<lambda>b.
       Inr (length a = length b \<and> compare_unicode a b case_insensitive = 0)))"

definition RtlPrefixUnicodeString :: "addr \<Rightarrow> addr \<Rightarrow> bool \<Rightarrow> gmem \<Rightarrow> emu_error + bool" where
  "RtlPrefixUnicodeString prefix string case_insensitive g =
     bind_result (unicode_at prefix g) (\<lambda>a.
     bind_result (unicode_at string g) (\<lambda>b.
       Inr (length a \<le> length b \<and> compare_unicode a (take (length a) b) case_insensitive = 0)))"

definition RtlCompareString :: "addr \<Rightarrow> addr \<Rightarrow> bool \<Rightarrow> gmem \<Rightarrow> emu_error + int" where
  "RtlCompareString string1 string2 case_insensitive g =
     bind_result (ansi_at string1 g) (\<lambda>a.
     bind_result (ansi_at string2 g) (\<lambda>b.
     let r = (if case_insensitive then compare_count ascii_lower_char a b (min (length a) (length b)) else string_compare a b) in
       Inr (if r \<noteq> 0 then r else int (length a) - int (length b))))"

text \<open>\<open>std::mismatch\<close>: the length of the common prefix.\<close>

fun mismatch :: "'a list \<Rightarrow> 'a list \<Rightarrow> nat" where
  "mismatch (x # xs) (y # ys) = (if x = y then Suc (mismatch xs ys) else 0)"
| "mismatch _ _ = 0"

definition RtlCompareMemory :: "addr \<Rightarrow> addr \<Rightarrow> u64 \<Rightarrow> gmem \<Rightarrow> emu_error + u64" where
  "RtlCompareMemory source1 source2 len g =
     bind_result (g_read (unat len) source1 g) (\<lambda>a.
     bind_result (g_read (unat len) source2 g) (\<lambda>b. Inr (of_nat (mismatch a b))))"

section \<open>Conversions\<close>

definition put_opt :: "nat \<Rightarrow> addr \<Rightarrow> 'a::len word \<Rightarrow> gmem \<Rightarrow> emu_error + gmem" where
  "put_opt n p v g = (if p \<noteq> 0 then g_put n p v g else Inr g)"

definition RtlMultiByteToUnicodeN :: "addr \<Rightarrow> u32 \<Rightarrow> addr \<Rightarrow> addr \<Rightarrow> u32 \<Rightarrow> gmem \<Rightarrow> emu_error + NTSTATUS \<times> gmem" where
  "RtlMultiByteToUnicodeN unicode max_bytes bytes_out multi_byte bytes_in g =
     bind_result (if bytes_in \<noteq> 0 then g_read (unat bytes_in) multi_byte g else Inr []) (\<lambda>bs.
     let narrow = map (\<lambda>b. char_of (unat b)) bs;
         wide = widen_string (take (min (length narrow) (unat max_bytes div 2)) narrow) in
     bind_result (put_opt 4 bytes_out (of_nat (length wide * 2) :: u32) g) (\<lambda>g.
     bind_result (if unicode \<noteq> 0 \<and> wide \<noteq> [] then g_write unicode (chars_bytes 2 wide) g else Inr g) (\<lambda>g.
       Inr (STATUS_SUCCESS, g))))"

definition RtlUnicodeToUTF8N :: "addr \<Rightarrow> u32 \<Rightarrow> addr \<Rightarrow> addr \<Rightarrow> u32 \<Rightarrow> gmem \<Rightarrow> emu_error + NTSTATUS \<times> gmem" where
  "RtlUnicodeToUTF8N destination max_bytes bytes_out source bytes_in g =
     bind_result (if bytes_in \<noteq> 0 then g_read (unat bytes_in) source g else Inr []) (\<lambda>bs.
     let narrow = narrow_wstring (bytes_chars 2 (unat bytes_in div 2) bs);
         written = min (length narrow) (unat max_bytes) in
     bind_result (put_opt 4 bytes_out (of_nat written :: u32) g) (\<lambda>g.
     bind_result (if destination \<noteq> 0 \<and> written \<noteq> 0
                  then g_write destination (take written (map of_char narrow)) g else Inr g) (\<lambda>g.
       Inr (if written < length narrow then STATUS_BUFFER_TOO_SMALL else STATUS_SUCCESS, g))))"

definition ansi_latin1 :: u16 where "ansi_latin1 = 1252"
definition oem_us :: u16 where "oem_us = 437"

definition RtlGetDefaultCodePage :: "addr \<Rightarrow> addr \<Rightarrow> gmem \<Rightarrow> emu_error + gmem" where
  "RtlGetDefaultCodePage ansi oem g = bind_result (put_opt 2 ansi ansi_latin1 g) (put_opt 2 oem oem_us)"

section \<open>Strings with a buffer from the pool\<close>

definition string_pool_tag :: u32 where "string_pool_tag = 0x67727453"
definition max_counted_string_bytes :: nat where "max_counted_string_bytes = 0xFFFF"

type_synonym string_service = "gmem \<times> pool \<Rightarrow> emu_error + NTSTATUS \<times> gmem \<times> pool"

definition RtlAnsiStringToUnicodeString :: "gmem pool_alloc \<Rightarrow> addr \<Rightarrow> addr \<Rightarrow> bool \<Rightarrow> string_service" where
  "RtlAnsiStringToUnicodeString alloc destination source allocate = (\<lambda>(g, p).
     if destination = 0 \<or> source = 0 then Inr (STATUS_INVALID_PARAMETER, g, p)
     else
       bind_result (ansi_at source g) (\<lambda>narrow.
       let wide = widen_string narrow; len = length wide * 2; needed = len + 2 in
       if max_counted_string_bytes < needed then Inr (STATUS_INVALID_PARAMETER_2, g, p)
       else
         bind_result (g_read 16 destination g) (\<lambda>out.
         let finish = (\<lambda>maximum buffer g p.
               bind_result (g_write destination (field_put 0 2 (of_nat len :: u16) (field_put 2 2 maximum (field_put 8 8 buffer out))) g) (\<lambda>g.
               bind_result (write_wstring_buffer buffer (ucast (maximum :: u16) div 2) wide g) (\<lambda>g.
                 Inr (STATUS_SUCCESS, g, p)))) in
         if allocate then
           bind_result (pool_allocate alloc g_write (of_nat needed) string_pool_tag True (g, p)) (\<lambda>((g, p), buffer).
           if buffer = 0 then Inr (STATUS_NO_MEMORY, g, p)
           else finish (of_nat needed) buffer g p)
         else if unat (field_get 2 2 out :: u16) < needed then Inr (STATUS_BUFFER_OVERFLOW, g, p)
         else finish (field_get 2 2 out) (field_get 8 8 out) g p)))"

definition RtlFreeUnicodeString :: "addr \<Rightarrow> gmem \<times> pool \<Rightarrow> emu_error + gmem \<times> pool" where
  "RtlFreeUnicodeString string = (\<lambda>(g, p).
     if string = 0 then Inr (g, p)
     else
       bind_result (g_read 16 string g) (\<lambda>str.
       let buffer = field_get 8 8 str :: addr in
       if buffer = 0 then Inr (g, p)
       else bind_result (g_write string (string_bytes 0 0 0) g) (\<lambda>g. Inr (g, fst (pool_free buffer p)))))"

definition duplicate_null_terminate :: u32 where "duplicate_null_terminate = 1"
definition duplicate_allocate_null_string :: u32 where "duplicate_allocate_null_string = 2"

definition RtlDuplicateUnicodeString :: "gmem pool_alloc \<Rightarrow> u32 \<Rightarrow> addr \<Rightarrow> addr \<Rightarrow> string_service" where
  "RtlDuplicateUnicodeString alloc flags string_in string_out = (\<lambda>(g, p).
     if string_in = 0 \<or> string_out = 0 \<or> flags AND NOT (duplicate_null_terminate OR duplicate_allocate_null_string) \<noteq> 0
     then Inr (STATUS_INVALID_PARAMETER, g, p)
     else
       bind_result (unicode_at string_in g) (\<lambda>source.
       if source = [] \<and> flags AND duplicate_allocate_null_string = 0 then
         bind_result (g_write string_out (string_bytes 0 0 0) g) (\<lambda>g. Inr (STATUS_SUCCESS, g, p))
       else
         let len = length source * 2;
             needed = (if flags AND duplicate_null_terminate \<noteq> 0 then len + 2 else max len 2) in
         bind_result (pool_allocate alloc g_write (of_nat needed) string_pool_tag True (g, p)) (\<lambda>((g, p), buffer).
         if buffer = 0 then Inr (STATUS_NO_MEMORY, g, p)
         else
           bind_result (if source \<noteq> [] then g_write buffer (chars_bytes 2 source) g else Inr g) (\<lambda>g.
           bind_result (g_write string_out (string_bytes (of_nat len) (of_nat needed) buffer) g) (\<lambda>g.
             Inr (STATUS_SUCCESS, g, p))))))"

section \<open>What the comparisons mean\<close>

definition folded :: "bool \<Rightarrow> u16 list \<Rightarrow> u16 list" where
  "folded case_insensitive cs = (if case_insensitive then map ascii_lower_u16 cs else cs)"

lemma compare_unicode_folded: "compare_unicode a b ci = string_compare (folded ci a) (folded ci b)"
  by (simp add: compare_unicode_def folded_def compare_folded)

lemma length_folded [simp]: "length (folded ci a) = length a"
  by (simp add: folded_def)

lemma take_folded: "folded ci (take n a) = take n (folded ci a)"
  by (simp add: folded_def take_map)

lemma string_compare_0 [simp]: "string_compare a b = 0 \<longleftrightarrow> a = b"
  by (auto simp: string_compare_def)

lemma equal_unicode_string:
  assumes "unicode_at s1 g = Inr a" and "unicode_at s2 g = Inr b"
  shows "RtlEqualUnicodeString s1 s2 ci g = Inr (folded ci a = folded ci b)"
proof -
  have "folded ci a = folded ci b \<Longrightarrow> length a = length b" by (metis length_folded)
  then show ?thesis using assms by (auto simp: RtlEqualUnicodeString_def compare_unicode_folded)
qed

lemma prefix_unicode_string:
  assumes "unicode_at s1 g = Inr a" and "unicode_at s2 g = Inr b"
  shows "RtlPrefixUnicodeString s1 s2 ci g = Inr (\<exists>r. folded ci b = folded ci a @ r)"
proof -
  have "(length a \<le> length b \<and> folded ci a = take (length a) (folded ci b)) = (\<exists>r. folded ci b = folded ci a @ r)"
  proof
    assume "length a \<le> length b \<and> folded ci a = take (length a) (folded ci b)"
    then show "\<exists>r. folded ci b = folded ci a @ r" by (metis append_take_drop_id)
  next
    assume "\<exists>r. folded ci b = folded ci a @ r"
    then obtain r where "folded ci b = folded ci a @ r" by blast
    then show "length a \<le> length b \<and> folded ci a = take (length a) (folded ci b)"
      using length_folded [of ci b] by (simp del: length_folded) simp
  qed
  then show ?thesis using assms by (simp add: RtlPrefixUnicodeString_def compare_unicode_folded take_folded)
qed

lemma mismatch_common:
  "mismatch a b \<le> length a \<and> mismatch a b \<le> length b \<and> take (mismatch a b) a = take (mismatch a b) b \<and>
   (mismatch a b < length a \<longrightarrow> mismatch a b < length b \<longrightarrow> a ! mismatch a b \<noteq> b ! mismatch a b)"
  by (induction a b rule: mismatch.induct) auto

section \<open>What an initialised string names\<close>

lemma read_basic_string_bytes:
  fixes cs :: "'a::len word list"
  assumes "8 * n = LENGTH('a)"
  shows "read_basic_string n a m g = Inr cs \<Longrightarrow> g_read (length cs * n) a g = Inr (chars_bytes n cs) \<and> length cs \<le> m"
proof (induction m arbitrary: a cs)
  case (Suc m)
  show ?case
  proof (cases cs)
    case Nil
    then show ?thesis by (simp add: chars_bytes_def)
  next
    case (Cons c ds)
    with Suc.prems have c: "g_get n a g = Inr c" "read_basic_string n (a + of_nat n) m g = Inr ds"
      by (auto split: sum.splits if_splits)
    then obtain bs where bs: "g_read n a g = Inr bs" "c = le_dec bs" by (auto simp: g_get_def split: sum.splits)
    then have "le_enc n c = bs" using g_read_mapped [OF bs(1)] assms le_enc_dec [of bs, where 'a = 'a] by simp
    then show ?thesis using Suc.IH [OF c(2)] bs(1) Cons by (simp add: g_read_append chars_bytes_Cons)
  qed
qed (auto simp: chars_bytes_def)

lemma string_bytes_fields:
  "field_get 0 2 (string_bytes n k b) = n" "field_get 2 2 (string_bytes n k b) = k" "field_get 8 8 (string_bytes n k b) = b"
  by (simp_all add: field_get_def string_bytes_def le_dec_enc take_bit_word_eq_self)

lemma length_string_bytes [simp]: "length (string_bytes n k b) = 16"
  by (simp add: string_bytes_def)

text \<open>
  A counted string made from a terminated one reads as that string, up to the 4096 characters the
  program reads; its maximum length has room for the terminator.
\<close>

lemma init_unicode_string_names:
  assumes "read_wstring source default_max_chars g = Inr str" and "source \<noteq> 0" and "destination \<noteq> 0"
    and "RtlInitUnicodeString destination source g = Inr g'"
    and "span destination 16 \<inter> span source (length str * 2) = {}"
  shows "unicode_at destination g' = Inr str" "g_get 2 (destination + 2) g' = Inr (of_nat (length str * 2 + 2) :: u16)"
proof -
  let ?n = "of_nat (length str * 2) :: u16"
  have str: "g_read (length str * 2) source g = Inr (chars_bytes 2 str)" "length str \<le> 4096"
    using read_basic_string_bytes [of 2 source 4096 g str] assms(1) by (simp_all add: read_wstring_def default_max_chars_def)
  have w: "g_write destination (string_bytes ?n (?n + 2) source) g = Inr g'"
    using assms(1-4) by (simp add: RtlInitUnicodeString_def Let_def)
  have here: "g_read 16 destination g' = Inr (string_bytes ?n (?n + 2) source)" using g_read_write_same [OF w] by simp
  have "g_read (length str * 2) source g' = Inr (chars_bytes 2 str)"
    using g_read_write_other [OF w, of source "length str * 2"] str(1) assms(5) by simp
  moreover have "unat ?n = length str * 2" using str(2) by (simp only: unat_of_nat) simp
  ultimately show "unicode_at destination g' = Inr str"
    using here assms(2,3) bytes_chars_bytes [of 2 str] unat_eq_0 [of ?n]
    by (auto simp: unicode_at_def read_unicode_string_def read_counted_string_def string_bytes_fields simp del: of_nat_mult)
  show "g_get 2 (destination + 2) g' = Inr (of_nat (length str * 2 + 2) :: u16)"
    using g_get_field [OF here, of 2 2, where 'a = 16] string_bytes_fields(2) [of ?n "?n + 2" source] by simp
qed

end
