(* ===== verification/Nt_Vm.thy ===== *)
theory Nt_Vm
  imports User_Vm Unwind Filesystem Obj_Handles
begin

text \<open>
  The memory services of \<open>kernel/win/modules/nt_vm_ops.cpp\<close>, as a user program and as kernel code
  call them, over any memory unit. For a user process they go to its \<open>win_user_mem\<close>; otherwise to the
  address space itself, whose exceptions are caught: there the unit says how it leaves the space
  behind as well. Laying out an image, its preferred base and telling drivers of a load are
  arguments.
\<close>

section \<open>State\<close>

record 'm vm_unit =
  pages :: "'m mem_ops"
  vrd :: "nat \<Rightarrow> addr \<Rightarrow> 'm \<Rightarrow> emu_error + u8 list"
  vwr :: "addr \<Rightarrow> u8 list \<Rightarrow> 'm \<Rightarrow> emu_error + 'm"
  try_alloc :: "u64 \<Rightarrow> mem_prot \<Rightarrow> 'm \<Rightarrow> (emu_error + addr) \<times> 'm"
  try_unmap :: "addr \<Rightarrow> u64 \<Rightarrow> 'm \<Rightarrow> emu_error option \<times> 'm"
  try_prot :: "addr \<Rightarrow> u64 \<Rightarrow> mem_prot \<Rightarrow> 'm \<Rightarrow> emu_error option \<times> 'm"

record 'm vm_state =
  umem :: "'m user_mem"
  is_user :: bool
  vobjs :: obj_manager
  vtable :: handle_table
  vfs :: filesystem
  views :: "(addr \<times> u64) list"
  vmods :: "unit proc_module list"

type_synonym 'm vm_service = "'m vm_state \<Rightarrow> emu_error + NTSTATUS \<times> 'm vm_state"

definition mdl_page_size :: u64 where "mdl_page_size = 0x1000"

definition mdl_page_base :: "addr \<Rightarrow> addr" where
  "mdl_page_base a = a AND NOT (mdl_page_size - 1)"

definition vm_round :: "u64 \<Rightarrow> u64" where
  "vm_round n = (n + mdl_page_size - 1) AND NOT (mdl_page_size - 1)"

definition current_process_handle :: u64 where "current_process_handle = NOT 0"

definition is_current_process :: "u64 \<Rightarrow> bool" where
  "is_current_process handle \<longleftrightarrow> handle = 0 \<or> handle = current_process_handle"

definition prot_from_page :: "u32 \<Rightarrow> mem_prot" where
  "prot_from_page protect =
     (let p = protect AND 0xFF in
      if p = page_noaccess then 0
      else if p = page_readonly then prot_read
      else if p = page_readwrite \<or> p = page_writecopy then prot_rw
      else if p = page_execute then prot_exec
      else if p = page_execute_read then prot_rx
      else if p = page_execute_readwrite \<or> p = page_execute_writecopy then prot_rwx
      else prot_rw)"

definition page_from_prot :: "mem_prot \<Rightarrow> u32" where
  "page_from_prot prot =
     (let w = (prot AND prot_write \<noteq> 0); x = (prot AND prot_exec \<noteq> 0) in
      if prot AND prot_read = 0 then page_noaccess
      else if x then if w then page_execute_readwrite else page_execute_read
      else if w then page_readwrite else page_readonly)"

section \<open>Guest memory of the caller\<close>

definition vget :: "'m vm_unit \<Rightarrow> nat \<Rightarrow> addr \<Rightarrow> 'm vm_state \<Rightarrow> emu_error + 'a::len word" where
  "vget M n a s = bind_result (vrd M n a (mach (umem s))) (\<lambda>bs. Inr (le_dec bs))"

definition vput_bytes :: "'m vm_unit \<Rightarrow> addr \<Rightarrow> u8 list \<Rightarrow> 'm vm_state \<Rightarrow> emu_error + 'm vm_state" where
  "vput_bytes M a bs s = bind_result (vwr M a bs (mach (umem s))) (\<lambda>m. Inr (s\<lparr>umem := (umem s)\<lparr>mach := m\<rparr>\<rparr>))"

definition vput :: "'m vm_unit \<Rightarrow> nat \<Rightarrow> addr \<Rightarrow> 'a::len word \<Rightarrow> 'm vm_state \<Rightarrow> emu_error + 'm vm_state" where
  "vput M n a v s = vput_bytes M a (le_enc n v) s"

definition vput_opt :: "'m vm_unit \<Rightarrow> nat \<Rightarrow> addr \<Rightarrow> 'a::len word \<Rightarrow> 'm vm_state \<Rightarrow> emu_error + 'm vm_state" where
  "vput_opt M n a v s = (if a \<noteq> 0 then vput M n a v s else Inr s)"

definition set_mach :: "'m \<Rightarrow> 'm vm_state \<Rightarrow> 'm vm_state" where
  "set_mach m s = s\<lparr>umem := (umem s)\<lparr>mach := m\<rparr>\<rparr>"

section \<open>Services\<close>

definition AllocateVirtualMemory :: "'m vm_unit \<Rightarrow> u64 \<Rightarrow> addr \<Rightarrow> addr \<Rightarrow> u32 \<Rightarrow> u32 \<Rightarrow> 'm vm_service" where
  "AllocateVirtualMemory M process base_ptr size_ptr alloc_type protect s =
     (if \<not> is_current_process process then Inr (STATUS_INVALID_HANDLE, s)
      else if base_ptr = 0 \<or> size_ptr = 0 then Inr (STATUS_INVALID_PARAMETER, s)
      else
        bind_result (vget M 8 size_ptr s) (\<lambda>requested.
        if requested = (0 :: u64) then Inr (STATUS_INVALID_PARAMETER, s)
        else
          bind_result (vget M 8 base_ptr s) (\<lambda>wanted.
          let sz = vm_round requested in
          if alloc_type AND (mem_commit OR mem_reserve) = 0 then Inr (STATUS_INVALID_PARAMETER, s)
          else if is_user s then
            bind_result (um_allocate (pages M) wanted sz alloc_type protect 0 (umem s)) (\<lambda>(u, st, base, region).
            let s = s\<lparr>umem := u\<rparr> in
            if st \<noteq> STATUS_SUCCESS then Inr (st, s)
            else
              bind_result (vput M 8 base_ptr base s) (\<lambda>s.
              bind_result (vput M 8 size_ptr region s) (\<lambda>s. Inr (STATUS_SUCCESS, s))))
          else
            case try_alloc M sz (prot_from_page protect OR prot_supervisor) (mach (umem s)) of
              (Inl e, m) \<Rightarrow> Inr (STATUS_NO_MEMORY, set_mach m s)
            | (Inr a, m) \<Rightarrow>
                let s = set_mach m s in
                if a = 0 then Inr (STATUS_NO_MEMORY, s)
                else
                  bind_result (vput M 8 base_ptr a s) (\<lambda>s.
                  bind_result (vput M 8 size_ptr sz s) (\<lambda>s. Inr (STATUS_SUCCESS, s))))))"

definition FreeVirtualMemory :: "'m vm_unit \<Rightarrow> u64 \<Rightarrow> addr \<Rightarrow> addr \<Rightarrow> u32 \<Rightarrow> 'm vm_service" where
  "FreeVirtualMemory M process base_ptr size_ptr free_type s =
     (if \<not> is_current_process process then Inr (STATUS_INVALID_HANDLE, s)
      else if base_ptr = 0 then Inr (STATUS_INVALID_PARAMETER, s)
      else
        bind_result (vget M 8 base_ptr s) (\<lambda>given.
        let base = mdl_page_base given in
        bind_result (if size_ptr \<noteq> 0 then vget M 8 size_ptr s else Inr (0 :: u64)) (\<lambda>sz.
        if is_user s then
          bind_result (um_free (pages M) base sz free_type (umem s)) (\<lambda>(u, st, start, region).
          let s = s\<lparr>umem := u\<rparr> in
          if st \<noteq> STATUS_SUCCESS then Inr (st, s)
          else
            bind_result (vput M 8 base_ptr start s) (\<lambda>s.
            bind_result (vput_opt M 8 size_ptr region s) (\<lambda>s. Inr (STATUS_SUCCESS, s))))
        else if free_type AND mem_release \<noteq> 0 \<and> sz \<noteq> 0 then Inr (STATUS_INVALID_PARAMETER, s)
        else
          let sz = (if free_type AND mem_release \<noteq> 0 then mdl_page_size else sz) in
          if sz = 0 then Inr (STATUS_INVALID_PARAMETER, s)
          else
            let (e, m) = try_unmap M base sz (mach (umem s)); s = set_mach m s in
            if e \<noteq> None then Inr (STATUS_MEMORY_NOT_ALLOCATED, s)
            else bind_result (vput_opt M 8 size_ptr sz s) (\<lambda>s. Inr (STATUS_SUCCESS, s)))))"

definition ProtectVirtualMemory :: "'m vm_unit \<Rightarrow> u64 \<Rightarrow> addr \<Rightarrow> addr \<Rightarrow> u32 \<Rightarrow> addr \<Rightarrow> 'm vm_service" where
  "ProtectVirtualMemory M process base_ptr size_ptr new_protect old_ptr s =
     (if \<not> is_current_process process then Inr (STATUS_INVALID_HANDLE, s)
      else if base_ptr = 0 \<or> size_ptr = 0 then Inr (STATUS_INVALID_PARAMETER, s)
      else
        bind_result (vget M 8 base_ptr s) (\<lambda>requested.
        let base = mdl_page_base requested in
        bind_result (vget M 8 size_ptr s) (\<lambda>asked.
        let sz = vm_round (asked + (requested - base)) in
        if is_user s then
          bind_result (um_protect (pages M) base sz new_protect (umem s)) (\<lambda>(u, st, start, region, previous).
          let s = s\<lparr>umem := u\<rparr> in
          if st \<noteq> STATUS_SUCCESS then Inr (st, s)
          else
            bind_result (vput_opt M 4 old_ptr previous s) (\<lambda>s.
            bind_result (vput M 8 base_ptr start s) (\<lambda>s.
            bind_result (vput M 8 size_ptr region s) (\<lambda>s. Inr (STATUS_SUCCESS, s)))))
        else
          bind_result (vput_opt M 4 old_ptr page_readwrite s) (\<lambda>s.
          let (e, m) = try_prot M base sz (prot_from_page new_protect OR prot_supervisor) (mach (umem s)); s = set_mach m s in
          if e \<noteq> None then Inr (STATUS_INVALID_ADDRESS, s)
          else
            bind_result (vput M 8 base_ptr base s) (\<lambda>s.
            bind_result (vput M 8 size_ptr sz s) (\<lambda>s. Inr (STATUS_SUCCESS, s)))))))"

section \<open>Queries\<close>

definition memory_basic_information :: u32 where "memory_basic_information = 0"
definition memory_working_set_ex_information :: u32 where "memory_working_set_ex_information = 4"
definition memory_image_information :: u32 where "memory_image_information = 6"
definition memory_image_extension_information :: u32 where "memory_image_extension_information = 14"
definition working_set_valid :: u64 where "working_set_valid = 1"
definition working_set_protection_shift :: nat where "working_set_protection_shift = 4"
definition mem_state_commit :: u32 where "mem_state_commit = 0x1000"
definition mem_state_free :: u32 where "mem_state_free = 0x10000"
definition mem_type_private :: u32 where "mem_type_private = 0x20000"

definition info_bytes :: "memory_basic_info \<Rightarrow> u8 list" where
  "info_bytes i = le_enc 8 (base_address i) @ le_enc 8 (allocation_base i) @ le_enc 4 (allocation_protect i) @
     le_enc 4 (partition_id i) @ le_enc 8 (region_size i) @ le_enc 4 (mbi_state i) @ le_enc 4 (mbi_protect i) @
     le_enc 4 (mbi_type i) @ replicate 4 0"

text \<open>One structure of the working set query after the other, \<open>n\<close> of them.\<close>

fun working_set :: "'m vm_unit \<Rightarrow> nat \<Rightarrow> addr \<Rightarrow> 'm vm_state \<Rightarrow> emu_error + 'm vm_state" where
  "working_set M 0 a s = Inr s"
| "working_set M (Suc n) a s =
     bind_result (vrd M 16 a (mach (umem s))) (\<lambda>bs.
     let page = mdl_page_base (field_get 0 8 bs);
         attributes = (if virt_to_phys (pages M) page (mach (umem s)) \<noteq> None
                       then working_set_valid OR push_bit working_set_protection_shift (ucast page_execute_readwrite)
                       else 0 :: u64) in
     bind_result (vput_bytes M a (field_put 8 8 attributes bs) s) (working_set M n (a + 16)))"

definition QueryVirtualMemory :: "'m vm_unit \<Rightarrow> u64 \<Rightarrow> addr \<Rightarrow> u32 \<Rightarrow> addr \<Rightarrow> u64 \<Rightarrow> addr \<Rightarrow> 'm vm_service" where
  "QueryVirtualMemory M process a info_class information len return_length s =
     (if \<not> is_current_process process then Inr (STATUS_INVALID_HANDLE, s)
      else if info_class = memory_working_set_ex_information then
        let count = len div 16 in
        bind_result (vput_opt M 8 return_length (count * 16) s) (\<lambda>s.
        if count = 0 then Inr (STATUS_INFO_LENGTH_MISMATCH, s)
        else bind_result (working_set M (unat count) information s) (\<lambda>s. Inr (STATUS_SUCCESS, s)))
      else if info_class = memory_image_information then
        bind_result (vput_opt M 8 return_length (0x18 :: u64) s) (\<lambda>s.
        if len < 0x18 then Inr (STATUS_INFO_LENGTH_MISMATCH, s)
        else case find_module_by_addr (vmods s) a of
          None \<Rightarrow> Inr (STATUS_INVALID_ADDRESS, s)
        | Some md \<Rightarrow>
            bind_result (vput_bytes M information (le_enc 8 (mod_addr md) @ le_enc 8 (mod_size md) @ replicate 8 0) s) (\<lambda>s.
              Inr (STATUS_SUCCESS, s)))
      else if info_class = memory_image_extension_information then
        bind_result (vput_opt M 8 return_length (0 :: u64) s) (\<lambda>s. Inr (STATUS_NOT_SUPPORTED, s))
      else if info_class \<noteq> memory_basic_information then Inr (STATUS_INVALID_INFO_CLASS, s)
      else
        bind_result (vput_opt M 8 return_length (0x30 :: u64) s) (\<lambda>s.
        if len < 0x30 then Inr (STATUS_INFO_LENGTH_MISMATCH, s)
        else if is_user s then
          let (st, info) = um_query a (umem s) in
          if st \<noteq> STATUS_SUCCESS then Inr (st, s)
          else bind_result (vput_bytes M information (info_bytes info) s) (\<lambda>s. Inr (STATUS_SUCCESS, s))
        else
          let base = mdl_page_base a; mapped = (virt_to_phys (pages M) base (mach (umem s)) \<noteq> None) in
          bind_result (vput_bytes M information (info_bytes
              \<lparr>base_address = base, allocation_base = (if mapped then base else 0),
               allocation_protect = (if mapped then page_readwrite else 0), partition_id = 0,
               region_size = mdl_page_size, mbi_state = (if mapped then mem_state_commit else mem_state_free),
               mbi_protect = (if mapped then page_readwrite else 0),
               mbi_type = (if mapped then mem_type_private else 0)\<rparr>) s) (\<lambda>s.
            Inr (STATUS_SUCCESS, s))))"

section \<open>Views of sections\<close>

fun section_of :: "win_object \<Rightarrow> (nat option \<times> string \<times> u64 \<times> bool) option" where
  "section_of (Section_host f p sz im v) = Some (f, p, sz, im)"
| "section_of _ = None"

text \<open>\<open>host->path.substr(host->path.find_last_of("\\/") + 1)\<close>.\<close>

definition file_label :: "string \<Rightarrow> string" where
  "file_label path = rev (takeWhile (\<lambda>c. c \<noteq> CHR 0x5C \<and> c \<noteq> CHR ''/'') (rev path))"

record 'm image_world =
  pe_virtual_image :: "u8 list \<Rightarrow> u8 list"
  image_base :: "u8 list \<Rightarrow> addr"
  notify_image_load :: "addr \<Rightarrow> u64 \<Rightarrow> string \<Rightarrow> 'm vm_state \<Rightarrow> emu_error + 'm vm_state"

definition view_room :: "'m vm_unit \<Rightarrow> u64 \<Rightarrow> bool \<Rightarrow> u32 \<Rightarrow> 'm vm_state \<Rightarrow> emu_error + addr \<times> 'm vm_state" where
  "view_room M sz is_image protect s =
     (if is_user s then
        bind_result (alloc_pages (pages M) sz (if is_image then page_execute_readwrite else protect) (umem s)) (\<lambda>(u, base).
          Inr (base, s\<lparr>umem := u\<rparr>))
      else
        case try_alloc M sz (prot_from_page protect OR prot_supervisor) (mach (umem s)) of
          (Inl e, m) \<Rightarrow> throw e
        | (Inr base, m) \<Rightarrow> Inr (base, set_mach m s))"

definition MapViewOfSection :: "'m vm_unit \<Rightarrow> 'm image_world \<Rightarrow> u64 \<Rightarrow> u64 \<Rightarrow> addr \<Rightarrow> addr \<Rightarrow> addr \<Rightarrow> u32 \<Rightarrow> 'm vm_service" where
  "MapViewOfSection M W section_handle process base_ptr offset_ptr size_ptr protect s =
     (if \<not> is_current_process process then Inr (STATUS_INVALID_HANDLE, s)
      else case get_handle_object section_of section_handle (vobjs s) (vtable s) of
        None \<Rightarrow> Inr (STATUS_INVALID_HANDLE, s)
      | Some (file, path, section_size, is_image) \<Rightarrow>
          bind_result (if offset_ptr \<noteq> 0 then vget M 8 offset_ptr s else Inr (0 :: u64)) (\<lambda>offset.
          if section_size \<le> offset then Inr (STATUS_INVALID_PARAMETER, s)
          else
            bind_result (if size_ptr \<noteq> 0 then vget M 8 size_ptr s else Inr (0 :: u64)) (\<lambda>asked.
            let sz = min (if asked = 0 then section_size - offset else asked) (section_size - offset);
                data = (case file of Some f \<Rightarrow> contents (vfs s) ! f | None \<Rightarrow> []);
                image = (if is_image \<and> file \<noteq> None then pe_virtual_image W data else []) in
            if is_image \<and> file = None then Inr (STATUS_INVALID_FILE_FOR_SECTION, s)
            else if is_image \<and> image = [] then Inr (STATUS_INVALID_IMAGE_FORMAT, s)
            else if is_image \<and> offset \<noteq> 0 then Inr (STATUS_INVALID_PARAMETER, s)
            else
              let sz = (if is_image then of_nat (length image) else sz);
                  preferred = (if image \<noteq> [] then image_base W image else 0) in
              bind_result (view_room M sz is_image protect s) (\<lambda>(base, s).
              if base = 0 then Inr (STATUS_INSUFFICIENT_RESOURCES, s)
              else
                bind_result
                  (if image \<noteq> [] then
                     bind_result (vput_bytes M base image s) (\<lambda>s.
                       Inr (if is_user s then s\<lparr>umem := register_image base sz (umem s)\<rparr> else s))
                   else
                     let copied = take (unat sz) (drop (unat offset) data) in
                     if copied \<noteq> [] then vput_bytes M base copied s else Inr s) (\<lambda>s.
                bind_result (vput_opt M 8 base_ptr base s) (\<lambda>s.
                bind_result (vput_opt M 8 size_ptr sz s) (\<lambda>s.
                let s = s\<lparr>views := umap_set base sz (views s)\<rparr> in
                bind_result (if is_image then notify_image_load W base sz (file_label path) s else Inr s) (\<lambda>s.
                  Inr (if preferred \<noteq> 0 \<and> base \<noteq> preferred then STATUS_IMAGE_NOT_AT_BASE else STATUS_SUCCESS, s)))))))))"

definition UnmapViewOfSection :: "'m vm_unit \<Rightarrow> u64 \<Rightarrow> addr \<Rightarrow> 'm vm_service" where
  "UnmapViewOfSection M process base s =
     (if \<not> is_current_process process then Inr (STATUS_INVALID_HANDLE, s)
      else case umap_find base (views s) of
        None \<Rightarrow> Inr (STATUS_INVALID_PARAMETER, s)
      | Some sz \<Rightarrow>
          bind_result (unmap_virt (pages M) base sz (mach (umem s))) (\<lambda>m.
            Inr (STATUS_SUCCESS, (set_mach m s)\<lparr>views := umap_erase base (views s)\<rparr>)))"

section \<open>What a caller gets\<close>

lemma vm_round_align: "vm_round n = size_align n"
  by (simp add: vm_round_def size_align_def mdl_page_size_def page_size_def)

lemma size_align_idem: "size_align (size_align n) = size_align n"
  using page_aligned_size_align [of n] by (rule size_align_aligned)

lemma books_mach [simp]: "books_ok hi (u\<lparr>mach := m\<rparr>) = books_ok hi u"
  by (simp add: books_ok_def)

lemma page_state_mach [simp]: "page_state (u\<lparr>mach := m\<rparr>) a = page_state u a"
  by (simp add: page_state_def)

lemma allocate_in_user:
  assumes "is_user s" and "is_current_process process" and "base_ptr \<noteq> 0" and "size_ptr \<noteq> 0"
    and "vget M 8 base_ptr s = Inr wanted" and "vget M 8 size_ptr s = Inr requested" and "requested \<noteq> 0"
    and "alloc_type AND (mem_commit OR mem_reserve) \<noteq> 0"
    and "AllocateVirtualMemory M process base_ptr size_ptr alloc_type protect s = Inr (st, s')"
  shows "\<exists>u base region. um_allocate (pages M) wanted (size_align requested) alloc_type protect 0 (umem s) = Inr (u, st, base, region) \<and>
    (if st = STATUS_SUCCESS
     then \<exists>m. vwr M base_ptr (le_enc 8 base) (mach u) = Inr m \<and>
       (\<exists>m'. vwr M size_ptr (le_enc 8 region) m = Inr m' \<and> s' = s\<lparr>umem := u\<lparr>mach := m'\<rparr>\<rparr>)
     else s' = s\<lparr>umem := u\<rparr>)"
  using assms
  by (auto simp: AllocateVirtualMemory_def vm_round_align Let_def vput_def vput_bytes_def split: sum.splits if_splits prod.splits)

section \<open>Properties\<close>

text \<open>
  A range of \<open>sz\<close> bytes was handed out, told to the caller in its two cells: it was free, lies
  below the user limit on a 64 KB boundary, and all of it is now in the state \<open>p\<close>, the rest as before.
\<close>

definition handed_out :: "'m vm_unit \<Rightarrow> addr \<Rightarrow> addr \<Rightarrow> u64 \<Rightarrow> u32 option \<Rightarrow> 'm vm_state \<Rightarrow> 'm vm_state \<Rightarrow> bool" where
  "handed_out M base_ptr size_ptr sz p s s' \<longleftrightarrow>
     (\<exists>base m m'. 2 ^ 16 dvd unat base \<and> unat base + unat sz \<le> unat user_addr_limit \<and>
        vwr M base_ptr (le_enc 8 base) m = Inr m' \<and> vwr M size_ptr (le_enc 8 sz) m' = Inr (mach (umem s')) \<and>
        (\<forall>a. within base sz a \<longrightarrow> page_state (umem s) a = None) \<and>
        (\<forall>a. page_state (umem s') a = (if within base sz a then Some p else page_state (umem s) a)))"


definition demo_unit :: "(addr \<times> u64) list vm_unit" where
  "demo_unit = \<lparr>pages = log_ops, vrd = (\<lambda>n a m. Inr (le_enc n (if a = 0x1008 then 0x2800 else 0 :: u64))),
     vwr = (\<lambda>a bs m. Inr (m @ [(a, le_dec bs)])), try_alloc = (\<lambda>sz p m. (Inl Out_of_guest_physical_memory, m)),
     try_unmap = (\<lambda>a sz m. (None, m)), try_prot = (\<lambda>a sz p m. (None, m))\<rparr>"

definition vm_demo :: "(addr \<times> u64) list vm_state" where
  "vm_demo = \<lparr>umem = vm0, is_user = True, vobjs = new_obj_manager, vtable = \<lparr>handles = [], next_handle = 4\<rparr>,
     vfs = empty_filesystem, views = [], vmods = []\<rparr>"


section \<open>What is left behind\<close>

text \<open>
  Unmapping a view takes its pages from the address space and leaves the reservation it was made
  with: the pages go on as committed in the books, a query says so, and the range is not used again.
\<close>

lemma unmap_keeps_books:
  "UnmapViewOfSection M process base s = Inr (STATUS_SUCCESS, s') \<Longrightarrow> page_state (umem s') a = page_state (umem s) a"
  by (auto simp: UnmapViewOfSection_def set_mach_def split: if_splits option.splits sum.splits)

text \<open>A size just below the end of the address space is rounded up to nothing.\<close>

lemma round_wraps: "vm_round 0xFFFFFFFFFFFFF001 = 0"
  by (simp add: vm_round_def mdl_page_size_def)

end
