(* ===== verification/Nt_Lpc.thy ===== *)
theory Nt_Lpc
  imports Nt_Sync Guest_Struct
begin

text \<open>
  \<open>kernel/win/modules/nt_lpc_ops.cpp\<close>: ports, their connections, and the messages queued at them.
  The host objects are kept by their number, and a weak pointer is a number too: it still leads to
  the port while an object of the manager holds it. The mutex of a port serialises its queue. The
  arguments that are only logged are left out.
\<close>

section \<open>State\<close>

record alpc_port_host =
  port_label :: string
  is_server :: bool
  peer :: "nat option"
  messages :: "u8 list list"

record lpc_state =
  lnt :: nt_state
  process_id :: u32
  alpc_ports :: "(nat \<times> alpc_port_host) list"
  next_port :: nat

type_synonym lpc_service = "lpc_state \<Rightarrow> emu_error + NTSTATUS \<times> lpc_state"

definition alpc_port_body_size :: nat where "alpc_port_body_size = 0x20"
definition maximum_message_length :: nat where "maximum_message_length = 0x10000"
definition default_maximum_message_length :: u32 where "default_maximum_message_length = 0x148"
definition maximum_port_view_size :: u64 where "maximum_port_view_size = 0x100000"
definition PORT_ALL_ACCESS :: u32 where "PORT_ALL_ACCESS = 0x001F0001"

definition sizeof_PORT_MESSAGE :: nat where "sizeof_PORT_MESSAGE = 0x28"
definition PM_TotalLength :: nat where "PM_TotalLength = 0x02"
definition PM_UniqueProcess :: nat where "PM_UniqueProcess = 0x08"
definition PM_UniqueThread :: nat where "PM_UniqueThread = 0x10"
definition sizeof_REMOTE_PORT_VIEW :: nat where "sizeof_REMOTE_PORT_VIEW = 0x18"
definition RPV_ViewSize :: nat where "RPV_ViewSize = 0x08"
definition RPV_ViewBase :: nat where "RPV_ViewBase = 0x10"
definition view_prot :: u64 where "view_prot = 3"

lemmas pm_defs = sizeof_PORT_MESSAGE_def PM_TotalLength_def PM_UniqueProcess_def PM_UniqueThread_def
  maximum_message_length_def

definition lpc_mem :: "(gmem \<Rightarrow> emu_error + gmem) \<Rightarrow> lpc_state \<Rightarrow> emu_error + lpc_state" where
  "lpc_mem f s = bind_result (with_mem f (lnt s)) (\<lambda>n. Inr (s\<lparr>lnt := n\<rparr>))"

section \<open>Ports and their queues\<close>

definition port_post :: "u8 list \<Rightarrow> alpc_port_host \<Rightarrow> alpc_port_host" where
  "port_post message p = p\<lparr>messages := messages p @ [message]\<rparr>"

fun port_take :: "alpc_port_host \<Rightarrow> u8 list option \<times> alpc_port_host" where
  "port_take p = (case messages p of [] \<Rightarrow> (None, p) | m # ms \<Rightarrow> (Some m, p\<lparr>messages := ms\<rparr>))"

definition put_port :: "nat \<Rightarrow> alpc_port_host \<Rightarrow> lpc_state \<Rightarrow> lpc_state" where
  "put_port i p s = s\<lparr>alpc_ports := umap_set i p (alpc_ports s)\<rparr>"

definition change_port :: "nat \<Rightarrow> (alpc_port_host \<Rightarrow> alpc_port_host) \<Rightarrow> lpc_state \<Rightarrow> lpc_state" where
  "change_port i f s = (case umap_find i (alpc_ports s) of None \<Rightarrow> s | Some p \<Rightarrow> put_port i (f p) s)"

fun as_alpc_port :: "win_object \<Rightarrow> nat option" where
  "as_alpc_port (Alpc_port_host i) = Some i"
| "as_alpc_port _ = None"

definition port_held :: "nat \<Rightarrow> obj_manager \<Rightarrow> bool" where
  "port_held i m \<longleftrightarrow> list_ex (\<lambda>(a, e). host e = Some (Alpc_port_host i)) (objects m)"

text \<open>\<open>port->peer.lock()\<close>.\<close>

definition lock_peer :: "alpc_port_host \<Rightarrow> obj_manager \<Rightarrow> nat option" where
  "lock_peer p m = (case peer p of None \<Rightarrow> None | Some i \<Rightarrow> if port_held i m then Some i else None)"

section \<open>Messages\<close>

text \<open>\<open>TotalLength\<close> is signed, and is widened before it is clamped.\<close>

definition message_size :: "u16 \<Rightarrow> nat" where
  "message_size total_length =
     (let total = unat (scast total_length :: u64) in
      if total < sizeof_PORT_MESSAGE then sizeof_PORT_MESSAGE
      else if maximum_message_length < total then maximum_message_length else total)"

definition stamp :: "u64 \<Rightarrow> u64 \<Rightarrow> u8 list \<Rightarrow> u8 list" where
  "stamp pid thread bytes = field_put PM_UniqueThread 8 thread (field_put PM_UniqueProcess 8 pid bytes)"

definition client_process :: "lpc_state \<Rightarrow> u64" where
  "client_process s = (case current_thread (lnt s) of None \<Rightarrow> 0 | Some t \<Rightarrow> ucast (process_id s))"

definition client_thread :: "lpc_state \<Rightarrow> u64" where
  "client_thread s = (case current_thread (lnt s) of None \<Rightarrow> 0 | Some t \<Rightarrow> ucast (of_nat (tid t) :: u32))"

definition read_message :: "addr \<Rightarrow> lpc_state \<Rightarrow> emu_error + u8 list" where
  "read_message message s =
     bind_result (g_read sizeof_PORT_MESSAGE message (gm (lnt s))) (\<lambda>hdr.
     bind_result (g_read (message_size (field_get PM_TotalLength 2 hdr)) message (gm (lnt s))) (\<lambda>bytes.
       Inr (stamp (client_process s) (client_thread s) bytes)))"

definition clear_connection_information :: "addr \<Rightarrow> addr \<Rightarrow> lpc_state \<Rightarrow> emu_error + lpc_state" where
  "clear_connection_information info info_length s =
     (if info = 0 \<or> info_length = 0 then Inr s
      else
        bind_result (g_get 4 info_length (gm (lnt s))) (\<lambda>len :: u32.
        if len = 0 \<or> maximum_message_length < unat len then Inr s
        else lpc_mem (g_write info (replicate (unat len) 0)) s))"

section \<open>Services\<close>

definition create_port_object ::
  "allocator \<Rightarrow> alpc_port_host \<Rightarrow> u32 \<Rightarrow> lpc_state \<Rightarrow> emu_error + u64 \<times> lpc_state" where
  "create_port_object alloc p acc s =
     (let i = next_port s;
          s = (put_port i p s)\<lparr>next_port := i + 1\<rparr> in
      bind_result (create_object alloc 0 (Some (replicate alpc_port_body_size 0)) (of_nat alpc_port_body_size)
          (Some (Alpc_port_host i)) kernel_rw (objs (lnt s), gm (lnt s))) (\<lambda>(a, om, g).
      if a = 0 then Inr (0, s\<lparr>lnt := (lnt s)\<lparr>objs := om, gm := g\<rparr>\<rparr>)
      else
        let om = (if port_label p \<noteq> [] then register_named_object (port_label p) a om else om) in
        bind_result (create_handle a acc om (table (lnt s), g)) (\<lambda>(h, t, g).
          Inr (h, s\<lparr>lnt := (lnt s)\<lparr>objs := om, table := t, gm := g\<rparr>\<rparr>))))"

definition new_port :: "string \<Rightarrow> alpc_port_host" where
  "new_port name = \<lparr>port_label = name, is_server = False, peer = None, messages = []\<rparr>"

definition AlpcCreatePort :: "allocator \<Rightarrow> addr \<Rightarrow> addr \<Rightarrow> lpc_service" where
  "AlpcCreatePort alloc port_handle attributes s =
     (if port_handle = 0 then Inr (STATUS_INVALID_PARAMETER, s)
      else
        bind_result (attribute_name attributes (gm (lnt s))) (\<lambda>name.
        if name \<noteq> [] \<and> lookup_named_object name (objs (lnt s)) \<noteq> 0
        then Inr (STATUS_OBJECT_NAME_COLLISION, s)
        else
          bind_result (create_port_object alloc ((new_port name)\<lparr>is_server := True\<rparr>) PORT_ALL_ACCESS s) (\<lambda>(h, s).
          if h = 0 then Inr (STATUS_INSUFFICIENT_RESOURCES, s)
          else bind_result (lpc_mem (g_put 8 port_handle h) s) (\<lambda>s. Inr (STATUS_SUCCESS, s)))))"

text \<open>The server that has a name, if it is a port of this guest.\<close>

definition server_named :: "string \<Rightarrow> lpc_state \<Rightarrow> nat option" where
  "server_named name s =
     (let a = lookup_named_object name (objs (lnt s)) in
      if a = 0 then None
      else
        case get_object as_alpc_port a (objs (lnt s)) of
          None \<Rightarrow> None
        | Some i \<Rightarrow> (case umap_find i (alpc_ports s) of
              None \<Rightarrow> None | Some p \<Rightarrow> if is_server p then Some i else None))"

definition AlpcConnectPort :: "allocator \<Rightarrow> addr \<Rightarrow> addr \<Rightarrow> addr \<Rightarrow> addr \<Rightarrow> lpc_service" where
  "AlpcConnectPort alloc port_handle port_name connection_message buffer_length s =
     (if port_handle = 0 then Inr (STATUS_INVALID_PARAMETER, s)
      else
        bind_result (unicode_at port_name (gm (lnt s))) (\<lambda>wide.
        let name = narrow_wstring wide in
        case server_named name s of
          None \<Rightarrow> Inr (STATUS_OBJECT_NAME_NOT_FOUND, s)
        | Some server \<Rightarrow>
            let client = next_port s in
            bind_result (create_port_object alloc ((new_port name)\<lparr>peer := Some server\<rparr>) PORT_ALL_ACCESS s) (\<lambda>(h, s).
            if h = 0 then Inr (STATUS_INSUFFICIENT_RESOURCES, s)
            else
              let s = change_port server (\<lambda>p. p\<lparr>peer := Some client\<rparr>) s in
              bind_result (lpc_mem (g_put 8 port_handle h) s) (\<lambda>s.
              bind_result (if connection_message \<noteq> 0
                  then bind_result (read_message connection_message s) (\<lambda>m. Inr (change_port server (port_post m) s))
                  else Inr s) (\<lambda>s.
              bind_result (if buffer_length \<noteq> 0 then lpc_mem (g_put 8 buffer_length (0 :: u64)) s else Inr s) (\<lambda>s.
                Inr (STATUS_SUCCESS, s)))))))"

definition alpc_port_from_handle :: "u64 \<Rightarrow> lpc_state \<Rightarrow> nat option" where
  "alpc_port_from_handle handle s = get_handle_object as_alpc_port handle (objs (lnt s)) (table (lnt s))"

text \<open>The two halves of \<open>AlpcSendWaitReceivePort\<close>: sending, and taking the first message.\<close>

definition alpc_send :: "nat \<Rightarrow> addr \<Rightarrow> lpc_service" where
  "alpc_send port send_message s =
     (case umap_find port (alpc_ports s) of
        None \<Rightarrow> Inr (STATUS_PORT_DISCONNECTED, s)
      | Some p \<Rightarrow>
          (case lock_peer p (objs (lnt s)) of
             None \<Rightarrow> Inr (STATUS_PORT_DISCONNECTED, s)
           | Some other \<Rightarrow>
               bind_result (read_message send_message s) (\<lambda>m.
                 Inr (STATUS_SUCCESS, change_port other (port_post m) s))))"

definition alpc_receive :: "nat \<Rightarrow> addr \<Rightarrow> addr \<Rightarrow> lpc_service" where
  "alpc_receive port receive_message buffer_length s =
     (case umap_find port (alpc_ports s) of
        None \<Rightarrow> Inr (STATUS_TIMEOUT, s)
      | Some p \<Rightarrow>
          (case port_take p of
             (None, p) \<Rightarrow> Inr (STATUS_TIMEOUT, s)
           | (Some m, p) \<Rightarrow>
               let s = put_port port p s in
               bind_result (if buffer_length \<noteq> 0
                   then bind_result (g_get 8 buffer_length (gm (lnt s))) (\<lambda>n :: u64. Inr (unat n))
                   else Inr (length m)) (\<lambda>room.
               let copied = min room (length m) in
               bind_result (lpc_mem (g_write receive_message (take copied m)) s) (\<lambda>s.
               bind_result (if buffer_length \<noteq> 0 then lpc_mem (g_put 8 buffer_length (of_nat copied :: u64)) s
                   else Inr s) (\<lambda>s.
                 Inr (if copied < length m then STATUS_BUFFER_TOO_SMALL else STATUS_SUCCESS, s))))))"

definition AlpcSendWaitReceivePort :: "u64 \<Rightarrow> addr \<Rightarrow> addr \<Rightarrow> addr \<Rightarrow> lpc_service" where
  "AlpcSendWaitReceivePort port_handle send_message receive_message buffer_length s =
     (case alpc_port_from_handle port_handle s of
        None \<Rightarrow> Inr (STATUS_INVALID_HANDLE, s)
      | Some port \<Rightarrow>
          bind_result (if send_message \<noteq> 0 then alpc_send port send_message s else Inr (STATUS_SUCCESS, s)) (\<lambda>(st, s).
          if st \<noteq> STATUS_SUCCESS \<or> receive_message = 0 then Inr (st, s)
          else alpc_receive port receive_message buffer_length s))"

definition connect_port :: "allocator \<Rightarrow> allocator \<Rightarrow> addr \<Rightarrow> addr \<Rightarrow> addr \<Rightarrow> addr \<Rightarrow> addr \<Rightarrow> lpc_service" where
  "connect_port alloc space_alloc port_handle port_name client_view server_view max_length s =
     (if port_handle = 0 then Inr (STATUS_INVALID_PARAMETER, s)
      else
        bind_result (unicode_at port_name (gm (lnt s))) (\<lambda>wide.
        bind_result (create_port_object alloc (new_port (narrow_wstring wide)) PORT_ALL_ACCESS s) (\<lambda>(h, s).
        if h = 0 then Inr (STATUS_INSUFFICIENT_RESOURCES, s)
        else
          bind_result (lpc_mem (g_put 8 port_handle h) s) (\<lambda>s.
          bind_result (if client_view = 0 then Inr s
            else
              bind_result (g_get 8 (client_view + 0x18) (gm (lnt s))) (\<lambda>view_size :: u64.
              if view_size \<noteq> 0 \<and> view_size \<le> maximum_port_view_size then
                bind_result (space_alloc view_size view_prot (gm (lnt s))) (\<lambda>(base, g).
                bind_result (lpc_mem (g_put 8 (client_view + 0x20) base) (s\<lparr>lnt := (lnt s)\<lparr>gm := g\<rparr>\<rparr>)) (\<lambda>s.
                  lpc_mem (g_put 8 (client_view + 0x28) base) s))
              else Inr s)) (\<lambda>s.
          bind_result (if server_view = 0 then Inr s
            else
              bind_result (g_read sizeof_REMOTE_PORT_VIEW server_view (gm (lnt s))) (\<lambda>v.
                lpc_mem (g_write server_view
                  (field_put RPV_ViewBase 8 (0 :: u64) (field_put RPV_ViewSize 8 maximum_port_view_size v))) s)) (\<lambda>s.
          bind_result (if max_length = 0 then Inr s
                       else lpc_mem (g_put 4 max_length default_maximum_message_length) s) (\<lambda>s.
            Inr (STATUS_SUCCESS, s))))))))"

definition ConnectPort ::
  "allocator \<Rightarrow> allocator \<Rightarrow> addr \<Rightarrow> addr \<Rightarrow> addr \<Rightarrow> addr \<Rightarrow> addr \<Rightarrow> addr \<Rightarrow> addr \<Rightarrow> lpc_service" where
  "ConnectPort alloc space_alloc port_handle port_name client_view server_view max_length info info_length s =
     bind_result (clear_connection_information info info_length s)
       (connect_port alloc space_alloc port_handle port_name client_view server_view max_length)"

definition SecureConnectPort ::
  "allocator \<Rightarrow> allocator \<Rightarrow> addr \<Rightarrow> addr \<Rightarrow> addr \<Rightarrow> addr \<Rightarrow> addr \<Rightarrow> addr \<Rightarrow> addr \<Rightarrow> lpc_service" where
  "SecureConnectPort alloc space_alloc port_handle port_name client_view server_view max_length info info_length s =
     bind_result (clear_connection_information info info_length s)
       (connect_port alloc space_alloc port_handle port_name client_view server_view max_length)"

section \<open>Sizes and names\<close>

text \<open>
  A message takes up its own length; one that claims less than a header has a header, and one whose
  length has the top bit set is read as the largest there is.
\<close>

lemma message_size_word:
  "message_size t = (if unat t < sizeof_PORT_MESSAGE then sizeof_PORT_MESSAGE
     else if unat t < 0x8000 then unat t else maximum_message_length)"
proof -
  obtain n where n: "unat t = n" "uint t = int n" by (simp add: uint_nat)
  obtain m where m: "unat (scast t :: u64) = m" "uint (scast t :: u64) = int m" by (simp add: uint_nat)
  have t: "uint t < 0x10000" "0 \<le> uint t" using uint_bounded [of t] by simp_all
  have "sint t = (uint t + 0x8000) mod 0x10000 - 0x8000"
    by (simp add: sint_uint signed_take_bit_eq_take_bit_shift take_bit_eq_mod)
  also have "\<dots> = (if uint t < 0x8000 then uint t else uint t - 0x10000)"
    using t int_mod_pos_eq [of "uint t + 0x8000" "0x10000" 1 "uint t - 0x8000"] by simp
  finally have sint: "sint t = (if uint t < 0x8000 then uint t else uint t - 0x10000)" .
  have "uint (scast t :: u64) = sint t mod 2 ^ 64" unfolding scast_eq uint_word_of_int by simp
  also have "\<dots> = (if uint t < 0x8000 then uint t else uint t - 0x10000 + 2 ^ 64)"
    unfolding sint using t int_mod_pos_eq [of "uint t - 0x10000" "2 ^ 64" "- 1" "uint t - 0x10000 + 2 ^ 64"] by simp
  finally have "uint (scast t :: u64) = (if uint t < 0x8000 then uint t else uint t - 0x10000 + 2 ^ 64)" .
  then have "unat (scast t :: u64) = (if unat t < 0x8000 then unat t else unat t + (2 ^ 64 - 0x10000))"
    unfolding n m by (simp split: if_splits)
  then show ?thesis by (auto simp: message_size_def Let_def pm_defs)
qed

text \<open>
  A port that connects takes over the name of the server it connects to: the next to ask for that
  name finds the client instead, and is refused.
\<close>

lemma create_port_object_names:
  assumes "create_port_object alloc p acc s = Inr (h, s')" and "h \<noteq> 0" and "port_label p \<noteq> []"
  shows "\<exists>a. a \<noteq> 0 \<and> lookup_named_object (port_label p) (objs (lnt s')) = a \<and>
      get_object as_alpc_port a (objs (lnt s')) = Some (next_port s)"
    and "alpc_ports s' = umap_set (next_port s) p (alpc_ports s)" "next_port s' = next_port s + 1"
  using assms
  by (auto simp: create_port_object_def create_object_def put_port_def Let_def register_named_object_def
      lookup_named_object_def get_object_def umap_find_set split: sum.splits if_splits prod.splits)

lemma lpc_mem_keeps:
  "lpc_mem f s = Inr s' \<Longrightarrow> objs (lnt s') = objs (lnt s) \<and> alpc_ports s' = alpc_ports s \<and> next_port s' = next_port s"
  by (auto simp: lpc_mem_def with_mem_def split: sum.splits)

lemma change_port_keeps [simp]:
  "lnt (change_port i f s) = lnt s" "next_port (change_port i f s) = next_port s"
  "umap_find j (alpc_ports (change_port i f s)) =
     (if j = i then map_option f (umap_find i (alpc_ports s)) else umap_find j (alpc_ports s))"
  by (auto simp: change_port_def put_port_def umap_find_set split: option.split)

lemma server_named_held: "server_named name s = Some i \<Longrightarrow> i \<in> fst ` set (alpc_ports s)"
  by (auto simp: server_named_def Let_def umap_keys [symmetric] split: if_splits option.splits)

lemma connect_takes_name:
  assumes "AlpcConnectPort alloc out name msg len s = Inr (STATUS_SUCCESS, s')"
    and "unicode_at name (gm (lnt s)) = Inr wide" and "narrow_wstring wide \<noteq> []"
    and "\<forall>i \<in> fst ` set (alpc_ports s). i < next_port s"
  shows "lookup_named_object (narrow_wstring wide) (objs (lnt s')) \<noteq> 0"
    "get_object as_alpc_port (lookup_named_object (narrow_wstring wide) (objs (lnt s'))) (objs (lnt s')) = Some (next_port s)"
    "\<exists>server p. server_named (narrow_wstring wide) s = Some server \<and> server \<noteq> next_port s \<and>
       umap_find (next_port s) (alpc_ports s') = Some ((new_port (narrow_wstring wide))\<lparr>peer := Some server\<rparr>) \<and>
       umap_find server (alpc_ports s') = Some p \<and> peer p = Some (next_port s)"
proof -
  let ?n = "narrow_wstring wide"
  obtain server h s1 s2 s3 where server: "server_named ?n s = Some server"
    and c: "create_port_object alloc ((new_port ?n)\<lparr>peer := Some server\<rparr>) PORT_ALL_ACCESS s = Inr (h, s1)" "h \<noteq> 0"
    and s2: "s2 = change_port server (\<lambda>p. p\<lparr>peer := Some (next_port s)\<rparr>) s1"
    and s3: "lpc_mem (g_put 8 out h) s2 = Inr s3"
    and rest: "bind_result (if msg \<noteq> 0
          then bind_result (read_message msg s3) (\<lambda>m. Inr (change_port server (port_post m) s3)) else Inr s3) (\<lambda>s.
        bind_result (if len \<noteq> 0 then lpc_mem (g_put 8 len (0 :: u64)) s else Inr s) (\<lambda>s.
          Inr (STATUS_SUCCESS, s))) = Inr (STATUS_SUCCESS, s')"
    using assms(1,2) by (simp add: AlpcConnectPort_def Let_def status_defs split: sum.splits option.splits if_split_asm prod.splits)
  obtain s4 where s4: "s4 = s3 \<or> (\<exists>m. s4 = change_port server (port_post m) s3)"
    and s': "s' = s4 \<or> lpc_mem (g_put 8 len (0 :: u64)) s4 = Inr s'"
    using rest by (auto split: sum.splits if_splits)
  have old: "server \<in> fst ` set (alpc_ports s)" by (rule server_named_held [OF server])
  then have ne: "server \<noteq> next_port s" using assms(4) by auto
  obtain p where p: "umap_find server (alpc_ports s) = Some p" using old by (auto simp: umap_keys [symmetric])
  have objs: "objs (lnt s') = objs (lnt s1)"
    using s' s4 lpc_mem_keeps [OF s3] lpc_mem_keeps [of "g_put 8 len (0 :: u64)" s4 s'] by (auto simp: s2)
  note names = create_port_object_names [OF c, simplified new_port_def, simplified]
  show "lookup_named_object ?n (objs (lnt s')) \<noteq> 0"
    "get_object as_alpc_port (lookup_named_object ?n (objs (lnt s'))) (objs (lnt s')) = Some (next_port s)"
    using names(1) assms(3) objs by auto
  have ports: "alpc_ports s' = alpc_ports s4" "alpc_ports s3 = alpc_ports s2"
    using s' lpc_mem_keeps [OF s3] lpc_mem_keeps [of "g_put 8 len (0 :: u64)" s4 s'] by auto
  have s1: "umap_find j (alpc_ports s1) =
      (if j = next_port s then Some ((new_port ?n)\<lparr>peer := Some server\<rparr>) else umap_find j (alpc_ports s))" for j
    using names(2) assms(3) by (simp add: umap_find_set new_port_def)
  have "umap_find (next_port s) (alpc_ports s4) = Some ((new_port ?n)\<lparr>peer := Some server\<rparr>)"
    "\<exists>q. umap_find server (alpc_ports s4) = Some q \<and> peer q = Some (next_port s)"
    using s4 ne p ports(2) by (auto simp: s2 s1 port_post_def)
  then show "\<exists>server p. server_named ?n s = Some server \<and> server \<noteq> next_port s \<and>
       umap_find (next_port s) (alpc_ports s') = Some ((new_port ?n)\<lparr>peer := Some server\<rparr>) \<and>
       umap_find server (alpc_ports s') = Some p \<and> peer p = Some (next_port s)"
    using server ne ports(1) by auto
qed

lemma second_connect_refused:
  assumes "AlpcConnectPort alloc out name msg len s = Inr (STATUS_SUCCESS, s')"
    and "unicode_at name (gm (lnt s)) = Inr wide" and "narrow_wstring wide \<noteq> []"
    and "\<forall>i \<in> fst ` set (alpc_ports s). i < next_port s"
    and "unicode_at name' (gm (lnt s')) = Inr wide" and "out' \<noteq> 0"
  shows "AlpcConnectPort alloc out' name' msg' len' s' = Inr (STATUS_OBJECT_NAME_NOT_FOUND, s')"
proof -
  note c = connect_takes_name [OF assms(1-4)]
  have "server_named (narrow_wstring wide) s' = None"
    using c by (auto simp: server_named_def Let_def new_port_def)
  then show ?thesis using assms(5,6) by (simp add: AlpcConnectPort_def Let_def)
qed

section \<open>Ports as queues\<close>

text \<open>
  What the ends of connections promise: a message sent through a handle is queued at the other end,
  stamped with its sender, and a message received is the first one queued at this end, cut off at
  the room there is. \<open>port\<close> and \<open>other\<close> say which port a handle is of and which it sends to.
\<close>

datatype alpc_op = Send_message u64 "u8 list" | Receive_message u64 u64

fun alpc_spec :: "(u64 \<Rightarrow> nat) \<Rightarrow> (u64 \<Rightarrow> nat) \<Rightarrow> u64 \<Rightarrow> u64 \<Rightarrow> alpc_op \<Rightarrow> (nat \<Rightarrow> u8 list list) \<Rightarrow>
    (NTSTATUS \<times> u8 list) \<times> (nat \<Rightarrow> u8 list list)" where
  "alpc_spec port other pid th (Send_message h bs) q =
     ((STATUS_SUCCESS, []), q(other h := q (other h) @ [stamp pid th bs]))"
| "alpc_spec port other pid th (Receive_message h cap) q =
     (case q (port h) of
        [] \<Rightarrow> ((STATUS_TIMEOUT, []), q)
      | m # ms \<Rightarrow> ((if unat cap < length m then STATUS_BUFFER_TOO_SMALL else STATUS_SUCCESS, take (unat cap) m),
          q(port h := ms)))"

fun alpc_ok :: "u64 set \<Rightarrow> nat \<Rightarrow> alpc_op \<Rightarrow> (nat \<Rightarrow> u8 list list) \<Rightarrow> bool" where
  "alpc_ok H N (Send_message h bs) q \<longleftrightarrow>
     h \<in> H \<and> length bs \<le> N \<and> length bs = message_size (field_get PM_TotalLength 2 bs)"
| "alpc_ok H N (Receive_message h cap) q \<longleftrightarrow> h \<in> H \<and> unat cap \<le> N"

text \<open>A client that keeps its messages at \<open>buf\<close> and the length at \<open>cell\<close>.\<close>

fun alpc_call :: "addr \<Rightarrow> addr \<Rightarrow> alpc_op \<Rightarrow> lpc_state \<Rightarrow> emu_error + (NTSTATUS \<times> u8 list) \<times> lpc_state" where
  "alpc_call buf cell (Send_message h bs) s =
     bind_result (lpc_mem (g_write buf bs) s) (\<lambda>s.
     bind_result (AlpcSendWaitReceivePort h buf 0 0 s) (\<lambda>(st, s). Inr ((st, []), s)))"
| "alpc_call buf cell (Receive_message h cap) s =
     bind_result (lpc_mem (g_put 8 cell cap) s) (\<lambda>s.
     bind_result (AlpcSendWaitReceivePort h 0 buf cell s) (\<lambda>(st, s).
       if st = STATUS_TIMEOUT then Inr ((st, []), s)
       else
         bind_result (g_get 8 cell (gm (lnt s))) (\<lambda>n :: u64.
         bind_result (g_read (unat n) buf (gm (lnt s))) (\<lambda>bs. Inr ((st, bs), s)))))"

definition buffers_ok :: "addr \<Rightarrow> nat \<Rightarrow> addr \<Rightarrow> gmem \<Rightarrow> bool" where
  "buffers_ok buf N cell g \<longleftrightarrow> buf \<noteq> 0 \<and> cell \<noteq> 0 \<and> N < 2 ^ 64 \<and>
     g_mapped g buf N \<and> g_mapped g cell 8 \<and> span buf N \<inter> span cell 8 = {}"

definition alpc_shows :: "addr \<Rightarrow> nat \<Rightarrow> addr \<Rightarrow> u64 set \<Rightarrow> (u64 \<Rightarrow> nat) \<Rightarrow> (u64 \<Rightarrow> nat) \<Rightarrow> u64 \<Rightarrow> u64 \<Rightarrow>
    (nat \<Rightarrow> u8 list list) \<Rightarrow> lpc_state \<Rightarrow> bool" where
  "alpc_shows buf N cell H port other pid th q s \<longleftrightarrow>
     buffers_ok buf N cell (gm (lnt s)) \<and> client_process s = pid \<and> client_thread s = th \<and>
     (\<forall>h \<in> H. alpc_port_from_handle h s = Some (port h) \<and>
        (\<exists>p. umap_find (port h) (alpc_ports s) = Some p \<and> messages p = q (port h) \<and>
           lock_peer p (objs (lnt s)) = Some (other h)) \<and>
        (\<exists>p. umap_find (other h) (alpc_ports s) = Some p \<and> messages p = q (other h)))"

definition alpc_keeps :: "addr \<Rightarrow> nat \<Rightarrow> addr \<Rightarrow> nat set \<Rightarrow> lpc_state \<Rightarrow> lpc_state \<Rightarrow> bool" where
  "alpc_keeps buf N cell P s s' \<longleftrightarrow>
     (\<exists>g. lnt s' = (lnt s)\<lparr>gm := g\<rparr>) \<and>
     (\<forall>x. x \<notin> span buf N \<union> span cell 8 \<longrightarrow> gm (lnt s') x = gm (lnt s) x) \<and>
     (\<forall>i. i \<notin> P \<longrightarrow> umap_find i (alpc_ports s') = umap_find i (alpc_ports s))"

lemma client_mem [simp]:
  "client_process (s\<lparr>lnt := (lnt s)\<lparr>gm := g\<rparr>\<rparr>) = client_process s"
  "client_thread (s\<lparr>lnt := (lnt s)\<lparr>gm := g\<rparr>\<rparr>) = client_thread s"
  "client_process (put_port i p s) = client_process s" "client_thread (put_port i p s) = client_thread s"
  by (auto simp: client_process_def client_thread_def current_thread_def put_port_def split: option.split)

lemma nt_gm_same: "\<exists>g. n = n\<lparr>gm := g\<rparr>" for n :: nt_state
  by (rule exI [of _ "gm n"]) simp

text \<open>A queue set to new messages, with memory that keeps the buffers.\<close>

lemma requeue_shows:
  assumes "alpc_shows buf N cell H port other pid th q s"
    and "umap_find i (alpc_ports s) = Some p" and "buffers_ok buf N cell g"
  shows "alpc_shows buf N cell H port other pid th (q(i := ms))
    (put_port i (p\<lparr>messages := ms\<rparr>) (s\<lparr>lnt := (lnt s)\<lparr>gm := g\<rparr>\<rparr>))"
  using assms
  unfolding alpc_shows_def client_mem by (auto simp: put_port_def umap_find_set alpc_port_from_handle_def lock_peer_def)

lemma client_stores:
  assumes "alpc_shows buf N cell H port other pid th q s" and "buffers_ok buf N cell g"
  shows "alpc_shows buf N cell H port other pid th q (s\<lparr>lnt := (lnt s)\<lparr>gm := g\<rparr>\<rparr>)"
  using assms
  unfolding alpc_shows_def client_mem by (auto simp: alpc_port_from_handle_def)

lemma write_buffers:
  assumes "g_write a bs g = Inr g'" and "buffers_ok buf N cell g"
  shows "buffers_ok buf N cell g'"
  using assms(2) g_write_mapped [OF assms(1)] by (simp add: buffers_ok_def)

lemma port_took: "port_take p = (case messages p of [] \<Rightarrow> (None, p) | m # ms \<Rightarrow> (Some m, p\<lparr>messages := ms\<rparr>))"
  by simp

lemma send_call:
  assumes at: "alpc_shows buf N cell H port other pid th q s" and ok: "alpc_ok H N (Send_message h bs) q"
  shows "\<exists>s'. alpc_call buf cell (Send_message h bs) s = Inr ((STATUS_SUCCESS, []), s') \<and>
    alpc_shows buf N cell H port other pid th (q(other h := q (other h) @ [stamp pid th bs])) s' \<and>
    alpc_keeps buf N cell (port ` H \<union> other ` H) s s'"
proof -
  have h: "h \<in> H" and len: "length bs \<le> N" "length bs = message_size (field_get PM_TotalLength 2 bs)"
    using ok by auto
  have buf: "buffers_ok buf N cell (gm (lnt s))" using at by (simp add: alpc_shows_def)
  have "g_mapped (gm (lnt s)) buf (length bs)"
    using buf span_mono [OF len(1), of buf] by (auto simp: buffers_ok_def g_mapped_def)
  then obtain g where g: "g_write buf bs (gm (lnt s)) = Inr g" using g_write_total by blast
  let ?s = "s\<lparr>lnt := (lnt s)\<lparr>gm := g\<rparr>\<rparr>"
  have at': "alpc_shows buf N cell H port other pid th q ?s"
    by (rule client_stores [OF at write_buffers [OF g buf]])
  from at' h obtain p r where p: "umap_find (port h) (alpc_ports ?s) = Some p" "lock_peer p (objs (lnt ?s)) = Some (other h)"
    and r: "umap_find (other h) (alpc_ports ?s) = Some r" "messages r = q (other h)"
    and port: "alpc_port_from_handle h ?s = Some (port h)"
    by (auto simp: alpc_shows_def)
  have short: "length bs < 2 ^ 64" using len(1) buf by (simp add: buffers_ok_def)
  have whole: "g_read (length bs) buf g = Inr bs" by (rule g_read_write_same [OF g short])
  have room: "sizeof_PORT_MESSAGE \<le> length bs" using len(2) message_size_word by (simp add: pm_defs)
  have hdr: "g_read sizeof_PORT_MESSAGE buf g = Inr (take sizeof_PORT_MESSAGE bs)"
    using g_read_sub [OF whole, of 0 sizeof_PORT_MESSAGE] room by simp
  have "field_get PM_TotalLength 2 (take sizeof_PORT_MESSAGE bs) = (field_get PM_TotalLength 2 bs :: u16)"
    by (simp add: field_get_def pm_defs drop_take)
  then have read: "read_message buf ?s = Inr (stamp pid th bs)"
    using whole hdr len(2) at' by (simp add: read_message_def alpc_shows_def)
  let ?t = "put_port (other h) (r\<lparr>messages := q (other h) @ [stamp pid th bs]\<rparr>) ?s"
  have "AlpcSendWaitReceivePort h buf 0 0 ?s = Inr (STATUS_SUCCESS, ?t)"
    using port p r read buf
    by (simp add: AlpcSendWaitReceivePort_def alpc_send_def change_port_def port_post_def buffers_ok_def)
  moreover have "lpc_mem (g_write buf bs) s = Inr ?s" using g by (simp add: lpc_mem_def with_mem_def)
  moreover have "alpc_shows buf N cell H port other pid th (q(other h := q (other h) @ [stamp pid th bs])) ?t"
    using requeue_shows [OF at' r(1), of g] at' by (simp add: alpc_shows_def)
  moreover have "alpc_keeps buf N cell (port ` H \<union> other ` H) s ?t"
    using g_write_other [OF g] span_mono [OF len(1), of buf] h
    by (auto simp: alpc_keeps_def put_port_def umap_find_set)
  ultimately show ?thesis by auto
qed

lemma receive_call:
  assumes at: "alpc_shows buf N cell H port other pid th q s" and ok: "alpc_ok H N (Receive_message h cap) q"
  shows "\<exists>s'. alpc_call buf cell (Receive_message h cap) s =
      Inr (fst (alpc_spec port other pid th (Receive_message h cap) q), s') \<and>
    alpc_shows buf N cell H port other pid th (snd (alpc_spec port other pid th (Receive_message h cap) q)) s' \<and>
    alpc_keeps buf N cell (port ` H \<union> other ` H) s s'"
proof -
  have h: "h \<in> H" and cap: "unat cap \<le> N" using ok by auto
  have buf: "buffers_ok buf N cell (gm (lnt s))" using at by (simp add: alpc_shows_def)
  then obtain g where g: "g_put 8 cell cap (gm (lnt s)) = Inr g" using g_put_total buffers_ok_def by metis
  let ?s = "s\<lparr>lnt := (lnt s)\<lparr>gm := g\<rparr>\<rparr>"
  have gb: "buffers_ok buf N cell g" by (rule write_buffers [OF g [unfolded g_put_def] buf])
  have at': "alpc_shows buf N cell H port other pid th q ?s" by (rule client_stores [OF at gb])
  from at' h obtain p where p: "umap_find (port h) (alpc_ports s) = Some p" "messages p = q (port h)"
    and from_h: "alpc_port_from_handle h ?s = Some (port h)"
    by (auto simp: alpc_shows_def)
  have put: "lpc_mem (g_put 8 cell cap) s = Inr ?s" using g by (simp add: lpc_mem_def with_mem_def)
  have outside: "alpc_keeps buf N cell (port ` H \<union> other ` H) s ?s"
    using g_put_other [OF g] by (auto simp: alpc_keeps_def)
  show ?thesis
  proof (cases "q (port h)")
    case Nil
    then show ?thesis
      using put from_h p at' outside gb
      by (auto simp: AlpcSendWaitReceivePort_def alpc_receive_def buffers_ok_def)
  next
    case (Cons m ms)
    let ?c = "min (unat cap) (length m)" and ?p = "p\<lparr>messages := ms\<rparr>"
    have c: "?c \<le> N" "?c < 2 ^ 64" using cap gb by (auto simp: buffers_ok_def)
    have "g_mapped g buf (length (take ?c m))"
      using gb span_mono [of ?c N buf] c by (auto simp: buffers_ok_def g_mapped_def)
    then obtain g1 where g1: "g_write buf (take ?c m) g = Inr g1" using g_write_total by blast
    have b1: "buffers_ok buf N cell g1" by (rule write_buffers [OF g1 gb])
    then obtain g2 where g2: "g_put 8 cell (of_nat ?c :: u64) g1 = Inr g2" using g_put_total buffers_ok_def by metis
    have b2: "buffers_ok buf N cell g2" by (rule write_buffers [OF g2 [unfolded g_put_def] b1])
    let ?t = "put_port (port h) ?p (?s\<lparr>lnt := (lnt ?s)\<lparr>gm := g2\<rparr>\<rparr>)"
    have "g_get 8 cell g = Inr cap" using g_get_put_same [OF g] by (simp add: take_bit_word_eq_self)
    then have call: "AlpcSendWaitReceivePort h 0 buf cell ?s =
        Inr (if unat cap < length m then STATUS_BUFFER_TOO_SMALL else STATUS_SUCCESS, ?t)"
      using from_h p Cons g1 g2 gb
      by (auto simp: AlpcSendWaitReceivePort_def alpc_receive_def Let_def lpc_mem_def with_mem_def put_port_def buffers_ok_def)
    have size: "g_get 8 cell g2 = Inr (of_nat ?c :: u64)"
      using g_get_put_same [OF g2] by (simp add: take_bit_word_eq_self)
    have "span cell 8 \<inter> span buf ?c = {}" using b1 span_mono [OF c(1), of buf] by (auto simp: buffers_ok_def)
    then have bytes: "g_read ?c buf g2 = Inr (take ?c m)"
      using g_read_write_same [OF g1] c g_read_write_other [OF g2 [unfolded g_put_def], of buf ?c]
      by (simp add: Int_commute)
    have memory: "g2 x = gm (lnt s) x" if "x \<notin> span buf N" "x \<notin> span cell 8" for x
      using that outside g_write_other [OF g1, of x] g_put_other [OF g2, of x] span_mono [OF c(1), of buf]
      by (auto simp: alpc_keeps_def)
    have "alpc_shows buf N cell H port other pid th (q(port h := ms)) ?t"
      by (rule requeue_shows [OF at' _ b2]) (simp add: p)
    moreover have "alpc_keeps buf N cell (port ` H \<union> other ` H) s ?t"
      using memory h by (auto simp: alpc_keeps_def put_port_def umap_find_set)
    moreover have "take ?c m = take (unat cap) m" by (simp add: min_def)
    ultimately show ?thesis
      using put call size bytes Cons c(2)
      by (simp add: put_port_def unat_of_nat status_defs)
  qed
qed

interpretation alpc_ends: simulation "alpc_call buf cell" "alpc_spec port other pid th"
  "alpc_shows buf N cell H port other pid th" "alpc_ok H N" "alpc_keeps buf N cell (port ` H \<union> other ` H)"
  for buf cell port other pid th N H
proof unfold_locales
  fix q s p
  assume at: "alpc_shows buf N cell H port other pid th q s" and ok: "alpc_ok H N p q"
  show "\<exists>s'. alpc_call buf cell p s = Inr (fst (alpc_spec port other pid th p q), s') \<and>
      alpc_shows buf N cell H port other pid th (snd (alpc_spec port other pid th p q)) s' \<and>
      alpc_keeps buf N cell (port ` H \<union> other ` H) s s'"
  proof (cases p)
    case (Send_message h bs)
    then show ?thesis using send_call [OF at, of h bs] ok by simp
  next
    case (Receive_message h cap)
    then show ?thesis using receive_call [OF at, of h cap] ok by simp
  qed
qed (auto simp: alpc_keeps_def intro: nt_gm_same)

text \<open>
  Connected ports are queues: through any number of handles, and in whatever order the calls come,
  every message sent is received once at the other end, in order, unchanged but for the sender it
  is stamped with, and cut off at the room the receiver has; an empty queue answers STATUS_TIMEOUT.
\<close>

lemma alpc_calls_correct:
  assumes "alpc_shows buf N cell H port other pid th q s"
    and "admitted (alpc_spec port other pid th) (alpc_ok H N) ps q"
  shows "\<exists>s'. calls (alpc_call buf cell) ps s = Inr (fst (outcome (alpc_spec port other pid th) ps q), s') \<and>
    alpc_shows buf N cell H port other pid th (snd (outcome (alpc_spec port other pid th) ps q)) s' \<and>
    alpc_keeps buf N cell (port ` H \<union> other ` H) s s'"
  by (rule alpc_ends.simulate_calls [OF assms])

end
