(* ===== verification/Nt_Mem.thy ===== *)
theory Nt_Mem
  imports Nt_Section Nt_Vm
begin

text \<open>
  \<open>kernel/win/modules/nt_mem_ops.cpp\<close>, with the memory descriptor lists of \<open>kernel/win/mdl.hpp\<close> and
  the two calls of nt_io_ops.cpp that make and free them: physical addresses, contiguous memory,
  descriptor lists, and the views drivers map into system space. What the memory unit of the address
  space does is an argument; it may depend on the guest memory. The probes change nothing and raise
  nothing, and the table of \<open>MmIsAddressValid\<close> serves its log.
\<close>

section \<open>State\<close>

record mm_ops =
  to_phys :: "addr \<Rightarrow> gmem \<Rightarrow> addr option"
  to_virt :: "addr \<Rightarrow> gmem \<Rightarrow> addr option"
  rd_phys :: "nat \<Rightarrow> addr \<Rightarrow> gmem \<Rightarrow> emu_error + u8 list"
  try_map_phys :: "addr \<Rightarrow> u64 \<Rightarrow> u64 \<Rightarrow> gmem \<Rightarrow> (emu_error + addr) \<times> gmem"
  unmap_range :: "addr \<Rightarrow> u64 \<Rightarrow> gmem \<Rightarrow> emu_error + gmem"
  ram_range :: "addr \<times> u64"
  space_alloc :: allocator

record mm_state =
  mf :: file_state
  sys_views :: "(addr \<times> u64) list"

type_synonym mm_service = "mm_state \<Rightarrow> emu_error + NTSTATUS \<times> mm_state"

abbreviation mm_gm :: "mm_state \<Rightarrow> gmem" where
  "mm_gm s \<equiv> gm (fnt (mf s))"

definition mm_mem :: "(gmem \<Rightarrow> emu_error + gmem) \<Rightarrow> mm_state \<Rightarrow> emu_error + mm_state" where
  "mm_mem f s = bind_result (f_mem f (mf s)) (\<lambda>t. Inr (s\<lparr>mf := t\<rparr>))"

definition mm_set :: "gmem \<Rightarrow> mm_state \<Rightarrow> mm_state" where
  "mm_set g s = s\<lparr>mf := (mf s)\<lparr>fnt := (fnt (mf s))\<lparr>gm := g\<rparr>\<rparr>\<rparr>"

definition mm_write_opt :: "addr \<Rightarrow> u64 \<Rightarrow> mm_state \<Rightarrow> emu_error + mm_state" where
  "mm_write_opt p v s = (if p \<noteq> 0 then mm_mem (g_put 8 p v) s else Inr s)"

definition mm_pool_allocate :: "allocator \<Rightarrow> u64 \<Rightarrow> string \<Rightarrow> mm_state \<Rightarrow> emu_error + addr \<times> mm_state" where
  "mm_pool_allocate alloc sz t s =
     bind_result (f_pool_allocate alloc sz (pool_tag t) (mf s)) (\<lambda>(a, f). Inr (a, s\<lparr>mf := f\<rparr>))"

definition mm_pool_free :: "addr \<Rightarrow> mm_state \<Rightarrow> mm_state" where
  "mm_pool_free a s = s\<lparr>mf := (mf s)\<lparr>fpool := fst (pool_free a (fpool (mf s)))\<rparr>\<rparr>"

section \<open>Memory descriptor lists\<close>

definition sizeof_mdl :: nat where "sizeof_mdl = 0x30"
definition MDL_size :: nat where "MDL_size = 0x08"
definition MDL_flags :: nat where "MDL_flags = 0x0A"
definition MDL_mapped_system_va :: nat where "MDL_mapped_system_va = 0x18"
definition MDL_start_va :: nat where "MDL_start_va = 0x20"
definition MDL_byte_count :: nat where "MDL_byte_count = 0x28"
definition MDL_byte_offset :: nat where "MDL_byte_offset = 0x2C"

definition mdl_mapped_to_system_va :: u16 where "mdl_mapped_to_system_va = 0x0001"
definition mdl_pages_locked :: u16 where "mdl_pages_locked = 0x0002"
definition mdl_source_is_nonpaged_pool :: u16 where "mdl_source_is_nonpaged_pool = 0x0004"

lemmas mdl_defs = sizeof_mdl_def MDL_size_def MDL_flags_def MDL_mapped_system_va_def MDL_start_va_def
  MDL_byte_count_def MDL_byte_offset_def

definition mdl_page_offset :: "addr \<Rightarrow> u64" where
  "mdl_page_offset a = a AND (mdl_page_size - 1)"

definition mdl_page_count :: "addr \<Rightarrow> u64 \<Rightarrow> u64" where
  "mdl_page_count va bytes = (mdl_page_offset va + bytes + mdl_page_size - 1) div mdl_page_size"

definition mdl_size :: "addr \<Rightarrow> u64 \<Rightarrow> u64" where
  "mdl_size va bytes = of_nat sizeof_mdl + mdl_page_count va bytes * 8"

definition new_mdl :: "u16 \<Rightarrow> u16 \<Rightarrow> addr \<Rightarrow> u32 \<Rightarrow> u32 \<Rightarrow> u8 list" where
  "new_mdl sz flags start count offset =
     replicate 8 0 @ le_enc 2 sz @ le_enc 2 flags @ replicate 4 0 @ replicate 8 0 @ replicate 8 0 @
     le_enc 8 start @ le_enc 4 count @ le_enc 4 offset"

definition IoAllocateMdl :: "allocator \<Rightarrow> addr \<Rightarrow> u32 \<Rightarrow> mm_state \<Rightarrow> emu_error + addr \<times> mm_state" where
  "IoAllocateMdl alloc virtual_address len s =
     (let sz = mdl_size virtual_address (ucast len) in
      bind_result (mm_pool_allocate alloc sz ''Mdl '' s) (\<lambda>(a, s).
      if a = 0 then Inr (0, s)
      else
        bind_result (mm_mem (g_write a (new_mdl (ucast sz) 0 (mdl_page_base virtual_address) len
            (ucast (mdl_page_offset virtual_address)))) s) (\<lambda>s. Inr (a, s))))"

definition IoFreeMdl :: "addr \<Rightarrow> mm_state \<Rightarrow> mm_state" where
  "IoFreeMdl mdl = mm_pool_free mdl"

text \<open>
  The frame numbers of \<open>n\<close> pages from the page \<open>va\<close> on, written at \<open>a\<close> one after the other; a page
  that is not mapped has the number zero.
\<close>

fun write_frames :: "mm_ops \<Rightarrow> nat \<Rightarrow> addr \<Rightarrow> addr \<Rightarrow> mm_state \<Rightarrow> emu_error + mm_state" where
  "write_frames M 0 va a s = Inr s"
| "write_frames M (Suc n) va a s =
     bind_result (mm_mem (g_put 8 a ((case to_phys M va (mm_gm s) of None \<Rightarrow> 0 | Some pa \<Rightarrow> pa) div mdl_page_size)) s)
       (write_frames M n (va + mdl_page_size) (a + 8))"

definition MmBuildMdlForNonPagedPool :: "mm_ops \<Rightarrow> addr \<Rightarrow> mm_state \<Rightarrow> emu_error + mm_state" where
  "MmBuildMdlForNonPagedPool M list s =
     (if list = 0 then Inr s
      else
        bind_result (g_read sizeof_mdl list (mm_gm s)) (\<lambda>mdl.
        let start = field_get MDL_start_va 8 mdl :: u64;
            va = start + ucast (field_get MDL_byte_offset 4 mdl :: u32);
            flags = field_get MDL_flags 2 mdl OR mdl_mapped_to_system_va OR mdl_pages_locked OR mdl_source_is_nonpaged_pool in
        bind_result (mm_mem (g_write list (field_put MDL_flags 2 flags (field_put MDL_mapped_system_va 8 va mdl))) s)
          (write_frames M (unat (mdl_page_count start (ucast (field_get MDL_byte_count 4 mdl :: u32))))
             (mdl_page_base start) (list + of_nat sizeof_mdl))))"

definition MmAllocatePagesForMdl :: "mm_ops \<Rightarrow> allocator \<Rightarrow> u64 \<Rightarrow> mm_state \<Rightarrow> emu_error + addr \<times> mm_state" where
  "MmAllocatePagesForMdl M alloc total_bytes s =
     (let count = (total_bytes + mdl_page_size - 1) div mdl_page_size;
          bytes = of_nat sizeof_mdl + count * 8 in
      if count = 0 then Inr (0, s)
      else
        bind_result (mm_pool_allocate alloc (count * mdl_page_size) ''MmMd'' s) (\<lambda>(buffer, s).
        bind_result (if buffer \<noteq> 0 then mm_pool_allocate alloc bytes ''Mdl '' s else Inr (0, s)) (\<lambda>(list, s).
        if buffer = 0 \<or> list = 0 then Inr (0, if buffer \<noteq> 0 then mm_pool_free buffer s else s)
        else
          bind_result (mm_mem (g_write list
              (new_mdl (ucast bytes) mdl_pages_locked buffer (ucast (count * mdl_page_size)) 0)) s) (\<lambda>s.
          bind_result (write_frames M (unat count) buffer (list + of_nat sizeof_mdl) s) (\<lambda>s. Inr (list, s))))))"

definition MmFreePagesFromMdl :: "addr \<Rightarrow> mm_state \<Rightarrow> emu_error + mm_state" where
  "MmFreePagesFromMdl list s =
     (if list = 0 then Inr s
      else
        bind_result (g_read sizeof_mdl list (mm_gm s)) (\<lambda>m.
        let start = field_get MDL_start_va 8 m in
        Inr (if start \<noteq> 0 then mm_pool_free start s else s)))"

definition MmMapLockedPagesSpecifyCache :: "addr \<Rightarrow> mm_state \<Rightarrow> emu_error + addr \<times> mm_state" where
  "MmMapLockedPagesSpecifyCache list s =
     (if list = 0 then Inr (0, s)
      else
        bind_result (g_read sizeof_mdl list (mm_gm s)) (\<lambda>m.
        let mapped = field_get MDL_mapped_system_va 8 m;
            va = (if mapped \<noteq> 0 then mapped else field_get MDL_start_va 8 m);
            flags = field_get MDL_flags 2 m OR mdl_mapped_to_system_va in
        bind_result (mm_mem (g_write list (field_put MDL_flags 2 flags (field_put MDL_mapped_system_va 8 va m))) s) (\<lambda>s.
          Inr (va, s))))"

definition MmUnmapLockedPages :: "addr \<Rightarrow> mm_state \<Rightarrow> emu_error + mm_state" where
  "MmUnmapLockedPages list s =
     (if list = 0 then Inr s
      else
        bind_result (g_read sizeof_mdl list (mm_gm s)) (\<lambda>m.
          mm_mem (g_write list (field_put MDL_mapped_system_va 8 (0 :: u64)
            (field_put MDL_flags 2 (field_get MDL_flags 2 m AND NOT mdl_mapped_to_system_va) m))) s))"

section \<open>Addresses and copies\<close>

definition MmIsAddressValid :: "mm_ops \<Rightarrow> addr \<Rightarrow> mm_state \<Rightarrow> bool" where
  "MmIsAddressValid M va s \<longleftrightarrow> to_phys M va (mm_gm s) \<noteq> None"

definition MmGetPhysicalAddress :: "mm_ops \<Rightarrow> addr \<Rightarrow> mm_state \<Rightarrow> addr" where
  "MmGetPhysicalAddress M va s = (case to_phys M va (mm_gm s) of None \<Rightarrow> 0 | Some pa \<Rightarrow> pa)"

definition MmGetVirtualForPhysical :: "mm_ops \<Rightarrow> addr \<Rightarrow> mm_state \<Rightarrow> addr" where
  "MmGetVirtualForPhysical M pa s = (case to_virt M pa (mm_gm s) of None \<Rightarrow> 0 | Some va \<Rightarrow> va)"

definition mm_copy_memory_physical :: u32 where "mm_copy_memory_physical = 0x1"
definition mm_copy_memory_virtual :: u32 where "mm_copy_memory_virtual = 0x2"

definition MmCopyMemory :: "mm_ops \<Rightarrow> addr \<Rightarrow> addr \<Rightarrow> u64 \<Rightarrow> u32 \<Rightarrow> addr \<Rightarrow> mm_service" where
  "MmCopyMemory M target source n flags transferred s =
     (let kind = flags AND (mm_copy_memory_physical OR mm_copy_memory_virtual) in
      if kind \<noteq> mm_copy_memory_physical \<and> kind \<noteq> mm_copy_memory_virtual then Inr (STATUS_INVALID_PARAMETER, s)
      else
        case (if kind = mm_copy_memory_physical then rd_phys M (unat n) source (mm_gm s)
              else g_read (unat n) source (mm_gm s)) of
          Inl e \<Rightarrow> bind_result (mm_write_opt transferred 0 s) (\<lambda>s. Inr (STATUS_INVALID_ADDRESS, s))
        | Inr buffer \<Rightarrow>
            bind_result (mm_mem (g_write target buffer) s) (\<lambda>s.
            bind_result (mm_write_opt transferred n s) (\<lambda>s. Inr (STATUS_SUCCESS, s))))"

definition map_io_space :: "mm_ops \<Rightarrow> addr \<Rightarrow> u64 \<Rightarrow> mm_state \<Rightarrow> addr \<times> mm_state" where
  "map_io_space M pa n s =
     (case try_map_phys M (mdl_page_base pa) (n + mdl_page_offset pa) kernel_rw (mm_gm s) of
        (Inl e, g) \<Rightarrow> (0, mm_set g s)
      | (Inr va, g) \<Rightarrow> (va + mdl_page_offset pa, mm_set g s))"

definition MmMapIoSpace :: "mm_ops \<Rightarrow> addr \<Rightarrow> u64 \<Rightarrow> mm_state \<Rightarrow> addr \<times> mm_state" where
  "MmMapIoSpace M pa n s = map_io_space M pa n s"

definition MmMapIoSpaceEx :: "mm_ops \<Rightarrow> addr \<Rightarrow> u64 \<Rightarrow> mm_state \<Rightarrow> addr \<times> mm_state" where
  "MmMapIoSpaceEx M pa n s = map_io_space M pa n s"

definition MmUnmapIoSpace :: "mm_ops \<Rightarrow> addr \<Rightarrow> u64 \<Rightarrow> mm_state \<Rightarrow> emu_error + mm_state" where
  "MmUnmapIoSpace M base n s =
     mm_mem (unmap_range M (mdl_page_base base) (n + mdl_page_offset base)) s"

section \<open>Contiguous memory\<close>

definition allocate_contiguous :: "mm_ops \<Rightarrow> allocator \<Rightarrow> u64 \<Rightarrow> u64 \<Rightarrow> mm_state \<Rightarrow> emu_error + addr \<times> mm_state" where
  "allocate_contiguous M alloc n highest s =
     bind_result (mm_pool_allocate alloc ((n + page_size - 1) AND NOT (page_size - 1)) ''MmCo'' s) (\<lambda>(a, s).
     if a = 0 then Inr (0, s)
     else
       let pa = (case to_phys M a (mm_gm s) of None \<Rightarrow> 0 | Some pa \<Rightarrow> pa) in
       if highest < pa then Inr (0, mm_pool_free a s) else Inr (a, s))"

definition MmAllocateContiguousMemorySpecifyCache ::
  "mm_ops \<Rightarrow> allocator \<Rightarrow> u64 \<Rightarrow> u64 \<Rightarrow> mm_state \<Rightarrow> emu_error + addr \<times> mm_state" where
  "MmAllocateContiguousMemorySpecifyCache M alloc n highest s = allocate_contiguous M alloc n highest s"

definition MmAllocateContiguousNodeMemory ::
  "mm_ops \<Rightarrow> allocator \<Rightarrow> u64 \<Rightarrow> u64 \<Rightarrow> mm_state \<Rightarrow> emu_error + addr \<times> mm_state" where
  "MmAllocateContiguousNodeMemory M alloc n highest s = allocate_contiguous M alloc n highest s"

definition MmFreeContiguousMemory :: "addr \<Rightarrow> mm_state \<Rightarrow> mm_state" where
  "MmFreeContiguousMemory a = mm_pool_free a"

definition MmAllocateIndependentPages :: "allocator \<Rightarrow> u64 \<Rightarrow> mm_state \<Rightarrow> emu_error + addr \<times> mm_state" where
  "MmAllocateIndependentPages alloc n s =
     (let rounded = (n + 0x1000 - 1) AND NOT (0x1000 - 1) in
      if rounded \<noteq> 0 then mm_pool_allocate alloc rounded ''MmIp'' s else Inr (0, s))"

definition MmFreeIndependentPages :: "addr \<Rightarrow> mm_state \<Rightarrow> mm_state" where
  "MmFreeIndependentPages a = mm_pool_free a"

definition MmGetPhysicalMemoryRanges :: "mm_ops \<Rightarrow> allocator \<Rightarrow> mm_state \<Rightarrow> emu_error + addr \<times> mm_state" where
  "MmGetPhysicalMemoryRanges M alloc s =
     (let entries = le_enc 8 (fst (ram_range M)) @ le_enc 8 (snd (ram_range M)) @ replicate 16 0 in
      bind_result (mm_pool_allocate alloc (of_nat (length entries)) ''MmPh'' s) (\<lambda>(a, s).
      if a = 0 then Inr (0, s) else bind_result (mm_mem (g_write a entries) s) (\<lambda>s. Inr (a, s))))"

section \<open>Views in system space\<close>

definition MmCreateSection :: "(u8 list \<Rightarrow> u8 list) \<Rightarrow> allocator \<Rightarrow> addr \<Rightarrow> addr \<Rightarrow> u32 \<Rightarrow> u64 \<Rightarrow> mm_service" where
  "MmCreateSection virtual_image alloc section_object maximum_size allocation_attributes file_handle s =
     (if section_object = 0 then Inr (STATUS_INVALID_PARAMETER, s)
      else
        bind_result (if maximum_size \<noteq> 0 then g_get 8 maximum_size (mm_gm s) else Inr (0 :: u64)) (\<lambda>max_size.
        let is_image = (allocation_attributes AND sec_image \<noteq> 0);
            host = (if file_handle = 0 then Some (None, [])
                    else map_option (\<lambda>(a, f). (to_file f, to_path f)) (file_at file_handle (mf s))) in
        case host of
          None \<Rightarrow> Inr (STATUS_INVALID_HANDLE, s)
        | Some (file, path) \<Rightarrow>
            if file \<noteq> None \<and> file_data (the file) (mf s) = [] then Inr (STATUS_MAPPED_FILE_SIZE_ZERO, s)
            else if file = None \<and> max_size <=s 0 then Inr (STATUS_INVALID_PARAMETER, s)
            else
              let image = (case file of Some f \<Rightarrow> if is_image then virtual_image (file_data f (mf s)) else [] | None \<Rightarrow> []);
                  sz = (if image \<noteq> [] then of_nat (length image)
                        else case file of Some f \<Rightarrow> of_nat (length (file_data f (mf s))) | None \<Rightarrow> max_size) in
              bind_result (make_section alloc (Section_host file path sz is_image image) (mf s)) (\<lambda>(a, f).
              let s = s\<lparr>mf := f\<rparr> in
              if a = 0 then Inr (STATUS_INSUFFICIENT_RESOURCES, s)
              else bind_result (mm_mem (g_put 8 section_object a) s) (\<lambda>s. Inr (STATUS_SUCCESS, s)))))"

definition MmMapViewInSystemSpace :: "mm_ops \<Rightarrow> addr \<Rightarrow> addr \<Rightarrow> addr \<Rightarrow> mm_service" where
  "MmMapViewInSystemSpace M section mapped_base view_size s =
     (case get_object as_section section (nt_state.objs (fnt (mf s))) of
        None \<Rightarrow> Inr (STATUS_INVALID_PARAMETER, s)
      | Some hst \<Rightarrow>
          bind_result (if view_size \<noteq> 0 then g_get 8 view_size (mm_gm s) else Inr (0 :: u64)) (\<lambda>asked.
          let sz = (if asked = 0 then to_size hst else asked) in
          if sz = 0 then Inr (STATUS_INVALID_PARAMETER, s)
          else
            bind_result (space_alloc M sz kernel_rw (mm_gm s)) (\<lambda>(base, g).
            let s = mm_set g s in
            if base = 0 then Inr (STATUS_INSUFFICIENT_RESOURCES, s)
            else
              let source = (if to_image hst \<noteq> [] then to_image hst
                            else case to_file hst of Some f \<Rightarrow> file_data f (mf s) | None \<Rightarrow> []) in
              bind_result (if source \<noteq> [] then mm_mem (g_write base (take (unat sz) source)) s else Inr s) (\<lambda>s.
              bind_result (mm_write_opt mapped_base base s) (\<lambda>s.
              bind_result (mm_write_opt view_size sz s) (\<lambda>s.
                Inr (STATUS_SUCCESS, s\<lparr>sys_views := umap_set base sz (sys_views s)\<rparr>)))))))"

definition MmUnmapViewInSystemSpace :: "mm_ops \<Rightarrow> addr \<Rightarrow> mm_service" where
  "MmUnmapViewInSystemSpace M mapped_base s =
     (case umap_find mapped_base (sys_views s) of
        None \<Rightarrow> Inr (STATUS_INVALID_PARAMETER, s)
      | Some sz \<Rightarrow>
          bind_result (mm_mem (unmap_range M mapped_base sz) s) (\<lambda>s.
            Inr (STATUS_SUCCESS, s\<lparr>sys_views := umap_erase mapped_base (sys_views s)\<rparr>)))"

section \<open>What a list describes\<close>

lemma mm_mem_gm: "mm_mem f s = Inr s' \<longleftrightarrow> (\<exists>g. f (mm_gm s) = Inr g \<and> s' = mm_set g s)"
  by (auto simp: mm_mem_def f_mem_def mm_set_def split: sum.splits)

lemma mm_gm_set [simp]: "mm_gm (mm_set g s) = g" "mm_set g (mm_set h s) = mm_set g s"
  by (simp_all add: mm_set_def)

text \<open>The unit translates every address the same way whatever is written to the guest memory.\<close>

definition steady :: "mm_ops \<Rightarrow> bool" where
  "steady M \<longleftrightarrow> (\<forall>y bs g g' va. g_write y bs g = Inr g' \<longrightarrow> to_phys M va g' = to_phys M va g)"

definition frame_of :: "mm_ops \<Rightarrow> gmem \<Rightarrow> addr \<Rightarrow> u64" where
  "frame_of M g va = (case to_phys M va g of None \<Rightarrow> 0 | Some pa \<Rightarrow> pa) div mdl_page_size"

lemma frame_of_write: "steady M \<Longrightarrow> g_write y bs g = Inr g' \<Longrightarrow> frame_of M g' va = frame_of M g va"
  unfolding steady_def frame_of_def by metis

lemma write_frames_list:
  assumes "write_frames M n va a s = Inr s'" and "8 * n < 2 ^ 64" and "steady M"
  shows "(\<forall>i < n. g_get 8 (a + of_nat (8 * i)) (mm_gm s') = Inr (frame_of M (mm_gm s) (va + of_nat i * mdl_page_size))) \<and>
    (\<forall>x. x \<notin> span a (8 * n) \<longrightarrow> mm_gm s' x = mm_gm s x) \<and> s' = mm_set (mm_gm s') s"
  using assms(1,2)
proof (induction n arbitrary: va a s)
  case 0
  then show ?case by (simp add: mm_set_def)
next
  case (Suc n)
  let ?f = "frame_of M (mm_gm s)"
  obtain g where g: "g_put 8 a (?f va) (mm_gm s) = Inr g" and rest: "write_frames M n (va + mdl_page_size) (a + 8) (mm_set g s) = Inr s'"
    using Suc.prems(1) by (auto simp: frame_of_def mm_mem_gm split: sum.splits)
  have fr: "frame_of M g x = ?f x" for x using frame_of_write [OF assms(3) g [unfolded g_put_def]] by simp
  from Suc.IH [OF rest] Suc.prems(2) have
    ih: "\<And>i. i < n \<Longrightarrow> g_get 8 (a + 8 + of_nat (8 * i)) (mm_gm s') = Inr (?f (va + mdl_page_size + of_nat i * mdl_page_size))"
    "\<And>x. x \<notin> span (a + 8) (8 * n) \<Longrightarrow> mm_gm s' x = g x" "s' = mm_set (mm_gm s') s"
    by (simp_all add: fr)
  have apart: "span (a + 8) (8 * n) \<inter> span a 8 = {}"
    using span_end_disjoint [of 8 "8 * n" a] Suc.prems(2) by auto
  have "g_get 8 a (mm_gm s') = (g_get 8 a g :: emu_error + u64)"
    by (rule g_get_cong) (use ih(2) apart in blast)
  then have first: "g_get 8 a (mm_gm s') = Inr (?f va)"
    using g_get_put_same [OF g] by (simp add: take_bit_word_eq_self)
  have "g_get 8 (a + of_nat (8 * i)) (mm_gm s') = Inr (?f (va + of_nat i * mdl_page_size))" if "i < Suc n" for i
    using that first ih(1) by (cases i) (simp_all add: algebra_simps)
  moreover have "mm_gm s' x = mm_gm s x" if "x \<notin> span a (8 * Suc n)" for x
  proof -
    have "x \<notin> span (a + 8) (8 * n)" "x \<notin> span a 8"
      using that span_offset [of 8 "8 * n" "8 * Suc n" a] span_mono [of 8 "8 * Suc n" a] by auto
    then show ?thesis using ih(2) g_put_other [OF g] by simp
  qed
  ultimately show ?case using ih(3) by blast
qed

text \<open>
  Building a list for memory that is mapped: the address of the buffer and the flags go into the
  list, the frames of the pages follow it, and nothing else changes.
\<close>

lemma build_mdl_frames:
  assumes run: "MmBuildMdlForNonPagedPool M list s = Inr s'" and "list \<noteq> 0" and steady: "steady M"
    and m: "g_read sizeof_mdl list (mm_gm s) = Inr m"
    and start: "start = field_get MDL_start_va 8 m"
    and n: "n = unat (mdl_page_count start (ucast (field_get MDL_byte_count 4 m :: u32)))" and "sizeof_mdl + 8 * n < 2 ^ 64"
  shows "\<forall>i < n. g_get 8 (list + of_nat (sizeof_mdl + 8 * i)) (mm_gm s') =
      Inr (frame_of M (mm_gm s) (mdl_page_base start + of_nat i * mdl_page_size))"
    and "g_get 8 (list + of_nat MDL_mapped_system_va) (mm_gm s') = Inr (start + ucast (field_get MDL_byte_offset 4 m :: u32))"
    and "\<forall>x. x \<notin> span list (sizeof_mdl + 8 * n) \<longrightarrow> mm_gm s' x = mm_gm s x"
proof -
  let ?va = "start + ucast (field_get MDL_byte_offset 4 m :: u32)"
  let ?fl = "field_get MDL_flags 2 m OR mdl_mapped_to_system_va OR mdl_pages_locked OR mdl_source_is_nonpaged_pool"
  let ?m = "field_put MDL_flags 2 ?fl (field_put MDL_mapped_system_va 8 ?va m)"
  obtain g where g: "g_write list ?m (mm_gm s) = Inr g"
    and w: "write_frames M n (mdl_page_base start) (list + of_nat sizeof_mdl) (mm_set g s) = Inr s'"
    using run assms(2) m unfolding n start by (auto simp: MmBuildMdlForNonPagedPool_def Let_def mm_mem_gm split: sum.splits)
  have len: "length m = sizeof_mdl" using g_read_mapped [OF m] by simp
  then have len': "length ?m = sizeof_mdl" by (simp add: mdl_defs)
  have small: "8 * n < 2 ^ 64" using assms(7) by simp
  note frames = write_frames_list [OF w small steady]
  then show "\<forall>i < n. g_get 8 (list + of_nat (sizeof_mdl + 8 * i)) (mm_gm s') =
      Inr (frame_of M (mm_gm s) (mdl_page_base start + of_nat i * mdl_page_size))"
    using frame_of_write [OF steady g] by (simp add: algebra_simps)
  have apart: "span (list + of_nat sizeof_mdl) (8 * n) \<inter> span list sizeof_mdl = {}"
    using span_end_disjoint [of sizeof_mdl "8 * n" list] assms(7) by auto
  have "g_read sizeof_mdl list (mm_gm s') = g_read sizeof_mdl list g"
    by (rule g_read_cong) (use frames apart in \<open>auto simp: disjoint_iff\<close>)
  then have r: "g_read sizeof_mdl list (mm_gm s') = Inr ?m"
    using g_read_write_same [OF g] len' by (simp add: mdl_defs)
  show "g_get 8 (list + of_nat MDL_mapped_system_va) (mm_gm s') = Inr ?va"
    using g_get_field [OF r, of MDL_mapped_system_va 8, where 'a = 64] len
    by (simp add: mdl_defs field_get_put_other field_get_put_same take_bit_word_eq_self)
  show "\<forall>x. x \<notin> span list (sizeof_mdl + 8 * n) \<longrightarrow> mm_gm s' x = mm_gm s x"
  proof (intro allI impI)
    fix x assume "x \<notin> span list (sizeof_mdl + 8 * n)"
    then have "x \<notin> span (list + of_nat sizeof_mdl) (8 * n)" "x \<notin> span list sizeof_mdl"
      using span_offset [of sizeof_mdl "8 * n" "sizeof_mdl + 8 * n" list] span_mono [of sizeof_mdl "sizeof_mdl + 8 * n" list] by auto
    then show "mm_gm s' x = mm_gm s x" using frames g_write_other [OF g, of x] len' by simp
  qed
qed

text \<open>
  The list of a buffer that does not start on a page holds one frame too few: the pages are counted
  from the page the buffer starts in, without the offset into it. Here the buffer touches two pages.
\<close>

lemma build_counts_short:
  "mdl_page_count 0x1800 0x1000 = 2" "mdl_page_count (mdl_page_base 0x1800) 0x1000 = 1"
  "mdl_page_base va = va \<Longrightarrow> mdl_page_count (mdl_page_base va) n = mdl_page_count va n"
  by (simp_all add: mdl_page_count_def mdl_page_offset_def mdl_page_base_def mdl_page_size_def)

text \<open>
  A new list, mapped before it is built, gives the page of the buffer and not the buffer: what the
  caller gets is off by the offset into the page.
\<close>

lemma new_mdl_fields:
  "length (new_mdl sz fl start count offset) = sizeof_mdl"
  "field_get MDL_start_va 8 (new_mdl sz fl start count offset) = start"
  "field_get MDL_mapped_system_va 8 (new_mdl sz fl start count offset) = (0 :: u64)"
  by (simp_all add: new_mdl_def mdl_defs field_get_def le_dec_enc take_bit_word_eq_self)

lemma map_forgets_offset:
  assumes "IoAllocateMdl alloc va n s = Inr (a, s')" and "a \<noteq> 0"
    and "MmMapLockedPagesSpecifyCache a s' = Inr (v, s'')"
  shows "v = mdl_page_base va"
proof -
  obtain s1 where "mm_mem (g_write a (new_mdl (ucast (mdl_size va (ucast n))) 0 (mdl_page_base va) n (ucast (mdl_page_offset va)))) s1 = Inr s'"
    using assms(1,2) by (auto simp: IoAllocateMdl_def Let_def split: sum.splits if_splits)
  then have "g_write a (new_mdl (ucast (mdl_size va (ucast n))) 0 (mdl_page_base va) n (ucast (mdl_page_offset va))) (mm_gm s1) = Inr (mm_gm s')"
    by (auto simp: mm_mem_gm)
  from g_read_write_same [OF this] have
    "g_read sizeof_mdl a (mm_gm s') = Inr (new_mdl (ucast (mdl_size va (ucast n))) 0 (mdl_page_base va) n (ucast (mdl_page_offset va)))"
    by (simp add: new_mdl_fields) (simp add: mdl_defs)
  then show ?thesis
    using assms(2,3) by (auto simp: MmMapLockedPagesSpecifyCache_def Let_def new_mdl_fields split: sum.splits)
qed

text \<open>Copying memory: what was read is what the target holds, and a source that cannot be read changes nothing but the count.\<close>

lemma copy_memory_correct:
  assumes "MmCopyMemory M target source n flags transferred s = Inr (st, s')"
    and "flags AND (mm_copy_memory_physical OR mm_copy_memory_virtual) = mm_copy_memory_virtual"
    and "span target (unat n) \<inter> span transferred 8 = {}"
  shows "if g_mapped (mm_gm s) source (unat n)
    then st = STATUS_SUCCESS \<and> g_read (unat n) target (mm_gm s') = g_read (unat n) source (mm_gm s) \<and>
      (transferred \<noteq> 0 \<longrightarrow> g_get 8 transferred (mm_gm s') = Inr n)
    else st = STATUS_INVALID_ADDRESS \<and> (\<forall>x. transferred = 0 \<or> x \<notin> span transferred 8 \<longrightarrow> mm_gm s' x = mm_gm s x) \<and>
      (transferred \<noteq> 0 \<longrightarrow> g_get 8 transferred (mm_gm s') = Inr (0 :: u64))"
proof (cases "g_mapped (mm_gm s) source (unat n)")
  case True
  then obtain bs where bs: "g_read (unat n) source (mm_gm s) = Inr bs" "length bs = unat n" using g_read_total by blast
  with assms(1,2) obtain g where g: "g_write target bs (mm_gm s) = Inr g"
    and st: "st = STATUS_SUCCESS" and w: "mm_write_opt transferred n (mm_set g s) = Inr s'"
    by (auto simp: MmCopyMemory_def mm_copy_memory_physical_def mm_copy_memory_virtual_def mm_mem_gm split: sum.splits)
  have r: "g_read (unat n) target g = Inr bs" using g_read_write_same [OF g] bs(2) unat_lt64 [of n] by simp
  show ?thesis
  proof (cases "transferred = 0")
    case True
    then show ?thesis using w r bs st \<open>g_mapped _ _ _\<close> by (auto simp: mm_write_opt_def)
  next
    case False
    then obtain g2 where g2: "g_put 8 transferred n g = Inr g2" "s' = mm_set g2 s"
      using w by (auto simp: mm_write_opt_def mm_mem_gm)
    moreover have "g_read (unat n) target g2 = Inr bs"
      using r g_read_write_other [OF g2(1) [unfolded g_put_def], of target "unat n"] assms(3) by (simp add: Int_commute)
    ultimately show ?thesis
      using bs st g_get_put_same [OF g2(1)] \<open>g_mapped _ _ _\<close> by (simp add: take_bit_word_eq_self)
  qed
next
  case False
  then obtain e where "g_read (unat n) source (mm_gm s) = Inl e"
    using g_read_mapped by (cases "g_read (unat n) source (mm_gm s)") blast+
  with assms(1,2) have st: "st = STATUS_INVALID_ADDRESS" and w: "mm_write_opt transferred 0 s = Inr s'"
    by (auto simp: MmCopyMemory_def mm_copy_memory_physical_def mm_copy_memory_virtual_def split: sum.splits)
  then show ?thesis
    using False g_put_other [of 8 transferred "0 :: u64" "mm_gm s"] g_get_put_same [of 8 transferred "0 :: u64" "mm_gm s"]
    by (auto simp: mm_write_opt_def mm_mem_gm split: if_splits)
qed

end
