(* ===== verification/Nt_Task.thy ===== *)
theory Nt_Task
  imports Ob_Callbacks Guest_Struct
begin

text \<open>
  Threads as programs and drivers handle them: \<open>kernel/win/modules/nt_task_ops.cpp\<close> and
  \<open>nt_thread_ops.cpp\<close> without making and ending threads. \<open>procthreads\<close> are the threads on the list of
  the process, \<open>ended\<close> those that are off it and still held by an object; \<open>exit_statuses\<close> and \<open>tebs\<close>
  give the exit status and the user block of a thread, zero for a system thread. \<open>char\<close> is signed.
\<close>

section \<open>State\<close>

record task_state =
  tn :: nt_state
  ended :: "(nat \<times> win_thread) list"
  exit_statuses :: "nat \<Rightarrow> NTSTATUS"
  tebs :: "nat \<Rightarrow> addr"
  task_pid :: u32
  cpu_id :: u32

type_synonym task_service = "task_state \<Rightarrow> emu_error + NTSTATUS \<times> task_state"

definition current_thread_handle :: u64 where "current_thread_handle = NOT 1"
definition this_process_handle :: u64 where "this_process_handle = NOT 0"

definition task_mem :: "(gmem \<Rightarrow> emu_error + gmem) \<Rightarrow> task_state \<Rightarrow> emu_error + task_state" where
  "task_mem f s = bind_result (with_mem f (tn s)) (\<lambda>n. Inr (s\<lparr>tn := n\<rparr>))"

definition task_write_opt :: "nat \<Rightarrow> addr \<Rightarrow> 'a::len word \<Rightarrow> task_state \<Rightarrow> emu_error + task_state" where
  "task_write_opt n p v s = (if p \<noteq> 0 then task_mem (g_put n p v) s else Inr s)"

definition task_yield :: "task_state \<Rightarrow> task_state" where
  "task_yield s = s\<lparr>tn := (tn s)\<lparr>yielded := True\<rparr>\<rparr>"

text \<open>A thread by its number, on the list or off it.\<close>

definition task_thread :: "nat \<Rightarrow> task_state \<Rightarrow> win_thread option" where
  "task_thread i s = (case map_of (procthreads (tn s)) i of Some t \<Rightarrow> Some t | None \<Rightarrow> map_of (ended s) i)"

definition put_thread :: "nat \<Rightarrow> win_thread \<Rightarrow> task_state \<Rightarrow> task_state" where
  "put_thread i t s =
     (let put = map (\<lambda>(j, u). (j, if j = i then t else u)) in
      s\<lparr>tn := (tn s)\<lparr>procthreads := put (procthreads (tn s))\<rparr>, ended := put (ended s)\<rparr>)"

definition find_ethread :: "addr \<Rightarrow> task_state \<Rightarrow> nat option" where
  "find_ethread a s = map_option fst (List.find (\<lambda>(i, t). ethread t = a) (procthreads (tn s)))"

definition thread_from_handle :: "u64 \<Rightarrow> task_state \<Rightarrow> (nat \<times> win_thread) option" where
  "thread_from_handle handle s =
     (let i = (if handle = current_thread_handle then current (tn s)
               else case lookup_handle handle (table (tn s)) of
                      None \<Rightarrow> None
                    | Some e \<Rightarrow>
                        (case get_object as_thread (body_addr e) (objs (tn s)) of
                           Some i \<Rightarrow> Some i
                         | None \<Rightarrow> find_ethread (body_addr e) s)) in
      case i of None \<Rightarrow> None | Some i \<Rightarrow> map_option (Pair i) (task_thread i s))"

section \<open>Suspending and resuming\<close>

definition SuspendThread :: "u64 \<Rightarrow> addr \<Rightarrow> task_service" where
  "SuspendThread handle previous_count s =
     (case thread_from_handle handle s of
        None \<Rightarrow> Inr (STATUS_INVALID_HANDLE, s)
      | Some (i, t) \<Rightarrow>
          bind_result (suspend (t, gm (tn s))) (\<lambda>(previous, t, g).
          let s = put_thread i t s; s = s\<lparr>tn := (tn s)\<lparr>gm := g\<rparr>\<rparr> in
          bind_result (task_write_opt 4 previous_count previous s) (\<lambda>s.
            Inr (STATUS_SUCCESS, if current (tn s) = Some i then task_yield s else s))))"

definition ResumeThread :: "u64 \<Rightarrow> addr \<Rightarrow> task_service" where
  "ResumeThread handle previous_count s =
     (case thread_from_handle handle s of
        None \<Rightarrow> Inr (STATUS_INVALID_HANDLE, s)
      | Some (i, t) \<Rightarrow>
          bind_result (resume_thread (t, gm (tn s))) (\<lambda>(previous, t, g, wake).
          let s = put_thread i t s; s = s\<lparr>tn := (tn s)\<lparr>gm := g, woken := woken (tn s) \<or> wake\<rparr>\<rparr> in
          bind_result (task_write_opt 4 previous_count previous s) (\<lambda>s. Inr (STATUS_SUCCESS, s))))"

section \<open>Alerts\<close>

definition AlertThreadByThreadId :: "u64 \<Rightarrow> task_service" where
  "AlertThreadByThreadId thread_id s =
     (let i = unat (ucast thread_id :: u32) in
      case map_of (procthreads (tn s)) i of
        None \<Rightarrow> Inr (STATUS_INVALID_CID, s)
      | Some t \<Rightarrow> Inr (STATUS_SUCCESS, put_thread i (alert t) s))"

definition WaitForAlertByThreadId :: "int \<Rightarrow> int \<Rightarrow> addr \<Rightarrow> task_service" where
  "WaitForAlertByThreadId now host_now timeout s =
     (case (current (tn s), current_thread (tn s)) of
        (Some i, Some t) \<Rightarrow>
          (case take_alert t of
             (True, t) \<Rightarrow> Inr (STATUS_SUCCESS, put_thread i t s)
           | (False, t) \<Rightarrow>
               bind_result (read_timeout now timeout (gm (tn s))) (\<lambda>(deadline, timed).
               let w = \<lparr>ws_objects = [], ws_all = False, ws_deadline = deadline, ws_timed = timed,
                        ws_satisfied = False, ws_status = 0\<rparr> in
               Inr (STATUS_SUCCESS, task_yield (put_thread i (begin_wait now host_now w t) s))))
      | _ \<Rightarrow> Inr (STATUS_INVALID_PARAMETER, s))"

section \<open>Delays\<close>

text \<open>\<open>duration_cast<milliseconds>\<close>: towards zero.\<close>

definition trunc_ms :: "int \<Rightarrow> int" where
  "trunc_ms ticks = (if 0 \<le> ticks then ticks div 10000 else - (- ticks div 10000))"

definition delay_execution :: "int \<Rightarrow> int \<Rightarrow> addr \<Rightarrow> task_service" where
  "delay_execution now host_now interval s =
     (if interval = 0 then Inr (STATUS_INVALID_PARAMETER, s)
      else
        bind_result (g_get 8 interval (gm (tn s))) (\<lambda>v :: u64.
        let ticks = sint v;
            ms = trunc_ms (if ticks < 0 then - ticks else ticks - now);
            s = (case (current (tn s), current_thread (tn s)) of
                   (Some i, Some t) \<Rightarrow> if 0 < ms then put_thread i (sleep_for host_now ms t) s else s
                 | _ \<Rightarrow> s) in
        Inr (STATUS_SUCCESS, task_yield s)))"

definition DelayExecution :: "int \<Rightarrow> int \<Rightarrow> addr \<Rightarrow> task_service" where
  "DelayExecution now host_now interval s = delay_execution now host_now interval s"

definition KeDelayExecutionThread :: "int \<Rightarrow> int \<Rightarrow> addr \<Rightarrow> task_service" where
  "KeDelayExecutionThread now host_now interval s = delay_execution now host_now interval s"

definition YieldExecution :: task_service where
  "YieldExecution s = Inr (STATUS_SUCCESS, task_yield s)"

section \<open>Information about threads\<close>

definition thread_basic_information :: u32 where "thread_basic_information = 0"
definition thread_times :: u32 where "thread_times = 1"
definition thread_am_i_last_thread :: u32 where "thread_am_i_last_thread = 12"
definition thread_quantum_reset :: u32 where "thread_quantum_reset = 14"
definition thread_hide_from_debugger :: u32 where "thread_hide_from_debugger = 17"
definition thread_is_terminated :: u32 where "thread_is_terminated = 20"

definition thread_basic_information_t :: "NTSTATUS \<Rightarrow> addr \<Rightarrow> u64 \<Rightarrow> u64 \<Rightarrow> u8 list" where
  "thread_basic_information_t st teb pid i =
     le_enc 4 st @ replicate 4 0 @ le_enc 8 teb @ le_enc 8 pid @ le_enc 8 i @ le_enc 8 (1 :: u64) @ replicate 8 0"

definition kernel_user_times_t :: "u64 \<Rightarrow> u8 list" where
  "kernel_user_times_t created = le_enc 8 created @ replicate 24 0"

text \<open>What a class answers with.\<close>

definition thread_answer :: "u64 \<Rightarrow> nat \<Rightarrow> u32 \<Rightarrow> task_state \<Rightarrow> u8 list option" where
  "thread_answer system_time i info_class s =
     (if info_class = thread_basic_information then
        Some (thread_basic_information_t (exit_statuses s i) (tebs s i) (ucast (task_pid s)) (ucast (of_nat i :: u32)))
      else if info_class = thread_times then Some (kernel_user_times_t system_time)
      else if info_class = thread_is_terminated then Some (le_enc 4 (0 :: u32))
      else if info_class = thread_am_i_last_thread then
        Some (le_enc 4 (if length (filter (\<lambda>(j, t). \<not> finished t) (procthreads (tn s))) \<le> 1 then 1 else 0 :: u32))
      else None)"

definition QueryInformationThread :: "u64 \<Rightarrow> u64 \<Rightarrow> u32 \<Rightarrow> addr \<Rightarrow> u32 \<Rightarrow> addr \<Rightarrow> task_service" where
  "QueryInformationThread system_time handle info_class info len return_length s =
     (case thread_from_handle handle s of
        None \<Rightarrow> Inr (STATUS_INVALID_HANDLE, s)
      | Some (i, t) \<Rightarrow>
          (case thread_answer system_time i info_class s of
             None \<Rightarrow> Inr (STATUS_INVALID_INFO_CLASS, s)
           | Some bytes \<Rightarrow>
               bind_result (task_write_opt 4 return_length (of_nat (length bytes) :: u32) s) (\<lambda>s.
               if unat len < length bytes then Inr (STATUS_INFO_LENGTH_MISMATCH, s)
               else bind_result (task_mem (g_write info bytes) s) (\<lambda>s. Inr (STATUS_SUCCESS, s)))))"

definition SetInformationThread :: "u64 \<Rightarrow> u32 \<Rightarrow> task_service" where
  "SetInformationThread handle info_class s =
     (case thread_from_handle handle s of
        None \<Rightarrow> Inr (STATUS_INVALID_HANDLE, s)
      | Some _ \<Rightarrow>
          Inr (if info_class = thread_hide_from_debugger \<or> info_class = thread_quantum_reset then STATUS_SUCCESS
               else STATUS_INVALID_INFO_CLASS, s))"

definition OpenThreadToken :: "addr \<Rightarrow> task_service" where
  "OpenThreadToken token_handle s =
     bind_result (task_write_opt 8 token_handle (0 :: u64) s) (\<lambda>s. Inr (STATUS_NO_TOKEN, s))"

definition GetCurrentProcessorNumberEx :: "addr \<Rightarrow> task_state \<Rightarrow> emu_error + u32 \<times> task_state" where
  "GetCurrentProcessorNumberEx processor_number s =
     bind_result (if processor_number \<noteq> 0 then task_mem (g_write processor_number [0, 0, ucast (cpu_id s), 0]) s
                  else Inr s) (\<lambda>s. Inr (cpu_id s, s))"

section \<open>Information about the process\<close>

definition process_basic_information :: u32 where "process_basic_information = 0"
definition process_debug_port :: u32 where "process_debug_port = 7"
definition process_wow64_information :: u32 where "process_wow64_information = 26"
definition process_debug_object_handle :: u32 where "process_debug_object_handle = 30"
definition process_debug_flags :: u32 where "process_debug_flags = 31"
definition process_tls_information :: u32 where "process_tls_information = 35"
definition process_cookie :: u32 where "process_cookie = 36"

definition process_basic_information_t :: "u64 \<Rightarrow> u8 list" where
  "process_basic_information_t pid =
     replicate 16 0 @ le_enc 8 (1 :: u64) @ le_enc 4 (8 :: u32) @ replicate 4 0 @ le_enc 8 pid @ replicate 8 0"

definition process_answer :: "u32 \<Rightarrow> u32 \<Rightarrow> u8 list option" where
  "process_answer pid info_class =
     (if info_class = process_basic_information then Some (process_basic_information_t (ucast pid))
      else if info_class = process_debug_port \<or> info_class = process_debug_object_handle \<or>
        info_class = process_wow64_information then Some (replicate 8 0)
      else if info_class = process_cookie then Some (le_enc 4 (0x1EE7C0DE :: u32))
      else None)"

definition QueryInformationProcess :: "u64 \<Rightarrow> u32 \<Rightarrow> addr \<Rightarrow> u32 \<Rightarrow> addr \<Rightarrow> task_service" where
  "QueryInformationProcess handle info_class info len return_length s =
     (if handle \<noteq> 0 \<and> handle \<noteq> this_process_handle \<and> lookup_handle handle (table (tn s)) = None
      then Inr (STATUS_INVALID_HANDLE, s)
      else case process_answer (task_pid s) info_class of
        None \<Rightarrow> Inr (STATUS_INVALID_INFO_CLASS, s)
      | Some bytes \<Rightarrow>
          bind_result (task_write_opt 4 return_length (of_nat (length bytes) :: u32) s) (\<lambda>s.
          if unat len < length bytes then Inr (STATUS_INFO_LENGTH_MISMATCH, s)
          else
            bind_result (task_mem (g_write info bytes) s) (\<lambda>s.
              Inr (if info_class = process_debug_object_handle then STATUS_PORT_NOT_SET else STATUS_SUCCESS, s))))"

definition process_tls_replace_index :: u32 where "process_tls_replace_index = 0"
definition process_tls_replace_vector :: u32 where "process_tls_replace_vector = 1"
definition TEB_ThreadLocalStoragePointer :: addr where "TEB_ThreadLocalStoragePointer = 0x58"

text \<open>
  One thread after the other, each with the next entry of the caller's array. The result says
  whether a slot of a vector was not there.
\<close>

fun tls_swap :: "(nat \<Rightarrow> addr) \<Rightarrow> u32 \<Rightarrow> u32 option \<Rightarrow> addr \<Rightarrow> nat list \<Rightarrow> u32 \<Rightarrow> gmem \<Rightarrow> emu_error + bool \<times> gmem" where
  "tls_swap teb count slot entries [] index g = Inr (False, g)"
| "tls_swap teb count slot entries (i # js) index g =
     (if count \<le> index \<or> teb i = 0 then tls_swap teb count slot entries js index g
      else
        let entry = entries + ucast index * 16; pointer = teb i + TEB_ThreadLocalStoragePointer in
        bind_result (g_read 16 entry g) (\<lambda>data.
        let new = field_get 0 8 data :: u64;
            go_on = (\<lambda>old g. bind_result (g_write entry (field_put 8 8 (old :: u64) data) g)
                       (tls_swap teb count slot entries js (index + 1))) in
        bind_result (g_get 8 pointer g) (\<lambda>vector.
        case slot of
          None \<Rightarrow> bind_result (g_put 8 pointer new g) (go_on vector)
        | Some n \<Rightarrow>
            if vector = 0 then go_on 0 g
            else
              (case g_get 8 (vector + ucast n * 8) g of
                 Inl e \<Rightarrow> Inr (True, g)
               | Inr old \<Rightarrow>
                   (case g_put 8 (vector + ucast n * 8) new g of
                      Inl e \<Rightarrow> Inr (True, g)
                    | Inr g \<Rightarrow> go_on old g)))))"

definition SetInformationProcess :: "u32 \<Rightarrow> addr \<Rightarrow> u32 \<Rightarrow> task_service" where
  "SetInformationProcess info_class info len s =
     (if info_class = process_tls_information then
        if unat len < 0x18 then Inr (STATUS_INFO_LENGTH_MISMATCH, s)
        else
          bind_result (g_read 0x18 info (gm (tn s))) (\<lambda>hdr.
          let operation = field_get 4 4 hdr :: u32; count = field_get 8 4 hdr :: u32;
              slot = (if operation = process_tls_replace_index then Some (field_get 0xC 4 hdr) else None) in
          if operation \<noteq> process_tls_replace_index \<and> operation \<noteq> process_tls_replace_vector
          then Inr (STATUS_INVALID_PARAMETER, s)
          else if (unat len - 0x18) div 16 < unat count then Inr (STATUS_INFO_LENGTH_MISMATCH, s)
          else if current_thread (tn s) = None then Inr (STATUS_INVALID_HANDLE, s)
          else
            bind_result (tls_swap (tebs s) count slot (info + 0x18) (map fst (procthreads (tn s))) 0 (gm (tn s)))
              (\<lambda>(failed, g). Inr (if failed then STATUS_ACCESS_VIOLATION else STATUS_SUCCESS, s\<lparr>tn := (tn s)\<lparr>gm := g\<rparr>\<rparr>)))
      else if info_class = process_debug_flags then Inr (STATUS_SUCCESS, s)
      else Inr (STATUS_INVALID_INFO_CLASS, s))"

section \<open>Priorities and the top level request\<close>

definition KTHREAD_Priority :: addr where "KTHREAD_Priority = 0xC3"
definition KTHREAD_Process :: addr where "KTHREAD_Process = 0x220"
definition KTHREAD_BasePriority :: addr where "KTHREAD_BasePriority = 0x233"
definition KPROCESS_BasePriority :: addr where "KPROCESS_BasePriority = 0x90"
definition ETHREAD_TopLevelIrp :: addr where "ETHREAD_TopLevelIrp = 0x550"

lemmas kthread_defs = KTHREAD_Priority_def KTHREAD_Process_def KTHREAD_BasePriority_def KPROCESS_BasePriority_def

definition set_priority :: "addr \<Rightarrow> u8 \<Rightarrow> gmem \<Rightarrow> emu_error + gmem" where
  "set_priority thread updated g =
     bind_result (g_put 1 (thread + KTHREAD_BasePriority) updated g) (g_put 1 (thread + KTHREAD_Priority) updated)"

definition KeSetBasePriorityThread :: "addr \<Rightarrow> u32 \<Rightarrow> task_state \<Rightarrow> emu_error + u32 \<times> task_state" where
  "KeSetBasePriorityThread thread increment s =
     (if thread = 0 then Inr (0, s)
      else
        bind_result (g_get 8 (thread + KTHREAD_Process) (gm (tn s))) (\<lambda>process :: u64.
        bind_result (if process \<noteq> 0 then g_get 1 (process + KPROCESS_BasePriority) (gm (tn s)) else Inr (0 :: u8)) (\<lambda>process_base.
        bind_result (g_get 1 (thread + KTHREAD_BasePriority) (gm (tn s))) (\<lambda>base :: u8.
        bind_result (task_mem (set_priority thread (ucast (scast process_base + increment))) s) (\<lambda>s.
          Inr (scast base - scast process_base, s))))))"

definition KeSetActualBasePriorityThread :: "addr \<Rightarrow> u32 \<Rightarrow> task_state \<Rightarrow> emu_error + u32 \<times> task_state" where
  "KeSetActualBasePriorityThread thread base_priority s =
     (if thread = 0 then Inr (0, s)
      else
        bind_result (g_get 1 (thread + KTHREAD_BasePriority) (gm (tn s))) (\<lambda>base :: u8.
        bind_result (task_mem (set_priority thread (ucast base_priority)) s) (\<lambda>s. Inr (scast base, s))))"

definition IoGetTopLevelIrp :: "task_state \<Rightarrow> emu_error + addr" where
  "IoGetTopLevelIrp s =
     (case current_thread (tn s) of
        None \<Rightarrow> Inr 0
      | Some t \<Rightarrow> if ethread t = 0 then Inr 0 else g_get 8 (ethread t + ETHREAD_TopLevelIrp) (gm (tn s)))"

definition IoSetTopLevelIrp :: "addr \<Rightarrow> task_state \<Rightarrow> emu_error + task_state" where
  "IoSetTopLevelIrp irp s =
     (case current_thread (tn s) of
        None \<Rightarrow> Inr s
      | Some t \<Rightarrow> if ethread t = 0 then Inr s else task_mem (g_put 8 (ethread t + ETHREAD_TopLevelIrp) irp) s)"

section \<open>What the calls do\<close>

lemma map_of_put: "map_of (map (\<lambda>(j, u). (j, if j = i then t else u)) xs) k =
    (if k = i \<and> map_of xs i \<noteq> None then Some t else map_of xs k)"
  by (induction xs) auto

lemma task_thread_put:
  "task_thread i s \<noteq> None \<Longrightarrow> task_thread i (put_thread i t s) = Some t"
  "j \<noteq> i \<Longrightarrow> task_thread j (put_thread i t s) = task_thread j s"
  by (auto simp: task_thread_def put_thread_def Let_def map_of_put split: option.splits)

lemma find_ethread_put:
  assumes "\<And>u. (i, u) \<in> set (procthreads (tn s)) \<Longrightarrow> ethread u = ethread t"
  shows "find_ethread a (put_thread i t s) = find_ethread a s"
proof -
  have "map_option fst (List.find (\<lambda>(j, u). ethread u = a) (map (\<lambda>(j, u). (j, if j = i then t else u)) xs)) =
      map_option fst (List.find (\<lambda>(j, u). ethread u = a) xs)"
    if "\<And>u. (i, u) \<in> set xs \<Longrightarrow> ethread u = ethread t" for xs
    using that
  proof (induction xs)
    case (Cons x xs)
    obtain j u where x: "x = (j, u)" by force
    have "ethread (if j = i then t else u) = ethread u" using Cons.prems [of u] x by auto
    moreover have "\<And>u. (i, u) \<in> set xs \<Longrightarrow> ethread u = ethread t" using Cons.prems by simp
    ultimately show ?case using Cons.IH by (simp add: x)
  qed simp
  from this [of "procthreads (tn s)"] assms show ?thesis by (simp add: find_ethread_def put_thread_def Let_def)
qed

text \<open>The threads of the process have one entry each.\<close>

definition threads_ok :: "task_state \<Rightarrow> bool" where
  "threads_ok s \<longleftrightarrow> distinct (map fst (procthreads (tn s)))"

lemma handle_after_put:
  assumes "threads_ok s" and "thread_from_handle h s = Some (i, t)" and "ethread t' = ethread t"
  shows "thread_from_handle h (put_thread i t' s) = Some (i, t')"
proof -
  have known: "task_thread i s = Some t" using assms(2) by (auto simp: thread_from_handle_def Let_def split: option.splits if_splits)
  have same: "ethread u = ethread t'" if "(i, u) \<in> set (procthreads (tn s))" for u
  proof -
    have "map_of (procthreads (tn s)) i = Some u" using that assms(1) by (simp add: threads_ok_def)
    then show ?thesis using known assms(3) by (simp add: task_thread_def)
  qed
  have "current (tn (put_thread i t' s)) = current (tn s)" "table (tn (put_thread i t' s)) = table (tn s)"
    "objs (tn (put_thread i t' s)) = objs (tn s)" by (simp_all add: put_thread_def Let_def)
  then show ?thesis
    using assms(2) task_thread_put(1) [of i s t'] known find_ethread_put [of i s t'] same
    by (auto simp: thread_from_handle_def Let_def split: option.splits if_splits)
qed

lemma task_thread_mem [simp]:
  "task_thread i (s\<lparr>tn := (tn s)\<lparr>gm := g\<rparr>\<rparr>) = task_thread i s" "task_thread i (task_yield s) = task_thread i s"
  "task_thread i (s\<lparr>tn := (tn s)\<lparr>gm := g, woken := w\<rparr>\<rparr>) = task_thread i s"
  by (simp_all add: task_thread_def task_yield_def split: option.split)

lemma find_ethread_mem [simp]:
  "find_ethread a (s\<lparr>tn := (tn s)\<lparr>gm := g\<rparr>\<rparr>) = find_ethread a s" "find_ethread a (task_yield s) = find_ethread a s"
  by (simp_all add: find_ethread_def task_yield_def)

lemma handle_after_mem [simp]:
  "thread_from_handle h (s\<lparr>tn := (tn s)\<lparr>gm := g\<rparr>\<rparr>) = thread_from_handle h s"
  "thread_from_handle h (task_yield s) = thread_from_handle h s"
proof -
  show "thread_from_handle h (s\<lparr>tn := (tn s)\<lparr>gm := g\<rparr>\<rparr>) = thread_from_handle h s"
    by (simp add: thread_from_handle_def Let_def split: option.split)
  have "current (tn (task_yield s)) = current (tn s)" "table (tn (task_yield s)) = table (tn s)"
    "objs (tn (task_yield s)) = objs (tn s)" by (simp_all add: task_yield_def)
  then show "thread_from_handle h (task_yield s) = thread_from_handle h s"
    by (simp add: thread_from_handle_def Let_def split: option.split)
qed

text \<open>
  A thread that is suspended does not run, and resuming it as often as it was suspended gives back
  the thread there was; the scheduler is told when it may run again.
\<close>

lemma suspend_then_resume:
  assumes ok: "threads_ok s" and h: "thread_from_handle h s = Some (i, t)" and "suspend_count t + 1 \<noteq> 0"
    and mapped: "g_mapped (gm (tn s)) (ethread t + KTHREAD_SuspendCount) 1"
  shows "\<exists>s1 s2. SuspendThread h 0 s = Inr (STATUS_SUCCESS, s1) \<and>
    (\<exists>u. task_thread i s1 = Some u \<and> suspend_count u = suspend_count t + 1 \<and> \<not> may_run now host_now u) \<and>
    ResumeThread h 0 s1 = Inr (STATUS_SUCCESS, s2) \<and> task_thread i s2 = Some t \<and>
    woken (tn s2) = (woken (tn s) \<or> suspend_count t = 0)"
proof -
  let ?t = "t\<lparr>suspend_count := suspend_count t + 1\<rparr>"
  have known: "task_thread i s = Some t" using h by (auto simp: thread_from_handle_def Let_def split: option.splits if_splits)
  have put: "\<exists>g'. write_suspend_count u g = Inr g' \<and> g_mapped g' (ethread t + KTHREAD_SuspendCount) 1"
    if m: "g_mapped g (ethread t + KTHREAD_SuspendCount) 1" and e: "ethread u = ethread t" for u g
  proof -
    obtain g' where g': "g_put 1 (ethread t + KTHREAD_SuspendCount) (ucast (suspend_count u) :: u8) g = Inr g'"
      using g_put_total [OF m] by blast
    show ?thesis using g_put_mapped [OF g'] g' m e by (cases "ethread t = 0") (simp_all add: write_suspend_count_def)
  qed
  obtain g1 where g1: "write_suspend_count ?t (gm (tn s)) = Inr g1" "g_mapped g1 (ethread t + KTHREAD_SuspendCount) 1"
    using put [OF mapped, of ?t] by auto
  let ?p = "put_thread i ?t s"
  let ?q = "?p\<lparr>tn := (tn ?p)\<lparr>gm := g1\<rparr>\<rparr>"
  let ?s1 = "if current (tn s) = Some i then task_yield ?q else ?q"
  have cur: "current (tn ?p) = current (tn s)" by (simp add: put_thread_def Let_def)
  have s1: "SuspendThread h 0 s = Inr (STATUS_SUCCESS, ?s1)"
    using h g1(1) cur by (simp add: SuspendThread_def suspend_def task_write_opt_def Let_def)
  have t1: "task_thread i ?s1 = Some ?t" using task_thread_put(1) [of i s ?t] known by simp
  have h1: "thread_from_handle h ?s1 = Some (i, ?t)" using handle_after_put [OF ok h, of ?t] by simp
  have gm1: "gm (tn ?s1) = g1" by (simp add: task_yield_def)
  have undo: "(?t)\<lparr>suspend_count := suspend_count ?t - 1\<rparr> = t" by simp
  obtain g2 where g2: "write_suspend_count t g1 = Inr g2" using put [OF g1(2), of t] by auto
  let ?r = "put_thread i t ?s1"
  let ?s2 = "?r\<lparr>tn := (tn ?r)\<lparr>gm := g2, woken := woken (tn ?r) \<or> suspend_count t = 0\<rparr>\<rparr>"
  have "ResumeThread h 0 ?s1 = Inr (STATUS_SUCCESS, ?s2)"
    unfolding ResumeThread_def h1 using assms(3) g2 undo gm1
    by (simp add: resume_thread_def task_write_opt_def Let_def)
  moreover have "task_thread i ?s2 = Some t" using task_thread_put(1) [of i ?s1 t] t1 by simp
  moreover have "woken (tn ?s2) = (woken (tn s) \<or> suspend_count t = 0)"
    by (simp add: put_thread_def task_yield_def Let_def)
  moreover have "\<not> may_run now host_now ?t" using assms(3) by (simp add: may_run_def)
  ultimately show ?thesis using s1 t1 by (intro exI [of _ ?s1] exI [of _ ?s2]) simp
qed

text \<open>
  An alert is kept for a thread that does not wait yet: its next wait for one returns at once, and
  only once however often it was alerted. A thread that waits is let go with STATUS_SUCCESS. But
  nobody tells the scheduler: a cpu that found nothing to run stays parked.
\<close>

lemma alert_kept:
  assumes "map_of (procthreads (tn s)) i = Some t" and "wait t = None" and "i < 2 ^ 32" and "current (tn s) = Some i"
  shows "\<exists>s1. AlertThreadByThreadId (of_nat i) s = Inr (STATUS_SUCCESS, s1) \<and>
    WaitForAlertByThreadId now host_now timeout s1 = Inr (STATUS_SUCCESS, put_thread i (t\<lparr>alerted := False\<rparr>) s1) \<and>
    AlertThreadByThreadId (of_nat i) s1 = Inr (STATUS_SUCCESS, s1)"
proof -
  have i: "unat (ucast (of_nat i :: u64) :: u32) = i"
    using assms(3) by (simp add: unsigned_ucast_eq unsigned_of_nat take_bit_nat_eq_self)
  let ?s1 = "put_thread i (t\<lparr>alerted := True\<rparr>) s"
  have m: "map_of (procthreads (tn ?s1)) i = Some (t\<lparr>alerted := True\<rparr>)" "current (tn ?s1) = Some i"
    using assms(1,4) by (simp_all add: put_thread_def Let_def map_of_put)
  have twice: "put_thread i u (put_thread i u s) = put_thread i u s" for u
    by (simp add: put_thread_def Let_def comp_def case_prod_beta)
  have "AlertThreadByThreadId (of_nat i) s = Inr (STATUS_SUCCESS, ?s1)"
    using assms(1,2) i by (simp add: AlertThreadByThreadId_def alert_def)
  moreover have "WaitForAlertByThreadId now host_now timeout ?s1 = Inr (STATUS_SUCCESS, put_thread i (t\<lparr>alerted := False\<rparr>) ?s1)"
    using m by (simp add: WaitForAlertByThreadId_def current_thread_def take_alert_def)
  moreover have "AlertThreadByThreadId (of_nat i) ?s1 = Inr (STATUS_SUCCESS, ?s1)"
    using m(1) assms(2) i by (simp add: AlertThreadByThreadId_def alert_def twice)
  ultimately show ?thesis by blast
qed

lemma alert_releases_quietly:
  assumes "map_of (procthreads (tn s)) i = Some t" and "i < 2 ^ 32" and "suspend_count t = 0"
    and "wait t = Some w" and "ws_objects w = []" and "\<not> ws_satisfied w" and "\<not> ws_timed w"
  shows "\<not> may_run now host_now t"
    "\<exists>s1 u. AlertThreadByThreadId (of_nat i) s = Inr (STATUS_SUCCESS, s1) \<and> task_thread i s1 = Some u \<and>
       may_run now host_now u \<and> ret_value (snd (is_ready now host_now u)) = STATUS_SUCCESS \<and> woken (tn s1) = woken (tn s)"
proof -
  have i: "unat (ucast (of_nat i :: u64) :: u32) = i"
    using assms(2) by (simp add: unsigned_ucast_eq unsigned_of_nat take_bit_nat_eq_self)
  show "\<not> may_run now host_now t" using assms(3-7) by (simp add: may_run_def)
  let ?u = "t\<lparr>wait := Some (w\<lparr>ws_status := STATUS_SUCCESS, ws_satisfied := True\<rparr>)\<rparr>"
  have "AlertThreadByThreadId (of_nat i) s = Inr (STATUS_SUCCESS, put_thread i ?u s)"
    using assms(1,4-6) i by (simp add: AlertThreadByThreadId_def alert_def)
  moreover have "task_thread i (put_thread i ?u s) = Some ?u"
    using task_thread_put(1) [of i s ?u] assms(1) by (simp add: task_thread_def)
  moreover have "may_run now host_now ?u" "ret_value (snd (is_ready now host_now ?u)) = STATUS_SUCCESS"
    using assms(3) by (simp_all add: may_run_def is_ready_def Let_def sleep_for_def)
  moreover have "woken (tn (put_thread i ?u s)) = woken (tn s)" by (simp add: put_thread_def Let_def)
  ultimately show "\<exists>s1 u. AlertThreadByThreadId (of_nat i) s = Inr (STATUS_SUCCESS, s1) \<and> task_thread i s1 = Some u \<and>
       may_run now host_now u \<and> ret_value (snd (is_ready now host_now u)) = STATUS_SUCCESS \<and> woken (tn s1) = woken (tn s)" by blast
qed

text \<open>A delay of less than a millisecond is none: the thread stays ready to run.\<close>

lemma short_delay_is_none:
  assumes "interval \<noteq> 0" and "g_get 8 interval (gm (tn s)) = Inr (v :: u64)" and "- 10000 < sint v" and "sint v < 0"
  shows "KeDelayExecutionThread now host_now interval s = Inr (STATUS_SUCCESS, task_yield s)"
proof -
  have "trunc_ms (- sint v) = 0" using assms(3,4) by (simp add: trunc_ms_def div_pos_pos_trivial)
  then show ?thesis using assms
    by (simp add: KeDelayExecutionThread_def delay_execution_def Let_def split: option.split)
qed

text \<open>The count in the ETHREAD is one byte: a thread suspended 256 times looks as if it were running.\<close>

lemma suspend_byte_wraps:
  assumes "suspend (t, g) = Inr (p, u, g')" and "suspend_count t = 0xFF" and "ethread t \<noteq> 0"
  shows "\<not> may_run now host_now u" "g_get 1 (ethread u + KTHREAD_SuspendCount) g' = Inr (0 :: u8)"
proof -
  have u: "u = t\<lparr>suspend_count := 0x100\<rparr>" "g_put 1 (ethread t + KTHREAD_SuspendCount) (ucast (0x100 :: u32) :: u8) g = Inr g'"
    using assms by (auto simp: suspend_def write_suspend_count_def Let_def split: sum.splits)
  show "\<not> may_run now host_now u" by (simp add: u(1) may_run_def)
  have "ucast (0x100 :: u32) = (0 :: u8)" by simp
  with g_get_put_same [OF u(2)] show "g_get 1 (ethread u + KTHREAD_SuspendCount) g' = Inr (0 :: u8)" by (simp add: u(1))
qed

end
