(* ===== verification/Spec2Isabelle.thy ===== *)
theory Spec2Isabelle
  imports Pool_Memory User_Vm Obj_Handles Filesystem Crt Scheduler Linked_List Nt_Sync Unwind_Arm64 Unwind_X64 Guest_Locks Ke_Sync Iocp Keyed_Event Timers Nt_Reg Nt_Section Nt_String Nt_Vm Nt_Lpc Nt_Mem Nt_Task
begin

text \<open>
  A verification library for kernemul, an emulator that boots Windows kernel drivers and user
  programs without Windows: a cpu backend executes guest code, and the program supplies the
  machine underneath it (guest physical memory, page tables, address spaces) and the kernel
  above it (pool, objects, handles, memory, registry, files, threads, waits).

  \<^bold>\<open>Parts and theories\<close> (paths below src/src)

  \<^item> \<open>Prelude\<close>: machine integers, alignment, bit-fields, little-endian encoding, C++ exceptions
    as values of \<open>emu_error\<close>. \<open>Std_Map\<close>: \<open>std::map\<close> and \<open>std::unordered_map\<close> behind the locale
    \<open>finite_map\<close>, and region maps. \<open>Nt_Defs\<close>: the status codes of kernel/win/status.hpp.
  \<^item> \<open>Phys_Mem\<close>: the memory blocks of \<open>unicorn_emu_base\<close> (emu/unicorn_base.hpp) and the frame
    allocator of \<open>class mmu\<close> (emu/mmu.cpp). State: the list of blocks, the cursor \<open>phys_next\<close>.
  \<^item> \<open>Page_Tables\<close>, \<open>Page_Copy\<close>, \<open>Page_Maps\<close>: what the two memory units share, with the invariant
    \<open>tables_ok\<close> and the locales \<open>page_mapper\<close>, \<open>copy_range\<close>, \<open>data_space\<close>. \<open>X86_Mmu\<close> is
    emu/x86/mmu.cpp and addr_space.hpp, \<open>Arm64_Mmu\<close> emu/arm64/mmu.cpp and addr_space.hpp; both
    interpret the locales on their own operations. The layout of the vendored page-table
    bit-fields is the parameter \<open>ia32\<close> with the documented layout as its hypothesis.
  \<^item> \<open>Pool\<close>, \<open>Pool_Memory\<close>: kernel/win/pool.cpp over the locale \<open>run_source\<close>, which both address
    spaces are shown to satisfy.
  \<^item> \<open>User_Mem\<close>, \<open>User_Regions\<close>, \<open>User_Alloc\<close>, \<open>User_Vm\<close>: kernel/win/win_user_mem.cpp, the
    reserved and committed regions of a process, over any memory unit.
  \<^item> \<open>Guest_Mem\<close>: guest memory as the kernel objects see it (emu/object.hpp, addr_space.hpp), a
    partial map from addresses to bytes. \<open>Names\<close>: util/string.hpp and kernel/win/string.hpp.
  \<^item> \<open>Obj_Manager\<close>, \<open>Obj_Handles\<close>: kernel/win/win_obj_manager.cpp and win_handle_table.cpp, with
    the critical sections of all processes interleaved as the steps of a relation.
  \<^item> \<open>Registry\<close> is kernel/win/registry.cpp, \<open>Filesystem\<close> kernel/win/filesystem.cpp, \<open>Crt\<close> the
    string routines of modules/nt_crt_ops.cpp, \<open>Linked_List\<close> kernel/win/linked_list.hpp.
  \<^item> \<open>Dispatcher\<close>: kernel/win/dispatcher.hpp and the waits of kernel/win/thread.cpp.
    \<open>Scheduler\<close>: kernel/thread_scheduler.hpp, every cpu a process of the relation \<open>sched_step\<close>.
    \<open>Nt_Sync\<close>: events, semaphores, mutants and waits of modules/nt_dispatch_ops.cpp and
    nt_wait_ops.cpp, and \<open>wake_waiters\<close> of kernel/win/process.cpp.
  \<^item> \<open>Unwind\<close>, \<open>Unwind_Arm64\<close>, \<open>Unwind_X64\<close>: kernel/win/unwind, the function table searches, the
    scope table search, the stack walk and the two unwinders. State: the context that is unwound.
    The unwind information of the vendored PE library is a parameter on x64; on arm64 the code
    parses it itself and so does the model.
  \<^item> \<open>Guest_Struct\<close>: structures in guest memory, and the locale \<open>simulation\<close>: sequences of calls
    against a specification. \<open>Guest_Locks\<close> (modules/nt_lock_ops.cpp, kernel/win/rundown.hpp),
    \<open>Iocp\<close> (nt_iocp_ops.cpp) and \<open>Timers\<close> (nt_timer_ops.cpp) interpret it on their own calls.
  \<^item> \<open>Wait_Queue\<close>: the threads queued on one object. \<open>Ke_Sync\<close> (nt_sync_ops.cpp, nt_irql_ops.cpp)
    and \<open>Keyed_Event\<close> (the keyed events of nt_dispatch_ops.cpp) hand such threads over.
  \<^item> \<open>Nt_Reg\<close>: modules/nt_reg_ops.cpp over \<open>Registry\<close>. \<open>Ob_Callbacks\<close>: the handle callbacks of
    win_kernel.hpp and their registration in modules/nt_object_ops.cpp; \<open>Nt_Object\<close>: the rest of
    that file. A guest callback is an argument. \<open>Nt_File\<close>: the files and devices of
    modules/nt_io_ops.cpp over \<open>Filesystem\<close>. \<open>Nt_Pool\<close>: modules/nt_pool_ops.cpp over \<open>Pool\<close>, for any
    memory unit. \<open>Nt_String\<close>: modules/nt_string_ops.cpp over \<open>Names\<close> and the pool.
    \<open>Nt_Vm\<close>: the memory services of modules/nt_vm_ops.cpp over \<open>User_Vm\<close>, \<open>Nt_Section\<close> its sections.
  \<^item> \<open>Nt_Lpc\<close>: modules/nt_lpc_ops.cpp, ports and their queues of messages. \<open>Nt_Mem\<close>:
    modules/nt_mem_ops.cpp and kernel/win/mdl.hpp over the pool and the sections. \<open>Nt_Task\<close>: the
    thread and process services of modules/nt_task_ops.cpp and nt_thread_ops.cpp.

  \<^bold>\<open>What is shown\<close>

  Guest frames are fresh, backed and disjoint, and memory reads back what was written (C1).
  Both memory units map, unmap and protect exactly the pages asked for, allocate ranges that read
  back what is written, and give every address space the kernel half of the one it is made from
  (C3, C5-C10). The pool refines a map from addresses to live allocations (C15, C16). The user memory
  services refine a map from pages to their state, faults are handled exactly where a page is
  accessible or guarded, and the search for room ends (C18-C23). Handle counts in guest memory are
  exact in every interleaving (C24, C25); enumerations of the namespace, the registry and
  directories are exactly what is below (C27-C29). Bounded copies stay in their buffers (C31). A wait takes what it
  promises and readiness is decided once (C32). A thread is in one place at a time, a cpu
  leaves only when nothing is left, a turn takes the first ready thread (C34-C36). The guest's
  lists stay rings (C37). Signalling an object releases every waiter it can and no other
  (C38, C39).
  A completion port is a queue (C2), push locks and resources are the locks they stand for
  (C17, C26), a fast mutex is handed to the first thread queued (C14), and the two sides of a
  keyed event meet one to one (C33). Unwinding undoes what a prologue did (C12, C40).
  A registry value is read back as it was set (C30), and the callbacks registered for an object
  type decide the access of a handle (C11). Listing an object directory ends with every
  child (C13), and an open file is its bytes and one position per open (C4).

  \<^bold>\<open>Bounds and fuel\<close>

  Loops over page ranges recurse on the number of pages. The search of \<open>pick_base\<close> has one turn
  more than there are reservations, which is shown to be enough. A walk over a guest list has a
  step bound; more steps than entries are shown to be enough, and running out is the error
  \<open>Does_not_return\<close>. Unwind codes are replayed with one turn per byte, which is enough since
  every code has at least one; a chain of x64 unwind information has a bound that the theorem
  leaves free. All other recursion is structural. Words keep the widths of the sources;
  signed sums wrap.

  \<^bold>\<open>Not modelled\<close>

  The generated guest types (only offsets and sizes are used), the cpu backends (calls into unicorn
  and the Windows hypervisor platform), symbol files and their download, logging, the command line,
  host directories and sockets have no logic of their own to state. A log call is left out together
  with the guest memory it reads for its text. Loading modules and dispatching structured
  exceptions rest on the vendored PE library and on running guest code, and making and ending
  threads and processes on the boot code that lays out guest structures; the information services
  and the stubs of other kernel modules fill buffers with facts about the host. The offsets are
  those of x64; the arm64 layouts differ in numbers only.
\<close>

end
